(* ===== verification/Go_Prelude.thy ===== *)
theory Go_Prelude
  imports Complex_Main "HOL-Library.Word" "HOL-Library.AList"
begin

text \<open>
  Shared vocabulary of the development: the Go types the components use, the error
  monad their early returns are translated to, the byte orders of \<^verbatim>\<open>encoding/binary\<close>,
  and the generic lemmas on lists, options, maps and words that the component theories
  rest on.

  Conventions. A Go \<^verbatim>\<open>byte\<close> is an \<^verbatim>\<open>8 word\<close> and a fixed width integer a word of that
  width; a Go \<^verbatim>\<open>int\<close> is an \<^verbatim>\<open>int\<close> (the values that occur are far below \<open>2 ^ 63\<close>) unless
  a guard makes it a count, when it is a \<^verbatim>\<open>nat\<close>. A slice is a list, a map a partial
  function, a fallible function returns \<open>'e + 'a\<close> with \<open>Inl\<close> for the error.
\<close>

unbundle bit_operations_syntax

type_synonym byte = "8 word"
type_synonym bytes = "8 word list"

text \<open>Facts that unfold an operation of the code, and facts about its invariants.\<close>

named_theorems go_def \<open>definitions of operations, unfolded in component proofs\<close>
named_theorems go_inv \<open>preservation of component invariants\<close>

section \<open>Results\<close>

text \<open>Sequencing of a call that may return an error: \<^verbatim>\<open>if err != nil { return err }\<close>.\<close>

fun rbind :: "'e + 'a \<Rightarrow> ('a \<Rightarrow> 'e + 'b) \<Rightarrow> 'e + 'b" where
  "rbind (Inl e) f = Inl e"
| "rbind (Inr x) f = f x"

lemma rbind_eq_Inr [simp]: "rbind m f = Inr y \<longleftrightarrow> (\<exists>x. m = Inr x \<and> f x = Inr y)"
  by (cases m) auto

lemma rbind_eq_Inl: "rbind m f = Inl e \<longleftrightarrow> m = Inl e \<or> (\<exists>x. m = Inr x \<and> f x = Inl e)"
  by (cases m) auto

text \<open>A loop over a slice whose body may return early with an error.\<close>

fun rfold :: "('a \<Rightarrow> 's \<Rightarrow> 'e + 's) \<Rightarrow> 'a list \<Rightarrow> 's \<Rightarrow> 'e + 's" where
  "rfold f [] s = Inr s"
| "rfold f (x # xs) s = (case f x s of Inl e \<Rightarrow> Inl e | Inr s' \<Rightarrow> rfold f xs s')"

lemma rfold_invariant:
  assumes "rfold f xs s = Inr t" "P s" "\<And>x s s'. x \<in> set xs \<Longrightarrow> P s \<Longrightarrow> f x s = Inr s' \<Longrightarrow> P s'"
  shows "P t"
  using assms
proof (induction xs arbitrary: s)
  case Nil
  then show ?case by simp
next
  case (Cons x xs)
  then obtain s' where s': "f x s = Inr s'" "rfold f xs s' = Inr t"
    by (auto split: sum.splits)
  have "P s'" by (rule Cons.prems(3)[OF _ Cons.prems(2) s'(1)]) simp
  with s'(2) show ?case using Cons.prems(3) by (rule Cons.IH) auto
qed

lemma rfold_append:
  "rfold f (xs @ ys) s = rbind (rfold f xs s) (rfold f ys)"
  by (induction xs arbitrary: s) (auto split: sum.splits)

lemma rfold_snoc_Inr:
  "rfold f (xs @ [x]) s = Inr t \<longleftrightarrow> (\<exists>a. rfold f xs s = Inr a \<and> f x a = Inr t)"
  by (cases "rfold f xs s"; cases "f x (projr (rfold f xs s))") (auto simp: rfold_append)

section \<open>Lists\<close>

text \<open>The number of chunks of size \<open>k\<close> that cover \<open>n\<close> bytes, \<^verbatim>\<open>(n + k - 1) / k\<close>.\<close>

definition ceil_div :: "nat \<Rightarrow> nat \<Rightarrow> nat" where
  "ceil_div n k = (n + k - 1) div k"

lemma ceil_div_le_mult: "0 < k \<Longrightarrow> n \<le> ceil_div n k * k"
proof -
  assume k: "0 < k"
  have "n + k - 1 = (n + k - 1) div k * k + (n + k - 1) mod k" by simp
  moreover have "(n + k - 1) mod k < k" using k by simp
  ultimately show ?thesis unfolding ceil_div_def by linarith
qed

lemma ceil_div_pos: "0 < n \<Longrightarrow> 0 < k \<Longrightarrow> 0 < ceil_div n k"
  using ceil_div_le_mult[of k n] by (cases "ceil_div n k") auto

lemma concat_nth_uniform:
  assumes "\<And>xs. xs \<in> set xss \<Longrightarrow> length xs = k" "j < k" "i < length xss"
  shows "concat xss ! (i * k + j) = xss ! i ! j"
  using assms
proof (induction xss arbitrary: i)
  case Nil
  then show ?case by simp
next
  case (Cons xs xss)
  show ?case
  proof (cases i)
    case 0
    with Cons.prems show ?thesis by (simp add: nth_append)
  next
    case (Suc m)
    with Cons show ?thesis by (simp add: nth_append)
  qed
qed

lemma length_concat_uniform:
  "(\<And>xs. xs \<in> set xss \<Longrightarrow> length xs = k) \<Longrightarrow> length (concat xss) = length xss * k"
  by (induction xss) auto

text \<open>The slice expression \<^verbatim>\<open>xs[a:b]\<close>.\<close>

definition slice :: "nat \<Rightarrow> nat \<Rightarrow> 'a list \<Rightarrow> 'a list" where
  "slice a b xs = take (b - a) (drop a xs)"

lemma length_slice [simp]: "b \<le> length xs \<Longrightarrow> length (slice a b xs) = b - a"
  by (auto simp: slice_def)

lemma slice_append_left: "b \<le> length xs \<Longrightarrow> slice a b (xs @ ys) = slice a b xs"
  by (simp add: slice_def)

lemma slice_append_right: "length xs \<le> a \<Longrightarrow> slice a b (xs @ ys) = slice (a - length xs) (b - length xs) ys"
  by (simp add: slice_def)

lemma slice_exact: "length xs = b - a \<Longrightarrow> length us = a \<Longrightarrow> slice a b (us @ xs @ ys) = xs"
  by (simp add: slice_def)

lemma drop_slice: "a \<le> b \<Longrightarrow> drop a xs = slice a b xs @ drop b xs"
  unfolding slice_def by (metis append_take_drop_id drop_drop le_add_diff_inverse2)

section \<open>Maps\<close>

text \<open>
  A Go map is an association list with distinct keys: \<open>map_of\<close> reads it, \<open>AList.update\<close> writes
  and \<open>AList.delete\<close> deletes an entry, \<open>length\<close> is \<^verbatim>\<open>len\<close>. The iteration order of a map is not specified
  in Go; a definition that iterates takes the order as an argument.
\<close>

lemma alist_lookup_in: "map_of m k = Some v \<Longrightarrow> (k, v) \<in> set m"
  by (rule map_of_SomeD)

lemma set_update_subset: "set (AList.update k v m) \<subseteq> insert (k, v) (set m)"
  by (induction m) auto

lemma set_delete_subset: "set (AList.delete k m) \<subseteq> {x \<in> set m. fst x \<noteq> k}"
  by (auto simp: AList.delete_eq)

lemma update_absent: "map_of m k = None \<Longrightarrow> AList.update k v m = m @ [(k, v)]"
  by (induction m) (auto split: if_splits)

lemma map_of_delete [simp]: "map_of (AList.delete k m) k' = (if k' = k then None else map_of m k')"
  by (simp add: AList.delete_conv)

lemma map_of_update [simp]: "map_of (AList.update k v m) k' = (if k' = k then Some v else map_of m k')"
  by (simp add: AList.update_conv)

lemma distinct_keys_filter: "distinct (map fst m) \<Longrightarrow> distinct (map fst (filter P m))"
  by (rule distinct_map_filter)

section \<open>Byte orders\<close>

text \<open>
  \<^verbatim>\<open>encoding/binary\<close>: the little and big endian encodings of an unsigned value in \<open>k\<close> bytes.
  A value that does not fit is truncated, as the conversion \<^verbatim>\<open>uint16(v)\<close> does.
\<close>

fun le_bytes :: "nat \<Rightarrow> nat \<Rightarrow> bytes" where
  "le_bytes 0 v = []"
| "le_bytes (Suc k) v = word_of_nat v # le_bytes k (v div 256)"

fun le_nat :: "bytes \<Rightarrow> nat" where
  "le_nat [] = 0"
| "le_nat (b # bs) = unat b + 256 * le_nat bs"

definition be_bytes :: "nat \<Rightarrow> nat \<Rightarrow> bytes" where
  "be_bytes k v = rev (le_bytes k v)"

definition be_nat :: "bytes \<Rightarrow> nat" where
  "be_nat bs = le_nat (rev bs)"

lemma length_le_bytes [simp]: "length (le_bytes k v) = k"
  by (induction k arbitrary: v) auto

lemma length_be_bytes [simp]: "length (be_bytes k v) = k"
  by (simp add: be_bytes_def)

lemma unat_word_of_nat_byte: "unat (word_of_nat v :: byte) = v mod 256"
  by (simp add: unsigned_of_nat take_bit_eq_mod)

lemma word_of_nat_byte_eq: "(word_of_nat a :: byte) = word_of_nat b \<longleftrightarrow> a mod 256 = b mod 256"
  by (simp add: word_of_nat_eq_iff take_bit_eq_mod)

lemma word_of_nat_unat: "word_of_nat (unat b) = (b :: byte)"
  by simp

lemma le_nat_le_bytes: "le_nat (le_bytes k v) = v mod 256 ^ k"
proof (induction k arbitrary: v)
  case 0
  then show ?case by simp
next
  case (Suc k)
  then show ?case by (simp add: unat_word_of_nat_byte mod_mult2_eq)
qed

lemma be_nat_be_bytes: "be_nat (be_bytes k v) = v mod 256 ^ k"
  by (simp add: be_nat_def be_bytes_def le_nat_le_bytes)

lemma unat_byte_less: "unat (b :: byte) < 256"
  using unsigned_less[of b] by simp

lemma le_nat_less: "le_nat bs < 256 ^ length bs"
proof (induction bs)
  case Nil
  then show ?case by simp
next
  case (Cons b bs)
  then show ?case using unat_byte_less[of b] by simp
qed

lemma be_nat_less: "be_nat bs < 256 ^ length bs"
  using le_nat_less[of "rev bs"] by (simp add: be_nat_def)

lemma le_bytes_le_nat: "k = length bs \<Longrightarrow> le_bytes k (le_nat bs) = bs"
proof (induction bs arbitrary: k)
  case Nil
  then show ?case by simp
next
  case (Cons b bs)
  have "(word_of_nat (unat b + 256 * le_nat bs) :: byte) = word_of_nat (unat b)"
    by (simp only: word_of_nat_byte_eq) simp
  also have "\<dots> = b" by (rule word_of_nat_unat)
  finally have "(word_of_nat (unat b + 256 * le_nat bs) :: byte) = b" .
  then show ?case using Cons unat_byte_less[of b] by simp
qed

lemma be_bytes_be_nat: "k = length bs \<Longrightarrow> be_bytes k (be_nat bs) = bs"
  by (simp add: be_bytes_def be_nat_def le_bytes_le_nat)

section \<open>State machines\<close>

text \<open>
  A component with operations \<open>op\<close>, state \<open>s\<close> and an output per operation. \<open>run\<close> applies a sequence of
  operations and collects the outputs; the locale gives what holds of every reachable state of
  a component whose operations keep an invariant.
\<close>

fun run :: "('op \<Rightarrow> 's \<Rightarrow> 's \<times> 'out) \<Rightarrow> 'op list \<Rightarrow> 's \<Rightarrow> 's \<times> 'out list" where
  "run step [] s = (s, [])"
| "run step (x # xs) s = (let r1 = step x s; r2 = run step xs (fst r1) in (fst r2, snd r1 # snd r2))"

lemma run_append:
  "run step (xs @ ys) s = (let r1 = run step xs s; r2 = run step ys (fst r1) in (fst r2, snd r1 @ snd r2))"
  by (induction xs arbitrary: s) (simp_all add: Let_def)

lemma length_run [simp]: "length (snd (run step xs s)) = length xs"
  by (induction xs arbitrary: s) (simp_all add: Let_def)

locale state_machine =
  fixes step :: "'op \<Rightarrow> 's \<Rightarrow> 's \<times> 'out" and inv :: "'s \<Rightarrow> bool"
  assumes step_inv: "inv s \<Longrightarrow> inv (fst (step x s))"
begin

lemma run_inv: "inv s \<Longrightarrow> inv (fst (run step xs s))"
proof (induction xs arbitrary: s)
  case Nil
  then show ?case by simp
next
  case (Cons x xs)
  from Cons.IH[OF step_inv[OF Cons.prems, of x]] show ?case by (simp add: Let_def)
qed

lemma run_output:
  assumes "inv s" "out \<in> set (snd (run step xs s))"
  obtains t x where "inv t" "out = snd (step x t)" "x \<in> set xs"
  using assms
proof (induction xs arbitrary: s thesis)
  case Nil
  then show ?case by simp
next
  case (Cons x xs)
  show ?case
  proof (cases "out = snd (step x s)")
    case True
    then show ?thesis using Cons.prems by auto
  next
    case False
    then have "out \<in> set (snd (run step xs (fst (step x s))))"
      using Cons.prems(3) by (simp add: Let_def)
    from Cons.IH[OF _ step_inv[OF Cons.prems(2)] this] Cons.prems(1) show ?thesis by auto
  qed
qed

end

section \<open>Signed 64-bit arithmetic\<close>

text \<open>Go's \<^verbatim>\<open>int\<close>, \<^verbatim>\<open>int64\<close> and \<^verbatim>\<open>time.Duration\<close> wrap around; its division truncates towards zero.\<close>

definition wrap64 :: "int \<Rightarrow> int" where
  "wrap64 x = (x + 2 ^ 63) mod 2 ^ 64 - 2 ^ 63"

definition quot :: "int \<Rightarrow> int \<Rightarrow> int" where
  "quot a b = sgn a * sgn b * (\<bar>a\<bar> div \<bar>b\<bar>)"

lemma wrap64_id: "- (2 ^ 63) \<le> x \<Longrightarrow> x < 2 ^ 63 \<Longrightarrow> wrap64 x = x"
  by (simp add: wrap64_def)

lemma quot_div: "0 \<le> a \<Longrightarrow> 0 < b \<Longrightarrow> quot a b = a div b"
  by (cases "a = 0") (simp_all add: quot_def sgn_if)

section \<open>Key sizes\<close>

text \<open>The sizes of \<^verbatim>\<open>crypto/ed25519\<close>, and the nonce of AES-GCM.\<close>

definition PublicKeySize :: nat where "PublicKeySize = 32"
definition SignatureSize :: nat where "SignatureSize = 64"
definition PrivateKeySize :: nat where "PrivateKeySize = 64"
definition GcmNonceSize :: nat where "GcmNonceSize = 12"

end
