(* ===== verification/Go_Strings.thy ===== *)
theory Go_Strings
  imports Go_Prelude "HOL-Library.Char_ord" "HOL-Library.List_Lexorder"
begin

text \<open>
  Go strings are byte strings, here lists of \<^verbatim>\<open>char\<close> with the lexicographic order that Go's
  comparison operators use. \<^verbatim>\<open>strings.TrimSpace\<close> removes the Unicode white space at both ends; the
  white space characters are listed by their UTF-8 encodings. \<^verbatim>\<open>Itoa\<close> is the decimal form that the
  verb \<^verbatim>\<open>%d\<close> prints.
\<close>

section \<open>Trimming\<close>

definition space_seqs :: "string list" where
  "space_seqs =
     map (\<lambda>c. [c]) [CHR 0x09, CHR 0x0A, CHR 0x0B, CHR 0x0C, CHR 0x0D, CHR 0x20] @
     [[CHR 0xC2, CHR 0x85], [CHR 0xC2, CHR 0xA0], [CHR 0xE1, CHR 0x9A, CHR 0x80]] @
     map (\<lambda>c. [CHR 0xE2, CHR 0x80, c])
       [CHR 0x80, CHR 0x81, CHR 0x82, CHR 0x83, CHR 0x84, CHR 0x85, CHR 0x86, CHR 0x87, CHR 0x88, CHR 0x89, CHR 0x8A,
        CHR 0xA8, CHR 0xA9, CHR 0xAF] @
     [[CHR 0xE2, CHR 0x81, CHR 0x9F], [CHR 0xE3, CHR 0x80, CHR 0x80]]"

definition leads :: "string \<Rightarrow> string \<Rightarrow> bool" where
  "leads p s \<longleftrightarrow> take (length p) s = p"

definition space_prefix :: "string \<Rightarrow> nat" where
  "space_prefix s = (case find (\<lambda>p. leads p s) space_seqs of None \<Rightarrow> 0 | Some p \<Rightarrow> length p)"

definition space_suffix :: "string \<Rightarrow> nat" where
  "space_suffix s = (case find (\<lambda>p. leads (rev p) (rev s)) space_seqs of None \<Rightarrow> 0 | Some p \<Rightarrow> length p)"

lemma space_seqs_nonempty: "p \<in> set space_seqs \<Longrightarrow> 0 < length p"
  by (auto simp: space_seqs_def)

lemma leads_length: "leads p s \<Longrightarrow> length p \<le> length s"
  unfolding leads_def by (metis length_take min.cobounded1)

lemma find_seq: "find P xs = Some p \<Longrightarrow> p \<in> set xs \<and> P p"
  by (auto simp: find_Some_iff)

lemma space_prefix_le: "space_prefix s \<le> length s"
  by (auto simp: space_prefix_def split: option.splits dest!: find_seq leads_length)

lemma space_suffix_le: "space_suffix s \<le> length s"
  by (auto simp: space_suffix_def split: option.splits dest!: find_seq leads_length)

function TrimLeft :: "string \<Rightarrow> string" where
  "TrimLeft s = (if space_prefix s = 0 then s else TrimLeft (drop (space_prefix s) s))"
  by auto
termination
proof (relation "measure length")
  fix s assume "space_prefix s \<noteq> 0"
  then show "(drop (space_prefix s) s, s) \<in> measure length"
    using space_prefix_le[of s] by auto
qed simp

function TrimRight :: "string \<Rightarrow> string" where
  "TrimRight s = (if space_suffix s = 0 then s else TrimRight (take (length s - space_suffix s) s))"
  by auto
termination
proof (relation "measure length")
  fix s assume "space_suffix s \<noteq> 0"
  then show "(take (length s - space_suffix s) s, s) \<in> measure length"
    using space_suffix_le[of s] by auto
qed simp

declare TrimLeft.simps [simp del] TrimRight.simps [simp del]

definition TrimSpace :: "string \<Rightarrow> string" where
  "TrimSpace s = TrimRight (TrimLeft s)"

lemma TrimLeft_prefix_free: "space_prefix (TrimLeft s) = 0"
  by (induction s rule: TrimLeft.induct) (subst TrimLeft.simps, auto)

lemma TrimRight_suffix_free: "space_suffix (TrimRight s) = 0"
  by (induction s rule: TrimRight.induct) (subst TrimRight.simps, auto)

lemma TrimRight_take: "\<exists>n. TrimRight s = take n s"
proof (induction s rule: TrimRight.induct)
  case (1 s)
  then show ?case by (subst TrimRight.simps) (force intro: exI[of _ "length s"])
qed

lemma space_prefix_take:
  assumes "space_prefix s = 0"
  shows "space_prefix (take n s) = 0"
proof -
  have none: "\<not> leads p s" if p: "p \<in> set space_seqs" for p
  proof
    assume "leads p s"
    then obtain q where q: "find (\<lambda>p. leads p s) space_seqs = Some q"
      using p by (cases "find (\<lambda>p. leads p s) space_seqs") (auto simp: find_None_iff)
    then show False using assms space_seqs_nonempty[of q] find_seq[OF q] by (simp add: space_prefix_def)
  qed
  have "\<not> leads p (take n s)" if "p \<in> set space_seqs" for p
  proof
    assume "leads p (take n s)"
    then have "take (length p) (take n s) = p" "length p \<le> length (take n s)"
      by (simp add: leads_def, rule leads_length)
    then have "leads p s" by (simp add: leads_def min_def split: if_splits)
    with none that show False by blast
  qed
  then have "find (\<lambda>p. leads p (take n s)) space_seqs = None" by (simp add: find_None_iff)
  then show ?thesis by (simp add: space_prefix_def)
qed

text \<open>Trimming is idempotent: a trimmed key stays the same key.\<close>

lemma TrimSpace_idem [simp]: "TrimSpace (TrimSpace s) = TrimSpace s"
proof -
  obtain n where n: "TrimRight (TrimLeft s) = take n (TrimLeft s)" using TrimRight_take by blast
  have "space_prefix (TrimSpace s) = 0"
    by (simp add: TrimSpace_def n space_prefix_take TrimLeft_prefix_free)
  then have "TrimLeft (TrimSpace s) = TrimSpace s" by (subst TrimLeft.simps) simp
  moreover have "TrimRight (TrimSpace s) = TrimSpace s"
    by (subst TrimRight.simps) (simp add: TrimSpace_def TrimRight_suffix_free)
  ultimately show ?thesis by (simp add: TrimSpace_def)
qed

lemma length_TrimSpace: "length (TrimSpace s) \<le> length s"
proof -
  have "length (TrimLeft t) \<le> length t" for t
    by (induction t rule: TrimLeft.induct) (subst TrimLeft.simps, auto)
  moreover have "length (TrimRight t) \<le> length t" for t
    by (induction t rule: TrimRight.induct) (subst TrimRight.simps, auto)
  ultimately show ?thesis unfolding TrimSpace_def by (meson order_trans)
qed

lemma TrimSpace_Nil [simp]: "TrimSpace [] = []"
  using length_TrimSpace[of "[]"] by simp

text \<open>Evaluation of the trimming functions on literals.\<close>

lemma TrimSpace_clean: "space_prefix s = 0 \<Longrightarrow> space_suffix s = 0 \<Longrightarrow> TrimSpace s = s"
  by (simp add: TrimSpace_def TrimLeft.simps TrimRight.simps)

lemmas trim_eval = space_prefix_def space_suffix_def space_seqs_def leads_def

section \<open>Decimal numbers\<close>

definition digit_char :: "nat \<Rightarrow> char" where
  "digit_char d = char_of (48 + d)"

fun dec_digits :: "nat \<Rightarrow> string" where
  "dec_digits n = (if n < 10 then [digit_char n] else dec_digits (n div 10) @ [digit_char (n mod 10)])"

declare dec_digits.simps [simp del]

definition Itoa :: "int \<Rightarrow> string" where
  "Itoa i = (if i < 0 then CHR ''-'' # dec_digits (nat (- i)) else dec_digits (nat i))"

definition digit_value :: "char \<Rightarrow> nat" where
  "digit_value c = of_char c - 48"

definition dec_value :: "string \<Rightarrow> nat" where
  "dec_value s = foldl (\<lambda>v c. 10 * v + digit_value c) 0 s"

lemma digit_value_char [simp]: "d < 10 \<Longrightarrow> digit_value (digit_char d) = d"
  by (simp add: digit_value_def digit_char_def)

lemma dec_value_digits [simp]: "dec_value (dec_digits n) = n"
proof (induction n rule: dec_digits.induct)
  case (1 n)
  then show ?case by (subst dec_digits.simps) (auto simp: dec_value_def)
qed

lemma dec_digits_inject [simp]: "dec_digits a = dec_digits b \<longleftrightarrow> a = b"
  by (metis dec_value_digits)

lemma dec_digits_chars: "c \<in> set (dec_digits n) \<Longrightarrow> \<exists>d<10. c = digit_char d"
proof (induction n rule: dec_digits.induct)
  case (1 n)
  show ?case
    using 1 by (subst (asm) (2) dec_digits.simps) (auto split: if_splits intro: exI[of _ "n mod 10"])
qed

lemma dec_digits_no_bar: "CHR ''|'' \<notin> set (dec_digits n)" "CHR ''-'' \<notin> set (dec_digits n)"
proof -
  have "digit_char d \<noteq> CHR ''|''" "digit_char d \<noteq> CHR ''-''" if "d < 10" for d
    using that by (auto simp: digit_char_def dest!: arg_cong[where f = "of_char :: char \<Rightarrow> nat"])
  then show "CHR ''|'' \<notin> set (dec_digits n)" "CHR ''-'' \<notin> set (dec_digits n)"
    by (metis dec_digits_chars)+
qed

lemma Itoa_inject [simp]: "Itoa a = Itoa b \<longleftrightarrow> a = b"
proof
  assume eq: "Itoa a = Itoa b"
  have no: "dec_digits n \<noteq> CHR ''-'' # xs" for n xs
    using dec_digits_no_bar(2)[of n] by auto
  from eq show "a = b" by (auto simp: Itoa_def no no[symmetric] split: if_splits)
qed simp

section \<open>Printable strings\<close>

text \<open>A string of printable ASCII characters other than the space is not changed by trimming.\<close>

definition plain_char :: "char \<Rightarrow> bool" where
  "plain_char c \<longleftrightarrow> 32 < (of_char c :: nat) \<and> (of_char c :: nat) < 128"

definition plain :: "string \<Rightarrow> bool" where
  "plain s \<longleftrightarrow> (\<forall>c \<in> set s. plain_char c)"

lemma plain_append [simp]: "plain (s @ t) \<longleftrightarrow> plain s \<and> plain t"
  by (auto simp: plain_def)

lemma plain_simps [simp]: "plain []" "plain (c # s) \<longleftrightarrow> plain_char c \<and> plain s"
  by (auto simp: plain_def)

lemma plain_take [simp]: "plain s \<Longrightarrow> plain (take n s)"
  by (auto simp: plain_def dest: in_set_takeD)

lemma space_seqs_not_plain: "p \<in> set space_seqs \<Longrightarrow> \<not> plain_char (hd p) \<and> \<not> plain_char (last p)"
proof -
  have "list_all (\<lambda>p. \<not> plain_char (hd p) \<and> \<not> plain_char (last p)) space_seqs" by (simp add: space_seqs_def plain_char_def)
  then show "p \<in> set space_seqs \<Longrightarrow> \<not> plain_char (hd p) \<and> \<not> plain_char (last p)" by (simp add: list_all_iff)
qed

lemma leads_hd_eq: "leads p s \<Longrightarrow> p \<noteq> [] \<Longrightarrow> hd p = hd s"
  unfolding leads_def by (metis hd_take length_greater_0_conv)

lemma TrimSpace_ends:
  assumes "s \<noteq> []" "plain_char (hd s)" "plain_char (last s)"
  shows "TrimSpace s = s"
proof (rule TrimSpace_clean)
  have "\<not> leads p s" "\<not> leads (rev p) (rev s)" if "p \<in> set space_seqs" for p
    using space_seqs_not_plain[OF that] space_seqs_nonempty[OF that] leads_hd_eq[of p s] leads_hd_eq[of "rev p" "rev s"] assms
    by (auto simp: hd_rev)
  then have "find (\<lambda>p. leads p s) space_seqs = None" "find (\<lambda>p. leads (rev p) (rev s)) space_seqs = None"
    by (auto simp: find_None_iff)
  then show "space_prefix s = 0" "space_suffix s = 0" by (simp_all add: space_prefix_def space_suffix_def)
qed

lemma TrimSpace_plain: "plain s \<Longrightarrow> TrimSpace s = s"
  by (cases "s = []") (auto intro!: TrimSpace_ends simp: plain_def)

lemma plain_dec_digits [simp]: "plain (dec_digits n)"
proof -
  have "plain_char (digit_char d)" if "d < 10" for d
    using that by (simp add: plain_char_def digit_char_def)
  then show ?thesis by (metis dec_digits_chars plain_def)
qed

lemma plain_Itoa [simp]: "plain (Itoa i)"
  by (simp add: Itoa_def plain_char_def)

section \<open>Strings and bytes\<close>

text \<open>The conversions \<^verbatim>\<open>[]byte(s)\<close> and \<^verbatim>\<open>string(b)\<close>.\<close>

definition str_bytes :: "string \<Rightarrow> bytes" where
  "str_bytes s = map (word_of_nat \<circ> of_char) s"

definition bytes_string :: "bytes \<Rightarrow> string" where
  "bytes_string bs = map (char_of \<circ> unat) bs"

lemma bytes_string_str_bytes [simp]: "bytes_string (str_bytes s) = s"
  by (simp add: bytes_string_def str_bytes_def unat_word_of_nat_byte comp_def map_idI)

lemma str_bytes_bytes_string [simp]: "str_bytes (bytes_string b) = b"
  using unat_byte_less by (auto simp: bytes_string_def str_bytes_def comp_def intro!: map_idI)

lemma str_bytes_inject [simp]: "str_bytes s = str_bytes t \<longleftrightarrow> s = t"
  by (metis bytes_string_str_bytes)

lemma length_str_bytes [simp]: "length (str_bytes s) = length s"
  by (simp add: str_bytes_def)

end
