(* ===== verification/Go_Base64.thy ===== *)
theory Go_Base64
  imports Go_Strings
begin

text \<open>
  \<^verbatim>\<open>base64.RawURLEncoding\<close> of the Go standard library, the text form of every key, hash,
  signature and chunk of the program: \<^verbatim>\<open>EncodeToString\<close> and \<^verbatim>\<open>DecodeString\<close>. The decoder
  skips carriage returns and line feeds wherever they occur, refuses every other character
  outside the alphabet (the padding character included), refuses a last group of one
  character, and does not check the unused bits of the last character.
\<close>

definition b64_alphabet :: string where
  "b64_alphabet = ''ABCDEFGHIJKLMNOPQRSTUVWXYZabcdefghijklmnopqrstuvwxyz0123456789-_''"

definition b64_char :: "nat \<Rightarrow> char" where
  "b64_char v = b64_alphabet ! v"

definition b64_value :: "char \<Rightarrow> nat option" where
  "b64_value c = find (\<lambda>v. b64_char v = c) [0..<64]"

fun b64_group_encode :: "nat list \<Rightarrow> nat list" where
  "b64_group_encode [] = []"
| "b64_group_encode [a] = [a div 4, (a mod 4) * 16]"
| "b64_group_encode [a, b] = [a div 4, (a mod 4) * 16 + b div 16, (b mod 16) * 4]"
| "b64_group_encode (a # b # c # r) =
     [a div 4, (a mod 4) * 16 + b div 16, (b mod 16) * 4 + c div 64, c mod 64] @ b64_group_encode r"

fun b64_group_decode :: "nat list \<Rightarrow> nat list option" where
  "b64_group_decode [] = Some []"
| "b64_group_decode [w] = None"
| "b64_group_decode [w, x] = Some [w * 4 + x div 16]"
| "b64_group_decode [w, x, y] = Some [w * 4 + x div 16, (x mod 16) * 16 + y div 4]"
| "b64_group_decode (w # x # y # z # r) =
     map_option (\<lambda>t. [w * 4 + x div 16, (x mod 16) * 16 + y div 4, (y mod 4) * 64 + z] @ t)
       (b64_group_decode r)"

fun b64_values :: "string \<Rightarrow> nat list option" where
  "b64_values [] = Some []"
| "b64_values (c # cs) =
     (case b64_value c of None \<Rightarrow> None | Some v \<Rightarrow> map_option ((#) v) (b64_values cs))"

definition b64_skipped :: "char \<Rightarrow> bool" where
  "b64_skipped c \<longleftrightarrow> c = CHR 0x0A \<or> c = CHR 0x0D"

definition EncodeToString :: "bytes \<Rightarrow> string" where
  "EncodeToString bs = map b64_char (b64_group_encode (map unat bs))"

definition DecodeString :: "string \<Rightarrow> bytes option" where
  "DecodeString s =
     (case b64_values (filter (\<lambda>c. \<not> b64_skipped c) s) of
        None \<Rightarrow> None
      | Some vs \<Rightarrow> map_option (map word_of_nat) (b64_group_decode vs))"

lemma b64_value_char: "v < 64 \<Longrightarrow> b64_value (b64_char v) = Some v"
proof -
  have "list_all (\<lambda>v. b64_value (b64_char v) = Some v) [0..<64]" by code_simp
  then show "v < 64 \<Longrightarrow> b64_value (b64_char v) = Some v" by (simp add: list_all_iff)
qed

lemma b64_char_not_skipped: "v < 64 \<Longrightarrow> \<not> b64_skipped (b64_char v)"
proof -
  have "list_all (\<lambda>v. \<not> b64_skipped (b64_char v)) [0..<64]" by code_simp
  then show "v < 64 \<Longrightarrow> \<not> b64_skipped (b64_char v)" by (simp add: list_all_iff)
qed

lemma b64_values_chars: "\<forall>v \<in> set vs. v < 64 \<Longrightarrow> b64_values (map b64_char vs) = Some vs"
  by (induction vs) (auto simp: b64_value_char)

lemma b64_group_encode_less: "\<forall>b \<in> set bs. b < 256 \<Longrightarrow> \<forall>v \<in> set (b64_group_encode bs). v < 64"
  by (induction bs rule: b64_group_encode.induct) auto

lemma b64_group_roundtrip:
  "\<forall>b \<in> set bs. b < 256 \<Longrightarrow> b64_group_decode (b64_group_encode bs) = Some bs"
  by (induction bs rule: b64_group_encode.induct) auto

lemma b64_group_decode_less:
  "b64_group_decode vs = Some bs \<Longrightarrow> \<forall>v \<in> set vs. v < 64 \<Longrightarrow> \<forall>b \<in> set bs. b < 256"
  by (induction vs arbitrary: bs rule: b64_group_decode.induct) auto

theorem DecodeString_EncodeToString [simp]: "DecodeString (EncodeToString bs) = Some bs"
proof -
  let ?vs = "b64_group_encode (map unat bs)"
  have bytes: "\<forall>b \<in> set (map unat bs). b < 256" by (auto simp: unat_byte_less)
  have vs: "\<forall>v \<in> set ?vs. v < 64" using b64_group_encode_less[OF bytes] .
  have "filter (\<lambda>c. \<not> b64_skipped c) (map b64_char ?vs) = map b64_char ?vs"
    using vs by (auto simp: filter_id_conv b64_char_not_skipped)
  then show ?thesis
    unfolding DecodeString_def EncodeToString_def
    by (simp add: b64_values_chars[OF vs] b64_group_roundtrip[OF bytes] comp_def)
qed

lemma EncodeToString_inject [simp]: "EncodeToString a = EncodeToString b \<longleftrightarrow> a = b"
  by (metis DecodeString_EncodeToString option.inject)

lemma EncodeToString_Nil [simp]: "EncodeToString bs = [] \<longleftrightarrow> bs = []"
proof -
  have "EncodeToString [] = []" by (simp add: EncodeToString_def)
  then show ?thesis by (metis EncodeToString_inject)
qed

lemma plain_EncodeToString [simp]: "plain (EncodeToString bs)"
proof -
  have "\<forall>v \<in> set (b64_group_encode (map unat bs)). v < 64"
    by (rule b64_group_encode_less) (auto simp: unat_byte_less)
  moreover have "plain b64_alphabet" by (simp add: b64_alphabet_def plain_def plain_char_def)
  moreover have "length b64_alphabet = 64" by (simp add: b64_alphabet_def)
  ultimately show ?thesis by (auto simp: EncodeToString_def plain_def b64_char_def)
qed

lemma TrimSpace_EncodeToString [simp]: "TrimSpace (EncodeToString bs) = EncodeToString bs"
  by (simp add: TrimSpace_plain)

end
