(* ===== verification/Trust_State.thy ===== *)
theory Trust_State
  imports Go_Strings Go_Base64 "HOL-Library.Finite_Map" "HOL-Library.Multiset"
begin

text \<open>
  The offline trust state machine (\<^verbatim>\<open>pkg/importctl/revocation.go\<close>): the state of root keys and signers, the update
  blocks that change it, their authorisation by root signatures, and the sealed store.

  SHA-256, Ed25519 and the JSON encoder are arguments: \<open>sha\<close>, \<open>verify\<close>, \<open>sign\<close>, \<open>marshalBlock\<close>,
  \<open>marshalState\<close>. A Go map is a finite map: JSON prints maps by sorted keys, so only the mapping
  counts. \<^verbatim>\<open>sort.Slice\<close> is not stable, so its result on the operations is the argument \<open>sortOps\<close>.
  \<^verbatim>\<open>now\<close> is the instant that is used, after the code has replaced 0 by the clock.
\<close>

section \<open>State and blocks\<close>

datatype trust_error = ErrTrustUpdateRollback | ErrTrustUpdateInvalid | ErrTrustUpdateUnauthorized | ErrInvalidKey
  | ErrCorruptStore | ErrDecryptionFailed | ErrUnmarshal

definition TrustUpdateMagic :: string where "TrustUpdateMagic = ''SNB-TRUST-1''"
definition TrustUpdateDomain :: string where "TrustUpdateDomain = ''SUNLIONET-TRUST-UPDATE-V1'' @ [CHR 0x00]"
definition TrustStateDomain :: string where "TrustStateDomain = ''SUNLIONET-TRUST-STATE-V1'' @ [CHR 0x00]"
definition MaxTrustUpdateBytes :: nat where "MaxTrustUpdateBytes = 262144"
definition MaxTrustStateBytes :: nat where "MaxTrustStateBytes = 262144"
definition DefaultTrustThreshold :: int where "DefaultTrustThreshold = 2"
definition MaxTrustUpdateTTLSecond :: int where "MaxTrustUpdateTTLSecond = 2592000"
definition MaxClockSkewSeconds :: int where "MaxClockSkewSeconds = 600"

lemmas trust_consts = TrustUpdateMagic_def DefaultTrustThreshold_def MaxTrustUpdateTTLSecond_def
  MaxClockSkewSeconds_def PublicKeySize_def SignatureSize_def MaxTrustUpdateBytes_def MaxTrustStateBytes_def

record RevocationRecord =
  rrReason :: string
  rrEffectiveAt :: int
  rrRevokedAt :: int
  rrBlockID :: string

record TransitionRecord =
  trReplacedBy :: string
  trEffectiveAt :: int
  trExpiresAfter :: int
  trBlockID :: string

record TrustState =
  Version :: nat
  StateHash :: string
  PreviousHash :: string
  Threshold :: int
  RootKeys :: "(string, string) fmap"
  ActiveSigners :: "(string, string) fmap"
  RetiredSigners :: "(string, TransitionRecord) fmap"
  RevokedSigners :: "(string, RevocationRecord) fmap"
  UpdatedAt :: int

record TrustOperation =
  opType :: string
  opKeyID :: string
  opPublicKeyB64 :: string
  opReason :: string
  opReplacedBy :: string
  opExpiresAfter :: int

record TrustSignature =
  RootKeyID :: string
  SigB64URL :: string

record TrustUpdateBlock =
  Magic :: string
  BlockID :: string
  bVersion :: nat
  PrevStateHash :: string
  IssuedAt :: int
  EffectiveAt :: int
  ExpiresAt :: int
  bThreshold :: int
  Operations :: "TrustOperation list"
  Notes :: "(string, string) fmap"
  Signatures :: "TrustSignature list"

definition emptyTrustState :: TrustState where
  "emptyTrustState = \<lparr>Version = 0, StateHash = '''', PreviousHash = '''', Threshold = 0, RootKeys = fmempty,
     ActiveSigners = fmempty, RetiredSigners = fmempty, RevokedSigners = fmempty, UpdatedAt = 0\<rparr>"

definition Ed25519KeyID :: "(bytes \<Rightarrow> bytes) \<Rightarrow> bytes \<Rightarrow> string" where
  "Ed25519KeyID sha pub = ''ed25519:'' @ take 16 (EncodeToString (sha pub))"

definition normalizeThreshold :: "int \<Rightarrow> int" where
  "normalizeThreshold n = (if n \<le> 0 then DefaultTrustThreshold else n)"

definition cleanReason :: "string \<Rightarrow> string" where
  "cleanReason s = take 80 (TrimSpace s)"

definition ensureMaps :: "TrustState \<Rightarrow> TrustState" where
  "ensureMaps s = (if Threshold s = 0 then s\<lparr>Threshold := DefaultTrustThreshold\<rparr> else s)"

definition stateDigest :: "(bytes \<Rightarrow> bytes) \<Rightarrow> (TrustState \<Rightarrow> bytes) \<Rightarrow> TrustState \<Rightarrow> string" where
  "stateDigest sha marshalState s =
     EncodeToString (sha (map (word_of_nat \<circ> of_char) TrustStateDomain @ marshalState (s\<lparr>StateHash := ''''\<rparr>)))"

definition reseal :: "(bytes \<Rightarrow> bytes) \<Rightarrow> (TrustState \<Rightarrow> bytes) \<Rightarrow> TrustState \<Rightarrow> TrustState" where
  "reseal sha marshalState s =
     (let s1 = ensureMaps s in s1\<lparr>StateHash := stateDigest sha marshalState s1\<rparr>)"

definition verifySeal :: "(bytes \<Rightarrow> bytes) \<Rightarrow> (TrustState \<Rightarrow> bytes) \<Rightarrow> TrustState \<Rightarrow> trust_error + unit" where
  "verifySeal sha marshalState s =
     (if TrimSpace (StateHash s) = '''' then Inr ()
      else if stateDigest sha marshalState s \<noteq> StateHash s then Inl ErrCorruptStore else Inr ())"

definition addKey :: "(bytes \<Rightarrow> bytes) \<Rightarrow> bytes \<Rightarrow> (string, string) fmap \<Rightarrow> trust_error + (string, string) fmap" where
  "addKey sha pub m =
     (if length pub \<noteq> PublicKeySize then Inl ErrInvalidKey
      else Inr (fmupd (Ed25519KeyID sha pub) (EncodeToString pub) m))"

definition NewTrustState ::
    "(bytes \<Rightarrow> bytes) \<Rightarrow> (TrustState \<Rightarrow> bytes) \<Rightarrow> bytes list \<Rightarrow> bytes list \<Rightarrow> int \<Rightarrow> int \<Rightarrow> trust_error + TrustState" where
  "NewTrustState sha marshalState rootKeys activeSigners threshold now =
     rbind (rfold (addKey sha) rootKeys fmempty) (\<lambda>roots.
     rbind (rfold (addKey sha) activeSigners fmempty) (\<lambda>active.
       Inr (reseal sha marshalState (emptyTrustState\<lparr>Threshold := normalizeThreshold threshold, RootKeys := roots,
         ActiveSigners := active, UpdatedAt := now\<rparr>))))"

definition IsRevoked :: "TrustState \<Rightarrow> string \<Rightarrow> int \<Rightarrow> bool" where
  "IsRevoked s keyID now =
     (case fmlookup (RevokedSigners s) (TrimSpace keyID) of
        None \<Rightarrow> False
      | Some r \<Rightarrow> rrEffectiveAt r = 0 \<or> now \<ge> rrEffectiveAt r)"

definition ActivePublicKeys :: "TrustState \<Rightarrow> int \<Rightarrow> trust_error + bytes list" where
  "ActivePublicKeys s now =
     (let keys = filter (\<lambda>kid. \<not> IsRevoked s kid now) (sorted_list_of_fset (fmdom (ActiveSigners s)))
      in rfold (\<lambda>kid out. case DecodeString (the (fmlookup (ActiveSigners s) kid)) of
             None \<Rightarrow> Inl ErrInvalidKey
           | Some raw \<Rightarrow> if length raw \<noteq> PublicKeySize then Inl ErrInvalidKey else Inr (out @ [raw])) keys [])"

section \<open>Applying a block\<close>

definition validateTrustBlockHeader :: "TrustUpdateBlock \<Rightarrow> TrustState \<Rightarrow> int \<Rightarrow> trust_error + unit" where
  "validateTrustBlockHeader block current now =
     (if Magic block \<noteq> TrustUpdateMagic \<or> TrimSpace (BlockID block) = '''' then Inl ErrTrustUpdateInvalid
      else if bVersion block \<le> Version current then Inl ErrTrustUpdateRollback
      else if StateHash current \<noteq> '''' \<and> PrevStateHash block \<noteq> StateHash current then Inl ErrTrustUpdateRollback
      else if IssuedAt block \<le> 0 \<or> EffectiveAt block \<le> 0 \<or> ExpiresAt block \<le> 0 \<or> ExpiresAt block < IssuedAt block
      then Inl ErrTrustUpdateInvalid
      else if ExpiresAt block - IssuedAt block > MaxTrustUpdateTTLSecond then Inl ErrTrustUpdateInvalid
      else if IssuedAt block > now + MaxClockSkewSeconds \<or> now > ExpiresAt block then Inl ErrTrustUpdateInvalid
      else if Operations block = [] \<or> length (Operations block) > 128 then Inl ErrTrustUpdateInvalid
      else Inr ())"

definition parseOperationPublicKey :: "(bytes \<Rightarrow> bytes) \<Rightarrow> TrustOperation \<Rightarrow> string \<Rightarrow> trust_error + bytes" where
  "parseOperationPublicKey sha op expectedKeyID =
     (case DecodeString (TrimSpace (opPublicKeyB64 op)) of
        None \<Rightarrow> Inl ErrTrustUpdateInvalid
      | Some raw \<Rightarrow> if length raw \<noteq> PublicKeySize then Inl ErrTrustUpdateInvalid
                    else if Ed25519KeyID sha raw \<noteq> expectedKeyID then Inl ErrTrustUpdateInvalid else Inr raw)"

definition applyTrustOperation ::
    "(bytes \<Rightarrow> bytes) \<Rightarrow> TrustUpdateBlock \<Rightarrow> TrustOperation \<Rightarrow> TrustState \<Rightarrow> trust_error + TrustState" where
  "applyTrustOperation sha block op s =
     (let keyID = TrimSpace (opKeyID op) in
      if keyID = '''' then Inl ErrTrustUpdateInvalid
      else if opType op = ''add_signer'' then
        rbind (parseOperationPublicKey sha op keyID) (\<lambda>pub.
          Inr (s\<lparr>ActiveSigners := fmupd keyID (EncodeToString pub) (ActiveSigners s),
                 RetiredSigners := fmdrop keyID (RetiredSigners s)\<rparr>))
      else if opType op = ''revoke_signer'' then
        Inr (s\<lparr>ActiveSigners := fmdrop keyID (ActiveSigners s),
               RevokedSigners := fmupd keyID \<lparr>rrReason = cleanReason (opReason op), rrEffectiveAt = EffectiveAt block,
                 rrRevokedAt = IssuedAt block, rrBlockID = BlockID block\<rparr> (RevokedSigners s)\<rparr>)
      else if opType op = ''retire_signer'' then
        Inr (s\<lparr>ActiveSigners := fmdrop keyID (ActiveSigners s),
               RetiredSigners := fmupd keyID \<lparr>trReplacedBy = TrimSpace (opReplacedBy op), trEffectiveAt = EffectiveAt block,
                 trExpiresAfter = opExpiresAfter op, trBlockID = BlockID block\<rparr> (RetiredSigners s)\<rparr>)
      else if opType op = ''add_root'' then
        rbind (parseOperationPublicKey sha op keyID) (\<lambda>pub.
          Inr (s\<lparr>RootKeys := fmupd keyID (EncodeToString pub) (RootKeys s)\<rparr>))
      else if opType op = ''retire_root'' then Inr (s\<lparr>RootKeys := fmdrop keyID (RootKeys s)\<rparr>)
      else Inl ErrTrustUpdateInvalid)"

text \<open>\<^verbatim>\<open>canonicalTrustUpdate\<close> sorts the operations in place, so the caller goes on with the sorted block.\<close>

definition canonicalTrustUpdate ::
    "(TrustUpdateBlock \<Rightarrow> bytes) \<Rightarrow> (TrustOperation list \<Rightarrow> TrustOperation list) \<Rightarrow> TrustUpdateBlock \<Rightarrow> bytes \<times> TrustUpdateBlock" where
  "canonicalTrustUpdate marshalBlock sortOps block =
     (let sorted = block\<lparr>Operations := sortOps (Operations block)\<rparr>
      in (map (word_of_nat \<circ> of_char) TrustUpdateDomain @ marshalBlock (sorted\<lparr>Signatures := []\<rparr>), sorted))"

definition storedRoot :: "(bytes \<Rightarrow> bytes) \<Rightarrow> string \<Rightarrow> string \<Rightarrow> bool" where
  "storedRoot sha kid b64 =
     (case DecodeString b64 of None \<Rightarrow> False | Some raw \<Rightarrow> length raw = PublicKeySize \<and> Ed25519KeyID sha raw = kid)"

definition verificationRoots ::
    "(bytes \<Rightarrow> bytes) \<Rightarrow> TrustState \<Rightarrow> bytes list \<Rightarrow> trust_error + (string, bytes) fmap" where
  "verificationRoots sha s configured =
     rbind (rfold (\<lambda>pub roots. if length pub \<noteq> PublicKeySize then Inl ErrInvalidKey
                               else Inr (fmupd (Ed25519KeyID sha pub) pub roots)) configured fmempty) (\<lambda>conf.
       if \<not> fmpred (storedRoot sha) (RootKeys s) then Inl ErrInvalidKey
       else let roots = conf ++\<^sub>f fmmap (\<lambda>b64. the (DecodeString b64)) (RootKeys s)
            in if fmdom roots = {||} then Inl ErrTrustUpdateUnauthorized else Inr roots)"

definition countStep ::
    "(bytes \<Rightarrow> bytes \<Rightarrow> bytes \<Rightarrow> bool) \<Rightarrow> bytes \<Rightarrow> (string, bytes) fmap \<Rightarrow> TrustSignature \<Rightarrow> string list \<times> int \<Rightarrow> string list \<times> int" where
  "countStep verify msg roots sig st =
     (let kid = TrimSpace (RootKeyID sig); (seen, valid) = st in
      if kid \<in> set seen then st
      else case fmlookup roots kid of
             None \<Rightarrow> st
           | Some pub \<Rightarrow> (case DecodeString (SigB64URL sig) of
                            None \<Rightarrow> st
                          | Some raw \<Rightarrow> if length raw \<noteq> SignatureSize then st
                                        else if verify pub msg raw then (kid # seen, valid + 1) else st))"

definition countValidRootSignatures ::
    "(bytes \<Rightarrow> bytes \<Rightarrow> bytes \<Rightarrow> bool) \<Rightarrow> bytes \<Rightarrow> TrustSignature list \<Rightarrow> (string, bytes) fmap \<Rightarrow> int" where
  "countValidRootSignatures verify msg sigs roots = snd (fold (countStep verify msg roots) sigs ([], 0))"

definition effectiveThreshold :: "TrustUpdateBlock \<Rightarrow> TrustState \<Rightarrow> int" where
  "effectiveThreshold block s =
     (let t = (if bThreshold block = 0 then Threshold s else bThreshold block)
      in if t = 0 then DefaultTrustThreshold else t)"

definition ApplyBlock ::
    "(bytes \<Rightarrow> bytes) \<Rightarrow> (bytes \<Rightarrow> bytes \<Rightarrow> bytes \<Rightarrow> bool) \<Rightarrow> (TrustUpdateBlock \<Rightarrow> bytes) \<Rightarrow> (TrustState \<Rightarrow> bytes) \<Rightarrow>
     (TrustOperation list \<Rightarrow> TrustOperation list) \<Rightarrow> TrustUpdateBlock \<Rightarrow> bytes list \<Rightarrow> int \<Rightarrow> TrustState \<Rightarrow> trust_error + TrustState" where
  "ApplyBlock sha verify marshalBlock marshalState sortOps block0 configured now s =
     rbind (validateTrustBlockHeader block0 s now) (\<lambda>_.
     let (signable, block) = canonicalTrustUpdate marshalBlock sortOps block0 in
     rbind (verificationRoots sha s configured) (\<lambda>roots.
     if countValidRootSignatures verify signable (Signatures block) roots < effectiveThreshold block s
     then Inl ErrTrustUpdateUnauthorized
     else let next = s\<lparr>Version := bVersion block, PreviousHash := StateHash s, UpdatedAt := now,
                       Threshold := (if Threshold s = 0 then normalizeThreshold (bThreshold block) else Threshold s)\<rparr>
          in rbind (rfold (applyTrustOperation sha block) (Operations block) next) (\<lambda>done.
             Inr (reseal sha marshalState done))))"

definition ApplyUpdate ::
    "(bytes \<Rightarrow> bytes) \<Rightarrow> (bytes \<Rightarrow> bytes \<Rightarrow> bytes \<Rightarrow> bool) \<Rightarrow> (TrustUpdateBlock \<Rightarrow> bytes) \<Rightarrow> (bytes \<Rightarrow> TrustUpdateBlock option) \<Rightarrow>
     (TrustState \<Rightarrow> bytes) \<Rightarrow> (TrustOperation list \<Rightarrow> TrustOperation list) \<Rightarrow> bytes \<Rightarrow> bytes list \<Rightarrow> int \<Rightarrow> TrustState \<Rightarrow>
     trust_error + TrustState" where
  "ApplyUpdate sha verify marshalBlock decodeTrustStrict marshalState sortOps raw configured now s =
     (if raw = [] \<or> length raw > MaxTrustUpdateBytes then Inl ErrTrustUpdateInvalid
      else case decodeTrustStrict raw of
             None \<Rightarrow> Inl ErrTrustUpdateInvalid
           | Some block \<Rightarrow> ApplyBlock sha verify marshalBlock marshalState sortOps block configured now s)"

text \<open>\<open>clock\<close> is the clock read for a block without an issue time; \<open>public\<close> is \<^verbatim>\<open>priv.Public()\<close>.\<close>


definition fillBlock :: "TrustState \<Rightarrow> int \<Rightarrow> TrustUpdateBlock \<Rightarrow> TrustUpdateBlock" where
  "fillBlock current clock block =
     (let issued = (if IssuedAt block = 0 then clock else IssuedAt block)
      in block\<lparr>Magic := TrustUpdateMagic, PrevStateHash := StateHash current,
           bThreshold := effectiveThreshold block current,
           IssuedAt := issued, EffectiveAt := (if EffectiveAt block = 0 then issued else EffectiveAt block),
           ExpiresAt := (if ExpiresAt block = 0 then issued + MaxTrustUpdateTTLSecond else ExpiresAt block),
           BlockID := (if TrimSpace (BlockID block) = ''''
                       then ''trust_'' @ Itoa (int (bVersion block)) @ ''_'' @ Itoa issued else BlockID block),
           Signatures := []\<rparr>)"

definition signBlock ::
    "(bytes \<Rightarrow> bytes) \<Rightarrow> (bytes \<Rightarrow> bytes) \<Rightarrow> (bytes \<Rightarrow> bytes \<Rightarrow> bytes) \<Rightarrow> bytes \<Rightarrow> bytes \<Rightarrow> TrustSignature" where
  "signBlock sha public sign signable priv =
     \<lparr>RootKeyID = Ed25519KeyID sha (public priv), SigB64URL = EncodeToString (sign priv signable)\<rparr>"

definition GenerateTrustUpdateBlock ::
    "(bytes \<Rightarrow> bytes) \<Rightarrow> (bytes \<Rightarrow> bytes) \<Rightarrow> (bytes \<Rightarrow> bytes \<Rightarrow> bytes) \<Rightarrow> (TrustUpdateBlock \<Rightarrow> bytes) \<Rightarrow>
     (TrustOperation list \<Rightarrow> TrustOperation list) \<Rightarrow> (TrustSignature list \<Rightarrow> TrustSignature list) \<Rightarrow>
     TrustState \<Rightarrow> bytes list \<Rightarrow> int \<Rightarrow> TrustUpdateBlock \<Rightarrow> trust_error + TrustUpdateBlock" where
  "GenerateTrustUpdateBlock sha public sign marshalBlock sortOps sortSigs current rootPrivs clock block =
     (let (signable, filled) = canonicalTrustUpdate marshalBlock sortOps (fillBlock current clock block) in
      rbind (rfold (\<lambda>priv sigs. if length priv \<noteq> PrivateKeySize then Inl ErrInvalidKey
               else Inr (sigs @ [signBlock sha public sign signable priv])) rootPrivs []) (\<lambda>sigs.
        Inr (filled\<lparr>Signatures := sortSigs sigs\<rparr>)))"

section \<open>The sealed store\<close>

text \<open>
  The store file holds a nonce and the AES-GCM sealed JSON of the state. \<open>gcmSeal\<close> and \<open>gcmOpen\<close> stand for the
  cipher under the store's key (checked to have 32 bytes when the store is opened), \<open>nonce\<close> for the
  random bytes of a \<^verbatim>\<open>Save\<close>; \<open>None\<close> is a file that does not exist. The rename makes a save atomic.
\<close>

definition TrustStore_Save ::
    "(bytes \<Rightarrow> bytes) \<Rightarrow> (TrustState \<Rightarrow> bytes) \<Rightarrow> (bytes \<Rightarrow> bytes \<Rightarrow> bytes) \<Rightarrow> bytes \<Rightarrow> TrustState \<Rightarrow> trust_error + bytes option" where
  "TrustStore_Save sha marshalState gcmSeal nonce s =
     (let plaintext = marshalState (reseal sha marshalState s)
      in if length plaintext > MaxTrustStateBytes then Inl ErrCorruptStore
         else Inr (Some (nonce @ gcmSeal nonce plaintext)))"

definition TrustStore_Load ::
    "(bytes \<Rightarrow> bytes) \<Rightarrow> (TrustState \<Rightarrow> bytes) \<Rightarrow> (bytes \<Rightarrow> TrustState option) \<Rightarrow> (bytes \<Rightarrow> bytes \<Rightarrow> bytes option) \<Rightarrow>
     bytes option \<Rightarrow> trust_error + TrustState" where
  "TrustStore_Load sha marshalState unmarshalState gcmOpen file =
     (case file of
        None \<Rightarrow> Inr emptyTrustState
      | Some ciphertext \<Rightarrow>
          if length ciphertext > MaxTrustStateBytes + 64 then Inl ErrCorruptStore
          else if length ciphertext < GcmNonceSize then Inl ErrCorruptStore
          else case gcmOpen (take GcmNonceSize ciphertext) (drop GcmNonceSize ciphertext) of
                 None \<Rightarrow> Inl ErrDecryptionFailed
               | Some plaintext \<Rightarrow>
                   (case unmarshalState plaintext of
                      None \<Rightarrow> Inl ErrUnmarshal
                    | Some s \<Rightarrow> rbind (verifySeal sha marshalState s) (\<lambda>_. Inr (ensureMaps s))))"

section \<open>Authorisation\<close>

text \<open>The root keys whose signature over \<open>msg\<close> is among \<open>sigs\<close>: the abstract meaning of the count.\<close>

definition signing_roots ::
    "(bytes \<Rightarrow> bytes \<Rightarrow> bytes \<Rightarrow> bool) \<Rightarrow> bytes \<Rightarrow> TrustSignature list \<Rightarrow> (string, bytes) fmap \<Rightarrow> string set" where
  "signing_roots verify msg sigs roots =
     {kid. \<exists>sig pub raw. sig \<in> set sigs \<and> TrimSpace (RootKeyID sig) = kid \<and> fmlookup roots kid = Some pub \<and>
        DecodeString (SigB64URL sig) = Some raw \<and> length raw = SignatureSize \<and> verify pub msg raw}"

lemma signing_roots_Nil [simp]: "signing_roots verify msg [] roots = {}"
  by (simp add: signing_roots_def)

lemma signing_roots_snoc:
  "signing_roots verify msg (sigs @ [sig]) roots = signing_roots verify msg sigs roots \<union> signing_roots verify msg [sig] roots"
  by (auto simp: signing_roots_def)

lemma countStep_eq:
  "countStep verify msg roots sig (seen, v) =
    (if TrimSpace (RootKeyID sig) \<notin> set seen \<and> TrimSpace (RootKeyID sig) \<in> signing_roots verify msg [sig] roots
     then (TrimSpace (RootKeyID sig) # seen, v + 1) else (seen, v))"
  by (auto simp: countStep_def Let_def signing_roots_def split: option.splits)

lemma signing_roots_single: "kid \<in> signing_roots verify msg [sig] roots \<Longrightarrow> kid = TrimSpace (RootKeyID sig)"
  by (auto simp: signing_roots_def)

lemma count_fold:
  "\<exists>seen. fold (countStep verify msg roots) sigs ([], 0) = (seen, int (length seen)) \<and> distinct seen \<and>
    set seen = signing_roots verify msg sigs roots"
proof (induction sigs rule: rev_induct)
  case Nil
  then show ?case by simp
next
  case (snoc sig sigs)
  then obtain seen where "fold (countStep verify msg roots) sigs ([], 0) = (seen, int (length seen))" "distinct seen"
    "set seen = signing_roots verify msg sigs roots" by blast
  then show ?case
    by (auto simp: countStep_eq signing_roots_snoc dest: signing_roots_single)
qed

text \<open>The loop counts each signing root once, however often its signature is repeated.\<close>

lemma countValidRootSignatures_card:
  "countValidRootSignatures verify msg sigs roots = int (card (signing_roots verify msg sigs roots))"
proof -
  obtain seen where "fold (countStep verify msg roots) sigs ([], 0) = (seen, int (length seen))" "distinct seen"
    "set seen = signing_roots verify msg sigs roots" using count_fold by blast
  then show ?thesis using distinct_card[of seen] by (simp add: countValidRootSignatures_def)
qed

definition signableBytes ::
    "(TrustUpdateBlock \<Rightarrow> bytes) \<Rightarrow> (TrustOperation list \<Rightarrow> TrustOperation list) \<Rightarrow> TrustUpdateBlock \<Rightarrow> bytes" where
  "signableBytes marshalBlock sortOps block = fst (canonicalTrustUpdate marshalBlock sortOps block)"

lemma applyTrustOperation_block [simp]:
  "applyTrustOperation sha (block\<lparr>Operations := ops\<rparr>) = applyTrustOperation sha block"
  by (intro ext) (simp add: applyTrustOperation_def Let_def)

lemma effectiveThreshold_block [simp]: "effectiveThreshold (block\<lparr>Operations := ops\<rparr>) s = effectiveThreshold block s"
  by (simp add: effectiveThreshold_def)

definition nextState :: "TrustUpdateBlock \<Rightarrow> int \<Rightarrow> TrustState \<Rightarrow> TrustState" where
  "nextState block now s = s\<lparr>Version := bVersion block, PreviousHash := StateHash s, UpdatedAt := now,
     Threshold := (if Threshold s = 0 then normalizeThreshold (bThreshold block) else Threshold s)\<rparr>"

lemma ApplyBlock_eq:
  "ApplyBlock sha verify marshalBlock marshalState sortOps block configured now s =
     rbind (validateTrustBlockHeader block s now) (\<lambda>_.
     rbind (verificationRoots sha s configured) (\<lambda>roots.
       if int (card (signing_roots verify (signableBytes marshalBlock sortOps block) (Signatures block) roots))
          < effectiveThreshold block s then Inl ErrTrustUpdateUnauthorized
       else rbind (rfold (applyTrustOperation sha block) (sortOps (Operations block)) (nextState block now s))
         (\<lambda>done. Inr (reseal sha marshalState done))))"
  by (simp add: ApplyBlock_def canonicalTrustUpdate_def signableBytes_def countValidRootSignatures_card nextState_def Let_def cong: if_cong)

lemma ApplyBlock_Inr:
  assumes "ApplyBlock sha verify marshalBlock marshalState sortOps block configured now s = Inr s'"
  obtains roots applied where "validateTrustBlockHeader block s now = Inr ()" "verificationRoots sha s configured = Inr roots"
    "effectiveThreshold block s \<le> int (card (signing_roots verify (signableBytes marshalBlock sortOps block) (Signatures block) roots))"
    "rfold (applyTrustOperation sha block) (sortOps (Operations block)) (nextState block now s) = Inr applied"
    "s' = reseal sha marshalState applied"
  using assms that by (auto simp: ApplyBlock_eq split: if_splits)

text \<open>A fact that every operation keeps is kept by a whole block.\<close>

lemma ApplyBlock_keeps:
  assumes "ApplyBlock sha verify marshalBlock marshalState sortOps block configured now s = Inr s'" "P (nextState block now s)"
    and "\<And>op t t'. P t \<Longrightarrow> applyTrustOperation sha block op t = Inr t' \<Longrightarrow> P t'"
    and "\<And>t. P t \<Longrightarrow> P (reseal sha marshalState t)"
  shows "P s'"
proof -
  obtain applied where a: "rfold (applyTrustOperation sha block) (sortOps (Operations block)) (nextState block now s) = Inr applied"
    "s' = reseal sha marshalState applied"
    using ApplyBlock_Inr[OF assms(1)] by metis
  have "P applied" using a(1) assms(2) by (rule rfold_invariant) (rule assms(3))
  then show ?thesis using a(2) assms(4) by simp
qed

lemma applyTrustOperation_frame:
  assumes "applyTrustOperation sha block op t = Inr t'"
  shows "Version t' = Version t \<and> PreviousHash t' = PreviousHash t \<and> Threshold t' = Threshold t \<and> UpdatedAt t' = UpdatedAt t \<and>
    fmdom (RevokedSigners t) |\<subseteq>| fmdom (RevokedSigners t')"
  using assms by (auto simp: applyTrustOperation_def Let_def split: if_splits)

lemma reseal_frame [simp]:
  "Version (reseal sha m s) = Version s" "PreviousHash (reseal sha m s) = PreviousHash s"
  "RootKeys (reseal sha m s) = RootKeys s" "ActiveSigners (reseal sha m s) = ActiveSigners s"
  "RetiredSigners (reseal sha m s) = RetiredSigners s" "RevokedSigners (reseal sha m s) = RevokedSigners s"
  "UpdatedAt (reseal sha m s) = UpdatedAt s"
  by (simp_all add: reseal_def ensureMaps_def Let_def)

lemma stateDigest_StateHash [simp]: "stateDigest sha m (s\<lparr>StateHash := h\<rparr>) = stateDigest sha m s"
  by (simp add: stateDigest_def)

lemma verifySeal_reseal [simp]: "verifySeal sha m (reseal sha m s) = Inr ()"
  by (simp add: verifySeal_def reseal_def Let_def)

lemma reseal_Threshold: "Threshold (reseal sha m s) = (if Threshold s = 0 then DefaultTrustThreshold else Threshold s)"
  by (simp add: reseal_def ensureMaps_def Let_def)

lemma validateTrustBlockHeader_Inr:
  "validateTrustBlockHeader block s now = Inr u \<longleftrightarrow>
     Magic block = TrustUpdateMagic \<and> TrimSpace (BlockID block) \<noteq> '''' \<and> Version s < bVersion block \<and>
     (StateHash s = '''' \<or> PrevStateHash block = StateHash s) \<and> 0 < IssuedAt block \<and> 0 < EffectiveAt block \<and>
     IssuedAt block \<le> ExpiresAt block \<and> ExpiresAt block \<le> IssuedAt block + MaxTrustUpdateTTLSecond \<and>
     IssuedAt block \<le> now + MaxClockSkewSeconds \<and> now \<le> ExpiresAt block \<and>
     Operations block \<noteq> [] \<and> length (Operations block) \<le> 128"
  by (auto simp: validateTrustBlockHeader_def)

lemma ApplyBlock_frame:
  assumes "ApplyBlock sha verify marshalBlock marshalState sortOps block configured now s = Inr s'"
  shows "Version s' = bVersion block \<and> PreviousHash s' = StateHash s \<and> UpdatedAt s' = now \<and>
    fmdom (RevokedSigners s) |\<subseteq>| fmdom (RevokedSigners s')"
  using assms
  by (rule ApplyBlock_keeps) (auto simp: nextState_def dest: applyTrustOperation_frame)

section \<open>Order of the operations\<close>

text \<open>
  What \<^verbatim>\<open>sort.Slice\<close> promises: a permutation in which no operation comes before a smaller one. Operations with
  equal type and key may come in any order.
\<close>

definition op_le :: "TrustOperation \<Rightarrow> TrustOperation \<Rightarrow> bool" where
  "op_le a b \<longleftrightarrow> opType a < opType b \<or> opType a = opType b \<and> opKeyID a \<le> opKeyID b"

definition sorts_ops :: "(TrustOperation list \<Rightarrow> TrustOperation list) \<Rightarrow> bool" where
  "sorts_ops sortOps \<longleftrightarrow> (\<forall>ops. mset (sortOps ops) = mset ops \<and> sorted_wrt op_le (sortOps ops))"

lemma sorts_ops_set: "sorts_ops sortOps \<Longrightarrow> set (sortOps ops) = set ops"
  by (metis sorts_ops_def set_mset_mset)

lemma op_type_order:
  "''add_root'' < ''revoke_signer''" "''add_signer'' < ''revoke_signer''" "''retire_root'' < ''revoke_signer''"
  "''retire_signer'' < ''revoke_signer''"
  by (simp_all add: less_char_def)

definition revoked_by :: "TrustUpdateBlock \<Rightarrow> string \<Rightarrow> TrustState \<Rightarrow> bool" where
  "revoked_by block kid s \<longleftrightarrow> fmlookup (ActiveSigners s) kid = None \<and>
     (\<exists>r. fmlookup (RevokedSigners s) kid = Some r \<and> rrEffectiveAt r = EffectiveAt block)"

lemma applyTrustOperation_revoke:
  assumes "opType op = ''revoke_signer''" "applyTrustOperation sha block op s = Inr s'"
  shows "revoked_by block (TrimSpace (opKeyID op)) s' \<and> (revoked_by block kid s \<longrightarrow> revoked_by block kid s')"
  using assms by (auto simp: applyTrustOperation_def Let_def revoked_by_def split: if_splits)

lemma op_after_revoke:
  assumes "opType op = ''revoke_signer''" "op_le op op'" "applyTrustOperation sha block op' s = Inr s'"
  shows "opType op' = ''revoke_signer''"
proof -
  have "opType op' \<in> {''add_signer'', ''revoke_signer'', ''retire_signer'', ''add_root'', ''retire_root''}"
    using assms(3) by (auto simp: applyTrustOperation_def Let_def split: if_splits)
  then show ?thesis using assms(1,2) op_type_order by (auto simp: op_le_def)
qed

text \<open>
  C7. A signer that a block revokes is inactive after the block and revoked exactly from the block's effective time on,
  even if the same block adds or retires it: the operations are applied in sorted order, revocations last. An
  earlier revocation is replaced, so a later effective time postpones it.
\<close>

theorem revocation_wins:
  assumes app: "ApplyBlock sha verify marshalBlock marshalState sortOps block configured now s = Inr s'"
    and sorts: "sorts_ops sortOps" and op: "op \<in> set (Operations block)" "opType op = ''revoke_signer''"
  shows "fmlookup (ActiveSigners s') (TrimSpace (opKeyID op)) = None \<and>
    (IsRevoked s' (opKeyID op) t \<longleftrightarrow> EffectiveAt block \<le> t)"
proof -
  let ?k = "TrimSpace (opKeyID op)"
  obtain applied where h: "validateTrustBlockHeader block s now = Inr ()"
    and a: "rfold (applyTrustOperation sha block) (sortOps (Operations block)) (nextState block now s) = Inr applied"
      "s' = reseal sha marshalState applied"
    using ApplyBlock_Inr[OF app] by metis
  obtain xs ys where split: "sortOps (Operations block) = (xs @ [op]) @ ys"
    using op(1) sorts_ops_set[OF sorts] by (metis append.assoc append_Cons append_Nil split_list)
  then have later: "op_le op op'" if "op' \<in> set ys" for op'
    using sorts that unfolding sorts_ops_def by (metis (no_types, lifting) in_set_conv_decomp sorted_wrt_append Un_iff set_append)
  obtain m where m: "rfold (applyTrustOperation sha block) (xs @ [op]) (nextState block now s) = Inr m"
    "rfold (applyTrustOperation sha block) ys m = Inr applied"
    using a(1) unfolding split rfold_append by auto
  have "revoked_by block ?k m"
    using m(1) op(2) by (auto simp: rfold_snoc_Inr dest: applyTrustOperation_revoke)
  with m(2) have "revoked_by block ?k applied"
    by (rule rfold_invariant) (use later op(2) op_after_revoke applyTrustOperation_revoke in blast)
  then show ?thesis using h by (auto simp: a(2) revoked_by_def IsRevoked_def validateTrustBlockHeader_Inr)
qed

section \<open>Sequences of blocks\<close>

text \<open>One update offered to the current state: the state only changes when the block is accepted.\<close>

record trust_offer =
  toBlock :: TrustUpdateBlock
  toConfigured :: "bytes list"
  toNow :: int

definition trust_step ::
    "(bytes \<Rightarrow> bytes) \<Rightarrow> (bytes \<Rightarrow> bytes \<Rightarrow> bytes \<Rightarrow> bool) \<Rightarrow> (TrustUpdateBlock \<Rightarrow> bytes) \<Rightarrow> (TrustState \<Rightarrow> bytes) \<Rightarrow>
     (TrustOperation list \<Rightarrow> TrustOperation list) \<Rightarrow> trust_offer \<Rightarrow> TrustState \<Rightarrow> TrustState \<times> (trust_error + unit)" where
  "trust_step sha verify marshalBlock marshalState sortOps offer s =
     (case ApplyBlock sha verify marshalBlock marshalState sortOps (toBlock offer) (toConfigured offer) (toNow offer) s of
        Inl e \<Rightarrow> (s, Inl e)
      | Inr s' \<Rightarrow> (s', Inr ()))"

definition accepted :: "trust_offer list \<Rightarrow> (trust_error + unit) list \<Rightarrow> trust_offer list" where
  "accepted offers outs = map fst (filter (\<lambda>(offer, out). out = Inr ()) (zip offers outs))"

lemma accepted_simps [simp]:
  "accepted [] [] = []"
  "accepted (x # xs) (out # outs) = (if out = Inr () then x # accepted xs outs else accepted xs outs)"
  by (simp_all add: accepted_def)

text \<open>Every stored key is the Base64 form of a 32 byte key whose identifier is its index.\<close>

definition wf_trust :: "(bytes \<Rightarrow> bytes) \<Rightarrow> TrustState \<Rightarrow> bool" where
  "wf_trust sha s \<longleftrightarrow> fmpred (storedRoot sha) (RootKeys s) \<and> fmpred (storedRoot sha) (ActiveSigners s)"

lemma parseOperationPublicKey_stored:
  "parseOperationPublicKey sha op kid = Inr pub \<Longrightarrow> storedRoot sha kid (EncodeToString pub)"
  by (auto simp: parseOperationPublicKey_def storedRoot_def split: option.splits if_splits)

lemma applyTrustOperation_wf [go_inv]:
  "wf_trust sha s \<Longrightarrow> applyTrustOperation sha block op s = Inr s' \<Longrightarrow> wf_trust sha s'"
  by (auto simp: applyTrustOperation_def Let_def wf_trust_def fmpred_upd fmpred_drop dest: parseOperationPublicKey_stored
      split: if_splits)

lemma ApplyBlock_wf [go_inv]:
  assumes "wf_trust sha s" "ApplyBlock sha verify marshalBlock marshalState sortOps block configured now s = Inr s'"
  shows "wf_trust sha s'"
  using assms(2)
proof (rule ApplyBlock_keeps)
  show "wf_trust sha (nextState block now s)" using assms(1) by (simp add: wf_trust_def nextState_def)
  show "\<And>op t t'. wf_trust sha t \<Longrightarrow> applyTrustOperation sha block op t = Inr t' \<Longrightarrow> wf_trust sha t'" by (rule go_inv)
  show "\<And>t. wf_trust sha t \<Longrightarrow> wf_trust sha (reseal sha marshalState t)" by (simp add: wf_trust_def)
qed

lemma addKey_wf: "fmpred (storedRoot sha) m \<Longrightarrow> addKey sha pub m = Inr m' \<Longrightarrow> fmpred (storedRoot sha) m'"
  by (auto simp: addKey_def storedRoot_def fmpred_upd split: if_splits)

lemma NewTrustState_wf:
  assumes "NewTrustState sha marshalState rootKeys signers threshold now = Inr s"
  shows "wf_trust sha s"
proof -
  obtain roots active where r: "rfold (addKey sha) rootKeys fmempty = Inr roots" "rfold (addKey sha) signers fmempty = Inr active"
    "RootKeys s = roots" "ActiveSigners s = active"
    using assms by (auto simp: NewTrustState_def)
  have "fmpred (storedRoot sha) roots" using r(1) by (rule rfold_invariant) (auto intro: addKey_wf)
  moreover have "fmpred (storedRoot sha) active" using r(2) by (rule rfold_invariant) (auto intro: addKey_wf)
  ultimately show ?thesis using r by (simp add: wf_trust_def)
qed

interpretation trust: state_machine "trust_step sha verify marshalBlock marshalState sortOps" "wf_trust sha"
  by unfold_locales (auto simp: trust_step_def intro: go_inv split: sum.splits)

interpretation trust_revoked: state_machine "trust_step sha verify marshalBlock marshalState sortOps"
  "\<lambda>s. kid |\<in>| fmdom (RevokedSigners s)"
  by unfold_locales (auto simp: trust_step_def dest: ApplyBlock_frame split: sum.splits)

lemma ActivePublicKeys_wf:
  assumes wf: "fmpred (storedRoot sha) (ActiveSigners s)" and sub: "set kids \<subseteq> fset (fmdom (ActiveSigners s))"
  shows "\<exists>out. rfold (\<lambda>kid out. case DecodeString (the (fmlookup (ActiveSigners s) kid)) of
             None \<Rightarrow> Inl ErrInvalidKey
           | Some raw \<Rightarrow> if length raw \<noteq> PublicKeySize then Inl ErrInvalidKey else Inr (out @ [raw])) kids out0 = Inr (out0 @ out) \<and>
      map (Ed25519KeyID sha) out = kids"
  using sub
proof (induction kids arbitrary: out0)
  case Nil
  then show ?case by simp
next
  case (Cons kid kids)
  from Cons.prems obtain b64 where b: "fmlookup (ActiveSigners s) kid = Some b64" by (auto simp: fmlookup_dom_iff)
  with wf have "storedRoot sha kid b64" by (auto dest: fmpredD)
  then obtain raw where raw: "DecodeString b64 = Some raw" "length raw = PublicKeySize" "Ed25519KeyID sha raw = kid"
    by (auto simp: storedRoot_def split: option.splits)
  obtain out where "rfold (\<lambda>kid out. case DecodeString (the (fmlookup (ActiveSigners s) kid)) of
             None \<Rightarrow> Inl ErrInvalidKey
           | Some raw \<Rightarrow> if length raw \<noteq> PublicKeySize then Inl ErrInvalidKey else Inr (out @ [raw])) kids (out0 @ [raw])
         = Inr ((out0 @ [raw]) @ out)" "map (Ed25519KeyID sha) out = kids"
    using Cons.IH[of "out0 @ [raw]"] Cons.prems by auto
  then show ?case using b raw by (intro exI[of _ "raw # out"]) simp
qed

text \<open>
  From a new trust state, after any sequence of offered updates, the active keys can always be listed: the result is
  one 32 byte key per active identifier that is not revoked, in the order of the identifiers.
\<close>

theorem active_keys_reachable:
  assumes new: "NewTrustState sha marshalState rootKeys signers threshold now = Inr s0"
    and s: "s = fst (run (trust_step sha verify marshalBlock marshalState sortOps) offers s0)"
  shows "\<exists>keys. ActivePublicKeys s t = Inr keys \<and>
    map (Ed25519KeyID sha) keys = filter (\<lambda>kid. \<not> IsRevoked s kid t) (sorted_list_of_fset (fmdom (ActiveSigners s)))"
proof -
  have "wf_trust sha s" unfolding s by (rule trust.run_inv[OF NewTrustState_wf[OF new]])
  then have "fmpred (storedRoot sha) (ActiveSigners s)" by (simp add: wf_trust_def)
  from ActivePublicKeys_wf[OF this, of "filter (\<lambda>kid. \<not> IsRevoked s kid t) (sorted_list_of_fset (fmdom (ActiveSigners s)))" "[]"]
  show ?thesis by (auto simp: ActivePublicKeys_def)
qed

text \<open>
  C2. An accepted block is signed: at least the threshold of distinct root keys, each one configured or stored, have a valid
  signature over the canonical bytes of that block; and the block extends the current state and is within its validity time.
\<close>

theorem accepted_block_authorised:
  assumes app: "ApplyBlock sha verify marshalBlock marshalState sortOps block configured now s = Inr s'"
  shows "\<exists>roots. verificationRoots sha s configured = Inr roots \<and>
    effectiveThreshold block s \<le> int (card (signing_roots verify (signableBytes marshalBlock sortOps block) (Signatures block) roots)) \<and>
    Version s < Version s' \<and> PreviousHash s' = StateHash s \<and> (StateHash s \<noteq> '''' \<longrightarrow> PrevStateHash block = StateHash s) \<and>
    IssuedAt block \<le> now + 600 \<and> now \<le> ExpiresAt block \<and> ExpiresAt block \<le> IssuedAt block + 2592000 \<and>
    verifySeal sha marshalState s' = Inr ()"
proof -
  obtain roots applied where r: "validateTrustBlockHeader block s now = Inr ()" "verificationRoots sha s configured = Inr roots"
    "effectiveThreshold block s \<le> int (card (signing_roots verify (signableBytes marshalBlock sortOps block) (Signatures block) roots))"
    "s' = reseal sha marshalState applied"
    using ApplyBlock_Inr[OF app] by metis
  then show ?thesis using ApplyBlock_frame[OF app]
    by (auto simp: validateTrustBlockHeader_Inr trust_consts)
qed

lemma accepted_versions:
  "sorted_wrt (<) (Version s # map (bVersion \<circ> toBlock)
     (accepted offers (snd (run (trust_step sha verify marshalBlock marshalState sortOps) offers s))))"
proof (induction offers arbitrary: s)
  case Nil
  then show ?case by simp
next
  case (Cons offer offers)
  let ?step = "trust_step sha verify marshalBlock marshalState sortOps"
  show ?case
  proof (cases "ApplyBlock sha verify marshalBlock marshalState sortOps (toBlock offer) (toConfigured offer) (toNow offer) s")
    case (Inl e)
    then show ?thesis using Cons.IH[of s] by (simp add: trust_step_def Let_def)
  next
    case (Inr s')
    then have "Version s' = bVersion (toBlock offer)" "Version s < Version s'"
      using ApplyBlock_frame[OF Inr] ApplyBlock_Inr[OF Inr] by (auto simp: validateTrustBlockHeader_Inr)
    then show ?thesis using Inr Cons.IH[of s'] by (auto simp: trust_step_def Let_def)
  qed
qed

text \<open>
  The versions of the accepted blocks of any sequence of offers strictly increase, so no block, and no block of a
  version that was accepted before, is ever accepted again.
\<close>

theorem accepted_blocks_increase:
  "sorted_wrt (<) (map (bVersion \<circ> toBlock)
     (accepted offers (snd (run (trust_step sha verify marshalBlock marshalState sortOps) offers s))))"
  using accepted_versions[of s offers sha verify marshalBlock marshalState sortOps] by simp

text \<open>
  Revocation is permanent: a signer with a revocation record keeps one whatever is offered afterwards, and counts
  as revoked from the recorded time on, even if a later block adds its key again.
\<close>

theorem revocation_permanent:
  assumes "kid |\<in>| fmdom (RevokedSigners s)" "TrimSpace kid = kid"
    and s': "s' = fst (run (trust_step sha verify marshalBlock marshalState sortOps) offers s)"
  shows "\<exists>r. fmlookup (RevokedSigners s') kid = Some r \<and>
    (\<forall>t. IsRevoked s' kid t \<longleftrightarrow> rrEffectiveAt r = 0 \<or> rrEffectiveAt r \<le> t)"
proof -
  have "kid |\<in>| fmdom (RevokedSigners s')" unfolding s' by (rule trust_revoked.run_inv[OF assms(1)])
  then obtain r where "fmlookup (RevokedSigners s') kid = Some r" by (auto simp: fmlookup_dom_iff)
  then show ?thesis using assms(2) by (auto simp: IsRevoked_def)
qed

section \<open>A negative threshold\<close>

lemma plain_Ed25519KeyID [simp]: "plain (Ed25519KeyID sha pub)"
  by (simp add: Ed25519KeyID_def plain_char_def)

lemma Ed25519KeyID_trim [simp]: "TrimSpace (Ed25519KeyID sha pub) = Ed25519KeyID sha pub"
  by (simp add: TrimSpace_plain)

lemma Ed25519KeyID_nonempty [simp]: "Ed25519KeyID sha pub \<noteq> []"
  by (simp add: Ed25519KeyID_def)

lemma sorts_ops_single: "sorts_ops sortOps \<Longrightarrow> sortOps [op] = [op]"
  unfolding sorts_ops_def by (metis mset_single_iff_right mset_single_iff)

text \<open>
  C8. The threshold of a block is not checked to be positive: whoever knows the current state can make a block without any
  signature that is accepted and installs a root key of their own.
\<close>

theorem unsigned_block_accepted:
  assumes roots: "verificationRoots sha s configured = Inr roots" and sorts: "sorts_ops sortOps"
    and pk: "length pk = 32" and now: "0 < now"
  shows "\<exists>block s'. Signatures block = [] \<and>
    ApplyBlock sha verify marshalBlock marshalState sortOps block configured now s = Inr s' \<and>
    fmlookup (RootKeys s') (Ed25519KeyID sha pk) = Some (EncodeToString pk)"
proof -
  define addRoot where "addRoot = \<lparr>opType = ''add_root'', opKeyID = Ed25519KeyID sha pk, opPublicKeyB64 = EncodeToString pk,
    opReason = '''', opReplacedBy = '''', opExpiresAfter = 0\<rparr>"
  define block where "block = \<lparr>Magic = TrustUpdateMagic, BlockID = ''x'', bVersion = Suc (Version s), PrevStateHash = StateHash s,
    IssuedAt = now, EffectiveAt = now, ExpiresAt = now, bThreshold = (- 1), Operations = [addRoot], Notes = fmempty, Signatures = []\<rparr>"
  have "TrimSpace ''x'' = ''x''" by (rule TrimSpace_plain) (simp add: plain_char_def)
  then have "validateTrustBlockHeader block s now = Inr ()"
    using now by (simp add: validateTrustBlockHeader_Inr block_def trust_consts)
  moreover have "effectiveThreshold block s = -1" by (simp add: effectiveThreshold_def block_def)
  moreover have "applyTrustOperation sha block addRoot t =
      Inr (t\<lparr>RootKeys := fmupd (Ed25519KeyID sha pk) (EncodeToString pk) (RootKeys t)\<rparr>)" for t
    using pk by (simp add: applyTrustOperation_def addRoot_def Let_def parseOperationPublicKey_def PublicKeySize_def)
  moreover have "sortOps (Operations block) = [addRoot]" using sorts_ops_single[OF sorts] by (simp add: block_def)
  ultimately have "ApplyBlock sha verify marshalBlock marshalState sortOps block configured now s =
    Inr (reseal sha marshalState ((nextState block now s)\<lparr>RootKeys :=
      fmupd (Ed25519KeyID sha pk) (EncodeToString pk) (RootKeys (nextState block now s))\<rparr>))"
    using roots by (simp add: ApplyBlock_eq)
  then show ?thesis by (intro exI[of _ block]) (simp add: block_def)
qed

section \<open>Generated blocks are accepted\<close>

lemma op_le_trans: "op_le a b \<Longrightarrow> op_le b c \<Longrightarrow> op_le a c"
  by (auto simp: op_le_def)

lemma op_le_total: "op_le a b \<or> op_le b a"
  by (auto simp: op_le_def)

lemma op_le_antisym: "op_le a b \<Longrightarrow> op_le b a \<Longrightarrow> opType a = opType b \<and> opKeyID a = opKeyID b"
  by (auto simp: op_le_def)

lemma sorted_ops_unique:
  assumes "sorted_wrt op_le xs" "sorted_wrt op_le ys" "mset xs = mset ys" "distinct (map (\<lambda>x. (opType x, opKeyID x)) xs)"
  shows "xs = ys"
  using assms
proof (induction xs arbitrary: ys)
  case Nil
  then show ?case by simp
next
  case (Cons x xs)
  then obtain y ys' where ys: "ys = y # ys'" by (cases ys) auto
  have set: "set (x # xs) = set ys" using Cons.prems(3) by (rule mset_eq_setD)
  have "x = y"
  proof (rule ccontr)
    assume "x \<noteq> y"
    then have mem: "y \<in> set xs" "x \<in> set ys'" using set by (auto simp: ys)
    then have "op_le x y" "op_le y x" using Cons.prems(1,2) by (auto simp: ys)
    then show False using op_le_antisym[of x y] mem(1) Cons.prems(4) by force
  qed
  then show ?case using Cons by (auto simp: ys)
qed

lemma rfold_signBlock:
  "rfold (\<lambda>priv sigs. if length priv \<noteq> PrivateKeySize then Inl ErrInvalidKey
    else Inr (sigs @ [signBlock sha public sign msg priv])) privs sigs = Inr out \<Longrightarrow>
   out = sigs @ map (signBlock sha public sign msg) privs"
proof (induction privs arbitrary: sigs)
  case Nil
  then show ?case by simp
next
  case (Cons priv privs)
  from Cons.prems Cons.IH[of "sigs @ [signBlock sha public sign msg priv]"] show ?case
    by (simp split: if_splits)
qed

lemma GenerateTrustUpdateBlock_Inr:
  assumes "GenerateTrustUpdateBlock sha public sign marshalBlock sortOps sortSigs s privs clock block = Inr blk"
  defines "filled \<equiv> fillBlock s clock block"
  shows "blk = filled\<lparr>Operations := sortOps (Operations filled),
    Signatures := sortSigs (map (signBlock sha public sign (signableBytes marshalBlock sortOps filled)) privs)\<rparr>"
  using assms(1) unfolding GenerateTrustUpdateBlock_def canonicalTrustUpdate_def Let_def filled_def signableBytes_def fst_conv prod.case
  by (auto dest!: rfold_signBlock)

text \<open>
  A block that the generator signs with at least the threshold of distinct root keys known to the receiver is accepted by
  a receiver in the same state, as far as its times are valid and its operations apply: both ends agree
  on the signed bytes.
\<close>

theorem generated_block_accepted:
  assumes gen: "GenerateTrustUpdateBlock sha public sign marshalBlock sortOps sortSigs s privs clock block = Inr blk"
    and ed25519: "\<And>priv msg. length (sign priv msg) = 64" "\<And>priv msg. verify (public priv) msg (sign priv msg)"
    and sorts: "sorts_ops sortOps" "\<And>sigs. mset (sortSigs sigs) = mset sigs"
      "distinct (map (\<lambda>x. (opType x, opKeyID x)) (Operations block))"
    and roots: "verificationRoots sha s configured = Inr roots"
      "\<And>priv. priv \<in> set privs \<Longrightarrow> fmlookup roots (Ed25519KeyID sha (public priv)) = Some (public priv)"
      "distinct (map (Ed25519KeyID sha \<circ> public) privs)" "effectiveThreshold block s \<le> int (length privs)"
    and valid: "validateTrustBlockHeader blk s now = Inr ()"
      "rfold (applyTrustOperation sha blk) (Operations blk) (nextState blk now s) = Inr applied"
  shows "ApplyBlock sha verify marshalBlock marshalState sortOps blk configured now s = Inr (reseal sha marshalState applied)"
proof -
  define filled where "filled = fillBlock s clock block"
  define msg where "msg = signableBytes marshalBlock sortOps filled"
  have sigs: "blk = filled\<lparr>Operations := sortOps (Operations filled), Signatures := sortSigs (map (signBlock sha public sign msg) privs)\<rparr>"
    unfolding filled_def msg_def by (rule GenerateTrustUpdateBlock_Inr[OF gen])
  have ops: "Operations filled = Operations block" by (simp add: filled_def fillBlock_def Let_def)
  have resort: "sortOps (sortOps (Operations block)) = sortOps (Operations block)"
  proof (rule sorted_ops_unique)
    have "mset (map (\<lambda>x. (opType x, opKeyID x)) (sortOps (sortOps (Operations block)))) =
        mset (map (\<lambda>x. (opType x, opKeyID x)) (Operations block))"
      using sorts(1) by (simp add: sorts_ops_def)
    then show "distinct (map (\<lambda>x. (opType x, opKeyID x)) (sortOps (sortOps (Operations block))))"
      using sorts(3) mset_eq_imp_distinct_iff by blast
  qed (use sorts(1) in \<open>simp_all add: sorts_ops_def\<close>)
  have same: "signableBytes marshalBlock sortOps blk = msg"
    by (simp add: msg_def signableBytes_def canonicalTrustUpdate_def Let_def sigs ops resort)
  have "signing_roots verify msg (Signatures blk) roots = set (map (Ed25519KeyID sha \<circ> public) privs)"
  proof -
    have "set (Signatures blk) = signBlock sha public sign msg ` set privs"
      using mset_eq_setD[OF sorts(2)] by (simp add: sigs)
    then show ?thesis
      using roots(2) ed25519 by (auto simp: signing_roots_def signBlock_def SignatureSize_def image_iff)
  qed
  then have "int (card (signing_roots verify msg (Signatures blk) roots)) = int (length privs)"
    using roots(3) by (simp only: distinct_card length_map)
  moreover have "effectiveThreshold blk s = effectiveThreshold block s"
    by (simp add: sigs filled_def fillBlock_def Let_def effectiveThreshold_def)
  moreover have "sortOps (Operations blk) = Operations blk" by (simp add: sigs ops resort)
  ultimately show ?thesis
    using roots(1,4) valid by (simp add: ApplyBlock_eq same)
qed

section \<open>The store\<close>

text \<open>
  A state that was saved is loaded back sealed, given that the cipher and the JSON codec invert themselves on it and
  the cipher adds its 16 byte tag.
\<close>

theorem trust_store_roundtrip:
  assumes save: "TrustStore_Save sha marshalState gcmSeal nonce s = Inr stored"
    and gcm: "\<And>p. gcmOpen nonce (gcmSeal nonce p) = Some p" "\<And>p. length (gcmSeal nonce p) = length p + 16" "length nonce = 12"
    and json: "unmarshalState (marshalState (reseal sha marshalState s)) = Some (reseal sha marshalState s)"
  shows "TrustStore_Load sha marshalState unmarshalState gcmOpen stored = Inr (reseal sha marshalState s)"
proof -
  let ?t = "reseal sha marshalState s"
  have stored: "stored = Some (nonce @ gcmSeal nonce (marshalState ?t))" "length (marshalState ?t) \<le> MaxTrustStateBytes"
    using save by (auto simp: TrustStore_Save_def Let_def split: if_splits)
  have "ensureMaps ?t = ?t" by (simp add: ensureMaps_def reseal_Threshold DefaultTrustThreshold_def)
  then show ?thesis
    using stored gcm json by (simp add: TrustStore_Load_def GcmNonceSize_def MaxTrustStateBytes_def)
qed

theorem trust_store_roundtrip_witness:
  "let sha = (\<lambda>_. replicate 32 7); s = reseal sha (\<lambda>_. [1]) emptyTrustState
   in TrustStore_Load sha (\<lambda>_. [1]) (\<lambda>_. Some s) (\<lambda>_ c. Some (take (length c - 16) c))
        (Some (replicate 12 3 @ [1] @ replicate 16 0)) = Inr s"
proof -
  let ?sha = "\<lambda>_ :: bytes. replicate 32 (7 :: byte)"
  have save: "TrustStore_Save ?sha (\<lambda>_. [1]) (\<lambda>_ p. p @ replicate 16 0) (replicate 12 3) emptyTrustState =
      Inr (Some (replicate 12 3 @ [1] @ replicate 16 0))"
    by (simp add: TrustStore_Save_def MaxTrustStateBytes_def)
  show ?thesis unfolding Let_def by (rule trust_store_roundtrip[OF save]) simp_all
qed

section \<open>A concrete update\<close>

text \<open>An insertion sort as the sorting function, and a block signed by one root key.\<close>

fun insert_op :: "TrustOperation \<Rightarrow> TrustOperation list \<Rightarrow> TrustOperation list" where
  "insert_op x [] = [x]"
| "insert_op x (y # ys) = (if op_le x y then x # y # ys else y # insert_op x ys)"

definition insertion_sort :: "TrustOperation list \<Rightarrow> TrustOperation list" where
  "insertion_sort ops = foldr insert_op ops []"

lemma mset_insert_op [simp]: "mset (insert_op x ys) = add_mset x (mset ys)"
  by (induction ys) auto

lemma set_insert_op [simp]: "set (insert_op x ys) = insert x (set ys)"
  by (induction ys) auto

lemma sorted_insert_op: "sorted_wrt op_le ys \<Longrightarrow> sorted_wrt op_le (insert_op x ys)"
proof (induction ys)
  case Nil
  then show ?case by simp
next
  case (Cons y ys)
  then show ?case using op_le_total[of x y] by (auto intro: op_le_trans)
qed

lemma sorts_insertion_sort: "sorts_ops insertion_sort"
  unfolding sorts_ops_def insertion_sort_def
proof (intro allI conjI)
  show "mset (foldr insert_op ops []) = mset ops" for ops by (induction ops) auto
  show "sorted_wrt op_le (foldr insert_op ops [])" for ops by (induction ops) (auto intro: sorted_insert_op)
qed

definition sample_root :: bytes where "sample_root = replicate 32 1"

definition sample_sha :: "bytes \<Rightarrow> bytes" where "sample_sha b = replicate 32 7"

definition sample_op :: "string \<Rightarrow> TrustOperation" where
  "sample_op ty = \<lparr>opType = ty, opKeyID = '' k '', opPublicKeyB64 = '''', opReason = ''lost'', opReplacedBy = '''', opExpiresAfter = 0\<rparr>"

definition sample_block :: TrustUpdateBlock where
  "sample_block = \<lparr>Magic = TrustUpdateMagic, BlockID = ''b1'', bVersion = 1, PrevStateHash = '''', IssuedAt = 100, EffectiveAt = 150,
     ExpiresAt = 200, bThreshold = 1, Operations = [sample_op ''revoke_signer'', sample_op ''retire_signer''], Notes = fmempty,
     Signatures = [signBlock sample_sha (\<lambda>_. sample_root) (\<lambda>_ _. replicate 64 9) [] []]\<rparr>"

definition sample_next :: TrustState where
  "sample_next = reseal sample_sha (\<lambda>_. []) (emptyTrustState\<lparr>Version := 1, UpdatedAt := 120, Threshold := 1,
     RetiredSigners := fmupd ''k'' \<lparr>trReplacedBy = '''', trEffectiveAt = 150, trExpiresAfter = 0, trBlockID = ''b1''\<rparr> fmempty,
     RevokedSigners := fmupd ''k'' \<lparr>rrReason = ''lost'', rrEffectiveAt = 150, rrRevokedAt = 100, rrBlockID = ''b1''\<rparr> fmempty\<rparr>)"

lemma trim_samples: "TrimSpace ''b1'' = ''b1''" "TrimSpace '' k '' = ''k''" "TrimSpace ''lost'' = ''lost''"
proof -
  show "TrimSpace ''b1'' = ''b1''" "TrimSpace ''lost'' = ''lost''" by (auto intro!: TrimSpace_plain simp: plain_char_def)
  show "TrimSpace '' k '' = ''k''"
    by (simp add: TrimSpace_def TrimLeft.simps TrimRight.simps trim_eval)
qed

lemma sample_apply:
  "ApplyBlock sample_sha (\<lambda>_ _ _. True) (\<lambda>_. []) (\<lambda>_. []) insertion_sort sample_block [sample_root] 120 emptyTrustState = Inr sample_next"
proof -
  have "validateTrustBlockHeader sample_block emptyTrustState 120 = Inr ()"
    by (simp add: validateTrustBlockHeader_Inr sample_block_def emptyTrustState_def trust_consts trim_samples)
  moreover have roots: "verificationRoots sample_sha emptyTrustState [sample_root] =
      Inr (fmupd (Ed25519KeyID sample_sha sample_root) sample_root fmempty)"
    by (simp add: verificationRoots_def emptyTrustState_def sample_root_def PublicKeySize_def)
  moreover have "signing_roots (\<lambda>_ _ _. True) msg (Signatures sample_block) (fmupd (Ed25519KeyID sample_sha sample_root) sample_root fmempty)
      = {Ed25519KeyID sample_sha sample_root}" for msg
    by (auto simp: signing_roots_def sample_block_def signBlock_def SignatureSize_def)
  moreover have "effectiveThreshold sample_block emptyTrustState = 1" by (simp add: effectiveThreshold_def sample_block_def)
  moreover have "insertion_sort (Operations sample_block) = [sample_op ''retire_signer'', sample_op ''revoke_signer'']"
    using op_type_order by (auto simp: insertion_sort_def sample_block_def op_le_def sample_op_def dest: less_asym)
  moreover have "rfold (applyTrustOperation sample_sha sample_block) [sample_op ''retire_signer'', sample_op ''revoke_signer'']
      (nextState sample_block 120 emptyTrustState) = Inr (emptyTrustState\<lparr>Version := 1, UpdatedAt := 120, Threshold := 1,
     RetiredSigners := fmupd ''k'' \<lparr>trReplacedBy = '''', trEffectiveAt = 150, trExpiresAfter = 0, trBlockID = ''b1''\<rparr> fmempty,
     RevokedSigners := fmupd ''k'' \<lparr>rrReason = ''lost'', rrEffectiveAt = 150, rrRevokedAt = 100, rrBlockID = ''b1''\<rparr> fmempty\<rparr>)"
    by (simp add: applyTrustOperation_def Let_def sample_op_def sample_block_def nextState_def emptyTrustState_def trim_samples
        cleanReason_def normalizeThreshold_def)
  ultimately show ?thesis by (simp add: ApplyBlock_eq sample_next_def)
qed

theorem revocation_wins_witness: "IsRevoked sample_next '' k '' 150"
proof -
  have "sample_op ''revoke_signer'' \<in> set (Operations sample_block)" "opType (sample_op ''revoke_signer'') = ''revoke_signer''"
    "opKeyID (sample_op ''revoke_signer'') = '' k ''" "EffectiveAt sample_block = 150"
    by (simp_all add: sample_block_def sample_op_def)
  then show ?thesis using revocation_wins[OF sample_apply sorts_insertion_sort, of "sample_op ''revoke_signer''" 150] by simp
qed

theorem accepted_block_authorised_witness:
  "\<exists>roots. verificationRoots sample_sha emptyTrustState [sample_root] = Inr roots \<and>
    1 \<le> int (card (signing_roots (\<lambda>_ _ _. True) (signableBytes (\<lambda>_. []) insertion_sort sample_block) (Signatures sample_block) roots))"
  using accepted_block_authorised[OF sample_apply] by (auto simp: effectiveThreshold_def sample_block_def)

theorem revocation_permanent_witness:
  "\<exists>r. fmlookup (RevokedSigners (fst (run (trust_step sample_sha (\<lambda>_ _ _. True) (\<lambda>_. []) (\<lambda>_. []) insertion_sort) [] sample_next))) ''k'' = Some r"
  using revocation_permanent[of "''k''" sample_next, OF _ _ refl, of sample_sha "\<lambda>_ _ _. True" "\<lambda>_. []" "\<lambda>_. []" insertion_sort "[]"]
  by (auto simp: sample_next_def TrimSpace_plain plain_char_def)

theorem active_keys_reachable_witness:
  "\<exists>s0 keys. NewTrustState sample_sha (\<lambda>_. []) [sample_root] [sample_root] 0 100 = Inr s0 \<and> ActivePublicKeys s0 120 = Inr keys"
proof -
  have "\<exists>s0. NewTrustState sample_sha (\<lambda>_. []) [sample_root] [sample_root] 0 100 = Inr s0"
    by (simp add: NewTrustState_def addKey_def sample_root_def PublicKeySize_def)
  then obtain s0 where s0: "NewTrustState sample_sha (\<lambda>_. []) [sample_root] [sample_root] 0 100 = Inr s0" by blast
  have "s0 = fst (run (trust_step sample_sha (\<lambda>_ _ _. True) (\<lambda>_. []) (\<lambda>_. []) insertion_sort) [] s0)" by simp
  from active_keys_reachable[OF s0 this, of 120] s0 show ?thesis by blast
qed

theorem unsigned_block_accepted_witness:
  "\<exists>block s'. Signatures block = [] \<and>
    ApplyBlock sample_sha (\<lambda>_ _ _. False) (\<lambda>_. []) (\<lambda>_. []) insertion_sort block [sample_root] 120 emptyTrustState = Inr s' \<and>
    fmlookup (RootKeys s') (Ed25519KeyID sample_sha (replicate 32 66)) = Some (EncodeToString (replicate 32 66))"
  by (rule unsigned_block_accepted[where roots = "fmupd (Ed25519KeyID sample_sha sample_root) sample_root fmempty", OF _ sorts_insertion_sort])
    (simp_all add: verificationRoots_def emptyTrustState_def sample_root_def PublicKeySize_def)

theorem generated_block_accepted_witness:
  "\<exists>blk s'. GenerateTrustUpdateBlock sample_sha (\<lambda>_. sample_root) (\<lambda>_ _. replicate 64 9) (\<lambda>_. []) insertion_sort (\<lambda>x. x)
      emptyTrustState [replicate 64 2] 100 sample_block = Inr blk \<and>
    ApplyBlock sample_sha (\<lambda>_ _ _. True) (\<lambda>_. []) (\<lambda>_. []) insertion_sort blk [sample_root] 120 emptyTrustState = Inr s'"
proof -
  have "\<exists>blk. GenerateTrustUpdateBlock sample_sha (\<lambda>_. sample_root) (\<lambda>_ _. replicate 64 9) (\<lambda>_. []) insertion_sort (\<lambda>x. x)
      emptyTrustState [replicate 64 2] 100 sample_block = Inr blk"
    by (simp add: GenerateTrustUpdateBlock_def canonicalTrustUpdate_def Let_def PrivateKeySize_def)
  then obtain blk where gen: "GenerateTrustUpdateBlock sample_sha (\<lambda>_. sample_root) (\<lambda>_ _. replicate 64 9) (\<lambda>_. []) insertion_sort (\<lambda>x. x)
      emptyTrustState [replicate 64 2] 100 sample_block = Inr blk" by blast
  have ops: "insertion_sort (Operations sample_block) = [sample_op ''retire_signer'', sample_op ''revoke_signer'']"
    using op_type_order by (auto simp: insertion_sort_def sample_block_def op_le_def sample_op_def dest: less_asym)
  have blk: "Magic blk = TrustUpdateMagic" "BlockID blk = ''b1''" "bVersion blk = 1" "IssuedAt blk = 100" "EffectiveAt blk = 150"
      "ExpiresAt blk = 200" "Operations blk = [sample_op ''retire_signer'', sample_op ''revoke_signer'']"
    unfolding GenerateTrustUpdateBlock_Inr[OF gen]
    by (simp_all add: fillBlock_def Let_def ops) (simp_all add: sample_block_def trim_samples)
  have "validateTrustBlockHeader blk emptyTrustState 120 = Inr ()"
    by (simp add: validateTrustBlockHeader_Inr blk emptyTrustState_def trust_consts trim_samples)
  moreover have "\<exists>applied. rfold (applyTrustOperation sample_sha blk) (Operations blk) (nextState blk 120 emptyTrustState) = Inr applied"
    by (simp add: blk applyTrustOperation_def Let_def sample_op_def trim_samples)
  moreover have "verificationRoots sample_sha emptyTrustState [sample_root] =
      Inr (fmupd (Ed25519KeyID sample_sha sample_root) sample_root fmempty)"
    by (simp add: verificationRoots_def emptyTrustState_def sample_root_def PublicKeySize_def)
  moreover have "distinct (map (\<lambda>x. (opType x, opKeyID x)) (Operations sample_block))"
    "effectiveThreshold sample_block emptyTrustState \<le> int (length [replicate 64 (2 :: byte)])"
    by (simp_all add: sample_block_def sample_op_def effectiveThreshold_def)
  ultimately have "\<exists>s'. ApplyBlock sample_sha (\<lambda>_ _ _. True) (\<lambda>_. []) (\<lambda>_. []) insertion_sort blk [sample_root] 120 emptyTrustState = Inr s'"
    using generated_block_accepted[OF gen, of "\<lambda>_ _ _. True" "[sample_root]", OF _ _ sorts_insertion_sort] by fastforce
  with gen show ?thesis by blast
qed

end
