(* ===== verification/Bundle_Verify.thy ===== *)
theory Bundle_Verify
  imports Trust_State
begin

text \<open>
  Signed bundles (\<^verbatim>\<open>pkg/bundle/crypto.go\<close>, \<^verbatim>\<open>pkg/bundle/verify.go\<close>): generating a bundle and verifying it.

  Arguments of the definitions: \<open>sha\<close> and Ed25519's \<open>sign\<close>, \<open>verify\<close>; the JSON codec of the wrapper and of
  the header (\<open>decodeWrapper\<close> is the strict decoder, \<open>marshalHeader\<close>, \<open>marshalWrapper\<close>); the
  \<^verbatim>\<open>filippo.io/age\<close> library (\<open>ageEncrypt\<close>, \<open>ageDecrypt\<close>, an identity with its \<open>recipient\<close> string); and for the
  inner payload its decoder, its canonical form and \<open>validatePayload\<close>, the issues of \<^verbatim>\<open>validatePayloadStrict\<close>.
  An issue is its code.
\<close>

record BundleHeader =
  hMagic :: string
  hBundleID :: string
  hPublisherKeyID :: string
  hRecipientKeyID :: string
  hSeq :: nat
  hNonce :: string
  hCreatedAt :: int
  hExpiresAt :: int
  hCipher :: string
  hSignature :: string

datatype verify_error = VerifyIssues "string list" | ErrInvalidSignature | ErrBundleDecryption

datatype age_result = AgeRefused | AgeReadError | AgeOk bytes

record 'id VerifyOptions =
  voNow :: int
  voAgeIdentity :: "'id option"
  voRequireDecrypt :: bool

definition BundleSignatureDomain :: bytes where
  "BundleSignatureDomain = map (word_of_nat \<circ> of_char) ''SUNLIONET-BUNDLE-V2'' @ [0]"

definition BundleNonceSize :: nat where "BundleNonceSize = 24"
definition MaxBundleSize :: nat where "MaxBundleSize = 2097152"
definition MaxPayloadBytes :: nat where "MaxPayloadBytes = 1048576"
definition MaxCiphertextBytes :: nat where "MaxCiphertextBytes = 2097152"
definition MaxBundleTTLSeconds :: int where "MaxBundleTTLSeconds = 1209600"

lemmas bundle_consts = BundleNonceSize_def MaxBundleSize_def MaxPayloadBytes_def MaxCiphertextBytes_def
  MaxBundleTTLSeconds_def MaxClockSkewSeconds_def PublicKeySize_def SignatureSize_def PrivateKeySize_def

definition fingerprint16 :: "(bytes \<Rightarrow> bytes) \<Rightarrow> string \<Rightarrow> string" where
  "fingerprint16 sha s = take 16 (EncodeToString (sha (str_bytes s)))"

definition decodeBundleNonce :: "string \<Rightarrow> bytes option" where
  "decodeBundleNonce s =
     (if TrimSpace s = '''' then None
      else case DecodeString s of
             None \<Rightarrow> None
           | Some nonce \<Rightarrow> if length nonce \<noteq> BundleNonceSize then None else Some nonce)"

definition signatureInput :: "bytes \<Rightarrow> bytes \<Rightarrow> bytes" where
  "signatureInput headerBytes ciphertext = BundleSignatureDomain @ headerBytes @ [0] @ ciphertext"

text \<open>The issues that \<^verbatim>\<open>VerifyBundle\<close> collects before it looks at the signature, in order.\<close>

definition headerIssues :: "BundleHeader \<Rightarrow> string \<Rightarrow> int \<Rightarrow> string list" where
  "headerIssues h expected now =
     (if hMagic h \<noteq> ''SNB1'' then [''header_magic''] else []) @
     (if TrimSpace (hBundleID h) = '''' then [''header_bundle_id''] else []) @
     (if TrimSpace (hPublisherKeyID h) = '''' then [''header_publisher_key_id'']
      else if hPublisherKeyID h \<noteq> expected then [''issuer_mismatch''] else []) @
     (if hSeq h = 0 then [''header_seq''] else []) @
     (if decodeBundleNonce (hNonce h) = None then [''header_nonce''] else []) @
     (if hCreatedAt h \<le> 0 then [''header_created_at''] else []) @
     (if hExpiresAt h \<le> 0 then [''header_expires_at''] else []) @
     (if hCreatedAt h > 0 \<and> hExpiresAt h > 0 \<and> hExpiresAt h < hCreatedAt h then [''header_time_order''] else []) @
     (if hCreatedAt h > now + MaxClockSkewSeconds then [''header_future''] else []) @
     (if hExpiresAt h > 0 \<and> hCreatedAt h > 0 \<and> hExpiresAt h - hCreatedAt h > MaxBundleTTLSeconds then [''header_ttl''] else []) @
     (if now > hExpiresAt h then [''expired''] else []) @
     (if hCipher h = ''age-x25519''
      then (if take 11 (hRecipientKeyID h) \<noteq> ''age-x25519:'' then [''recipient_key_id''] else [])
      else if hCipher h = ''none'' then (if hRecipientKeyID h \<noteq> ''none'' then [''recipient_key_id''] else [])
      else [''cipher''])"

definition sizeIssues :: "string \<Rightarrow> string \<Rightarrow> string list" where
  "sizeIssues ciphertextB64 signatureB64 =
     (case DecodeString ciphertextB64 of
        None \<Rightarrow> [''ciphertext_b64'']
      | Some c \<Rightarrow> if c = [] \<or> length c > MaxCiphertextBytes then [''ciphertext_size''] else []) @
     (case DecodeString signatureB64 of
        None \<Rightarrow> [''signature_b64'']
      | Some s \<Rightarrow> if length s \<noteq> SignatureSize then [''signature_size''] else [])"

definition decryptPayloadBytes ::
    "(bytes \<Rightarrow> bytes) \<Rightarrow> ('id \<Rightarrow> string) \<Rightarrow> ('id \<Rightarrow> bytes \<Rightarrow> age_result) \<Rightarrow> BundleHeader \<Rightarrow> bytes \<Rightarrow> 'id option \<Rightarrow> verify_error + bytes" where
  "decryptPayloadBytes sha recipient ageDecrypt h ciphertext identity =
     (if hCipher h = ''none'' then Inr ciphertext
      else if hCipher h = ''age-x25519'' then
        (case identity of
           None \<Rightarrow> Inl ErrBundleDecryption
         | Some i \<Rightarrow>
             if TrimSpace (hRecipientKeyID h) \<noteq> ''age-x25519:'' @ fingerprint16 sha (recipient i) then Inl ErrBundleDecryption
             else (case ageDecrypt i ciphertext of
                     AgeRefused \<Rightarrow> Inl ErrBundleDecryption
                   | AgeReadError \<Rightarrow> Inl (VerifyIssues [''decrypt''])
                   | AgeOk b \<Rightarrow> if length b > MaxPayloadBytes then Inl (VerifyIssues [''decrypt'']) else Inr b))
      else Inl (VerifyIssues [''decrypt'']))"

text \<open>The result is the header and, when it was decrypted, the payload.\<close>

definition VerifyBundle ::
    "(bytes \<Rightarrow> bytes) \<Rightarrow> (bytes \<Rightarrow> bytes \<Rightarrow> bytes \<Rightarrow> bool) \<Rightarrow> (bytes \<Rightarrow> (BundleHeader \<times> string) option) \<Rightarrow> (BundleHeader \<Rightarrow> bytes) \<Rightarrow>
     ('id \<Rightarrow> string) \<Rightarrow> ('id \<Rightarrow> bytes \<Rightarrow> age_result) \<Rightarrow> (bytes \<Rightarrow> 'p option) \<Rightarrow> ('p \<Rightarrow> bytes) \<Rightarrow> ('p \<Rightarrow> BundleHeader \<Rightarrow> int \<Rightarrow> string list) \<Rightarrow>
     bytes \<Rightarrow> bytes \<Rightarrow> 'id VerifyOptions \<Rightarrow> verify_error + BundleHeader \<times> 'p option" where
  "VerifyBundle sha verify decodeWrapper marshalHeader recipient ageDecrypt decodePayload canonical validatePayload bundleBytes trustedSigner opts =
     (let now = voNow opts in
      if bundleBytes = [] \<or> length bundleBytes > MaxBundleSize then Inl (VerifyIssues [''wrapper_size''])
      else if length trustedSigner \<noteq> PublicKeySize then Inl ErrInvalidSignature
      else case decodeWrapper bundleBytes of
        None \<Rightarrow> Inl (VerifyIssues [''wrapper_parse''])
      | Some (h, ciphertextB64) \<Rightarrow>
          (let issues = headerIssues h (Ed25519KeyID sha trustedSigner) now @ sizeIssues ciphertextB64 (hSignature h);
               ciphertext = the (DecodeString ciphertextB64); sigBytes = the (DecodeString (hSignature h)) in
           if issues \<noteq> [] then Inl (VerifyIssues issues)
           else if \<not> verify trustedSigner (signatureInput (marshalHeader (h\<lparr>hSignature := ''''\<rparr>)) ciphertext) sigBytes
           then Inl ErrInvalidSignature
           else if hCipher h = ''age-x25519'' \<and> voAgeIdentity opts = None \<and> voRequireDecrypt opts
           then Inl (VerifyIssues [''decrypt_required''])
           else if hCipher h = ''age-x25519'' \<and> voAgeIdentity opts = None then Inr (h, None)
           else rbind (decryptPayloadBytes sha recipient ageDecrypt h ciphertext (voAgeIdentity opts)) (\<lambda>payloadBytes.
             case decodePayload payloadBytes of
               None \<Rightarrow> Inl (VerifyIssues [''payload_parse''])
             | Some payload \<Rightarrow>
                 if canonical payload \<noteq> payloadBytes then Inl (VerifyIssues [''payload_not_canonical''])
                 else if validatePayload payload h now \<noteq> [] then Inl (VerifyIssues (validatePayload payload h now))
                 else Inr (h, Some payload))))"

section \<open>Generation\<close>

record GenerateOptions =
  goRecipientPublicKey :: string
  goAllowPlaintext :: bool
  goSignerKeyID :: string
  goBundleID :: string
  goSeq :: nat
  goNonce :: string
  goCreatedAt :: int
  goExpiresAt :: int

definition validateSigningKey :: "(bytes \<Rightarrow> bytes) \<Rightarrow> (bytes \<Rightarrow> bytes) \<Rightarrow> bytes \<Rightarrow> string \<Rightarrow> bool" where
  "validateSigningKey sha public priv signerKeyID \<longleftrightarrow>
     length priv = PrivateKeySize \<and> length (public priv) = PublicKeySize \<and>
     TrimSpace signerKeyID \<noteq> '''' \<and> signerKeyID = Ed25519KeyID sha (public priv)"

definition fillOptions :: "int \<Rightarrow> bytes \<Rightarrow> GenerateOptions \<Rightarrow> GenerateOptions" where
  "fillOptions clock random o0 =
     (let created = (if goCreatedAt o0 = 0 then clock else goCreatedAt o0)
      in o0\<lparr>goBundleID := (if TrimSpace (goBundleID o0) = '''' then ''bndl_'' @ Itoa clock else goBundleID o0),
            goSeq := (if goSeq o0 = 0 then 1 else goSeq o0), goCreatedAt := created,
            goExpiresAt := (if goExpiresAt o0 = 0 then created + 604800 else goExpiresAt o0),
            goNonce := (if goNonce o0 = '''' then EncodeToString random else goNonce o0)\<rparr>)"

text \<open>
  \<open>clock\<close> and \<open>random\<close> are the clock and the 24 random bytes; \<open>None\<close> stands for an error. \<open>ageEncrypt\<close> is parsing the
  recipient and encrypting to it.
\<close>

definition sealPayload ::
    "(bytes \<Rightarrow> bytes) \<Rightarrow> (string \<Rightarrow> bytes \<Rightarrow> bytes option) \<Rightarrow> GenerateOptions \<Rightarrow> bytes \<Rightarrow> (bytes \<times> string \<times> string) option" where
  "sealPayload sha ageEncrypt opts payloadBytes =
     (if TrimSpace (goRecipientPublicKey opts) \<noteq> ''''
      then map_option (\<lambda>c. (c, ''age-x25519'', ''age-x25519:'' @ fingerprint16 sha (goRecipientPublicKey opts)))
             (ageEncrypt (goRecipientPublicKey opts) payloadBytes)
      else if \<not> goAllowPlaintext opts then None else Some (payloadBytes, ''none'', ''none''))"

definition newHeader :: "GenerateOptions \<Rightarrow> string \<Rightarrow> string \<Rightarrow> BundleHeader" where
  "newHeader opts cipher recipientKeyID =
     \<lparr>hMagic = ''SNB1'', hBundleID = goBundleID opts, hPublisherKeyID = goSignerKeyID opts,
      hRecipientKeyID = recipientKeyID, hSeq = goSeq opts, hNonce = goNonce opts, hCreatedAt = goCreatedAt opts,
      hExpiresAt = goExpiresAt opts, hCipher = cipher, hSignature = ''''\<rparr>"

definition GenerateBundleWithOptions ::
    "(bytes \<Rightarrow> bytes) \<Rightarrow> (bytes \<Rightarrow> bytes) \<Rightarrow> (bytes \<Rightarrow> bytes \<Rightarrow> bytes) \<Rightarrow> (BundleHeader \<Rightarrow> bytes) \<Rightarrow> (BundleHeader \<times> string \<Rightarrow> bytes) \<Rightarrow>
     (string \<Rightarrow> bytes \<Rightarrow> bytes option) \<Rightarrow> ('p \<Rightarrow> bytes) \<Rightarrow> int \<Rightarrow> bytes \<Rightarrow> 'p \<Rightarrow> bytes \<Rightarrow> GenerateOptions \<Rightarrow> bytes option" where
  "GenerateBundleWithOptions sha public sign marshalHeader marshalWrapper ageEncrypt canonical clock random payload priv opts0 =
     (let payloadBytes = canonical payload; opts = fillOptions clock random opts0 in
      if \<not> validateSigningKey sha public priv (goSignerKeyID opts) then None
      else case sealPayload sha ageEncrypt opts payloadBytes of
        None \<Rightarrow> None
      | Some (ciphertext, cipher, recipientKeyID) \<Rightarrow>
          (let h = newHeader opts cipher recipientKeyID;
               signature = sign priv (signatureInput (marshalHeader h) ciphertext)
           in Some (marshalWrapper (h\<lparr>hSignature := EncodeToString signature\<rparr>, EncodeToString ciphertext))))"

section \<open>What verification establishes\<close>

lemma headerIssues_Nil:
  "headerIssues h expected now = [] \<longleftrightarrow>
     hMagic h = ''SNB1'' \<and> TrimSpace (hBundleID h) \<noteq> '''' \<and> TrimSpace (hPublisherKeyID h) \<noteq> '''' \<and> hPublisherKeyID h = expected \<and>
     0 < hSeq h \<and> decodeBundleNonce (hNonce h) \<noteq> None \<and> 0 < hCreatedAt h \<and> hCreatedAt h \<le> hExpiresAt h \<and>
     hCreatedAt h \<le> now + MaxClockSkewSeconds \<and> hExpiresAt h - hCreatedAt h \<le> MaxBundleTTLSeconds \<and> now \<le> hExpiresAt h \<and>
     (hCipher h = ''age-x25519'' \<and> take 11 (hRecipientKeyID h) = ''age-x25519:'' \<or> hCipher h = ''none'' \<and> hRecipientKeyID h = ''none'')"
  unfolding headerIssues_def by auto

lemma sizeIssues_Nil:
  "sizeIssues c s = [] \<longleftrightarrow> (\<exists>cb sb. DecodeString c = Some cb \<and> DecodeString s = Some sb \<and> cb \<noteq> [] \<and>
     length cb \<le> MaxCiphertextBytes \<and> length sb = SignatureSize)"
  by (auto simp: sizeIssues_def split: option.splits)

text \<open>
  C9. A verified bundle has a well-formed header that names the trusted key as its publisher, is inside its validity time (at
  most 14 days, at most 10 minutes ahead of the clock), carries a 24 byte nonce and a signature of the trusted key over
  the header and the ciphertext; with decryption required it has a canonical payload without issues.
\<close>

theorem verified_bundle_sound:
  assumes "VerifyBundle sha verify decodeWrapper marshalHeader recipient ageDecrypt decodePayload canonical validatePayload bundleBytes trustedSigner opts
    = Inr (h, payload)"
  shows "\<exists>c64 c sig. decodeWrapper bundleBytes = Some (h, c64) \<and> DecodeString c64 = Some c \<and> DecodeString (hSignature h) = Some sig \<and>
    verify trustedSigner (signatureInput (marshalHeader (h\<lparr>hSignature := ''''\<rparr>)) c) sig \<and>
    hMagic h = ''SNB1'' \<and> hPublisherKeyID h = Ed25519KeyID sha trustedSigner \<and> 0 < hSeq h \<and>
    0 < hCreatedAt h \<and> hCreatedAt h \<le> hExpiresAt h \<and> hExpiresAt h \<le> hCreatedAt h + 1209600 \<and>
    hCreatedAt h \<le> voNow opts + 600 \<and> voNow opts \<le> hExpiresAt h \<and>
    (\<exists>nonce. DecodeString (hNonce h) = Some nonce \<and> length nonce = 24) \<and>
    (voRequireDecrypt opts \<longrightarrow> (\<exists>p pb. payload = Some p \<and>
       decryptPayloadBytes sha recipient ageDecrypt h c (voAgeIdentity opts) = Inr pb \<and>
       canonical p = pb \<and> validatePayload p h (voNow opts) = []))"
proof -
  obtain c64 where dec: "decodeWrapper bundleBytes = Some (h, c64)"
    and issues: "headerIssues h (Ed25519KeyID sha trustedSigner) (voNow opts) = []" "sizeIssues c64 (hSignature h) = []"
    and sig: "verify trustedSigner (signatureInput (marshalHeader (h\<lparr>hSignature := ''''\<rparr>)) (the (DecodeString c64))) (the (DecodeString (hSignature h)))"
    and pay: "voRequireDecrypt opts \<longrightarrow> (\<exists>p pb. payload = Some p \<and>
       decryptPayloadBytes sha recipient ageDecrypt h (the (DecodeString c64)) (voAgeIdentity opts) = Inr pb \<and>
       canonical p = pb \<and> validatePayload p h (voNow opts) = [])"
    using assms unfolding VerifyBundle_def Let_def
    by (auto split: if_splits option.splits prod.splits)
  obtain c s where cs: "DecodeString c64 = Some c" "DecodeString (hSignature h) = Some s"
    using issues(2) by (auto simp: sizeIssues_Nil)
  have "\<exists>nonce. DecodeString (hNonce h) = Some nonce \<and> length nonce = 24"
    using issues(1) by (auto simp: headerIssues_Nil decodeBundleNonce_def bundle_consts split: if_splits option.splits)
  then show ?thesis
    using dec issues(1) sig pay cs by (auto simp: headerIssues_Nil bundle_consts)
qed

section \<open>A generated bundle verifies\<close>

lemma decodeBundleNonce_EncodeToString: "length nonce = 24 \<Longrightarrow> decodeBundleNonce (EncodeToString nonce) = Some nonce"
  by (auto simp: decodeBundleNonce_def BundleNonceSize_def)

lemma GenerateBundle_Some:
  assumes "GenerateBundleWithOptions sha public sign marshalHeader marshalWrapper ageEncrypt canonical clock random payload priv opts0 = Some raw"
  defines "opts \<equiv> fillOptions clock random opts0"
  obtains h c where
    "raw = marshalWrapper (h\<lparr>hSignature := EncodeToString (sign priv (signatureInput (marshalHeader h) c))\<rparr>, EncodeToString c)"
    "hMagic h = ''SNB1''" "hBundleID h = goBundleID opts" "hPublisherKeyID h = goSignerKeyID opts" "hSeq h = goSeq opts"
    "hNonce h = goNonce opts" "hCreatedAt h = goCreatedAt opts" "hExpiresAt h = goExpiresAt opts" "hSignature h = ''''"
    "validateSigningKey sha public priv (goSignerKeyID opts)"
    "hCipher h = ''none'' \<and> hRecipientKeyID h = ''none'' \<and> c = canonical payload \<or>
     hCipher h = ''age-x25519'' \<and> hRecipientKeyID h = ''age-x25519:'' @ fingerprint16 sha (goRecipientPublicKey opts) \<and>
       ageEncrypt (goRecipientPublicKey opts) (canonical payload) = Some c"
proof -
  from assms(1) obtain c cipher rid where seal: "sealPayload sha ageEncrypt opts (canonical payload) = Some (c, cipher, rid)"
    and key: "validateSigningKey sha public priv (goSignerKeyID opts)"
    and raw: "raw = marshalWrapper ((newHeader opts cipher rid)\<lparr>hSignature :=
      EncodeToString (sign priv (signatureInput (marshalHeader (newHeader opts cipher rid)) c))\<rparr>, EncodeToString c)"
    by (auto simp: GenerateBundleWithOptions_def Let_def opts_def split: if_splits option.splits)
  have "cipher = ''none'' \<and> rid = ''none'' \<and> c = canonical payload \<or>
     cipher = ''age-x25519'' \<and> rid = ''age-x25519:'' @ fingerprint16 sha (goRecipientPublicKey opts) \<and>
       ageEncrypt (goRecipientPublicKey opts) (canonical payload) = Some c"
    using seal by (auto simp: sealPayload_def split: if_splits)
  then show thesis using key raw by (intro that[of "newHeader opts cipher rid" c]) (auto simp: newHeader_def)
qed

lemma fillOptions_facts:
  fixes clock
  assumes "length random = 24" "goNonce opts0 = '''' \<or> decodeBundleNonce (goNonce opts0) \<noteq> None"
  defines "opts \<equiv> fillOptions clock random opts0"
  shows "TrimSpace (goBundleID opts) \<noteq> ''''" "0 < goSeq opts" "decodeBundleNonce (goNonce opts) \<noteq> None"
proof -
  have "TrimSpace (''bndl_'' @ Itoa clock) = ''bndl_'' @ Itoa clock"
    by (rule TrimSpace_plain) (simp add: plain_char_def)
  then show "TrimSpace (goBundleID opts) \<noteq> ''''" by (simp add: opts_def fillOptions_def Let_def)
  show "0 < goSeq opts" by (simp add: opts_def fillOptions_def Let_def)
  show "decodeBundleNonce (goNonce opts) \<noteq> None"
    using assms(1,2) decodeBundleNonce_EncodeToString[of random] by (auto simp: opts_def fillOptions_def Let_def)
qed

text \<open>
  What the generator produces, for a recipient or in plaintext, passes verification by the matching identity and yields the same
  payload, given honest cryptography and codecs, sizes within the limits, a valid time window and a payload without issues.
\<close>

theorem generated_bundle_verifies:
  fixes identity :: 'id
  assumes gen: "GenerateBundleWithOptions sha public sign marshalHeader marshalWrapper ageEncrypt canonical clock random payload priv opts0 = Some raw"
    and opts: "opts = fillOptions clock random opts0"
    and ed25519: "\<And>m. length (sign priv m) = 64" "\<And>m. verify (public priv) m (sign priv m)"
    and codec: "\<And>w. marshalWrapper w = raw \<Longrightarrow> decodeWrapper raw = Some w" "decodePayload (canonical payload) = Some payload"
    and age: "recipient identity = goRecipientPublicKey opts"
      "\<And>c. ageEncrypt (goRecipientPublicKey opts) (canonical payload) = Some c \<Longrightarrow>
         ageDecrypt identity c = AgeOk (canonical payload) \<and> c \<noteq> [] \<and> length c \<le> 2097152"
    and sizes: "raw \<noteq> []" "length raw \<le> 2097152" "canonical payload \<noteq> []" "length (canonical payload) \<le> 1048576"
    and nonce: "length random = 24" "goNonce opts0 = '''' \<or> decodeBundleNonce (goNonce opts0) \<noteq> None"
    and time: "0 < goCreatedAt opts" "goCreatedAt opts \<le> goExpiresAt opts" "goExpiresAt opts \<le> goCreatedAt opts + 1209600"
      "goCreatedAt opts \<le> now + 600" "now \<le> goExpiresAt opts"
    and issues: "\<And>h. validatePayload payload h now = []"
  shows "\<exists>h. VerifyBundle sha verify decodeWrapper marshalHeader recipient ageDecrypt decodePayload canonical validatePayload raw (public priv)
    \<lparr>voNow = now, voAgeIdentity = Some identity, voRequireDecrypt = True\<rparr> = Inr (h, Some payload)"
proof -
  obtain h c where h: "raw = marshalWrapper (h\<lparr>hSignature := EncodeToString (sign priv (signatureInput (marshalHeader h) c))\<rparr>, EncodeToString c)"
    "hMagic h = ''SNB1''" "hBundleID h = goBundleID opts" "hPublisherKeyID h = goSignerKeyID opts" "hSeq h = goSeq opts"
    "hNonce h = goNonce opts" "hCreatedAt h = goCreatedAt opts" "hExpiresAt h = goExpiresAt opts" "hSignature h = ''''"
    and key: "validateSigningKey sha public priv (goSignerKeyID opts)"
    and cipher: "hCipher h = ''none'' \<and> hRecipientKeyID h = ''none'' \<and> c = canonical payload \<or>
     hCipher h = ''age-x25519'' \<and> hRecipientKeyID h = ''age-x25519:'' @ fingerprint16 sha (goRecipientPublicKey opts) \<and>
       ageEncrypt (goRecipientPublicKey opts) (canonical payload) = Some c"
    by (rule GenerateBundle_Some[OF gen, folded opts])
  let ?h = "h\<lparr>hSignature := EncodeToString (sign priv (signatureInput (marshalHeader h) c))\<rparr>"
  have dec: "decodeWrapper raw = Some (?h, EncodeToString c)" by (rule codec(1)) (simp add: h(1))
  have c: "c \<noteq> []" "length c \<le> 2097152" using cipher age(2) sizes by auto
  have "headerIssues ?h (Ed25519KeyID sha (public priv)) now = []"
    using fillOptions_facts[OF nonce, of clock] h(2-8) key cipher time
    by (auto simp: headerIssues_Nil opts validateSigningKey_def bundle_consts)
  moreover have "sizeIssues (EncodeToString c) (hSignature ?h) = []"
    using c ed25519(1) by (simp add: sizeIssues_Nil bundle_consts)
  moreover have "decryptPayloadBytes sha recipient ageDecrypt ?h c (Some identity) = Inr (canonical payload)"
  proof -
    have "plain (''age-x25519:'' @ fingerprint16 sha (recipient identity))"
      by (simp add: fingerprint16_def plain_char_def)
    then show ?thesis using cipher age sizes(4)
      by (auto simp: decryptPayloadBytes_def TrimSpace_plain bundle_consts)
  qed
  moreover have "?h\<lparr>hSignature := ''''\<rparr> = h" using h(9) by (cases h) simp
  ultimately show ?thesis
    using dec sizes(1,2) key codec(2) ed25519(2) issues
    by (intro exI[of _ ?h]) (simp add: VerifyBundle_def Let_def bundle_consts validateSigningKey_def)
qed

text \<open>The signed bytes determine the header and the ciphertext: a JSON header has no zero byte.\<close>

lemma signatureInput_inject:
  assumes "signatureInput h c = signatureInput h' c'" "0 \<notin> set h" "0 \<notin> set h'"
  shows "h = h' \<and> c = c'"
proof -
  have eq: "h @ 0 # c = h' @ 0 # c'" using assms(1) by (simp add: signatureInput_def)
  have "takeWhile (\<lambda>b. b \<noteq> 0) (h @ 0 # c) = h" "takeWhile (\<lambda>b. b \<noteq> 0) (h' @ 0 # c') = h'"
    using assms(2,3) by (subst takeWhile_append2; force)+
  with eq show ?thesis by simp
qed

section \<open>A concrete bundle\<close>

definition sample_opts :: GenerateOptions where
  "sample_opts = \<lparr>goRecipientPublicKey = '''', goAllowPlaintext = True, goSignerKeyID = Ed25519KeyID sample_sha sample_root,
     goBundleID = ''b'', goSeq = 7, goNonce = '''', goCreatedAt = 100, goExpiresAt = 200\<rparr>"

definition sample_wrapper :: "BundleHeader \<times> string" where
  "sample_wrapper = ((newHeader (fillOptions 100 (replicate 24 3) sample_opts) ''none'' ''none'')\<lparr>hSignature := EncodeToString (replicate 64 9)\<rparr>,
     EncodeToString [5])"

definition sample_marshal :: "BundleHeader \<times> string \<Rightarrow> bytes" where
  "sample_marshal w = (if w = sample_wrapper then [1] else [2])"

lemma sample_generate:
  "GenerateBundleWithOptions sample_sha (\<lambda>_. sample_root) (\<lambda>_ _. replicate 64 9) (\<lambda>_. [8]) sample_marshal (\<lambda>_ _. None) (\<lambda>_. [5]) 100
     (replicate 24 3) () (replicate 64 2) sample_opts = Some [1]"
  by (simp add: GenerateBundleWithOptions_def Let_def sealPayload_def validateSigningKey_def sample_marshal_def sample_wrapper_def
      PrivateKeySize_def PublicKeySize_def sample_root_def) (simp add: fillOptions_def sample_opts_def Let_def sample_root_def)

theorem generated_bundle_verifies_witness:
  "\<exists>h. VerifyBundle sample_sha (\<lambda>_ _ _. True) (\<lambda>_. Some sample_wrapper) (\<lambda>_. [8]) (\<lambda>_. '''') (\<lambda>_ _. AgeRefused) (\<lambda>_. Some ()) (\<lambda>_. [5])
    (\<lambda>_ _ _. []) [1] sample_root \<lparr>voNow = 120, voAgeIdentity = Some (), voRequireDecrypt = True\<rparr> = Inr (h, Some ())"
  by (rule generated_bundle_verifies[OF sample_generate refl])
    (auto simp: sample_marshal_def sample_opts_def fillOptions_def Let_def split: if_splits)

theorem verified_bundle_sound_witness:
  "hPublisherKeyID (fst sample_wrapper) = Ed25519KeyID sample_sha sample_root \<and> 120 \<le> hExpiresAt (fst sample_wrapper)"
proof -
  have "headerIssues (fst sample_wrapper) (Ed25519KeyID sample_sha sample_root) 120 = []"
    by (auto simp: headerIssues_Nil sample_wrapper_def newHeader_def fillOptions_def sample_opts_def Let_def bundle_consts
        decodeBundleNonce_EncodeToString TrimSpace_plain plain_char_def)
  moreover have "sizeIssues (snd sample_wrapper) (hSignature (fst sample_wrapper)) = []" "hCipher (fst sample_wrapper) = ''none''"
    by (simp_all add: sizeIssues_Nil sample_wrapper_def newHeader_def bundle_consts)
  moreover have "sample_wrapper = (fst sample_wrapper, snd sample_wrapper)" by simp
  ultimately have "VerifyBundle sample_sha (\<lambda>_ _ _. True) (\<lambda>_. Some sample_wrapper) (\<lambda>_. [8]) (\<lambda>_. '''') (\<lambda>_ _. AgeRefused) (\<lambda>_. Some ())
    (\<lambda>_. [5]) (\<lambda>_ _ _. []) [1] sample_root \<lparr>voNow = 120, voAgeIdentity = Some (), voRequireDecrypt = True\<rparr> = Inr (fst sample_wrapper, Some ())"
    by (simp add: VerifyBundle_def Let_def bundle_consts sample_root_def decryptPayloadBytes_def split_beta)
      (simp add: sample_wrapper_def)
  from verified_bundle_sound[OF this] show ?thesis by auto
qed

end
