(* ===== verification/GF256.thy ===== *)
theory GF256
  imports Go_Prelude
begin

text \<open>
  The byte field of the erasure code (\<^verbatim>\<open>pkg/bundle/chunk_engine.go\<close>, functions
  \<^verbatim>\<open>gfAdd\<close>, \<^verbatim>\<open>gfMul\<close>, \<^verbatim>\<open>gfPow\<close>, \<^verbatim>\<open>gfInv\<close>). The loops are translated as they are
  written; the theory shows that they compute the field of 256 elements with the
  polynomial \<open>x ^ 8 + x ^ 4 + x ^ 3 + x ^ 2 + 1\<close> and makes the bytes an instance of the
  library's class of fields, so that the linear algebra of the code can use it.
\<close>

section \<open>The code's arithmetic\<close>

definition gfAdd :: "byte \<Rightarrow> byte \<Rightarrow> byte" where
  "gfAdd a b = a XOR b"

text \<open>One turn of the loop of \<^verbatim>\<open>gfMul\<close> multiplies \<open>a\<close> by \<open>x\<close>.\<close>

definition xtime :: "byte \<Rightarrow> byte" where
  "xtime a = (let hi = a AND 0x80; a' = push_bit 1 a in if hi \<noteq> 0 then a' XOR 0x1d else a')"

function gfMul_loop :: "byte \<Rightarrow> byte \<Rightarrow> byte \<Rightarrow> byte" where
  "gfMul_loop p a b =
     (if b = 0 then p
      else gfMul_loop (if b AND 1 \<noteq> 0 then gfAdd p a else p) (xtime a) (drop_bit 1 b))"
  by pat_completeness auto
termination
  by (relation "measure (\<lambda>(p, a, b). unat b)")
     (auto simp: unat_drop_bit_eq drop_bit_eq_div unat_div unat_gt_0 intro!: div_less_dividend)

declare gfMul_loop.simps [simp del]

definition gfMul :: "byte \<Rightarrow> byte \<Rightarrow> byte" where
  "gfMul a b = gfMul_loop 0 a b"

function gfPow_loop :: "byte \<Rightarrow> byte \<Rightarrow> nat \<Rightarrow> byte" where
  "gfPow_loop out a n =
     (if n > 0 then gfPow_loop (if n AND 1 = 1 then gfMul out a else out) (gfMul a a) (drop_bit 1 n)
      else out)"
  by pat_completeness auto
termination
  by (relation "measure (\<lambda>(out, a, n). n)") (auto simp: drop_bit_eq_div)

declare gfPow_loop.simps [simp del]

definition gfPow :: "byte \<Rightarrow> nat \<Rightarrow> byte" where
  "gfPow a n = gfPow_loop 1 a n"

definition gfInv :: "byte \<Rightarrow> byte" where
  "gfInv a = (if a = 0 then 0 else gfPow a 254)"

section \<open>Multiplication is a commutative ring product\<close>

text \<open>
  Multiplication by \<open>x\<close> is \<open>xtime\<close>. Every additive map that commutes with it commutes with
  the product (\<open>gfMul_hom\<close>), and commutativity and associativity are two instances.
\<close>

lemma and_128_iff: "(a :: byte) AND 0x80 \<noteq> 0 \<longleftrightarrow> bit a 7"
  using and_exp_eq_0_iff_not_bit[of a 7] by simp

lemma xtime_alt: "xtime a = push_bit 1 a XOR (if bit a 7 then 0x1d else 0)"
  using and_128_iff[of a] by (auto simp: xtime_def Let_def)

lemma xtime_xor: "xtime (a XOR b) = xtime a XOR xtime b"
  by (auto simp: xtime_alt push_bit_xor bit_xor_iff xor.assoc xor.left_commute)

lemma xtime_0 [simp]: "xtime 0 = 0"
  by (simp add: xtime_def)

lemma and_1_iff: "(b :: byte) AND 1 \<noteq> 0 \<longleftrightarrow> odd b"
  by (simp add: and_one_eq odd_iff_mod_2_eq_one)

lemma gfMul_loop_step:
  "gfMul_loop p a b = gfMul_loop (p XOR (if odd b then a else 0)) (xtime a) (drop_bit 1 b)"
proof (cases "b = 0")
  case True then show ?thesis by (simp add: gfMul_loop.simps[of _ _ 0])
next
  case False
  then show ?thesis
    using and_1_iff[of b] by (simp add: gfMul_loop.simps[of p a b] gfAdd_def)
qed

lemma drop_bit_Suc_0_measure: "(b :: byte) \<noteq> 0 \<Longrightarrow> unat (drop_bit (Suc 0) b) < unat b"
  by (auto simp: unat_drop_bit_eq drop_bit_eq_div unat_div unat_gt_0 intro!: div_less_dividend)

lemma byte_bits_induct [case_names zero shift]:
  assumes "P (0 :: byte)" and "\<And>b. b \<noteq> 0 \<Longrightarrow> P (drop_bit (Suc 0) b) \<Longrightarrow> P b"
  shows "P b"
  using assms by (induction b rule: measure_induct_rule[where f = unat])
    (metis drop_bit_Suc_0_measure)

lemma gfMul_loop_0 [simp]: "gfMul_loop p a 0 = p"
  by (simp add: gfMul_loop.simps)

lemma gfMul_loop_acc: "gfMul_loop p a b = p XOR gfMul a b"
proof (induction b arbitrary: p a rule: byte_bits_induct)
  case zero then show ?case by (simp add: gfMul_def)
next
  case (shift b)
  show ?case
    unfolding gfMul_def gfMul_loop_step[of p a b] gfMul_loop_step[of 0 a b]
    by (simp add: shift xor.assoc One_nat_def)
qed

lemma gfMul_unfold: "gfMul a b = (if odd b then a else 0) XOR gfMul (xtime a) (drop_bit (Suc 0) b)"
  unfolding gfMul_def[of a b] gfMul_loop_step[of 0 a b] by (simp add: gfMul_loop_acc)

lemma gfMul_0_right [simp]: "gfMul a 0 = 0"
  by (simp add: gfMul_def)

lemma gfMul_hom:
  assumes add: "\<And>x y. f (x XOR y) = f x XOR f y" and zero: "f 0 = 0"
    and comm: "\<And>x. f (xtime x) = xtime (f x)"
  shows "f (gfMul a b) = gfMul (f a) b"
proof (induction b arbitrary: a rule: byte_bits_induct)
  case zero then show ?case by (simp add: assms(2))
next
  case (shift b)
  then show ?case
    by (subst (1 2) gfMul_unfold) (simp add: assms)
qed

lemma gfMul_xor_left: "gfMul (a XOR a') b = gfMul a b XOR gfMul a' b"
proof (induction b arbitrary: a a' rule: byte_bits_induct)
  case zero then show ?case by simp
next
  case (shift b)
  show ?case
    unfolding gfMul_unfold[of _ b] by (simp add: xtime_xor shift) (simp add: ac_simps)
qed

lemma gfMul_0_left [simp]: "gfMul 0 b = 0"
  using gfMul_xor_left[of 0 0 b] by simp

lemma gfMul_xtime_left: "gfMul (xtime a) b = xtime (gfMul a b)"
  by (rule gfMul_hom[symmetric]) (simp_all add: xtime_xor)

lemma xtime_exp: "k < 7 \<Longrightarrow> xtime (push_bit k 1) = push_bit (Suc k) 1"
  by (simp add: xtime_alt bit_simps)

lemma gfMul_exp_left:
  "drop_bit (8 - k) b = 0 \<Longrightarrow> gfMul (push_bit k 1) b = push_bit k b"
proof (induction b arbitrary: k rule: byte_bits_induct)
  case zero then show ?case by simp
next
  case (shift b)
  have k: "k < 8" using shift.prems shift.hyps by (cases "k < 8") auto
  have split: "push_bit k b = (if odd b then push_bit k 1 else 0) XOR push_bit (Suc k) (drop_bit (Suc 0) b)"
  proof (rule bit_word_eqI)
    fix n assume "n < LENGTH(8)"
    then show "bit (push_bit k b) n \<longleftrightarrow>
        bit ((if odd b then push_bit k 1 else 0) XOR push_bit (Suc k) (drop_bit (Suc 0) b)) n"
      by (cases "n = k") (auto simp: bit_simps bit_0 Suc_diff_Suc simp del: push_bit_Suc)
  qed
  show ?case
  proof (cases "k = 7")
    case True
    then have "drop_bit (Suc 0) b = 0" using shift.prems by simp
    then show ?thesis unfolding gfMul_unfold[of _ b] split by (simp add: True)
  next
    case False
    have "8 - k = Suc (7 - k)" using k by simp
    then have "drop_bit (8 - Suc k) (drop_bit (Suc 0) b) = 0" using shift.prems by simp
    then have "gfMul (push_bit (Suc k) 1) (drop_bit (Suc 0) b) = push_bit (Suc k) (drop_bit (Suc 0) b)"
      by (rule shift.IH)
    moreover have "xtime (push_bit k 1) = push_bit (Suc k) 1" using False k by (intro xtime_exp) simp
    ultimately show ?thesis unfolding gfMul_unfold[of _ b] split by simp
  qed
qed

lemma gfMul_1_left [simp]: "gfMul 1 b = b"
proof -
  have "drop_bit 8 b = 0" by (rule bit_word_eqI) (simp add: bit_simps)
  then show ?thesis using gfMul_exp_left[of 0 b] by simp
qed

lemma gfMul_commute: "gfMul a b = gfMul b a"
proof -
  have "gfMul (gfMul 1 a) b = gfMul (gfMul 1 b) a"
    by (rule gfMul_hom) (simp_all add: gfMul_xor_left gfMul_xtime_left)
  then show ?thesis by simp
qed

lemma gfMul_assoc: "gfMul (gfMul a b) c = gfMul a (gfMul b c)"
proof -
  have "gfMul (gfMul b a) c = gfMul (gfMul b c) a"
    by (rule gfMul_hom) (simp_all add: gfMul_xor_left gfMul_xtime_left)
  then show ?thesis by (simp add: gfMul_commute)
qed

lemma gfMul_left_commute: "gfMul a (gfMul b c) = gfMul b (gfMul a c)"
  by (metis gfMul_assoc gfMul_commute)

lemma gfMul_1_right [simp]: "gfMul a 1 = a"
  by (simp add: gfMul_commute[of a 1])

section \<open>Inverses\<close>

text \<open>
  The powers of \<open>x\<close> run through all 255 non-zero bytes before they return to 1, so every
  non-zero byte is a power of \<open>x\<close> and its 254th power is its inverse.
\<close>

definition gen :: "nat \<Rightarrow> byte" where
  "gen k = (xtime ^^ k) 1"

lemma gen_0 [simp]: "gen 0 = 1" and gen_Suc: "gen (Suc k) = xtime (gen k)"
  by (simp_all add: gen_def)

lemma gen_add: "gfMul (gen i) (gen j) = gen (i + j)"
  by (induction i) (simp_all add: gen_Suc gfMul_xtime_left)

lemma gfPow_loop_gen:
  "gfPow_loop (gen i) (gen k) n = gen (i + k * n)"
proof (induction n arbitrary: i k rule: less_induct)
  case (less n)
  show ?case
  proof (cases "n > 0")
    case True
    have half: "n = 2 * (n div 2) + n mod 2" by simp
    define m where "m = n div 2"
    from True have "m < n" by (simp add: m_def)
    have "gfPow_loop (gen i) (gen k) n = gen (i + k * (n mod 2) + (k + k) * m)"
      using less[OF \<open>m < n\<close>] True unfolding gfPow_loop.simps[of _ _ n]
      by (cases "even n") (simp_all add: gen_add and_one_eq drop_bit_eq_div m_def mod_2_eq_odd)
    also have "i + k * (n mod 2) + (k + k) * m = i + k * n"
      using half by (metis (no_types, lifting) add.assoc add.commute distrib_left m_def mult.commute mult_2_right mult.assoc)
    finally show ?thesis .
  next
    case False then show ?thesis by (simp add: gfPow_loop.simps)
  qed
qed

primrec orbit :: "nat \<Rightarrow> byte \<Rightarrow> byte list" where
  "orbit 0 a = []"
| "orbit (Suc n) a = a # orbit n (xtime a)"

lemma orbit_nth: "i < n \<Longrightarrow> orbit n (gen k) ! i = gen (k + i)"
  by (induction n arbitrary: i k) (auto simp: nth_Cons gen_Suc[symmetric] split: nat.splits)

lemma length_orbit [simp]: "length (orbit n a) = n"
  by (induction n arbitrary: a) auto

lemma gen_255: "gen 255 = 1"
proof -
  have "orbit 256 1 ! 255 = 1" by code_simp
  then show ?thesis using orbit_nth[of 255 256 0] by simp
qed

lemma gen_neq_1: assumes "0 < d" "d < 255" shows "gen d \<noteq> 1"
proof -
  have "list_all (\<lambda>a. a \<noteq> 1) (orbit 254 (xtime 1))" by code_simp
  then have "list_all (\<lambda>a. a \<noteq> 1) (orbit 254 (gen 1))" by (simp add: gen_def)
  then have "orbit 254 (gen 1) ! (d - 1) \<noteq> 1" using assms by (simp add: list_all_length)
  then show ?thesis using assms by (simp add: orbit_nth)
qed

lemma gen_mult_255: "gen (k * 255) = 1"
proof (induction k)
  case 0
  then show ?case by simp
next
  case (Suc k)
  then show ?case using gen_add[of 255 "k * 255"] by (simp add: gen_255 add.commute)
qed

lemma gen_nonzero: "gen k \<noteq> 0"
proof
  assume z: "gen k = 0"
  have "gfMul (gen k) (gen (k * 254)) = 1"
    using gen_mult_255[of k] by (simp add: gen_add add.commute mult.commute)
  with z show False by simp
qed

lemma gen_cancel: assumes "gen i = gen j" "i \<le> j" "j < 255" shows "i = j"
proof (rule ccontr)
  assume "i \<noteq> j"
  have "gen (j - i) = gfMul (gen (j - i)) (gen 255)" by (simp add: gen_255)
  also have "\<dots> = gfMul (gen j) (gen (255 - i))"
    using assms by (simp add: gen_add)
  also have "\<dots> = gfMul (gen i) (gen (255 - i))" using assms by simp
  also have "\<dots> = 1" using assms(2,3) by (simp only: gen_add) (simp add: gen_255)
  finally show False using gen_neq_1[of "j - i"] assms \<open>i \<noteq> j\<close> by simp
qed

lemma gen_surj: assumes "a \<noteq> 0" shows "\<exists>k. a = gen k"
proof -
  have inj: "inj_on gen {..<255}"
    by (rule inj_onI) (metis gen_cancel lessThan_iff nle_le)
  have "gen ` {..<255} \<subseteq> UNIV - {0}" using gen_nonzero by auto
  moreover have "card (gen ` {..<255}) = card (UNIV - {0 :: byte})"
    by (simp add: card_image[OF inj] card_Diff_singleton card_word)
  ultimately have "gen ` {..<255} = UNIV - {0 :: byte}"
    by (intro card_subset_eq) auto
  with assms show ?thesis by (metis DiffI UNIV_I imageE singletonD)
qed

lemma gfInv_right: assumes "a \<noteq> 0" shows "gfMul a (gfInv a) = 1"
proof -
  obtain k where k: "a = gen k" using gen_surj[OF assms] by blast
  have "gfPow a 254 = gen (k * 254)"
    using gfPow_loop_gen[of 0 k 254] by (simp add: gfPow_def k)
  then have "gfMul a (gfInv a) = gen (k * 255)"
    using assms by (simp add: gfInv_def k gen_add add.commute mult.commute)
  also have "gen (k * 255) = 1" by (rule gen_mult_255)
  finally show ?thesis .
qed

section \<open>The field instance\<close>

typedef gf256 = "UNIV :: byte set"
  morphisms rep_gf gf by simp

setup_lifting type_definition_gf256

instantiation gf256 :: field
begin

lift_definition zero_gf256 :: gf256 is "0" .
lift_definition one_gf256 :: gf256 is "1" .
lift_definition plus_gf256 :: "gf256 \<Rightarrow> gf256 \<Rightarrow> gf256" is gfAdd .
lift_definition minus_gf256 :: "gf256 \<Rightarrow> gf256 \<Rightarrow> gf256" is gfAdd .
lift_definition uminus_gf256 :: "gf256 \<Rightarrow> gf256" is "\<lambda>a. a" .
lift_definition times_gf256 :: "gf256 \<Rightarrow> gf256 \<Rightarrow> gf256" is gfMul .
lift_definition inverse_gf256 :: "gf256 \<Rightarrow> gf256" is gfInv .
lift_definition divide_gf256 :: "gf256 \<Rightarrow> gf256 \<Rightarrow> gf256" is "\<lambda>a b. gfMul a (gfInv b)" .

instance
proof
  fix a b c :: gf256
  show "a + b + c = a + (b + c)" by transfer (simp add: gfAdd_def xor.assoc)
  show "a + b = b + a" by transfer (simp add: gfAdd_def xor.commute)
  show "0 + a = a" by transfer (simp add: gfAdd_def)
  show "- a + a = 0" by transfer (simp add: gfAdd_def)
  show "a - b = a + - b" by transfer simp
  show "a * b * c = a * (b * c)" by transfer (rule gfMul_assoc)
  show "a * b = b * a" by transfer (rule gfMul_commute)
  show "1 * a = a" by transfer simp
  show "(a + b) * c = a * c + b * c" by transfer (simp add: gfAdd_def gfMul_xor_left)
  show "(0 :: gf256) \<noteq> 1" by transfer simp
  show "a \<noteq> 0 \<Longrightarrow> inverse a * a = 1"
    by transfer (metis gfInv_right gfMul_commute)
  show "a div b = a * inverse b" by transfer simp
  show "inverse (0 :: gf256) = 0" by transfer (simp add: gfInv_def)
qed

end

lemma gf_xor: "gf (a XOR b) = gf a + gf b"
  by (metis UNIV_I gf_inverse gfAdd_def plus_gf256.rep_eq rep_gf_inject)

lemma gf_mul: "gf (gfMul a b) = gf a * gf b"
  by (metis UNIV_I gf_inverse times_gf256.rep_eq rep_gf_inject)

lemma gf_inv: "gf (gfInv a) = inverse (gf a)"
  by (metis UNIV_I gf_inverse inverse_gf256.rep_eq rep_gf_inject)

lemma gf_0 [simp]: "gf 0 = 0" and gf_1 [simp]: "gf 1 = 1"
  by (simp_all add: zero_gf256.abs_eq one_gf256.abs_eq)

lemma gf_inject_iff [simp]: "gf a = gf b \<longleftrightarrow> a = b"
  by (simp add: gf_inject)

lemma gf_eq_0_iff [simp]: "gf a = 0 \<longleftrightarrow> a = 0"
  using gf_inject_iff[of a 0] by simp

lemma gf_minus_eq: "(a :: gf256) - b = a + b"
  by transfer simp

lemmas gf_hom = gf_xor gf_mul gf_inv

end
