(* ===== verification/Erasure_Matrix.thy ===== *)
theory Erasure_Matrix
  imports GF256
begin

text \<open>
  The linear algebra of the erasure code (\<^verbatim>\<open>pkg/bundle/chunk_engine.go\<close>): the coding rows
  (\<^verbatim>\<open>codingRow\<close>, unit rows for the data shards and Cauchy rows for the parity shards) and
  the Gauss-Jordan inversion of \<^verbatim>\<open>invertMatrix\<close>. The theory shows that the inversion
  succeeds exactly on the non-singular matrices and returns a left inverse, and for which
  shard counts every choice of \<open>n\<close> coding rows is non-singular.
\<close>

datatype chunk_error = ErrChunkInvalid | ErrChunkChecksum | ErrChunkCacheLimit | ErrChunkUnrecoverable

section \<open>The code\<close>

definition codingRow :: "nat \<Rightarrow> nat \<Rightarrow> bytes" where
  "codingRow index n =
     (if index < n then (replicate n 0)[index := 1]
      else let x = word_of_nat (index - n + 1) :: byte
           in map (\<lambda>col. let y = word_of_nat (128 + col) in gfInv (x XOR y)) [0..<n])"

text \<open>The augmented matrix: the input with the identity to its right.\<close>

definition augment :: "bytes list \<Rightarrow> bytes list" where
  "augment m = (let n = length m in map (\<lambda>i. m ! i @ (replicate n 0)[i := 1]) [0..<n])"

definition swapRows :: "nat \<Rightarrow> nat \<Rightarrow> bytes list \<Rightarrow> bytes list" where
  "swapRows p c aug = aug[p := aug ! c, c := aug ! p]"

definition scaleRow :: "nat \<Rightarrow> byte \<Rightarrow> bytes \<Rightarrow> bytes" where
  "scaleRow col invPivot r = map (\<lambda>j. if j < col then r ! j else gfMul (r ! j) invPivot) [0..<length r]"

definition elimRow :: "nat \<Rightarrow> bytes \<Rightarrow> bytes \<Rightarrow> bytes" where
  "elimRow col prow r =
     (if r ! col = 0 then r
      else let factor = r ! col
           in map (\<lambda>j. if j < col then r ! j else r ! j XOR gfMul factor (prow ! j)) [0..<length r])"

text \<open>One turn of the column loop: find the pivot, move it up, scale its row, clear the column.\<close>

definition pivotStep :: "nat \<Rightarrow> nat \<Rightarrow> bytes list \<Rightarrow> chunk_error + bytes list" where
  "pivotStep n col aug =
     (case find (\<lambda>row. aug ! row ! col \<noteq> 0) [col..<n] of
        None \<Rightarrow> Inl ErrChunkUnrecoverable
      | Some pivot \<Rightarrow>
          let aug1 = (if pivot \<noteq> col then swapRows pivot col aug else aug);
              prow = scaleRow col (gfInv (aug1 ! col ! col)) (aug1 ! col);
              aug2 = aug1[col := prow]
          in Inr (map (\<lambda>row. if row = col then aug2 ! row else elimRow col prow (aug2 ! row)) [0..<n]))"

definition invertMatrix :: "bytes list \<Rightarrow> chunk_error + bytes list" where
  "invertMatrix m =
     (let n = length m
      in if n = 0 then Inl ErrChunkInvalid
         else if \<exists>r \<in> set m. length r \<noteq> n then Inl ErrChunkInvalid
         else rbind (rfold (pivotStep n) [0..<n] (augment m)) (\<lambda>aug. Inr (map (drop n) aug)))"

section \<open>Linear systems over a field\<close>

definition matvec :: "nat \<Rightarrow> (nat \<Rightarrow> nat \<Rightarrow> 'a::field) \<Rightarrow> (nat \<Rightarrow> 'a) \<Rightarrow> nat \<Rightarrow> 'a" where
  "matvec n A x i = (\<Sum>j<n. A i j * x j)"

definition nonsingular :: "nat \<Rightarrow> (nat \<Rightarrow> nat \<Rightarrow> 'a::field) \<Rightarrow> bool" where
  "nonsingular n A \<longleftrightarrow> (\<forall>x. (\<forall>i<n. matvec n A x i = 0) \<longrightarrow> (\<forall>j<n. x j = 0))"

text \<open>
  The Cauchy system: with distinct points \<open>X p\<close> and \<open>Y j\<close> no non-zero combination of
  at most as many poles as points vanishes at all the points. Eliminating one pole with
  one point leaves a system of the same kind.
\<close>

lemma cauchy_elim_term:
  fixes x y z w c :: "'a::field"
  assumes "x \<noteq> y" "w \<noteq> y"
  shows "(x - z) * (c / (x - y)) - (w - z) * (c / (w - y)) = (x - w) * ((c * (z - y) / (w - y)) / (x - y))"
proof -
  have "x - y \<noteq> 0" "w - y \<noteq> 0" using assms by simp_all
  then show ?thesis by (simp add: divide_simps) (simp add: algebra_simps)
qed

lemma cauchy_nonsingular:
  fixes X Y c :: "nat \<Rightarrow> 'a::field"
  assumes "finite K" "finite P" "card K \<le> card P" "inj_on X P" "inj_on Y K"
    and "\<And>p j. p \<in> P \<Longrightarrow> j \<in> K \<Longrightarrow> X p \<noteq> Y j"
    and "\<And>p. p \<in> P \<Longrightarrow> (\<Sum>j\<in>K. c j / (X p - Y j)) = 0"
  shows "\<forall>j\<in>K. c j = 0"
  using assms
proof (induction K arbitrary: P c rule: finite_induct)
  case empty
  then show ?case by simp
next
  case (insert k K)
  from insert.prems(2) insert.hyps obtain q where q: "q \<in> P"
    by (metis card.empty card_0_eq card_insert_disjoint equals0I insert.prems(1) le_zero_eq nat.simps(3))
  define c' where "c' j = c j * (Y k - Y j) / (X q - Y j)" for j
  have neq: "X p \<noteq> Y j" if "p \<in> P" "j \<in> insert k K" for p j
    using insert.prems(5) that by blast
  have sys: "c k / (X p - Y k) + (\<Sum>j\<in>K. c j / (X p - Y j)) = 0" if "p \<in> P" for p
    using insert.prems(6)[OF that] insert.hyps by simp
  have elim: "c k + (\<Sum>j\<in>K. (X p - Y k) * (c j / (X p - Y j))) = 0" if "p \<in> P" for p
  proof -
    have "X p - Y k \<noteq> 0" using neq[OF that, of k] by simp
    moreover have "(X p - Y k) * (c k / (X p - Y k) + (\<Sum>j\<in>K. c j / (X p - Y j))) = 0"
      using sys[OF that] by simp
    ultimately show ?thesis by (simp add: distrib_left sum_distrib_left)
  qed
  have "(\<Sum>j\<in>K. c' j / (X p - Y j)) = 0" if p: "p \<in> P - {q}" for p
  proof -
    have "(X p - X q) * (\<Sum>j\<in>K. c' j / (X p - Y j))
        = (\<Sum>j\<in>K. (X p - Y k) * (c j / (X p - Y j)) - (X q - Y k) * (c j / (X q - Y j)))"
      unfolding sum_distrib_left c'_def
      using p q neq by (intro sum.cong refl cauchy_elim_term[symmetric]) auto
    also have "\<dots> = 0"
    proof -
      have "(\<Sum>j\<in>K. (X p - Y k) * (c j / (X p - Y j))) = (\<Sum>j\<in>K. (X q - Y k) * (c j / (X q - Y j)))"
        using elim[of p] elim[OF q] p by (metis DiffD1 add_left_cancel)
      then show ?thesis by (simp only: sum_subtractf diff_self)
    qed
    finally have "(X p - X q) * (\<Sum>j\<in>K. c' j / (X p - Y j)) = 0" .
    moreover have "X p - X q \<noteq> 0"
      using inj_onD[OF insert.prems(3)] p q by (metis DiffD1 DiffD2 eq_iff_diff_eq_0 singletonI)
    ultimately show ?thesis by simp
  qed
  moreover have "card K \<le> card (P - {q})"
    using insert.prems(1,2) insert.hyps q by (simp add: card_Diff_singleton)
  ultimately have c'0: "\<forall>j\<in>K. c' j = 0"
    using insert.prems(1,3,4) neq by (intro insert.IH[of "P - {q}" c']) (auto intro: inj_on_subset)
  have cK: "c j = 0" if "j \<in> K" for j
  proof -
    have "Y k \<noteq> Y j" using that insert.hyps insert.prems(4) by (auto dest: inj_onD)
    moreover have "X q \<noteq> Y j" using neq q that by simp
    ultimately show ?thesis using c'0 that by (auto simp: c'_def)
  qed
  moreover have "c k = 0" using sys[OF q] neq[OF q, of k] cK by simp
  ultimately show ?case by simp
qed

section \<open>The inversion\<close>

text \<open>A byte matrix read as a matrix over the field, and its shape.\<close>

definition entry :: "bytes list \<Rightarrow> nat \<Rightarrow> nat \<Rightarrow> gf256" where
  "entry m i j = gf (m ! i ! j)"

definition shape :: "nat \<Rightarrow> nat \<Rightarrow> bytes list \<Rightarrow> bool" where
  "shape n k m \<longleftrightarrow> length m = n \<and> (\<forall>r \<in> set m. length r = k)"

lemma shape_row: "shape n k m \<Longrightarrow> i < n \<Longrightarrow> length (m ! i) = k"
  by (auto simp: shape_def)

lemma shape_length: "shape n k m \<Longrightarrow> length m = n"
  by (simp add: shape_def)

lemma shapeI: "length m = n \<Longrightarrow> (\<And>i. i < n \<Longrightarrow> length (m ! i) = k) \<Longrightarrow> shape n k m"
  by (auto simp: shape_def in_set_conv_nth)

text \<open>
  The vectors a matrix of \<open>2 * n\<close> columns maps to zero. Row operations keep this set, which
  is all the correctness proof needs to know about them.
\<close>

definition nullspace :: "nat \<Rightarrow> (nat \<Rightarrow> nat \<Rightarrow> 'a::field) \<Rightarrow> (nat \<Rightarrow> 'a) set" where
  "nullspace n A = {v. \<forall>i<n. matvec (2 * n) A v i = 0}"

lemma nullspace_swap:
  assumes "p < n" "c < n" and "\<And>i j. i < n \<Longrightarrow> j < 2 * n \<Longrightarrow> B i j = A (if i = p then c else if i = c then p else i) j"
  shows "nullspace n B = nullspace n A"
proof -
  define \<pi> where "\<pi> i = (if i = p then c else if i = c then p else i)" for i
  have mv: "matvec (2 * n) B v i = matvec (2 * n) A v (\<pi> i)" if "i < n" for v i
    unfolding matvec_def using assms(3) that by (simp add: \<pi>_def)
  have "\<pi> i < n" "\<pi> (\<pi> i) = i" if "i < n" for i
    using assms(1,2) that by (auto simp: \<pi>_def)
  then show ?thesis
    unfolding nullspace_def using mv by (auto; metis)
qed

lemma nullspace_pivot:
  assumes "c < n" "k \<noteq> 0"
    and "\<And>j. j < 2 * n \<Longrightarrow> B c j = k * A c j"
    and "\<And>i j. i < n \<Longrightarrow> i \<noteq> c \<Longrightarrow> j < 2 * n \<Longrightarrow> B i j = A i j + f i * B c j"
  shows "nullspace n B = nullspace n A"
proof -
  have c: "matvec (2 * n) B v c = k * matvec (2 * n) A v c" for v
    unfolding matvec_def sum_distrib_left using assms(3) by (intro sum.cong) auto
  have i: "matvec (2 * n) B v i = matvec (2 * n) A v i + f i * matvec (2 * n) B v c" if "i < n" "i \<noteq> c" for v i
    unfolding matvec_def sum_distrib_left sum.distrib[symmetric]
    using assms(4)[OF that] by (intro sum.cong) (auto simp: algebra_simps)
  show ?thesis
  proof (rule set_eqI)
    fix v
    show "v \<in> nullspace n B \<longleftrightarrow> v \<in> nullspace n A"
    proof (cases "matvec (2 * n) A v c = 0")
      case True
      then have "matvec (2 * n) B v i = matvec (2 * n) A v i" if "i < n" for i
        using c[of v] i[OF that, of v] by (cases "i = c") auto
      then show ?thesis by (simp add: nullspace_def)
    next
      case False
      then show ?thesis using c[of v] assms(1,2) by (auto simp: nullspace_def)
    qed
  qed
qed

text \<open>The state of the inversion before column \<open>c\<close>: the columns below are already unit columns.\<close>

definition reduced :: "nat \<Rightarrow> bytes list \<Rightarrow> nat \<Rightarrow> bytes list \<Rightarrow> bool" where
  "reduced n aug0 c aug \<longleftrightarrow>
     shape n (2 * n) aug \<and> nullspace n (entry aug) = nullspace n (entry aug0) \<and>
     (\<forall>i<n. \<forall>j<c. entry aug i j = (if i = j then 1 else 0))"

lemma swapRows_reduced:
  assumes red: "reduced n aug0 c aug" and cp: "c \<le> p" "p < n"
  shows "reduced n aug0 c (swapRows p c aug)"
proof -
  have sh: "shape n (2 * n) aug" using red by (simp add: reduced_def)
  have row: "swapRows p c aug ! i = aug ! (if i = p then c else if i = c then p else i)" if "i < n" for i
    using that cp shape_length[OF sh] by (auto simp: swapRows_def nth_list_update)
  have "shape n (2 * n) (swapRows p c aug)"
    using sh cp row by (intro shapeI) (auto simp: swapRows_def shape_length shape_row)
  moreover have "nullspace n (entry (swapRows p c aug)) = nullspace n (entry aug)"
    using cp row by (intro nullspace_swap[of p n c]) (auto simp: entry_def)
  moreover have "entry (swapRows p c aug) i j = (if i = j then 1 else 0)" if "i < n" "j < c" for i j
    using red cp row[OF that(1)] that by (auto simp: reduced_def entry_def)
  ultimately show ?thesis using red by (simp add: reduced_def)
qed

lemma scaleRow_nth: "j < length r \<Longrightarrow> scaleRow c k r ! j = (if j < c then r ! j else gfMul (r ! j) k)"
  by (simp add: scaleRow_def)

lemma elimRow_nth:
  "j < length r \<Longrightarrow> elimRow c pr r ! j = (if j < c then r ! j else r ! j XOR gfMul (r ! c) (pr ! j))"
  by (simp add: elimRow_def Let_def)

lemma length_elimRow [simp]: "length (elimRow c pr r) = length r"
  by (simp add: elimRow_def Let_def)

lemma length_scaleRow [simp]: "length (scaleRow c k r) = length r"
  by (simp add: scaleRow_def)

definition clearColumn :: "nat \<Rightarrow> nat \<Rightarrow> bytes list \<Rightarrow> bytes list" where
  "clearColumn n c aug =
     (let prow = scaleRow c (gfInv (aug ! c ! c)) (aug ! c)
      in map (\<lambda>row. if row = c then prow else elimRow c prow (aug ! row)) [0..<n])"

lemma clearColumn_reduced:
  assumes red: "reduced n aug0 c aug" and c: "c < n" and piv: "aug ! c ! c \<noteq> 0"
  shows "reduced n aug0 (Suc c) (clearColumn n c aug)"
proof -
  let ?B = "clearColumn n c aug" and ?k = "inverse (entry aug c c)"
  have sh: "shape n (2 * n) aug" and unit: "\<And>i j. i < n \<Longrightarrow> j < c \<Longrightarrow> entry aug i j = (if i = j then 1 else 0)"
    using red by (auto simp: reduced_def)
  have k: "entry aug c c \<noteq> 0" using piv by (simp add: entry_def)
  have Bc: "entry ?B c j = ?k * entry aug c j" if "j < 2 * n" for j
    using that c sh unit[OF c]
    by (cases "j < c") (auto simp: clearColumn_def Let_def entry_def scaleRow_nth shape_row gf_hom mult.commute)
  have Bi: "entry ?B i j = entry aug i j + entry aug i c * entry ?B c j"
    if "i < n" "i \<noteq> c" "j < 2 * n" for i j
  proof (cases "j < c")
    case True
    then have "entry ?B c j = 0" using Bc[OF that(3)] unit[OF c] by simp
    moreover have "entry ?B i j = entry aug i j"
      using that c sh True by (simp add: clearColumn_def Let_def entry_def elimRow_nth shape_row)
    ultimately show ?thesis by simp
  next
    case False
    then show ?thesis
      using that c sh by (simp add: clearColumn_def Let_def entry_def elimRow_nth shape_row gf_hom)
  qed
  have "shape n (2 * n) ?B"
    using sh c by (intro shapeI) (auto simp: clearColumn_def Let_def shape_row)
  moreover have "nullspace n (entry ?B) = nullspace n (entry aug)"
    using Bc Bi c k by (intro nullspace_pivot[of c n ?k]) auto
  moreover have "entry ?B i j = (if i = j then 1 else 0)" if "i < n" "j < Suc c" for i j
  proof (cases "i = c")
    case True
    then show ?thesis using that c Bc[of j] unit[OF c, of j] k by (cases "j = c") auto
  next
    case False
    then have Bij: "entry ?B i j = entry aug i j + entry aug i c * (?k * entry aug c j)"
      using that c Bi[of i j] Bc[of j] by simp
    show ?thesis
    proof (cases "j = c")
      case True
      then have "entry ?B i j = entry aug i c + entry aug i c"
        using Bij k by simp
      then show ?thesis using False True gf_minus_eq[of "entry aug i c" "entry aug i c"] by simp
    next
      case neq: False
      then show ?thesis using Bij that unit[of i j] unit[OF c, of j] by auto
    qed
  qed
  ultimately show ?thesis using red by (simp add: reduced_def)
qed

lemma pivotStep_eq:
  assumes sh: "shape n (2 * n) aug" and c: "c < n"
  shows "pivotStep n c aug =
    (case find (\<lambda>row. aug ! row ! c \<noteq> 0) [c..<n] of
       None \<Rightarrow> Inl ErrChunkUnrecoverable
     | Some p \<Rightarrow> Inr (clearColumn n c (if p \<noteq> c then swapRows p c aug else aug)))"
  using assms shape_length[OF sh]
  by (auto simp: pivotStep_def clearColumn_def Let_def swapRows_def split: option.splits intro!: map_cong)

lemma pivotStep_reduced:
  assumes red: "reduced n aug0 c aug" and c: "c < n" and ok: "pivotStep n c aug = Inr aug'"
  shows "reduced n aug0 (Suc c) aug'"
proof -
  have sh: "shape n (2 * n) aug" using red by (simp add: reduced_def)
  from ok obtain p where p: "find (\<lambda>row. aug ! row ! c \<noteq> 0) [c..<n] = Some p"
    and aug': "aug' = clearColumn n c (if p \<noteq> c then swapRows p c aug else aug)"
    using pivotStep_eq[OF sh c] by (auto split: option.splits)
  have piv: "aug ! p ! c \<noteq> 0" "c \<le> p" "p < n"
    using p by (auto simp: find_Some_iff)
  let ?a = "if p \<noteq> c then swapRows p c aug else aug"
  have "reduced n aug0 c ?a"
    using red swapRows_reduced[OF red piv(2,3)] by simp
  moreover have "?a ! c ! c \<noteq> 0"
    using piv c shape_length[OF sh] by (auto simp: swapRows_def)
  ultimately show ?thesis unfolding aug' using c by (intro clearColumn_reduced)
qed

text \<open>A column without a pivot exhibits a non-zero vector in the null space.\<close>

lemma no_pivot_nullspace:
  assumes red: "reduced n aug0 c aug" and c: "c < n" and bad: "pivotStep n c aug = Inl e"
  shows "\<exists>v \<in> nullspace n (entry aug0). v c = 1 \<and> (\<forall>j\<ge>n. v j = 0)"
proof -
  have sh: "shape n (2 * n) aug" and unit: "\<And>i j. i < n \<Longrightarrow> j < c \<Longrightarrow> entry aug i j = (if i = j then 1 else 0)"
    and ker: "nullspace n (entry aug) = nullspace n (entry aug0)"
    using red by (auto simp: reduced_def)
  have "find (\<lambda>row. aug ! row ! c \<noteq> 0) [c..<n] = None"
    using bad pivotStep_eq[OF sh c] by (auto split: option.splits)
  then have zero: "entry aug i c = 0" if "c \<le> i" "i < n" for i
    using that by (auto simp: find_None_iff entry_def)
  define v where "v j = (if j < c then entry aug j c else if j = c then 1 else 0)" for j
  have "matvec (2 * n) (entry aug) v i = 0" if i: "i < n" for i
  proof -
    have "matvec (2 * n) (entry aug) v i = (\<Sum>j<Suc c. entry aug i j * v j)"
      unfolding matvec_def using c by (intro sum.mono_neutral_right) (auto simp: v_def)
    also have "\<dots> = (\<Sum>j<c. entry aug i j * v j) + entry aug i c" by (simp add: v_def)
    also have "(\<Sum>j<c. entry aug i j * v j) = (\<Sum>j<c. (if j = i then entry aug i c else 0))"
      using unit[OF i] by (intro sum.cong) (auto simp: v_def)
    also have "\<dots> + entry aug i c = 0"
      using zero[of i] i gf_minus_eq[of "entry aug i c" "entry aug i c"] by (cases "i < c") auto
    finally show ?thesis .
  qed
  then have "v \<in> nullspace n (entry aug)" by (simp add: nullspace_def)
  then have "v \<in> nullspace n (entry aug0)" unfolding ker .
  moreover have "v c = 1" "\<forall>j\<ge>n. v j = 0" using c by (auto simp: v_def)
  ultimately show ?thesis by blast
qed

lemma augment_shape: "shape n n m \<Longrightarrow> shape n (2 * n) (augment m)"
  by (intro shapeI) (auto simp: augment_def Let_def shape_length shape_row)

lemma augment_entry:
  assumes "shape n n m" "i < n" "j < 2 * n"
  shows "entry (augment m) i j = (if j < n then entry m i j else if j = n + i then 1 else 0)"
  using assms shape_row[OF assms(1,2)] shape_length[OF assms(1)]
  by (auto simp: augment_def Let_def entry_def nth_append nth_list_update)

lemma augment_matvec:
  assumes sh: "shape n n m" and i: "i < n"
  shows "matvec (2 * n) (entry (augment m)) v i = matvec n (entry m) v i + v (n + i)"
proof -
  have "matvec (2 * n) (entry (augment m)) v i
      = (\<Sum>j<n. entry (augment m) i j * v j) + (\<Sum>j\<in>{n..<2 * n}. entry (augment m) i j * v j)"
    unfolding matvec_def lessThan_atLeast0 by (rule sum.atLeastLessThan_concat[symmetric]) auto
  also have "(\<Sum>j<n. entry (augment m) i j * v j) = matvec n (entry m) v i"
    unfolding matvec_def using sh i by (intro sum.cong) (auto simp: augment_entry)
  also have "(\<Sum>j\<in>{n..<2 * n}. entry (augment m) i j * v j) = (\<Sum>j\<in>{n..<2 * n}. if j = n + i then v j else 0)"
    using sh i by (intro sum.cong) (auto simp: augment_entry)
  also have "\<dots> = v (n + i)" using i by (simp add: sum.delta)
  finally show ?thesis .
qed

lemma augment_reduced: "shape n n m \<Longrightarrow> reduced n (augment m) 0 (augment m)"
  by (simp add: reduced_def augment_shape)

lemma rfold_pivotStep_reduced:
  assumes "reduced n aug0 0 aug" "k \<le> n" "rfold (pivotStep n) [0..<k] aug = Inr aug'"
  shows "reduced n aug0 k aug'"
  using assms(2,3)
proof (induction k arbitrary: aug')
  case 0
  then show ?case using assms(1) by simp
next
  case (Suc k)
  then obtain a where "rfold (pivotStep n) [0..<k] aug = Inr a" "pivotStep n k a = Inr aug'"
    by (auto simp: rfold_snoc_Inr)
  with Suc show ?case by (auto intro: pivotStep_reduced)
qed

lemma rfold_pivotStep_total:
  assumes red: "reduced n (augment m) 0 (augment m)" and sh: "shape n n m"
    and ns: "nonsingular n (entry m)" and "k \<le> n"
  shows "\<exists>aug'. rfold (pivotStep n) [0..<k] (augment m) = Inr aug'"
  using assms(4)
proof (induction k)
  case 0
  then show ?case by simp
next
  case (Suc k)
  then obtain a where a: "rfold (pivotStep n) [0..<k] (augment m) = Inr a" by auto
  have "reduced n (augment m) k a"
    using rfold_pivotStep_reduced[OF red _ a] Suc.prems by simp
  have "\<exists>b. pivotStep n k a = Inr b"
  proof (rule ccontr)
    assume "\<nexists>b. pivotStep n k a = Inr b"
    then obtain e where "pivotStep n k a = Inl e" by (cases "pivotStep n k a") auto
    then obtain v where v: "v \<in> nullspace n (entry (augment m))" "v k = 1" "\<forall>j\<ge>n. v j = 0"
      using no_pivot_nullspace[OF \<open>reduced n (augment m) k a\<close>] Suc.prems by auto
    then have "matvec n (entry m) v i = 0" if "i < n" for i
      using augment_matvec[OF sh that, of v] that by (simp add: nullspace_def)
    then have "v k = 0" using ns Suc.prems by (auto simp: nonsingular_def)
    with v show False by simp
  qed
  with a show ?case by (auto simp: rfold_snoc_Inr)
qed

lemma reduced_inverse:
  assumes red: "reduced n (augment m) n aug" and sh: "shape n n m"
    and y: "\<And>i. i < n \<Longrightarrow> y i = matvec n (entry m) x i" and i: "i < n"
  shows "x i = matvec n (entry (map (drop n) aug)) y i"
proof -
  define v where "v j = (if j < n then x j else y (j - n))" for j
  have "matvec n (entry m) v i = matvec n (entry m) x i" for i
    unfolding matvec_def by (intro sum.cong) (auto simp: v_def)
  then have "v \<in> nullspace n (entry (augment m))"
    using y gf_minus_eq[symmetric] by (simp add: nullspace_def augment_matvec[OF sh]) (simp add: v_def)
  then have ker: "matvec (2 * n) (entry aug) v i = 0"
    using red i by (auto simp: reduced_def nullspace_def)
  have shA: "shape n (2 * n) aug" using red by (simp add: reduced_def)
  have "matvec (2 * n) (entry aug) v i
      = (\<Sum>j<n. entry aug i j * v j) + (\<Sum>j\<in>{n..<2 * n}. entry aug i j * v j)"
    unfolding matvec_def lessThan_atLeast0 by (rule sum.atLeastLessThan_concat[symmetric]) auto
  also have "(\<Sum>j<n. entry aug i j * v j) = (\<Sum>j<n. if j = i then x j else 0)"
    using red i by (intro sum.cong) (auto simp: reduced_def v_def)
  also have "\<dots> = x i" using i by simp
  also have "(\<Sum>j\<in>{n..<2 * n}. entry aug i j * v j) = (\<Sum>j<n. entry aug i (n + j) * y j)"
    using sum.shift_bounds_nat_ivl[of "\<lambda>j. entry aug i j * v j" 0 n n]
    by (simp add: v_def lessThan_atLeast0 mult_2 add.commute)
  also have "\<dots> = matvec n (entry (map (drop n) aug)) y i"
    unfolding matvec_def using i shape_length[OF shA] shape_row[OF shA i]
    by (intro sum.cong) (auto simp: entry_def)
  finally have "x i + matvec n (entry (map (drop n) aug)) y i = 0" using ker by simp
  then show ?thesis using gf_minus_eq[of "x i"] by (metis eq_iff_diff_eq_0)
qed

theorem invertMatrix_nonsingular:
  assumes sh: "shape n n m" and n: "0 < n" and ns: "nonsingular n (entry m)"
  shows "\<exists>inv. invertMatrix m = Inr inv \<and> shape n n inv \<and>
    (\<forall>x y. (\<forall>i<n. y i = matvec n (entry m) x i) \<longrightarrow> (\<forall>i<n. x i = matvec n (entry inv) y i))"
proof -
  obtain aug where aug: "rfold (pivotStep n) [0..<n] (augment m) = Inr aug"
    using rfold_pivotStep_total[OF augment_reduced[OF sh] sh ns] by blast
  have red: "reduced n (augment m) n aug"
    using rfold_pivotStep_reduced[OF augment_reduced[OF sh] _ aug] by simp
  have "invertMatrix m = Inr (map (drop n) aug)"
    using sh n aug by (auto simp: invertMatrix_def Let_def shape_def)
  moreover have "shape n n (map (drop n) aug)"
    using red by (auto simp: reduced_def shape_def)
  ultimately show ?thesis using reduced_inverse[OF red sh] by blast
qed

theorem invertMatrix_singular:
  assumes sh: "shape n n m" and n: "0 < n" and sing: "\<not> nonsingular n (entry m)"
  shows "invertMatrix m = Inl ErrChunkUnrecoverable"
proof -
  have sq: "length m = n" "\<not> (\<exists>r \<in> set m. length r \<noteq> n)" using sh by (auto simp: shape_def)
  have err: "rfold (pivotStep n) cs a = Inl e \<Longrightarrow> e = ErrChunkUnrecoverable" for cs a e
    by (induction cs arbitrary: a) (auto simp: pivotStep_def Let_def split: sum.splits option.splits)
  show ?thesis
  proof (cases "rfold (pivotStep n) [0..<n] (augment m)")
    case (Inl e)
    then show ?thesis using err sq n by (auto simp: invertMatrix_def Let_def)
  next
    case (Inr aug)
    then have red: "reduced n (augment m) n aug"
      using rfold_pivotStep_reduced[OF augment_reduced[OF sh]] by simp
    have "nonsingular n (entry m)"
      unfolding nonsingular_def
    proof (intro allI impI)
      fix x j assume "\<forall>i<n. matvec n (entry m) x i = 0" and "j < n"
      then show "x j = 0"
        using reduced_inverse[OF red sh, of "\<lambda>_. 0" x j] by (simp add: matvec_def)
    qed
    with sing show ?thesis by simp
  qed
qed

section \<open>The coding rows\<close>

definition coding_matrix :: "nat \<Rightarrow> nat list \<Rightarrow> bytes list" where
  "coding_matrix n idx = map (\<lambda>i. codingRow i n) idx"

definition parity_point :: "nat \<Rightarrow> nat \<Rightarrow> gf256" where
  "parity_point n index = gf (word_of_nat (index - n + 1))"

definition data_point :: "nat \<Rightarrow> gf256" where
  "data_point col = gf (word_of_nat (128 + col))"

lemma length_codingRow [simp]: "length (codingRow i n) = n"
  by (simp add: codingRow_def Let_def)

lemma coding_matrix_shape: "length idx = n \<Longrightarrow> shape n n (coding_matrix n idx)"
  by (auto simp: shape_def coding_matrix_def)

lemma codingRow_data:
  "i < n \<Longrightarrow> j < n \<Longrightarrow> gf (codingRow i n ! j) = (if j = i then 1 else 0)"
  by (simp add: codingRow_def nth_list_update)

lemma codingRow_parity:
  "n \<le> i \<Longrightarrow> j < n \<Longrightarrow> gf (codingRow i n ! j) = 1 / (parity_point n i - data_point j)"
  by (simp add: codingRow_def Let_def parity_point_def data_point_def gf_hom gf_minus_eq divide_inverse)

lemma data_point_inj: "n \<le> 256 \<Longrightarrow> inj_on data_point {..<n}"
proof (rule inj_onI)
  fix a b assume *: "n \<le> 256" "a \<in> {..<n}" "b \<in> {..<n}" "data_point a = data_point b"
  then have "(128 + a) mod 256 = (128 + b) mod 256"
    by (simp only: data_point_def gf_inject_iff word_of_nat_byte_eq)
  with * show "a = b" by (simp add: mod_if split: if_splits)
qed

lemma parity_point_inj: "m \<le> 255 \<Longrightarrow> inj_on (parity_point n) {n..<n + m}"
  by (rule inj_onI) (auto simp: parity_point_def word_of_nat_byte_eq simp del: of_nat_Suc)

lemma parity_data_distinct:
  assumes "n \<le> 129" "m \<le> 127" "n \<le> i" "i < n + m" "j < n"
  shows "parity_point n i \<noteq> data_point j"
proof
  assume "parity_point n i = data_point j"
  then have "(i - n + 1) mod 256 = (128 + j) mod 256"
    by (simp only: parity_point_def data_point_def gf_inject_iff word_of_nat_byte_eq)
  with assms show False by (cases "j = 128") (auto simp: mod_if split: if_splits)
qed

text \<open>
  Up to 129 data and 127 parity shards the points of the Cauchy rows are distinct, and any
  \<open>n\<close> different coding rows form a non-singular matrix.
\<close>

lemma coding_matrix_entry:
  "k < length idx \<Longrightarrow> entry (coding_matrix n idx) k j = gf (codingRow (idx ! k) n ! j)"
  by (simp add: coding_matrix_def entry_def)

lemma coding_matrix_nonsingular:
  assumes idx: "distinct idx" "length idx = n" "set idx \<subseteq> {..<n + m}" and bounds: "n \<le> 129" "m \<le> 127"
  shows "nonsingular n (entry (coding_matrix n idx))"
  unfolding nonsingular_def
proof (intro allI impI)
  fix x j
  assume zero: "\<forall>k<n. matvec n (entry (coding_matrix n idx)) x k = 0" and j: "j < n"
  have eq: "(\<Sum>j<n. gf (codingRow i n ! j) * x j) = 0" if i: "i \<in> set idx" for i
  proof -
    obtain k where k: "k < n" "i = idx ! k"
      using i idx(2) by (metis in_set_conv_nth)
    then have "matvec n (entry (coding_matrix n idx)) x k = 0" using zero by simp
    then show ?thesis using k idx(2) by (simp add: matvec_def coding_matrix_entry)
  qed
  define D where "D = set idx \<inter> {..<n}"
  define P where "P = set idx - {..<n}"
  define K where "K = {..<n} - D"
  have xD: "x i = 0" if "i \<in> D" for i
  proof -
    have "(\<Sum>j<n. gf (codingRow i n ! j) * x j) = (\<Sum>j<n. if j = i then x j else 0)"
      using that by (intro sum.cong) (auto simp: D_def codingRow_data)
    then show ?thesis using eq[of i] that by (auto simp: D_def)
  qed
  have "card (set idx) = card D + card P"
    unfolding D_def P_def using card_Un_disjoint[of "set idx \<inter> {..<n}" "set idx - {..<n}"] by (simp add: Int_Diff_Un Int_Diff_disjoint)
  moreover have "card K = n - card D"
    unfolding K_def by (subst card_Diff_subset) (auto simp: D_def)
  ultimately have card: "card K \<le> card P"
    using idx by (simp add: distinct_card)
  have Psub: "P \<subseteq> {n..<n + m}" using idx(3) by (auto simp: P_def)
  have "(\<Sum>j\<in>K. x j / (parity_point n p - data_point j)) = 0" if p: "p \<in> P" for p
  proof -
    have "(\<Sum>j<n. gf (codingRow p n ! j) * x j) = (\<Sum>j\<in>K. gf (codingRow p n ! j) * x j)"
      using xD by (intro sum.mono_neutral_right) (auto simp: K_def)
    also have "\<dots> = (\<Sum>j\<in>K. x j / (parity_point n p - data_point j))"
      using p by (intro sum.cong) (auto simp: K_def P_def codingRow_parity)
    finally show ?thesis using eq[of p] p by (simp add: P_def)
  qed
  moreover have "inj_on (parity_point n) P" "inj_on data_point K"
    using parity_point_inj[of m n] data_point_inj[of n] bounds Psub by (auto simp: K_def intro: inj_on_subset)
  moreover have "parity_point n p \<noteq> data_point j" if "p \<in> P" "j \<in> K" for p j
    using that Psub bounds by (intro parity_data_distinct) (auto simp: K_def)
  ultimately have "\<forall>j\<in>K. x j = 0"
    using card by (intro cauchy_nonsingular[of K P "parity_point n" data_point]) (auto simp: K_def P_def)
  then show "x j = 0" using xD j by (cases "j \<in> D") (auto simp: K_def)
qed

text \<open>
  Beyond these counts the byte arithmetic of the points wraps around: some parity row has
  a zero in some data column, and dropping that data shard leaves a singular system.
\<close>

lemma coding_matrix_singular:
  assumes c: "c < n" and p: "n \<le> p" and coll: "codingRow p n ! c = 0"
    and idx: "idx = filter (\<lambda>i. i \<noteq> c) [0..<n] @ [p]"
  shows "length idx = n" and "\<not> nonsingular n (entry (coding_matrix n idx))"
proof -
  have "filter (\<lambda>i. i \<noteq> c) [0..<n] = remove1 c [0..<n]"
    by (simp add: distinct_remove1_removeAll removeAll_filter_not_eq) (metis)
  then show len: "length idx = n"
    using c by (simp add: idx length_remove1)
  define x :: "nat \<Rightarrow> gf256" where "x j = (if j = c then 1 else 0)" for j
  have "matvec n (entry (coding_matrix n idx)) x k = 0" if k: "k < n" for k
  proof -
    have "matvec n (entry (coding_matrix n idx)) x k = (\<Sum>j<n. if j = c then gf (codingRow (idx ! k) n ! c) else 0)"
      unfolding matvec_def using k len by (intro sum.cong) (auto simp: x_def coding_matrix_entry)
    also have "\<dots> = gf (codingRow (idx ! k) n ! c)" using c by simp
    also have "\<dots> = 0"
    proof (cases "idx ! k = p")
      case True
      then show ?thesis using coll by simp
    next
      case False
      then have "idx ! k < n" "idx ! k \<noteq> c"
        using k len nth_mem[of k idx] by (auto simp: idx)
      then show ?thesis using c by (simp add: codingRow_data)
    qed
    finally show ?thesis .
  qed
  moreover have "x c \<noteq> 0" by (simp add: x_def)
  ultimately show "\<not> nonsingular n (entry (coding_matrix n idx))"
    using c unfolding nonsingular_def by blast
qed

lemma codingRow_collision:
  assumes "130 \<le> n \<or> 128 \<le> m" "0 < n" "0 < m" "n + m \<le> 255"
  shows "\<exists>c p. c < n \<and> n \<le> p \<and> p < n + m \<and> codingRow p n ! c = 0"
proof (cases "130 \<le> n")
  case True
  then have "codingRow n n ! 129 = 0" by (simp add: codingRow_def gfInv_def)
  then show ?thesis using True assms by (intro exI[of _ 129] exI[of _ n]) auto
next
  case False
  then have "codingRow (n + 127) n ! 0 = 0" using assms by (simp add: codingRow_def gfInv_def)
  then show ?thesis using False assms by (intro exI[of _ 0] exI[of _ "n + 127"]) auto
qed

end
