(* ===== verification/Chunk_Engine.thy ===== *)
theory Chunk_Engine
  imports Erasure_Matrix Go_Base64
begin

text \<open>
  The erasure chunk engine (\<^verbatim>\<open>pkg/bundle/chunk_engine.go\<close>): splitting a bundle into data and
  parity chunks, the binary and text form of a chunk, reconstruction from any sufficient
  set of chunks, and the reassembler that collects chunks per bundle.

  SHA-256 is an argument \<open>sha\<close> of the definitions that call it. The theorems hold for every
  function in its place; where the length of a digest matters it is a hypothesis.
\<close>

section \<open>Chunks\<close>

definition MaxBundleBytes :: int where "MaxBundleBytes = 2097152"
definition MaxChunkDataSize :: int where "MaxChunkDataSize = 65536"
definition MaxShardCount :: int where "MaxShardCount = 255"
definition ChunkHeaderSize :: nat where "ChunkHeaderSize = 98"
definition ChunkMagic :: bytes where "ChunkMagic = [0x53, 0x4E, 0x43, 0x45]"
definition ChunkVersion :: byte where "ChunkVersion = 1"

lemmas chunk_consts = MaxBundleBytes_def MaxChunkDataSize_def MaxShardCount_def ChunkHeaderSize_def
  ChunkMagic_def ChunkVersion_def

record EncodedChunk =
  BundleID :: bytes
  Index :: int
  DataShards :: int
  ParityShards :: int
  PayloadSize :: int
  ShardSize :: int
  PayloadSHA256 :: bytes
  ChunkSHA256 :: bytes
  Data :: bytes

record ChunkOptions =
  optDataShards :: int
  optParityShards :: int
  optShardSize :: int

text \<open>\<^verbatim>\<open>uint16(v)\<close> and \<^verbatim>\<open>uint32(v)\<close> keep the low bits of the int.\<close>

definition putU16Chunk :: "int \<Rightarrow> bytes" where
  "putU16Chunk v = be_bytes 2 (nat (v mod 2 ^ 16))"

definition putU32Chunk :: "int \<Rightarrow> bytes" where
  "putU32Chunk v = be_bytes 4 (nat (v mod 2 ^ 32))"

definition chunkHeader :: "EncodedChunk \<Rightarrow> bytes" where
  "chunkHeader c = ChunkMagic @ [ChunkVersion, 0] @ BundleID c @ putU16Chunk (Index c) @
     putU16Chunk (DataShards c) @ putU16Chunk (ParityShards c) @ putU32Chunk (PayloadSize c) @
     putU16Chunk (ShardSize c) @ PayloadSHA256 c"

definition computeChecksum :: "(bytes \<Rightarrow> bytes) \<Rightarrow> EncodedChunk \<Rightarrow> bytes" where
  "computeChecksum sha c = sha (chunkHeader c @ Data c)"

definition Validate :: "EncodedChunk \<Rightarrow> chunk_error + unit" where
  "Validate c =
     (let total = DataShards c + ParityShards c in
      if DataShards c \<le> 0 \<or> ParityShards c \<le> 0 \<or> total > MaxShardCount then Inl ErrChunkInvalid
      else if Index c < 0 \<or> Index c \<ge> total then Inl ErrChunkInvalid
      else if PayloadSize c \<le> 0 \<or> PayloadSize c > MaxBundleBytes then Inl ErrChunkInvalid
      else if ShardSize c \<le> 0 \<or> ShardSize c > MaxChunkDataSize then Inl ErrChunkInvalid
      else if int (length (Data c)) \<noteq> ShardSize c then Inl ErrChunkInvalid
      else if DataShards c * ShardSize c < PayloadSize c then Inl ErrChunkInvalid
      else Inr ())"

definition MarshalBinary :: "EncodedChunk \<Rightarrow> chunk_error + bytes" where
  "MarshalBinary c = rbind (Validate c) (\<lambda>_. Inr (chunkHeader c @ ChunkSHA256 c @ Data c))"

definition ParseEncodedChunk :: "(bytes \<Rightarrow> bytes) \<Rightarrow> bytes \<Rightarrow> chunk_error + EncodedChunk" where
  "ParseEncodedChunk sha raw =
     (if length raw < ChunkHeaderSize then Inl ErrChunkInvalid
      else if slice 0 4 raw \<noteq> ChunkMagic \<or> raw ! 4 \<noteq> ChunkVersion then Inl ErrChunkInvalid
      else let c = \<lparr>BundleID = slice 6 22 raw, Index = int (be_nat (slice 22 24 raw)),
                    DataShards = int (be_nat (slice 24 26 raw)), ParityShards = int (be_nat (slice 26 28 raw)),
                    PayloadSize = int (be_nat (slice 28 32 raw)), ShardSize = int (be_nat (slice 32 34 raw)),
                    PayloadSHA256 = slice 34 66 raw, ChunkSHA256 = slice 66 98 raw, Data = drop 98 raw\<rparr>
           in rbind (Validate c) (\<lambda>_.
                if computeChecksum sha c \<noteq> ChunkSHA256 c then Inl ErrChunkChecksum else Inr c))"

definition chunkTextPrefix :: string where
  "chunkTextPrefix = ''SNBEC/1 ''"

definition EncodeText :: "EncodedChunk \<Rightarrow> chunk_error + string" where
  "EncodeText c = rbind (MarshalBinary c) (\<lambda>raw. Inr (chunkTextPrefix @ EncodeToString raw))"

definition ParseEncodedChunkText :: "(bytes \<Rightarrow> bytes) \<Rightarrow> string \<Rightarrow> chunk_error + EncodedChunk" where
  "ParseEncodedChunkText sha line =
     (if length line \<le> length chunkTextPrefix \<or> take (length chunkTextPrefix) line \<noteq> chunkTextPrefix
      then Inl ErrChunkInvalid
      else case DecodeString (drop (length chunkTextPrefix) line) of
             None \<Rightarrow> Inl ErrChunkInvalid
           | Some raw \<Rightarrow> ParseEncodedChunk sha raw)"

section \<open>Encoding\<close>

text \<open>
  The accumulation loop shared by encoder and decoder: the bytes of \<open>shards\<close> are added up
  with the coefficients of \<open>coefs\<close>, zero coefficients being skipped.
\<close>

definition combineShards :: "nat \<Rightarrow> bytes \<Rightarrow> bytes list \<Rightarrow> bytes" where
  "combineShards shardSize coefs shards =
     fold (\<lambda>col acc. if coefs ! col = 0 then acc
                     else map (\<lambda>b. acc ! b XOR gfMul (coefs ! col) (shards ! col ! b)) [0..<shardSize])
       [0..<length shards] (replicate shardSize 0)"

definition dataShard :: "bytes \<Rightarrow> nat \<Rightarrow> nat \<Rightarrow> bytes" where
  "dataShard payload shardSize i =
     (let start = i * shardSize
      in if start \<ge> length payload then replicate shardSize 0
         else let end = min (start + shardSize) (length payload); part = slice start end payload
              in part @ replicate (shardSize - length part) 0)"

definition encodedShard :: "bytes \<Rightarrow> nat \<Rightarrow> nat \<Rightarrow> nat \<Rightarrow> bytes" where
  "encodedShard payload shardSize dataShards i =
     (let data = map (dataShard payload shardSize) [0..<dataShards]
      in if i < dataShards then data ! i else combineShards shardSize (codingRow i dataShards) data)"

definition mkChunk :: "(bytes \<Rightarrow> bytes) \<Rightarrow> bytes \<Rightarrow> int \<Rightarrow> int \<Rightarrow> int \<Rightarrow> nat \<Rightarrow> EncodedChunk" where
  "mkChunk sha payload dataShards parityShards shardSize i =
     (let sum = sha payload;
          c = \<lparr>BundleID = take 16 sum, Index = int i, DataShards = dataShards, ParityShards = parityShards,
               PayloadSize = int (length payload), ShardSize = shardSize, PayloadSHA256 = sum,
               ChunkSHA256 = replicate 32 0,
               Data = encodedShard payload (nat shardSize) (nat dataShards) i\<rparr>
      in c\<lparr>ChunkSHA256 := computeChecksum sha c\<rparr>)"

definition EncodeErasureChunks ::
    "(bytes \<Rightarrow> bytes) \<Rightarrow> bytes \<Rightarrow> ChunkOptions \<Rightarrow> chunk_error + EncodedChunk list" where
  "EncodeErasureChunks sha payload opt =
     (let len = int (length payload) in
      if len = 0 then Inl ErrChunkInvalid
      else if len > MaxBundleBytes then Inl ErrChunkInvalid
      else let size0 = (if optShardSize opt \<le> 0 then 768 else optShardSize opt) in
      if size0 > MaxChunkDataSize then Inl ErrChunkInvalid
      else let dataShards = (if optDataShards opt \<le> 0 then (len + size0 - 1) div size0 else optDataShards opt) in
      if dataShards \<le> 0 \<or> dataShards > MaxShardCount then Inl ErrChunkInvalid
      else let parityShards = (if optParityShards opt \<le> 0 then (dataShards + 2) div 3 else optParityShards opt) in
      if parityShards \<le> 0 \<or> dataShards + parityShards > MaxShardCount then Inl ErrChunkInvalid
      else let minSize = (len + dataShards - 1) div dataShards;
               shardSize = (if size0 < minSize then minSize else size0) in
      if shardSize > MaxChunkDataSize then Inl ErrChunkInvalid
      else Inr (map (mkChunk sha payload dataShards parityShards shardSize) [0..<nat (dataShards + parityShards)]))"

section \<open>Reconstruction\<close>

definition sameMatrix :: "EncodedChunk \<Rightarrow> EncodedChunk \<Rightarrow> bool" where
  "sameMatrix c base \<longleftrightarrow> BundleID c = BundleID base \<and> DataShards c = DataShards base \<and>
     ParityShards c = ParityShards base \<and> PayloadSize c = PayloadSize base \<and>
     ShardSize c = ShardSize base \<and> PayloadSHA256 c = PayloadSHA256 base"

definition collectChunk ::
    "(bytes \<Rightarrow> bytes) \<Rightarrow> EncodedChunk \<Rightarrow> EncodedChunk \<Rightarrow> (int \<rightharpoonup> EncodedChunk) \<Rightarrow> chunk_error + (int \<rightharpoonup> EncodedChunk)" where
  "collectChunk sha base c byIndex =
     rbind (Validate c) (\<lambda>_.
       if \<not> sameMatrix c base then Inl ErrChunkInvalid
       else if computeChecksum sha c \<noteq> ChunkSHA256 c then Inl ErrChunkChecksum
       else Inr (byIndex(Index c \<mapsto> c)))"

definition decodeShards :: "nat \<Rightarrow> nat \<Rightarrow> nat list \<Rightarrow> bytes list \<Rightarrow> chunk_error + bytes" where
  "decodeShards n shardSize indices shards =
     rbind (invertMatrix (coding_matrix n indices)) (\<lambda>inv.
       Inr (concat (map (\<lambda>i. combineShards shardSize (inv ! i) shards) [0..<n])))"

definition ReconstructErasurePayload ::
    "(bytes \<Rightarrow> bytes) \<Rightarrow> EncodedChunk list \<Rightarrow> chunk_error + bytes" where
  "ReconstructErasurePayload sha chunks =
     (case chunks of
        [] \<Rightarrow> Inl ErrChunkInvalid
      | base # _ \<Rightarrow>
          rbind (Validate base) (\<lambda>_.
          rbind (rfold (collectChunk sha base) chunks Map.empty) (\<lambda>byIndex.
          let n = nat (DataShards base);
              indices = sort (remdups (map Index chunks))
          in if length indices < n then Inl ErrChunkUnrecoverable
             else let rows = take n indices;
                      shards = map (\<lambda>i. Data (the (byIndex i))) rows
                  in rbind (decodeShards n (nat (ShardSize base)) (map nat rows) shards) (\<lambda>data.
                     let payload = take (nat (PayloadSize base)) data; sum = sha payload
                     in if sum \<noteq> PayloadSHA256 base then Inl ErrChunkUnrecoverable
                        else if take 16 sum \<noteq> BundleID base then Inl ErrChunkUnrecoverable
                        else Inr payload))))"

section \<open>Reconstruction inverts encoding\<close>

lemma length_combineShards [simp]: "length (combineShards k coefs shards) = k"
proof -
  have "length (fold (\<lambda>col acc. if coefs ! col = 0 then acc
      else map (\<lambda>b. acc ! b XOR gfMul (coefs ! col) (shards ! col ! b)) [0..<k]) cols acc) = k"
    if "length acc = k" for cols acc
    using that by (induction cols arbitrary: acc) auto
  then show ?thesis by (simp add: combineShards_def)
qed

lemma combineShards_nth:
  assumes b: "b < k"
  shows "gf (combineShards k coefs shards ! b) = (\<Sum>j<length shards. gf (coefs ! j) * gf (shards ! j ! b))"
proof -
  let ?f = "\<lambda>col acc. if coefs ! col = 0 then acc
      else map (\<lambda>b. acc ! b XOR gfMul (coefs ! col) (shards ! col ! b)) [0..<k]"
  have "gf (fold ?f cols acc ! b) = gf (acc ! b) + (\<Sum>j\<leftarrow>cols. gf (coefs ! j) * gf (shards ! j ! b))"
    if "length acc = k" for cols acc
    using that
  proof (induction cols arbitrary: acc)
    case Nil
    then show ?case by simp
  next
    case (Cons c cols)
    then have "length (?f c acc) = k" by simp
    from Cons.IH[OF this] show ?case
      using b Cons.prems by (cases "coefs ! c = 0") (simp_all add: gf_hom add.assoc)
  qed
  from this[of "replicate k 0" "[0..<length shards]"] show ?thesis
    using b by (simp add: combineShards_def sum_list_map_eq_sum_count interv_sum_list_conv_sum_set_nat lessThan_atLeast0)
qed

lemma length_dataShard [simp]: "length (dataShard payload k i) = k"
  by (auto simp: dataShard_def Let_def slice_def)

lemma dataShard_nth:
  "b < k \<Longrightarrow> dataShard payload k i ! b = (if i * k + b < length payload then payload ! (i * k + b) else 0)"
  by (auto simp: dataShard_def Let_def slice_def nth_append)

lemma length_encodedShard [simp]: "length (encodedShard payload k n i) = k"
  by (simp add: encodedShard_def Let_def)

lemma encodedShard_nth:
  assumes b: "b < k"
  shows "gf (encodedShard payload k n i ! b) = (\<Sum>j<n. gf (codingRow i n ! j) * gf (dataShard payload k j ! b))"
proof (cases "i < n")
  case True
  then have "(\<Sum>j<n. gf (codingRow i n ! j) * gf (dataShard payload k j ! b))
      = (\<Sum>j<n. if j = i then gf (dataShard payload k j ! b) else 0)"
    by (intro sum.cong) (auto simp: codingRow_data)
  then show ?thesis using True by (simp add: encodedShard_def Let_def)
next
  case False
  then show ?thesis using b by (simp add: encodedShard_def Let_def combineShards_nth)
qed

lemma concat_dataShards:
  assumes "length payload \<le> n * k"
  shows "take (length payload) (concat (map (dataShard payload k) [0..<n])) = payload"
proof (rule nth_equalityI)
  let ?d = "concat (map (dataShard payload k) [0..<n])"
  have len: "length ?d = n * k"
    by (subst length_concat_uniform[where k = k]) auto
  with assms show "length (take (length payload) ?d) = length payload" by simp
  fix i assume "i < length (take (length payload) ?d)"
  then have i: "i < length payload" "i < n * k" using assms len by auto
  then have k: "0 < k" by (cases k) auto
  have split: "i = i div k * k + i mod k" "i mod k < k" "i div k < n"
    using i k by (auto simp: less_mult_imp_div_less)
  have "?d ! (i div k * k + i mod k) = map (dataShard payload k) [0..<n] ! (i div k) ! (i mod k)"
    using split by (intro concat_nth_uniform[where k = k]) auto
  then have "?d ! i = dataShard payload k (i div k) ! (i mod k)" using split by simp
  then show "take (length payload) ?d ! i = payload ! i"
    using i split(2) by (simp add: dataShard_nth)
qed

lemma decodeShards_encoded:
  assumes idx: "distinct idx" "length idx = n" "set idx \<subseteq> {..<n + m}"
    and bounds: "0 < n" "n \<le> 129" "m \<le> 127"
  shows "decodeShards n k idx (map (encodedShard payload k n) idx)
    = Inr (concat (map (dataShard payload k) [0..<n]))"
proof -
  let ?shards = "map (encodedShard payload k n) idx"
  obtain inv where inv: "invertMatrix (coding_matrix n idx) = Inr inv"
    and left: "\<And>x y. (\<forall>i<n. y i = matvec n (entry (coding_matrix n idx)) x i) \<Longrightarrow>
        \<forall>i<n. x i = matvec n (entry inv) y i"
    using invertMatrix_nonsingular[OF coding_matrix_shape[OF idx(2)] bounds(1)
        coding_matrix_nonsingular[OF idx bounds(2,3)]] by blast
  have "combineShards k (inv ! i) ?shards = dataShard payload k i" if i: "i < n" for i
  proof (rule nth_equalityI)
    show "length (combineShards k (inv ! i) ?shards) = length (dataShard payload k i)" by simp
    fix b assume "b < length (combineShards k (inv ! i) ?shards)"
    then have b: "b < k" by simp
    let ?x = "\<lambda>j. gf (dataShard payload k j ! b)" and ?y = "\<lambda>r. gf (?shards ! r ! b)"
    have "?y r = matvec n (entry (coding_matrix n idx)) ?x r" if "r < n" for r
    proof -
      have "?y r = gf (encodedShard payload k n (idx ! r) ! b)" using that idx(2) by simp
      also have "\<dots> = matvec n (entry (coding_matrix n idx)) ?x r"
        unfolding matvec_def encodedShard_nth[OF b] using that idx(2)
        by (intro sum.cong refl) (simp only: coding_matrix_entry)
      finally show ?thesis .
    qed
    then have "\<forall>r<n. ?y r = matvec n (entry (coding_matrix n idx)) ?x r" by simp
    from left[of ?y ?x, OF this] i have "?x i = matvec n (entry inv) ?y i" by simp
    also have "\<dots> = gf (combineShards k (inv ! i) ?shards ! b)"
      unfolding matvec_def combineShards_nth[OF b] using idx(2)
      by (intro sum.cong) (simp_all only: entry_def length_map)
    finally show "combineShards k (inv ! i) ?shards ! b = dataShard payload k i ! b" by simp
  qed
  then have "map (\<lambda>i. combineShards k (inv ! i) ?shards) [0..<n] = map (dataShard payload k) [0..<n]"
    by simp
  then show ?thesis by (simp only: decodeShards_def inv rbind.simps)
qed

text \<open>What a successful encoding looks like: the chosen matrix and its bounds.\<close>

lemma EncodeErasureChunks_Inr:
  assumes "EncodeErasureChunks sha payload opt = Inr cs"
  obtains ds ps ss where "cs = map (mkChunk sha payload ds ps ss) [0..<nat (ds + ps)]"
    "0 < ds" "0 < ps" "ds + ps \<le> MaxShardCount" "0 < ss" "ss \<le> MaxChunkDataSize"
    "payload \<noteq> []" "int (length payload) \<le> MaxBundleBytes" "int (length payload) \<le> ds * ss"
proof -
  have cover: "len \<le> ds * ss" if "0 < ds" "(len + ds - 1) div ds \<le> ss" for len ds ss :: int
  proof -
    have "len + ds - 1 = ds * ((len + ds - 1) div ds) + (len + ds - 1) mod ds" by simp
    moreover have "(len + ds - 1) mod ds < ds" using that(1) by simp
    moreover have "ds * ((len + ds - 1) div ds) \<le> ds * ss" using that by simp
    ultimately show ?thesis by linarith
  qed
  define size0 where "size0 = (if optShardSize opt \<le> 0 then 768 else optShardSize opt)"
  define ds where "ds = (if optDataShards opt \<le> 0 then (int (length payload) + size0 - 1) div size0 else optDataShards opt)"
  define ps where "ps = (if optParityShards opt \<le> 0 then (ds + 2) div 3 else optParityShards opt)"
  define minSize where "minSize = (int (length payload) + ds - 1) div ds"
  define ss where "ss = (if size0 < minSize then minSize else size0)"
  note folds = size0_def[symmetric] ds_def[symmetric] ps_def[symmetric] minSize_def[symmetric] ss_def[symmetric]
  have ok: "payload \<noteq> []" "int (length payload) \<le> MaxBundleBytes" "0 < ds" "0 < ps"
    "ds + ps \<le> MaxShardCount" "ss \<le> MaxChunkDataSize"
    "cs = map (mkChunk sha payload ds ps ss) [0..<nat (ds + ps)]"
    using assms unfolding EncodeErasureChunks_def Let_def folds by (simp_all split: if_split_asm)
  have "0 < ss" "minSize \<le> ss" by (auto simp: ss_def size0_def)
  with ok show thesis by (intro that) (auto simp: minSize_def intro: cover)
qed

lemma computeChecksum_ChunkSHA256 [simp]:
  "computeChecksum sha (c\<lparr>ChunkSHA256 := x\<rparr>) = computeChecksum sha c"
  by (simp add: computeChecksum_def chunkHeader_def)

lemma mkChunk_checksum: "ChunkSHA256 (mkChunk sha payload ds ps ss i) = computeChecksum sha (mkChunk sha payload ds ps ss i)"
  by (simp add: mkChunk_def Let_def computeChecksum_def chunkHeader_def)

lemma mkChunk_sel [simp]:
  "BundleID (mkChunk sha payload ds ps ss i) = take 16 (sha payload)"
  "Index (mkChunk sha payload ds ps ss i) = int i"
  "DataShards (mkChunk sha payload ds ps ss i) = ds"
  "ParityShards (mkChunk sha payload ds ps ss i) = ps"
  "PayloadSize (mkChunk sha payload ds ps ss i) = int (length payload)"
  "ShardSize (mkChunk sha payload ds ps ss i) = ss"
  "PayloadSHA256 (mkChunk sha payload ds ps ss i) = sha payload"
  "Data (mkChunk sha payload ds ps ss i) = encodedShard payload (nat ss) (nat ds) i"
  by (simp_all add: mkChunk_def Let_def)

lemma Validate_mkChunk:
  assumes "0 < ds" "0 < ps" "ds + ps \<le> MaxShardCount" "0 < ss" "ss \<le> MaxChunkDataSize"
    "payload \<noteq> []" "int (length payload) \<le> MaxBundleBytes" "int (length payload) \<le> ds * ss"
    "i < nat (ds + ps)"
  shows "Validate (mkChunk sha payload ds ps ss i) = Inr ()"
  using assms by (simp add: Validate_def Let_def)

lemma rfold_collectChunk:
  assumes "\<And>c. c \<in> set chunks \<Longrightarrow> Validate c = Inr () \<and> sameMatrix c base \<and> computeChecksum sha c = ChunkSHA256 c"
  shows "rfold (collectChunk sha base) chunks m = Inr (m ++ map_of (rev (map (\<lambda>c. (Index c, c)) chunks)))"
  using assms
proof (induction chunks arbitrary: m)
  case Nil
  then show ?case by simp
next
  case (Cons c chunks)
  then show ?case by (simp add: collectChunk_def)
qed

text \<open>
  Reconstruction from chunks of one encoding, whichever of them arrived, in whatever order
  and however often: only the set of indices counts.
\<close>

lemma ReconstructErasurePayload_mkChunk:
  fixes sha payload ds ps ss
  defines "mk \<equiv> mkChunk sha payload ds ps ss"
  assumes mat: "0 < ds" "0 < ps" "ds + ps \<le> MaxShardCount" "0 < ss" "ss \<le> MaxChunkDataSize"
    "payload \<noteq> []" "int (length payload) \<le> MaxBundleBytes" "int (length payload) \<le> ds * ss"
    and rx: "set rx \<subseteq> mk ` {0..<nat (ds + ps)}" "rx \<noteq> []"
  defines "rows \<equiv> map nat (take (nat ds) (sort (remdups (map Index rx))))"
  shows "ReconstructErasurePayload sha rx =
    (if card (Index ` set rx) < nat ds then Inl ErrChunkUnrecoverable
     else rbind (decodeShards (nat ds) (nat ss) rows (map (encodedShard payload (nat ss) (nat ds)) rows)) (\<lambda>data.
       let p' = take (length payload) data
       in if sha p' \<noteq> sha payload then Inl ErrChunkUnrecoverable else Inr p'))"
proof -
  obtain base rest where base: "rx = base # rest" using rx(2) by (cases rx) auto
  have mem: "\<exists>i < nat (ds + ps). c = mk i" if "c \<in> set rx" for c
    using subsetD[OF rx(1) that] by auto
  have valid: "Validate c = Inr ()" if "c \<in> set rx" for c
    using mem[OF that] Validate_mkChunk[OF mat] by (auto simp: mk_def)
  obtain i0 where i0: "base = mk i0" using mem[of base] base by auto
  have good: "Validate c = Inr () \<and> sameMatrix c base \<and> computeChecksum sha c = ChunkSHA256 c"
    if "c \<in> set rx" for c
    using mem[OF that] valid[OF that] i0 by (auto simp: mk_def sameMatrix_def mkChunk_checksum)
  let ?m = "map_of (rev (map (\<lambda>c. (Index c, c)) rx))"
  have fold: "rfold (collectChunk sha base) rx Map.empty = Inr ?m"
    using rfold_collectChunk[of rx base sha Map.empty] good by simp
  have lookup: "Data (the (?m i)) = encodedShard payload (nat ss) (nat ds) (nat i)"
    if "i \<in> Index ` set rx" for i
  proof -
    have "i \<in> dom ?m" using that by (auto simp: dom_map_of_conv_image_fst image_image)
    then obtain c where c: "?m i = Some c" by blast
    then have "c \<in> set rx" "Index c = i" by (auto dest!: map_of_SomeD)
    with c mem[of c] show ?thesis by (auto simp: mk_def)
  qed
  have len: "length (sort (remdups (map Index rx))) = card (Index ` set rx)"
    by (simp add: length_remdups_card_conv)
  have shards: "map (\<lambda>i. Data (the (?m i))) (take (nat ds) (sort (remdups (map Index rx))))
      = map (encodedShard payload (nat ss) (nat ds)) rows"
    unfolding rows_def map_map using lookup by (intro map_cong) (auto dest!: in_set_takeD)
  have base_sel: "DataShards base = ds" "ShardSize base = ss" "PayloadSize base = int (length payload)"
    "PayloadSHA256 base = sha payload" "BundleID base = take 16 (sha payload)"
    by (simp_all add: i0 mk_def)
  have "ReconstructErasurePayload sha rx =
    rbind (Validate base) (\<lambda>_. rbind (rfold (collectChunk sha base) rx Map.empty) (\<lambda>byIndex.
      if length (sort (remdups (map Index rx))) < nat ds then Inl ErrChunkUnrecoverable
      else rbind (decodeShards (nat ds) (nat ss) rows
          (map (\<lambda>i. Data (the (byIndex i))) (take (nat ds) (sort (remdups (map Index rx)))))) (\<lambda>data.
        let p' = take (length payload) data
        in if sha p' \<noteq> sha payload then Inl ErrChunkUnrecoverable else Inr p')))"
    by (auto simp: ReconstructErasurePayload_def base base_sel rows_def Let_def
        intro!: arg_cong2[where f = rbind] ext)
  moreover have "Validate base = Inr ()" using valid[of base] base by simp
  ultimately show ?thesis by (simp only: fold len shards rbind.simps)
qed

lemma sorted_rows_facts:
  fixes N :: nat
  assumes "set xs \<subseteq> int ` {0..<N}" "n \<le> card (set xs)"
  defines "rows \<equiv> map nat (take n (sort (remdups xs)))"
  shows "distinct rows" "length rows = n" "set rows \<subseteq> {..<N}"
proof -
  have sub: "set (take n (sort (remdups xs))) \<subseteq> int ` {0..<N}"
    using assms(1) by (auto dest!: in_set_takeD)
  then show "set rows \<subseteq> {..<N}" by (auto simp: rows_def)
  have "inj_on nat (set (take n (sort (remdups xs))))"
    using sub by (intro inj_on_subset[OF _ sub] inj_onI) auto
  then show "distinct rows" by (simp add: rows_def distinct_map)
  show "length rows = n" using assms(2) by (simp add: rows_def length_remdups_card_conv)
qed

lemma reconstruct_mkChunk:
  assumes mat: "0 < ds" "0 < ps" "ds + ps \<le> MaxShardCount" "0 < ss" "ss \<le> MaxChunkDataSize"
      "payload \<noteq> []" "int (length payload) \<le> MaxBundleBytes" "int (length payload) \<le> ds * ss"
    and bounds: "ds \<le> 129" "ps \<le> 127"
    and sub: "set rx \<subseteq> mkChunk sha payload ds ps ss ` {0..<nat (ds + ps)}"
    and card: "nat ds \<le> card (Index ` set rx)"
  shows "ReconstructErasurePayload sha rx = Inr payload"
proof -
  let ?rows = "map nat (take (nat ds) (sort (remdups (map Index rx))))"
  have "set (map Index rx) \<subseteq> int ` {0..<nat ds + nat ps}" using sub mat by (auto simp: nat_add_distrib)
  moreover have "nat ds \<le> card (set (map Index rx))" using card by simp
  ultimately have rows: "distinct ?rows" "length ?rows = nat ds" "set ?rows \<subseteq> {..<nat ds + nat ps}"
    by (rule sorted_rows_facts)+
  have dec: "decodeShards (nat ds) (nat ss) ?rows (map (encodedShard payload (nat ss) (nat ds)) ?rows)
      = Inr (concat (map (dataShard payload (nat ss)) [0..<nat ds]))"
    using rows by (rule decodeShards_encoded) (use mat bounds in auto)
  have "length payload \<le> nat ds * nat ss" using mat by (simp add: nat_mult_distrib[symmetric])
  then have "take (length payload) (concat (map (dataShard payload (nat ss)) [0..<nat ds])) = payload"
    by (rule concat_dataShards)
  moreover have "rx \<noteq> []" using card mat(1) by auto
  ultimately show ?thesis
    using ReconstructErasurePayload_mkChunk[OF mat sub] card dec by simp
qed

text \<open>
  C1. Any \<open>n\<close> distinct chunks of an encoding with \<open>n\<close> data chunks, \<open>n \<le> 129\<close>, and at most 127 parity
  chunks reconstruct the payload exactly, in any order and with any repetitions.
\<close>

theorem reconstruct_encoded:
  assumes enc: "EncodeErasureChunks sha payload opt = Inr cs"
    and rx: "set rx \<subseteq> set cs" "c \<in> set rx" "DataShards c \<le> int (card (Index ` set rx))"
    and bounds: "DataShards c \<le> 129" "ParityShards c \<le> 127"
  shows "ReconstructErasurePayload sha rx = Inr payload"
proof -
  obtain ds ps ss where cs: "cs = map (mkChunk sha payload ds ps ss) [0..<nat (ds + ps)]"
    and mat: "0 < ds" "0 < ps" "ds + ps \<le> MaxShardCount" "0 < ss" "ss \<le> MaxChunkDataSize"
      "payload \<noteq> []" "int (length payload) \<le> MaxBundleBytes" "int (length payload) \<le> ds * ss"
    using EncodeErasureChunks_Inr[OF enc] by metis
  have "set rx \<subseteq> mkChunk sha payload ds ps ss ` {0..<nat (ds + ps)}" using rx(1) cs by auto
  moreover from this have "DataShards c = ds" "ParityShards c = ps" using rx(2) by auto
  ultimately show ?thesis using rx(3) bounds by (intro reconstruct_mkChunk[OF mat]) auto
qed

theorem reconstruct_encoded_witness:
  "\<exists>cs. EncodeErasureChunks (\<lambda>_. replicate 32 7) [10, 20, 30] \<lparr>optDataShards = 2, optParityShards = 2, optShardSize = 2\<rparr> = Inr cs \<and>
     ReconstructErasurePayload (\<lambda>_. replicate 32 7) [cs ! 3, cs ! 2, cs ! 3] = Inr [10, 20, 30]"
proof -
  let ?sha = "\<lambda>_ :: bytes. replicate 32 (7 :: byte)"
  let ?opt = "\<lparr>optDataShards = 2, optParityShards = 2, optShardSize = 2\<rparr>"
  let ?cs = "map (mkChunk ?sha [10, 20, 30] 2 2 2) [0..<4]"
  have "EncodeErasureChunks ?sha [10, 20, 30] ?opt = Inr ?cs"
    by (simp add: EncodeErasureChunks_def chunk_consts)
  moreover from this have "ReconstructErasurePayload ?sha [?cs ! 3, ?cs ! 2, ?cs ! 3] = Inr [10, 20, 30]"
    by (rule reconstruct_encoded[where c = "?cs ! 3"]) (auto simp: card_insert_if)
  ultimately show ?thesis by blast
qed

text \<open>
  Outside those bounds the byte arithmetic of \<^verbatim>\<open>codingRow\<close> wraps: for every encoding with at least 130
  data chunks or at least 128 parity chunks there are \<open>n\<close> distinct chunks that are all valid and still
  refused as unrecoverable.
\<close>

theorem reconstruct_encoded_collision:
  assumes enc: "EncodeErasureChunks sha payload opt = Inr cs" and c0: "c0 \<in> set cs"
    and big: "130 \<le> DataShards c0 \<or> 128 \<le> ParityShards c0"
  shows "\<exists>rx. set rx \<subseteq> set cs \<and> int (card (Index ` set rx)) = DataShards c0 \<and>
    ReconstructErasurePayload sha rx = Inl ErrChunkUnrecoverable"
proof -
  obtain ds ps ss where cs: "cs = map (mkChunk sha payload ds ps ss) [0..<nat (ds + ps)]"
    and mat: "0 < ds" "0 < ps" "ds + ps \<le> MaxShardCount" "0 < ss" "ss \<le> MaxChunkDataSize"
      "payload \<noteq> []" "int (length payload) \<le> MaxBundleBytes" "int (length payload) \<le> ds * ss"
    using EncodeErasureChunks_Inr[OF enc] by metis
  have c: "DataShards c0 = ds" "ParityShards c0 = ps" using c0 cs by auto
  obtain col p where cp: "col < nat ds" "nat ds \<le> p" "p < nat ds + nat ps" "codingRow p (nat ds) ! col = 0"
  proof -
    have "130 \<le> nat ds \<or> 128 \<le> nat ps" "0 < nat ds" "0 < nat ps" "nat ds + nat ps \<le> 255"
      using big c mat(1-3) by (auto simp: chunk_consts)
    from codingRow_collision[OF this] that show thesis by blast
  qed
  define idx where "idx = filter (\<lambda>i. i \<noteq> col) [0..<nat ds] @ [p]"
  note sing = coding_matrix_singular[OF cp(1,2,4) idx_def]
  define rx where "rx = map (mkChunk sha payload ds ps ss) idx"
  have idx: "set idx \<subseteq> {0..<nat (ds + ps)}" "distinct idx" "sorted idx"
    using cp mat by (auto simp: idx_def nat_add_distrib sorted_append intro: sorted_wrt_filter)
  have Index_rx: "map Index rx = map int idx" by (simp add: rx_def)
  have sub: "set rx \<subseteq> mkChunk sha payload ds ps ss ` {0..<nat (ds + ps)}" using idx(1) by (auto simp: rx_def)
  have card: "card (Index ` set rx) = nat ds"
    using idx(2) sing(1) by (metis Index_rx distinct_card distinct_map inj_on_of_nat length_map list.set_map)
  have rows: "map nat (take (nat ds) (sort (remdups (map Index rx)))) = idx"
  proof -
    have "sort (remdups (map int idx)) = map int idx"
      using idx(2,3) by (simp add: distinct_map inj_on_def distinct_remdups_id sorted_sort_id sorted_map sorted_wrt_map)
    then show ?thesis using sing(1) by (simp add: Index_rx comp_def)
  qed
  have "invertMatrix (coding_matrix (nat ds) idx) = Inl ErrChunkUnrecoverable"
    using coding_matrix_shape[OF sing(1)] _ sing(2) by (rule invertMatrix_singular) (use mat in simp)
  then have "ReconstructErasurePayload sha rx = Inl ErrChunkUnrecoverable"
    using ReconstructErasurePayload_mkChunk[OF mat sub] card rows by (auto simp: rx_def idx_def decodeShards_def)
  then show ?thesis using sub card c mat cs by (intro exI[of _ rx]) auto
qed

theorem reconstruct_encoded_collision_witness:
  "\<exists>cs rx. EncodeErasureChunks (\<lambda>_. replicate 32 7) [10] \<lparr>optDataShards = 130, optParityShards = 1, optShardSize = 1\<rparr> = Inr cs \<and>
     set rx \<subseteq> set cs \<and> card (Index ` set rx) = 130 \<and>
     ReconstructErasurePayload (\<lambda>_. replicate 32 7) rx = Inl ErrChunkUnrecoverable"
proof -
  let ?sha = "\<lambda>_ :: bytes. replicate 32 (7 :: byte)"
  let ?opt = "\<lparr>optDataShards = 130, optParityShards = 1, optShardSize = 1\<rparr>"
  let ?cs = "map (mkChunk ?sha [10] 130 1 1) [0..<131]"
  have enc: "EncodeErasureChunks ?sha [10] ?opt = Inr ?cs"
    by (simp add: EncodeErasureChunks_def chunk_consts del: upt_rec_numeral)
  have "mkChunk ?sha [10] 130 1 1 0 \<in> set ?cs" by (simp del: upt_rec_numeral)
  from reconstruct_encoded_collision[OF enc this] enc show ?thesis by auto
qed

section \<open>The wire forms\<close>

text \<open>The array lengths that the Go types \<^verbatim>\<open>[16]byte\<close> and \<^verbatim>\<open>[32]byte\<close> fix.\<close>

definition wf_chunk :: "EncodedChunk \<Rightarrow> bool" where
  "wf_chunk c \<longleftrightarrow> length (BundleID c) = 16 \<and> length (PayloadSHA256 c) = 32 \<and> length (ChunkSHA256 c) = 32"

lemma Validate_Inr [simp]:
  "Validate c = Inr u \<longleftrightarrow> 0 < DataShards c \<and> 0 < ParityShards c \<and> DataShards c + ParityShards c \<le> MaxShardCount \<and>
     0 \<le> Index c \<and> Index c < DataShards c + ParityShards c \<and> 0 < PayloadSize c \<and> PayloadSize c \<le> MaxBundleBytes \<and>
     0 < ShardSize c \<and> ShardSize c \<le> MaxChunkDataSize \<and> int (length (Data c)) = ShardSize c \<and>
     PayloadSize c \<le> DataShards c * ShardSize c"
  by (auto simp: Validate_def Let_def not_le not_less)

lemma Validate_error: "Validate c = Inl e \<Longrightarrow> e = ErrChunkInvalid"
  by (auto simp: Validate_def Let_def split: if_splits)

lemma length_put [simp]: "length (putU16Chunk v) = 2" "length (putU32Chunk v) = 4"
  by (simp_all add: putU16Chunk_def putU32Chunk_def)

lemma get_put: "int (be_nat (putU16Chunk v)) = v mod 65536" "int (be_nat (putU32Chunk v)) = v mod 4294967296"
  by (simp_all add: putU16Chunk_def putU32Chunk_def be_nat_be_bytes nat_mod_distrib[symmetric])

lemma put_get: "length bs = 2 \<Longrightarrow> putU16Chunk (int (be_nat bs)) = bs" "length ds = 4 \<Longrightarrow> putU32Chunk (int (be_nat ds)) = ds"
  using be_nat_less[of bs] be_nat_less[of ds]
  by (simp_all add: putU16Chunk_def putU32Chunk_def be_bytes_be_nat nat_mod_distrib)

lemma length_chunkHeader: "wf_chunk c \<Longrightarrow> length (chunkHeader c) = 66"
  by (simp add: wf_chunk_def chunkHeader_def ChunkMagic_def)

lemma chunkHeader_fields:
  assumes wf: "wf_chunk c"
  defines "raw \<equiv> chunkHeader c @ ChunkSHA256 c @ Data c"
  shows "slice 0 4 raw = ChunkMagic" "raw ! 4 = ChunkVersion" "slice 6 22 raw = BundleID c"
    "slice 22 24 raw = putU16Chunk (Index c)" "slice 24 26 raw = putU16Chunk (DataShards c)"
    "slice 26 28 raw = putU16Chunk (ParityShards c)" "slice 28 32 raw = putU32Chunk (PayloadSize c)"
    "slice 32 34 raw = putU16Chunk (ShardSize c)" "slice 34 66 raw = PayloadSHA256 c"
    "slice 66 98 raw = ChunkSHA256 c" "drop 98 raw = Data c"
  using wf by (simp_all add: wf_chunk_def raw_def chunkHeader_def ChunkMagic_def slice_def nth_append)

lemma ParseEncodedChunk_wire:
  assumes wf: "wf_chunk c" and ok: "Validate c = Inr ()"
  shows "ParseEncodedChunk sha (chunkHeader c @ ChunkSHA256 c @ Data c) =
    (if ShardSize c = 65536 then Inl ErrChunkInvalid
     else if computeChecksum sha c \<noteq> ChunkSHA256 c then Inl ErrChunkChecksum else Inr c)"
proof -
  have small: "Index c mod 65536 = Index c" "DataShards c mod 65536 = DataShards c"
    "ParityShards c mod 65536 = ParityShards c" "PayloadSize c mod 4294967296 = PayloadSize c"
    using ok by (auto simp: chunk_consts)
  have len: "\<not> length (chunkHeader c @ ChunkSHA256 c @ Data c) < ChunkHeaderSize"
    using wf by (simp add: length_chunkHeader ChunkHeaderSize_def) (simp add: wf_chunk_def)
  let ?c = "c\<lparr>ShardSize := ShardSize c mod 65536\<rparr>"
  have "ParseEncodedChunk sha (chunkHeader c @ ChunkSHA256 c @ Data c) =
      rbind (Validate ?c) (\<lambda>_. if computeChecksum sha ?c \<noteq> ChunkSHA256 ?c then Inl ErrChunkChecksum else Inr ?c)"
  proof -
    have upd: "?c = \<lparr>BundleID = BundleID c, Index = Index c, DataShards = DataShards c,
        ParityShards = ParityShards c, PayloadSize = PayloadSize c, ShardSize = ShardSize c mod 65536,
        PayloadSHA256 = PayloadSHA256 c, ChunkSHA256 = ChunkSHA256 c, Data = Data c\<rparr>"
      by (cases c) simp
    show ?thesis
      unfolding ParseEncodedChunk_def chunkHeader_fields[OF wf] get_put small Let_def upd
      using len by (simp only: if_False refl simp_thms)
  qed
  moreover have "Validate ?c = Inl ErrChunkInvalid" if "ShardSize c = 65536"
    using that ok by (simp add: Validate_def Let_def)
  moreover have "?c = c" if "ShardSize c \<noteq> 65536"
    using that ok by (simp add: chunk_consts)
  ultimately show ?thesis
    by (cases "ShardSize c = 65536") (simp_all add: ok del: Validate_Inr)
qed

lemma chunk_wire:
  assumes "wf_chunk c" "Validate c = Inr ()" "computeChecksum sha c = ChunkSHA256 c" "ShardSize c \<noteq> MaxChunkDataSize"
  obtains raw where "MarshalBinary c = Inr raw" "ParseEncodedChunk sha raw = Inr c" "raw \<noteq> []"
    "EncodeText c = Inr (chunkTextPrefix @ EncodeToString raw)" "ParseEncodedChunkText sha (chunkTextPrefix @ EncodeToString raw) = Inr c"
proof -
  let ?raw = "chunkHeader c @ ChunkSHA256 c @ Data c"
  have marshal: "MarshalBinary c = Inr ?raw"
    using assms(2) by (simp only: MarshalBinary_def rbind.simps)
  have parse: "ParseEncodedChunk sha ?raw = Inr c"
    using assms by (simp add: ParseEncodedChunk_wire MaxChunkDataSize_def)
  have ne: "?raw \<noteq> []" using length_chunkHeader[OF assms(1)] by auto
  then have "ParseEncodedChunkText sha (chunkTextPrefix @ EncodeToString ?raw) = Inr c"
    by (auto simp add: ParseEncodedChunkText_def parse simp del: append_is_Nil_conv)
  with marshal parse ne show thesis by (intro that[of ?raw]) (simp_all add: EncodeText_def)
qed

text \<open>
  A valid chunk with a correct checksum and a shard size that fits its 16-bit field survives
  the binary and the text form.
\<close>

theorem chunk_text_roundtrip:
  assumes "wf_chunk c" "Validate c = Inr ()" "computeChecksum sha c = ChunkSHA256 c" "ShardSize c \<noteq> MaxChunkDataSize"
  shows "rbind (MarshalBinary c) (ParseEncodedChunk sha) = Inr c \<and>
    rbind (EncodeText c) (ParseEncodedChunkText sha) = Inr c"
  using chunk_wire[OF assms] by (metis rbind.simps(2))

theorem chunk_text_roundtrip_witness:
  "let c = mkChunk (\<lambda>_. replicate 32 7) [10, 20, 30] 2 1 2 0
   in rbind (MarshalBinary c) (ParseEncodedChunk (\<lambda>_. replicate 32 7)) = Inr c \<and>
      rbind (EncodeText c) (ParseEncodedChunkText (\<lambda>_. replicate 32 7)) = Inr c"
  unfolding Let_def
  by (rule chunk_text_roundtrip)
    (simp_all add: wf_chunk_def mkChunk_checksum chunk_consts, simp_all add: computeChecksum_def)

text \<open>
  A shard of exactly \<^verbatim>\<open>MaxChunkDataSize\<close> bytes passes \<^verbatim>\<open>Validate\<close> and is marshalled, but its size is
  written as 0, so no receiver accepts the bytes.
\<close>

theorem chunk_max_size_unparsable:
  assumes "wf_chunk c" "Validate c = Inr ()" "ShardSize c = MaxChunkDataSize"
  shows "\<exists>raw. MarshalBinary c = Inr raw \<and> ParseEncodedChunk sha raw = Inl ErrChunkInvalid"
proof -
  have "MarshalBinary c = Inr (chunkHeader c @ ChunkSHA256 c @ Data c)"
    using assms(2) by (simp only: MarshalBinary_def rbind.simps)
  then show ?thesis using assms by (simp add: ParseEncodedChunk_wire MaxChunkDataSize_def)
qed

theorem chunk_max_size_unparsable_witness:
  "\<exists>raw. MarshalBinary (mkChunk (\<lambda>_. replicate 32 7) [10, 20, 30] 2 1 65536 0) = Inr raw \<and>
     ParseEncodedChunk (\<lambda>_. replicate 32 7) raw = Inl ErrChunkInvalid"
  by (rule chunk_max_size_unparsable)
    (simp_all add: wf_chunk_def mkChunk_checksum chunk_consts, simp_all add: computeChecksum_def)

text \<open>
  Everything the parser accepts is a valid chunk with a matching checksum whose canonical
  encoding is the input with the flags byte cleared: the flags byte is the only freedom.
\<close>

theorem chunk_parse_canonical:
  assumes "ParseEncodedChunk sha raw = Inr c"
  shows "wf_chunk c \<and> Validate c = Inr () \<and> computeChecksum sha c = ChunkSHA256 c \<and>
    MarshalBinary c = Inr (raw[5 := 0])"
proof -
  have len: "98 \<le> length raw" and magic: "slice 0 4 raw = ChunkMagic" "raw ! 4 = ChunkVersion"
    using assms by (auto simp: ParseEncodedChunk_def ChunkHeaderSize_def split: if_splits)
  let ?c = "\<lparr>BundleID = slice 6 22 raw, Index = int (be_nat (slice 22 24 raw)),
      DataShards = int (be_nat (slice 24 26 raw)), ParityShards = int (be_nat (slice 26 28 raw)),
      PayloadSize = int (be_nat (slice 28 32 raw)), ShardSize = int (be_nat (slice 32 34 raw)),
      PayloadSHA256 = slice 34 66 raw, ChunkSHA256 = slice 66 98 raw, Data = drop 98 raw\<rparr>"
  have "rbind (Validate ?c) (\<lambda>_. if computeChecksum sha ?c \<noteq> ChunkSHA256 ?c then Inl ErrChunkChecksum else Inr ?c) = Inr c"
    using assms len magic unfolding ParseEncodedChunk_def Let_def ChunkHeaderSize_def by (simp del: Validate_Inr)
  then have c: "c = ?c" and ok: "Validate c = Inr ()" and sum: "computeChecksum sha c = ChunkSHA256 c"
    by (auto simp del: Validate_Inr split: if_splits)
  have "raw[5 := 0] = slice 0 4 raw @ [raw ! 4, 0] @ slice 6 22 raw @ slice 22 24 raw @ slice 24 26 raw @
      slice 26 28 raw @ slice 28 32 raw @ slice 32 34 raw @ slice 34 66 raw @ slice 66 98 raw @ drop 98 raw"
  proof -
    have "raw[5 := 0] = take 5 raw @ 0 # drop 6 raw" using len by (simp add: upd_conv_take_nth_drop)
    also have "take 5 raw = slice 0 4 raw @ [raw ! 4]" using len take_Suc_conv_app_nth[of 4 raw] by (simp add: slice_def)
    finally show ?thesis
      by (simp add: drop_slice[of 6 22] drop_slice[of 22 24] drop_slice[of 24 26] drop_slice[of 26 28]
          drop_slice[of 28 32] drop_slice[of 32 34] drop_slice[of 34 66] drop_slice[of 66 98])
  qed
  then have "chunkHeader c @ ChunkSHA256 c @ Data c = raw[5 := 0]"
    using len by (simp add: c chunkHeader_def magic put_get)
  moreover have "wf_chunk c" using len by (simp add: c wf_chunk_def)
  ultimately show ?thesis using ok sum by (simp add: MarshalBinary_def del: Validate_Inr)
qed

theorem chunk_parse_canonical_witness:
  "\<exists>c. ParseEncodedChunk (\<lambda>_. replicate 32 7)
      (ChunkMagic @ [1, 9] @ replicate 16 7 @ [0, 0, 0, 1, 0, 1, 0, 0, 0, 1, 0, 1] @ replicate 64 7 @ [42]) = Inr c \<and>
    MarshalBinary c = Inr (ChunkMagic @ [1, 0] @ replicate 16 7 @ [0, 0, 0, 1, 0, 1, 0, 0, 0, 1, 0, 1] @ replicate 64 7 @ [42])"
proof -
  let ?sha = "\<lambda>_ :: bytes. replicate 32 (7 :: byte)"
  let ?raw = "ChunkMagic @ [1, 9] @ replicate 16 7 @ [0, 0, 0, 1, 0, 1, 0, 0, 0, 1, 0, 1] @ replicate 64 7 @ [42]"
  let ?c = "\<lparr>BundleID = replicate 16 7, Index = 0, DataShards = 1, ParityShards = 1, PayloadSize = 1, ShardSize = 1,
    PayloadSHA256 = replicate 32 7, ChunkSHA256 = replicate 32 7, Data = [42]\<rparr>"
  have "ParseEncodedChunk ?sha ?raw = Inr ?c"
    by (simp add: ParseEncodedChunk_def Let_def chunk_consts slice_def nth_append be_nat_def computeChecksum_def)
  moreover from chunk_parse_canonical[OF this] have "MarshalBinary ?c = Inr (?raw[5 := 0])" by blast
  ultimately show ?thesis by (auto simp: ChunkMagic_def)
qed

section \<open>The reassembler\<close>

text \<open>
  \<^verbatim>\<open>ChunkReassembler\<close>: one \<^verbatim>\<open>chunkPartial\<close> per bundle id. Times are nanoseconds. The zero time that
  \<^verbatim>\<open>AddChunk\<close> and \<^verbatim>\<open>Sweep\<close> replace by a clock read is left to the caller: \<open>now\<close> is the instant that is
  used. The mutex makes every operation atomic. \<open>order\<close> is the order in which the range loop
  visits the chunks of a partial.
\<close>

type_synonym chunk_map = "(int \<times> EncodedChunk) list"

record chunkPartial =
  meta :: EncodedChunk
  chunks :: chunk_map
  chunkBytes :: int
  updatedAt :: int

record ChunkReassembler =
  partials :: "(bytes \<times> chunkPartial) list"
  maxBytes :: int
  staleAfter :: int

definition DefaultMaxCacheByte :: int where "DefaultMaxCacheByte = 2097152"

definition NewChunkReassembler :: "int \<Rightarrow> int \<Rightarrow> ChunkReassembler" where
  "NewChunkReassembler mb stale =
     \<lparr>partials = [], maxBytes = (if mb \<le> 0 then DefaultMaxCacheByte else mb),
      staleAfter = (if stale \<le> 0 then 600000000000 else stale)\<rparr>"

text \<open>The outcome \<open>Inr None\<close> is \<^verbatim>\<open>(nil, false, nil)\<close>, \<open>Inr (Some payload)\<close> is \<^verbatim>\<open>(payload, true, nil)\<close>.\<close>

definition AddChunk ::
    "(bytes \<Rightarrow> bytes) \<Rightarrow> (chunk_map \<Rightarrow> chunk_map) \<Rightarrow> EncodedChunk \<Rightarrow> int \<Rightarrow> ChunkReassembler \<Rightarrow>
     ChunkReassembler \<times> (chunk_error + bytes option)" where
  "AddChunk sha order c now r =
     (let p0 = (case map_of (partials r) (BundleID c) of Some p \<Rightarrow> p
                | None \<Rightarrow> \<lparr>meta = c, chunks = [], chunkBytes = 0, updatedAt = now\<rparr>);
          dropped = r\<lparr>partials := AList.delete (BundleID c) (partials r)\<rparr>;
          size = int (length (Data c)) + int ChunkHeaderSize;
          dup = map_of (chunks p0) (Index c) \<noteq> None
      in if \<not> sameMatrix c (meta p0) then (dropped, Inl ErrChunkInvalid)
         else if \<not> dup \<and> chunkBytes p0 + size > maxBytes r then (dropped, Inl ErrChunkCacheLimit)
         else let p1 = (if dup then p0
                        else p0\<lparr>chunks := AList.update (Index c) c (chunks p0), chunkBytes := chunkBytes p0 + size\<rparr>);
                  p2 = p1\<lparr>updatedAt := now\<rparr>
              in if int (length (chunks p2)) < DataShards (meta p2)
                 then (r\<lparr>partials := AList.update (BundleID c) p2 (partials r)\<rparr>, Inr None)
                 else (dropped, rbind (ReconstructErasurePayload sha (map snd (order (chunks p2)))) (\<lambda>payload. Inr (Some payload))))"

definition Add ::
    "(bytes \<Rightarrow> bytes) \<Rightarrow> (chunk_map \<Rightarrow> chunk_map) \<Rightarrow> bytes \<Rightarrow> int \<Rightarrow> ChunkReassembler \<Rightarrow>
     ChunkReassembler \<times> (chunk_error + bytes option)" where
  "Add sha order raw now r =
     (case ParseEncodedChunk sha raw of Inl e \<Rightarrow> (r, Inl e) | Inr c \<Rightarrow> AddChunk sha order c now r)"

definition Sweep :: "int \<Rightarrow> ChunkReassembler \<Rightarrow> ChunkReassembler \<times> nat" where
  "Sweep now r =
     (let stale = (\<lambda>p. now - updatedAt p \<ge> staleAfter r)
      in (r\<lparr>partials := filter (\<lambda>(bid, p). \<not> stale p) (partials r)\<rparr>,
          length (filter (\<lambda>(bid, p). stale p) (partials r))))"

text \<open>The invariant of a partial, and of the reassembler.\<close>

definition partial_ok :: "int \<Rightarrow> bytes \<Rightarrow> chunkPartial \<Rightarrow> bool" where
  "partial_ok mb bid p \<longleftrightarrow> BundleID (meta p) = bid \<and> distinct (map fst (chunks p)) \<and>
     (\<forall>(i, c) \<in> set (chunks p). Index c = i \<and> sameMatrix c (meta p)) \<and>
     chunkBytes p = (\<Sum>(i, c) \<leftarrow> chunks p. int (length (Data c)) + int ChunkHeaderSize) \<and>
     chunkBytes p \<le> mb \<and> int (length (chunks p)) < DataShards (meta p)"

definition reassembler_ok :: "ChunkReassembler \<Rightarrow> bool" where
  "reassembler_ok r \<longleftrightarrow> distinct (map fst (partials r)) \<and> 0 < maxBytes r \<and> 0 < staleAfter r \<and>
     (\<forall>(bid, p) \<in> set (partials r). partial_ok (maxBytes r) bid p)"

text \<open>The state after looking the partial up, and after storing the chunk.\<close>

definition partial_for :: "EncodedChunk \<Rightarrow> int \<Rightarrow> ChunkReassembler \<Rightarrow> chunkPartial" where
  "partial_for c now r = (case map_of (partials r) (BundleID c) of Some p \<Rightarrow> p
     | None \<Rightarrow> \<lparr>meta = c, chunks = [], chunkBytes = 0, updatedAt = now\<rparr>)"

definition store_chunk :: "EncodedChunk \<Rightarrow> int \<Rightarrow> chunkPartial \<Rightarrow> chunkPartial" where
  "store_chunk c now p =
     (if map_of (chunks p) (Index c) \<noteq> None then p
      else p\<lparr>chunks := chunks p @ [(Index c, c)], chunkBytes := chunkBytes p + (int (length (Data c)) + int ChunkHeaderSize)\<rparr>)
        \<lparr>updatedAt := now\<rparr>"

lemma AddChunk_eq:
  fixes c now r
  defines "p \<equiv> partial_for c now r"
  shows "AddChunk sha order c now r =
    (if \<not> sameMatrix c (meta p) then (r\<lparr>partials := AList.delete (BundleID c) (partials r)\<rparr>, Inl ErrChunkInvalid)
     else if map_of (chunks p) (Index c) = None \<and> chunkBytes (store_chunk c now p) > maxBytes r
     then (r\<lparr>partials := AList.delete (BundleID c) (partials r)\<rparr>, Inl ErrChunkCacheLimit)
     else if int (length (chunks (store_chunk c now p))) < DataShards (meta p)
     then (r\<lparr>partials := AList.update (BundleID c) (store_chunk c now p) (partials r)\<rparr>, Inr None)
     else (r\<lparr>partials := AList.delete (BundleID c) (partials r)\<rparr>,
       rbind (ReconstructErasurePayload sha (map snd (order (chunks (store_chunk c now p))))) (\<lambda>payload. Inr (Some payload))))"
  unfolding AddChunk_def Let_def p_def partial_for_def[symmetric]
  by (auto simp: store_chunk_def update_absent)

text \<open>What \<open>store_chunk\<close> keeps: the partial stays consistent, whatever the limits say.\<close>

definition partial_consistent :: "bytes \<Rightarrow> chunkPartial \<Rightarrow> bool" where
  "partial_consistent bid p \<longleftrightarrow> BundleID (meta p) = bid \<and> distinct (map fst (chunks p)) \<and>
     (\<forall>(i, c) \<in> set (chunks p). Index c = i \<and> sameMatrix c (meta p)) \<and>
     chunkBytes p = (\<Sum>(i, c) \<leftarrow> chunks p. int (length (Data c)) + int ChunkHeaderSize)"

lemma partial_ok_iff: "partial_ok mb bid p \<longleftrightarrow> partial_consistent bid p \<and> chunkBytes p \<le> mb \<and>
    int (length (chunks p)) < DataShards (meta p)"
  by (auto simp: partial_ok_def partial_consistent_def)

lemma partial_for_consistent:
  "reassembler_ok r \<Longrightarrow> partial_consistent (BundleID c) (partial_for c now r) \<and> chunkBytes (partial_for c now r) \<le> maxBytes r"
  by (auto simp: reassembler_ok_def partial_for_def partial_ok_iff partial_consistent_def split: option.splits dest!: alist_lookup_in)

lemma store_chunk_meta [simp]: "meta (store_chunk c now p) = meta p"
  by (simp add: store_chunk_def)

lemma store_chunk_consistent:
  assumes "partial_consistent bid p" "sameMatrix c (meta p)"
  shows "partial_consistent bid (store_chunk c now p)"
  using assms by (auto simp: partial_consistent_def store_chunk_def map_of_eq_None_iff)

lemma AddChunk_keeps [go_inv]:
  assumes ok: "reassembler_ok r"
  shows "reassembler_ok (fst (AddChunk sha order c now r))"
proof -
  let ?p = "partial_for c now r"
  have del: "reassembler_ok (r\<lparr>partials := AList.delete (BundleID c) (partials r)\<rparr>)"
    using ok set_delete_subset[of "BundleID c" "partials r"] by (auto simp: reassembler_ok_def AList.distinct_delete)
  have upd: "reassembler_ok (r\<lparr>partials := AList.update (BundleID c) q (partials r)\<rparr>)"
    if "partial_ok (maxBytes r) (BundleID c) q" for q
    using ok that set_update_subset[of "BundleID c" q "partials r"]
    by (auto simp: reassembler_ok_def AList.distinct_update)
  have "partial_ok (maxBytes r) (BundleID c) (store_chunk c now ?p)"
    if "sameMatrix c (meta ?p)" "\<not> (map_of (chunks ?p) (Index c) = None \<and> chunkBytes (store_chunk c now ?p) > maxBytes r)"
      "int (length (chunks (store_chunk c now ?p))) < DataShards (meta ?p)"
  proof -
    have "chunkBytes (store_chunk c now ?p) \<le> maxBytes r"
      using that(2) partial_for_consistent[OF ok, of c now] by (auto simp: store_chunk_def)
    then show ?thesis
      using partial_for_consistent[OF ok, of c now] store_chunk_consistent that by (simp add: partial_ok_iff)
  qed
  then show ?thesis by (auto simp: AddChunk_eq del upd)
qed

lemma Add_keeps [go_inv]: "reassembler_ok r \<Longrightarrow> reassembler_ok (fst (Add sha order raw now r))"
  by (auto simp: Add_def go_inv split: sum.splits)

lemma Sweep_keeps [go_inv]: "reassembler_ok r \<Longrightarrow> reassembler_ok (fst (Sweep now r))"
  by (auto simp: Sweep_def Let_def reassembler_ok_def distinct_keys_filter)

lemma NewChunkReassembler_ok: "reassembler_ok (NewChunkReassembler mb stale)"
  by (simp add: reassembler_ok_def NewChunkReassembler_def DefaultMaxCacheByte_def)

text \<open>The reassembler as a state machine over its three entry points.\<close>

datatype reassembler_op = DoAdd bytes int | DoAddChunk EncodedChunk int | DoSweep int

fun reassembler_step ::
    "(bytes \<Rightarrow> bytes) \<Rightarrow> (chunk_map \<Rightarrow> chunk_map) \<Rightarrow> reassembler_op \<Rightarrow> ChunkReassembler \<Rightarrow>
     ChunkReassembler \<times> (chunk_error + bytes option)" where
  "reassembler_step sha order (DoAdd raw now) r = Add sha order raw now r"
| "reassembler_step sha order (DoAddChunk c now) r = AddChunk sha order c now r"
| "reassembler_step sha order (DoSweep now) r = (fst (Sweep now r), Inr None)"

interpretation reassembler: state_machine "reassembler_step sha order" reassembler_ok
proof
  show "reassembler_ok r \<Longrightarrow> reassembler_ok (fst (reassembler_step sha order x r))" for r x
    by (cases x) (simp_all add: go_inv)
qed

text \<open>
  In every state the reassembler can reach, each bundle's stored chunks (headers included) stay within the
  byte limit, are fewer than its data shards and carry one header; the limit is per bundle.
\<close>

theorem reassembler_bounded:
  "list_all (\<lambda>(bid, p). (\<Sum>(i, c) \<leftarrow> chunks p. int (length (Data c)) + int ChunkHeaderSize)
        \<le> (if mb \<le> 0 then DefaultMaxCacheByte else mb) \<and>
      int (length (chunks p)) < DataShards (meta p) \<and>
      list_all (\<lambda>(i, c). Index c = i \<and> BundleID c = bid \<and> sameMatrix c (meta p)) (chunks p))
    (partials (fst (run (reassembler_step sha order) ops (NewChunkReassembler mb stale))))"
proof -
  let ?r = "fst (run (reassembler_step sha order) ops (NewChunkReassembler mb stale))"
  have ok: "reassembler_ok ?r"
    by (rule reassembler.run_inv[OF NewChunkReassembler_ok])
  have "maxBytes ?r = (if mb \<le> 0 then DefaultMaxCacheByte else mb)"
  proof -
    have "maxBytes (fst (reassembler_step sha order x r)) = maxBytes r" for x r
      by (cases x) (auto simp: Add_def AddChunk_eq Sweep_def Let_def split: sum.splits)
    then have "maxBytes (fst (run (reassembler_step sha order) ops r)) = maxBytes r" for r
      by (induction ops arbitrary: r) (auto simp: Let_def)
    then show ?thesis by (simp add: NewChunkReassembler_def)
  qed
  with ok show ?thesis
    by (auto simp: reassembler_ok_def partial_ok_def list_all_iff sameMatrix_def split_beta)
qed

lemma length_decodeShards: "decodeShards n k idx shards = Inr d \<Longrightarrow> length d = n * k"
  by (auto simp: decodeShards_def intro!: trans[OF length_concat_uniform[where k = k]])

lemma ReconstructErasurePayload_integrity:
  assumes "ReconstructErasurePayload sha xs = Inr p"
  obtains b cs where "xs = b # cs" "sha p = PayloadSHA256 b" "take 16 (sha p) = BundleID b"
    "int (length p) = PayloadSize b"
proof -
  obtain b cs where xs: "xs = b # cs"
    using assms by (cases xs) (auto simp: ReconstructErasurePayload_def)
  obtain idx shards d where ok: "Validate b = Inr ()"
    and d: "decodeShards (nat (DataShards b)) (nat (ShardSize b)) idx shards = Inr d"
    and p: "p = take (nat (PayloadSize b)) d" "sha p = PayloadSHA256 b" "take 16 (sha p) = BundleID b"
    using assms unfolding xs ReconstructErasurePayload_def
    by (auto simp: Let_def simp del: Validate_Inr rfold.simps split: if_splits)
  have "PayloadSize b \<le> int (length d)"
    using ok length_decodeShards[OF d] by simp
  then have "int (length p) = PayloadSize b" using ok p(1) by simp
  with that xs p show thesis by blast
qed

lemma AddChunk_integrity:
  assumes ok: "reassembler_ok r" and order: "\<And>m. set (order m) = set m"
    and res: "snd (AddChunk sha order c now r) = Inr (Some payload)"
  shows "sha payload = PayloadSHA256 c \<and> take 16 (sha payload) = BundleID c \<and> int (length payload) = PayloadSize c"
proof -
  define q where "q = store_chunk c now (partial_for c now r)"
  have same: "sameMatrix c (meta q)" and rec: "ReconstructErasurePayload sha (map snd (order (chunks q))) = Inr payload"
    using res by (auto simp: AddChunk_eq q_def split: if_splits)
  obtain b cs where b: "map snd (order (chunks q)) = b # cs" "sha payload = PayloadSHA256 b"
      "take 16 (sha payload) = BundleID b" "int (length payload) = PayloadSize b"
    using ReconstructErasurePayload_integrity[OF rec] by metis
  have "b \<in> snd ` set (chunks q)" using b(1) order by (metis list.set_intros(1) list.set_map)
  moreover have "partial_consistent (BundleID c) q"
    unfolding q_def using partial_for_consistent[OF ok] same
    by (auto intro!: store_chunk_consistent simp: q_def)
  ultimately have "sameMatrix b (meta q)" by (auto simp: partial_consistent_def)
  with same b show ?thesis by (simp add: sameMatrix_def)
qed

text \<open>The chunk an operation offers.\<close>

fun offered :: "(bytes \<Rightarrow> bytes) \<Rightarrow> reassembler_op \<Rightarrow> EncodedChunk option" where
  "offered sha (DoAdd raw now) = (case ParseEncodedChunk sha raw of Inl e \<Rightarrow> None | Inr c \<Rightarrow> Some c)"
| "offered sha (DoAddChunk c now) = Some c"
| "offered sha (DoSweep now) = None"

text \<open>
  Whatever is offered to the reassembler in whatever order, a payload it delivers has the digest, the
  bundle id and the length that the header of some offered chunk announced.
\<close>

theorem reassembler_integrity:
  assumes order: "\<And>m. set (order m) = set m"
    and out: "Inr (Some payload) \<in> set (snd (run (reassembler_step sha order) ops (NewChunkReassembler mb stale)))"
  shows "\<exists>op \<in> set ops. \<exists>c. offered sha op = Some c \<and> sha payload = PayloadSHA256 c \<and>
    take 16 (sha payload) = BundleID c \<and> int (length payload) = PayloadSize c"
proof -
  obtain t x where t: "reassembler_ok t" "Inr (Some payload) = snd (reassembler_step sha order x t)" "x \<in> set ops"
    using reassembler.run_output[OF NewChunkReassembler_ok out] by blast
  from t(2) obtain c now where c: "offered sha x = Some c" "snd (AddChunk sha order c now t) = Inr (Some payload)"
    by (cases x) (auto simp: Add_def split: sum.splits)
  show ?thesis using AddChunk_integrity[OF t(1) order c(2)] c(1) t(3) by blast
qed

text \<open>Progress: chunks of one encoding, offered one after the other.\<close>

definition collecting :: "EncodedChunk list \<Rightarrow> bytes \<Rightarrow> ChunkReassembler \<Rightarrow> bool" where
  "collecting xs bid r \<longleftrightarrow>
     (if xs = [] then map_of (partials r) bid = None
      else \<exists>p. map_of (partials r) bid = Some p \<and> meta p = hd xs \<and> chunks p = map (\<lambda>c. (Index c, c)) xs \<and>
        chunkBytes p = (\<Sum>c \<leftarrow> xs. int (length (Data c)) + int ChunkHeaderSize))"

lemma AddChunk_collecting:
  assumes col: "collecting xs (BundleID c) r" and same: "sameMatrix c (hd (xs @ [c]))"
    and new: "Index c \<notin> Index ` set xs"
    and budget: "(\<Sum>d \<leftarrow> xs @ [c]. int (length (Data d)) + int ChunkHeaderSize) \<le> maxBytes r"
  shows "int (Suc (length xs)) < DataShards (hd (xs @ [c])) \<Longrightarrow>
      snd (AddChunk sha order c now r) = Inr None \<and> collecting (xs @ [c]) (BundleID c) (fst (AddChunk sha order c now r))"
    and "DataShards (hd (xs @ [c])) \<le> int (Suc (length xs)) \<Longrightarrow>
      snd (AddChunk sha order c now r) =
        rbind (ReconstructErasurePayload sha (map snd (order (map (\<lambda>d. (Index d, d)) (xs @ [c]))))) (\<lambda>p. Inr (Some p)) \<and>
      map_of (partials (fst (AddChunk sha order c now r))) (BundleID c) = None"
proof -
  define p where "p = partial_for c now r"
  have p: "meta p = hd (xs @ [c])" "chunks p = map (\<lambda>c. (Index c, c)) xs"
    "chunkBytes p = (\<Sum>d \<leftarrow> xs. int (length (Data d)) + int ChunkHeaderSize)"
    using col by (cases "xs = []"; force simp: collecting_def p_def partial_for_def)+
  have fresh: "map_of (chunks p) (Index c) = None"
    using new by (auto simp: p(2) map_of_eq_None_iff)
  have q: "chunks (store_chunk c now p) = map (\<lambda>c. (Index c, c)) (xs @ [c])"
    "chunkBytes (store_chunk c now p) = (\<Sum>d \<leftarrow> xs @ [c]. int (length (Data d)) + int ChunkHeaderSize)"
    using fresh by (simp_all add: store_chunk_def p)
  note eq = AddChunk_eq[of sha order c now r, folded p_def]
  show "snd (AddChunk sha order c now r) = Inr None \<and> collecting (xs @ [c]) (BundleID c) (fst (AddChunk sha order c now r))"
    if "int (Suc (length xs)) < DataShards (hd (xs @ [c]))"
    using that same budget p(1) unfolding eq q
    by (auto simp: collecting_def q[simplified] p(1))
  show "snd (AddChunk sha order c now r) =
        rbind (ReconstructErasurePayload sha (map snd (order (map (\<lambda>d. (Index d, d)) (xs @ [c]))))) (\<lambda>p. Inr (Some p)) \<and>
      map_of (partials (fst (AddChunk sha order c now r))) (BundleID c) = None"
    if "DataShards (hd (xs @ [c])) \<le> int (Suc (length xs))"
    using that same budget p(1) unfolding eq q by auto
qed

lemma AddChunk_maxBytes [simp]: "maxBytes (fst (AddChunk sha order c now r)) = maxBytes r"
  by (simp add: AddChunk_eq)

lemma run_collecting:
  assumes rx: "xs @ ys = rx" "ys \<noteq> []" "length ts = length ys" and col: "collecting xs bid r"
    and one: "\<And>c. c \<in> set rx \<Longrightarrow> sameMatrix c (hd rx)" "BundleID (hd rx) = bid" "DataShards (hd rx) = int (length rx)"
    and dist: "distinct (map Index rx)"
    and budget: "(\<Sum>d \<leftarrow> rx. int (length (Data d)) + int ChunkHeaderSize) \<le> maxBytes r"
  shows "snd (run (reassembler_step sha order) (map2 DoAddChunk ys ts) r) =
    replicate (length ys - 1) (Inr None) @
      [rbind (ReconstructErasurePayload sha (map snd (order (map (\<lambda>d. (Index d, d)) rx)))) (\<lambda>p. Inr (Some p))]"
  using rx col budget
proof (induction ys arbitrary: xs ts r)
  case Nil
  then show ?case by simp
next
  case (Cons c ys)
  obtain t ts' where ts: "ts = t # ts'" "length ts' = length ys" using Cons.prems(3) by (cases ts) auto
  have c: "BundleID c = bid" "sameMatrix c (hd (xs @ [c]))" "hd (xs @ [c]) = hd rx"
    using one(1)[of c] one(2) Cons.prems(1) by (cases xs; auto simp: sameMatrix_def)+
  have new: "Index c \<notin> Index ` set xs" using dist Cons.prems(1) by auto
  have bud: "(\<Sum>d \<leftarrow> xs @ [c]. int (length (Data d)) + int ChunkHeaderSize) \<le> maxBytes r"
  proof -
    have "0 \<le> (\<Sum>d \<leftarrow> ys. int (length (Data d)) + int ChunkHeaderSize)" by (rule sum_list_nonneg) auto
    then show ?thesis using Cons.prems(5) by (auto simp flip: Cons.prems(1))
  qed
  note step = AddChunk_collecting[OF Cons.prems(4)[folded c(1)] c(2) new bud, unfolded c(3) one(3)]
  show ?case
  proof (cases "ys = []")
    case True
    then show ?thesis using step(2)[of sha order t] Cons.prems(1) ts by (auto simp: Let_def)
  next
    case False
    then have "int (Suc (length xs)) < int (length rx)" by (auto simp flip: Cons.prems(1))
    note s = step(1)[OF this, of sha order t]
    have len: "length ys = Suc (length ys - 1)" using False by simp
    have "snd (run (reassembler_step sha order) (map2 DoAddChunk ys ts') (fst (AddChunk sha order c t r))) =
      replicate (length ys - 1) (Inr None) @
        [rbind (ReconstructErasurePayload sha (map snd (order (map (\<lambda>d. (Index d, d)) rx)))) (\<lambda>p. Inr (Some p))]"
      using Cons.prems(1,5) False s ts(2) c(1) by (intro Cons.IH[of "xs @ [c]"]) auto
    moreover have "replicate (length (c # ys) - 1) (Inr None :: chunk_error + bytes option) = Inr None # replicate (length ys - 1) (Inr None)"
      using len by (simp del: length_Suc_conv flip: replicate_Suc)
    ultimately show ?thesis using s ts by (simp add: Let_def)
  qed
qed

lemma run_mkChunk:
  assumes mat: "0 < ds" "0 < ps" "ds + ps \<le> MaxShardCount" "0 < ss" "ss \<le> MaxChunkDataSize"
      "payload \<noteq> []" "int (length payload) \<le> MaxBundleBytes" "int (length payload) \<le> ds * ss"
    and bounds: "ds \<le> 129" "ps \<le> 127" and order: "\<And>m. set (order m) = set m"
    and rx: "set rx \<subseteq> mkChunk sha payload ds ps ss ` {0..<nat (ds + ps)}" "distinct (map Index rx)" "int (length rx) = ds"
    and fresh: "map_of (partials r) (take 16 (sha payload)) = None"
    and budget: "ds * (ss + int ChunkHeaderSize) \<le> maxBytes r"
    and ts: "length ts = length rx"
  shows "snd (run (reassembler_step sha order) (map2 DoAddChunk rx ts) r) =
    replicate (length rx - 1) (Inr None) @ [Inr (Some payload)]"
proof -
  have mk: "\<exists>i. c = mkChunk sha payload ds ps ss i" if "c \<in> set rx" for c
    using subsetD[OF rx(1) that] by auto
  have ne: "rx \<noteq> []" using rx(3) mat(1) by auto
  then obtain h where h: "hd rx = mkChunk sha payload ds ps ss h" using mk[of "hd rx"] by auto
  have one: "sameMatrix c (hd rx)" if "c \<in> set rx" for c
    using mk[OF that] h by (auto simp: sameMatrix_def)
  have "(\<Sum>d \<leftarrow> rx. int (length (Data d)) + int ChunkHeaderSize) = (\<Sum>d \<leftarrow> rx. ss + int ChunkHeaderSize)"
    by (rule arg_cong[where f = sum_list], rule map_cong) (use mat(4) in \<open>auto dest!: mk\<close>)
  also have "\<dots> = ds * (ss + int ChunkHeaderSize)" by (simp add: sum_list_triv flip: rx(3))
  finally have bud: "(\<Sum>d \<leftarrow> rx. int (length (Data d)) + int ChunkHeaderSize) \<le> maxBytes r"
    using budget by simp
  let ?rx = "map snd (order (map (\<lambda>d. (Index d, d)) rx))"
  have set: "set ?rx = set rx" by (simp add: order image_image)
  have "card (Index ` set rx) = length rx" using rx(2) by (metis distinct_card length_map list.set_map)
  then have "ReconstructErasurePayload sha ?rx = Inr payload"
    using rx bounds set by (intro reconstruct_mkChunk[OF mat]) auto
  moreover have "collecting [] (BundleID (hd rx)) r" using fresh h by (simp add: collecting_def)
  ultimately show ?thesis
    using run_collecting[of "[]" rx rx ts "BundleID (hd rx)" r sha order] rx one bud ts ne h by simp
qed



theorem reassembler_integrity_witness:
  "\<exists>op \<in> set (map2 DoAddChunk (map (mkChunk (\<lambda>_. replicate 32 7) [10, 20] 1 1 2) [1]) [100]).
     \<exists>c. offered (\<lambda>_. replicate 32 7) op = Some c \<and> replicate 32 7 = PayloadSHA256 c \<and>
       take 16 (replicate 32 7) = BundleID c \<and> int (length [10 :: byte, 20]) = PayloadSize c"
proof -
  let ?sha = "\<lambda>_ :: bytes. replicate 32 (7 :: byte)"
  let ?ops = "map2 DoAddChunk (map (mkChunk ?sha [10, 20] 1 1 2) [1]) [100]"
  have rec: "ReconstructErasurePayload ?sha [mkChunk ?sha [10, 20] 1 1 2 1] = Inr [10, 20]"
    by (rule reconstruct_mkChunk[where ds = 1 and ps = 1 and ss = 2]) (auto simp: chunk_consts)
  have "snd (run (reassembler_step ?sha (\<lambda>m. m)) ?ops (NewChunkReassembler 0 0)) = [Inr (Some [10, 20])]"
    by (simp add: AddChunk_def NewChunkReassembler_def sameMatrix_def DefaultMaxCacheByte_def ChunkHeaderSize_def rec[unfolded One_nat_def])
  then show ?thesis
    using reassembler_integrity[of "\<lambda>m. m" "[10, 20]" ?sha ?ops 0 0] by simp
qed

end
