(* ===== verification/Import_Control.thy ===== *)
theory Import_Control
  imports Bundle_Verify Chunk_Engine
begin

text \<open>
  The importer (\<^verbatim>\<open>pkg/importctl/import.go\<close>) and its replay store (\<^verbatim>\<open>pkg/importctl/replay_store.go\<close>): parsing a bundle from
  bytes, from a URI or from erasure chunk lines, the checks on its signer, and the replay protection that reserves a
  bundle when it is parsed and commits it when it has been stored.

  The functions that the bundle layer takes as arguments are collected in a record \<open>bundle_env\<close>. A payload
  pointer is a number: \<open>ptr\<close> is the address of the payload that a parse returns.
\<close>

datatype import_code = CodeMalformedBundle | CodeCipherNotAllowed | CodeNoTrustedSigners | CodeUntrustedSigner
  | CodeInvalidSignature | CodeSignerRevoked | CodeDecryptRequired | CodeDecryptFailed | CodeReplayDetected
  | CodeInvalidPayload | CodeStoreNotConfigured

section \<open>Replay state and its store\<close>

record SignerReplayState =
  MaxSeq :: nat
  LastCreatedAt :: int
  Nonces :: "(string, bool) fmap"

record ReplayState =
  rsVersion :: int
  BundleIDs :: "string fset"
  Signers :: "(string, SignerReplayState) fmap"

definition ReplayStateVersion :: int where "ReplayStateVersion = 2"

definition emptyReplayState :: ReplayState where
  "emptyReplayState = \<lparr>rsVersion = ReplayStateVersion, BundleIDs = {||}, Signers = fmempty\<rparr>"

datatype replay_store_error = ReplayCorrupt | ReplayDecryption | ReplayUnmarshal

definition SaveState :: "(ReplayState \<Rightarrow> string) \<Rightarrow> (bytes \<Rightarrow> string \<Rightarrow> bytes) \<Rightarrow> bytes \<Rightarrow> ReplayState \<Rightarrow> bytes option" where
  "SaveState marshalReplay gcmSeal nonce st =
     Some (nonce @ gcmSeal nonce (marshalReplay (st\<lparr>rsVersion := ReplayStateVersion\<rparr>)))"

definition LoadState ::
    "(string \<Rightarrow> ReplayState option) \<Rightarrow> (string \<Rightarrow> string list option) \<Rightarrow> (bytes \<Rightarrow> bytes \<Rightarrow> string option) \<Rightarrow> bytes option \<Rightarrow>
     replay_store_error + ReplayState" where
  "LoadState unmarshalReplay unmarshalIDs gcmOpen stored =
     (case stored of
        None \<Rightarrow> Inr emptyReplayState
      | Some ciphertext \<Rightarrow>
          if length ciphertext < GcmNonceSize then Inl ReplayCorrupt
          else case gcmOpen (take GcmNonceSize ciphertext) (drop GcmNonceSize ciphertext) of
            None \<Rightarrow> Inl ReplayDecryption
          | Some plaintext \<Rightarrow>
              (case TrimSpace plaintext of
                 CHR ''{'' # _ \<Rightarrow>
                   (case unmarshalReplay plaintext of
                      None \<Rightarrow> Inl ReplayUnmarshal
                    | Some st \<Rightarrow> Inr (st\<lparr>rsVersion := ReplayStateVersion\<rparr>))
               | _ \<Rightarrow>
                   (case unmarshalIDs plaintext of
                      None \<Rightarrow> Inl ReplayUnmarshal
                    | Some ids \<Rightarrow> Inr (emptyReplayState\<lparr>BundleIDs := fset_of_list ids\<rparr>))))"

section \<open>The importer\<close>

record ('id, 'p) bundle_env =
  beSha :: "bytes \<Rightarrow> bytes"
  beVerify :: "bytes \<Rightarrow> bytes \<Rightarrow> bytes \<Rightarrow> bool"
  beParseHeader :: "bytes \<Rightarrow> BundleHeader option"
  beDecodeWrapper :: "bytes \<Rightarrow> (BundleHeader \<times> string) option"
  beMarshalHeader :: "BundleHeader \<Rightarrow> bytes"
  beRecipient :: "'id \<Rightarrow> string"
  beAgeDecrypt :: "'id \<Rightarrow> bytes \<Rightarrow> age_result"
  beDecodePayload :: "bytes \<Rightarrow> 'p option"
  beCanonical :: "'p \<Rightarrow> bytes"
  beValidatePayload :: "'p \<Rightarrow> BundleHeader \<Rightarrow> int \<Rightarrow> string list"

definition verifyIn :: "('id, 'p) bundle_env \<Rightarrow> bytes \<Rightarrow> bytes \<Rightarrow> 'id VerifyOptions \<Rightarrow> verify_error + BundleHeader \<times> 'p option" where
  "verifyIn env = VerifyBundle (beSha env) (beVerify env) (beDecodeWrapper env) (beMarshalHeader env) (beRecipient env)
     (beAgeDecrypt env) (beDecodePayload env) (beCanonical env) (beValidatePayload env)"

record 'id Importer =
  trustedByKeyID :: "(string, bytes) fmap"
  seenBundleIDs :: "string fset"
  replayState :: ReplayState
  pendingReplay :: "(string, BundleHeader) fmap"
  pendingPayload :: "(nat \<times> string) list"
  ageIdentity :: "'id option"
  trustState :: "TrustState option"

text \<open>
  \<open>loaded\<close> is the outcome of loading the replay store, \<open>None\<close> without a store; a store that cannot be read is taken as
  empty. \<^verbatim>\<open>trustedKeyIDs\<close> has the keys of \<^verbatim>\<open>trustedByKeyID\<close>, with which it is filled.
\<close>

definition trustKeys :: "(bytes \<Rightarrow> bytes) \<Rightarrow> bytes list \<Rightarrow> (string, bytes) fmap" where
  "trustKeys sha keys = fold (\<lambda>k m. if length k \<noteq> PublicKeySize then m else fmupd (Ed25519KeyID sha k) k m) keys fmempty"

definition NewImporterWithTrust ::
    "(bytes \<Rightarrow> bytes) \<Rightarrow> (replay_store_error + ReplayState) option \<Rightarrow> bytes list \<Rightarrow> 'id option \<Rightarrow> TrustState option \<Rightarrow> int \<Rightarrow> 'id Importer" where
  "NewImporterWithTrust sha loaded trustedKeys0 identity ts now =
     (let trustedKeys = (case ts of
             None \<Rightarrow> trustedKeys0
           | Some s \<Rightarrow> if trustedKeys0 = [] then (case ActivePublicKeys s now of Inl _ \<Rightarrow> trustedKeys0 | Inr active \<Rightarrow> active)
                       else trustedKeys0);
          st = (case loaded of Some (Inr s) \<Rightarrow> s | _ \<Rightarrow> emptyReplayState)
      in \<lparr>trustedByKeyID = trustKeys sha trustedKeys, seenBundleIDs = BundleIDs st, replayState = st, pendingReplay = fmempty,
          pendingPayload = [], ageIdentity = identity, trustState = ts\<rparr>)"

definition SetTrustState :: "TrustState option \<Rightarrow> 'id Importer \<Rightarrow> 'id Importer" where
  "SetTrustState ts i = i\<lparr>trustState := ts\<rparr>"

definition isSignerRevoked :: "'id Importer \<Rightarrow> string \<Rightarrow> int \<Rightarrow> bool" where
  "isSignerRevoked i keyID now = (case trustState i of None \<Rightarrow> False | Some s \<Rightarrow> IsRevoked s keyID now)"

definition replayKey :: "BundleHeader \<Rightarrow> string" where
  "replayKey h = hPublisherKeyID h @ ''|'' @ Itoa (int (hSeq h)) @ ''|'' @ hNonce h @ ''|'' @ hBundleID h"

definition replayDetected :: "BundleHeader \<Rightarrow> 'id Importer \<Rightarrow> bool" where
  "replayDetected h i \<longleftrightarrow> hBundleID h |\<in>| seenBundleIDs i \<or> fmlookup (pendingReplay i) (replayKey h) \<noteq> None \<or>
     (case fmlookup (Signers (replayState i)) (hPublisherKeyID h) of
        None \<Rightarrow> False
      | Some signer \<Rightarrow> fmlookup (Nonces signer) (hNonce h) = Some True \<or> hSeq h \<le> MaxSeq signer)"

definition reserveReplay :: "BundleHeader \<Rightarrow> nat \<Rightarrow> 'id Importer \<Rightarrow> 'id Importer \<times> (import_code + unit)" where
  "reserveReplay h ptr i =
     (if replayDetected h i then (i, Inl CodeReplayDetected)
      else (i\<lparr>pendingReplay := fmupd (replayKey h) h (pendingReplay i),
              pendingPayload := AList.update ptr (replayKey h) (pendingPayload i)\<rparr>, Inr ()))"

definition zeroHeader :: BundleHeader where
  "zeroHeader = \<lparr>hMagic = '''', hBundleID = '''', hPublisherKeyID = '''', hRecipientKeyID = '''', hSeq = 0, hNonce = '''',
     hCreatedAt = 0, hExpiresAt = 0, hCipher = '''', hSignature = ''''\<rparr>"

definition pendingHeader :: "nat \<Rightarrow> 'id Importer \<Rightarrow> BundleHeader \<times> string" where
  "pendingHeader ptr i =
     (case map_of (pendingPayload i) ptr of
        None \<Rightarrow> (zeroHeader, '''')
      | Some key \<Rightarrow> if key = '''' then (zeroHeader, '''')
                    else (case fmlookup (pendingReplay i) key of None \<Rightarrow> zeroHeader | Some h \<Rightarrow> h, key))"

text \<open>The first entry with the key is removed; the keys of \<^verbatim>\<open>pendingPayload\<close> are distinct, so there is at most one.\<close>

fun deletePending :: "string \<Rightarrow> (nat \<times> string) list \<Rightarrow> (nat \<times> string) list" where
  "deletePending key [] = []"
| "deletePending key ((p, k) # ps) = (if k = key then ps else (p, k) # deletePending key ps)"

definition commitSigner :: "BundleHeader \<Rightarrow> ReplayState \<Rightarrow> SignerReplayState" where
  "commitSigner h st =
     (let signer = (case fmlookup (Signers st) (hPublisherKeyID h) of
                      None \<Rightarrow> \<lparr>MaxSeq = 0, LastCreatedAt = 0, Nonces = fmempty\<rparr>
                    | Some s \<Rightarrow> s)
      in signer\<lparr>Nonces := fmupd (hNonce h) True (Nonces signer),
                MaxSeq := (if hSeq h > MaxSeq signer then hSeq h else MaxSeq signer),
                LastCreatedAt := (if hCreatedAt h > LastCreatedAt signer then hCreatedAt h else LastCreatedAt signer)\<rparr>)"

text \<open>The second component is the state that is handed to the replay store, if any.\<close>

definition commitReplay :: "BundleHeader \<Rightarrow> string \<Rightarrow> 'id Importer \<Rightarrow> 'id Importer \<times> ReplayState option" where
  "commitReplay h key i =
     (let i1 = i\<lparr>pendingReplay := fmdrop key (pendingReplay i), pendingPayload := deletePending key (pendingPayload i)\<rparr> in
      if hBundleID h = '''' then (i1, None)
      else let st = (replayState i)\<lparr>BundleIDs := finsert (hBundleID h) (BundleIDs (replayState i)),
                      Signers := fmupd (hPublisherKeyID h) (commitSigner h (replayState i)) (Signers (replayState i))\<rparr>
           in (i1\<lparr>replayState := st, seenBundleIDs := BundleIDs st\<rparr>, Some st))"

definition verifyErrorHasAny :: "string list \<Rightarrow> string list \<Rightarrow> bool" where
  "verifyErrorHasAny issues codes \<longleftrightarrow> list_ex (\<lambda>c. c \<in> set codes) issues"

definition verifyAndReserve ::
    "('id, 'p) bundle_env \<Rightarrow> bytes \<Rightarrow> int \<Rightarrow> nat \<Rightarrow> bytes \<Rightarrow> 'id Importer \<Rightarrow> 'id Importer \<times> (import_code + 'p)" where
  "verifyAndReserve env bundleBytes now ptr pubKey i =
     (case verifyIn env bundleBytes pubKey \<lparr>voNow = now, voAgeIdentity = ageIdentity i, voRequireDecrypt = True\<rparr> of
        Inl ErrInvalidSignature \<Rightarrow> (i, Inl CodeInvalidSignature)
      | Inl ErrBundleDecryption \<Rightarrow> (i, Inl CodeDecryptFailed)
      | Inl (VerifyIssues issues) \<Rightarrow>
          (i, Inl (if verifyErrorHasAny issues [''signature_b64'', ''signature_size''] then CodeInvalidSignature else CodeInvalidPayload))
      | Inr (h, None) \<Rightarrow> (i, Inl CodeDecryptRequired)
      | Inr (h, Some payload) \<Rightarrow>
          (fst (reserveReplay h ptr i), rbind (snd (reserveReplay h ptr i)) (\<lambda>_. Inr payload)))"

definition ParseBytes ::
    "('id, 'p) bundle_env \<Rightarrow> bytes \<Rightarrow> int \<Rightarrow> nat \<Rightarrow> 'id Importer \<Rightarrow> 'id Importer \<times> (import_code + 'p)" where
  "ParseBytes env bundleBytes now ptr i =
     (if bundleBytes = [] \<or> length bundleBytes > MaxBundleSize then (i, Inl CodeMalformedBundle)
      else if fmdom (trustedByKeyID i) = {||} then (i, Inl CodeNoTrustedSigners)
      else case beParseHeader env bundleBytes of
        None \<Rightarrow> (i, Inl CodeMalformedBundle)
      | Some hdr \<Rightarrow>
          if hCipher hdr \<noteq> ''age-x25519'' then (i, Inl CodeCipherNotAllowed)
          else if isSignerRevoked i (hPublisherKeyID hdr) now then (i, Inl CodeSignerRevoked)
          else case fmlookup (trustedByKeyID i) (hPublisherKeyID hdr) of
            None \<Rightarrow> (i, Inl CodeUntrustedSigner)
          | Some pubKey \<Rightarrow> verifyAndReserve env bundleBytes now ptr pubKey i)"

definition uriPrefix :: string where "uriPrefix = ''snb://v2:''"

definition RawEncodedLen :: "nat \<Rightarrow> nat" where
  "RawEncodedLen n = n div 3 * 4 + (n mod 3 * 8 + 5) div 6"

definition ParseURI ::
    "('id, 'p) bundle_env \<Rightarrow> string \<Rightarrow> int \<Rightarrow> nat \<Rightarrow> 'id Importer \<Rightarrow> 'id Importer \<times> (import_code + 'p)" where
  "ParseURI env uri now ptr i =
     (if take (length uriPrefix) uri \<noteq> uriPrefix then (i, Inl CodeMalformedBundle)
      else if length uri > RawEncodedLen MaxBundleSize + length uriPrefix then (i, Inl CodeMalformedBundle)
      else case DecodeString (drop (length uriPrefix) uri) of
             None \<Rightarrow> (i, Inl CodeMalformedBundle)
           | Some raw \<Rightarrow> ParseBytes env raw now ptr i)"

fun parseLines ::
    "('id, 'p) bundle_env \<Rightarrow> (chunk_map \<Rightarrow> chunk_map) \<Rightarrow> string list \<Rightarrow> int \<Rightarrow> int \<Rightarrow> nat \<Rightarrow> ChunkReassembler \<Rightarrow> 'id Importer \<Rightarrow>
     'id Importer \<times> (import_code + 'p)" where
  "parseLines env order [] nanos now ptr r i = (i, Inl CodeMalformedBundle)"
| "parseLines env order (line0 # lines) nanos now ptr r i =
     (let line = TrimSpace line0 in
      if line = '''' then parseLines env order lines nanos now ptr r i
      else case ParseEncodedChunkText (beSha env) line of
        Inl e \<Rightarrow> (i, Inl CodeMalformedBundle)
      | Inr c \<Rightarrow>
          (let (r', out) = AddChunk (beSha env) order c nanos r in
           case out of
             Inl e \<Rightarrow> (i, Inl CodeMalformedBundle)
           | Inr (Some payload) \<Rightarrow> ParseBytes env payload now ptr i
           | Inr None \<Rightarrow> parseLines env order lines nanos now ptr r' i))"

definition ParseErasureChunkLines ::
    "('id, 'p) bundle_env \<Rightarrow> (chunk_map \<Rightarrow> chunk_map) \<Rightarrow> string list \<Rightarrow> int \<Rightarrow> int \<Rightarrow> nat \<Rightarrow> 'id Importer \<Rightarrow> 'id Importer \<times> (import_code + 'p)" where
  "ParseErasureChunkLines env order lines nanos now ptr i =
     (if lines = [] then (i, Inl CodeMalformedBundle)
      else parseLines env order lines nanos now ptr (NewChunkReassembler DefaultMaxCacheByte 600000000000) i)"

text \<open>Go's \<^verbatim>\<open>strings.Split(text, "\n")\<close> and \<^verbatim>\<open>ImportFile\<close> on the content of the file.\<close>

fun splitLines :: "string \<Rightarrow> string list" where
  "splitLines [] = [[]]"
| "splitLines (c # cs) =
     (if c = CHR 0x0A then [] # splitLines cs
      else case splitLines cs of [] \<Rightarrow> [[c]] | l # ls \<Rightarrow> (c # l) # ls)"


definition ImportFile ::
    "('id, 'p) bundle_env \<Rightarrow> (chunk_map \<Rightarrow> chunk_map) \<Rightarrow> bytes \<Rightarrow> int \<Rightarrow> int \<Rightarrow> nat \<Rightarrow> 'id Importer \<Rightarrow> 'id Importer \<times> (import_code + 'p)" where
  "ImportFile env order raw nanos now ptr i =
     (if length raw > MaxBundleSize * 4 then (i, Inl CodeMalformedBundle)
      else let txt = TrimSpace (bytes_string raw) in
      if take (length chunkTextPrefix) txt = chunkTextPrefix then ParseErasureChunkLines env order (splitLines txt) nanos now ptr i
      else if length raw > MaxBundleSize then (i, Inl CodeMalformedBundle)
      else if take (length uriPrefix) txt = uriPrefix then ParseURI env txt now ptr i
      else ParseBytes env raw now ptr i)"

section \<open>Only trusted, unrevoked signers\<close>

definition keys_ok :: "(bytes \<Rightarrow> bytes) \<Rightarrow> 'id Importer \<Rightarrow> bool" where
  "keys_ok sha i \<longleftrightarrow> fmpred (\<lambda>kid k. Ed25519KeyID sha k = kid \<and> length k = PublicKeySize) (trustedByKeyID i)"

lemma trustKeys_ok: "fmpred (\<lambda>kid k. Ed25519KeyID sha k = kid \<and> length k = PublicKeySize) (trustKeys sha keys)"
proof -
  have "fmpred (\<lambda>kid k. Ed25519KeyID sha k = kid \<and> length k = PublicKeySize)
      (fold (\<lambda>k m. if length k \<noteq> PublicKeySize then m else fmupd (Ed25519KeyID sha k) k m) keys m)"
    if "fmpred (\<lambda>kid k. Ed25519KeyID sha k = kid \<and> length k = PublicKeySize) m" for m
    using that by (induction keys arbitrary: m) (auto simp: fmpred_upd)
  then show ?thesis by (simp add: trustKeys_def)
qed

lemma NewImporterWithTrust_keys_ok: "keys_ok sha (NewImporterWithTrust sha loaded keys identity ts now)"
  by (simp add: keys_ok_def NewImporterWithTrust_def Let_def trustKeys_ok)

text \<open>A parse changes the importer only by a reservation.\<close>

lemma ParseBytes_cases:
  obtains (failed) e where "ParseBytes env b now ptr i = (i, Inl e)"
  | (parsed) hdr key h p where "beParseHeader env b = Some hdr" "\<not> isSignerRevoked i (hPublisherKeyID hdr) now"
      "fmlookup (trustedByKeyID i) (hPublisherKeyID hdr) = Some key"
      "verifyIn env b key \<lparr>voNow = now, voAgeIdentity = ageIdentity i, voRequireDecrypt = True\<rparr> = Inr (h, Some p)"
      "ParseBytes env b now ptr i = (fst (reserveReplay h ptr i), rbind (snd (reserveReplay h ptr i)) (\<lambda>_. Inr p))"
proof -
  have reserve: "(\<exists>e. verifyAndReserve env b now ptr key i = (i, Inl e)) \<or>
      (\<exists>h p. verifyIn env b key \<lparr>voNow = now, voAgeIdentity = ageIdentity i, voRequireDecrypt = True\<rparr> = Inr (h, Some p) \<and>
        verifyAndReserve env b now ptr key i = (fst (reserveReplay h ptr i), rbind (snd (reserveReplay h ptr i)) (\<lambda>_. Inr p)))" for key
    by (auto simp: verifyAndReserve_def split: sum.splits verify_error.splits option.splits prod.splits)
  have "(\<exists>e. ParseBytes env b now ptr i = (i, Inl e)) \<or>
    (\<exists>hdr key. beParseHeader env b = Some hdr \<and> \<not> isSignerRevoked i (hPublisherKeyID hdr) now \<and>
      fmlookup (trustedByKeyID i) (hPublisherKeyID hdr) = Some key \<and> ParseBytes env b now ptr i = verifyAndReserve env b now ptr key i)"
    by (auto simp: ParseBytes_def split: option.splits)
  then show thesis using reserve failed parsed by metis
qed

lemma reserveReplay_frame:
  "trustedByKeyID (fst (reserveReplay h ptr i)) = trustedByKeyID i" "replayState (fst (reserveReplay h ptr i)) = replayState i"
  "seenBundleIDs (fst (reserveReplay h ptr i)) = seenBundleIDs i" "trustState (fst (reserveReplay h ptr i)) = trustState i"
  by (simp_all add: reserveReplay_def)

lemma ParseBytes_frame:
  "trustedByKeyID (fst (ParseBytes env b now ptr i)) = trustedByKeyID i \<and> replayState (fst (ParseBytes env b now ptr i)) = replayState i \<and>
   seenBundleIDs (fst (ParseBytes env b now ptr i)) = seenBundleIDs i"
  by (rule ParseBytes_cases[of env b now ptr i]) (auto simp: reserveReplay_frame)

lemma parseLines_frame:
  "trustedByKeyID (fst (parseLines env order lines nanos now ptr r i)) = trustedByKeyID i \<and>
   replayState (fst (parseLines env order lines nanos now ptr r i)) = replayState i \<and>
   seenBundleIDs (fst (parseLines env order lines nanos now ptr r i)) = seenBundleIDs i"
  by (induction lines arbitrary: r) (auto simp: Let_def ParseBytes_frame split: sum.splits option.splits prod.splits)

lemma ParseBytes_sound:
  assumes ok: "keys_ok (beSha env) i" and parse: "ParseBytes env b now ptr i = (i', Inr p)"
  obtains h c64 key where "beDecodeWrapper env b = Some (h, c64)" "fmlookup (trustedByKeyID i) (hPublisherKeyID h) = Some key"
    "\<not> isSignerRevoked i (hPublisherKeyID h) now" "\<not> replayDetected h i"
    "beVerify env key (signatureInput (beMarshalHeader env (h\<lparr>hSignature := ''''\<rparr>)) (the (DecodeString c64))) (the (DecodeString (hSignature h)))"
    "hCreatedAt h \<le> now + 600" "now \<le> hExpiresAt h" "i' = fst (reserveReplay h ptr i)"
  using ParseBytes_cases[of env b now ptr i]
proof cases
  case (failed e)
  then show thesis using parse by simp
next
  case (parsed hdr key h p')
  have v: "VerifyBundle (beSha env) (beVerify env) (beDecodeWrapper env) (beMarshalHeader env) (beRecipient env)
     (beAgeDecrypt env) (beDecodePayload env) (beCanonical env) (beValidatePayload env) b key
     \<lparr>voNow = now, voAgeIdentity = ageIdentity i, voRequireDecrypt = True\<rparr> = Inr (h, Some p')"
    using parsed(4) by (simp add: verifyIn_def)
  obtain c64 where c: "beDecodeWrapper env b = Some (h, c64)"
    and issues: "headerIssues h (Ed25519KeyID (beSha env) key) now = []"
    and sig: "beVerify env key (signatureInput (beMarshalHeader env (h\<lparr>hSignature := ''''\<rparr>)) (the (DecodeString c64))) (the (DecodeString (hSignature h)))"
    using v unfolding VerifyBundle_def Let_def by (auto split: if_splits option.splits prod.splits)
  have "Ed25519KeyID (beSha env) key = hPublisherKeyID hdr"
    using ok parsed(3) by (auto simp: keys_ok_def dest: fmpredD)
  then have pub: "hPublisherKeyID h = hPublisherKeyID hdr" using issues by (simp add: headerIssues_Nil)
  have "\<not> replayDetected h i" "i' = fst (reserveReplay h ptr i)"
    using parse parsed(5) by (auto simp: reserveReplay_def split: if_splits)
  then show thesis
    using that c sig parsed(2,3) issues pub by (simp add: headerIssues_Nil bundle_consts)
qed

section \<open>Histories of the importer\<close>

text \<open>
  The operations that change an importer. \<open>DoCommit\<close> is the end of \<^verbatim>\<open>ProcessAndStore\<close>, once the profiles are stored:
  look the reservation of the payload up and commit it.
\<close>

datatype import_op = DoParseBytes bytes int nat | DoParseURI string int nat | DoParseLines "string list" int int nat
  | DoCommit nat | DoSetTrust "TrustState option"

definition commitPayload :: "nat \<Rightarrow> 'id Importer \<Rightarrow> 'id Importer \<times> ReplayState option" where
  "commitPayload ptr i = (let (h, key) = pendingHeader ptr i in if key = '''' then (i, None) else commitReplay h key i)"

fun import_step ::
    "('id, 'p) bundle_env \<Rightarrow> (chunk_map \<Rightarrow> chunk_map) \<Rightarrow> import_op \<Rightarrow> 'id Importer \<Rightarrow> 'id Importer \<times> (import_code + 'p) option" where
  "import_step env order (DoParseBytes b now ptr) i = (let (i', r) = ParseBytes env b now ptr i in (i', Some r))"
| "import_step env order (DoParseURI u now ptr) i = (let (i', r) = ParseURI env u now ptr i in (i', Some r))"
| "import_step env order (DoParseLines ls nanos now ptr) i =
     (let (i', r) = ParseErasureChunkLines env order ls nanos now ptr i in (i', Some r))"
| "import_step env order (DoCommit ptr) i = (fst (commitPayload ptr i), None)"
| "import_step env order (DoSetTrust ts) i = (SetTrustState ts i, None)"

lemma commitReplay_trusted [simp]: "trustedByKeyID (fst (commitReplay h key i)) = trustedByKeyID i"
  by (simp add: commitReplay_def Let_def)

lemma ParseURI_frame:
  "trustedByKeyID (fst (ParseURI env u now ptr i)) = trustedByKeyID i \<and> replayState (fst (ParseURI env u now ptr i)) = replayState i \<and>
   seenBundleIDs (fst (ParseURI env u now ptr i)) = seenBundleIDs i"
  by (auto simp: ParseURI_def ParseBytes_frame split: option.splits)

lemma ParseErasureChunkLines_frame:
  "trustedByKeyID (fst (ParseErasureChunkLines env order ls nanos now ptr i)) = trustedByKeyID i \<and>
   replayState (fst (ParseErasureChunkLines env order ls nanos now ptr i)) = replayState i \<and>
   seenBundleIDs (fst (ParseErasureChunkLines env order ls nanos now ptr i)) = seenBundleIDs i"
  by (auto simp: ParseErasureChunkLines_def parseLines_frame)

lemmas parse_frames = ParseBytes_frame ParseURI_frame ParseErasureChunkLines_frame

interpretation importer_keys: state_machine "import_step env order" "keys_ok (beSha env)"
proof
  show "keys_ok (beSha env) (fst (import_step env order x i))" if "keys_ok (beSha env) i" for i x
    using that by (cases x) (auto simp: keys_ok_def parse_frames commitPayload_def SetTrustState_def Let_def split_beta)
qed

text \<open>
  C3. Whatever happened to an importer since it was created, a bundle it accepts is signed by a trusted key that the trust state in
  force does not revoke, is inside its validity time, and is no replay of what was reserved or committed.
\<close>

theorem import_sound:
  assumes new: "i0 = NewImporterWithTrust (beSha env) loaded keys identity ts t0"
    and i: "i = fst (run (import_step env order) ops i0)"
    and parse: "ParseBytes env b now ptr i = (i', Inr p)"
  shows "\<exists>h c64 key. beDecodeWrapper env b = Some (h, c64) \<and> fmlookup (trustedByKeyID i) (hPublisherKeyID h) = Some key \<and>
    \<not> isSignerRevoked i (hPublisherKeyID h) now \<and> \<not> replayDetected h i \<and>
    beVerify env key (signatureInput (beMarshalHeader env (h\<lparr>hSignature := ''''\<rparr>)) (the (DecodeString c64))) (the (DecodeString (hSignature h))) \<and>
    hCreatedAt h \<le> now + 600 \<and> now \<le> hExpiresAt h \<and> fmlookup (pendingReplay i') (replayKey h) = Some h"
proof -
  have "keys_ok (beSha env) i" unfolding i new by (rule importer_keys.run_inv[OF NewImporterWithTrust_keys_ok])
  from this parse show ?thesis
    by (rule ParseBytes_sound) (auto simp: reserveReplay_def)
qed

text \<open>What a commit records of a header, and that no operation loses it.\<close>

definition committed :: "BundleHeader \<Rightarrow> 'id Importer \<Rightarrow> bool" where
  "committed h i \<longleftrightarrow> seenBundleIDs i = BundleIDs (replayState i) \<and> hBundleID h |\<in>| BundleIDs (replayState i) \<and>
     (\<exists>s. fmlookup (Signers (replayState i)) (hPublisherKeyID h) = Some s \<and> hSeq h \<le> MaxSeq s \<and> fmlookup (Nonces s) (hNonce h) = Some True)"

lemma commitReplay_committed: "hBundleID h \<noteq> '''' \<Longrightarrow> committed h (fst (commitReplay h key i))"
  by (auto simp: committed_def commitReplay_def commitSigner_def Let_def split: option.splits)

lemma commitReplay_keeps:
  assumes "committed h i"
  shows "committed h (fst (commitReplay h' key i))"
  using assms by (auto simp: committed_def commitReplay_def commitSigner_def Let_def)

interpretation importer_committed: state_machine "import_step env order" "committed h"
proof
  show "committed h (fst (import_step env order x i))" if c: "committed h i" for i x
  proof (cases x)
    case (DoCommit ptr)
    then show ?thesis using c commitReplay_keeps[OF c] by (auto simp: commitPayload_def Let_def split_beta)
  qed (use c in \<open>auto simp: committed_def parse_frames SetTrustState_def Let_def split_beta\<close>)
qed

definition same_or_older :: "BundleHeader \<Rightarrow> BundleHeader \<Rightarrow> bool" where
  "same_or_older h' h \<longleftrightarrow> hBundleID h' = hBundleID h \<or>
     hPublisherKeyID h' = hPublisherKeyID h \<and> (hNonce h' = hNonce h \<or> hSeq h' \<le> hSeq h)"

lemma committed_replayDetected: "committed h i \<Longrightarrow> same_or_older h' h \<Longrightarrow> replayDetected h' i"
  by (auto simp: committed_def same_or_older_def replayDetected_def split: option.splits)

text \<open>
  C4. Once a bundle is committed, no history makes the importer accept a bundle with the same identifier, or from the same publisher with
  the same nonce or a sequence number that is not larger.
\<close>

theorem committed_not_replayed:
  assumes pend: "pendingHeader ptr i0 = (h, key)" "key \<noteq> ''''" "hBundleID h \<noteq> ''''" and keys: "keys_ok (beSha env) i0"
    and i: "i = fst (run (import_step env order) (DoCommit ptr # ops) i0)"
    and parse: "ParseBytes env b now ptr' i = (i', Inr p)"
  shows "\<exists>h' c64. beDecodeWrapper env b = Some (h', c64) \<and> \<not> same_or_older h' h"
proof -
  have "committed h (fst (import_step env order (DoCommit ptr) i0))"
    using pend commitReplay_committed[of h] by (auto simp: commitPayload_def Let_def)
  from importer_committed.run_inv[OF this] have c: "committed h i" by (simp add: i Let_def)
  have "keys_ok (beSha env) i" unfolding i by (rule importer_keys.run_inv[OF keys])
  from ParseBytes_sound[OF this parse] committed_replayDetected[OF c] show ?thesis by metis
qed

lemma replay_store_roundtrip:
  assumes "\<And>p. gcmOpen nonce (gcmSeal nonce p) = Some p" "length nonce = 12"
    and "\<exists>rest. TrimSpace (marshalReplay (st\<lparr>rsVersion := ReplayStateVersion\<rparr>)) = CHR ''{'' # rest"
    and "unmarshalReplay (marshalReplay (st\<lparr>rsVersion := ReplayStateVersion\<rparr>)) = Some (st\<lparr>rsVersion := ReplayStateVersion\<rparr>)"
  shows "LoadState unmarshalReplay unmarshalIDs gcmOpen (SaveState marshalReplay gcmSeal nonce st) = Inr (st\<lparr>rsVersion := ReplayStateVersion\<rparr>)"
  using assms by (auto simp: LoadState_def SaveState_def GcmNonceSize_def)

text \<open>
  The protection survives a restart: a new importer that loads the state a commit saved detects the same replays, given
  that the cipher and the JSON codec invert themselves on that state and JSON objects start with a brace.
\<close>

theorem replay_survives_restart:
  assumes commit: "commitReplay h key i = (i1, Some st)"
    and gcm: "\<And>p. gcmOpen nonce (gcmSeal nonce p) = Some p" "length nonce = 12"
    and json: "\<exists>rest. TrimSpace (marshalReplay (st\<lparr>rsVersion := 2\<rparr>)) = CHR ''{'' # rest"
      "unmarshalReplay (marshalReplay (st\<lparr>rsVersion := 2\<rparr>)) = Some (st\<lparr>rsVersion := 2\<rparr>)"
    and h': "same_or_older h' h"
  shows "replayDetected h' (NewImporterWithTrust sha
    (Some (LoadState unmarshalReplay unmarshalIDs gcmOpen (SaveState marshalReplay gcmSeal nonce st))) keys identity ts t)"
proof -
  have "committed h i1" and st: "replayState i1 = st" "seenBundleIDs i1 = BundleIDs st"
    using commit commitReplay_committed[of h key i] by (auto simp: commitReplay_def Let_def split: if_splits)
  moreover have "LoadState unmarshalReplay unmarshalIDs gcmOpen (SaveState marshalReplay gcmSeal nonce st) = Inr (st\<lparr>rsVersion := 2\<rparr>)"
    using replay_store_roundtrip[of gcmOpen nonce gcmSeal marshalReplay st unmarshalReplay unmarshalIDs] gcm json
    by (simp add: ReplayStateVersion_def)
  ultimately have "committed h (NewImporterWithTrust sha
    (Some (LoadState unmarshalReplay unmarshalIDs gcmOpen (SaveState marshalReplay gcmSeal nonce st))) keys identity ts t)"
    by (simp add: committed_def NewImporterWithTrust_def Let_def)
  then show ?thesis using h' by (rule committed_replayDetected)
qed

section \<open>The text forms of a bundle\<close>

lemma length_b64_group_encode: "length (b64_group_encode bs) = RawEncodedLen (length bs)"
proof (induction bs rule: b64_group_encode.induct)
  case (4 a b c r)
  then show ?case by (simp add: RawEncodedLen_def)
qed (simp_all add: RawEncodedLen_def)

lemma RawEncodedLen_mono: "m \<le> n \<Longrightarrow> RawEncodedLen m \<le> RawEncodedLen n"
proof -
  have eq: "RawEncodedLen k = (8 * k + 5) div 6" for k
  proof -
    have "8 * k + 5 = (k mod 3 * 8 + 5) + (k div 3 * 4) * 6" using div_mult_mod_eq[of k 3] by linarith
    then have "(8 * k + 5) div 6 = (k mod 3 * 8 + 5) div 6 + k div 3 * 4" by (simp only: div_mult_self2)
    then show ?thesis by (simp add: RawEncodedLen_def)
  qed
  show "m \<le> n \<Longrightarrow> RawEncodedLen m \<le> RawEncodedLen n" unfolding eq by (intro div_le_mono) simp
qed

text \<open>
  The URI form is exact: a bundle of admissible size in its URI form is parsed like its bytes.
\<close>

theorem parse_uri_exact:
  assumes "length raw \<le> MaxBundleSize"
  shows "ParseURI env (uriPrefix @ EncodeToString raw) now ptr i = ParseBytes env raw now ptr i"
proof -
  have "length (EncodeToString raw) \<le> RawEncodedLen MaxBundleSize"
    using assms by (simp add: EncodeToString_def length_b64_group_encode RawEncodedLen_mono)
  then show ?thesis by (simp add: ParseURI_def)
qed

theorem parse_uri_exact_witness:
  "\<forall>env now ptr i. ParseURI env (uriPrefix @ EncodeToString [1, 2, 3]) now ptr i = ParseBytes env [1, 2, 3] now ptr i"
  by (intro allI parse_uri_exact) (simp add: MaxBundleSize_def)

lemma TrimSpace_chunk_text: "raw \<noteq> [] \<Longrightarrow> TrimSpace (chunkTextPrefix @ EncodeToString raw) = chunkTextPrefix @ EncodeToString raw"
  using plain_EncodeToString[of raw]
  by (intro TrimSpace_ends) (auto simp: chunkTextPrefix_def plain_char_def plain_def)

text \<open>The loop over the lines follows the reassembler up to the first delivery.\<close>

lemma parseLines_run:
  assumes "snd (run (reassembler_step (beSha env) order) (map2 DoAddChunk cs (replicate (length cs) nanos)) r) =
      replicate (length cs - 1) (Inr None) @ [Inr (Some payload)]"
    and "list_all2 (\<lambda>line c. TrimSpace line = line \<and> line \<noteq> [] \<and> ParseEncodedChunkText (beSha env) line = Inr c) lines cs" "cs \<noteq> []"
  shows "parseLines env order lines nanos now ptr r i = ParseBytes env payload now ptr i"
  using assms
proof (induction cs arbitrary: lines r)
  case Nil
  then show ?case by simp
next
  case (Cons c cs)
  obtain line lines' where lines: "lines = line # lines'" "TrimSpace line = line" "line \<noteq> []" "ParseEncodedChunkText (beSha env) line = Inr c"
    "list_all2 (\<lambda>line c. TrimSpace line = line \<and> line \<noteq> [] \<and> ParseEncodedChunkText (beSha env) line = Inr c) lines' cs"
    using Cons.prems(2) by (auto simp: list_all2_Cons2)
  show ?case
  proof (cases "cs = []")
    case True
    then show ?thesis using Cons.prems(1) lines by (auto simp: Let_def split_beta)
  next
    case False
    then have rep: "replicate (length (c # cs) - 1) (Inr None :: chunk_error + bytes option) = Inr None # replicate (length cs - 1) (Inr None)"
      by (cases cs) simp_all
    have outs: "snd (AddChunk (beSha env) order c nanos r) = Inr None"
      "snd (run (reassembler_step (beSha env) order) (map2 DoAddChunk cs (replicate (length cs) nanos)) (fst (AddChunk (beSha env) order c nanos r))) =
      replicate (length cs - 1) (Inr None) @ [Inr (Some payload)]"
      using Cons.prems(1) unfolding rep by (simp_all add: Let_def)
    show ?thesis using Cons.IH[OF outs(2) lines(5) False] outs(1) lines by (simp add: Let_def split_beta)
  qed
qed


section \<open>Concrete imports\<close>

definition sample_hdr :: "nat \<Rightarrow> string \<Rightarrow> byte \<Rightarrow> BundleHeader" where
  "sample_hdr seq bid n = \<lparr>hMagic = ''SNB1'', hBundleID = bid, hPublisherKeyID = Ed25519KeyID sample_sha sample_root,
     hRecipientKeyID = ''age-x25519:'' @ fingerprint16 sample_sha '''', hSeq = seq, hNonce = EncodeToString (replicate 24 n), hCreatedAt = 100,
     hExpiresAt = 200, hCipher = ''age-x25519'', hSignature = EncodeToString (replicate 64 9)\<rparr>"

definition sample_read :: "bytes \<Rightarrow> BundleHeader" where
  "sample_read b = (if b = [1] then sample_hdr 7 ''b'' 3 else sample_hdr 8 ''c'' 4)"

definition sample_env :: "(unit, unit) bundle_env" where
  "sample_env = \<lparr>beSha = sample_sha, beVerify = (\<lambda>_ _ _. True), beParseHeader = (\<lambda>b. Some (sample_read b)),
     beDecodeWrapper = (\<lambda>b. Some (sample_read b, EncodeToString [5])), beMarshalHeader = (\<lambda>_. [8]), beRecipient = (\<lambda>_. ''''),
     beAgeDecrypt = (\<lambda>_ _. AgeOk [5]), beDecodePayload = (\<lambda>_. Some ()), beCanonical = (\<lambda>_. [5]), beValidatePayload = (\<lambda>_ _ _. [])\<rparr>"

definition sample_importer :: "unit Importer" where
  "sample_importer = NewImporterWithTrust sample_sha None [sample_root] (Some ()) None 0"

lemma sample_trusted: "trustedByKeyID sample_importer = fmupd (Ed25519KeyID sample_sha sample_root) sample_root fmempty"
  by (simp add: sample_importer_def NewImporterWithTrust_def trustKeys_def sample_root_def PublicKeySize_def)

lemma sample_verify:
  assumes "b = [1] \<or> b = [2]"
  shows "verifyIn sample_env b sample_root \<lparr>voNow = 120, voAgeIdentity = Some (), voRequireDecrypt = True\<rparr> = Inr (sample_read b, Some ())"
proof -
  have "headerIssues (sample_hdr seq [c] n) (Ed25519KeyID sample_sha sample_root) 120 = []" if "0 < seq" "plain_char c" for seq c n
    using that by (auto simp: headerIssues_Nil sample_hdr_def bundle_consts decodeBundleNonce_EncodeToString TrimSpace_plain)
  then have "headerIssues (sample_read b) (Ed25519KeyID sample_sha sample_root) 120 = []"
    by (simp add: sample_read_def plain_char_def)
  moreover have "sizeIssues (EncodeToString [5]) (hSignature (sample_read b)) = []"
    by (simp add: sizeIssues_Nil sample_read_def sample_hdr_def bundle_consts)
  moreover have "decryptPayloadBytes sample_sha (\<lambda>_. '''') (\<lambda>_ _. AgeOk [5]) (sample_read b) [5] (Some ()) = Inr [5]"
  proof -
    have "plain (''age-x25519:'' @ fingerprint16 sample_sha '''')" by (simp add: fingerprint16_def plain_char_def)
    then show ?thesis by (auto simp: decryptPayloadBytes_def sample_read_def sample_hdr_def TrimSpace_plain bundle_consts)
  qed
  ultimately show ?thesis
    using assms by (auto simp: verifyIn_def VerifyBundle_def sample_env_def Let_def bundle_consts sample_root_def)
qed

lemma sample_parse:
  assumes "b = [1] \<or> b = [2]" "trustedByKeyID i = trustedByKeyID sample_importer" "trustState i = None" "ageIdentity i = Some ()"
  shows "ParseBytes sample_env b 120 ptr i =
    (fst (reserveReplay (sample_read b) ptr i), rbind (snd (reserveReplay (sample_read b) ptr i)) (\<lambda>_. Inr ()))"
proof -
  have hdr: "beParseHeader sample_env b = Some (sample_read b)" "hCipher (sample_read b) = ''age-x25519''"
    "hPublisherKeyID (sample_read b) = Ed25519KeyID sample_sha sample_root"
    by (simp_all add: sample_env_def sample_read_def sample_hdr_def)
  show ?thesis
    using assms sample_verify[OF assms(1)]
    by (auto simp: ParseBytes_def verifyAndReserve_def hdr isSignerRevoked_def sample_trusted MaxBundleSize_def)
qed

lemma sample_importer_fields:
  "trustState sample_importer = None" "ageIdentity sample_importer = Some ()" "replayState sample_importer = emptyReplayState"
  "seenBundleIDs sample_importer = {||}" "pendingReplay sample_importer = fmempty" "pendingPayload sample_importer = []"
  by (simp_all add: sample_importer_def NewImporterWithTrust_def emptyReplayState_def)

definition sample_parsed :: "unit Importer" where
  "sample_parsed = fst (reserveReplay (sample_read [1]) 0 sample_importer)"

lemma sample_parsed_eq:
  "sample_parsed = sample_importer\<lparr>pendingReplay := fmupd (replayKey (sample_read [1])) (sample_read [1]) fmempty,
     pendingPayload := [(0, replayKey (sample_read [1]))]\<rparr>"
  "ParseBytes sample_env [1] 120 0 sample_importer = (sample_parsed, Inr ())"
proof -
  have "\<not> replayDetected (sample_read [1]) sample_importer"
    by (simp add: replayDetected_def sample_importer_fields emptyReplayState_def)
  then have r: "reserveReplay (sample_read [1]) 0 sample_importer =
     (sample_importer\<lparr>pendingReplay := fmupd (replayKey (sample_read [1])) (sample_read [1]) fmempty,
       pendingPayload := [(0, replayKey (sample_read [1]))]\<rparr>, Inr ())"
    by (simp add: reserveReplay_def sample_importer_fields)
  then show "sample_parsed = sample_importer\<lparr>pendingReplay := fmupd (replayKey (sample_read [1])) (sample_read [1]) fmempty,
     pendingPayload := [(0, replayKey (sample_read [1]))]\<rparr>" by (simp add: sample_parsed_def)
  show "ParseBytes sample_env [1] 120 0 sample_importer = (sample_parsed, Inr ())"
    using sample_parse[of "[1]" sample_importer 0] r by (simp add: sample_importer_fields sample_parsed_def)
qed

theorem import_sound_witness:
  "\<exists>h c64 key. beDecodeWrapper sample_env [1] = Some (h, c64) \<and>
     fmlookup (trustedByKeyID sample_importer) (hPublisherKeyID h) = Some key \<and> \<not> replayDetected h sample_importer \<and> 120 \<le> hExpiresAt h"
proof -
  have "sample_importer = NewImporterWithTrust (beSha sample_env) None [sample_root] (Some ()) None 0"
    by (simp add: sample_importer_def sample_env_def)
  moreover have "sample_importer = fst (run (import_step sample_env (\<lambda>m. m)) [] sample_importer)" by simp
  ultimately show ?thesis using import_sound[OF _ _ sample_parsed_eq(2)] by blast
qed

definition sample_committed :: "unit Importer" where
  "sample_committed = fst (run (import_step sample_env (\<lambda>m. m)) [DoCommit 0] sample_parsed)"

lemma sample_pending: "pendingHeader 0 sample_parsed = (sample_read [1], replayKey (sample_read [1]))" "replayKey (sample_read [1]) \<noteq> ''''"
  by (simp_all add: pendingHeader_def sample_parsed_eq(1) replayKey_def)

theorem committed_not_replayed_witness:
  "\<exists>h' c64. beDecodeWrapper sample_env [2] = Some (h', c64) \<and> \<not> same_or_older h' (sample_read [1])"
proof -
  have com: "sample_committed = fst (commitReplay (sample_read [1]) (replayKey (sample_read [1])) sample_parsed)"
    using sample_pending by (simp add: sample_committed_def commitPayload_def Let_def)
  have hdrs: "hBundleID (sample_read [1]) = ''b''" "hBundleID (sample_read [2]) = ''c''" "hSeq (sample_read [1]) = 7" "hSeq (sample_read [2]) = 8"
    "hPublisherKeyID (sample_read [2]) = hPublisherKeyID (sample_read [1])" "hNonce (sample_read [2]) \<noteq> hNonce (sample_read [1])"
    by (simp_all add: sample_read_def sample_hdr_def)
  have "\<not> replayDetected (sample_read [2]) sample_committed"
    using hdrs by (simp add: replayDetected_def com commitReplay_def commitSigner_def Let_def sample_parsed_eq(1) sample_importer_fields emptyReplayState_def)
  moreover have "trustedByKeyID sample_committed = trustedByKeyID sample_importer" "trustState sample_committed = None"
    "ageIdentity sample_committed = Some ()"
    by (simp_all add: com commitReplay_def Let_def sample_parsed_eq(1) sample_importer_fields)
  ultimately have parse: "ParseBytes sample_env [2] 120 1 sample_committed = (fst (reserveReplay (sample_read [2]) 1 sample_committed), Inr ())"
    using sample_parse[of "[2]" sample_committed 1] by (simp add: reserveReplay_def)
  have keys: "keys_ok (beSha sample_env) sample_parsed"
    using NewImporterWithTrust_keys_ok[of sample_sha None "[sample_root]" "Some ()" None 0]
    by (simp add: keys_ok_def sample_parsed_eq(1) sample_importer_def sample_env_def)
  show ?thesis
    using committed_not_replayed[OF sample_pending _ keys _ parse, of "\<lambda>m. m" "[]"] hdrs by (simp add: sample_committed_def)
qed

theorem replay_survives_restart_witness:
  "let st = the (snd (commitReplay (sample_read [1]) ''k'' sample_importer))
   in replayDetected (sample_read [1]) (NewImporterWithTrust sample_sha (Some (LoadState (\<lambda>_. Some (st\<lparr>rsVersion := 2\<rparr>)) (\<lambda>_. None)
       (\<lambda>_ c. Some (bytes_string c)) (SaveState (\<lambda>_. ''{}'') (\<lambda>_ p. str_bytes p) (replicate 12 0) st))) [sample_root] (Some ()) None 0)"
proof -
  have "\<exists>st. snd (commitReplay (sample_read [1]) ''k'' sample_importer) = Some st"
    by (simp add: commitReplay_def Let_def sample_read_def sample_hdr_def)
  then obtain st where st: "snd (commitReplay (sample_read [1]) ''k'' sample_importer) = Some st" by blast
  then have commit: "commitReplay (sample_read [1]) ''k'' sample_importer = (fst (commitReplay (sample_read [1]) ''k'' sample_importer), Some st)"
    by (metis prod.collapse)
  have inv: "bytes_string (str_bytes p) = p" for p
    by (simp add: bytes_string_def str_bytes_def unat_word_of_nat_byte comp_def map_idI)
  show ?thesis unfolding Let_def st option.sel using commit
    by (rule replay_survives_restart) (simp_all add: inv same_or_older_def TrimSpace_plain plain_char_def)
qed


end
