(* ===== verification/Proxy_Failover.thy ===== *)
theory Proxy_Failover
  imports Go_Prelude
begin

text \<open>
  The failover engine (\<^verbatim>\<open>pkg/proxycore/failover.go\<close>, \<^verbatim>\<open>pkg/proxycore/core_interface.go\<close>): it tries candidate proxy cores in order behind a kill
  switch and keeps the first that validates, reloads and is healthy.

  The kill switch is an interface; its operations are arguments of the engine's definitions, its laws the locale
  \<open>kill_switch\<close>, and \<^verbatim>\<open>NoopKillSwitch\<close>, the only implementation of the repository, an interpretation. What a core and the
  context answer during one attempt is part of the candidate. \<open>trace\<close> records the calls that leave the engine, each reload
  together with the position of the kill switch at that moment; it has no counterpart in the code.
\<close>

section \<open>Kill switches\<close>

locale kill_switch =
  fixes engage :: "bool \<Rightarrow> 'k \<Rightarrow> 'k \<times> bool" and release :: "bool \<Rightarrow> 'k \<Rightarrow> 'k \<times> bool" and isEngaged :: "'k \<Rightarrow> bool"
  assumes engage_ok: "snd (engage cancelled k) \<Longrightarrow> isEngaged (fst (engage cancelled k))"
    and engage_fail: "\<not> snd (engage cancelled k) \<Longrightarrow> isEngaged (fst (engage cancelled k)) = isEngaged k"
    and engage_live: "snd (engage False k)"
    and release_ok: "snd (release cancelled k) \<Longrightarrow> \<not> isEngaged (fst (release cancelled k))"
    and release_fail: "\<not> snd (release cancelled k) \<Longrightarrow> isEngaged (fst (release cancelled k)) = isEngaged k"
    and release_live: "snd (release False k)"

text \<open>The flag \<open>cancelled\<close> says whether the context is done when the call is made.\<close>

record NoopKillSwitch =
  engaged :: bool

definition Noop_Engage :: "bool \<Rightarrow> NoopKillSwitch \<Rightarrow> NoopKillSwitch \<times> bool" where
  "Noop_Engage cancelled k = (if cancelled then (k, False) else (k\<lparr>engaged := True\<rparr>, True))"

definition Noop_Release :: "bool \<Rightarrow> NoopKillSwitch \<Rightarrow> NoopKillSwitch \<times> bool" where
  "Noop_Release cancelled k = (if cancelled then (k, False) else (k\<lparr>engaged := False\<rparr>, True))"

interpretation noop: kill_switch Noop_Engage Noop_Release engaged
  by unfold_locales (auto simp: Noop_Engage_def Noop_Release_def split: if_splits)

section \<open>The engine\<close>

datatype RuntimeState = StateIdle | StateIsolated | StateValidating | StateStarting | StateRunning | StateDegraded | StateBeacon | StateFailed

record FailoverPolicy =
  ValidationTimeout :: int
  HealthTimeout :: int
  BackoffBase :: int
  BackoffMax :: int
  MaxConsecutiveFailures :: int
  MaxTCPResets :: int
  MaxTLSTimeouts :: int
  MaxPacketDropPercent :: int

definition DefaultFailoverPolicy :: FailoverPolicy where
  "DefaultFailoverPolicy = \<lparr>ValidationTimeout = 5000000000, HealthTimeout = 10000000000, BackoffBase = 500000000,
     BackoffMax = 8000000000, MaxConsecutiveFailures = 2, MaxTCPResets = 3, MaxTLSTimeouts = 2, MaxPacketDropPercent = 40\<rparr>"

record HealthSample =
  Status :: string
  Reason :: string
  ConsecutiveFailures :: int
  TCPResetCount :: int
  TLSTimeoutCount :: int
  PacketDropPercent :: int

text \<open>The answers of one attempt: \<open>None\<close> is a nil error. \<open>aValidate\<close> is the error of the core or of the timeout, whichever comes first.\<close>

record Answers =
  aSleep :: "string option"
  aValidate :: "string option"
  aEngageDone :: bool
  aReload :: "string option"
  aHealth :: HealthSample
  aHealthErr :: "string option"
  aReleaseDone :: bool

record Candidate =
  cID :: string
  cProtocol :: string
  cCore :: "string option"
  cAnswers :: Answers

record Attempt =
  atID :: string
  atCore :: string
  atState :: RuntimeState
  atError :: string

datatype failover_error = ErrNoCandidate | ErrAllCandidatesFailed "string option" | ErrOf string | ErrKillSwitch

record SwitchResult =
  Selected :: "Candidate option"
  State :: RuntimeState
  Attempts :: "Attempt list"
  Err :: "failover_error option"

datatype call = Sleep string int | Emit string string | Engage bool | Release bool | Reload string bool | Stop string

record 'k Engine =
  policy :: FailoverPolicy
  killSwitch :: 'k
  eState :: RuntimeState
  activeID :: string
  failures :: "string \<Rightarrow> int"
  trace :: "call list"

definition NewEngine :: "FailoverPolicy \<Rightarrow> 'k \<Rightarrow> 'k Engine" where
  "NewEngine p k = \<lparr>policy = (if ValidationTimeout p = 0 then DefaultFailoverPolicy else p), killSwitch = k, eState = StateIdle,
     activeID = '''', failures = (\<lambda>_. 0), trace = []\<rparr>"

definition IsDegraded :: "HealthSample \<Rightarrow> FailoverPolicy \<Rightarrow> bool" where
  "IsDegraded s p =
     (if Status s \<noteq> '''' \<and> Status s \<noteq> ''ok'' then True
      else if Reason s \<noteq> '''' \<and> Reason s \<noteq> ''OK'' then True
      else if MaxConsecutiveFailures p > 0 \<and> ConsecutiveFailures s \<ge> MaxConsecutiveFailures p then True
      else if MaxTCPResets p > 0 \<and> TCPResetCount s \<ge> MaxTCPResets p then True
      else if MaxTLSTimeouts p > 0 \<and> TLSTimeoutCount s \<ge> MaxTLSTimeouts p then True
      else if MaxPacketDropPercent p > 0 \<and> PacketDropPercent s \<ge> MaxPacketDropPercent p then True
      else False)"

definition backoffFor :: "string \<Rightarrow> 'k Engine \<Rightarrow> int" where
  "backoffFor i e =
     (let n = failures e i in
      if n \<le> 0 \<or> BackoffBase (policy e) \<le> 0 then 0
      else let delay = wrap64 (BackoffBase (policy e) * 2 ^ nat (min (n - 1) 6))
           in if BackoffMax (policy e) > 0 \<and> delay > BackoffMax (policy e) then BackoffMax (policy e) else delay)"

definition recordFailure :: "string \<Rightarrow> 'k Engine \<Rightarrow> 'k Engine" where
  "recordFailure i e = e\<lparr>failures := (failures e)(i := failures e i + 1)\<rparr>"

definition clearFailure :: "string \<Rightarrow> 'k Engine \<Rightarrow> 'k Engine" where
  "clearFailure i e = e\<lparr>failures := (failures e)(i := 0)\<rparr>"

definition setState :: "RuntimeState \<Rightarrow> 'k Engine \<Rightarrow> 'k Engine" where
  "setState st e = e\<lparr>eState := st\<rparr>"

definition setActive :: "string \<Rightarrow> RuntimeState \<Rightarrow> 'k Engine \<Rightarrow> 'k Engine" where
  "setActive i st e = e\<lparr>activeID := i, eState := st\<rparr>"

definition log_call :: "call \<Rightarrow> 'k Engine \<Rightarrow> 'k Engine" where
  "log_call c e = e\<lparr>trace := trace e @ [c]\<rparr>"

definition emit :: "string \<Rightarrow> Candidate \<Rightarrow> 'k Engine \<Rightarrow> 'k Engine" where
  "emit ev c e = log_call (Emit ev (cID c)) e"

definition engageIn :: "(bool \<Rightarrow> 'k \<Rightarrow> 'k \<times> bool) \<Rightarrow> bool \<Rightarrow> 'k Engine \<Rightarrow> 'k Engine \<times> bool" where
  "engageIn engage cancelled e =
     (let (k, ok) = engage cancelled (killSwitch e) in (log_call (Engage ok) (e\<lparr>killSwitch := k\<rparr>), ok))"

definition releaseIn :: "(bool \<Rightarrow> 'k \<Rightarrow> 'k \<times> bool) \<Rightarrow> bool \<Rightarrow> 'k Engine \<Rightarrow> 'k Engine \<times> bool" where
  "releaseIn release cancelled e =
     (let (k, ok) = release cancelled (killSwitch e) in (log_call (Release ok) (e\<lparr>killSwitch := k\<rparr>), ok))"

text \<open>
  One round of the loop: go on with the next candidate, with the attempt that was added and the error that becomes \<^verbatim>\<open>lastErr\<close>, or
  return.
\<close>

datatype 'k round = Next "'k Engine" Attempt "string option" | Return "'k Engine" SwitchResult

definition tryCandidate ::
    "(bool \<Rightarrow> 'k \<Rightarrow> 'k \<times> bool) \<Rightarrow> (bool \<Rightarrow> 'k \<Rightarrow> 'k \<times> bool) \<Rightarrow> ('k \<Rightarrow> bool) \<Rightarrow> Candidate \<Rightarrow> Attempt list \<Rightarrow> 'k Engine \<Rightarrow> 'k round" where
  "tryCandidate engage release isEngaged c attempts e0 =
     (let a = cAnswers c; i = cID c; att = (\<lambda>st err. \<lparr>atID = i, atCore = the (cCore c), atState = st, atError = err\<rparr>) in
      if cCore c = None then Next e0 \<lparr>atID = i, atCore = '''', atState = StateFailed, atError = ''missing proxy core''\<rparr> None
      else let delay = backoffFor i e0; e1 = (if delay > 0 then log_call (Sleep i delay) e0 else e0) in
      if delay > 0 \<and> aSleep a \<noteq> None
      then Return e1 \<lparr>Selected = None, State = eState e1, Attempts = attempts, Err = map_option ErrOf (aSleep a)\<rparr>
      else let e2 = emit ''CORE_VALIDATE_START'' c (setState StateValidating e1) in
      case aValidate a of
        Some err \<Rightarrow> Next (emit ''CORE_VALIDATE_FAIL'' c (recordFailure i e2)) (att StateFailed err) (Some err)
      | None \<Rightarrow>
          (let (e3, ok) = engageIn engage (aEngageDone a) (setState StateIsolated (emit ''CORE_VALIDATE_OK'' c e2)) in
           if \<not> ok then Return e3 \<lparr>Selected = None, State = StateIsolated, Attempts = attempts, Err = Some ErrKillSwitch\<rparr>
           else let e4 = emit ''CORE_SWITCH_START'' c (setState StateStarting e3);
                    e5 = log_call (Reload i (isEngaged (killSwitch e4))) e4 in
           case aReload a of
             Some err \<Rightarrow> Next (emit ''CORE_SWITCH_FAIL'' c (recordFailure i (log_call (Stop i) e5))) (att StateFailed err) (Some err)
           | None \<Rightarrow>
               if aHealthErr a \<noteq> None \<or> IsDegraded (aHealth a) (policy e5)
               then let err = (case aHealthErr a of Some err \<Rightarrow> err | None \<Rightarrow> ''degraded link'')
                    in Next (emit ''CORE_HEALTH_DEGRADED'' c (recordFailure i (log_call (Stop i) e5))) (att StateDegraded err) (Some err)
               else let (e6, ok) = releaseIn release (aReleaseDone a) e5 in
                    if \<not> ok then Return (log_call (Stop i) e6)
                        \<lparr>Selected = None, State = StateIsolated, Attempts = attempts, Err = Some ErrKillSwitch\<rparr>
                    else Return (emit ''CORE_SWITCH_OK'' c (setActive i StateRunning (clearFailure i e6)))
                        \<lparr>Selected = Some c, State = StateRunning, Attempts = attempts @ [att StateRunning ''''], Err = None\<rparr>))"

fun switchLoop ::
    "(bool \<Rightarrow> 'k \<Rightarrow> 'k \<times> bool) \<Rightarrow> (bool \<Rightarrow> 'k \<Rightarrow> 'k \<times> bool) \<Rightarrow> ('k \<Rightarrow> bool) \<Rightarrow> bool \<Rightarrow> Candidate list \<Rightarrow> Attempt list \<Rightarrow> string option \<Rightarrow>
     'k Engine \<Rightarrow> 'k Engine \<times> SwitchResult" where
  "switchLoop engage release isEngaged done [] attempts lastErr e =
     (setState StateBeacon (fst (engageIn engage done e)),
      \<lparr>Selected = None, State = StateBeacon, Attempts = attempts, Err = Some (ErrAllCandidatesFailed lastErr)\<rparr>)"
| "switchLoop engage release isEngaged done (c # cs) attempts lastErr e =
     (case tryCandidate engage release isEngaged c attempts e of
        Return e' r \<Rightarrow> (e', r)
      | Next e' att err \<Rightarrow>
          switchLoop engage release isEngaged done cs (attempts @ [att]) (case err of None \<Rightarrow> lastErr | Some x \<Rightarrow> Some x) e')"

text \<open>\<open>done\<close> says whether the context is done when the loop has run out of candidates.\<close>

definition Switch ::
    "(bool \<Rightarrow> 'k \<Rightarrow> 'k \<times> bool) \<Rightarrow> (bool \<Rightarrow> 'k \<Rightarrow> 'k \<times> bool) \<Rightarrow> ('k \<Rightarrow> bool) \<Rightarrow> bool \<Rightarrow> Candidate list \<Rightarrow> 'k Engine \<Rightarrow>
     'k Engine \<times> SwitchResult" where
  "Switch engage release isEngaged done candidates e =
     (if candidates = [] then (e, \<lparr>Selected = None, State = StateFailed, Attempts = [], Err = Some ErrNoCandidate\<rparr>)
      else switchLoop engage release isEngaged done candidates [] None e)"

section \<open>Health monitor\<close>

text \<open>The monitor's two buffered channels; a send to a full channel is dropped.\<close>

record NetworkHealthMonitor =
  mPolicy :: FailoverPolicy
  inQ :: "HealthSample list"
  outQ :: "HealthSample list"
  capacity :: nat

definition NewNetworkHealthMonitor :: "FailoverPolicy \<Rightarrow> int \<Rightarrow> NetworkHealthMonitor" where
  "NewNetworkHealthMonitor p buffer =
     \<lparr>mPolicy = (if ValidationTimeout p = 0 then DefaultFailoverPolicy else p), inQ = [], outQ = [],
      capacity = (if buffer \<le> 0 then 16 else nat buffer)\<rparr>"

definition Record :: "HealthSample \<Rightarrow> NetworkHealthMonitor \<Rightarrow> NetworkHealthMonitor" where
  "Record s m = (if length (inQ m) < capacity m then m\<lparr>inQ := inQ m @ [s]\<rparr> else m)"

definition RunStep :: "NetworkHealthMonitor \<Rightarrow> NetworkHealthMonitor" where
  "RunStep m =
     (case inQ m of
        [] \<Rightarrow> m
      | s # rest \<Rightarrow>
          if IsDegraded s (mPolicy m) \<and> length (outQ m) < capacity m
          then m\<lparr>inQ := rest, outQ := outQ m @ [s]\<rparr> else m\<lparr>inQ := rest\<rparr>)"

datatype monitor_op = DoRecord HealthSample | DoRunStep | DoReceive

fun monitor_step :: "monitor_op \<Rightarrow> NetworkHealthMonitor \<Rightarrow> NetworkHealthMonitor \<times> HealthSample option" where
  "monitor_step (DoRecord s) m = (Record s m, None)"
| "monitor_step DoRunStep m = (RunStep m, None)"
| "monitor_step DoReceive m = (case outQ m of [] \<Rightarrow> (m, None) | s # rest \<Rightarrow> (m\<lparr>outQ := rest\<rparr>, Some s))"

definition monitor_ok :: "FailoverPolicy \<Rightarrow> nat \<Rightarrow> NetworkHealthMonitor \<Rightarrow> bool" where
  "monitor_ok p n m \<longleftrightarrow> mPolicy m = p \<and> capacity m = n \<and> length (inQ m) \<le> n \<and> length (outQ m) \<le> n \<and>
     (\<forall>s \<in> set (outQ m). IsDegraded s p)"

interpretation monitor: state_machine monitor_step "monitor_ok p n"
proof
  show "monitor_ok p n m \<Longrightarrow> monitor_ok p n (fst (monitor_step x m))" for m x
    by (cases x) (auto simp: monitor_ok_def Record_def RunStep_def split: list.splits)
qed

section \<open>Fail closed\<close>

definition viable :: "FailoverPolicy \<Rightarrow> Candidate \<Rightarrow> bool" where
  "viable p c \<longleftrightarrow> cCore c \<noteq> None \<and> aValidate (cAnswers c) = None \<and> aReload (cAnswers c) = None \<and> aHealthErr (cAnswers c) = None \<and>
     \<not> IsDegraded (aHealth (cAnswers c)) p"

definition guarded :: "'k Engine \<Rightarrow> bool" where
  "guarded e \<longleftrightarrow> (\<forall>i. Reload i False \<notin> set (trace e))"

lemmas engine_defs = emit_def log_call_def recordFailure_def clearFailure_def setState_def setActive_def engageIn_def releaseIn_def

context kill_switch
begin

lemma tryCandidate_guarded:
  assumes "guarded e"
  shows "tryCandidate engage release isEngaged c atts e = Next e' att err \<Longrightarrow> guarded e'"
    and "tryCandidate engage release isEngaged c atts e = Return e' r \<Longrightarrow> guarded e'"
  using assms engage_ok
  by (auto simp: tryCandidate_def Let_def engine_defs guarded_def split_beta split: if_splits option.splits)

lemma switchLoop_guarded:
  "guarded e \<Longrightarrow> guarded (fst (switchLoop engage release isEngaged done cs atts lastErr e))"
proof (induction cs arbitrary: atts lastErr e)
  case Nil
  then show ?case by (auto simp: engine_defs guarded_def split_beta)
next
  case (Cons c cs)
  then show ?case
    using tryCandidate_guarded[OF Cons.prems, of c atts]
    by (auto split: round.splits)
qed

end

text \<open>The cores that were reloaded and not stopped since.\<close>

fun running :: "call list \<Rightarrow> string set" where
  "running [] = {}"
| "running (Reload i b # cs) = (if Stop i \<in> set cs then running cs else insert i (running cs))"
| "running (_ # cs) = running cs"

lemma running_snoc [simp]:
  "running (cs @ [Stop i]) = running cs - {i}" "running (cs @ [Reload i b]) = insert i (running cs)"
  "running (cs @ [Emit ev i]) = running cs" "running (cs @ [Sleep i d]) = running cs"
  "running (cs @ [Engage ok]) = running cs" "running (cs @ [Release ok]) = running cs"
  by (induction cs rule: running.induct; force)+

lemma running_append_Emit:
  "running (cs @ Emit ev i # ds) = running (cs @ ds)" "running (cs @ Sleep i d # ds) = running (cs @ ds)"
  "running (cs @ Engage ok # ds) = running (cs @ ds)" "running (cs @ Release ok # ds) = running (cs @ ds)"
  by (induction cs rule: running.induct; force)+

lemma running_reload_stop [simp]: "running (cs @ [Reload i b, Stop i]) = running cs - {i}"
  using running_snoc(1)[of "cs @ [Reload i b]" i] by simp

lemma running_after_reload [simp]:
  "running (cs @ [Reload i b, Stop i, Emit ev j]) = running cs - {i}"
  "running (cs @ [Reload i b, Release ok, Stop i]) = running cs - {i}"
  "running (cs @ [Reload i b, Release ok, Emit ev j]) = insert i (running cs)"
  using running_snoc(3)[of "cs @ [Reload i b, Stop i]" ev j] running_append_Emit(4)[of "cs @ [Reload i b]" ok "[Stop i]"]
    running_append_Emit(4)[of "cs @ [Reload i b]" ok "[Emit ev j]"] running_snoc(3)[of "cs @ [Reload i b]" ev j]
    running_snoc(2)[of cs i b]
  by simp_all

text \<open>What one round does, case by case.\<close>

definition wait_calls :: "Candidate \<Rightarrow> 'k Engine \<Rightarrow> call list" where
  "wait_calls c e = (if backoffFor (cID c) e > 0 then [Sleep (cID c) (backoffFor (cID c) e)] else [])"

lemma running_wait [simp]: "running (cs @ wait_calls c e @ ds) = running (cs @ ds)"
  by (simp add: wait_calls_def running_append_Emit)

lemma tryCandidate_NoCore:
  "cCore c = None \<Longrightarrow> \<exists>att. tryCandidate engage release isEngaged c atts e = Next e att None"
  by (simp add: tryCandidate_def Let_def)

lemma tryCandidate_Sleep:
  assumes "cCore c \<noteq> None" "backoffFor (cID c) e > 0" "aSleep (cAnswers c) \<noteq> None"
  shows "\<exists>e' r. tryCandidate engage release isEngaged c atts e = Return e' r \<and> killSwitch e' = killSwitch e \<and>
    running (trace e') = running (trace e) \<and> trace e' = trace e @ wait_calls c e \<and> State r = eState e \<and> Selected r = None \<and> Err r \<noteq> None"
  using assms by (auto simp: tryCandidate_def Let_def engine_defs wait_calls_def)

lemma tryCandidate_Validate:
  assumes "cCore c \<noteq> None" "\<not> (backoffFor (cID c) e > 0 \<and> aSleep (cAnswers c) \<noteq> None)" "aValidate (cAnswers c) = Some err"
  shows "\<exists>e' att. tryCandidate engage release isEngaged c atts e = Next e' att (Some err) \<and> killSwitch e' = killSwitch e \<and> policy e' = policy e \<and>
    trace e' = trace e @ wait_calls c e @ [Emit ''CORE_VALIDATE_START'' (cID c), Emit ''CORE_VALIDATE_FAIL'' (cID c)]"
  using assms by (auto simp: tryCandidate_def Let_def engine_defs wait_calls_def)

definition validated :: "Candidate \<Rightarrow> 'k Engine \<Rightarrow> bool" where
  "validated c e \<longleftrightarrow> cCore c \<noteq> None \<and> \<not> (backoffFor (cID c) e > 0 \<and> aSleep (cAnswers c) \<noteq> None) \<and> aValidate (cAnswers c) = None"

definition start_calls :: "Candidate \<Rightarrow> 'k Engine \<Rightarrow> call list" where
  "start_calls c e = wait_calls c e @ [Emit ''CORE_VALIDATE_START'' (cID c), Emit ''CORE_VALIDATE_OK'' (cID c)]"

lemma running_start [simp]: "running (cs @ start_calls c e @ ds) = running (cs @ ds)"
  by (simp add: start_calls_def running_append_Emit)

lemma tryCandidate_EngageErr:
  assumes "validated c e" "\<not> snd (engage (aEngageDone (cAnswers c)) (killSwitch e))"
  shows "\<exists>e' r. tryCandidate engage release isEngaged c atts e = Return e' r \<and>
    killSwitch e' = fst (engage (aEngageDone (cAnswers c)) (killSwitch e)) \<and> trace e' = trace e @ start_calls c e @ [Engage False] \<and>
    State r = StateIsolated \<and> Selected r = None \<and> Err r \<noteq> None"
  using assms by (auto simp: tryCandidate_def Let_def engine_defs wait_calls_def start_calls_def validated_def split_beta)

lemma tryCandidate_Failed:
  assumes "validated c e" "snd (engage (aEngageDone (cAnswers c)) (killSwitch e))" "\<not> viable (policy e) c"
  shows "\<exists>e' att err ev. tryCandidate engage release isEngaged c atts e = Next e' att (Some err) \<and>
    killSwitch e' = fst (engage (aEngageDone (cAnswers c)) (killSwitch e)) \<and> policy e' = policy e \<and>
    failures e' = (failures e)(cID c := failures e (cID c) + 1) \<and>
    trace e' = trace e @ start_calls c e @ [Engage True, Emit ''CORE_SWITCH_START'' (cID c),
      Reload (cID c) (isEngaged (killSwitch e')), Stop (cID c), Emit ev (cID c)]"
proof (cases "aReload (cAnswers c)")
  case (Some err)
  then show ?thesis
    using assms by (auto simp: tryCandidate_def Let_def engine_defs wait_calls_def start_calls_def validated_def split_beta)
next
  case None
  then have "aHealthErr (cAnswers c) \<noteq> None \<or> IsDegraded (aHealth (cAnswers c)) (policy e)"
    using assms by (auto simp: viable_def validated_def)
  then show ?thesis
    using assms None by (auto simp: tryCandidate_def Let_def engine_defs wait_calls_def start_calls_def validated_def split_beta)
qed

lemma tryCandidate_Viable:
  fixes engage :: "bool \<Rightarrow> 'k \<Rightarrow> 'k \<times> bool" and e :: "'k Engine"
  defines "k \<equiv> \<lambda>c e. fst (engage (aEngageDone (cAnswers c)) (killSwitch e))"
  assumes "validated c e" "snd (engage (aEngageDone (cAnswers c)) (killSwitch e))" "viable (policy e) c"
  shows "\<not> snd (release (aReleaseDone (cAnswers c)) (k c e)) \<Longrightarrow>
      \<exists>e' r. tryCandidate engage release isEngaged c atts e = Return e' r \<and>
        killSwitch e' = fst (release (aReleaseDone (cAnswers c)) (k c e)) \<and>
        trace e' = trace e @ start_calls c e @ [Engage True, Emit ''CORE_SWITCH_START'' (cID c),
          Reload (cID c) (isEngaged (k c e)), Release False, Stop (cID c)] \<and> State r = StateIsolated \<and> Selected r = None \<and> Err r \<noteq> None"
    and "snd (release (aReleaseDone (cAnswers c)) (k c e)) \<Longrightarrow>
      \<exists>e' r. tryCandidate engage release isEngaged c atts e = Return e' r \<and>
        killSwitch e' = fst (release (aReleaseDone (cAnswers c)) (k c e)) \<and>
        trace e' = trace e @ start_calls c e @ [Engage True, Emit ''CORE_SWITCH_START'' (cID c),
          Reload (cID c) (isEngaged (k c e)), Release True, Emit ''CORE_SWITCH_OK'' (cID c)] \<and>
        State r = StateRunning \<and> Selected r = Some c \<and> Err r = None \<and>
        eState e' = StateRunning \<and> activeID e' = cID c \<and> failures e' = (failures e)(cID c := 0)"
  using assms
  by (auto simp: tryCandidate_def Let_def engine_defs wait_calls_def start_calls_def validated_def viable_def split_beta)

context kill_switch
begin

lemma round_cases:
  obtains
    (Next) e' att err where "tryCandidate engage release isEngaged c atts e = Next e' att err" "policy e' = policy e" "\<not> viable (policy e) c"
      "running (trace e') \<subseteq> running (trace e)" "isEngaged (killSwitch e) \<Longrightarrow> isEngaged (killSwitch e')"
  | (Refused) e' r where "tryCandidate engage release isEngaged c atts e = Return e' r" "Selected r = None" "Err r \<noteq> None"
      "\<And>x. Err r \<noteq> Some (ErrAllCandidatesFailed x)"
      "running (trace e') \<subseteq> running (trace e)" "isEngaged (killSwitch e) \<Longrightarrow> isEngaged (killSwitch e')"
      "aSleep (cAnswers c) \<noteq> None \<or> \<not> snd (engage (aEngageDone (cAnswers c)) (killSwitch e)) \<or>
       (\<exists>k. \<not> snd (release (aReleaseDone (cAnswers c)) k))"
  | (Chosen) e' r where "tryCandidate engage release isEngaged c atts e = Return e' r" "Selected r = Some c" "Err r = None" "State r = StateRunning"
      "viable (policy e) c" "\<not> isEngaged (killSwitch e')" "activeID e' = cID c" "eState e' = StateRunning" "failures e' (cID c) = 0"
      "running (trace e') \<subseteq> insert (cID c) (running (trace e))"
proof -
  let ?k = "fst (engage (aEngageDone (cAnswers c)) (killSwitch e))"
  consider (core) "cCore c = None"
    | (sleep) "cCore c \<noteq> None" "backoffFor (cID c) e > 0" "aSleep (cAnswers c) \<noteq> None"
    | (validate) err where "cCore c \<noteq> None" "\<not> (backoffFor (cID c) e > 0 \<and> aSleep (cAnswers c) \<noteq> None)" "aValidate (cAnswers c) = Some err"
    | (engage) "validated c e" "\<not> snd (engage (aEngageDone (cAnswers c)) (killSwitch e))"
    | (failed) "validated c e" "snd (engage (aEngageDone (cAnswers c)) (killSwitch e))" "\<not> viable (policy e) c"
    | (stuck) "validated c e" "snd (engage (aEngageDone (cAnswers c)) (killSwitch e))" "viable (policy e) c"
        "\<not> snd (release (aReleaseDone (cAnswers c)) ?k)"
    | (chosen) "validated c e" "snd (engage (aEngageDone (cAnswers c)) (killSwitch e))" "viable (policy e) c"
        "snd (release (aReleaseDone (cAnswers c)) ?k)"
    unfolding validated_def by (cases "aValidate (cAnswers c)") blast+
  then show thesis
  proof cases
    case core
    then show thesis using tryCandidate_NoCore[OF core, of engage release isEngaged atts e] Next by (auto simp: viable_def)
  next
    case sleep
    have "\<exists>e' r. tryCandidate engage release isEngaged c atts e = Return e' r \<and> killSwitch e' = killSwitch e \<and>
        trace e' = trace e @ wait_calls c e \<and> Selected r = None \<and> (\<exists>x. Err r = Some (ErrOf x))"
      using sleep by (auto simp: tryCandidate_def Let_def engine_defs wait_calls_def)
    then show thesis using Refused sleep running_wait[of "trace e" c e "[]"] by auto
  next
    case (validate err)
    then show thesis
      using tryCandidate_Validate[OF validate, of engage release isEngaged atts] Next by (auto simp: viable_def running_append_Emit)
  next
    case engage
    have "\<exists>e' r. tryCandidate engage release isEngaged c atts e = Return e' r \<and> killSwitch e' = ?k \<and>
        trace e' = trace e @ start_calls c e @ [Engage False] \<and> Selected r = None \<and> Err r = Some ErrKillSwitch"
      using engage by (auto simp: tryCandidate_def Let_def engine_defs wait_calls_def start_calls_def validated_def split_beta)
    then show thesis using Refused engage engage_fail by auto
  next
    case failed
    then show thesis
      using tryCandidate_Failed[where engage = engage, OF failed, of release isEngaged atts] Next engage_ok
      by (auto simp: running_append_Emit)
  next
    case stuck
    have "\<exists>e' r. tryCandidate engage release isEngaged c atts e = Return e' r \<and>
        killSwitch e' = fst (release (aReleaseDone (cAnswers c)) ?k) \<and>
        trace e' = trace e @ start_calls c e @ [Engage True, Emit ''CORE_SWITCH_START'' (cID c),
          Reload (cID c) (isEngaged ?k), Release False, Stop (cID c)] \<and> Selected r = None \<and> Err r = Some ErrKillSwitch"
      using stuck by (auto simp: tryCandidate_def Let_def engine_defs wait_calls_def start_calls_def validated_def viable_def split_beta)
    moreover have "\<exists>k. \<not> snd (release (aReleaseDone (cAnswers c)) k)" using stuck(4) by blast
    ultimately show thesis using Refused stuck engage_ok release_fail
      by (auto simp: running_append_Emit)
  next
    case chosen
    then show thesis
      using tryCandidate_Viable(2)[where engage = engage and release = release, OF chosen(1,2,3,4), of isEngaged atts] Chosen release_ok
      by (auto simp: running_append_Emit)
  qed
qed

end

context kill_switch
begin

lemma switchLoop_outcome:
  defines "sw \<equiv> switchLoop engage release isEngaged"
  shows "(Selected (snd (sw done cs atts lastErr e)) = None \<longrightarrow> Err (snd (sw done cs atts lastErr e)) \<noteq> None \<and>
      running (trace (fst (sw done cs atts lastErr e))) \<subseteq> running (trace e) \<and>
      (isEngaged (killSwitch e) \<longrightarrow> isEngaged (killSwitch (fst (sw done cs atts lastErr e))))) \<and>
    (\<forall>x. \<not> done \<and> Err (snd (sw done cs atts lastErr e)) = Some (ErrAllCandidatesFailed x) \<longrightarrow>
      isEngaged (killSwitch (fst (sw done cs atts lastErr e)))) \<and>
    (\<forall>c. Selected (snd (sw done cs atts lastErr e)) = Some c \<longrightarrow> c \<in> set cs \<and> viable (policy e) c \<and>
      \<not> isEngaged (killSwitch (fst (sw done cs atts lastErr e))) \<and> activeID (fst (sw done cs atts lastErr e)) = cID c \<and>
      eState (fst (sw done cs atts lastErr e)) = StateRunning \<and> failures (fst (sw done cs atts lastErr e)) (cID c) = 0 \<and>
      State (snd (sw done cs atts lastErr e)) = StateRunning \<and> Err (snd (sw done cs atts lastErr e)) = None \<and>
      running (trace (fst (sw done cs atts lastErr e))) \<subseteq> insert (cID c) (running (trace e)))"
  unfolding sw_def
proof (induction cs arbitrary: atts lastErr e)
  case Nil
  have "isEngaged (killSwitch e) \<Longrightarrow> isEngaged (fst (engage done (killSwitch e)))"
    using engage_ok engage_fail by (cases "snd (engage done (killSwitch e))") auto
  moreover have "\<not> done \<Longrightarrow> isEngaged (fst (engage done (killSwitch e)))" using engage_live engage_ok by simp
  ultimately show ?case by (simp add: engine_defs split_beta)
next
  case (Cons c cs)
  show ?case
  proof (rule round_cases[of c atts e])
    fix e' att err
    assume n: "tryCandidate engage release isEngaged c atts e = Next e' att err" "policy e' = policy e"
      "running (trace e') \<subseteq> running (trace e)" "isEngaged (killSwitch e) \<Longrightarrow> isEngaged (killSwitch e')"
    then show ?thesis
      using Cons.IH[of "atts @ [att]" "case err of None \<Rightarrow> lastErr | Some x \<Rightarrow> Some x" e'] by auto
  next
    fix e' r
    assume "tryCandidate engage release isEngaged c atts e = Return e' r" "Selected r = None" "Err r \<noteq> None"
      "\<And>x. Err r \<noteq> Some (ErrAllCandidatesFailed x)"
      "running (trace e') \<subseteq> running (trace e)" "isEngaged (killSwitch e) \<Longrightarrow> isEngaged (killSwitch e')"
    then show ?thesis by simp
  next
    fix e' r
    assume "tryCandidate engage release isEngaged c atts e = Return e' r" "Selected r = Some c" "Err r = None" "State r = StateRunning"
      "viable (policy e) c" "\<not> isEngaged (killSwitch e')" "activeID e' = cID c" "eState e' = StateRunning" "failures e' (cID c) = 0"
      "running (trace e') \<subseteq> insert (cID c) (running (trace e))"
    then show ?thesis by simp
  qed
qed

lemma switchLoop_first_viable:
  assumes "\<forall>c \<in> set cs. aSleep (cAnswers c) = None \<and> \<not> aEngageDone (cAnswers c) \<and> \<not> aReleaseDone (cAnswers c)"
  shows "Selected (snd (switchLoop engage release isEngaged done cs atts lastErr e)) = find (viable (policy e)) cs"
  using assms
proof (induction cs arbitrary: atts lastErr e)
  case Nil
  then show ?case by simp
next
  case (Cons c cs)
  show ?case
  proof (rule round_cases[of c atts e])
    fix e' att err
    assume "tryCandidate engage release isEngaged c atts e = Next e' att err" "policy e' = policy e" "\<not> viable (policy e) c"
    then show ?thesis using Cons by simp
  next
    fix e' r
    assume "aSleep (cAnswers c) \<noteq> None \<or> \<not> snd (engage (aEngageDone (cAnswers c)) (killSwitch e)) \<or>
       (\<exists>k. \<not> snd (release (aReleaseDone (cAnswers c)) k))"
    then have False using Cons.prems engage_live release_live by simp
    then show ?thesis ..
  next
    fix e' r
    assume "tryCandidate engage release isEngaged c atts e = Return e' r" "Selected r = Some c" "viable (policy e) c"
    then show ?thesis by simp
  qed
qed

end

section \<open>The engine with the kill switch of the repository\<close>

text \<open>
  A switch never reloads a core while traffic can leave: the kill switch is engaged at every reload.
\<close>

theorem reload_behind_kill_switch:
  assumes "(e', r) = Switch Noop_Engage Noop_Release engaged done cs (NewEngine p k)"
  shows "Reload i False \<notin> set (trace e')"
proof -
  have "guarded (NewEngine p k)" by (simp add: guarded_def NewEngine_def)
  then have "guarded e'"
    using assms noop.switchLoop_guarded[of "NewEngine p k" "done" cs "[]" None]
    by (auto simp: Switch_def split: if_splits dest: arg_cong[where f = fst])
  then show ?thesis by (simp add: guarded_def)
qed


text \<open>
  When the context stays alive the engine selects the first viable candidate of the list, and none exactly if there is none.
\<close>

theorem switch_selects_first_viable:
  fixes e :: "NoopKillSwitch Engine"
  assumes "\<forall>c \<in> set cs. aSleep (cAnswers c) = None \<and> \<not> aEngageDone (cAnswers c) \<and> \<not> aReleaseDone (cAnswers c)"
  shows "Selected (snd (Switch Noop_Engage Noop_Release engaged done cs e)) = find (viable (policy e)) cs"
  using noop.switchLoop_first_viable[OF assms] by (simp add: Switch_def)

text \<open>
  The kill switch of an engine whose context is done is not engaged: if every candidate fails validation and the context is
  done at the end, the engine reports the beacon state with traffic unblocked.
\<close>

theorem cancelled_switch_leaves_open:
  fixes e :: "NoopKillSwitch Engine"
  assumes "cs \<noteq> []" "\<forall>c \<in> set cs. cCore c \<noteq> None \<and> aSleep (cAnswers c) = None \<and> aValidate (cAnswers c) \<noteq> None" "\<not> engaged (killSwitch e)"
  shows "eState (fst (Switch Noop_Engage Noop_Release engaged True cs e)) = StateBeacon \<and>
    \<not> engaged (killSwitch (fst (Switch Noop_Engage Noop_Release engaged True cs e)))"
proof -
  have "eState (fst (switchLoop Noop_Engage Noop_Release engaged True cs atts lastErr e)) = StateBeacon \<and>
    \<not> engaged (killSwitch (fst (switchLoop Noop_Engage Noop_Release engaged True cs atts lastErr e)))" for atts lastErr
    using assms(2,3)
  proof (induction cs arbitrary: atts lastErr e)
    case Nil
    then show ?case by (simp add: engine_defs Noop_Engage_def)
  next
    case (Cons c cs)
    obtain err where "aValidate (cAnswers c) = Some err" using Cons.prems(1) by auto
    with Cons.prems obtain e1 att where "tryCandidate Noop_Engage Noop_Release engaged c atts e = Next e1 att (Some err)" "killSwitch e1 = killSwitch e"
      using tryCandidate_Validate[of c e err Noop_Engage Noop_Release engaged atts] by auto
    then show ?case using Cons.IH[of e1] Cons.prems by simp
  qed
  then show ?thesis using assms(1) by (simp add: Switch_def)
qed

text \<open>
  The back-off doubles with every failure up to the sixth doubling and never exceeds its maximum; the 64-bit shift does not
  overflow for a base of at most \<open>2 ^ 56\<close> nanoseconds (two years).
\<close>

theorem backoff_doubles:
  assumes "0 < failures e i" "0 < BackoffBase (policy e)" "BackoffBase (policy e) \<le> 2 ^ 56" "0 < BackoffMax (policy e)"
  shows "backoffFor i e = min (BackoffMax (policy e)) (BackoffBase (policy e) * 2 ^ nat (min (failures e i - 1) 6)) \<and> 0 < backoffFor i e"
proof -
  let ?b = "BackoffBase (policy e)" and ?s = "nat (min (failures e i - 1) 6)"
  have "(2 :: int) ^ ?s \<le> 2 ^ 6" using assms(1) by (intro power_increasing) auto
  then have "?b * 2 ^ ?s \<le> 2 ^ 56 * 2 ^ 6" using assms(2,3) by (intro mult_mono) auto
  moreover have pos: "0 < ?b * 2 ^ ?s" using assms(2) by simp
  ultimately have "wrap64 (?b * 2 ^ ?s) = ?b * 2 ^ ?s" by (intro wrap64_id) auto
  then show ?thesis using assms pos by (auto simp: backoffFor_def Let_def)
qed

text \<open>
  Every sample that the health monitor delivers is degraded under its policy, and neither channel ever holds more than its capacity.
\<close>

theorem monitor_reports_degraded:
  "list_all (\<lambda>out. case out of None \<Rightarrow> True | Some s \<Rightarrow> IsDegraded s (if ValidationTimeout p = 0 then DefaultFailoverPolicy else p))
     (snd (run monitor_step ops (NewNetworkHealthMonitor p buffer))) \<and>
   length (outQ (fst (run monitor_step ops (NewNetworkHealthMonitor p buffer)))) \<le> (if buffer \<le> 0 then 16 else nat buffer)"
proof -
  let ?p = "if ValidationTimeout p = 0 then DefaultFailoverPolicy else p" and ?n = "if buffer \<le> 0 then 16 else nat buffer"
  have new: "monitor_ok ?p ?n (NewNetworkHealthMonitor p buffer)"
    by (simp add: monitor_ok_def NewNetworkHealthMonitor_def)
  have "case out of None \<Rightarrow> True | Some s \<Rightarrow> IsDegraded s ?p" if "out \<in> set (snd (run monitor_step ops (NewNetworkHealthMonitor p buffer)))" for out
  proof (rule monitor.run_output[OF new that])
    fix t x assume "monitor_ok ?p ?n t" "out = snd (monitor_step x t)"
    then show ?thesis by (cases x) (auto simp: monitor_ok_def split: list.splits)
  qed
  then show ?thesis using monitor.run_inv[OF new] by (auto simp: list_all_iff monitor_ok_def)
qed

section \<open>Concrete switches\<close>

definition sample_health :: HealthSample where
  "sample_health = \<lparr>Status = ''ok'', Reason = ''OK'', ConsecutiveFailures = 0, TCPResetCount = 0, TLSTimeoutCount = 0, PacketDropPercent = 0\<rparr>"

definition sample_candidate :: "string \<Rightarrow> string option \<Rightarrow> Candidate" where
  "sample_candidate i err = \<lparr>cID = i, cProtocol = ''tcp'', cCore = Some ''sing-box'', cAnswers =
     \<lparr>aSleep = None, aValidate = err, aEngageDone = False, aReload = None, aHealth = sample_health, aHealthErr = None, aReleaseDone = False\<rparr>\<rparr>"

lemmas sample_switch = sample_candidate_def sample_health_def NewEngine_def DefaultFailoverPolicy_def

theorem reload_behind_kill_switch_witness:
  "Reload ''b'' False \<notin> set (trace (fst (Switch Noop_Engage Noop_Release engaged False
     [sample_candidate ''a'' (Some ''bad''), sample_candidate ''b'' None] (NewEngine DefaultFailoverPolicy \<lparr>engaged = False\<rparr>))))"
  using reload_behind_kill_switch[OF prod.collapse] by blast


theorem switch_selects_first_viable_witness:
  "Selected (snd (Switch Noop_Engage Noop_Release engaged False
     [sample_candidate ''a'' (Some ''bad''), sample_candidate ''b'' None] (NewEngine DefaultFailoverPolicy \<lparr>engaged = False\<rparr>))) =
   Some (sample_candidate ''b'' None)"
  by (subst switch_selects_first_viable) (simp_all add: viable_def IsDegraded_def sample_switch)

theorem cancelled_switch_leaves_open_witness:
  "\<not> engaged (killSwitch (fst (Switch Noop_Engage Noop_Release engaged True [sample_candidate ''a'' (Some ''bad'')]
     (NewEngine DefaultFailoverPolicy \<lparr>engaged = False\<rparr>))))"
  using cancelled_switch_leaves_open[of "[sample_candidate ''a'' (Some ''bad'')]" "NewEngine DefaultFailoverPolicy \<lparr>engaged = False\<rparr>"]
  by (simp add: sample_switch)

theorem backoff_doubles_witness:
  "backoffFor ''a'' ((NewEngine DefaultFailoverPolicy \<lparr>engaged = False\<rparr>)\<lparr>failures := (\<lambda>_. 3)\<rparr>) = 2000000000"
  using backoff_doubles[of "(NewEngine DefaultFailoverPolicy \<lparr>engaged = False\<rparr>)\<lparr>failures := (\<lambda>_. 3)\<rparr>" "''a''"]
  by (simp add: NewEngine_def DefaultFailoverPolicy_def)

end
