(* ===== verification/BLE_Mesh.thy ===== *)
theory BLE_Mesh
  imports Go_Base64
begin

text \<open>
  The BLE gossip engine of the mobile bridge (\<^verbatim>\<open>pkg/mobilebridge/ble_mesh.go\<close>): its mode machine, the 22 byte advertisement and the
  checkpoint of a chunked transfer. HMAC-SHA256, SHA-256 and the JSON codec of a checkpoint are arguments.
\<close>

section \<open>Modes\<close>

datatype mode = IDLE | ADVERTISING_VERSION | DISCOVERING | CONNECTING_GATT | CHUNK_TRANSFER | SUSPENDED

record BLEMeshConfig =
  AdvertiseMs :: int
  ScanMs :: int
  SuspendMs :: int

record BLEMeshState =
  Mode :: mode
  ConfigVersionB64 :: string
  PeerID :: string
  UpdatedAtUnix :: int

record BLETransferCheckpoint =
  TransferID :: string
  PayloadHashB64 :: string
  TotalChunks :: int
  ChunkSize :: int
  Received :: "bool list"
  ckUpdatedAt :: int

record BLEMeshEngine =
  bleState :: BLEMeshState
  bleCfg :: BLEMeshConfig
  bleCheckpoint :: BLETransferCheckpoint

definition truncate_bytes :: "bytes \<Rightarrow> nat \<Rightarrow> bytes" where
  "truncate_bytes b n = (if length b \<le> n then b else take n b)"

definition NewBLEMeshEngine :: "bytes \<Rightarrow> BLEMeshConfig \<Rightarrow> int \<Rightarrow> BLEMeshEngine" where
  "NewBLEMeshEngine configVersion cfg now =
     \<lparr>bleState = \<lparr>Mode = IDLE, ConfigVersionB64 = EncodeToString (truncate_bytes configVersion 16), PeerID = [], UpdatedAtUnix = now\<rparr>,
      bleCfg = \<lparr>AdvertiseMs = (if AdvertiseMs cfg \<le> 0 then 2500 else AdvertiseMs cfg),
                ScanMs = (if ScanMs cfg \<le> 0 then 4500 else ScanMs cfg),
                SuspendMs = (if SuspendMs cfg \<le> 0 then 18000 else SuspendMs cfg)\<rparr>,
      bleCheckpoint = \<lparr>TransferID = [], PayloadHashB64 = [], TotalChunks = 0, ChunkSize = 0, Received = [], ckUpdatedAt = 0\<rparr>\<rparr>"

fun nextMode :: "mode \<Rightarrow> bool \<Rightarrow> mode" where
  "nextMode IDLE peerSeen = ADVERTISING_VERSION"
| "nextMode ADVERTISING_VERSION peerSeen = DISCOVERING"
| "nextMode DISCOVERING peerSeen = (if peerSeen then CONNECTING_GATT else SUSPENDED)"
| "nextMode CONNECTING_GATT peerSeen = CHUNK_TRANSFER"
| "nextMode CHUNK_TRANSFER peerSeen = SUSPENDED"
| "nextMode SUSPENDED peerSeen = ADVERTISING_VERSION"

definition Next :: "int \<Rightarrow> bool \<Rightarrow> BLEMeshEngine \<Rightarrow> BLEMeshEngine \<times> BLEMeshState" where
  "Next now peerSeen e =
     (let s = (bleState e)\<lparr>Mode := nextMode (Mode (bleState e)) peerSeen, UpdatedAtUnix := now\<rparr> in (e\<lparr>bleState := s\<rparr>, s))"

text \<open>The documented transition diagram as a relation; the label says whether a peer was seen.\<close>

inductive mode_step :: "mode \<Rightarrow> bool \<Rightarrow> mode \<Rightarrow> bool" where
  start: "mode_step IDLE p ADVERTISING_VERSION"
| scan: "mode_step ADVERTISING_VERSION p DISCOVERING"
| found: "mode_step DISCOVERING True CONNECTING_GATT"
| quiet: "mode_step DISCOVERING False SUSPENDED"
| connected: "mode_step CONNECTING_GATT p CHUNK_TRANSFER"
| transferred: "mode_step CHUNK_TRANSFER p SUSPENDED"
| again: "mode_step SUSPENDED p ADVERTISING_VERSION"

inductive_simps mode_step_simps [simp]:
  "mode_step IDLE p m" "mode_step ADVERTISING_VERSION p m" "mode_step DISCOVERING p m" "mode_step CONNECTING_GATT p m"
  "mode_step CHUNK_TRANSFER p m" "mode_step SUSPENDED p m"

inductive_cases mode_step_to_connect: "mode_step m p CONNECTING_GATT"

inductive reaches :: "mode \<Rightarrow> bool list \<Rightarrow> mode \<Rightarrow> bool" where
  here: "reaches m [] m"
| onward: "reaches m ps m' \<Longrightarrow> mode_step m' p m'' \<Longrightarrow> reaches m (ps @ [p]) m''"

inductive_cases reaches_snoc: "reaches m ps m'"

lemma mode_step_nextMode: "mode_step m p m' \<longleftrightarrow> m' = nextMode m p"
  by (cases m) auto

lemma Next_Mode [simp]: "Mode (bleState (fst (Next now p e))) = nextMode (Mode (bleState e)) p"
  by (simp add: Next_def Let_def)

lemma run_Next_reaches:
  "reaches (Mode (bleState e)) (map snd ops) (Mode (bleState (fst (run (\<lambda>(now, p). Next now p) ops e))))"
proof (induction ops rule: rev_induct)
  case Nil
  then show ?case by (simp add: reaches.here)
next
  case (snoc x ops)
  obtain now p where x: "x = (now, p)" by (cases x)
  let ?e = "fst (run (\<lambda>(now, p). Next now p) ops e)"
  have "mode_step (Mode (bleState ?e)) p (nextMode (Mode (bleState ?e)) p)" by (simp add: mode_step_nextMode)
  from reaches.onward[OF snoc this] show ?case by (simp add: run_append Let_def x)
qed

lemma reaches_transfer:
  "reaches m ps m' \<Longrightarrow> m = IDLE \<Longrightarrow>
    (m' = CONNECTING_GATT \<longrightarrow> (\<exists>qs. ps = qs @ [True])) \<and> (m' = CHUNK_TRANSFER \<longrightarrow> (\<exists>qs p. ps = qs @ [True, p]))"
proof (induction rule: reaches.induct)
  case (here m)
  then show ?case by simp
next
  case (onward m ps m' p m'')
  then show ?case by (cases m') (auto split: if_splits)
qed

text \<open>
  Every run of the engine is a path of the documented diagram, and a chunk transfer happens only in the second step after a discovery
  that saw a peer.
\<close>

theorem ble_mode_follows_diagram:
  assumes "e = fst (run (\<lambda>(now, p). Next now p) ops (NewBLEMeshEngine v cfg t0))" "Mode (bleState e) = CHUNK_TRANSFER"
  shows "reaches IDLE (map snd ops) CHUNK_TRANSFER \<and> (\<exists>pre t1 t2 p. ops = pre @ [(t1, True), (t2, p)])"
proof -
  have r: "reaches IDLE (map snd ops) CHUNK_TRANSFER"
    using run_Next_reaches[of "NewBLEMeshEngine v cfg t0" ops] assms by (simp add: NewBLEMeshEngine_def)
  obtain qs p where q: "map snd ops = qs @ [True, p]" using reaches_transfer[OF r] by auto
  then obtain pre xs where ops: "ops = pre @ xs" "map snd pre = qs" "map snd xs = [True, p]"
    by (auto simp: map_eq_append_conv)
  then obtain t1 t2 where "xs = [(t1, True), (t2, p)]" by (auto simp: map_eq_Cons_conv)
  then show ?thesis using r ops(1) by blast
qed

theorem ble_mode_follows_diagram_witness:
  "reaches IDLE [False, False, True, False] CHUNK_TRANSFER \<and>
   (\<exists>pre t1 t2 p. [(1, False), (2, False), (3, True), (4, False)] = pre @ [(t1 :: int, True), (t2, p)])"
proof -
  have "Mode (bleState (fst (run (\<lambda>(now, p). Next now p) [(1, False), (2, False), (3, True), (4, False)]
      (NewBLEMeshEngine [1] \<lparr>AdvertiseMs = 0, ScanMs = 0, SuspendMs = 0\<rparr> 0)))) = CHUNK_TRANSFER"
    by (simp add: Let_def NewBLEMeshEngine_def Next_def)
  from ble_mode_follows_diagram[OF refl this] show ?thesis by simp
qed

section \<open>Advertisements\<close>

definition BLEAdvertPayloadSize :: nat where "BLEAdvertPayloadSize = 22"

text \<open>\<^verbatim>\<open>uint32(nowUnix / 90)\<close>: the division truncates towards zero, the conversion keeps 32 bits.\<close>

definition advert_epoch :: "int \<Rightarrow> nat" where
  "advert_epoch nowUnix = nat (quot nowUnix 90 mod 2 ^ 32)"

definition BuildBLEAdvertPayload ::
    "(bytes \<Rightarrow> bytes \<Rightarrow> bytes) \<Rightarrow> (bytes \<Rightarrow> bytes) \<Rightarrow> bytes \<Rightarrow> bytes \<Rightarrow> bytes \<Rightarrow> int \<Rightarrow> bytes option" where
  "BuildBLEAdvertPayload hmac sha secret nodeID configVersion nowUnix =
     (if secret = [] \<or> nodeID = [] \<or> configVersion = [] then None
      else let eb = le_bytes 4 (advert_epoch nowUnix); eph = hmac secret (nodeID @ eb); ver = sha configVersion
           in Some ([0x53, 0x4D, 1, 0] @ eb @ take 8 eph @ take 6 ver))"

definition ParseBLEAdvertPayload :: "bytes \<Rightarrow> (nat \<times> bytes \<times> bytes) option" where
  "ParseBLEAdvertPayload raw =
     (if length raw \<noteq> BLEAdvertPayloadSize \<or> raw ! 0 \<noteq> 0x53 \<or> raw ! 1 \<noteq> 0x4D \<or> raw ! 2 \<noteq> 1 then None
      else Some (le_nat (slice 4 8 raw), slice 8 16 raw, slice 16 22 raw))"

text \<open>
  An advertisement has exactly 22 bytes and the scanner reads back the epoch, the ephemeral peer identifier and the version hash that
  were put in, given digests of at least eight bytes.
\<close>

theorem ble_advert_roundtrip:
  assumes "BuildBLEAdvertPayload hmac sha secret nodeID configVersion nowUnix = Some raw"
    and "\<And>k m. 8 \<le> length (hmac k m)" "\<And>m. 6 \<le> length (sha m)"
  shows "length raw = 22 \<and> ParseBLEAdvertPayload raw =
    Some (advert_epoch nowUnix, take 8 (hmac secret (nodeID @ le_bytes 4 (advert_epoch nowUnix))), take 6 (sha configVersion))"
proof -
  let ?eb = "le_bytes 4 (advert_epoch nowUnix)"
  have raw: "raw = [0x53, 0x4D, 1, 0] @ ?eb @ take 8 (hmac secret (nodeID @ ?eb)) @ take 6 (sha configVersion)"
    using assms(1) by (auto simp: BuildBLEAdvertPayload_def Let_def split: if_splits)
  have lens: "length (take 8 (hmac secret (nodeID @ ?eb))) = 8" "length (take 6 (sha configVersion)) = 6"
    using assms(2)[of secret "nodeID @ ?eb"] assms(3)[of configVersion] by auto
  have "nat (quot nowUnix 90 mod 2 ^ 32) < 256 ^ 4" by (simp add: nat_less_iff)
  then have "le_nat ?eb = advert_epoch nowUnix" by (simp add: le_nat_le_bytes advert_epoch_def)
  moreover have "slice 4 8 raw = ?eb" "slice 8 16 raw = take 8 (hmac secret (nodeID @ ?eb))" "slice 16 22 raw = take 6 (sha configVersion)"
    using lens by (simp_all add: raw slice_def)
  moreover have "length raw = 22" using lens by (simp add: raw)
  moreover have "raw ! 0 = 0x53" "raw ! 1 = 0x4D" "raw ! 2 = 1" by (simp_all add: raw)
  ultimately show ?thesis by (simp add: ParseBLEAdvertPayload_def BLEAdvertPayloadSize_def)
qed

theorem ble_advert_roundtrip_witness:
  "length ([0x53, 0x4D, 1, 0, 2, 0, 0, 0] @ replicate 8 5 @ replicate 6 (7 :: byte)) = 22 \<and>
   ParseBLEAdvertPayload ([0x53, 0x4D, 1, 0, 2, 0, 0, 0] @ replicate 8 5 @ replicate 6 7) =
     Some (advert_epoch 200, take 8 (replicate 32 5), take 6 (replicate 32 7))"
proof -
  have eb: "le_bytes (Suc (Suc (Suc (Suc 0)))) 2 = [2, 0, 0, 0]" by simp
  have four: "(4 :: nat) = Suc (Suc (Suc (Suc 0)))" by simp
  have "BuildBLEAdvertPayload (\<lambda>_ _. replicate 32 5) (\<lambda>_. replicate 32 7) [1] [2] [3] 200 =
      Some ([0x53, 0x4D, 1, 0, 2, 0, 0, 0] @ replicate 8 5 @ replicate 6 7)"
    by (simp add: BuildBLEAdvertPayload_def advert_epoch_def quot_def four eb del: le_bytes.simps)
  from ble_advert_roundtrip[OF this] show ?thesis by simp
qed

section \<open>Transfer checkpoints\<close>

text \<open>\<open>BLEPanic\<close> is the run-time panic of \<^verbatim>\<open>make\<close> with a negative length.\<close>

datatype ble_error = ErrBLEPayloadTooLarge | ErrBLEInvalidChunk | ErrBLEReadFile | ErrBLEUnmarshal | BLEPanic

definition MaxBLEPayloadBytes :: nat where "MaxBLEPayloadBytes = 1048576"

definition NewBLETransferCheckpoint :: "(bytes \<Rightarrow> bytes) \<Rightarrow> bytes \<Rightarrow> int \<Rightarrow> int \<Rightarrow> ble_error + BLETransferCheckpoint" where
  "NewBLETransferCheckpoint sha payload chunkSize0 now =
     (if length payload > MaxBLEPayloadBytes then Inl ErrBLEPayloadTooLarge
      else let chunkSize = (if chunkSize0 \<le> 0 then 160 else chunkSize0);
               total0 = quot (wrap64 (int (length payload) + chunkSize - 1)) chunkSize;
               total = (if total0 = 0 then 1 else total0); sum = sha payload
           in if total < 0 then Inl BLEPanic
              else Inr \<lparr>TransferID = EncodeToString (take 12 sum), PayloadHashB64 = EncodeToString sum, TotalChunks = total,
                   ChunkSize = chunkSize, Received = replicate (nat total) False, ckUpdatedAt = now\<rparr>)"

definition MarkChunk :: "int \<Rightarrow> bytes \<Rightarrow> int \<Rightarrow> BLETransferCheckpoint \<Rightarrow> ble_error + BLETransferCheckpoint" where
  "MarkChunk index chunk now c =
     (if index < 0 \<or> index \<ge> TotalChunks c \<or> int (length (Received c)) \<noteq> TotalChunks c then Inl ErrBLEInvalidChunk
      else if int (length chunk) > ChunkSize c then Inl ErrBLEInvalidChunk
      else Inr (c\<lparr>Received := (Received c)[nat index := True], ckUpdatedAt := now\<rparr>))"

fun firstFalse :: "nat \<Rightarrow> bool list \<Rightarrow> int" where
  "firstFalse i [] = -1"
| "firstFalse i (ok # oks) = (if \<not> ok then int i else firstFalse (Suc i) oks)"

definition NextMissing :: "BLETransferCheckpoint \<Rightarrow> int" where
  "NextMissing c = firstFalse 0 (Received c)"

definition Complete :: "BLETransferCheckpoint \<Rightarrow> bool" where
  "Complete c \<longleftrightarrow> NextMissing c = -1"

text \<open>The file of a checkpoint is written whole, by renaming a temporary file; \<open>None\<close> is a file that does not exist.\<close>

definition SaveBLECheckpoint :: "(BLETransferCheckpoint \<Rightarrow> bytes) \<Rightarrow> BLETransferCheckpoint \<Rightarrow> bytes option" where
  "SaveBLECheckpoint marshal c = Some (marshal c)"

definition LoadBLECheckpoint ::
    "(bytes \<Rightarrow> BLETransferCheckpoint option) \<Rightarrow> bytes option \<Rightarrow> ble_error + BLETransferCheckpoint" where
  "LoadBLECheckpoint unmarshal stored =
     (case stored of None \<Rightarrow> Inl ErrBLEReadFile | Some raw \<Rightarrow>
      case unmarshal raw of
        None \<Rightarrow> Inl ErrBLEUnmarshal
      | Some c \<Rightarrow> if TotalChunks c \<le> 0 \<or> int (length (Received c)) \<noteq> TotalChunks c \<or> ChunkSize c \<le> 0 then Inl ErrBLEInvalidChunk
                  else Inr c)"

definition checkpoint_ok :: "BLETransferCheckpoint \<Rightarrow> bool" where
  "checkpoint_ok c \<longleftrightarrow> 0 < TotalChunks c \<and> 0 < ChunkSize c \<and> int (length (Received c)) = TotalChunks c"

lemma NewBLETransferCheckpoint_ok:
  assumes "length payload \<le> MaxBLEPayloadBytes" "cs < 2 ^ 62"
  shows "\<exists>c. NewBLETransferCheckpoint sha payload cs now = Inr c \<and> checkpoint_ok c \<and>
    int (length payload) \<le> TotalChunks c * ChunkSize c \<and> ChunkSize c = (if cs \<le> 0 then 160 else cs)"
proof -
  define k where "k = (if cs \<le> 0 then 160 else cs)"
  have k: "0 < k" "k < 2 ^ 62" using assms(2) by (simp_all add: k_def)
  let ?n = "int (length payload)" and ?t = "(int (length payload) + k - 1) div k"
  have "wrap64 (?n + k - 1) = ?n + k - 1"
    using assms(1) k by (intro wrap64_id) (simp_all add: MaxBLEPayloadBytes_def)
  then have q: "quot (wrap64 (?n + k - 1)) k = ?t" using k by (simp add: quot_div)
  have "?n + k - 1 = ?t * k + (?n + k - 1) mod k" by simp
  moreover have "(?n + k - 1) mod k < k" using k by simp
  ultimately have "?n \<le> ?t * k" by linarith
  moreover have "0 \<le> ?t" using k by (simp add: pos_imp_zdiv_nonneg_iff)
  ultimately show ?thesis
    using assms k(1) q
    by (auto simp: NewBLETransferCheckpoint_def Let_def checkpoint_ok_def k_def[symmetric])
qed

lemma MarkChunk_ok: "checkpoint_ok c \<Longrightarrow> MarkChunk i chunk now c = Inr c' \<Longrightarrow> checkpoint_ok c'"
  by (auto simp: MarkChunk_def checkpoint_ok_def split: if_splits)

lemma firstFalse_spec:
  "firstFalse i oks = (if list_all (\<lambda>x. x) oks then -1 else int (i + length (takeWhile (\<lambda>x. x) oks)))"
  by (induction oks arbitrary: i) auto

lemma firstFalse_bounds: "firstFalse 0 oks \<noteq> -1 \<Longrightarrow> 0 \<le> firstFalse 0 oks \<and> nat (firstFalse 0 oks) < length oks \<and> \<not> oks ! nat (firstFalse 0 oks)"
proof -
  assume "firstFalse 0 oks \<noteq> -1"
  then have f: "firstFalse 0 oks = int (length (takeWhile (\<lambda>x. x) oks))" "\<not> list_all (\<lambda>x. x) oks"
    by (auto simp: firstFalse_spec split: if_splits)
  then have "takeWhile (\<lambda>x. x) oks \<noteq> oks" by (auto simp: takeWhile_eq_all_conv list_all_iff)
  then have "length (takeWhile (\<lambda>x. x) oks) \<noteq> length oks" by (metis order_refl take_all takeWhile_eq_take)
  then have "length (takeWhile (\<lambda>x. x) oks) < length oks"
    using length_takeWhile_le[of "\<lambda>x. x" oks] by linarith
  then show ?thesis using f nth_length_takeWhile[of "\<lambda>x. x" oks] by auto
qed

text \<open>Resuming a transfer: fetch the next missing chunk and mark it, \<open>fuel\<close> times at most.\<close>

fun resume :: "nat \<Rightarrow> (int \<Rightarrow> bytes) \<Rightarrow> int \<Rightarrow> BLETransferCheckpoint \<Rightarrow> ble_error + BLETransferCheckpoint" where
  "resume 0 fetch now c = Inr c"
| "resume (Suc n) fetch now c =
     (if Complete c then Inr c else rbind (MarkChunk (NextMissing c) (fetch (NextMissing c)) now c) (resume n fetch now))"

lemma mark_missing_count:
  assumes "\<not> oks ! i" "i < length oks"
  shows "Suc (length (filter (\<lambda>x. \<not> x) (oks[i := True]))) = length (filter (\<lambda>x. \<not> x) oks)"
  using assms by (induction oks arbitrary: i) (auto simp: nth_Cons split: nat.splits if_splits)

lemma resume_completes:
  assumes "checkpoint_ok c" "\<And>i. int (length (fetch i)) \<le> ChunkSize c" "length (filter (\<lambda>x. \<not> x) (Received c)) \<le> n"
  shows "\<exists>c'. resume n fetch now c = Inr c' \<and> Complete c' \<and> checkpoint_ok c'"
  using assms
proof (induction n arbitrary: c)
  case 0
  then have "list_all (\<lambda>x. x) (Received c)" by (auto simp: list_all_iff filter_empty_conv)
  then show ?case using 0 by (simp add: Complete_def NextMissing_def firstFalse_spec)
next
  case (Suc n)
  show ?case
  proof (cases "Complete c")
    case True
    then show ?thesis using Suc by simp
  next
    case False
    let ?i = "NextMissing c"
    have i: "0 \<le> ?i" "nat ?i < length (Received c)" "\<not> Received c ! nat ?i"
      using False firstFalse_bounds[of "Received c"] by (auto simp: Complete_def NextMissing_def)
    define c1 where "c1 = c\<lparr>Received := (Received c)[nat ?i := True], ckUpdatedAt := now\<rparr>"
    have mark: "MarkChunk ?i (fetch ?i) now c = Inr c1"
      using i Suc.prems(1) Suc.prems(2)[of ?i] by (auto simp: MarkChunk_def c1_def checkpoint_ok_def)
    have "length (filter (\<lambda>x. \<not> x) (Received c1)) \<le> n"
      using mark_missing_count[OF i(3,2)] Suc.prems(3) by (simp add: c1_def)
    moreover have "\<And>i. int (length (fetch i)) \<le> ChunkSize c1" using Suc.prems(2) by (simp add: c1_def)
    ultimately obtain c' where "resume n fetch now c1 = Inr c'" "Complete c'" "checkpoint_ok c'"
      using Suc.IH[OF MarkChunk_ok[OF Suc.prems(1) mark]] by blast
    then show ?thesis using False mark by simp
  qed
qed

lemma resume_keeps:
  assumes "checkpoint_ok c" "\<And>i. int (length (fetch i)) \<le> ChunkSize c"
  shows "\<exists>c'. resume n fetch now c = Inr c' \<and> checkpoint_ok c' \<and> ChunkSize c' = ChunkSize c \<and> TotalChunks c' = TotalChunks c"
  using assms
proof (induction n arbitrary: c)
  case (Suc n)
  show ?case
  proof (cases "Complete c")
    case False
    let ?i = "NextMissing c"
    have "0 \<le> ?i" "nat ?i < length (Received c)"
      using False firstFalse_bounds[of "Received c"] by (auto simp: Complete_def NextMissing_def)
    moreover define c1 where "c1 = c\<lparr>Received := (Received c)[nat ?i := True], ckUpdatedAt := now\<rparr>"
    ultimately have c1: "MarkChunk ?i (fetch ?i) now c = Inr c1" "ChunkSize c1 = ChunkSize c" "TotalChunks c1 = TotalChunks c"
      using Suc.prems(1) Suc.prems(2)[of ?i] by (auto simp: MarkChunk_def checkpoint_ok_def)
    then show ?thesis
      using Suc.IH[OF MarkChunk_ok[OF Suc.prems(1) c1(1)]] Suc.prems(2) False by auto
  qed (use Suc.prems in simp)
qed simp

lemma resume_all_completes:
  assumes "checkpoint_ok c" "\<And>i. int (length (fetch i)) \<le> ChunkSize c"
  shows "\<exists>c'. resume (nat (TotalChunks c)) fetch now c = Inr c' \<and> Complete c'"
proof -
  have "nat (TotalChunks c) = length (Received c)" using assms(1) by (auto simp: checkpoint_ok_def)
  then have "length (filter (\<lambda>x. \<not> x) (Received c)) \<le> nat (TotalChunks c)"
    using length_filter_le[of "\<lambda>x. \<not> x" "Received c"] by simp
  from resume_completes[where fetch = fetch and now = now, OF assms this] show ?thesis by blast
qed



end
