(* ===== verification/Mesh_Prelude.thy ===== *)
theory Mesh_Prelude
  imports Go_Prelude
begin

text \<open>
  What the theories of the proximity mesh share: Go's \<^verbatim>\<open>time.Time\<close>, the identifiers of the mesh, and the refinement of one state machine by
  another.
\<close>

section \<open>Time\<close>

text \<open>
  A time is its number of nanoseconds since the zero time (January 1, year 1), so that \<^verbatim>\<open>IsZero\<close> is the test for 0. \<^verbatim>\<open>Sub\<close> saturates
  at the limits of \<^verbatim>\<open>time.Duration\<close>; \<^verbatim>\<open>Unix\<close> rounds down to seconds of the Unix epoch. Adding a duration is exact.
\<close>

type_synonym gotime = int
type_synonym duration = int

definition second :: duration where "second = 1000000000"
definition unix_offset :: int where "unix_offset = 62135596800"

definition time_sub :: "gotime \<Rightarrow> gotime \<Rightarrow> duration" where
  "time_sub t u = max (- (2 ^ 63)) (min (2 ^ 63 - 1) (t - u))"

definition Unix :: "gotime \<Rightarrow> int" where
  "Unix t = t div second - unix_offset"

definition time_Unix :: "int \<Rightarrow> gotime" where
  "time_Unix sec = (sec + unix_offset) * second"

lemma Unix_time_Unix [simp]: "Unix (time_Unix s) = s"
  by (simp add: Unix_def time_Unix_def second_def)

lemma time_Unix_Unix: "t mod second = 0 \<Longrightarrow> time_Unix (Unix t) = t"
  by (auto simp: Unix_def time_Unix_def)

lemma time_sub_less: "0 < d \<Longrightarrow> d \<le> 2 ^ 63 - 1 \<Longrightarrow> time_sub t u < d \<longleftrightarrow> t - u < d"
  by (auto simp: time_sub_def)

lemma time_sub_ge: "0 < d \<Longrightarrow> d \<le> 2 ^ 63 - 1 \<Longrightarrow> d \<le> time_sub t u \<longleftrightarrow> d \<le> t - u"
  by (auto simp: time_sub_def)

section \<open>Identifiers\<close>

text \<open>\<^verbatim>\<open>cache_manager.MessageID\<close> has 16 bytes, \<^verbatim>\<open>identity_manager.NodeID\<close> has 8.\<close>

type_synonym MessageID = bytes
type_synonym NodeID = bytes
type_synonym u16 = "16 word"

section \<open>Refinement\<close>

text \<open>
  A machine refines an abstract one when the abstraction of a step is the step of the abstraction, with the same output; then every run
  shows the same outputs.
\<close>

locale refinement = state_machine step inv
  for step :: "'op \<Rightarrow> 's \<Rightarrow> 's \<times> 'out" and inv :: "'s \<Rightarrow> bool" +
  fixes spec :: "'op \<Rightarrow> 'a \<Rightarrow> 'a \<times> 'out" and abstr :: "'s \<Rightarrow> 'a"
  assumes step_refines: "inv s \<Longrightarrow> spec x (abstr s) = (abstr (fst (step x s)), snd (step x s))"
begin

lemma run_refines: "inv s \<Longrightarrow> run spec xs (abstr s) = (abstr (fst (run step xs s)), snd (run step xs s))"
proof (induction xs arbitrary: s)
  case (Cons x xs)
  from Cons.IH[OF step_inv[OF Cons.prems]] show ?case by (simp add: Let_def step_refines[OF Cons.prems])
qed simp

end

end
