(* ===== verification/Mesh_Cache.thy ===== *)
theory Mesh_Cache
  imports Mesh_Prelude
begin

text \<open>
  The message cache of the mesh (\<^verbatim>\<open>core/proximity/cache_manager/cache_manager.go\<close>): a map from identifiers to the elements of a
  linked list in insertion order. The elements are modelled by handles, so that map and list are two structures as in the code, and
  the cache is shown to refine a bounded first-in first-out list of entries.
\<close>

section \<open>The cache\<close>

record Entry =
  eID :: MessageID
  eSender :: NodeID
  eTimestamp :: gotime
  eTTLSec :: u16
  eInserted :: gotime
  eExpiresAt :: gotime
  ePayload :: bytes

text \<open>\<open>fresh\<close> is the handle that the next \<^verbatim>\<open>PushBack\<close> allocates.\<close>

record Cache =
  maxItems :: int
  items :: "MessageID \<rightharpoonup> nat"
  order :: "(nat \<times> Entry) list"
  fresh :: nat

definition New :: "int \<Rightarrow> Cache" where
  "New n = \<lparr>maxItems = (if n \<le> 0 then 512 else n), items = Map.empty, order = [], fresh = 0\<rparr>"

definition expired :: "gotime \<Rightarrow> Entry \<Rightarrow> bool" where
  "expired now e \<longleftrightarrow> eExpiresAt e \<noteq> 0 \<and> \<not> now < eExpiresAt e"

definition removeElem :: "nat \<Rightarrow> MessageID \<Rightarrow> Cache \<Rightarrow> Cache" where
  "removeElem el i c = c\<lparr>order := filter (\<lambda>x. fst x \<noteq> el) (order c), items := (items c)(i := None)\<rparr>"

text \<open>The invariant below excludes the case of an element that is in the map and not in the list.\<close>

definition Get :: "MessageID \<Rightarrow> gotime \<Rightarrow> Cache \<Rightarrow> Cache \<times> Entry option" where
  "Get i now c =
     (case items c i of None \<Rightarrow> (c, None)
      | Some el \<Rightarrow>
          (case map_of (order c) el of None \<Rightarrow> (c, None)
           | Some e \<Rightarrow> if expired now e then (removeElem el i c, None) else (c, Some e)))"

definition Has :: "MessageID \<Rightarrow> gotime \<Rightarrow> Cache \<Rightarrow> Cache \<times> bool" where
  "Has i now c =
     (case items c i of None \<Rightarrow> (c, False)
      | Some el \<Rightarrow>
          (case map_of (order c) el of None \<Rightarrow> (c, False)
           | Some e \<Rightarrow> if expired now e then (removeElem el i c, False) else (c, True)))"

fun evictLoop :: "int \<Rightarrow> (MessageID \<rightharpoonup> nat) \<Rightarrow> (nat \<times> Entry) list \<Rightarrow> (MessageID \<rightharpoonup> nat) \<times> (nat \<times> Entry) list" where
  "evictLoop n its [] = (its, [])"
| "evictLoop n its (x # xs) =
     (if int (length (x # xs)) > n then evictLoop n (its(eID (snd x) := None)) xs else (its, x # xs))"

definition Put :: "Entry \<Rightarrow> gotime \<Rightarrow> Cache \<Rightarrow> Cache" where
  "Put e now c =
     (if expired now e then c
      else let c1 = (case items c (eID e) of None \<Rightarrow> c | Some el \<Rightarrow> removeElem el (eID e) c);
               r = evictLoop (maxItems c1) ((items c1)(eID e \<mapsto> fresh c1)) (order c1 @ [(fresh c1, e)])
           in c1\<lparr>items := fst r, order := snd r, fresh := Suc (fresh c1)\<rparr>)"

fun sweepLoop ::
    "gotime \<Rightarrow> (MessageID \<rightharpoonup> nat) \<Rightarrow> (nat \<times> Entry) list \<Rightarrow> (MessageID \<rightharpoonup> nat) \<times> (nat \<times> Entry) list \<times> nat" where
  "sweepLoop now its [] = (its, [], 0)"
| "sweepLoop now its (x # xs) =
     (if expired now (snd x) then let r = sweepLoop now (its(eID (snd x) := None)) xs in (fst r, fst (snd r), Suc (snd (snd r)))
      else let r = sweepLoop now its xs in (fst r, x # fst (snd r), snd (snd r)))"

definition Sweep :: "gotime \<Rightarrow> Cache \<Rightarrow> Cache \<times> nat" where
  "Sweep now c = (let r = sweepLoop now (items c) (order c) in (c\<lparr>items := fst r, order := fst (snd r)\<rparr>, snd (snd r)))"

fun listLoop :: "gotime \<Rightarrow> nat \<Rightarrow> Entry list \<Rightarrow> Entry list" where
  "listLoop now 0 es = []"
| "listLoop now (Suc n) [] = []"
| "listLoop now (Suc n) (e # es) = (if expired now e then listLoop now (Suc n) es else e # listLoop now n es)"

definition ListEntries :: "gotime \<Rightarrow> int \<Rightarrow> Cache \<Rightarrow> Entry list" where
  "ListEntries now limit c =
     (let k = (if limit \<le> 0 \<or> limit > int (length (order c)) then length (order c) else nat limit)
      in listLoop now k (map snd (rev (order c))))"

section \<open>The specification\<close>

text \<open>A list of entries with distinct identifiers, oldest first, of at most \<open>n\<close> entries.\<close>

definition without :: "MessageID \<Rightarrow> Entry list \<Rightarrow> Entry list" where
  "without i es = filter (\<lambda>e. eID e \<noteq> i) es"

definition fifo_put :: "nat \<Rightarrow> Entry \<Rightarrow> gotime \<Rightarrow> Entry list \<Rightarrow> Entry list" where
  "fifo_put n e now es =
     (if expired now e then es else let es' = without (eID e) es @ [e] in drop (length es' - n) es')"

definition fifo_get :: "MessageID \<Rightarrow> gotime \<Rightarrow> Entry list \<Rightarrow> Entry list \<times> Entry option" where
  "fifo_get i now es =
     (case find (\<lambda>e. eID e = i) es of None \<Rightarrow> (es, None)
      | Some e \<Rightarrow> if expired now e then (without i es, None) else (es, Some e))"

datatype cache_op = DoGet MessageID gotime | DoHas MessageID gotime | DoPut Entry gotime | DoSweep gotime | DoList gotime int

datatype cache_out = Found "Entry option" | IsThere bool | Stored | Removed nat | Entries "Entry list"

fun cache_step :: "cache_op \<Rightarrow> Cache \<Rightarrow> Cache \<times> cache_out" where
  "cache_step (DoGet i now) c = (fst (Get i now c), Found (snd (Get i now c)))"
| "cache_step (DoHas i now) c = (fst (Has i now c), IsThere (snd (Has i now c)))"
| "cache_step (DoPut e now) c = (Put e now c, Stored)"
| "cache_step (DoSweep now) c = (fst (Sweep now c), Removed (snd (Sweep now c)))"
| "cache_step (DoList now limit) c = (c, Entries (ListEntries now limit c))"

fun fifo_step :: "nat \<Rightarrow> cache_op \<Rightarrow> Entry list \<Rightarrow> Entry list \<times> cache_out" where
  "fifo_step n (DoGet i now) es = (fst (fifo_get i now es), Found (snd (fifo_get i now es)))"
| "fifo_step n (DoHas i now) es = (fst (fifo_get i now es), IsThere (snd (fifo_get i now es) \<noteq> None))"
| "fifo_step n (DoPut e now) es = (fifo_put n e now es, Stored)"
| "fifo_step n (DoSweep now) es =
     (filter (\<lambda>e. \<not> expired now e) es, Removed (length (filter (expired now) es)))"
| "fifo_step n (DoList now limit) es =
     (es, Entries (take (if limit \<le> 0 then length es else nat limit) (filter (\<lambda>e. \<not> expired now e) (rev es))))"

section \<open>Refinement\<close>

definition linked :: "(MessageID \<rightharpoonup> nat) \<Rightarrow> (nat \<times> Entry) list \<Rightarrow> bool" where
  "linked its xs \<longleftrightarrow> (\<forall>i el. its i = Some el \<longleftrightarrow> (\<exists>e. (el, e) \<in> set xs \<and> eID e = i)) \<and>
     distinct (map fst xs) \<and> distinct (map (eID \<circ> snd) xs)"

definition cache_ok :: "nat \<Rightarrow> Cache \<Rightarrow> bool" where
  "cache_ok n c \<longleftrightarrow> linked (items c) (order c) \<and> (\<forall>x\<in>set (order c). fst x < fresh c) \<and> maxItems c = int n \<and> 0 < n \<and>
     length (order c) \<le> n"

definition entries :: "Cache \<Rightarrow> Entry list" where
  "entries c = map snd (order c)"

lemma linked_empty [simp]: "linked Map.empty []"
  by (simp add: linked_def)

lemma linked_del:
  assumes "linked its (pre @ x # xs)"
  shows "linked (its(eID (snd x) := None)) (pre @ xs)"
proof -
  have its: "its i = Some el \<longleftrightarrow> (\<exists>e. (el, e) \<in> set (pre @ x # xs) \<and> eID e = i)" for i el
    using assms unfolding linked_def by blast
  have "distinct (map (eID \<circ> snd) (pre @ x # xs))" using assms unfolding linked_def by blast
  then have "(eID \<circ> snd) x \<notin> (eID \<circ> snd) ` set (pre @ xs)" by auto
  then have other: "eID e \<noteq> eID (snd x)" if "(el, e) \<in> set (pre @ xs)" for el e
    using that by (metis comp_apply imageI snd_conv)
  have "(its(eID (snd x) := None)) i = Some el \<longleftrightarrow> (\<exists>e. (el, e) \<in> set (pre @ xs) \<and> eID e = i)" for i el
  proof (cases "i = eID (snd x)")
    case True
    then show ?thesis using other by fastforce
  next
    case False
    then have "(\<exists>e. (el, e) \<in> set (pre @ x # xs) \<and> eID e = i) \<longleftrightarrow> (\<exists>e. (el, e) \<in> set (pre @ xs) \<and> eID e = i)" by auto
    with its[of i el] False show ?thesis by simp
  qed
  then show ?thesis using assms by (simp add: linked_def)
qed

lemma linked_push:
  assumes "linked its xs" "its (eID e) = None" "h \<notin> fst ` set xs"
  shows "linked (its(eID e \<mapsto> h)) (xs @ [(h, e)])"
proof -
  have "its i = Some el \<longleftrightarrow> (\<exists>e. (el, e) \<in> set xs \<and> eID e = i)" for i el
    using assms(1) by (simp add: linked_def)
  moreover from this have "(el, x) \<in> set xs \<Longrightarrow> eID x \<noteq> eID e" for el x
    using assms(2) by (metis option.distinct(1))
  ultimately show ?thesis using assms(1,3) by (fastforce simp: linked_def)
qed

lemma linked_split:
  assumes "linked its xs" "its i = Some el"
  obtains e pre post where "xs = pre @ (el, e) # post" "eID e = i" "map_of xs el = Some e"
    "find (\<lambda>e. eID e = i) (map snd xs) = Some e" "filter (\<lambda>x. fst x \<noteq> el) xs = pre @ post" "without i (map snd xs) = map snd (pre @ post)"
proof -
  obtain e where e: "(el, e) \<in> set xs" "eID e = i" using assms by (auto simp: linked_def)
  then obtain pre post where xs: "xs = pre @ (el, e) # post" by (meson split_list)
  have d: "distinct (map fst xs)" "distinct (map (eID \<circ> snd) xs)" using assms(1) by (auto simp: linked_def)
  have "map_of xs el = Some e" using d(1) e(1) by simp
  moreover have out: "\<forall>y\<in>set (pre @ post). fst y \<noteq> el \<and> eID (snd y) \<noteq> i"
    using d e(2) unfolding xs by (force simp: image_iff)
  moreover have "find (\<lambda>e. eID e = i) (map snd xs) = Some e"
    using out e(2) unfolding xs by (induction pre) auto
  moreover have "filter (\<lambda>x. fst x \<noteq> el) xs = pre @ post" using out unfolding xs by (simp add: filter_id_conv)
  moreover have "without i (map snd xs) = map snd (pre @ post)"
    using out e(2) unfolding xs by (simp add: without_def filter_id_conv)
  ultimately show thesis using that xs e(2) by blast
qed

lemma linked_absent:
  assumes "linked its xs" "its i = None"
  shows "find (\<lambda>e. eID e = i) (map snd xs) = None" "without i (map snd xs) = map snd xs"
proof -
  have "\<forall>y\<in>set xs. eID (snd y) \<noteq> i"
    using assms by (auto simp: linked_def) (metis option.distinct(1))
  then show "find (\<lambda>e. eID e = i) (map snd xs) = None" "without i (map snd xs) = map snd xs"
    by (auto simp: find_None_iff without_def filter_id_conv)
qed

lemma evictLoop_spec:
  assumes "linked its xs" "0 \<le> n"
  shows "linked (fst (evictLoop n its xs)) (snd (evictLoop n its xs)) \<and> snd (evictLoop n its xs) = drop (length xs - nat n) xs"
  using assms
proof (induction xs arbitrary: its)
  case (Cons x xs)
  from linked_del[of its "[]"] Cons.prems have "linked (its(eID (snd x) := None)) xs" by simp
  with Cons.IH[of "its(eID (snd x) := None)"] Cons.prems show ?case by (auto simp: Suc_diff_le simp del: fun_upd_apply)
qed simp

lemma sweepLoop_spec:
  assumes "linked its (pre @ xs)"
  shows "linked (fst (sweepLoop now its xs)) (pre @ fst (snd (sweepLoop now its xs))) \<and>
    fst (snd (sweepLoop now its xs)) = filter (\<lambda>x. \<not> expired now (snd x)) xs \<and>
    snd (snd (sweepLoop now its xs)) = length (filter (\<lambda>x. expired now (snd x)) xs)"
  using assms
proof (induction xs arbitrary: its pre)
  case (Cons x xs)
  show ?case
  proof (cases "expired now (snd x)")
    case True
    then show ?thesis using Cons.IH[of "its(eID (snd x) := None)" pre] linked_del[OF Cons.prems] by (auto simp: Let_def simp del: fun_upd_apply)
  next
    case False
    then show ?thesis using Cons.IH[of its "pre @ [x]"] Cons.prems by (auto simp: Let_def)
  qed
qed simp

lemma listLoop_take: "listLoop now n es = take n (filter (\<lambda>e. \<not> expired now e) es)"
  by (induction now n es rule: listLoop.induct) auto

lemma ListEntries_spec:
  "ListEntries now limit c =
    take (if limit \<le> 0 then length (entries c) else nat limit) (filter (\<lambda>e. \<not> expired now e) (rev (entries c)))"
proof -
  have "length (filter (\<lambda>e. \<not> expired now e) (rev (map snd (order c)))) \<le> length (order c)"
    by (metis length_filter_le length_map length_rev)
  then show ?thesis by (auto simp: ListEntries_def listLoop_take entries_def rev_map)
qed

lemma removeElem_ok:
  assumes "cache_ok n c" "items c i = Some el"
  shows "cache_ok n (removeElem el i c)" "entries (removeElem el i c) = without i (entries c)"
proof -
  from assms(1) have l: "linked (items c) (order c)" by (simp add: cache_ok_def)
  obtain e pre post where o: "order c = pre @ (el, e) # post" "eID e = i"
    "filter (\<lambda>x. fst x \<noteq> el) (order c) = pre @ post" "without i (map snd (order c)) = map snd (pre @ post)"
    by (rule linked_split[OF l assms(2)])
  have "linked ((items c)(i := None)) (pre @ post)" using linked_del[of "items c" pre "(el, e)" post] l o(1,2) by simp
  then show "cache_ok n (removeElem el i c)" using assms(1) o(1,3) by (auto simp: cache_ok_def removeElem_def)
  show "entries (removeElem el i c) = without i (entries c)" using o(3,4) by (simp add: entries_def removeElem_def)
qed

lemma Get_refines:
  assumes "cache_ok n c"
  shows "cache_ok n (fst (Get i now c)) \<and> fifo_get i now (entries c) = (entries (fst (Get i now c)), snd (Get i now c))"
proof (cases "items c i")
  case None
  then show ?thesis
    using assms linked_absent(1)[of "items c" "order c" i] by (simp add: Get_def fifo_get_def cache_ok_def entries_def)
next
  case (Some el)
  from assms have l: "linked (items c) (order c)" by (simp add: cache_ok_def)
  from linked_split[OF l Some] obtain e where e: "map_of (order c) el = Some e"
    "find (\<lambda>e. eID e = i) (entries c) = Some e" unfolding entries_def by metis
  then show ?thesis using Some assms removeElem_ok[OF assms Some] by (simp add: Get_def fifo_get_def)
qed

lemma Has_Get: "Has i now c = (fst (Get i now c), snd (Get i now c) \<noteq> None)"
  by (simp add: Has_def Get_def split: option.splits)

lemma Put_refines:
  assumes "cache_ok n c"
  shows "cache_ok n (Put e now c) \<and> fifo_put n e now (entries c) = entries (Put e now c)"
proof (cases "expired now e")
  case True
  then show ?thesis using assms by (simp add: Put_def fifo_put_def)
next
  case False
  define c1 where "c1 = (case items c (eID e) of None \<Rightarrow> c | Some el \<Rightarrow> removeElem el (eID e) c)"
  define its where "its = (items c1)(eID e \<mapsto> fresh c1)"
  define xs where "xs = order c1 @ [(fresh c1, e)]"
  have c1: "cache_ok n c1" "items c1 (eID e) = None" "entries c1 = without (eID e) (entries c)"
    using assms removeElem_ok[OF assms, of "eID e"] linked_absent(2)[of "items c" "order c" "eID e"]
    by (auto simp: c1_def cache_ok_def entries_def removeElem_def split: option.splits)
  have "linked its xs"
    unfolding its_def xs_def using c1(1,2) by (intro linked_push) (auto simp: cache_ok_def)
  with evictLoop_spec[of its xs "int n"] have ev: "linked (fst (evictLoop (int n) its xs)) (snd (evictLoop (int n) its xs))"
    "snd (evictLoop (int n) its xs) = drop (length xs - n) xs" by auto
  have put: "Put e now c = c1\<lparr>items := fst (evictLoop (int n) its xs), order := drop (length xs - n) xs, fresh := Suc (fresh c1)\<rparr>"
    using False c1(1) ev(2) by (simp add: Put_def c1_def[symmetric] its_def[symmetric] xs_def[symmetric] Let_def cache_ok_def)
  have "\<forall>x\<in>set (drop (length xs - n) xs). fst x < Suc (fresh c1)"
    using c1(1) by (auto simp: xs_def cache_ok_def less_Suc_eq dest!: in_set_dropD)
  then have "cache_ok n (Put e now c)" using c1(1) ev by (auto simp: put cache_ok_def)
  moreover have "fifo_put n e now (entries c) = entries (Put e now c)"
    using False by (simp add: fifo_put_def Let_def put c1(3)[symmetric]) (simp add: entries_def xs_def drop_map[symmetric])
  ultimately show ?thesis ..
qed

lemma Sweep_refines:
  assumes "cache_ok n c"
  shows "cache_ok n (fst (Sweep now c)) \<and> entries (fst (Sweep now c)) = filter (\<lambda>e. \<not> expired now e) (entries c) \<and>
    snd (Sweep now c) = length (filter (expired now) (entries c))"
proof -
  from assms have "linked (items c) ([] @ order c)" by (simp add: cache_ok_def)
  from sweepLoop_spec[OF this, of now]
  have sw: "linked (fst (sweepLoop now (items c) (order c))) (fst (snd (sweepLoop now (items c) (order c))))"
    "fst (snd (sweepLoop now (items c) (order c))) = filter (\<lambda>x. \<not> expired now (snd x)) (order c)"
    "snd (snd (sweepLoop now (items c) (order c))) = length (filter (\<lambda>x. expired now (snd x)) (order c))" by auto
  moreover have "length (filter (\<lambda>x. \<not> expired now (snd x)) (order c)) \<le> n"
    using assms length_filter_le[of "\<lambda>x. \<not> expired now (snd x)" "order c"] unfolding cache_ok_def by linarith
  moreover have "map snd (filter (\<lambda>x. \<not> expired now (snd x)) (order c)) = filter (\<lambda>e. \<not> expired now e) (entries c)"
    "length (filter (\<lambda>x. expired now (snd x)) (order c)) = length (filter (expired now) (entries c))"
    by (simp_all add: entries_def filter_map comp_def)
  ultimately show ?thesis using assms by (auto simp: Sweep_def Let_def cache_ok_def entries_def)
qed

lemma cache_step_refines:
  assumes "cache_ok n c"
  shows "cache_ok n (fst (cache_step x c)) \<and> fifo_step n x (entries c) = (entries (fst (cache_step x c)), snd (cache_step x c))"
proof (cases x)
  case (DoGet i now)
  then show ?thesis using Get_refines[OF assms] by simp
next
  case (DoHas i now)
  then show ?thesis using Get_refines[OF assms, of i now] by (simp add: Has_Get)
next
  case (DoPut e now)
  then show ?thesis using Put_refines[OF assms] by simp
next
  case (DoSweep now)
  then show ?thesis using Sweep_refines[OF assms, of now] by simp
next
  case (DoList now limit)
  then show ?thesis using assms by (simp add: ListEntries_spec)
qed

interpretation cache: refinement cache_step "cache_ok n" "fifo_step n" entries
  by unfold_locales (simp_all add: cache_step_refines)

lemma New_cache_ok: "cache_ok (if n \<le> 0 then 512 else nat n) (New n)" "entries (New n) = []"
  by (simp_all add: cache_ok_def New_def entries_def)

text \<open>
  C14. The cache refines a bounded first-in first-out list: whatever is put, read, tested, swept or listed, a new cache of \<open>n\<close> items gives
  the answers of a list of at most \<open>n\<close> entries (512 for a size that is not positive) in which a stored entry replaces the one of the same
  identifier, the oldest entries go first, and an expired entry is never shown.
\<close>

theorem cache_refines_fifo:
  "let m = (if n \<le> 0 then 512 else nat n); r = run cache_step ops (New n)
   in run (fifo_step m) ops [] = (entries (fst r), snd r) \<and> length (entries (fst r)) \<le> m"
proof -
  let ?m = "if n \<le> 0 then 512 else nat n"
  have "cache_ok ?m (fst (run cache_step ops (New n)))" by (rule cache.run_inv[OF New_cache_ok(1)])
  then have "length (entries (fst (run cache_step ops (New n)))) \<le> ?m" unfolding cache_ok_def entries_def by simp
  with cache.run_refines[OF New_cache_ok(1)] show ?thesis unfolding Let_def New_cache_ok(2) by blast
qed

end
