(* ===== verification/Mesh_Replay.thy ===== *)
theory Mesh_Replay
  imports Mesh_Prelude
begin

text \<open>
  Replay protection of the mesh (\<^verbatim>\<open>core/proximity/replay_protection/replay_protection.go\<close>): a ring of buckets of message identifiers that
  is rotated with the clock. Durations are nanoseconds in the range of \<^verbatim>\<open>time.Duration\<close>.
\<close>

section \<open>The protector\<close>

record Protector =
  bucketDur :: duration
  windowDur :: duration
  buckets :: "MessageID set list"
  zero :: gotime

definition New :: "duration \<Rightarrow> duration \<Rightarrow> Protector" where
  "New bucketDuration windowDuration =
     (let b = (if bucketDuration \<le> 0 then 10 * second else bucketDuration);
          w0 = (if windowDuration \<le> 0 then 600 * second else windowDuration);
          w = (if w0 < b then b else w0);
          n0 = quot w b; n = (if n0 < 1 then 1 else n0)
      in \<lparr>bucketDur = b, windowDur = w, buckets = replicate (nat n) {}, zero = 0\<rparr>)"

fun shiftLoop :: "nat \<Rightarrow> Protector \<Rightarrow> Protector" where
  "shiftLoop 0 p = p"
| "shiftLoop (Suc k) p = shiftLoop k (p\<lparr>buckets := tl (buckets p) @ [{}], zero := zero p + bucketDur p\<rparr>)"

definition rotateLocked :: "gotime \<Rightarrow> Protector \<Rightarrow> Protector" where
  "rotateLocked now p =
     (if zero p = 0 then p\<lparr>zero := now\<rparr>
      else let elapsed = time_sub now (zero p) in
        if elapsed < bucketDur p then p
        else let shift = quot elapsed (bucketDur p) in
          if shift \<ge> int (length (buckets p)) then p\<lparr>buckets := map (\<lambda>_. {}) (buckets p), zero := now\<rparr>
          else shiftLoop (nat shift) p)"

definition Seen :: "MessageID \<Rightarrow> gotime \<Rightarrow> Protector \<Rightarrow> Protector \<times> bool" where
  "Seen i now p = (let p' = rotateLocked now p in (p', list_ex (\<lambda>b. i \<in> b) (buckets p')))"

definition SeenOrAdd :: "MessageID \<Rightarrow> gotime \<Rightarrow> Protector \<Rightarrow> Protector \<times> bool" where
  "SeenOrAdd i now p =
     (let p' = rotateLocked now p; l = length (buckets p') - 1 in
      if list_ex (\<lambda>b. i \<in> b) (buckets p') then (p', True)
      else (p'\<lparr>buckets := (buckets p')[l := insert i (buckets p' ! l)]\<rparr>, False))"

datatype replay_op = DoSeenOrAdd MessageID gotime | DoSeen MessageID gotime

fun op_time :: "replay_op \<Rightarrow> gotime" where
  "op_time (DoSeenOrAdd i now) = now"
| "op_time (DoSeen i now) = now"

fun replay_step :: "replay_op \<Rightarrow> Protector \<Rightarrow> Protector \<times> bool" where
  "replay_step (DoSeenOrAdd i now) p = SeenOrAdd i now p"
| "replay_step (DoSeen i now) p = Seen i now p"

section \<open>The window\<close>

definition protector_ok :: "duration \<Rightarrow> nat \<Rightarrow> Protector \<Rightarrow> bool" where
  "protector_ok d n p \<longleftrightarrow> bucketDur p = d \<and> 0 < d \<and> length (buckets p) = n \<and> 0 < n \<and> int n * d \<le> 2 ^ 63 - 1 \<and> 0 \<le> zero p"

text \<open>The first time after the period of bucket \<open>k\<close>; the last of the \<open>n\<close> buckets starts at \<open>zero\<close>.\<close>

definition bucket_end :: "Protector \<Rightarrow> nat \<Rightarrow> gotime" where
  "bucket_end p k = zero p - (int (length (buckets p)) - 1 - int k) * bucketDur p + bucketDur p"

lemma shiftLoop_spec:
  "s \<le> length (buckets p) \<Longrightarrow> shiftLoop s p = p\<lparr>buckets := drop s (buckets p) @ replicate s {}, zero := zero p + int s * bucketDur p\<rparr>"
proof (induction s arbitrary: p)
  case (Suc s)
  then obtain b bs where b: "buckets p = b # bs" by (cases "buckets p") auto
  have "s \<le> length (buckets (p\<lparr>buckets := bs @ [{}], zero := zero p + bucketDur p\<rparr>))" using Suc.prems b by simp
  from Suc.IH[OF this] show ?case using Suc.prems b by (simp add: replicate_append_same algebra_simps)
qed simp

lemma rotate_cases:
  assumes "protector_ok d n p" "0 < now"
  obtains (start) "zero p = 0" "rotateLocked now p = p\<lparr>zero := now\<rparr>"
    | (stay) "zero p \<noteq> 0" "now - zero p < d" "rotateLocked now p = p"
    | (clear) "zero p \<noteq> 0" "int n * d \<le> now - zero p" "rotateLocked now p = p\<lparr>buckets := replicate n {}, zero := now\<rparr>"
    | (shift) s where "zero p \<noteq> 0" "s < n" "int s * d \<le> now - zero p" "now - zero p < (int s + 1) * d"
        "rotateLocked now p = p\<lparr>buckets := drop s (buckets p) @ replicate s {}, zero := zero p + int s * d\<rparr>"
proof -
  note ok = assms(1)[unfolded protector_ok_def]
  let ?e = "time_sub now (zero p)" and ?s = "quot (time_sub now (zero p)) d"
  have "1 * d \<le> int n * d" using ok by (intro mult_right_mono) auto
  with ok have d: "d \<le> 2 ^ 63 - 1" by linarith
  consider "zero p = 0" | "zero p \<noteq> 0" "?e < d" | "zero p \<noteq> 0" "d \<le> ?e" by fastforce
  then show thesis
  proof cases
    case 1
    then show ?thesis using start by (simp add: rotateLocked_def)
  next
    case 2
    then show ?thesis using stay ok d time_sub_less[of d now "zero p"] by (simp add: rotateLocked_def)
  next
    case 3
    then have s: "?s = ?e div d" "0 \<le> ?s" using ok by (simp_all add: quot_div pos_imp_zdiv_nonneg_iff)
    have le: "?e \<le> now - zero p" using 3 ok by (auto simp: time_sub_def split: if_splits)
    have "?s * d + ?e mod d = ?e" "0 \<le> ?e mod d" "?e mod d < d" "(?s + 1) * d = ?s * d + d"
      using ok s(1) by (simp_all add: algebra_simps)
    then have lo: "?s * d \<le> ?e" "?e < (?s + 1) * d" by linarith+
    show ?thesis
    proof (cases "?s \<ge> int n")
      case True
      then have "int n * d \<le> ?s * d" using ok by (intro mult_right_mono) auto
      then have "int n * d \<le> now - zero p" using le lo(1) by linarith
      moreover have "map (\<lambda>_. {}) (buckets p) = replicate n ({} :: MessageID set)" using ok by (simp add: map_replicate_const)
      ultimately show ?thesis using True 3 clear ok le lo by (simp add: rotateLocked_def Let_def)
    next
      case False
      then have "(?s + 1) * d \<le> int n * d" using ok by (intro mult_right_mono) auto
      then have "?e < 2 ^ 63 - 1" using lo(2) ok by linarith
      then have e: "?e = now - zero p" using 3 ok by (auto simp: time_sub_def split: if_splits)
      have "shiftLoop (nat ?s) p = p\<lparr>buckets := drop (nat ?s) (buckets p) @ replicate (nat ?s) {}, zero := zero p + ?s * d\<rparr>"
        using False ok s(2) by (simp add: shiftLoop_spec)
      then show ?thesis using shift[of "nat ?s"] False 3 ok s(2) lo e by (simp add: rotateLocked_def Let_def)
    qed
  qed
qed
lemma rotate_ok:
  assumes "protector_ok d n p" "0 < now"
  shows "protector_ok d n (rotateLocked now p) \<and> 0 < zero (rotateLocked now p) \<and> now < zero (rotateLocked now p) + d"
proof -
  have ok: "bucketDur p = d" "0 < d" "length (buckets p) = n" "0 < n" "int n * d \<le> 2 ^ 63 - 1" "0 \<le> zero p"
    using assms(1) by (auto simp: protector_ok_def)
  from assms show ?thesis
  proof (cases rule: rotate_cases)
    case (shift s)
    have "0 < zero p + int s * d" using shift(1) ok(2,6) by (simp add: add_pos_nonneg)
    with shift ok show ?thesis by (simp add: protector_ok_def algebra_simps)
  qed (use ok assms(2) in \<open>auto simp: protector_ok_def\<close>)
qed

text \<open>Bucket \<open>k\<close> of the rotated protector is bucket \<open>k + s\<close> of the old one, at the same period.\<close>

lemma rotate_bucket:
  assumes "protector_ok d n p" "0 < now" "k < n" "i \<in> buckets (rotateLocked now p) ! k"
  obtains k' where "k' < n" "i \<in> buckets p ! k'" "zero p = 0 \<or> bucket_end (rotateLocked now p) k = bucket_end p k'"
proof -
  have ok: "bucketDur p = d" "length (buckets p) = n" using assms(1) by (auto simp: protector_ok_def)
  from assms(1,2) show thesis
  proof (cases rule: rotate_cases)
    case start
    then show ?thesis using that[of k] assms(3,4) by simp
  next
    case stay
    then show ?thesis using that[of k] assms(3,4) by simp
  next
    case clear
    then show ?thesis using assms(3,4) by simp
  next
    case (shift s)
    have "k < n - s" using assms(3,4) shift ok(2) by (auto simp: nth_append split: if_splits)
    then show ?thesis
      using that[of "k + s"] assms(4) shift ok by (simp add: nth_append bucket_end_def algebra_simps)
  qed
qed

lemma rotate_remembers:
  assumes "protector_ok d n p" "0 < now" "zero p \<noteq> 0" "k < n" "i \<in> buckets p ! k" "t < bucket_end p k" "now - t \<le> (int n - 1) * d"
  obtains k' where "k' < n" "i \<in> buckets (rotateLocked now p) ! k'" "t < bucket_end (rotateLocked now p) k'"
proof -
  have ok: "bucketDur p = d" "0 < d" "length (buckets p) = n" using assms(1) by (auto simp: protector_ok_def)
  have t: "t < zero p - (int n - 1 - int k) * d + d" using assms(6) ok by (simp add: bucket_end_def)
  from assms(1,2) show thesis
  proof (cases rule: rotate_cases)
    case start
    then show ?thesis using assms(3) by simp
  next
    case stay
    then show ?thesis using that[of k] assms by simp
  next
    case clear
    have "0 \<le> (int n - 1 - int k) * d" using ok(2) assms(4) by simp
    with t clear(2) assms(7) show ?thesis by (simp add: algebra_simps)
  next
    case (shift s)
    have "(int s + (int n - int k - 2)) * d < (int n - 1) * d" using t shift(3) assms(7) by (simp add: algebra_simps)
    then have "int s + (int n - int k - 2) < int n - 1" using ok(2) by (simp add: mult_less_cancel_right)
    then have "s \<le> k" by simp
    moreover from this have "int (k - s) = int k - int s" by simp
    ultimately show ?thesis
      using that[of "k - s"] shift ok assms(4,5) t by (simp add: nth_append bucket_end_def algebra_simps)
  qed
qed

definition remembers :: "Protector \<Rightarrow> MessageID \<Rightarrow> gotime \<Rightarrow> bool" where
  "remembers p i t \<longleftrightarrow> 0 < zero p \<and> (\<exists>k<length (buckets p). i \<in> buckets p ! k \<and> t < bucket_end p k)"

definition addLast :: "MessageID \<Rightarrow> Protector \<Rightarrow> Protector" where
  "addLast i p = p\<lparr>buckets := (buckets p)[length (buckets p) - 1 := insert i (buckets p ! (length (buckets p) - 1))]\<rparr>"

lemma SeenOrAdd_alt:
  "SeenOrAdd i now p = (if snd (Seen i now p) then (rotateLocked now p, True) else (addLast i (rotateLocked now p), False))"
  by (simp add: SeenOrAdd_def Seen_def addLast_def Let_def)

lemma Seen_fst [simp]: "fst (Seen i now p) = rotateLocked now p"
  by (simp add: Seen_def Let_def)

lemma addLast_ok [simp]: "protector_ok d n (addLast i p) = protector_ok d n p" "bucketDur (addLast i p) = bucketDur p" "bucket_end (addLast i p) k = bucket_end p k"
  "zero (addLast i p) = zero p" "length (buckets (addLast i p)) = length (buckets p)"
  by (simp_all add: protector_ok_def addLast_def bucket_end_def)

lemma addLast_bucket:
  "k < length (buckets p) \<Longrightarrow> buckets (addLast i p) ! k = (if Suc k = length (buckets p) then insert i (buckets p ! k) else buckets p ! k)"
  by (auto simp: addLast_def nth_list_update)

lemma remembers_addLast: "remembers p j t \<Longrightarrow> remembers (addLast i p) j t"
  by (auto simp: remembers_def addLast_bucket)

lemma remembers_rotate:
  assumes "protector_ok d n p" "0 < now" "remembers p i t" "now - t \<le> (int n - 1) * d"
  shows "remembers (rotateLocked now p) i t"
proof -
  have n: "length (buckets p) = n" "length (buckets (rotateLocked now p)) = n"
    using assms(1) rotate_ok[OF assms(1,2)] by (auto simp: protector_ok_def)
  from assms(3) obtain k where k: "k < n" "i \<in> buckets p ! k" "t < bucket_end p k" "zero p \<noteq> 0"
    by (auto simp: remembers_def n)
  obtain k' where "k' < n" "i \<in> buckets (rotateLocked now p) ! k'" "t < bucket_end (rotateLocked now p) k'"
    by (rule rotate_remembers[OF assms(1,2) k(4,1,2,3) assms(4)])
  then show ?thesis using rotate_ok[OF assms(1,2)] by (auto simp: remembers_def n)
qed

lemma remembers_seen: "remembers (rotateLocked now p) i t \<Longrightarrow> snd (Seen i now p)"
  by (auto simp: remembers_def Seen_def Let_def list_ex_iff)

lemma not_seen_remembers:
  assumes "protector_ok d n p" "0 < now" "\<not> snd (SeenOrAdd i now p)"
  shows "remembers (fst (SeenOrAdd i now p)) i now"
proof -
  let ?r = "rotateLocked now p"
  have ok: "0 < n" "length (buckets ?r) = n" "0 < zero ?r" "now < zero ?r + d" "bucketDur ?r = d"
    using rotate_ok[OF assms(1,2)] by (auto simp: protector_ok_def)
  have "fst (SeenOrAdd i now p) = addLast i ?r" using assms(3) by (auto simp: SeenOrAdd_alt split: if_splits)
  moreover have "int (n - 1) = int n - 1" using ok(1) by simp
  then have "remembers (addLast i ?r) i now"
    unfolding remembers_def using ok by (auto simp: addLast_bucket bucket_end_def simp del: of_nat_diff intro!: exI[of _ "n - 1"])
  ultimately show ?thesis by simp
qed

lemma step_ok: "protector_ok d n p \<Longrightarrow> 0 < op_time x \<Longrightarrow> protector_ok d n (fst (replay_step x p))"
  using rotate_ok[of d n p "op_time x"] by (cases x) (auto simp: SeenOrAdd_alt)

lemma run_ok: "protector_ok d n p \<Longrightarrow> \<forall>x\<in>set ops. 0 < op_time x \<Longrightarrow> protector_ok d n (fst (run replay_step ops p))"
  by (induction ops arbitrary: p) (simp_all add: Let_def step_ok)

lemma step_remembers:
  assumes "protector_ok d n p" "0 < op_time x" "remembers p i t" "op_time x - t \<le> (int n - 1) * d"
  shows "remembers (fst (replay_step x p)) i t"
  using remembers_rotate[OF assms] by (cases x) (auto simp: SeenOrAdd_alt remembers_addLast)

lemma run_remembers:
  "protector_ok d n p \<Longrightarrow> \<forall>x\<in>set ops. 0 < op_time x \<and> op_time x - t \<le> (int n - 1) * d \<Longrightarrow> remembers p i t \<Longrightarrow>
   remembers (fst (run replay_step ops p)) i t"
  by (induction ops arbitrary: p) (simp_all add: Let_def step_ok step_remembers)

text \<open>What a protector holds was added, at a time in the period of its bucket or later.\<close>

definition recalls :: "(MessageID \<times> gotime) set \<Rightarrow> gotime \<Rightarrow> Protector \<Rightarrow> bool" where
  "recalls H now p \<longleftrightarrow> zero p \<le> now \<and>
     (\<forall>k<length (buckets p). \<forall>i\<in>buckets p ! k. zero p \<noteq> 0 \<and> (\<exists>t. (i, t) \<in> H \<and> bucket_end p k - bucketDur p \<le> t))"

lemma recalls_rotate:
  assumes "protector_ok d n p" "0 < now" "recalls H t0 p" "t0 \<le> now"
  shows "recalls H now (rotateLocked now p)"
proof -
  let ?r = "rotateLocked now p"
  have n: "length (buckets p) = n" "length (buckets ?r) = n" "bucketDur p = d" "bucketDur ?r = d" "zero ?r \<noteq> 0" "0 < d"
    using assms(1) rotate_ok[OF assms(1,2)] by (auto simp: protector_ok_def)
  have "zero ?r \<le> now"
    using assms(1,2)
  proof (cases rule: rotate_cases)
    case stay
    then show ?thesis using assms(3,4) by (simp add: recalls_def)
  qed simp_all
  moreover have "\<exists>t. (i, t) \<in> H \<and> bucket_end ?r k - d \<le> t" if ki: "k < n" "i \<in> buckets ?r ! k" for k i
  proof -
    obtain k' where k': "k' < n" "i \<in> buckets p ! k'" "zero p = 0 \<or> bucket_end ?r k = bucket_end p k'"
      by (rule rotate_bucket[OF assms(1,2) ki])
    then show ?thesis using assms(3) n by (fastforce simp: recalls_def)
  qed
  ultimately show ?thesis using n by (auto simp: recalls_def)
qed

definition added :: "replay_op list \<Rightarrow> (MessageID \<times> gotime) set" where
  "added ops = {(i, t). DoSeenOrAdd i t \<in> set ops}"

lemma recalls_mono: "recalls H t p \<Longrightarrow> H \<subseteq> H' \<Longrightarrow> recalls H' t p"
  unfolding recalls_def by blast

lemma recalls_addLast:
  assumes "recalls H now p" "zero p \<noteq> 0"
  shows "recalls (insert (i, now) H) now (addLast i p)"
proof -
  have z: "zero p \<le> now" using assms(1) by (simp add: recalls_def)
  have "\<exists>t. (j, t) \<in> insert (i, now) H \<and> bucket_end p k - bucketDur p \<le> t"
    if k: "k < length (buckets p)" and j: "j \<in> buckets (addLast i p) ! k" for j k
  proof (cases "j \<in> buckets p ! k")
    case True
    then show ?thesis using assms(1) k unfolding recalls_def by blast
  next
    case False
    then have "Suc k = length (buckets p)" "j = i" using j k by (auto simp: addLast_bucket split: if_splits)
    moreover from this have "int (length (buckets p)) = int k + 1" by simp
    ultimately have "bucket_end p k - bucketDur p \<le> now" using z by (simp add: bucket_end_def)
    then show ?thesis using \<open>j = i\<close> by blast
  qed
  then show ?thesis using z assms(2) by (simp add: recalls_def)
qed

lemma step_recalls:
  assumes "protector_ok d n p" "0 < op_time x" "recalls (added ops) t0 p" "t0 \<le> op_time x"
  shows "recalls (added (ops @ [x])) (op_time x) (fst (replay_step x p))"
proof -
  have r: "recalls (added ops) (op_time x) (rotateLocked (op_time x) p)" by (rule recalls_rotate[OF assms])
  then have r': "recalls (added (ops @ [x])) (op_time x) (rotateLocked (op_time x) p)"
    by (rule recalls_mono) (auto simp: added_def)
  have z: "zero (rotateLocked (op_time x) p) \<noteq> 0" using rotate_ok[OF assms(1,2)] by auto
  show ?thesis
  proof (cases x)
    case (DoSeenOrAdd i now)
    then have "insert (i, op_time x) (added ops) = added (ops @ [x])" by (auto simp: added_def)
    with recalls_addLast[OF r z, of i] r' DoSeenOrAdd show ?thesis by (simp add: SeenOrAdd_alt)
  qed (use r' in simp)
qed

lemma run_recalls:
  assumes "protector_ok d n p" "recalls {} 0 p" "\<forall>x\<in>set ops. 0 < op_time x" "sorted (map op_time ops)"
  shows "recalls (added ops) (if ops = [] then 0 else op_time (last ops)) (fst (run replay_step ops p))"
  using assms(3,4)
proof (induction ops rule: rev_induct)
  case Nil
  then show ?case using assms(2) by (simp add: added_def)
next
  case (snoc x ops)
  have ok: "protector_ok d n (fst (run replay_step ops p))" using run_ok[OF assms(1)] snoc.prems by simp
  have "(if ops = [] then 0 else op_time (last ops)) \<le> op_time x"
    using snoc.prems by (auto simp: sorted_append)
  with step_recalls[OF ok _ snoc.IH, of x] snoc.prems show ?case by (simp add: run_append Let_def sorted_append)
qed

lemma New_protector_ok:
  assumes "bucket \<le> 2 ^ 63 - 1" "window \<le> 2 ^ 63 - 1"
  shows "protector_ok (bucketDur (New bucket window)) (length (buckets (New bucket window))) (New bucket window)"
    "recalls {} 0 (New bucket window)"
    "int (length (buckets (New bucket window))) * bucketDur (New bucket window) \<le> windowDur (New bucket window)"
proof -
  define b where "b = (if bucket \<le> 0 then 10 * second else bucket)"
  define w where "w = (let w0 = (if window \<le> 0 then 600 * second else window) in if w0 < b then b else w0)"
  have b: "0 < b" "b \<le> w" "w \<le> 2 ^ 63 - 1" using assms by (auto simp: b_def w_def second_def Let_def)
  have "w div b * b \<le> w" using b by (simp add: minus_mod_eq_div_mult[symmetric])
  moreover have "1 \<le> w div b" using b by (simp add: pos_imp_zdiv_pos_iff int_one_le_iff_zero_less)
  moreover have new: "New bucket window = \<lparr>bucketDur = b, windowDur = w, buckets = replicate (nat (w div b)) {}, zero = 0\<rparr>"
    using b calculation by (simp add: New_def b_def[symmetric] w_def[unfolded Let_def, symmetric] quot_div Let_def)
  ultimately show "protector_ok (bucketDur (New bucket window)) (length (buckets (New bucket window))) (New bucket window)"
    "recalls {} 0 (New bucket window)"
    "int (length (buckets (New bucket window))) * bucketDur (New bucket window) \<le> windowDur (New bucket window)"
    using b by (simp_all add: protector_ok_def recalls_def)
qed

text \<open>
  The window of the replay protection, for any sequence of queries at times that do not decrease: a message that was new at \<open>t\<close> is
  reported as seen at every later \<open>t'\<close> up to one bucket short of the window, whatever came between; and a message reported as seen was
  offered less than a window before.
\<close>

theorem replay_window:
  assumes "bucket \<le> 2 ^ 63 - 1" "window \<le> 2 ^ 63 - 1"
    and "\<forall>x\<in>set ops. 0 < op_time x" "sorted (map op_time ops @ [t'])" "0 < t'"
  shows "let p = New bucket window; seen = snd (SeenOrAdd i t' (fst (run replay_step ops p)))
    in (\<forall>pre t mid. ops = pre @ DoSeenOrAdd i t # mid \<and> \<not> snd (SeenOrAdd i t (fst (run replay_step pre p))) \<and>
          t' - t \<le> (int (length (buckets p)) - 1) * bucketDur p \<longrightarrow> seen) \<and>
       (seen \<longrightarrow> (\<exists>t. DoSeenOrAdd i t \<in> set ops \<and> t' - t < windowDur p))"
proof -
  let ?p = "New bucket window"
  let ?d = "bucketDur ?p" and ?n = "length (buckets ?p)" and ?q = "fst (run replay_step ops ?p)"
  note ok = New_protector_ok[OF assms(1,2)]
  have okq: "protector_ok ?d ?n ?q" using run_ok[OF ok(1)] assms(3) by simp
  have "snd (SeenOrAdd i t' ?q)"
    if new: "ops = pre @ DoSeenOrAdd i t # mid" "\<not> snd (SeenOrAdd i t (fst (run replay_step pre ?p)))" "t' - t \<le> (int ?n - 1) * ?d"
    for pre t mid
  proof -
    let ?p1 = "fst (SeenOrAdd i t (fst (run replay_step pre ?p)))"
    have okp: "protector_ok ?d ?n (fst (run replay_step pre ?p))" and t: "0 < t" using run_ok[OF ok(1)] assms(3) new(1) by auto
    have rem: "remembers ?p1 i t" by (rule not_seen_remembers[OF okp t new(2)])
    have ok1: "protector_ok ?d ?n ?p1" using step_ok[OF okp, of "DoSeenOrAdd i t"] t by simp
    have "\<forall>x\<in>set mid. 0 < op_time x \<and> op_time x - t \<le> (int ?n - 1) * ?d"
      using assms(3,4) new(1,3) by (fastforce simp: sorted_append)
    from run_remembers[OF ok1 this rem] have "remembers ?q i t" by (simp add: new(1) run_append Let_def)
    from remembers_seen[OF remembers_rotate[OF okq assms(5) this new(3)]] show ?thesis by (simp add: SeenOrAdd_alt)
  qed
  moreover have "\<exists>t. DoSeenOrAdd i t \<in> set ops \<and> t' - t < windowDur ?p" if seen: "snd (SeenOrAdd i t' ?q)"
  proof -
    let ?r = "rotateLocked t' ?q"
    have rok: "length (buckets ?r) = ?n" "bucketDur ?r = ?d" "t' < zero ?r + ?d" "0 < ?d"
      using rotate_ok[OF okq assms(5)] by (auto simp: protector_ok_def)
    have "recalls (added ops) t' ?r"
      by (rule recalls_rotate[OF okq assms(5) run_recalls[OF ok(1,2) assms(3)]]) (use assms(4,5) in \<open>auto simp: sorted_append\<close>)
    moreover obtain k where "k < ?n" "i \<in> buckets ?r ! k"
      using seen rok(1) by (auto simp: SeenOrAdd_alt Seen_def Let_def list_ex_iff in_set_conv_nth split: if_splits)
    ultimately obtain t where t: "(i, t) \<in> added ops" "bucket_end ?r k - ?d \<le> t" unfolding recalls_def rok by blast
    have "(int ?n - 1 - int k) * ?d \<le> (int ?n - 1) * ?d" using rok(4) by (intro mult_right_mono) auto
    with t(2) rok(3) have "t' - t < int ?n * ?d" by (simp add: bucket_end_def rok algebra_simps)
    with ok(3) t(1) show ?thesis by (auto simp: added_def)
  qed
  ultimately show ?thesis unfolding Let_def by blast
qed

theorem replay_window_witness:
  "let p = New 10 30; ops = [DoSeenOrAdd [7] 100, DoSeen [8] 105]; seen = snd (SeenOrAdd [7] 119 (fst (run replay_step ops p)))
    in (\<forall>pre t mid. ops = pre @ DoSeenOrAdd [7] t # mid \<and> \<not> snd (SeenOrAdd [7] t (fst (run replay_step pre p))) \<and>
          119 - t \<le> (int (length (buckets p)) - 1) * bucketDur p \<longrightarrow> seen) \<and>
       (seen \<longrightarrow> (\<exists>t. DoSeenOrAdd [7] t \<in> set ops \<and> 119 - t < windowDur p))"
  unfolding Let_def by (rule replay_window[unfolded Let_def]) auto

end
