(* ===== verification/Mesh_Guard.thy ===== *)
theory Mesh_Guard
  imports Mesh_Prelude
begin

text \<open>
  The flood guard of the mesh (\<^verbatim>\<open>core/proximity/anti_flood_guard/anti_flood_guard.go\<close>): a token bucket per sender and a global one. The
  \<^verbatim>\<open>float64\<close> amounts are rational numbers here, so the theorem is about exact arithmetic and not about rounding.
\<close>

section \<open>Token buckets\<close>

record tokenBucket =
  capacity :: rat
  rate :: rat
  tokens :: rat
  bkLast :: gotime

definition newBucket :: "rat \<Rightarrow> rat \<Rightarrow> gotime \<Rightarrow> tokenBucket" where
  "newBucket cap rt now = \<lparr>capacity = cap, rate = rt, tokens = cap, bkLast = now\<rparr>"

definition Seconds :: "duration \<Rightarrow> rat" where
  "Seconds d = of_int d / 1000000000"

definition refill :: "gotime \<Rightarrow> tokenBucket \<Rightarrow> tokenBucket" where
  "refill now b0 =
     (let b = (if bkLast b0 = 0 then b0\<lparr>bkLast := now\<rparr> else b0); dt = Seconds (time_sub now (bkLast b)) in
      if dt > 0 then let tk = tokens b + dt * rate b in b\<lparr>tokens := (if tk > capacity b then capacity b else tk), bkLast := now\<rparr>
      else b)"

definition can :: "rat \<Rightarrow> tokenBucket \<Rightarrow> bool" where
  "can cost b \<longleftrightarrow> tokens b \<ge> cost"

definition consume :: "rat \<Rightarrow> tokenBucket \<Rightarrow> tokenBucket" where
  "consume cost b = b\<lparr>tokens := tokens b - cost\<rparr>"

section \<open>The guard\<close>

record Guard =
  global :: tokenBucket
  per :: "NodeID \<rightharpoonup> tokenBucket"
  perCapacity :: rat
  perRate :: rat

record GuardOptions =
  GlobalCapacity :: rat
  GlobalRate :: rat
  PerCapacity :: rat
  PerRate :: rat

definition orDefault :: "rat \<Rightarrow> rat \<Rightarrow> rat" where
  "orDefault x d = (if x \<le> 0 then d else x)"

definition New :: "GuardOptions \<Rightarrow> gotime \<Rightarrow> Guard" where
  "New opts now =
     \<lparr>global = newBucket (orDefault (GlobalCapacity opts) 60) (orDefault (GlobalRate opts) 30) now, per = Map.empty,
      perCapacity = orDefault (PerCapacity opts) 10, perRate = orDefault (PerRate opts) 4\<rparr>"

definition zeroBucket :: tokenBucket where
  "zeroBucket = \<lparr>capacity = 0, rate = 0, tokens = 0, bkLast = 0\<rparr>"

definition Allow :: "NodeID \<Rightarrow> gotime \<Rightarrow> rat \<Rightarrow> Guard \<Rightarrow> Guard \<times> bool" where
  "Allow sender now cost0 g =
     (let cost = (if cost0 \<le> 0 then 1 else cost0);
          b0 = (case per g sender of None \<Rightarrow> zeroBucket | Some b \<Rightarrow> b);
          b1 = (if capacity b0 = 0 \<and> rate b0 = 0 then newBucket (perCapacity g) (perRate g) now else b0);
          gl = refill now (global g);
          b = refill now b1
      in if \<not> can cost gl \<or> \<not> can cost b then (g\<lparr>global := gl, per := (per g)(sender \<mapsto> b)\<rparr>, False)
         else (g\<lparr>global := consume cost gl, per := (per g)(sender \<mapsto> consume cost b)\<rparr>, True))"

definition AllowGlobal :: "gotime \<Rightarrow> rat \<Rightarrow> Guard \<Rightarrow> Guard \<times> bool" where
  "AllowGlobal now cost0 g =
     (let cost = (if cost0 \<le> 0 then 1 else cost0); gl = refill now (global g) in
      if \<not> can cost gl then (g\<lparr>global := gl\<rparr>, False) else (g\<lparr>global := consume cost gl\<rparr>, True))"

datatype guard_op = DoAllow NodeID gotime rat | DoAllowGlobal gotime rat

fun guard_step :: "guard_op \<Rightarrow> Guard \<Rightarrow> Guard \<times> bool" where
  "guard_step (DoAllow s now cost) g = Allow s now cost g"
| "guard_step (DoAllowGlobal now cost) g = AllowGlobal now cost g"

fun guard_time :: "guard_op \<Rightarrow> gotime" where
  "guard_time (DoAllow s now cost) = now"
| "guard_time (DoAllowGlobal now cost) = now"

fun op_cost :: "guard_op \<Rightarrow> rat" where
  "op_cost (DoAllow s now cost) = (if cost \<le> 0 then 1 else cost)"
| "op_cost (DoAllowGlobal now cost) = (if cost \<le> 0 then 1 else cost)"

fun from_sender :: "NodeID \<Rightarrow> guard_op \<Rightarrow> bool" where
  "from_sender s (DoAllow s' now cost) \<longleftrightarrow> s' = s"
| "from_sender s (DoAllowGlobal now cost) \<longleftrightarrow> False"

text \<open>The cost of the operations with property \<open>P\<close> that the guard allowed in a run.\<close>

fun spent :: "(guard_op \<Rightarrow> bool) \<Rightarrow> guard_op list \<Rightarrow> bool list \<Rightarrow> rat" where
  "spent P (x # xs) (ok # oks) = (if ok \<and> P x then op_cost x else 0) + spent P xs oks"
| "spent P _ _ = 0"

section \<open>The rate\<close>

definition bucket_ok :: "rat \<Rightarrow> rat \<Rightarrow> tokenBucket \<Rightarrow> bool" where
  "bucket_ok cap rt b \<longleftrightarrow> capacity b = cap \<and> rate b = rt \<and> 0 < cap \<and> 0 < rt \<and> 0 \<le> tokens b \<and> tokens b \<le> cap \<and> 0 < bkLast b"

definition in_budget :: "gotime \<Rightarrow> gotime \<Rightarrow> rat \<Rightarrow> tokenBucket \<Rightarrow> bool" where
  "in_budget t1 t2 sp b \<longleftrightarrow> sp + tokens b \<le> capacity b + rate b * Seconds (max (min (bkLast b) t2) t1 - t1) \<and> (bkLast b < t1 \<longrightarrow> sp = 0)"

lemma Seconds_add: "Seconds (a + b) = Seconds a + Seconds b"
  by (simp add: Seconds_def add_divide_distrib)

lemma Seconds_mono: "a \<le> b \<Longrightarrow> Seconds a \<le> Seconds b"
  by (simp add: Seconds_def divide_right_mono)

lemma Seconds_pos [simp]: "0 < Seconds d \<longleftrightarrow> 0 < d" "Seconds 0 = 0" "0 \<le> Seconds d \<longleftrightarrow> 0 \<le> d"
  by (simp_all add: Seconds_def)

lemma time_sub_pos: "0 < time_sub t u \<longleftrightarrow> u < t"
  by (auto simp: time_sub_def)

lemma refill_alt:
  "bkLast b \<noteq> 0 \<Longrightarrow> refill now b =
    (if bkLast b < now then b\<lparr>tokens := min (capacity b) (tokens b + Seconds (time_sub now (bkLast b)) * rate b), bkLast := now\<rparr> else b)"
  by (auto simp: refill_def Let_def time_sub_pos)

lemma refill_ok:
  assumes "bucket_ok cap rt b"
  shows "bucket_ok cap rt (refill now b) \<and> now \<le> bkLast (refill now b) \<and> bkLast b \<le> bkLast (refill now b) \<and>
    bkLast (refill now b) \<le> max (bkLast b) now"
proof -
  have "bkLast b < now \<Longrightarrow> 0 \<le> Seconds (time_sub now (bkLast b)) * rate b"
    using assms by (simp add: bucket_ok_def time_sub_pos order_less_imp_le)
  then show ?thesis using assms by (auto simp: refill_alt bucket_ok_def)
qed

lemma refill_in_budget:
  assumes "bucket_ok cap rt b" "in_budget t1 t2 sp b" "t1 \<le> now" "now \<le> t2"
  shows "in_budget t1 t2 sp (refill now b)"
proof (cases "bkLast b < now")
  case True
  have b: "bkLast b \<noteq> 0" "0 < rate b" "capacity b = cap" using assms(1) by (auto simp: bucket_ok_def)
  have r: "refill now b = b\<lparr>tokens := min (capacity b) (tokens b + Seconds (time_sub now (bkLast b)) * rate b), bkLast := now\<rparr>"
    using True b by (simp add: refill_alt)
  show ?thesis
  proof (cases "bkLast b < t1")
    case True
    moreover have "min (capacity b) x \<le> capacity b + rate b * Seconds (now - t1)" for x
      using b assms(3) by (intro min.coboundedI1) simp
    ultimately show ?thesis using assms b by (auto simp: in_budget_def r)
  next
    case False
    have "Seconds (time_sub now (bkLast b)) \<le> Seconds (now - bkLast b)"
      using True by (intro Seconds_mono) (simp add: time_sub_def)
    then have "Seconds (time_sub now (bkLast b)) * rate b \<le> Seconds (now - bkLast b) * rate b"
      using b by (intro mult_right_mono) auto
    moreover have "Seconds (now - t1) = Seconds (now - bkLast b) + Seconds (bkLast b - t1)" by (simp add: Seconds_add[symmetric])
    moreover have "min (bkLast b) t2 = bkLast b" "max (bkLast b) t1 = bkLast b" "min now t2 = now" "max now t1 = now"
      using True False assms(3,4) by auto
    ultimately show ?thesis using assms(2,3) False by (auto simp: in_budget_def r algebra_simps min_le_iff_disj)
  qed
next
  case False
  then show ?thesis using assms by (auto simp: refill_alt bucket_ok_def)
qed

lemma consume_in_budget:
  "in_budget t1 t2 sp b \<Longrightarrow> t1 \<le> bkLast b \<Longrightarrow> can cost b \<Longrightarrow> in_budget t1 t2 (sp + cost) (consume cost b)"
  by (auto simp: in_budget_def can_def consume_def)

lemma consume_ok: "bucket_ok cap rt b \<Longrightarrow> 0 < cost \<Longrightarrow> can cost b \<Longrightarrow> bucket_ok cap rt (consume cost b)"
  by (auto simp: bucket_ok_def can_def consume_def)

definition sender_ok :: "Guard \<Rightarrow> tokenBucket option \<Rightarrow> bool" where
  "sender_ok g b \<longleftrightarrow> (case b of None \<Rightarrow> True | Some b \<Rightarrow> bucket_ok (perCapacity g) (perRate g) b)"

definition guard_ok :: "rat \<Rightarrow> rat \<Rightarrow> Guard \<Rightarrow> bool" where
  "guard_ok cap rt g \<longleftrightarrow> bucket_ok cap rt (global g) \<and> 0 < perCapacity g \<and> 0 < perRate g \<and> (\<forall>s. sender_ok g (per g s))"

definition sender_budget :: "gotime \<Rightarrow> gotime \<Rightarrow> rat \<Rightarrow> tokenBucket option \<Rightarrow> bool" where
  "sender_budget t1 t2 sp b \<longleftrightarrow> (case b of None \<Rightarrow> sp = 0 | Some b \<Rightarrow> in_budget t1 t2 sp b)"

definition senderBucket :: "NodeID \<Rightarrow> gotime \<Rightarrow> Guard \<Rightarrow> tokenBucket" where
  "senderBucket s now g = (case per g s of None \<Rightarrow> newBucket (perCapacity g) (perRate g) now | Some b \<Rightarrow> b)"

lemma Allow_alt:
  assumes "guard_ok cap rt g"
  shows "Allow s now cost g =
    (let c = op_cost (DoAllow s now cost); gl = refill now (global g); b = refill now (senderBucket s now g) in
     if can c gl \<and> can c b then (g\<lparr>global := consume c gl, per := (per g)(s \<mapsto> consume c b)\<rparr>, True)
     else (g\<lparr>global := gl, per := (per g)(s \<mapsto> b)\<rparr>, False))"
proof -
  have "sender_ok g (per g s)" using assms by (simp add: guard_ok_def)
  then show ?thesis
    by (auto simp: Allow_def senderBucket_def zeroBucket_def Let_def sender_ok_def bucket_ok_def split: option.splits)
qed

lemma senderBucket_ok:
  assumes "guard_ok cap rt g" "0 < now"
  shows "bucket_ok (perCapacity g) (perRate g) (senderBucket s now g)"
proof -
  have "sender_ok g (per g s)" using assms by (simp add: guard_ok_def)
  then show ?thesis
    using assms by (auto simp: senderBucket_def sender_ok_def guard_ok_def newBucket_def bucket_ok_def split: option.splits)
qed

lemma op_cost_pos: "0 < op_cost x"
  by (cases x) auto

lemma guard_step_ok:
  assumes "guard_ok cap rt g" "0 < guard_time x"
  shows "guard_ok cap rt (fst (guard_step x g)) \<and> perCapacity (fst (guard_step x g)) = perCapacity g \<and>
    perRate (fst (guard_step x g)) = perRate g"
proof (cases x)
  case (DoAllow s now cost)
  let ?gl = "refill now (global g)" and ?b = "refill now (senderBucket s now g)"
  have "bucket_ok cap rt ?gl" using refill_ok assms(1) by (auto simp: guard_ok_def)
  moreover have "bucket_ok (perCapacity g) (perRate g) ?b" using refill_ok senderBucket_ok[OF assms(1)] assms(2) DoAllow by auto
  ultimately show ?thesis
    using assms(1) op_cost_pos[of x] DoAllow
    by (auto simp: Allow_alt[OF assms(1)] Let_def guard_ok_def sender_ok_def consume_ok split: option.splits if_splits)
next
  case (DoAllowGlobal now cost)
  have "bucket_ok cap rt (refill now (global g))" using refill_ok assms(1) by (auto simp: guard_ok_def)
  then show ?thesis
    using assms(1) DoAllowGlobal by (auto simp: AllowGlobal_def Let_def guard_ok_def sender_ok_def consume_ok split: option.splits)
qed

lemma guard_run_ok:
  "guard_ok cap rt g \<Longrightarrow> \<forall>x\<in>set ops. 0 < guard_time x \<Longrightarrow>
   guard_ok cap rt (fst (run guard_step ops g)) \<and> perCapacity (fst (run guard_step ops g)) = perCapacity g \<and>
   perRate (fst (run guard_step ops g)) = perRate g"
proof (induction ops arbitrary: g)
  case (Cons x ops)
  have "guard_ok cap rt (fst (guard_step x g)) \<and> perCapacity (fst (guard_step x g)) = perCapacity g \<and>
    perRate (fst (guard_step x g)) = perRate g"
    using Cons.prems by (intro guard_step_ok) auto
  with Cons.IH[of "fst (guard_step x g)"] Cons.prems show ?case by (simp add: Let_def)
qed simp

text \<open>One step spends from the global budget and from the budget of its sender.\<close>

lemma guard_step_budget:
  assumes "guard_ok cap rt g" "t1 \<le> guard_time x" "0 < guard_time x" "guard_time x \<le> t2"
  defines "g' \<equiv> fst (guard_step x g)" and "allowed \<equiv> snd (guard_step x g)"
  shows "in_budget t1 t2 sp (global g) \<Longrightarrow> in_budget t1 t2 (sp + (if allowed then op_cost x else 0)) (global g')"
    and "sender_budget t1 t2 sp (per g s) \<Longrightarrow> sender_budget t1 t2 (sp + (if allowed \<and> from_sender s x then op_cost x else 0)) (per g' s)"
proof -
  let ?now = "guard_time x"
  let ?gl = "refill ?now (global g)"
  have okg: "bucket_ok cap rt (global g)" using assms(1) by (simp add: guard_ok_def)
  have gl: "in_budget t1 t2 sp (global g) \<Longrightarrow> in_budget t1 t2 sp ?gl" "t1 \<le> bkLast ?gl"
    using refill_in_budget[OF okg _ assms(2,4)] refill_ok[OF okg, of ?now] assms(2) by auto
  have b: "sender_budget t1 t2 sp (per g s') \<Longrightarrow> in_budget t1 t2 sp (refill ?now (senderBucket s' ?now g))"
    "t1 \<le> bkLast (refill ?now (senderBucket s' ?now g))" for s'
  proof -
    have okb: "bucket_ok (perCapacity g) (perRate g) (senderBucket s' ?now g)" by (rule senderBucket_ok[OF assms(1,3)])
    show "t1 \<le> bkLast (refill ?now (senderBucket s' ?now g))" using refill_ok[OF okb, of ?now] assms(2) by auto
    assume "sender_budget t1 t2 sp (per g s')"
    then have "in_budget t1 t2 sp (senderBucket s' ?now g)"
      using assms(1,2,4) by (auto simp: sender_budget_def senderBucket_def in_budget_def newBucket_def guard_ok_def split: option.splits)
    from refill_in_budget[OF okb this assms(2,4)] show "in_budget t1 t2 sp (refill ?now (senderBucket s' ?now g))" .
  qed
  { assume "in_budget t1 t2 sp (global g)"
    with gl show "in_budget t1 t2 (sp + (if allowed then op_cost x else 0)) (global g')"
      by (cases x) (auto simp: g'_def allowed_def Allow_alt[OF assms(1)] AllowGlobal_def Let_def consume_in_budget) }
  { assume "sender_budget t1 t2 sp (per g s)"
    with b[of s] show "sender_budget t1 t2 (sp + (if allowed \<and> from_sender s x then op_cost x else 0)) (per g' s)"
      by (cases x) (auto simp: g'_def allowed_def Allow_alt[OF assms(1)] AllowGlobal_def Let_def consume_in_budget sender_budget_def split: option.splits) }
qed

lemma guard_run_budget:
  assumes "guard_ok cap rt g" "\<forall>x\<in>set ops. 0 < guard_time x \<and> t1 \<le> guard_time x \<and> guard_time x \<le> t2"
    and "in_budget t1 t2 sp (global g)" "sender_budget t1 t2 sq (per g s)"
  shows "in_budget t1 t2 (sp + spent (\<lambda>_. True) ops (snd (run guard_step ops g))) (global (fst (run guard_step ops g))) \<and>
    sender_budget t1 t2 (sq + spent (from_sender s) ops (snd (run guard_step ops g))) (per (fst (run guard_step ops g)) s)"
  using assms
proof (induction ops arbitrary: g sp sq)
  case (Cons x ops)
  let ?g = "fst (guard_step x g)" and ?ok = "snd (guard_step x g)"
  have x: "t1 \<le> guard_time x" "0 < guard_time x" "guard_time x \<le> t2" using Cons.prems(2) by auto
  note b = guard_step_budget[OF Cons.prems(1) x]
  from Cons.IH[of ?g, OF _ _ b(1)[OF Cons.prems(3)] b(2)[OF Cons.prems(4)]] guard_step_ok[OF Cons.prems(1) x(2)] Cons.prems(2)
  show ?case by (simp add: Let_def add.assoc)
qed simp

lemma New_guard_ok: "0 < now \<Longrightarrow> guard_ok (capacity (global (New opts now))) (rate (global (New opts now))) (New opts now)"
  by (auto simp: guard_ok_def New_def newBucket_def bucket_ok_def sender_ok_def orDefault_def)

lemma budget_bound: "in_budget t1 t2 sp b \<Longrightarrow> bucket_ok cap rt b \<Longrightarrow> t1 \<le> t2 \<Longrightarrow> sp \<le> cap + rt * Seconds (t2 - t1)"
proof -
  assume a: "in_budget t1 t2 sp b" "bucket_ok cap rt b" "t1 \<le> t2"
  then have "rt * Seconds (max (min (bkLast b) t2) t1 - t1) \<le> rt * Seconds (t2 - t1)"
    by (intro mult_left_mono Seconds_mono) (auto simp: bucket_ok_def)
  moreover have "sp + tokens b \<le> cap + rt * Seconds (max (min (bkLast b) t2) t1 - t1)" "0 \<le> tokens b"
    using a by (auto simp: in_budget_def bucket_ok_def)
  ultimately show ?thesis by linarith
qed

text \<open>
  C15. The guard limits the rate: after any history, in every time interval the cost of all the operations it allows is at most the global
  capacity plus the global rate times the length of the interval, and the cost it allows one sender is at most the capacity per sender
  plus the rate per sender times that length.
\<close>

theorem rate_bounded:
  fixes opts :: GuardOptions
  assumes "0 < now" "\<forall>x\<in>set pre. 0 < guard_time x" "0 < t1" "t1 \<le> t2" "\<forall>x\<in>set ops. t1 \<le> guard_time x \<and> guard_time x \<le> t2"
  shows "let g = fst (run guard_step pre (New opts now)); oks = snd (run guard_step ops g) in
    spent (\<lambda>_. True) ops oks \<le> orDefault (GlobalCapacity opts) 60 + orDefault (GlobalRate opts) 30 * Seconds (t2 - t1) \<and>
    spent (from_sender s) ops oks \<le> orDefault (PerCapacity opts) 10 + orDefault (PerRate opts) 4 * Seconds (t2 - t1)"
proof -
  let ?n = "New opts now" and ?g = "fst (run guard_step pre (New opts now))"
  let ?cap = "capacity (global ?n)" and ?rt = "rate (global ?n)" and ?h = "fst (run guard_step ops ?g)"
  have times: "\<forall>x\<in>set ops. 0 < guard_time x \<and> t1 \<le> guard_time x \<and> guard_time x \<le> t2" using assms(3,5) by auto
  have g: "guard_ok ?cap ?rt ?g" "perCapacity ?g = perCapacity ?n" "perRate ?g = perRate ?n"
    using guard_run_ok[OF New_guard_ok[OF assms(1)] assms(2)] by auto
  have h: "guard_ok ?cap ?rt ?h" "perCapacity ?h = perCapacity ?n" "perRate ?h = perRate ?n"
    using guard_run_ok[OF g(1), of ops] g times by auto
  have gb: "bucket_ok ?cap ?rt (global ?g)" "sender_ok ?g (per ?g s)" using g(1) by (auto simp: guard_ok_def)
  then have "in_budget t1 t2 0 (global ?g)" by (simp add: in_budget_def bucket_ok_def add_increasing2)
  moreover have "sender_budget t1 t2 0 (per ?g s)"
    using gb(2) by (auto simp: sender_budget_def sender_ok_def in_budget_def bucket_ok_def add_increasing2 split: option.splits)
  ultimately have r: "in_budget t1 t2 (spent (\<lambda>_. True) ops (snd (run guard_step ops ?g))) (global ?h)"
    "sender_budget t1 t2 (spent (from_sender s) ops (snd (run guard_step ops ?g))) (per ?h s)"
    using guard_run_budget[OF g(1) times, of 0 0 s] by auto
  have "spent (\<lambda>_. True) ops (snd (run guard_step ops ?g)) \<le> ?cap + ?rt * Seconds (t2 - t1)"
    using budget_bound[OF r(1) _ assms(4)] h(1) by (simp add: guard_ok_def)
  moreover have "spent (from_sender s) ops (snd (run guard_step ops ?g)) \<le> perCapacity ?n + perRate ?n * Seconds (t2 - t1)"
  proof (cases "per ?h s")
    case None
    have "0 \<le> perCapacity ?n + perRate ?n * Seconds (t2 - t1)" using assms(4) by (simp add: New_def orDefault_def)
    then show ?thesis using r(2) None by (simp add: sender_budget_def)
  next
    case (Some b)
    then have "bucket_ok (perCapacity ?n) (perRate ?n) b" using h by (auto simp: guard_ok_def sender_ok_def split: option.splits dest: spec[of _ s])
    then show ?thesis using budget_bound[OF _ _ assms(4)] r(2) Some by (simp add: sender_budget_def)
  qed
  ultimately show ?thesis by (simp add: Let_def New_def newBucket_def)
qed

theorem rate_bounded_witness:
  "let opts = \<lparr>GlobalCapacity = 0, GlobalRate = 0, PerCapacity = 2, PerRate = 1\<rparr>; ops = [DoAllow [1] 5 1, DoAllow [1] 6 1, DoAllow [1] 7 1];
       g = fst (run guard_step [DoAllowGlobal 3 2] (New opts 1)); oks = snd (run guard_step ops g) in
    spent (\<lambda>_. True) ops oks \<le> orDefault (GlobalCapacity opts) 60 + orDefault (GlobalRate opts) 30 * Seconds (7 - 5) \<and>
    spent (from_sender [1]) ops oks \<le> orDefault (PerCapacity opts) 10 + orDefault (PerRate opts) 4 * Seconds (7 - 5)"
  unfolding Let_def by (rule rate_bounded[unfolded Let_def]) auto

end
