(* ===== verification/Mesh_Scoring.thy ===== *)
theory Mesh_Scoring
  imports Mesh_Prelude
begin

text \<open>
  Scoring of neighbours and the decision to forward: \<^verbatim>\<open>core/proximity/relay_scoring\<close>, \<^verbatim>\<open>core/proximity/routing_engine\<close> and
  \<^verbatim>\<open>core/proximity/gossip_controller\<close>. Counters are unsigned 32-bit words; \<^verbatim>\<open>float64\<close> values are rational numbers; random numbers are
  arguments.
\<close>

section \<open>Relay scoring\<close>

type_synonym u32 = "32 word"

record Stats =
  Neighbor :: NodeID
  SeenCount :: u32
  LastSeenAt :: gotime
  FirstSeenAt :: gotime
  ForwardOK :: u32
  ForwardFail :: u32
  InvalidFrames :: u32
  RateLimited :: u32
  windowStart :: gotime
  invalidInWindow :: u32
  limitedInWindow :: u32
  QuarantineUntil :: gotime
  lastPenaltyExtend :: gotime

type_synonym Scorer = "NodeID \<rightharpoonup> Stats"

definition newStats :: "NodeID \<Rightarrow> Stats" where
  "newStats i = \<lparr>Neighbor = i, SeenCount = 0, LastSeenAt = 0, FirstSeenAt = 0, ForwardOK = 0, ForwardFail = 0, InvalidFrames = 0,
     RateLimited = 0, windowStart = 0, invalidInWindow = 0, limitedInWindow = 0, QuarantineUntil = 0, lastPenaltyExtend = 0\<rparr>"

definition statsOf :: "NodeID \<Rightarrow> Scorer \<Rightarrow> Stats" where
  "statsOf i s = (case s i of None \<Rightarrow> newStats i | Some st \<Rightarrow> st)"

definition OnSeen :: "NodeID \<Rightarrow> gotime \<Rightarrow> Scorer \<Rightarrow> Scorer" where
  "OnSeen i now s =
     (let st = (case s i of None \<Rightarrow> (newStats i)\<lparr>FirstSeenAt := now\<rparr> | Some st \<Rightarrow> st)
      in s(i \<mapsto> st\<lparr>SeenCount := SeenCount st + 1, LastSeenAt := now\<rparr>))"

definition OnForwardResult :: "NodeID \<Rightarrow> bool \<Rightarrow> Scorer \<Rightarrow> Scorer" where
  "OnForwardResult i ok s =
     (let st = statsOf i s
      in s(i \<mapsto> (if ok then st\<lparr>ForwardOK := ForwardOK st + 1\<rparr> else st\<lparr>ForwardFail := ForwardFail st + 1\<rparr>)))"

definition OnInvalid :: "NodeID \<Rightarrow> Scorer \<Rightarrow> Scorer" where
  "OnInvalid i s = (let st = statsOf i s in s(i \<mapsto> st\<lparr>InvalidFrames := InvalidFrames st + 1\<rparr>))"

definition OnRateLimited :: "NodeID \<Rightarrow> Scorer \<Rightarrow> Scorer" where
  "OnRateLimited i s = (let st = statsOf i s in s(i \<mapsto> st\<lparr>RateLimited := RateLimited st + 1\<rparr>))"

definition penaltyFor :: "Stats \<Rightarrow> duration" where
  "penaltyFor st =
     (if invalidInWindow st \<ge> 6 then 8 * second
      else if invalidInWindow st \<ge> 3 then 2 * second
      else if limitedInWindow st \<ge> 120 \<and> invalidInWindow st \<ge> 1 then 2 * second
      else 0)"

definition maybeQuarantineLocked :: "gotime \<Rightarrow> bool \<Rightarrow> Stats \<Rightarrow> Stats" where
  "maybeQuarantineLocked now invalidEvent st0 =
     (let st1 = (if windowStart st0 = 0 \<or> time_sub now (windowStart st0) > 2 * second
                 then st0\<lparr>windowStart := now, invalidInWindow := 0, limitedInWindow := 0\<rparr> else st0);
          st = (if invalidEvent then st1\<lparr>invalidInWindow := invalidInWindow st1 + 1\<rparr> else st1\<lparr>limitedInWindow := limitedInWindow st1 + 1\<rparr>);
          dur = penaltyFor st; until = now + dur
      in if dur = 0 then st
         else if until > QuarantineUntil st then
           if lastPenaltyExtend st \<noteq> 0 \<and> time_sub now (lastPenaltyExtend st) < second then st
           else st\<lparr>QuarantineUntil := until, lastPenaltyExtend := now\<rparr>
         else st)"

definition OnInvalidAt :: "NodeID \<Rightarrow> gotime \<Rightarrow> Scorer \<Rightarrow> Scorer" where
  "OnInvalidAt i now s =
     (let st = statsOf i s in s(i \<mapsto> maybeQuarantineLocked now True (st\<lparr>InvalidFrames := InvalidFrames st + 1\<rparr>)))"

definition OnRateLimitedAt :: "NodeID \<Rightarrow> gotime \<Rightarrow> Scorer \<Rightarrow> Scorer" where
  "OnRateLimitedAt i now s =
     (let st = statsOf i s in s(i \<mapsto> maybeQuarantineLocked now False (st\<lparr>RateLimited := RateLimited st + 1\<rparr>)))"

definition AllowFrom :: "NodeID \<Rightarrow> gotime \<Rightarrow> Scorer \<Rightarrow> bool" where
  "AllowFrom i now s = (case s i of None \<Rightarrow> True | Some st \<Rightarrow> \<not> now < QuarantineUntil st)"

definition Score :: "NodeID \<Rightarrow> gotime \<Rightarrow> Scorer \<Rightarrow> rat" where
  "Score i now s =
     (case s i of None \<Rightarrow> 9 / 10
      | Some st \<Rightarrow>
          let failed = rat_of_nat (unat (ForwardFail st)); ok = rat_of_nat (unat (ForwardOK st));
              invalid = rat_of_nat (unat (InvalidFrames st)); limited = rat_of_nat (unat (RateLimited st));
              reliability = (if ok + failed > 0 then (ok + 1) / (ok + failed + 2) else 1);
              penalty = 1 / (1 + 8 / 10 * invalid + 9 / 10 * limited);
              age = time_sub now (LastSeenAt st);
              recency = (if LastSeenAt st \<noteq> 0 \<and> age > 0 then 1 / (1 + rat_of_int age / 1000000000 / 60) else 1);
              score = 9 / 10 * reliability * penalty * recency
          in if score < 0 then 0 else if score > 1 then 1 else score)"

section \<open>Routing and gossip\<close>

record Input =
  From :: NodeID
  Hop :: byte
  MaxHop :: byte
  inExpiresAt :: gotime
  Now :: gotime
  HasFrom :: bool
  inRateLimited :: bool

record RouteEngine =
  BaseProb :: rat
  MaxJitter :: duration
  MinTTLRemain :: duration

definition NewRouteEngine :: RouteEngine where
  "NewRouteEngine = \<lparr>BaseProb = 3 / 4, MaxJitter = 650000000, MinTTLRemain = 3 * second\<rparr>"

text \<open>The scorer is given as its \<^verbatim>\<open>Score\<close> method; the router always passes one.\<close>

definition Probability :: "RouteEngine \<Rightarrow> Input \<Rightarrow> (NodeID \<Rightarrow> gotime \<Rightarrow> rat) option \<Rightarrow> rat" where
  "Probability e inp scorer =
     (if \<not> Now inp < inExpiresAt inp then 0
      else if time_sub (inExpiresAt inp) (Now inp) < MinTTLRemain e then 1 / 10
      else let p1 = (if MaxHop inp > 0
                     then let h0 = rat_of_nat (unat (Hop inp)) / rat_of_nat (unat (MaxHop inp)); h = (if h0 > 1 then 1 else h0)
                          in BaseProb e * (1 - 55 / 100 * h)
                     else BaseProb e);
               p2 = (case scorer of
                       Some sc \<Rightarrow> if HasFrom inp then p1 * (5 / 100 + 95 / 100 * sc (From inp) (Now inp)) else p1 * (6 / 10)
                     | None \<Rightarrow> p1 * (6 / 10));
               p = (if inRateLimited inp then p2 * (2 / 10) else p2)
           in if p < 0 then 0 else if p > 1 then 1 else p)"

record Decision =
  Forward :: bool
  Delay :: duration

text \<open>
  The draws of the random generator are arguments: \<open>u\<close> is \<^verbatim>\<open>Float64()\<close>, which is in \<open>[0, 1)\<close>, and \<open>draw n\<close> is \<^verbatim>\<open>Int63n(n)\<close>.
\<close>

definition jitter :: "(int \<Rightarrow> int) \<Rightarrow> duration \<Rightarrow> duration" where
  "jitter draw maxDelay = (if maxDelay \<le> 0 then 0 else draw (maxDelay + 1))"

definition Decide :: "rat \<Rightarrow> (int \<Rightarrow> int) \<Rightarrow> rat \<Rightarrow> duration \<Rightarrow> Decision" where
  "Decide u draw prob maxDelay =
     (if prob \<le> 0 then \<lparr>Forward = False, Delay = 0\<rparr>
      else if prob \<ge> 1 then \<lparr>Forward = True, Delay = jitter draw maxDelay\<rparr>
      else if u > prob then \<lparr>Forward = False, Delay = 0\<rparr>
      else \<lparr>Forward = True, Delay = jitter draw maxDelay\<rparr>)"

section \<open>Quarantine\<close>

datatype score_event = ESeen NodeID gotime | EForward NodeID bool | EInvalid NodeID | EInvalidAt NodeID gotime
  | ELimited NodeID | ELimitedAt NodeID gotime

fun on_event :: "score_event \<Rightarrow> Scorer \<Rightarrow> Scorer" where
  "on_event (ESeen i now) = OnSeen i now"
| "on_event (EForward i ok) = OnForwardResult i ok"
| "on_event (EInvalid i) = OnInvalid i"
| "on_event (EInvalidAt i now) = OnInvalidAt i now"
| "on_event (ELimited i) = OnRateLimited i"
| "on_event (ELimitedAt i now) = OnRateLimitedAt i now"

fun event_time :: "score_event \<Rightarrow> gotime" where
  "event_time (ESeen i now) = now"
| "event_time (EInvalidAt i now) = now"
| "event_time (ELimitedAt i now) = now"
| "event_time _ = 0"

text \<open>No quarantine ends later than eight seconds after \<open>t\<close>, and a neighbour outside \<open>bad\<close> is in none.\<close>

definition quarantine_ok :: "gotime \<Rightarrow> NodeID set \<Rightarrow> Scorer \<Rightarrow> bool" where
  "quarantine_ok t bad s \<longleftrightarrow> (\<forall>i st. s i = Some st \<longrightarrow> QuarantineUntil st \<le> t + 8 * second \<and>
     (i \<notin> bad \<longrightarrow> QuarantineUntil st = 0 \<and> invalidInWindow st = 0))"

lemma penaltyFor_bounds: "0 \<le> penaltyFor st" "penaltyFor st \<le> 8 * second" "invalidInWindow st = 0 \<Longrightarrow> penaltyFor st = 0"
  by (auto simp: penaltyFor_def second_def)

lemma maybeQuarantine_bounds:
  assumes "QuarantineUntil st \<le> t + 8 * second" "now \<le> t"
  shows "QuarantineUntil (maybeQuarantineLocked now ev st) \<le> t + 8 * second"
  using assms penaltyFor_bounds(2) by (auto simp: maybeQuarantineLocked_def Let_def intro: add_mono)

lemma maybeQuarantine_limited:
  assumes "QuarantineUntil st = 0" "invalidInWindow st = 0"
  shows "QuarantineUntil (maybeQuarantineLocked now False st) = 0 \<and> invalidInWindow (maybeQuarantineLocked now False st) = 0"
  using assms by (auto simp: maybeQuarantineLocked_def Let_def penaltyFor_bounds(3))

definition invalid_from :: "score_event list \<Rightarrow> NodeID set" where
  "invalid_from es = {i. \<exists>now. EInvalidAt i now \<in> set es}"

lemma quarantine_ok_mono: "quarantine_ok t bad s \<Longrightarrow> bad \<subseteq> bad' \<Longrightarrow> quarantine_ok t bad' s"
  unfolding quarantine_ok_def by blast

lemma quarantine_ok_update:
  assumes "quarantine_ok t bad s" "QuarantineUntil st \<le> t + 8 * second" "i \<notin> bad \<Longrightarrow> QuarantineUntil st = 0 \<and> invalidInWindow st = 0"
  shows "quarantine_ok t bad (s(i \<mapsto> st))"
  using assms by (auto simp: quarantine_ok_def)

lemma statsOf_ok:
  "quarantine_ok t bad s \<Longrightarrow> 0 \<le> t \<Longrightarrow>
   QuarantineUntil (statsOf i s) \<le> t + 8 * second \<and> (i \<notin> bad \<longrightarrow> QuarantineUntil (statsOf i s) = 0 \<and> invalidInWindow (statsOf i s) = 0)"
  by (auto simp: quarantine_ok_def statsOf_def newStats_def second_def split: option.splits)

lemma on_event_ok:
  assumes "quarantine_ok t bad s" "event_time e \<le> t" "0 \<le> t" "\<And>i now. e = EInvalidAt i now \<Longrightarrow> i \<in> bad"
  shows "quarantine_ok t bad (on_event e s)"
proof (cases e)
  case (ESeen i now)
  have "QuarantineUntil (case s i of None \<Rightarrow> (newStats i)\<lparr>FirstSeenAt := now\<rparr> | Some st \<Rightarrow> st) = QuarantineUntil (statsOf i s)"
    "invalidInWindow (case s i of None \<Rightarrow> (newStats i)\<lparr>FirstSeenAt := now\<rparr> | Some st \<Rightarrow> st) = invalidInWindow (statsOf i s)"
    by (auto simp: statsOf_def split: option.splits)
  then show ?thesis
    using ESeen statsOf_ok[OF assms(1,3), of i] by (auto simp: OnSeen_def Let_def intro!: quarantine_ok_update[OF assms(1)])
next
  case (EInvalidAt i now)
  then show ?thesis
    using statsOf_ok[OF assms(1,3), of i] assms(2,4)
    by (auto simp: OnInvalidAt_def Let_def intro!: quarantine_ok_update[OF assms(1)] maybeQuarantine_bounds)
next
  case (ELimitedAt i now)
  then show ?thesis
    using statsOf_ok[OF assms(1,3), of i] assms(2) maybeQuarantine_limited[of "(statsOf i s)\<lparr>RateLimited := RateLimited (statsOf i s) + 1\<rparr>" now]
    by (auto simp: OnRateLimitedAt_def Let_def intro!: quarantine_ok_update[OF assms(1)] maybeQuarantine_bounds)
qed (use statsOf_ok[OF assms(1,3)] in
    \<open>auto simp: OnForwardResult_def OnInvalid_def OnRateLimited_def Let_def intro!: quarantine_ok_update[OF assms(1)]\<close>)

lemma events_ok:
  "\<forall>e\<in>set es. event_time e \<le> t \<Longrightarrow> 0 \<le> t \<Longrightarrow> quarantine_ok t (invalid_from es) (fold on_event es Map.empty)"
proof (induction es rule: rev_induct)
  case Nil
  then show ?case by (simp add: quarantine_ok_def)
next
  case (snoc e es)
  then have "quarantine_ok t (invalid_from (es @ [e])) (fold on_event es Map.empty)"
    by (auto intro: quarantine_ok_mono simp: invalid_from_def)
  then show ?case using snoc.prems by (auto intro!: on_event_ok simp: invalid_from_def)
qed

lemma u32_small: "\<not> (6 :: u32) \<le> 1" "\<not> (3 :: u32) \<le> 1" "\<not> (120 :: u32) \<le> 0"
  by (simp_all add: word_le_nat_alt)

lemma strike_first:
  "windowStart st = 0 \<Longrightarrow>
   maybeQuarantineLocked now True st = st\<lparr>windowStart := now, invalidInWindow := 1, limitedInWindow := 0\<rparr>"
  by (simp add: maybeQuarantineLocked_def penaltyFor_def Let_def u32_small)

lemma strike_second:
  assumes "windowStart st \<noteq> 0" "\<not> time_sub now (windowStart st) > 2 * second" "invalidInWindow st = 1" "limitedInWindow st = 0"
  shows "maybeQuarantineLocked now True st = st\<lparr>invalidInWindow := 2\<rparr>"
  using assms by (simp add: maybeQuarantineLocked_def penaltyFor_def)

lemma strike_third:
  assumes "windowStart st \<noteq> 0" "\<not> time_sub now (windowStart st) > 2 * second" "invalidInWindow st = 2" "QuarantineUntil st = 0"
    "lastPenaltyExtend st = 0" "0 < now"
  shows "QuarantineUntil (maybeQuarantineLocked now True st) = now + 2 * second"
  using assms by (simp add: maybeQuarantineLocked_def penaltyFor_def second_def)

lemma statsOf_OnInvalidAt:
  "statsOf i (OnInvalidAt i now s) = maybeQuarantineLocked now True ((statsOf i s)\<lparr>InvalidFrames := InvalidFrames (statsOf i s) + 1\<rparr>)"
  by (simp add: OnInvalidAt_def statsOf_def Let_def)

lemma three_strikes:
  assumes "s i = None" "0 < t1" "t1 \<le> t2" "t2 \<le> t3" "t3 - t1 \<le> 2 * second"
  shows "QuarantineUntil (statsOf i (OnInvalidAt i t3 (OnInvalidAt i t2 (OnInvalidAt i t1 s)))) = t3 + 2 * second"
proof -
  have sub: "\<not> time_sub t t1 > 2 * second" if "t1 \<le> t" "t \<le> t3" for t
    using assms(5) that by (auto simp: time_sub_def second_def)
  have unknown: "statsOf i s = newStats i" using assms(1) by (simp add: statsOf_def)
  define st1 where "st1 = statsOf i (OnInvalidAt i t1 s)"
  have st1: "windowStart st1 = t1" "invalidInWindow st1 = 1" "limitedInWindow st1 = 0" "QuarantineUntil st1 = 0" "lastPenaltyExtend st1 = 0"
    using unknown by (simp_all add: st1_def statsOf_OnInvalidAt strike_first newStats_def)
  define st2 where "st2 = statsOf i (OnInvalidAt i t2 (OnInvalidAt i t1 s))"
  have "st2 = st1\<lparr>InvalidFrames := InvalidFrames st1 + 1, invalidInWindow := 2\<rparr>"
    unfolding st2_def statsOf_OnInvalidAt[of i t2] st1_def[symmetric]
    using st1 sub[of t2] assms(2-4) by (subst strike_second) simp_all
  with st1 sub[of t3] assms(2-4) show ?thesis
    by (subst statsOf_OnInvalidAt) (simp add: st2_def[symmetric] strike_third)
qed

text \<open>
  Quarantine is a short penalty for invalid frames only: eight seconds after the last event every neighbour is heard again, a neighbour
  that sent nothing invalid is always heard, however often it was rate limited, and three invalid frames of an unknown neighbour
  within two seconds silence it for exactly two seconds from the third.
\<close>

theorem neighbour_quarantine:
  assumes "\<forall>e\<in>set es. event_time e \<le> t" "0 \<le> t"
  shows "let s = fold on_event es Map.empty in
    (t + 8 * second \<le> now \<longrightarrow> AllowFrom i now s) \<and>
    (i \<notin> invalid_from es \<and> 0 \<le> now \<longrightarrow> AllowFrom i now s) \<and>
    (s i = None \<and> 0 < t1 \<and> t1 \<le> t2 \<and> t2 \<le> t3 \<and> t3 - t1 \<le> 2 * second \<longrightarrow>
      AllowFrom i now (OnInvalidAt i t3 (OnInvalidAt i t2 (OnInvalidAt i t1 s))) = (t3 + 2 * second \<le> now))"
proof -
  let ?s = "fold on_event es Map.empty"
  have "quarantine_ok t (invalid_from es) ?s" by (rule events_ok[OF assms])
  then have "t + 8 * second \<le> now \<Longrightarrow> AllowFrom i now ?s" "i \<notin> invalid_from es \<Longrightarrow> 0 \<le> now \<Longrightarrow> AllowFrom i now ?s"
    by (fastforce simp: quarantine_ok_def AllowFrom_def split: option.splits)+
  moreover have "AllowFrom i now (OnInvalidAt i t3 s') = (QuarantineUntil (statsOf i (OnInvalidAt i t3 s')) \<le> now)" for s'
    by (auto simp: AllowFrom_def OnInvalidAt_def statsOf_def Let_def)
  ultimately show ?thesis using three_strikes[of ?s i t1 t2 t3] unfolding Let_def by auto
qed

theorem neighbour_quarantine_witness:
  "let s = fold on_event [ESeen [1] 5, ELimitedAt [1] 6] Map.empty in
    (6 + 8 * second \<le> 4 * second \<longrightarrow> AllowFrom [2] (4 * second) s) \<and>
    ([2] \<notin> invalid_from [ESeen [1] 5, ELimitedAt [1] 6] \<and> 0 \<le> 4 * second \<longrightarrow> AllowFrom [2] (4 * second) s) \<and>
    (s [2] = None \<and> 0 < (7 :: int) \<and> (7 :: int) \<le> 8 \<and> (8 :: int) \<le> 9 \<and> 9 - 7 \<le> 2 * second \<longrightarrow>
      AllowFrom [2] (4 * second) (OnInvalidAt [2] 9 (OnInvalidAt [2] 8 (OnInvalidAt [2] 7 s))) = (9 + 2 * second \<le> 4 * second))"
  by (rule neighbour_quarantine) auto

end
