(* ===== verification/Mesh_Wire.thy ===== *)
theory Mesh_Wire
  imports Mesh_Prelude
begin

text \<open>
  Messages of the mesh, their chunk frames and the frames of the partition synchronisation: \<^verbatim>\<open>message.go\<close>, \<^verbatim>\<open>wire.go\<close> and \<^verbatim>\<open>chunking.go\<close> of
  \<^verbatim>\<open>core/proximity/message_router\<close> and \<^verbatim>\<open>core/proximity/partition_sync/partition_sync.go\<close>. BLAKE2s is an argument.
\<close>

datatype wire_error = ErrTTL | ErrIndexCount | ErrTimestamp | ErrTooSmall | ErrBadMagic | ErrVersion | ErrKind | ErrMaxFrame
  | ErrFrameTooSmall | ErrTooManyChunks | ErrTruncated | ErrCoverSize | WirePanic

section \<open>Messages\<close>

record Message =
  mID :: MessageID
  mSender :: NodeID
  mTimestamp :: gotime
  mTTLSec :: u16
  mHop :: byte
  mPayload :: bytes

definition ComputeMessageID :: "(bytes \<Rightarrow> bytes) \<Rightarrow> NodeID \<Rightarrow> gotime \<Rightarrow> u16 \<Rightarrow> bytes \<Rightarrow> MessageID" where
  "ComputeMessageID blake2s sender ts ttlSec payload =
     take 16 (blake2s (sender @ le_bytes 8 (nat (Unix ts mod 2 ^ 64)) @ le_bytes 2 (unat ttlSec) @ payload))"

definition NewMessage :: "(bytes \<Rightarrow> bytes) \<Rightarrow> NodeID \<Rightarrow> gotime \<Rightarrow> u16 \<Rightarrow> bytes \<Rightarrow> wire_error + Message" where
  "NewMessage blake2s sender now ttlSec payload =
     (if ttlSec = 0 then Inl ErrTTL
      else Inr \<lparr>mID = ComputeMessageID blake2s sender now ttlSec payload, mSender = sender, mTimestamp = now, mTTLSec = ttlSec,
                mHop = 0, mPayload = payload\<rparr>)"

definition ExpiresAt :: "Message \<Rightarrow> gotime" where
  "ExpiresAt m = mTimestamp m + int (unat (mTTLSec m)) * second"

section \<open>Chunk frames\<close>

definition wireMagic0 :: byte where "wireMagic0 = 0x53"
definition wireMagic1 :: byte where "wireMagic1 = 0x4C"
definition wireVersion :: byte where "wireVersion = 1"
definition wireKindChunk :: byte where "wireKindChunk = 1"

lemmas wire_consts = wireMagic0_def wireMagic1_def wireVersion_def wireKindChunk_def

definition DecodeHeader :: "bytes \<Rightarrow> (byte \<times> byte) option" where
  "DecodeHeader b =
     (if length b < 4 then None
      else if b ! 0 \<noteq> wireMagic0 \<or> b ! 1 \<noteq> wireMagic1 then None
      else Some (b ! 2, b ! 3))"

record ChunkFrame =
  fMsgID :: MessageID
  fSender :: NodeID
  fTimestamp :: gotime
  fTTLSec :: u16
  fHop :: byte
  fChunkIndex :: u16
  fChunkCount :: u16
  fData :: bytes

definition frameExpiresAt :: "ChunkFrame \<Rightarrow> gotime" where
  "frameExpiresAt f = fTimestamp f + int (unat (fTTLSec f)) * second"

definition EncodeChunkFrame :: "ChunkFrame \<Rightarrow> wire_error + bytes" where
  "EncodeChunkFrame f =
     (if fTTLSec f = 0 then Inl ErrTTL
      else if fChunkCount f = 0 \<or> fChunkIndex f \<ge> fChunkCount f then Inl ErrIndexCount
      else if fTimestamp f = 0 then Inl ErrTimestamp
      else Inr ([wireMagic0, wireMagic1, wireVersion, wireKindChunk] @ fMsgID f @ fSender f @
                le_bytes 4 (nat (Unix (fTimestamp f) mod 2 ^ 32)) @ le_bytes 2 (unat (fTTLSec f)) @ [fHop f] @
                le_bytes 2 (unat (fChunkIndex f)) @ le_bytes 2 (unat (fChunkCount f)) @ fData f))"

definition u16_of :: "bytes \<Rightarrow> u16" where
  "u16_of b = word_of_nat (le_nat b)"

definition DecodeChunkFrame :: "bytes \<Rightarrow> wire_error + ChunkFrame" where
  "DecodeChunkFrame b =
     (if length b < 39 then Inl ErrTooSmall
      else if b ! 0 \<noteq> wireMagic0 \<or> b ! 1 \<noteq> wireMagic1 then Inl ErrBadMagic
      else if b ! 2 \<noteq> wireVersion then Inl ErrVersion
      else if b ! 3 \<noteq> wireKindChunk then Inl ErrKind
      else let f = \<lparr>fMsgID = slice 4 20 b, fSender = slice 20 28 b, fTimestamp = time_Unix (int (le_nat (slice 28 32 b))),
                    fTTLSec = u16_of (slice 32 34 b), fHop = b ! 34, fChunkIndex = u16_of (slice 35 37 b),
                    fChunkCount = u16_of (slice 37 39 b), fData = drop 39 b\<rparr>
           in if fTTLSec f = 0 then Inl ErrTTL
              else if fChunkCount f = 0 \<or> fChunkIndex f \<ge> fChunkCount f then Inl ErrIndexCount
              else Inr f)"

definition frameOverhead :: int where "frameOverhead = 39"

definition chunkFrameOf :: "Message \<Rightarrow> nat \<Rightarrow> nat \<Rightarrow> bytes \<Rightarrow> ChunkFrame" where
  "chunkFrameOf m i n d = \<lparr>fMsgID = mID m, fSender = mSender m, fTimestamp = mTimestamp m, fTTLSec = mTTLSec m, fHop = mHop m,
     fChunkIndex = word_of_nat i, fChunkCount = word_of_nat n, fData = d\<rparr>"

definition ChunkMessage :: "Message \<Rightarrow> int \<Rightarrow> wire_error + ChunkFrame list" where
  "ChunkMessage m maxFrameBytes =
     (if maxFrameBytes \<le> 0 then Inl ErrMaxFrame
      else if maxFrameBytes \<le> frameOverhead then Inl ErrFrameTooSmall
      else let maxData = maxFrameBytes - frameOverhead; payload = mPayload m in
        if payload = [] then Inr [chunkFrameOf m 0 1 []]
        else let chunks = quot (wrap64 (int (length payload) + maxData - 1)) maxData in
          if chunks > 65535 then Inl ErrTooManyChunks
          else if chunks < 0 then Inl WirePanic
          else Inr (map (\<lambda>i. chunkFrameOf m i (nat chunks) (slice (i * nat maxData) (min (i * nat maxData + nat maxData) (length payload)) payload))
                 [0..<nat chunks]))"

section \<open>Partition synchronisation\<close>

definition KindInventory :: byte where "KindInventory = 2"
definition KindWant :: byte where "KindWant = 3"
definition KindCover :: byte where "KindCover = 4"

lemmas kind_consts = KindInventory_def KindWant_def KindCover_def

record InventoryItem =
  iID :: MessageID
  iExpiresAt :: gotime

record InventoryFrame =
  invSender :: NodeID
  invTimestamp :: gotime
  invItems :: "InventoryItem list"

record WantFrame =
  wSender :: NodeID
  wWants :: "MessageID list"

definition limitTo :: "int \<Rightarrow> int \<Rightarrow> 'a list \<Rightarrow> 'a list" where
  "limitTo mx dflt xs = (let m = (if mx \<le> 0 then dflt else mx) in if int (length xs) > m then take (nat m) xs else xs)"

definition itemBytes :: "InventoryItem \<Rightarrow> bytes" where
  "itemBytes it = iID it @ le_bytes 4 (nat (Unix (iExpiresAt it) mod 2 ^ 32))"

definition EncodeInventory :: "NodeID \<Rightarrow> gotime \<Rightarrow> InventoryItem list \<Rightarrow> int \<Rightarrow> bytes" where
  "EncodeInventory sender now items0 mx =
     (let its = limitTo mx 12 items0 in
      [0x53, 0x4C, 1, KindInventory] @ sender @ le_bytes 4 (nat (Unix now mod 2 ^ 32)) @ [word_of_nat (length its)] @
      concat (map itemBytes its))"

fun readItems :: "nat \<Rightarrow> bytes \<Rightarrow> InventoryItem list" where
  "readItems 0 b = []"
| "readItems (Suc n) b = \<lparr>iID = take 16 b, iExpiresAt = time_Unix (int (le_nat (slice 16 20 b)))\<rparr> # readItems n (drop 20 b)"

definition DecodeInventory :: "bytes \<Rightarrow> wire_error + InventoryFrame" where
  "DecodeInventory b =
     (if length b < 17 then Inl ErrTooSmall
      else if b ! 0 \<noteq> 0x53 \<or> b ! 1 \<noteq> 0x4C \<or> b ! 2 \<noteq> 1 \<or> b ! 3 \<noteq> KindInventory then Inl ErrBadMagic
      else let n = unat (b ! 16) in
        if length b < 17 + n * 20 then Inl ErrTruncated
        else Inr \<lparr>invSender = slice 4 12 b, invTimestamp = time_Unix (int (le_nat (slice 12 16 b))), invItems = readItems n (drop 17 b)\<rparr>)"

definition EncodeWant :: "NodeID \<Rightarrow> MessageID list \<Rightarrow> int \<Rightarrow> bytes" where
  "EncodeWant sender ids0 mx =
     (let ids = limitTo mx 10 ids0 in
      [0x53, 0x4C, 1, KindWant] @ sender @ [word_of_nat (length ids)] @ concat ids)"

fun readWants :: "nat \<Rightarrow> bytes \<Rightarrow> MessageID list" where
  "readWants 0 b = []"
| "readWants (Suc n) b = take 16 b # readWants n (drop 16 b)"

definition DecodeWant :: "bytes \<Rightarrow> wire_error + WantFrame" where
  "DecodeWant b =
     (if length b < 13 then Inl ErrTooSmall
      else if b ! 0 \<noteq> 0x53 \<or> b ! 1 \<noteq> 0x4C \<or> b ! 2 \<noteq> 1 \<or> b ! 3 \<noteq> KindWant then Inl ErrBadMagic
      else let n = unat (b ! 12) in
        if length b < 13 + n * 16 then Inl ErrTruncated
        else Inr \<lparr>wSender = slice 4 12 b, wWants = readWants n (drop 13 b)\<rparr>)"

text \<open>The random payload is an argument: as many bytes of it as the size says.\<close>

definition EncodeCover :: "bytes \<Rightarrow> gotime \<Rightarrow> int \<Rightarrow> wire_error + bytes" where
  "EncodeCover random now size0 =
     (if size0 < 0 then Inl ErrCoverSize
      else let size = (if size0 > 255 then 255 else nat size0) in
        Inr ([0x53, 0x4C, 1, KindCover] @ le_bytes 4 (nat (Unix now mod 2 ^ 32)) @ [word_of_nat size] @ take size random))"

section \<open>Round trips\<close>

text \<open>What the wire keeps of a time: its Unix seconds, as an unsigned 32-bit number.\<close>

definition wire_time :: "gotime \<Rightarrow> gotime" where
  "wire_time t = time_Unix (Unix t mod 2 ^ 32)"

lemma le_nat_seconds: "int (le_nat (le_bytes 4 (nat (Unix t mod 2 ^ 32)))) = Unix t mod 2 ^ 32"
proof -
  have "nat (Unix t mod 2 ^ 32) < 256 ^ 4" by (simp add: nat_less_iff)
  then show ?thesis by (simp add: le_nat_le_bytes)
qed

lemma u16_of_le_bytes [simp]: "u16_of (le_bytes 2 (unat v)) = v"
proof -
  have "unat v < 256 ^ 2" using unsigned_less[where ?'a = nat, of v] by simp
  then show ?thesis by (simp add: u16_of_def le_nat_le_bytes)
qed

lemma EncodeChunkFrame_Decode:
  assumes "EncodeChunkFrame f = Inr b" "length (fMsgID f) = 16" "length (fSender f) = 8"
  shows "DecodeChunkFrame b = Inr (f\<lparr>fTimestamp := wire_time (fTimestamp f)\<rparr>)" "length b = 39 + length (fData f)"
proof -
  let ?t = "le_bytes 4 (nat (Unix (fTimestamp f) mod 2 ^ 32))"
  have f: "fTTLSec f \<noteq> 0" "fChunkCount f \<noteq> 0" "\<not> fChunkIndex f \<ge> fChunkCount f"
    using assms(1) by (auto simp: EncodeChunkFrame_def split: if_splits)
  have b: "b = [wireMagic0, wireMagic1, wireVersion, wireKindChunk] @ fMsgID f @ fSender f @ ?t @ le_bytes 2 (unat (fTTLSec f)) @
      [fHop f] @ le_bytes 2 (unat (fChunkIndex f)) @ le_bytes 2 (unat (fChunkCount f)) @ fData f"
    using assms(1) by (auto simp: EncodeChunkFrame_def split: if_splits)
  show l: "length b = 39 + length (fData f)" using assms(2,3) by (simp add: b)
  have "slice 4 20 b = fMsgID f" "slice 20 28 b = fSender f" "slice 28 32 b = ?t" "slice 32 34 b = le_bytes 2 (unat (fTTLSec f))"
    "b ! 34 = fHop f" "slice 35 37 b = le_bytes 2 (unat (fChunkIndex f))" "slice 37 39 b = le_bytes 2 (unat (fChunkCount f))"
    "drop 39 b = fData f"
    using assms(2,3) by (simp_all add: b slice_def nth_append)
  moreover have "b ! 0 = wireMagic0" "b ! 1 = wireMagic1" "b ! 2 = wireVersion" "b ! 3 = wireKindChunk" by (simp_all add: b)
  ultimately show "DecodeChunkFrame b = Inr (f\<lparr>fTimestamp := wire_time (fTimestamp f)\<rparr>)"
    using f l le_nat_seconds[of "fTimestamp f"] by (simp add: DecodeChunkFrame_def Let_def wire_time_def)
qed

lemma readItems_concat:
  "\<forall>it\<in>set its. length (iID it) = 16 \<Longrightarrow>
   readItems (length its) (concat (map itemBytes its) @ rest) = map (\<lambda>it. it\<lparr>iExpiresAt := wire_time (iExpiresAt it)\<rparr>) its"
proof (induction its)
  case (Cons it its)
  have "int (le_nat (le_bytes 4 (nat (Unix (iExpiresAt it) mod 2 ^ 32)))) = Unix (iExpiresAt it) mod 2 ^ 32" by (rule le_nat_seconds)
  then show ?case using Cons by (simp add: itemBytes_def slice_def wire_time_def)
qed simp

lemma readWants_concat: "\<forall>i\<in>set ids. length i = 16 \<Longrightarrow> readWants (length ids) (concat ids @ rest) = ids"
  by (induction ids) auto

lemma length_concat_items: "\<forall>it\<in>set its. length (iID it) = 16 \<Longrightarrow> length (concat (map itemBytes its)) = 20 * length its"
  by (induction its) (auto simp: itemBytes_def)

lemma length_concat_ids: "\<forall>i\<in>set ids. length i = (16 :: nat) \<Longrightarrow> length (concat ids) = 16 * length ids"
  by (induction ids) auto

lemma unat_count: "n \<le> 255 \<Longrightarrow> unat (word_of_nat n :: byte) = n"
  by (simp add: unat_word_of_nat_byte)

lemma limitTo_length: "mx \<le> 255 \<Longrightarrow> dflt \<le> 255 \<Longrightarrow> length (limitTo mx dflt xs) \<le> 255"
  by (auto simp: limitTo_def Let_def)

lemma set_limitTo: "set (limitTo mx dflt xs) \<subseteq> set xs"
  by (auto simp: limitTo_def Let_def dest: in_set_takeD)

lemma DecodeInventory_Encode:
  assumes "length sender = 8" "\<forall>it\<in>set its. length (iID it) = 16" "length its \<le> 255"
  shows "DecodeInventory ([0x53, 0x4C, 1, KindInventory] @ sender @ le_bytes 4 (nat (Unix now mod 2 ^ 32)) @ [word_of_nat (length its)] @
      concat (map itemBytes its)) =
    Inr \<lparr>invSender = sender, invTimestamp = wire_time now, invItems = map (\<lambda>it. it\<lparr>iExpiresAt := wire_time (iExpiresAt it)\<rparr>) its\<rparr>"
    (is "DecodeInventory ?b = _")
proof -
  have "slice 4 12 ?b = sender" "slice 12 16 ?b = le_bytes 4 (nat (Unix now mod 2 ^ 32))" "?b ! 16 = word_of_nat (length its)"
    "drop 17 ?b = concat (map itemBytes its)" "length ?b = 17 + 20 * length its" "?b ! 0 = 0x53" "?b ! 1 = 0x4C" "?b ! 2 = 1"
    "?b ! 3 = KindInventory"
    using assms(1) length_concat_items[OF assms(2)] by (simp_all add: slice_def nth_append)
  then show ?thesis
    using readItems_concat[OF assms(2), of "[]"] unat_count[OF assms(3)] le_nat_seconds[of now]
    unfolding DecodeInventory_def Let_def wire_time_def by simp
qed

lemma DecodeWant_Encode:
  assumes "length sender = 8" "\<forall>i\<in>set ids. length i = 16" "length ids \<le> 255"
  shows "DecodeWant ([0x53, 0x4C, 1, KindWant] @ sender @ [word_of_nat (length ids)] @ concat ids) = Inr \<lparr>wSender = sender, wWants = ids\<rparr>"
    (is "DecodeWant ?b = _")
proof -
  have "slice 4 12 ?b = sender" "?b ! 12 = word_of_nat (length ids)" "drop 13 ?b = concat ids" "length ?b = 13 + 16 * length ids"
    "?b ! 0 = 0x53" "?b ! 1 = 0x4C" "?b ! 2 = 1" "?b ! 3 = KindWant"
    using assms(1) length_concat_ids[OF assms(2)] by (simp_all add: slice_def nth_append)
  then show ?thesis
    using readWants_concat[OF assms(2), of "[]"] unat_count[OF assms(3)] unfolding DecodeWant_def Let_def by simp
qed

text \<open>
  The frames of the partition synchronisation are read back as they were written: the first items, as many as the maximum allows (12
  items or 10 wants by default), with times rounded to 32-bit Unix seconds. The maximum is at most 255, what the count byte can hold.
\<close>

theorem sync_frames_roundtrip:
  assumes "length sender = 8" "\<forall>it\<in>set its. length (iID it) = 16" "\<forall>i\<in>set ids. length i = 16" "mx \<le> 255"
  shows "DecodeInventory (EncodeInventory sender now its mx) =
      Inr \<lparr>invSender = sender, invTimestamp = wire_time now,
           invItems = map (\<lambda>it. it\<lparr>iExpiresAt := wire_time (iExpiresAt it)\<rparr>) (take (nat (if mx \<le> 0 then 12 else mx)) its)\<rparr> \<and>
    DecodeWant (EncodeWant sender ids mx) = Inr \<lparr>wSender = sender, wWants = take (nat (if mx \<le> 0 then 10 else mx)) ids\<rparr>"
proof -
  have lim: "limitTo mx d xs = take (nat (if mx \<le> 0 then d else mx)) xs" for d and xs :: "'a list"
    by (auto simp: limitTo_def Let_def)
  have "\<forall>it\<in>set (limitTo mx 12 its). length (iID it) = 16" "\<forall>i\<in>set (limitTo mx 10 ids). length i = 16"
    using assms(2,3) set_limitTo[of mx 12 its] set_limitTo[of mx 10 ids] by blast+
  from DecodeInventory_Encode[OF assms(1) this(1)] DecodeWant_Encode[OF assms(1) this(2)] show ?thesis
    using assms(4) limitTo_length[of mx 12 its] limitTo_length[of mx 10 ids]
    unfolding EncodeInventory_def EncodeWant_def Let_def by (simp add: lim)
qed

theorem sync_frames_roundtrip_witness:
  "DecodeInventory (EncodeInventory (replicate 8 1) (time_Unix 5) [\<lparr>iID = replicate 16 2, iExpiresAt = time_Unix 9\<rparr>] 1) =
      Inr \<lparr>invSender = replicate 8 1, invTimestamp = wire_time (time_Unix 5),
           invItems = map (\<lambda>it. it\<lparr>iExpiresAt := wire_time (iExpiresAt it)\<rparr>)
             (take (nat (if (1 :: int) \<le> 0 then 12 else 1)) [\<lparr>iID = replicate 16 2, iExpiresAt = time_Unix 9\<rparr>])\<rparr> \<and>
    DecodeWant (EncodeWant (replicate 8 1) [replicate 16 2, replicate 16 3] 1) =
      Inr \<lparr>wSender = replicate 8 1, wWants = take (nat (if (1 :: int) \<le> 0 then 10 else 1)) [replicate 16 2, replicate 16 3]\<rparr>"
  by (rule sync_frames_roundtrip) auto

end
