(* ===== verification/Mesh_Reassembly.thy ===== *)
theory Mesh_Reassembly
  imports Mesh_Wire
begin

text \<open>
  The reassembler of the mesh router (\<^verbatim>\<open>core/proximity/message_router/reassembly.go\<close>), and the way of a message from the sender's chunks over
  the wire to the receiver.
\<close>

section \<open>The reassembler\<close>

datatype reasm_error = ErrCountMismatch | ErrHeaderMismatch | ErrPayloadTooLarge | ReasmPanic

text \<open>A chunk that is \<^verbatim>\<open>nil\<close> is \<open>None\<close>; copying an empty chunk gives \<^verbatim>\<open>nil\<close> again.\<close>

record partial =
  pSender :: NodeID
  pTimestamp :: gotime
  pTTLSec :: u16
  pHop :: byte
  pCount :: u16
  pReceived :: u16
  pChunks :: "bytes option list"
  pLastAt :: gotime
  pTotal :: int

record Reassembler =
  parts :: "(MessageID \<times> partial) list"
  staleAfter :: duration
  maxBytes :: int

definition NewReassemblerWithLimit :: "duration \<Rightarrow> int \<Rightarrow> Reassembler" where
  "NewReassemblerWithLimit stale limit =
     \<lparr>parts = [], staleAfter = (if stale \<le> 0 then 30 * second else stale), maxBytes = (if limit \<le> 0 then 32768 else limit)\<rparr>"

definition copyChunk :: "bytes \<Rightarrow> bytes option" where
  "copyChunk d = (if d = [] then None else Some d)"

definition newPartial :: "ChunkFrame \<Rightarrow> gotime \<Rightarrow> partial" where
  "newPartial f now = \<lparr>pSender = fSender f, pTimestamp = fTimestamp f, pTTLSec = fTTLSec f, pHop = fHop f, pCount = fChunkCount f,
     pReceived = 0, pChunks = replicate (unat (fChunkCount f)) None, pLastAt = now, pTotal = 0\<rparr>"

definition assembled :: "(bytes \<Rightarrow> bytes) \<Rightarrow> partial \<Rightarrow> Message" where
  "assembled blake2s p =
     (let payload = concat (map (\<lambda>c. case c of None \<Rightarrow> [] | Some d \<Rightarrow> d) (take (unat (pCount p)) (pChunks p))) in
      \<lparr>mID = ComputeMessageID blake2s (pSender p) (pTimestamp p) (pTTLSec p) payload, mSender = pSender p, mTimestamp = pTimestamp p,
       mTTLSec = pTTLSec p, mHop = pHop p, mPayload = payload\<rparr>)"

definition Add :: "(bytes \<Rightarrow> bytes) \<Rightarrow> ChunkFrame \<Rightarrow> gotime \<Rightarrow> Reassembler \<Rightarrow> Reassembler \<times> (reasm_error + Message option)" where
  "Add blake2s f now r0 =
     (let p = (case map_of (parts r0) (fMsgID f) of None \<Rightarrow> newPartial f now | Some p \<Rightarrow> p);
          r = r0\<lparr>parts := AList.update (fMsgID f) p (parts r0)\<rparr>; i = unat (fChunkIndex f)
      in if pCount p \<noteq> fChunkCount f then (r, Inl ErrCountMismatch)
         else if Unix (pTimestamp p) \<noteq> Unix (fTimestamp f) \<or> pTTLSec p \<noteq> fTTLSec f then (r, Inl ErrHeaderMismatch)
         else if i \<ge> length (pChunks p) then (r, Inl ReasmPanic)
         else if pChunks p ! i = None \<and> pTotal p + int (length (fData f)) > maxBytes r then
           (r\<lparr>parts := AList.delete (fMsgID f) (parts r)\<rparr>, Inl ErrPayloadTooLarge)
         else let p1 = (if pChunks p ! i = None
                        then p\<lparr>pChunks := (pChunks p)[i := copyChunk (fData f)], pReceived := pReceived p + 1,
                               pTotal := pTotal p + int (length (fData f))\<rparr>
                        else p);
                  p2 = p1\<lparr>pLastAt := now\<rparr>
              in if pReceived p2 < pCount p2 then (r\<lparr>parts := AList.update (fMsgID f) p2 (parts r)\<rparr>, Inr None)
                 else (r\<lparr>parts := AList.delete (fMsgID f) (parts r)\<rparr>, Inr (Some (assembled blake2s p2))))"

definition Sweep :: "gotime \<Rightarrow> Reassembler \<Rightarrow> Reassembler \<times> nat" where
  "Sweep now r =
     (let keep = filter (\<lambda>(i, p). \<not> time_sub now (pLastAt p) \<ge> staleAfter r) (parts r)
      in (r\<lparr>parts := keep\<rparr>, length (parts r) - length keep))"

section \<open>What the reassembler delivers\<close>

text \<open>The progress of a message with \<open>ds\<close> as its chunks, of which those with an index in \<open>S\<close> have arrived.\<close>

definition progress :: "ChunkFrame \<Rightarrow> bytes list \<Rightarrow> nat set \<Rightarrow> gotime \<Rightarrow> partial" where
  "progress f ds S u = \<lparr>pSender = fSender f, pTimestamp = fTimestamp f, pTTLSec = fTTLSec f, pHop = fHop f, pCount = word_of_nat (length ds),
     pReceived = word_of_nat (card S), pChunks = map (\<lambda>i. if i \<in> S then Some (ds ! i) else None) [0..<length ds], pLastAt = u,
     pTotal = (\<Sum>i\<in>S. int (length (ds ! i)))\<rparr>"

definition chunkAt :: "ChunkFrame \<Rightarrow> bytes list \<Rightarrow> nat \<Rightarrow> ChunkFrame" where
  "chunkAt f ds i = f\<lparr>fChunkIndex := word_of_nat i, fChunkCount := word_of_nat (length ds), fData := ds ! i\<rparr>"

definition messageOf :: "(bytes \<Rightarrow> bytes) \<Rightarrow> ChunkFrame \<Rightarrow> bytes \<Rightarrow> Message" where
  "messageOf blake2s f payload = \<lparr>mID = ComputeMessageID blake2s (fSender f) (fTimestamp f) (fTTLSec f) payload, mSender = fSender f,
     mTimestamp = fTimestamp f, mTTLSec = fTTLSec f, mHop = fHop f, mPayload = payload\<rparr>"

lemma unat_u16: "n \<le> 65535 \<Longrightarrow> unat (word_of_nat n :: u16) = n"
  by (simp add: unsigned_of_nat take_bit_nat_eq_self)

lemma u16_less: "m \<le> 65535 \<Longrightarrow> n \<le> 65535 \<Longrightarrow> (word_of_nat m :: u16) < word_of_nat n \<longleftrightarrow> m < n"
  by (simp add: word_less_nat_alt unat_u16)

lemma card_insert_le: "S \<subseteq> {..<n} \<Longrightarrow> card S \<le> n"
  using card_mono[of "{..<n}" S] by simp

lemma chunks_total: "S \<subseteq> {..<length ds} \<Longrightarrow> (\<Sum>i\<in>S. int (length (ds ! i))) \<le> int (length (concat ds))"
proof -
  assume "S \<subseteq> {..<length ds}"
  then have "(\<Sum>i\<in>S. int (length (ds ! i))) \<le> (\<Sum>i\<in>{..<length ds}. int (length (ds ! i)))" by (intro sum_mono2) auto
  also have "\<dots> = int (length (concat ds))"
    by (simp add: length_concat sum_list_sum_nth atLeast0LessThan)
  finally show ?thesis .
qed

lemma concat_progress:
  "concat (map (\<lambda>c. case c of None \<Rightarrow> [] | Some d \<Rightarrow> d) (map (\<lambda>i. if i \<in> {..<length ds} then Some (ds ! i) else None) [0..<length ds])) = concat ds"
proof -
  have "map (\<lambda>c. case c of None \<Rightarrow> [] | Some d \<Rightarrow> d) (map (\<lambda>i. if i \<in> {..<length ds} then Some (ds ! i) else None) [0..<length ds]) = map ((!) ds) [0..<length ds]"
    by simp
  then show ?thesis by (simp add: map_nth)
qed

definition chunks_ok :: "bytes list \<Rightarrow> bool" where
  "chunks_ok ds \<longleftrightarrow> 0 < length ds \<and> length ds \<le> 65535 \<and> (length ds = 1 \<or> (\<forall>d\<in>set ds. d \<noteq> []))"

lemma newPartial_progress: "newPartial (chunkAt f ds i) now = progress f ds {} now" if "length ds \<le> 65535"
  using that by (simp add: newPartial_def progress_def chunkAt_def unat_u16 map_replicate_const)

lemma progress_touch [simp]: "(progress f ds S u)\<lparr>pLastAt := now\<rparr> = progress f ds S now"
  by (simp add: progress_def)

lemma progress_insert:
  assumes "i < length ds" "i \<notin> S" "finite S" "ds ! i \<noteq> []"
  shows "(progress f ds S u)\<lparr>pChunks := (pChunks (progress f ds S u))[i := copyChunk (ds ! i)], pReceived := pReceived (progress f ds S u) + 1,
     pTotal := pTotal (progress f ds S u) + int (length (ds ! i)), pLastAt := now\<rparr> = progress f ds (insert i S) now"
proof -
  have "(map (\<lambda>j. if j \<in> S then Some (ds ! j) else None) [0..<length ds])[i := Some (ds ! i)] =
      map (\<lambda>j. if j \<in> insert i S then Some (ds ! j) else None) [0..<length ds]"
    using assms(1) by (intro nth_equalityI) (auto simp: nth_list_update)
  then show ?thesis using assms by (simp add: progress_def copyChunk_def add.commute)
qed

lemma assembled_progress:
  assumes "length ds \<le> 65535"
  shows "assembled blake2s (progress f ds {..<length ds} u) = messageOf blake2s f (concat ds)"
  using concat_progress[of ds] by (simp add: assembled_def progress_def messageOf_def Let_def unat_u16[OF assms])

text \<open>One more chunk of a message: a new one, a repeated one, or the last one.\<close>

lemma Add_progress:
  assumes ds: "chunks_ok ds" "int (length (concat ds)) \<le> maxBytes r" and i: "i < length ds"
    and S: "S \<subset> {..<length ds}" "map_of (parts r) (fMsgID f) = (if S = {} then None else Some (progress f ds S u))"
  defines "S' \<equiv> insert i S"
  shows "\<exists>r'. Add blake2s (chunkAt f ds i) now r = (r', Inr (if S' = {..<length ds} then Some (messageOf blake2s f (concat ds)) else None)) \<and>
    maxBytes r' = maxBytes r \<and>
    map_of (parts r') (fMsgID f) = (if S' = {..<length ds} then None else Some (progress f ds S' now))"
proof -
  let ?n = "length ds" and ?f = "chunkAt f ds i"
  define p where "p = (case map_of (parts r) (fMsgID f) of None \<Rightarrow> newPartial ?f now | Some p \<Rightarrow> p)"
  have n: "?n \<le> 65535" "0 < ?n" using ds(1) by (auto simp: chunks_ok_def)
  have "i \<le> 65535" using i n by simp
  have p: "\<exists>v. p = progress f ds S v" using S(2) newPartial_progress[OF n(1)] by (auto simp: p_def)
  then obtain v where p: "p = progress f ds S v" ..
  have S': "S' \<subseteq> {..<?n}" "finite S" "finite S'" using S(1) i finite_subset[of S "{..<?n}"] by (auto simp: S'_def)
  have fields: "fMsgID ?f = fMsgID f" "fChunkCount ?f = word_of_nat ?n" "fTimestamp ?f = fTimestamp f" "fTTLSec ?f = fTTLSec f"
    "unat (fChunkIndex ?f) = i" "fData ?f = ds ! i" "pCount p = word_of_nat ?n" "pTimestamp p = fTimestamp f" "pTTLSec p = fTTLSec f"
    "length (pChunks p) = ?n" "pChunks p ! i = (if i \<in> S then Some (ds ! i) else None)" "pTotal p = (\<Sum>j\<in>S. int (length (ds ! j)))"
    using i \<open>i \<le> 65535\<close> by (simp_all add: chunkAt_def p progress_def unat_u16)
  have fits: "i \<notin> S \<Longrightarrow> \<not> pTotal p + int (length (ds ! i)) > maxBytes r"
    using chunks_total[OF S'(1)] S'(2) ds(2) by (simp add: S'_def fields add.commute)
  define p2 where "p2 = (if i \<in> S then p else p\<lparr>pChunks := (pChunks p)[i := copyChunk (ds ! i)], pReceived := pReceived p + 1,
      pTotal := pTotal p + int (length (ds ! i))\<rparr>)\<lparr>pLastAt := now\<rparr>"
  define r1 where "r1 = r\<lparr>parts := AList.update (fMsgID f) p (parts r)\<rparr>"
  have add: "Add blake2s ?f now r = (if pReceived p2 < pCount p2 then (r1\<lparr>parts := AList.update (fMsgID f) p2 (parts r1)\<rparr>, Inr None)
      else (r1\<lparr>parts := AList.delete (fMsgID f) (parts r1)\<rparr>, Inr (Some (assembled blake2s p2))))"
    using i fits by (simp add: Add_def Let_def fields p_def[symmetric] r1_def p2_def)
  have rec: "pReceived p2 = word_of_nat (card S')" "pCount p2 = word_of_nat ?n"
    using S'(2) by (auto simp: p2_def p progress_def S'_def insert_absorb)
  have "card S' \<le> ?n" using card_insert_le[OF S'(1)] .
  then have less: "pReceived p2 < pCount p2 \<longleftrightarrow> S' \<noteq> {..<?n}"
    using n(1) rec card_subset_eq[OF finite_lessThan S'(1)] by (auto simp: u16_less)
  have p2: "p2 = progress f ds S' now" if "i \<in> S \<or> ds ! i \<noteq> []"
    using that progress_insert[OF i _ S'(2), where f = f and u = v and now = now] by (auto simp: p2_def p S'_def insert_absorb)
  have last: "assembled blake2s p2 = messageOf blake2s f (concat ds)" if full: "S' = {..<?n}"
  proof (cases "i \<in> S \<or> ds ! i \<noteq> []")
    case True
    then show ?thesis using p2 full assembled_progress[OF n(1)] by simp
  next
    case False
    then have "ds = [[]]" "i = 0" "S = {}" using ds(1) i S(1) by (auto simp: chunks_ok_def length_Suc_conv)
    then show ?thesis by (simp add: p2_def p progress_def assembled_def messageOf_def copyChunk_def Let_def)
  qed
  have more: "p2 = progress f ds S' now" if "S' \<noteq> {..<?n}"
    using p2 that ds(1) i S(1) by (fastforce simp: chunks_ok_def S'_def)
  show ?thesis using last more by (auto simp: add less r1_def)
qed

section \<open>From the sender to the receiver\<close>

text \<open>The answers of the reassembler to a sequence of frames with their arrival times.\<close>

definition receive :: "(bytes \<Rightarrow> bytes) \<Rightarrow> (ChunkFrame \<times> gotime) list \<Rightarrow> Reassembler \<Rightarrow> Reassembler \<times> (reasm_error + Message option) list" where
  "receive blake2s = run (\<lambda>(f, now). Add blake2s f now)"

lemma receive_progress:
  assumes "chunks_ok ds" "int (length (concat ds)) \<le> maxBytes r" "\<forall>x\<in>set xs. fst x < length ds"
    and "S \<subset> {..<length ds}" "map_of (parts r) (fMsgID f) = (if S = {} then None else Some (progress f ds S u))"
    and "S \<union> fst ` set xs \<noteq> {..<length ds}"
  shows "snd (receive blake2s (map (\<lambda>(i, now). (chunkAt f ds i, now)) xs) r) = replicate (length xs) (Inr None) \<and>
    (\<exists>v. map_of (parts (fst (receive blake2s (map (\<lambda>(i, now). (chunkAt f ds i, now)) xs) r))) (fMsgID f) =
      (if S \<union> fst ` set xs = {} then None else Some (progress f ds (S \<union> fst ` set xs) v))) \<and>
    maxBytes (fst (receive blake2s (map (\<lambda>(i, now). (chunkAt f ds i, now)) xs) r)) = maxBytes r"
  using assms(2-)
proof (induction xs arbitrary: r S u)
  case Nil
  then show ?case by (auto simp: receive_def)
next
  case (Cons x xs)
  obtain i now where x: "x = (i, now)" by (cases x)
  have i: "i < length ds" using Cons.prems(2) x by simp
  have all: "insert i S \<union> fst ` set xs = S \<union> fst ` set (x # xs)" using x by auto
  have sub: "S \<union> fst ` set (x # xs) \<subseteq> {..<length ds}" using Cons.prems(2,3) by auto
  then have S': "insert i S \<subset> {..<length ds}" using Cons.prems(5) x by auto
  then have ne: "insert i S \<noteq> {..<length ds}" by blast
  obtain r' where r': "Add blake2s (chunkAt f ds i) now r = (r', Inr None)" "maxBytes r' = maxBytes r"
    "map_of (parts r') (fMsgID f) = Some (progress f ds (insert i S) now)"
    using Add_progress[OF assms(1) Cons.prems(1) i Cons.prems(3,4), of blake2s now] unfolding if_not_P[OF ne] by blast
  have "map_of (parts r') (fMsgID f) = (if insert i S = {} then None else Some (progress f ds (insert i S) now))" using r'(3) by simp
  from Cons.IH[OF _ _ S' this] r' Cons.prems(1,2,5) show ?case
    by (simp add: receive_def x Let_def)
qed

lemma receive_delivers:
  assumes "chunks_ok ds" "int (length (concat ds)) \<le> maxBytes r" "map_of (parts r) (fMsgID f) = None"
    and "\<forall>x\<in>set xs. fst x < length ds" "fst ` set xs \<noteq> {..<length ds}" "insert i (fst ` set xs) = {..<length ds}"
  shows "snd (receive blake2s (map (\<lambda>(i, now). (chunkAt f ds i, now)) (xs @ [(i, now)])) r) =
    replicate (length xs) (Inr None) @ [Inr (Some (messageOf blake2s f (concat ds)))]"
proof -
  have e: "{} \<subset> {..<length ds}" using assms(1) by (auto simp: chunks_ok_def)
  let ?r = "fst (receive blake2s (map (\<lambda>(i, now). (chunkAt f ds i, now)) xs) r)" and ?S = "fst ` set xs"
  obtain v where "snd (receive blake2s (map (\<lambda>(i, now). (chunkAt f ds i, now)) xs) r) = replicate (length xs) (Inr None)"
    "map_of (parts ?r) (fMsgID f) = (if ?S = {} then None else Some (progress f ds ?S v))" "maxBytes ?r = maxBytes r"
    using receive_progress[OF assms(1,2,4) e, of f 0 blake2s] assms(3,5) unfolding Un_empty_left by auto
  moreover have "i < length ds" "?S \<subset> {..<length ds}" using assms(4-6) by auto
  ultimately show ?thesis
    using Add_progress[OF assms(1), of ?r i ?S f v blake2s now] assms(2,6) by (auto simp: receive_def run_append Let_def)
qed

lemma concat_slices:
  "0 < k \<Longrightarrow> concat (map (\<lambda>i. slice (i * k) (min (i * k + k) (length xs)) xs) [0..<c]) = take (c * k) xs"
proof (induction c)
  case (Suc c)
  have "slice (c * k) (min (c * k + k) (length xs)) xs = take k (drop (c * k) xs)" by (simp add: slice_def min_def drop_take)
  then show ?case using Suc by (simp add: take_add[symmetric] add.commute)
qed simp

lemma ChunkMessage_split:
  assumes "ChunkMessage m maxFrame = Inr frames" "maxFrame < 2 ^ 62" "int (length (mPayload m)) < 2 ^ 62"
  obtains ds where "frames = map (\<lambda>i. chunkFrameOf m i (length ds) (ds ! i)) [0..<length ds]" "concat ds = mPayload m" "chunks_ok ds"
    "\<forall>d\<in>set ds. 39 + int (length d) \<le> maxFrame"
proof (cases "mPayload m = []")
  case True
  then show ?thesis
    using that[of "[[]]"] assms by (auto simp: ChunkMessage_def Let_def frameOverhead_def chunks_ok_def split: if_splits)
next
  case False
  let ?p = "mPayload m" and ?L = "length (mPayload m)"
  define k where "k = nat (maxFrame - 39)"
  have k: "0 < k" "maxFrame - 39 = int k" using assms(1) by (auto simp: ChunkMessage_def k_def frameOverhead_def split: if_splits)
  define c where "c = (?L + k - 1) div k"
  have "wrap64 (int ?L + int k - 1) = int (?L + k - 1)"
    using assms(2,3) k False by (subst wrap64_id) (auto simp: of_nat_diff)
  then have q: "quot (wrap64 (int ?L + int k - 1)) (int k) = int c" using k by (simp add: quot_div c_def zdiv_int)
  define ds where "ds = map (\<lambda>i. slice (i * k) (min (i * k + k) ?L) ?p) [0..<c]"
  have frames: "frames = map (\<lambda>i. chunkFrameOf m i (length ds) (ds ! i)) [0..<length ds]" "c \<le> 65535"
    using assms(1) False k q by (auto simp: ChunkMessage_def Let_def frameOverhead_def ds_def split: if_splits)
  have "?L + k - 1 < c * k + k" using k dividend_less_div_times[of k "?L + k - 1"] by (simp add: c_def)
  then have "?L \<le> c * k" using k by linarith
  then have "concat ds = ?p" using concat_slices[OF k(1), of ?p c] by (simp add: ds_def)
  moreover have small: "i * k < ?L" if "i < c" for i
  proof -
    have "i * k + k \<le> c * k" using mult_le_mono1[of "Suc i" c k] that by simp
    moreover have "c * k \<le> ?L + k - 1" by (simp add: c_def)
    ultimately show ?thesis using k(1) False by (cases ?p) auto
  qed
  have "slice (i * k) (min (i * k + k) ?L) ?p \<noteq> []" if "i < c" for i using small[OF that] k by (simp add: slice_def min_def)
  moreover have "length (slice (i * k) (min (i * k + k) ?L) ?p) \<le> k" for i by (auto simp: slice_def min_def)
  ultimately have "\<forall>d\<in>set ds. d \<noteq> [] \<and> length d \<le> k" "concat ds = ?p" by (auto simp: ds_def)
  moreover have "0 < c" using \<open>?L \<le> c * k\<close> False by (cases c) auto
  ultimately show ?thesis
    using that[of ds] frames k by (fastforce simp: chunks_ok_def ds_def)
qed

lemma chunkFrameOf_wire:
  assumes "mTTLSec m \<noteq> 0" "mTimestamp m \<noteq> 0" "length (mID m) = 16" "length (mSender m) = 8" "i < length ds" "length ds \<le> 65535"
  shows "\<exists>b. EncodeChunkFrame (chunkFrameOf m i (length ds) (ds ! i)) = Inr b \<and> length b = 39 + length (ds ! i) \<and>
    DecodeChunkFrame b = Inr (chunkAt ((chunkFrameOf m 0 0 [])\<lparr>fTimestamp := wire_time (mTimestamp m)\<rparr>) ds i)"
proof -
  let ?f = "chunkFrameOf m i (length ds) (ds ! i)"
  have nz: "(word_of_nat (length ds) :: u16) \<noteq> 0"
    using assms(5,6) unat_u16[of "length ds"] by (metis not_less_zero unsigned_0)
  have "\<not> (word_of_nat (length ds) :: u16) \<le> word_of_nat i" using u16_less[of i "length ds"] assms(5,6) by simp
  with nz assms(1,2) have "\<exists>b. EncodeChunkFrame ?f = Inr b" by (simp add: EncodeChunkFrame_def chunkFrameOf_def)
  then obtain b where b: "EncodeChunkFrame ?f = Inr b" ..
  have "length (fMsgID ?f) = 16" "length (fSender ?f) = 8" using assms(3,4) by (simp_all add: chunkFrameOf_def)
  from EncodeChunkFrame_Decode[OF b this] b show ?thesis by (simp add: chunkFrameOf_def chunkAt_def)
qed

lemma Unix_wire_time: "0 \<le> Unix t \<Longrightarrow> Unix t < 2 ^ 32 \<Longrightarrow> Unix (wire_time t) = Unix t"
  by (simp add: wire_time_def)

text \<open>
  C13. A message crosses the mesh: every chunk frame fits the frame size and is read back from the wire, and a receiver that gets the
  chunks in any order and with repetitions delivers the message, with its identifier, exactly when the last missing chunk
  arrives. Its time stamp keeps whole seconds. The payload fits the receiver's limit, which has no part of this message yet.
\<close>

theorem mesh_message_delivered:
  assumes new: "NewMessage blake2s sender now ttl payload = Inr m0" "m = m0\<lparr>mHop := hop\<rparr>"
    and env: "length sender = 8" "\<And>x. 16 \<le> length (blake2s x)" "now \<noteq> 0" "0 \<le> Unix now" "Unix now < 2 ^ 32"
    and chunk: "ChunkMessage m maxFrame = Inr frames" "maxFrame < 2 ^ 62" "int (length payload) < 2 ^ 62"
    and rcv: "int (length payload) \<le> maxBytes r" "map_of (parts r) (mID m) = None"
    and order: "\<forall>x\<in>set xs. fst x < length frames" "fst ` set xs \<noteq> {..<length frames}" "insert i (fst ` set xs) = {..<length frames}"
  shows "\<exists>raws fs. map EncodeChunkFrame frames = map Inr raws \<and> (\<forall>raw\<in>set raws. int (length raw) \<le> maxFrame) \<and>
    map DecodeChunkFrame raws = map Inr fs \<and>
    snd (receive blake2s (map (\<lambda>(j, u). (fs ! j, u)) (xs @ [(i, t)])) r) =
      replicate (length xs) (Inr None) @ [Inr (Some (m\<lparr>mTimestamp := wire_time now\<rparr>))]"
proof -
  have m: "ttl \<noteq> 0" "m = \<lparr>mID = ComputeMessageID blake2s sender now ttl payload, mSender = sender, mTimestamp = now, mTTLSec = ttl,
      mHop = hop, mPayload = payload\<rparr>"
    using new by (auto simp: NewMessage_def split: if_splits)
  obtain ds where ds: "frames = map (\<lambda>i. chunkFrameOf m i (length ds) (ds ! i)) [0..<length ds]" "concat ds = payload" "chunks_ok ds"
    "\<forall>d\<in>set ds. 39 + int (length d) \<le> maxFrame"
    using ChunkMessage_split[OF chunk(1,2)] chunk(3) m(2) by auto
  define hdr where "hdr = (chunkFrameOf m 0 0 [])\<lparr>fTimestamp := wire_time now\<rparr>"
  have "\<forall>j<length ds. \<exists>b. EncodeChunkFrame (chunkFrameOf m j (length ds) (ds ! j)) = Inr b \<and> length b = 39 + length (ds ! j) \<and>
    DecodeChunkFrame b = Inr (chunkAt hdr ds j)"
    using chunkFrameOf_wire[of m _ ds] m env ds(3) by (auto simp: hdr_def ComputeMessageID_def chunks_ok_def)
  then obtain raw where raw: "\<And>j. j < length ds \<Longrightarrow> EncodeChunkFrame (chunkFrameOf m j (length ds) (ds ! j)) = Inr (raw j) \<and>
      length (raw j) = 39 + length (ds ! j) \<and> DecodeChunkFrame (raw j) = Inr (chunkAt hdr ds j)" by metis
  let ?raws = "map raw [0..<length ds]" and ?fs = "map (chunkAt hdr ds) [0..<length ds]"
  have wire: "map EncodeChunkFrame frames = map Inr ?raws" "\<forall>b\<in>set ?raws. int (length b) \<le> maxFrame"
    "map DecodeChunkFrame ?raws = map Inr ?fs"
    using raw ds(1,4) by (auto simp: )
  have msg: "messageOf blake2s hdr (concat ds) = m\<lparr>mTimestamp := wire_time now\<rparr>"
    using env m(2) by (simp add: messageOf_def hdr_def chunkFrameOf_def ds(2) ComputeMessageID_def Unix_wire_time)
  have i: "i < length ds" using order(3) ds(1) by auto
  have idx: "map (\<lambda>(j, u). (?fs ! j, u)) (xs @ [(i, t)]) = map (\<lambda>(j, u). (chunkAt hdr ds j, u)) (xs @ [(i, t)])"
    using order(1) ds(1) i by auto
  have "snd (receive blake2s (map (\<lambda>(j, u). (?fs ! j, u)) (xs @ [(i, t)])) r) =
      replicate (length xs) (Inr None) @ [Inr (Some (m\<lparr>mTimestamp := wire_time now\<rparr>))]"
    unfolding idx msg[symmetric]
    by (rule receive_delivers) (use ds(1-3) order rcv m(2) in \<open>auto simp: hdr_def chunkFrameOf_def\<close>)
  with wire show ?thesis by blast
qed

theorem mesh_message_delivered_witness:
  "\<exists>raws fs. map EncodeChunkFrame (map (\<lambda>i. chunkFrameOf
        \<lparr>mID = replicate 16 9, mSender = replicate 8 1, mTimestamp = time_Unix 5, mTTLSec = 60, mHop = 3, mPayload = [4, 5, 6]\<rparr> i 2
        ([[4, 5], [6]] ! i)) [0..<2]) = map Inr raws \<and> (\<forall>raw\<in>set raws. int (length raw) \<le> 41) \<and>
    map DecodeChunkFrame raws = map Inr fs \<and>
    snd (receive (\<lambda>_. replicate 32 9) (map (\<lambda>(j, u). (fs ! j, u)) ([(1, 10), (1, 11)] @ [(0, 12)])) (NewReassemblerWithLimit 0 0)) =
      replicate (length [(1 :: nat, 10 :: gotime), (1, 11)]) (Inr None) @
      [Inr (Some (\<lparr>mID = replicate 16 9, mSender = replicate 8 1, mTimestamp = time_Unix 5, mTTLSec = 60, mHop = 3, mPayload = [4, 5, 6]\<rparr>
        \<lparr>mTimestamp := wire_time (time_Unix 5)\<rparr>))]"
proof (rule mesh_message_delivered)
  show "NewMessage (\<lambda>_. replicate 32 9) (replicate 8 1) (time_Unix 5) 60 [4, 5, 6] =
    Inr \<lparr>mID = replicate 16 9, mSender = replicate 8 1, mTimestamp = time_Unix 5, mTTLSec = 60, mHop = 0, mPayload = [4, 5, 6]\<rparr>"
    by (simp add: NewMessage_def ComputeMessageID_def)
  show "ChunkMessage \<lparr>mID = replicate 16 9, mSender = replicate 8 1, mTimestamp = time_Unix 5, mTTLSec = 60, mHop = 3, mPayload = [4, 5, 6]\<rparr> 41 =
    Inr (map (\<lambda>i. chunkFrameOf
        \<lparr>mID = replicate 16 9, mSender = replicate 8 1, mTimestamp = time_Unix 5, mTTLSec = 60, mHop = 3, mPayload = [4, 5, 6]\<rparr> i 2
        ([[4, 5], [6]] ! i)) [0..<2])"
    by (simp add: ChunkMessage_def frameOverhead_def Let_def wrap64_def quot_def slice_def upt_rec)
qed (auto simp: time_Unix_def second_def unix_offset_def Unix_def NewReassemblerWithLimit_def lessThan_Suc numeral_2_eq_2)

end
