(* ===== verification/Mesh_Router.thy ===== *)
theory Mesh_Router
  imports Mesh_Cache Mesh_Replay Mesh_Guard Mesh_Scoring Mesh_Reassembly
begin

text \<open>
  The router of the mesh (\<^verbatim>\<open>core/proximity/message_router/router.go\<close>), composed of the cache, the reassembler, the scorer, the flood guard,
  the replay protection and the routing engine. A handler returns the new router and its effects in order: frames it broadcasts,
  messages it delivers to the application and messages it schedules for forwarding. The select loop of \<^verbatim>\<open>Run\<close> is the step
  function \<open>router_step\<close>, one event per turn; the identity function, the validator and BLAKE2s are arguments.
\<close>

section \<open>State\<close>

record router_env =
  blake :: "bytes \<Rightarrow> bytes"
  currentIdentity :: "gotime \<Rightarrow> NodeID"
  validate :: "(Message \<Rightarrow> bool) option"

record Router =
  rCache :: Cache
  rReasm :: Reassembler
  maxFrameBytes :: int
  maxHop :: byte
  minRebroadcastEvery :: duration
  clockSkewAllowance :: duration
  maxPayloadBytes :: int
  rScorer :: Scorer
  rGuard :: Guard
  rReplay :: Protector
  rRoute :: RouteEngine
  invEvery :: duration
  invMax :: int
  wantMax :: int
  coverEvery :: duration
  coverSize :: int
  lastInvAt :: gotime
  lastCoverAt :: gotime
  lastForward :: "MessageID \<rightharpoonup> gotime"

record Options =
  oMaxFrameBytes :: int
  oMaxHop :: byte
  oMinRebroadcastEvery :: duration
  oReassemblyStaleAfter :: duration
  oCacheMaxItems :: int
  oClockSkewAllowance :: duration
  oMaxPayloadBytes :: int
  oReplayBucketDuration :: duration
  oReplayWindowDuration :: duration
  oGuard :: GuardOptions
  oRoutingBaseProb :: rat
  oRoutingMaxJitter :: duration
  oRoutingMinTTLRemain :: duration
  oInventoryEvery :: duration
  oInventoryMax :: int
  oWantMax :: int
  oCoverTrafficEvery :: duration
  oCoverTrafficSize :: int

definition positive_or :: "int \<Rightarrow> int \<Rightarrow> int" where
  "positive_or x d = (if x \<le> 0 then d else x)"

definition routeOf :: "Options \<Rightarrow> RouteEngine" where
  "routeOf o1 =
     \<lparr>BaseProb = (if oRoutingBaseProb o1 > 0 then oRoutingBaseProb o1 else BaseProb NewRouteEngine),
      MaxJitter = (if oRoutingMaxJitter o1 > 0 then oRoutingMaxJitter o1 else MaxJitter NewRouteEngine),
      MinTTLRemain = (if oRoutingMinTTLRemain o1 > 0 then oRoutingMinTTLRemain o1 else MinTTLRemain NewRouteEngine)\<rparr>"

definition NewRouter :: "Options \<Rightarrow> gotime \<Rightarrow> Router" where
  "NewRouter o1 now =
     (let maxPayload = positive_or (oMaxPayloadBytes o1) 32768 in
      \<lparr>rCache = Mesh_Cache.New (oCacheMaxItems o1), rReasm = NewReassemblerWithLimit (oReassemblyStaleAfter o1) maxPayload,
       maxFrameBytes = positive_or (oMaxFrameBytes o1) 220, maxHop = (if oMaxHop o1 = 0 then 6 else oMaxHop o1),
       minRebroadcastEvery = positive_or (oMinRebroadcastEvery o1) 800000000,
       clockSkewAllowance = positive_or (oClockSkewAllowance o1) (120 * second), maxPayloadBytes = maxPayload,
       rScorer = Map.empty, rGuard = Mesh_Guard.New (oGuard o1) now,
       rReplay = Mesh_Replay.New (oReplayBucketDuration o1) (oReplayWindowDuration o1), rRoute = routeOf o1,
       invEvery = positive_or (oInventoryEvery o1) (15 * second), invMax = positive_or (oInventoryMax o1) 12,
       wantMax = positive_or (oWantMax o1) 10, coverEvery = (if oCoverTrafficEvery o1 < 0 then 0 else oCoverTrafficEvery o1),
       coverSize = positive_or (oCoverTrafficSize o1) 24, lastInvAt = 0, lastCoverAt = now, lastForward = Map.empty\<rparr>)"

datatype effect = Broadcast bytes | Deliver Message | Schedule duration Message

section \<open>Sending\<close>

definition entryOf :: "Message \<Rightarrow> gotime \<Rightarrow> Entry" where
  "entryOf m now = \<lparr>eID = mID m, eSender = mSender m, eTimestamp = mTimestamp m, eTTLSec = mTTLSec m, eInserted = now,
     eExpiresAt = ExpiresAt m, ePayload = mPayload m\<rparr>"

definition putMessage :: "Message \<Rightarrow> gotime \<Rightarrow> Router \<Rightarrow> Router" where
  "putMessage m now r = r\<lparr>rCache := Put (entryOf m now) now (rCache r)\<rparr>"

definition allowGlobalIn :: "gotime \<Rightarrow> rat \<Rightarrow> Router \<Rightarrow> Router \<times> bool" where
  "allowGlobalIn now cost r = (let g = AllowGlobal now cost (rGuard r) in (r\<lparr>rGuard := fst g\<rparr>, snd g))"

definition allowIn :: "NodeID \<Rightarrow> gotime \<Rightarrow> rat \<Rightarrow> Router \<Rightarrow> Router \<times> bool" where
  "allowIn i now cost r = (let g = Allow i now cost (rGuard r) in (r\<lparr>rGuard := fst g\<rparr>, snd g))"

definition framesOut :: "ChunkFrame list \<Rightarrow> effect list" where
  "framesOut fs = concat (map (\<lambda>f. case EncodeChunkFrame f of Inl e \<Rightarrow> [] | Inr b \<Rightarrow> [Broadcast b]) fs)"

definition broadcastMessage :: "Message \<Rightarrow> gotime \<Rightarrow> Router \<Rightarrow> Router \<times> effect list \<times> (wire_error + unit)" where
  "broadcastMessage m now r =
     (let a = allowGlobalIn now 2 r in
      if \<not> snd a then (fst a, [], Inr ())
      else case ChunkMessage m (maxFrameBytes r) of
             Inl e \<Rightarrow> (fst a, [], Inl e)
           | Inr frames \<Rightarrow>
               let b = allowGlobalIn now (rat_of_nat (length frames)) (fst a) in
               if \<not> snd b then (fst b, [], Inr ()) else (fst b, framesOut frames, Inr ()))"

datatype send_error = SendWire wire_error | SendRejected

definition Send ::
    "router_env \<Rightarrow> gotime \<Rightarrow> bytes \<Rightarrow> u16 \<Rightarrow> Router \<Rightarrow> Router \<times> effect list \<times> (send_error + MessageID)" where
  "Send env now payload ttlSec r =
     (case NewMessage (blake env) (currentIdentity env now) now ttlSec payload of
        Inl e \<Rightarrow> (r, [], Inl (SendWire e))
      | Inr m \<Rightarrow>
          if (case validate env of None \<Rightarrow> False | Some v \<Rightarrow> \<not> v m) then (r, [], Inl SendRejected)
          else let res = broadcastMessage m now (putMessage m now r)
               in (fst res, fst (snd res), case snd (snd res) of Inl e \<Rightarrow> Inl (SendWire e) | Inr u \<Rightarrow> Inr (mID m)))"

section \<open>Receiving\<close>

definition penalise :: "bool \<Rightarrow> NodeID \<Rightarrow> gotime \<Rightarrow> Router \<Rightarrow> Router" where
  "penalise hasFrom i now r = (if hasFrom then r\<lparr>rScorer := OnInvalidAt i now (rScorer r)\<rparr> else r)"

definition limitedFrom :: "bool \<Rightarrow> NodeID \<Rightarrow> gotime \<Rightarrow> Router \<Rightarrow> Router" where
  "limitedFrom hasFrom i now r = (if hasFrom then r\<lparr>rScorer := OnRateLimitedAt i now (rScorer r)\<rparr> else r)"

text \<open>The random draws of the gossip controller in this call are \<open>u\<close> and \<open>draw\<close>.\<close>

definition maybeForward ::
    "rat \<Rightarrow> (int \<Rightarrow> int) \<Rightarrow> Message \<Rightarrow> NodeID \<Rightarrow> bool \<Rightarrow> gotime \<Rightarrow> bool \<Rightarrow> Router \<Rightarrow> Router \<times> effect list" where
  "maybeForward u draw m i hasFrom now rateLimited r =
     (if mHop m \<ge> maxHop r then (r, [])
      else if (case lastForward r (mID m) of None \<Rightarrow> False | Some t \<Rightarrow> time_sub now t < minRebroadcastEvery r) then (r, [])
      else let prob = Probability (rRoute r)
                 \<lparr>From = i, Hop = mHop m, MaxHop = maxHop r, inExpiresAt = ExpiresAt m, Now = now, HasFrom = hasFrom,
                  inRateLimited = rateLimited\<rparr> (Some (\<lambda>j t. Score j t (rScorer r)));
               dec = Decide u draw prob (MaxJitter (rRoute r))
           in if \<not> Forward dec then (r, [])
              else (r\<lparr>lastForward := (lastForward r)(mID m \<mapsto> now)\<rparr>, [Schedule (Delay dec) (m\<lparr>mHop := mHop m + 1\<rparr>)]))"

definition frameCost :: "bytes \<Rightarrow> ChunkFrame \<Rightarrow> rat" where
  "frameCost raw f = (let c = 1 / 4 + 3 / 100 * rat_of_nat (unat (fHop f)) in if length raw > 220 then c + 1 / 4 else c)"

definition acceptMessage ::
    "router_env \<Rightarrow> rat \<Rightarrow> (int \<Rightarrow> int) \<Rightarrow> MessageID \<Rightarrow> Message \<Rightarrow> NodeID \<Rightarrow> bool \<Rightarrow> gotime \<Rightarrow> Router \<Rightarrow> Router \<times> effect list" where
  "acceptMessage env u draw frameID m i hasFrom now r =
     (if mID m \<noteq> frameID then (penalise hasFrom i now r, [])
      else if \<not> now < ExpiresAt m then (r, [])
      else if (case validate env of None \<Rightarrow> False | Some v \<Rightarrow> \<not> v m) then (penalise hasFrom i now r, [])
      else let seen = SeenOrAdd (mID m) now (rReplay r); r1 = r\<lparr>rReplay := fst seen\<rparr> in
        if snd seen then (r1, [])
        else let has = Has (mID m) now (rCache r1); r2 = r1\<lparr>rCache := fst has\<rparr> in
          if snd has then (r2, [])
          else let fwd = maybeForward u draw m i hasFrom now False (putMessage m now r2) in (fst fwd, Deliver m # snd fwd))"

definition handleChunk ::
    "router_env \<Rightarrow> rat \<Rightarrow> (int \<Rightarrow> int) \<Rightarrow> bytes \<Rightarrow> NodeID \<Rightarrow> bool \<Rightarrow> gotime \<Rightarrow> Router \<Rightarrow> Router \<times> effect list" where
  "handleChunk env u draw raw i hasFrom now r =
     (case DecodeChunkFrame raw of
        Inl e \<Rightarrow> (penalise hasFrom i now r, [])
      | Inr f \<Rightarrow>
          if fTimestamp f > now + clockSkewAllowance r then (penalise hasFrom i now r, [])
          else if \<not> now < frameExpiresAt f then (r, [])
          else if fHop f > maxHop r then (r, [])
          else let a = allowIn (if hasFrom then i else fSender f) now (frameCost raw f) r in
            if \<not> snd a then (limitedFrom hasFrom i now (fst a), [])
            else let res = Add (blake env) f now (rReasm (fst a)); r1 = (fst a)\<lparr>rReasm := fst res\<rparr> in
              case snd res of
                Inl e \<Rightarrow> (penalise hasFrom i now r1, [])
              | Inr None \<Rightarrow> (r1, [])
              | Inr (Some m) \<Rightarrow> acceptMessage env u draw (fMsgID f) m i hasFrom now r1)"

fun wantLoop :: "gotime \<Rightarrow> nat \<Rightarrow> InventoryItem list \<Rightarrow> MessageID list \<Rightarrow> Router \<Rightarrow> Router \<times> MessageID list" where
  "wantLoop now mx [] want r = (r, want)"
| "wantLoop now mx (it # its) want r =
     (if length want \<ge> mx then (r, want)
      else if \<not> now < iExpiresAt it then wantLoop now mx its want r
      else let has = Has (iID it) now (rCache r); r1 = r\<lparr>rCache := fst has\<rparr> in
        if snd has then wantLoop now mx its want r1
        else let seen = Seen (iID it) now (rReplay r1); r2 = r1\<lparr>rReplay := fst seen\<rparr> in
          if snd seen then wantLoop now mx its want r2 else wantLoop now mx its (want @ [iID it]) r2)"

text \<open>Messages about a rate limited or invalid frame of an unnamed sender are not scored.\<close>

definition syncGuard :: "NodeID \<Rightarrow> bool \<Rightarrow> gotime \<Rightarrow> Router \<Rightarrow> Router \<times> bool" where
  "syncGuard i hasFrom now r =
     (if hasFrom then let a = allowIn i now (6 / 10) r in if \<not> snd a then (limitedFrom True i now (fst a), False) else (fst a, True)
      else (r, True))"

definition handleInventory :: "router_env \<Rightarrow> bytes \<Rightarrow> NodeID \<Rightarrow> bool \<Rightarrow> gotime \<Rightarrow> Router \<Rightarrow> Router \<times> effect list" where
  "handleInventory env raw i hasFrom now r0 =
     (let s = syncGuard i hasFrom now r0; r = fst s in
      if \<not> snd s then (r, [])
      else case DecodeInventory raw of
             Inl e \<Rightarrow> (penalise hasFrom i now r, [])
           | Inr inv1 \<Rightarrow>
               if invTimestamp inv1 > now + clockSkewAllowance r then (r, [])
               else let w = wantLoop now (nat (wantMax r)) (invItems inv1) [] r in
                 if snd w = [] then (fst w, [])
                 else let a = allowGlobalIn now (1 / 2) (fst w) in
                   if \<not> snd a then (fst a, [])
                   else (fst a, [Broadcast (EncodeWant (currentIdentity env now) (snd w) (wantMax r))]))"

fun serveLoop :: "router_env \<Rightarrow> gotime \<Rightarrow> MessageID list \<Rightarrow> Router \<Rightarrow> Router \<times> effect list" where
  "serveLoop env now [] r = (r, [])"
| "serveLoop env now (w # ws) r =
     (let got = Get w now (rCache r); r1 = r\<lparr>rCache := fst got\<rparr> in
      case snd got of
        None \<Rightarrow> serveLoop env now ws r1
      | Some e \<Rightarrow>
          let cid = ComputeMessageID (blake env) (eSender e) (eTimestamp e) (eTTLSec e) (ePayload e);
              cp = \<lparr>mID = cid, mSender = eSender e, mTimestamp = eTimestamp e, mTTLSec = eTTLSec e, mHop = 0, mPayload = ePayload e\<rparr>
          in if cid \<noteq> eID e then serveLoop env now ws r1
             else let b = broadcastMessage cp now r1; rest = serveLoop env now ws (fst b)
                  in (fst rest, fst (snd b) @ snd rest))"

definition handleWant :: "router_env \<Rightarrow> bytes \<Rightarrow> NodeID \<Rightarrow> bool \<Rightarrow> gotime \<Rightarrow> Router \<Rightarrow> Router \<times> effect list" where
  "handleWant env raw i hasFrom now r0 =
     (let s = syncGuard i hasFrom now r0; r = fst s in
      if \<not> snd s then (r, [])
      else case DecodeWant raw of
             Inl e \<Rightarrow> (penalise hasFrom i now r, [])
           | Inr w \<Rightarrow> serveLoop env now (wWants w) r)"

definition handleFrame ::
    "router_env \<Rightarrow> rat \<Rightarrow> (int \<Rightarrow> int) \<Rightarrow> bytes \<Rightarrow> NodeID \<Rightarrow> bool \<Rightarrow> gotime \<Rightarrow> Router \<Rightarrow> Router \<times> effect list" where
  "handleFrame env u draw raw i hasFrom now r0 =
     (case DecodeHeader raw of
        None \<Rightarrow> (penalise hasFrom i now r0, [])
      | Some (ver, kind) \<Rightarrow>
          if ver \<noteq> 1 then (penalise hasFrom i now r0, [])
          else let r = (if hasFrom then r0\<lparr>rScorer := OnSeen i now (rScorer r0)\<rparr> else r0) in
            if hasFrom \<and> \<not> AllowFrom i now (rScorer r) then (r, [])
            else if kind = wireKindChunk then handleChunk env u draw raw i hasFrom now r
            else if kind = KindInventory then handleInventory env raw i hasFrom now r
            else if kind = KindWant then handleWant env raw i hasFrom now r
            else (r, []))"

section \<open>The loop\<close>

definition maybeBroadcastInventory :: "router_env \<Rightarrow> gotime \<Rightarrow> Router \<Rightarrow> Router \<times> effect list" where
  "maybeBroadcastInventory env now r =
     (if lastInvAt r \<noteq> 0 \<and> time_sub now (lastInvAt r) < invEvery r then (r, [])
      else let a = allowGlobalIn now (3 / 4) r in
        if \<not> snd a then (fst a, [])
        else let its = map (\<lambda>e. \<lparr>iID = eID e, iExpiresAt = eExpiresAt e\<rparr>) (ListEntries now (invMax r) (rCache (fst a))) in
          if its = [] then (fst a, [])
          else ((fst a)\<lparr>lastInvAt := now\<rparr>, [Broadcast (EncodeInventory (currentIdentity env now) now its (invMax r))]))"

definition broadcastCover :: "bytes \<Rightarrow> gotime \<Rightarrow> Router \<Rightarrow> Router \<times> effect list" where
  "broadcastCover random now r =
     (case EncodeCover random now (coverSize r) of
        Inl e \<Rightarrow> (r, [])
      | Inr b \<Rightarrow> let a = allowGlobalIn now (4 / 10) r in if \<not> snd a then (fst a, []) else (fst a, [Broadcast b]))"

definition SetCoverTraffic :: "duration \<Rightarrow> int \<Rightarrow> gotime \<Rightarrow> Router \<Rightarrow> Router" where
  "SetCoverTraffic every sz now r =
     r\<lparr>coverEvery := (if every < 0 then 0 else every), coverSize := (if sz \<le> 0 then 24 else sz), lastCoverAt := now\<rparr>"

datatype event = Frame bytes NodeID bool rat "int \<Rightarrow> int" | SweepTick | InvTick | CoverTick bytes | Forwarded Message
  | SendCall bytes u16 | SetCover duration int

text \<open>One turn of \<^verbatim>\<open>Run\<close>, a call of the application, or the timer of a scheduled message.\<close>

fun router_step :: "router_env \<Rightarrow> event \<times> gotime \<Rightarrow> Router \<Rightarrow> Router \<times> effect list" where
  "router_step env (Frame raw i hasFrom u draw, now) r = handleFrame env u draw raw i hasFrom now r"
| "router_step env (SweepTick, now) r =
     (r\<lparr>rCache := fst (Mesh_Cache.Sweep now (rCache r)), rReasm := fst (Mesh_Reassembly.Sweep now (rReasm r))\<rparr>, [])"
| "router_step env (InvTick, now) r = maybeBroadcastInventory env now r"
| "router_step env (CoverTick random, now) r =
     (let b = broadcastCover random now r in ((fst b)\<lparr>lastCoverAt := now\<rparr>, snd b))"
| "router_step env (Forwarded m, now) r = (let b = broadcastMessage m now r in (fst b, fst (snd b)))"
| "router_step env (SendCall payload ttlSec, now) r = (let s = Send env now payload ttlSec r in (fst s, fst (snd s)))"
| "router_step env (SetCover every sz, now) r = (SetCoverTraffic every sz now r, [])"

section \<open>What the reassembler of a router holds\<close>

definition chunkBytes :: "bytes option list \<Rightarrow> nat" where
  "chunkBytes cs = sum_list (map (\<lambda>c. case c of None \<Rightarrow> 0 | Some d \<Rightarrow> length d) cs)"

definition partial_ok :: "int \<Rightarrow> byte \<Rightarrow> partial \<Rightarrow> bool" where
  "partial_ok mx hop p \<longleftrightarrow> length (pChunks p) = unat (pCount p) \<and> pTotal p = int (chunkBytes (pChunks p)) \<and> pTotal p \<le> mx \<and>
     pHop p \<le> hop \<and> time_Unix (Unix (pTimestamp p)) = pTimestamp p"

definition reasm_ok :: "int \<Rightarrow> byte \<Rightarrow> Reassembler \<Rightarrow> bool" where
  "reasm_ok mx hop r \<longleftrightarrow> maxBytes r = mx \<and> 0 \<le> mx \<and> (\<forall>x\<in>set (parts r). partial_ok mx hop (snd x))"

lemma Decode_facts:
  "DecodeChunkFrame raw = Inr f \<Longrightarrow> fChunkIndex f < fChunkCount f \<and> time_Unix (Unix (fTimestamp f)) = fTimestamp f"
  by (auto simp: DecodeChunkFrame_def Let_def not_le split: if_splits)

lemma chunkBytes_update:
  assumes "i < length cs" "cs ! i = None"
  shows "chunkBytes (cs[i := copyChunk d]) = chunkBytes cs + length d"
proof -
  have "chunkBytes (cs[i := copyChunk d]) = chunkBytes cs + (case copyChunk d of None \<Rightarrow> 0 | Some d \<Rightarrow> length d) - (case cs ! i of None \<Rightarrow> 0 | Some d \<Rightarrow> length d)"
    using assms(1) by (simp add: chunkBytes_def map_update sum_list_update)
  then show ?thesis using assms(2) by (simp add: copyChunk_def)
qed

lemma length_assembled: "length (mPayload (assembled bl p)) \<le> chunkBytes (pChunks p)"
proof -
  have "length (concat (map (\<lambda>c. case c of None \<Rightarrow> [] | Some d \<Rightarrow> d) cs)) = chunkBytes cs" for cs :: "bytes option list"
    by (induction cs) (auto simp: chunkBytes_def split: option.splits)
  moreover have "chunkBytes (take n cs) \<le> chunkBytes cs" for n and cs :: "bytes option list"
    using append_take_drop_id[of n cs] unfolding chunkBytes_def by (metis le_add1 map_append sum_list_append)
  ultimately show ?thesis by (simp add: assembled_def Let_def)
qed

lemma newPartial_ok:
  "0 \<le> mx \<Longrightarrow> fHop f \<le> hop \<Longrightarrow> time_Unix (Unix (fTimestamp f)) = fTimestamp f \<Longrightarrow> partial_ok mx hop (newPartial f now)"
  by (simp add: partial_ok_def newPartial_def chunkBytes_def sum_list_replicate)

lemma Add_ok:
  assumes r: "reasm_ok mx hop r" and f: "fHop f \<le> hop" "time_Unix (Unix (fTimestamp f)) = fTimestamp f" "fChunkIndex f < fChunkCount f"
  shows "reasm_ok mx hop (fst (Add bl f now r)) \<and> snd (Add bl f now r) \<noteq> Inl ReasmPanic \<and>
    (\<forall>m. snd (Add bl f now r) = Inr (Some m) \<longrightarrow> int (length (mPayload m)) \<le> mx \<and> mHop m \<le> hop \<and> mTimestamp m = fTimestamp f \<and>
      mID m = ComputeMessageID bl (mSender m) (mTimestamp m) (mTTLSec m) (mPayload m))"
proof -
  define p where "p = (case map_of (parts r) (fMsgID f) of None \<Rightarrow> newPartial f now | Some p \<Rightarrow> p)"
  have mx: "0 \<le> mx" "maxBytes r = mx" using r by (auto simp: reasm_ok_def)
  have p: "partial_ok mx hop p"
    using r newPartial_ok[OF mx(1) f(1,2)] by (auto simp: p_def reasm_ok_def split: option.splits dest!: map_of_SomeD)
  let ?i = "unat (fChunkIndex f)"
  define p1 where "p1 = (if pChunks p ! ?i = None
      then p\<lparr>pChunks := (pChunks p)[?i := copyChunk (fData f)], pReceived := pReceived p + 1, pTotal := pTotal p + int (length (fData f))\<rparr> else p)"
  define p2 where "p2 = p1\<lparr>pLastAt := now\<rparr>"
  have i: "pCount p = fChunkCount f \<Longrightarrow> ?i < length (pChunks p)"
    using p f(3) by (simp add: partial_ok_def word_less_nat_alt)
  have p2: "partial_ok mx hop p2"
    if "pCount p = fChunkCount f" "\<not> (pChunks p ! ?i = None \<and> pTotal p + int (length (fData f)) > mx)"
    using p that i[OF that(1)] chunkBytes_update[of ?i "pChunks p" "fData f"] by (auto simp: p2_def p1_def partial_ok_def)
  have hdr: "mHop (assembled bl p2) = pHop p" "mTimestamp (assembled bl p2) = pTimestamp p"
    "mID (assembled bl p2) = ComputeMessageID bl (mSender (assembled bl p2)) (mTimestamp (assembled bl p2)) (mTTLSec (assembled bl p2)) (mPayload (assembled bl p2))"
    by (simp_all add: assembled_def Let_def p2_def p1_def)
  have ts: "Unix (pTimestamp p) = Unix (fTimestamp f) \<Longrightarrow> pTimestamp p = fTimestamp f" using p f(2) by (metis partial_ok_def)
  have store: "reasm_ok mx hop (r\<lparr>parts := AList.update (fMsgID f) q (AList.update (fMsgID f) p (parts r))\<rparr>)" if "partial_ok mx hop q" for q
    using r that p set_update_subset by (fastforce simp: reasm_ok_def)
  have del: "reasm_ok mx hop (r\<lparr>parts := AList.delete (fMsgID f) (AList.update (fMsgID f) p (parts r))\<rparr>)"
    using r p set_update_subset set_delete_subset by (fastforce simp: reasm_ok_def)
  have upd: "reasm_ok mx hop (r\<lparr>parts := AList.update (fMsgID f) p (parts r)\<rparr>)"
    using r p set_update_subset by (fastforce simp: reasm_ok_def)
  have len: "int (length (mPayload (assembled bl p2))) \<le> mx" if "partial_ok mx hop p2"
    using that length_assembled[of bl p2] by (simp add: partial_ok_def)
  have "pHop p \<le> hop" using p by (simp add: partial_ok_def)
  then show ?thesis
    using i p2 ts store del upd len hdr mx(2)
    unfolding Add_def Let_def p_def[symmetric] p1_def[symmetric] p2_def[symmetric] by (auto split: if_splits)
qed

lemma Sweep_reasm_ok: "reasm_ok mx hop r \<Longrightarrow> reasm_ok mx hop (fst (Mesh_Reassembly.Sweep now r))"
  by (auto simp: reasm_ok_def Mesh_Reassembly.Sweep_def Let_def)

section \<open>Frames of the handlers\<close>

text \<open>What most of the helpers leave alone: the reassembler, the replay protection and the limits.\<close>

definition core :: "Router \<Rightarrow> Reassembler \<times> Protector \<times> byte \<times> int \<times> duration" where
  "core r = (rReasm r, rReplay r, maxHop r, maxPayloadBytes r, clockSkewAllowance r)"

lemma core_helpers [simp]:
  "core (penalise h i now r) = core r" "core (limitedFrom h i now r) = core r" "core (fst (allowGlobalIn now c r)) = core r"
  "core (fst (allowIn i now c r)) = core r" "core (putMessage m now r) = core r" "core (fst (maybeForward u draw m i h now rl r)) = core r"
  "core (fst (syncGuard i h now r)) = core r" "core (SetCoverTraffic every sz now r) = core r"
  "core (r\<lparr>rCache := ca\<rparr>) = core r" "core (r\<lparr>rScorer := sc\<rparr>) = core r" "core (r\<lparr>lastInvAt := t\<rparr>) = core r" "core (r\<lparr>lastCoverAt := t\<rparr>) = core r"
  by (auto simp: core_def penalise_def limitedFrom_def allowGlobalIn_def allowIn_def putMessage_def maybeForward_def syncGuard_def
      SetCoverTraffic_def Let_def split: option.splits)

lemma core_broadcastMessage [simp]: "core (fst (broadcastMessage m now r)) = core r"
  by (simp add: broadcastMessage_def Let_def split: sum.splits)

lemma core_serveLoop [simp]: "core (fst (serveLoop env now ws r)) = core r"
  by (induction ws arbitrary: r) (simp_all add: Let_def split: option.splits)

lemma core_handlers [simp]:
  "core (fst (handleWant env raw i h now r)) = core r" "core (fst (maybeBroadcastInventory env now r)) = core r"
  "core (fst (broadcastCover rnd now r)) = core r" "core (fst (Send env now pl ttl r)) = core r"
  by (auto simp: handleWant_def maybeBroadcastInventory_def broadcastCover_def Send_def Let_def split: sum.splits option.splits)

lemma serveLoop_effects: "Deliver m \<notin> set (snd (serveLoop env now ws r))"
proof -
  have "Deliver m \<notin> set (fst (snd (broadcastMessage c now q)))" for c q
    by (auto simp: broadcastMessage_def framesOut_def Let_def split: sum.splits)
  then show ?thesis by (induction ws arbitrary: r) (auto simp: Let_def split: option.splits)
qed

lemma quiet_handlers:
  "Deliver m \<notin> set (snd (handleWant env raw i h now r))" "Deliver m \<notin> set (snd (handleInventory env raw i h now r))"
  "Deliver m \<notin> set (snd (maybeBroadcastInventory env now r))" "Deliver m \<notin> set (snd (broadcastCover rnd now r))"
  "Deliver m \<notin> set (fst (snd (broadcastMessage c now r)))" "Deliver m \<notin> set (fst (snd (Send env now pl ttl r)))"
  using serveLoop_effects[of m env now _ "fst (syncGuard i h now r)"]
  by (auto simp: handleWant_def handleInventory_def maybeBroadcastInventory_def broadcastCover_def Send_def broadcastMessage_def framesOut_def
      Let_def split: sum.splits option.splits if_splits)

text \<open>The replay protection of a router moves only by its own operations, at the time of the event.\<close>

definition replay_moves :: "gotime \<Rightarrow> Router \<Rightarrow> Router \<Rightarrow> bool" where
  "replay_moves now r r' \<longleftrightarrow> (\<exists>ops. rReplay r' = fst (run replay_step ops (rReplay r)) \<and> (\<forall>x\<in>set ops. op_time x = now))"

lemma replay_moves_refl: "rReplay r' = rReplay r \<Longrightarrow> replay_moves now r r'"
  by (auto simp: replay_moves_def intro: exI[of _ "[]"])

lemma replay_moves_core: "core r' = core r \<Longrightarrow> replay_moves now r r'"
  by (rule replay_moves_refl) (simp add: core_def)

lemma replay_moves_trans: "replay_moves now r r' \<Longrightarrow> replay_moves now r' r'' \<Longrightarrow> replay_moves now r r''"
  unfolding replay_moves_def by (metis (no_types, lifting) Un_iff fst_conv run_append set_append)

lemma replay_moves_op: "op_time x = now \<Longrightarrow> rReplay r' = fst (replay_step x (rReplay r)) \<Longrightarrow> replay_moves now r r'"
  by (auto simp: replay_moves_def Let_def intro!: exI[of _ "[x]"])

definition rest :: "Router \<Rightarrow> Reassembler \<times> byte \<times> int \<times> duration" where
  "rest r = (rReasm r, maxHop r, maxPayloadBytes r, clockSkewAllowance r)"

lemma rest_core: "core r' = core r \<Longrightarrow> rest r' = rest r"
  by (simp add: core_def rest_def)

lemma rest_fields [simp]: "rest (r\<lparr>rCache := c\<rparr>) = rest r" "rest (r\<lparr>rReplay := p\<rparr>) = rest r"
  by (simp_all add: rest_def)

lemma wantLoop_frame: "replay_moves now r (fst (wantLoop now mx its want r)) \<and> rest (fst (wantLoop now mx its want r)) = rest r"
proof (induction its arbitrary: want r)
  case (Cons it its)
  let ?r1 = "r\<lparr>rCache := fst (Has (iID it) now (rCache r))\<rparr>"
  let ?r2 = "?r1\<lparr>rReplay := fst (Seen (iID it) now (rReplay ?r1))\<rparr>"
  have m1: "replay_moves now r ?r1" by (rule replay_moves_refl) simp
  have "replay_moves now ?r1 ?r2" by (rule replay_moves_op[of "DoSeen (iID it) now"]) simp_all
  then have m2: "replay_moves now r ?r2" using replay_moves_trans[OF m1] by blast
  note ih1 = replay_moves_trans[OF m1 conjunct1[OF Cons.IH]] and ih2 = replay_moves_trans[OF m2 conjunct1[OF Cons.IH]]
  show ?case using Cons.IH[of r want] ih1 ih2 conjunct2[OF Cons.IH] by (simp add: Let_def replay_moves_refl)
qed (simp add: replay_moves_refl)

lemma handleInventory_frame:
  "replay_moves now r (fst (handleInventory env raw i h now r)) \<and> rest (fst (handleInventory env raw i h now r)) = rest r"
proof -
  let ?r = "fst (syncGuard i h now r)"
  have c: "core ?r = core r" by simp
  have w: "replay_moves now r (fst (wantLoop now k its [] ?r))" "rest (fst (wantLoop now k its [] ?r)) = rest r" for k its
    using wantLoop_frame[of now ?r k its "[]"] replay_moves_trans[OF replay_moves_core[OF c]] rest_core[OF c] by auto
  have a: "replay_moves now r (fst (allowGlobalIn now x q))" "rest (fst (allowGlobalIn now x q)) = rest q" if "replay_moves now r q" for x q
    using replay_moves_trans[OF that replay_moves_core[OF core_helpers(3)]] rest_core[OF core_helpers(3)] by auto
  show ?thesis
    using w a[OF w(1)] replay_moves_core[OF c] rest_core[OF c] replay_moves_core[of "penalise h i now ?r" r] rest_core[of "penalise h i now ?r" r]
    by (auto simp: handleInventory_def Let_def split: sum.splits)
qed

lemma acceptMessage_frame:
  "replay_moves now r (fst (acceptMessage env u draw fid m i h now r)) \<and> rest (fst (acceptMessage env u draw fid m i h now r)) = rest r"
proof -
  let ?r1 = "r\<lparr>rReplay := fst (SeenOrAdd (mID m) now (rReplay r))\<rparr>" and ?r' = "fst (acceptMessage env u draw fid m i h now r)"
  have m1: "replay_moves now r ?r1" by (rule replay_moves_op[of "DoSeenOrAdd (mID m) now"]) simp_all
  have "core ?r' = core r \<or> core ?r' = core ?r1" by (simp add: acceptMessage_def Let_def)
  then show ?thesis
    using replay_moves_core rest_core replay_moves_trans[OF m1 replay_moves_core] by (metis rest_fields(2))
qed

lemma acceptMessage_delivers:
  assumes "Deliver m' \<in> set (snd (acceptMessage env u draw fid m i h now r))"
  shows "m' = m \<and> mID m = fid \<and> now < ExpiresAt m \<and> (\<forall>v. validate env = Some v \<longrightarrow> v m) \<and> \<not> snd (SeenOrAdd (mID m) now (rReplay r)) \<and>
    rReplay (fst (acceptMessage env u draw fid m i h now r)) = fst (SeenOrAdd (mID m) now (rReplay r)) \<and>
    (\<forall>d m''. Schedule d m'' \<in> set (snd (acceptMessage env u draw fid m i h now r)) \<longrightarrow>
      m'' = m\<lparr>mHop := mHop m + 1\<rparr> \<and> mHop m < maxHop r)"
proof -
  let ?r1 = "r\<lparr>rReplay := fst (SeenOrAdd (mID m) now (rReplay r))\<rparr>"
  let ?r2 = "putMessage m now (?r1\<lparr>rCache := fst (Has (mID m) now (rCache ?r1))\<rparr>)"
  have ok: "mID m = fid" "now < ExpiresAt m" "\<forall>v. validate env = Some v \<longrightarrow> v m" "\<not> snd (SeenOrAdd (mID m) now (rReplay r))"
    "\<not> snd (Has (mID m) now (rCache ?r1))"
    using assms by (auto simp: acceptMessage_def Let_def split: if_splits option.splits)
  have acc: "acceptMessage env u draw fid m i h now r =
      (fst (maybeForward u draw m i h now False ?r2), Deliver m # snd (maybeForward u draw m i h now False ?r2))"
    using ok by (auto simp: acceptMessage_def Let_def split: option.splits)
  have "core (fst (maybeForward u draw m i h now False ?r2)) = core ?r2" "core ?r2 = core ?r1" by simp_all
  then have "rReplay (fst (maybeForward u draw m i h now False ?r2)) = rReplay ?r1" "maxHop ?r2 = maxHop r" by (simp_all add: core_def)
  then show ?thesis
    using ok assms acc by (auto simp: maybeForward_def Let_def not_le split: if_splits option.splits)
qed

section \<open>Events\<close>

definition limits :: "Router \<Rightarrow> byte \<times> int \<times> duration" where
  "limits r = (maxHop r, maxPayloadBytes r, clockSkewAllowance r)"

definition router_ok :: "Router \<Rightarrow> bool" where
  "router_ok r \<longleftrightarrow> reasm_ok (maxPayloadBytes r) (maxHop r) (rReasm r)"

text \<open>A well-behaved step: the invariant and the limits stay, and the replay protection moves by its operations.\<close>

definition steady :: "gotime \<Rightarrow> Router \<Rightarrow> Router \<Rightarrow> bool" where
  "steady now r r' \<longleftrightarrow> (router_ok r \<longrightarrow> router_ok r') \<and> limits r' = limits r \<and> replay_moves now r r'"

lemma steady_rest: "replay_moves now r r' \<and> rest r' = rest r \<Longrightarrow> steady now r r'"
  by (auto simp: steady_def router_ok_def limits_def rest_def)

lemma steady_core: "core r' = core r \<Longrightarrow> steady now r r'"
  by (intro steady_rest conjI replay_moves_core rest_core)

lemma steady_trans: "steady now r r' \<Longrightarrow> steady now r' r'' \<Longrightarrow> steady now r r''"
  using replay_moves_trans[of now r r' r''] by (simp add: steady_def)

lemma steady_reasm:
  "(router_ok r \<Longrightarrow> reasm_ok (maxPayloadBytes r) (maxHop r) q) \<Longrightarrow> steady now r (r\<lparr>rReasm := q\<rparr>)"
  by (auto simp: steady_def router_ok_def limits_def replay_moves_refl)

lemma handleChunk_steps:
  obtains (ignored) "core (fst (handleChunk env u draw raw i h now r)) = core r" "snd (handleChunk env u draw raw i h now r) = []"
  | (added) f r0 r1 where "DecodeChunkFrame raw = Inr f" "fTimestamp f \<le> now + clockSkewAllowance r" "fHop f \<le> maxHop r" "core r0 = core r"
      "r1 = r0\<lparr>rReasm := fst (Add (blake env) f now (rReasm r0))\<rparr>"
      "(\<exists>m. snd (Add (blake env) f now (rReasm r0)) = Inr (Some m) \<and>
          handleChunk env u draw raw i h now r = acceptMessage env u draw (fMsgID f) m i h now r1) \<or>
       core (fst (handleChunk env u draw raw i h now r)) = core r1 \<and> snd (handleChunk env u draw raw i h now r) = []"
proof (cases "DecodeChunkFrame raw")
  case (Inl e)
  then show ?thesis using ignored by (simp add: handleChunk_def)
next
  case (Inr f)
  let ?a = "allowIn (if h then i else fSender f) now (frameCost raw f) r"
  let ?add = "Add (blake env) f now (rReasm (fst ?a))"
  show ?thesis
  proof (cases "fTimestamp f > now + clockSkewAllowance r \<or> \<not> now < frameExpiresAt f \<or> fHop f > maxHop r \<or> \<not> snd ?a")
    case True
    then have "core (fst (handleChunk env u draw raw i h now r)) = core r \<and> snd (handleChunk env u draw raw i h now r) = []"
      by (elim disjE) (simp_all add: Inr handleChunk_def Let_def)
    then show ?thesis using ignored by blast
  next
    case False
    let ?r1 = "(fst ?a)\<lparr>rReasm := fst ?add\<rparr>"
    from False have h: "handleChunk env u draw raw i h now r = (case snd ?add of
        Inl e \<Rightarrow> (penalise h i now ?r1, []) | Inr None \<Rightarrow> (?r1, [])
      | Inr (Some m) \<Rightarrow> acceptMessage env u draw (fMsgID f) m i h now ?r1)"
      using Inr by (simp add: handleChunk_def Let_def)
    have "(\<exists>m. snd ?add = Inr (Some m) \<and> handleChunk env u draw raw i h now r = acceptMessage env u draw (fMsgID f) m i h now ?r1) \<or>
       core (fst (handleChunk env u draw raw i h now r)) = core ?r1 \<and> snd (handleChunk env u draw raw i h now r) = []"
    proof (cases "snd ?add")
      case (Inr x)
      then show ?thesis using h by (cases x) simp_all
    qed (use h in simp)
    then show ?thesis by (rule added[OF Inr _ _ _ refl, rotated 3]) (use False in \<open>simp_all add: not_less\<close>)
  qed
qed

lemma Add_in_router:
  assumes "router_ok r" "DecodeChunkFrame raw = Inr f" "fHop f \<le> maxHop r"
  shows "reasm_ok (maxPayloadBytes r) (maxHop r) (fst (Add bl f now (rReasm r))) \<and> snd (Add bl f now (rReasm r)) \<noteq> Inl ReasmPanic \<and>
    (\<forall>m. snd (Add bl f now (rReasm r)) = Inr (Some m) \<longrightarrow> int (length (mPayload m)) \<le> maxPayloadBytes r \<and> mHop m \<le> maxHop r \<and>
      mTimestamp m = fTimestamp f \<and> mID m = ComputeMessageID bl (mSender m) (mTimestamp m) (mTTLSec m) (mPayload m))"
  using assms Decode_facts[OF assms(2)] unfolding router_ok_def by (intro Add_ok) auto

lemma handleChunk_frame: "steady now r (fst (handleChunk env u draw raw i h now r))"
proof (cases rule: handleChunk_steps[of env u draw raw i h now r])
  case ignored
  then show ?thesis by (intro steady_core)
next
  case (added f r0 r1)
  have core: "router_ok r0 = router_ok r" "maxHop r0 = maxHop r" using added(4) by (simp_all add: core_def router_ok_def)
  have "steady now r0 r1"
    unfolding added(5) using Add_in_router[OF _ added(1), of r0 "blake env" now] added(3) core(2) by (intro steady_reasm) simp
  then have s1: "steady now r r1" using steady_core[OF added(4)] steady_trans by blast
  from added(6) show ?thesis
    using steady_trans[OF s1 steady_rest[OF acceptMessage_frame]] steady_trans[OF s1 steady_core] by fastforce
qed

lemma handleChunk_delivers:
  assumes "Deliver m \<in> set (snd (handleChunk env u draw raw i h now r))" "router_ok r"
  shows "int (length (mPayload m)) \<le> maxPayloadBytes r \<and> mHop m \<le> maxHop r \<and> mTimestamp m \<le> now + clockSkewAllowance r \<and>
    mID m = ComputeMessageID (blake env) (mSender m) (mTimestamp m) (mTTLSec m) (mPayload m) \<and>
    now < ExpiresAt m \<and> (\<forall>v. validate env = Some v \<longrightarrow> v m) \<and> \<not> snd (SeenOrAdd (mID m) now (rReplay r)) \<and>
    rReplay (fst (handleChunk env u draw raw i h now r)) = fst (SeenOrAdd (mID m) now (rReplay r)) \<and>
    (\<forall>d m'. Schedule d m' \<in> set (snd (handleChunk env u draw raw i h now r)) \<longrightarrow> m' = m\<lparr>mHop := mHop m + 1\<rparr> \<and> mHop m < maxHop r)"
proof (cases rule: handleChunk_steps[of env u draw raw i h now r])
  case ignored
  then show ?thesis using assms(1) by simp
next
  case (added f r0 r1)
  then obtain m1 where m1: "snd (Add (blake env) f now (rReasm r0)) = Inr (Some m1)"
    "handleChunk env u draw raw i h now r = acceptMessage env u draw (fMsgID f) m1 i h now r1" using assms(1) by auto
  have core: "router_ok r0" "maxHop r0 = maxHop r" "maxPayloadBytes r0 = maxPayloadBytes r" "rReplay r1 = rReplay r" "maxHop r1 = maxHop r"
    using added(4,5) assms(2) by (simp_all add: core_def router_ok_def)
  have "m = m1" using acceptMessage_delivers assms(1) m1(2) by metis
  with acceptMessage_delivers[of m env u draw "fMsgID f" m1 i h now r1] Add_in_router[OF core(1) added(1)] added(2,3) m1 assms(1) core show ?thesis
    by auto
qed

lemma handleFrame_cases:
  obtains (other) "steady now r (fst (handleFrame env u draw raw i h now r))" "\<And>m. Deliver m \<notin> set (snd (handleFrame env u draw raw i h now r))"
  | (chunk) r0 where "core r0 = core r" "h \<longrightarrow> AllowFrom i now (rScorer r)"
      "handleFrame env u draw raw i h now r = handleChunk env u draw raw i h now r0"
proof -
  define r0 where "r0 = (if h then r\<lparr>rScorer := OnSeen i now (rScorer r)\<rparr> else r)"
  let ?res = "handleFrame env u draw raw i h now r"
  have c: "core r0 = core r" by (simp add: r0_def)
  have seen: "AllowFrom i now (OnSeen i now s) \<longleftrightarrow> now \<ge> QuarantineUntil (statsOf i s)" for s
    by (auto simp: AllowFrom_def OnSeen_def statsOf_def Let_def not_less split: option.splits)
  have allow: "AllowFrom i now (rScorer r)" if "h" "AllowFrom i now (rScorer r0)"
    using that seen[of "rScorer r"] by (auto simp: r0_def AllowFrom_def statsOf_def split: option.splits)
  have "?res = (penalise h i now r, []) \<or> ?res = (r0, []) \<or>
      ((h \<longrightarrow> AllowFrom i now (rScorer r0)) \<and> ?res = handleChunk env u draw raw i h now r0) \<or>
      ?res = handleInventory env raw i h now r0 \<or> ?res = handleWant env raw i h now r0"
    unfolding handleFrame_def Let_def r0_def[symmetric] by (simp split: option.split)
  then consider "core (fst ?res) = core r" "snd ?res = []" | "h \<longrightarrow> AllowFrom i now (rScorer r0)" "?res = handleChunk env u draw raw i h now r0"
    | "?res = handleInventory env raw i h now r0" | "?res = handleWant env raw i h now r0"
    using c by (elim disjE) auto
  then show thesis
  proof cases
    case 1
    then show ?thesis using other steady_core by simp
  next
    case 2
    then show ?thesis using chunk[OF c] allow by blast
  next
    case 3
    then show ?thesis
      using other steady_trans[OF steady_core[OF c] steady_rest[OF handleInventory_frame]] quiet_handlers(2) by metis
  next
    case 4
    have "core (fst (handleWant env raw i h now r0)) = core r" using c by simp
    then show ?thesis using other 4 steady_core quiet_handlers(1) by metis
  qed
qed

lemma router_step_steady: "steady now r (fst (router_step env (ev, now) r))"
proof (cases ev)
  case (Frame raw i h u draw)
  show ?thesis
  proof (cases rule: handleFrame_cases[of now r env u draw raw i h])
    case other
    then show ?thesis using Frame by simp
  next
    case (chunk r0)
    then show ?thesis using steady_trans[OF steady_core[OF chunk(1)] handleChunk_frame] Frame by simp
  qed
next
  case SweepTick
  let ?q = "fst (Mesh_Reassembly.Sweep now (rReasm r))"
  have "steady now r (r\<lparr>rReasm := ?q\<rparr>)" by (rule steady_reasm) (simp add: router_ok_def Sweep_reasm_ok)
  moreover have "steady now (r\<lparr>rReasm := ?q\<rparr>) (r\<lparr>rCache := fst (Mesh_Cache.Sweep now (rCache r)), rReasm := ?q\<rparr>)"
    by (rule steady_core) (simp add: core_def)
  ultimately show ?thesis using SweepTick steady_trans by simp
qed (auto simp: Let_def intro: steady_core)

text \<open>A delivery comes from a chunk frame of a neighbour that is not in quarantine.\<close>

lemma deliver_from_chunk:
  assumes "Deliver m \<in> set (snd (router_step env (ev, now) r))"
  obtains raw i h u draw r0 where "ev = Frame raw i h u draw" "core r0 = core r" "h \<longrightarrow> AllowFrom i now (rScorer r)"
    "router_step env (ev, now) r = handleChunk env u draw raw i h now r0"
proof (cases ev)
  case (Frame raw i h u draw)
  show ?thesis
  proof (cases rule: handleFrame_cases[of now r env u draw raw i h])
    case other
    then show ?thesis using assms Frame by simp
  next
    case (chunk r0)
    then show ?thesis using that[OF Frame chunk(1)] Frame by simp
  qed
qed (use assms quiet_handlers in \<open>auto simp: Let_def\<close>)

interpretation router: state_machine "router_step env" router_ok
proof
  fix s and x :: "event \<times> gotime"
  assume "router_ok s"
  then show "router_ok (fst (router_step env x s))" using router_step_steady[of "snd x" s env "fst x"] by (simp add: steady_def)
qed

lemma router_run_limits: "limits (fst (run (router_step env) evs r)) = limits r"
proof (induction evs arbitrary: r)
  case (Cons x evs)
  have "limits (fst (router_step env x r)) = limits r" using router_step_steady[of "snd x" r env "fst x"] by (simp add: steady_def)
  then show ?case using Cons by (simp add: Let_def)
qed simp

lemma NewRouter_ok: "router_ok (NewRouter o1 t0)"
  by (simp add: router_ok_def NewRouter_def Let_def reasm_ok_def NewReassemblerWithLimit_def positive_or_def)

text \<open>
  C11. Whatever happened to a router before, a message it delivers to the application came in a chunk frame from a neighbour that is not in
  quarantine, carries the identifier of its content, fits the payload limit, has not exceeded the hop limit, is not from the
  future beyond the allowed clock skew, has not expired and passed the validator; what is scheduled for forwarding with it is the same
  message with one hop more, still within the hop limit.
\<close>

theorem delivered_sound:
  assumes "r = fst (run (router_step env) evs (NewRouter opts t0))" "Deliver m \<in> set (snd (router_step env (ev, now) r))"
  shows "(\<exists>raw i h u draw. ev = Frame raw i h u draw \<and> (h \<longrightarrow> AllowFrom i now (rScorer r))) \<and>
    mID m = ComputeMessageID (blake env) (mSender m) (mTimestamp m) (mTTLSec m) (mPayload m) \<and>
    int (length (mPayload m)) \<le> positive_or (oMaxPayloadBytes opts) 32768 \<and>
    mHop m \<le> (if oMaxHop opts = 0 then 6 else oMaxHop opts) \<and>
    mTimestamp m \<le> now + positive_or (oClockSkewAllowance opts) (120 * second) \<and> now < ExpiresAt m \<and>
    (\<forall>v. validate env = Some v \<longrightarrow> v m) \<and>
    (\<forall>d m'. Schedule d m' \<in> set (snd (router_step env (ev, now) r)) \<longrightarrow>
      m' = m\<lparr>mHop := mHop m + 1\<rparr> \<and> mHop m < (if oMaxHop opts = 0 then 6 else oMaxHop opts))"
proof -
  have ok: "router_ok r" unfolding assms(1) by (rule router.run_inv[OF NewRouter_ok])
  have lim: "maxHop r = (if oMaxHop opts = 0 then 6 else oMaxHop opts)" "maxPayloadBytes r = positive_or (oMaxPayloadBytes opts) 32768"
    "clockSkewAllowance r = positive_or (oClockSkewAllowance opts) (120 * second)"
    using router_run_limits[of env evs "NewRouter opts t0"] by (simp_all add: assms(1) limits_def NewRouter_def Let_def)
  obtain raw i h u draw r0 where f: "ev = Frame raw i h u draw" "core r0 = core r" "h \<longrightarrow> AllowFrom i now (rScorer r)"
    "router_step env (ev, now) r = handleChunk env u draw raw i h now r0" by (rule deliver_from_chunk[OF assms(2)])
  have r0: "router_ok r0" "maxHop r0 = maxHop r" "maxPayloadBytes r0 = maxPayloadBytes r" "clockSkewAllowance r0 = clockSkewAllowance r"
    using f(2) ok by (simp_all add: core_def router_ok_def)
  show ?thesis using handleChunk_delivers[OF assms(2)[unfolded f(4)] r0(1)] f r0 lim by auto
qed

lemma deliver_replay:
  assumes "Deliver m \<in> set (snd (router_step env (ev, now) r))" "router_ok r"
  shows "\<not> snd (SeenOrAdd (mID m) now (rReplay r)) \<and> rReplay (fst (router_step env (ev, now) r)) = fst (SeenOrAdd (mID m) now (rReplay r))"
proof -
  obtain raw i h u draw r0 where f: "ev = Frame raw i h u draw" "core r0 = core r" "h \<longrightarrow> AllowFrom i now (rScorer r)"
    "router_step env (ev, now) r = handleChunk env u draw raw i h now r0" by (rule deliver_from_chunk[OF assms(1)])
  have "router_ok r0" "rReplay r0 = rReplay r" using f(2) assms(2) by (simp_all add: core_def router_ok_def)
  with handleChunk_delivers[OF assms(1)[unfolded f(4)]] show ?thesis unfolding f(4) by metis
qed

lemma step_replay:
  obtains ops where "rReplay (fst (router_step env x r)) = fst (run replay_step ops (rReplay r))" "\<forall>y\<in>set ops. op_time y = snd x"
  using router_step_steady[of "snd x" r env "fst x"] by (auto simp: steady_def replay_moves_def)

lemma step_replay_ok: "protector_ok d n (rReplay r) \<Longrightarrow> 0 < snd x \<Longrightarrow> protector_ok d n (rReplay (fst (router_step env x r)))"
  by (rule step_replay[of env x r]) (simp add: run_ok)

lemma router_run_remembers:
  assumes "protector_ok d n (rReplay r)" "remembers (rReplay r) i t" "\<forall>x\<in>set evs. 0 < snd x \<and> snd x - t \<le> (int n - 1) * d"
  shows "remembers (rReplay (fst (run (router_step env) evs r))) i t"
  using assms
proof (induction evs arbitrary: r)
  case (Cons x evs)
  obtain ops where ops: "rReplay (fst (router_step env x r)) = fst (run replay_step ops (rReplay r))" "\<forall>y\<in>set ops. op_time y = snd x"
    by (rule step_replay)
  have "remembers (rReplay (fst (router_step env x r))) i t"
    unfolding ops(1) using Cons.prems ops(2) by (intro run_remembers) auto
  with Cons step_replay_ok show ?case by (simp add: Let_def)
qed simp

text \<open>
  C12. The router never delivers a message identifier twice within the replay window: between two deliveries of the same identifier, at times
  that do not decrease, more than the window less one bucket has passed, whatever the router received and did in between.
\<close>

theorem no_duplicate_delivery:
  assumes dur: "oReplayBucketDuration opts \<le> 2 ^ 63 - 1" "oReplayWindowDuration opts \<le> 2 ^ 63 - 1"
    and times: "\<forall>x\<in>set (pre @ (ev, t) # mid @ [(ev', t')]). 0 < snd x" "sorted (map snd (pre @ (ev, t) # mid @ [(ev', t')]))"
    and first: "r = fst (run (router_step env) pre (NewRouter opts t0))" "Deliver m \<in> set (snd (router_step env (ev, t) r))"
    and again: "r' = fst (run (router_step env) mid (fst (router_step env (ev, t) r)))" "Deliver m' \<in> set (snd (router_step env (ev', t') r'))"
    and same: "mID m' = mID m"
  shows "let p = rReplay (NewRouter opts t0) in (int (length (buckets p)) - 1) * bucketDur p < t' - t"
proof -
  let ?p = "rReplay (NewRouter opts t0)"
  let ?d = "bucketDur ?p" and ?n = "length (buckets ?p)"
  have ok0: "protector_ok ?d ?n ?p" using New_protector_ok(1)[OF dur] by (simp add: NewRouter_def Let_def)
  have run_ok: "protector_ok ?d ?n (rReplay (fst (run (router_step env) evs q)))"
    if "protector_ok ?d ?n (rReplay q)" "\<forall>x\<in>set evs. 0 < snd x" for evs q
    using that by (induction evs arbitrary: q) (auto simp: Let_def intro: step_replay_ok)
  have rok: "protector_ok ?d ?n (rReplay r)" "router_ok r" using run_ok[OF ok0] times(1) router.run_inv[OF NewRouter_ok] by (auto simp: first(1))
  have t: "0 < t" "0 < t'" "\<forall>x\<in>set mid. 0 < snd x \<and> snd x \<le> t'" using times by (auto simp: sorted_append)
  have d1: "remembers (rReplay (fst (router_step env (ev, t) r))) (mID m) t"
    using deliver_replay[OF first(2) rok(2)] not_seen_remembers[OF rok(1) t(1)] by simp
  have ok1: "protector_ok ?d ?n (rReplay (fst (router_step env (ev, t) r)))" using step_replay_ok[OF rok(1), of "(ev, t)"] t(1) by simp
  have ok2: "protector_ok ?d ?n (rReplay r')" "router_ok r'"
    using run_ok[OF ok1] t(3) router.run_inv router.step_inv rok(2) by (auto simp: again(1))
  have "\<not> t' - t \<le> (int ?n - 1) * ?d"
  proof
    assume within: "t' - t \<le> (int ?n - 1) * ?d"
    then have "remembers (rReplay r') (mID m) t"
      unfolding again(1) using t(3) by (intro router_run_remembers[OF ok1 d1]) auto
    from remembers_rotate[OF ok2(1) t(2) this within] have "snd (SeenOrAdd (mID m) t' (rReplay r'))"
      using remembers_seen by (auto simp: SeenOrAdd_alt)
    then show False using deliver_replay[OF again(2) ok2(2)] same by simp
  qed
  then show ?thesis by (simp add: Let_def)
qed

section \<open>A concrete delivery\<close>

text \<open>A cache of one item, a window of two buckets of a second, and two messages that are told apart by their last byte.\<close>

definition sample_env :: router_env where
  "sample_env = \<lparr>blake = (\<lambda>b. last b # replicate 31 9), currentIdentity = (\<lambda>_. replicate 8 1), validate = None\<rparr>"

definition sample_options :: Options where
  "sample_options = \<lparr>oMaxFrameBytes = 0, oMaxHop = 0, oMinRebroadcastEvery = 0, oReassemblyStaleAfter = 0, oCacheMaxItems = 1,
     oClockSkewAllowance = 0, oMaxPayloadBytes = 0, oReplayBucketDuration = second, oReplayWindowDuration = 2 * second,
     oGuard = \<lparr>GlobalCapacity = 0, GlobalRate = 0, PerCapacity = 0, PerRate = 0\<rparr>, oRoutingBaseProb = 0, oRoutingMaxJitter = 0,
     oRoutingMinTTLRemain = 0, oInventoryEvery = 0, oInventoryMax = 0, oWantMax = 0, oCoverTrafficEvery = 0, oCoverTrafficSize = 0\<rparr>"

definition sample_message :: "byte \<Rightarrow> Message" where
  "sample_message b = \<lparr>mID = b # replicate 15 9, mSender = replicate 8 1, mTimestamp = time_Unix 5, mTTLSec = 60, mHop = 2, mPayload = [b]\<rparr>"

definition sample_frame :: "byte \<Rightarrow> event" where
  "sample_frame b = Frame ([0x53, 0x4C, 1, 1] @ [b] @ replicate 15 9 @ replicate 8 1 @ [5, 0, 0, 0, 60, 0, 2, 0, 0, 1, 0, b]) (replicate 8 4) True 1 (\<lambda>_. 0)"

definition sample_new :: Router where
  "sample_new = NewRouter sample_options (time_Unix 1)"

lemma sample_delivered: "Deliver (sample_message 7) \<in> set (snd (router_step sample_env (sample_frame 7, time_Unix 6) sample_new))"
  by code_simp

lemma sample_delivered_again:
  "Deliver (sample_message 7) \<in> set (snd (router_step sample_env (sample_frame 7, time_Unix 9)
     (fst (run (router_step sample_env) [(sample_frame 8, time_Unix 7)] (fst (router_step sample_env (sample_frame 7, time_Unix 6) sample_new))))))"
  by code_simp

theorem delivered_sound_witness:
  "mID (sample_message 7) = ComputeMessageID (blake sample_env) (mSender (sample_message 7)) (mTimestamp (sample_message 7))
     (mTTLSec (sample_message 7)) (mPayload (sample_message 7)) \<and> time_Unix 6 < ExpiresAt (sample_message 7) \<and>
   mHop (sample_message 7) \<le> (if oMaxHop sample_options = 0 then 6 else oMaxHop sample_options)"
proof -
  have "sample_new = fst (run (router_step sample_env) [] (NewRouter sample_options (time_Unix 1)))" by (simp add: sample_new_def)
  from delivered_sound[OF this sample_delivered] show ?thesis by blast
qed

theorem no_duplicate_delivery_witness:
  "let p = rReplay sample_new in (int (length (buckets p)) - 1) * bucketDur p < time_Unix 9 - time_Unix 6"
  unfolding sample_new_def
proof (rule no_duplicate_delivery[where pre = "[]" and mid = "[(sample_frame 8, time_Unix 7)]"])
  show "Deliver (sample_message 7) \<in> set (snd (router_step sample_env (sample_frame 7, time_Unix 6) sample_new))" by (rule sample_delivered)
  show "Deliver (sample_message 7) \<in> set (snd (router_step sample_env (sample_frame 7, time_Unix 9)
     (fst (run (router_step sample_env) [(sample_frame 8, time_Unix 7)] (fst (router_step sample_env (sample_frame 7, time_Unix 6) sample_new))))))"
    by (rule sample_delivered_again)
qed (simp_all add: sample_new_def sample_options_def second_def time_Unix_def unix_offset_def)

end
