(* ===== verification/Go_Json.thy ===== *)
theory Go_Json
  imports Go_Base64
begin

text \<open>
  What the program uses of \<^verbatim>\<open>encoding/json\<close> when it prints a value whose bytes are hashed: strings, integers and
  lists of strings. \<^verbatim>\<open>json.Marshal\<close> escapes the quotation mark, the backslash, control characters, the three characters
  that HTML treats specially and the two Unicode line separators; a byte that starts no valid UTF-8 sequence is printed
  as \<^verbatim>\<open>\ufffd\<close>. The forms of two valid UTF-8 strings differ when the strings do, whatever follows them.
\<close>

section \<open>UTF-8\<close>

text \<open>The length of the UTF-8 sequence at the start of a string, 0 when there is none (\<^verbatim>\<open>utf8.DecodeRuneInString\<close>).\<close>

definition cont :: "nat \<Rightarrow> nat \<Rightarrow> char list \<Rightarrow> bool" where
  "cont lo hi cs = (case cs of [] \<Rightarrow> False | c # _ \<Rightarrow> lo \<le> of_char c \<and> of_char c \<le> hi)"

fun rune_len :: "string \<Rightarrow> nat" where
  "rune_len [] = 0"
| "rune_len (c # s) =
     (let n = of_char c :: nat; tail2 = cont 0x80 0xBF (drop 1 s); tail3 = tail2 \<and> cont 0x80 0xBF (drop 2 s) in
      if n < 0x80 then 1
      else if 0xC2 \<le> n \<and> n \<le> 0xDF then if cont 0x80 0xBF s then 2 else 0
      else if n = 0xE0 then if cont 0xA0 0xBF s \<and> tail2 then 3 else 0
      else if n = 0xED then if cont 0x80 0x9F s \<and> tail2 then 3 else 0
      else if 0xE1 \<le> n \<and> n \<le> 0xEF then if cont 0x80 0xBF s \<and> tail2 then 3 else 0
      else if n = 0xF0 then if cont 0x90 0xBF s \<and> tail3 then 4 else 0
      else if 0xF1 \<le> n \<and> n \<le> 0xF3 then if cont 0x80 0xBF s \<and> tail3 then 4 else 0
      else if n = 0xF4 then if cont 0x80 0x8F s \<and> tail3 then 4 else 0
      else 0)"

fun utf8_valid :: "string \<Rightarrow> bool" where
  "utf8_valid [] = True"
| "utf8_valid (c # s) = (rune_len (c # s) \<noteq> 0 \<and> utf8_valid (drop (rune_len (c # s) - 1) s))"

section \<open>Strings\<close>

abbreviation quote :: char where "quote \<equiv> CHR 0x22"
abbreviation backslash :: char where "backslash \<equiv> CHR 0x5C"

definition hex_digit :: "nat \<Rightarrow> char" where
  "hex_digit d = ''0123456789abcdef'' ! d"

definition json_escape :: "char \<Rightarrow> string" where
  "json_escape c =
     (if c = quote \<or> c = backslash then [backslash, c]
      else if c = CHR 0x08 then backslash # ''b''
      else if c = CHR 0x0C then backslash # ''f''
      else if c = CHR 0x0A then backslash # ''n''
      else if c = CHR 0x0D then backslash # ''r''
      else if c = CHR 0x09 then backslash # ''t''
      else if of_char c < (0x20 :: nat) \<or> c \<in> set ''<>&''
        then backslash # ''u00'' @ [hex_digit (of_char c div 16), hex_digit (of_char c mod 16)]
      else [c])"

definition json_rune :: "string \<Rightarrow> string" where
  "json_rune t =
     (if length t = 1 then json_escape (hd t)
      else if t = [CHR 0xE2, CHR 0x80, CHR 0xA8] then backslash # ''u2028''
      else if t = [CHR 0xE2, CHR 0x80, CHR 0xA9] then backslash # ''u2029''
      else t)"

fun json_body :: "string \<Rightarrow> string" where
  "json_body [] = []"
| "json_body (c # s) =
     (let n = rune_len (c # s) in
      if n = 0 then (backslash # ''ufffd'') @ json_body s
      else json_rune (take n (c # s)) @ json_body (drop (n - 1) s))"

definition json_string :: "string \<Rightarrow> string" where
  "json_string s = quote # json_body s @ [quote]"

text \<open>A list of strings; \<open>None\<close> is the nil slice.\<close>

fun json_items :: "string list \<Rightarrow> string" where
  "json_items [] = '']''"
| "json_items [x] = json_string x @ '']''"
| "json_items (x # y # ys) = json_string x @ '','' @ json_items (y # ys)"

definition json_strings :: "string list option \<Rightarrow> string" where
  "json_strings v = (case v of None \<Rightarrow> ''null'' | Some xs \<Rightarrow> CHR ''['' # json_items xs)"

section \<open>Reading a string back\<close>

text \<open>
  A reader for the strings the printer writes: up to the closing quotation mark, escape sequences by a table. It shows
  that the printed form determines the string.
\<close>

definition escaped_chars :: string where
  "escaped_chars =
     [CHR 0x00, CHR 0x01, CHR 0x02, CHR 0x03, CHR 0x04, CHR 0x05, CHR 0x06, CHR 0x07, CHR 0x08, CHR 0x09,
      CHR 0x0A, CHR 0x0B, CHR 0x0C, CHR 0x0D, CHR 0x0E, CHR 0x0F, CHR 0x10, CHR 0x11, CHR 0x12, CHR 0x13,
      CHR 0x14, CHR 0x15, CHR 0x16, CHR 0x17, CHR 0x18, CHR 0x19, CHR 0x1A, CHR 0x1B, CHR 0x1C, CHR 0x1D,
      CHR 0x1E, CHR 0x1F, CHR 0x22, CHR 0x5C, CHR 0x3C, CHR 0x3E, CHR 0x26]"

definition escape_table :: "(string \<times> string) list" where
  "escape_table = map (\<lambda>c. ([c], json_escape c)) escaped_chars @
     map (\<lambda>c. let t = [CHR 0xE2, CHR 0x80, c] in (t, json_rune t)) [CHR 0xA8, CHR 0xA9]"

definition escape_at :: "string \<Rightarrow> (string \<times> string) option" where
  "escape_at s = find (\<lambda>(t, e). leads e s) escape_table"

lemma escape_table_eval:
  "list_all (\<lambda>(t, e). 2 \<le> length e \<and> hd e = backslash) escape_table"
  by (simp add: escape_table_def escaped_chars_def json_escape_def json_rune_def)

lemma escape_table_disjoint:
  "list_all (\<lambda>(t, e). list_all (\<lambda>(t', e'). t = t' \<or> take (length e) e' \<noteq> take (length e') e) escape_table) escape_table"
  by (simp add: escape_table_def escaped_chars_def json_escape_def json_rune_def hex_digit_def)

function unquote :: "string \<Rightarrow> (string \<times> string) option" where
  "unquote [] = None"
| "unquote (c # r) =
     (if c = quote then Some ([], r)
      else if c = backslash
        then case escape_at (c # r) of None \<Rightarrow> None
             | Some (t, e) \<Rightarrow> map_option (\<lambda>(s, rest). (t @ s, rest)) (unquote (drop (length e - 1) r))
      else map_option (\<lambda>(s, rest). (c # s, rest)) (unquote r))"
  by pat_completeness auto
termination by (relation "measure length") auto

lemma escape_table_at:
  assumes "(t, e) \<in> set escape_table"
  shows "escape_at (e @ r) = Some (t, e)"
proof -
  have same: "(t', e') = (t, e)" if "(t', e') \<in> set escape_table" "leads e' (e @ r)" for t' e'
  proof -
    have "take (length e) e' = take (length e') e"
      using arg_cong[OF that(2)[unfolded leads_def], of "take (length e)"]
      by (cases "length e' \<le> length e") (use that(2) in \<open>auto simp: leads_def\<close>)
    then have "t = t'" using escape_table_disjoint assms that(1) by (fastforce simp: list_all_iff)
    moreover have "\<And>t e. (t, e) \<in> set escape_table \<Longrightarrow> e = json_rune t"
      by (auto simp: escape_table_def json_rune_def)
    then have "e = json_rune t" "e' = json_rune t'" using assms that(1) by blast+
    ultimately show ?thesis by simp
  qed
  have "leads e (e @ r)" by (simp add: leads_def)
  then have "find (\<lambda>(t, e'). leads e' (e @ r)) escape_table \<noteq> None"
    using assms by (auto simp: find_None_iff)
  then obtain x where "escape_at (e @ r) = Some x" by (auto simp: escape_at_def)
  moreover have "x = (t, e)" using find_seq[OF calculation[unfolded escape_at_def]] same by (cases x) auto
  ultimately show ?thesis by simp
qed

lemma unquote_escape:
  assumes "(t, e) \<in> set escape_table" "unquote r = Some (s, rest)"
  shows "unquote (e @ r) = Some (t @ s, rest)"
proof -
  obtain e' where e: "e = backslash # e'"
    using escape_table_eval assms(1) by (cases e) (auto simp: list_all_iff)
  show ?thesis using escape_table_at[OF assms(1), of r] assms(2) by (simp add: e)
qed

lemma unquote_literal:
  assumes "\<forall>c \<in> set t. c \<noteq> quote \<and> c \<noteq> backslash" "unquote r = Some (s, rest)"
  shows "unquote (t @ r) = Some (t @ s, rest)"
  using assms by (induction t) auto

lemma rune_len_le: "rune_len s \<le> length s"
  by (cases s) (auto simp: Let_def cont_def neq_Nil_conv split: list.splits)

lemma rune_len_char_range:
  assumes "rune_len s = n" "c \<in> set (take n s)" "n \<noteq> 1"
  shows "0x80 \<le> (of_char c :: nat)"
proof -
  obtain d t where s: "s = d # t" using assms by (cases s) auto
  consider "n = 2" "cont 0x80 0xBF t" | "n = 3" "cont 0x80 0xBF t" "cont 0x80 0xBF (drop 1 t)"
    | "n = 4" "cont 0x80 0xBF t" "cont 0x80 0xBF (drop 1 t)" "cont 0x80 0xBF (drop 2 t)"
    using assms unfolding s by (auto simp: Let_def cont_def split: if_splits list.splits)
  moreover have "0x80 \<le> (of_char d :: nat)" using assms(1,3) unfolding s by (auto simp: Let_def split: if_splits)
  ultimately show ?thesis using assms(2) unfolding s
    by cases (auto simp: cont_def eval_nat_numeral take_Suc neq_Nil_conv split: list.splits)
qed

lemma json_escape_cases: "([c], json_escape c) \<in> set escape_table \<or> json_escape c = [c] \<and> c \<noteq> quote \<and> c \<noteq> backslash"
proof (cases "c \<in> set escaped_chars")
  case True
  then show ?thesis by (auto simp: escape_table_def)
next
  case False
  have "of_char c \<ge> (0x20 :: nat)"
  proof (rule ccontr)
    assume "\<not> ?thesis"
    then have "of_char c \<in> set [0..<32 :: nat]" by simp
    moreover have "list_all (\<lambda>n. char_of n \<in> set escaped_chars) [0..<32 :: nat]" by code_simp
    ultimately show False using False by (metis char_of_char list_all_iff)
  qed
  with False show ?thesis by (auto simp: escaped_chars_def json_escape_def)
qed

lemma unquote_rune:
  assumes "rune_len s = n" "n \<noteq> 0" "unquote r = Some (t, rest)"
  shows "unquote (json_rune (take n s) @ r) = Some (take n s @ t, rest)"
proof (cases "n = 1")
  case True
  then obtain c u where s: "s = c # u" using assms(1) by (cases s) auto
  have "json_rune [c] = json_escape c" by (simp add: json_rune_def)
  then show ?thesis unfolding s True using json_escape_cases[of c] unquote_escape[of "[c]" "json_escape c", OF _ assms(3)]
      unquote_literal[of "[c]", OF _ assms(3)] by auto
next
  case False
  let ?t = "take n s"
  have len: "length ?t \<noteq> 1" using assms(1) False rune_len_le[of s] by simp
  show ?thesis
  proof (cases "?t \<in> {[CHR 0xE2, CHR 0x80, CHR 0xA8], [CHR 0xE2, CHR 0x80, CHR 0xA9]}")
    case True
    then have "(?t, json_rune ?t) \<in> set escape_table" by (auto simp: escape_table_def Let_def)
    then show ?thesis by (rule unquote_escape[OF _ assms(3)])
  next
    case other: False
    then have "json_rune ?t = ?t" using len by (simp add: json_rune_def)
    moreover have "\<forall>c \<in> set ?t. c \<noteq> quote \<and> c \<noteq> backslash"
      using rune_len_char_range[OF assms(1) _ False] by fastforce
    ultimately show ?thesis using unquote_literal[OF _ assms(3)] by simp
  qed
qed

text \<open>A printed string is read back, whatever follows it.\<close>

lemma unquote_json_body: "utf8_valid s \<Longrightarrow> unquote (json_body s @ quote # rest) = Some (s, rest)"
proof (induction s rule: json_body.induct)
  case 1
  then show ?case by simp
next
  case (2 c s)
  let ?n = "rune_len (c # s)"
  have n: "?n \<noteq> 0" "utf8_valid (drop (?n - 1) s)" using "2.prems" by simp_all
  have "unquote (json_body (drop (?n - 1) s) @ quote # rest) = Some (drop (?n - 1) s, rest)"
    using "2.IH"(2)[OF refl n(1) n(2)] .
  from unquote_rune[OF refl n(1) this] show ?case
    using n(1) by (simp add: Let_def del: rune_len.simps) (metis Suc_pred append_take_drop_id drop_Suc_Cons neq0_conv)
qed

lemma json_string_prefix:
  assumes "utf8_valid s" "utf8_valid t" "json_string s @ r = json_string t @ r'"
  shows "s = t \<and> r = r'"
proof -
  have "unquote (json_body s @ quote # r) = unquote (json_body t @ quote # r')"
    using assms(3) by (simp add: json_string_def)
  then show ?thesis using assms(1,2) by (simp add: unquote_json_body)
qed

lemma json_string_inject: "json_string s = json_string t \<Longrightarrow> utf8_valid s \<Longrightarrow> utf8_valid t \<Longrightarrow> s = t"
  using json_string_prefix[of s t "[]" "[]"] by simp

lemma json_string_hd [simp]: "hd (json_string s @ r) = quote" "json_string s \<noteq> []"
  by (simp_all add: json_string_def)

lemma json_items_Cons: "json_items (x # xs) = json_string x @ (if xs = [] then '']'' else '','' @ json_items xs)"
  by (cases xs) auto

lemma json_items_prefix:
  assumes "\<forall>x \<in> set xs. utf8_valid x" "\<forall>y \<in> set ys. utf8_valid y" "json_items xs @ r = json_items ys @ r'"
  shows "xs = ys \<and> r = r'"
  using assms
proof (induction xs arbitrary: ys)
  case Nil
  then show ?case by (cases ys) (simp_all add: json_items_Cons json_string_def)
next
  case (Cons x xs)
  show ?case
  proof (cases ys)
    case Nil
    then show ?thesis using Cons.prems(3) by (simp add: json_items_Cons json_string_def)
  next
    case (Cons y ys')
    have "x = y \<and> (if xs = [] then '']'' else '','' @ json_items xs) @ r = (if ys' = [] then '']'' else '','' @ json_items ys') @ r'"
      by (rule json_string_prefix) (use Cons.prems Cons in \<open>simp_all add: json_items_Cons\<close>)
    then show ?thesis using Cons.IH[of ys'] Cons.prems(1,2) Cons by (auto split: if_splits)
  qed
qed

lemma json_strings_prefix:
  assumes "\<forall>xs. v = Some xs \<longrightarrow> (\<forall>x \<in> set xs. utf8_valid x)" "\<forall>ys. w = Some ys \<longrightarrow> (\<forall>y \<in> set ys. utf8_valid y)"
    "json_strings v @ r = json_strings w @ r'"
  shows "v = w \<and> r = r'"
  using assms by (cases v; cases w) (auto simp: json_strings_def dest: json_items_prefix)

text \<open>A printed integer ends where the next character is neither a digit nor a sign.\<close>

lemma Itoa_comma_prefix: "Itoa a @ CHR '','' # r = Itoa b @ CHR '','' # r' \<Longrightarrow> a = b \<and> r = r'"
proof -
  assume eq: "Itoa a @ CHR '','' # r = Itoa b @ CHR '','' # r'"
  have no: "CHR '','' \<notin> set (Itoa i)" for i
  proof -
    have "c \<in> set (dec_digits n) \<Longrightarrow> c \<noteq> CHR '',''" for c n
      using dec_digits_chars[of c n] by (auto simp: digit_char_def dest!: arg_cong[where f = "of_char :: char \<Rightarrow> nat"])
    then show ?thesis by (auto simp: Itoa_def)
  qed
  have "takeWhile (\<lambda>c. c \<noteq> CHR '','') (Itoa i @ CHR '','' # t) = Itoa i" for i t
    using no[of i] by (subst takeWhile_append2) auto
  then have "Itoa a = Itoa b" using eq by metis
  then show ?thesis using eq by simp
qed

lemma plain_valid: "plain s \<Longrightarrow> utf8_valid s"
proof (induction s)
  case (Cons c s)
  then show ?case by (simp add: plain_char_def Let_def)
qed simp

end
