(* ===== verification/Ledger_Event.thy ===== *)
theory Ledger_Event
  imports Go_Json Mesh_Prelude
begin

text \<open>
  The events of the ledger (\<^verbatim>\<open>pkg/ledger/types.go\<close>, \<^verbatim>\<open>canonical.go\<close>, \<^verbatim>\<open>policy.go\<close>, \<^verbatim>\<open>kinds.go\<close>): their canonical bytes,
  identifiers and signatures, the policy and the rules for the payload of every kind.

  SHA-256, Ed25519 and the JSON decoder of the payload types are the fields of \<open>ledger_env\<close>. An error is the sentinel of the
  source or its text; a number that the text reports is left out. \<open>Parents = None\<close> is the nil slice, which the canonical bytes
  tell from an empty one.
\<close>

section \<open>Constants and data\<close>

type_synonym u64 = "64 word"

definition SchemaV1 :: int where "SchemaV1 = 1"
definition MaxParents :: nat where "MaxParents = 32"
definition MaxKindLen :: nat where "MaxKindLen = 64"
definition MaxRefLen :: nat where "MaxRefLen = 8192"
definition InlinePayloadPrefix :: string where "InlinePayloadPrefix = ''inline:''"

definition KindLedgerEvent :: string where "KindLedgerEvent = ''ledger.event''"
definition KindChatMessage :: string where "KindChatMessage = ''chat.message''"
definition KindGroupCreate :: string where "KindGroupCreate = ''group.create''"
definition KindGroupJoin :: string where "KindGroupJoin = ''group.join''"
definition KindWitnessAttest :: string where "KindWitnessAttest = ''witness.attest''"
definition KindWitnessCheckpoint :: string where "KindWitnessCheckpoint = ''witness.checkpoint''"
definition KindIdentityIntroduce :: string where "KindIdentityIntroduce = ''identity.introduce''"
definition KindIdentityRotate :: string where "KindIdentityRotate = ''identity.rotate''"
definition KindIdentityRevoke :: string where "KindIdentityRevoke = ''identity.revoke''"
definition KindMisbehaviorEquivoc :: string where "KindMisbehaviorEquivoc = ''misbehavior.equivocation''"
definition KindMisbehaviorReplay :: string where "KindMisbehaviorReplay = ''misbehavior.replay''"
definition KindMisbehaviorSybil :: string where "KindMisbehaviorSybil = ''misbehavior.sybil''"
definition KindGroupMembership :: string where "KindGroupMembership = ''group.membership''"
definition KindAgentAction :: string where "KindAgentAction = ''agent.action''"
definition KindSyncSummary :: string where "KindSyncSummary = ''sync.summary''"

lemmas kind_defs = KindLedgerEvent_def KindChatMessage_def KindGroupCreate_def KindGroupJoin_def KindWitnessAttest_def
  KindWitnessCheckpoint_def KindIdentityIntroduce_def KindIdentityRotate_def KindIdentityRevoke_def KindMisbehaviorEquivoc_def
  KindMisbehaviorReplay_def KindMisbehaviorSybil_def KindGroupMembership_def KindAgentAction_def KindSyncSummary_def

definition MaxContextLen :: nat where "MaxContextLen = 96"
definition MaxInlinePayloadBytes :: nat where "MaxInlinePayloadBytes = 4096"
definition MaxCheckpointHeadsInline :: nat where "MaxCheckpointHeadsInline = 64"
definition MaxGroupIDLen :: nat where "MaxGroupIDLen = 96"
definition MaxAgentIDLen :: nat where "MaxAgentIDLen = 96"
definition MaxActionLen :: nat where "MaxActionLen = 96"
definition MaxSubjectLen :: nat where "MaxSubjectLen = 128"
definition MaxReasonLen :: nat where "MaxReasonLen = 256"

lemmas ledger_consts = SchemaV1_def MaxParents_def MaxKindLen_def MaxRefLen_def MaxContextLen_def MaxInlinePayloadBytes_def
  MaxCheckpointHeadsInline_def MaxGroupIDLen_def MaxAgentIDLen_def MaxActionLen_def MaxSubjectLen_def MaxReasonLen_def
  PublicKeySize_def PrivateKeySize_def SignatureSize_def

record EquivocationEvidence =
  OffenderAuthor :: string
  OffenderKeyB64 :: string
  evSeq :: u64
  EventA :: string
  EventB :: string

datatype ledger_error = ErrEventTimestampFuture | ErrEventTooOld | ErrUnknownEventKind | ErrDuplicateEvent
  | EquivocationError EquivocationEvidence | Err string

record Event =
  SchemaVersion :: int
  ID :: string
  CreatedAt :: int
  Author :: string
  AuthorKeyB64 :: string
  Seq :: u64
  Prev :: string
  Parents :: "string list option"
  Kind :: string
  PayloadHashB64 :: string
  PayloadRef :: string
  SigB64 :: string

abbreviation parents_of :: "Event \<Rightarrow> string list" where
  "parents_of e \<equiv> (case Parents e of None \<Rightarrow> [] | Some ps \<Rightarrow> ps)"

record AttestationPayload =
  atEventID :: string
  atContext :: string
  atLevel :: string

record CheckpointPayload =
  cpContext :: string
  cpWindowStart :: int
  cpWindowEnd :: int
  cpHeads :: "string list"
  cpHeadsHash :: string
  cpHeadsCount :: int

record IdentityIntroducePayload =
  inContext :: string
  inSubjectKeyB64 :: string
  inSubjectAuthor :: string
  inReason :: string

record IdentityRotatePayload =
  roPersonaID :: string
  roPrevKeyB64 :: string
  roNewKeyB64 :: string
  roEffectiveAt :: int

record IdentityRevokePayload =
  rvPersonaID :: string
  rvKeyB64 :: string
  rvReason :: string
  rvEffectiveAt :: int

record MisbehaviorEquivocationPayload =
  meOffenderAuthor :: string
  meOffenderKeyB64 :: string
  meSeq :: u64
  meEventA :: string
  meEventB :: string
  meContext :: string

record MisbehaviorReplayPayload =
  mrOffenderAuthor :: string
  mrOffenderKeyB64 :: string
  mrEventID :: string
  mrContext :: string

record MisbehaviorSybilPayload =
  msContext :: string
  msSuspectsKeyB64 :: "string list"
  msReason :: string

record GroupMembershipPayload =
  gmGroupID :: string
  gmAction :: string
  gmSubject :: string
  gmRole :: string
  gmGroupVer :: u64

record AgentActionPayload =
  aaAgentID :: string
  aaAction :: string
  aaScope :: string
  aaTarget :: string
  aaRef :: string

record SyncSummaryPayload =
  ssContext :: string
  ssHeadsHash :: string
  ssHeadCount :: int

text \<open>
  What the code takes from the standard library: SHA-256, Ed25519, and the JSON codec of the payload types. \<open>payload\<close> lists the
  payloads that the ledger itself encodes.
\<close>

datatype payload = Attestation AttestationPayload | Checkpoint CheckpointPayload
  | MisbehaviorEquivocation MisbehaviorEquivocationPayload | MisbehaviorReplay MisbehaviorReplayPayload
  | MisbehaviorSybil MisbehaviorSybilPayload | SyncSummary SyncSummaryPayload

record ledger_env =
  leSha :: "bytes \<Rightarrow> bytes"
  leVerify :: "bytes \<Rightarrow> bytes \<Rightarrow> bytes \<Rightarrow> bool"
  leSign :: "bytes \<Rightarrow> bytes \<Rightarrow> bytes"
  leMarshal :: "payload \<Rightarrow> bytes"
  leAttestation :: "bytes \<Rightarrow> AttestationPayload option"
  leCheckpoint :: "bytes \<Rightarrow> CheckpointPayload option"
  leIdentityIntroduce :: "bytes \<Rightarrow> IdentityIntroducePayload option"
  leIdentityRotate :: "bytes \<Rightarrow> IdentityRotatePayload option"
  leIdentityRevoke :: "bytes \<Rightarrow> IdentityRevokePayload option"
  leMisbehaviorEquivocation :: "bytes \<Rightarrow> MisbehaviorEquivocationPayload option"
  leMisbehaviorReplay :: "bytes \<Rightarrow> MisbehaviorReplayPayload option"
  leMisbehaviorSybil :: "bytes \<Rightarrow> MisbehaviorSybilPayload option"
  leGroupMembership :: "bytes \<Rightarrow> GroupMembershipPayload option"
  leAgentAction :: "bytes \<Rightarrow> AgentActionPayload option"
  leSyncSummary :: "bytes \<Rightarrow> SyncSummaryPayload option"

section \<open>Canonical bytes, identifier and signature\<close>

fun json_object :: "(string \<times> string) list \<Rightarrow> string" where
  "json_object [] = ''}''"
| "json_object [(k, v)] = json_string k @ '':'' @ v @ ''}''"
| "json_object ((k, v) # f # fs) = json_string k @ '':'' @ v @ '','' @ json_object (f # fs)"

definition MarshalCanonicalEventUnsigned :: "Event \<Rightarrow> string" where
  "MarshalCanonicalEventUnsigned e = CHR ''{'' # json_object
     [(''v'', Itoa (SchemaVersion e)),
      (''created_at'', Itoa (CreatedAt e)),
      (''author'', json_string (Author e)),
      (''author_key_b64url'', json_string (AuthorKeyB64 e)),
      (''seq'', Itoa (uint (Seq e))),
      (''prev'', json_string (Prev e)),
      (''parents'', json_strings (Parents e)),
      (''kind'', json_string (Kind e)),
      (''payload_hash_b64url'', json_string (PayloadHashB64 e)),
      (''payload_ref'', json_string (PayloadRef e))]"

definition unsignedHash :: "ledger_env \<Rightarrow> Event \<Rightarrow> bytes" where
  "unsignedHash env e = leSha env (str_bytes (MarshalCanonicalEventUnsigned e))"

definition AuthorPublicKey :: "Event \<Rightarrow> ledger_error + bytes" where
  "AuthorPublicKey e =
     (case DecodeString (AuthorKeyB64 e) of
        None \<Rightarrow> Inl (Err ''ledger: decode author_key_b64url'')
      | Some raw \<Rightarrow> if length raw \<noteq> PublicKeySize then Inl (Err ''ledger: invalid author key size'') else Inr raw)"

definition Verify :: "ledger_env \<Rightarrow> Event \<Rightarrow> ledger_error + unit" where
  "Verify env e =
     (let hash = unsignedHash env e in
      if ID e \<noteq> EncodeToString hash then Inl (Err ''ledger: id mismatch'')
      else rbind (AuthorPublicKey e) (\<lambda>pub.
        case DecodeString (SigB64 e) of
          None \<Rightarrow> Inl (Err ''ledger: decode sig_b64url'')
        | Some sig \<Rightarrow>
            if length sig \<noteq> SignatureSize then Inl (Err ''ledger: invalid signature size'')
            else if \<not> leVerify env pub hash sig then Inl (Err ''ledger: signature verification failed'')
            else Inr ()))"

definition Validate :: "ledger_env \<Rightarrow> Event \<Rightarrow> ledger_error + unit" where
  "Validate env e =
     (if SchemaVersion e \<noteq> SchemaV1 then Inl (Err ''ledger: unsupported schema version'')
      else if TrimSpace (ID e) = '''' then Inl (Err ''ledger: id required'')
      else if CreatedAt e \<le> 0 then Inl (Err ''ledger: created_at required'')
      else if TrimSpace (Author e) = '''' then Inl (Err ''ledger: author required'')
      else if TrimSpace (AuthorKeyB64 e) = '''' then Inl (Err ''ledger: author_key_b64url required'')
      else if Seq e = 0 then Inl (Err ''ledger: seq must be >= 1'')
      else if Seq e = 1 \<and> TrimSpace (Prev e) \<noteq> '''' then Inl (Err ''ledger: prev must be empty for seq=1'')
      else if Seq e > 1 \<and> TrimSpace (Prev e) = '''' then Inl (Err ''ledger: prev required for seq>1'')
      else if length (parents_of e) > MaxParents then Inl (Err ''ledger: too many parents'')
      else if TrimSpace (Kind e) = '''' then Inl (Err ''ledger: kind required'')
      else if length (Kind e) > MaxKindLen then Inl (Err ''ledger: kind too long'')
      else if length (PayloadRef e) > MaxRefLen then Inl (Err ''ledger: payload_ref too long'')
      else if TrimSpace (SigB64 e) = '''' then Inl (Err ''ledger: sig_b64url required'')
      else rbind (AuthorPublicKey e) (\<lambda>_.
        if DecodeString (SigB64 e) = None then Inl (Err ''ledger: decode sig_b64url'')
        else Verify env e))"

definition ValidateNoCrypto :: "Event \<Rightarrow> ledger_error + unit" where
  "ValidateNoCrypto e =
     (if SchemaVersion e \<noteq> SchemaV1 then Inl (Err ''ledger: unsupported schema version'')
      else if TrimSpace (ID e) = '''' then Inl (Err ''ledger: id required'')
      else if CreatedAt e \<le> 0 then Inl (Err ''ledger: created_at required'')
      else if TrimSpace (Author e) = '''' then Inl (Err ''ledger: author required'')
      else if TrimSpace (AuthorKeyB64 e) = '''' then Inl (Err ''ledger: author_key_b64url required'')
      else if Seq e = 0 then Inl (Err ''ledger: seq must be >= 1'')
      else if Seq e = 1 \<and> TrimSpace (Prev e) \<noteq> '''' then Inl (Err ''ledger: prev must be empty for seq=1'')
      else if Seq e > 1 \<and> TrimSpace (Prev e) = '''' then Inl (Err ''ledger: prev required for seq>1'')
      else if length (parents_of e) > MaxParents then Inl (Err ''ledger: too many parents'')
      else if TrimSpace (Kind e) = '''' then Inl (Err ''ledger: kind required'')
      else if length (Kind e) > MaxKindLen then Inl (Err ''ledger: kind too long'')
      else if length (PayloadRef e) > MaxRefLen then Inl (Err ''ledger: payload_ref too long'')
      else if TrimSpace (SigB64 e) = '''' then Inl (Err ''ledger: sig_b64url required'')
      else rbind (AuthorPublicKey e) (\<lambda>_.
        if DecodeString (SigB64 e) = None then Inl (Err ''ledger: decode sig_b64url'') else Inr ()))"

section \<open>Creating an event\<close>

text \<open>\<^verbatim>\<open>normalizeIDSet\<close>: trimmed, without empty entries and duplicates, sorted; nil when nothing is left.\<close>

definition normalizeIDSet :: "string list \<Rightarrow> string list option" where
  "normalizeIDSet ids =
     (let out = sort (remdups (filter (\<lambda>id. id \<noteq> '''') (map TrimSpace ids))) in if out = [] then None else Some out)"

text \<open>
  \<^verbatim>\<open>obfuscateTime\<close>: \<open>rn\<close> is what the random source yields, \<open>None\<close> an error. The width \<^verbatim>\<open>2*maxNs + 1\<close> is computed on
  \<^verbatim>\<open>uint64\<close>, the offset on \<^verbatim>\<open>int64\<close>.
\<close>

definition obfuscateTime :: "gotime \<Rightarrow> duration \<Rightarrow> duration \<Rightarrow> u64 option \<Rightarrow> gotime" where
  "obfuscateTime t jitterMax bucket rn =
     (let t1 = (if jitterMax > 0
                then case rn of None \<Rightarrow> t
                     | Some r \<Rightarrow> let width = word_of_int jitterMax * 2 + 1 :: u64
                                in t + wrap64 (sint (r mod width) - jitterMax)
                else t)
      in if bucket > 0 then t1 - t1 mod bucket else t1)"

record SignedEventInput =
  siAuthor :: string
  siAuthorPub :: bytes
  siAuthorPriv :: bytes
  siSeq :: u64
  siPrev :: string
  siParents :: "string list"
  siKind :: string
  siPayload :: bytes
  siPayloadRef :: string
  siCreatedAt :: gotime
  siJitterMax :: duration
  siBucket :: duration
  siRand :: "u64 option"

definition unsignedEvent :: "ledger_env \<Rightarrow> gotime \<Rightarrow> SignedEventInput \<Rightarrow> Event" where
  "unsignedEvent env now i =
     (let at0 = (if siCreatedAt i = 0 then now else siCreatedAt i);
          createdAt = (if siJitterMax i > 0 \<or> siBucket i > 0 then obfuscateTime at0 (siJitterMax i) (siBucket i) (siRand i) else at0)
      in \<lparr>SchemaVersion = SchemaV1, ID = '''', CreatedAt = Unix createdAt, Author = TrimSpace (siAuthor i),
          AuthorKeyB64 = EncodeToString (siAuthorPub i), Seq = siSeq i, Prev = TrimSpace (siPrev i),
          Parents = normalizeIDSet (siParents i), Kind = TrimSpace (siKind i),
          PayloadHashB64 = (if siPayload i = [] then '''' else EncodeToString (leSha env (siPayload i))),
          PayloadRef = TrimSpace (siPayloadRef i), SigB64 = ''''\<rparr>)"

definition NewSignedEvent :: "ledger_env \<Rightarrow> gotime \<Rightarrow> SignedEventInput \<Rightarrow> ledger_error + Event" where
  "NewSignedEvent env now i =
     (if TrimSpace (siAuthor i) = '''' then Inl (Err ''ledger: author required'')
      else if length (siAuthorPub i) \<noteq> PublicKeySize then Inl (Err ''ledger: invalid author public key size'')
      else if length (siAuthorPriv i) \<noteq> PrivateKeySize then Inl (Err ''ledger: invalid author private key size'')
      else if TrimSpace (siKind i) = '''' then Inl (Err ''ledger: kind required'')
      else if length (TrimSpace (siKind i)) > MaxKindLen then Inl (Err ''ledger: kind too long'')
      else if length (siParents i) > MaxParents then Inl (Err ''ledger: too many parents'')
      else if length (siPayloadRef i) > MaxRefLen then Inl (Err ''ledger: payload_ref too long'')
      else let ev = unsignedEvent env now i; hash = unsignedHash env ev;
               signed = ev\<lparr>ID := EncodeToString hash, SigB64 := EncodeToString (leSign env (siAuthorPriv i) hash)\<rparr>
           in rbind (Validate env signed) (\<lambda>_. Inr signed))"

section \<open>Inline payloads\<close>

definition InlinePayloadRef :: "ledger_env \<Rightarrow> bytes \<Rightarrow> ledger_error + string \<times> string" where
  "InlinePayloadRef env payload =
     (if payload = [] then Inl (Err ''ledger: payload required'')
      else if length payload > MaxInlinePayloadBytes then Inl (Err ''ledger: inline payload too large'')
      else Inr (EncodeToString (leSha env payload), InlinePayloadPrefix @ EncodeToString payload))"

text \<open>The result \<^verbatim>\<open>(raw, ok, err)\<close>: \<open>Inr None\<close> is a reference that is not inline.\<close>

definition DecodeInlinePayloadRef :: "string \<Rightarrow> nat \<Rightarrow> ledger_error + bytes option" where
  "DecodeInlinePayloadRef ref maxBytes =
     (let r = TrimSpace ref in
      if \<not> leads InlinePayloadPrefix r then Inr None
      else case DecodeString (drop (length InlinePayloadPrefix) r) of
             None \<Rightarrow> Inl (Err ''ledger: decode inline payload'')
           | Some raw \<Rightarrow> if maxBytes > 0 \<and> length raw > maxBytes then Inl (Err ''ledger: inline payload too large'')
                         else Inr (Some raw))"

definition VerifyPayloadHash :: "ledger_env \<Rightarrow> Event \<Rightarrow> bytes \<Rightarrow> ledger_error + unit" where
  "VerifyPayloadHash env ev payload =
     (if payload = [] then
        if TrimSpace (PayloadHashB64 ev) \<noteq> '''' then Inl (Err ''ledger: payload hash present but payload empty'') else Inr ()
      else if PayloadHashB64 ev \<noteq> EncodeToString (leSha env payload) then Inl (Err ''ledger: payload_hash mismatch'') else Inr ())"

text \<open>\<^verbatim>\<open>requireInlinePayload\<close> is generic in the payload type; \<open>unmarshal\<close> is its JSON decoder.\<close>

definition requireInlinePayload :: "ledger_env \<Rightarrow> (bytes \<Rightarrow> 'a option) \<Rightarrow> Event \<Rightarrow> ledger_error + 'a" where
  "requireInlinePayload env unmarshal ev =
     rbind (DecodeInlinePayloadRef (PayloadRef ev) MaxInlinePayloadBytes) (\<lambda>r.
       case r of
         None \<Rightarrow> Inl (Err ''ledger: inline payload required'')
       | Some raw \<Rightarrow> rbind (VerifyPayloadHash env ev raw) (\<lambda>_.
           case unmarshal raw of None \<Rightarrow> Inl (Err ''json'') | Some pl \<Rightarrow> Inr pl))"

section \<open>Policy\<close>

record TrustPolicy =
  Witnesses :: "string \<rightharpoonup> (string \<rightharpoonup> int)"
  Thresholds :: "string \<rightharpoonup> int"
  DefaultThreshold :: int

definition Weight :: "TrustPolicy \<Rightarrow> string \<Rightarrow> string \<Rightarrow> int" where
  "Weight t ctx authorKeyB64 =
     (case Witnesses t ctx of None \<Rightarrow> 0 | Some m \<Rightarrow> (case m authorKeyB64 of None \<Rightarrow> 0 | Some w \<Rightarrow> w))"

definition policyThreshold :: "TrustPolicy \<Rightarrow> string \<Rightarrow> int" where
  "policyThreshold t ctx =
     (case Thresholds t ctx of
        Some v \<Rightarrow> if v > 0 then v else if DefaultThreshold t > 0 then DefaultThreshold t else 0
      | None \<Rightarrow> if DefaultThreshold t > 0 then DefaultThreshold t else 0)"

record Policy =
  AllowUnknownKinds :: bool
  MaxClockSkew :: duration
  MaxEventAge :: duration
  RequireKnownPrev :: bool
  RetentionByKind :: "(string \<times> duration) list"
  Trust :: TrustPolicy

record Observer =
  obAuthor :: string
  obAuthorPub :: bytes
  obAuthorPriv :: bytes

definition observerValid :: "Observer \<Rightarrow> ledger_error + unit" where
  "observerValid ob =
     (if obAuthor ob = '''' then Inl (Err ''ledger: observer author required'')
      else if length (obAuthorPub ob) \<noteq> PublicKeySize then Inl (Err ''ledger: observer public key invalid'')
      else if length (obAuthorPriv ob) \<noteq> PrivateKeySize then Inl (Err ''ledger: observer keys required'')
      else Inr ())"

definition minute :: duration where "minute = 60 * second"
definition day :: duration where "day = 24 * 60 * minute"

definition DefaultPolicy :: Policy where
  "DefaultPolicy = \<lparr>AllowUnknownKinds = True, MaxClockSkew = 10 * minute, MaxEventAge = 0, RequireKnownPrev = False,
     RetentionByKind = [], Trust = \<lparr>Witnesses = Map.empty, Thresholds = Map.empty, DefaultThreshold = 0\<rparr>\<rparr>"

definition ProductionPolicy :: Policy where
  "ProductionPolicy = DefaultPolicy\<lparr>RequireKnownPrev := True,
     RetentionByKind := [(KindWitnessAttest, 30 * day), (KindWitnessCheckpoint, 90 * day),
       (KindMisbehaviorEquivoc, 180 * day), (KindMisbehaviorReplay, 30 * day), (KindSyncSummary, 7 * day)]\<rparr>"

text \<open>The policy argument may be nil.\<close>

definition policyOr :: "Policy option \<Rightarrow> Policy" where
  "policyOr pol = (case pol of None \<Rightarrow> DefaultPolicy | Some p \<Rightarrow> p)"

section \<open>Kinds\<close>

definition isKnownKind :: "string \<Rightarrow> bool" where
  "isKnownKind kind \<longleftrightarrow> kind \<in> set
     [KindLedgerEvent, KindChatMessage, KindGroupCreate, KindGroupJoin, KindWitnessAttest, KindWitnessCheckpoint,
      KindIdentityIntroduce, KindIdentityRotate, KindIdentityRevoke, KindMisbehaviorEquivoc, KindMisbehaviorReplay,
      KindMisbehaviorSybil, KindGroupMembership, KindAgentAction, KindSyncSummary]"

text \<open>\<^verbatim>\<open>strings.Join(xs, "\n")\<close>.\<close>

fun join_lines :: "string list \<Rightarrow> string" where
  "join_lines [] = []"
| "join_lines [x] = x"
| "join_lines (x # y # ys) = x @ CHR 0x0A # join_lines (y # ys)"

definition ComputeHeadsHash :: "ledger_env \<Rightarrow> string list \<Rightarrow> string \<times> int" where
  "ComputeHeadsHash env heads =
     (let cp = sort heads in (EncodeToString (leSha env (str_bytes (join_lines cp))), int (length cp)))"

definition ComputeHeadsDigest :: "ledger_env \<Rightarrow> string \<Rightarrow> int \<Rightarrow> string list \<Rightarrow> ledger_error + string \<times> int" where
  "ComputeHeadsDigest env existingHash existingCount heads =
     (if existingHash \<noteq> '''' then
        if DecodeString existingHash = None then Inl (Err ''ledger: decode heads_hash_b64url'')
        else if existingCount < 0 then Inl (Err ''ledger: heads_count invalid'')
        else Inr (existingHash, existingCount)
      else if heads = [] then Inl (Err ''ledger: heads required to compute digest'')
      else Inr (ComputeHeadsHash env heads))"

definition validateAttestation :: "AttestationPayload \<Rightarrow> ledger_error + unit" where
  "validateAttestation p =
     (if TrimSpace (atEventID p) = '''' then Inl (Err ''ledger: attest event_id required'')
      else if TrimSpace (atContext p) = '''' then Inl (Err ''ledger: attest ctx required'')
      else if length (TrimSpace (atContext p)) > MaxContextLen then Inl (Err ''ledger: attest ctx too long'')
      else Inr ())"

definition validateCheckpoint :: "ledger_env \<Rightarrow> CheckpointPayload \<Rightarrow> ledger_error + unit" where
  "validateCheckpoint env p =
     (let ctx = TrimSpace (cpContext p);
          normalized = (case normalizeIDSet (cpHeads p) of None \<Rightarrow> [] | Some hs \<Rightarrow> hs);
          heads = (if length normalized > MaxCheckpointHeadsInline then [] else normalized);
          (h, cnt) = ComputeHeadsHash env heads
      in if ctx = '''' then Inl (Err ''ledger: checkpoint ctx required'')
         else if length ctx > MaxContextLen then Inl (Err ''ledger: checkpoint ctx too long'')
         else if cpWindowStart p \<noteq> 0 \<and> cpWindowEnd p \<noteq> 0 \<and> cpWindowEnd p < cpWindowStart p
           then Inl (Err ''ledger: checkpoint invalid window'')
         else if heads \<noteq> [] \<and> cpHeadsHash p \<noteq> '''' \<and> cpHeadsHash p \<noteq> h
           then Inl (Err ''ledger: checkpoint heads_hash mismatch'')
         else if heads \<noteq> [] \<and> cpHeadsCount p \<noteq> 0 \<and> cpHeadsCount p \<noteq> cnt
           then Inl (Err ''ledger: checkpoint heads_count mismatch'')
         else if TrimSpace (cpHeadsHash p) = '''' then Inl (Err ''ledger: checkpoint heads_hash_b64url required'')
         else if cpHeadsCount p \<le> 0 then Inl (Err ''ledger: checkpoint heads_count required'')
         else Inr ())"

definition validateIdentityIntroduce :: "IdentityIntroducePayload \<Rightarrow> ledger_error + unit" where
  "validateIdentityIntroduce p =
     (if TrimSpace (inContext p) = '''' then Inl (Err ''ledger: identity.introduce ctx required'')
      else if length (TrimSpace (inContext p)) > MaxContextLen then Inl (Err ''ledger: identity.introduce ctx too long'')
      else if TrimSpace (inSubjectKeyB64 p) = '''' then Inl (Err ''ledger: identity.introduce subject_key_b64url required'')
      else if length (inReason p) > MaxReasonLen then Inl (Err ''ledger: identity.introduce reason too long'')
      else if length (inSubjectAuthor p) > MaxSubjectLen then Inl (Err ''ledger: identity.introduce subject_author too long'')
      else Inr ())"

definition validateIdentityRotate :: "IdentityRotatePayload \<Rightarrow> ledger_error + unit" where
  "validateIdentityRotate p =
     (if TrimSpace (roPersonaID p) = '''' then Inl (Err ''ledger: identity.rotate persona_id required'')
      else if TrimSpace (roPrevKeyB64 p) = '''' then Inl (Err ''ledger: identity.rotate prev_key_b64url required'')
      else if TrimSpace (roNewKeyB64 p) = '''' then Inl (Err ''ledger: identity.rotate new_key_b64url required'')
      else if roEffectiveAt p < 0 then Inl (Err ''ledger: identity.rotate effective_at invalid'')
      else Inr ())"

definition validateIdentityRevoke :: "IdentityRevokePayload \<Rightarrow> ledger_error + unit" where
  "validateIdentityRevoke p =
     (if TrimSpace (rvPersonaID p) = '''' then Inl (Err ''ledger: identity.revoke persona_id required'')
      else if TrimSpace (rvKeyB64 p) = '''' then Inl (Err ''ledger: identity.revoke key_b64url required'')
      else if length (rvReason p) > MaxReasonLen then Inl (Err ''ledger: identity.revoke reason too long'')
      else if rvEffectiveAt p < 0 then Inl (Err ''ledger: identity.revoke effective_at invalid'')
      else Inr ())"

definition validateMisbehaviorEquivocation :: "MisbehaviorEquivocationPayload \<Rightarrow> ledger_error + unit" where
  "validateMisbehaviorEquivocation p =
     (if TrimSpace (meOffenderAuthor p) = '''' then Inl (Err ''ledger: misbehavior offender_author required'')
      else if TrimSpace (meOffenderKeyB64 p) = '''' then Inl (Err ''ledger: misbehavior offender_key_b64url required'')
      else if meSeq p = 0 then Inl (Err ''ledger: misbehavior seq required'')
      else if TrimSpace (meEventA p) = '''' \<or> TrimSpace (meEventB p) = '''' then Inl (Err ''ledger: misbehavior event ids required'')
      else if meEventA p = meEventB p then Inl (Err ''ledger: misbehavior event ids must differ'')
      else if length (meContext p) > MaxContextLen then Inl (Err ''ledger: misbehavior ctx too long'')
      else Inr ())"

definition validateMisbehaviorReplay :: "MisbehaviorReplayPayload \<Rightarrow> ledger_error + unit" where
  "validateMisbehaviorReplay p =
     (if TrimSpace (mrOffenderAuthor p) = '''' then Inl (Err ''ledger: misbehavior offender_author required'')
      else if TrimSpace (mrOffenderKeyB64 p) = '''' then Inl (Err ''ledger: misbehavior offender_key_b64url required'')
      else if TrimSpace (mrEventID p) = '''' then Inl (Err ''ledger: misbehavior event_id required'')
      else if length (mrContext p) > MaxContextLen then Inl (Err ''ledger: misbehavior ctx too long'')
      else Inr ())"

definition validateMisbehaviorSybil :: "MisbehaviorSybilPayload \<Rightarrow> ledger_error + unit" where
  "validateMisbehaviorSybil p =
     (let sus = (case normalizeIDSet (msSuspectsKeyB64 p) of None \<Rightarrow> [] | Some xs \<Rightarrow> xs) in
      if length (msContext p) > MaxContextLen then Inl (Err ''ledger: misbehavior.sybil ctx too long'')
      else if sus = [] then Inl (Err ''ledger: misbehavior.sybil suspects required'')
      else if length sus > 64 then Inl (Err ''ledger: misbehavior.sybil too many suspects'')
      else if length (msReason p) > MaxReasonLen then Inl (Err ''ledger: misbehavior.sybil reason too long'')
      else Inr ())"

definition validateGroupMembership :: "GroupMembershipPayload \<Rightarrow> ledger_error + unit" where
  "validateGroupMembership p =
     (if TrimSpace (gmGroupID p) = '''' then Inl (Err ''ledger: group_id required'')
      else if length (gmGroupID p) > MaxGroupIDLen then Inl (Err ''ledger: group_id too long'')
      else if TrimSpace (gmAction p) = '''' then Inl (Err ''ledger: action required'')
      else if length (TrimSpace (gmAction p)) > MaxActionLen then Inl (Err ''ledger: action too long'')
      else if TrimSpace (gmSubject p) = '''' then Inl (Err ''ledger: subject required'')
      else if length (TrimSpace (gmSubject p)) > MaxSubjectLen then Inl (Err ''ledger: subject too long'')
      else Inr ())"

definition validateAgentAction :: "AgentActionPayload \<Rightarrow> ledger_error + unit" where
  "validateAgentAction p =
     (if TrimSpace (aaAgentID p) = '''' then Inl (Err ''ledger: agent_id required'')
      else if length (aaAgentID p) > MaxAgentIDLen then Inl (Err ''ledger: agent_id too long'')
      else if TrimSpace (aaAction p) = '''' then Inl (Err ''ledger: action required'')
      else if length (TrimSpace (aaAction p)) > MaxActionLen then Inl (Err ''ledger: action too long'')
      else Inr ())"

definition validateSyncSummary :: "SyncSummaryPayload \<Rightarrow> ledger_error + unit" where
  "validateSyncSummary p =
     (if TrimSpace (ssContext p) = '''' then Inl (Err ''ledger: sync.summary ctx required'')
      else if length (TrimSpace (ssContext p)) > MaxContextLen then Inl (Err ''ledger: sync.summary ctx too long'')
      else if TrimSpace (ssHeadsHash p) = '''' then Inl (Err ''ledger: sync.summary heads_hash_b64url required'')
      else if ssHeadCount p \<le> 0 then Inl (Err ''ledger: sync.summary head_count required'')
      else Inr ())"

definition validateKindPayload :: "ledger_env \<Rightarrow> Policy \<Rightarrow> Event \<Rightarrow> ledger_error + unit" where
  "validateKindPayload env p ev =
     (if Kind ev = KindWitnessAttest then rbind (requireInlinePayload env (leAttestation env) ev) (\<lambda>pl.
        if Weight (Trust p) (atContext pl) (AuthorKeyB64 ev) \<le> 0 then Inl (Err ''ledger: witness.attest author not in witness set'')
        else validateAttestation pl)
      else if Kind ev = KindWitnessCheckpoint then rbind (requireInlinePayload env (leCheckpoint env) ev) (\<lambda>pl.
        if Weight (Trust p) (cpContext pl) (AuthorKeyB64 ev) \<le> 0 then Inl (Err ''ledger: witness.checkpoint author not in witness set'')
        else validateCheckpoint env pl)
      else if Kind ev = KindIdentityIntroduce then rbind (requireInlinePayload env (leIdentityIntroduce env) ev) (\<lambda>pl.
        if Weight (Trust p) (inContext pl) (AuthorKeyB64 ev) \<le> 0 then Inl (Err ''ledger: identity.introduce author not trusted'')
        else validateIdentityIntroduce pl)
      else if Kind ev = KindIdentityRotate then rbind (requireInlinePayload env (leIdentityRotate env) ev) validateIdentityRotate
      else if Kind ev = KindIdentityRevoke then rbind (requireInlinePayload env (leIdentityRevoke env) ev) validateIdentityRevoke
      else if Kind ev = KindMisbehaviorEquivoc
        then rbind (requireInlinePayload env (leMisbehaviorEquivocation env) ev) validateMisbehaviorEquivocation
      else if Kind ev = KindMisbehaviorReplay
        then rbind (requireInlinePayload env (leMisbehaviorReplay env) ev) validateMisbehaviorReplay
      else if Kind ev = KindMisbehaviorSybil then rbind (requireInlinePayload env (leMisbehaviorSybil env) ev) validateMisbehaviorSybil
      else if Kind ev = KindGroupMembership then rbind (requireInlinePayload env (leGroupMembership env) ev) validateGroupMembership
      else if Kind ev = KindAgentAction then rbind (requireInlinePayload env (leAgentAction env) ev) validateAgentAction
      else if Kind ev = KindSyncSummary then rbind (requireInlinePayload env (leSyncSummary env) ev) validateSyncSummary
      else Inr ())"

text \<open>\<open>now\<close> is what \<^verbatim>\<open>time.Now\<close> reads.\<close>

definition validateWithPolicy :: "ledger_env \<Rightarrow> gotime \<Rightarrow> Policy \<Rightarrow> Event \<Rightarrow> ledger_error + unit" where
  "validateWithPolicy env now p ev =
     rbind (Validate env ev) (\<lambda>_.
       if MaxClockSkew p > 0 \<and> CreatedAt ev > Unix (now + MaxClockSkew p) then Inl ErrEventTimestampFuture
       else if MaxEventAge p > 0 \<and> CreatedAt ev < Unix (now - MaxEventAge p) then Inl ErrEventTooOld
       else if \<not> AllowUnknownKinds p \<and> \<not> isKnownKind (Kind ev) then Inl ErrUnknownEventKind
       else validateKindPayload env p ev)"

definition validateWithPolicyNoCrypto :: "ledger_env \<Rightarrow> gotime \<Rightarrow> Policy \<Rightarrow> Event \<Rightarrow> ledger_error + bytes" where
  "validateWithPolicyNoCrypto env now p ev =
     rbind (ValidateNoCrypto ev) (\<lambda>_.
       if MaxClockSkew p > 0 \<and> CreatedAt ev > Unix (now + MaxClockSkew p) then Inl ErrEventTimestampFuture
       else if MaxEventAge p > 0 \<and> CreatedAt ev < Unix (now - MaxEventAge p) then Inl ErrEventTooOld
       else if \<not> AllowUnknownKinds p \<and> \<not> isKnownKind (Kind ev) then Inl ErrUnknownEventKind
       else rbind (validateKindPayload env p ev) (\<lambda>_. Inr (unsignedHash env ev)))"

section \<open>Validation\<close>

text \<open>The two validations agree: the full one is the one without cryptography followed by the check of identifier and signature.\<close>

lemma Validate_split: "Validate env e = rbind (ValidateNoCrypto e) (\<lambda>_. Verify env e)"
  by (cases "AuthorPublicKey e") (simp_all add: Validate_def ValidateNoCrypto_def)

lemma ValidateNoCrypto_Inr:
  "ValidateNoCrypto e = Inr () \<longleftrightarrow>
     SchemaVersion e = SchemaV1 \<and> TrimSpace (ID e) \<noteq> '''' \<and> CreatedAt e > 0 \<and> TrimSpace (Author e) \<noteq> '''' \<and>
     TrimSpace (AuthorKeyB64 e) \<noteq> '''' \<and> Seq e \<noteq> 0 \<and> (Seq e = 1 \<longrightarrow> TrimSpace (Prev e) = '''') \<and>
     (Seq e > 1 \<longrightarrow> TrimSpace (Prev e) \<noteq> '''') \<and> length (parents_of e) \<le> MaxParents \<and> TrimSpace (Kind e) \<noteq> '''' \<and>
     length (Kind e) \<le> MaxKindLen \<and> length (PayloadRef e) \<le> MaxRefLen \<and> TrimSpace (SigB64 e) \<noteq> '''' \<and>
     (\<exists>pub. AuthorPublicKey e = Inr pub) \<and> DecodeString (SigB64 e) \<noteq> None"
  by (cases "AuthorPublicKey e") (auto simp: ValidateNoCrypto_def not_le)

lemma AuthorPublicKey_Inr:
  "AuthorPublicKey e = Inr pub \<longleftrightarrow> DecodeString (AuthorKeyB64 e) = Some pub \<and> length pub = PublicKeySize"
  by (auto simp: AuthorPublicKey_def split: option.splits)

lemma Verify_Inr:
  "Verify env e = Inr () \<longleftrightarrow> ID e = EncodeToString (unsignedHash env e) \<and>
     (\<exists>pub sig. AuthorPublicKey e = Inr pub \<and> DecodeString (SigB64 e) = Some sig \<and> length sig = SignatureSize \<and>
        leVerify env pub (unsignedHash env e) sig)"
  by (auto simp: Verify_def Let_def split: option.splits)

text \<open>The hash does not read the identifier and the signature.\<close>

lemma unsignedHash_signed [simp]: "unsignedHash env (e\<lparr>ID := i, SigB64 := s\<rparr>) = unsignedHash env e"
  by (simp add: unsignedHash_def MarshalCanonicalEventUnsigned_def)

lemma validateWithPolicy_NoCrypto:
  assumes "Verify env ev = Inr ()"
  shows "validateWithPolicyNoCrypto env now p ev = rbind (validateWithPolicy env now p ev) (\<lambda>_. Inr (unsignedHash env ev))"
proof -
  have "Validate env ev = ValidateNoCrypto ev" using assms by (cases "ValidateNoCrypto ev") (simp_all add: Validate_split)
  then show ?thesis unfolding validateWithPolicyNoCrypto_def validateWithPolicy_def
    by (cases "ValidateNoCrypto ev") simp_all
qed

lemma validateWithPolicy_valid: "validateWithPolicy env now p ev = Inr u \<Longrightarrow> Validate env ev = Inr ()"
  by (auto simp: validateWithPolicy_def)

section \<open>Sets of identifiers\<close>

lemma normalizeIDSet_Some:
  assumes "normalizeIDSet ids = Some out"
  shows "sorted out \<and> distinct out \<and> set out = TrimSpace ` set ids - {''''} \<and> length out \<le> length ids"
proof -
  have out: "out = sort (remdups (filter (\<lambda>id. id \<noteq> '''') (map TrimSpace ids)))"
    using assms by (simp add: normalizeIDSet_def Let_def split: if_splits)
  have "length (remdups (filter (\<lambda>id. id \<noteq> '''') (map TrimSpace ids))) \<le> length ids"
    by (metis length_filter_le length_map length_remdups_leq order_trans)
  then show ?thesis unfolding out by auto
qed

lemma normalizeIDSet_None: "normalizeIDSet ids = None \<Longrightarrow> TrimSpace ` set ids \<subseteq> {''''}"
proof -
  assume "normalizeIDSet ids = None"
  then have "sort (remdups (filter (\<lambda>id. id \<noteq> '''') (map TrimSpace ids))) = []"
    by (simp add: normalizeIDSet_def Let_def split: if_splits)
  from arg_cong[OF this, of set] show ?thesis by auto
qed

lemma normalizeIDSet_length: "length (case normalizeIDSet ids of None \<Rightarrow> [] | Some out \<Rightarrow> out) \<le> length ids"
  using normalizeIDSet_Some by (auto split: option.splits)

text \<open>Normalising is idempotent: the parents of a signed event are their own normal form.\<close>

lemma normalizeIDSet_idem: "normalizeIDSet ids = Some out \<Longrightarrow> normalizeIDSet out = Some out"
proof -
  assume n: "normalizeIDSet ids = Some out"
  have "map TrimSpace out = out" "filter (\<lambda>id. id \<noteq> '''') out = out"
    using normalizeIDSet_Some[OF n] by (auto intro!: map_idI filter_True)
  moreover have "out \<noteq> []" using n by (auto simp: normalizeIDSet_def Let_def split: if_splits)
  ultimately show "normalizeIDSet out = Some out"
    using normalizeIDSet_Some[OF n] by (simp add: normalizeIDSet_def Let_def distinct_remdups_id sorted_sort_id)
qed

section \<open>Signed events\<close>

text \<open>
  An event that is created from a well formed input is signed and passes every later validation: for an author and a kind that are
  not blank, keys of the right size, at most 32 parents, sequence number 1 without and a larger one with a predecessor and a positive
  time, \<^verbatim>\<open>NewSignedEvent\<close> returns an event that \<^verbatim>\<open>Validate\<close> accepts, whose identifier is the hash of its canonical bytes and whose fields
  are the trimmed inputs. Ed25519 is assumed to verify its own signatures.
\<close>

theorem signed_event_valid:
  assumes input: "TrimSpace (siAuthor i) \<noteq> ''''" "TrimSpace (siKind i) \<noteq> ''''" "length (TrimSpace (siKind i)) \<le> MaxKindLen"
      "length (siAuthorPub i) = PublicKeySize" "length (siAuthorPriv i) = PrivateKeySize" "length (siParents i) \<le> MaxParents"
      "length (siPayloadRef i) \<le> MaxRefLen" "CreatedAt (unsignedEvent env now i) > 0"
      "siSeq i = 1 \<and> TrimSpace (siPrev i) = '''' \<or> siSeq i > 1 \<and> TrimSpace (siPrev i) \<noteq> ''''"
    and crypto: "\<And>m. length (leSign env (siAuthorPriv i) m) = SignatureSize"
      "\<And>m. leVerify env (siAuthorPub i) m (leSign env (siAuthorPriv i) m)" "\<And>m. leSha env m \<noteq> []"
  shows "\<exists>ev. NewSignedEvent env now i = Inr ev \<and> Validate env ev = Inr () \<and> ID ev = EncodeToString (unsignedHash env ev) \<and>
      Author ev = TrimSpace (siAuthor i) \<and> Seq ev = siSeq i \<and> Prev ev = TrimSpace (siPrev i) \<and>
      set (parents_of ev) = TrimSpace ` set (siParents i) - {''''} \<and> sorted (parents_of ev) \<and> distinct (parents_of ev) \<and>
      Kind ev = TrimSpace (siKind i) \<and> DecodeString (AuthorKeyB64 ev) = Some (siAuthorPub i)"
proof -
  let ?u = "unsignedEvent env now i"
  define ev where "ev = ?u\<lparr>ID := EncodeToString (unsignedHash env ?u), SigB64 := EncodeToString (leSign env (siAuthorPriv i) (unsignedHash env ?u))\<rparr>"
  have hash: "unsignedHash env ev = unsignedHash env ?u" by (simp add: ev_def)
  have fields: "SchemaVersion ev = SchemaV1" "Author ev = TrimSpace (siAuthor i)" "Seq ev = siSeq i" "Prev ev = TrimSpace (siPrev i)"
      "Parents ev = normalizeIDSet (siParents i)" "Kind ev = TrimSpace (siKind i)" "AuthorKeyB64 ev = EncodeToString (siAuthorPub i)"
      "CreatedAt ev > 0" "PayloadRef ev = TrimSpace (siPayloadRef i)" "ID ev = EncodeToString (unsignedHash env ev)"
      "SigB64 ev = EncodeToString (leSign env (siAuthorPriv i) (unsignedHash env ev))"
    unfolding hash using input(8) by (simp_all add: ev_def unsignedEvent_def Let_def)
  have key: "AuthorPublicKey ev = Inr (siAuthorPub i)" using input(4) by (simp add: AuthorPublicKey_Inr fields)
  have "length (parents_of ev) \<le> MaxParents" using normalizeIDSet_length[of "siParents i"] input(6) by (simp add: fields)
  moreover have "length (PayloadRef ev) \<le> MaxRefLen" using length_TrimSpace[of "siPayloadRef i"] input(7) by (simp add: fields)
  moreover have "siAuthorPub i \<noteq> []" "leSign env (siAuthorPriv i) (unsignedHash env ev) \<noteq> []" "unsignedHash env ev \<noteq> []"
    using input(4) crypto(1)[of "unsignedHash env ev"] crypto(3) by (auto simp: ledger_consts unsignedHash_def)
  ultimately have "ValidateNoCrypto ev = Inr ()"
    using input(1-3,9) fields(8) by (auto simp: ValidateNoCrypto_Inr key fields(1-7,9-11))
  moreover have "Verify env ev = Inr ()" using crypto by (simp add: Verify_Inr key fields)
  ultimately have valid: "Validate env ev = Inr ()" by (simp add: Validate_split)
  have "NewSignedEvent env now i = Inr ev"
    using input valid by (simp add: NewSignedEvent_def Let_def not_less flip: ev_def)
  moreover have "set (parents_of ev) = TrimSpace ` set (siParents i) - {''''} \<and> sorted (parents_of ev) \<and> distinct (parents_of ev)"
  proof (cases "normalizeIDSet (siParents i)")
    case None
    then show ?thesis using normalizeIDSet_None[OF None] by (auto simp: fields)
  next
    case (Some out)
    then show ?thesis using normalizeIDSet_Some[OF Some] by (simp add: fields)
  qed
  ultimately show ?thesis using valid by (simp add: fields(2-7)) (simp add: fields(10))
qed

lemma NewSignedEvent_Inr:
  assumes "NewSignedEvent env now i = Inr ev"
  shows "Validate env ev = Inr ()" "Kind ev = TrimSpace (siKind i)" "Author ev = TrimSpace (siAuthor i)"
    "AuthorKeyB64 ev = EncodeToString (siAuthorPub i)" "Seq ev = siSeq i" "Prev ev = TrimSpace (siPrev i)"
    "PayloadRef ev = TrimSpace (siPayloadRef i)" "Parents ev = normalizeIDSet (siParents i)"
    "PayloadHashB64 ev = (if siPayload i = [] then '''' else EncodeToString (leSha env (siPayload i)))"
  using assms by (auto simp: NewSignedEvent_def unsignedEvent_def Let_def split: if_splits)

section \<open>What an identifier binds\<close>

definition event_utf8 :: "Event \<Rightarrow> bool" where
  "event_utf8 e \<longleftrightarrow> utf8_valid (Author e) \<and> utf8_valid (AuthorKeyB64 e) \<and> utf8_valid (Prev e) \<and>
     (\<forall>ps. Parents e = Some ps \<longrightarrow> (\<forall>p \<in> set ps. utf8_valid p)) \<and> utf8_valid (Kind e) \<and>
     utf8_valid (PayloadHashB64 e) \<and> utf8_valid (PayloadRef e)"

lemma canonical_inject:
  assumes "event_utf8 a" "event_utf8 b" "MarshalCanonicalEventUnsigned a = MarshalCanonicalEventUnsigned b"
  shows "a\<lparr>ID := ID b, SigB64 := SigB64 b\<rparr> = b"
proof -
  note step = Itoa_comma_prefix json_string_prefix[rotated 2] json_strings_prefix[rotated 2]
  have "SchemaVersion a = SchemaVersion b \<and> CreatedAt a = CreatedAt b \<and> Author a = Author b \<and> AuthorKeyB64 a = AuthorKeyB64 b \<and>
      uint (Seq a) = uint (Seq b) \<and> Prev a = Prev b \<and> Parents a = Parents b \<and> Kind a = Kind b \<and>
      PayloadHashB64 a = PayloadHashB64 b \<and> PayloadRef a = PayloadRef b"
    using assms unfolding MarshalCanonicalEventUnsigned_def event_utf8_def
    by (auto dest!: step json_string_inject)
  then show ?thesis by (simp add: word_uint_eq_iff Event.equality)
qed

text \<open>
  C20. The identifier of an event binds its whole content: two events that pass \<^verbatim>\<open>Verify\<close> under the same identifier have the same
  schema version, time, author, key, sequence number, predecessor, parents, kind, payload hash and payload reference, as long
  as SHA-256 does not collide on their canonical bytes and their strings are valid UTF-8, as those that JSON decoding yields. They may
  differ in the signature.
\<close>

theorem event_id_binds:
  assumes "Verify env a = Inr ()" "Verify env b = Inr ()" "ID a = ID b" "event_utf8 a" "event_utf8 b"
    and no_collision: "unsignedHash env a = unsignedHash env b \<Longrightarrow> MarshalCanonicalEventUnsigned a = MarshalCanonicalEventUnsigned b"
  shows "a\<lparr>SigB64 := SigB64 b\<rparr> = b"
proof -
  have "unsignedHash env a = unsignedHash env b" using assms(1-3) by (simp add: Verify_Inr)
  from canonical_inject[OF assms(4,5) no_collision[OF this]] show ?thesis using assms(3) by (cases a; cases b) simp
qed

section \<open>Inline payloads\<close>

lemma InlinePrefix_trim: "TrimSpace (InlinePayloadPrefix @ EncodeToString payload) = InlinePayloadPrefix @ EncodeToString payload"
  by (rule TrimSpace_plain) (simp add: InlinePayloadPrefix_def plain_char_def)

text \<open>
  An inline payload survives the reference: what \<^verbatim>\<open>InlinePayloadRef\<close> makes of a payload, \<^verbatim>\<open>DecodeInlinePayloadRef\<close> decodes to the same
  bytes, the hash that comes with it verifies, and every other payload that verifies against that hash collides under SHA-256; the
  functions fail only on an empty payload and on one above 4096 bytes.
\<close>

theorem inline_payload_roundtrip:
  "case InlinePayloadRef env payload of
     Inl e \<Rightarrow> payload = [] \<or> length payload > MaxInlinePayloadBytes
   | Inr (hash, ref) \<Rightarrow>
       DecodeInlinePayloadRef ref MaxInlinePayloadBytes = Inr (Some payload) \<and>
       (\<forall>ev. PayloadHashB64 ev = hash \<longrightarrow> VerifyPayloadHash env ev payload = Inr () \<and>
          (\<forall>other. other \<noteq> [] \<longrightarrow> VerifyPayloadHash env ev other = Inr () \<longrightarrow> leSha env other = leSha env payload))"
  by (auto simp: InlinePayloadRef_def DecodeInlinePayloadRef_def VerifyPayloadHash_def InlinePrefix_trim Let_def leads_def)

lemma requireInlinePayload_made:
  assumes "InlinePayloadRef env raw = Inr (h, ref)" "PayloadRef ev = TrimSpace ref"
    "PayloadHashB64 ev = EncodeToString (leSha env raw)"
  shows "requireInlinePayload env dec ev = (case dec raw of None \<Rightarrow> Inl (Err ''json'') | Some pl \<Rightarrow> Inr pl)"
proof -
  have "ref = InlinePayloadPrefix @ EncodeToString raw" "raw \<noteq> []" "length raw \<le> MaxInlinePayloadBytes"
    using assms(1) by (auto simp: InlinePayloadRef_def split: if_splits)
  then show ?thesis using assms(2,3)
    by (simp add: requireInlinePayload_def DecodeInlinePayloadRef_def VerifyPayloadHash_def InlinePrefix_trim Let_def leads_def)
qed

section \<open>Obfuscated times\<close>

lemma sint_uint_cases: "sint (w :: u64) = uint w \<or> sint w = uint w - 2 ^ 64"
proof -
  have "sint w = signed_take_bit 63 (uint w)" by (simp add: sint_uint)
  also have "\<dots> = take_bit 64 (uint w) - (if bit (uint w) 63 then 2 ^ 64 else 0)"
    using signed_take_bit_eq_take_bit_minus[of 63 "uint w"] by simp
  also have "take_bit 64 (uint w) = uint w" using uint_lt2p[of w] by (simp add: take_bit_eq_mod)
  finally show ?thesis by simp
qed

lemma wrap64_shift: "wrap64 (x - 2 ^ 64) = wrap64 x"
proof -
  have "x - 2 ^ 64 + 2 ^ 63 = (x + 2 ^ 63) + (- 1) * 2 ^ 64" by simp
  then show ?thesis unfolding wrap64_def by (metis mod_mult_self1)
qed

lemma wrap64_centred: "0 \<le> m \<Longrightarrow> m \<le> 2 * j \<Longrightarrow> j < 2 ^ 63 \<Longrightarrow> \<bar>wrap64 (m - j)\<bar> \<le> j"
  by (subst wrap64_id) simp_all

lemma rounded_down:
  fixes t1 t jitter bucket :: int
  assumes "\<bar>t1 - t\<bar> \<le> jitter" "0 \<le> bucket"
  defines "u \<equiv> if bucket > 0 then t1 - t1 mod bucket else t1"
  shows "t - jitter - bucket \<le> u \<and> u \<le> t + jitter \<and> (bucket > 0 \<longrightarrow> bucket dvd u)"
proof (cases "bucket > 0")
  case True
  then have "0 \<le> t1 mod bucket" "t1 mod bucket < bucket" by (rule pos_mod_sign, rule pos_mod_bound)
  then have "t - jitter - bucket \<le> t1 - t1 mod bucket" "t1 - t1 mod bucket \<le> t + jitter" using assms(1) by linarith+
  then show ?thesis using True by (simp add: u_def dvd_minus_mod)
next
  case False
  then show ?thesis using assms by (auto simp: u_def)
qed

text \<open>
  The obfuscation of a creation time is bounded: for every jitter up to the largest duration and every value of the random source,
  the time is moved by at most the jitter and then rounded down to the bucket, without overflow of the unsigned width or the signed
  offset.
\<close>

theorem obfuscated_time_bounds:
  assumes "0 \<le> jitter" "jitter < 2 ^ 63" "0 \<le> bucket"
  shows "t - jitter - bucket \<le> obfuscateTime t jitter bucket rn \<and> obfuscateTime t jitter bucket rn \<le> t + jitter \<and>
    (bucket > 0 \<longrightarrow> bucket dvd obfuscateTime t jitter bucket rn)"
proof -
  define t1 where "t1 = obfuscateTime t jitter 0 rn"
  have off: "\<bar>wrap64 (sint (r mod (word_of_int jitter * 2 + 1 :: u64)) - jitter)\<bar> \<le> jitter" for r
  proof -
    let ?w = "word_of_int jitter * 2 + 1 :: u64"
    have "?w = word_of_int (2 * jitter + 1)" by simp
    then have w: "uint ?w = 2 * jitter + 1" using assms by (simp only: uint_word_of_int take_bit_eq_mod) simp
    have m: "uint (r mod ?w) = uint r mod (2 * jitter + 1)" by (simp add: uint_mod_distrib w)
    have range: "0 \<le> uint (r mod ?w)" "uint (r mod ?w) \<le> 2 * jitter" unfolding m using assms pos_mod_bound[of "2 * jitter + 1" "uint r"] by simp_all
    have "wrap64 (sint (r mod ?w) - jitter) = wrap64 (uint (r mod ?w) - jitter)"
    proof (cases "sint (r mod ?w) = uint (r mod ?w)")
      case False
      then have "sint (r mod ?w) - jitter = uint (r mod ?w) - jitter - 2 ^ 64" using sint_uint_cases[of "r mod ?w"] by linarith
      then show ?thesis by (simp only: wrap64_shift)
    qed (simp only:)
    then show ?thesis using wrap64_centred[OF range assms(2)] by (simp only:)
  qed
  have t1: "\<bar>t1 - t\<bar> \<le> jitter" using off assms(1) by (auto simp: t1_def obfuscateTime_def Let_def split: option.splits)
  have "obfuscateTime t jitter bucket rn = (if bucket > 0 then t1 - t1 mod bucket else t1)"
    by (simp add: t1_def obfuscateTime_def Let_def)
  then show ?thesis using rounded_down[OF t1 assms(3)] by simp
qed


section \<open>A concrete environment\<close>

text \<open>
  An environment in which the theorems are exercised: the hash of an event is the first digit of its time, every signature verifies, and
  attestations are encoded by a reversible code.
\<close>

fun sample_enc :: "string \<Rightarrow> bytes" where
  "sample_enc [] = [0]"
| "sample_enc (c # s) = 1 # word_of_nat (of_char c) # sample_enc s"

fun sample_dec :: "bytes \<Rightarrow> string \<times> bytes" where
  "sample_dec (m # b # r) = (if m = 0 then ([], b # r) else (let (s, t) = sample_dec r in (char_of (unat b) # s, t)))"
| "sample_dec _ = ([], [])"

lemma sample_dec_enc: "r \<noteq> [] \<Longrightarrow> sample_dec (sample_enc s @ r) = (s, r)"
  by (induction s) (auto simp: unat_word_of_nat_byte neq_Nil_conv)

definition sample_sha :: "bytes \<Rightarrow> bytes" where
  "sample_sha b = [if 20 < length b then b ! 20 else 0]"

fun sample_marshal :: "payload \<Rightarrow> bytes" where
  "sample_marshal (Attestation p) = sample_enc (atEventID p) @ sample_enc (atContext p) @ sample_enc (atLevel p) @ [0]"
| "sample_marshal _ = [0]"

definition sample_attestation :: "bytes \<Rightarrow> AttestationPayload option" where
  "sample_attestation b =
     (let (i, r) = sample_dec b; (c, s) = sample_dec r; (v, _) = sample_dec s in Some \<lparr>atEventID = i, atContext = c, atLevel = v\<rparr>)"

definition sample_env :: ledger_env where
  "sample_env = \<lparr>leSha = sample_sha, leVerify = (\<lambda>_ _ sig. length sig = 64), leSign = (\<lambda>_ _. replicate 64 7), leMarshal = sample_marshal,
     leAttestation = sample_attestation, leCheckpoint = (\<lambda>_. None), leIdentityIntroduce = (\<lambda>_. None), leIdentityRotate = (\<lambda>_. None),
     leIdentityRevoke = (\<lambda>_. None), leMisbehaviorEquivocation = (\<lambda>_. None), leMisbehaviorReplay = (\<lambda>_. None),
     leMisbehaviorSybil = (\<lambda>_. None), leGroupMembership = (\<lambda>_. None), leAgentAction = (\<lambda>_. None), leSyncSummary = (\<lambda>_. None)\<rparr>"

lemma sample_codec: "leAttestation sample_env (leMarshal sample_env (Attestation pl)) = Some pl"
proof -
  have "sample_enc s \<noteq> []" for s by (cases s) auto
  then show ?thesis by (simp add: sample_env_def sample_attestation_def sample_dec_enc)
qed

lemma sample_hash:
  assumes "SchemaVersion e = 1" "CreatedAt e = int n" "n < 10"
  shows "unsignedHash sample_env e = [word_of_nat (48 + n)]"
proof -
  have "Itoa (CreatedAt e) = [digit_char n]" using assms by (simp add: Itoa_def dec_digits.simps)
  moreover have "Itoa 1 = ''1''" by code_simp
  ultimately obtain r where "MarshalCanonicalEventUnsigned e = CHR ''{'' # quote # ''v'' @ quote # '':1,'' @ quote # ''created_at'' @ quote # '':'' @ digit_char n # r"
    using assms(1) by (simp add: MarshalCanonicalEventUnsigned_def json_string_def json_rune_def json_escape_def)
  then show ?thesis using assms(3)
    by (simp add: unsignedHash_def sample_env_def sample_sha_def str_bytes_def digit_char_def)
qed

definition sample_key :: bytes where "sample_key = replicate 32 0"

definition sample_event :: "string \<Rightarrow> nat \<Rightarrow> u64 \<Rightarrow> string \<Rightarrow> Event" where
  "sample_event author n seq prev = \<lparr>SchemaVersion = 1, ID = EncodeToString [word_of_nat (48 + n)], CreatedAt = int n, Author = author,
     AuthorKeyB64 = EncodeToString sample_key, Seq = seq, Prev = prev, Parents = None, Kind = KindGroupCreate, PayloadHashB64 = '''',
     PayloadRef = '''', SigB64 = EncodeToString (replicate 64 7)\<rparr>"

definition sample_ID :: "nat \<Rightarrow> string" where
  "sample_ID n = EncodeToString [word_of_nat (48 + n)]"

lemma sample_ID_eval [simp]: "sample_ID 5 = ''NQ''" "sample_ID 6 = ''Ng''" "sample_ID 7 = ''Nw''" "sample_ID 8 = ''OA''"
  by (simp_all add: sample_ID_def EncodeToString_def b64_char_def b64_alphabet_def)

lemma sample_validI:
  assumes "SchemaVersion e = 1" "CreatedAt e = int n" "0 < n" "n < 10" "ID e = sample_ID n" "AuthorKeyB64 e = EncodeToString sample_key"
    "SigB64 e = EncodeToString (replicate 64 7)" "plain (Author e)" "Author e \<noteq> []" "plain (Prev e)"
    "Seq e = 1 \<and> Prev e = [] \<or> Seq e > 1 \<and> Prev e \<noteq> []" "length (parents_of e) \<le> 32" "plain (Kind e)" "Kind e \<noteq> []"
    "length (Kind e) \<le> 64" "length (PayloadRef e) \<le> 8192"
  shows "Validate sample_env e = Inr ()"
proof -
  have k: "AuthorPublicKey e = Inr sample_key" using assms(6) by (simp add: AuthorPublicKey_Inr sample_key_def ledger_consts)
  have "ValidateNoCrypto e = Inr ()"
    using assms by (auto simp: ValidateNoCrypto_Inr k TrimSpace_plain ledger_consts sample_key_def sample_ID_def)
  moreover have "Verify sample_env e = Inr ()"
    using sample_hash[OF assms(1,2,4)] assms(5,7) by (simp add: Verify_Inr k sample_ID_def) (simp add: sample_env_def ledger_consts)
  ultimately show ?thesis by (simp add: Validate_split)
qed

lemma sample_valid:
  assumes "0 < n" "n < 10" "plain author" "author \<noteq> []" "plain prev" "seq = 1 \<and> prev = [] \<or> seq > 1 \<and> prev \<noteq> []"
  shows "Validate sample_env (sample_event author n seq prev) = Inr ()"
  by (rule sample_validI[of _ n]) (use assms in \<open>simp_all add: sample_event_def sample_ID_def kind_defs plain_char_def\<close>)

section \<open>Witnesses\<close>

definition sample_input :: SignedEventInput where
  "sample_input = \<lparr>siAuthor = ''a'', siAuthorPub = sample_key, siAuthorPriv = replicate 64 1, siSeq = 1, siPrev = '''', siParents = [''p'', ''p''],
     siKind = ''k'', siPayload = [], siPayloadRef = '''', siCreatedAt = time_Unix 5, siJitterMax = 0, siBucket = 0, siRand = None\<rparr>"

theorem signed_event_valid_witness:
  "\<exists>ev. NewSignedEvent sample_env 0 sample_input = Inr ev \<and> Validate sample_env ev = Inr () \<and> parents_of ev = [''p'']"
proof -
  have "time_Unix 5 \<noteq> 0" by (simp add: time_Unix_def second_def unix_offset_def)
  then have time: "CreatedAt (unsignedEvent sample_env 0 sample_input) = 5" by (simp add: unsignedEvent_def sample_input_def Let_def)
  have trim: "TrimSpace ''a'' = ''a''" "TrimSpace ''k'' = ''k''" "TrimSpace ''p'' = ''p''" by (simp_all add: TrimSpace_plain plain_char_def)
  have "\<exists>ev. NewSignedEvent sample_env 0 sample_input = Inr ev \<and> Validate sample_env ev = Inr () \<and>
      set (parents_of ev) = {''p''} \<and> sorted (parents_of ev) \<and> distinct (parents_of ev)"
    using signed_event_valid[of sample_input sample_env 0]
    by (simp add: time) (auto simp: sample_input_def sample_env_def sample_sha_def sample_key_def ledger_consts trim)
  then show ?thesis by (metis distinct_singleton insert_not_empty list.set(1) list.set(2) set_empty sorted_distinct_set_unique sorted_simps(1) sorted_wrt1 sorted1)
qed


theorem event_id_binds_witness:
  "(sample_event ''a'' 5 1 '''')\<lparr>SigB64 := SigB64 ((sample_event ''a'' 5 1 '''')\<lparr>SigB64 := EncodeToString (replicate 64 8)\<rparr>)\<rparr> =
     (sample_event ''a'' 5 1 '''')\<lparr>SigB64 := EncodeToString (replicate 64 8)\<rparr>"
proof (rule event_id_binds)
  let ?a = "sample_event ''a'' 5 1 ''''" and ?b = "(sample_event ''a'' 5 1 '''')\<lparr>SigB64 := EncodeToString (replicate 64 8)\<rparr>"
  have hash: "unsignedHash sample_env ?a = [word_of_nat (48 + 5)]" "unsignedHash sample_env ?b = [word_of_nat (48 + 5)]"
    by (rule sample_hash; simp add: sample_event_def)+
  have key: "AuthorPublicKey ?a = Inr sample_key" "AuthorPublicKey ?b = Inr sample_key"
    by (simp_all add: AuthorPublicKey_Inr sample_event_def sample_key_def ledger_consts)
  show "Verify sample_env ?a = Inr ()" "Verify sample_env ?b = Inr ()"
    by (simp_all add: Verify_Inr hash key) (simp_all add: sample_event_def sample_env_def ledger_consts)
  show "event_utf8 ?a" "event_utf8 ?b"
    by (simp_all add: event_utf8_def sample_event_def plain_valid plain_char_def kind_defs)
qed (simp_all add: MarshalCanonicalEventUnsigned_def)

theorem inline_payload_roundtrip_witness:
  "DecodeInlinePayloadRef (InlinePayloadPrefix @ EncodeToString [1]) MaxInlinePayloadBytes = Inr (Some [1])"
  using inline_payload_roundtrip[where env = sample_env and payload = "[1]"] by (simp add: InlinePayloadRef_def ledger_consts)

theorem obfuscated_time_bounds_witness:
  "obfuscateTime 100 (2 ^ 63 - 1) 10 (Some (- 1)) \<le> 100 + (2 ^ 63 - 1) \<and> 10 dvd obfuscateTime 100 (2 ^ 63 - 1) 10 (Some (- 1))"
  using obfuscated_time_bounds[of "2 ^ 63 - 1" 10 100 "Some (- 1)"] by simp

end
