(* ===== verification/Ledger_State.thy ===== *)
theory Ledger_State
  imports Ledger_Event "HOL-Library.Product_Lexorder"
begin

text \<open>
  The ledger (\<^verbatim>\<open>pkg/ledger/ledger.go\<close>, \<^verbatim>\<open>mvp_api.go\<close>): the events it holds with the indices the code keeps beside them,
  adding and applying an event, the evidence an observer records, the witnesses' confirmations, pruning and snapshots.

  A Go map is an association list with distinct keys and a set a list without repetitions. The nested maps \<^verbatim>\<open>authorSeq[a][s]\<close> and
  \<^verbatim>\<open>attestations[e][c][w]\<close> are maps and sets of tuples: an empty inner map cannot be told from an absent one. \<open>now\<close> is what
  \<^verbatim>\<open>time.Now\<close> reads during one call. Nil maps and a nil ledger do not occur: a ledger starts with \<^verbatim>\<open>New\<close>.
\<close>

section \<open>State\<close>

record SnapshotAnchor =
  saSchemaVersion :: int
  saCreatedAt :: int
  saPrunedCount :: int
  saFirstCreatedAt :: int
  saLastCreatedAt :: int
  saRootHashB64 :: string
  saPrevAnchorHashB :: string
  saAnchorHashB64 :: string

record Snapshot =
  snSchemaVersion :: int
  snUpdatedAt :: int
  snEvents :: "Event list"
  snHeads :: "string list"
  snAnchors :: "SnapshotAnchor list"

record Ledger =
  events :: "(string \<times> Event) list"
  heads :: "string list"
  authorSeq :: "((string \<times> u64) \<times> string) list"
  missingRefs :: "(string \<times> int) list"
  missingRefWeight :: "(string \<times> int) list"
  compromised :: "string list"
  attestations :: "(string \<times> string \<times> string) list"
  checkpoints :: "(string \<times> string \<times> string) list"
  introductions :: "(string \<times> string \<times> string) list"
  anchors :: "SnapshotAnchor list"

definition New :: Ledger where
  "New = \<lparr>events = [], heads = [], authorSeq = [], missingRefs = [], missingRefWeight = [], compromised = [],
     attestations = [], checkpoints = [], introductions = [], anchors = []\<rparr>"

definition affectsHeads :: "string \<Rightarrow> bool" where
  "affectsHeads kind \<longleftrightarrow> kind \<notin> set [KindWitnessAttest, KindWitnessCheckpoint, KindIdentityIntroduce, KindMisbehaviorEquivoc,
     KindMisbehaviorReplay, KindMisbehaviorSybil, KindSyncSummary]"

definition isCriticalKind :: "string \<Rightarrow> bool" where
  "isCriticalKind kind \<longleftrightarrow> kind \<in> set [KindIdentityIntroduce, KindIdentityRotate, KindIdentityRevoke, KindMisbehaviorEquivoc,
     KindMisbehaviorReplay, KindMisbehaviorSybil, KindWitnessAttest, KindWitnessCheckpoint, KindGroupCreate, KindGroupJoin,
     KindGroupMembership]"

definition syncPriorityWeight :: "string \<Rightarrow> int" where
  "syncPriorityWeight kind =
     (if kind \<in> set [KindIdentityIntroduce, KindIdentityRotate, KindIdentityRevoke, KindMisbehaviorEquivoc, KindMisbehaviorReplay,
        KindMisbehaviorSybil, KindWitnessAttest, KindWitnessCheckpoint, KindGroupMembership, KindAgentAction, KindSyncSummary,
        KindLedgerEvent] then 3
      else if kind \<in> set [KindChatMessage, KindGroupCreate, KindGroupJoin] then 2
      else 1)"

definition Have :: "Ledger \<Rightarrow> string \<Rightarrow> bool" where
  "Have l eid \<longleftrightarrow> map_of (events l) eid \<noteq> None"

definition Get :: "Ledger \<Rightarrow> string \<Rightarrow> Event option" where
  "Get l eid = map_of (events l) eid"

section \<open>Adding an event\<close>

text \<open>\<^verbatim>\<open>m[k] += n\<close> on a map of counters.\<close>

definition bump :: "string \<Rightarrow> int \<Rightarrow> (string \<times> int) list \<Rightarrow> (string \<times> int) list" where
  "bump k n m = AList.update k ((case map_of m k of None \<Rightarrow> 0 | Some c \<Rightarrow> c) + n) m"

definition addMissing :: "int \<Rightarrow> string \<Rightarrow> Ledger \<Rightarrow> Ledger" where
  "addMissing w eid l =
     (if Have l eid then l
      else l\<lparr>missingRefs := bump eid 1 (missingRefs l), missingRefWeight := bump eid w (missingRefWeight l)\<rparr>)"

definition trackMissingRefsLocked :: "ledger_env \<Rightarrow> Event \<Rightarrow> bool \<Rightarrow> Ledger \<Rightarrow> Ledger" where
  "trackMissingRefsLocked env ev requireKnownPrev l =
     (let w = syncPriorityWeight (Kind ev);
          l1 = (if Seq ev > 1 \<and> Prev ev \<noteq> '''' \<and> \<not> requireKnownPrev then addMissing w (Prev ev) l else l);
          l2 = fold (addMissing w) (parents_of ev) l1
      in if Kind ev = KindWitnessAttest
         then case requireInlinePayload env (leAttestation env) ev of
                Inl _ \<Rightarrow> l2
              | Inr pl \<Rightarrow> if TrimSpace (atEventID pl) = '''' then l2 else addMissing w (TrimSpace (atEventID pl)) l2
         else l2)"

definition indexLocked :: "ledger_env \<Rightarrow> Event \<Rightarrow> Ledger \<Rightarrow> Ledger" where
  "indexLocked env ev l =
     (if Kind ev = KindWitnessAttest
      then case requireInlinePayload env (leAttestation env) ev of
             Inl _ \<Rightarrow> l
           | Inr pl \<Rightarrow> l\<lparr>attestations := List.insert (atEventID pl, atContext pl, AuthorKeyB64 ev) (attestations l)\<rparr>
      else if Kind ev = KindWitnessCheckpoint
      then case requireInlinePayload env (leCheckpoint env) ev of
             Inl _ \<Rightarrow> l
           | Inr pl \<Rightarrow> if cpContext pl = '''' \<or> cpHeadsHash pl = '''' then l
                       else l\<lparr>checkpoints := List.insert (cpContext pl, cpHeadsHash pl, AuthorKeyB64 ev) (checkpoints l)\<rparr>
      else if Kind ev = KindIdentityIntroduce
      then case requireInlinePayload env (leIdentityIntroduce env) ev of
             Inl _ \<Rightarrow> l
           | Inr pl \<Rightarrow> let ctx = TrimSpace (inContext pl); subjectKey = TrimSpace (inSubjectKeyB64 pl) in
                       if ctx = '''' \<or> subjectKey = '''' then l
                       else l\<lparr>introductions := List.insert (ctx, subjectKey, AuthorKeyB64 ev) (introductions l)\<rparr>
      else l)"

text \<open>What an event refers to. The heads after an event that counts as a head: what it refers to is none any more.\<close>

definition refList :: "Event \<Rightarrow> string list" where
  "refList ev = (if Prev ev \<noteq> '''' then [Prev ev] else []) @ parents_of ev"

definition updateHeads :: "Event \<Rightarrow> Ledger \<Rightarrow> Ledger" where
  "updateHeads ev l =
     (if affectsHeads (Kind ev) then l\<lparr>heads := List.insert (ID ev) (filter (\<lambda>h. h \<notin> set (refList ev)) (heads l))\<rparr> else l)"

definition storeEvent :: "ledger_env \<Rightarrow> bool \<Rightarrow> Event \<Rightarrow> Ledger \<Rightarrow> Ledger" where
  "storeEvent env requireKnownPrev ev l =
     updateHeads ev (trackMissingRefsLocked env ev requireKnownPrev (indexLocked env ev
       (l\<lparr>events := AList.update (ID ev) ev (events l), authorSeq := AList.update (Author ev, Seq ev) (ID ev) (authorSeq l),
          missingRefs := AList.delete (ID ev) (missingRefs l)\<rparr>)))"

text \<open>A predecessor that is stored must be the author's event with the preceding number; the addition wraps around.\<close>

definition prevError :: "Event \<Rightarrow> Ledger \<Rightarrow> ledger_error option" where
  "prevError ev l =
     (case (if Seq ev > 1 then Get l (Prev ev) else None) of
        None \<Rightarrow> None
      | Some prev \<Rightarrow>
          if Author prev \<noteq> Author ev then Some (Err ''ledger: prev author mismatch'')
          else if Seq prev + 1 \<noteq> Seq ev then Some (Err ''ledger: prev seq mismatch'')
          else None)"

definition seqTaken :: "Event \<Rightarrow> Ledger \<Rightarrow> bool" where
  "seqTaken ev l \<longleftrightarrow> map_of (authorSeq l) (Author ev, Seq ev) \<notin> {None, Some (ID ev)}"

definition Add :: "ledger_env \<Rightarrow> Event \<Rightarrow> Ledger \<Rightarrow> ledger_error + Ledger" where
  "Add env ev l =
     rbind (Validate env ev) (\<lambda>_.
       if Have l (ID ev) then Inr l
       else if seqTaken ev l then Inl (Err ''ledger: author seq conflict'')
       else case prevError ev l of Some e \<Rightarrow> Inl e | None \<Rightarrow> Inr (storeEvent env False ev l))"

definition addLocked :: "ledger_env \<Rightarrow> bool \<Rightarrow> Event \<Rightarrow> Ledger \<Rightarrow> ledger_error + Ledger" where
  "addLocked env requireKnownPrev ev l =
     (if Have l (ID ev) then Inr l
      else if Seq ev > 1 \<and> requireKnownPrev \<and> \<not> Have l (Prev ev) then Inl (Err ''ledger: prev not found'')
      else if seqTaken ev l then Inl (Err ''ledger: author seq conflict'')
      else Inr (storeEvent env requireKnownPrev ev (l\<lparr>missingRefWeight := AList.delete (ID ev) (missingRefWeight l)\<rparr>)))"

section \<open>Events of the observer\<close>

text \<open>The highest sequence number of an author and its event; the current heads become the parents.\<close>

definition maxSeq :: "string \<Rightarrow> Ledger \<Rightarrow> u64 \<times> string" where
  "maxSeq author l =
     fold (\<lambda>((a, s), eid) (mx, mxID). if a = author \<and> s > mx then (s, eid) else (mx, mxID)) (authorSeq l) (0, '''')"

definition nextSeqLocked :: "string \<Rightarrow> Ledger \<Rightarrow> u64 \<times> string \<times> string list" where
  "nextSeqLocked author l =
     (let (mx, mxID) = maxSeq author l; parents = take MaxParents (sort (heads l))
      in if mx > 0 then (mx + 1, mxID, parents) else (1, '''', parents))"

definition signPayload :: "ledger_env \<Rightarrow> gotime \<Rightarrow> string \<Rightarrow> payload \<Rightarrow> Observer \<Rightarrow> u64 \<times> string \<times> string list \<Rightarrow> ledger_error + Event" where
  "signPayload env now kind pl ob position =
     (let raw = leMarshal env pl; (seq, prev, parents) = position in
      rbind (InlinePayloadRef env raw) (\<lambda>(_, ref).
        NewSignedEvent env now \<lparr>siAuthor = obAuthor ob, siAuthorPub = obAuthorPub ob, siAuthorPriv = obAuthorPriv ob, siSeq = seq,
          siPrev = prev, siParents = parents, siKind = kind, siPayload = raw, siPayloadRef = ref, siCreatedAt = now,
          siJitterMax = 0, siBucket = 0, siRand = None\<rparr>))"

definition buildEquivocationMisbehavior ::
    "ledger_env \<Rightarrow> gotime \<Rightarrow> EquivocationEvidence \<Rightarrow> Observer \<Rightarrow> u64 \<times> string \<times> string list \<Rightarrow> ledger_error + Event" where
  "buildEquivocationMisbehavior env now eq =
     signPayload env now KindMisbehaviorEquivoc (MisbehaviorEquivocation \<lparr>meOffenderAuthor = OffenderAuthor eq,
       meOffenderKeyB64 = OffenderKeyB64 eq, meSeq = evSeq eq, meEventA = EventA eq, meEventB = EventB eq, meContext = ''''\<rparr>)"

definition buildReplayMisbehavior ::
    "ledger_env \<Rightarrow> gotime \<Rightarrow> Event \<Rightarrow> string \<Rightarrow> Observer \<Rightarrow> u64 \<times> string \<times> string list \<Rightarrow> ledger_error + Event" where
  "buildReplayMisbehavior env now offender ctx =
     signPayload env now KindMisbehaviorReplay (MisbehaviorReplay \<lparr>mrOffenderAuthor = Author offender,
       mrOffenderKeyB64 = AuthorKeyB64 offender, mrEventID = ID offender, mrContext = TrimSpace ctx\<rparr>)"

definition buildSybilMisbehavior ::
    "ledger_env \<Rightarrow> gotime \<Rightarrow> string \<Rightarrow> string list \<Rightarrow> string \<Rightarrow> Observer \<Rightarrow> u64 \<times> string \<times> string list \<Rightarrow> ledger_error + Event" where
  "buildSybilMisbehavior env now ctx suspects reason =
     signPayload env now KindMisbehaviorSybil (MisbehaviorSybil \<lparr>msContext = TrimSpace ctx, msSuspectsKeyB64 = suspects,
       msReason = TrimSpace reason\<rparr>)"

definition buildWitnessAttestation ::
    "ledger_env \<Rightarrow> gotime \<Rightarrow> string \<Rightarrow> string \<Rightarrow> Observer \<Rightarrow> u64 \<times> string \<times> string list \<Rightarrow> ledger_error + Event" where
  "buildWitnessAttestation env now ctx eventID =
     signPayload env now KindWitnessAttest (Attestation \<lparr>atEventID = TrimSpace eventID, atContext = TrimSpace ctx, atLevel = ''''\<rparr>)"

definition buildWitnessCheckpoint ::
    "ledger_env \<Rightarrow> gotime \<Rightarrow> string \<Rightarrow> string \<Rightarrow> int \<Rightarrow> Observer \<Rightarrow> u64 \<times> string \<times> string list \<Rightarrow> ledger_error + Event" where
  "buildWitnessCheckpoint env now ctx headsHash headsCount =
     signPayload env now KindWitnessCheckpoint (Checkpoint \<lparr>cpContext = TrimSpace ctx, cpWindowStart = 0, cpWindowEnd = 0,
       cpHeads = [], cpHeadsHash = TrimSpace headsHash, cpHeadsCount = headsCount\<rparr>)"

definition buildSyncSummary ::
    "ledger_env \<Rightarrow> gotime \<Rightarrow> string \<Rightarrow> string \<Rightarrow> int \<Rightarrow> Observer \<Rightarrow> u64 \<times> string \<times> string list \<Rightarrow> ledger_error + Event" where
  "buildSyncSummary env now ctx headsHash headCount =
     signPayload env now KindSyncSummary (SyncSummary \<lparr>ssContext = TrimSpace ctx, ssHeadsHash = TrimSpace headsHash,
       ssHeadCount = headCount\<rparr>)"

text \<open>
  What the code does with an event it has built for the observer when nobody waits for the result: it is validated and added, and an
  error leaves the ledger as it is.
\<close>

definition recordEvent :: "ledger_env \<Rightarrow> gotime \<Rightarrow> Policy \<Rightarrow> ledger_error + Event \<Rightarrow> Ledger \<Rightarrow> Ledger" where
  "recordEvent env now p built l =
     (case built of
        Inl _ \<Rightarrow> l
      | Inr mev \<Rightarrow> if validateWithPolicy env now p mev = Inr ()
                    then (case addLocked env False mev l of Inl _ \<Rightarrow> l | Inr l' \<Rightarrow> l') else l)"

definition autoAttest :: "ledger_env \<Rightarrow> gotime \<Rightarrow> Policy \<Rightarrow> Observer \<Rightarrow> string \<Rightarrow> Event \<Rightarrow> Ledger \<Rightarrow> Ledger" where
  "autoAttest env now p ob ctx ev l =
     (if isCriticalKind (Kind ev) \<and> (ID ev, ctx, EncodeToString (obAuthorPub ob)) \<notin> set (attestations l)
      then recordEvent env now p (buildWitnessAttestation env now ctx (ID ev) ob (nextSeqLocked (obAuthor ob) l)) l
      else l)"

definition autoCheckpoint :: "ledger_env \<Rightarrow> gotime \<Rightarrow> Policy \<Rightarrow> Observer \<Rightarrow> string \<Rightarrow> Event \<Rightarrow> Ledger \<Rightarrow> Ledger" where
  "autoCheckpoint env now p ob ctx ev l =
     (if \<not> affectsHeads (Kind ev) \<or> \<not> isCriticalKind (Kind ev) \<or> heads l = [] then l
      else let (headsHash, headCount) = ComputeHeadsHash env (heads l) in
           if (ctx, headsHash, EncodeToString (obAuthorPub ob)) \<in> set (checkpoints l) then l
           else recordEvent env now p (buildWitnessCheckpoint env now ctx headsHash headCount ob (nextSeqLocked (obAuthor ob) l)) l)"

definition autoWitnessAfterApplyLocked ::
    "ledger_env \<Rightarrow> gotime \<Rightarrow> Policy \<Rightarrow> Observer option \<Rightarrow> string \<Rightarrow> Event \<Rightarrow> Ledger \<Rightarrow> Ledger" where
  "autoWitnessAfterApplyLocked env now p observer context ev l =
     (case observer of
        None \<Rightarrow> l
      | Some ob \<Rightarrow>
          let ctx = TrimSpace context; observerKey = EncodeToString (obAuthorPub ob) in
          if observerValid ob \<noteq> Inr () \<or> ctx = '''' \<or> Weight (Trust p) ctx observerKey \<le> 0 \<or> observerKey \<in> set (compromised l)
             \<or> Kind ev \<in> set [KindWitnessAttest, KindWitnessCheckpoint, KindSyncSummary]
          then l
          else autoCheckpoint env now p ob ctx ev (autoAttest env now p ob ctx ev l))"

section \<open>Applying an event\<close>

datatype Status = StatusEmpty | StatusAccepted | StatusConfirmed | StatusCheckpointed

definition evidence :: "Event \<Rightarrow> Event \<Rightarrow> EquivocationEvidence" where
  "evidence existing ev = \<lparr>OffenderAuthor = Author ev, OffenderKeyB64 = AuthorKeyB64 ev, evSeq = Seq ev,
     EventA = min (ID existing) (ID ev), EventB = max (ID existing) (ID ev)\<rparr>"

text \<open>
  A second event of an author under a sequence number that is taken: both keys are compromised and a valid observer records the
  evidence. \<^verbatim>\<open>l.events[existing]\<close> of an identifier that is not stored is the zero event.
\<close>

definition zeroEvent :: Event where
  "zeroEvent = \<lparr>SchemaVersion = 0, ID = '''', CreatedAt = 0, Author = '''', AuthorKeyB64 = '''', Seq = 0, Prev = '''', Parents = None,
     Kind = '''', PayloadHashB64 = '''', PayloadRef = '''', SigB64 = ''''\<rparr>"

definition equivocate ::
    "ledger_env \<Rightarrow> gotime \<Rightarrow> Policy \<Rightarrow> Observer option \<Rightarrow> string \<Rightarrow> Event \<Rightarrow> Ledger \<Rightarrow> Ledger \<times> (ledger_error + Status)" where
  "equivocate env now p observer existing ev l =
     (let existingEv = (case Get l existing of None \<Rightarrow> zeroEvent | Some e \<Rightarrow> e);
          l1 = l\<lparr>compromised := List.insert (AuthorKeyB64 ev) (List.insert (AuthorKeyB64 existingEv) (compromised l))\<rparr>;
          eq = evidence existingEv ev;
          l2 = (case observer of
                  None \<Rightarrow> l1
                | Some ob \<Rightarrow> if observerValid ob = Inr ()
                             then recordEvent env now p (buildEquivocationMisbehavior env now eq ob (nextSeqLocked (obAuthor ob) l1)) l1
                             else l1)
      in (l2, Inl (EquivocationError eq)))"

text \<open>
  The part of the two applications that follows the validation: the check of the predecessor, the addition and what the observer witnesses,
  and before it the tests for a known event and for a taken sequence number.
\<close>

definition checkedAdd ::
    "ledger_env \<Rightarrow> gotime \<Rightarrow> string \<Rightarrow> Policy \<Rightarrow> Observer option \<Rightarrow> Event \<Rightarrow> Ledger \<Rightarrow> Ledger \<times> (ledger_error + Status)" where
  "checkedAdd env now context p observer ev l =
     (if Seq ev > 1 \<and> RequireKnownPrev p \<and> \<not> Have l (Prev ev) then (l, Inl (Err ''ledger: prev not found''))
      else case prevError ev l of
        Some e \<Rightarrow> (l, Inl e)
      | None \<Rightarrow>
          (case addLocked env (RequireKnownPrev p) ev l of
             Inl e \<Rightarrow> (l, Inl e)
           | Inr l' \<Rightarrow> (autoWitnessAfterApplyLocked env now p observer context ev l', Inr StatusAccepted)))"

definition applyLocked ::
    "ledger_env \<Rightarrow> gotime \<Rightarrow> string \<Rightarrow> Policy \<Rightarrow> Observer option \<Rightarrow> Event \<Rightarrow> Ledger \<Rightarrow> Ledger \<times> (ledger_error + Status)" where
  "applyLocked env now context p observer ev l =
     (if Have l (ID ev) then (l, Inr StatusAccepted)
      else case map_of (authorSeq l) (Author ev, Seq ev) of
        Some existing \<Rightarrow>
          if existing \<noteq> ID ev then equivocate env now p observer existing ev l
          else checkedAdd env now context p observer ev l
      | None \<Rightarrow> checkedAdd env now context p observer ev l)"

text \<open>An event that the policy calls too old is recorded as a replay by an observer in a context.\<close>

definition recordReplay ::
    "ledger_env \<Rightarrow> gotime \<Rightarrow> string \<Rightarrow> Policy \<Rightarrow> Observer option \<Rightarrow> ledger_error \<Rightarrow> Event \<Rightarrow> Ledger \<Rightarrow> Ledger" where
  "recordReplay env now context p observer err ev l =
     (case observer of
        None \<Rightarrow> l
      | Some ob \<Rightarrow>
          if err = ErrEventTooOld \<and> TrimSpace context \<noteq> '''' \<and> observerValid ob = Inr ()
          then recordEvent env now p (buildReplayMisbehavior env now ev context ob (nextSeqLocked (obAuthor ob) l)) l
          else l)"

definition ApplyWithContext ::
    "ledger_env \<Rightarrow> gotime \<Rightarrow> string \<Rightarrow> Policy option \<Rightarrow> Observer option \<Rightarrow> Event \<Rightarrow> Ledger \<Rightarrow> Ledger \<times> (ledger_error + Status)" where
  "ApplyWithContext env now context pol observer ev l =
     (let p = policyOr pol in
      case validateWithPolicy env now p ev of
        Inl err \<Rightarrow> (recordReplay env now context p observer err ev l, Inl err)
      | Inr _ \<Rightarrow> applyLocked env now context p observer ev l)"

definition Apply where
  "Apply env now = ApplyWithContext env now ''''"

definition ApplyVerifiedWithContext ::
    "ledger_env \<Rightarrow> gotime \<Rightarrow> string \<Rightarrow> Policy option \<Rightarrow> Observer option \<Rightarrow> Event \<Rightarrow> Ledger \<Rightarrow> Ledger \<times> (ledger_error + Status)" where
  "ApplyVerifiedWithContext env now context pol observer ev l =
     (let p = policyOr pol in
      case validateWithPolicyNoCrypto env now p ev of
        Inl err \<Rightarrow> (recordReplay env now context p observer err ev l, Inl err)
      | Inr hash \<Rightarrow> if ID ev \<noteq> EncodeToString hash then (l, Inl (Err ''ledger: eid mismatch''))
                     else applyLocked env now context p observer ev l)"

definition ApplyVerified where
  "ApplyVerified env now = ApplyVerifiedWithContext env now ''''"

section \<open>Events on request\<close>

definition emit :: "ledger_env \<Rightarrow> gotime \<Rightarrow> Policy \<Rightarrow> ledger_error + Event \<Rightarrow> Ledger \<Rightarrow> Ledger \<times> (ledger_error + Event)" where
  "emit env now p built l =
     (case built of
        Inl e \<Rightarrow> (l, Inl e)
      | Inr ev \<Rightarrow> (case validateWithPolicy env now p ev of
                     Inl e \<Rightarrow> (l, Inl e)
                   | Inr _ \<Rightarrow> (case addLocked env False ev l of Inl e \<Rightarrow> (l, Inl e) | Inr l' \<Rightarrow> (l', Inr ev))))"

text \<open>The tests that the four requests share: an observer whose fields are valid.\<close>

definition withObserver ::
    "Observer option \<Rightarrow> (Observer \<Rightarrow> Ledger \<Rightarrow> Ledger \<times> (ledger_error + Event)) \<Rightarrow> Ledger \<Rightarrow> Ledger \<times> (ledger_error + Event)" where
  "withObserver observer f l =
     (case observer of
        None \<Rightarrow> (l, Inl (Err ''ledger: observer is nil''))
      | Some ob \<Rightarrow> (case observerValid ob of Inl e \<Rightarrow> (l, Inl e) | Inr _ \<Rightarrow> f ob l))"

definition EmitWitnessAttest ::
    "ledger_env \<Rightarrow> gotime \<Rightarrow> string \<Rightarrow> string \<Rightarrow> Policy option \<Rightarrow> Observer option \<Rightarrow> Ledger \<Rightarrow> Ledger \<times> (ledger_error + Event)" where
  "EmitWitnessAttest env now context eventID pol observer = withObserver observer (\<lambda>ob l.
     let ctx = TrimSpace context; eid = TrimSpace eventID; p = policyOr pol in
     if ctx = '''' then (l, Inl (Err ''ledger: context required''))
     else if eid = '''' then (l, Inl (Err ''ledger: event_id required''))
     else if Weight (Trust p) ctx (EncodeToString (obAuthorPub ob)) \<le> 0 then (l, Inl (Err ''ledger: observer is not a witness''))
     else if \<not> Have l eid then (l, Inl (Err ''ledger: attest event not found''))
     else emit env now p (buildWitnessAttestation env now ctx eid ob (nextSeqLocked (obAuthor ob) l)) l)"

definition EmitWitnessCheckpoint ::
    "ledger_env \<Rightarrow> gotime \<Rightarrow> string \<Rightarrow> Policy option \<Rightarrow> Observer option \<Rightarrow> Ledger \<Rightarrow> Ledger \<times> (ledger_error + Event)" where
  "EmitWitnessCheckpoint env now context pol observer = withObserver observer (\<lambda>ob l.
     let ctx = TrimSpace context; p = policyOr pol in
     if ctx = '''' then (l, Inl (Err ''ledger: context required''))
     else if Weight (Trust p) ctx (EncodeToString (obAuthorPub ob)) \<le> 0 then (l, Inl (Err ''ledger: observer is not a witness''))
     else if heads l = [] then (l, Inl (Err ''ledger: heads required''))
     else let (headsHash, headCount) = ComputeHeadsHash env (heads l) in
          emit env now p (buildWitnessCheckpoint env now ctx headsHash headCount ob (nextSeqLocked (obAuthor ob) l)) l)"

definition EmitSyncSummary ::
    "ledger_env \<Rightarrow> gotime \<Rightarrow> string \<Rightarrow> Policy option \<Rightarrow> Observer option \<Rightarrow> Ledger \<Rightarrow> Ledger \<times> (ledger_error + Event)" where
  "EmitSyncSummary env now context pol observer = withObserver observer (\<lambda>ob l.
     let ctx = TrimSpace context; p = policyOr pol in
     if ctx = '''' then (l, Inl (Err ''ledger: context required''))
     else if heads l = [] then (l, Inl (Err ''ledger: heads required''))
     else let (headsHash, headCount) = ComputeHeadsHash env (heads l) in
          emit env now p (buildSyncSummary env now ctx headsHash headCount ob (nextSeqLocked (obAuthor ob) l)) l)"

definition EmitSybilMisbehavior ::
    "ledger_env \<Rightarrow> gotime \<Rightarrow> string \<Rightarrow> string list \<Rightarrow> string \<Rightarrow> Policy option \<Rightarrow> Observer option \<Rightarrow> Ledger \<Rightarrow> Ledger \<times> (ledger_error + Event)" where
  "EmitSybilMisbehavior env now context suspects reason pol observer = withObserver observer (\<lambda>ob l.
     emit env now (policyOr pol) (buildSybilMisbehavior env now context suspects reason ob (nextSeqLocked (obAuthor ob) l)) l)"

section \<open>Confirmations\<close>

text \<open>
  The loop that \<^verbatim>\<open>Confirmed\<close>, \<^verbatim>\<open>Introduced\<close> and \<^verbatim>\<open>Checkpointed\<close> share: it adds the weights of the keys that are not compromised and stops at
  the threshold. \<open>keys\<close> is the set in the order in which the map is iterated.
\<close>

fun scoreKeys :: "TrustPolicy \<Rightarrow> string \<Rightarrow> string list \<Rightarrow> int \<Rightarrow> string list \<Rightarrow> int \<Rightarrow> int \<times> bool" where
  "scoreKeys t ctx bad thr [] score = (score, False)"
| "scoreKeys t ctx bad thr (key # keys) score =
     (if key \<in> set bad \<or> Weight t ctx key \<le> 0 then scoreKeys t ctx bad thr keys score
      else let score' = wrap64 (score + Weight t ctx key) in
           if score' \<ge> thr then (score', True) else scoreKeys t ctx bad thr keys score')"

definition Confirmed :: "(string list \<Rightarrow> string list) \<Rightarrow> string \<Rightarrow> string \<Rightarrow> Policy option \<Rightarrow> Ledger \<Rightarrow> int \<times> bool" where
  "Confirmed order eventID context pol l =
     (let p = policyOr pol; thr = policyThreshold (Trust p) context in
      if thr \<le> 0 \<or> \<not> Have l eventID then (0, False)
      else scoreKeys (Trust p) context (compromised l) thr
             (order [w. (e, c, w) \<leftarrow> attestations l, e = eventID \<and> c = context]) 0)"

definition EventStatus :: "(string list \<Rightarrow> string list) \<Rightarrow> string \<Rightarrow> string \<Rightarrow> Policy option \<Rightarrow> Ledger \<Rightarrow> Status" where
  "EventStatus order eventID context pol l =
     (let eid = TrimSpace eventID in
      if eid = '''' \<or> \<not> Have l eid then StatusEmpty
      else if snd (Confirmed order eid context pol l) then StatusConfirmed else StatusAccepted)"

definition Introduced :: "(string list \<Rightarrow> string list) \<Rightarrow> string \<Rightarrow> string \<Rightarrow> Policy option \<Rightarrow> Ledger \<Rightarrow> int \<times> bool" where
  "Introduced order subjectKeyB64 context pol l =
     (let p = policyOr pol; thr = policyThreshold (Trust p) context; key = TrimSpace subjectKeyB64 in
      if thr \<le> 0 \<or> key = '''' then (0, False)
      else scoreKeys (Trust p) context (compromised l) thr
             (order [w. (c, k, w) \<leftarrow> introductions l, c = context \<and> k = key]) 0)"

definition Checkpointed :: "(string list \<Rightarrow> string list) \<Rightarrow> string \<Rightarrow> string \<Rightarrow> Policy option \<Rightarrow> Ledger \<Rightarrow> int \<times> bool" where
  "Checkpointed order context headsHash pol l =
     (let p = policyOr pol; thr = policyThreshold (Trust p) context; h = TrimSpace headsHash in
      if thr \<le> 0 \<or> h = '''' then (0, False)
      else scoreKeys (Trust p) context (compromised l) thr
             (order [w. (c, k, w) \<leftarrow> checkpoints l, c = context \<and> k = h]) 0)"

section \<open>Pruning\<close>

definition recomputeHeadsLocked :: "Ledger \<Rightarrow> Ledger" where
  "recomputeHeadsLocked l =
     (let counting = filter (\<lambda>(eid, ev). affectsHeads (Kind ev)) (events l);
          removed = concat (map (refList \<circ> snd) counting)
      in l\<lparr>heads := filter (\<lambda>h. h \<notin> set removed) (map fst counting)\<rparr>)"

text \<open>
  \<^verbatim>\<open>rebuildLocked\<close> empties the indices and adds every event again; \<^verbatim>\<open>l.events\<close> is not emptied. The order of the map is \<open>order\<close>.
\<close>

definition rebuildLocked :: "ledger_env \<Rightarrow> (Event list \<Rightarrow> Event list) \<Rightarrow> Ledger \<Rightarrow> Ledger" where
  "rebuildLocked env order l =
     recomputeHeadsLocked
       (fold (\<lambda>ev l. case addLocked env False ev l of Inl _ \<Rightarrow> l | Inr l' \<Rightarrow> l') (order (map snd (events l)))
         (l\<lparr>authorSeq := [], heads := [], missingRefs := [], missingRefWeight := [], attestations := [], checkpoints := [],
            introductions := []\<rparr>))"

definition referenced :: "Ledger \<Rightarrow> string set" where
  "referenced l = set (concat (map (refList \<circ> snd) (events l)))"

definition prunable :: "gotime \<Rightarrow> Policy \<Rightarrow> Ledger \<Rightarrow> string \<times> Event \<Rightarrow> bool" where
  "prunable now p l = (\<lambda>(eid, ev).
     let ret = (case map_of (RetentionByKind p) (Kind ev) of None \<Rightarrow> 0 | Some d \<Rightarrow> d)
     in ret > 0 \<and> CreatedAt ev < Unix (now - ret) \<and> eid \<notin> set (heads l) \<and> eid \<notin> referenced l)"

definition Prune :: "ledger_env \<Rightarrow> (Event list \<Rightarrow> Event list) \<Rightarrow> gotime \<Rightarrow> Policy option \<Rightarrow> Ledger \<Rightarrow> Ledger \<times> nat" where
  "Prune env order now pol l =
     (let p = policyOr pol in
      if RetentionByKind p = [] then (l, 0)
      else let pruned = filter (prunable now p l) (events l);
               l1 = l\<lparr>events := filter (\<lambda>e. \<not> prunable now p l e) (events l)\<rparr>
           in if pruned = [] then (l1, 0) else (rebuildLocked env order l1, length pruned))"

record RetentionPolicy =
  MaxEvents :: int
  MaxAge :: duration
  CriticalOnly :: bool

definition sortEvents :: "Event list \<Rightarrow> Event list" where
  "sortEvents evs = sort_key (\<lambda>e. (CreatedAt e, ID e)) evs"

definition rootHashIDs :: "ledger_env \<Rightarrow> Event list \<Rightarrow> string" where
  "rootHashIDs env evs =
     (if evs = [] then ''''
      else EncodeToString (leSha env (str_bytes (concat (map (\<lambda>e. ID e @ [CHR 0x0A]) (sortEvents evs))))))"

definition anchorHash :: "ledger_env \<Rightarrow> string \<Rightarrow> string \<Rightarrow> int \<Rightarrow> int \<Rightarrow> int \<Rightarrow> int \<Rightarrow> string" where
  "anchorHash env prev rootHash prunedCount firstCreatedAt lastCreatedAt createdAt =
     EncodeToString (leSha env (str_bytes (prev @ [CHR 0x0A] @ rootHash @ [CHR 0x0A] @
       Itoa prunedCount @ ''|'' @ Itoa firstCreatedAt @ ''|'' @ Itoa lastCreatedAt @ ''|'' @ Itoa createdAt)))"

definition retained :: "RetentionPolicy \<Rightarrow> string list \<Rightarrow> string set \<Rightarrow> string \<Rightarrow> Event \<Rightarrow> bool" where
  "retained pol hs refs eid ev \<longleftrightarrow> eid \<in> set hs \<or> eid \<in> refs \<or> CriticalOnly pol \<and> isCriticalKind (Kind ev)"

text \<open>The eviction of the oldest events: \<open>all\<close> is sorted by age, \<open>excess\<close> the number of events above the limit.\<close>

fun evict :: "(string \<Rightarrow> Event \<Rightarrow> bool) \<Rightarrow> nat \<Rightarrow> (string \<times> Event) list \<Rightarrow> (string \<times> Event) list" where
  "evict keep excess [] = []"
| "evict keep excess ((eid, ev) # all) =
     (if excess = 0 then []
      else if keep eid ev then evict keep excess all
      else (eid, ev) # evict keep (excess - 1) all)"

definition newAnchor :: "ledger_env \<Rightarrow> gotime \<Rightarrow> SnapshotAnchor list \<Rightarrow> Event list \<Rightarrow> SnapshotAnchor" where
  "newAnchor env now chain pruned =
     (let times = map CreatedAt pruned; first = Min (set times); latest = Max (set times); rootHash = rootHashIDs env pruned;
          prev = (if chain = [] then [] else saAnchorHashB64 (last chain)); count = int (length pruned)
      in \<lparr>saSchemaVersion = SchemaV1, saCreatedAt = Unix now, saPrunedCount = count, saFirstCreatedAt = first, saLastCreatedAt = latest,
          saRootHashB64 = rootHash, saPrevAnchorHashB = prev, saAnchorHashB64 = anchorHash env prev rootHash count first latest (Unix now)\<rparr>)"

definition ApplyRetention ::
    "ledger_env \<Rightarrow> (Event list \<Rightarrow> Event list) \<Rightarrow> gotime \<Rightarrow> RetentionPolicy \<Rightarrow> Ledger \<Rightarrow> Ledger \<times> nat" where
  "ApplyRetention env order now pol l =
     (if MaxEvents pol \<le> 0 \<and> MaxAge pol \<le> 0 then (l, 0)
      else
        let keep = retained pol (heads l) (referenced l);
            old = (if MaxAge pol > 0
                   then filter (\<lambda>(eid, ev). CreatedAt ev < Unix (now - MaxAge pol) \<and> \<not> keep eid ev) (events l) else []);
            evs1 = filter (\<lambda>e. e \<notin> set old) (events l);
            surplus = (if MaxEvents pol > 0 \<and> int (length evs1) > MaxEvents pol
                       then evict keep (length evs1 - nat (MaxEvents pol)) (sort_key (\<lambda>(eid, ev). (CreatedAt ev, eid)) evs1) else []);
            evs2 = filter (\<lambda>e. e \<notin> set surplus) evs1;
            pruned = old @ surplus
        in if pruned = [] then (l, 0)
           else (rebuildLocked env order
                   (l\<lparr>events := evs2, anchors := anchors l @ [newAnchor env now (anchors l) (map snd pruned)]\<rparr>), length pruned))"

section \<open>Queries and snapshots\<close>

definition CompromisedKeys :: "Ledger \<Rightarrow> string list" where
  "CompromisedKeys l = sort (compromised l)"

definition Heads :: "Ledger \<Rightarrow> string list" where
  "Heads l = sort (heads l)"

definition AuthorMaxSeq :: "Ledger \<Rightarrow> string \<Rightarrow> u64" where
  "AuthorMaxSeq l author = (if TrimSpace author = '''' then 0 else fst (maxSeq (TrimSpace author) l))"

definition snapshotOf :: "gotime \<Rightarrow> Ledger \<Rightarrow> Snapshot" where
  "snapshotOf now l = \<lparr>snSchemaVersion = SchemaV1, snUpdatedAt = Unix now, snEvents = sortEvents (map snd (events l)),
     snHeads = sort (heads l), snAnchors = anchors l\<rparr>"

definition NewFromSnapshot :: "ledger_env \<Rightarrow> Snapshot \<Rightarrow> ledger_error + Ledger" where
  "NewFromSnapshot env s =
     (if snSchemaVersion s \<noteq> 0 \<and> snSchemaVersion s \<noteq> SchemaV1 then Inl (Err ''ledger: unsupported snapshot schema'')
      else rbind (rfold (Add env) (snEvents s) New) (\<lambda>l.
        let stored = remdups (filter (\<lambda>h. h \<noteq> '''' \<and> Have l h) (snHeads s));
            l1 = (if snHeads s = [] then l
                  else if stored = [] then recomputeHeadsLocked l else l\<lparr>heads := stored\<rparr>)
        in Inr (if snAnchors s = [] then l1 else l1\<lparr>anchors := snAnchors s\<rparr>)))"

definition AddEvent :: "ledger_env \<Rightarrow> Event \<Rightarrow> Ledger \<Rightarrow> ledger_error + Ledger" where
  "AddEvent env e l =
     (if Seq e > 1 \<and> TrimSpace (Prev e) = '''' then Inl (Err ''ledger: prev required for seq>1'')
      else if Seq e > 1 \<and> \<not> Have l (Prev e) then Inl (Err ''ledger: prev not found'')
      else if Have l (ID e) then Inl ErrDuplicateEvent
      else Add env e l)"

definition normalizeEventIDInput :: "bytes \<Rightarrow> string option" where
  "normalizeEventIDInput eid =
     (let asString = TrimSpace (bytes_string eid) in
      if eid = [] then None
      else if asString \<noteq> '''' \<and> map_option EncodeToString (DecodeString asString) = Some asString then Some asString
      else Some (EncodeToString eid))"

definition GetEvent :: "Ledger \<Rightarrow> bytes \<Rightarrow> Event option" where
  "GetEvent l eid = Option.bind (normalizeEventIDInput eid) (Get l)"

definition GetHeads :: "Ledger \<Rightarrow> bytes list" where
  "GetHeads l = map (\<lambda>h. case DecodeString h of None \<Rightarrow> str_bytes h | Some raw \<Rightarrow> raw) (Heads l)"

section \<open>Frame lemmas\<close>

lemma addMissing_frame [simp]:
  "events (addMissing w i l) = events l" "heads (addMissing w i l) = heads l" "authorSeq (addMissing w i l) = authorSeq l"
  "compromised (addMissing w i l) = compromised l" "attestations (addMissing w i l) = attestations l"
  "checkpoints (addMissing w i l) = checkpoints l" "introductions (addMissing w i l) = introductions l"
  "anchors (addMissing w i l) = anchors l"
  by (simp_all add: addMissing_def)

lemma fold_addMissing_frame:
  "(\<And>w i l. f (addMissing w i l) = f l) \<Longrightarrow> f (fold (addMissing w) ps l) = f l"
  by (induction ps arbitrary: l) auto

lemma track_frame:
  assumes "\<And>w i l. f (addMissing w i l) = f l"
  shows "f (trackMissingRefsLocked env ev r l) = f l"
  by (simp add: trackMissingRefsLocked_def Let_def assms fold_addMissing_frame[of f] split: sum.splits)

lemma track_frames [simp]:
  "events (trackMissingRefsLocked env ev r l) = events l" "heads (trackMissingRefsLocked env ev r l) = heads l"
  "authorSeq (trackMissingRefsLocked env ev r l) = authorSeq l" "compromised (trackMissingRefsLocked env ev r l) = compromised l"
  "attestations (trackMissingRefsLocked env ev r l) = attestations l" "checkpoints (trackMissingRefsLocked env ev r l) = checkpoints l"
  "introductions (trackMissingRefsLocked env ev r l) = introductions l" "anchors (trackMissingRefsLocked env ev r l) = anchors l"
  by (rule track_frame; simp)+

lemma index_frames [simp]:
  "events (indexLocked env ev l) = events l" "heads (indexLocked env ev l) = heads l"
  "authorSeq (indexLocked env ev l) = authorSeq l" "compromised (indexLocked env ev l) = compromised l"
  "missingRefs (indexLocked env ev l) = missingRefs l" "anchors (indexLocked env ev l) = anchors l"
  by (simp_all add: indexLocked_def Let_def split: sum.splits)

lemma updateHeads_frames [simp]:
  "events (updateHeads ev l) = events l" "authorSeq (updateHeads ev l) = authorSeq l" "compromised (updateHeads ev l) = compromised l"
  "attestations (updateHeads ev l) = attestations l" "checkpoints (updateHeads ev l) = checkpoints l"
  "introductions (updateHeads ev l) = introductions l" "missingRefs (updateHeads ev l) = missingRefs l" "anchors (updateHeads ev l) = anchors l"
  by (simp_all add: updateHeads_def)

lemma storeEvent_core:
  "events (storeEvent env r ev l) = AList.update (ID ev) ev (events l)"
  "authorSeq (storeEvent env r ev l) = AList.update (Author ev, Seq ev) (ID ev) (authorSeq l)"
  "compromised (storeEvent env r ev l) = compromised l" "anchors (storeEvent env r ev l) = anchors l"
  by (simp_all add: storeEvent_def)

lemma storeEvent_heads:
  "heads (storeEvent env r ev l) =
     (if affectsHeads (Kind ev) then List.insert (ID ev) (filter (\<lambda>h. h \<notin> set (refList ev)) (heads l)) else heads l)"
  by (simp add: storeEvent_def updateHeads_def)

section \<open>Invariant\<close>

text \<open>
  The two indices agree with the events: an event is stored under its own identifier, and \<^verbatim>\<open>authorSeq\<close> names, for an author and a number,
  the one stored event of that author with that number. A head is a stored event whose kind counts.
\<close>

definition ledger_core :: "Ledger \<Rightarrow> bool" where
  "ledger_core l \<longleftrightarrow> distinct (map fst (events l)) \<and> distinct (map fst (authorSeq l)) \<and>
     (\<forall>i e. map_of (events l) i = Some e \<longrightarrow> ID e = i \<and> map_of (authorSeq l) (Author e, Seq e) = Some i) \<and>
     (\<forall>a s i. map_of (authorSeq l) (a, s) = Some i \<longrightarrow> (\<exists>e. map_of (events l) i = Some e \<and> Author e = a \<and> Seq e = s))"

definition heads_ok :: "Ledger \<Rightarrow> bool" where
  "heads_ok l \<longleftrightarrow> distinct (heads l) \<and> (\<forall>h \<in> set (heads l). \<exists>e. map_of (events l) h = Some e \<and> affectsHeads (Kind e))"

text \<open>Every entry of the three witness indices comes from a stored event of the witness.\<close>

definition attested :: "ledger_env \<Rightarrow> Event \<Rightarrow> string \<Rightarrow> string \<Rightarrow> bool" where
  "attested env e i c \<longleftrightarrow> Kind e = KindWitnessAttest \<and>
     (\<exists>pl. requireInlinePayload env (leAttestation env) e = Inr pl \<and> atEventID pl = i \<and> atContext pl = c)"

definition checkpointed :: "ledger_env \<Rightarrow> Event \<Rightarrow> string \<Rightarrow> string \<Rightarrow> bool" where
  "checkpointed env e c h \<longleftrightarrow> Kind e = KindWitnessCheckpoint \<and>
     (\<exists>pl. requireInlinePayload env (leCheckpoint env) e = Inr pl \<and> cpContext pl = c \<and> cpHeadsHash pl = h)"

definition introduced :: "ledger_env \<Rightarrow> Event \<Rightarrow> string \<Rightarrow> string \<Rightarrow> bool" where
  "introduced env e c k \<longleftrightarrow> Kind e = KindIdentityIntroduce \<and>
     (\<exists>pl. requireInlinePayload env (leIdentityIntroduce env) e = Inr pl \<and> TrimSpace (inContext pl) = c \<and> TrimSpace (inSubjectKeyB64 pl) = k)"

definition traced :: "(Event \<Rightarrow> string \<Rightarrow> string \<Rightarrow> bool) \<Rightarrow> Event set \<Rightarrow> (string \<times> string \<times> string) list \<Rightarrow> bool" where
  "traced Q evs xs \<longleftrightarrow> distinct xs \<and> (\<forall>a b w. (a, b, w) \<in> set xs \<longrightarrow> (\<exists>e \<in> evs. Q e a b \<and> AuthorKeyB64 e = w))"

definition index_ok :: "ledger_env \<Rightarrow> Ledger \<Rightarrow> bool" where
  "index_ok env l \<longleftrightarrow> traced (attested env) (snd ` set (events l)) (attestations l) \<and>
     traced (checkpointed env) (snd ` set (events l)) (checkpoints l) \<and>
     traced (introduced env) (snd ` set (events l)) (introductions l)"

lemma traced_mono: "traced Q evs xs \<Longrightarrow> evs \<subseteq> evs' \<Longrightarrow> traced Q evs' xs"
  unfolding traced_def by (meson subsetD)

lemma traced_insert: "traced Q evs xs \<Longrightarrow> e \<in> evs \<Longrightarrow> Q e a b \<Longrightarrow> traced Q evs (List.insert (a, b, AuthorKeyB64 e) xs)"
  by (auto simp: traced_def)

lemma traced_Nil: "traced Q evs []"
  by (simp add: traced_def)

text \<open>Every stored event is well formed and its identifier is the hash of its canonical bytes.\<close>

definition identified :: "ledger_env \<Rightarrow> Event \<Rightarrow> bool" where
  "identified env e \<longleftrightarrow> ValidateNoCrypto e = Inr () \<and> ID e = EncodeToString (unsignedHash env e)"

definition ledger_ok :: "ledger_env \<Rightarrow> Ledger \<Rightarrow> bool" where
  "ledger_ok env l \<longleftrightarrow> ledger_core l \<and> heads_ok l \<and> index_ok env l \<and> (\<forall>e \<in> snd ` set (events l). identified env e)"

lemma New_ok: "ledger_ok env New"
  by (simp add: ledger_ok_def ledger_core_def heads_ok_def index_ok_def New_def traced_Nil)

lemma Validate_identified: "Validate env e = Inr () \<Longrightarrow> identified env e"
  by (simp add: Validate_split identified_def Verify_Inr)

lemma Have_simps: "Have l i \<longleftrightarrow> (\<exists>e. map_of (events l) i = Some e)" "Get l i = map_of (events l) i"
  by (auto simp: Have_def Get_def)

lemma events_append: "\<not> Have l (ID ev) \<Longrightarrow> AList.update (ID ev) ev (events l) = events l @ [(ID ev, ev)]"
  by (simp add: Have_def update_absent)

lemma storeEvent_core_ok:
  assumes "ledger_core l" "\<not> Have l (ID ev)" "\<not> seqTaken ev l"
  shows "ledger_core (storeEvent env r ev l)"
proof -
  have free: "map_of (authorSeq l) (Author ev, Seq ev) = None"
  proof (rule ccontr)
    assume "map_of (authorSeq l) (Author ev, Seq ev) \<noteq> None"
    then have "map_of (authorSeq l) (Author ev, Seq ev) = Some (ID ev)" using assms(3) by (auto simp: seqTaken_def)
    then show False using assms(1,2) unfolding ledger_core_def Have_def by blast
  qed
  let ?l = "storeEvent env r ev l"
  have fresh: "map_of (events l) (ID ev) = None" using assms(2) by (simp add: Have_def)
  have old: "ID e = i" "map_of (authorSeq l) (Author e, Seq e) = Some i" if "map_of (events l) i = Some e" for i e
    using assms(1) that unfolding ledger_core_def by blast+
  have from_ix: "\<exists>e. map_of (events l) i = Some e \<and> Author e = a \<and> Seq e = s" if "map_of (authorSeq l) (a, s) = Some i" for a s i
    using assms(1) that unfolding ledger_core_def by blast
  have "ID e = i \<and> map_of (authorSeq ?l) (Author e, Seq e) = Some i" if "map_of (events ?l) i = Some e" for i e
    using that old[of i e] free by (auto simp: storeEvent_core split: if_splits)
  moreover have "\<exists>e. map_of (events ?l) i = Some e \<and> Author e = a \<and> Seq e = s" if "map_of (authorSeq ?l) (a, s) = Some i" for a s i
    using that from_ix[of a s i] fresh by (auto simp: storeEvent_core split: if_splits)
  moreover have "distinct (map fst (events ?l))" "distinct (map fst (authorSeq ?l))"
    using assms(1) by (simp_all add: ledger_core_def storeEvent_core distinct_update)
  ultimately show ?thesis by (simp add: ledger_core_def)
qed

lemma storeEvent_heads_ok: "heads_ok l \<Longrightarrow> \<not> Have l (ID ev) \<Longrightarrow> heads_ok (storeEvent env r ev l)"
  unfolding heads_ok_def storeEvent_heads storeEvent_core Have_def
  by (cases "affectsHeads (Kind ev)") (auto simp: map_of_update)

lemma storeEvent_index_ok:
  assumes "index_ok env l" "\<not> Have l (ID ev)"
  shows "index_ok env (storeEvent env r ev l)"
proof -
  have ev: "snd ` set (events (storeEvent env r ev l)) = insert ev (snd ` set (events l))"
    by (simp add: storeEvent_core events_append[OF assms(2)])
  have "attestations (storeEvent env r ev l) = attestations (indexLocked env ev l)"
    "checkpoints (storeEvent env r ev l) = checkpoints (indexLocked env ev l)"
    "introductions (storeEvent env r ev l) = introductions (indexLocked env ev l)"
    by (simp_all add: storeEvent_def indexLocked_def Let_def split: sum.splits)
  moreover have "index_ok env l \<Longrightarrow> traced (attested env) (insert ev (snd ` set (events l))) (attestations (indexLocked env ev l))"
    "index_ok env l \<Longrightarrow> traced (checkpointed env) (insert ev (snd ` set (events l))) (checkpoints (indexLocked env ev l))"
    "index_ok env l \<Longrightarrow> traced (introduced env) (insert ev (snd ` set (events l))) (introductions (indexLocked env ev l))"
    by (auto simp: index_ok_def indexLocked_def Let_def attested_def checkpointed_def introduced_def
        elim: traced_mono intro!: traced_insert split: sum.splits)
  ultimately show ?thesis using assms(1) by (simp add: index_ok_def ev)
qed

lemma storeEvent_ok:
  assumes "ledger_ok env l" "\<not> Have l (ID ev)" "\<not> seqTaken ev l" "identified env ev"
  shows "ledger_ok env (storeEvent env r ev l)"
  using assms storeEvent_core_ok storeEvent_heads_ok storeEvent_index_ok
  by (auto simp: ledger_ok_def storeEvent_core events_append)

section \<open>Every operation keeps the invariant and every event\<close>

text \<open>
  An extension of a ledger: it is well formed when the ledger was, it has every event of the ledger unchanged, every compromised key and every
  anchor.
\<close>

definition extends :: "ledger_env \<Rightarrow> Ledger \<Rightarrow> Ledger \<Rightarrow> bool" where
  "extends env l l' \<longleftrightarrow> (ledger_ok env l \<longrightarrow> ledger_ok env l') \<and> map_of (events l) \<subseteq>\<^sub>m map_of (events l') \<and>
     set (compromised l) \<subseteq> set (compromised l') \<and> anchors l' = anchors l"

lemma extends_refl [simp]: "extends env l l"
  by (simp add: extends_def)

lemma extends_trans: "extends env l l' \<Longrightarrow> extends env l' l'' \<Longrightarrow> extends env l l''"
  unfolding extends_def by (metis map_le_trans subset_trans)

lemma extends_marked: "extends env l (l\<lparr>missingRefWeight := m\<rparr>)" "extends env l (l\<lparr>compromised := List.insert k (List.insert k' (compromised l))\<rparr>)"
  by (auto simp: extends_def ledger_ok_def ledger_core_def heads_ok_def index_ok_def)

lemma storeEvent_extends:
  assumes "\<not> Have l (ID ev)" "\<not> seqTaken ev l" "identified env ev"
  shows "extends env l (storeEvent env r ev l)"
  using assms storeEvent_ok[of env l ev r]
  by (auto simp: extends_def storeEvent_core map_le_def Have_def)

lemma addLocked_extends:
  assumes "identified env ev" "addLocked env r ev l = Inr l'"
  shows "extends env l l'"
proof (cases "Have l (ID ev)")
  case True
  then show ?thesis using assms(2) by (simp add: addLocked_def)
next
  case False
  let ?l = "l\<lparr>missingRefWeight := AList.delete (ID ev) (missingRefWeight l)\<rparr>"
  have l': "l' = storeEvent env r ev ?l" "\<not> seqTaken ev l"
    using assms(2) False by (auto simp: addLocked_def split: if_splits)
  have "extends env ?l l'" unfolding l'(1) using False l'(2) assms(1)
    by (intro storeEvent_extends) (simp_all add: Have_def seqTaken_def)
  then show ?thesis by (rule extends_trans[OF extends_marked(1)])
qed

lemma Add_extends: "Add env ev l = Inr l' \<Longrightarrow> extends env l l'"
  by (auto simp: Add_def split: if_splits option.splits intro!: storeEvent_extends Validate_identified)

lemma recordEvent_extends: "extends env l (recordEvent env now p built l)"
  by (auto simp: recordEvent_def split: sum.splits intro: addLocked_extends Validate_identified validateWithPolicy_valid)

lemma autoWitness_extends: "extends env l (autoWitnessAfterApplyLocked env now p observer ctx ev l)"
proof -
  have "extends env l (autoAttest env now p ob c ev l)" for ob c l by (simp add: autoAttest_def recordEvent_extends)
  moreover have "extends env l (autoCheckpoint env now p ob c ev l)" for ob c l
    by (simp add: autoCheckpoint_def recordEvent_extends split: prod.split)
  ultimately have "extends env l (autoCheckpoint env now p ob c ev (autoAttest env now p ob c ev l))" for ob c
    by (rule extends_trans)
  then show ?thesis by (simp add: autoWitnessAfterApplyLocked_def Let_def split: option.split)
qed

lemma equivocate_extends: "extends env l (fst (equivocate env now p observer existing ev l))"
  by (auto simp: equivocate_def Let_def split: option.split intro: extends_marked(2) extends_trans[OF extends_marked(2) recordEvent_extends])

lemma checkedAdd_extends: "identified env ev \<Longrightarrow> extends env l (fst (checkedAdd env now ctx p observer ev l))"
  by (auto simp: checkedAdd_def split: option.split sum.split dest: addLocked_extends intro: extends_trans[OF _ autoWitness_extends])

lemma applyLocked_extends: "identified env ev \<Longrightarrow> extends env l (fst (applyLocked env now ctx p observer ev l))"
  by (auto simp: applyLocked_def split: option.split intro: equivocate_extends checkedAdd_extends)

lemma recordReplay_extends: "extends env l (recordReplay env now ctx p observer err ev l)"
  by (auto simp: recordReplay_def recordEvent_extends split: option.split)

lemma ApplyWithContext_extends: "extends env l (fst (ApplyWithContext env now ctx pol observer ev l))"
  by (auto simp: ApplyWithContext_def Let_def recordReplay_extends split: sum.split
      intro: applyLocked_extends Validate_identified dest: validateWithPolicy_valid)

lemma ApplyVerified_extends: "extends env l (fst (ApplyVerifiedWithContext env now ctx pol observer ev l))"
  by (auto simp: ApplyVerifiedWithContext_def Let_def recordReplay_extends validateWithPolicyNoCrypto_def identified_def
      split: sum.split if_splits intro!: applyLocked_extends)

lemma emit_extends: "extends env l (fst (emit env now p built l))"
  by (auto simp: emit_def split: sum.split intro: addLocked_extends Validate_identified validateWithPolicy_valid)

lemma withObserver_extends: "(\<And>ob l. extends env l (fst (f ob l))) \<Longrightarrow> extends env l (fst (withObserver observer f l))"
  by (simp add: withObserver_def split: option.split sum.split)

text \<open>The operations on a ledger that is not pruned, as one machine; the output is the error.\<close>

datatype ledger_op = OpAdd Event | OpApply gotime string "Policy option" "Observer option" Event
  | OpApplyVerified gotime string "Policy option" "Observer option" Event
  | OpAttest gotime string string "Policy option" "Observer option" | OpCheckpoint gotime string "Policy option" "Observer option"
  | OpSummary gotime string "Policy option" "Observer option"
  | OpSybil gotime string "string list" string "Policy option" "Observer option"

definition error_of :: "Ledger \<times> (ledger_error + 'a) \<Rightarrow> Ledger \<times> ledger_error option" where
  "error_of r = (fst r, case snd r of Inl e \<Rightarrow> Some e | Inr _ \<Rightarrow> None)"

fun ledger_step :: "ledger_env \<Rightarrow> ledger_op \<Rightarrow> Ledger \<Rightarrow> Ledger \<times> ledger_error option" where
  "ledger_step env (OpAdd ev) l = (case Add env ev l of Inl e \<Rightarrow> (l, Some e) | Inr l' \<Rightarrow> (l', None))"
| "ledger_step env (OpApply now ctx pol ob ev) l = error_of (ApplyWithContext env now ctx pol ob ev l)"
| "ledger_step env (OpApplyVerified now ctx pol ob ev) l = error_of (ApplyVerifiedWithContext env now ctx pol ob ev l)"
| "ledger_step env (OpAttest now ctx i pol ob) l = error_of (EmitWitnessAttest env now ctx i pol ob l)"
| "ledger_step env (OpCheckpoint now ctx pol ob) l = error_of (EmitWitnessCheckpoint env now ctx pol ob l)"
| "ledger_step env (OpSummary now ctx pol ob) l = error_of (EmitSyncSummary env now ctx pol ob l)"
| "ledger_step env (OpSybil now ctx sus reason pol ob) l = error_of (EmitSybilMisbehavior env now ctx sus reason pol ob l)"

lemma ledger_step_extends: "extends env l (fst (ledger_step env x l))"
  by (cases x)
    (auto simp: error_of_def ApplyWithContext_extends ApplyVerified_extends emit_extends EmitWitnessAttest_def EmitWitnessCheckpoint_def
      EmitSyncSummary_def EmitSybilMisbehavior_def Let_def split: sum.split prod.split intro!: withObserver_extends dest: Add_extends)

lemma extends_ok: "extends env l l' \<Longrightarrow> ledger_ok env l \<Longrightarrow> ledger_ok env l'"
  by (simp add: extends_def)

interpretation ledger: state_machine "ledger_step env" "ledger_ok env"
  by unfold_locales (rule extends_ok[OF ledger_step_extends])

interpretation ledger_grows: state_machine "ledger_step env" "extends env l0"
  by unfold_locales (rule extends_trans[OF _ ledger_step_extends])

end
