(* ===== verification/Ledger_Safety.thy ===== *)
theory Ledger_Safety
  imports Ledger_State "HOL-Library.Multiset"
begin

text \<open>
  What the ledger guarantees: one event per author and sequence number, no loss of events, detection of equivocation, confirmations
  that rest on the stored attestations of witnesses, the agreement of the two ways to apply an event and of the two ways to compute the
  heads, and what pruning and snapshots keep and lose.
\<close>

definition stored :: "Ledger \<Rightarrow> Event set" where
  "stored l = snd ` set (events l)"

lemma core_lookup:
  assumes "ledger_core l"
  shows "map_of (events l) i = Some e \<longleftrightarrow> e \<in> stored l \<and> ID e = i"
proof
  assume some: "map_of (events l) i = Some e"
  then have "ID e = i" using assms unfolding ledger_core_def by blast
  moreover have "e \<in> stored l" using map_of_SomeD[OF some] unfolding stored_def by force
  ultimately show "e \<in> stored l \<and> ID e = i" by simp
next
  assume e: "e \<in> stored l \<and> ID e = i"
  then obtain j where "(j, e) \<in> set (events l)" by (auto simp: stored_def)
  then have j: "map_of (events l) j = Some e" using assms by (simp add: ledger_core_def)
  then have "ID e = j" using assms unfolding ledger_core_def by blast
  with j e show "map_of (events l) i = Some e" by simp
qed

lemma core_seq_lookup:
  assumes "ledger_core l"
  shows "map_of (authorSeq l) k = Some i \<longleftrightarrow> (\<exists>e \<in> stored l. (Author e, Seq e) = k \<and> ID e = i)"
proof
  assume "map_of (authorSeq l) k = Some i"
  then have "map_of (authorSeq l) (fst k, snd k) = Some i" by simp
  then obtain e where "map_of (events l) i = Some e" "Author e = fst k" "Seq e = snd k"
    using assms unfolding ledger_core_def by blast
  then have "e \<in> stored l" "(Author e, Seq e) = k" "ID e = i" by (simp_all add: core_lookup[OF assms])
  then show "\<exists>e \<in> stored l. (Author e, Seq e) = k \<and> ID e = i" by blast
next
  assume "\<exists>e \<in> stored l. (Author e, Seq e) = k \<and> ID e = i"
  then obtain e where "map_of (events l) i = Some e" "(Author e, Seq e) = k" by (auto simp: core_lookup[OF assms])
  then show "map_of (authorSeq l) k = Some i" using assms unfolding ledger_core_def by blast
qed

lemma stored_iff: "ledger_ok env l \<Longrightarrow> e \<in> stored l \<longleftrightarrow> Get l (ID e) = Some e"
  by (simp add: ledger_ok_def core_lookup Get_def)

lemma storeEvent_stored: "\<not> Have l (ID ev) \<Longrightarrow> stored (storeEvent env r ev l) = insert ev (stored l)"
  by (simp add: stored_def storeEvent_core events_append)

lemma Have_Get: "Have l i \<longleftrightarrow> (\<exists>e. Get l i = Some e)"
  by (auto simp: Have_def Get_def)

lemma Get_storeEvent: "Get (storeEvent env r ev l) j = (if j = ID ev then Some ev else Get l j)"
  by (simp add: Get_def storeEvent_core)

section \<open>Sequence numbers\<close>

lemma ledger_ok_unique:
  assumes "ledger_ok env l" "a \<in> stored l" "b \<in> stored l" "Author a = Author b" "Seq a = Seq b"
  shows "a = b"
proof -
  have "Get l (ID a) = Some a" "Get l (ID b) = Some b" using assms stored_iff by blast+
  moreover have "map_of (authorSeq l) (Author a, Seq a) = Some (ID a)" "map_of (authorSeq l) (Author b, Seq b) = Some (ID b)"
    using assms(1) calculation unfolding ledger_ok_def ledger_core_def Get_def by blast+
  ultimately show ?thesis using assms(4,5) by simp
qed

text \<open>
  C17. In every ledger that any sequence of additions, applications and requests builds, an author has at most one event under a sequence
  number, every event is well formed and stored under the hash of its canonical bytes, and every head is a stored event whose kind counts.
\<close>

theorem sequence_numbers_unique:
  fixes env :: ledger_env and ops :: "ledger_op list"
  defines "l \<equiv> fst (run (ledger_step env) ops New)"
  shows "(\<forall>a \<in> stored l. \<forall>b \<in> stored l. Author a = Author b \<and> Seq a = Seq b \<longrightarrow> a = b) \<and>
    (\<forall>e \<in> stored l. ValidateNoCrypto e = Inr () \<and> ID e = EncodeToString (unsignedHash env e) \<and> Get l (ID e) = Some e) \<and>
    (\<forall>h \<in> set (heads l). \<exists>e. Get l h = Some e \<and> affectsHeads (Kind e))"
proof -
  have ok: "ledger_ok env l" unfolding l_def by (rule ledger.run_inv[OF New_ok])
  then have "\<forall>e \<in> stored l. identified env e" by (simp add: ledger_ok_def stored_def)
  then show ?thesis using ledger_ok_unique[OF ok] stored_iff[OF ok] ok
    by (auto simp: identified_def ledger_ok_def heads_ok_def Get_def)
qed

text \<open>
  The ledger is append-only: whatever operations follow, a stored event stays stored unchanged under its identifier, a key once
  compromised stays compromised, and the anchors are kept.
\<close>

theorem ledger_append_only:
  assumes "Get l i = Some e"
  shows "Get (fst (run (ledger_step env) ops l)) i = Some e \<and>
    set (compromised l) \<subseteq> set (compromised (fst (run (ledger_step env) ops l))) \<and>
    anchors (fst (run (ledger_step env) ops l)) = anchors l"
proof -
  have "extends env l (fst (run (ledger_step env) ops l))" by (rule ledger_grows.run_inv) simp
  then show ?thesis using assms by (auto simp: extends_def Get_def map_le_def dom_def)
qed

section \<open>Equivocation\<close>

lemma addLocked_stored: "addLocked env r ev l = Inr l' \<Longrightarrow> stored l' \<subseteq> insert ev (stored l)"
  using set_update_subset[of "ID ev" ev "events l"]
  by (auto simp: addLocked_def stored_def storeEvent_core split: if_splits)

lemma signPayload_kind:
  assumes "signPayload env now kind pl ob pos = Inr ev"
  shows "Kind ev = TrimSpace kind" "Author ev = TrimSpace (obAuthor ob)" "Validate env ev = Inr ()"
    "AuthorKeyB64 ev = EncodeToString (obAuthorPub ob)"
proof -
  obtain i where "NewSignedEvent env now i = Inr ev" "siKind i = kind" "siAuthor i = obAuthor ob" "siAuthorPub i = obAuthorPub ob"
    using assms by (force simp: signPayload_def Let_def split: prod.splits)
  then show "Kind ev = TrimSpace kind" "Author ev = TrimSpace (obAuthor ob)" "Validate env ev = Inr ()"
    "AuthorKeyB64 ev = EncodeToString (obAuthorPub ob)"
    using NewSignedEvent_Inr by metis+
qed

lemma recordEvent_stored: "e \<in> stored (recordEvent env now p built l) \<Longrightarrow> e \<in> stored l \<or> built = Inr e"
  using addLocked_stored[of env False _ l] by (auto simp: recordEvent_def split: sum.splits if_splits)

lemma kind_trim: "TrimSpace KindMisbehaviorEquivoc = KindMisbehaviorEquivoc" "TrimSpace KindWitnessAttest = KindWitnessAttest"
  by (simp_all add: kind_defs TrimSpace_plain plain_char_def)

lemma recorded_payload:
  assumes "x \<in> stored (recordEvent env now p (signPayload env now kind pl ob pos) l)"
  shows "x \<in> stored l \<or> Author x = TrimSpace (obAuthor ob) \<and> Kind x = TrimSpace kind"
  using recordEvent_stored[OF assms] signPayload_kind(1,2) by blast

lemma equivocate_stored:
  assumes "x \<in> stored (fst (equivocate env now p observer existing ev l))"
  shows "x \<in> stored l \<or> (\<exists>ob. observer = Some ob \<and> Author x = TrimSpace (obAuthor ob) \<and> Kind x = KindMisbehaviorEquivoc)"
proof -
  have marked: "stored (l\<lparr>compromised := c\<rparr>) = stored l" for c by (simp add: stored_def)
  show ?thesis using assms
    by (auto simp: equivocate_def Let_def marked buildEquivocationMisbehavior_def kind_trim split: option.splits if_splits
        dest!: recorded_payload)
qed

text \<open>
  C18. Equivocation is detected: when an author's stored event has the number of a new valid event with another identifier, applying the
  new event fails with the evidence (author, key, number and both identifiers, ordered), the keys of both events are compromised, and nothing
  is stored but at most one event of the observer that reports the equivocation.
\<close>

theorem equivocation_detected:
  fixes env :: ledger_env and ops :: "ledger_op list" and ev :: Event and now ctx pol observer
  defines "l \<equiv> fst (run (ledger_step env) ops New)"
  assumes old: "Get l (ID e) = Some e" "Author e = Author ev" "Seq e = Seq ev" "ID e \<noteq> ID ev" "Get l (ID ev) = None"
    and valid: "validateWithPolicy env now (policyOr pol) ev = Inr ()"
  defines "r \<equiv> ApplyWithContext env now ctx pol observer ev l"
  shows "snd r = Inl (EquivocationError (evidence e ev)) \<and> EventA (evidence e ev) < EventB (evidence e ev) \<and>
    {AuthorKeyB64 e, AuthorKeyB64 ev} \<subseteq> set (compromised (fst r)) \<and>
    (\<forall>x \<in> stored (fst r). x \<in> stored l \<or>
       (\<exists>ob. observer = Some ob \<and> Author x = TrimSpace (obAuthor ob) \<and> Kind x = KindMisbehaviorEquivoc))"
proof -
  let ?p = "policyOr pol" and ?l1 = "l\<lparr>compromised := List.insert (AuthorKeyB64 ev) (List.insert (AuthorKeyB64 e) (compromised l))\<rparr>"
  have ok: "ledger_ok env l" unfolding l_def by (rule ledger.run_inv[OF New_ok])
  have seq: "map_of (authorSeq l) (Author ev, Seq ev) = Some (ID e)"
    using ok old(1-3) unfolding ledger_ok_def ledger_core_def Get_def by metis
  have r: "r = equivocate env now ?p observer (ID e) ev l"
    using old(4,5) valid seq by (simp add: r_def ApplyWithContext_def Let_def applyLocked_def Have_def Get_def)
  have compr: "set (compromised ?l1) \<subseteq> set (compromised (fst r))"
    using recordEvent_extends[of env ?l1] by (auto simp: r equivocate_def Let_def old(1) extends_def split: option.splits)
  have "x \<in> stored l \<or> (\<exists>ob. observer = Some ob \<and> Author x = TrimSpace (obAuthor ob) \<and> Kind x = KindMisbehaviorEquivoc)"
    if "x \<in> stored (fst r)" for x
    using that unfolding r by (rule equivocate_stored)
  then show ?thesis using compr old(4)
    by (auto simp: r equivocate_def Let_def old(1) evidence_def min_def max_def)
qed

section \<open>Two ways to apply an event\<close>

lemma ApplyVerified_eq:
  assumes "Verify env ev = Inr ()"
  shows "ApplyVerifiedWithContext env now ctx pol observer ev l = ApplyWithContext env now ctx pol observer ev l"
proof -
  have "ID ev = EncodeToString (unsignedHash env ev)" using assms by (simp add: Verify_Inr)
  then show ?thesis
    by (simp add: ApplyVerifiedWithContext_def ApplyWithContext_def Let_def validateWithPolicy_NoCrypto[OF assms]
        split: sum.split)
qed

text \<open>
  On an event whose identifier and signature verify, \<^verbatim>\<open>ApplyVerified\<close>, which checks neither, behaves exactly as \<^verbatim>\<open>Apply\<close>: the same ledger and
  the same result, on every branch.
\<close>

theorem apply_verified_equiv:
  assumes "Verify env ev = Inr ()"
  shows "ApplyVerifiedWithContext env now ctx pol observer ev l = ApplyWithContext env now ctx pol observer ev l"
  by (rule ApplyVerified_eq[OF assms])


section \<open>Confirmations\<close>

text \<open>The keys that count for a confirmation: not compromised and of positive weight in the context.\<close>

definition eligible :: "TrustPolicy \<Rightarrow> string \<Rightarrow> string list \<Rightarrow> string set \<Rightarrow> string set" where
  "eligible t ctx bad keys = {k \<in> keys. k \<notin> set bad \<and> Weight t ctx k > 0}"

lemma eligible_Cons: "distinct (k # ks) \<Longrightarrow>
    eligible t ctx bad (set (k # ks)) =
      (if k \<in> set bad \<or> Weight t ctx k \<le> 0 then eligible t ctx bad (set ks) else insert k (eligible t ctx bad (set ks))) \<and>
    k \<notin> eligible t ctx bad (set ks) \<and> finite (eligible t ctx bad (set ks))"
  by (auto simp: eligible_def)

lemma eligible_sum_nonneg: "0 \<le> (\<Sum>k \<in> eligible t ctx bad ks. Weight t ctx k)"
  by (rule sum_nonneg) (simp add: eligible_def)

text \<open>The loop says yes exactly when the weights reach the threshold, in whatever order it sees the keys.\<close>

lemma scoreKeys_iff:
  assumes "distinct ks" "0 \<le> score" "score < thr" "score + (\<Sum>k \<in> eligible t ctx bad (set ks). Weight t ctx k) < 2 ^ 63"
  shows "snd (scoreKeys t ctx bad thr ks score) \<longleftrightarrow> thr \<le> score + (\<Sum>k \<in> eligible t ctx bad (set ks). Weight t ctx k)"
  using assms
proof (induction ks arbitrary: score)
  case Nil
  then show ?case by (simp add: eligible_def)
next
  case (Cons k ks)
  let ?E = "eligible t ctx bad (set ks)"
  note E = eligible_Cons[OF Cons.prems(1), of t ctx bad]
  show ?case
  proof (cases "k \<in> set bad \<or> Weight t ctx k \<le> 0")
    case True
    then show ?thesis using Cons.IH[of score] Cons.prems E by simp
  next
    case False
    have sum: "(\<Sum>k \<in> eligible t ctx bad (set (k # ks)). Weight t ctx k) = Weight t ctx k + (\<Sum>k \<in> ?E. Weight t ctx k)"
      using E False by simp
    have nonneg: "0 \<le> (\<Sum>k \<in> ?E. Weight t ctx k)" by (rule eligible_sum_nonneg)
    have wrap: "wrap64 (score + Weight t ctx k) = score + Weight t ctx k"
      using Cons.prems(2,4) False sum nonneg by (intro wrap64_id) auto
    show ?thesis
    proof (cases "thr \<le> score + Weight t ctx k")
      case True
      then show ?thesis unfolding sum using False nonneg by (simp add: wrap)
    next
      case below: False
      have "score + Weight t ctx k + (\<Sum>k \<in> ?E. Weight t ctx k) < 2 ^ 63" using Cons.prems(4) unfolding sum by linarith
      then have "snd (scoreKeys t ctx bad thr ks (score + Weight t ctx k)) \<longleftrightarrow>
          thr \<le> score + Weight t ctx k + (\<Sum>k \<in> ?E. Weight t ctx k)"
        using Cons.prems(1,2) False below by (intro Cons.IH) simp_all
      then show ?thesis unfolding sum using False below by (simp add: wrap add.assoc)
    qed
  qed
qed

lemma distinct_witness_keys:
  assumes "distinct xs"
  shows "distinct [w. (e, c, w) \<leftarrow> xs, e = i \<and> c = ctx]"
proof -
  have "[w. (e, c, w) \<leftarrow> xs, e = i \<and> c = ctx] = map (\<lambda>x. snd (snd x)) (filter (\<lambda>x. fst x = i \<and> fst (snd x) = ctx) xs)"
    by (induction xs) auto
  moreover have "inj_on (\<lambda>x. snd (snd x)) (set (filter (\<lambda>x. fst x = i \<and> fst (snd x) = ctx) xs))"
    by (auto simp: inj_on_def)
  ultimately show ?thesis using assms by (simp add: distinct_map)
qed

definition attesters :: "Ledger \<Rightarrow> string \<Rightarrow> string \<Rightarrow> string set" where
  "attesters l i ctx = {w. (i, ctx, w) \<in> set (attestations l)}"



section \<open>Heads\<close>

text \<open>The heads as a definition on the events: those whose kind counts and that no such event refers to.\<close>

definition headSet :: "Ledger \<Rightarrow> string set" where
  "headSet l = {i. \<exists>e. (i, e) \<in> set (events l) \<and> affectsHeads (Kind e) \<and> (\<forall>x \<in> stored l. affectsHeads (Kind x) \<longrightarrow> i \<notin> set (refList x))}"

lemma recomputed_heads: "set (heads (recomputeHeadsLocked l)) = headSet l"
proof (rule set_eqI)
  fix h
  have "h \<in> set (heads (recomputeHeadsLocked l)) \<longleftrightarrow>
      (\<exists>e. (h, e) \<in> set (events l) \<and> affectsHeads (Kind e)) \<and> (\<forall>i x. (i, x) \<in> set (events l) \<longrightarrow> affectsHeads (Kind x) \<longrightarrow> h \<notin> set (refList x))"
    by (auto simp: recomputeHeadsLocked_def Let_def) (force simp: image_iff)
  then show "h \<in> set (heads (recomputeHeadsLocked l)) \<longleftrightarrow> h \<in> headSet l"
    by (auto simp: headSet_def stored_def)
qed

lemma storeEvent_headSet:
  assumes "set (heads l) = headSet l" "\<not> Have l (ID ev)" "ID ev \<notin> set (refList ev)" "\<forall>x \<in> stored l. ID ev \<notin> set (refList x)"
  shows "set (heads (storeEvent env r ev l)) = headSet (storeEvent env r ev l)"
proof -
  have evs: "events (storeEvent env r ev l) = events l @ [(ID ev, ev)]" using events_append[OF assms(2)] by (simp add: storeEvent_core)
  have "stored (storeEvent env r ev l) = insert ev (stored l)" by (simp add: stored_def evs)
  moreover have "set (heads (storeEvent env r ev l)) = (if affectsHeads (Kind ev) then insert (ID ev) (set (heads l) - set (refList ev)) else set (heads l))"
    by (auto simp: storeEvent_heads)
  ultimately show ?thesis using assms unfolding headSet_def evs by auto
qed

lemma Add_Inr:
  assumes "Add env ev l = Inr l'"
  shows "l' = l \<and> Have l (ID ev) \<or> \<not> Have l (ID ev) \<and> \<not> seqTaken ev l \<and> prevError ev l = None \<and> l' = storeEvent env False ev l"
  using assms by (auto simp: Add_def split: if_splits option.splits)

text \<open>
  Adding events in an order in which no event refers to itself or to a later one, the heads that the ledger maintains step by step are
  the heads that a recomputation from all events gives: the events that count and that no such event refers to.
\<close>

theorem heads_incremental:
  assumes "rfold (Add env) evs New = Inr l"
    and causal: "\<And>i j. i \<le> j \<Longrightarrow> j < length evs \<Longrightarrow> ID (evs ! j) \<notin> set (refList (evs ! i))"
  shows "set (heads l) = set (heads (recomputeHeadsLocked l)) \<and> set (heads l) = headSet l"
proof -
  have "set (heads l) = headSet l \<and> stored l \<subseteq> set evs"
    using assms
  proof (induction evs arbitrary: l rule: rev_induct)
    case Nil
    then show ?case by (auto simp: New_def headSet_def stored_def)
  next
    case (snoc ev evs)
    then obtain a where a: "rfold (Add env) evs New = Inr a" "Add env ev a = Inr l" by (auto simp: rfold_snoc_Inr)
    have earlier: "ID (evs ! j) \<notin> set (refList (evs ! i))" if "i \<le> j" "j < length evs" for i j
      using snoc.prems(2)[of i j] that by (simp add: nth_append)
    have IH: "set (heads a) = headSet a" "stored a \<subseteq> set evs"
      using snoc.IH[OF a(1)] earlier by simp_all
    have "ID ev \<notin> set (refList ev)" using snoc.prems(2)[of "length evs" "length evs"] by simp
    moreover have "ID ev \<notin> set (refList x)" if x: "x \<in> set evs" for x
    proof -
      obtain i where "i < length evs" "evs ! i = x" using x by (auto simp: in_set_conv_nth)
      then show ?thesis using snoc.prems(2)[of i "length evs"] by (simp add: nth_append)
    qed
    ultimately have "\<not> Have a (ID ev) \<Longrightarrow> set (heads (storeEvent env False ev a)) = headSet (storeEvent env False ev a)"
      using IH by (intro storeEvent_headSet) auto
    then show ?case using Add_Inr[OF a(2)] IH storeEvent_stored[of a ev env False] by auto
  qed
  then show ?thesis by (simp add: recomputed_heads)
qed

section \<open>Pruning\<close>

text \<open>The events are still stored when \<^verbatim>\<open>rebuildLocked\<close> adds them again, so that it adds nothing: the indices stay empty.\<close>

lemma rebuildLocked_empty:
  assumes "\<forall>e \<in> set (order (map snd (events l))). Have l (ID e)"
  shows "rebuildLocked env order l = recomputeHeadsLocked (l\<lparr>authorSeq := [], heads := [], missingRefs := [], missingRefWeight := [],
    attestations := [], checkpoints := [], introductions := []\<rparr>)"
proof -
  let ?l = "l\<lparr>authorSeq := [], heads := [], missingRefs := [], missingRefWeight := [], attestations := [], checkpoints := [], introductions := []\<rparr>"
  have "fold (\<lambda>ev l. case addLocked env False ev l of Inl _ \<Rightarrow> l | Inr l' \<Rightarrow> l') evs ?l = ?l"
    if "\<forall>e \<in> set evs. Have l (ID e)" for evs
    using that by (induction evs) (simp_all add: addLocked_def Have_def)
  then show ?thesis using assms by (simp add: rebuildLocked_def)
qed

lemma recompute_frames [simp]:
  "events (recomputeHeadsLocked l) = events l" "authorSeq (recomputeHeadsLocked l) = authorSeq l"
  "attestations (recomputeHeadsLocked l) = attestations l" "compromised (recomputeHeadsLocked l) = compromised l"
  "anchors (recomputeHeadsLocked l) = anchors l" "checkpoints (recomputeHeadsLocked l) = checkpoints l"
  "introductions (recomputeHeadsLocked l) = introductions l"
  by (simp_all add: recomputeHeadsLocked_def Let_def)

lemma core_filter_Have:
  assumes "ledger_core l" "\<And>xs. set (order xs) = set xs" "set evs \<subseteq> set (events l)" "distinct (map fst evs)"
  shows "\<forall>e \<in> set (order (map snd evs)). Have (l\<lparr>events := evs, anchors := a\<rparr>) (ID e)"
proof
  fix e assume "e \<in> set (order (map snd evs))"
  then obtain i where i: "(i, e) \<in> set evs" using assms(2) by auto
  then have "map_of (events l) i = Some e" using assms(1,3) by (auto simp: ledger_core_def)
  then have "ID e = i" using assms(1) unfolding ledger_core_def by blast
  then show "Have (l\<lparr>events := evs, anchors := a\<rparr>) (ID e)" using i assms(4) by (auto simp: Have_def)
qed

definition kept_events where
  "kept_events now pol l =
     (let keep = retained pol (heads l) (referenced l);
          old = (if MaxAge pol > 0 then filter (\<lambda>(eid, ev). CreatedAt ev < Unix (now - MaxAge pol) \<and> \<not> keep eid ev) (events l) else []);
          evs1 = filter (\<lambda>e. e \<notin> set old) (events l);
          surplus = (if MaxEvents pol > 0 \<and> int (length evs1) > MaxEvents pol
                     then evict keep (length evs1 - nat (MaxEvents pol)) (sort_key (\<lambda>(eid, ev). (CreatedAt ev, eid)) evs1) else [])
      in filter (\<lambda>e. e \<notin> set surplus) evs1)"

lemma evict_not_kept: "(i, e) \<in> set (evict keep n all) \<Longrightarrow> \<not> keep i e \<and> (i, e) \<in> set all"
  by (induction keep n all rule: evict.induct) (auto split: if_splits)

lemma ApplyRetention_pruned:
  assumes "ledger_core l" "\<And>xs. set (order xs) = set xs" "ApplyRetention env order now pol l = (l', n)" "0 < n"
  shows "\<exists>a. l' = recomputeHeadsLocked (l\<lparr>events := kept_events now pol l, anchors := anchors l @ [a], authorSeq := [], heads := [],
    missingRefs := [], missingRefWeight := [], attestations := [], checkpoints := [], introductions := []\<rparr>)"
proof -
  obtain a where l': "l' = rebuildLocked env order (l\<lparr>events := kept_events now pol l, anchors := anchors l @ [a]\<rparr>)"
    using assms(3,4) by (auto simp: ApplyRetention_def kept_events_def Let_def split: if_splits)
  have "set (kept_events now pol l) \<subseteq> set (events l)" "distinct (map fst (kept_events now pol l))"
    using assms(1) by (auto simp: kept_events_def Let_def ledger_core_def distinct_keys_filter)
  from core_filter_Have[OF assms(1,2) this, of "anchors l @ [a]"]
  have "l' = recomputeHeadsLocked (l\<lparr>events := kept_events now pol l, anchors := anchors l @ [a], authorSeq := [], heads := [],
    missingRefs := [], missingRefWeight := [], attestations := [], checkpoints := [], introductions := []\<rparr>)"
    unfolding l' by (subst rebuildLocked_empty) simp_all
  then show ?thesis ..
qed

text \<open>
  Retention drops neither a head nor an event that a stored event refers to, nor, when asked to, an event of a critical kind; what it keeps
  it keeps unchanged, it adds no event, the compromised keys are kept, and each run that drops events appends one anchor.
\<close>

theorem retention_keeps:
  assumes "ledger_core l" "\<And>xs. set (order xs) = set xs" "ApplyRetention env order now pol l = (l', n)"
    and "Get l i = Some e" "i \<in> set (heads l) \<or> i \<in> referenced l \<or> CriticalOnly pol \<and> isCriticalKind (Kind e)"
  shows "Get l' i = Some e \<and> map_of (events l') \<subseteq>\<^sub>m map_of (events l) \<and> compromised l' = compromised l \<and>
    length (anchors l') = length (anchors l) + (if n = 0 then 0 else 1)"
proof (cases "n = 0")
  case True
  then have "l' = l" using assms(3) by (auto simp: ApplyRetention_def Let_def split: if_splits)
  then show ?thesis using True assms(4) by simp
next
  case False
  then obtain a where l': "l' = recomputeHeadsLocked (l\<lparr>events := kept_events now pol l, anchors := anchors l @ [a], authorSeq := [], heads := [],
    missingRefs := [], missingRefWeight := [], attestations := [], checkpoints := [], introductions := []\<rparr>)"
    using ApplyRetention_pruned[OF assms(1-3)] by auto
  have d: "distinct (map fst (events l))" "distinct (map fst (kept_events now pol l))" "set (kept_events now pol l) \<subseteq> set (events l)"
    using assms(1) by (auto simp: kept_events_def Let_def ledger_core_def distinct_keys_filter)
  have "retained pol (heads l) (referenced l) i e" using assms(5) by (simp add: retained_def)
  then have "(i, e) \<in> set (kept_events now pol l)"
    using map_of_SomeD[OF assms(4)[unfolded Get_def]] by (auto simp: kept_events_def Let_def dest: evict_not_kept)
  then show ?thesis using d False unfolding l' by (auto simp: Get_def map_le_def dom_def dest: map_of_SomeD)
qed


text \<open>
  C22. A run of retention that drops an event loses every index. The sequence numbers of all authors are forgotten, so that a second valid
  first event of an author is accepted and stored beside the one that is still there, with no evidence and no compromised key, and the
  observer's own numbering starts again at 1; the attestations are forgotten, so that no event is confirmed any more.
\<close>

theorem retention_forgets:
  assumes "ledger_core l" "\<And>xs. set (order xs) = set xs" "ApplyRetention env order now pol l = (l', n)" "0 < n"
    and "validateWithPolicy env now' (policyOr p) ev = Inr ()" "Seq ev = 1" "Get l' (ID ev) = None"
  shows "ApplyWithContext env now' ctx p None ev l' = (storeEvent env (RequireKnownPrev (policyOr p)) ev
      (l'\<lparr>missingRefWeight := AList.delete (ID ev) (missingRefWeight l')\<rparr>), Inr StatusAccepted) \<and>
    Get (fst (ApplyWithContext env now' ctx p None ev l')) (ID ev) = Some ev \<and>
    stored l' \<subseteq> stored (fst (ApplyWithContext env now' ctx p None ev l')) \<and>
    compromised (fst (ApplyWithContext env now' ctx p None ev l')) = compromised l \<and>
    fst (nextSeqLocked author l') = 1 \<and> (\<forall>keyOrder i c q. (\<forall>xs. set (keyOrder xs) = set xs) \<longrightarrow> snd (Confirmed keyOrder i c q l') = False)"
proof -
  obtain a where l': "l' = recomputeHeadsLocked (l\<lparr>events := kept_events now pol l, anchors := anchors l @ [a], authorSeq := [], heads := [],
    missingRefs := [], missingRefWeight := [], attestations := [], checkpoints := [], introductions := []\<rparr>)"
    using ApplyRetention_pruned[OF assms(1-4)] by auto
  have empty: "authorSeq l' = []" "attestations l' = []" "compromised l' = compromised l" unfolding l' by simp_all
  have new: "\<not> Have l' (ID ev)" using assms(7) by (simp add: Have_def Get_def)
  have "ApplyWithContext env now' ctx p None ev l' = (storeEvent env (RequireKnownPrev (policyOr p)) ev
      (l'\<lparr>missingRefWeight := AList.delete (ID ev) (missingRefWeight l')\<rparr>), Inr StatusAccepted)"
    using assms(5,6) new by (simp add: ApplyWithContext_def Let_def applyLocked_def empty checkedAdd_def prevError_def addLocked_def seqTaken_def
        autoWitnessAfterApplyLocked_def)
  moreover have "fst (nextSeqLocked author l') = 1" by (simp add: nextSeqLocked_def maxSeq_def empty Let_def)
  moreover have "snd (Confirmed keyOrder i c q l') = False" if "\<And>xs. set (keyOrder xs) = set xs" for keyOrder i c q
  proof -
    have "keyOrder [] = []" using that[of "[]"] by simp
    then show ?thesis by (simp add: Confirmed_def Let_def empty)
  qed
  moreover have "stored l' \<subseteq> stored (storeEvent env r ev (l'\<lparr>missingRefWeight := m\<rparr>))" for r m
    using new by (auto simp: storeEvent_core stored_def Have_def update_absent)
  ultimately show ?thesis by (simp add: storeEvent_core empty Get_def)
qed

section \<open>Snapshots\<close>

text \<open>A stored predecessor is the author's event with the preceding number.\<close>

definition prev_linked :: "Ledger \<Rightarrow> bool" where
  "prev_linked l \<longleftrightarrow> (\<forall>e \<in> stored l. \<forall>q \<in> stored l. Seq e > 1 \<and> ID q = Prev e \<longrightarrow> Author q = Author e \<and> Seq q + 1 = Seq e)"

text \<open>Adding well linked events with distinct identifiers and numbers one by one.\<close>

lemma rfold_Add:
  assumes "distinct (map ID evs)" "distinct (map (\<lambda>e. (Author e, Seq e)) evs)" "\<forall>e \<in> set evs. Validate env e = Inr ()"
    and linked: "\<forall>e \<in> set evs. \<forall>q \<in> set evs. Seq e > 1 \<and> ID q = Prev e \<longrightarrow> Author q = Author e \<and> Seq q + 1 = Seq e"
  shows "\<exists>l. rfold (Add env) evs New = Inr l \<and> events l = map (\<lambda>e. (ID e, e)) evs \<and>
    authorSeq l = map (\<lambda>e. ((Author e, Seq e), ID e)) evs \<and> compromised l = [] \<and> anchors l = []"
  using assms
proof (induction evs rule: rev_induct)
  case Nil
  then show ?case by (simp add: New_def)
next
  case (snoc ev evs)
  have linked: "\<forall>e \<in> set evs. \<forall>q \<in> set evs. Seq e > 1 \<and> ID q = Prev e \<longrightarrow> Author q = Author e \<and> Seq q + 1 = Seq e"
    and mine: "\<And>q. q \<in> set evs \<Longrightarrow> Seq ev > 1 \<Longrightarrow> ID q = Prev ev \<Longrightarrow> Author q = Author ev \<and> Seq q + 1 = Seq ev"
    using snoc.prems(4) by simp_all
  obtain l where l: "rfold (Add env) evs New = Inr l" "events l = map (\<lambda>e. (ID e, e)) evs"
      "authorSeq l = map (\<lambda>e. ((Author e, Seq e), ID e)) evs" "compromised l = []" "anchors l = []"
    using snoc.IH[OF _ _ _ linked] snoc.prems(1-3) by auto
  have look: "map_of (map (\<lambda>e. (ID e, e)) xs) i = Some q \<Longrightarrow> q \<in> set xs \<and> ID q = i" for i q and xs :: "Event list"
    by (auto dest: map_of_SomeD)
  have "ID ev \<notin> ID ` set evs" "(Author ev, Seq ev) \<notin> (\<lambda>e. (Author e, Seq e)) ` set evs" using snoc.prems(1,2) by simp_all
  then have fresh: "map_of (events l) (ID ev) = None" "map_of (authorSeq l) (Author ev, Seq ev) = None"
    by (simp_all add: l map_of_eq_None_iff image_image)
  have "prevError ev l = None"
  proof (cases "Seq ev > 1 \<and> (\<exists>q. map_of (events l) (Prev ev) = Some q)")
    case True
    then obtain q where q: "map_of (events l) (Prev ev) = Some q" by blast
    then have "q \<in> set evs" "ID q = Prev ev" using look[of evs "Prev ev" q] by (simp_all add: l)
    then show ?thesis using mine True q by (simp add: prevError_def Get_def)
  qed (auto simp: prevError_def Get_def split: option.split)
  with fresh have "Add env ev l = Inr (storeEvent env False ev l)"
    using snoc.prems(3) by (simp add: Add_def Have_def seqTaken_def)
  with l(1) have "rfold (Add env) (evs @ [ev]) New = Inr (storeEvent env False ev l)" by (simp add: rfold_snoc_Inr)
  then show ?case using fresh by (simp add: storeEvent_core update_absent l)
qed

lemma map_of_keyed:
  assumes "m = map (\<lambda>x. (f x, g x)) xs" "distinct (map f xs)" "\<And>k v. M k = Some v \<longleftrightarrow> (\<exists>x \<in> set xs. f x = k \<and> g x = v)"
  shows "map_of m = M"
proof
  fix k
  have "distinct (map fst m)" using assms(1,2) by (simp add: comp_def)
  then have "map_of m k = Some v \<longleftrightarrow> M k = Some v" for v
    unfolding assms(3) by (subst map_of_eq_Some_iff) (auto simp: assms(1))
  then show "map_of m k = M k" by (cases "M k"; cases "map_of m k") auto
qed

lemma sortEvents_facts [simp]: "set (sortEvents xs) = set xs" "mset (sortEvents xs) = mset xs"
  by (simp_all add: sortEvents_def)

lemma core_distinct:
  assumes "ledger_core l" "distinct xs" "set xs = stored l"
  shows "distinct (map ID xs)" "distinct (map (\<lambda>e. (Author e, Seq e)) xs)"
proof -
  have "x = y" if "x \<in> stored l" "y \<in> stored l" "ID x = ID y" for x y
    using core_lookup[OF assms(1), of "ID x" x] core_lookup[OF assms(1), of "ID x" y] that by simp
  moreover have "ID x = ID y" if "x \<in> stored l" "y \<in> stored l" "(Author x, Seq x) = (Author y, Seq y)" for x y
  proof -
    have "map_of (authorSeq l) (Author x, Seq x) = Some (ID x)" "map_of (authorSeq l) (Author x, Seq x) = Some (ID y)"
      using that by (auto simp: core_seq_lookup[OF assms(1)])
    then show ?thesis by simp
  qed
  ultimately have "inj_on ID (stored l)" "inj_on (\<lambda>e. (Author e, Seq e)) (stored l)" unfolding inj_on_def by blast+
  then show "distinct (map ID xs)" "distinct (map (\<lambda>e. (Author e, Seq e)) xs)"
    using assms(2,3) by (simp_all add: distinct_map)
qed

lemma core_events_distinct: "ledger_core l \<Longrightarrow> distinct (map snd (events l))"
proof -
  assume core: "ledger_core l"
  have d: "distinct (map fst (events l))" using core by (simp add: ledger_core_def)
  have "inj_on snd (set (events l))"
  proof (rule inj_onI)
    fix x y assume "x \<in> set (events l)" "y \<in> set (events l)" "snd x = snd y"
    then have "map_of (events l) (fst x) = Some (snd x)" "map_of (events l) (fst y) = Some (snd x)"
      using map_of_is_SomeI[OF d] by (metis prod.collapse)+
    then have "fst x = fst y" by (simp add: core_lookup[OF core])
    then show "x = y" using \<open>snd x = snd y\<close> by (simp add: prod_eq_iff)
  qed
  then show "distinct (map snd (events l))" using d by (simp add: distinct_map)
qed

text \<open>
  A ledger survives its snapshot: a reachable ledger of valid, well linked events that has a head is loaded back with the same events,
  the same sequence numbers, the same heads and the same anchors. The compromised keys are not part of a snapshot: after loading there are none.
\<close>

lemma snapshot_loads:
  assumes ok: "ledger_ok env l" and valid: "\<forall>e \<in> stored l. Validate env e = Inr ()" and "prev_linked l" "heads l \<noteq> []"
  shows "\<exists>l'. NewFromSnapshot env (snapshotOf now l) = Inr l' \<and> map_of (events l') = map_of (events l) \<and>
    map_of (authorSeq l') = map_of (authorSeq l) \<and> set (heads l') = set (heads l) \<and> anchors l' = anchors l \<and> compromised l' = []"
proof -
  have core: "ledger_core l" using ok by (simp add: ledger_ok_def)
  let ?evs = "sortEvents (map snd (events l))"
  have evs: "set ?evs = stored l" by (simp add: stored_def)
  have "distinct ?evs" using core_events_distinct[OF core] mset_eq_imp_distinct_iff[of ?evs "map snd (events l)"] by simp
  note d = core_distinct[OF core this evs]
  obtain m where m: "rfold (Add env) ?evs New = Inr m" "events m = map (\<lambda>e. (ID e, e)) ?evs"
      "authorSeq m = map (\<lambda>e. ((Author e, Seq e), ID e)) ?evs" "compromised m = []" "anchors m = []"
    using rfold_Add[OF d, of env] valid assms(3) unfolding evs prev_linked_def by blast
  have events: "map_of (events m) = map_of (events l)"
    using map_of_keyed[OF m(2) d(1)] core_lookup[OF core] unfolding evs by blast
  have seq: "map_of (authorSeq m) = map_of (authorSeq l)"
    using map_of_keyed[OF m(3) d(2)] core_seq_lookup[OF core] unfolding evs by blast
  have hs: "h \<noteq> '''' \<and> Have m h" if "h \<in> set (heads l)" for h
  proof -
    obtain e where e: "map_of (events l) h = Some e" using ok \<open>h \<in> set (heads l)\<close> by (auto simp: ledger_ok_def heads_ok_def)
    then have "e \<in> stored l" "ID e = h" by (simp_all add: core_lookup[OF core])
    moreover have "identified env e" using ok calculation(1) unfolding ledger_ok_def stored_def by blast
    ultimately have "TrimSpace h \<noteq> ''''" unfolding identified_def ValidateNoCrypto_Inr by blast
    then have "h \<noteq> ''''" by (metis TrimSpace_Nil)
    then show ?thesis using e events by (simp add: Have_def)
  qed
  then have kept: "filter (\<lambda>h. h \<noteq> '''' \<and> Have m h) (sort (heads l)) = sort (heads l)" by (intro filter_True) simp
  have "set (sort (heads l)) \<noteq> {}" using assms(4) by simp
  then have ne: "sort (heads l) \<noteq> []" by force
  have "NewFromSnapshot env (snapshotOf now l) = Inr (m\<lparr>heads := remdups (sort (heads l)), anchors := anchors l\<rparr>)"
  proof (cases "anchors l")
    case Nil
    then show ?thesis using m(1,5) ne by (simp add: NewFromSnapshot_def snapshotOf_def Let_def kept)
  next
    case Cons
    then show ?thesis using m(1) ne by (simp add: NewFromSnapshot_def snapshotOf_def Let_def kept)
  qed
  then show ?thesis using events seq m(4) by simp
qed


text \<open>
  A snapshot can be impossible to load. An event that arrives before its predecessor is stored without a check of it; when the named
  predecessor turns out to be older and by another author, or to have the wrong number, every load of the snapshot fails, because loading adds
  the events in the order of their times and checks the predecessor that is there by then.
\<close>

theorem snapshot_unloadable:
  assumes ok: "ledger_ok env l" and "e \<in> stored l" "q \<in> stored l" "Seq e > 1" "Prev e = ID q"
    and "Author q \<noteq> Author e \<or> Seq q + 1 \<noteq> Seq e" "(CreatedAt q, ID q) < (CreatedAt e, ID e)"
  shows "\<exists>err. NewFromSnapshot env (snapshotOf now l) = Inl err"
proof -
  have core: "ledger_core l" using ok by (simp add: ledger_ok_def)
  let ?evs = "sortEvents (map snd (events l))" and ?key = "\<lambda>e. (CreatedAt e, ID e)"
  obtain xs zs where split: "?evs = xs @ e # zs" using assms(2) by (metis sortEvents_facts(1) split_list stored_def list.set_map)
  have "sorted (map ?key ?evs)" by (simp add: sortEvents_def)
  then have "\<forall>z \<in> set (e # zs). ?key e \<le> ?key z" unfolding split by (auto simp: sorted_append)
  moreover have "q \<in> set ?evs" using assms(3) by (simp add: stored_def)
  ultimately have q: "q \<in> set xs" using assms(7) unfolding split by (auto simp: less_le_not_le)
  have "distinct ?evs" using core_events_distinct[OF core] mset_eq_imp_distinct_iff[of ?evs "map snd (events l)"] by simp
  then have ids: "distinct (map ID ?evs)" using core_distinct(1)[OF core] by (simp add: stored_def)
  have loaded: "(\<forall>x \<in> set ys. \<exists>y. Get m (ID x) = Some y) \<and> stored m \<subseteq> set ys" if "rfold (Add env) ys New = Inr m" for ys m
    using that
  proof (induction ys arbitrary: m rule: rev_induct)
    case Nil
    then show ?case by (auto simp: stored_def New_def)
  next
    case (snoc x ys)
    then obtain a where a: "rfold (Add env) ys New = Inr a" "Add env x a = Inr m" by (auto simp: rfold_snoc_Inr)
    show ?case using snoc.IH[OF a(1)] Add_Inr[OF a(2)]
      by (auto simp: storeEvent_stored Get_storeEvent Have_Get)
  qed
  have ok': "ledger_ok env m" if "rfold (Add env) ys New = Inr m" for ys m
    using that by (rule rfold_invariant) (auto simp: New_ok intro: extends_ok[OF Add_extends])
  have no: "\<exists>err. Add env e m = Inl err" if m: "rfold (Add env) xs New = Inr m" for m
  proof -
    obtain y where y: "Get m (ID q) = Some y" using loaded[OF m] q by blast
    then have "y \<in> stored m" "ID y = ID q" using ok'[OF m] by (simp_all add: Get_def core_lookup ledger_ok_def)
    then have "y = q" using loaded[OF m] q ids unfolding split by (auto simp: distinct_map inj_on_def)
    moreover have "\<not> Have m (ID e)"
    proof
      assume "Have m (ID e)"
      then obtain z where "z \<in> stored m" "ID z = ID e" using ok'[OF m] by (auto simp: Have_simps core_lookup ledger_ok_def)
      then have "ID e \<in> ID ` set xs" using loaded[OF m] by (metis image_eqI subsetD)
      then show False using ids unfolding split by simp
    qed
    ultimately show ?thesis using y assms(4-6) by (cases "Validate env e") (auto simp: Add_def prevError_def)
  qed
  have "\<exists>err. rfold (Add env) ?evs New = Inl err"
    unfolding split using no by (cases "rfold (Add env) xs New") (auto simp: rfold_append)
  then show ?thesis by (auto simp: NewFromSnapshot_def snapshotOf_def)
qed


section \<open>Attestations on request\<close>

lemma signPayload_payload:
  assumes "signPayload env now kind pl ob pos = Inr ev"
  shows "requireInlinePayload env dec ev = (case dec (leMarshal env pl) of None \<Rightarrow> Inl (Err ''json'') | Some x \<Rightarrow> Inr x)"
proof -
  obtain h ref i where made: "InlinePayloadRef env (leMarshal env pl) = Inr (h, ref)" and ev: "NewSignedEvent env now i = Inr ev"
    and i: "siPayload i = leMarshal env pl" "siPayloadRef i = ref"
    using assms by (force simp: signPayload_def Let_def split: prod.splits)
  have "leMarshal env pl \<noteq> []" using made by (auto simp: InlinePayloadRef_def split: if_splits)
  then show ?thesis using requireInlinePayload_made[OF made, of ev dec] NewSignedEvent_Inr(7,9)[OF ev] i by simp
qed

lemma emit_stored:
  assumes "emit env now p built l = (l', Inr ev)" "\<not> Have l (ID ev)"
  shows "built = Inr ev" "l' = storeEvent env False ev (l\<lparr>missingRefWeight := AList.delete (ID ev) (missingRefWeight l)\<rparr>)"
    "validateWithPolicy env now p ev = Inr ()"
  using assms by (auto simp: emit_def addLocked_def split: sum.splits if_splits)

text \<open>
  An attestation that the observer emits counts: when \<^verbatim>\<open>EmitWitnessAttest\<close> returns an event whose identifier is new, it is stored and valid, it has
  the observer's next number, and the observer's key, which has weight in the context, is from then on among the witnesses of the attested
  event there. The JSON codec is assumed to decode what it encodes.
\<close>

theorem emitted_attestation_counts:
  assumes emitted: "EmitWitnessAttest env now ctx i pol (Some ob) l = (l', Inr ev)" and new: "\<not> Have l (ID ev)"
    and codec: "\<And>pl. leAttestation env (leMarshal env (Attestation pl)) = Some pl"
  shows "Get l' (ID ev) = Some ev \<and> Validate env ev = Inr () \<and> Seq ev = fst (nextSeqLocked (obAuthor ob) l) \<and>
    EncodeToString (obAuthorPub ob) \<in> attesters l' (TrimSpace i) (TrimSpace ctx) \<and>
    Weight (Trust (policyOr pol)) (TrimSpace ctx) (EncodeToString (obAuthorPub ob)) > 0"
proof -
  let ?p = "policyOr pol" and ?pl = "\<lparr>atEventID = TrimSpace i, atContext = TrimSpace ctx, atLevel = ''''\<rparr>"
  let ?built = "buildWitnessAttestation env now (TrimSpace ctx) (TrimSpace i) ob (nextSeqLocked (obAuthor ob) l)"
  have e: "emit env now ?p ?built l = (l', Inr ev)" and w: "Weight (Trust ?p) (TrimSpace ctx) (EncodeToString (obAuthorPub ob)) > 0"
    using emitted by (auto simp: EmitWitnessAttest_def withObserver_def Let_def split: sum.splits if_splits)
  note st = emit_stored[OF e new]
  have sign: "signPayload env now KindWitnessAttest (Attestation ?pl) ob (nextSeqLocked (obAuthor ob) l) = Inr ev"
    using st(1) by (simp add: buildWitnessAttestation_def)
  have "Seq ev = fst (nextSeqLocked (obAuthor ob) l)"
    using sign NewSignedEvent_Inr(5) by (fastforce simp: signPayload_def Let_def split: prod.splits)
  moreover have "requireInlinePayload env (leAttestation env) ev = Inr ?pl" by (simp add: signPayload_payload[OF sign] codec)
  then have "(TrimSpace i, TrimSpace ctx, AuthorKeyB64 ev) \<in> set (attestations l')"
    using signPayload_kind(1)[OF sign] by (simp add: st(2) storeEvent_def indexLocked_def kind_trim)
  ultimately show ?thesis using w signPayload_kind(3,4)[OF sign] by (simp add: st(2) Get_storeEvent attesters_def)
qed


section \<open>Witnesses\<close>

text \<open>
  Ledgers of the sample environment: an author's first event, a rival with the same number, an event with a predecessor by another author, and an
  attestation by the observer.
\<close>

abbreviation sample_first :: Event where "sample_first \<equiv> sample_event ''a'' 5 1 ''''"
abbreviation sample_rival :: Event where "sample_rival \<equiv> sample_event ''a'' 6 1 ''''"
abbreviation sample_second :: Event where "sample_second \<equiv> sample_event ''b'' 8 2 ''NQ''"

definition sample_now :: gotime where "sample_now = time_Unix 7"

lemma sample_first_valid: "Validate sample_env sample_first = Inr ()" "Validate sample_env sample_rival = Inr ()"
  "Validate sample_env sample_second = Inr ()"
  by (rule sample_valid; simp add: plain_char_def)+

lemma sample_fields [simp]: "ID (sample_event a n s p) = sample_ID n" "Author (sample_event a n s p) = a" "Seq (sample_event a n s p) = s"
  "Prev (sample_event a n s p) = p" "Parents (sample_event a n s p) = None" "Kind (sample_event a n s p) = KindGroupCreate"
  "CreatedAt (sample_event a n s p) = int n" "AuthorKeyB64 (sample_event a n s p) = EncodeToString sample_key"
  by (simp_all add: sample_event_def sample_ID_def)

lemma sample_policy_valid:
  assumes "Validate sample_env (sample_event a n s p) = Inr ()" "n < 10"
  shows "validateWithPolicy sample_env sample_now (policyOr None) (sample_event a n s p) = Inr ()"
proof -
  have "int n \<le> Unix (sample_now + 10 * minute)" using assms(2)
    by (simp add: sample_now_def Unix_def time_Unix_def minute_def second_def unix_offset_def)
  then show ?thesis using assms(1)
    by (simp add: validateWithPolicy_def policyOr_def DefaultPolicy_def validateKindPayload_def kind_defs)
qed

definition sample_ops :: "ledger_op list" where
  "sample_ops = [OpApply sample_now '''' None None sample_first]"

definition sample_ledger :: Ledger where
  "sample_ledger = New\<lparr>events := [(''NQ'', sample_first)], heads := [''NQ''], authorSeq := [((''a'', 1), ''NQ'')]\<rparr>"

lemma sample_apply_New: "ApplyWithContext sample_env sample_now '''' None None sample_first New = (sample_ledger, Inr StatusAccepted)"
  using sample_policy_valid[OF sample_first_valid(1)]
  by (simp add: ApplyWithContext_def Let_def applyLocked_def checkedAdd_def Have_def prevError_def New_def addLocked_def seqTaken_def
      autoWitnessAfterApplyLocked_def storeEvent_def updateHeads_def refList_def trackMissingRefsLocked_def indexLocked_def
      sample_ledger_def affectsHeads_def kind_defs)

lemma sample_run: "fst (run (ledger_step sample_env) sample_ops New) = sample_ledger"
  by (simp add: sample_ops_def error_of_def sample_apply_New)

theorem sequence_numbers_unique_witness:
  "stored sample_ledger = {sample_first} \<and> (\<exists>e. Get sample_ledger ''NQ'' = Some e)"
  using sequence_numbers_unique[of sample_env sample_ops] unfolding sample_run
  by (auto simp: stored_def sample_ledger_def)

theorem ledger_append_only_witness:
  "Get (fst (run (ledger_step sample_env) [OpAdd sample_rival] sample_ledger)) ''NQ'' = Some sample_first"
  using ledger_append_only[of sample_ledger "''NQ''" sample_first sample_env "[OpAdd sample_rival]"]
  by (simp add: Get_def sample_ledger_def)

theorem equivocation_detected_witness:
  "\<exists>err. snd (ApplyWithContext sample_env sample_now '''' None None sample_rival sample_ledger) = Inl (EquivocationError err) \<and>
     EventA err = ''NQ'' \<and> EventB err = ''Ng''"
proof -
  have "snd (ApplyWithContext sample_env sample_now '''' None None sample_rival sample_ledger) =
      Inl (EquivocationError (evidence sample_first sample_rival))"
    using equivocation_detected[of sample_env sample_ops sample_first sample_rival sample_now None "''''" None]
      sample_policy_valid[OF sample_first_valid(2)]
    unfolding sample_run by (simp add: Get_def sample_ledger_def)
  moreover have "EventA (evidence sample_first sample_rival) = ''NQ''" "EventB (evidence sample_first sample_rival) = ''Ng''"
    by (simp_all add: evidence_def min_def max_def less_char_def less_eq_char_def)
  ultimately show ?thesis by blast
qed

theorem apply_verified_equiv_witness:
  "ApplyVerifiedWithContext sample_env sample_now '''' None None sample_first New = (sample_ledger, Inr StatusAccepted)"
  using apply_verified_equiv[of sample_env sample_first sample_now "''''" None None New] sample_first_valid(1)
  by (simp add: sample_apply_New Validate_split)


lemma sample_add_New: "Add sample_env sample_first New = Inr sample_ledger"
  using sample_first_valid(1)
  by (simp add: Add_def Have_def seqTaken_def prevError_def New_def storeEvent_def updateHeads_def refList_def trackMissingRefsLocked_def
      indexLocked_def sample_ledger_def affectsHeads_def kind_defs)

theorem heads_incremental_witness: "set (heads sample_ledger) = {''NQ''} \<and> set (heads (recomputeHeadsLocked sample_ledger)) = {''NQ''}"
proof -
  have "rfold (Add sample_env) [sample_first] New = Inr sample_ledger" by (simp add: sample_add_New)
  then have "set (heads sample_ledger) = set (heads (recomputeHeadsLocked sample_ledger))"
    using heads_incremental[of sample_env "[sample_first]" sample_ledger] by (simp add: refList_def)
  then show ?thesis by (simp add: sample_ledger_def)
qed

text \<open>Confirmation: the observer attests the first event and reaches the threshold.\<close>

definition sample_policy :: Policy where
  "sample_policy = DefaultPolicy\<lparr>Trust := \<lparr>Witnesses = [''c'' \<mapsto> [EncodeToString sample_key \<mapsto> 2]], Thresholds = [''c'' \<mapsto> 2], DefaultThreshold = 0\<rparr>\<rparr>"

definition sample_observer :: Observer where
  "sample_observer = \<lparr>obAuthor = ''o'', obAuthorPub = sample_key, obAuthorPriv = replicate 64 1\<rparr>"

abbreviation sample_attest where
  "sample_attest \<equiv> EmitWitnessAttest sample_env sample_now ''c'' ''NQ'' (Some sample_policy) (Some sample_observer)"

lemma sample_trim [simp]: "TrimSpace ''c'' = ''c''" "TrimSpace ''NQ'' = ''NQ''" "TrimSpace ''o'' = ''o''"
  by (simp_all add: TrimSpace_plain plain_char_def)

lemma sample_weight: "Weight (Trust sample_policy) ''c'' (EncodeToString sample_key) = 2"
  by (simp add: Weight_def sample_policy_def)

definition sample_raw :: bytes where
  "sample_raw = sample_marshal (Attestation \<lparr>atEventID = ''NQ'', atContext = ''c'', atLevel = ''''\<rparr>)"

definition sample_attestation_event :: Event where
  "sample_attestation_event = \<lparr>SchemaVersion = 1, ID = ''Nw'', CreatedAt = 7, Author = ''o'', AuthorKeyB64 = EncodeToString sample_key, Seq = 1,
     Prev = '''', Parents = Some [''NQ''], Kind = KindWitnessAttest, PayloadHashB64 = EncodeToString (sample_sha sample_raw),
     PayloadRef = InlinePayloadPrefix @ EncodeToString sample_raw, SigB64 = EncodeToString (replicate 64 7)\<rparr>"

lemma sample_raw_length: "sample_raw \<noteq> []" "length sample_raw \<le> 4096" "length (EncodeToString sample_raw) \<le> 1000"
  by (simp_all add: sample_raw_def EncodeToString_def)

lemma sample_attestation_valid: "Validate sample_env sample_attestation_event = Inr ()"
  by (rule sample_validI[of _ 7])
    (use sample_raw_length in \<open>simp_all add: sample_attestation_event_def kind_defs plain_char_def InlinePayloadPrefix_def\<close>)

lemma sample_attestation_built:
  "buildWitnessAttestation sample_env sample_now ''c'' ''NQ'' sample_observer (1, '''', [''NQ'']) = Inr sample_attestation_event"
proof -
  have now: "sample_now \<noteq> 0" "Unix sample_now = 7" by (simp_all add: sample_now_def) (simp add: time_Unix_def second_def unix_offset_def)
  have ref: "InlinePayloadRef sample_env sample_raw = Inr (EncodeToString (sample_sha sample_raw), InlinePayloadPrefix @ EncodeToString sample_raw)"
    using sample_raw_length by (simp add: InlinePayloadRef_def sample_env_def ledger_consts)
  have marshal: "leMarshal sample_env (Attestation \<lparr>atEventID = ''NQ'', atContext = ''c'', atLevel = ''''\<rparr>) = sample_raw"
    by (simp add: sample_raw_def sample_env_def)
  define i where "i = \<lparr>siAuthor = ''o'', siAuthorPub = sample_key, siAuthorPriv = replicate 64 1, siSeq = 1, siPrev = '''', siParents = [''NQ''],
      siKind = KindWitnessAttest, siPayload = sample_raw, siPayloadRef = InlinePayloadPrefix @ EncodeToString sample_raw, siCreatedAt = sample_now,
      siJitterMax = 0, siBucket = 0, siRand = None\<rparr>"
  have fields: "siAuthor i = ''o''" "siAuthorPub i = sample_key" "length (siAuthorPriv i) = 64" "siKind i = KindWitnessAttest" "siParents i = [''NQ'']"
      "siPayloadRef i = InlinePayloadPrefix @ EncodeToString sample_raw" by (simp_all add: i_def)
  have u: "unsignedEvent sample_env sample_now i = sample_attestation_event\<lparr>ID := '''', SigB64 := ''''\<rparr>"
    using now sample_raw_length(1)
    by (simp add: i_def unsignedEvent_def sample_attestation_event_def normalizeIDSet_def Let_def SchemaV1_def kind_trim InlinePrefix_trim sample_env_def)
  have "unsignedHash sample_env (sample_attestation_event\<lparr>ID := '''', SigB64 := ''''\<rparr>) = [word_of_nat (48 + 7)]"
    by (rule sample_hash) (simp_all add: sample_attestation_event_def)
  moreover have "EncodeToString [word_of_nat (48 + 7)] = ''Nw''" using sample_ID_eval(3) by (simp add: sample_ID_def)
  ultimately have signed: "(sample_attestation_event\<lparr>ID := EncodeToString (unsignedHash sample_env (sample_attestation_event\<lparr>ID := '''', SigB64 := ''''\<rparr>)),
      SigB64 := EncodeToString (replicate 64 7)\<rparr>) = sample_attestation_event"
    by (simp add: sample_attestation_event_def)
  have "leSign sample_env k h = replicate 64 7" for k h by (simp add: sample_env_def)
  moreover have "length sample_key = 32" "length KindWitnessAttest \<le> 64" "KindWitnessAttest \<noteq> []" by (simp_all add: sample_key_def kind_defs)
  ultimately have "NewSignedEvent sample_env sample_now i = Inr sample_attestation_event"
    using sample_raw_length sample_attestation_valid signed
    by (simp add: NewSignedEvent_def Let_def u kind_trim fields ledger_consts InlinePayloadPrefix_def)
  then show ?thesis using ref by (simp add: buildWitnessAttestation_def signPayload_def Let_def marshal sample_observer_def i_def)
qed

lemma sample_attestation_policy: "validateWithPolicy sample_env sample_now sample_policy sample_attestation_event = Inr ()"
proof -
  have "requireInlinePayload sample_env (leAttestation sample_env) sample_attestation_event =
      Inr \<lparr>atEventID = ''NQ'', atContext = ''c'', atLevel = ''''\<rparr>"
    using signPayload_payload[OF sample_attestation_built[unfolded buildWitnessAttestation_def], of "leAttestation sample_env"]
    by (simp add: sample_codec)
  moreover have "Kind sample_attestation_event = KindWitnessAttest" "CreatedAt sample_attestation_event = 7"
    "AuthorKeyB64 sample_attestation_event = EncodeToString sample_key" by (simp_all add: sample_attestation_event_def)
  ultimately have "validateKindPayload sample_env sample_policy sample_attestation_event = Inr ()"
    by (simp add: validateKindPayload_def validateAttestation_def MaxContextLen_def sample_weight)
  moreover have "7 \<le> Unix (sample_now + 10 * minute)"
    by (simp add: sample_now_def Unix_def time_Unix_def minute_def second_def unix_offset_def)
  moreover have "MaxClockSkew sample_policy = 10 * minute" "MaxEventAge sample_policy = 0" "AllowUnknownKinds sample_policy"
    by (simp_all add: sample_policy_def DefaultPolicy_def)
  ultimately show ?thesis using sample_attestation_valid \<open>CreatedAt sample_attestation_event = 7\<close>
    by (simp add: validateWithPolicy_def)
qed

lemma sample_attest_ok: "\<exists>l'. sample_attest sample_ledger = (l', Inr sample_attestation_event) \<and> \<not> Have sample_ledger (ID sample_attestation_event)"
proof -
  have pos: "nextSeqLocked ''o'' sample_ledger = (1, '''', [''NQ''])"
    by (simp add: nextSeqLocked_def maxSeq_def sample_ledger_def Let_def MaxParents_def)
  have ob: "observerValid sample_observer = Inr ()" "obAuthor sample_observer = ''o''" "obAuthorPub sample_observer = sample_key"
    by (simp_all add: observerValid_def sample_observer_def sample_key_def ledger_consts)
  have new: "\<not> Have sample_ledger (ID sample_attestation_event)" "Have sample_ledger ''NQ''" "\<not> seqTaken sample_attestation_event sample_ledger"
    by (simp_all add: Have_def sample_ledger_def seqTaken_def sample_attestation_event_def New_def)
  then have "emit sample_env sample_now sample_policy (Inr sample_attestation_event) sample_ledger =
      (storeEvent sample_env False sample_attestation_event (sample_ledger\<lparr>missingRefWeight :=
         AList.delete (ID sample_attestation_event) (missingRefWeight sample_ledger)\<rparr>), Inr sample_attestation_event)"
    by (simp add: emit_def addLocked_def sample_attestation_policy)
  then show ?thesis using new sample_attestation_built sample_weight
    by (simp add: EmitWitnessAttest_def withObserver_def ob Let_def policyOr_def pos)
qed

theorem emitted_attestation_counts_witness:
  "EncodeToString sample_key \<in> attesters (fst (sample_attest sample_ledger)) ''NQ'' ''c''"
proof -
  obtain l' where l': "sample_attest sample_ledger = (l', Inr sample_attestation_event)" "\<not> Have sample_ledger (ID sample_attestation_event)"
    using sample_attest_ok by blast
  have "EncodeToString (obAuthorPub sample_observer) \<in> attesters l' (TrimSpace ''NQ'') (TrimSpace ''c'')"
    using emitted_attestation_counts[OF l' sample_codec] by blast
  moreover have "obAuthorPub sample_observer = sample_key" by (simp add: sample_observer_def)
  ultimately show ?thesis by (simp add: l'(1))
qed


definition sample_attested :: Ledger where
  "sample_attested = fst (sample_attest sample_ledger)"

lemma sample_attested_state:
  "events sample_attested = [(''NQ'', sample_first), (''Nw'', sample_attestation_event)]" "heads sample_attested = [''NQ'']"
  "attestations sample_attested = [(''NQ'', ''c'', EncodeToString sample_key)]" "compromised sample_attested = []" "anchors sample_attested = []"
proof -
  obtain l' where l': "sample_attest sample_ledger = (l', Inr sample_attestation_event)" "\<not> Have sample_ledger (ID sample_attestation_event)"
    using sample_attest_ok by blast
  have e: "emit sample_env sample_now sample_policy
      (buildWitnessAttestation sample_env sample_now ''c'' ''NQ'' sample_observer (nextSeqLocked (obAuthor sample_observer) sample_ledger)) sample_ledger =
      (l', Inr sample_attestation_event)"
    using l'(1) by (auto simp: EmitWitnessAttest_def withObserver_def Let_def policyOr_def split: sum.splits if_splits)
  note st = emit_stored[OF e l'(2)]
  have payload: "requireInlinePayload sample_env (leAttestation sample_env) sample_attestation_event =
      Inr \<lparr>atEventID = ''NQ'', atContext = ''c'', atLevel = ''''\<rparr>"
    using signPayload_payload[OF sample_attestation_built[unfolded buildWitnessAttestation_def], of "leAttestation sample_env"]
    by (simp add: sample_codec)
  have fields: "Kind sample_attestation_event = KindWitnessAttest" "AuthorKeyB64 sample_attestation_event = EncodeToString sample_key"
    "ID sample_attestation_event = ''Nw''" by (simp_all add: sample_attestation_event_def)
  have s: "sample_attested = storeEvent sample_env False sample_attestation_event (sample_ledger\<lparr>missingRefWeight :=
      AList.delete (ID sample_attestation_event) (missingRefWeight sample_ledger)\<rparr>)" using st(2) l'(1) by (simp add: sample_attested_def)
  show "events sample_attested = [(''NQ'', sample_first), (''Nw'', sample_attestation_event)]" "heads sample_attested = [''NQ'']"
    "compromised sample_attested = []" "anchors sample_attested = []"
    unfolding s by (simp_all add: storeEvent_core storeEvent_heads fields affectsHeads_def sample_ledger_def New_def)
  show "attestations sample_attested = [(''NQ'', ''c'', EncodeToString sample_key)]"
    unfolding s by (simp add: storeEvent_def indexLocked_def payload fields New_def sample_ledger_def)
qed

definition attest_ops :: "ledger_op list" where
  "attest_ops = sample_ops @ [OpAttest sample_now ''c'' ''NQ'' (Some sample_policy) (Some sample_observer)]"

lemma attest_run: "fst (run (ledger_step sample_env) attest_ops New) = sample_attested"
  by (simp add: attest_ops_def run_append Let_def sample_run error_of_def sample_attested_def)

lemma sample_attested_ok: "ledger_ok sample_env sample_attested" "ledger_ok sample_env sample_ledger"
  using ledger.run_inv[OF New_ok, of sample_env attest_ops] ledger.run_inv[OF New_ok, of sample_env sample_ops]
  by (simp_all add: attest_run sample_run)


text \<open>Retention: the attestation is older than a minute and neither a head nor referenced.\<close>

definition sample_retention :: RetentionPolicy where
  "sample_retention = \<lparr>MaxEvents = 0, MaxAge = minute, CriticalOnly = False\<rparr>"

lemma sample_retention_pruned:
  "ApplyRetention sample_env (\<lambda>xs. xs) (time_Unix 1000) sample_retention sample_attested =
     (fst (ApplyRetention sample_env (\<lambda>xs. xs) (time_Unix 1000) sample_retention sample_attested), 1)"
proof -
  have time: "Unix (time_Unix 1000 - minute) = 940"
    by (simp add: Unix_def time_Unix_def minute_def second_def unix_offset_def)
  have fields: "CreatedAt sample_attestation_event = 7" "refList sample_attestation_event = [''NQ'']" "refList sample_first = []"
    by (simp_all add: sample_attestation_event_def refList_def)
  have keep: "retained sample_retention [''NQ''] (referenced sample_attested) eid ev \<longleftrightarrow> eid = ''NQ''" for eid ev
    by (simp add: retained_def sample_attested_state referenced_def fields sample_retention_def)
  have pol: "MaxAge sample_retention = minute" "MaxEvents sample_retention = 0" "minute > 0"
    by (simp_all add: sample_retention_def minute_def second_def)
  then show ?thesis
    by (simp add: ApplyRetention_def Let_def time keep sample_attested_state fields)
qed

lemma sample_core: "ledger_core sample_attested"
  using sample_attested_ok(1) by (simp add: ledger_ok_def)

theorem retention_keeps_witness:
  "Get (fst (ApplyRetention sample_env (\<lambda>xs. xs) (time_Unix 1000) sample_retention sample_attested)) ''NQ'' = Some sample_first"
  using retention_keeps[OF sample_core _ sample_retention_pruned, of "''NQ''" sample_first]
  by (simp add: Get_def sample_attested_state)

theorem retention_forgets_witness:
  "let l' = fst (ApplyRetention sample_env (\<lambda>xs. xs) (time_Unix 1000) sample_retention sample_attested);
       r = ApplyWithContext sample_env sample_now '''' None None sample_rival l'
   in snd r = Inr StatusAccepted \<and> Get (fst r) ''Ng'' = Some sample_rival \<and> compromised (fst r) = []"
proof -
  let ?l = "fst (ApplyRetention sample_env (\<lambda>xs. xs) (time_Unix 1000) sample_retention sample_attested)"
  obtain a where "?l = recomputeHeadsLocked (sample_attested\<lparr>events := kept_events (time_Unix 1000) sample_retention sample_attested,
      anchors := anchors sample_attested @ [a], authorSeq := [], heads := [], missingRefs := [], missingRefWeight := [], attestations := [],
      checkpoints := [], introductions := []\<rparr>)"
    using ApplyRetention_pruned[OF sample_core _ sample_retention_pruned] by auto
  moreover have "set (kept_events (time_Unix 1000) sample_retention sample_attested) \<subseteq> set (events sample_attested)"
    by (auto simp: kept_events_def Let_def)
  ultimately have "Get ?l ''Ng'' = None"
    by (auto simp: Get_def map_of_eq_None_iff sample_attested_state)
  then show ?thesis
    using retention_forgets[OF sample_core _ sample_retention_pruned, of sample_now None sample_rival "''''" "''a''"]
      sample_policy_valid[OF sample_first_valid(2)]
    by (auto simp: Let_def sample_attested_state)
qed


lemma ApplyWithContext_accept:
  assumes "validateWithPolicy env now (policyOr pol) ev = Inr ()" "\<not> Have l (ID ev)" "map_of (authorSeq l) (Author ev, Seq ev) = None"
    "prevError ev l = None" "\<not> RequireKnownPrev (policyOr pol)"
  shows "ApplyWithContext env now ctx pol None ev l =
    (storeEvent env False ev (l\<lparr>missingRefWeight := AList.delete (ID ev) (missingRefWeight l)\<rparr>), Inr StatusAccepted)"
  using assms by (simp add: ApplyWithContext_def Let_def applyLocked_def checkedAdd_def addLocked_def seqTaken_def autoWitnessAfterApplyLocked_def)

definition orphan_ops :: "ledger_op list" where
  "orphan_ops = [OpApply sample_now '''' None None sample_second, OpApply sample_now '''' None None sample_first]"

theorem snapshot_unloadable_witness:
  "let l = fst (run (ledger_step sample_env) orphan_ops New) in
   snd (run (ledger_step sample_env) orphan_ops New) = [None, None] \<and> (\<exists>err. NewFromSnapshot sample_env (snapshotOf sample_now l) = Inl err)"
proof -
  define l1 where "l1 = storeEvent sample_env False sample_second (New\<lparr>missingRefWeight := AList.delete (ID sample_second) (missingRefWeight New)\<rparr>)"
  define l where "l = storeEvent sample_env False sample_first (l1\<lparr>missingRefWeight := AList.delete (ID sample_first) (missingRefWeight l1)\<rparr>)"
  have p: "\<not> RequireKnownPrev (policyOr None)" by (simp add: policyOr_def DefaultPolicy_def)
  have s1: "ApplyWithContext sample_env sample_now '''' None None sample_second New = (l1, Inr StatusAccepted)"
    unfolding l1_def by (rule ApplyWithContext_accept[OF sample_policy_valid[OF sample_first_valid(3)] _ _ _ p])
      (simp_all add: Have_def New_def prevError_def Get_def)
  have s2: "ApplyWithContext sample_env sample_now '''' None None sample_first l1 = (l, Inr StatusAccepted)"
    unfolding l_def by (rule ApplyWithContext_accept[OF sample_policy_valid[OF sample_first_valid(1)] _ _ _ p])
      (simp_all add: Have_def New_def prevError_def Get_def storeEvent_core l1_def)
  have run: "run (ledger_step sample_env) orphan_ops New = (l, [None, None])"
    by (simp add: orphan_ops_def error_of_def s1 s2)
  have ok: "ledger_ok sample_env l" using ledger.run_inv[OF New_ok, of sample_env orphan_ops] by (simp add: run)
  have "sample_first \<in> stored l" "sample_second \<in> stored l"
    by (simp_all add: stored_def storeEvent_core New_def l_def l1_def)
  then have "\<exists>err. NewFromSnapshot sample_env (snapshotOf sample_now l) = Inl err"
    using snapshot_unloadable[OF ok, of sample_second sample_first sample_now] by simp
  then show ?thesis by (simp add: run)
qed

end
