(* ===== verification/Ledger_Store.thy ===== *)
theory Ledger_Store
  imports Ledger_Safety
begin

text \<open>
  The encrypted file of a ledger (\<^verbatim>\<open>pkg/ledger/store.go\<close>) and the range query of \<^verbatim>\<open>ledger.go\<close> that the synchronisation service uses to find the
  observer's new events.

  AES-GCM under the key of the store is \<open>gcmSeal\<close> and \<open>gcmOpen\<close>, with the nonce of a save as an argument; \<open>marshal\<close> and \<open>unmarshal\<close> are the JSON
  codec on snapshots. The file is \<open>None\<close> when it does not exist. Errors of the operating system are not modelled.
\<close>

section \<open>The store\<close>

datatype store_error = ErrCorruptStore | ErrDecryptionFailed | StoreUnmarshal | StoreSchema | StoreKeySize

record Store =
  stKey :: bytes
  stFile :: "bytes option"

record store_env =
  seSeal :: "bytes \<Rightarrow> bytes \<Rightarrow> string \<Rightarrow> bytes"
  seOpen :: "bytes \<Rightarrow> bytes \<Rightarrow> bytes \<Rightarrow> string option"
  seMarshal :: "Snapshot \<Rightarrow> string"
  seUnmarshal :: "string \<Rightarrow> Snapshot option"

definition emptySnapshot :: Snapshot where
  "emptySnapshot = \<lparr>snSchemaVersion = SchemaV1, snUpdatedAt = 0, snEvents = [], snHeads = [], snAnchors = []\<rparr>"

definition NewStore :: "bytes option \<Rightarrow> bytes \<Rightarrow> store_error + Store" where
  "NewStore file masterKey = (if length masterKey \<noteq> 32 then Inl StoreKeySize else Inr \<lparr>stKey = masterKey, stFile = file\<rparr>)"

definition snapshotSchema :: "Snapshot \<Rightarrow> store_error + Snapshot" where
  "snapshotSchema snap =
     (let snap' = (if snSchemaVersion snap = 0 then snap\<lparr>snSchemaVersion := SchemaV1\<rparr> else snap)
      in if snSchemaVersion snap' \<noteq> SchemaV1 then Inl StoreSchema else Inr snap')"

definition Load :: "store_env \<Rightarrow> Store \<Rightarrow> store_error + Snapshot" where
  "Load env s =
     (case stFile s of
        None \<Rightarrow> Inr emptySnapshot
      | Some raw \<Rightarrow>
          if raw = [] then Inr emptySnapshot
          else if length raw < GcmNonceSize then Inl ErrCorruptStore
          else case seOpen env (stKey s) (take GcmNonceSize raw) (drop GcmNonceSize raw) of
                 None \<Rightarrow> Inl ErrDecryptionFailed
               | Some pt \<Rightarrow> (case seUnmarshal env pt of None \<Rightarrow> Inl StoreUnmarshal | Some snap \<Rightarrow> snapshotSchema snap))"

definition Save :: "store_env \<Rightarrow> bytes \<Rightarrow> Snapshot \<Rightarrow> Store \<Rightarrow> Store \<times> (store_error + unit)" where
  "Save env nonce snap s =
     (case snapshotSchema snap of
        Inl e \<Rightarrow> (s, Inl e)
      | Inr snap' \<Rightarrow> (s\<lparr>stFile := Some (nonce @ seSeal env (stKey s) nonce (seMarshal env snap'))\<rparr>, Inr ()))"

text \<open>\<^verbatim>\<open>WipeOnSuspicion\<close>: the file is overwritten, the key zeroed, and the file removed.\<close>

definition WipeOnSuspicion :: "Store \<Rightarrow> Store" where
  "WipeOnSuspicion s = s\<lparr>stKey := replicate (length (stKey s)) 0, stFile := None\<rparr>"

section \<open>Queries\<close>

definition MissingRefs :: "Ledger \<Rightarrow> (string \<times> int) list" where "MissingRefs l = missingRefs l"

definition Anchors :: "Ledger \<Rightarrow> SnapshotAnchor list" where "Anchors l = anchors l"

text \<open>
  \<^verbatim>\<open>AuthorEventIDsBetween\<close> counts with 64 bit words up to and including the last number. \<open>None\<close> is a call that does not return: \<^verbatim>\<open>make\<close> panics on
  a negative capacity and on one above what can be allocated (\<open>maxCap\<close>), and the loop need not end.
\<close>

partial_function (option) idsLoop :: "Ledger \<Rightarrow> string \<Rightarrow> u64 \<Rightarrow> u64 \<Rightarrow> string list \<Rightarrow> string list option" where
  "idsLoop l author s toSeq out =
     (if s \<le> toSeq
      then idsLoop l author (s + 1) toSeq
             (case map_of (authorSeq l) (author, s) of None \<Rightarrow> out | Some i \<Rightarrow> if i \<noteq> '''' then out @ [i] else out)
      else Some out)"

definition AuthorEventIDsBetween :: "int \<Rightarrow> string \<Rightarrow> u64 \<Rightarrow> u64 \<Rightarrow> Ledger \<Rightarrow> string list option" where
  "AuthorEventIDsBetween maxCap author0 fromSeq toSeq l =
     (let author = TrimSpace author0; cap = sint (toSeq - fromSeq + 1) in
      if author = '''' \<or> fromSeq = 0 \<or> toSeq = 0 \<or> fromSeq > toSeq then Some []
      else if author \<notin> fst ` fst ` set (authorSeq l) then Some []
      else if cap < 0 \<or> cap > maxCap then None
      else idsLoop l author fromSeq toSeq [])"

section \<open>A ledger over a restart\<close>

lemma snapshotOf_schema: "snapshotSchema (snapshotOf now l) = Inr (snapshotOf now l)"
  by (simp add: snapshotSchema_def snapshotOf_def SchemaV1_def)

text \<open>
  C23. A ledger survives a restart: a ledger of valid, well linked events that has a head, saved and loaded back from the encrypted file, has the
  same events, the same sequence numbers, the same heads and the same anchors. The compromised keys are not part of what is saved: after the
  restart there are none. The cipher and the JSON codec are assumed to invert themselves.
\<close>

theorem ledger_survives_restart:
  assumes ok: "ledger_ok lenv l" and valid: "\<forall>e \<in> stored l. Validate lenv e = Inr ()" "prev_linked l" "heads l \<noteq> []"
    and codec: "seOpen env (stKey s) nonce (seSeal env (stKey s) nonce (seMarshal env (snapshotOf now l))) = Some (seMarshal env (snapshotOf now l))"
      "seUnmarshal env (seMarshal env (snapshotOf now l)) = Some (snapshotOf now l)" "length nonce = GcmNonceSize"
  shows "\<exists>s' snap l'. Save env nonce (snapshotOf now l) s = (s', Inr ()) \<and> Load env s' = Inr snap \<and> NewFromSnapshot lenv snap = Inr l' \<and>
    map_of (events l') = map_of (events l) \<and> map_of (authorSeq l') = map_of (authorSeq l) \<and> set (heads l') = set (heads l) \<and>
    anchors l' = anchors l \<and> compromised l' = []"
proof -
  let ?s' = "s\<lparr>stFile := Some (nonce @ seSeal env (stKey s) nonce (seMarshal env (snapshotOf now l)))\<rparr>"
  have "Save env nonce (snapshotOf now l) s = (?s', Inr ())" by (simp add: Save_def snapshotOf_schema)
  moreover have "Load env ?s' = Inr (snapshotOf now l)"
    using codec by (auto simp: Load_def snapshotOf_schema GcmNonceSize_def)
  ultimately show ?thesis using snapshot_loads[OF ok valid, of now] by blast
qed

section \<open>The range query\<close>

lemma idsLoop_returns:
  assumes "toSeq < -1" "unat s \<le> unat toSeq + 1"
  shows "idsLoop l author s toSeq out =
    Some (out @ List.map_filter (\<lambda>n. case map_of (authorSeq l) (author, word_of_nat n) of None \<Rightarrow> None | Some i \<Rightarrow> if i \<noteq> '''' then Some i else None)
      [unat s..<unat toSeq + 1])"
  using assms(2)
proof (induction "unat toSeq + 1 - unat s" arbitrary: s out)
  case 0
  then have "\<not> s \<le> toSeq" by (simp add: word_le_nat_alt)
  then show ?case using 0 by (simp add: idsLoop.simps List.map_filter_def)
next
  case (Suc n)
  then have le: "s \<le> toSeq" by (simp add: word_le_nat_alt)
  then have "s < -1" using assms(1) by simp
  then have "s + 1 \<noteq> 0" by (metis add_eq_0_iff2 less_irrefl)
  then have suc: "unat (s + 1) = unat s + 1" using unatSuc[of s] by (simp add: add.commute)
  have "[unat s..<unat toSeq + 1] = unat s # [unat (s + 1)..<unat toSeq + 1]" using le suc by (simp add: word_le_nat_alt upt_conv_Cons)
  moreover have "n = unat toSeq + 1 - unat (s + 1)" "unat (s + 1) \<le> unat toSeq + 1" using Suc.hyps(2) suc by simp_all
  ultimately show ?case using le Suc.hyps(1)[of "s + 1"]
    by (subst idsLoop.simps) (auto simp: List.map_filter_def split: option.split)
qed

lemma idsLoop_diverges: "idsLoop l author s (-1) out = None"
proof -
  have "toSeq \<noteq> -1" if "idsLoop l author s toSeq out = Some y" for toSeq y
    using idsLoop.raw_induct[where P = "\<lambda>_ _ _ t _ _. t \<noteq> -1", OF _ that] by (metis max_word_max option.discI word_order.extremum)
  then show ?thesis by (cases "idsLoop l author s (-1) out") auto
qed


text \<open>The events of an author with numbers from \<open>a\<close> to \<open>b\<close>, in order.\<close>

definition author_range :: "Ledger \<Rightarrow> string \<Rightarrow> u64 \<Rightarrow> u64 \<Rightarrow> string list" where
  "author_range l author a b = List.map_filter (\<lambda>n. map_of (authorSeq l) (author, word_of_nat n)) [unat a..<unat b + 1]"

lemma authorSeq_nonempty:
  assumes "ledger_ok env l" "map_of (authorSeq l) k = Some i"
  shows "i \<noteq> ''''"
proof -
  have core: "ledger_core l" using assms(1) by (simp add: ledger_ok_def)
  obtain e where e: "e \<in> stored l" "i = ID e" using assms(2) core_seq_lookup[OF core, of k i] by auto
  then have "identified env e" using assms(1) unfolding ledger_ok_def stored_def by blast
  then have "TrimSpace (ID e) \<noteq> ''''" unfolding identified_def ValidateNoCrypto_Inr by blast
  then show ?thesis using e(2) by (metis TrimSpace_Nil)
qed

lemma authorSeq_lookup_bounds: "map_of (authorSeq l) (a, s) = Some i \<Longrightarrow> a \<in> fst ` fst ` set (authorSeq l)"
  by (force dest: map_of_SomeD)

lemma author_range_none: "a \<notin> fst ` fst ` set (authorSeq l) \<Longrightarrow> author_range l a from to = []"
proof -
  assume "a \<notin> fst ` fst ` set (authorSeq l)"
  then have "map_of (authorSeq l) (a, s) = None" for s using authorSeq_lookup_bounds[of l a s] by (cases "map_of (authorSeq l) (a, s)") auto
  then show ?thesis by (simp add: author_range_def List.map_filter_def)
qed

text \<open>
  The range query returns the identifiers of the author's stored events in the range, in the order of their numbers, whenever the range can
  be allocated and does not end with the largest number. A range up to the largest number is never answered: the call panics or runs forever
  as soon as the author has any event.
\<close>

theorem author_range_returns:
  assumes "ledger_ok env l" "TrimSpace author \<noteq> ''''" "0 < from" "from \<le> to"
  shows "(to < -1 \<longrightarrow> int (unat to - unat from + 1) \<le> maxCap \<longrightarrow> maxCap < 2 ^ 63 \<longrightarrow>
      AuthorEventIDsBetween maxCap author from to l = Some (author_range l (TrimSpace author) from to)) \<and>
    (to = -1 \<longrightarrow> TrimSpace author \<in> fst ` fst ` set (authorSeq l) \<longrightarrow> AuthorEventIDsBetween maxCap author from to l = None)"
proof -
  let ?a = "TrimSpace author"
  have guard: "from \<noteq> 0" "to \<noteq> 0" "\<not> to < from" using assms(3,4) by auto
  have "AuthorEventIDsBetween maxCap author from to l = Some (author_range l ?a from to)"
    if to: "to < -1" and cap: "int (unat to - unat from + 1) \<le> maxCap" "maxCap < 2 ^ 63"
  proof (cases "?a \<in> fst ` fst ` set (authorSeq l)")
    case False
    then show ?thesis using guard assms(2) by (simp add: AuthorEventIDsBetween_def Let_def author_range_none)
  next
    case True
    have "unat (to - from + 1) = unat to - unat from + 1"
    proof -
      have "unat (to - from) = unat to - unat from" using assms(4) by (simp add: unat_sub)
      moreover have "unat to < 2 ^ 64 - 1" using to by (simp add: word_less_nat_alt unsigned_minus_1_eq_mask mask_eq_exp_minus_1)
      ultimately show ?thesis by (simp add: unat_word_ariths)
    qed
    then have sint: "sint (to - from + 1) = int (unat to - unat from + 1)"
      using cap unfolding sint_uint uint_nat by (simp add: signed_take_bit_int_eq_self)
    have "idsLoop l ?a from to [] = Some (author_range l ?a from to)"
    proof -
      have "(case map_of (authorSeq l) k of None \<Rightarrow> None | Some i \<Rightarrow> if i \<noteq> '''' then Some i else None) = map_of (authorSeq l) k" for k
        using authorSeq_nonempty[OF assms(1), of k] by (auto split: option.split)
      then show ?thesis using idsLoop_returns[OF to, of "from" l ?a "[]"] assms(4)
        by (simp add: author_range_def word_le_nat_alt)
    qed
    then show ?thesis using guard assms(2) True cap sint by (simp add: AuthorEventIDsBetween_def Let_def)
  qed
  moreover have "AuthorEventIDsBetween maxCap author from (-1) l = None" if "?a \<in> fst ` fst ` set (authorSeq l)"
    using that assms(2) guard(1) by (simp add: AuthorEventIDsBetween_def Let_def idsLoop_diverges)
  ultimately show ?thesis by auto
qed


section \<open>A claimed number\<close>

lemma maxSeq_fold:
  fixes mx n :: u64
  shows "mx \<le> fst (fold (\<lambda>((a, s), eid) (mx, mxID). if a = author \<and> s > mx then (s, eid) else (mx, mxID)) xs (mx, mi)) \<and>
   (((author, n), i) \<in> set xs \<longrightarrow>
     n \<le> fst (fold (\<lambda>((a, s), eid) (mx, mxID). if a = author \<and> s > mx then (s, eid) else (mx, mxID)) xs (mx, mi)))"
proof (induction xs arbitrary: mx mi)
  case (Cons x xs)
  obtain a s eid where x: "x = ((a, s), eid)" by (metis prod.collapse)
  show ?case
  proof (cases "a = author \<and> s > mx")
    case True
    then have "mx \<le> s" by (simp add: less_imp_le)
    then show ?thesis using True Cons[of s eid] by (auto simp: x intro: order_trans)
  next
    case False
    then have "((author, n), i) = x \<longrightarrow> n \<le> mx" by (auto simp: x)
    then show ?thesis using Cons[of mx mi] False by (auto simp: x)
  qed
qed simp

lemma AuthorMaxSeq_ge:
  assumes "map_of (authorSeq l) (TrimSpace author, n) = Some i" "TrimSpace author \<noteq> ''''"
  shows "n \<le> AuthorMaxSeq l author"
  using maxSeq_fold[where author = "TrimSpace author" and mx = 0 and mi = "''''" and xs = "authorSeq l"] map_of_SomeD[OF assms(1)] assms(2)
  by (simp add: AuthorMaxSeq_def maxSeq_def)

text \<open>
  The author of an event is only a name: nothing ties it to the key. Once any key has signed an event in the observer's name with the
  largest number, the observer can record nothing any more, because its next number wraps around to zero and no event with it is valid, and
  the query for its events up to its highest number, with which the service announces them, panics or runs forever.
\<close>

theorem largest_number_blocks_author:
  assumes ok: "ledger_ok env l" and e: "e \<in> stored l" "Author e = obAuthor ob" "Seq e = -1"
    and trim: "TrimSpace (obAuthor ob) = obAuthor ob" and "0 < from"
  shows "fst (nextSeqLocked (obAuthor ob) l) = 0 \<and>
    (\<forall>now kind pl prev parents. \<exists>err. signPayload env now kind pl ob (0, prev, parents) = Inl err) \<and>
    AuthorEventIDsBetween maxCap (obAuthor ob) from (AuthorMaxSeq l (obAuthor ob)) l = None"
proof -
  let ?a = "obAuthor ob"
  have core: "ledger_core l" using ok by (simp add: ledger_ok_def)
  have "identified env e" using ok e(1) unfolding ledger_ok_def stored_def by blast
  then have "TrimSpace (Author e) \<noteq> ''''" unfolding identified_def ValidateNoCrypto_Inr by blast
  then have a: "?a \<noteq> ''''" using e(2) by auto
  have seq: "map_of (authorSeq l) (?a, -1) = Some (ID e)" using core_seq_lookup[OF core] e by force
  then have top: "AuthorMaxSeq l (obAuthor ob) = -1" using AuthorMaxSeq_ge[of l ?a "-1" "ID e"] seq a by (simp add: trim word_order.extremum_unique)
  then have "fst (maxSeq ?a l) = -1" using a by (simp add: AuthorMaxSeq_def trim)
  then have "fst (nextSeqLocked ?a l) = 0" by (cases "maxSeq ?a l") (simp add: nextSeqLocked_def Let_def word_greater_zero_iff)
  moreover have "\<exists>err. signPayload env now kind pl ob (0, prev, parents) = Inl err" for now kind pl prev parents
  proof -
    have "NewSignedEvent env now i \<noteq> Inr ev" if "siSeq i = 0" for i ev
      using that by (auto simp: NewSignedEvent_def Let_def rbind_eq_Inr Validate_split ValidateNoCrypto_Inr unsignedEvent_def)
    then show ?thesis
      by (cases "signPayload env now kind pl ob (0, prev, parents)") (auto simp: signPayload_def Let_def rbind_eq_Inr)
  qed
  moreover have "AuthorEventIDsBetween maxCap (obAuthor ob) from (-1) l = None"
  proof -
    have "?a \<in> fst ` fst ` set (authorSeq l)" using seq by (rule authorSeq_lookup_bounds)
    moreover have "from \<noteq> 0" using assms(6) by auto
    ultimately show ?thesis using a by (simp add: AuthorEventIDsBetween_def Let_def idsLoop_diverges trim)
  qed
  ultimately show ?thesis by (simp add: top)
qed


section \<open>Witnesses\<close>

definition sample_store_env :: store_env where
  "sample_store_env = \<lparr>seSeal = (\<lambda>_ _ p. str_bytes p), seOpen = (\<lambda>_ _ c. Some (bytes_string c)), seMarshal = (\<lambda>_. ''{}''),
     seUnmarshal = (\<lambda>_. Some (snapshotOf sample_now sample_ledger))\<rparr>"

theorem ledger_survives_restart_witness:
  "\<exists>s snap l. Save sample_store_env (replicate 12 0) (snapshotOf sample_now sample_ledger) \<lparr>stKey = replicate 32 1, stFile = None\<rparr> = (s, Inr ()) \<and>
     Load sample_store_env s = Inr snap \<and> NewFromSnapshot sample_env snap = Inr l \<and> map_of (events l) = map_of (events sample_ledger)"
proof -
  have "stored sample_ledger = {sample_first}" by (simp add: stored_def sample_ledger_def)
  then have valid: "\<forall>e \<in> stored sample_ledger. Validate sample_env e = Inr ()" "prev_linked sample_ledger" "heads sample_ledger \<noteq> []"
    using sample_first_valid(1) by (simp_all add: prev_linked_def sample_ledger_def)
  have "bytes_string (str_bytes p) = p" for p
    by (simp add: bytes_string_def str_bytes_def unat_word_of_nat_byte comp_def map_idI)
  then show ?thesis
    using ledger_survives_restart[OF sample_attested_ok(2) valid, of sample_store_env "\<lparr>stKey = replicate 32 1, stFile = None\<rparr>" "replicate 12 0" sample_now]
    by (simp add: sample_store_env_def GcmNonceSize_def) blast
qed

theorem author_range_returns_witness:
  "AuthorEventIDsBetween 1000 ''a'' 1 3 sample_ledger = Some [''NQ''] \<and> AuthorEventIDsBetween 1000 ''a'' 1 (-1) sample_ledger = None"
proof -
  have a: "TrimSpace ''a'' = ''a''" by (simp add: TrimSpace_plain plain_char_def)
  have "author_range sample_ledger ''a'' 1 3 = [''NQ'']"
    by (simp add: author_range_def sample_ledger_def List.map_filter_def upt_rec)
  then show ?thesis
    using author_range_returns[OF sample_attested_ok(2), of "''a''" 1 3 1000] author_range_returns[OF sample_attested_ok(2), of "''a''" 1 "-1" 1000]
    by (simp add: a sample_ledger_def word_less_nat_alt word_le_nat_alt unsigned_minus_1_eq_mask mask_eq_exp_minus_1)
qed

text \<open>An event in the observer's name, with the largest number, under the sample key.\<close>

definition sample_squatter :: Event where "sample_squatter = sample_event ''o'' 9 (-1) ''NQ''"

theorem largest_number_blocks_author_witness:
  "let l = fst (run (ledger_step sample_env) [OpApply sample_now '''' None None sample_squatter] New)
   in sample_squatter \<in> stored l \<and> fst (nextSeqLocked (obAuthor sample_observer) l) = 0 \<and>
      AuthorEventIDsBetween 1000 ''o'' 1 (AuthorMaxSeq l ''o'') l = None"
proof -
  let ?l = "storeEvent sample_env False sample_squatter (New\<lparr>missingRefWeight := AList.delete (ID sample_squatter) (missingRefWeight New)\<rparr>)"
  have "Validate sample_env sample_squatter = Inr ()"
    unfolding sample_squatter_def by (rule sample_valid) (simp_all add: plain_char_def word_less_nat_alt unsigned_minus_1_eq_mask mask_eq_exp_minus_1)
  then have "validateWithPolicy sample_env sample_now (policyOr None) sample_squatter = Inr ()"
    unfolding sample_squatter_def by (rule sample_policy_valid) simp
  then have "ApplyWithContext sample_env sample_now '''' None None sample_squatter New = (?l, Inr StatusAccepted)"
    by (rule ApplyWithContext_accept)
      (simp_all add: Have_def New_def prevError_def Get_def policyOr_def DefaultPolicy_def)
  then have run: "fst (run (ledger_step sample_env) [OpApply sample_now '''' None None sample_squatter] New) = ?l" by (simp add: error_of_def)
  have ok: "ledger_ok sample_env ?l"
    using ledger.run_inv[OF New_ok, of sample_env "[OpApply sample_now '''' None None sample_squatter]"] by (simp only: run)
  have mem: "sample_squatter \<in> stored ?l" by (simp add: stored_def storeEvent_core New_def)
  have ob: "obAuthor sample_observer = ''o''" by (simp add: sample_observer_def)
  from largest_number_blocks_author[OF ok mem, of sample_observer 1 1000] show ?thesis
    using mem by (simp add: Let_def run ob del: run.simps) (simp add: sample_squatter_def)
qed

end
