(* ===== verification/Ledger_Sync.thy ===== *)
theory Ledger_Sync
  imports Ledger_Safety
begin

text \<open>
  The synchronisation of ledgers (\<^verbatim>\<open>pkg/ledger/sync.go\<close>): what a ledger advertises, which events it asks a peer for, which it
  sends, how it applies a message of events one by one or after a batch verification, and the cache of verified signatures.

  \<open>jsonLen\<close> is the length of \<^verbatim>\<open>json.Marshal(ev)\<close>, which does not fail on a struct of strings and numbers. The order in which the code iterates
  a map is an argument. The workers that verify signatures share nothing but the cache and the array of results, each entry of which one
  task writes: their effect is that of the tasks one after the other, in the order \<open>sched\<close>. \<^verbatim>\<open>runtime.Gosched\<close> has no effect on the state.
\<close>

section \<open>Messages\<close>

definition SyncSchemaV1 :: int where "SyncSchemaV1 = 1"

record HeadsMessage =
  hmSchemaVersion :: int
  hmHeads :: "string list"

record InventoryMessage =
  imSchemaVersion :: int
  imHeads :: "string list"
  imHave :: "string list"

record EventsMessage =
  emSchemaVersion :: int
  emEvents :: "Event list"

definition BuildHeadsMessage :: "Ledger \<Rightarrow> HeadsMessage" where
  "BuildHeadsMessage l = \<lparr>hmSchemaVersion = SyncSchemaV1, hmHeads = Heads l\<rparr>"

definition orDefault :: "int \<Rightarrow> nat \<Rightarrow> nat" where
  "orDefault n d = (if n \<le> 0 then d else nat n)"

definition BuildInventoryMessage :: "(string list \<Rightarrow> string list) \<Rightarrow> int \<Rightarrow> Ledger \<Rightarrow> InventoryMessage" where
  "BuildInventoryMessage order maxHave l =
     (let m = (if maxHave < 0 then 256 else nat maxHave)
      in \<lparr>imSchemaVersion = SyncSchemaV1, imHeads = sort (heads l), imHave = sort (take m (order (map fst (events l))))\<rparr>)"

definition PlanSyncFromInventory :: "(string list \<Rightarrow> string list) \<Rightarrow> InventoryMessage \<Rightarrow> int \<Rightarrow> Ledger \<Rightarrow> string list" where
  "PlanSyncFromInventory order peer maxWant l =
     sort (take (orDefault maxWant 256)
       (filter (\<lambda>i. \<not> (i \<noteq> '''' \<and> i \<in> set (imHave peer))) (order (map fst (events l)))))"

definition PlanSyncToPeer :: "(string list \<Rightarrow> string list) \<Rightarrow> InventoryMessage \<Rightarrow> int \<Rightarrow> Ledger \<Rightarrow> string list" where
  "PlanSyncToPeer order peer maxWant l = PlanSyncFromInventory order peer maxWant l"

record WantMessage =
  wmSchemaVersion :: int
  wmWant :: "string list"

definition mkWantMessage :: "string list \<Rightarrow> WantMessage" where
  "mkWantMessage plan = \<lparr>wmSchemaVersion = SyncSchemaV1, wmWant = plan\<rparr>"

text \<open>The order in which missing events are asked for: by weight, by the number of references, by identifier.\<close>

definition wantKey :: "Ledger \<Rightarrow> string \<Rightarrow> int \<times> int \<times> string" where
  "wantKey l i =
     (- (case map_of (missingRefWeight l) i of None \<Rightarrow> 0 | Some w \<Rightarrow> w), - (case map_of (missingRefs l) i of None \<Rightarrow> 0 | Some c \<Rightarrow> c), i)"

definition addWant :: "Ledger \<Rightarrow> string set \<Rightarrow> nat \<Rightarrow> string \<Rightarrow> string list \<Rightarrow> string list" where
  "addWant l peerHas maxWant i want =
     (if i = '''' \<or> length want \<ge> maxWant \<or> Have l i \<or> i \<notin> peerHas \<or> i \<in> set want then want else want @ [i])"

definition PlanSyncFromPeer :: "InventoryMessage \<Rightarrow> int \<Rightarrow> Ledger \<Rightarrow> string list" where
  "PlanSyncFromPeer peer maxWant l =
     (let n = orDefault maxWant 256;
          trimmed = (\<lambda>xs. filter (\<lambda>i. i \<noteq> '''') (map TrimSpace xs));
          peerHas = set (trimmed (imHave peer)) \<union> set (trimmed (imHeads peer));
          missing = sort_key (wantKey l) (trimmed (map fst (missingRefs l)));
          hs = sort_key (wantKey l) (map TrimSpace (imHeads peer))
      in fold (addWant l peerHas n) hs (fold (addWant l peerHas n) missing []))"

definition BuildEventsMessage :: "string list \<Rightarrow> int \<Rightarrow> Ledger \<Rightarrow> EventsMessage" where
  "BuildEventsMessage want maxEvents l =
     \<lparr>emSchemaVersion = SyncSchemaV1,
      emEvents = take (orDefault maxEvents 256)
        (List.map_filter (\<lambda>i. if TrimSpace i = '''' then None else Get l (TrimSpace i)) want)\<rparr>"

text \<open>The loop of the bounded message: \<open>seen\<close> identifiers, \<open>out\<close> events, \<open>used\<close> bytes.\<close>

fun boundedLoop ::
    "(Event \<Rightarrow> nat) \<Rightarrow> Ledger \<Rightarrow> nat \<Rightarrow> nat \<Rightarrow> nat \<Rightarrow> string list \<Rightarrow> string list \<Rightarrow> Event list \<Rightarrow> nat \<Rightarrow> Event list" where
  "boundedLoop jsonLen l maxEvents maxEventBytes maxMessageBytes [] seen out used = out"
| "boundedLoop jsonLen l maxEvents maxEventBytes maxMessageBytes (w # want) seen out used =
     (let i = TrimSpace w; next = boundedLoop jsonLen l maxEvents maxEventBytes maxMessageBytes want in
      if i = '''' \<or> i \<in> set seen then next seen out used
      else case Get l i of
             None \<Rightarrow> next (i # seen) out used
           | Some ev \<Rightarrow>
               if jsonLen ev > maxEventBytes then next (i # seen) out used
               else if used + jsonLen ev > maxMessageBytes then out
               else if length out + 1 \<ge> maxEvents then out @ [ev]
               else next (i # seen) (out @ [ev]) (used + jsonLen ev))"

definition BuildEventsMessageBounded :: "(Event \<Rightarrow> nat) \<Rightarrow> string list \<Rightarrow> int \<Rightarrow> int \<Rightarrow> int \<Rightarrow> Ledger \<Rightarrow> EventsMessage" where
  "BuildEventsMessageBounded jsonLen want maxEvents maxEventBytes maxMessageBytes l =
     \<lparr>emSchemaVersion = SyncSchemaV1,
      emEvents = boundedLoop jsonLen l (orDefault maxEvents 256) (orDefault maxEventBytes (256 * 1024))
        (orDefault maxMessageBytes (1024 * 1024)) want [] [] 0\<rparr>"

section \<open>The order of application\<close>

definition kindPriority :: "string \<Rightarrow> int" where
  "kindPriority kind =
     (let k = TrimSpace kind in
      if k \<in> set [KindIdentityRevoke, KindIdentityRotate, KindIdentityIntroduce] then 0
      else if k \<in> set [KindMisbehaviorEquivoc, KindMisbehaviorReplay, KindMisbehaviorSybil] then 1
      else if k \<in> set [KindWitnessCheckpoint, KindWitnessAttest] then 2
      else if k \<in> set [KindGroupMembership, KindGroupCreate, KindGroupJoin] then 3
      else if k = KindAgentAction then 4
      else if k = KindChatMessage then 5
      else if k \<in> set [KindSyncSummary, KindLedgerEvent] then 7
      else 10)"

text \<open>How often the events of a message refer to an identifier of the message.\<close>

definition refCount :: "Event list \<Rightarrow> string \<Rightarrow> int" where
  "refCount evs i =
     (if i \<noteq> '''' \<and> i \<in> set (map (TrimSpace \<circ> ID) evs)
      then int (length (filter (\<lambda>e. TrimSpace (Prev e) \<noteq> '''' \<and> Prev e = i) evs)) +
           (\<Sum>e \<leftarrow> evs. int (count_list (map TrimSpace (parents_of e)) i))
      else 0)"

definition orderEvents :: "Event list \<Rightarrow> Event list" where
  "orderEvents evs = sort_key (\<lambda>e. (kindPriority (Kind e), - refCount evs (ID e), CreatedAt e, ID e)) evs"

record ApplyReport =
  Applied :: nat
  Dupe :: nat
  Rejected :: nat

definition noReport :: ApplyReport where "noReport = \<lparr>Applied = 0, Dupe = 0, Rejected = 0\<rparr>"

text \<open>An event of a message: a known one is skipped, the others are applied.\<close>

definition applyOne ::
    "ledger_env \<Rightarrow> gotime \<Rightarrow> string \<Rightarrow> Policy option \<Rightarrow> Observer option \<Rightarrow> Event \<Rightarrow> Ledger \<times> ApplyReport \<Rightarrow> Ledger \<times> ApplyReport" where
  "applyOne env now context pol observer ev = (\<lambda>(l, rep).
     if Have l (ID ev) then (l, rep\<lparr>Dupe := Dupe rep + 1\<rparr>)
     else case ApplyWithContext env now context pol observer ev l of
            (l', Inl _) \<Rightarrow> (l', rep\<lparr>Rejected := Rejected rep + 1\<rparr>)
          | (l', Inr _) \<Rightarrow> (l', rep\<lparr>Applied := Applied rep + 1\<rparr>))"

definition ApplyEventsMessage ::
    "ledger_env \<Rightarrow> gotime \<Rightarrow> EventsMessage \<Rightarrow> string \<Rightarrow> Policy option \<Rightarrow> Observer option \<Rightarrow> Ledger \<Rightarrow> Ledger \<times> (ledger_error \<times> ApplyReport + ApplyReport)" where
  "ApplyEventsMessage env now msg context pol observer l =
     (if emSchemaVersion msg \<noteq> SyncSchemaV1 then (l, Inl (Err ''ledger: unsupported sync schema'', noReport))
      else let (l', rep) = fold (applyOne env now context pol observer) (orderEvents (emEvents msg)) (l, noReport) in (l', Inr rep))"

fun applyBounded ::
    "ledger_env \<Rightarrow> (Event \<Rightarrow> nat) \<Rightarrow> gotime \<Rightarrow> string \<Rightarrow> Policy option \<Rightarrow> Observer option \<Rightarrow> nat \<Rightarrow> nat \<Rightarrow> Event list \<Rightarrow> nat \<Rightarrow>
      Ledger \<times> ApplyReport \<Rightarrow> Ledger \<times> (ledger_error \<times> ApplyReport + ApplyReport)" where
  "applyBounded env jsonLen now context pol observer maxEventBytes maxMessageBytes [] used st = (fst st, Inr (snd st))"
| "applyBounded env jsonLen now context pol observer maxEventBytes maxMessageBytes (ev # evs) used st =
     (if jsonLen ev > maxEventBytes
      then applyBounded env jsonLen now context pol observer maxEventBytes maxMessageBytes evs used
             (fst st, (snd st)\<lparr>Rejected := Rejected (snd st) + 1\<rparr>)
      else if used + jsonLen ev > maxMessageBytes then (fst st, Inl (Err ''ledger: events message too large'', snd st))
      else applyBounded env jsonLen now context pol observer maxEventBytes maxMessageBytes evs (used + jsonLen ev)
             (applyOne env now context pol observer ev st))"

definition ApplyEventsMessageBounded ::
    "ledger_env \<Rightarrow> (Event \<Rightarrow> nat) \<Rightarrow> gotime \<Rightarrow> EventsMessage \<Rightarrow> string \<Rightarrow> Policy option \<Rightarrow> Observer option \<Rightarrow> int \<Rightarrow> int \<Rightarrow> int \<Rightarrow>
      Ledger \<Rightarrow> Ledger \<times> (ledger_error \<times> ApplyReport + ApplyReport)" where
  "ApplyEventsMessageBounded env jsonLen now msg context pol observer maxEvents maxEventBytes maxMessageBytes l =
     (if emSchemaVersion msg \<noteq> SyncSchemaV1 then (l, Inl (Err ''ledger: unsupported sync schema'', noReport))
      else if length (emEvents msg) > orDefault maxEvents 256 then (l, Inl (Err ''ledger: events message too large'', noReport))
      else applyBounded env jsonLen now context pol observer (orDefault maxEventBytes (256 * 1024)) (orDefault maxMessageBytes (1024 * 1024))
             (orderEvents (emEvents msg)) 0 (l, noReport))"

section \<open>Verified signatures\<close>

text \<open>
  \<^verbatim>\<open>VerifiedEventCache\<close>: the linked list from front to back with its entries; the map from keys to list elements is the lookup in it.
  \<open>None\<close> as a cache is the nil pointer.
\<close>

record VerifiedEventCache =
  cMax :: nat
  cTtl :: duration
  cEntries :: "(string \<times> gotime) list"

definition NewVerifiedEventCache :: "int \<Rightarrow> duration \<Rightarrow> VerifiedEventCache" where
  "NewVerifiedEventCache mx ttl = \<lparr>cMax = orDefault mx 4096, cTtl = (if ttl \<le> 0 then 10 * minute else ttl), cEntries = []\<rparr>"

definition cacheKey :: "string \<Rightarrow> string \<Rightarrow> string \<Rightarrow> string" where
  "cacheKey i authorKeyB64 sigB64 = i @ CHR 0x00 # authorKeyB64 @ CHR 0x00 # sigB64"

definition cacheMatch :: "string \<Rightarrow> string \<Rightarrow> string \<Rightarrow> gotime \<Rightarrow> VerifiedEventCache \<Rightarrow> VerifiedEventCache \<times> bool" where
  "cacheMatch i authorKeyB64 sigB64 now c =
     (let key = cacheKey i authorKeyB64 sigB64 in
      if cMax c = 0 \<or> cTtl c \<le> 0 then (c, False)
      else case map_of (cEntries c) key of
        None \<Rightarrow> (c, False)
      | Some e \<Rightarrow>
          if \<not> e > now then (c\<lparr>cEntries := AList.delete key (cEntries c)\<rparr>, False)
          else (c\<lparr>cEntries := (key, e) # AList.delete key (cEntries c)\<rparr>, True))"

definition cachePut :: "string \<Rightarrow> string \<Rightarrow> string \<Rightarrow> gotime \<Rightarrow> VerifiedEventCache \<Rightarrow> VerifiedEventCache" where
  "cachePut i authorKeyB64 sigB64 now c =
     (if cMax c = 0 \<or> cTtl c \<le> 0 then c
      else let key = cacheKey i authorKeyB64 sigB64; fresh = (key, now + cTtl c) # AList.delete key (cEntries c) in
      if map_of (cEntries c) key \<noteq> None then c\<lparr>cEntries := fresh\<rparr>
      else c\<lparr>cEntries := take (cMax c) fresh\<rparr>)"

text \<open>The signature check of a worker.\<close>

definition checkSig :: "ledger_env \<Rightarrow> Event \<Rightarrow> bool" where
  "checkSig env ev =
     (case (AuthorPublicKey ev, DecodeString (SigB64 ev)) of
        (Inr pub, Some sig) \<Rightarrow> leVerify env pub (unsignedHash env ev) sig
      | _ \<Rightarrow> False)"

section \<open>Batch application\<close>

text \<open>
  \<^verbatim>\<open>ApplyEventsMessageBoundedOptimized\<close>. The first loop marks every event: skipped (too large, empty or repeated identifier, known, or
  invalid without a look at the signature), verified by the cache, or a task for the workers.
\<close>

datatype mark = Skip | CacheHit | Task

definition matchOpt :: "Event \<Rightarrow> gotime \<Rightarrow> VerifiedEventCache option \<Rightarrow> VerifiedEventCache option \<times> bool" where
  "matchOpt ev now cache =
     (case cache of None \<Rightarrow> (None, False)
      | Some c \<Rightarrow> (case cacheMatch (ID ev) (AuthorKeyB64 ev) (SigB64 ev) now c of (c', hit) \<Rightarrow> (Some c', hit)))"

definition putOpt :: "gotime \<Rightarrow> Event \<Rightarrow> VerifiedEventCache option \<Rightarrow> VerifiedEventCache option" where
  "putOpt now ev cache = map_option (cachePut (ID ev) (AuthorKeyB64 ev) (SigB64 ev) now) cache"

definition addMark ::
    "Event \<Rightarrow> mark \<Rightarrow> VerifiedEventCache option \<times> (ledger_error \<times> ApplyReport + (Event \<times> mark) list \<times> ApplyReport) \<Rightarrow>
      VerifiedEventCache option \<times> (ledger_error \<times> ApplyReport + (Event \<times> mark) list \<times> ApplyReport)" where
  "addMark ev m r = (case r of (c, Inl e) \<Rightarrow> (c, Inl e) | (c, Inr (ms, rep)) \<Rightarrow> (c, Inr ((ev, m) # ms, rep)))"

fun markLoop ::
    "ledger_env \<Rightarrow> (Event \<Rightarrow> nat) \<Rightarrow> gotime \<Rightarrow> Policy \<Rightarrow> nat \<Rightarrow> nat \<Rightarrow> Ledger \<Rightarrow> Event list \<Rightarrow> nat \<Rightarrow> string list \<Rightarrow> ApplyReport \<Rightarrow>
      VerifiedEventCache option \<Rightarrow> VerifiedEventCache option \<times> (ledger_error \<times> ApplyReport + (Event \<times> mark) list \<times> ApplyReport)" where
  "markLoop env jsonLen now p maxEventBytes maxMessageBytes l [] used seen rep cache = (cache, Inr ([], rep))"
| "markLoop env jsonLen now p maxEventBytes maxMessageBytes l (ev # evs) used seen rep cache =
     (let next = markLoop env jsonLen now p maxEventBytes maxMessageBytes l evs;
          add = addMark ev;
          rejected = rep\<lparr>Rejected := Rejected rep + 1\<rparr>; dupe = rep\<lparr>Dupe := Dupe rep + 1\<rparr>; i = TrimSpace (ID ev)
      in if jsonLen ev > maxEventBytes then add Skip (next used seen rejected cache)
         else if used + jsonLen ev > maxMessageBytes then (cache, Inl (Err ''ledger: events message too large'', rep))
         else let used' = used + jsonLen ev in
              if i = '''' then add Skip (next used' seen rejected cache)
              else if i \<in> set seen then add Skip (next used' seen dupe cache)
              else if Have l (ID ev) then add Skip (next used' (i # seen) dupe cache)
              else (case validateWithPolicyNoCrypto env now p ev of
                      Inl _ \<Rightarrow> add Skip (next used' (i # seen) rejected cache)
                    | Inr hash \<Rightarrow>
                        if ID ev \<noteq> EncodeToString hash then add Skip (next used' (i # seen) rejected cache)
                        else (case matchOpt ev now cache of
                                (c, True) \<Rightarrow> add CacheHit (next used' (i # seen) rep c)
                              | (c, False) \<Rightarrow> add Task (next used' (i # seen) rep c))))"

definition verifiedMark :: "ledger_env \<Rightarrow> Event \<times> mark \<Rightarrow> bool" where
  "verifiedMark env = (\<lambda>(ev, m). m = CacheHit \<or> m = Task \<and> checkSig env ev)"

definition applyMarked ::
    "ledger_env \<Rightarrow> gotime \<Rightarrow> string \<Rightarrow> Policy option \<Rightarrow> Observer option \<Rightarrow> Event \<times> mark \<Rightarrow> Ledger \<times> ApplyReport \<Rightarrow> Ledger \<times> ApplyReport" where
  "applyMarked env now context pol observer em = (\<lambda>(l, rep).
     if snd em = Skip then (l, rep)
     else if \<not> verifiedMark env em then (l, rep\<lparr>Rejected := Rejected rep + 1\<rparr>)
     else case ApplyVerifiedWithContext env now context pol observer (fst em) l of
            (l', Inl _) \<Rightarrow> (l', rep\<lparr>Rejected := Rejected rep + 1\<rparr>)
          | (l', Inr _) \<Rightarrow> (l', rep\<lparr>Applied := Applied rep + 1\<rparr>))"

definition ApplyEventsMessageBoundedOptimized ::
    "ledger_env \<Rightarrow> (Event \<Rightarrow> nat) \<Rightarrow> (Event list \<Rightarrow> Event list) \<Rightarrow> gotime \<Rightarrow> EventsMessage \<Rightarrow> string \<Rightarrow> Policy option \<Rightarrow> Observer option \<Rightarrow>
      int \<Rightarrow> int \<Rightarrow> int \<Rightarrow> VerifiedEventCache option \<Rightarrow> Ledger \<Rightarrow> Ledger \<times> VerifiedEventCache option \<times> (ledger_error \<times> ApplyReport + ApplyReport)" where
  "ApplyEventsMessageBoundedOptimized env jsonLen sched now msg context pol observer maxEvents maxEventBytes maxMessageBytes cache l =
     (if emSchemaVersion msg \<noteq> SyncSchemaV1 then (l, cache, Inl (Err ''ledger: unsupported sync schema'', noReport))
      else if length (emEvents msg) > orDefault maxEvents 256 then (l, cache, Inl (Err ''ledger: events message too large'', noReport))
      else case markLoop env jsonLen now (policyOr pol) (orDefault maxEventBytes (256 * 1024)) (orDefault maxMessageBytes (1024 * 1024))
                  l (orderEvents (emEvents msg)) 0 [] noReport cache of
             (c, Inl e) \<Rightarrow> (l, c, Inl e)
           | (c, Inr (marks, rep)) \<Rightarrow>
               let tasks = sched (map fst (filter (\<lambda>(ev, m). m = Task \<and> checkSig env ev) marks));
                   (l', rep') = fold (applyMarked env now context pol observer) marks (l, rep)
               in (l', fold (putOpt now) tasks c, Inr rep'))"

section \<open>Batch verification\<close>

record BatchReport =
  Total :: nat
  Unique :: nat
  Precheck :: nat
  Cached :: nat
  Verified :: nat
  bRejected :: nat
  BadSig :: nat
  BadDecode :: nat

text \<open>
  \<^verbatim>\<open>VerifyBatch\<close>: the verdict is computed for the first event with an identifier and given to all with it. \<open>order\<close> is the iteration over the
  map of identifiers.
\<close>

definition firstWith :: "string \<Rightarrow> Event list \<Rightarrow> Event option" where
  "firstWith i evs = find (\<lambda>e. TrimSpace (ID e) = i) evs"

definition prechecked :: "ledger_env \<Rightarrow> gotime \<Rightarrow> Policy \<Rightarrow> string \<Rightarrow> Event \<Rightarrow> bool" where
  "prechecked env now p i ev =
     (case validateWithPolicyNoCrypto env now p ev of Inl _ \<Rightarrow> False | Inr hash \<Rightarrow> i = EncodeToString hash)"

definition batchStep ::
    "ledger_env \<Rightarrow> gotime \<Rightarrow> Policy \<Rightarrow> Event list \<Rightarrow> string \<Rightarrow> (string \<times> mark) list \<times> VerifiedEventCache option \<Rightarrow>
      (string \<times> mark) list \<times> VerifiedEventCache option" where
  "batchStep env now p evs i = (\<lambda>(ms, cache).
     case firstWith i evs of
       None \<Rightarrow> (ms, cache)
     | Some ev \<Rightarrow>
         if \<not> prechecked env now p i ev then (ms @ [(i, Skip)], cache)
         else (case matchOpt (ev\<lparr>ID := i\<rparr>) now cache of (c, hit) \<Rightarrow> (ms @ [(i, if hit then CacheHit else Task)], c)))"

definition decodes :: "Event \<Rightarrow> bool" where
  "decodes ev \<longleftrightarrow> (\<exists>pub. AuthorPublicKey ev = Inr pub) \<and> DecodeString (SigB64 ev) \<noteq> None"

definition VerifyBatch ::
    "ledger_env \<Rightarrow> (string list \<Rightarrow> string list) \<Rightarrow> (Event list \<Rightarrow> Event list) \<Rightarrow> gotime \<Rightarrow> Event list \<Rightarrow> Policy option \<Rightarrow>
      VerifiedEventCache option \<Rightarrow> VerifiedEventCache option \<times> BatchReport \<times> bool list" where
  "VerifyBatch env order sched now evs pol cache =
     (let ids = order (remdups (filter (\<lambda>i. i \<noteq> '''') (map (TrimSpace \<circ> ID) evs)));
          (ms, c) = fold (batchStep env now (policyOr pol) evs) ids ([], cache);
          ok = (\<lambda>(i, m). m = CacheHit \<or> m = Task \<and> (\<exists>ev \<in> set_option (firstWith i evs). checkSig env ev));
          good = map fst (filter ok ms);
          todo = List.map_filter (\<lambda>(i, m). if m = Task then firstWith i evs else None) ms;
          tasks = filter (checkSig env) todo;
          out = map (\<lambda>e. TrimSpace (ID e) \<in> set good) evs
      in (fold (putOpt now) (sched tasks) c,
          \<lparr>Total = length evs, Unique = length ids, Precheck = length (filter (\<lambda>(i, m). m \<noteq> Skip) ms),
           Cached = length (filter (\<lambda>(i, m). m = CacheHit) ms), Verified = length good,
           bRejected = length (filter Not out), BadSig = length (filter (\<lambda>e. decodes e \<and> \<not> checkSig env e) todo),
           BadDecode = length (filter (\<lambda>e. \<not> decodes e) todo)\<rparr>, out))"

section \<open>The cache of verified signatures\<close>

lemma b64_values_set: "b64_values s = Some vs \<Longrightarrow> c \<in> set s \<Longrightarrow> b64_value c \<noteq> None"
  by (induction s arbitrary: vs) (auto split: option.splits)

lemma DecodeString_no_nul: "DecodeString s = Some raw \<Longrightarrow> CHR 0x00 \<notin> set s"
proof
  assume d: "DecodeString s = Some raw" and "CHR 0x00 \<in> set s"
  then have "CHR 0x00 \<in> set (filter (\<lambda>c. \<not> b64_skipped c) s)" by (simp add: b64_skipped_def)
  moreover obtain vs where "b64_values (filter (\<lambda>c. \<not> b64_skipped c) s) = Some vs"
    using d by (auto simp: DecodeString_def split: option.splits)
  ultimately have "b64_value (CHR 0x00) \<noteq> None" using b64_values_set by blast
  moreover have "b64_value (CHR 0x00) = None" by code_simp
  ultimately show False by simp
qed

lemma nul_split: "a @ CHR 0x00 # s = b @ CHR 0x00 # t \<Longrightarrow> CHR 0x00 \<notin> set a \<Longrightarrow> CHR 0x00 \<notin> set b \<Longrightarrow> a = b \<and> s = t"
proof (induction a arbitrary: b)
  case Nil
  then show ?case by (cases b) auto
next
  case (Cons x a)
  then show ?case by (cases b) auto
qed

text \<open>Every entry of the cache is the key of an event whose identifier is its hash and whose signature verifies.\<close>

definition verifiedEvent :: "ledger_env \<Rightarrow> Event \<Rightarrow> bool" where
  "verifiedEvent env ev \<longleftrightarrow> ID ev = EncodeToString (unsignedHash env ev) \<and> checkSig env ev"

definition eventKey :: "Event \<Rightarrow> string" where
  "eventKey ev = cacheKey (ID ev) (AuthorKeyB64 ev) (SigB64 ev)"

definition cache_sound :: "ledger_env \<Rightarrow> VerifiedEventCache \<Rightarrow> bool" where
  "cache_sound env c \<longleftrightarrow> (\<forall>k \<in> fst ` set (cEntries c). \<exists>ev. k = eventKey ev \<and> verifiedEvent env ev)"

lemma cache_New_sound: "cache_sound env (NewVerifiedEventCache mx ttl)"
  by (simp add: cache_sound_def NewVerifiedEventCache_def)

lemma cachePut_sound: "cache_sound env c \<Longrightarrow> verifiedEvent env ev \<Longrightarrow> cache_sound env (cachePut (ID ev) (AuthorKeyB64 ev) (SigB64 ev) now c)"
  using set_delete_subset[of "eventKey ev" "cEntries c"]
  by (fastforce simp: cache_sound_def cachePut_def Let_def eventKey_def dest: in_set_takeD)

lemma cacheMatch_sound: "cache_sound env c \<Longrightarrow> cacheMatch i a s now c = (c', hit) \<Longrightarrow> cache_sound env c'"
  using set_delete_subset[of "cacheKey i a s" "cEntries c"] map_of_SomeD[of "cEntries c" "cacheKey i a s"]
  by (fastforce simp: cache_sound_def cacheMatch_def Let_def split: option.splits if_splits)

lemma verified_no_nul: "verifiedEvent env ev \<Longrightarrow> CHR 0x00 \<notin> set (ID ev) \<and> CHR 0x00 \<notin> set (AuthorKeyB64 ev)"
proof
  assume v: "verifiedEvent env ev"
  then show "CHR 0x00 \<notin> set (ID ev)" by (metis DecodeString_EncodeToString DecodeString_no_nul verifiedEvent_def)
  from v show "CHR 0x00 \<notin> set (AuthorKeyB64 ev)"
    by (auto simp: verifiedEvent_def checkSig_def AuthorPublicKey_def dest: DecodeString_no_nul split: sum.splits option.splits if_splits)
qed

text \<open>A hit is a verified signature: equal keys have equal parts, and the identifier fixes the hash that was signed.\<close>

lemma cache_hit_verified:
  assumes "cache_sound env c" "cacheMatch (ID ev) (AuthorKeyB64 ev) (SigB64 ev) now c = (c', True)"
    and "ID ev = EncodeToString (unsignedHash env ev)" "AuthorPublicKey ev = Inr pub"
  shows "checkSig env ev"
proof -
  have "eventKey ev \<in> fst ` set (cEntries c)"
    using assms(2) by (force simp: cacheMatch_def Let_def eventKey_def split: option.splits if_splits dest: map_of_SomeD)
  then obtain x where x: "eventKey ev = eventKey x" "verifiedEvent env x" using assms(1) by (auto simp: cache_sound_def)
  have "CHR 0x00 \<notin> set (ID ev)" using assms(3) DecodeString_no_nul DecodeString_EncodeToString by metis
  moreover have "CHR 0x00 \<notin> set (AuthorKeyB64 ev)" using assms(4) by (simp add: AuthorPublicKey_Inr DecodeString_no_nul)
  ultimately have same: "ID ev = ID x" "AuthorKeyB64 ev = AuthorKeyB64 x" "SigB64 ev = SigB64 x"
    using x(1) verified_no_nul[OF x(2)] unfolding eventKey_def cacheKey_def by (auto dest!: nul_split)
  then have hash: "unsignedHash env ev = unsignedHash env x" using x(2) assms(3) by (simp add: verifiedEvent_def)
  have key: "AuthorPublicKey ev = AuthorPublicKey x" by (simp add: AuthorPublicKey_def same(2))
  show ?thesis using x(2) unfolding verifiedEvent_def checkSig_def key same(3) hash by blast
qed

datatype cache_op = CachePut Event gotime | CacheMatch Event gotime

fun cache_op_step :: "cache_op \<Rightarrow> VerifiedEventCache \<Rightarrow> VerifiedEventCache \<times> bool" where
  "cache_op_step (CachePut ev now) c = (cachePut (ID ev) (AuthorKeyB64 ev) (SigB64 ev) now c, True)"
| "cache_op_step (CacheMatch ev now) c = cacheMatch (ID ev) (AuthorKeyB64 ev) (SigB64 ev) now c"

lemma run_keeps: "(\<And>x s. x \<in> set xs \<Longrightarrow> P s \<Longrightarrow> P (fst (step x s))) \<Longrightarrow> P s \<Longrightarrow> P (fst (run step xs s))"
  by (induction xs arbitrary: s) (simp_all add: Let_def)

lemma delete_present: "map_of m k \<noteq> None \<Longrightarrow> length (AList.delete k m) < length m"
  unfolding AList.delete_eq by (auto intro!: length_filter_less dest!: map_of_SomeD)

lemma cache_op_bounded: "length (cEntries c) \<le> cMax c \<Longrightarrow>
    length (cEntries (fst (cache_op_step x c))) \<le> cMax (fst (cache_op_step x c)) \<and> cMax (fst (cache_op_step x c)) = cMax c"
  using delete_present[of "cEntries c"] length_filter_le
  by (cases x) (fastforce simp: cachePut_def cacheMatch_def Let_def AList.delete_eq split: option.splits)+

text \<open>
  The cache of verified signatures can be trusted and is bounded: after any puts of verified events and any lookups it holds at most its
  maximum number of entries, and a hit for an event whose identifier is its hash means that the signature of this very event verifies under
  this very key.
\<close>

theorem verified_cache_sound:
  fixes env :: ledger_env and ops :: "cache_op list" and mx ttl
  defines "c \<equiv> fst (run cache_op_step ops (NewVerifiedEventCache mx ttl))"
  assumes puts: "\<forall>ev now. CachePut ev now \<in> set ops \<longrightarrow> verifiedEvent env ev"
  shows "length (cEntries c) \<le> orDefault mx 4096 \<and>
    (\<forall>ev now pub. snd (cacheMatch (ID ev) (AuthorKeyB64 ev) (SigB64 ev) now c) \<longrightarrow> ID ev = EncodeToString (unsignedHash env ev) \<longrightarrow>
       AuthorPublicKey ev = Inr pub \<longrightarrow> checkSig env ev)"
proof -
  have "cache_sound env c \<and> length (cEntries c) \<le> cMax c \<and> cMax c = orDefault mx 4096"
    unfolding c_def
  proof (rule run_keeps)
    show "cache_sound env (NewVerifiedEventCache mx ttl) \<and> length (cEntries (NewVerifiedEventCache mx ttl)) \<le> cMax (NewVerifiedEventCache mx ttl) \<and>
        cMax (NewVerifiedEventCache mx ttl) = orDefault mx 4096"
      by (simp add: cache_New_sound) (simp add: NewVerifiedEventCache_def)
  next
    fix x s assume x: "x \<in> set ops" and s: "cache_sound env s \<and> length (cEntries s) \<le> cMax s \<and> cMax s = orDefault mx 4096"
    have "cache_sound env (fst (cache_op_step x s))"
    proof (cases x)
      case (CachePut ev now)
      then have "verifiedEvent env ev" using x puts by blast
      then show ?thesis using s CachePut by (simp add: cachePut_sound)
    next
      case (CacheMatch ev now)
      then show ?thesis using s cacheMatch_sound[OF _ prod.collapse[symmetric]] by simp
    qed
    then show "cache_sound env (fst (cache_op_step x s)) \<and> length (cEntries (fst (cache_op_step x s))) \<le> cMax (fst (cache_op_step x s)) \<and>
        cMax (fst (cache_op_step x s)) = orDefault mx 4096"
      using cache_op_bounded[of s x] s by simp
  qed
  then show ?thesis using cache_hit_verified by (metis prod.collapse)
qed

section \<open>The optimised application\<close>

text \<open>Only the age check reports an event as too old.\<close>

lemma rbind_not: "m \<noteq> Inl e \<Longrightarrow> (\<And>y. f y \<noteq> Inl e) \<Longrightarrow> rbind m f \<noteq> Inl e"
  by (cases m) auto

lemma requireInlinePayload_err: "requireInlinePayload env dec ev \<noteq> Inl ErrEventTooOld"
  unfolding requireInlinePayload_def
  by (intro rbind_not) (auto simp: DecodeInlinePayloadRef_def VerifyPayloadHash_def Let_def intro!: rbind_not split: option.split)

lemma validators_err:
  "validateAttestation p1 \<noteq> Inl ErrEventTooOld" "validateCheckpoint env p2 \<noteq> Inl ErrEventTooOld" "validateIdentityIntroduce p3 \<noteq> Inl ErrEventTooOld"
  "validateIdentityRotate p4 \<noteq> Inl ErrEventTooOld" "validateIdentityRevoke p5 \<noteq> Inl ErrEventTooOld"
  "validateMisbehaviorEquivocation p6 \<noteq> Inl ErrEventTooOld" "validateMisbehaviorReplay p7 \<noteq> Inl ErrEventTooOld"
  "validateMisbehaviorSybil p8 \<noteq> Inl ErrEventTooOld" "validateGroupMembership p9 \<noteq> Inl ErrEventTooOld"
  "validateAgentAction p10 \<noteq> Inl ErrEventTooOld" "validateSyncSummary p11 \<noteq> Inl ErrEventTooOld"
  by (simp_all add: validateAttestation_def validateCheckpoint_def validateIdentityIntroduce_def validateIdentityRotate_def
      validateIdentityRevoke_def validateMisbehaviorEquivocation_def validateMisbehaviorReplay_def validateMisbehaviorSybil_def
      validateGroupMembership_def validateAgentAction_def validateSyncSummary_def Let_def split: prod.split)

lemma validateKindPayload_err: "validateKindPayload env p ev \<noteq> Inl ErrEventTooOld"
  by (simp add: validateKindPayload_def rbind_not validators_err requireInlinePayload_err)

lemma Validate_err: "Validate env ev \<noteq> Inl ErrEventTooOld"
proof -
  have key: "AuthorPublicKey ev \<noteq> Inl ErrEventTooOld" by (simp add: AuthorPublicKey_def split: option.split)
  have "ValidateNoCrypto ev \<noteq> Inl ErrEventTooOld" by (simp add: ValidateNoCrypto_def key rbind_not)
  moreover have "Verify env ev \<noteq> Inl ErrEventTooOld" by (simp add: Verify_def Let_def key rbind_not split: option.split)
  ultimately show ?thesis by (simp add: Validate_split rbind_not)
qed

lemma not_too_old: "MaxEventAge p \<le> 0 \<Longrightarrow> validateWithPolicy env now p ev \<noteq> Inl ErrEventTooOld"
  unfolding validateWithPolicy_def by (intro rbind_not Validate_err) (simp add: validateKindPayload_err)

text \<open>When no event can be recorded as a replay, an event that fails validation leaves the ledger as it is.\<close>

definition replays_unrecorded :: "Policy option \<Rightarrow> Observer option \<Rightarrow> string \<Rightarrow> bool" where
  "replays_unrecorded pol observer context \<longleftrightarrow> MaxEventAge (policyOr pol) \<le> 0 \<or> observer = None \<or> TrimSpace context = ''''"

lemma invalid_unchanged:
  assumes "replays_unrecorded pol observer context" "validateWithPolicy env now (policyOr pol) ev = Inl e"
  shows "fst (ApplyWithContext env now context pol observer ev l) = l"
proof -
  have "observer = None \<or> TrimSpace context = '''' \<or> e \<noteq> ErrEventTooOld"
    using assms not_too_old[of "policyOr pol" env now ev] by (auto simp: replays_unrecorded_def)
  then show ?thesis using assms(2) by (auto simp: ApplyWithContext_def Let_def recordReplay_def split: option.split)
qed

lemma checkSig_Verify:
  assumes "\<forall>pub m sig. leVerify env pub m sig \<longrightarrow> length sig = SignatureSize" "ID ev = EncodeToString (unsignedHash env ev)"
  shows "checkSig env ev \<longleftrightarrow> Verify env ev = Inr ()"
  using assms by (auto simp: checkSig_def Verify_Inr split: sum.splits option.splits)

lemma fst_applyOne: "fst (applyOne env now ctx pol ob ev (l, rep)) = (if Have l (ID ev) then l else fst (ApplyWithContext env now ctx pol ob ev l))"
  by (simp add: applyOne_def split: prod.split sum.split)

lemma fst_applyMarked: "fst (applyMarked env now ctx pol ob (ev, m) (l, rep)) =
    (if m \<noteq> Skip \<and> verifiedMark env (ev, m) then fst (ApplyVerifiedWithContext env now ctx pol ob ev l) else l)"
  by (simp add: applyMarked_def split: prod.split sum.split)

text \<open>What the mark of an event says about it, in a ledger \<open>l0\<close>.\<close>

definition mark_ok :: "ledger_env \<Rightarrow> gotime \<Rightarrow> Policy \<Rightarrow> Ledger \<Rightarrow> Event \<Rightarrow> mark \<Rightarrow> bool" where
  "mark_ok env now p l0 ev m \<longleftrightarrow>
     (if m = Skip then Have l0 (ID ev) \<or> (\<exists>e. validateWithPolicy env now p ev = Inl e)
      else validateWithPolicyNoCrypto env now p ev = Inr (unsignedHash env ev) \<and> ID ev = EncodeToString (unsignedHash env ev) \<and>
        (m = CacheHit \<longrightarrow> checkSig env ev))"

lemma marked_step:
  assumes law: "\<forall>pub m sig. leVerify env pub m sig \<longrightarrow> length sig = SignatureSize"
    and quiet: "replays_unrecorded pol observer context" and m: "mark_ok env now (policyOr pol) l0 ev m"
    and grown: "\<And>i. Have l0 i \<Longrightarrow> Have l i"
  shows "fst (applyOne env now context pol observer ev (l, r1)) = fst (applyMarked env now context pol observer (ev, m) (l, r2))"
proof (cases "m = Skip")
  case True
  then show ?thesis using m grown invalid_unchanged[OF quiet, of env now ev _ l] by (auto simp: mark_ok_def fst_applyOne fst_applyMarked)
next
  case False
  have pre: "validateWithPolicyNoCrypto env now (policyOr pol) ev = Inr (unsignedHash env ev)" and eid: "ID ev = EncodeToString (unsignedHash env ev)"
    and hit: "m = CacheHit \<longrightarrow> checkSig env ev" using m False by (simp_all add: mark_ok_def)
  show ?thesis
  proof (cases "checkSig env ev")
    case True
    then have v: "Verify env ev = Inr ()" using checkSig_Verify[OF law eid] by simp
    have "verifiedMark env (ev, m)" using True False by (cases m) (simp_all add: verifiedMark_def)
    moreover have "Have l (ID ev) \<Longrightarrow> fst (ApplyVerifiedWithContext env now context pol observer ev l) = l"
      using pre eid by (simp add: ApplyVerifiedWithContext_def Let_def applyLocked_def)
    ultimately show ?thesis using False ApplyVerified_eq[OF v, of now "context" pol observer l] by (simp add: fst_applyOne fst_applyMarked)
  next
    case bad: False
    then have "Verify env ev \<noteq> Inr ()" using checkSig_Verify[OF law eid] by simp
    then obtain e where "validateWithPolicy env now (policyOr pol) ev = Inl e"
      by (cases "validateWithPolicy env now (policyOr pol) ev") (auto dest: validateWithPolicy_valid simp: Validate_split)
    moreover have "\<not> verifiedMark env (ev, m)" using bad hit by (auto simp: verifiedMark_def)
    ultimately show ?thesis using invalid_unchanged[OF quiet] by (simp add: fst_applyOne fst_applyMarked)
  qed
qed


lemma matchOpt_sound:
  assumes "pred_option (cache_sound env) cache" "matchOpt ev now cache = (c, hit)"
  shows "pred_option (cache_sound env) c"
    and "hit \<Longrightarrow> ID ev = EncodeToString (unsignedHash env ev) \<Longrightarrow> AuthorPublicKey ev = Inr pub \<Longrightarrow> checkSig env ev"
proof -
  show "pred_option (cache_sound env) c"
    using assms by (auto simp: matchOpt_def dest: cacheMatch_sound split: option.splits prod.splits)
  show "hit \<Longrightarrow> ID ev = EncodeToString (unsignedHash env ev) \<Longrightarrow> AuthorPublicKey ev = Inr pub \<Longrightarrow> checkSig env ev"
    using assms cache_hit_verified by (auto simp: matchOpt_def simp del: EncodeToString_inject split: option.splits prod.splits)
qed

lemma NoCrypto_error:
  "validateWithPolicyNoCrypto env now p ev = Inl e \<Longrightarrow> \<exists>e'. validateWithPolicy env now p ev = Inl e'"
  by (cases "Verify env ev")
    (auto simp: validateWithPolicyNoCrypto_def validateWithPolicy_def Validate_split rbind_eq_Inl split: if_splits)

lemma NoCrypto_hash: "validateWithPolicyNoCrypto env now p ev = Inr h \<Longrightarrow> h = unsignedHash env ev \<and> (\<exists>pub. AuthorPublicKey ev = Inr pub)"
  by (auto simp: validateWithPolicyNoCrypto_def ValidateNoCrypto_Inr split: if_splits)

lemma bad_id_error:
  "TrimSpace (ID ev) = '''' \<or> ID ev \<noteq> EncodeToString (unsignedHash env ev) \<Longrightarrow> \<exists>e. validateWithPolicy env now p ev = Inl e"
proof -
  assume bad: "TrimSpace (ID ev) = '''' \<or> ID ev \<noteq> EncodeToString (unsignedHash env ev)"
  have "Validate env ev \<noteq> Inr ()" using bad by (auto simp: Validate_split ValidateNoCrypto_Inr Verify_Inr)
  then show "\<exists>e. validateWithPolicy env now p ev = Inl e"
    by (cases "validateWithPolicy env now p ev") (auto dest: validateWithPolicy_valid)
qed

lemma applyOne_grows: "Have l i \<Longrightarrow> Have (fst (applyOne env now ctx pol ob ev (l, rep))) i"
  using ApplyWithContext_extends[of env l now ctx pol ob ev]
  by (auto simp: fst_applyOne extends_def map_le_def Have_def dom_def)


lemma addMark_Inr: "addMark ev m r = (c, Inr (marks, rep)) \<longleftrightarrow> (\<exists>ms. r = (c, Inr (ms, rep)) \<and> marks = (ev, m) # ms)"
  by (cases r; cases "snd r") (auto simp: addMark_def)

text \<open>One turn of the marking loop on an event that is not too large and whose identifier is new in the message.\<close>

lemma markLoop_turn:
  assumes loop: "markLoop env jsonLen now p meb mmb l0 (ev # evs) used seen rep cache = (c, Inr (marks, rep'))"
    and size: "\<not> jsonLen ev > meb" and seen: "TrimSpace (ID ev) \<notin> set seen" and sound: "pred_option (cache_sound env) cache"
  shows "\<exists>m seen' rep1 c1. addMark ev m (markLoop env jsonLen now p meb mmb l0 evs (used + jsonLen ev) seen' rep1 c1) = (c, Inr (marks, rep')) \<and>
    mark_ok env now p l0 ev m \<and> set seen' \<subseteq> insert (TrimSpace (ID ev)) (set seen) \<and> pred_option (cache_sound env) c1 \<and> used + jsonLen ev \<le> mmb"
proof -
  let ?next = "markLoop env jsonLen now p meb mmb l0 evs (used + jsonLen ev)" and ?i = "TrimSpace (ID ev)"
  have fits: "used + jsonLen ev \<le> mmb" using loop size by (auto simp: Let_def split: if_splits)
  note start = loop[unfolded markLoop.simps Let_def]
  have more: "set (?i # seen) \<subseteq> insert ?i (set seen)" by simp
  consider (empty) "?i = ''''" | (known) "?i \<noteq> ''''" "Have l0 (ID ev)"
    | (invalid) e where "?i \<noteq> ''''" "\<not> Have l0 (ID ev)" "validateWithPolicyNoCrypto env now p ev = Inl e"
    | (candidate) h where "?i \<noteq> ''''" "\<not> Have l0 (ID ev)" "validateWithPolicyNoCrypto env now p ev = Inr h"
    by (cases "validateWithPolicyNoCrypto env now p ev") blast+
  then show ?thesis
  proof cases
    case empty
    then have "mark_ok env now p l0 ev Skip" using bad_id_error[of ev env now p] by (simp add: mark_ok_def)
    moreover have "addMark ev Skip (?next seen (rep\<lparr>Rejected := Rejected rep + 1\<rparr>) cache) = (c, Inr (marks, rep'))"
      using start size fits empty by simp
    ultimately show ?thesis using fits sound by blast
  next
    case known
    then have "mark_ok env now p l0 ev Skip" by (simp add: mark_ok_def)
    moreover have "addMark ev Skip (?next (?i # seen) (rep\<lparr>Dupe := Dupe rep + 1\<rparr>) cache) = (c, Inr (marks, rep'))"
      using start size fits seen known by simp
    ultimately show ?thesis using fits sound more by blast
  next
    case invalid
    then have "mark_ok env now p l0 ev Skip" using NoCrypto_error[of env now p ev] by (simp add: mark_ok_def)
    moreover have "addMark ev Skip (?next (?i # seen) (rep\<lparr>Rejected := Rejected rep + 1\<rparr>) cache) = (c, Inr (marks, rep'))"
      using start size fits seen invalid by simp
    ultimately show ?thesis using fits sound more by blast
  next
    case candidate
    have h: "h = unsignedHash env ev" using NoCrypto_hash[OF candidate(3)] by simp
    show ?thesis
    proof (cases "ID ev = EncodeToString h")
      case False
      then have "mark_ok env now p l0 ev Skip" using bad_id_error[of ev env now p] h by (simp add: mark_ok_def)
      moreover have "addMark ev Skip (?next (?i # seen) (rep\<lparr>Rejected := Rejected rep + 1\<rparr>) cache) = (c, Inr (marks, rep'))"
        using start size fits seen candidate False by simp
      ultimately show ?thesis using fits sound more by blast
    next
      case True
      obtain c1 hit where mt: "matchOpt ev now cache = (c1, hit)" by fastforce
      define m where "m = (if hit then CacheHit else Task)"
      obtain pub where "AuthorPublicKey ev = Inr pub" using NoCrypto_hash[OF candidate(3)] by blast
      then have "hit \<longrightarrow> checkSig env ev" using matchOpt_sound(2)[OF sound mt] True h by simp
      then have "mark_ok env now p l0 ev m" using candidate(3) True h by (simp add: mark_ok_def m_def)
      moreover have "addMark ev m (?next (?i # seen) rep c1) = (c, Inr (marks, rep'))"
        using start size fits seen candidate True mt by (cases hit) (simp_all add: m_def)
      moreover have "pred_option (cache_sound env) c1" using matchOpt_sound(1)[OF sound mt] .
      ultimately show ?thesis using fits more by blast
    qed
  qed
qed

lemma optimised_loop:
  assumes law: "\<forall>pub m sig. leVerify env pub m sig \<longrightarrow> length sig = SignatureSize"
    and quiet: "replays_unrecorded pol observer ctx"
    and "markLoop env jsonLen now (policyOr pol) meb mmb l0 evs used seen rep cache = (c, Inr (marks, rep'))"
    and "distinct (map (TrimSpace \<circ> ID) evs)" "set seen \<inter> set (map (TrimSpace \<circ> ID) evs) = {}" "pred_option (cache_sound env) cache"
    and "\<And>i. Have l0 i \<Longrightarrow> Have l i"
  shows "fst (applyBounded env jsonLen now ctx pol observer meb mmb evs used (l, repA)) =
      fst (fold (applyMarked env now ctx pol observer) marks (l, repB)) \<and>
    (\<exists>r. snd (applyBounded env jsonLen now ctx pol observer meb mmb evs used (l, repA)) = Inr r)"
  using assms(3-)
proof (induction evs arbitrary: used seen rep cache marks l repA repB)
  case Nil
  then show ?case by simp
next
  case (Cons ev evs)
  let ?next = "markLoop env jsonLen now (policyOr pol) meb mmb l0 evs"
  show ?case
  proof (cases "jsonLen ev > meb")
    case True
    then obtain ms where ms: "?next used seen (rep\<lparr>Rejected := Rejected rep + 1\<rparr>) cache = (c, Inr (ms, rep'))" "marks = (ev, Skip) # ms"
      using Cons.prems(1) by (auto simp: Let_def addMark_Inr)
    show ?thesis using Cons.IH[OF ms(1) _ _ Cons.prems(4,5), of "repA\<lparr>Rejected := Rejected repA + 1\<rparr>" repB] Cons.prems(2,3) True
      by (simp add: ms(2) applyMarked_def)
  next
    case False
    have "TrimSpace (ID ev) \<notin> set seen" using Cons.prems(3) by auto
    from markLoop_turn[OF Cons.prems(1) False this Cons.prems(4)]
    obtain m ms seen' rep1 c1 where turn: "?next (used + jsonLen ev) seen' rep1 c1 = (c, Inr (ms, rep'))" "marks = (ev, m) # ms"
      and m: "mark_ok env now (policyOr pol) l0 ev m" and seen': "set seen' \<subseteq> insert (TrimSpace (ID ev)) (set seen)"
      and c1: "pred_option (cache_sound env) c1" and fits: "used + jsonLen ev \<le> mmb"
      unfolding addMark_Inr by blast
    obtain l1 s1 where one: "applyOne env now ctx pol observer ev (l, repA) = (l1, s1)" by fastforce
    have "l1 = fst (applyMarked env now ctx pol observer (ev, m) (l, repB))"
      using marked_step[OF law quiet m Cons.prems(5), of repA repB] by (simp add: one)
    then obtain s2 where marked: "applyMarked env now ctx pol observer (ev, m) (l, repB) = (l1, s2)" by (metis prod.collapse)
    have grown: "Have l1 i" if "Have l0 i" for i
      using applyOne_grows[OF Cons.prems(5)[OF that], of env now ctx pol observer ev repA] by (simp add: one)
    have fresh: "distinct (map (TrimSpace \<circ> ID) evs)" using Cons.prems(2) by (simp add: comp_def)
    have "TrimSpace (ID ev) \<notin> set (map (TrimSpace \<circ> ID) evs)" "set seen \<inter> set (map (TrimSpace \<circ> ID) evs) = {}"
      using Cons.prems(2,3) by auto
    then have unseen: "set seen' \<inter> set (map (TrimSpace \<circ> ID) evs) = {}" using seen' by blast
    have "applyBounded env jsonLen now ctx pol observer meb mmb (ev # evs) used (l, repA) =
        applyBounded env jsonLen now ctx pol observer meb mmb evs (used + jsonLen ev) (l1, s1)"
      using False fits by (simp add: one)
    moreover have "fold (applyMarked env now ctx pol observer) marks (l, repB) = fold (applyMarked env now ctx pol observer) ms (l1, s2)"
      by (simp add: turn(2) marked)
    ultimately show ?thesis using Cons.IH[OF turn(1) fresh unseen c1 grown, of s1 s2] by (simp only:)
  qed
qed



section \<open>Bounds of the messages\<close>

text \<open>What the loop of the bounded message keeps: events of the ledger, each small enough, not more than allowed and together within the limit.\<close>

definition message_ok :: "(Event \<Rightarrow> nat) \<Rightarrow> Ledger \<Rightarrow> nat \<Rightarrow> nat \<Rightarrow> nat \<Rightarrow> Event list \<Rightarrow> bool" where
  "message_ok jsonLen l n meb mmb evs \<longleftrightarrow> set evs \<subseteq> snd ` set (events l) \<and> length evs \<le> n \<and> (\<forall>ev \<in> set evs. jsonLen ev \<le> meb) \<and>
     sum_list (map jsonLen evs) \<le> mmb"

lemma boundedLoop_ok:
  assumes "message_ok jsonLen l n meb mmb out" "length out < n" "used = sum_list (map jsonLen out)"
  shows "message_ok jsonLen l n meb mmb (boundedLoop jsonLen l n meb mmb want seen out used)"
  using assms
proof (induction want arbitrary: seen out used)
  case Nil
  then show ?case by simp
next
  case (Cons w want)
  show ?case
  proof (cases "TrimSpace w = '''' \<or> TrimSpace w \<in> set seen")
    case True
    then show ?thesis using Cons by simp
  next
    case new: False
    show ?thesis
    proof (cases "Get l (TrimSpace w)")
      case None
      then show ?thesis using new Cons by simp
    next
      case (Some ev)
      have "ev \<in> snd ` set (events l)" using Some by (force simp: Get_def dest: map_of_SomeD)
      then have "message_ok jsonLen l n meb mmb (out @ [ev])" if "jsonLen ev \<le> meb" "used + jsonLen ev \<le> mmb"
        using Cons.prems that by (auto simp: message_ok_def)
      moreover have "message_ok jsonLen l n meb mmb (boundedLoop jsonLen l n meb mmb want (TrimSpace w # seen) (out @ [ev]) (used + jsonLen ev))"
        if "jsonLen ev \<le> meb" "used + jsonLen ev \<le> mmb" "\<not> n \<le> length out + 1"
        by (rule Cons.IH) (use calculation that Cons.prems(3) in simp_all)
      ultimately show ?thesis using new Some Cons.prems(1) Cons.IH[OF Cons.prems, of "TrimSpace w # seen"] by (simp add: Let_def not_less)
    qed
  qed
qed

lemma orDefault_pos: "0 < d \<Longrightarrow> 0 < orDefault n d"
  by (simp add: orDefault_def)

lemma BuildEventsMessageBounded_ok:
  "message_ok jsonLen l (orDefault maxEvents 256) (orDefault meb (256 * 1024)) (orDefault mmb (1024 * 1024))
     (emEvents (BuildEventsMessageBounded jsonLen want maxEvents meb mmb l))"
  unfolding BuildEventsMessageBounded_def EventsMessage.select_convs
  by (rule boundedLoop_ok) (simp_all add: message_ok_def orDefault_pos)

lemma applyBounded_fits:
  "used + sum_list (map jsonLen evs) \<le> mmb \<Longrightarrow> \<exists>rep. snd (applyBounded env jsonLen now ctx pol observer meb mmb evs used st) = Inr rep"
  by (induction evs arbitrary: used st) simp_all

lemma sum_orderEvents: "sum_list (map f (orderEvents evs)) = (sum_list (map f evs) :: nat)"
proof -
  have "mset (map f (orderEvents evs)) = mset (map f evs)" by (simp add: orderEvents_def)
  then show ?thesis by (metis sum_mset_sum_list)
qed

text \<open>
  The bounds of sender and receiver fit together: a message built with limits on the number of events, the size of an event and the size of
  the message contains events of the sending ledger only, stays within all three limits, and is never refused as too large by a receiver
  with the same limits, whatever the receiver's ledger, policy and observer are.
\<close>

theorem bounded_message_fits:
  fixes maxEvents meb mmb :: int
  defines "msg jsonLen want l \<equiv> BuildEventsMessageBounded jsonLen want maxEvents meb mmb l"
  shows "set (emEvents (msg jsonLen want l)) \<subseteq> snd ` set (events l) \<and> length (emEvents (msg jsonLen want l)) \<le> orDefault maxEvents 256 \<and>
    sum_list (map jsonLen (emEvents (msg jsonLen want l))) \<le> orDefault mmb (1024 * 1024) \<and>
    (\<exists>l' rep. ApplyEventsMessageBounded env jsonLen now (msg jsonLen want l) ctx pol observer maxEvents meb mmb peer = (l', Inr rep))"
proof -
  have ok: "message_ok jsonLen l (orDefault maxEvents 256) (orDefault meb (256 * 1024)) (orDefault mmb (1024 * 1024)) (emEvents (msg jsonLen want l))"
    unfolding msg_def by (rule BuildEventsMessageBounded_ok)
  have "\<exists>rep. snd (applyBounded env jsonLen now ctx pol observer (orDefault meb (256 * 1024)) (orDefault mmb (1024 * 1024))
      (orderEvents (emEvents (msg jsonLen want l))) 0 (peer, noReport)) = Inr rep"
    by (rule applyBounded_fits) (use ok in \<open>simp add: sum_orderEvents message_ok_def\<close>)
  moreover have "emSchemaVersion (msg jsonLen want l) = SyncSchemaV1" by (simp add: msg_def BuildEventsMessageBounded_def)
  ultimately have "\<exists>l' rep. ApplyEventsMessageBounded env jsonLen now (msg jsonLen want l) ctx pol observer maxEvents meb mmb peer = (l', Inr rep)"
    using ok by (simp add: ApplyEventsMessageBounded_def message_ok_def) (metis prod.collapse)
  then show ?thesis using ok by (simp add: message_ok_def)
qed

text \<open>The plan of what to ask a peer for.\<close>

definition want_ok :: "Ledger \<Rightarrow> string set \<Rightarrow> nat \<Rightarrow> string list \<Rightarrow> bool" where
  "want_ok l has n want \<longleftrightarrow> distinct want \<and> length want \<le> n \<and> (\<forall>i \<in> set want. i \<noteq> '''' \<and> \<not> Have l i \<and> i \<in> has)"

lemma addWant_ok: "want_ok l has n want \<Longrightarrow> want_ok l has n (addWant l has n i want)"
  by (auto simp: want_ok_def addWant_def)

lemma fold_addWant_ok: "want_ok l has n want \<Longrightarrow> want_ok l has n (fold (addWant l has n) xs want)"
  by (induction xs arbitrary: want) (simp_all add: addWant_ok)

lemma fold_addWant_keeps: "i \<in> set want \<Longrightarrow> i \<in> set (fold (addWant l has n) xs want)"
  by (induction xs arbitrary: want) (simp_all add: addWant_def)

lemma fold_addWant_grows: "length want \<le> length (fold (addWant l has n) xs want)"
proof (induction xs arbitrary: want)
  case (Cons x xs)
  have "length want \<le> length (addWant l has n x want)" by (simp add: addWant_def)
  also have "\<dots> \<le> length (fold (addWant l has n) (x # xs) want)" using Cons by simp
  finally show ?case .
qed simp

lemma fold_addWant_takes:
  "i \<in> set xs \<Longrightarrow> i \<noteq> '''' \<Longrightarrow> \<not> Have l i \<Longrightarrow> i \<in> has \<Longrightarrow> length (fold (addWant l has n) xs want) < n \<Longrightarrow>
     i \<in> set (fold (addWant l has n) xs want)"
proof (induction xs arbitrary: want)
  case Nil
  then show ?case by simp
next
  case (Cons x xs)
  have grows: "length w \<le> length (fold (addWant l has n) xs w)" for w by (rule fold_addWant_grows)
  show ?case
  proof (cases "x = i")
    case True
    have "length (addWant l has n x want) < n" using Cons.prems(5) grows[of "addWant l has n x want"] by simp
    then have "i \<in> set (addWant l has n x want)" using Cons.prems(2-4) True by (auto simp: addWant_def split: if_splits)
    then show ?thesis using fold_addWant_keeps by simp
  next
    case False
    then show ?thesis using Cons by simp
  qed
qed


definition advertised :: "InventoryMessage \<Rightarrow> string set" where
  "advertised peer = {i. i \<noteq> '''' \<and> i \<in> TrimSpace ` (set (imHave peer) \<union> set (imHeads peer))}"

text \<open>
  What a ledger asks a peer for: no identifier twice, not more than the limit, only identifiers the peer advertised and the ledger lacks;
  and when the list stays below the limit it is complete, containing every head of the peer and every missing reference that the peer
  advertised and the ledger lacks.
\<close>

theorem plan_from_peer:
  fixes peer :: InventoryMessage and maxWant :: int and l :: Ledger
  defines "want \<equiv> PlanSyncFromPeer peer maxWant l"
  shows "distinct want \<and> length want \<le> orDefault maxWant 256 \<and> (\<forall>i \<in> set want. i \<in> advertised peer \<and> \<not> Have l i) \<and>
    (length want < orDefault maxWant 256 \<longrightarrow>
       {i \<in> advertised peer. \<not> Have l i \<and> (i \<in> TrimSpace ` set (imHeads peer) \<or> i \<in> (TrimSpace \<circ> fst) ` set (missingRefs l))} \<subseteq> set want)"
proof -
  let ?n = "orDefault maxWant 256" and ?trim = "\<lambda>xs. filter (\<lambda>i. i \<noteq> '''') (map TrimSpace xs)"
  let ?has = "set (?trim (imHave peer)) \<union> set (?trim (imHeads peer))"
  let ?add = "addWant l ?has ?n" and ?missing = "sort_key (wantKey l) (?trim (map fst (missingRefs l)))"
  let ?hs = "sort_key (wantKey l) (map TrimSpace (imHeads peer))"
  have want: "want = fold ?add ?hs (fold ?add ?missing [])" by (simp only: want_def PlanSyncFromPeer_def Let_def)
  have has: "?has = advertised peer" by (auto simp: advertised_def)
  have "want_ok l ?has ?n want" unfolding want by (intro fold_addWant_ok) (simp add: want_ok_def)
  moreover have "i \<in> set want" if i: "i \<in> advertised peer" "\<not> Have l i" "i \<in> TrimSpace ` set (imHeads peer) \<or> i \<in> (TrimSpace \<circ> fst) ` set (missingRefs l)"
    and short: "length want < ?n" for i
  proof -
    have ne: "i \<noteq> ''''" "i \<in> ?has" using i(1) unfolding has by (simp_all add: advertised_def)
    have first: "length (fold ?add ?missing []) < ?n"
      using short fold_addWant_grows[of "fold ?add ?missing []" l ?has ?n ?hs] unfolding want by linarith
    from i(3) show ?thesis
    proof
      assume "i \<in> TrimSpace ` set (imHeads peer)"
      then show ?thesis unfolding want by (intro fold_addWant_takes) (use ne i(2) short want in simp_all)
    next
      assume "i \<in> (TrimSpace \<circ> fst) ` set (missingRefs l)"
      then have "i \<in> set (fold ?add ?missing [])"
        by (intro fold_addWant_takes) (use ne i(2) first in auto)
      then show ?thesis unfolding want by (rule fold_addWant_keeps)
    qed
  qed
  ultimately show ?thesis unfolding has want_ok_def by blast
qed


section \<open>Verdicts of the batch verification\<close>

text \<open>
  The verdicts of \<^verbatim>\<open>VerifyBatch\<close> belong to identifiers, not to events: all events of the batch that carry the same identifier get the same
  verdict, whatever their content and signature. A forged event that repeats the identifier of a valid one before it is reported as verified.
\<close>

theorem batch_verdict_by_identifier:
  assumes "VerifyBatch env order sched now evs pol cache = (c, rep, out)"
    and "a < length evs" "b < length evs" "TrimSpace (ID (evs ! a)) = TrimSpace (ID (evs ! b))"
  shows "length out = length evs \<and> out ! a = out ! b"
  using assms by (auto simp: VerifyBatch_def Let_def split: prod.splits)

section \<open>Witnesses\<close>

lemma sample_precheck:
  "validateWithPolicyNoCrypto sample_env sample_now (policyOr None) sample_first = Inr (unsignedHash sample_env sample_first)"
proof -
  have v: "validateWithPolicy sample_env sample_now (policyOr None) sample_first = Inr ()"
    using sample_policy_valid[OF sample_first_valid(1)] by simp
  then show ?thesis
    by (cases "validateWithPolicyNoCrypto sample_env sample_now (policyOr None) sample_first") (auto dest: NoCrypto_error NoCrypto_hash)
qed

lemma sample_law: "\<forall>pub m sig. leVerify sample_env pub m sig \<longrightarrow> length sig = SignatureSize"
  by (simp add: sample_env_def SignatureSize_def)

lemma sample_identified: "ID sample_first = EncodeToString (unsignedHash sample_env sample_first)"
  using sample_first_valid(1) by (simp add: Validate_split Verify_Inr rbind_eq_Inr del: sample_fields)

lemma sample_encoded: "EncodeToString (unsignedHash sample_env sample_first) = ''NQ''"
  by (simp only: sample_identified[symmetric] sample_fields sample_ID_eval)

lemma sample_checkSig: "checkSig sample_env sample_first"
  using checkSig_Verify[OF sample_law sample_identified] sample_first_valid(1) by (simp add: Validate_split)

definition sample_message :: EventsMessage where
  "sample_message = \<lparr>emSchemaVersion = 1, emEvents = [sample_first]\<rparr>"


theorem verified_cache_sound_witness:
  "length (cEntries (fst (run cache_op_step [CachePut sample_first 0] (NewVerifiedEventCache 2 5)))) \<le> 2 \<and>
   (snd (cacheMatch (ID sample_first) (AuthorKeyB64 sample_first) (SigB64 sample_first) 1
      (fst (run cache_op_step [CachePut sample_first 0] (NewVerifiedEventCache 2 5)))) \<and> checkSig sample_env sample_first)"
proof -
  have v: "\<forall>ev now. CachePut ev now \<in> set [CachePut sample_first 0] \<longrightarrow> verifiedEvent sample_env ev"
    using sample_identified sample_checkSig by (simp add: verifiedEvent_def)
  have hit: "snd (cacheMatch (ID sample_first) (AuthorKeyB64 sample_first) (SigB64 sample_first) 1
      (fst (run cache_op_step [CachePut sample_first 0] (NewVerifiedEventCache 2 5))))"
    by (simp add: cacheMatch_def cachePut_def NewVerifiedEventCache_def orDefault_def)
  have "AuthorPublicKey sample_first = Inr sample_key"
    by (simp add: AuthorPublicKey_Inr sample_key_def ledger_consts)
  moreover note main = verified_cache_sound[where env = sample_env and ops = "[CachePut sample_first 0]" and mx = 2 and ttl = 5, OF v]
  ultimately have "checkSig sample_env sample_first" using hit sample_identified by blast
  then show ?thesis using main hit by (simp add: orDefault_def)
qed

theorem plan_from_peer_witness:
  "PlanSyncFromPeer \<lparr>imSchemaVersion = 1, imHeads = [''NQ''], imHave = []\<rparr> 0 New = [''NQ''] \<and> \<not> Have New ''NQ''"
proof -
  let ?peer = "\<lparr>imSchemaVersion = 1, imHeads = [''NQ''], imHave = []\<rparr>"
  have "PlanSyncFromPeer ?peer 0 New = [''NQ'']"
    by (simp add: PlanSyncFromPeer_def addWant_def Have_def New_def orDefault_def Let_def)
  then show ?thesis using plan_from_peer[of ?peer 0 New] by simp
qed

definition sample_forged :: Event where
  "sample_forged = sample_first\<lparr>Author := ''mallory'', SigB64 := ''''\<rparr>"

theorem batch_verdict_by_identifier_witness:
  "snd (snd (VerifyBatch sample_env (\<lambda>xs. xs) (\<lambda>xs. xs) sample_now [sample_first, sample_forged] None None)) = [True, True] \<and>
   \<not> checkSig sample_env sample_forged"
proof -
  obtain c rep out where vb: "VerifyBatch sample_env (\<lambda>xs. xs) (\<lambda>xs. xs) sample_now [sample_first, sample_forged] None None = (c, rep, out)"
    by (cases "VerifyBatch sample_env (\<lambda>xs. xs) (\<lambda>xs. xs) sample_now [sample_first, sample_forged] None None") auto
  have ids: "ID sample_forged = ID sample_first" by (simp add: sample_forged_def)
  have "length out = 2 \<and> out ! 0 = out ! 1"
    using batch_verdict_by_identifier[OF vb, of 0 1] by (simp add: ids)
  moreover have "firstWith ''NQ'' [sample_first, sample_forged] = Some sample_first" by (simp add: firstWith_def)
  then have "out = map (\<lambda>e. TrimSpace (ID e) \<in> set [''NQ'']) [sample_first, sample_forged]"
    using vb by (simp add: VerifyBatch_def Let_def batchStep_def prechecked_def matchOpt_def ids sample_precheck sample_encoded sample_checkSig
        del: set_map set_filter cong: if_cong)
  moreover have "\<not> checkSig sample_env sample_forged"
    by (simp add: checkSig_def sample_forged_def sample_env_def DecodeString_def split: sum.splits)
  ultimately show ?thesis by (simp add: vb)
qed

end
