(* ===== verification/Sync_Options.thy ===== *)
theory Sync_Options
  imports Ledger_Sync
begin

text \<open>
  The configuration of the synchronisation service (\<^verbatim>\<open>pkg/ledgersync/service.go\<close>, \<^verbatim>\<open>security.go\<close>): options, privacy policy and security policy
  with their normalisation, and the helpers of the service that only compute: padding of plaintexts, samples, shuffles, identifiers.

  A random source is the function from the number of a call of \<^verbatim>\<open>randUint32\<close> within an operation to its result, \<open>None\<close> for an error. Function
  values of the options are \<open>None\<close> when they are nil. \<^verbatim>\<open>runtime.NumCPU\<close> is an argument.
\<close>

section \<open>Roles and peers\<close>

definition WireSchemaV1 :: int where "WireSchemaV1 = 1"

definition PeerRoleNormal :: string where "PeerRoleNormal = ''normal''"
definition PeerRoleRelay :: string where "PeerRoleRelay = ''relay''"
definition PeerRoleBridge :: string where "PeerRoleBridge = ''bridge''"
definition PeerRoleAgent :: string where "PeerRoleAgent = ''agent''"

lemmas role_defs = PeerRoleNormal_def PeerRoleRelay_def PeerRoleBridge_def PeerRoleAgent_def

record Peer =
  peID :: string
  peMeshPub :: bytes
  peRole :: string

section \<open>The security policy\<close>

record SecurityPolicy =
  InitialScore :: int
  MinScore :: int
  MediumScore :: int
  HighScore :: int
  QuarantineBase :: duration
  QuarantineMax :: duration
  MaxInventorySize :: int
  MaxHeadsPerRound :: int
  MaxWantsPerRound :: int
  QuarantineAfterRejects :: int
  SybilWarmupApplied :: int
  NewPeerWarmupRounds :: int
  MaxRelaysPerRound :: int
  MaxAgentsPerRound :: int
  RelayMaxInboundBytes :: int
  AgentMaxInboundBytes :: int
  InventoryEchoThreshold :: int
  InventoryClusterThreshold :: int
  InventoryWindow :: duration

definition DefaultSecurityPolicy :: SecurityPolicy where
  "DefaultSecurityPolicy = \<lparr>InitialScore = 10, MinScore = - 60, MediumScore = 35, HighScore = 75,
     QuarantineBase = 30 * second, QuarantineMax = 10 * minute, MaxInventorySize = 256, MaxHeadsPerRound = 64, MaxWantsPerRound = 256,
     QuarantineAfterRejects = 12, SybilWarmupApplied = 3, NewPeerWarmupRounds = 3, MaxRelaysPerRound = 1, MaxAgentsPerRound = 1,
     RelayMaxInboundBytes = 120 * 1024, AgentMaxInboundBytes = 64 * 1024, InventoryEchoThreshold = 4, InventoryClusterThreshold = 3,
     InventoryWindow = 3 * minute\<rparr>"

text \<open>The two tests that the normalisations repeat: a value that is not positive is replaced, a value that is too large is cut.\<close>

definition ifUnset :: "int \<Rightarrow> int \<Rightarrow> int" where "ifUnset d v = (if v \<le> 0 then d else v)"

definition cutAt :: "int \<Rightarrow> int \<Rightarrow> int" where "cutAt m v = (if v > m then m else v)"

definition SecurityPolicy_normalize :: "SecurityPolicy \<Rightarrow> SecurityPolicy" where
  "SecurityPolicy_normalize p =
     (let def = DefaultSecurityPolicy;
          initial = (if InitialScore p = 0 then InitialScore def else InitialScore p);
          min = (if MinScore p = 0 then MinScore def else MinScore p);
          medium = (if MediumScore p \<le> min then MediumScore def else MediumScore p);
          high = (if HighScore p \<le> medium then HighScore def else HighScore p);
          base = ifUnset (QuarantineBase def) (QuarantineBase p);
          max0 = ifUnset (QuarantineMax def) (QuarantineMax p);
          warmup = ifUnset (NewPeerWarmupRounds def) (NewPeerWarmupRounds p)
      in \<lparr>InitialScore = initial, MinScore = min, MediumScore = medium, HighScore = high, QuarantineBase = base,
          QuarantineMax = (if max0 < base then base else max0), MaxInventorySize = ifUnset (MaxInventorySize def) (MaxInventorySize p),
          MaxHeadsPerRound = ifUnset (MaxHeadsPerRound def) (MaxHeadsPerRound p),
          MaxWantsPerRound = ifUnset (MaxWantsPerRound def) (MaxWantsPerRound p),
          QuarantineAfterRejects = ifUnset (QuarantineAfterRejects def) (QuarantineAfterRejects p),
          SybilWarmupApplied = warmup, NewPeerWarmupRounds = warmup,
          MaxRelaysPerRound = ifUnset (MaxRelaysPerRound def) (MaxRelaysPerRound p),
          MaxAgentsPerRound = ifUnset (MaxAgentsPerRound def) (MaxAgentsPerRound p),
          RelayMaxInboundBytes = ifUnset (RelayMaxInboundBytes def) (RelayMaxInboundBytes p),
          AgentMaxInboundBytes = ifUnset (AgentMaxInboundBytes def) (AgentMaxInboundBytes p),
          InventoryEchoThreshold = ifUnset (InventoryEchoThreshold def) (InventoryEchoThreshold p),
          InventoryClusterThreshold = ifUnset (InventoryClusterThreshold def) (InventoryClusterThreshold p),
          InventoryWindow = ifUnset (InventoryWindow def) (InventoryWindow p)\<rparr>)"

section \<open>The privacy policy\<close>

definition PrivacyLow :: string where "PrivacyLow = ''low''"
definition PrivacyMedium :: string where "PrivacyMedium = ''medium''"
definition PrivacyHigh :: string where "PrivacyHigh = ''high''"
definition PrivacyParanoid :: string where "PrivacyParanoid = ''paranoid''"

record PrivacyPolicy =
  Level :: string
  OutboundDelayMax :: duration
  PaddingBucketBytes :: int
  InventorySamplePermille :: int
  WantSamplePermille :: int
  WantNoiseCount :: int
  CoverPeers :: int

definition ifZero :: "int \<Rightarrow> int \<Rightarrow> int" where "ifZero d v = (if v = 0 then d else v)"

text \<open>The defaults of a level: padding, delay, samples of inventory and wants, noise and cover peers.\<close>

definition levelDefaults :: "int \<Rightarrow> duration \<Rightarrow> int \<Rightarrow> int \<Rightarrow> int \<Rightarrow> int \<Rightarrow> PrivacyPolicy \<Rightarrow> PrivacyPolicy" where
  "levelDefaults pad delay invs wants noise cover p =
     p\<lparr>PaddingBucketBytes := ifZero pad (PaddingBucketBytes p), OutboundDelayMax := ifZero delay (OutboundDelayMax p),
       InventorySamplePermille := ifZero invs (InventorySamplePermille p), WantSamplePermille := ifZero wants (WantSamplePermille p),
       WantNoiseCount := ifZero noise (WantNoiseCount p), CoverPeers := ifZero cover (CoverPeers p)\<rparr>"

definition applyLevel :: "PrivacyPolicy \<Rightarrow> PrivacyPolicy" where
  "applyLevel p =
     (let lv = (if Level p = '''' then PrivacyMedium else Level p) in
      if lv = PrivacyLow then levelDefaults 0 0 1000 1000 0 0 (p\<lparr>Level := lv\<rparr>)
      else if lv = PrivacyMedium then levelDefaults 4096 0 1000 1000 0 0 (p\<lparr>Level := lv\<rparr>)
      else if lv = PrivacyHigh then levelDefaults 8192 (2 * second) 600 700 8 1 (p\<lparr>Level := lv\<rparr>)
      else if lv = PrivacyParanoid then levelDefaults 16384 (8 * second) 400 500 32 2 (p\<lparr>Level := lv\<rparr>)
      else levelDefaults 4096 0 1000 1000 0 0 (p\<lparr>Level := PrivacyMedium\<rparr>))"

definition PrivacyPolicy_normalize :: "PrivacyPolicy \<Rightarrow> PrivacyPolicy" where
  "PrivacyPolicy_normalize p0 =
     (let p = applyLevel p0 in
      \<lparr>Level = Level p, OutboundDelayMax = max 0 (OutboundDelayMax p), PaddingBucketBytes = max 0 (PaddingBucketBytes p),
       InventorySamplePermille = cutAt 1000 (ifUnset 1000 (InventorySamplePermille p)),
       WantSamplePermille = cutAt 1000 (ifUnset 1000 (WantSamplePermille p)), WantNoiseCount = max 0 (WantNoiseCount p),
       CoverPeers = cutAt 4 (max 0 (CoverPeers p))\<rparr>)"

section \<open>The options\<close>

record Options =
  MaxPeersPerRound :: int
  MaxHave :: int
  MaxWant :: int
  oMaxEvents :: int
  MaxEventBytes :: int
  MaxEventsMessageBytes :: int
  VerifyWorkers :: int
  VerifyBatchSize :: int
  VerifiedCacheMax :: int
  VerifiedCacheTTL :: duration
  ApplyChunkSize :: int
  SchedulerCriticalWeight :: int
  SchedulerNormalWeight :: int
  SchedulerBackgroundWeight :: int
  SchedulerDrainPerReceive :: int
  SchedulerDrainAfterRelay :: int
  SchedulerMaxQueuedTotal :: int
  SchedulerMaxQueuedPerPeer :: int
  SchedulerMaxQueuedCritical :: int
  SchedulerMaxQueuedNormal :: int
  SchedulerMaxQueuedBg :: int
  MaxInboundMsgsPerMin :: int
  MaxInboundBytesPerMin :: int
  PenaltyBase :: duration
  PenaltyMax :: duration
  RecentMsgTTL :: duration
  RecentMsgMax :: int
  AllowContext :: "(string \<Rightarrow> bool) option"
  AllowOutgoingKind :: "(string \<Rightarrow> string \<Rightarrow> bool) option"
  AllowIncomingKind :: "(string \<Rightarrow> string \<Rightarrow> bool) option"
  oSecurityPolicy :: SecurityPolicy
  Privacy :: PrivacyPolicy

definition defaultWorkers :: "int \<Rightarrow> int" where
  "defaultWorkers numCPU = cutAt 4 (ifUnset 1 numCPU)"

definition orAllow :: "'a option \<Rightarrow> 'a \<Rightarrow> 'a option" where
  "orAllow f d = (case f of None \<Rightarrow> Some d | Some g \<Rightarrow> Some g)"

definition Options_normalize :: "int \<Rightarrow> Options \<Rightarrow> Options" where
  "Options_normalize numCPU o1 =
     (let perPeer = cutAt 20000 (ifUnset 256 (SchedulerMaxQueuedPerPeer o1));
          total = cutAt 200000 (ifUnset 2048 (SchedulerMaxQueuedTotal o1));
          base = ifUnset (30 * second) (PenaltyBase o1);
          pmax = ifUnset (10 * minute) (PenaltyMax o1)
      in \<lparr>MaxPeersPerRound = cutAt 12 (ifUnset 3 (MaxPeersPerRound o1)),
          MaxHave = cutAt 512 (if MaxHave o1 < 0 then 256 else MaxHave o1),
          MaxWant = cutAt 512 (ifUnset 128 (MaxWant o1)),
          oMaxEvents = cutAt 512 (ifUnset 128 (oMaxEvents o1)),
          MaxEventBytes = cutAt (1024 * 1024) (ifUnset (256 * 1024) (MaxEventBytes o1)),
          MaxEventsMessageBytes = cutAt (4 * 1024 * 1024) (ifUnset (1024 * 1024) (MaxEventsMessageBytes o1)),
          VerifyWorkers = cutAt 16 (ifUnset (defaultWorkers numCPU) (VerifyWorkers o1)),
          VerifyBatchSize = cutAt 512 (ifUnset 64 (VerifyBatchSize o1)),
          VerifiedCacheMax = cutAt 65536 (ifUnset 4096 (VerifiedCacheMax o1)),
          VerifiedCacheTTL = cutAt (120 * minute) (ifUnset (10 * minute) (VerifiedCacheTTL o1)),
          ApplyChunkSize = cutAt 1024 (ifUnset 64 (ApplyChunkSize o1)),
          SchedulerCriticalWeight = cutAt 32 (ifUnset 5 (SchedulerCriticalWeight o1)),
          SchedulerNormalWeight = cutAt 32 (ifUnset 3 (SchedulerNormalWeight o1)),
          SchedulerBackgroundWeight = cutAt 32 (ifUnset 1 (SchedulerBackgroundWeight o1)),
          SchedulerDrainPerReceive = cutAt 1024 (ifUnset 8 (SchedulerDrainPerReceive o1)),
          SchedulerDrainAfterRelay = cutAt 8192 (ifUnset 256 (SchedulerDrainAfterRelay o1)),
          SchedulerMaxQueuedTotal = total,
          SchedulerMaxQueuedPerPeer = cutAt total perPeer,
          SchedulerMaxQueuedCritical = cutAt perPeer (ifUnset 64 (SchedulerMaxQueuedCritical o1)),
          SchedulerMaxQueuedNormal = cutAt perPeer (ifUnset 128 (SchedulerMaxQueuedNormal o1)),
          SchedulerMaxQueuedBg = cutAt perPeer (ifUnset 64 (SchedulerMaxQueuedBg o1)),
          MaxInboundMsgsPerMin = cutAt 600 (ifUnset 60 (MaxInboundMsgsPerMin o1)),
          MaxInboundBytesPerMin = cutAt (50 * 1024 * 1024) (ifUnset (2 * 1024 * 1024) (MaxInboundBytesPerMin o1)),
          PenaltyBase = base,
          PenaltyMax = (if pmax < base then base else pmax),
          RecentMsgTTL = cutAt (30 * minute) (ifUnset (2 * minute) (RecentMsgTTL o1)),
          RecentMsgMax = cutAt 8192 (ifUnset 512 (RecentMsgMax o1)),
          AllowContext = orAllow (AllowContext o1) (\<lambda>_. True),
          AllowOutgoingKind = orAllow (AllowOutgoingKind o1) (\<lambda>_ _. True),
          AllowIncomingKind = orAllow (AllowIncomingKind o1) (\<lambda>_ _. True),
          oSecurityPolicy = SecurityPolicy_normalize (oSecurityPolicy o1),
          Privacy = PrivacyPolicy_normalize (Privacy o1)\<rparr>)"


section \<open>Messages on the wire\<close>

text \<open>The JSON codec of \<^verbatim>\<open>WireMessage\<close> is a parameter; the body is kept as bytes.\<close>

record WireMessage =
  wSchemaVersion :: int
  wType :: string
  wSession :: string
  wContext :: string
  wBody :: bytes

definition encodeWire :: "(WireMessage \<Rightarrow> bytes) \<Rightarrow> string \<Rightarrow> string \<Rightarrow> string \<Rightarrow> bytes \<Rightarrow> bytes" where
  "encodeWire marshal t session ctx raw =
     marshal \<lparr>wSchemaVersion = WireSchemaV1, wType = t, wSession = session, wContext = ctx, wBody = raw\<rparr>"

definition decodeWire :: "(bytes \<Rightarrow> WireMessage option) \<Rightarrow> bytes \<Rightarrow> WireMessage option" where
  "decodeWire unmarshal raw =
     (case unmarshal raw of
        None \<Rightarrow> None
      | Some w \<Rightarrow> if wSchemaVersion w \<noteq> WireSchemaV1 then None else if wType w = '''' then None else Some w)"

definition peerIDFromMeshPub :: "bytes \<Rightarrow> string" where
  "peerIDFromMeshPub pub = EncodeToString pub"

definition msgIDFromPlaintext :: "(bytes \<Rightarrow> bytes) \<Rightarrow> bytes \<Rightarrow> string" where
  "msgIDFromPlaintext sha pt = EncodeToString (take 16 (sha pt))"

section \<open>Padding\<close>

definition privacyPadMagic :: bytes where "privacyPadMagic = [0x53, 0x4C, 0x50, 0x31]"

text \<open>\<open>fill n\<close> are \<open>n\<close> random bytes.\<close>

definition padPlaintext :: "(nat \<Rightarrow> bytes option) \<Rightarrow> bytes \<Rightarrow> int \<Rightarrow> bytes option" where
  "padPlaintext fill plaintext bucketBytes =
     (if bucketBytes \<le> 0 \<or> plaintext = [] then Some plaintext
      else let minSize = length plaintext + 8 in
           if int minSize \<ge> bucketBytes then Some plaintext
           else case fill (nat bucketBytes - minSize) of
                  None \<Rightarrow> None
                | Some r \<Rightarrow> Some (privacyPadMagic @ le_bytes 4 (length plaintext) @ plaintext @ r))"

definition unpadPlaintext :: "bytes \<Rightarrow> bytes \<times> bool" where
  "unpadPlaintext plaintext =
     (if length plaintext < 8 then (plaintext, False)
      else if take 4 plaintext \<noteq> privacyPadMagic then (plaintext, False)
      else let n = le_nat (slice 4 8 plaintext) in
           if n > length plaintext - 8 then (plaintext, False) else (slice 8 (8 + n) plaintext, True))"

section \<open>Samples and shuffles\<close>

definition sampleStringsPermille :: "(nat \<Rightarrow> nat option) \<Rightarrow> string list \<Rightarrow> int \<Rightarrow> string list" where
  "sampleStringsPermille rnd ids permille =
     (if permille \<ge> 1000 then ids
      else if permille \<le> 0 then []
      else map snd (filter (\<lambda>(i, _). case rnd i of None \<Rightarrow> True | Some rn \<Rightarrow> int (rn mod 1000) < permille) (enumerate 0 ids)))"

definition swap :: "nat \<Rightarrow> nat \<Rightarrow> 'a list \<Rightarrow> 'a list" where
  "swap i j xs = xs[i := xs ! j, j := xs ! i]"

text \<open>The loop from the last index down to 1: the index \<open>i\<close> uses the call number \<open>len - 1 - i\<close>.\<close>

fun shuffleLoop :: "(nat \<Rightarrow> nat option) \<Rightarrow> nat \<Rightarrow> nat \<Rightarrow> 'a list \<Rightarrow> 'a list" where
  "shuffleLoop rnd k 0 xs = xs"
| "shuffleLoop rnd k (Suc i) xs =
     shuffleLoop rnd (k + 1) i (case rnd k of None \<Rightarrow> xs | Some rn \<Rightarrow> swap (Suc i) (rn mod (Suc i + 1)) xs)"

definition shuffle :: "(nat \<Rightarrow> nat option) \<Rightarrow> 'a list \<Rightarrow> 'a list" where
  "shuffle rnd xs = (if length xs \<le> 1 then xs else shuffleLoop rnd 0 (length xs - 1) xs)"

definition randDuration :: "(nat \<Rightarrow> nat option) \<Rightarrow> duration \<Rightarrow> duration" where
  "randDuration rnd mx = (if mx \<le> 0 then 0 else case rnd 0 of None \<Rightarrow> 0 | Some rn \<Rightarrow> int rn mod (mx + 1))"

section \<open>Ranges\<close>

lemma clamp_range: "0 < d \<Longrightarrow> 0 < m \<Longrightarrow> 1 \<le> cutAt m (ifUnset d v) \<and> cutAt m (ifUnset d v) \<le> m"
  by (auto simp: cutAt_def ifUnset_def)

lemma cut_pos: "1 \<le> m \<Longrightarrow> 1 \<le> v \<Longrightarrow> 1 \<le> cutAt m v"
  by (simp add: cutAt_def)

lemma cut_le: "cutAt m v \<le> m"
  by (simp add: cutAt_def)

lemma ifUnset_pos: "1 \<le> d \<Longrightarrow> 1 \<le> ifUnset d v"
  by (auto simp: ifUnset_def)

definition security_in_range :: "SecurityPolicy \<Rightarrow> bool" where
  "security_in_range p \<longleftrightarrow> InitialScore p \<noteq> 0 \<and> MinScore p \<noteq> 0 \<and> 1 \<le> QuarantineBase p \<and> QuarantineBase p \<le> QuarantineMax p \<and>
     1 \<le> MaxInventorySize p \<and> 1 \<le> MaxHeadsPerRound p \<and> 1 \<le> MaxWantsPerRound p \<and> 1 \<le> QuarantineAfterRejects p \<and>
     1 \<le> SybilWarmupApplied p \<and> SybilWarmupApplied p = NewPeerWarmupRounds p \<and> 1 \<le> MaxRelaysPerRound p \<and> 1 \<le> MaxAgentsPerRound p \<and>
     1 \<le> InventoryEchoThreshold p \<and> 1 \<le> InventoryClusterThreshold p \<and> 1 \<le> InventoryWindow p"

definition privacy_in_range :: "PrivacyPolicy \<Rightarrow> bool" where
  "privacy_in_range p \<longleftrightarrow> Level p \<in> {PrivacyLow, PrivacyMedium, PrivacyHigh, PrivacyParanoid} \<and> 0 \<le> OutboundDelayMax p \<and>
     0 \<le> PaddingBucketBytes p \<and> 1 \<le> InventorySamplePermille p \<and> InventorySamplePermille p \<le> 1000 \<and>
     1 \<le> WantSamplePermille p \<and> WantSamplePermille p \<le> 1000 \<and> 0 \<le> WantNoiseCount p \<and> 0 \<le> CoverPeers p \<and> CoverPeers p \<le> 4"

definition options_in_range :: "Options \<Rightarrow> bool" where
  "options_in_range x \<longleftrightarrow>
     1 \<le> MaxPeersPerRound x \<and> MaxPeersPerRound x \<le> 12 \<and> 0 \<le> MaxHave x \<and> MaxHave x \<le> 512 \<and> 1 \<le> MaxWant x \<and> MaxWant x \<le> 512 \<and>
     1 \<le> oMaxEvents x \<and> oMaxEvents x \<le> 512 \<and> 1 \<le> MaxEventBytes x \<and> MaxEventBytes x \<le> 2 ^ 20 \<and>
     1 \<le> MaxEventsMessageBytes x \<and> MaxEventsMessageBytes x \<le> 2 ^ 22 \<and> 1 \<le> VerifyWorkers x \<and> VerifyWorkers x \<le> 16 \<and>
     1 \<le> VerifiedCacheMax x \<and> VerifiedCacheMax x \<le> 65536 \<and> 1 \<le> VerifiedCacheTTL x \<and>
     {1..32} \<supseteq> {SchedulerCriticalWeight x, SchedulerNormalWeight x, SchedulerBackgroundWeight x} \<and>
     1 \<le> SchedulerDrainPerReceive x \<and> 1 \<le> SchedulerDrainAfterRelay x \<and>
     1 \<le> SchedulerMaxQueuedPerPeer x \<and> SchedulerMaxQueuedPerPeer x \<le> SchedulerMaxQueuedTotal x \<and> SchedulerMaxQueuedTotal x \<le> 200000 \<and>
     1 \<le> SchedulerMaxQueuedCritical x \<and> 1 \<le> SchedulerMaxQueuedNormal x \<and> 1 \<le> SchedulerMaxQueuedBg x \<and>
     1 \<le> MaxInboundMsgsPerMin x \<and> MaxInboundMsgsPerMin x \<le> 600 \<and> 1 \<le> MaxInboundBytesPerMin x \<and>
     1 \<le> PenaltyBase x \<and> PenaltyBase x \<le> PenaltyMax x \<and> 1 \<le> RecentMsgTTL x \<and> 1 \<le> RecentMsgMax x \<and> RecentMsgMax x \<le> 8192 \<and>
     AllowContext x \<noteq> None \<and> AllowOutgoingKind x \<noteq> None \<and> AllowIncomingKind x \<noteq> None \<and>
     security_in_range (oSecurityPolicy x) \<and> privacy_in_range (Privacy x)"

lemma security_normalised: "security_in_range (SecurityPolicy_normalize p)"
  by (simp add: security_in_range_def SecurityPolicy_normalize_def Let_def ifUnset_pos DefaultSecurityPolicy_def second_def minute_def)

lemma applyLevel_Level: "Level (applyLevel p) \<in> {PrivacyLow, PrivacyMedium, PrivacyHigh, PrivacyParanoid}"
  by (auto simp: applyLevel_def levelDefaults_def Let_def)

lemma privacy_normalised: "privacy_in_range (PrivacyPolicy_normalize p)"
proof -
  have "1 \<le> cutAt 1000 (ifUnset 1000 v) \<and> cutAt 1000 (ifUnset 1000 v) \<le> 1000" for v by (rule clamp_range) simp_all
  moreover have "0 \<le> cutAt 4 (max 0 v) \<and> cutAt 4 (max 0 v) \<le> 4" for v by (auto simp: cutAt_def)
  ultimately show ?thesis using applyLevel_Level[of p] by (simp add: privacy_in_range_def PrivacyPolicy_normalize_def Let_def)
qed

lemma normalised_range: "options_in_range (Options_normalize numCPU x)"
proof -
  have w: "1 \<le> defaultWorkers numCPU" by (simp add: defaultWorkers_def cutAt_def ifUnset_def)
  have have_range: "0 \<le> cutAt 512 (if v < 0 then 256 else v)" for v by (simp add: cutAt_def)
  show ?thesis
    using security_normalised privacy_normalised
    by (simp add: options_in_range_def Options_normalize_def Let_def cut_pos cut_le ifUnset_pos w have_range orAllow_def second_def minute_def
        split: option.split)
qed


section \<open>Padding hides the length\<close>

lemma shuffle_swap_mset: "i < length xs \<Longrightarrow> j < length xs \<Longrightarrow> mset (swap i j xs) = mset xs"
  by (simp add: swap_def mset_swap)

lemma length_swap [simp]: "length (swap i j xs) = length xs"
  by (simp add: swap_def)

lemma shuffleLoop_mset: "i < length xs \<Longrightarrow> mset (shuffleLoop rnd k i xs) = mset xs"
proof (induction i arbitrary: k xs)
  case (Suc i)
  have "rn mod (Suc i + 1) < length xs" for rn
    using Suc.prems mod_less_divisor[of "Suc i + 1" rn] by linarith
  then have "mset (case rnd k of None \<Rightarrow> xs | Some rn \<Rightarrow> swap (Suc i) (rn mod (Suc i + 1)) xs) = mset xs"
    using Suc.prems by (cases "rnd k") (simp_all add: shuffle_swap_mset)
  moreover have "i < length (case rnd k of None \<Rightarrow> xs | Some rn \<Rightarrow> swap (Suc i) (rn mod (Suc i + 1)) xs)"
    using Suc.prems by (simp split: option.split)
  ultimately show ?case using Suc.IH by simp
qed simp

lemma shuffle_mset [simp]: "mset (shuffle rnd xs) = mset xs"
  by (auto simp: shuffle_def intro: shuffleLoop_mset)

lemma sample_subset: "set (sampleStringsPermille rnd ids permille) \<subseteq> set ids"
  by (auto simp: sampleStringsPermille_def in_set_enumerate_eq)

text \<open>
  Padding hides the length and is undone exactly: every non-empty plaintext that fits in the bucket with the eight bytes of the header is
  sent with exactly the length of the bucket, whatever its own length is, and the receiver gets the plaintext back; a longer plaintext is
  sent as it is, and is received unchanged unless it begins like a padded one.
\<close>

theorem padding_roundtrip:
  assumes "\<And>n r. fill n = Some r \<Longrightarrow> length r = n" "padPlaintext fill pt bucket = Some out" "bucket < 2 ^ 32" "pt \<noteq> []" "take 4 pt \<noteq> privacyPadMagic"
  shows "(length out = (if int (length pt) + 8 < bucket then nat bucket else length pt)) \<and> fst (unpadPlaintext out) = pt"
proof (cases "int (length pt) + 8 < bucket")
  case True
  then obtain r where r: "fill (nat bucket - (length pt + 8)) = Some r" "out = privacyPadMagic @ le_bytes 4 (length pt) @ pt @ r"
    using assms(2,4) by (auto simp: padPlaintext_def Let_def split: option.splits if_splits)
  have len: "length out = nat bucket" using assms(1)[OF r(1)] True by (simp add: r(2) privacyPadMagic_def)
  have parts: "take 4 out = privacyPadMagic" "slice 4 8 out = le_bytes 4 (length pt)" "slice 8 (8 + length pt) out = pt"
    by (simp_all add: r(2) privacyPadMagic_def slice_def)
  have "length pt < 256 ^ 4" using True assms(3) by simp
  then have "le_nat (slice 4 8 out) = length pt" by (simp add: parts(2) le_nat_le_bytes)
  moreover have "8 \<le> length out" "length pt \<le> length out - 8" using True len by linarith+
  ultimately show ?thesis using True len parts(1,3) by (simp add: unpadPlaintext_def Let_def)
next
  case False
  then have "out = pt" using assms(2) by (auto simp: padPlaintext_def Let_def split: if_splits)
  then show ?thesis using False assms(5) by (simp add: unpadPlaintext_def)
qed


theorem padding_roundtrip_witness:
  "\<exists>out. padPlaintext (\<lambda>n. Some (replicate n 0)) [0x7B, 0x7D] 16 = Some out \<and> length out = 16 \<and> fst (unpadPlaintext out) = [0x7B, 0x7D]"
proof -
  obtain out where out: "padPlaintext (\<lambda>n. Some (replicate n 0)) [0x7B, 0x7D] 16 = Some out" by (simp add: padPlaintext_def)
  have "length out = 16 \<and> fst (unpadPlaintext out) = [0x7B, 0x7D]"
    using padding_roundtrip[OF _ out] by (simp add: privacyPadMagic_def)
  with out show ?thesis by blast
qed

end
