(* ===== verification/Sync_Scheduler.thy ===== *)
theory Sync_Scheduler
  imports Sync_Options
begin

text \<open>
  The scheduler of inbound events (\<^verbatim>\<open>PriorityScheduler\<close> in \<^verbatim>\<open>pkg/ledgersync/service.go\<close>): three queues for the classes of priority, a quota per
  peer, eviction of less urgent items for critical ones, and a weighted round robin over a pattern of classes.

  \<^verbatim>\<open>fifoQueue\<close> is a slice with the index of its head that is compacted now and then. The quotas are Go ints in a map from peers to pointers.
\<close>

section \<open>The queue\<close>

datatype PriorityClass = PriorityCritical | PriorityNormal | PriorityBackground

record schedItem =
  siPeerID :: string
  siRole :: string
  siContext :: string
  siMsg :: EventsMessage
  siMaxMessageBytes :: int

record 'a fifoQueue =
  fqItems :: "'a list"
  fqHead :: nat

definition fifoEmpty :: "'a fifoQueue" where "fifoEmpty = \<lparr>fqItems = [], fqHead = 0\<rparr>"

definition fifoLen :: "'a fifoQueue \<Rightarrow> nat" where "fifoLen q = length (fqItems q) - fqHead q"

definition Push :: "'a \<Rightarrow> 'a fifoQueue \<Rightarrow> 'a fifoQueue" where "Push it q = q\<lparr>fqItems := fqItems q @ [it]\<rparr>"

definition Pop :: "'a fifoQueue \<Rightarrow> 'a fifoQueue \<times> 'a option" where
  "Pop q =
     (if fifoLen q = 0 then (q, None)
      else let it = fqItems q ! fqHead q; h = fqHead q + 1 in
           if h > 64 \<and> h * 2 \<ge> length (fqItems q) then (\<lparr>fqItems = drop h (fqItems q), fqHead = 0\<rparr>, Some it)
           else (q\<lparr>fqHead := h\<rparr>, Some it))"

text \<open>The queue as a list.\<close>

definition contents :: "'a fifoQueue \<Rightarrow> 'a list" where "contents q = drop (fqHead q) (fqItems q)"

definition fifo_ok :: "'a fifoQueue \<Rightarrow> bool" where "fifo_ok q \<longleftrightarrow> fqHead q \<le> length (fqItems q)"

lemma fifoLen_contents: "fifoLen q = length (contents q)"
  by (simp add: fifoLen_def contents_def)

lemma fifoEmpty_facts [simp]: "fifo_ok fifoEmpty" "contents fifoEmpty = []"
  by (simp_all add: fifoEmpty_def fifo_ok_def contents_def)

lemma Push_facts [simp]: "fifo_ok q \<Longrightarrow> fifo_ok (Push it q)" "fifo_ok q \<Longrightarrow> contents (Push it q) = contents q @ [it]"
  by (simp_all add: Push_def fifo_ok_def contents_def)

lemma Pop_spec:
  assumes "fifo_ok q"
  shows "fifo_ok (fst (Pop q)) \<and> contents (fst (Pop q)) = tl (contents q) \<and> snd (Pop q) = (case contents q of [] \<Rightarrow> None | x # _ \<Rightarrow> Some x)"
proof (cases "contents q")
  case Nil
  then show ?thesis using assms by (simp add: Pop_def fifoLen_contents)
next
  case (Cons x xs)
  then have h: "fqHead q < length (fqItems q)" by (metis contents_def drop_eq_Nil2 linorder_not_le neq_Nil_conv)
  have "fqItems q ! fqHead q = x" using Cons h by (metis contents_def hd_drop_conv_nth list.sel(1))
  moreover have "drop (fqHead q + 1) (fqItems q) = xs" using Cons by (metis contents_def drop_Suc list.sel(3) tl_drop Suc_eq_plus1)
  ultimately show ?thesis using Cons h by (auto simp: Pop_def fifoLen_contents Let_def fifo_ok_def contents_def)
qed

lemma Pop_Some: "fifo_ok q \<Longrightarrow> Pop q = (q', Some it) \<longleftrightarrow> contents q = it # contents q' \<and> fifo_ok q' \<and> q' = fst (Pop q)"
  using Pop_spec[of q] by (cases "contents q") (auto simp: prod_eq_iff)

lemma Pop_less: "Pop q = (q', Some it) \<Longrightarrow> fifoLen q' < fifoLen q"
  by (auto simp: Pop_def Let_def fifoLen_def split: if_splits)

lemma Pop_None: "fifo_ok q \<Longrightarrow> snd (Pop q) = None \<longleftrightarrow> contents q = []"
  using Pop_spec[of q] by (simp split: list.splits)

section \<open>A queue in general\<close>

text \<open>
  What a client of a queue relies on: the queue is a list to whose end items are added and from whose front they are taken.
\<close>

locale fifo =
  fixes abs :: "'q \<Rightarrow> 'a list" and ok :: "'q \<Rightarrow> bool" and push :: "'a \<Rightarrow> 'q \<Rightarrow> 'q" and pop :: "'q \<Rightarrow> 'q \<times> 'a option"
  assumes push_ok: "ok q \<Longrightarrow> ok (push x q)" and push_abs: "ok q \<Longrightarrow> abs (push x q) = abs q @ [x]"
    and pop_ok: "ok q \<Longrightarrow> ok (fst (pop q))" and pop_abs: "ok q \<Longrightarrow> abs (fst (pop q)) = tl (abs q)"
    and pop_out: "ok q \<Longrightarrow> snd (pop q) = (case abs q of [] \<Rightarrow> None | x # _ \<Rightarrow> Some x)"
begin

text \<open>\<open>Some x\<close> pushes and \<open>None\<close> pops.\<close>

definition queue_step :: "'a option \<Rightarrow> 'q \<Rightarrow> 'q \<times> 'a option" where
  "queue_step c q = (case c of Some x \<Rightarrow> (push x q, None) | None \<Rightarrow> pop q)"

fun list_step :: "'a option \<Rightarrow> 'a list \<Rightarrow> 'a list \<times> 'a option" where
  "list_step (Some x) xs = (xs @ [x], None)"
| "list_step None [] = ([], None)"
| "list_step None (x # xs) = (xs, Some x)"

lemma step_refines:
  assumes "ok q"
  shows "ok (fst (queue_step c q)) \<and> abs (fst (queue_step c q)) = fst (list_step c (abs q)) \<and> snd (queue_step c q) = snd (list_step c (abs q))"
proof (cases c)
  case None
  then show ?thesis using pop_ok[OF assms] pop_abs[OF assms] pop_out[OF assms] by (cases "abs q") (simp_all add: queue_step_def)
next
  case (Some x)
  then show ?thesis using push_ok[OF assms] push_abs[OF assms] by (simp add: queue_step_def)
qed

lemma run_refines:
  "ok q \<Longrightarrow> ok (fst (run queue_step cs q)) \<and> abs (fst (run queue_step cs q)) = fst (run list_step cs (abs q)) \<and>
     snd (run queue_step cs q) = snd (run list_step cs (abs q))"
proof (induction cs arbitrary: q)
  case (Cons c cs)
  then show ?case using step_refines[OF Cons.prems, of c] Cons.IH[of "fst (queue_step c q)"] by (simp add: Let_def)
qed simp

end

interpretation fq: fifo contents fifo_ok Push Pop
  by unfold_locales (simp_all add: Pop_spec)

section \<open>The scheduler\<close>

record peerQuota =
  pqTotal :: int
  pqC :: int
  pqN :: int
  pqB :: int

definition zeroQuota :: peerQuota where "zeroQuota = \<lparr>pqTotal = 0, pqC = 0, pqN = 0, pqB = 0\<rparr>"

record PriorityScheduler =
  maxTotal :: int
  maxPerPeer :: int
  maxC :: int
  maxN :: int
  maxB :: int
  qC :: "schedItem fifoQueue"
  qN :: "schedItem fifoQueue"
  qB :: "schedItem fifoQueue"
  quotas :: "string \<Rightarrow> peerQuota option"
  pattern :: "PriorityClass list"
  patIdx :: nat

definition classPattern :: "Options \<Rightarrow> PriorityClass list" where
  "classPattern opts =
     (let p = replicate (nat (SchedulerCriticalWeight opts)) PriorityCritical @ replicate (nat (SchedulerNormalWeight opts)) PriorityNormal @
            replicate (nat (SchedulerBackgroundWeight opts)) PriorityBackground
      in if p = [] then [PriorityCritical, PriorityNormal, PriorityBackground] else p)"

definition NewPriorityScheduler :: "Options \<Rightarrow> PriorityScheduler" where
  "NewPriorityScheduler opts = \<lparr>maxTotal = SchedulerMaxQueuedTotal opts, maxPerPeer = SchedulerMaxQueuedPerPeer opts,
     maxC = SchedulerMaxQueuedCritical opts, maxN = SchedulerMaxQueuedNormal opts, maxB = SchedulerMaxQueuedBg opts,
     qC = fifoEmpty, qN = fifoEmpty, qB = fifoEmpty, quotas = (\<lambda>_. None), pattern = classPattern opts, patIdx = 0\<rparr>"

definition schedLen :: "PriorityScheduler \<Rightarrow> nat" where
  "schedLen s = fifoLen (qC s) + fifoLen (qN s) + fifoLen (qB s)"

text \<open>The first class, from the given one downwards, whose quota allows the item.\<close>

function admitClass :: "PriorityScheduler \<Rightarrow> peerQuota \<Rightarrow> PriorityClass \<Rightarrow> PriorityClass option" where
  "admitClass s q PriorityCritical =
     (if pqC q \<ge> maxC s \<or> pqTotal q \<ge> maxPerPeer s then admitClass s q PriorityNormal else Some PriorityCritical)"
| "admitClass s q PriorityNormal =
     (if pqN q \<ge> maxN s \<or> pqTotal q \<ge> maxPerPeer s then admitClass s q PriorityBackground else Some PriorityNormal)"
| "admitClass s q PriorityBackground =
     (if pqB q \<ge> maxB s \<or> pqTotal q \<ge> maxPerPeer s then None else Some PriorityBackground)"
  by pat_completeness auto
termination
  by (relation "measure (\<lambda>(s, q, c). case c of PriorityCritical \<Rightarrow> 2 | PriorityNormal \<Rightarrow> 1 | PriorityBackground \<Rightarrow> (0 :: nat))") auto

text \<open>
  The eviction for a critical item: background items first, then normal ones, until the total is below its maximum. The quotas of the peers
  whose items are dropped are not touched.
\<close>

function evictFor :: "int \<Rightarrow> PriorityScheduler \<Rightarrow> PriorityScheduler \<times> bool" where
  "evictFor tot s =
     (if tot < maxTotal s then (s, True)
      else case Pop (qB s) of
             (q, Some _) \<Rightarrow> evictFor (tot - 1) (s\<lparr>qB := q\<rparr>)
           | (_, None) \<Rightarrow> (case Pop (qN s) of
                            (q, Some _) \<Rightarrow> evictFor (tot - 1) (s\<lparr>qN := q\<rparr>)
                          | (_, None) \<Rightarrow> (s, False)))"
  by auto
termination
  by (relation "measure (\<lambda>(tot, s). fifoLen (qB s) + fifoLen (qN s))") (auto dest: Pop_less[OF sym])

declare evictFor.simps [simp del]

definition push_class :: "PriorityClass \<Rightarrow> schedItem \<Rightarrow> PriorityScheduler \<Rightarrow> PriorityScheduler" where
  "push_class c it s =
     (case c of PriorityCritical \<Rightarrow> s\<lparr>qC := Push it (qC s)\<rparr> | PriorityNormal \<Rightarrow> s\<lparr>qN := Push it (qN s)\<rparr>
      | PriorityBackground \<Rightarrow> s\<lparr>qB := Push it (qB s)\<rparr>)"

definition count_class :: "int \<Rightarrow> PriorityClass \<Rightarrow> peerQuota \<Rightarrow> peerQuota" where
  "count_class d c q =
     (case c of PriorityCritical \<Rightarrow> q\<lparr>pqC := pqC q + d, pqTotal := pqTotal q + d\<rparr> | PriorityNormal \<Rightarrow> q\<lparr>pqN := pqN q + d, pqTotal := pqTotal q + d\<rparr>
      | PriorityBackground \<Rightarrow> q\<lparr>pqB := pqB q + d, pqTotal := pqTotal q + d\<rparr>)"

definition schedPeer :: "string \<Rightarrow> string" where
  "schedPeer peerID = (if TrimSpace peerID = '''' then ''unknown'' else TrimSpace peerID)"

definition quotaOf :: "PriorityScheduler \<Rightarrow> string \<Rightarrow> peerQuota" where
  "quotaOf s p = (case quotas s p of None \<Rightarrow> zeroQuota | Some q \<Rightarrow> q)"

definition Enqueue :: "string \<Rightarrow> PriorityClass \<Rightarrow> schedItem \<Rightarrow> PriorityScheduler \<Rightarrow> PriorityScheduler \<times> bool" where
  "Enqueue peerID cls it s0 =
     (let p = schedPeer peerID; ps = quotaOf s0 p; s = s0\<lparr>quotas := (quotas s0)(p \<mapsto> ps)\<rparr> in
      case admitClass s ps cls of
        None \<Rightarrow> (s, False)
      | Some c \<Rightarrow>
          let tot = int (schedLen s); full = maxTotal s > 0 \<and> tot \<ge> maxTotal s;
              room = (if \<not> full then (s, True) else if c \<noteq> PriorityCritical then (s, False) else evictFor tot s)
          in if \<not> snd room then (fst room, False)
             else (let s1 = push_class c (it\<lparr>siPeerID := p\<rparr>) (fst room) in (s1\<lparr>quotas := (quotas s1)(p \<mapsto> count_class 1 c ps)\<rparr>, True)))"

definition queue_of :: "PriorityClass \<Rightarrow> PriorityScheduler \<Rightarrow> schedItem fifoQueue" where
  "queue_of c s = (case c of PriorityCritical \<Rightarrow> qC s | PriorityNormal \<Rightarrow> qN s | PriorityBackground \<Rightarrow> qB s)"

definition set_queue :: "PriorityClass \<Rightarrow> schedItem fifoQueue \<Rightarrow> PriorityScheduler \<Rightarrow> PriorityScheduler" where
  "set_queue c q s = (case c of PriorityCritical \<Rightarrow> s\<lparr>qC := q\<rparr> | PriorityNormal \<Rightarrow> s\<lparr>qN := q\<rparr> | PriorityBackground \<Rightarrow> s\<lparr>qB := q\<rparr>)"

text \<open>What is taken back from the quota of the peer of a served item; a quota that reaches zero is forgotten.\<close>

definition uncount :: "PriorityClass \<Rightarrow> schedItem \<Rightarrow> PriorityScheduler \<Rightarrow> PriorityScheduler" where
  "uncount c it s =
     (case quotas s (siPeerID it) of
        None \<Rightarrow> s
      | Some q \<Rightarrow> let q' = count_class (- 1) c q
                  in if pqTotal q' \<le> 0 then s\<lparr>quotas := (quotas s)(siPeerID it := None)\<rparr> else s\<lparr>quotas := (quotas s)(siPeerID it \<mapsto> q')\<rparr>)"

fun nextLoop :: "nat \<Rightarrow> PriorityScheduler \<Rightarrow> PriorityScheduler \<times> schedItem option" where
  "nextLoop 0 s = (s, None)"
| "nextLoop (Suc n) s =
     (let c = pattern s ! patIdx s; s1 = s\<lparr>patIdx := (if patIdx s + 1 \<ge> length (pattern s) then 0 else patIdx s + 1)\<rparr> in
      case Pop (queue_of c s1) of
        (_, None) \<Rightarrow> nextLoop n s1
      | (q, Some it) \<Rightarrow> (uncount c it (set_queue c q s1), Some it))"

definition Next :: "PriorityScheduler \<Rightarrow> PriorityScheduler \<times> schedItem option" where
  "Next s =
     (if schedLen s = 0 then (s, None)
      else nextLoop (if length (pattern s) \<le> 0 then 1 else length (pattern s)) s)"


section \<open>Queues and quotas\<close>

definition classCount :: "PriorityClass \<Rightarrow> peerQuota \<Rightarrow> int" where
  "classCount c q = (case c of PriorityCritical \<Rightarrow> pqC q | PriorityNormal \<Rightarrow> pqN q | PriorityBackground \<Rightarrow> pqB q)"

definition classMax :: "PriorityClass \<Rightarrow> PriorityScheduler \<Rightarrow> int" where
  "classMax c s = (case c of PriorityCritical \<Rightarrow> maxC s | PriorityNormal \<Rightarrow> maxN s | PriorityBackground \<Rightarrow> maxB s)"

definition waiting :: "PriorityClass \<Rightarrow> PriorityScheduler \<Rightarrow> schedItem list" where
  "waiting c s = contents (queue_of c s)"

definition queued :: "PriorityScheduler \<Rightarrow> string \<Rightarrow> PriorityClass \<Rightarrow> nat" where
  "queued s p c = length (filter (\<lambda>it. siPeerID it = p) (waiting c s))"

lemma all_classes: "(\<forall>c. P c) \<longleftrightarrow> P PriorityCritical \<and> P PriorityNormal \<and> P PriorityBackground"
  by (metis PriorityClass.exhaust)

lemma queue_set [simp]: "queue_of c (set_queue c' q s) = (if c = c' then q else queue_of c s)"
  by (cases c; cases c') (simp_all add: queue_of_def set_queue_def)

lemma set_queue_frame [simp]:
  "quotas (set_queue c q s) = quotas s" "pattern (set_queue c q s) = pattern s" "patIdx (set_queue c q s) = patIdx s"
  "maxTotal (set_queue c q s) = maxTotal s" "maxPerPeer (set_queue c q s) = maxPerPeer s" "classMax d (set_queue c q s) = classMax d s"
  by (cases c; simp add: set_queue_def classMax_def split: PriorityClass.split)+

lemma queue_frame [simp]:
  "queue_of c (s\<lparr>quotas := m\<rparr>) = queue_of c s" "queue_of c (s\<lparr>patIdx := i\<rparr>) = queue_of c s"
  "classMax c (s\<lparr>quotas := m\<rparr>) = classMax c s" "classMax c (s\<lparr>patIdx := i\<rparr>) = classMax c s"
  by (cases c; simp add: queue_of_def classMax_def)+

lemma push_class_set: "push_class c it s = set_queue c (Push it (queue_of c s)) s"
  by (cases c) (simp_all add: push_class_def set_queue_def queue_of_def)

lemma schedLen_waiting: "schedLen s = length (waiting PriorityCritical s) + length (waiting PriorityNormal s) + length (waiting PriorityBackground s)"
  by (simp add: schedLen_def waiting_def queue_of_def fifoLen_contents)

lemma count_class_facts:
  "classCount c' (count_class d c q) = (if c' = c then classCount c' q + d else classCount c' q)" "pqTotal (count_class d c q) = pqTotal q + d"
  by (cases c; cases c'; simp add: classCount_def count_class_def)+

lemma admitClass_Some: "admitClass s q cls = Some c \<Longrightarrow> classCount c q < classMax c s \<and> pqTotal q < maxPerPeer s"
  by (induction s q cls rule: admitClass.induct) (auto simp: classCount_def classMax_def split: if_splits)

lemma admitClass_None: "pqTotal q \<ge> maxPerPeer s \<Longrightarrow> admitClass s q cls = None"
  by (cases cls) simp_all

lemma admitClass_frame [simp]: "admitClass (s\<lparr>quotas := m\<rparr>) q cls = admitClass s q cls"
  by (cases cls) simp_all

text \<open>Taking the front of one queue.\<close>

lemma popped:
  assumes "\<forall>c. fifo_ok (queue_of c s)" "Pop (queue_of c s) = (q, Some it)"
  shows "\<forall>d. fifo_ok (queue_of d (set_queue c q s))" "waiting c s = it # waiting c (set_queue c q s)"
    "waiting d (set_queue c q s) = (if d = c then drop 1 (waiting d s) else waiting d s)"
    "schedLen s = schedLen (set_queue c q s) + 1"
proof -
  have q: "contents (queue_of c s) = it # contents q" "fifo_ok q" using assms Pop_Some[of "queue_of c s" q it] by auto
  show "\<forall>d. fifo_ok (queue_of d (set_queue c q s))" using assms(1) q(2) by simp
  show w: "waiting c s = it # waiting c (set_queue c q s)" using q(1) by (simp add: waiting_def)
  show "waiting d (set_queue c q s) = (if d = c then drop 1 (waiting d s) else waiting d s)" for d
    using q(1) by (simp add: waiting_def)
  moreover from w have "length (waiting c s) = length (waiting c (set_queue c q s)) + 1" by (metis length_Cons Suc_eq_plus1)
  ultimately show "schedLen s = schedLen (set_queue c q s) + 1" by (cases c) (simp_all add: schedLen_waiting)
qed

definition evicted :: "PriorityScheduler \<Rightarrow> PriorityScheduler \<Rightarrow> bool" where
  "evicted s t \<longleftrightarrow> (\<forall>c. fifo_ok (queue_of c t)) \<and> quotas t = quotas s \<and> pattern t = pattern s \<and> patIdx t = patIdx s \<and>
     maxTotal t = maxTotal s \<and> maxPerPeer t = maxPerPeer s \<and> (\<forall>c. classMax c t = classMax c s) \<and>
     waiting PriorityCritical t = waiting PriorityCritical s \<and> (\<forall>c. \<exists>k. waiting c t = drop k (waiting c s))"

lemma evicted_refl: "\<forall>c. fifo_ok (queue_of c s) \<Longrightarrow> evicted s s"
  unfolding evicted_def by (metis drop0)

lemma evicted_pop:
  assumes "\<forall>c. fifo_ok (queue_of c s)" "Pop (queue_of c s) = (q, Some it)" "c \<noteq> PriorityCritical" "evicted (set_queue c q s) t"
  shows "evicted s t"
proof -
  have "\<exists>k. waiting d t = drop k (waiting d s)" for d
  proof -
    obtain k where "waiting d t = drop k (waiting d (set_queue c q s))" using assms(4) unfolding evicted_def by blast
    then show ?thesis unfolding popped(3)[OF assms(1,2)] by (cases "d = c") auto
  qed
  then show ?thesis using assms(3,4) popped(3)[OF assms(1,2), of PriorityCritical] by (auto simp: evicted_def)
qed

lemma evictFor_facts:
  "\<forall>c. fifo_ok (queue_of c s) \<Longrightarrow> evicted s (fst (evictFor tot s)) \<and>
    (snd (evictFor tot s) \<longrightarrow> int (schedLen (fst (evictFor tot s))) < maxTotal s + (int (schedLen s) - tot))"
proof (induction tot s rule: evictFor.induct)
  case (1 tot s)
  have B: "queue_of PriorityBackground s = qB s" "s\<lparr>qB := q\<rparr> = set_queue PriorityBackground q s" for q by (simp_all add: queue_of_def set_queue_def)
  have N: "queue_of PriorityNormal s = qN s" "s\<lparr>qN := q\<rparr> = set_queue PriorityNormal q s" for q by (simp_all add: queue_of_def set_queue_def)
  consider (stop) "tot < maxTotal s \<or> snd (Pop (qB s)) = None \<and> snd (Pop (qN s)) = None" | (bg) q it where "\<not> tot < maxTotal s" "Pop (qB s) = (q, Some it)"
    | (normal) q0 q it where "\<not> tot < maxTotal s" "Pop (qB s) = (q0, None)" "Pop (qN s) = (q, Some it)"
    by (metis not_None_eq prod.collapse)
  then show ?case
  proof cases
    case stop
    then have "evictFor tot s = (s, tot < maxTotal s)" by (subst evictFor.simps) (auto split: prod.split option.split)
    then show ?thesis using evicted_refl[OF 1(3)] by simp
  next
    case bg
    note p = popped[OF 1(3), of PriorityBackground q it, unfolded B, OF bg(2)]
    have "evicted s t" if "evicted (s\<lparr>qB := q\<rparr>) t" for t
      using evicted_pop[OF 1(3), of PriorityBackground q it t, unfolded B(1), OF bg(2)] that by (simp add: B(2))
    moreover have "evictFor tot s = evictFor (tot - 1) (s\<lparr>qB := q\<rparr>)" by (subst evictFor.simps) (simp add: bg)
    ultimately show ?thesis using 1(2)[OF bg(1) bg(2)[symmetric] refl] p(1,4) by (simp add: B(2) algebra_simps)
  next
    case normal
    note p = popped[OF 1(3), of PriorityNormal q it, unfolded N, OF normal(3)]
    have "evicted s t" if "evicted (s\<lparr>qN := q\<rparr>) t" for t
      using evicted_pop[OF 1(3), of PriorityNormal q it t, unfolded N(1), OF normal(3)] that by (simp add: N(2))
    moreover have "evictFor tot s = evictFor (tot - 1) (s\<lparr>qN := q\<rparr>)" by (subst evictFor.simps) (simp add: normal)
    ultimately show ?thesis using 1(1)[OF normal(1) normal(2)[symmetric] refl normal(3)[symmetric] refl] p(1,4) by (simp add: N(2) algebra_simps)
  qed
qed


section \<open>The invariant\<close>

definition quota_ok :: "PriorityScheduler \<Rightarrow> string \<Rightarrow> bool" where
  "quota_ok s p \<longleftrightarrow> (\<forall>c. int (queued s p c) \<le> classCount c (quotaOf s p) \<and> classCount c (quotaOf s p) \<le> max 0 (classMax c s)) \<and>
     pqTotal (quotaOf s p) = pqC (quotaOf s p) + pqN (quotaOf s p) + pqB (quotaOf s p) \<and> pqTotal (quotaOf s p) \<le> max 0 (maxPerPeer s)"

definition sched_ok :: "PriorityScheduler \<Rightarrow> bool" where
  "sched_ok s \<longleftrightarrow> (\<forall>c. fifo_ok (queue_of c s)) \<and> patIdx s < length (pattern s) \<and> (\<forall>p. quota_ok s p) \<and>
     (maxTotal s > 0 \<longrightarrow> int (schedLen s) \<le> maxTotal s)"

lemma New_sched_ok: "sched_ok (NewPriorityScheduler opts)"
  by (simp add: sched_ok_def NewPriorityScheduler_def quota_ok_def queued_def waiting_def queue_of_def quotaOf_def zeroQuota_def classCount_def
      classPattern_def Let_def schedLen_def fifoLen_contents split: PriorityClass.split)

lemma filter_drop_le: "length (filter P (drop k xs)) \<le> length (filter P xs)"
  by (metis append_take_drop_id filter_append length_append le_add2)

lemma queued_evicted: "evicted s t \<Longrightarrow> queued t p c \<le> queued s p c"
  unfolding queued_def evicted_def by (metis filter_drop_le)

lemma quotaOf_frame [simp]: "quotaOf (set_queue c q s) p = quotaOf s p" "quotaOf (s\<lparr>patIdx := i\<rparr>) p = quotaOf s p"
  "quotaOf (s\<lparr>quotas := (quotas s)(k \<mapsto> v)\<rparr>) p = (if p = k then v else quotaOf s p)"
  by (simp_all add: quotaOf_def)

lemma classCount_simps [simp]: "classCount PriorityCritical q = pqC q" "classCount PriorityNormal q = pqN q" "classCount PriorityBackground q = pqB q"
  by (simp_all add: classCount_def)

lemma count_total: "pqTotal q = pqC q + pqN q + pqB q \<Longrightarrow>
    pqTotal (count_class d c q) = pqC (count_class d c q) + pqN (count_class d c q) + pqB (count_class d c q)"
  by (cases c) (simp_all add: count_class_def)

text \<open>What becomes of the quotas when an item of the class \<open>c\<close> is admitted for the peer \<open>p\<close>.\<close>

lemma push_quota_ok:
  assumes "evicted s t" "quota_ok s p'" "admitClass s (quotaOf s p) cls = Some c"
    and "t' = set_queue c (Push (it\<lparr>siPeerID := p\<rparr>) (queue_of c t)) t"
  shows "quota_ok (t'\<lparr>quotas := (quotas t')(p \<mapsto> count_class 1 c (quotaOf s p))\<rparr>) p'"
proof -
  let ?n = "t'\<lparr>quotas := (quotas t')(p \<mapsto> count_class 1 c (quotaOf s p))\<rparr>"
  have q: "quotaOf t' r = quotaOf s r" for r using assms(1,4) by (simp add: quotaOf_def evicted_def)
  have mx: "classMax d ?n = classMax d s" "maxPerPeer ?n = maxPerPeer s" for d using assms(1,4) by (simp_all add: evicted_def)
  have ok: "fifo_ok (queue_of c t)" using assms(1) by (simp add: evicted_def)
  have w: "queued ?n p' d = queued t p' d + (if p' = p \<and> d = c then 1 else 0)" for d
    using ok by (simp add: queued_def waiting_def assms(4))
  note adm = admitClass_Some[OF assms(3)]
  have le: "int (queued t p' d) \<le> classCount d (quotaOf s p') \<and> classCount d (quotaOf s p') \<le> max 0 (classMax d s)" for d
    using queued_evicted[OF assms(1), of p' d] assms(2) unfolding quota_ok_def by (meson of_nat_mono order_trans)
  have tot: "pqTotal (quotaOf s p') = pqC (quotaOf s p') + pqN (quotaOf s p') + pqB (quotaOf s p')" "pqTotal (quotaOf s p') \<le> max 0 (maxPerPeer s)"
    using assms(2) by (simp_all add: quota_ok_def)
  show ?thesis
  proof (cases "p' = p")
    case True
    then have new: "quotaOf ?n p' = count_class 1 c (quotaOf s p)" by simp
    have "int (queued ?n p' d) \<le> classCount d (quotaOf ?n p') \<and> classCount d (quotaOf ?n p') \<le> max 0 (classMax d ?n)" for d
      using le[of d] adm True unfolding new w mx count_class_facts by auto
    moreover have "pqTotal (quotaOf ?n p') \<le> max 0 (maxPerPeer ?n)" using adm unfolding new mx count_class_facts by linarith
    moreover have "pqTotal (quotaOf ?n p') = pqC (quotaOf ?n p') + pqN (quotaOf ?n p') + pqB (quotaOf ?n p')"
      unfolding new using tot(1) True by (intro count_total) simp
    ultimately show ?thesis unfolding quota_ok_def by blast
  next
    case False
    then have "quotaOf ?n p' = quotaOf s p'" by (simp add: q)
    then show ?thesis using le tot False w mx unfolding quota_ok_def by simp
  qed
qed

lemma quota_ok_cong:
  assumes "\<And>c. waiting c t = waiting c s" "quotaOf t p = quotaOf s p" "\<And>c. classMax c t = classMax c s" "maxPerPeer t = maxPerPeer s"
  shows "quota_ok t p \<longleftrightarrow> quota_ok s p"
  unfolding quota_ok_def queued_def assms by (rule refl)

lemma touch_ok: "sched_ok s \<Longrightarrow> sched_ok (s\<lparr>quotas := (quotas s)(p \<mapsto> quotaOf s p)\<rparr>)"
  unfolding sched_ok_def using quota_ok_cong[of "s\<lparr>quotas := (quotas s)(p \<mapsto> quotaOf s p)\<rparr>" s]
  by (auto simp: waiting_def schedLen_def)

lemma evicted_ok: "sched_ok s \<Longrightarrow> evicted s t \<Longrightarrow> sched_ok t"
proof -
  assume ok: "sched_ok s" and ev: "evicted s t"
  have q: "quotaOf t p = quotaOf s p" for p using ev by (simp add: quotaOf_def evicted_def)
  have "queued t p c \<le> queued s p c" for p c by (rule queued_evicted[OF ev])
  moreover have "length (waiting c t) \<le> length (waiting c s)" for c using ev unfolding evicted_def by (metis length_drop diff_le_self)
  then have "schedLen t \<le> schedLen s" by (simp add: schedLen_waiting add_mono)
  ultimately show ?thesis using ok ev unfolding sched_ok_def quota_ok_def evicted_def q by (smt (verit) of_nat_mono)
qed

text \<open>What an \<open>Enqueue\<close> does: it may evict, and then refuses or admits the item.\<close>

abbreviation touched :: "PriorityScheduler \<Rightarrow> string \<Rightarrow> PriorityScheduler" where
  "touched s p \<equiv> s\<lparr>quotas := (quotas s)(p \<mapsto> quotaOf s p)\<rparr>"

definition admitted :: "PriorityScheduler \<Rightarrow> string \<Rightarrow> PriorityClass \<Rightarrow> schedItem \<Rightarrow> PriorityScheduler \<Rightarrow> PriorityScheduler" where
  "admitted s p c it t =
     (let t' = set_queue c (Push (it\<lparr>siPeerID := p\<rparr>) (queue_of c t)) t
      in t'\<lparr>quotas := (quotas t')(p \<mapsto> count_class 1 c (quotaOf s p))\<rparr>)"

lemma admitted_frame [simp]: "pattern (admitted s p c it t) = pattern t" "patIdx (admitted s p c it t) = patIdx t"
  "maxTotal (admitted s p c it t) = maxTotal t" "maxPerPeer (admitted s p c it t) = maxPerPeer t" "classMax d (admitted s p c it t) = classMax d t"
  by (simp_all add: admitted_def Let_def)

lemma admitted_waiting: "fifo_ok (queue_of c t) \<Longrightarrow>
    waiting d (admitted s p c it t) = (if d = c then waiting d t @ [it\<lparr>siPeerID := p\<rparr>] else waiting d t)"
  by (simp add: admitted_def Let_def waiting_def)

lemma Enqueue_result:
  fixes peerID cls it s
  defines "p \<equiv> schedPeer peerID"
  assumes ok: "sched_ok s"
  obtains t where "evicted (touched s p) t" "Enqueue peerID cls it s = (t, False)"
  | t c where "evicted (touched s p) t" "Enqueue peerID cls it s = (admitted s p c it t, True)" "admitClass s (quotaOf s p) cls = Some c"
      "maxTotal s > 0 \<Longrightarrow> int (schedLen t) < maxTotal s"
proof -
  define s1 where "s1 = touched s p"
  have fo: "\<forall>c. fifo_ok (queue_of c s1)" using ok by (simp add: sched_ok_def s1_def)
  have adm: "admitClass s1 q cls = admitClass s q cls" for q by (simp add: s1_def)
  show thesis
  proof (cases "admitClass s (quotaOf s p) cls")
    case None
    then have "Enqueue peerID cls it s = (s1, False)" by (simp add: Enqueue_def Let_def s1_def p_def)
    then show ?thesis using that(1)[OF evicted_refl[OF fo, unfolded s1_def]] s1_def by blast
  next
    case (Some c)
    define full where "full \<longleftrightarrow> maxTotal s1 > 0 \<and> int (schedLen s1) \<ge> maxTotal s1"
    define room where "room = (if \<not> full then (s1, True) else if c \<noteq> PriorityCritical then (s1, False) else evictFor (int (schedLen s1)) s1)"
    have ev: "evicted s1 (fst room)" unfolding room_def using evictFor_facts[OF fo] evicted_refl[OF fo] by simp
    have fits: "int (schedLen (fst room)) < maxTotal s" if "snd room" "maxTotal s > 0"
      using that evictFor_facts[OF fo, of "int (schedLen s1)"] by (auto simp: room_def full_def s1_def split: if_splits)
    have enq: "Enqueue peerID cls it s = (if snd room then (admitted s p c it (fst room), True) else (fst room, False))"
      unfolding Enqueue_def Let_def p_def[symmetric] s1_def[symmetric] adm Some full_def[symmetric] option.simps room_def[symmetric]
        push_class_set admitted_def by simp
    show ?thesis
    proof (cases "snd room")
      case True
      then show ?thesis using that(2)[OF ev[unfolded s1_def] _ Some fits] enq by simp
    next
      case False
      then show ?thesis using that(1)[OF ev[unfolded s1_def]] enq by simp
    qed
  qed
qed

lemma Enqueue_ok:
  assumes ok: "sched_ok s"
  shows "sched_ok (fst (Enqueue peerID cls it s))"
  using ok
proof (cases rule: Enqueue_result[of s peerID cls it])
  case (1 t)
  then show ?thesis using evicted_ok[OF touch_ok[OF ok]] by simp
next
  case (2 t c)
  let ?p = "schedPeer peerID"
  have t: "sched_ok t" using evicted_ok[OF touch_ok[OF ok] 2(1)] .
  then have fo: "fifo_ok (queue_of d t)" for d by (simp add: sched_ok_def)
  have "quota_ok (admitted s ?p c it t) p'" for p'
  proof -
    have "quota_ok (touched s ?p) p'" using touch_ok[OF ok] by (simp add: sched_ok_def)
    from push_quota_ok[OF 2(1) this, of ?p cls c] 2(3) show ?thesis by (simp add: admitted_def Let_def)
  qed
  moreover have "\<forall>d. fifo_ok (queue_of d (admitted s ?p c it t))" using fo by (simp add: admitted_def Let_def)
  moreover have "schedLen (admitted s ?p c it t) = schedLen t + 1" using fo by (cases c) (simp_all add: schedLen_waiting admitted_waiting)
  moreover have "maxTotal t = maxTotal s" using 2(1) by (simp add: evicted_def)
  ultimately show ?thesis using t 2(2,4) by (auto simp: sched_ok_def)
qed

section \<open>Serving\<close>

lemma nextLoop_None: "nextLoop n s = (t, None) \<Longrightarrow> patIdx s < length (pattern s) \<Longrightarrow> \<exists>i < length (pattern s). t = s\<lparr>patIdx := i\<rparr>"
proof (induction n s rule: nextLoop.induct)
  case (1 s)
  then show ?case by auto
next
  case (2 n s)
  let ?i = "if patIdx s + 1 \<ge> length (pattern s) then 0 else patIdx s + 1"
  obtain q where "nextLoop n (s\<lparr>patIdx := ?i\<rparr>) = (t, None)" using 2(2) by (auto simp: Let_def split: prod.splits option.splits if_splits)
  moreover have "?i < length (pattern s)" using 2(3) by auto
  ultimately show ?case using 2(1)[OF refl refl] 2(2) by (auto simp: Let_def split: prod.splits option.splits)
qed

lemma nextLoop_Some:
  "nextLoop n s = (t, Some it) \<Longrightarrow> patIdx s < length (pattern s) \<Longrightarrow>
     \<exists>c i q. i < length (pattern s) \<and> Pop (queue_of c s) = (q, Some it) \<and> t = uncount c it (set_queue c q (s\<lparr>patIdx := i\<rparr>))"
proof (induction n s rule: nextLoop.induct)
  case (1 s)
  then show ?case by simp
next
  case (2 n s)
  let ?i = "if patIdx s + 1 \<ge> length (pattern s) then 0 else patIdx s + 1" and ?c = "pattern s ! patIdx s"
  have i: "?i < length (pattern s)" using 2(3) by auto
  show ?case
  proof (cases "snd (Pop (queue_of ?c s))")
    case None
    then have loop: "nextLoop n (s\<lparr>patIdx := ?i\<rparr>) = (t, Some it)" using 2(2) by (auto simp: Let_def split: prod.splits)
    have "Pop (queue_of ?c (s\<lparr>patIdx := ?i\<rparr>)) = (fst (Pop (queue_of ?c s)), None)" using None by (simp add: prod_eq_iff)
    from 2(1)[OF refl refl this[symmetric] refl loop] i show ?thesis by simp
  next
    case (Some x)
    then have "x = it" "t = uncount ?c it (set_queue ?c (fst (Pop (queue_of ?c s))) (s\<lparr>patIdx := ?i\<rparr>))"
      using 2(2) by (auto simp: Let_def split: prod.splits)
    moreover have "Pop (queue_of ?c s) = (fst (Pop (queue_of ?c s)), Some x)" using Some by (simp add: prod_eq_iff)
    ultimately show ?thesis using i by blast
  qed
qed

lemma uncount_frame [simp]: "queue_of d (uncount c it s) = queue_of d s" "pattern (uncount c it s) = pattern s" "patIdx (uncount c it s) = patIdx s"
  "maxTotal (uncount c it s) = maxTotal s" "maxPerPeer (uncount c it s) = maxPerPeer s" "classMax d (uncount c it s) = classMax d s"
  by (simp_all add: uncount_def Let_def split: option.split)

lemma quotaOf_uncount: "quotaOf (uncount c it s) p =
    (if p \<noteq> siPeerID it then quotaOf s p else case quotas s p of None \<Rightarrow> zeroQuota
       | Some q \<Rightarrow> if pqTotal (count_class (- 1) c q) \<le> 0 then zeroQuota else count_class (- 1) c q)"
  by (simp add: uncount_def quotaOf_def Let_def split: option.split)

lemma zero_counts [simp]: "classCount c zeroQuota = 0" "pqTotal zeroQuota = 0"
  by (cases c) (simp_all add: zeroQuota_def)

lemma served_quota_ok:
  assumes "quota_ok s p" "waiting c s = it # rest" "\<And>d. waiting d t = (if d = c then rest else waiting d s)"
    and "quotas t = quotas s" "\<And>d. classMax d t = classMax d s" "maxPerPeer t = maxPerPeer s"
  shows "quota_ok (uncount c it t) p"
proof -
  let ?u = "uncount c it t"
  have w: "waiting d ?u = (if d = c then rest else waiting d s)" for d using assms(3) by (simp add: waiting_def)
  have cnt: "queued s p d = queued ?u p d + (if d = c \<and> siPeerID it = p then 1 else 0)" for d by (simp add: queued_def w assms(2))
  have q: "quotaOf t p = quotaOf s p" by (simp add: quotaOf_def assms(4))
  have le: "int (queued s p d) \<le> classCount d (quotaOf s p) \<and> classCount d (quotaOf s p) \<le> max 0 (classMax d s)" for d
    using assms(1) unfolding quota_ok_def by blast
  have tot: "pqTotal (quotaOf s p) = pqC (quotaOf s p) + pqN (quotaOf s p) + pqB (quotaOf s p)" "pqTotal (quotaOf s p) \<le> max 0 (maxPerPeer s)"
    using assms(1) by (simp_all add: quota_ok_def)
  show ?thesis
  proof (cases "siPeerID it = p")
    case False
    then have "quotaOf ?u p = quotaOf s p" using q by (simp add: quotaOf_uncount)
    then show ?thesis using le tot cnt False unfolding quota_ok_def uncount_frame assms(5,6) by simp
  next
    case True
    have "0 < classCount c (quotaOf s p)" using le[of c] cnt[of c] True by simp
    then obtain qq where qq: "quotas t p = Some qq" "quotaOf s p = qq" using assms(4) by (cases "quotas s p") (auto simp: quotaOf_def)
    let ?q = "count_class (- 1) c qq"
    have left: "int (queued ?u p d) \<le> classCount d ?q" for d
      using le[of d] cnt[of d] True by (cases "d = c") (simp_all add: count_class_facts qq(2))
    show ?thesis
    proof (cases "pqTotal ?q \<le> 0")
      case False
      then have new: "quotaOf ?u p = ?q" using True qq(1) by (simp add: quotaOf_uncount)
      have "classCount d ?q \<le> max 0 (classMax d s)" for d using le[of d] by (auto simp: count_class_facts qq(2))
      moreover have "pqTotal ?q = pqC ?q + pqN ?q + pqB ?q" using tot(1) unfolding qq(2) by (rule count_total)
      moreover have "pqTotal ?q \<le> max 0 (maxPerPeer s)" using tot(2) by (simp add: count_class_facts qq(2))
      ultimately show ?thesis using left unfolding quota_ok_def uncount_frame new assms(5,6) by blast
    next
      case zero: True
      then have new: "quotaOf ?u p = zeroQuota" using True qq(1) by (simp add: quotaOf_uncount)
      have "pqC ?q + pqN ?q + pqB ?q \<le> 0" using zero count_total[OF tot(1), of "- 1" c] unfolding qq(2) by simp
      then have "queued ?u p d = 0" for d
        using left[of PriorityCritical] left[of PriorityNormal] left[of PriorityBackground] by (cases d) simp_all
      then show ?thesis unfolding quota_ok_def new all_classes by (simp add: zeroQuota_def)
    qed
  qed
qed

text \<open>A call of \<open>Next\<close> serves the front of one queue or nothing.\<close>

lemma Next_None: "Next s = (t, None) \<Longrightarrow> patIdx s < length (pattern s) \<Longrightarrow> \<exists>i < length (pattern s). t = s\<lparr>patIdx := i\<rparr>"
  by (auto simp: Next_def dest: nextLoop_None split: if_splits)

lemma Next_Some:
  assumes "Next s = (t, Some it)" "sched_ok s"
  obtains c i q where "i < length (pattern s)" "Pop (queue_of c s) = (q, Some it)" "t = uncount c it (set_queue c q (s\<lparr>patIdx := i\<rparr>))"
proof -
  have "nextLoop (if length (pattern s) \<le> 0 then 1 else length (pattern s)) s = (t, Some it)" using assms(1) by (simp add: Next_def split: if_splits)
  from nextLoop_Some[OF this] assms(2) that show ?thesis by (auto simp: sched_ok_def)
qed

lemma Next_ok:
  assumes ok: "sched_ok s"
  shows "sched_ok (fst (Next s))"
proof (cases "snd (Next s)")
  case None
  then have "Next s = (fst (Next s), None)" by (simp add: prod_eq_iff)
  then obtain i where "i < length (pattern s)" "fst (Next s) = s\<lparr>patIdx := i\<rparr>" using Next_None ok by (metis sched_ok_def)
  then show ?thesis using ok quota_ok_cong[of "s\<lparr>patIdx := i\<rparr>" s] by (auto simp: sched_ok_def waiting_def schedLen_def)
next
  case (Some it)
  then have "Next s = (fst (Next s), Some it)" by (simp add: prod_eq_iff)
  then obtain c i q where t: "i < length (pattern s)" "Pop (queue_of c s) = (q, Some it)" "fst (Next s) = uncount c it (set_queue c q (s\<lparr>patIdx := i\<rparr>))"
    using Next_Some[OF _ ok] by blast
  have fo: "\<forall>c. fifo_ok (queue_of c s)" using ok by (simp add: sched_ok_def)
  note p = popped[OF fo t(2)]
  let ?t = "set_queue c q (s\<lparr>patIdx := i\<rparr>)"
  have w: "waiting d ?t = waiting d (set_queue c q s)" for d by (simp add: waiting_def)
  have quota: "quota_ok (uncount c it ?t) r" for r
  proof (rule served_quota_ok)
    show "quota_ok s r" using ok by (simp add: sched_ok_def)
    show "waiting c s = it # waiting c (set_queue c q s)" by (rule p(2))
    show "waiting d ?t = (if d = c then waiting c (set_queue c q s) else waiting d s)" for d
      using p(3)[of d] unfolding w by (cases "d = c") simp_all
  qed simp_all
  have "schedLen (uncount c it ?t) = schedLen (set_queue c q s)" by (simp add: schedLen_waiting waiting_def)
  moreover have "fifo_ok q" using spec[OF p(1), of c] by simp
  ultimately show ?thesis using ok t(1) p(4) quota by (auto simp: sched_ok_def t(3))
qed


section \<open>Histories\<close>

datatype sched_op = OpEnqueue string PriorityClass schedItem | OpNext

fun sched_step :: "sched_op \<Rightarrow> PriorityScheduler \<Rightarrow> PriorityScheduler \<times> bool \<times> schedItem option" where
  "sched_step (OpEnqueue p cls it) s = (case Enqueue p cls it s of (t, ok) \<Rightarrow> (t, ok, None))"
| "sched_step OpNext s = (case Next s of (t, out) \<Rightarrow> (t, True, out))"

lemma sched_step_ok: "sched_ok s \<Longrightarrow> sched_ok (fst (sched_step x s))"
  using Enqueue_ok Next_ok by (cases x) (simp_all add: case_prod_unfold)

interpretation sched: state_machine sched_step sched_ok
  by unfold_locales (rule sched_step_ok)

definition same_limits :: "PriorityScheduler \<Rightarrow> PriorityScheduler \<Rightarrow> bool" where
  "same_limits s t \<longleftrightarrow> maxTotal t = maxTotal s \<and> maxPerPeer t = maxPerPeer s \<and> pattern t = pattern s \<and> (\<forall>c. classMax c t = classMax c s)"

lemma Enqueue_limits: "sched_ok s \<Longrightarrow> same_limits s (fst (Enqueue p cls it s))"
  by (erule Enqueue_result[of s p cls it]) (auto simp: same_limits_def evicted_def)

lemma Next_limits: "sched_ok s \<Longrightarrow> same_limits s (fst (Next s))"
proof (cases "snd (Next s)")
  case None
  assume "sched_ok s"
  then obtain i where "fst (Next s) = s\<lparr>patIdx := i\<rparr>" using Next_None[of s "fst (Next s)"] None by (metis prod.collapse sched_ok_def)
  then show ?thesis by (simp add: same_limits_def)
next
  case (Some it)
  assume ok: "sched_ok s"
  obtain c i q where "fst (Next s) = uncount c it (set_queue c q (s\<lparr>patIdx := i\<rparr>))"
    using Next_Some[OF _ ok, of "fst (Next s)" it] Some by (metis prod.collapse)
  then show ?thesis by (simp add: same_limits_def)
qed

lemma sched_step_limits: "sched_ok s \<Longrightarrow> same_limits s (fst (sched_step x s))"
  using Enqueue_limits Next_limits by (cases x) (simp_all add: case_prod_unfold)

interpretation sched_limits: state_machine sched_step "\<lambda>s. sched_ok s \<and> same_limits s0 s" for s0
proof
  fix s x assume "sched_ok s \<and> same_limits s0 s"
  then show "sched_ok (fst (sched_step x s)) \<and> same_limits s0 (fst (sched_step x s))"
    using sched_step_ok[of s x] sched_step_limits[of s x] by (simp add: same_limits_def)
qed

text \<open>
  C26. The queue of inbound events is bounded, for any options and any history of arrivals and deliveries: never more items than the
  total limit are queued, and of no peer more than the limit per peer, nor more in a class than the limit of the class.
\<close>

theorem scheduler_bounded:
  fixes x :: Options and numCPU :: int and p :: string and ops :: "sched_op list"
  defines "opts \<equiv> Options_normalize numCPU x"
  defines "s \<equiv> fst (run sched_step ops (NewPriorityScheduler opts))"
  shows "int (schedLen s) \<le> SchedulerMaxQueuedTotal opts \<and>
    int (queued s p PriorityCritical + queued s p PriorityNormal + queued s p PriorityBackground) \<le> SchedulerMaxQueuedPerPeer opts \<and>
    int (queued s p PriorityCritical) \<le> SchedulerMaxQueuedCritical opts \<and> int (queued s p PriorityNormal) \<le> SchedulerMaxQueuedNormal opts \<and>
    int (queued s p PriorityBackground) \<le> SchedulerMaxQueuedBg opts"
proof -
  let ?s0 = "NewPriorityScheduler opts"
  have ok: "sched_ok s \<and> same_limits ?s0 s"
    unfolding s_def by (rule sched_limits.run_inv) (simp add: New_sched_ok same_limits_def)
  have rng: "options_in_range opts" unfolding opts_def by (rule normalised_range)
  have lim: "maxTotal s = SchedulerMaxQueuedTotal opts" "maxPerPeer s = SchedulerMaxQueuedPerPeer opts"
      "classMax PriorityCritical s = SchedulerMaxQueuedCritical opts" "classMax PriorityNormal s = SchedulerMaxQueuedNormal opts"
      "classMax PriorityBackground s = SchedulerMaxQueuedBg opts"
    using ok unfolding same_limits_def all_classes by (simp_all add: NewPriorityScheduler_def classMax_def)
  have q: "quota_ok s p" using ok by (simp add: sched_ok_def)
  have pos: "1 \<le> SchedulerMaxQueuedTotal opts" "1 \<le> SchedulerMaxQueuedPerPeer opts" "1 \<le> SchedulerMaxQueuedCritical opts"
      "1 \<le> SchedulerMaxQueuedNormal opts" "1 \<le> SchedulerMaxQueuedBg opts"
    using rng by (auto simp: options_in_range_def)
  have each: "int (queued s p c) \<le> classCount c (quotaOf s p) \<and> classCount c (quotaOf s p) \<le> max 0 (classMax c s)" for c
    using q unfolding quota_ok_def by blast
  have "int (schedLen s) \<le> SchedulerMaxQueuedTotal opts" using ok pos(1) lim(1) by (simp add: sched_ok_def)
  moreover have "pqC (quotaOf s p) + pqN (quotaOf s p) + pqB (quotaOf s p) \<le> max 0 (maxPerPeer s)" using q unfolding quota_ok_def by linarith
  ultimately show ?thesis
    using each[of PriorityCritical] each[of PriorityNormal] each[of PriorityBackground] lim pos by simp
qed

section \<open>A refused peer\<close>

definition locked_out :: "string \<Rightarrow> PriorityScheduler \<Rightarrow> bool" where
  "locked_out p s \<longleftrightarrow> maxPerPeer s \<le> pqTotal (quotaOf s p) \<and> (\<forall>c. queued s p c = 0)"

lemma Enqueue_locked:
  assumes ok: "sched_ok s" and l: "locked_out p s"
  shows "locked_out p (fst (Enqueue peerID cls it s)) \<and> (schedPeer peerID = p \<longrightarrow> \<not> snd (Enqueue peerID cls it s))"
  using ok
proof (cases rule: Enqueue_result[of s peerID cls it])
  case (1 t)
  have "queued t p c \<le> queued s p c" for c using queued_evicted[OF 1(1), of p c] by (simp add: queued_def waiting_def)
  moreover have "quotaOf t p = quotaOf s p" "maxPerPeer t = maxPerPeer s" using 1(1) by (simp_all add: evicted_def quotaOf_def split: option.split)
  ultimately show ?thesis using l 1(2) by (simp add: locked_out_def)
next
  case (2 t c)
  have other: "schedPeer peerID \<noteq> p" using 2(3) l admitClass_None[of s "quotaOf s p" cls] by (auto simp: locked_out_def)
  have fo: "fifo_ok (queue_of c t)" using 2(1) by (simp add: evicted_def)
  have "queued t p d \<le> queued s p d" for d using queued_evicted[OF 2(1), of p d] by (simp add: queued_def waiting_def)
  then have none: "queued t p d = 0" for d using l by (simp add: locked_out_def)
  have "queued (admitted s (schedPeer peerID) c it t) p d = 0" for d
    using none[of d] none[of c] other unfolding queued_def admitted_waiting[OF fo] by simp
  moreover have "quotaOf (admitted s (schedPeer peerID) c it t) p = quotaOf s p"
    using other 2(1) by (simp add: admitted_def Let_def quotaOf_def evicted_def)
  moreover have "maxPerPeer t = maxPerPeer s" using 2(1) by (simp add: evicted_def)
  ultimately show ?thesis using l other 2(2) by (simp add: locked_out_def)
qed

lemma Next_locked:
  assumes "sched_ok s" "locked_out p s"
  shows "locked_out p (fst (Next s))"
proof (cases "snd (Next s)")
  case None
  then obtain i where "fst (Next s) = s\<lparr>patIdx := i\<rparr>" using Next_None[of s "fst (Next s)"] assms(1) by (metis prod.collapse sched_ok_def)
  then show ?thesis using assms(2) by (simp add: locked_out_def queued_def waiting_def)
next
  case (Some it)
  obtain c i q where n: "Pop (queue_of c s) = (q, Some it)" "fst (Next s) = uncount c it (set_queue c q (s\<lparr>patIdx := i\<rparr>))"
    using Next_Some[OF _ assms(1), of "fst (Next s)" it] Some by (metis prod.collapse)
  have fo: "\<forall>c. fifo_ok (queue_of c s)" using assms(1) by (simp add: sched_ok_def)
  note pp = popped[OF fo n(1)]
  have empty: "filter (\<lambda>x. siPeerID x = p) (waiting d s) = []" for d using assms(2) by (simp add: locked_out_def queued_def)
  have "it \<in> set (waiting c s)" unfolding pp(2) by simp
  then have other: "siPeerID it \<noteq> p" using empty[of c] unfolding filter_empty_conv by blast
  have w: "waiting d (fst (Next s)) = (if d = c then drop 1 (waiting d s) else waiting d s)" for d
    unfolding pp(3)[symmetric] by (simp add: n(2) waiting_def)
  have "queued (fst (Next s)) p d \<le> length (filter (\<lambda>x. siPeerID x = p) (waiting d s))" for d
    unfolding queued_def w by (auto simp: filter_drop_le)
  then have "queued (fst (Next s)) p d = 0" for d unfolding empty by simp
  moreover have "quotaOf (fst (Next s)) p = quotaOf s p" using other by (simp add: n(2) quotaOf_uncount)
  ultimately show ?thesis using assms(2) by (simp add: locked_out_def n(2))
qed

interpretation locked: state_machine sched_step "\<lambda>s. sched_ok s \<and> locked_out p s" for p
proof
  fix s x assume "sched_ok s \<and> locked_out p s"
  then show "sched_ok (fst (sched_step x s)) \<and> locked_out p (fst (sched_step x s))"
    using sched_step_ok[of s x] Enqueue_locked[of s p] Next_locked[of s p] by (cases x) (simp_all add: case_prod_unfold)
qed

text \<open>
  Eviction leaks quota. The items that make room for a critical one are dropped without being taken back from the quota of their peers, so a
  peer can have used up its quota with nothing queued; such a peer is refused for ever, whatever is enqueued and served afterwards.
\<close>

theorem evicted_peer_locked_out:
  assumes "sched_ok s" "maxPerPeer s \<le> pqTotal (quotaOf s (schedPeer peerID))" "\<forall>c. queued s (schedPeer peerID) c = 0"
  shows "\<not> snd (Enqueue peerID cls it (fst (run sched_step ops s)))"
proof -
  have "sched_ok (fst (run sched_step ops s)) \<and> locked_out (schedPeer peerID) (fst (run sched_step ops s))"
    by (rule locked.run_inv) (use assms in \<open>simp add: locked_out_def\<close>)
  then show ?thesis using Enqueue_locked by blast
qed


section \<open>Critical events are served\<close>

text \<open>How many places of the pattern are in front of the next critical one.\<close>

definition turns :: "PriorityScheduler \<Rightarrow> nat" where
  "turns s = length (takeWhile (\<lambda>c. c \<noteq> PriorityCritical) (rotate (patIdx s) (pattern s)))"

lemma turns_less:
  assumes "PriorityCritical \<in> set (pattern s)"
  shows "turns s < length (pattern s)"
  using length_takeWhile_le[of "\<lambda>c. c \<noteq> PriorityCritical" "rotate (patIdx s) (pattern s)"] assms
  by (metis (mono_tags, lifting) turns_def le_neq_implies_less length_rotate set_rotate takeWhile_eq_all_conv takeWhile_eq_take take_all order_refl)

lemma turns_step:
  assumes "patIdx s < length (pattern s)" "PriorityCritical \<in> set (pattern s)" "pattern s ! patIdx s \<noteq> PriorityCritical"
  shows "Suc (turns (s\<lparr>patIdx := (if patIdx s + 1 \<ge> length (pattern s) then 0 else patIdx s + 1)\<rparr>)) = turns s"
proof -
  let ?P = "pattern s" and ?C = "\<lambda>c. c \<noteq> PriorityCritical"
  obtain y ys where r0: "rotate (patIdx s) ?P = y # ys" using assms(1) by (cases "rotate (patIdx s) ?P") auto
  have "hd (rotate (patIdx s) ?P) = ?P ! patIdx s" using assms(1) by (subst hd_rotate_conv_nth) auto
  then have r: "rotate (patIdx s) ?P = ?P ! patIdx s # ys" using r0 by simp
  have "set (?P ! patIdx s # ys) = set ?P" unfolding r[symmetric] by simp
  then have "PriorityCritical \<in> insert (?P ! patIdx s) (set ys)" using assms(2) by simp
  then have "PriorityCritical \<in> set ys" using assms(3) by (metis insertE)
  then have "takeWhile ?C (ys @ [?P ! patIdx s]) = takeWhile ?C ys" by (simp add: takeWhile_append1)
  moreover have "rotate (if patIdx s + 1 \<ge> length ?P then 0 else patIdx s + 1) ?P = ys @ [?P ! patIdx s]"
  proof -
    have "(if patIdx s + 1 \<ge> length ?P then 0 else patIdx s + 1) = Suc (patIdx s) mod length ?P" using assms(1) by (auto simp: le_less)
    then have "rotate (if patIdx s + 1 \<ge> length ?P then 0 else patIdx s + 1) ?P = rotate (Suc (patIdx s)) ?P"
      using rotate_conv_mod[of "Suc (patIdx s)" ?P] by simp
    then show ?thesis using r by simp
  qed
  ultimately show ?thesis using assms(3) by (simp add: turns_def r)
qed

lemma nextLoop_critical:
  assumes "patIdx s < length (pattern s)" "PriorityCritical \<in> set (pattern s)" "snd (Pop (queue_of PriorityCritical s)) \<noteq> None" "turns s < n"
  shows "\<exists>c i q it. nextLoop n s = (uncount c it (set_queue c q (s\<lparr>patIdx := i\<rparr>)), Some it) \<and> Pop (queue_of c s) = (q, Some it) \<and>
    (c = PriorityCritical \<or> turns (s\<lparr>patIdx := i\<rparr>) < turns s)"
  using assms
proof (induction n arbitrary: s)
  case (Suc n)
  let ?i = "if patIdx s + 1 \<ge> length (pattern s) then 0 else patIdx s + 1" and ?c = "pattern s ! patIdx s"
  let ?s = "s\<lparr>patIdx := ?i\<rparr>"
  have step: "?c = PriorityCritical \<or> Suc (turns ?s) = turns s" using turns_step[OF Suc.prems(1,2)] by blast
  show ?case
  proof (cases "snd (Pop (queue_of ?c s))")
    case None
    then have loop: "nextLoop (Suc n) s = nextLoop n ?s" by (simp add: Let_def case_prod_unfold)
    have t: "Suc (turns ?s) = turns s" using step None Suc.prems(3) by auto
    have "?i < length (pattern s)" using Suc.prems(1) by auto
    then obtain c i q it where "nextLoop n ?s = (uncount c it (set_queue c q (?s\<lparr>patIdx := i\<rparr>)), Some it)" "Pop (queue_of c ?s) = (q, Some it)"
        "c = PriorityCritical \<or> turns (?s\<lparr>patIdx := i\<rparr>) < turns ?s"
      using Suc.IH[of ?s] Suc.prems t by auto
    then show ?thesis using loop t by (intro exI[of _ c] exI[of _ i] exI[of _ q] exI[of _ it]) auto
  next
    case (Some it)
    then have "nextLoop (Suc n) s = (uncount ?c it (set_queue ?c (fst (Pop (queue_of ?c s))) ?s), Some it)"
      by (simp add: Let_def case_prod_unfold)
    moreover have "Pop (queue_of ?c s) = (fst (Pop (queue_of ?c s)), Some it)" using Some by (simp add: prod_eq_iff)
    ultimately show ?thesis using step by (metis lessI)
  qed
qed simp


lemma Next_critical:
  assumes ok: "sched_ok s" and c: "PriorityCritical \<in> set (pattern s)" and w: "waiting PriorityCritical s = xs @ it # ys"
  obtains "xs = []" "snd (Next s) = Some it"
  | x xs' where "xs = x # xs'" "waiting PriorityCritical (fst (Next s)) = xs' @ it # ys"
  | "waiting PriorityCritical (fst (Next s)) = xs @ it # ys" "turns (fst (Next s)) < turns s"
proof -
  have fo: "\<forall>c. fifo_ok (queue_of c s)" and i: "patIdx s < length (pattern s)" using ok by (simp_all add: sched_ok_def)
  have "snd (Pop (queue_of PriorityCritical s)) \<noteq> None" using fo w Pop_None[of "queue_of PriorityCritical s"] by (simp add: waiting_def)
  from nextLoop_critical[OF i c this turns_less[OF c]] obtain d j q x where
    n: "nextLoop (length (pattern s)) s = (uncount d x (set_queue d q (s\<lparr>patIdx := j\<rparr>)), Some x)" "Pop (queue_of d s) = (q, Some x)"
      "d = PriorityCritical \<or> turns (s\<lparr>patIdx := j\<rparr>) < turns s" by blast
  have "schedLen s \<noteq> 0" using w by (simp add: schedLen_waiting)
  then have next_eq: "Next s = (uncount d x (set_queue d q (s\<lparr>patIdx := j\<rparr>)), Some x)" using n(1) i by (auto simp: Next_def)
  have wn: "waiting PriorityCritical (fst (Next s)) = waiting PriorityCritical (set_queue d q s)" by (simp add: next_eq waiting_def)
  note p = popped[OF fo n(2)]
  show thesis
  proof (cases "d = PriorityCritical")
    case True
    then have "waiting PriorityCritical s = x # waiting PriorityCritical (fst (Next s))" using p(2) wn by simp
    then show ?thesis using that(1,2) w next_eq by (cases xs) auto
  next
    case False
    then have "waiting PriorityCritical (fst (Next s)) = xs @ it # ys" using wn p(3)[of PriorityCritical] w by simp
    moreover have "turns (fst (Next s)) = turns (s\<lparr>patIdx := j\<rparr>)" by (simp add: next_eq turns_def)
    ultimately show ?thesis using that(3) n(3) False by simp
  qed
qed

lemma Enqueue_critical:
  assumes "sched_ok s"
  shows "turns (fst (Enqueue p cls it s)) = turns s \<and> (\<exists>zs. waiting PriorityCritical (fst (Enqueue p cls it s)) = waiting PriorityCritical s @ zs)"
  using assms
proof (cases rule: Enqueue_result[of s p cls it])
  case (1 t)
  then show ?thesis by (simp add: evicted_def turns_def waiting_def)
next
  case (2 t c)
  have fo: "fifo_ok (queue_of c t)" using 2(1) by (simp add: evicted_def)
  then show ?thesis using 2(1) unfolding 2(2) fst_conv admitted_waiting[OF fo] by (simp add: evicted_def turns_def waiting_def)
qed

lemma served_within:
  assumes "sched_ok s" "PriorityCritical \<in> set (pattern s)" "waiting PriorityCritical s = xs @ it # ys"
    and "length xs * length (pattern s) + turns s < length (filter (\<lambda>x. x = OpNext) ops)"
  shows "(True, Some it) \<in> set (snd (run sched_step ops s))"
  using assms
proof (induction ops arbitrary: s xs ys)
  case (Cons x ops)
  let ?s = "fst (sched_step x s)"
  have pat: "pattern ?s = pattern s" using sched_step_limits[OF Cons.prems(1), of x] by (simp add: same_limits_def)
  note ih = Cons.IH[OF sched_step_ok[OF Cons.prems(1), of x], unfolded pat, OF Cons.prems(2)]
  have later: "(True, Some it) \<in> set (snd (run sched_step ops ?s)) \<Longrightarrow> ?case" by (simp add: Let_def)
  show ?case
  proof (cases x)
    case (OpEnqueue p cls y)
    have t: "turns ?s = turns s" using Enqueue_critical[OF Cons.prems(1)] OpEnqueue by (simp add: case_prod_unfold)
    obtain zs where "waiting PriorityCritical ?s = xs @ it # (ys @ zs)"
      using Enqueue_critical[OF Cons.prems(1), of p cls y] Cons.prems(3) OpEnqueue by (auto simp: case_prod_unfold)
    then show ?thesis using ih Cons.prems(4) OpEnqueue t by (intro later) simp
  next
    case OpNext
    have s: "?s = fst (Next s)" using OpNext by (simp add: case_prod_unfold)
    from Cons.prems(1-3) show ?thesis
    proof (cases rule: Next_critical)
      case 1
      then show ?thesis using OpNext by (simp add: Let_def case_prod_unfold)
    next
      case (2 y xs')
      have "turns ?s < length (pattern s)" using turns_less[of ?s] pat Cons.prems(2) by simp
      then show ?thesis using ih[of xs' ys] 2 Cons.prems(4) OpNext s by (intro later) simp
    next
      case 3
      then show ?thesis using ih[of xs ys] Cons.prems(4) OpNext s by (intro later) simp
    qed
  qed
qed simp


lemma pattern_length:
  assumes "options_in_range opts"
  shows "PriorityCritical \<in> set (classPattern opts)"
    "length (classPattern opts) = nat (SchedulerCriticalWeight opts + SchedulerNormalWeight opts + SchedulerBackgroundWeight opts)"
  using assms by (auto simp: classPattern_def Let_def options_in_range_def set_replicate_conv_if)

text \<open>
  C27. Critical events are not starved: when \<open>k\<close> critical events are in front of one, in any history of a scheduler with any options, then it has been
  served once \<open>Next\<close> has been called \<open>k + 1\<close> times the sum of the three weights, whatever other peers enqueue in between.
\<close>

theorem critical_served:
  fixes x :: Options and numCPU :: int and k :: nat and past future :: "sched_op list"
  defines "opts \<equiv> Options_normalize numCPU x"
  defines "s \<equiv> fst (run sched_step past (NewPriorityScheduler opts))"
  assumes "k < length (waiting PriorityCritical s)"
    and "(int k + 1) * (SchedulerCriticalWeight opts + SchedulerNormalWeight opts + SchedulerBackgroundWeight opts)
      \<le> int (length (filter (\<lambda>op. op = OpNext) future))"
  shows "(True, Some (waiting PriorityCritical s ! k)) \<in> set (snd (run sched_step future s))"
proof -
  have ok: "sched_ok s \<and> same_limits (NewPriorityScheduler opts) s"
    unfolding s_def by (rule sched_limits.run_inv) (simp add: New_sched_ok same_limits_def)
  then have pat: "pattern s = classPattern opts" by (simp add: same_limits_def NewPriorityScheduler_def)
  note pl = pattern_length[OF normalised_range, of numCPU x, folded opts_def]
  have split: "waiting PriorityCritical s = take k (waiting PriorityCritical s) @ waiting PriorityCritical s ! k # drop (Suc k) (waiting PriorityCritical s)"
    using assms(3) by (rule id_take_nth_drop)
  let ?n = "length (filter (\<lambda>op. op = OpNext) future)"
  have "int (length (pattern s)) = SchedulerCriticalWeight opts + SchedulerNormalWeight opts + SchedulerBackgroundWeight opts"
    using normalised_range[of numCPU x, folded opts_def] unfolding pat pl(2) by (auto simp: options_in_range_def)
  then have "int ((k + 1) * length (pattern s)) \<le> int ?n" using assms(4) by (simp add: algebra_simps)
  then have "k * length (pattern s) + length (pattern s) \<le> ?n" by (simp only: of_nat_le_iff) simp
  then have "length (take k (waiting PriorityCritical s)) * length (pattern s) + turns s < ?n"
    using turns_less[of s] pl(1) pat assms(3) by simp
  then show ?thesis using served_within[OF _ _ split] ok pl(1) pat by simp
qed


section \<open>Samples\<close>

text \<open>The zero values of the policies and options, as the code gets them from a literal without fields.\<close>

definition zeroPrivacy :: PrivacyPolicy where
  "zeroPrivacy = \<lparr>Level = '''', OutboundDelayMax = 0, PaddingBucketBytes = 0, InventorySamplePermille = 0, WantSamplePermille = 0,
     WantNoiseCount = 0, CoverPeers = 0\<rparr>"

definition zeroOptions :: Options where
  "zeroOptions = \<lparr>MaxPeersPerRound = 0, MaxHave = 0, MaxWant = 0, oMaxEvents = 0, MaxEventBytes = 0, MaxEventsMessageBytes = 0, VerifyWorkers = 0,
     VerifyBatchSize = 0, VerifiedCacheMax = 0, VerifiedCacheTTL = 0, ApplyChunkSize = 0, SchedulerCriticalWeight = 0, SchedulerNormalWeight = 0,
     SchedulerBackgroundWeight = 0, SchedulerDrainPerReceive = 0, SchedulerDrainAfterRelay = 0, SchedulerMaxQueuedTotal = 0,
     SchedulerMaxQueuedPerPeer = 0, SchedulerMaxQueuedCritical = 0, SchedulerMaxQueuedNormal = 0, SchedulerMaxQueuedBg = 0,
     MaxInboundMsgsPerMin = 0, MaxInboundBytesPerMin = 0, PenaltyBase = 0, PenaltyMax = 0, RecentMsgTTL = 0, RecentMsgMax = 0,
     AllowContext = None, AllowOutgoingKind = None, AllowIncomingKind = None, oSecurityPolicy = DefaultSecurityPolicy, Privacy = zeroPrivacy\<rparr>"

definition sampleItem :: schedItem where
  "sampleItem = \<lparr>siPeerID = '''', siRole = '''', siContext = '''', siMsg = \<lparr>emSchemaVersion = 1, emEvents = []\<rparr>, siMaxMessageBytes = 0\<rparr>"

text \<open>A scheduler with room for one item and equal weights.\<close>

definition smallOptions :: Options where
  "smallOptions = zeroOptions\<lparr>SchedulerMaxQueuedTotal := 1, SchedulerMaxQueuedPerPeer := 1, SchedulerCriticalWeight := 1, SchedulerNormalWeight := 1,
     SchedulerBackgroundWeight := 1\<rparr>"

lemmas small_simps = smallOptions_def zeroOptions_def Options_normalize_def cutAt_def ifUnset_def Let_def

lemma small_scheduler: "NewPriorityScheduler (Options_normalize 1 smallOptions) =
    \<lparr>maxTotal = 1, maxPerPeer = 1, maxC = 1, maxN = 1, maxB = 1, qC = fifoEmpty, qN = fifoEmpty, qB = fifoEmpty, quotas = (\<lambda>_. None),
     pattern = [PriorityCritical, PriorityNormal, PriorityBackground], patIdx = 0\<rparr>"
  by (simp add: NewPriorityScheduler_def classPattern_def small_simps)

lemma small_weights: "SchedulerCriticalWeight (Options_normalize 1 smallOptions) = 1" "SchedulerNormalWeight (Options_normalize 1 smallOptions) = 1"
    "SchedulerBackgroundWeight (Options_normalize 1 smallOptions) = 1"
  by (simp_all add: small_simps)

text \<open>A peer's normal item, then another peer's critical one that evicts it.\<close>

definition evicting :: "sched_op list" where
  "evicting = [OpEnqueue ''a'' PriorityNormal sampleItem, OpEnqueue ''b'' PriorityCritical sampleItem]"

lemma sample_peers: "schedPeer ''a'' = ''a''" "schedPeer ''b'' = ''b''"
  by code_simp+

lemmas sched_eval = evicting_def small_scheduler Enqueue_def sample_peers quotaOf_def zeroQuota_def
  schedLen_def fifoLen_def fifoEmpty_def push_class_def Push_def count_class_def evictFor.simps Pop_def Let_def waiting_def queue_of_def contents_def

lemma evicting_run: "fst (run sched_step evicting (NewPriorityScheduler (Options_normalize 1 smallOptions))) =
    \<lparr>maxTotal = 1, maxPerPeer = 1, maxC = 1, maxN = 1, maxB = 1, qC = \<lparr>fqItems = [sampleItem\<lparr>siPeerID := ''b''\<rparr>], fqHead = 0\<rparr>,
     qN = \<lparr>fqItems = [sampleItem\<lparr>siPeerID := ''a''\<rparr>], fqHead = 1\<rparr>, qB = \<lparr>fqItems = [], fqHead = 0\<rparr>,
     quotas = [''a'' \<mapsto> \<lparr>pqTotal = 1, pqC = 0, pqN = 1, pqB = 0\<rparr>, ''b'' \<mapsto> \<lparr>pqTotal = 1, pqC = 1, pqN = 0, pqB = 0\<rparr>],
     pattern = [PriorityCritical, PriorityNormal, PriorityBackground], patIdx = 0\<rparr>"
  by (simp add: sched_eval)

lemma evicting_ok: "sched_ok (fst (run sched_step evicting (NewPriorityScheduler (Options_normalize 1 smallOptions))))"
  by (rule sched.run_inv) (rule New_sched_ok)


theorem critical_served_witness:
  "(True, Some (sampleItem\<lparr>siPeerID := ''b''\<rparr>)) \<in> set (snd (run sched_step [OpNext, OpEnqueue ''c'' PriorityCritical sampleItem, OpNext, OpNext]
     (fst (run sched_step evicting (NewPriorityScheduler (Options_normalize 1 smallOptions))))))"
proof -
  have "waiting PriorityCritical (fst (run sched_step evicting (NewPriorityScheduler (Options_normalize 1 smallOptions)))) = [sampleItem\<lparr>siPeerID := ''b''\<rparr>]"
    by (simp add: evicting_run waiting_def queue_of_def contents_def)
  then show ?thesis
    using critical_served[of 0 evicting 1 smallOptions "[OpNext, OpEnqueue ''c'' PriorityCritical sampleItem, OpNext, OpNext]"]
    by (simp add: small_weights del: run.simps)
qed

theorem evicted_peer_locked_out_witness:
  "\<not> snd (Enqueue ''a'' PriorityCritical sampleItem (fst (run sched_step [OpNext, OpNext]
     (fst (run sched_step evicting (NewPriorityScheduler (Options_normalize 1 smallOptions)))))))"
proof (rule evicted_peer_locked_out)
  show "sched_ok (fst (run sched_step evicting (NewPriorityScheduler (Options_normalize 1 smallOptions))))" by (rule evicting_ok)
qed (simp_all add: evicting_run sample_peers quotaOf_def all_classes queued_def waiting_def queue_of_def contents_def sampleItem_def)

text \<open>
  The queue of a class is a list: for every sequence of additions and removals, the removals of the slice with its moving head and its
  compactions give exactly what those of a list give, in the same order, and what is left is the same.
\<close>

theorem queue_refines_list:
  "contents (fst (run fq.queue_step cs fifoEmpty)) = fst (run fq.list_step cs []) \<and>
   snd (run fq.queue_step cs fifoEmpty) = snd (run fq.list_step cs [])"
  using fq.run_refines[of fifoEmpty cs] by simp

end
