(* ===== verification/Sync_Security.thy ===== *)
theory Sync_Security
  imports Sync_Scheduler
begin

text \<open>
  The security layer of the synchronisation service (\<^verbatim>\<open>pkg/ledgersync/security.go\<close>): a score, a quarantine and a penalty per peer, decisions on
  inbound messages, inventories and wants, and the detection of peers that send the same inventory.

  Every method locks the layer for its whole body, so a call is one step of the state. A method on a nil layer returns at once; the layer here is one that
  \<^verbatim>\<open>NewSecurityLayer\<close> made. Scores and durations are unbounded integers. The map of inventories is an association list with distinct keys. SHA-256 is
  a parameter.
\<close>

section \<open>State\<close>

datatype PolicyDecision = DecisionAccept | DecisionReject | DecisionDefer

datatype TrustTier = TrustLow | TrustMedium | TrustHigh | TrustBlocked

record peerTrust =
  ptScore :: int
  ptRole :: string
  firstSeen :: gotime
  ptLastSeen :: gotime
  appliedTotal :: int
  rejectedTotal :: int
  quarantineUntil :: gotime
  penalty :: duration
  lastInvDigest :: string
  invStreak :: int

record SecurityLayer =
  policy :: SecurityPolicy
  trusts :: "string \<Rightarrow> peerTrust option"
  invSeen :: "(string \<times> (string \<times> gotime) list) list"

definition NewSecurityLayer :: "SecurityPolicy \<Rightarrow> SecurityLayer" where
  "NewSecurityLayer p = \<lparr>policy = SecurityPolicy_normalize p, trusts = (\<lambda>_. None), invSeen = []\<rparr>"

definition newTrust :: "SecurityPolicy \<Rightarrow> gotime \<Rightarrow> peerTrust" where
  "newTrust p now = \<lparr>ptScore = InitialScore p, ptRole = '''', firstSeen = now, ptLastSeen = 0, appliedTotal = 0, rejectedTotal = 0,
     quarantineUntil = 0, penalty = 0, lastInvDigest = '''', invStreak = 0\<rparr>"

text \<open>The trust of a peer after it is created or touched, and the layer with it stored.\<close>

definition ensurePeer :: "string \<Rightarrow> string \<Rightarrow> gotime \<Rightarrow> SecurityLayer \<Rightarrow> peerTrust" where
  "ensurePeer peerID r now s =
     (let ps = (case trusts s peerID of None \<Rightarrow> newTrust (policy s) now | Some ps \<Rightarrow> ps); ps1 = ps\<lparr>ptLastSeen := now\<rparr>
      in if r \<noteq> '''' then ps1\<lparr>ptRole := r\<rparr> else ps1)"

definition putPeer :: "string \<Rightarrow> peerTrust \<Rightarrow> SecurityLayer \<Rightarrow> SecurityLayer" where
  "putPeer peerID ps s = s\<lparr>trusts := (trusts s)(peerID \<mapsto> ps)\<rparr>"

definition noPeer :: "string \<Rightarrow> bool" where "noPeer peerID \<longleftrightarrow> TrimSpace peerID = ''''"

definition isQuarantined :: "peerTrust \<Rightarrow> gotime \<Rightarrow> bool" where
  "isQuarantined ps now \<longleftrightarrow> quarantineUntil ps \<noteq> 0 \<and> now < quarantineUntil ps"

definition isWarm :: "SecurityPolicy \<Rightarrow> peerTrust \<Rightarrow> bool" where
  "isWarm p ps \<longleftrightarrow> appliedTotal ps \<ge> SybilWarmupApplied p"

section \<open>Operations\<close>

definition SetPeerRole :: "string \<Rightarrow> string \<Rightarrow> gotime \<Rightarrow> SecurityLayer \<Rightarrow> SecurityLayer" where
  "SetPeerRole peerID r now s =
     (if noPeer peerID then s else putPeer peerID ((ensurePeer peerID r now s)\<lparr>ptRole := r\<rparr>) s)"

definition tierOf :: "SecurityPolicy \<Rightarrow> peerTrust \<Rightarrow> gotime \<Rightarrow> TrustTier" where
  "tierOf p ps now =
     (if isQuarantined ps now then TrustBlocked
      else if ptScore ps \<le> MinScore p then TrustBlocked
      else if ptScore ps \<ge> HighScore p then TrustHigh
      else if ptScore ps \<ge> MediumScore p then TrustMedium
      else TrustLow)"

definition TrustTierOf :: "string \<Rightarrow> gotime \<Rightarrow> SecurityLayer \<Rightarrow> SecurityLayer \<times> TrustTier" where
  "TrustTierOf peerID now s =
     (if noPeer peerID then (s, TrustLow)
      else let ps = ensurePeer peerID '''' now s in (putPeer peerID ps s, tierOf (policy s) ps now))"

definition SetQuarantine :: "string \<Rightarrow> string \<Rightarrow> duration \<Rightarrow> gotime \<Rightarrow> SecurityLayer \<Rightarrow> SecurityLayer" where
  "SetQuarantine peerID r dur now s =
     (if noPeer peerID then s
      else let d = cutAt (QuarantineMax (policy s)) (ifUnset (QuarantineBase (policy s)) dur); ps = ensurePeer peerID r now s
           in putPeer peerID (ps\<lparr>quarantineUntil := now + d, penalty := (if penalty ps < d then d else penalty ps)\<rparr>) s)"

definition ClearQuarantine :: "string \<Rightarrow> gotime \<Rightarrow> SecurityLayer \<Rightarrow> SecurityLayer" where
  "ClearQuarantine peerID now s =
     (if noPeer peerID then s else putPeer peerID ((ensurePeer peerID '''' now s)\<lparr>quarantineUntil := 0, penalty := 0\<rparr>) s)"

definition capScore :: "peerTrust \<Rightarrow> peerTrust" where
  "capScore ps = (if ptScore ps > 120 then ps\<lparr>ptScore := 120\<rparr> else ps)"

definition AdjustScore :: "string \<Rightarrow> string \<Rightarrow> int \<Rightarrow> gotime \<Rightarrow> SecurityLayer \<Rightarrow> SecurityLayer" where
  "AdjustScore peerID r delta now s =
     (if noPeer peerID \<or> delta = 0 then s
      else let ps = ensurePeer peerID r now s in putPeer peerID (capScore (ps\<lparr>ptScore := ptScore ps + delta\<rparr>)) s)"

definition penalize :: "SecurityPolicy \<Rightarrow> int \<Rightarrow> gotime \<Rightarrow> peerTrust \<Rightarrow> peerTrust" where
  "penalize p amount now ps =
     (if amount \<le> 0 then ps
      else let sc = ptScore ps - amount;
               pen = (if penalty ps < QuarantineBase p then QuarantineBase p else cutAt (QuarantineMax p) (penalty ps * 2));
               ps1 = ps\<lparr>ptScore := sc, penalty := pen\<rparr>
           in if sc \<le> MinScore p then ps1\<lparr>quarantineUntil := now + pen\<rparr> else ps1)"

definition ObserveInbound :: "string \<Rightarrow> string \<Rightarrow> string \<Rightarrow> int \<Rightarrow> gotime \<Rightarrow> SecurityLayer \<Rightarrow> SecurityLayer \<times> PolicyDecision" where
  "ObserveInbound peerID r msgType sz now s =
     (if noPeer peerID then (s, DecisionAccept)
      else let p = policy s; ps = ensurePeer peerID r now s; keep = putPeer peerID ps s in
           if isQuarantined ps now then (keep, DecisionReject)
           else if ptScore ps \<le> MinScore p then (keep, DecisionReject)
           else if ptRole ps = PeerRoleRelay \<and> sz > RelayMaxInboundBytes p then (putPeer peerID (penalize p 12 now ps) s, DecisionReject)
           else if ptRole ps = PeerRoleAgent \<and> sz > AgentMaxInboundBytes p then (putPeer peerID (penalize p 12 now ps) s, DecisionReject)
           else if msgType = ''events'' \<and> \<not> isWarm p ps \<and> sz > 96 * 1024 then (keep, DecisionDefer)
           else (keep, DecisionAccept))"

definition digestLines :: "string \<Rightarrow> string list \<Rightarrow> string" where
  "digestLines tag xs = concat (map (\<lambda>x. tag @ TrimSpace x @ [CHR 0x0A]) (filter (\<lambda>x. TrimSpace x \<noteq> '''') (sort xs)))"

definition inventoryDigest :: "(bytes \<Rightarrow> bytes) \<Rightarrow> InventoryMessage \<Rightarrow> string" where
  "inventoryDigest sha inv1 =
     (let b = digestLines ''h:'' (imHeads inv1) @ digestLines ''v:'' (imHave inv1)
      in if b = '''' then '''' else EncodeToString (take 16 (sha (str_bytes b))))"

text \<open>Forgetting the inventories that are older than the window.\<close>

definition dropOld :: "gotime \<Rightarrow> (string \<times> (string \<times> gotime) list) list \<Rightarrow> (string \<times> (string \<times> gotime) list) list" where
  "dropOld cutoff m = filter (\<lambda>(d, ps). ps \<noteq> []) (map (\<lambda>(d, ps). (d, filter (\<lambda>(i, ts). \<not> ts < cutoff) ps)) m)"

definition seenBy :: "string \<Rightarrow> (string \<times> (string \<times> gotime) list) list \<Rightarrow> (string \<times> gotime) list" where
  "seenBy d m = (case map_of m d of None \<Rightarrow> [] | Some ps \<Rightarrow> ps)"

definition ObserveInventory ::
  "(bytes \<Rightarrow> bytes) \<Rightarrow> string \<Rightarrow> string \<Rightarrow> InventoryMessage \<Rightarrow> gotime \<Rightarrow> SecurityLayer \<Rightarrow> SecurityLayer \<times> PolicyDecision" where
  "ObserveInventory sha peerID r inv1 now s =
     (if noPeer peerID then (s, DecisionAccept)
      else let digest = inventoryDigest sha inv1; p = policy s; ps = ensurePeer peerID r now s in
           if int (length (imHeads inv1)) > MaxHeadsPerRound p then (putPeer peerID (penalize p 6 now ps) s, DecisionReject)
           else if int (length (imHave inv1)) > MaxInventorySize p then (putPeer peerID (penalize p 8 now ps) s, DecisionReject)
           else let ps1 = (if digest = '''' then ps
                           else if lastInvDigest ps = digest then ps\<lparr>invStreak := invStreak ps + 1\<rparr>
                           else ps\<lparr>lastInvDigest := digest, invStreak := 1\<rparr>);
                    echo = (digest \<noteq> '''' \<and> invStreak ps1 \<ge> InventoryEchoThreshold p);
                    ps2 = (if echo then penalize p 4 now ps1 else ps1)
                in if echo \<and> invStreak ps1 \<ge> InventoryEchoThreshold p + 2 then (putPeer peerID ps2 s, DecisionDefer)
                   else let m = dropOld (now - InventoryWindow p) (invSeen s) in
                        if digest = '''' then ((putPeer peerID ps2 s)\<lparr>invSeen := m\<rparr>, DecisionAccept)
                        else let group = AList.update peerID now (seenBy digest m); m1 = AList.update digest group m in
                             if int (length group) \<ge> InventoryClusterThreshold p
                             then ((putPeer peerID (penalize p 3 now ps2) s)\<lparr>invSeen := m1\<rparr>, DecisionDefer)
                             else ((putPeer peerID ps2 s)\<lparr>invSeen := m1\<rparr>, DecisionAccept))"

definition ObserveWant :: "string \<Rightarrow> string \<Rightarrow> WantMessage \<Rightarrow> gotime \<Rightarrow> SecurityLayer \<Rightarrow> SecurityLayer \<times> PolicyDecision" where
  "ObserveWant peerID r want now s =
     (if noPeer peerID then (s, DecisionAccept)
      else let p = policy s; ps = ensurePeer peerID r now s; keep = putPeer peerID ps s; n = int (length (wmWant want));
               pen = (\<lambda>a. putPeer peerID (penalize p a now ps) s) in
           if isQuarantined ps now then (keep, DecisionReject)
           else if ptScore ps \<le> MinScore p then (keep, DecisionReject)
           else if n > MaxWantsPerRound p * 2 then (pen 10, DecisionReject)
           else if n > MaxWantsPerRound p then (pen 6, DecisionDefer)
           else if ptRole ps = PeerRoleRelay \<and> n > MaxWantsPerRound p div 2 then (pen 4, DecisionDefer)
           else if ptRole ps = PeerRoleAgent \<and> n > MaxWantsPerRound p div 3 then (pen 4, DecisionDefer)
           else (keep, DecisionAccept))"

definition ObserveApplyReport :: "string \<Rightarrow> string \<Rightarrow> ApplyReport \<Rightarrow> gotime \<Rightarrow> SecurityLayer \<Rightarrow> SecurityLayer" where
  "ObserveApplyReport peerID r rep now s =
     (if noPeer peerID then s
      else let p = policy s; ps = ensurePeer peerID r now s;
               ps1 = (if Applied rep > 0
                      then ps\<lparr>appliedTotal := appliedTotal ps + int (Applied rep), ptScore := ptScore ps + cutAt 8 (int (Applied rep) * 2)\<rparr>
                      else ps);
               ps2 = (if Dupe rep > 8 then ps1\<lparr>ptScore := ptScore ps1 - 2\<rparr> else ps1);
               ps3 = (if Rejected rep > 0
                      then let a = ps2\<lparr>rejectedTotal := rejectedTotal ps2 + int (Rejected rep)\<rparr>; b = penalize p (cutAt 30 (int (Rejected rep) * 8)) now a
                           in if QuarantineAfterRejects p > 0 \<and> rejectedTotal b \<ge> QuarantineAfterRejects p
                              then let c = (if penalty b \<le> 0 then b\<lparr>penalty := QuarantineBase p\<rparr> else b) in c\<lparr>quarantineUntil := now + penalty c\<rparr>
                              else b
                      else ps2)
           in putPeer peerID (capScore ps3) s)"

definition PeerPriority :: "string \<Rightarrow> string \<Rightarrow> int \<Rightarrow> gotime \<Rightarrow> SecurityLayer \<Rightarrow> SecurityLayer \<times> int" where
  "PeerPriority peerID r ageSeconds now s =
     (if noPeer peerID then (s, ageSeconds)
      else let p = policy s; ps = ensurePeer peerID r now s; keep = putPeer peerID ps s in
           if isQuarantined ps now then (keep, - 1)
           else let warm = ptScore ps * 60 - (if isWarm p ps then 0 else 240);
                    sc = (if ptRole ps = PeerRoleRelay then warm - 180 else if ptRole ps = PeerRoleAgent then warm - 120 else warm)
                in (keep, ageSeconds + sc))"

definition WitnessWeight :: "string \<Rightarrow> int \<Rightarrow> gotime \<Rightarrow> SecurityLayer \<Rightarrow> SecurityLayer \<times> int" where
  "WitnessWeight peerID base now s =
     (if noPeer peerID then (s, 0)
      else let p = policy s; ps = ensurePeer peerID '''' now s; b = ifUnset 1 base
           in (putPeer peerID ps s,
               if isQuarantined ps now then 0 else if ptScore ps \<le> MinScore p then 0
               else if ptScore ps \<ge> HighScore p then b else if ptScore ps \<ge> MediumScore p then 1 else 0))"

definition PeerClusterKey :: "string \<Rightarrow> gotime \<Rightarrow> SecurityLayer \<Rightarrow> SecurityLayer \<times> string" where
  "PeerClusterKey peerID now s =
     (if noPeer peerID then (s, '''')
      else let p = policy s; ps = ensurePeer peerID '''' now s
           in (putPeer peerID ps s, if isQuarantined ps now then '''' else if ptScore ps \<le> MinScore p then '''' else lastInvDigest ps))"

definition InventoryClusterPeers :: "(bytes \<Rightarrow> bytes) \<Rightarrow> InventoryMessage \<Rightarrow> gotime \<Rightarrow> SecurityLayer \<Rightarrow> SecurityLayer \<times> string list" where
  "InventoryClusterPeers sha inv1 now s =
     (let digest = inventoryDigest sha inv1 in
      if digest = '''' then (s, [])
      else let m = dropOld (now - InventoryWindow (policy s)) (invSeen s) in (s\<lparr>invSeen := m\<rparr>, sort (map fst (seenBy digest m))))"


section \<open>Histories\<close>

datatype sec_op =
    OpSetPeerRole string string
  | OpTrustTier string
  | OpSetQuarantine string string duration
  | OpClearQuarantine string
  | OpAdjustScore string string int
  | OpObserveInbound string string string int
  | OpObserveInventory string string InventoryMessage
  | OpObserveWant string string WantMessage
  | OpObserveApplyReport string string ApplyReport
  | OpPeerPriority string string int
  | OpWitnessWeight string int
  | OpPeerClusterKey string
  | OpInventoryClusterPeers InventoryMessage

fun sec_step :: "(bytes \<Rightarrow> bytes) \<Rightarrow> gotime \<times> sec_op \<Rightarrow> SecurityLayer \<Rightarrow> SecurityLayer \<times> PolicyDecision option" where
  "sec_step sha (now, OpSetPeerRole p r) s = (SetPeerRole p r now s, None)"
| "sec_step sha (now, OpTrustTier p) s = (fst (TrustTierOf p now s), None)"
| "sec_step sha (now, OpSetQuarantine p r d) s = (SetQuarantine p r d now s, None)"
| "sec_step sha (now, OpClearQuarantine p) s = (ClearQuarantine p now s, None)"
| "sec_step sha (now, OpAdjustScore p r d) s = (AdjustScore p r d now s, None)"
| "sec_step sha (now, OpObserveInbound p r t n) s = map_prod id Some (ObserveInbound p r t n now s)"
| "sec_step sha (now, OpObserveInventory p r m) s = map_prod id Some (ObserveInventory sha p r m now s)"
| "sec_step sha (now, OpObserveWant p r m) s = map_prod id Some (ObserveWant p r m now s)"
| "sec_step sha (now, OpObserveApplyReport p r m) s = (ObserveApplyReport p r m now s, None)"
| "sec_step sha (now, OpPeerPriority p r a) s = (fst (PeerPriority p r a now s), None)"
| "sec_step sha (now, OpWitnessWeight p b) s = (fst (WitnessWeight p b now s), None)"
| "sec_step sha (now, OpPeerClusterKey p) s = (fst (PeerClusterKey p now s), None)"
| "sec_step sha (now, OpInventoryClusterPeers m) s = (fst (InventoryClusterPeers sha m now s), None)"

section \<open>Bounds\<close>

text \<open>No operation before the time \<open>T\<close> leaves a quarantine that ends more than the maximum after \<open>T\<close>.\<close>

definition pen_ok :: "SecurityPolicy \<Rightarrow> gotime \<Rightarrow> peerTrust \<Rightarrow> bool" where
  "pen_ok p T ps \<longleftrightarrow> 0 \<le> penalty ps \<and> penalty ps \<le> QuarantineMax p \<and> (quarantineUntil ps = 0 \<or> quarantineUntil ps \<le> T + QuarantineMax p)"

definition trust_ok :: "SecurityPolicy \<Rightarrow> gotime \<Rightarrow> peerTrust \<Rightarrow> bool" where
  "trust_ok p T ps \<longleftrightarrow> ptScore ps \<le> max 120 (InitialScore p) \<and> pen_ok p T ps"

definition layer_ok :: "SecurityPolicy \<Rightarrow> gotime \<Rightarrow> SecurityLayer \<Rightarrow> bool" where
  "layer_ok p T s \<longleftrightarrow> policy s = p \<and> 0 < QuarantineBase p \<and> QuarantineBase p \<le> QuarantineMax p \<and>
     (\<forall>i ps. trusts s i = Some ps \<longrightarrow> trust_ok p T ps)"

named_theorems sec_intro

lemma ensure_ok [sec_intro]: "layer_ok p T s \<Longrightarrow> trust_ok p T (ensurePeer i r now s)"
  by (auto simp: layer_ok_def ensurePeer_def newTrust_def trust_ok_def pen_ok_def Let_def split: option.split)

lemma put_ok [sec_intro]: "layer_ok p T s \<Longrightarrow> trust_ok p T ps \<Longrightarrow> layer_ok p T (putPeer i ps s)"
  by (simp add: layer_ok_def putPeer_def)

lemma cap_ok: "pen_ok p T ps \<Longrightarrow> trust_ok p T (capScore ps)"
  by (auto simp: trust_ok_def pen_ok_def capScore_def max_def)

lemma penalize_pen:
  assumes "pen_ok p T ps" "now \<le> T" "0 < QuarantineBase p" "QuarantineBase p \<le> QuarantineMax p"
  shows "pen_ok p T (penalize p a now ps)"
  using assms by (auto simp: pen_ok_def penalize_def Let_def cutAt_def)

lemma penalize_score: "ptScore (penalize p a now ps) \<le> ptScore ps"
  by (simp add: penalize_def Let_def)

lemma penalize_ok [sec_intro]: "layer_ok p T s \<Longrightarrow> now \<le> T \<Longrightarrow> trust_ok p T ps \<Longrightarrow> trust_ok p T (penalize p a now ps)"
  using penalize_pen penalize_score[of p a now ps] by (fastforce simp: trust_ok_def layer_ok_def)

lemma seen_ok [sec_intro]: "layer_ok p T s \<Longrightarrow> layer_ok p T (s\<lparr>invSeen := m\<rparr>)"
  by (simp add: layer_ok_def)

lemma trust_frame [sec_intro]: "trust_ok p T ps \<Longrightarrow> trust_ok p T (ps\<lparr>ptRole := r\<rparr>)"
    "trust_ok p T ps \<Longrightarrow> trust_ok p T (ps\<lparr>invStreak := k\<rparr>)" "trust_ok p T ps \<Longrightarrow> trust_ok p T (ps\<lparr>lastInvDigest := d, invStreak := k\<rparr>)"
  by (simp_all add: trust_ok_def pen_ok_def)

lemma layer_policy: "layer_ok p T s \<Longrightarrow> policy s = p"
  by (simp add: layer_ok_def)

lemma SetQuarantine_ok: "layer_ok p T s \<Longrightarrow> now \<le> T \<Longrightarrow> layer_ok p T (SetQuarantine i r d now s)"
proof -
  assume a: "layer_ok p T s" "now \<le> T"
  then have q: "0 < QuarantineBase p" "QuarantineBase p \<le> QuarantineMax p" "policy s = p" by (simp_all add: layer_ok_def)
  let ?d = "cutAt (QuarantineMax p) (ifUnset (QuarantineBase p) d)" and ?ps = "ensurePeer i r now s"
  have "0 \<le> ?d" "?d \<le> QuarantineMax p" using q by (auto simp: cutAt_def ifUnset_def)
  then have "trust_ok p T (?ps\<lparr>quarantineUntil := now + ?d, penalty := (if penalty ?ps < ?d then ?d else penalty ?ps)\<rparr>)"
    using ensure_ok[OF a(1), of i r now] a(2) by (simp add: trust_ok_def pen_ok_def)
  then show ?thesis using a(1) q(3) by (simp add: SetQuarantine_def Let_def put_ok)
qed

lemma ClearQuarantine_ok: "layer_ok p T s \<Longrightarrow> layer_ok p T (ClearQuarantine i now s)"
proof -
  assume a: "layer_ok p T s"
  then have "0 \<le> QuarantineMax p" by (simp add: layer_ok_def)
  then have "trust_ok p T ((ensurePeer i '''' now s)\<lparr>quarantineUntil := 0, penalty := 0\<rparr>)"
    using ensure_ok[OF a, of i "''''" now] by (simp add: trust_ok_def pen_ok_def)
  then show ?thesis using a by (simp add: ClearQuarantine_def put_ok)
qed

lemma AdjustScore_ok: "layer_ok p T s \<Longrightarrow> layer_ok p T (AdjustScore i r d now s)"
  using ensure_ok[of p T s i r now] by (auto simp: AdjustScore_def Let_def trust_ok_def pen_ok_def intro!: put_ok cap_ok)

lemma ObserveApplyReport_ok:
  assumes "layer_ok p T s" "now \<le> T"
  shows "layer_ok p T (ObserveApplyReport i r rep now s)"
proof -
  have q: "0 < QuarantineBase p" "QuarantineBase p \<le> QuarantineMax p" "policy s = p" using assms(1) by (simp_all add: layer_ok_def)
  have pen: "pen_ok p T (ensurePeer i r now s)" using ensure_ok[OF assms(1)] by (simp add: trust_ok_def)
  have frame: "pen_ok p T (ps\<lparr>ptScore := v\<rparr>) = pen_ok p T ps" "pen_ok p T (ps\<lparr>appliedTotal := k\<rparr>) = pen_ok p T ps"
      "pen_ok p T (ps\<lparr>rejectedTotal := k\<rparr>) = pen_ok p T ps" for ps v k by (simp_all add: pen_ok_def)
  have quar: "pen_ok p T ps \<Longrightarrow> pen_ok p T (let c = (if penalty ps \<le> 0 then ps\<lparr>penalty := QuarantineBase p\<rparr> else ps) in c\<lparr>quarantineUntil := now + penalty c\<rparr>)"
    for ps using q assms(2) by (auto simp: pen_ok_def Let_def)
  define ps1 where "ps1 = (let ps = ensurePeer i r now s in if Applied rep > 0
      then ps\<lparr>appliedTotal := appliedTotal ps + int (Applied rep), ptScore := ptScore ps + cutAt 8 (int (Applied rep) * 2)\<rparr> else ps)"
  define ps2 where "ps2 = (if Dupe rep > 8 then ps1\<lparr>ptScore := ptScore ps1 - 2\<rparr> else ps1)"
  define b where "b = penalize p (cutAt 30 (int (Rejected rep) * 8)) now (ps2\<lparr>rejectedTotal := rejectedTotal ps2 + int (Rejected rep)\<rparr>)"
  have "pen_ok p T ps2" using pen by (simp add: ps1_def ps2_def frame Let_def)
  moreover have "pen_ok p T b" unfolding b_def by (rule penalize_pen[OF _ assms(2) q(1,2)]) (simp add: frame calculation)
  ultimately show ?thesis
    using quar[of b] assms(1) unfolding ObserveApplyReport_def q(3) Let_def ps1_def[unfolded Let_def, symmetric] ps2_def[symmetric] b_def[symmetric]
    by (simp add: put_ok cap_ok)
qed

lemma sec_step_ok:
  assumes "layer_ok p T s" "now \<le> T"
  shows "layer_ok p T (fst (sec_step sha (now, x) s))"
proof (cases x)
  case (OpObserveInventory i r m)
  then show ?thesis using assms by (auto simp: ObserveInventory_def Let_def layer_policy intro!: sec_intro)
qed (use assms in \<open>auto simp: SetPeerRole_def TrustTierOf_def ObserveInbound_def ObserveWant_def PeerPriority_def WitnessWeight_def PeerClusterKey_def
      InventoryClusterPeers_def Let_def layer_policy SetQuarantine_ok ClearQuarantine_ok AdjustScore_ok ObserveApplyReport_ok intro!: sec_intro\<close>)


lemma sec_run_ok: "layer_ok p T s \<Longrightarrow> \<forall>(now, x) \<in> set ops. now \<le> T \<Longrightarrow> layer_ok p T (fst (run (sec_step sha) ops s))"
proof (induction ops arbitrary: s)
  case (Cons x ops)
  obtain now y where x: "x = (now, y)" by (cases x)
  then have "layer_ok p T (fst (sec_step sha x s))" using sec_step_ok[OF Cons.prems(1), of now sha y] Cons.prems(2) by simp
  then show ?case using Cons.IH Cons.prems(2) by (simp add: Let_def)
qed simp

lemma New_layer_ok: "layer_ok (SecurityPolicy_normalize p) T (NewSecurityLayer p)"
  using security_normalised[of p] by (simp add: layer_ok_def NewSecurityLayer_def security_in_range_def)

text \<open>
  No peer is quarantined for long: whatever the calls of the security layer are, when the last of them is made at \<open>T\<close>, no peer is in quarantine
  from \<open>T\<close> plus the maximal quarantine on. The penalty of a peer is never negative and never above the maximum, and no score
  is above 120 unless the configured initial score is.
\<close>

theorem quarantine_bounded:
  fixes p :: SecurityPolicy and sha :: "bytes \<Rightarrow> bytes" and ops :: "(gotime \<times> sec_op) list"
  defines "s \<equiv> fst (run (sec_step sha) ops (NewSecurityLayer p))"
  assumes "\<forall>(now, x) \<in> set ops. now \<le> T" "trusts s i = Some ps"
  shows "\<not> isQuarantined ps (T + QuarantineMax (policy s)) \<and> 0 \<le> penalty ps \<and> penalty ps \<le> QuarantineMax (policy s) \<and>
    ptScore ps \<le> max 120 (InitialScore (policy s))"
proof -
  have ok: "layer_ok (SecurityPolicy_normalize p) T s" unfolding s_def by (rule sec_run_ok[OF New_layer_ok assms(2)])
  then have "trust_ok (SecurityPolicy_normalize p) T ps" using assms(3) by (simp add: layer_ok_def)
  then show ?thesis using layer_policy[OF ok] by (auto simp: trust_ok_def pen_ok_def isQuarantined_def)
qed

section \<open>Blocked peers\<close>

definition blocked :: "string \<Rightarrow> SecurityLayer \<Rightarrow> bool" where
  "blocked i s \<longleftrightarrow> (\<exists>ps. trusts s i = Some ps \<and> ptScore ps \<le> MinScore (policy s))"

text \<open>The operations that can raise the score of a peer.\<close>

fun raises :: "string \<Rightarrow> sec_op \<Rightarrow> bool" where
  "raises i (OpAdjustScore j r d) = (j = i)"
| "raises i (OpObserveApplyReport j r rep) = (j = i)"
| "raises i _ = False"

lemma ensure_blocked: "blocked i s \<Longrightarrow> ptScore (ensurePeer i r now s) \<le> MinScore (policy s)"
  by (auto simp: blocked_def ensurePeer_def Let_def)

lemma put_blocked: "blocked i s \<Longrightarrow> (j = i \<Longrightarrow> ptScore ps \<le> MinScore (policy s)) \<Longrightarrow> blocked i (putPeer j ps s)"
  by (auto simp: blocked_def putPeer_def)

lemma seen_blocked: "blocked i s \<Longrightarrow> blocked i (s\<lparr>invSeen := m\<rparr>)"
  by (simp add: blocked_def)

lemma penalize_blocked: "ptScore ps \<le> k \<Longrightarrow> ptScore (penalize p a now ps) \<le> k"
  using penalize_score[of p a now ps] by linarith

lemma sec_step_blocked:
  assumes "blocked i s" "\<not> raises i x"
  shows "blocked i (fst (sec_step sha (now, x) s))"
proof (cases x)
  case (OpAdjustScore j r d)
  then show ?thesis using assms by (auto simp: AdjustScore_def Let_def intro!: put_blocked)
next
  case (OpObserveApplyReport j r rep)
  then have "blocked i (putPeer j ps s)" for ps using assms by (auto intro: put_blocked)
  then show ?thesis using OpObserveApplyReport assms(1) by (simp add: ObserveApplyReport_def Let_def)
qed (use assms in \<open>auto simp: SetPeerRole_def TrustTierOf_def SetQuarantine_def ClearQuarantine_def ObserveInbound_def ObserveInventory_def
      ObserveWant_def PeerPriority_def WitnessWeight_def PeerClusterKey_def InventoryClusterPeers_def Let_def
      intro!: put_blocked seen_blocked penalize_blocked ensure_blocked\<close>)

lemma run_blocked: "blocked i s \<Longrightarrow> \<forall>(now, x) \<in> set ops. \<not> raises i x \<Longrightarrow> blocked i (fst (run (sec_step sha) ops s))"
proof (induction ops arbitrary: s)
  case (Cons x ops)
  obtain now y where x: "x = (now, y)" by (cases x)
  then have "blocked i (fst (sec_step sha x s))" using sec_step_blocked[OF Cons.prems(1), of y sha now] Cons.prems(2) by simp
  then show ?case using Cons.IH Cons.prems(2) by (simp add: Let_def)
qed simp

text \<open>
  A blocked peer stays blocked: once the score of a peer has reached the minimum, every message and every want of it is rejected, it has no
  weight as a witness and the lowest tier, at every later time. Neither the end of its quarantine nor \<open>ClearQuarantine\<close> changes that,
  only an explicit adjustment of its score or the report of an application of its events, which are rejected before they are applied.
\<close>

theorem blocked_peer_stays_blocked:
  fixes sha :: "bytes \<Rightarrow> bytes" and s :: SecurityLayer and ops :: "(gotime \<times> sec_op) list"
  assumes "trusts s i = Some ps" "ptScore ps \<le> MinScore (policy s)" "TrimSpace i \<noteq> ''''" "\<forall>(t, x) \<in> set ops. \<not> raises i x"
  defines "s' \<equiv> fst (run (sec_step sha) ops s)"
  shows "snd (ObserveInbound i r msgType n now s') = DecisionReject \<and> snd (ObserveWant i r want now s') = DecisionReject \<and>
    snd (WitnessWeight i base now s') = 0 \<and> snd (TrustTierOf i now s') = TrustBlocked"
proof -
  have "blocked i s" using assms(1,2) by (simp add: blocked_def)
  then have "blocked i s'" unfolding s'_def using assms(4) by (rule run_blocked)
  then have "ptScore (ensurePeer i q now s') \<le> MinScore (policy s')" for q by (rule ensure_blocked)
  then show ?thesis using assms(3) by (simp add: ObserveInbound_def ObserveWant_def WitnessWeight_def TrustTierOf_def tierOf_def noPeer_def Let_def)
qed


section \<open>Peers that send the same inventory\<close>

definition groups_ok :: "SecurityLayer \<Rightarrow> bool" where
  "groups_ok s \<longleftrightarrow> distinct (map fst (invSeen s)) \<and> (\<forall>(d, ps) \<in> set (invSeen s). distinct (map fst ps))"

abbreviation fresh :: "gotime \<Rightarrow> string \<times> gotime \<Rightarrow> bool" where "fresh cutoff \<equiv> \<lambda>(i, ts). \<not> ts < cutoff"

lemma set_update_sub: "set (AList.update k v al) \<subseteq> insert (k, v) (set al)"
  by (induction al) auto

lemma map_of_dropOld: "distinct (map fst m) \<Longrightarrow>
    map_of (dropOld c m) d = (case map_of m d of None \<Rightarrow> None | Some ps \<Rightarrow> if filter (fresh c) ps = [] then None else Some (filter (fresh c) ps))"
proof (induction m)
  case (Cons x m)
  obtain k ps where x: "x = (k, ps)" by (cases x)
  have "map_of m k = None" using Cons.prems x by (simp add: map_of_eq_None_iff)
  then show ?case using Cons x by (auto simp: dropOld_def)
qed (simp add: dropOld_def)

lemma seenBy_dropOld: "distinct (map fst m) \<Longrightarrow> seenBy d (dropOld c m) = filter (fresh c) (seenBy d m)"
  by (auto simp: seenBy_def map_of_dropOld split: option.split)

lemma dropOld_groups:
  assumes "distinct (map fst m)" "\<forall>(d, ps) \<in> set m. distinct (map fst ps)"
  shows "distinct (map fst (dropOld c m))" "\<forall>(d, ps) \<in> set (dropOld c m). distinct (map fst ps)"
proof -
  let ?f = "map (\<lambda>(d, ps). (d, filter (fresh c) ps)) m"
  have f: "map fst ?f = map fst m" by (simp add: case_prod_unfold comp_def)
  have "distinct (map fst ?f)" unfolding f by (rule assms(1))
  then show "distinct (map fst (dropOld c m))" unfolding dropOld_def by (rule distinct_map_filter)
  show "\<forall>(d, ps) \<in> set (dropOld c m). distinct (map fst ps)" using assms(2) by (fastforce simp: dropOld_def intro: distinct_map_filter)
qed

lemma seenBy_distinct: "\<forall>(d, ps) \<in> set m. distinct (map fst ps) \<Longrightarrow> distinct (map fst (seenBy d m))"
  by (fastforce simp: seenBy_def split: option.split dest: map_of_SomeD)

lemma update_groups:
  assumes "distinct (map fst m)" "\<forall>(d, ps) \<in> set m. distinct (map fst ps)" "distinct (map fst g)"
  shows "distinct (map fst (AList.update d g m))" "\<forall>(d, ps) \<in> set (AList.update d g m). distinct (map fst ps)"
  using assms set_update_sub[of d g m] by (auto intro: distinct_update)

lemma putPeer_seen [simp]: "invSeen (putPeer i ps s) = invSeen s" "policy (putPeer i ps s) = policy s"
  by (simp_all add: putPeer_def)

lemma groups_put [simp]: "groups_ok (putPeer i ps s) = groups_ok s"
  by (simp add: groups_ok_def)

lemma groups_drop: "groups_ok s \<Longrightarrow> groups_ok (s\<lparr>invSeen := dropOld c (invSeen s)\<rparr>)"
  using dropOld_groups[of "invSeen s" c] by (auto simp: groups_ok_def)

lemma groups_add:
  assumes "groups_ok s"
  shows "groups_ok (s\<lparr>invSeen := AList.update d (AList.update i now (seenBy d (dropOld c (invSeen s)))) (dropOld c (invSeen s))\<rparr>)"
proof -
  have m: "distinct (map fst (dropOld c (invSeen s)))" "\<forall>(d, ps) \<in> set (dropOld c (invSeen s)). distinct (map fst ps)"
    using dropOld_groups[of "invSeen s" c] assms unfolding groups_ok_def by blast+
  have "distinct (map fst (AList.update i now (seenBy d (dropOld c (invSeen s)))))" by (rule distinct_update[OF seenBy_distinct[OF m(2)]])
  from update_groups[OF m this, of d] show ?thesis unfolding groups_ok_def by simp
qed

lemma put_seen: "(putPeer i ps s)\<lparr>invSeen := m\<rparr> = putPeer i ps (s\<lparr>invSeen := m\<rparr>)"
  by (simp add: putPeer_def)

lemma sec_step_groups: "groups_ok s \<Longrightarrow> groups_ok (fst (sec_step sha x s))"
proof (induction sha x s rule: sec_step.induct)
  case (7 sha now i r m s)
  then show ?case by (auto simp: ObserveInventory_def Let_def put_seen intro: groups_drop groups_add)
qed (auto simp: SetPeerRole_def TrustTierOf_def SetQuarantine_def ClearQuarantine_def AdjustScore_def ObserveInbound_def
      ObserveWant_def ObserveApplyReport_def PeerPriority_def WitnessWeight_def PeerClusterKey_def InventoryClusterPeers_def Let_def intro: groups_drop)

lemma sec_step_policy: "policy (fst (sec_step sha x s)) = policy s"
  by (induction sha x s rule: sec_step.induct)
    (simp_all add: SetPeerRole_def TrustTierOf_def SetQuarantine_def ClearQuarantine_def AdjustScore_def ObserveInbound_def ObserveInventory_def
      ObserveWant_def ObserveApplyReport_def PeerPriority_def WitnessWeight_def PeerClusterKey_def InventoryClusterPeers_def Let_def)

interpretation security: state_machine "sec_step sha" "\<lambda>s. groups_ok s \<and> policy s = p" for sha p
  by unfold_locales (simp add: sec_step_groups sec_step_policy)


lemma accepted_group:
  assumes ok: "groups_ok s" and w: "1 \<le> InventoryWindow (policy s)" and p: "\<not> noPeer i" and d: "inventoryDigest sha m \<noteq> ''''"
    and acc: "ObserveInventory sha i r m now s = (s', DecisionAccept)"
  shows "seenBy (inventoryDigest sha m) (dropOld (now - InventoryWindow (policy s)) (invSeen s')) =
      AList.update i now (seenBy (inventoryDigest sha m) (dropOld (now - InventoryWindow (policy s)) (invSeen s))) \<and>
    int (length (AList.update i now (seenBy (inventoryDigest sha m) (dropOld (now - InventoryWindow (policy s)) (invSeen s)))))
      < InventoryClusterThreshold (policy s)"
proof -
  let ?d = "inventoryDigest sha m" and ?c = "now - InventoryWindow (policy s)"
  let ?m = "dropOld ?c (invSeen s)"
  let ?g = "AList.update i now (seenBy ?d ?m)"
  have seen: "invSeen s' = AList.update ?d ?g ?m" and len: "int (length ?g) < InventoryClusterThreshold (policy s)"
    using acc p d by (auto simp: ObserveInventory_def Let_def split: if_splits)
  have dm: "distinct (map fst (invSeen s))" using ok by (simp add: groups_ok_def)
  have dis: "distinct (map fst (AList.update ?d ?g ?m))" using groups_add[OF ok, of ?d i now ?c] by (simp add: groups_ok_def)
  have "\<forall>x \<in> set ?g. fresh ?c x" using set_update_sub[of i now "seenBy ?d ?m"] w by (auto simp: seenBy_dropOld[OF dm])
  then have "filter (fresh ?c) ?g = ?g" by (simp add: filter_id_conv)
  then have "seenBy ?d (dropOld ?c (invSeen s')) = ?g" unfolding seen seenBy_dropOld[OF dis] by (simp add: seenBy_def update_conv)
  then show ?thesis using len by simp
qed

lemma ObserveInventory_policy: "policy (fst (ObserveInventory sha i r m now s)) = policy s"
  using sec_step_policy[of sha "(now, OpObserveInventory i r m)" s] by simp

text \<open>
  Peers that echo the same inventory are detected: in every history of the security layer, when an inventory that is not empty is accepted, then the
  peers that the layer counts as senders of the same inventory within the window are exactly those counted before and the sender, each
  once, and they are fewer than the threshold; so an inventory that completes a cluster of that size is never accepted.
\<close>

theorem accepted_inventory_below_cluster:
  fixes p :: SecurityPolicy and sha :: "bytes \<Rightarrow> bytes" and ops :: "(gotime \<times> sec_op) list"
  defines "s \<equiv> fst (run (sec_step sha) ops (NewSecurityLayer p))"
  assumes "TrimSpace i \<noteq> ''''" "inventoryDigest sha m \<noteq> ''''" "ObserveInventory sha i r m now s = (s', DecisionAccept)"
  shows "set (snd (InventoryClusterPeers sha m now s')) = insert i (set (snd (InventoryClusterPeers sha m now s))) \<and>
    distinct (snd (InventoryClusterPeers sha m now s')) \<and>
    int (length (snd (InventoryClusterPeers sha m now s'))) < InventoryClusterThreshold (policy s)"
proof -
  have "groups_ok s \<and> policy s = policy (NewSecurityLayer p)"
    unfolding s_def by (rule security.run_inv) (simp add: groups_ok_def NewSecurityLayer_def)
  then have ok: "groups_ok s" and pol: "policy s = SecurityPolicy_normalize p" by (simp_all add: NewSecurityLayer_def)
  have w: "1 \<le> InventoryWindow (policy s)" using security_normalised[of p] by (simp add: pol security_in_range_def)
  have np: "\<not> noPeer i" using assms(2) by (simp add: noPeer_def)
  have pol': "policy s' = policy s" using ObserveInventory_policy[of sha i r m now s] by (simp add: assms(4))
  note g = accepted_group[OF ok w np assms(3,4)]
  have "distinct (map fst (seenBy (inventoryDigest sha m) (dropOld (now - InventoryWindow (policy s)) (invSeen s))))"
    using seenBy_distinct dropOld_groups(2) ok unfolding groups_ok_def by blast
  then show ?thesis using g assms(3) by (simp add: InventoryClusterPeers_def Let_def pol' dom_update distinct_update)
qed

text \<open>Two inventories with the same entries in another order have the same digest.\<close>

lemma digest_order: "mset (imHeads a) = mset (imHeads b) \<Longrightarrow> mset (imHave a) = mset (imHave b) \<Longrightarrow> inventoryDigest sha a = inventoryDigest sha b"
proof -
  assume "mset (imHeads a) = mset (imHeads b)" "mset (imHave a) = mset (imHave b)"
  then have "sort (imHeads a) = sort (imHeads b)" "sort (imHave a) = sort (imHave b)" by (metis mset_sort properties_for_sort sorted_sort)+
  then show ?thesis by (simp add: inventoryDigest_def digestLines_def)
qed

section \<open>Samples\<close>

definition sampleInventory :: InventoryMessage where
  "sampleInventory = \<lparr>imSchemaVersion = 1, imHeads = [''x''], imHave = []\<rparr>"

lemma sample_digest: "inventoryDigest (\<lambda>b. b) sampleInventory = ''aDp4Cg''"
  by code_simp

lemma peer_trim: "TrimSpace ''a'' = ''a''"
  by code_simp

definition blockedTrust :: peerTrust where
  "blockedTrust = (newTrust DefaultSecurityPolicy 1)\<lparr>ptScore := - 60\<rparr>"

definition blockedLayer :: SecurityLayer where
  "blockedLayer = (NewSecurityLayer DefaultSecurityPolicy)\<lparr>trusts := [''a'' \<mapsto> blockedTrust]\<rparr>"

definition quarantining :: "(gotime \<times> sec_op) list" where
  "quarantining = [(5, OpSetQuarantine ''a'' '''' (10 ^ 15))]"

lemmas sec_eval = NewSecurityLayer_def SecurityPolicy_normalize_def DefaultSecurityPolicy_def Let_def ensurePeer_def putPeer_def newTrust_def noPeer_def
  peer_trim cutAt_def ifUnset_def

definition quarantinedTrust :: peerTrust where
  "quarantinedTrust = (newTrust DefaultSecurityPolicy 5)\<lparr>ptLastSeen := 5, quarantineUntil := 5 + 10 * minute, penalty := 10 * minute\<rparr>"

lemma quarantining_run:
  "trusts (fst (run (sec_step (\<lambda>b. b)) quarantining (NewSecurityLayer DefaultSecurityPolicy))) ''a'' = Some quarantinedTrust"
  "QuarantineMax (policy (fst (run (sec_step (\<lambda>b. b)) quarantining (NewSecurityLayer DefaultSecurityPolicy)))) = 10 * minute"
  by (simp_all add: quarantining_def SetQuarantine_def sec_eval minute_def second_def quarantinedTrust_def)

theorem quarantine_bounded_witness: "\<not> isQuarantined quarantinedTrust (7 + 10 * minute)"
  using quarantine_bounded[OF _ quarantining_run(1), of 7] quarantining_run(2) by (simp add: quarantining_def)

theorem blocked_peer_stays_blocked_witness:
  "snd (ObserveInbound ''a'' '''' ''heads'' 0 (10 ^ 20) (fst (run (sec_step (\<lambda>b. b)) [(5, OpClearQuarantine ''a''), (6, OpAdjustScore ''b'' '''' 9)] blockedLayer))) =
     DecisionReject"
proof -
  have m: "MinScore (policy blockedLayer) = - 60" by (simp add: blockedLayer_def sec_eval)
  have t: "trusts blockedLayer ''a'' = Some blockedTrust" "ptScore blockedTrust \<le> MinScore (policy blockedLayer)"
    unfolding m by (simp_all add: blockedLayer_def blockedTrust_def)
  have "\<forall>(t, x) \<in> set [(5, OpClearQuarantine ''a''), (6, OpAdjustScore ''b'' '''' 9)]. \<not> raises ''a'' x" by simp
  from blocked_peer_stays_blocked[OF t _ this] show ?thesis by (simp add: peer_trim del: run.simps)
qed

theorem accepted_inventory_below_cluster_witness:
  "snd (InventoryClusterPeers (\<lambda>b. b) sampleInventory 5
     (fst (ObserveInventory (\<lambda>b. b) ''a'' '''' sampleInventory 5 (fst (run (sec_step (\<lambda>b. b)) [] (NewSecurityLayer DefaultSecurityPolicy)))))) = [''a'']"
proof -
  let ?s = "fst (run (sec_step (\<lambda>b. b)) [] (NewSecurityLayer DefaultSecurityPolicy))"
  have "snd (ObserveInventory (\<lambda>b. b) ''a'' '''' sampleInventory 5 ?s) = DecisionAccept"
    unfolding ObserveInventory_def sample_digest by (simp add: sampleInventory_def sec_eval seenBy_def dropOld_def)
  then have acc: "ObserveInventory (\<lambda>b. b) ''a'' '''' sampleInventory 5 ?s = (fst (ObserveInventory (\<lambda>b. b) ''a'' '''' sampleInventory 5 ?s), DecisionAccept)"
    by (metis prod.collapse)
  have none: "snd (InventoryClusterPeers (\<lambda>b. b) sampleInventory 5 ?s) = []"
    by (simp add: InventoryClusterPeers_def sample_digest NewSecurityLayer_def dropOld_def seenBy_def Let_def)
  have single: "xs = [x]" if "set xs = {x}" "distinct xs" for xs and x :: string
    using that distinct_card[OF that(2)] by (cases xs; cases "tl xs") auto
  show ?thesis using accepted_inventory_below_cluster[OF _ _ acc] none by (intro single) (simp_all add: peer_trim sample_digest)
qed

end
