(* ===== verification/Mesh_Crypto.thy ===== *)
theory Mesh_Crypto
  imports Go_Strings
begin

text \<open>
  The boxes of the mesh (\<^verbatim>\<open>pkg/mesh/crypto.go\<close>). \<^verbatim>\<open>box.Seal\<close> and \<^verbatim>\<open>box.Open\<close> of the NaCl library are parameters of
  the model, as is the JSON codec of an offer; random bytes are arguments, \<open>None\<close> for an error of the reader.
\<close>

record MeshMessage =
  mmNonce :: bytes
  mmCiphertext :: bytes
  mmSenderPub :: bytes

record ProxyOffer =
  poTimestamp :: int
  poConfig :: string
  poHopCount :: int

record Crypto =
  privKey :: bytes
  pubKey :: bytes

text \<open>\<open>bxSeal plaintext nonce peersPublicKey privateKey\<close> and \<open>bxOpen box nonce peersPublicKey privateKey\<close>.\<close>

record box_env =
  bxSeal :: "bytes \<Rightarrow> bytes \<Rightarrow> bytes \<Rightarrow> bytes \<Rightarrow> bytes"
  bxOpen :: "bytes \<Rightarrow> bytes \<Rightarrow> bytes \<Rightarrow> bytes \<Rightarrow> bytes option"
  bxMarshal :: "ProxyOffer \<Rightarrow> bytes"
  bxUnmarshal :: "bytes \<Rightarrow> ProxyOffer option"

datatype mesh_error = RandFailed | ErrDecrypt | ErrDecode

definition EncryptPayload :: "box_env \<Rightarrow> bytes option \<Rightarrow> bytes \<Rightarrow> bytes \<Rightarrow> Crypto \<Rightarrow> mesh_error + MeshMessage" where
  "EncryptPayload env nonce plaintext recipientPub c =
     (case nonce of
        None \<Rightarrow> Inl RandFailed
      | Some n \<Rightarrow> Inr \<lparr>mmNonce = n, mmCiphertext = bxSeal env plaintext n recipientPub (privKey c), mmSenderPub = pubKey c\<rparr>)"

definition DecryptPayload :: "box_env \<Rightarrow> MeshMessage \<Rightarrow> Crypto \<Rightarrow> mesh_error + bytes" where
  "DecryptPayload env msg c =
     (case bxOpen env (mmCiphertext msg) (mmNonce msg) (mmSenderPub msg) (privKey c) of None \<Rightarrow> Inl ErrDecrypt | Some p \<Rightarrow> Inr p)"

definition EncryptOffer :: "box_env \<Rightarrow> bytes option \<Rightarrow> ProxyOffer \<Rightarrow> bytes \<Rightarrow> Crypto \<Rightarrow> mesh_error + MeshMessage" where
  "EncryptOffer env nonce offer recipientPub c = EncryptPayload env nonce (bxMarshal env offer) recipientPub c"

definition DecryptOffer :: "box_env \<Rightarrow> MeshMessage \<Rightarrow> Crypto \<Rightarrow> mesh_error + ProxyOffer" where
  "DecryptOffer env msg c =
     (case DecryptPayload env msg c of
        Inl e \<Rightarrow> Inl e
      | Inr plaintext \<Rightarrow> (case bxUnmarshal env plaintext of None \<Rightarrow> Inl ErrDecode | Some offer \<Rightarrow> Inr offer))"

definition ForwardMessage :: "box_env \<Rightarrow> bytes option \<Rightarrow> MeshMessage \<Rightarrow> bytes \<Rightarrow> Crypto \<Rightarrow> mesh_error + MeshMessage" where
  "ForwardMessage env nonce msg nextHopPub c =
     (case DecryptOffer env msg c of
        Inl e \<Rightarrow> Inl e
      | Inr offer \<Rightarrow> EncryptOffer env nonce (offer\<lparr>poHopCount := wrap64 (poHopCount offer + 1)\<rparr>) nextHopPub c)"

section \<open>Forwarding\<close>

text \<open>What is sealed by \<open>a\<close> for \<open>b\<close> opens at \<open>b\<close> to the same plaintext.\<close>

definition opens :: "box_env \<Rightarrow> Crypto \<Rightarrow> Crypto \<Rightarrow> bool" where
  "opens env a b \<longleftrightarrow> (\<forall>p n. bxOpen env (bxSeal env p n (pubKey b) (privKey a)) n (pubKey a) (privKey b) = Some p)"

lemma payload_opens: "opens env a b \<Longrightarrow> EncryptPayload env nonce p (pubKey b) a = Inr m \<Longrightarrow> DecryptPayload env m b = Inr p"
  by (auto simp: EncryptPayload_def DecryptPayload_def opens_def split: option.splits)

lemma offer_opens:
  "opens env a b \<Longrightarrow> bxUnmarshal env (bxMarshal env offer) = Some offer \<Longrightarrow> EncryptOffer env nonce offer (pubKey b) a = Inr m \<Longrightarrow>
    DecryptOffer env m b = Inr offer"
  by (simp add: EncryptOffer_def DecryptOffer_def payload_opens)

text \<open>
  An offer that \<open>a\<close> sends to \<open>b\<close> and \<open>b\<close> forwards to \<open>c\<close> arrives there with its time and configuration unchanged and one hop more.
\<close>

theorem offer_forwarded:
  assumes "opens env a b" "opens env b c" "\<forall>x. bxUnmarshal env (bxMarshal env x) = Some x"
    and "EncryptOffer env (Some n1) offer (pubKey b) a = Inr m"
  shows "\<exists>m'. ForwardMessage env (Some n2) m (pubKey c) b = Inr m' \<and> DecryptOffer env m' c = Inr (offer\<lparr>poHopCount := wrap64 (poHopCount offer + 1)\<rparr>)"
proof -
  let ?o = "offer\<lparr>poHopCount := wrap64 (poHopCount offer + 1)\<rparr>"
  have "DecryptOffer env m b = Inr offer" using offer_opens assms by blast
  then have f: "ForwardMessage env (Some n2) m (pubKey c) b = EncryptOffer env (Some n2) ?o (pubKey c) b" by (simp add: ForwardMessage_def)
  obtain m' where "EncryptOffer env (Some n2) ?o (pubKey c) b = Inr m'" by (simp add: EncryptOffer_def EncryptPayload_def)
  then show ?thesis using f offer_opens[OF assms(2)] assms(3) by auto
qed

end
