(* ===== verification/Sync_Service.thy ===== *)
theory Sync_Service
  imports Sync_Security Ledger_Store Mesh_Crypto
begin

text \<open>
  The synchronisation service (\<^verbatim>\<open>pkg/ledgersync/service.go\<close>): what it keeps of each peer, sending, the handlers of the four messages, the application of
  queued events and the rounds.

  A method is one step of the state. The clock is read once per call. Everything random comes from one source, a function from the number of the call and
  the number of bytes to the bytes, \<open>None\<close> for an error; the service counts the calls. What is given to \<^verbatim>\<open>mesh.Broadcast\<close> is kept in the list \<open>sent\<close>, and a
  parameter says which broadcasts fail; \<^verbatim>\<open>time.Sleep\<close> has no effect. The JSON codecs are parameters. A call that crashes or does not return is \<open>None\<close>.
\<close>

section \<open>State\<close>

record peerState =
  lastInWindow :: gotime
  inMsgs :: int
  inBytes :: int
  psMeshPub :: bytes
  meshPubSet :: bool
  penaltyUntil :: gotime
  psPenalty :: duration
  recentMsg :: "(string \<times> gotime) list"
  lastContact :: gotime
  psRole :: string

definition newPeerState :: peerState where
  "newPeerState = \<lparr>lastInWindow = 0, inMsgs = 0, inBytes = 0, psMeshPub = replicate 32 0, meshPubSet = False, penaltyUntil = 0, psPenalty = 0,
     recentMsg = [], lastContact = 0, psRole = ''''\<rparr>"

record SyncStats =
  stDeferred :: u64
  stRejected :: u64
  stDuplicate :: u64
  stQuarantined :: u64

record Service =
  crypto :: Crypto
  ledger :: Ledger
  svPolicy :: "Policy option"
  observer :: "Observer option"
  opts :: Options
  security :: SecurityLayer
  verifyCache :: VerifiedEventCache
  scheduler :: PriorityScheduler
  peers :: "(string \<times> peerState) list"
  stats :: SyncStats
  randCalls :: nat
  sent :: "bytes list"

text \<open>
  The parameters: the ledger's own, the length of an event in JSON, iterations over maps, the codecs, the random source, the failing broadcasts. \<open>svTies\<close> is what an
  unstable sort makes of the order of equal elements.
\<close>

record svc_env =
  svLedger :: ledger_env
  svJsonLen :: "Event \<Rightarrow> nat"
  svOrder :: "string list \<Rightarrow> string list"
  svSched :: "Event list \<Rightarrow> Event list"
  svRecent :: "(string \<times> gotime) list \<Rightarrow> (string \<times> gotime) list"
  svTies :: "(Peer \<times> int) list \<Rightarrow> (Peer \<times> int) list"
  svMaxCap :: int
  svBox :: box_env
  svMesh :: "MeshMessage \<Rightarrow> bytes"
  svUnMesh :: "bytes \<Rightarrow> MeshMessage option"
  svWire :: "WireMessage \<Rightarrow> bytes"
  svUnWire :: "bytes \<Rightarrow> WireMessage option"
  svHeads :: "HeadsMessage \<Rightarrow> bytes"
  svUnHeads :: "bytes \<Rightarrow> HeadsMessage option"
  svInv :: "InventoryMessage \<Rightarrow> bytes"
  svUnInv :: "bytes \<Rightarrow> InventoryMessage option"
  svWant :: "WantMessage \<Rightarrow> bytes"
  svUnWant :: "bytes \<Rightarrow> WantMessage option"
  svEvents :: "EventsMessage \<Rightarrow> bytes"
  svUnEvents :: "bytes \<Rightarrow> EventsMessage option"
  svRand :: "nat \<Rightarrow> nat \<Rightarrow> bytes option"
  svBroadcast :: "nat \<Rightarrow> bool"

datatype svc_error = SvcErr string | SvcRand | SvcMesh mesh_error | SvcSend

definition NewService :: "int \<Rightarrow> Crypto \<Rightarrow> Ledger \<Rightarrow> Policy option \<Rightarrow> Observer option \<Rightarrow> Options \<Rightarrow> Service" where
  "NewService numCPU c l pol obs o1 =
     (let norm = Options_normalize numCPU o1
      in \<lparr>crypto = c, ledger = l, svPolicy = pol, observer = obs, opts = norm, security = NewSecurityLayer (oSecurityPolicy norm),
          verifyCache = NewVerifiedEventCache (VerifiedCacheMax norm) (VerifiedCacheTTL norm), scheduler = NewPriorityScheduler norm,
          peers = [], stats = \<lparr>stDeferred = 0, stRejected = 0, stDuplicate = 0, stQuarantined = 0\<rparr>, randCalls = 0, sent = []\<rparr>)"

text \<open>A filter of the options; it is never nil in options that were normalised.\<close>

definition permits :: "('a \<Rightarrow> bool) option \<Rightarrow> 'a \<Rightarrow> bool" where
  "permits f x = (case f of None \<Rightarrow> False | Some g \<Rightarrow> g x)"

definition permits2 :: "('a \<Rightarrow> 'b \<Rightarrow> bool) option \<Rightarrow> 'a \<Rightarrow> 'b \<Rightarrow> bool" where
  "permits2 f x y = (case f of None \<Rightarrow> False | Some g \<Rightarrow> g x y)"

definition rejected_by :: "u64 \<Rightarrow> Service \<Rightarrow> Service" where "rejected_by n s = s\<lparr>stats := (stats s)\<lparr>stRejected := stRejected (stats s) + n\<rparr>\<rparr>"
definition duplicate_by :: "u64 \<Rightarrow> Service \<Rightarrow> Service" where "duplicate_by n s = s\<lparr>stats := (stats s)\<lparr>stDuplicate := stDuplicate (stats s) + n\<rparr>\<rparr>"
definition deferred_once :: "Service \<Rightarrow> Service" where "deferred_once s = s\<lparr>stats := (stats s)\<lparr>stDeferred := stDeferred (stats s) + 1\<rparr>\<rparr>"
definition quarantined_once :: "Service \<Rightarrow> Service" where "quarantined_once s = s\<lparr>stats := (stats s)\<lparr>stQuarantined := stQuarantined (stats s) + 1\<rparr>\<rparr>"

section \<open>Peers\<close>

definition peerOf :: "string \<Rightarrow> Service \<Rightarrow> peerState" where
  "peerOf i s = (case map_of (peers s) i of None \<Rightarrow> newPeerState | Some ps \<Rightarrow> ps)"

definition setPeer :: "string \<Rightarrow> peerState \<Rightarrow> Service \<Rightarrow> Service" where
  "setPeer i ps s = s\<lparr>peers := AList.update i ps (peers s)\<rparr>"

definition TouchPeer :: "string \<Rightarrow> gotime \<Rightarrow> Service \<Rightarrow> Service" where
  "TouchPeer i now s = setPeer i ((peerOf i s)\<lparr>lastContact := now\<rparr>) s"

definition notePeerMeshPub :: "string \<Rightarrow> bytes \<Rightarrow> gotime \<Rightarrow> Service \<Rightarrow> Service" where
  "notePeerMeshPub i pub now s =
     (if TrimSpace i = '''' then s else setPeer i ((peerOf i s)\<lparr>psMeshPub := pub, meshPubSet := True, lastContact := now\<rparr>) s)"

definition setPeerRole :: "string \<Rightarrow> string \<Rightarrow> gotime \<Rightarrow> Service \<Rightarrow> Service" where
  "setPeerRole i r now s =
     (if TrimSpace i = '''' then s
      else let ps = peerOf i s; s1 = setPeer i ((if r \<noteq> '''' then ps\<lparr>psRole := r\<rparr> else ps)\<lparr>lastContact := now\<rparr>) s
           in if r \<noteq> '''' then s1\<lparr>security := SetPeerRole i r now (security s1)\<rparr> else s1)"

definition peerRole :: "string \<Rightarrow> Service \<Rightarrow> string" where
  "peerRole i s = (let r = psRole (peerOf i s) in if r = '''' then PeerRoleNormal else r)"

definition truncMinute :: "gotime \<Rightarrow> gotime" where "truncMinute t = t - t mod minute"

definition inWindow :: "gotime \<Rightarrow> peerState \<Rightarrow> peerState" where
  "inWindow now ps =
     (if lastInWindow ps = 0 \<or> lastInWindow ps \<noteq> truncMinute now then ps\<lparr>lastInWindow := truncMinute now, inMsgs := 0, inBytes := 0\<rparr> else ps)"

definition allowInbound :: "string \<Rightarrow> int \<Rightarrow> gotime \<Rightarrow> Service \<Rightarrow> Service \<times> bool" where
  "allowInbound peerID sz now s =
     (let ps = peerOf peerID s in
      if penaltyUntil ps \<noteq> 0 \<and> now < penaltyUntil ps then (setPeer peerID ps s, False)
      else let p1 = inWindow now ps; p2 = p1\<lparr>inMsgs := inMsgs p1 + 1, inBytes := inBytes p1 + sz\<rparr> in
           if inMsgs p2 > MaxInboundMsgsPerMin (opts s) \<or> inBytes p2 > MaxInboundBytesPerMin (opts s)
           then let pen = (if psPenalty p2 < PenaltyBase (opts s) then PenaltyBase (opts s) else cutAt (PenaltyMax (opts s)) (psPenalty p2 * 2))
                in (setPeer peerID (p2\<lparr>psPenalty := pen, penaltyUntil := now + pen\<rparr>) s, False)
           else (setPeer peerID p2 s, True))"

definition dropExpired :: "gotime \<Rightarrow> (string \<times> gotime) list \<Rightarrow> (string \<times> gotime) list" where
  "dropExpired now m = filter (\<lambda>(k, e). \<not> now > e) m"

definition seenMsg :: "svc_env \<Rightarrow> string \<Rightarrow> string \<Rightarrow> gotime \<Rightarrow> Service \<Rightarrow> Service \<times> bool" where
  "seenMsg env peerID msgID now s =
     (let ps = peerOf peerID s; m = dropExpired now (recentMsg ps) in
      if map_of m msgID \<noteq> None then (setPeer peerID (ps\<lparr>recentMsg := m\<rparr>) s, True)
      else let m1 = AList.update msgID (now + RecentMsgTTL (opts s)) m;
               victims = map fst (take (length m1 div 2) (sort_key snd (svRecent env m1)));
               m2 = (if int (length m1) > RecentMsgMax (opts s) then filter (\<lambda>(k, e). k \<notin> set victims) m1 else m1)
           in (setPeer peerID (ps\<lparr>recentMsg := m2\<rparr>) s, False))"

definition alreadySeenMsg :: "string \<Rightarrow> string \<Rightarrow> gotime \<Rightarrow> Service \<Rightarrow> Service \<times> bool" where
  "alreadySeenMsg peerID msgID now s =
     (let ps = peerOf peerID s; m = dropExpired now (recentMsg ps) in (setPeer peerID (ps\<lparr>recentMsg := m\<rparr>) s, map_of m msgID \<noteq> None))"

section \<open>Sending\<close>

text \<open>The random numbers from the next call on.\<close>

definition nextUint32 :: "svc_env \<Rightarrow> Service \<Rightarrow> nat \<Rightarrow> nat option" where
  "nextUint32 env s k = map_option le_nat (svRand env (randCalls s + k) 4)"

definition drawn :: "nat \<Rightarrow> Service \<Rightarrow> Service" where "drawn n s = s\<lparr>randCalls := randCalls s + n\<rparr>"

definition newSessionID :: "svc_env \<Rightarrow> Service \<Rightarrow> Service \<times> string option" where
  "newSessionID env s = (drawn 1 s, map_option EncodeToString (svRand env (randCalls s) 12))"

text \<open>\<^verbatim>\<open>padPlaintext\<close> with the source of the service; a failure leaves the plaintext as it is.\<close>

definition padded :: "svc_env \<Rightarrow> bytes \<Rightarrow> Service \<Rightarrow> Service \<times> bytes" where
  "padded env plaintext s =
     (let bucket = PaddingBucketBytes (Privacy (opts s)) in
      if bucket \<le> 0 then (s, plaintext)
      else let s1 = (if plaintext = [] \<or> int (length plaintext) + 8 \<ge> bucket then s else drawn 1 s)
           in (s1, case padPlaintext (svRand env (randCalls s)) plaintext bucket of None \<Rightarrow> plaintext | Some pt \<Rightarrow> pt))"

definition sendMesh :: "svc_env \<Rightarrow> Peer \<Rightarrow> bytes \<Rightarrow> Service \<Rightarrow> Service \<times> (svc_error + unit)" where
  "sendMesh env peer plaintext s =
     (let s1 = (if OutboundDelayMax (Privacy (opts s)) > 0 then drawn 1 s else s); (s2, pt) = padded env plaintext s1 in
      case EncryptPayload (svBox env) (svRand env (randCalls s2) 24) pt (peMeshPub peer) (crypto s2) of
        Inl e \<Rightarrow> (drawn 1 s2, Inl (SvcMesh e))
      | Inr msg \<Rightarrow> ((drawn 1 s2)\<lparr>sent := sent s2 @ [svMesh env msg]\<rparr>, if svBroadcast env (length (sent s2)) then Inr () else Inl SvcSend))"

definition SendHeads :: "svc_env \<Rightarrow> gotime \<Rightarrow> Peer \<Rightarrow> string \<Rightarrow> Service \<Rightarrow> Service \<times> (svc_error + string)" where
  "SendHeads env now peer0 syncContext s =
     (if \<not> permits (AllowContext (opts s)) syncContext then (s, Inl (SvcErr ''ledgersync: context not allowed''))
      else case newSessionID env s of
             (s1, None) \<Rightarrow> (s1, Inl SvcRand)
           | (s1, Some sid) \<Rightarrow>
               let pt = encodeWire (svWire env) ''heads'' sid syncContext (svHeads env (BuildHeadsMessage (ledger s1)));
                   peer = (if peID peer0 = '''' then peer0\<lparr>peID := peerIDFromMeshPub (peMeshPub peer0)\<rparr> else peer0);
                   s2 = setPeerRole (peID peer) (peRole peer) now (notePeerMeshPub (peID peer) (peMeshPub peer) now s1)
               in case sendMesh env peer pt s2 of (s3, Inl e) \<Rightarrow> (s3, Inl e) | (s3, Inr _) \<Rightarrow> (s3, Inr sid))"


section \<open>Filters and classes of events\<close>

definition filterOutgoingIDs :: "string list \<Rightarrow> string \<Rightarrow> Service \<Rightarrow> string list" where
  "filterOutgoingIDs ids ctx s =
     filter (\<lambda>i. case Get (ledger s) i of None \<Rightarrow> False | Some ev \<Rightarrow> permits2 (AllowOutgoingKind (opts s)) ctx (Kind ev)) ids"

definition filterIncomingEvents :: "EventsMessage \<Rightarrow> string \<Rightarrow> Service \<Rightarrow> EventsMessage \<times> nat" where
  "filterIncomingEvents msg ctx s =
     (let ok = (\<lambda>ev. permits2 (AllowIncomingKind (opts s)) ctx (Kind ev))
      in (msg\<lparr>emEvents := filter ok (emEvents msg)\<rparr>, length (filter (\<lambda>ev. \<not> ok ev) (emEvents msg))))"

definition priorityForKind :: "string \<Rightarrow> PriorityClass" where
  "priorityForKind kind =
     (if kind \<in> set [KindIdentityIntroduce, KindIdentityRotate, KindIdentityRevoke, KindMisbehaviorEquivoc, KindMisbehaviorReplay,
        KindMisbehaviorSybil, KindWitnessAttest, KindWitnessCheckpoint, KindGroupMembership, KindAgentAction, KindSyncSummary,
        KindLedgerEvent] then PriorityCritical
      else if kind \<in> set [KindChatMessage, KindGroupCreate, KindGroupJoin] then PriorityNormal
      else PriorityBackground)"

definition splitEventsByPriority :: "EventsMessage \<Rightarrow> PriorityClass \<Rightarrow> EventsMessage" where
  "splitEventsByPriority msg c = \<lparr>emSchemaVersion = emSchemaVersion msg, emEvents = filter (\<lambda>ev. priorityForKind (Kind ev) = c) (emEvents msg)\<rparr>"

section \<open>Applying queued events\<close>

text \<open>The peers whose key is known, in the order of their identifiers.\<close>

definition meshPeers :: "Service \<Rightarrow> Peer list" where
  "meshPeers s =
     sort_key peID (map (\<lambda>(i, ps). \<lparr>peID = i, peMeshPub = psMeshPub ps, peRole = psRole ps\<rparr>) (filter (\<lambda>(i, ps). meshPubSet ps) (peers s)))"

definition sendAll :: "svc_env \<Rightarrow> bytes \<Rightarrow> Peer list \<Rightarrow> Service \<Rightarrow> Service" where
  "sendAll env pt ps s = fold (\<lambda>p s. fst (sendMesh env p pt s)) ps s"

definition broadcastObserverEvents :: "svc_env \<Rightarrow> string \<Rightarrow> u64 \<Rightarrow> u64 \<Rightarrow> Service \<Rightarrow> Service option" where
  "broadcastObserverEvents env ctx fromSeq toSeq s =
     (case observer s of
        None \<Rightarrow> Some s
      | Some ob \<Rightarrow>
          let author = TrimSpace (obAuthor ob) in
          if \<not> permits (AllowContext (opts s)) ctx \<or> author = '''' then Some s
          else case AuthorEventIDsBetween (svMaxCap env) author fromSeq toSeq (ledger s) of
                 None \<Rightarrow> None
               | Some ids0 \<Rightarrow>
                   let ids = filterOutgoingIDs ids0 ctx s;
                       msg = BuildEventsMessageBounded (svJsonLen env) ids (oMaxEvents (opts s)) (MaxEventBytes (opts s)) (MaxEventsMessageBytes (opts s)) (ledger s)
                   in if ids = [] \<or> emEvents msg = [] then Some s
                      else case newSessionID env s of
                             (s1, None) \<Rightarrow> Some s1
                           | (s1, Some sid) \<Rightarrow>
                               let ps = meshPeers s1;
                                   ps1 = (if MaxPeersPerRound (opts s1) > 0 then take (nat (MaxPeersPerRound (opts s1))) ps else ps)
                               in Some (sendAll env (encodeWire (svWire env) ''events'' sid ctx (svEvents env msg)) ps1 s1))"

text \<open>What is counted of the report of one application, and what the security layer learns from it.\<close>

definition noteReport :: "gotime \<Rightarrow> schedItem \<Rightarrow> ApplyReport \<Rightarrow> Service \<Rightarrow> Service" where
  "noteReport now it rp s =
     (let s1 = (if Dupe rp > 0 then duplicate_by (of_nat (Dupe rp)) s else s);
          s2 = (if Rejected rp > 0
                then let a = rejected_by (of_nat (Rejected rp)) s1; (sec, tier) = TrustTierOf (siPeerID it) now (security a); b = a\<lparr>security := sec\<rparr>
                     in if tier = TrustBlocked then quarantined_once b else b
                else s1)
      in s2\<lparr>security := ObserveApplyReport (siPeerID it) (siRole it) rp now (security s2)\<rparr>)"

definition addReport :: "ApplyReport \<Rightarrow> ApplyReport \<Rightarrow> ApplyReport" where
  "addReport a b = \<lparr>Applied = Applied a + Applied b, Dupe = Dupe a + Dupe b, Rejected = Rejected a + Rejected b\<rparr>"

definition reportOf :: "ledger_error \<times> ApplyReport + ApplyReport \<Rightarrow> ApplyReport" where
  "reportOf r = (case r of Inl (e, rp) \<Rightarrow> rp | Inr rp \<Rightarrow> rp)"

definition drainItem :: "svc_env \<Rightarrow> gotime \<Rightarrow> schedItem \<Rightarrow> Service \<Rightarrow> (Service \<times> ApplyReport) option" where
  "drainItem env now it s =
     (let o1 = opts s; m = MaxEventsMessageBytes o1;
          msgMax = (if siMaxMessageBytes it > 0 \<and> siMaxMessageBytes it < m then siMaxMessageBytes it else m);
          ctx = TrimSpace (siContext it);
          seqOf = (\<lambda>l. case observer s of None \<Rightarrow> 0 | Some ob \<Rightarrow> AuthorMaxSeq l (obAuthor ob));
          (l', cache, res) = ApplyEventsMessageBoundedOptimized (svLedger env) (svJsonLen env) (svSched env) now (siMsg it) (siContext it) (svPolicy s)
             (observer s) (oMaxEvents o1) (MaxEventBytes o1) msgMax (Some (verifyCache s)) (ledger s);
          s1 = s\<lparr>ledger := l', verifyCache := (case cache of None \<Rightarrow> verifyCache s | Some c \<Rightarrow> c)\<rparr>; rp = reportOf res;
          s2 = (if observer s \<noteq> None \<and> ctx \<noteq> '''' \<and> seqOf l' > seqOf (ledger s)
                then broadcastObserverEvents env ctx (seqOf (ledger s) + 1) (seqOf l') s1 else Some s1)
      in map_option (\<lambda>s3. (noteReport now it rp s3, rp)) s2)"

fun drainLoop :: "svc_env \<Rightarrow> gotime \<Rightarrow> nat \<Rightarrow> Service \<Rightarrow> ApplyReport \<Rightarrow> (Service \<times> ApplyReport) option" where
  "drainLoop env now 0 s rep = Some (s, rep)"
| "drainLoop env now (Suc n) s rep =
     (case Next (scheduler s) of
        (sc, None) \<Rightarrow> Some (s\<lparr>scheduler := sc\<rparr>, rep)
      | (sc, Some it) \<Rightarrow>
          (case drainItem env now it (s\<lparr>scheduler := sc\<rparr>) of
             None \<Rightarrow> None
           | Some (s1, rp) \<Rightarrow> drainLoop env now n s1 (addReport rep rp)))"

definition drainInbound :: "svc_env \<Rightarrow> gotime \<Rightarrow> int \<Rightarrow> Service \<Rightarrow> (Service \<times> ApplyReport) option" where
  "drainInbound env now mx s = (if mx \<le> 0 then Some (s, noReport) else drainLoop env now (nat mx) s noReport)"


section \<open>Handling messages\<close>

type_synonym svc_result = "(Service \<times> (svc_error + unit)) option"

definition markSeen :: "svc_env \<Rightarrow> string \<Rightarrow> string \<Rightarrow> gotime \<Rightarrow> Service \<Rightarrow> svc_result" where
  "markSeen env peerID mid now s = Some (fst (seenMsg env peerID mid now s), Inr ())"

text \<open>A rejected message: it is counted, and counted again when its peer is blocked.\<close>

definition countRejected :: "string \<Rightarrow> gotime \<Rightarrow> Service \<Rightarrow> Service" where
  "countRejected peerID now s =
     (let s1 = rejected_by 1 s; (sec, tier) = TrustTierOf peerID now (security s1); s2 = s1\<lparr>security := sec\<rparr>
      in if tier = TrustBlocked then quarantined_once s2 else s2)"

text \<open>The reply to a message; the message is marked as seen only when the reply could be sent.\<close>

definition replyTo :: "svc_env \<Rightarrow> Peer \<Rightarrow> string \<Rightarrow> gotime \<Rightarrow> string \<Rightarrow> WireMessage \<Rightarrow> bytes \<Rightarrow> Service \<Rightarrow> svc_result" where
  "replyTo env from mid now t w body s =
     (case sendMesh env from (encodeWire (svWire env) t (wSession w) (wContext w) body) s of
        (s1, Inl e) \<Rightarrow> Some (s1, Inl e)
      | (s1, Inr _) \<Rightarrow> markSeen env (peID from) mid now s1)"

text \<open>\<^verbatim>\<open>sampleStringsPermille\<close> and \<^verbatim>\<open>shuffleStrings\<close> with the source of the service.\<close>

definition sampled :: "svc_env \<Rightarrow> string list \<Rightarrow> int \<Rightarrow> Service \<Rightarrow> Service \<times> string list" where
  "sampled env ids permille s =
     (if permille \<ge> 1000 \<or> permille \<le> 0 then s else drawn (length ids) s, sampleStringsPermille (nextUint32 env s) ids permille)"

definition shuffled :: "svc_env \<Rightarrow> 'a list \<Rightarrow> Service \<Rightarrow> Service \<times> 'a list" where
  "shuffled env xs s = (drawn (length xs - 1) s, shuffle (nextUint32 env s) xs)"

definition handleHeads :: "svc_env \<Rightarrow> gotime \<Rightarrow> Peer \<Rightarrow> string \<Rightarrow> WireMessage \<Rightarrow> Service \<Rightarrow> svc_result" where
  "handleHeads env now from mid w s =
     (case svUnHeads env (wBody w) of
        None \<Rightarrow> markSeen env (peID from) mid now s
      | Some hm \<Rightarrow>
          if hmSchemaVersion hm \<noteq> SyncSchemaV1 then markSeen env (peID from) mid now s
          else let inv1 = BuildInventoryMessage (svOrder env) (MaxHave (opts s)) (ledger s); permille = InventorySamplePermille (Privacy (opts s));
                   (s1, have1) = (if permille < 1000 \<and> length (imHave inv1) \<ge> 32 then sampled env (imHave inv1) permille s else (s, imHave inv1))
               in replyTo env from mid now ''inv'' w (svInv env (inv1\<lparr>imHave := have1\<rparr>)) s1)"

fun keepFirst :: "string list \<Rightarrow> string list \<Rightarrow> string list" where
  "keepFirst [] seen = []"
| "keepFirst (i # ids) seen = (if i = '''' \<or> i \<in> set seen then keepFirst ids seen else i # keepFirst ids (i # seen))"

text \<open>The identifiers that are asked for: the plan, perhaps a sample of it, some noise, without repetitions, at most the limit.\<close>

definition wantSample :: "svc_env \<Rightarrow> string list \<Rightarrow> Service \<Rightarrow> Service \<times> string list" where
  "wantSample env plan s =
     (let permille = WantSamplePermille (Privacy (opts s)) in
      if permille < 1000 \<and> length plan \<ge> 8
      then let (s1, ids) = sampled env plan permille s in (s1, if ids = [] \<and> plan \<noteq> [] then take 1 plan else ids)
      else (s, plan))"

definition wantNoise :: "svc_env \<Rightarrow> InventoryMessage \<Rightarrow> string list \<Rightarrow> Service \<Rightarrow> Service \<times> string list" where
  "wantNoise env inv1 ids s =
     (let n = WantNoiseCount (Privacy (opts s)); noise = filter (\<lambda>i. i \<noteq> '''' \<and> Have (ledger s) i) (imHave inv1) in
      if n > 0 \<and> length (imHave inv1) \<ge> 8 \<and> noise \<noteq> []
      then let (s1, sh) = shuffled env noise s in (s1, ids @ take (nat n) sh)
      else (s, ids))"

definition wantIDs :: "svc_env \<Rightarrow> InventoryMessage \<Rightarrow> Service \<Rightarrow> Service \<times> string list" where
  "wantIDs env inv1 s =
     (let plan = PlanSyncFromPeer inv1 (MaxWant (opts s)) (ledger s);
          (s1, ids1) = wantSample env plan s;
          (s2, ids2) = wantNoise env inv1 ids1 s1;
          ids3 = (if length ids2 > 1 then keepFirst ids2 [] else ids2)
      in (s2, if MaxWant (opts s) > 0 then take (nat (MaxWant (opts s))) ids3 else ids3))"

definition reportCluster :: "svc_env \<Rightarrow> gotime \<Rightarrow> string \<Rightarrow> InventoryMessage \<Rightarrow> Service \<Rightarrow> Service" where
  "reportCluster env now ctx inv1 s =
     (if observer s = None then s
      else let (sec, ps) = InventoryClusterPeers (leSha (svLedger env)) inv1 now (security s); thr = InventoryClusterThreshold (policy sec);
               s1 = s\<lparr>security := sec\<rparr>
           in if thr > 0 \<and> int (length ps) = thr
              then s1\<lparr>ledger := fst (EmitSybilMisbehavior (svLedger env) now ctx ps ''inventory_cluster'' (svPolicy s1) (observer s1) (ledger s1))\<rparr>
              else s1)"

definition handleInv :: "svc_env \<Rightarrow> gotime \<Rightarrow> Peer \<Rightarrow> string \<Rightarrow> WireMessage \<Rightarrow> Service \<Rightarrow> svc_result" where
  "handleInv env now from mid w s =
     (case svUnInv env (wBody w) of
        None \<Rightarrow> markSeen env (peID from) mid now s
      | Some inv1 \<Rightarrow>
          if imSchemaVersion inv1 \<noteq> SyncSchemaV1 then markSeen env (peID from) mid now s
          else let (sec, d) = ObserveInventory (leSha (svLedger env)) (peID from) (peRole from) inv1 now (security s); s1 = s\<lparr>security := sec\<rparr> in
               (case d of
                  DecisionReject \<Rightarrow> markSeen env (peID from) mid now (countRejected (peID from) now s1)
                | DecisionDefer \<Rightarrow> Some (deferred_once (reportCluster env now (wContext w) inv1 s1), Inr ())
                | DecisionAccept \<Rightarrow>
                    let (s2, ids) = wantIDs env inv1 s1 in replyTo env from mid now ''want'' w (svWant env (mkWantMessage ids)) s2))"

definition handleWant :: "svc_env \<Rightarrow> gotime \<Rightarrow> Peer \<Rightarrow> string \<Rightarrow> WireMessage \<Rightarrow> Service \<Rightarrow> svc_result" where
  "handleWant env now from mid w s =
     (case svUnWant env (wBody w) of
        None \<Rightarrow> markSeen env (peID from) mid now s
      | Some want \<Rightarrow>
          if wmSchemaVersion want \<noteq> SyncSchemaV1 then markSeen env (peID from) mid now s
          else let (sec, d) = ObserveWant (peID from) (peRole from) want now (security s); s1 = s\<lparr>security := sec\<rparr> in
               (case d of
                  DecisionReject \<Rightarrow> markSeen env (peID from) mid now (countRejected (peID from) now s1)
                | DecisionDefer \<Rightarrow> Some (deferred_once s1, Inr ())
                | DecisionAccept \<Rightarrow>
                    let ids = take (if MaxWant (opts s1) > 0 then nat (MaxWant (opts s1)) else 256) (wmWant want);
                        msg = BuildEventsMessageBounded (svJsonLen env) (filterOutgoingIDs ids (wContext w) s1) (oMaxEvents (opts s1))
                                (MaxEventBytes (opts s1)) (MaxEventsMessageBytes (opts s1)) (ledger s1)
                    in replyTo env from mid now ''events'' w (svEvents env msg) s1))"

text \<open>Queueing the events of a message by class; the number of classes that were queued is the second result.\<close>

definition enqueueClass :: "string \<Rightarrow> string \<Rightarrow> string \<Rightarrow> EventsMessage \<Rightarrow> PriorityClass \<Rightarrow> Service \<times> nat \<Rightarrow> Service \<times> nat" where
  "enqueueClass peerID r ctx em c = (\<lambda>(s, enq).
     let m = splitEventsByPriority em c in
     if emEvents m = [] then (s, enq)
     else let (sc, ok) = Enqueue peerID c \<lparr>siPeerID = '''', siRole = r, siContext = ctx, siMsg = m, siMaxMessageBytes = MaxEventsMessageBytes (opts s)\<rparr> (scheduler s)
          in (s\<lparr>scheduler := sc\<rparr>, if ok then enq + 1 else enq))"

definition enqueueEvents :: "string \<Rightarrow> string \<Rightarrow> string \<Rightarrow> EventsMessage \<Rightarrow> Service \<Rightarrow> Service \<times> nat" where
  "enqueueEvents peerID r ctx em s = fold (enqueueClass peerID r ctx em) [PriorityCritical, PriorityNormal, PriorityBackground] (s, 0)"

definition countDropped :: "nat \<Rightarrow> Service \<Rightarrow> Service" where
  "countDropped n s = (if n > 0 then rejected_by (of_nat n) s else s)"

definition handleEvents :: "svc_env \<Rightarrow> gotime \<Rightarrow> Peer \<Rightarrow> string \<Rightarrow> WireMessage \<Rightarrow> Service \<Rightarrow> svc_result" where
  "handleEvents env now from mid w s =
     (case svUnEvents env (wBody w) of
        None \<Rightarrow> markSeen env (peID from) mid now s
      | Some em0 \<Rightarrow>
          if emSchemaVersion em0 \<noteq> SyncSchemaV1 then markSeen env (peID from) mid now s
          else let (em, dropped) = filterIncomingEvents em0 (wContext w) s;
                   (s1, enq) = enqueueEvents (peID from) (peRole from) (wContext w) em (countDropped dropped s)
               in if enq = 0 then Some (deferred_once s1, Inr ())
                  else case drainInbound env now (SchedulerDrainPerReceive (opts s1)) s1 of
                         None \<Rightarrow> None
                       | Some (s2, _) \<Rightarrow> markSeen env (peID from) mid now s2)"

definition handleWire :: "svc_env \<Rightarrow> gotime \<Rightarrow> Peer \<Rightarrow> string \<Rightarrow> WireMessage \<Rightarrow> Service \<Rightarrow> svc_result" where
  "handleWire env now from mid w s =
     (if wType w = ''heads'' then handleHeads env now from mid w s
      else if wType w = ''inv'' then handleInv env now from mid w s
      else if wType w = ''want'' then handleWant env now from mid w s
      else if wType w = ''events'' then handleEvents env now from mid w s
      else markSeen env (peID from) mid now s)"

text \<open>\<open>raw\<close> is what \<^verbatim>\<open>mesh.Receive\<close> returned, \<open>None\<close> for its error.\<close>

definition ReceiveOnce :: "svc_env \<Rightarrow> gotime \<Rightarrow> bytes option \<Rightarrow> Service \<Rightarrow> svc_result" where
  "ReceiveOnce env now raw s =
     (case raw of
        None \<Rightarrow> Some (s, Inl SvcSend)
      | Some b \<Rightarrow>
          (case svUnMesh env b of
             None \<Rightarrow> Some (s, Inr ())
           | Some mm \<Rightarrow>
               (case DecryptPayload (svBox env) mm (crypto s) of
                  Inl _ \<Rightarrow> Some (s, Inr ())
                | Inr pt \<Rightarrow>
                    let peerID = peerIDFromMeshPub (mmSenderPub mm);
                        s1 = notePeerMeshPub peerID (mmSenderPub mm) now s;
                        r = peerRole peerID s1;
                        (s2, ok) = allowInbound peerID (int (length pt)) now s1
                    in if \<not> ok then Some (rejected_by 1 s2, Inr ())
                       else let upt = fst (unpadPlaintext pt); mid = msgIDFromPlaintext (leSha (svLedger env)) upt;
                                (s3, dup) = alreadySeenMsg peerID mid now s2
                            in if dup then Some (duplicate_by 1 s3, Inr ())
                               else let s4 = TouchPeer peerID now s3 in
                                    (case decodeWire (svUnWire env) upt of
                                       None \<Rightarrow> markSeen env peerID mid now s4
                                     | Some w \<Rightarrow>
                                         if \<not> permits (AllowContext (opts s4)) (wContext w) then markSeen env peerID mid now s4
                                         else let (sec, d) = ObserveInbound peerID r (wType w) (int (length pt)) now (security s4); s5 = s4\<lparr>security := sec\<rparr> in
                                              (case d of
                                                 DecisionReject \<Rightarrow> markSeen env peerID mid now (countRejected peerID now s5)
                                               | DecisionDefer \<Rightarrow> Some (deferred_once s5, Inr ())
                                               | DecisionAccept \<Rightarrow>
                                                   handleWire env now \<lparr>peID = peerID, peMeshPub = mmSenderPub mm, peRole = r\<rparr> mid w s5)))))"

definition TryApplyWirePlaintext :: "svc_env \<Rightarrow> gotime \<Rightarrow> string \<Rightarrow> bytes \<Rightarrow> Service \<Rightarrow> (Service \<times> bool \<times> ApplyReport) option" where
  "TryApplyWirePlaintext env now peerID0 plaintext s =
     (let peerID = schedPeer peerID0;
          r = (if take 6 peerID = ''relay:'' then PeerRoleRelay else PeerRoleNormal);
          s1 = setPeerRole peerID r now s;
          (s2, ok) = allowInbound peerID (int (length plaintext)) now s1
      in if \<not> ok then Some (rejected_by 1 s2, True, noReport)
         else let upt = fst (unpadPlaintext plaintext); mid = msgIDFromPlaintext (leSha (svLedger env)) upt; (s3, dup) = seenMsg env peerID mid now s2 in
              if dup then Some (duplicate_by 1 s3, True, noReport)
              else let s4 = TouchPeer peerID now s3 in
                   (case decodeWire (svUnWire env) upt of
                      None \<Rightarrow> Some (s4, False, noReport)
                    | Some w \<Rightarrow>
                        if wType w \<noteq> ''events'' then Some (s4, False, noReport)
                        else if \<not> permits (AllowContext (opts s4)) (wContext w) then Some (s4, True, noReport)
                        else let (sec, d) = ObserveInbound peerID r (wType w) (int (length plaintext)) now (security s4); s5 = s4\<lparr>security := sec\<rparr> in
                             (case d of
                                DecisionReject \<Rightarrow> Some (countRejected peerID now s5, True, noReport)
                              | DecisionDefer \<Rightarrow> Some (deferred_once s5, True, noReport)
                              | DecisionAccept \<Rightarrow>
                                  (case svUnEvents env (wBody w) of
                                     None \<Rightarrow> Some (s5, True, noReport)
                                   | Some em0 \<Rightarrow>
                                       if emSchemaVersion em0 \<noteq> SyncSchemaV1 then Some (s5, True, noReport)
                                       else let (em, dropped) = filterIncomingEvents em0 (wContext w) s5;
                                                (s6, enq) = enqueueEvents peerID r (wContext w) em (countDropped dropped s5)
                                            in if enq = 0 then Some (deferred_once s6, True, noReport\<lparr>Rejected := dropped\<rparr>)
                                               else map_option (\<lambda>(s7, rep). (s7, True, rep\<lparr>Rejected := Rejected rep + dropped\<rparr>))
                                                      (drainInbound env now (SchedulerDrainPerReceive (opts s6)) s6)))))"


section \<open>Rounds\<close>

text \<open>\<^verbatim>\<open>now.Sub(lastContact) / time.Second\<close>; \<^verbatim>\<open>Sub\<close> saturates at the limits of a duration.\<close>

definition ageSeconds :: "gotime \<Rightarrow> gotime \<Rightarrow> int" where
  "ageSeconds now t = quot (max (- (2 ^ 63)) (min (2 ^ 63 - 1) (now - t))) second"

definition scoreCandidate :: "gotime \<Rightarrow> Peer \<Rightarrow> Service \<times> (Peer \<times> int) list \<Rightarrow> Service \<times> (Peer \<times> int) list" where
  "scoreCandidate now cand = (\<lambda>(s, out).
     let p1 = (if peID cand = '''' then cand\<lparr>peID := peerIDFromMeshPub (peMeshPub cand)\<rparr> else cand);
         p2 = (if peRole p1 = '''' then p1\<lparr>peRole := PeerRoleNormal\<rparr> else p1);
         known = map_of (peers s) (peID p2); ps = peerOf (peID p2) s
     in if known \<noteq> None \<and> penaltyUntil ps \<noteq> 0 \<and> now < penaltyUntil ps then (s, out)
        else let p3 = (if known \<noteq> None \<and> psRole ps \<noteq> '''' \<and> peRole p2 = PeerRoleNormal then p2\<lparr>peRole := psRole ps\<rparr> else p2);
                 age = (if known \<noteq> None \<and> lastContact ps \<noteq> 0 then ageSeconds now (lastContact ps) else 2 ^ 62);
                 (sec, score) = PeerPriority (peID p3) (peRole p3) age now (security s); s1 = s\<lparr>security := sec\<rparr>
             in if score < 0 then (s1, out) else (s1, out @ [(p3, score)]))"

record selection =
  seOut :: "Peer list"
  seRelays :: int
  seAgents :: int
  seSelected :: "string list"
  seClusters :: "string list"

definition tryAdd :: "gotime \<Rightarrow> Peer \<Rightarrow> bool \<Rightarrow> Service \<times> selection \<Rightarrow> Service \<times> selection" where
  "tryAdd now p diverse = (\<lambda>(s, sel).
     let pol = policy (security s) in
     if peID p \<in> set (seSelected sel) then (s, sel)
     else if peRole p = PeerRoleRelay \<and> seRelays sel \<ge> MaxRelaysPerRound pol then (s, sel)
     else if peRole p = PeerRoleAgent \<and> seAgents sel \<ge> MaxAgentsPerRound pol then (s, sel)
     else let (sec, cluster) = (if diverse then PeerClusterKey (peID p) now (security s) else (security s, '''')); s1 = s\<lparr>security := sec\<rparr> in
          if cluster \<noteq> '''' \<and> cluster \<in> set (seClusters sel) then (s1, sel)
          else (setPeerRole (peID p) (peRole p) now s1,
                \<lparr>seOut = seOut sel @ [p], seRelays = (if peRole p = PeerRoleRelay then seRelays sel + 1 else seRelays sel),
                 seAgents = (if peRole p = PeerRoleAgent then seAgents sel + 1 else seAgents sel), seSelected = peID p # seSelected sel,
                 seClusters = (if cluster \<noteq> '''' then cluster # seClusters sel else seClusters sel)\<rparr>))"

definition selectPass :: "gotime \<Rightarrow> nat \<Rightarrow> bool \<Rightarrow> (Peer \<times> int) list \<Rightarrow> Service \<times> selection \<Rightarrow> Service \<times> selection" where
  "selectPass now maxPeers first all st =
     fold (\<lambda>(p, sc) st. if length (seOut (snd st)) \<ge> maxPeers then st else tryAdd now p (first \<and> length (seOut (snd st)) + 1 < maxPeers) st) all st"

text \<open>The last peer that was selected gives way to a random one of the same role.\<close>

definition swapLast :: "gotime \<Rightarrow> nat \<Rightarrow> (Peer \<times> int) list \<Rightarrow> Service \<times> selection \<Rightarrow> Service \<times> Peer list" where
  "swapLast now rn all = (\<lambda>(s, sel).
     let out = seOut sel; width = length all - length out; offset = rn mod width;
         cands = map (\<lambda>i. fst (all ! (length out + (offset + i) mod width))) [0..<min width 8]
     in case find (\<lambda>c. peRole c = peRole (last out) \<and> peID c \<notin> set (seSelected sel)) cands of
          None \<Rightarrow> (s, out)
        | Some c \<Rightarrow> (setPeerRole (peID c) (peRole c) now s, butlast out @ [c]))"

definition SelectPeers :: "svc_env \<Rightarrow> Peer list \<Rightarrow> gotime \<Rightarrow> Service \<Rightarrow> Service \<times> Peer list" where
  "SelectPeers env candidates now s =
     (let (s1, scored) = fold (scoreCandidate now) candidates (s, []);
          all = sort_key (\<lambda>(p, score). (- score, peID p)) (svTies env scored);
          maxPeers = min (nat (MaxPeersPerRound (opts s))) (length all);
          st = selectPass now maxPeers False all
                 (selectPass now maxPeers True all (s1, \<lparr>seOut = [], seRelays = 0, seAgents = 0, seSelected = [], seClusters = []\<rparr>));
          out = seOut (snd st)
      in if length out \<ge> 2 \<and> length all > length out
         then (case nextUint32 env (fst st) 0 of
                 None \<Rightarrow> (drawn 1 (fst st), out)
               | Some rn \<Rightarrow> swapLast now rn all (drawn 1 (fst st), snd st))
         else (fst st, out))"

definition sendHeadsTo :: "svc_env \<Rightarrow> gotime \<Rightarrow> string \<Rightarrow> Peer list \<Rightarrow> Service \<Rightarrow> Service" where
  "sendHeadsTo env now ctx ps s = fold (\<lambda>p s. fst (SendHeads env now p ctx s)) ps s"

definition SyncRound :: "svc_env \<Rightarrow> gotime \<Rightarrow> Peer list \<Rightarrow> string \<Rightarrow> Service \<Rightarrow> Service" where
  "SyncRound env now candidates syncContext s =
     (let (s1, ps) = SelectPeers env candidates now s;
          s2 = sendHeadsTo env now syncContext ps s1;
          cover = CoverPeers (Privacy (opts s2))
      in if cover > 0 \<and> length candidates > length ps
         then let extras = filter (\<lambda>c. peID c \<notin> peID ` set ps) candidates; (s3, sh) = shuffled env extras s2
              in sendHeadsTo env now syncContext (take (nat cover) sh) s3
         else s2)"

end
