(* ===== verification/Ledger_Signed.thy ===== *)
theory Ledger_Signed
  imports Ledger_Sync
begin

text \<open>
  Signatures of what a ledger stores: every way of adding an event, the evidence and the attestations that the ledger records itself included, only adds events whose
  signature verifies under the key of their author, and the optimised application of a message keeps this with a cache of verified events.
\<close>

section \<open>Ledgers of signed events\<close>

text \<open>Every event that the second ledger has and the first has not is signed by its author.\<close>

definition adds_signed :: "ledger_env \<Rightarrow> Ledger \<Rightarrow> Ledger \<Rightarrow> bool" where
  "adds_signed env l l' \<longleftrightarrow> extends env l l' \<and> (\<forall>e \<in> stored l'. e \<in> stored l \<or> checkSig env e)"

lemma adds_refl [simp]: "adds_signed env l l"
  by (simp add: adds_signed_def)

lemma adds_trans: "adds_signed env l l' \<Longrightarrow> adds_signed env l' l'' \<Longrightarrow> adds_signed env l l''"
  unfolding adds_signed_def by (meson extends_trans)

lemma Validate_checkSig: "Validate env e = Inr () \<Longrightarrow> checkSig env e"
  by (auto simp: Validate_split Verify_Inr checkSig_def)

lemma policy_checkSig: "validateWithPolicy env now p e = Inr () \<Longrightarrow> checkSig env e \<and> identified env e"
  using Validate_checkSig Validate_identified validateWithPolicy_valid by blast

lemma addLocked_adds: "checkSig env ev \<Longrightarrow> identified env ev \<Longrightarrow> addLocked env r ev l = Inr l' \<Longrightarrow> adds_signed env l l'"
  using addLocked_extends addLocked_stored[of env r ev l l'] by (auto simp: adds_signed_def)

lemma marked_adds: "adds_signed env l (l\<lparr>compromised := List.insert k (List.insert k' (compromised l))\<rparr>)"
  using extends_marked(2)[of env l k k'] by (simp add: adds_signed_def stored_def)

lemma recordEvent_adds: "adds_signed env l (recordEvent env now p built l)"
  by (auto simp: recordEvent_def split: sum.splits intro: addLocked_adds dest: policy_checkSig)

lemma autoWitness_adds: "adds_signed env l (autoWitnessAfterApplyLocked env now p observer ctx ev l)"
proof -
  have "adds_signed env l (autoAttest env now p ob c ev l)" for ob c l by (simp add: autoAttest_def recordEvent_adds)
  moreover have "adds_signed env l (autoCheckpoint env now p ob c ev l)" for ob c l
    by (simp add: autoCheckpoint_def recordEvent_adds split: prod.split)
  ultimately have "adds_signed env l (autoCheckpoint env now p ob c ev (autoAttest env now p ob c ev l))" for ob c
    by (rule adds_trans)
  then show ?thesis by (simp add: autoWitnessAfterApplyLocked_def Let_def split: option.split)
qed

lemma equivocate_adds: "adds_signed env l (fst (equivocate env now p observer existing ev l))"
  by (auto simp: equivocate_def Let_def split: option.split intro: marked_adds adds_trans[OF marked_adds recordEvent_adds])

lemma checkedAdd_adds: "checkSig env ev \<Longrightarrow> identified env ev \<Longrightarrow> adds_signed env l (fst (checkedAdd env now ctx p observer ev l))"
  by (auto simp: checkedAdd_def split: option.split sum.split dest: addLocked_adds intro: adds_trans[OF _ autoWitness_adds])

lemma applyLocked_adds: "checkSig env ev \<Longrightarrow> identified env ev \<Longrightarrow> adds_signed env l (fst (applyLocked env now ctx p observer ev l))"
  by (auto simp: applyLocked_def split: option.split intro: equivocate_adds checkedAdd_adds)

lemma recordReplay_adds: "adds_signed env l (recordReplay env now ctx p observer err ev l)"
  by (auto simp: recordReplay_def recordEvent_adds split: option.split)

lemma ApplyVerified_adds: "checkSig env ev \<Longrightarrow> adds_signed env l (fst (ApplyVerifiedWithContext env now ctx pol observer ev l))"
  by (auto simp: ApplyVerifiedWithContext_def Let_def recordReplay_adds validateWithPolicyNoCrypto_def identified_def
      split: sum.split if_splits intro!: applyLocked_adds)

lemma emit_adds: "adds_signed env l (fst (emit env now p built l))"
  by (auto simp: emit_def split: sum.split intro: addLocked_adds dest: policy_checkSig)

lemma withObserver_adds: "(\<And>ob l. adds_signed env l (fst (f ob l))) \<Longrightarrow> adds_signed env l (fst (withObserver observer f l))"
  by (simp add: withObserver_def split: option.split sum.split)

lemma EmitSybil_adds: "adds_signed env l (fst (EmitSybilMisbehavior env now ctx ps reason pol observer l))"
  unfolding EmitSybilMisbehavior_def by (intro withObserver_adds emit_adds)

text \<open>A mark that lets an event pass means that its signature verifies, when the cache holds verified events only.\<close>

definition marks_ok :: "ledger_env \<Rightarrow> (Event \<times> mark) list \<Rightarrow> bool" where
  "marks_ok env ms \<longleftrightarrow> (\<forall>(ev, m) \<in> set ms. m \<noteq> Skip \<longrightarrow> ID ev = EncodeToString (unsignedHash env ev) \<and> (m = CacheHit \<longrightarrow> checkSig env ev))"

lemma addMark_cases: "fst (addMark ev m r) = fst r" "snd (addMark ev m r) = (case snd r of Inl e \<Rightarrow> Inl e | Inr (ms, rep) \<Rightarrow> Inr ((ev, m) # ms, rep))"
  by (cases r; cases "snd r"; auto simp: addMark_def)+

definition loop_ok :: "ledger_env \<Rightarrow> VerifiedEventCache option \<times> (ledger_error \<times> ApplyReport + (Event \<times> mark) list \<times> ApplyReport) \<Rightarrow> bool" where
  "loop_ok env r \<longleftrightarrow> pred_option (cache_sound env) (fst r) \<and> (\<forall>ms rep. snd r = Inr (ms, rep) \<longrightarrow> marks_ok env ms)"

lemma loop_add: "loop_ok env r \<Longrightarrow> m \<noteq> Skip \<Longrightarrow> ID ev = EncodeToString (unsignedHash env ev) \<Longrightarrow> (m = CacheHit \<Longrightarrow> checkSig env ev) \<Longrightarrow> loop_ok env (addMark ev m r)"
    "loop_ok env r \<Longrightarrow> loop_ok env (addMark ev Skip r)"
  by (auto simp: loop_ok_def addMark_cases marks_ok_def split: sum.splits)

lemma markLoop_ok: "pred_option (cache_sound env) cache \<Longrightarrow> loop_ok env (markLoop env jsonLen now p meb mmb l evs used seen rep cache)"
proof (induction evs arbitrary: used seen rep cache)
  case Nil
  then show ?case by (simp add: loop_ok_def marks_ok_def)
next
  case (Cons ev evs)
  have stop: "loop_ok env (cache, Inl e)" for e using Cons.prems by (simp add: loop_ok_def)
  have skip: "loop_ok env (addMark ev Skip (markLoop env jsonLen now p meb mmb l evs u sn r cache))" for u sn r
    using Cons.IH[OF Cons.prems] by (rule loop_add(2))
  have pass: "loop_ok env (addMark ev (if hit then CacheHit else Task) (markLoop env jsonLen now p meb mmb l evs u sn r c))"
    if v: "validateWithPolicyNoCrypto env now p ev = Inr h" "ID ev = EncodeToString h" "matchOpt ev now cache = (c, hit)" for u sn r c hit h
  proof -
    obtain pub where h: "h = unsignedHash env ev" "AuthorPublicKey ev = Inr pub" using NoCrypto_hash[OF v(1)] by blast
    then have "hit \<Longrightarrow> checkSig env ev" using matchOpt_sound(2)[OF Cons.prems v(3)] v(2) by blast
    then show ?thesis using v(2) h Cons.IH[OF matchOpt_sound(1)[OF Cons.prems v(3)]] by (intro loop_add(1)) (auto split: if_splits)
  qed
  show ?case
    using stop skip pass[where hit = True] pass[where hit = False]
    by (simp add: Let_def split: sum.split prod.split bool.split)
qed

lemma verified_mark: "marks_ok env ms \<Longrightarrow> x \<in> set ms \<Longrightarrow> snd x \<noteq> Skip \<Longrightarrow> verifiedMark env x \<Longrightarrow> verifiedEvent env (fst x)"
  by (fastforce simp: marks_ok_def verifiedMark_def verifiedEvent_def)


lemma fold_marked_adds:
  "marks_ok env ms \<Longrightarrow> adds_signed env (fst st) (fst (fold (applyMarked env now ctx pol ob) ms st))"
proof (induction ms arbitrary: st)
  case (Cons x ms)
  have "adds_signed env (fst st) (fst (applyMarked env now ctx pol ob x st))"
    using verified_mark[OF Cons.prems, of x] ApplyVerified_adds[of env "fst x" "fst st" now ctx pol ob]
    by (cases x; cases st) (auto simp: fst_applyMarked verifiedEvent_def)
  moreover have "marks_ok env ms" using Cons.prems by (simp add: marks_ok_def)
  ultimately show ?case using Cons.IH adds_trans by fastforce
qed simp

lemma fold_put_sound: "pred_option (cache_sound env) c \<Longrightarrow> \<forall>ev \<in> set evs. verifiedEvent env ev \<Longrightarrow> pred_option (cache_sound env) (fold (putOpt now) evs c)"
proof (induction evs arbitrary: c)
  case (Cons ev evs)
  have "pred_option (cache_sound env) (putOpt now ev c)" using Cons.prems cachePut_sound by (cases c) (simp_all add: putOpt_def)
  then show ?case using Cons.IH Cons.prems(2) by simp
qed simp

lemma optimised_adds:
  assumes sound: "cache_sound env c" and sched: "\<forall>xs. set (sched xs) \<subseteq> set xs"
    and r: "ApplyEventsMessageBoundedOptimized env jsonLen sched now msg ctx pol ob n meb mmb (Some c) l = (l', c', res)"
  shows "adds_signed env l l' \<and> pred_option (cache_sound env) c'"
proof -
  let ?r = "markLoop env jsonLen now (policyOr pol) (orDefault meb (256 * 1024)) (orDefault mmb (1024 * 1024)) l (orderEvents (emEvents msg)) 0 [] noReport (Some c)"
  have loop: "loop_ok env ?r" using sound by (intro markLoop_ok) simp
  consider (err) "l' = l" "c' = Some c" | (marked) e where "snd ?r = Inl e" "l' = l" "c' = fst ?r"
    | (done1) ms rep where "snd ?r = Inr (ms, rep)" "l' = fst (fold (applyMarked env now ctx pol ob) ms (l, rep))"
        "c' = fold (putOpt now) (sched (map fst (filter (\<lambda>(ev, m). m = Task \<and> checkSig env ev) ms))) (fst ?r)"
    using r by (cases ?r; cases "snd ?r") (auto simp: ApplyEventsMessageBoundedOptimized_def Let_def split: if_splits prod.splits)
  then show ?thesis
  proof cases
    case err
    then show ?thesis using sound by simp
  next
    case marked
    then show ?thesis using loop by (simp add: loop_ok_def)
  next
    case done1
    then have ms: "marks_ok env ms" using loop by (simp add: loop_ok_def)
    have "\<forall>ev \<in> set (map fst (filter (\<lambda>(ev, m). m = Task \<and> checkSig env ev) ms)). verifiedEvent env ev"
      using ms by (fastforce simp: marks_ok_def verifiedEvent_def)
    then have v: "\<forall>ev \<in> set (sched (map fst (filter (\<lambda>(ev, m). m = Task \<and> checkSig env ev) ms))). verifiedEvent env ev"
      using sched by blast
    have "pred_option (cache_sound env) c'" unfolding done1(3) by (rule fold_put_sound[OF _ v]) (use loop in \<open>simp add: loop_ok_def\<close>)
    then show ?thesis using fold_marked_adds[OF ms, of "(l, rep)" now ctx pol ob] done1(2) by simp
  qed
qed

end
