(* ===== verification/Sync_Safety.thy ===== *)
theory Sync_Safety
  imports Sync_Service Ledger_Signed
begin

text \<open>
  What the synchronisation service guarantees: whatever arrives, the ledger keeps its invariant and only grows by events with verified signatures, the scheduler,
  the security layer and the cache keep theirs; the limits of a round and of the inbound traffic of a peer; what happens to deferred messages.
\<close>

section \<open>The invariant\<close>

definition svc_ok :: "svc_env \<Rightarrow> Service \<Rightarrow> bool" where
  "svc_ok env s \<longleftrightarrow> sched_ok (scheduler s) \<and> groups_ok (security s) \<and> ledger_ok (svLedger env) (ledger s) \<and> cache_sound (svLedger env) (verifyCache s) \<and>
     (\<forall>e \<in> stored (ledger s). checkSig (svLedger env) e) \<and> distinct (map fst (peers s))"

text \<open>One state of the service may follow another: the configuration is the same, and the invariant is kept while the ledger only grows.\<close>

definition svc_next :: "svc_env \<Rightarrow> Service \<Rightarrow> Service \<Rightarrow> bool" where
  "svc_next env s s' \<longleftrightarrow> opts s' = opts s \<and> observer s' = observer s \<and> svPolicy s' = svPolicy s \<and> crypto s' = crypto s \<and>
     (svc_ok env s \<longrightarrow> svc_ok env s' \<and> adds_signed (svLedger env) (ledger s) (ledger s'))"

named_theorems svc_intro

lemma next_refl [simp, svc_intro]: "svc_next env s s"
  by (simp add: svc_next_def)

lemma next_trans: "svc_next env s s' \<Longrightarrow> svc_next env s' s'' \<Longrightarrow> svc_next env s s''"
  unfolding svc_next_def by (metis adds_trans)

lemma next_peer: "svc_next env s (setPeer i ps s)"
  by (auto simp: svc_next_def svc_ok_def setPeer_def distinct_update)

lemma next_security: "(groups_ok (security s) \<Longrightarrow> groups_ok sec) \<Longrightarrow> svc_next env s (s\<lparr>security := sec\<rparr>)"
  by (auto simp: svc_next_def svc_ok_def)

lemma next_scheduler: "(sched_ok (scheduler s) \<Longrightarrow> sched_ok sc) \<Longrightarrow> svc_next env s (s\<lparr>scheduler := sc\<rparr>)"
  by (auto simp: svc_next_def svc_ok_def)

lemma next_frames: "svc_next env s (s\<lparr>stats := st\<rparr>)" "svc_next env s (s\<lparr>randCalls := n\<rparr>)" "svc_next env s (s\<lparr>sent := xs\<rparr>)"
  by (auto simp: svc_next_def svc_ok_def)

lemma next_ledger:
  assumes "svc_ok env s \<Longrightarrow> adds_signed (svLedger env) (ledger s) l \<and> cache_sound (svLedger env) c"
  shows "svc_next env s (s\<lparr>ledger := l, verifyCache := c\<rparr>)"
  using assms by (auto simp: svc_next_def svc_ok_def adds_signed_def extends_def)

text \<open>The same facts as rules that extend a chain of states.\<close>

lemma chain_peer [svc_intro]: "svc_next env s0 s \<Longrightarrow> svc_next env s0 (setPeer i ps s)"
  using next_trans next_peer by blast

lemma chain_stats [svc_intro]: "svc_next env s0 s \<Longrightarrow> svc_next env s0 (rejected_by n s)" "svc_next env s0 s \<Longrightarrow> svc_next env s0 (duplicate_by n s)"
    "svc_next env s0 s \<Longrightarrow> svc_next env s0 (deferred_once s)" "svc_next env s0 s \<Longrightarrow> svc_next env s0 (quarantined_once s)"
    "svc_next env s0 s \<Longrightarrow> svc_next env s0 (drawn k s)" "svc_next env s0 s \<Longrightarrow> svc_next env s0 (s\<lparr>sent := xs\<rparr>)"
  unfolding rejected_by_def duplicate_by_def deferred_once_def quarantined_once_def drawn_def using next_trans next_frames by blast+

lemma chain_security: "svc_next env s0 s \<Longrightarrow> (groups_ok (security s) \<Longrightarrow> groups_ok sec) \<Longrightarrow> svc_next env s0 (s\<lparr>security := sec\<rparr>)"
  using next_trans next_security by blast

lemma groups_steps:
  "groups_ok x \<Longrightarrow> groups_ok (SetPeerRole i r now x)" "groups_ok x \<Longrightarrow> groups_ok (fst (TrustTierOf i now x))"
  "groups_ok x \<Longrightarrow> groups_ok (fst (ObserveInbound i r t n now x))" "groups_ok x \<Longrightarrow> groups_ok (fst (ObserveInventory sha i r m now x))"
  "groups_ok x \<Longrightarrow> groups_ok (fst (ObserveWant i r w now x))" "groups_ok x \<Longrightarrow> groups_ok (ObserveApplyReport i r rep now x)"
  "groups_ok x \<Longrightarrow> groups_ok (fst (PeerPriority i r a now x))" "groups_ok x \<Longrightarrow> groups_ok (fst (PeerClusterKey i now x))"
  "groups_ok x \<Longrightarrow> groups_ok (fst (InventoryClusterPeers sha m now x))"
  using sec_step_groups[of x sha "(now, OpSetPeerRole i r)"] sec_step_groups[of x sha "(now, OpTrustTier i)"]
    sec_step_groups[of x sha "(now, OpObserveInbound i r t n)"] sec_step_groups[of x sha "(now, OpObserveInventory i r m)"]
    sec_step_groups[of x sha "(now, OpObserveWant i r w)"] sec_step_groups[of x sha "(now, OpObserveApplyReport i r rep)"]
    sec_step_groups[of x sha "(now, OpPeerPriority i r a)"] sec_step_groups[of x sha "(now, OpPeerClusterKey i)"]
    sec_step_groups[of x sha "(now, OpInventoryClusterPeers m)"]
  by simp_all

lemma security_frame [simp]: "security (setPeer i ps s) = security s"
  by (simp add: setPeer_def)

lemma chain_tier: "svc_next env s0 s \<Longrightarrow> svc_next env s0 (s\<lparr>security := fst (TrustTierOf i now (security s))\<rparr>)"
    "svc_next env s0 s \<Longrightarrow> svc_next env s0 (s\<lparr>security := ObserveApplyReport i r rep now (security s)\<rparr>)"
  by (auto intro: chain_security groups_steps)

lemma chain_peers [svc_intro]:
  "svc_next env s0 s \<Longrightarrow> svc_next env s0 (TouchPeer i now s)" "svc_next env s0 s \<Longrightarrow> svc_next env s0 (notePeerMeshPub i pub now s)"
  "svc_next env s0 s \<Longrightarrow> svc_next env s0 (setPeerRole i r now s)" "svc_next env s0 s \<Longrightarrow> svc_next env s0 (fst (allowInbound i sz now s))"
  "svc_next env s0 s \<Longrightarrow> svc_next env s0 (fst (seenMsg env2 i mid now s))" "svc_next env s0 s \<Longrightarrow> svc_next env s0 (fst (alreadySeenMsg i mid now s))"
  by (auto simp: TouchPeer_def notePeerMeshPub_def setPeerRole_def allowInbound_def seenMsg_def alreadySeenMsg_def Let_def
      intro!: svc_intro chain_security groups_steps)

lemma chain_if: "(b \<Longrightarrow> svc_next env s0 x) \<Longrightarrow> (\<not> b \<Longrightarrow> svc_next env s0 y) \<Longrightarrow> svc_next env s0 (if b then x else y)"
  by simp

lemma chain_padded: "svc_next env s0 s \<Longrightarrow> svc_next env s0 (fst (padded env2 pt s))"
  by (simp add: padded_def Let_def svc_intro)

lemma sendMesh_fst: "\<exists>xs. fst (sendMesh env p pt s) = (drawn 1 (fst (padded env pt (if OutboundDelayMax (Privacy (opts s)) > 0 then drawn 1 s else s))))\<lparr>sent := xs\<rparr>"
proof -
  let ?s = "fst (padded env pt (if OutboundDelayMax (Privacy (opts s)) > 0 then drawn 1 s else s))"
  have "drawn 1 ?s = (drawn 1 ?s)\<lparr>sent := sent ?s\<rparr>" by (simp add: drawn_def)
  then show ?thesis unfolding sendMesh_def Let_def case_prod_unfold by (auto split: sum.split)
qed

lemma chain_send [svc_intro]: "svc_next env s0 s \<Longrightarrow> svc_next env s0 (fst (sendMesh env2 p pt s))"
proof -
  assume a: "svc_next env s0 s"
  obtain xs where e: "fst (sendMesh env2 p pt s) = (drawn 1 (fst (padded env2 pt (if OutboundDelayMax (Privacy (opts s)) > 0 then drawn 1 s else s))))\<lparr>sent := xs\<rparr>"
    using sendMesh_fst by blast
  show ?thesis unfolding e by (intro chain_stats chain_padded chain_if a)
qed

lemma chain_session [svc_intro]: "svc_next env s0 s \<Longrightarrow> svc_next env s0 (fst (newSessionID env2 s))"
  by (simp add: newSessionID_def svc_intro)

lemma case_result_fst: "fst (case r of (s, Inl e) \<Rightarrow> (s, Inl e) | (s, Inr x) \<Rightarrow> (s, Inr (f x))) = fst r"
  by (simp split: prod.split sum.split)

lemma chain_heads [svc_intro]: "svc_next env s0 s \<Longrightarrow> svc_next env s0 (fst (SendHeads env2 now p ctx s))"
  using chain_session[of env s0 s env2]
  by (cases "newSessionID env2 s"; cases "snd (newSessionID env2 s)") (simp_all add: SendHeads_def Let_def case_result_fst svc_intro)


section \<open>Every operation keeps the invariant\<close>

lemma chain_fold: "svc_next env s0 s \<Longrightarrow> (\<And>x s. svc_next env s0 s \<Longrightarrow> svc_next env s0 (f x s)) \<Longrightarrow> svc_next env s0 (fold f xs s)"
  by (induction xs arbitrary: s) simp_all

lemma chain_sendAll [svc_intro]: "svc_next env s0 s \<Longrightarrow> svc_next env s0 (sendAll env2 pt ps s)"
  unfolding sendAll_def by (rule chain_fold) (auto intro: chain_send)

lemma chain_sendHeadsTo [svc_intro]: "svc_next env s0 s \<Longrightarrow> svc_next env s0 (sendHeadsTo env2 now ctx ps s)"
  unfolding sendHeadsTo_def by (rule chain_fold) (auto intro: chain_heads)

lemma chain_broadcast: "svc_next env s0 s \<Longrightarrow> broadcastObserverEvents env2 ctx a b s = Some s' \<Longrightarrow> svc_next env s0 s'"
  using chain_session[of env s0 s env2]
  by (cases "newSessionID env2 s")
    (auto simp: broadcastObserverEvents_def Let_def intro: chain_sendAll split: option.splits if_splits)

lemma chain_countRejected [svc_intro]: "svc_next env s0 s \<Longrightarrow> svc_next env s0 (countRejected i now s)"
  unfolding countRejected_def Let_def case_prod_unfold by (intro chain_if chain_stats chain_tier)

lemma chain_noteReport [svc_intro]: "svc_next env s0 s \<Longrightarrow> svc_next env s0 (noteReport now it rp s)"
  unfolding noteReport_def Let_def case_prod_unfold by (intro chain_tier chain_if chain_stats)

abbreviation orders_ok :: "svc_env \<Rightarrow> bool" where
  "orders_ok env \<equiv> \<forall>xs. set (svSched env xs) \<subseteq> set xs"

lemma chain_drainItem:
  assumes "svc_next env s0 s" "orders_ok env" "drainItem env now it s = Some (s', rp)"
  shows "svc_next env s0 s'"
proof -
  let ?m = "MaxEventsMessageBytes (opts s)"
  obtain l' c res where app: "ApplyEventsMessageBoundedOptimized (svLedger env) (svJsonLen env) (svSched env) now (siMsg it) (siContext it) (svPolicy s)
      (observer s) (oMaxEvents (opts s)) (MaxEventBytes (opts s)) (if siMaxMessageBytes it > 0 \<and> siMaxMessageBytes it < ?m then siMaxMessageBytes it else ?m)
      (Some (verifyCache s)) (ledger s) = (l', c, res)" by (metis prod_cases3)
  let ?s = "s\<lparr>ledger := l', verifyCache := (case c of None \<Rightarrow> verifyCache s | Some c \<Rightarrow> c)\<rparr>"
  have "svc_next env s ?s"
  proof (rule next_ledger)
    assume ok: "svc_ok env s"
    from optimised_adds[OF _ assms(2) app] ok show "adds_signed (svLedger env) (ledger s) l' \<and>
        cache_sound (svLedger env) (case c of None \<Rightarrow> verifyCache s | Some c \<Rightarrow> c)" by (auto simp: svc_ok_def split: option.split)
  qed
  then have chain: "svc_next env s0 ?s" using assms(1) next_trans by blast
  from assms(3) obtain s3 where "s3 = ?s \<or> (\<exists>ctx a b. broadcastObserverEvents env ctx a b ?s = Some s3)" "s' = noteReport now it rp s3"
    unfolding drainItem_def Let_def app prod.case by (auto split: if_splits)
  then show ?thesis using chain chain_broadcast chain_noteReport by metis
qed

lemma chain_drainLoop:
  "svc_next env s0 s \<Longrightarrow> orders_ok env \<Longrightarrow> drainLoop env now n s rep = Some (s', rep') \<Longrightarrow> svc_next env s0 s'"
proof (induction n arbitrary: s rep)
  case (Suc n)
  obtain sc out where nx: "Next (scheduler s) = (sc, out)" by fastforce
  have "svc_next env s (s\<lparr>scheduler := sc\<rparr>)" using Next_ok[of "scheduler s"] nx by (intro next_scheduler) simp
  then have c: "svc_next env s0 (s\<lparr>scheduler := sc\<rparr>)" using Suc.prems(1) next_trans by blast
  show ?case
  proof (cases out)
    case None
    then show ?thesis using Suc.prems(3) nx c by simp
  next
    case (Some it)
    then obtain s1 rp where "drainItem env now it (s\<lparr>scheduler := sc\<rparr>) = Some (s1, rp)" "drainLoop env now n s1 (addReport rep rp) = Some (s', rep')"
      using Suc.prems(3) nx by (auto split: option.splits)
    then show ?thesis using Suc.IH chain_drainItem[OF c Suc.prems(2)] Suc.prems(2) by blast
  qed
qed simp

lemma chain_drain: "svc_next env s0 s \<Longrightarrow> orders_ok env \<Longrightarrow> drainInbound env now mx s = Some (s', rep) \<Longrightarrow> svc_next env s0 s'"
  by (auto simp: drainInbound_def intro: chain_drainLoop split: if_splits)


definition svc_opt :: "svc_env \<Rightarrow> Service \<Rightarrow> (Service \<times> 'a) option \<Rightarrow> bool" where
  "svc_opt env s0 r \<longleftrightarrow> (\<forall>s' x. r = Some (s', x) \<longrightarrow> svc_next env s0 s')"

lemma opt_Some: "svc_next env s0 s \<Longrightarrow> svc_opt env s0 (Some (s, x))"
  by (simp add: svc_opt_def)

lemma opt_None: "svc_opt env s0 None"
  by (simp add: svc_opt_def)

lemma opt_markSeen: "svc_next env s0 s \<Longrightarrow> svc_opt env s0 (markSeen env2 i mid now s)"
  unfolding markSeen_def by (intro opt_Some chain_peers)

lemma opt_if: "(b \<Longrightarrow> svc_opt env s0 x) \<Longrightarrow> (\<not> b \<Longrightarrow> svc_opt env s0 y) \<Longrightarrow> svc_opt env s0 (if b then x else y)"
  by simp

lemma opt_option: "svc_opt env s0 x \<Longrightarrow> (\<And>a. svc_opt env s0 (f a)) \<Longrightarrow> svc_opt env s0 (case r of None \<Rightarrow> x | Some a \<Rightarrow> f a)"
  by (simp split: option.split)

lemma opt_decision: "svc_opt env s0 a \<Longrightarrow> svc_opt env s0 b \<Longrightarrow> svc_opt env s0 c \<Longrightarrow>
    svc_opt env s0 (case d of DecisionReject \<Rightarrow> a | DecisionDefer \<Rightarrow> b | DecisionAccept \<Rightarrow> c)"
  by (cases d) simp_all

lemma opt_replyTo: "svc_next env s0 s \<Longrightarrow> svc_opt env s0 (replyTo env2 from mid now t w body s)"
proof -
  assume a: "svc_next env s0 s"
  let ?r = "sendMesh env2 from (encodeWire (svWire env2) t (wSession w) (wContext w) body) s"
  have "svc_next env s0 (fst ?r)" by (rule chain_send[OF a])
  then show ?thesis unfolding replyTo_def by (cases ?r; cases "snd ?r") (auto intro: opt_Some opt_markSeen)
qed

lemmas opt_rules = opt_Some opt_None opt_markSeen opt_if opt_option opt_decision opt_replyTo

lemma chain_sampled: "svc_next env s0 s \<Longrightarrow> svc_next env s0 (fst (sampled env2 ids k s))"
  by (simp add: sampled_def svc_intro)

lemma chain_shuffled: "svc_next env s0 s \<Longrightarrow> svc_next env s0 (fst (shuffled env2 xs s))"
  by (simp add: shuffled_def svc_intro)

lemma chain_wantIDs: "svc_next env s0 s \<Longrightarrow> svc_next env s0 (fst (wantIDs env2 m s))"
  by (simp add: wantIDs_def wantSample_def wantNoise_def Let_def case_prod_unfold chain_sampled chain_shuffled)

lemma opt_heads: "svc_next env s0 s \<Longrightarrow> svc_opt env s0 (handleHeads env2 now from mid w s)"
  unfolding handleHeads_def Let_def case_prod_unfold if_distrib[of fst] fst_conv by (intro opt_rules chain_if chain_sampled)

lemma chain_reportCluster: "svc_next env s0 s \<Longrightarrow> svc_next env s0 (reportCluster env now ctx m s)"
proof -
  assume a: "svc_next env s0 s"
  let ?s = "s\<lparr>security := fst (InventoryClusterPeers (leSha (svLedger env)) m now (security s))\<rparr>"
  have "svc_next env s0 ?s" by (rule chain_security[OF a]) (rule groups_steps)
  moreover have "svc_next env ?s (?s\<lparr>ledger := l\<rparr>)" if "adds_signed (svLedger env) (ledger s) l" for l
    using next_ledger[of env ?s l "verifyCache s"] that by (simp add: svc_ok_def)
  ultimately have "svc_next env s0 (?s\<lparr>ledger := l\<rparr>)" if "adds_signed (svLedger env) (ledger s) l" for l using that next_trans by blast
  then show ?thesis using a \<open>svc_next env s0 ?s\<close> EmitSybil_adds unfolding reportCluster_def Let_def case_prod_unfold by simp
qed

lemma chain_observe: "svc_next env s0 s \<Longrightarrow> svc_next env s0 (s\<lparr>security := fst (ObserveInbound i r t n now (security s))\<rparr>)"
    "svc_next env s0 s \<Longrightarrow> svc_next env s0 (s\<lparr>security := fst (ObserveInventory sha i r m now (security s))\<rparr>)"
    "svc_next env s0 s \<Longrightarrow> svc_next env s0 (s\<lparr>security := fst (ObserveWant i r wm now (security s))\<rparr>)"
    "svc_next env s0 s \<Longrightarrow> svc_next env s0 (s\<lparr>security := fst (PeerPriority i r a now (security s))\<rparr>)"
    "svc_next env s0 s \<Longrightarrow> svc_next env s0 (s\<lparr>security := fst (PeerClusterKey i now (security s))\<rparr>)"
  by (auto intro: chain_security groups_steps)

lemma opt_inv: "svc_next env s0 s \<Longrightarrow> svc_opt env s0 (handleInv env now from mid w s)"
  unfolding handleInv_def Let_def case_prod_unfold
  by (intro opt_rules chain_wantIDs chain_observe chain_countRejected chain_stats chain_reportCluster)

lemma opt_want: "svc_next env s0 s \<Longrightarrow> svc_opt env s0 (handleWant env2 now from mid w s)"
  unfolding handleWant_def Let_def case_prod_unfold
  by (intro opt_rules chain_observe chain_countRejected chain_stats)

lemma chain_enqueue: "svc_next env s0 s \<Longrightarrow> svc_next env s0 (fst (enqueueEvents i r ctx em s))"
proof -
  have one: "svc_next env s0 (fst st) \<Longrightarrow> svc_next env s0 (fst (enqueueClass i r ctx em c st))" for c st
  proof -
    assume a: "svc_next env s0 (fst st)"
    have "svc_next env (fst st) ((fst st)\<lparr>scheduler := fst (Enqueue i c it (scheduler (fst st)))\<rparr>)" for it
      by (rule next_scheduler) (rule Enqueue_ok)
    then have "svc_next env s0 ((fst st)\<lparr>scheduler := fst (Enqueue i c it (scheduler (fst st)))\<rparr>)" for it using a next_trans by blast
    then show ?thesis using a unfolding enqueueClass_def Let_def case_prod_unfold by simp
  qed
  show "svc_next env s0 s \<Longrightarrow> ?thesis" unfolding enqueueEvents_def by (simp add: one)
qed

lemma chain_dropped: "svc_next env s0 s \<Longrightarrow> svc_next env s0 (countDropped n s)"
  by (simp add: countDropped_def svc_intro)

lemma opt_drain:
  assumes "svc_next env s0 s" "orders_ok env" "\<And>s2 rep. svc_next env s0 s2 \<Longrightarrow> svc_opt env s0 (f (s2, rep))"
  shows "svc_opt env s0 (case drainInbound env now mx s of None \<Rightarrow> None | Some p \<Rightarrow> f p)"
proof (cases "drainInbound env now mx s")
  case None
  then show ?thesis by (simp add: opt_None)
next
  case (Some p)
  then have "svc_next env s0 (fst p)" using chain_drain[OF assms(1,2), of now mx "fst p" "snd p"] by simp
  then show ?thesis using assms(3)[of "fst p" "snd p"] Some by simp
qed

lemma opt_events: "svc_next env s0 s \<Longrightarrow> orders_ok env \<Longrightarrow> svc_opt env s0 (handleEvents env now from mid w s)"
  unfolding handleEvents_def Let_def case_prod_unfold
  by (intro opt_drain opt_rules chain_enqueue chain_dropped chain_stats) simp_all

lemma opt_wire: "svc_next env s0 s \<Longrightarrow> orders_ok env \<Longrightarrow> svc_opt env s0 (handleWire env now from mid w s)"
  unfolding handleWire_def by (intro opt_if opt_heads opt_inv opt_want opt_events opt_markSeen)

lemma opt_sum: "(\<And>a. svc_opt env s0 (f a)) \<Longrightarrow> (\<And>b. svc_opt env s0 (g b)) \<Longrightarrow> svc_opt env s0 (case r of Inl a \<Rightarrow> f a | Inr b \<Rightarrow> g b)"
  by (simp split: sum.split)

lemma opt_ReceiveOnce: "orders_ok env \<Longrightarrow> svc_opt env s (ReceiveOnce env now raw s)"
  unfolding ReceiveOnce_def Let_def case_prod_unfold
  by (intro opt_wire opt_sum opt_rules chain_observe chain_countRejected chain_stats chain_peers next_refl)

lemma opt_TryApply: "orders_ok env \<Longrightarrow> svc_opt env s (TryApplyWirePlaintext env now i pt s)"
proof -
  assume a: "orders_ok env"
  have d: "svc_opt env s (map_option (\<lambda>(s7, rep). (s7, x, f rep)) (drainInbound env now mx t))" if "svc_next env s t" for t mx x and f :: "ApplyReport \<Rightarrow> ApplyReport"
    using chain_drain[OF that a] by (auto simp: svc_opt_def)
  show ?thesis
    unfolding TryApplyWirePlaintext_def Let_def case_prod_unfold
    by (intro d[unfolded case_prod_unfold] opt_rules chain_enqueue chain_dropped chain_observe chain_countRejected chain_stats chain_peers next_refl)
qed


lemma chain_fold_fst: "svc_next env s0 (fst st) \<Longrightarrow> (\<And>x st. svc_next env s0 (fst st) \<Longrightarrow> svc_next env s0 (fst (f x st))) \<Longrightarrow> svc_next env s0 (fst (fold f xs st))"
  by (induction xs arbitrary: st) simp_all

lemma chain_score: "svc_next env s0 (fst st) \<Longrightarrow> svc_next env s0 (fst (scoreCandidate now p st))"
  unfolding scoreCandidate_def Let_def case_prod_unfold if_distrib[of fst] fst_conv by (intro chain_if chain_observe)

lemma chain_tryAdd: "svc_next env s0 (fst st) \<Longrightarrow> svc_next env s0 (fst (tryAdd now p d st))"
proof -
  assume a: "svc_next env s0 (fst st)"
  have b: "svc_next env s0 ((fst st)\<lparr>security := fst (if d then PeerClusterKey (peID p) now (security (fst st)) else (security (fst st), x))\<rparr>)" for x
    using chain_observe(5)[OF a, of "peID p" now] a by simp
  show ?thesis unfolding tryAdd_def Let_def case_prod_unfold if_distrib[of fst] fst_conv
    by (intro chain_if chain_peers a b[unfolded if_distrib[of fst] fst_conv])
qed

lemma chain_pass: "svc_next env s0 (fst st) \<Longrightarrow> svc_next env s0 (fst (selectPass now n first all st))"
  unfolding selectPass_def by (rule chain_fold_fst) (auto simp: case_prod_unfold intro: chain_tryAdd)

lemma chain_swap: "svc_next env s0 (fst st) \<Longrightarrow> svc_next env s0 (fst (swapLast now rn all st))"
  unfolding swapLast_def Let_def case_prod_unfold by (auto split: option.split intro: chain_peers)

lemma chain_select: "svc_next env s0 s \<Longrightarrow> svc_next env s0 (fst (SelectPeers env2 cands now s))"
proof -
  assume "svc_next env s0 s"
  then have "svc_next env s0 (fst (fold (scoreCandidate now) cands (s, [])))" by (intro chain_fold_fst chain_score) simp_all
  then have "svc_next env s0 (fst (selectPass now n False all (selectPass now n True all (fst (fold (scoreCandidate now) cands (s, [])), sel))))" for n all sel
    by (intro chain_pass) simp
  then show ?thesis unfolding SelectPeers_def Let_def case_prod_unfold
    by (auto split: option.split intro!: chain_swap chain_stats)
qed

lemma chain_round: "svc_next env s0 s \<Longrightarrow> svc_next env s0 (SyncRound env2 now cands ctx s)"
  unfolding SyncRound_def Let_def case_prod_unfold by (intro chain_if chain_sendHeadsTo chain_shuffled chain_select)

section \<open>Histories\<close>

datatype svc_op = OpReceive gotime "bytes option" | OpTryApply gotime string bytes | OpRound gotime "Peer list" string | OpSendHeads gotime Peer string

fun svc_step :: "svc_env \<Rightarrow> svc_op \<Rightarrow> Service \<Rightarrow> Service option" where
  "svc_step env (OpReceive now raw) s = map_option fst (ReceiveOnce env now raw s)"
| "svc_step env (OpTryApply now i pt) s = map_option fst (TryApplyWirePlaintext env now i pt s)"
| "svc_step env (OpRound now cands ctx) s = Some (SyncRound env now cands ctx s)"
| "svc_step env (OpSendHeads now p ctx) s = Some (fst (SendHeads env now p ctx s))"

fun svc_run :: "svc_env \<Rightarrow> svc_op list \<Rightarrow> Service \<Rightarrow> Service option" where
  "svc_run env [] s = Some s"
| "svc_run env (x # xs) s = (case svc_step env x s of None \<Rightarrow> None | Some s1 \<Rightarrow> svc_run env xs s1)"

lemma step_next: "orders_ok env \<Longrightarrow> svc_step env x s = Some s' \<Longrightarrow> svc_next env s s'"
  using opt_ReceiveOnce[of env s] opt_TryApply[of env s] chain_round[of env s s env] chain_heads[of env s s env]
  by (cases x) (fastforce simp: svc_opt_def)+

lemma run_next: "orders_ok env \<Longrightarrow> svc_run env ops s = Some s' \<Longrightarrow> svc_next env s s'"
proof (induction ops arbitrary: s)
  case (Cons x xs)
  then obtain s1 where "svc_step env x s = Some s1" "svc_run env xs s1 = Some s'" by (auto split: option.splits)
  then show ?case using Cons next_trans step_next by blast
qed simp

lemma New_svc_ok:
  assumes "ledger_ok (svLedger env) l" "\<forall>e \<in> stored l. checkSig (svLedger env) e"
  shows "svc_ok env (NewService numCPU c l pol obs o1)"
  using assms by (simp add: svc_ok_def NewService_def Let_def New_sched_ok cache_New_sound groups_ok_def NewSecurityLayer_def)

text \<open>
  Nothing that arrives over the mesh or from a relay damages the ledger: start the service with a ledger that is intact and whose events are signed; after any
  sequence of received bytes, relayed plaintexts, rounds and sent heads, with any options, the ledger is intact, still has every event it had, unchanged, and every
  event in it carries a valid signature of its author, although signatures are taken from a cache and events pass through queues. The queues are within their limits.
\<close>

theorem service_keeps_ledger:
  fixes env :: svc_env and o1 :: Options and numCPU :: int and c :: Crypto and pol :: "Policy option" and obs :: "Observer option"
  assumes "\<forall>xs. set (svSched env xs) \<subseteq> set xs" "ledger_ok (svLedger env) l" "\<forall>e \<in> stored l. checkSig (svLedger env) e"
    and "svc_run env ops (NewService numCPU c l pol obs o1) = Some s"
  shows "ledger_ok (svLedger env) (ledger s) \<and> map_of (events l) \<subseteq>\<^sub>m map_of (events (ledger s)) \<and>
    (\<forall>e \<in> stored (ledger s). checkSig (svLedger env) e) \<and> sched_ok (scheduler s)"
proof -
  have "svc_next env (NewService numCPU c l pol obs o1) s" by (rule run_next[OF assms(1,4)])
  then have "svc_ok env s \<and> adds_signed (svLedger env) l (ledger s)"
    using New_svc_ok[OF assms(2,3), of numCPU c pol obs o1] by (simp add: svc_next_def) (simp add: NewService_def Let_def)
  then show ?thesis by (simp add: svc_ok_def adds_signed_def extends_def)
qed

section \<open>The service without an observer returns\<close>

lemma drainLoop_returns: "observer s = None \<Longrightarrow> \<exists>r. drainLoop env now n s rep = Some r"
proof (induction n arbitrary: s rep)
  case (Suc n)
  obtain sc out where nx: "Next (scheduler s) = (sc, out)" by fastforce
  have frame: "observer (noteReport now it rp t) = observer t" for it rp t
    by (simp add: noteReport_def Let_def case_prod_unfold duplicate_by_def rejected_by_def quarantined_once_def)
  show ?case
  proof (cases out)
    case (Some it)
    obtain s1 rp where "drainItem env now it (s\<lparr>scheduler := sc\<rparr>) = Some (s1, rp)" "observer s1 = None"
      using Suc.prems by (auto simp: drainItem_def Let_def case_prod_unfold frame)
    then show ?thesis using Suc.IH[of s1 "addReport rep rp"] nx Some by simp
  qed (use nx in simp)
qed simp

lemma drain_returns: "observer s = None \<Longrightarrow> \<exists>r. drainInbound env now mx s = Some r"
  using drainLoop_returns by (auto simp: drainInbound_def)


definition returns :: "Service \<Rightarrow> 'a option \<Rightarrow> bool" where
  "returns s0 r \<longleftrightarrow> (observer s0 = None \<longrightarrow> r \<noteq> None)"

lemma returns_rules:
  "returns s0 (Some x)" "returns s0 (markSeen env i mid now s)" "returns s0 (replyTo env from mid now t w body s)"
  "(b \<Longrightarrow> returns s0 p) \<Longrightarrow> (\<not> b \<Longrightarrow> returns s0 q) \<Longrightarrow> returns s0 (if b then p else q)"
  "returns s0 p \<Longrightarrow> (\<And>a. returns s0 (f a)) \<Longrightarrow> returns s0 (case r of None \<Rightarrow> p | Some a \<Rightarrow> f a)"
  "returns s0 p \<Longrightarrow> returns s0 q \<Longrightarrow> returns s0 u \<Longrightarrow> returns s0 (case d of DecisionReject \<Rightarrow> p | DecisionDefer \<Rightarrow> q | DecisionAccept \<Rightarrow> u)"
  "(\<And>a. returns s0 (g a)) \<Longrightarrow> (\<And>b. returns s0 (h b)) \<Longrightarrow> returns s0 (case e of Inl a \<Rightarrow> g a | Inr b \<Rightarrow> h b)"
  by (simp_all add: returns_def markSeen_def replyTo_def split: option.split prod.split sum.split PolicyDecision.split)

lemma returns_drain:
  assumes "svc_next env s0 s" "\<And>x. returns s0 (f x)"
  shows "returns s0 (case drainInbound env now mx s of None \<Rightarrow> None | Some x \<Rightarrow> f x)"
  using drain_returns[of s env now mx] assms by (auto simp: returns_def svc_next_def)

lemma returns_drain_map:
  assumes "svc_next env s0 s"
  shows "returns s0 (map_option f (drainInbound env now mx s))"
  using drain_returns[of s env now mx] assms by (auto simp: returns_def svc_next_def)

lemma returns_wire: "svc_next env s0 s \<Longrightarrow> returns s0 (handleWire env now from mid w s)"
  unfolding handleWire_def handleHeads_def handleInv_def handleWant_def handleEvents_def Let_def case_prod_unfold
  by (intro returns_drain returns_rules chain_enqueue chain_dropped)

lemma returns_Receive: "returns s (ReceiveOnce env now raw s)"
  unfolding ReceiveOnce_def Let_def case_prod_unfold
  by (intro returns_wire[of env] returns_rules chain_observe chain_peers next_refl)

lemma returns_TryApply: "returns s (TryApplyWirePlaintext env now i pt s)"
  unfolding TryApplyWirePlaintext_def Let_def case_prod_unfold
  by (intro returns_drain_map returns_rules chain_enqueue chain_dropped chain_observe chain_peers next_refl)



section \<open>The limits of a round\<close>

definition quar :: "gotime \<Rightarrow> SecurityLayer \<Rightarrow> string \<Rightarrow> bool" where
  "quar now sec i \<longleftrightarrow> (\<exists>t. trusts sec i = Some t \<and> isQuarantined t now)"

text \<open>A peer that must not be contacted: it exceeded its inbound limit a short time ago or it is in quarantine.\<close>

definition barred :: "gotime \<Rightarrow> Service \<Rightarrow> string \<Rightarrow> bool" where
  "barred now s i \<longleftrightarrow> (penaltyUntil (peerOf i s) \<noteq> 0 \<and> now < penaltyUntil (peerOf i s)) \<or> (\<not> noPeer i \<and> quar now (security s) i)"

lemma ensure_quar: "isQuarantined (ensurePeer i r t sec) now = quar now sec i"
  by (simp add: ensurePeer_def quar_def isQuarantined_def newTrust_def Let_def split: option.split)

lemma priority_quar: "quar now (fst (PeerPriority i r a t sec)) j = quar now sec j"
  using ensure_quar[of i r t sec now] by (auto simp: PeerPriority_def Let_def quar_def putPeer_def)

lemma priority_nonneg: "0 \<le> snd (PeerPriority i r a now sec) \<Longrightarrow> \<not> noPeer i \<Longrightarrow> \<not> quar now sec i"
  by (auto simp: PeerPriority_def Let_def ensure_quar split: if_splits)

definition scored_ok :: "gotime \<Rightarrow> Service \<Rightarrow> Service \<times> (Peer \<times> int) list \<Rightarrow> bool" where
  "scored_ok now s0 st \<longleftrightarrow> (\<forall>(p, sc) \<in> set (snd st). \<not> barred now s0 (peID p)) \<and> peers (fst st) = peers s0 \<and>
     (\<forall>j. quar now (security (fst st)) j = quar now (security s0) j)"

lemma scoreCandidate_ok:
  assumes st: "scored_ok now s0 st"
  shows "scored_ok now s0 (scoreCandidate now cand st)"
proof -
  have pen: "penaltyUntil newPeerState = 0" by (simp add: newPeerState_def)
  have known: "map_of (peers (fst st)) i = None \<Longrightarrow> penaltyUntil (peerOf i s0) = 0" for i using st by (simp add: peerOf_def pen scored_ok_def)
  have same: "peerOf i (fst st) = peerOf i s0" for i using st by (simp add: peerOf_def scored_ok_def)
  have ok: "\<not> barred now s0 i" if "\<not> (penaltyUntil (peerOf i s0) \<noteq> 0 \<and> now < penaltyUntil (peerOf i s0))"
      "\<not> snd (PeerPriority i r a now (security (fst st))) < 0" for i r a
    using that priority_nonneg[of i r a now "security (fst st)"] st by (auto simp: barred_def scored_ok_def)
  show ?thesis
    using st known ok unfolding scoreCandidate_def Let_def case_prod_unfold same scored_ok_def by (auto simp: priority_quar)
qed

lemma fold_scored: "scored_ok now s (fold (scoreCandidate now) cands (s, []))"
  by (rule fold_invariant[where Q = "\<lambda>_. True"]) (simp_all add: scoreCandidate_ok, simp add: scored_ok_def)

definition role_count :: "string \<Rightarrow> Peer list \<Rightarrow> int" where
  "role_count r ps = int (length (filter (\<lambda>p. peRole p = r) ps))"

lemma role_count_simps [simp]: "role_count r [] = 0" "role_count r (xs @ [p]) = role_count r xs + (if peRole p = r then 1 else 0)"
  by (simp_all add: role_count_def)

text \<open>What a selection keeps.\<close>

definition picks_ok :: "SecurityPolicy \<Rightarrow> Peer set \<Rightarrow> Peer list \<Rightarrow> bool" where
  "picks_ok pol cands ps \<longleftrightarrow> distinct (map peID ps) \<and> role_count PeerRoleRelay ps \<le> max 0 (MaxRelaysPerRound pol) \<and>
     role_count PeerRoleAgent ps \<le> max 0 (MaxAgentsPerRound pol) \<and> set ps \<subseteq> cands"

definition sel_ok :: "SecurityPolicy \<Rightarrow> Peer set \<Rightarrow> nat \<Rightarrow> Service \<times> selection \<Rightarrow> bool" where
  "sel_ok pol cands n st \<longleftrightarrow> policy (security (fst st)) = pol \<and> picks_ok pol cands (seOut (snd st)) \<and> set (seSelected (snd st)) = peID ` set (seOut (snd st)) \<and>
     seRelays (snd st) = role_count PeerRoleRelay (seOut (snd st)) \<and> seAgents (snd st) = role_count PeerRoleAgent (seOut (snd st)) \<and> length (seOut (snd st)) \<le> n"

lemma policy_steps [simp]: "policy (fst (PeerClusterKey i now x)) = policy x" "policy (SetPeerRole i r now x) = policy x"
  using sec_step_policy[of sha "(now, OpPeerClusterKey i)" x] sec_step_policy[of sha "(now, OpSetPeerRole i r)" x] by simp_all

lemma setPeerRole_policy [simp]: "policy (security (setPeerRole i r now s)) = policy (security s)"
  by (simp add: setPeerRole_def Let_def)

lemma tryAdd_cases:
  obtains (keep) s' where "tryAdd now p d (s, sel) = (s', sel)" "policy (security s') = policy (security s)"
  | (add) s' cs where "policy (security s') = policy (security s)" "peID p \<notin> set (seSelected sel)"
      "peRole p = PeerRoleRelay \<Longrightarrow> seRelays sel < MaxRelaysPerRound (policy (security s))"
      "peRole p = PeerRoleAgent \<Longrightarrow> seAgents sel < MaxAgentsPerRound (policy (security s))"
      "tryAdd now p d (s, sel) = (s', \<lparr>seOut = seOut sel @ [p], seRelays = (if peRole p = PeerRoleRelay then seRelays sel + 1 else seRelays sel),
         seAgents = (if peRole p = PeerRoleAgent then seAgents sel + 1 else seAgents sel), seSelected = peID p # seSelected sel, seClusters = cs\<rparr>)"
proof -
  define key where "key = (if d then PeerClusterKey (peID p) now (security s) else (security s, ''''))"
  have key: "policy (fst key) = policy (security s)" by (simp add: key_def)
  let ?r = "tryAdd now p d (s, sel)"
  have r: "?r = (if peID p \<in> set (seSelected sel) then (s, sel)
     else if peRole p = PeerRoleRelay \<and> seRelays sel \<ge> MaxRelaysPerRound (policy (security s)) then (s, sel)
     else if peRole p = PeerRoleAgent \<and> seAgents sel \<ge> MaxAgentsPerRound (policy (security s)) then (s, sel)
     else if snd key \<noteq> '''' \<and> snd key \<in> set (seClusters sel) then (s\<lparr>security := fst key\<rparr>, sel)
     else (setPeerRole (peID p) (peRole p) now (s\<lparr>security := fst key\<rparr>),
           \<lparr>seOut = seOut sel @ [p], seRelays = (if peRole p = PeerRoleRelay then seRelays sel + 1 else seRelays sel),
            seAgents = (if peRole p = PeerRoleAgent then seAgents sel + 1 else seAgents sel), seSelected = peID p # seSelected sel,
            seClusters = (if snd key \<noteq> '''' then snd key # seClusters sel else seClusters sel)\<rparr>))"
    unfolding tryAdd_def Let_def key_def case_prod_unfold by simp
  let ?A = "peID p \<in> set (seSelected sel)" and ?B = "peRole p = PeerRoleRelay \<and> seRelays sel \<ge> MaxRelaysPerRound (policy (security s))"
    and ?C = "peRole p = PeerRoleAgent \<and> seAgents sel \<ge> MaxAgentsPerRound (policy (security s))" and ?D = "snd key \<noteq> '''' \<and> snd key \<in> set (seClusters sel)"
  consider "?A \<or> ?B \<or> ?C" | "\<not> ?A" "\<not> ?B" "\<not> ?C" "?D" | "\<not> ?A" "\<not> ?B" "\<not> ?C" "\<not> ?D" by blast
  then show thesis
  proof cases
    case 1
    then have "?r = (s, sel)" unfolding r by (cases ?A; cases ?B) (simp_all only: if_True if_False simp_thms)
    then show ?thesis by (rule keep) simp
  next
    case 2
    then have "?r = (s\<lparr>security := fst key\<rparr>, sel)" unfolding r by (simp only: if_True if_False simp_thms)
    then show ?thesis by (rule keep) (simp add: key)
  next
    case 3
    show ?thesis
    proof (rule add)
      show "policy (security (setPeerRole (peID p) (peRole p) now (s\<lparr>security := fst key\<rparr>))) = policy (security s)" by (simp add: key)
      show "peRole p = PeerRoleRelay \<Longrightarrow> seRelays sel < MaxRelaysPerRound (policy (security s))" using 3(2) by linarith
      show "peRole p = PeerRoleAgent \<Longrightarrow> seAgents sel < MaxAgentsPerRound (policy (security s))" using 3(3) by linarith
    qed (use 3 in \<open>simp_all only: r if_False simp_thms not_False_eq_True\<close>)
  qed
qed

lemma tryAdd_ok:
  assumes "sel_ok pol cands n st" "p \<in> cands" "length (seOut (snd st)) < n"
  shows "sel_ok pol cands n (tryAdd now p d st)"
proof -
  obtain s sel where st: "st = (s, sel)" by (cases st)
  have pol: "policy (security s) = pol" using assms(1) by (simp add: sel_ok_def st)
  show ?thesis unfolding st
  proof (cases rule: tryAdd_cases[of now p d s sel])
    case (keep s')
    then show "sel_ok pol cands n (tryAdd now p d (s, sel))" using assms(1) by (simp add: sel_ok_def st)
  next
    case (add s' cs)
    have old: "picks_ok pol cands (seOut sel)" "seRelays sel = role_count PeerRoleRelay (seOut sel)" "seAgents sel = role_count PeerRoleAgent (seOut sel)"
      "set (seSelected sel) = peID ` set (seOut sel)" using assms(1) by (simp_all add: sel_ok_def st)
    have "role_count PeerRoleRelay (seOut sel @ [p]) \<le> max 0 (MaxRelaysPerRound pol)"
      using old(1,2) add(3) pol by (cases "peRole p = PeerRoleRelay") (simp_all add: picks_ok_def)
    moreover have "role_count PeerRoleAgent (seOut sel @ [p]) \<le> max 0 (MaxAgentsPerRound pol)"
      using old(1,3) add(4) pol by (cases "peRole p = PeerRoleAgent") (simp_all add: picks_ok_def)
    ultimately have "picks_ok pol cands (seOut sel @ [p])" using old(1,4) assms(2) add(2) by (simp add: picks_ok_def)
    then show "sel_ok pol cands n (tryAdd now p d (s, sel))" using assms add(1,5) by (simp add: sel_ok_def st)
  qed
qed

lemma selectPass_ok:
  assumes "sel_ok pol cands n st" "fst ` set all \<subseteq> cands"
  shows "sel_ok pol cands n (selectPass now n first all st)"
  using assms unfolding selectPass_def
proof (induction all arbitrary: st)
  case (Cons x xs)
  have "sel_ok pol cands n (case x of (p, sc) \<Rightarrow> if length (seOut (snd st)) \<ge> n then st else tryAdd now p (first \<and> length (seOut (snd st)) + 1 < n) st)"
    using Cons.prems tryAdd_ok[of pol cands n st] by (auto simp: case_prod_unfold)
  then show ?case using Cons.IH Cons.prems(2) by (simp add: case_prod_unfold)
qed simp


lemma swap_picks:
  assumes "picks_ok pol cands out" "out \<noteq> []" "c \<in> cands" "peRole c = peRole (last out)" "peID c \<notin> peID ` set out"
  shows "picks_ok pol cands (butlast out @ [c])"
proof -
  have out: "out = butlast out @ [last out]" using assms(2) by simp
  have "role_count r (butlast out @ [c]) = role_count r out" for r by (subst (2) out) (simp add: assms(4))
  moreover have "distinct (map peID (butlast out @ [c]))"
    using assms(1,5) in_set_butlastD[of "peID c" "map peID out"] by (auto simp: picks_ok_def map_butlast distinct_butlast)
  moreover have "set (butlast out @ [c]) \<subseteq> cands" using assms(1,3) in_set_butlastD[of _ out] by (auto simp: picks_ok_def)
  ultimately show ?thesis using assms(1) by (simp add: picks_ok_def)
qed

lemma swapLast_ok:
  assumes "sel_ok pol cands n st" "fst ` set all \<subseteq> cands" "seOut (snd st) \<noteq> []" "length (seOut (snd st)) < length all"
  shows "picks_ok pol cands (snd (swapLast now rn all st)) \<and> length (snd (swapLast now rn all st)) = length (seOut (snd st))"
proof -
  let ?out = "seOut (snd st)"
  let ?w = "length all - length ?out"
  let ?cands = "map (\<lambda>i. fst (all ! (length ?out + (rn mod ?w + i) mod ?w))) [0..<min ?w 8]"
  let ?f = "find (\<lambda>c. peRole c = peRole (last ?out) \<and> peID c \<notin> set (seSelected (snd st))) ?cands"
  show ?thesis
  proof (cases ?f)
    case None
    then show ?thesis using assms(1) by (simp add: swapLast_def Let_def case_prod_unfold sel_ok_def)
  next
    case (Some c)
    then have c: "peRole c = peRole (last ?out)" "peID c \<notin> set (seSelected (snd st))" "c \<in> set ?cands"
      by (auto simp: find_Some_iff) 
    obtain i where "c = fst (all ! (length ?out + (rn mod ?w + i) mod ?w))" using c(3) by auto
    moreover have "length ?out + (rn mod ?w + i) mod ?w < length all" using assms(4) by (metis add.commute less_diff_conv mod_less_divisor zero_less_diff)
    ultimately have "c \<in> cands" using assms(2) by (metis image_subset_iff nth_mem)
    then have "picks_ok pol cands (butlast ?out @ [c])" using assms(1,3) c(1,2) by (intro swap_picks) (auto simp: sel_ok_def)
    then show ?thesis using Some assms(3) by (simp add: swapLast_def Let_def case_prod_unfold)
  qed
qed

lemma scored_policy: "policy (security (fst (fold (scoreCandidate now) cands (s, [])))) = policy (security s)"
proof (rule fold_invariant[where Q = "\<lambda>_. True" and P = "\<lambda>st. policy (security (fst st)) = policy (security s)"])
  fix x and st :: "Service \<times> (Peer \<times> int) list" assume "policy (security (fst st)) = policy (security s)"
  moreover have "policy (fst (PeerPriority i r a now y)) = policy y" for i r a y
    using sec_step_policy[of sha "(now, OpPeerPriority i r a)" y] by simp
  ultimately show "policy (security (fst (scoreCandidate now x st))) = policy (security s)"
    by (simp add: scoreCandidate_def Let_def case_prod_unfold)
qed simp_all

text \<open>
  C25. A round contacts a bounded and diverse set of peers: whatever the candidates are, at most \<open>MaxPeersPerRound\<close> peers are selected, no peer twice, at most as many relays and
  agents as the policy allows, and none that is in quarantine or is serving a penalty for too much traffic. This holds also for the peer that is put in place
  of the last one at random.
\<close>

theorem selected_peers:
  fixes env :: svc_env and cands :: "Peer list" and now :: gotime and s :: Service
  defines "ps \<equiv> snd (SelectPeers env cands now s)"
  assumes "\<forall>xs. set (svTies env xs) = set xs"
  shows "length ps \<le> nat (MaxPeersPerRound (opts s)) \<and> distinct (map peID ps) \<and>
    role_count PeerRoleRelay ps \<le> max 0 (MaxRelaysPerRound (policy (security s))) \<and>
    role_count PeerRoleAgent ps \<le> max 0 (MaxAgentsPerRound (policy (security s))) \<and> (\<forall>p \<in> set ps. \<not> barred now s (peID p))"
proof -
  let ?sc = "fold (scoreCandidate now) cands (s, [])"
  define all where "all = sort_key (\<lambda>(p, score). (- score, peID p)) (svTies env (snd ?sc))"
  let ?all = all
  let ?n = "min (nat (MaxPeersPerRound (opts s))) (length ?all)" and ?pol = "policy (security s)" and ?c = "fst ` set ?all"
  define st where "st = selectPass now ?n False ?all (selectPass now ?n True ?all
      (fst ?sc, \<lparr>seOut = [], seRelays = 0, seAgents = 0, seSelected = [], seClusters = []\<rparr>))"
  have "sel_ok ?pol ?c ?n (fst ?sc, \<lparr>seOut = [], seRelays = 0, seAgents = 0, seSelected = [], seClusters = []\<rparr>)"
    by (simp add: sel_ok_def picks_ok_def scored_policy)
  then have st: "sel_ok ?pol ?c ?n st" unfolding st_def by (intro selectPass_ok) simp_all
  then have drawn_ok: "sel_ok ?pol ?c ?n (drawn 1 (fst st), snd st)" by (simp add: sel_ok_def drawn_def)
  have sel: "SelectPeers env cands now s =
      (if length (seOut (snd st)) \<ge> 2 \<and> length ?all > length (seOut (snd st))
       then (case nextUint32 env (fst st) 0 of
               None \<Rightarrow> (drawn 1 (fst st), seOut (snd st))
             | Some rn \<Rightarrow> swapLast now rn ?all (drawn 1 (fst st), snd st))
       else (fst st, seOut (snd st)))"
    unfolding SelectPeers_def st_def all_def by (simp only: Let_def case_prod_unfold)
  have "picks_ok ?pol ?c ps \<and> length ps \<le> ?n"
  proof (cases "length (seOut (snd st)) \<ge> 2 \<and> length ?all > length (seOut (snd st)) \<and> nextUint32 env (fst st) 0 \<noteq> None")
    case True
    then obtain rn where "ps = snd (swapLast now rn ?all (drawn 1 (fst st), snd st))"
      unfolding ps_def sel by auto
    moreover have "seOut (snd st) \<noteq> []" using True by auto
    moreover have "length (seOut (snd st)) \<le> ?n" using st by (simp add: sel_ok_def)
    ultimately show ?thesis using swapLast_ok[OF drawn_ok subset_refl, of now rn] True by simp
  next
    case False
    then have "ps = seOut (snd st)" unfolding ps_def sel by (auto split: option.split)
    then show ?thesis using st by (simp add: sel_ok_def)
  qed
  moreover have "\<forall>p \<in> ?c. \<not> barred now s (peID p)" using fold_scored[of now s cands] assms(2) by (auto simp: scored_ok_def all_def)
  ultimately show ?thesis by (auto simp: picks_ok_def)
qed


section \<open>The inbound limit\<close>

definition allow_step :: "string \<times> nat \<times> gotime \<Rightarrow> Service \<Rightarrow> Service \<times> bool" where
  "allow_step = (\<lambda>(i, sz, now) s. allowInbound i (int sz) now s)"

text \<open>The sizes of the messages of a peer that were let through.\<close>

definition granted :: "string \<Rightarrow> (string \<times> nat \<times> gotime) list \<Rightarrow> Service \<Rightarrow> nat list" where
  "granted i calls s = map (\<lambda>((j, sz, now), ok). sz) (filter (\<lambda>((j, sz, now), ok). ok \<and> j = i) (zip calls (snd (run allow_step calls s))))"

lemma granted_Cons: "granted i (c # cs) s =
    (if snd (allow_step c s) \<and> fst c = i then fst (snd c) # granted i cs (fst (allow_step c s)) else granted i cs (fst (allow_step c s)))"
  by (cases c) (auto simp: granted_def Let_def)

lemma peerOf_set: "peerOf i (setPeer j ps s) = (if i = j then ps else peerOf i s)"
  by (simp add: peerOf_def setPeer_def update_conv)

lemma opts_set [simp]: "opts (setPeer j ps s) = opts s"
  by (simp add: setPeer_def)

definition usedIn :: "gotime \<Rightarrow> peerState \<Rightarrow> int \<times> int" where
  "usedIn m ps = (if lastInWindow ps = m then (inMsgs ps, inBytes ps) else (0, 0))"

text \<open>What one call does to the counters of a peer in the minute \<open>m\<close>.\<close>

lemma allow_counts:
  fixes s :: Service and m now :: gotime and i :: string and sz :: nat
  defines "u \<equiv> usedIn m (peerOf i s)" and "r \<equiv> allowInbound i (int sz) now s"
  assumes "truncMinute now = m" "m \<noteq> 0"
  shows "opts (fst r) = opts s \<and> fst u \<le> fst (usedIn m (peerOf i (fst r))) \<and> snd u \<le> snd (usedIn m (peerOf i (fst r))) \<and>
    (snd r \<longrightarrow> usedIn m (peerOf i (fst r)) = (fst u + 1, snd u + int sz) \<and>
       fst u + 1 \<le> MaxInboundMsgsPerMin (opts s) \<and> snd u + int sz \<le> MaxInboundBytesPerMin (opts s))"
proof (cases "penaltyUntil (peerOf i s) \<noteq> 0 \<and> now < penaltyUntil (peerOf i s)")
  case True
  then show ?thesis by (simp add: u_def r_def allowInbound_def Let_def peerOf_set)
next
  case False
  let ?p = "inWindow now (peerOf i s)"
  have p: "lastInWindow ?p = m" "(inMsgs ?p, inBytes ?p) = u"
    using assms(3,4) by (auto simp: inWindow_def u_def usedIn_def)
  let ?q = "?p\<lparr>inMsgs := inMsgs ?p + 1, inBytes := inBytes ?p + int sz\<rparr>"
  have q: "usedIn m ?q = (fst u + 1, snd u + int sz)" "usedIn m (?q\<lparr>psPenalty := a, penaltyUntil := b\<rparr>) = (fst u + 1, snd u + int sz)" for a b
    using p by (auto simp: usedIn_def)
  have uu: "inMsgs ?p = fst u" "inBytes ?p = snd u" using p(2) by (metis fst_conv snd_conv)+
  show ?thesis
    using q False unfolding r_def allowInbound_def Let_def if_not_P[OF False] by (simp add: peerOf_set uu)
qed

lemma granted_bound:
  fixes m :: gotime
  assumes "m \<noteq> 0"
  shows "\<forall>(j, sz, now) \<in> set calls. j = i \<longrightarrow> truncMinute now = m \<Longrightarrow> granted i calls s \<noteq> [] \<Longrightarrow>
    fst (usedIn m (peerOf i s)) + int (length (granted i calls s)) \<le> MaxInboundMsgsPerMin (opts s) \<and>
    snd (usedIn m (peerOf i s)) + int (sum_list (granted i calls s)) \<le> MaxInboundBytesPerMin (opts s)"
proof (induction calls arbitrary: s)
  case (Cons c cs)
  obtain j sz now where c: "c = (j, sz, now)" by (cases c)
  let ?s = "fst (allow_step c s)" and ?ok = "snd (allow_step c s)"
  have step: "allow_step c s = allowInbound j (int sz) now s" by (simp add: c allow_step_def)
  note ih = Cons.IH[of ?s]
  show ?case
  proof (cases "j = i")
    case False
    have "peerOf i ?s = peerOf i s" "opts ?s = opts s" unfolding step allowInbound_def Let_def using False by (auto simp: peerOf_set)
    then show ?thesis using ih Cons.prems False by (simp add: granted_Cons c)
  next
    case True
    then have "truncMinute now = m" using Cons.prems(1) c by simp
    from allow_counts[OF this assms, where i = i and s = s and sz = sz] have f: "opts ?s = opts s" "fst (usedIn m (peerOf i s)) \<le> fst (usedIn m (peerOf i ?s))"
        "snd (usedIn m (peerOf i s)) \<le> snd (usedIn m (peerOf i ?s))"
        "?ok \<Longrightarrow> usedIn m (peerOf i ?s) = (fst (usedIn m (peerOf i s)) + 1, snd (usedIn m (peerOf i s)) + int sz)"
        "?ok \<Longrightarrow> fst (usedIn m (peerOf i s)) + 1 \<le> MaxInboundMsgsPerMin (opts s) \<and> snd (usedIn m (peerOf i s)) + int sz \<le> MaxInboundBytesPerMin (opts s)"
      unfolding step True by auto
    show ?thesis
    proof (cases ?ok)
      case False
      then show ?thesis using ih Cons.prems f(1-3) by (auto simp: granted_Cons c)
    next
      case ok: True
      then show ?thesis using ih Cons.prems(1) f(1) f(4,5)[OF ok] True by (cases "granted i cs ?s = []") (auto simp: granted_Cons c)
    qed
  qed
qed (simp add: granted_def)

text \<open>
  The inbound traffic of a peer is bounded: in every sequence of arrivals from any peers, as far as those of a peer fall in one minute, at most
  \<open>MaxInboundMsgsPerMin\<close> of its messages with at most \<open>MaxInboundBytesPerMin\<close> bytes together are let through, whatever the others send.
\<close>

theorem inbound_rate_bounded:
  assumes "m \<noteq> 0" "\<forall>(j, sz, now) \<in> set calls. j = i \<longrightarrow> truncMinute now = m" "0 \<le> fst (usedIn m (peerOf i s))" "0 \<le> snd (usedIn m (peerOf i s))"
  shows "int (length (granted i calls s)) \<le> max 0 (MaxInboundMsgsPerMin (opts s)) \<and>
    int (sum_list (granted i calls s)) \<le> max 0 (MaxInboundBytesPerMin (opts s))"
  using granted_bound[OF assms(1,2), of s] assms(3,4) by (cases "granted i calls s = []") auto


section \<open>Deferred messages of a relay\<close>

abbreviation recentOf :: "string \<Rightarrow> Service \<Rightarrow> (string \<times> gotime) list" where "recentOf i s \<equiv> recentMsg (peerOf i s)"

lemma peerOf_frames [simp]: "peerOf i (s\<lparr>security := x\<rparr>) = peerOf i s" "peerOf i (deferred_once s) = peerOf i s"
  by (simp_all add: peerOf_def deferred_once_def)

lemma recent_frames [simp]: "recentOf i (setPeerRole j r now s) = recentOf i s" "recentOf i (fst (allowInbound j n now s)) = recentOf i s"
    "recentOf i (TouchPeer j now s) = recentOf i s"
  by (simp_all add: setPeerRole_def allowInbound_def TouchPeer_def Let_def peerOf_set inWindow_def)

lemma kept_frames [simp]: "ledger (setPeer i ps s) = ledger s" "scheduler (setPeer i ps s) = scheduler s"
  by (simp_all add: setPeer_def)

lemma quiet_frames [simp]:
  "ledger (setPeerRole j r now s) = ledger s" "scheduler (setPeerRole j r now s) = scheduler s" "opts (setPeerRole j r now s) = opts s"
  "ledger (fst (allowInbound j n now s)) = ledger s" "scheduler (fst (allowInbound j n now s)) = scheduler s" "opts (fst (allowInbound j n now s)) = opts s"
  "security (fst (allowInbound j n now s)) = security s"
  "ledger (fst (seenMsg env j mid now s)) = ledger s" "scheduler (fst (seenMsg env j mid now s)) = scheduler s" "opts (fst (seenMsg env j mid now s)) = opts s"
  "security (fst (seenMsg env j mid now s)) = security s"
  "ledger (TouchPeer j now s) = ledger s" "scheduler (TouchPeer j now s) = scheduler s" "opts (TouchPeer j now s) = opts s" "security (TouchPeer j now s) = security s"
  "ledger (deferred_once s) = ledger s" "scheduler (deferred_once s) = scheduler s" "opts (deferred_once s) = opts s"
  "ledger (rejected_by k s) = ledger s" "scheduler (rejected_by k s) = scheduler s" "ledger (duplicate_by k s) = ledger s" "scheduler (duplicate_by k s) = scheduler s"
  by (simp_all add: setPeerRole_def allowInbound_def seenMsg_def TouchPeer_def deferred_once_def rejected_by_def duplicate_by_def Let_def)

lemma seen_new:
  assumes "map_of (dropExpired now (recentOf i s)) mid = None" "int (length (recentOf i s)) < RecentMsgMax (opts s)"
  shows "\<not> snd (seenMsg env i mid now s) \<and> map_of (recentOf i (fst (seenMsg env i mid now s))) mid = Some (now + RecentMsgTTL (opts s))"
proof -
  let ?m = "dropExpired now (recentOf i s)"
  have "length ?m \<le> length (recentOf i s)" by (simp add: dropExpired_def)
  moreover have "length (AList.update mid e ?m) = Suc (length ?m)" for e using assms(1) by (simp add: update_absent)
  ultimately have "\<not> int (length (AList.update mid e ?m)) > RecentMsgMax (opts s)" for e using assms(2) by (metis int_ops(4) linorder_not_less of_nat_le_iff order_le_less_trans add.commute zle_add1_eq_le)
  then show ?thesis using assms(1) by (simp add: seenMsg_def Let_def peerOf_set update_conv)
qed

lemma seen_again: "map_of (recentOf i s) mid = Some e \<Longrightarrow> now \<le> e \<Longrightarrow> snd (seenMsg env i mid now s)"
proof -
  assume a: "map_of (recentOf i s) mid = Some e" "now \<le> e"
  have "(mid, e) \<in> set (dropExpired now (recentOf i s))" using a map_of_SomeD by (fastforce simp: dropExpired_def)
  then have "map_of (dropExpired now (recentOf i s)) mid \<noteq> None" by (metis map_of_eq_None_iff image_eqI fst_conv)
  then show ?thesis by (simp add: seenMsg_def Let_def)
qed


definition relayRole :: "string \<Rightarrow> string" where
  "relayRole i = (if take 6 (schedPeer i) = ''relay:'' then PeerRoleRelay else PeerRoleNormal)"

lemma TryApply_deferred:
  fixes env :: svc_env and i :: string and pt :: bytes and now :: gotime and s :: Service
  defines "p \<equiv> schedPeer i" and "unpadded \<equiv> fst (unpadPlaintext pt)"
  defines "mid \<equiv> msgIDFromPlaintext (leSha (svLedger env)) unpadded" and "s0 \<equiv> setPeerRole p (relayRole i) now s"
  assumes "decodeWire (svUnWire env) unpadded = Some w" "wType w = ''events''" "permits (AllowContext (opts s)) (wContext w)"
    and "snd (allowInbound p (int (length pt)) now s0)" "map_of (dropExpired now (recentOf p s)) mid = None"
    and "int (length (recentOf p s)) < RecentMsgMax (opts s)"
    and "snd (ObserveInbound p (relayRole i) ''events'' (int (length pt)) now (security s0)) = DecisionDefer"
  obtains s1 where "TryApplyWirePlaintext env now i pt s = Some (s1, True, noReport)" "ledger s1 = ledger s" "scheduler s1 = scheduler s" "opts s1 = opts s"
    "map_of (recentOf p s1) mid = Some (now + RecentMsgTTL (opts s))"
proof -
  let ?a = "allowInbound p (int (length pt)) now s0"
  let ?b = "seenMsg env p mid now (fst ?a)"
  let ?c = "TouchPeer p now (fst ?b)"
  let ?s1 = "deferred_once (?c\<lparr>security := fst (ObserveInbound p (relayRole i) ''events'' (int (length pt)) now (security ?c))\<rparr>)"
  have rec: "recentOf p (fst ?a) = recentOf p s" and o: "opts (fst ?a) = opts s" by (simp_all add: s0_def)
  have new: "\<not> snd ?b" "map_of (recentOf p (fst ?b)) mid = Some (now + RecentMsgTTL (opts s))"
    using seen_new[of now p "fst ?a" mid env, unfolded rec o, OF assms(9,10)] by blast+
  have "TryApplyWirePlaintext env now i pt s = Some (?s1, True, noReport)"
    using assms(5-8,11) new(1)
    unfolding TryApplyWirePlaintext_def Let_def case_prod_unfold p_def[symmetric] unpadded_def[symmetric] mid_def[symmetric] relayRole_def[symmetric, of i, folded p_def]
      s0_def[symmetric] by (simp add: s0_def)
  moreover have "ledger ?s1 = ledger s" "scheduler ?s1 = scheduler s" "opts ?s1 = opts s" by (simp_all add: s0_def deferred_once_def)
  moreover have "map_of (recentOf p ?s1) mid = Some (now + RecentMsgTTL (opts s))" using new(2) by simp
  ultimately show thesis by (rule that)
qed

text \<open>
  A message from a relay that is deferred is lost: \<open>TryApplyWirePlaintext\<close> records a message as seen before it asks the security layer, so when the decision is to
  defer it, the same message that is delivered again within the time to live of the record is dropped as a duplicate (or for the rate limit). It is not applied and
  not queued, neither the first nor the second time, and both calls report that the message was handled. \<open>ReceiveOnce\<close> records a message only after it was handled.
\<close>

theorem deferred_relay_message_lost:
  fixes env :: svc_env and i :: string and pt :: bytes and now later :: gotime and s :: Service
  defines "p \<equiv> schedPeer i" and "unpadded \<equiv> fst (unpadPlaintext pt)"
  defines "mid \<equiv> msgIDFromPlaintext (leSha (svLedger env)) unpadded" and "s0 \<equiv> setPeerRole p (relayRole i) now s"
  assumes "decodeWire (svUnWire env) unpadded = Some w" "wType w = ''events''" "permits (AllowContext (opts s)) (wContext w)"
    and "snd (allowInbound p (int (length pt)) now s0)" "map_of (dropExpired now (recentOf p s)) mid = None"
    and "int (length (recentOf p s)) < RecentMsgMax (opts s)"
    and "snd (ObserveInbound p (relayRole i) ''events'' (int (length pt)) now (security s0)) = DecisionDefer"
    and "later \<le> now + RecentMsgTTL (opts s)"
  shows "\<exists>s1 s2. TryApplyWirePlaintext env now i pt s = Some (s1, True, noReport) \<and> TryApplyWirePlaintext env later i pt s1 = Some (s2, True, noReport) \<and>
    ledger s1 = ledger s \<and> scheduler s1 = scheduler s \<and> ledger s2 = ledger s \<and> scheduler s2 = scheduler s"
proof -
  obtain s1 where s1: "TryApplyWirePlaintext env now i pt s = Some (s1, True, noReport)" "ledger s1 = ledger s" "scheduler s1 = scheduler s" "opts s1 = opts s"
      "map_of (recentOf p s1) mid = Some (now + RecentMsgTTL (opts s))"
    using TryApply_deferred[of env pt w s i now] assms(5-11) unfolding p_def unpadded_def mid_def s0_def by blast
  let ?a = "allowInbound p (int (length pt)) later (setPeerRole p (relayRole i) later s1)"
  have "snd (seenMsg env p mid later (fst ?a))" using seen_again[of p "fst ?a" mid "now + RecentMsgTTL (opts s)" later env] s1(5) assms(12) by simp
  then have "TryApplyWirePlaintext env later i pt s1 =
      Some (if snd ?a then duplicate_by 1 (fst (seenMsg env p mid later (fst ?a))) else rejected_by 1 (fst ?a), True, noReport)"
    unfolding TryApplyWirePlaintext_def Let_def case_prod_unfold p_def[symmetric] unpadded_def[symmetric] mid_def[symmetric] relayRole_def[symmetric, of i, folded p_def]
    by simp
  then show ?thesis using s1 by simp
qed


section \<open>Samples\<close>

text \<open>An environment whose wire messages are all messages of events, and in which nothing random fails.\<close>

definition sampleSvc :: svc_env where
  "sampleSvc = \<lparr>svLedger = sample_env, svJsonLen = (\<lambda>_. 1), svOrder = (\<lambda>xs. xs), svSched = (\<lambda>xs. xs), svRecent = (\<lambda>xs. xs), svTies = (\<lambda>xs. xs),
     svMaxCap = 1000,
     svBox = \<lparr>bxSeal = (\<lambda>p n r k. p), bxOpen = (\<lambda>c n s k. Some c), bxMarshal = (\<lambda>_. []), bxUnmarshal = (\<lambda>_. None)\<rparr>,
     svMesh = mmCiphertext, svUnMesh = (\<lambda>b. None), svWire = wBody,
     svUnWire = (\<lambda>b. Some \<lparr>wSchemaVersion = 1, wType = ''events'', wSession = '''', wContext = '''', wBody = b\<rparr>),
     svHeads = (\<lambda>_. []), svUnHeads = (\<lambda>_. None), svInv = (\<lambda>_. []), svUnInv = (\<lambda>_. None), svWant = (\<lambda>_. []), svUnWant = (\<lambda>_. None),
     svEvents = (\<lambda>_. []), svUnEvents = (\<lambda>_. None), svRand = (\<lambda>_ n. Some (replicate n 7)), svBroadcast = (\<lambda>_. True)\<rparr>"

lemma sampleSvc_laws: "\<forall>xs. set (svSched sampleSvc xs) \<subseteq> set xs" "\<forall>xs. set (svTies sampleSvc xs) = set xs"
  by (simp_all add: sampleSvc_def)

definition sampleKeys :: Crypto where "sampleKeys = \<lparr>privKey = [1], pubKey = [2]\<rparr>"

definition sampleService :: Service where
  "sampleService = NewService 1 sampleKeys sample_ledger None None zeroOptions"

lemma sample_signed: "\<forall>e \<in> stored sample_ledger. checkSig sample_env e"
  using Validate_checkSig[OF sample_first_valid(1)] by (simp add: sample_ledger_def stored_def)

lemma sample_svc_run: "svc_run sampleSvc [OpReceive 5 (Some [1]), OpReceive 6 None] (NewService 1 sampleKeys sample_ledger None None zeroOptions) = Some sampleService"
  by (simp add: ReceiveOnce_def sampleSvc_def sampleService_def)

theorem service_keeps_ledger_witness:
  "ledger_ok sample_env (ledger sampleService) \<and> map_of (events sample_ledger) \<subseteq>\<^sub>m map_of (events (ledger sampleService))"
proof -
  have e: "svLedger sampleSvc = sample_env" by (simp add: sampleSvc_def)
  show ?thesis using service_keeps_ledger[OF sampleSvc_laws(1) _ _ sample_svc_run] sample_attested_ok(2) sample_signed by (simp add: e)
qed


definition sampleCandidates :: "Peer list" where
  "sampleCandidates = [\<lparr>peID = ''r'', peMeshPub = [1], peRole = PeerRoleRelay\<rparr>, \<lparr>peID = ''q'', peMeshPub = [2], peRole = PeerRoleRelay\<rparr>,
     \<lparr>peID = ''n'', peMeshPub = [3], peRole = PeerRoleNormal\<rparr>]"

lemma sampleService_policy: "policy (security sampleService) = DefaultSecurityPolicy" "MaxPeersPerRound (opts sampleService) = 3"
  by (simp_all add: sampleService_def NewService_def Let_def NewSecurityLayer_def small_simps SecurityPolicy_normalize_def DefaultSecurityPolicy_def second_def minute_def)

theorem selected_peers_witness:
  "role_count PeerRoleRelay (snd (SelectPeers sampleSvc sampleCandidates 5 sampleService)) \<le> 1 \<and>
   length (snd (SelectPeers sampleSvc sampleCandidates 5 sampleService)) \<le> 3"
  using selected_peers[OF sampleSvc_laws(2), of sampleCandidates 5 sampleService] by (simp add: sampleService_policy DefaultSecurityPolicy_def)

theorem inbound_rate_bounded_witness:
  "int (length (granted ''a'' [(''a'', 10, 70 * second), (''b'', 4, 1), (''a'', 5, 80 * second)] sampleService)) \<le> max 0 (MaxInboundMsgsPerMin (opts sampleService))"
proof -
  have "peerOf ''a'' sampleService = newPeerState" by (simp add: peerOf_def sampleService_def NewService_def Let_def)
  then have "usedIn (60 * second) (peerOf ''a'' sampleService) = (0, 0)" by (simp add: usedIn_def newPeerState_def second_def)
  then show ?thesis
    using inbound_rate_bounded[of "60 * second" "[(''a'', 10, 70 * second), (''b'', 4, 1), (''a'', 5, 80 * second)]" "''a''" sampleService]
    by (simp add: truncMinute_def minute_def second_def)
qed

text \<open>A message of events one byte above what a new peer may send.\<close>

definition bigMessage :: bytes where "bigMessage = replicate 98305 0"

lemma bigMessage_facts: "length bigMessage = 98305" "unpadPlaintext bigMessage = (bigMessage, False)"
proof -
  have "replicate 4 (0 :: byte) \<noteq> [83, 76, 80, 49]" by code_simp
  then show "length bigMessage = 98305" "unpadPlaintext bigMessage = (bigMessage, False)"
    by (simp_all add: bigMessage_def unpadPlaintext_def privacyPadMagic_def)
qed

lemma sampleService_opts: "AllowContext (opts sampleService) = Some (\<lambda>_. True)" "RecentMsgMax (opts sampleService) = 512" "RecentMsgTTL (opts sampleService) = 2 * minute"
    "MaxInboundMsgsPerMin (opts sampleService) \<ge> 1" "MaxInboundBytesPerMin (opts sampleService) \<ge> 98305" "peers sampleService = []"
    "security sampleService = NewSecurityLayer DefaultSecurityPolicy"
  by (simp_all add: sampleService_def NewService_def Let_def small_simps orAllow_def minute_def second_def NewSecurityLayer_def SecurityPolicy_normalize_def DefaultSecurityPolicy_def)

theorem deferred_relay_message_lost_witness:
  "\<exists>s1 s2. TryApplyWirePlaintext sampleSvc (70 * second) ''a'' bigMessage sampleService = Some (s1, True, noReport) \<and>
     TryApplyWirePlaintext sampleSvc (80 * second) ''a'' bigMessage s1 = Some (s2, True, noReport) \<and>
     ledger s1 = ledger sampleService \<and> scheduler s1 = scheduler sampleService \<and> ledger s2 = ledger sampleService \<and> scheduler s2 = scheduler sampleService"
proof (rule deferred_relay_message_lost)
  show "decodeWire (svUnWire sampleSvc) (fst (unpadPlaintext bigMessage)) =
      Some \<lparr>wSchemaVersion = 1, wType = ''events'', wSession = '''', wContext = '''', wBody = bigMessage\<rparr>"
    by (simp add: bigMessage_facts decodeWire_def sampleSvc_def WireSchemaV1_def)
  have fresh: "peerOf ''a'' (setPeerRole ''a'' (relayRole ''a'') (70 * second) sampleService) = newPeerState\<lparr>psRole := PeerRoleNormal, lastContact := 70 * second\<rparr>"
    by (simp add: setPeerRole_def relayRole_def sample_peers peer_trim Let_def peerOf_def setPeer_def sampleService_opts(6) role_defs)
  show "snd (allowInbound (schedPeer ''a'') (int (length bigMessage)) (70 * second) (setPeerRole (schedPeer ''a'') (relayRole ''a'') (70 * second) sampleService))"
    using sampleService_opts(4,5) unfolding sample_peers allowInbound_def fresh Let_def by (simp add: newPeerState_def inWindow_def bigMessage_facts)
  have pol: "security (setPeerRole ''a'' (relayRole ''a'') (70 * second) sampleService) =
      SetPeerRole ''a'' PeerRoleNormal (70 * second) (NewSecurityLayer DefaultSecurityPolicy)"
    by (simp add: setPeerRole_def relayRole_def sample_peers peer_trim Let_def setPeer_def role_defs sampleService_opts(7))
  show "snd (ObserveInbound (schedPeer ''a'') (relayRole ''a'') ''events'' (int (length bigMessage)) (70 * second)
      (security (setPeerRole (schedPeer ''a'') (relayRole ''a'') (70 * second) sampleService))) = DecisionDefer"
    unfolding sample_peers pol by (simp add: ObserveInbound_def SetPeerRole_def relayRole_def sample_peers sec_eval role_defs bigMessage_facts isQuarantined_def isWarm_def)
qed (simp_all add: sampleService_opts permits_def sample_peers peerOf_def newPeerState_def dropExpired_def minute_def second_def)

end
