(* ===== verification/Relay_Types.thy ===== *)
theory Relay_Types
  imports Go_Base64 Mesh_Prelude
begin

text \<open>
  The requests and messages of the relay (\<^verbatim>\<open>pkg/relay/types.go\<close>): validation, deadlines and the proof of work, with the search for its nonce
  in \<^verbatim>\<open>http_client.go\<close>. SHA-256 is a parameter.
\<close>

datatype relay_error = RelayErr string | RelayRand | RelayStore | RelayCtx | RelayNotFound

definition maxMailboxLen :: nat where "maxMailboxLen = 128"
definition maxEnvelopeLen :: nat where "maxEnvelopeLen = 256 * 1024"
definition maxMessageIDLen :: nat where "maxMessageIDLen = 128"
definition maxAckIDs :: nat where "maxAckIDs = 2000"

definition mailboxChar :: "char \<Rightarrow> bool" where
  "mailboxChar c =
     (let n = of_char c :: nat in (97 \<le> n \<and> n \<le> 122) \<or> (65 \<le> n \<and> n \<le> 90) \<or> (48 \<le> n \<and> n \<le> 57) \<or> n = 45 \<or> n = 95)"

definition validateMailboxID :: "string \<Rightarrow> relay_error + unit" where
  "validateMailboxID m =
     (if m = '''' then Inl (RelayErr ''relay: mailbox required'')
      else if length m > maxMailboxLen then Inl (RelayErr (''relay: mailbox too large: '' @ Itoa (int (length m))))
      else if \<not> list_all mailboxChar m then Inl (RelayErr ''relay: mailbox has invalid characters'')
      else Inr ())"

definition validateMessageID :: "string \<Rightarrow> relay_error + unit" where
  "validateMessageID i =
     (if i = '''' then Inl (RelayErr ''relay: message id required'')
      else if length i > maxMessageIDLen then Inl (RelayErr (''relay: message id too large: '' @ Itoa (int (length i))))
      else case DecodeString i of
             None \<Rightarrow> Inl (RelayErr ''relay: invalid message id'')
           | Some b \<Rightarrow> if length b \<noteq> 16 then Inl (RelayErr ''relay: invalid message id'') else Inr ())"

definition validateEnvelope :: "string \<Rightarrow> relay_error + unit" where
  "validateEnvelope e =
     (if e = '''' then Inl (RelayErr ''relay: envelope required'')
      else if length e > maxEnvelopeLen then Inl (RelayErr (''relay: envelope too large: '' @ Itoa (int (length e))))
      else Inr ())"

record RelayMessage =
  mgID :: string
  mgMailbox :: string
  mgEnvelope :: string
  mgReceivedAt :: int

definition Message_Validate :: "RelayMessage \<Rightarrow> relay_error + unit" where
  "Message_Validate m =
     rbind (validateMessageID (mgID m)) (\<lambda>_. rbind (validateMailboxID (mgMailbox m)) (\<lambda>_. rbind (validateEnvelope (mgEnvelope m)) (\<lambda>_.
       if mgReceivedAt m \<le> 0 then Inl (RelayErr ''relay: received_at required'') else Inr ())))"

record PushRequest =
  prMailbox :: string
  prEnvelope :: string
  prTTLSec :: int
  prDelaySec :: int
  prPoWBits :: int
  prPoWNonce :: string

definition validateNonce :: "string \<Rightarrow> relay_error + bytes" where
  "validateNonce s =
     (case DecodeString s of
        None \<Rightarrow> Inl (RelayErr ''relay: invalid pow_nonce_b64url'')
      | Some n \<Rightarrow> if length n < 8 \<or> length n > 32 then Inl (RelayErr ''relay: invalid pow nonce length'') else Inr n)"

definition PushRequest_Validate :: "PushRequest \<Rightarrow> relay_error + unit" where
  "PushRequest_Validate r =
     rbind (validateMailboxID (prMailbox r)) (\<lambda>_. rbind (validateEnvelope (prEnvelope r)) (\<lambda>_.
       if prTTLSec r < 0 then Inl (RelayErr ''relay: ttl_sec must be >= 0'')
       else if prDelaySec r < 0 then Inl (RelayErr ''relay: delay_sec must be >= 0'')
       else if prDelaySec r > 3600 then Inl (RelayErr (''relay: delay_sec too large: '' @ Itoa (prDelaySec r)))
       else if prPoWBits r < 0 then Inl (RelayErr ''relay: pow_bits must be >= 0'')
       else if prPoWBits r > 28 then Inl (RelayErr (''relay: pow_bits too large: '' @ Itoa (prPoWBits r)))
       else if prPoWBits r > 0
            then if prPoWNonce r = '''' then Inl (RelayErr ''relay: pow_nonce_b64url required when pow_bits > 0'')
                 else rbind (validateNonce (prPoWNonce r)) (\<lambda>_. Inr ())
       else Inr ()))"

record PullRequest =
  plMailbox :: string
  plLimit :: int
  plWaitSec :: int

definition PullRequest_Validate :: "PullRequest \<Rightarrow> relay_error + unit" where
  "PullRequest_Validate r =
     rbind (validateMailboxID (plMailbox r)) (\<lambda>_.
       if plWaitSec r < 0 then Inl (RelayErr ''relay: wait_sec must be >= 0'')
       else if plWaitSec r > 30 then Inl (RelayErr (''relay: wait_sec too large: '' @ Itoa (plWaitSec r)))
       else Inr ())"

definition PullRequest_Normalize :: "PullRequest \<Rightarrow> PullRequest" where
  "PullRequest_Normalize r =
     (let r1 = (if plLimit r \<le> 0 then r\<lparr>plLimit := 50\<rparr> else r);
          r2 = (if plLimit r1 > 200 then r1\<lparr>plLimit := 200\<rparr> else r1)
      in if plWaitSec r2 > 30 then r2\<lparr>plWaitSec := 30\<rparr> else r2)"

record AckRequest =
  akMailbox :: string
  akIDs :: "string list"

definition AckRequest_Validate :: "AckRequest \<Rightarrow> relay_error + unit" where
  "AckRequest_Validate r =
     rbind (validateMailboxID (akMailbox r)) (\<lambda>_.
       if akIDs r = [] then Inl (RelayErr ''relay: ids required'')
       else if length (akIDs r) > maxAckIDs then Inl (RelayErr (''relay: too many ids: '' @ Itoa (int (length (akIDs r)))))
       else rfold (\<lambda>i _. validateMessageID i) (akIDs r) ())"

definition TTLDeadline :: "gotime \<Rightarrow> int \<Rightarrow> relay_error + gotime" where
  "TTLDeadline now ttlSec =
     (if ttlSec < 0 then Inl (RelayErr ''relay: ttl_sec must be >= 0'')
      else if ttlSec = 0 then Inr 0
      else if ttlSec > 7 * 24 * 3600 then Inl (RelayErr (''relay: ttl_sec too large: '' @ Itoa ttlSec))
      else Inr (now + ttlSec * second))"

text \<open>\<^verbatim>\<open>newMessageID\<close> and \<^verbatim>\<open>newRandomMessageID\<close>: the argument is what the random source gave.\<close>

definition newMessageID :: "bytes option \<Rightarrow> relay_error + string" where
  "newMessageID rnd = (case rnd of None \<Rightarrow> Inl RelayRand | Some b \<Rightarrow> Inr (EncodeToString b))"

section \<open>Proof of work\<close>

fun zeroBytes :: "nat \<Rightarrow> bytes \<Rightarrow> bool" where
  "zeroBytes 0 s = True"
| "zeroBytes (Suc n) [] = True"
| "zeroBytes (Suc n) (b # s) = (b = 0 \<and> zeroBytes n s)"

definition hashHasLeadingZeroBits :: "bytes \<Rightarrow> nat \<Rightarrow> bool" where
  "hashHasLeadingZeroBits s bits =
     (if \<not> zeroBytes (bits div 8) s then False
      else if bits mod 8 = 0 then True
      else (s ! (bits div 8)) AND push_bit (8 - bits mod 8) 0xFF = 0)"

definition powHash :: "(bytes \<Rightarrow> bytes) \<Rightarrow> string \<Rightarrow> string \<Rightarrow> bytes \<Rightarrow> bytes" where
  "powHash sha mailbox envelope nonce = sha (str_bytes mailbox @ [0] @ str_bytes envelope @ [0] @ nonce)"

definition VerifyPoW :: "(bytes \<Rightarrow> bytes) \<Rightarrow> string \<Rightarrow> string \<Rightarrow> string \<Rightarrow> int \<Rightarrow> relay_error + unit" where
  "VerifyPoW sha mailbox envelope nonceB64URL bits =
     (if bits \<le> 0 then Inr ()
      else if bits > 28 then Inl (RelayErr (''relay: pow_bits too large: '' @ Itoa bits))
      else rbind (validateMailboxID mailbox) (\<lambda>_. rbind (validateEnvelope envelope) (\<lambda>_.
        if nonceB64URL = '''' then Inl (RelayErr ''relay: pow_nonce_b64url required'')
        else rbind (validateNonce nonceB64URL) (\<lambda>nonce.
          if hashHasLeadingZeroBits (powHash sha mailbox envelope nonce) (nat bits) then Inr () else Inl (RelayErr ''relay: invalid proof of work'')))))"

text \<open>The search tries \<open>k\<close> nonces from number \<open>i\<close> on; \<open>salt\<close> is what the random source gave.\<close>

fun powSearch :: "(bytes \<Rightarrow> bytes) \<Rightarrow> string \<Rightarrow> string \<Rightarrow> nat \<Rightarrow> bytes \<Rightarrow> nat \<Rightarrow> nat \<Rightarrow> bytes option" where
  "powSearch sha mb e bits salt i 0 = None"
| "powSearch sha mb e bits salt i (Suc k) =
     (let nonce = salt @ le_bytes 8 i in
      if hashHasLeadingZeroBits (powHash sha mb e nonce) bits then Some nonce else powSearch sha mb e bits salt (Suc i) k)"

definition findPoWNonce :: "(bytes \<Rightarrow> bytes) \<Rightarrow> bytes option \<Rightarrow> string \<Rightarrow> string \<Rightarrow> int \<Rightarrow> int \<Rightarrow> relay_error + string" where
  "findPoWNonce sha rnd mailbox envelope bits maxIter =
     (if bits \<le> 0 then Inr ''''
      else let n = (if maxIter \<le> 0 then 1 else nat maxIter) in
        case rnd of
          None \<Rightarrow> Inl RelayRand
        | Some salt \<Rightarrow>
            (case powSearch sha mailbox envelope (nat bits) salt 0 n of
               None \<Rightarrow> Inl (RelayErr ''relay: proof of work failed'')
             | Some nonce \<Rightarrow> Inr (EncodeToString nonce)))"

lemmas relay_checks = validateMailboxID_def validateMessageID_def validateEnvelope_def validateNonce_def

text \<open>The test of the leading bits compares the digest, as a big endian number, with a bound.\<close>

lemma byte_high_zero: "(b :: byte) AND push_bit n 0xFF = 0 \<longleftrightarrow> unat b < 2 ^ n"
proof -
  have "(0xFF :: byte) = - 1" by simp
  then have "push_bit n (0xFF :: byte) = NOT (mask n)" by (simp only: push_bit_minus_one_eq_not_mask)
  moreover have "b AND NOT (mask n) = 0 \<longleftrightarrow> take_bit n b = b" by (auto simp: bit_eq_iff bit_simps)
  moreover have "take_bit n b = b \<longleftrightarrow> unat b < 2 ^ n"
    by (metis take_bit_nat_eq_self_iff unsigned_take_bit_eq unsigned_word_eqI)
  ultimately show ?thesis by simp
qed

lemma be_nat_Cons: "be_nat (b # s) = unat b * 256 ^ length s + be_nat s"
proof -
  have "le_nat (s @ [b]) = unat b * 256 ^ length s + le_nat s" for s by (induction s) (auto simp: algebra_simps)
  from this[of "rev s"] show ?thesis by (simp add: be_nat_def)
qed

lemma scaled_less: "(y :: nat) < m \<Longrightarrow> x * m + y < m * n \<longleftrightarrow> x < n"
proof
  assume y: "y < m" and "x < n"
  then have "Suc x * m \<le> n * m" by (intro mult_le_mono1) simp
  with y show "x * m + y < m * n" by (simp add: mult.commute)
next
  assume "y < m" and less: "x * m + y < m * n"
  from less have "x * m < n * m" unfolding mult.commute[of m n] by (rule add_lessD1)
  then show "x < n" by simp
qed

text \<open>
  C38. The bit test of the proof of work is the comparison of a number: a digest has at least \<open>bits\<close> leading zero bits exactly when the number it
  spells in big endian order is below \<open>2 ^ (8 * length - bits)\<close>.
\<close>

theorem leading_zero_bits_iff:
  assumes "bits \<le> 8 * length s"
  shows "hashHasLeadingZeroBits s bits \<longleftrightarrow> be_nat s < 2 ^ (8 * length s - bits)"
  using assms
proof (induction s arbitrary: bits)
  case Nil
  then show ?case by (simp add: hashHasLeadingZeroBits_def be_nat_def)
next
  case (Cons b s)
  have low: "be_nat s < 2 ^ (8 * length s)" using be_nat_less[of s] by (simp add: power_mult)
  have val: "be_nat (b # s) = unat b * 2 ^ (8 * length s) + be_nat s" by (simp add: be_nat_Cons power_mult)
  show ?case
  proof (cases "bits < 8")
    case True
    have eq: "8 * length (b # s) - bits = 8 * length s + (8 - bits)" using True by simp
    have "hashHasLeadingZeroBits (b # s) bits \<longleftrightarrow> unat b < 2 ^ (8 - bits)"
      using True unat_byte_less[of b] byte_high_zero[of b "8 - bits"] by (simp add: hashHasLeadingZeroBits_def)
    then show ?thesis by (simp only: val eq power_add scaled_less[OF low])
  next
    case False
    then obtain k where k: "bits = 8 + k" by (metis le_add_diff_inverse linorder_not_less)
    have "(8 + k) div 8 = Suc (k div 8)" "(8 + k) mod 8 = k mod 8" by simp_all
    then have step: "hashHasLeadingZeroBits (b # s) bits \<longleftrightarrow> b = 0 \<and> hashHasLeadingZeroBits s k"
      unfolding k hashHasLeadingZeroBits_def by simp
    have small: "b = 0" if "unat b * 2 ^ (8 * length s) + be_nat s < 2 ^ (8 * length s - k)"
    proof -
      have "unat b * 2 ^ (8 * length s) < 1 * 2 ^ (8 * length s)"
        using that power_increasing[of "8 * length s - k" "8 * length s" "2 :: nat"] by linarith
      then have "unat b < 1" by (simp only: mult_less_cancel2)
      then show "b = 0" by (simp add: unat_eq_zero)
    qed
    show ?thesis using Cons.IH[of k] Cons.prems small unfolding step val by (auto simp: k)
  qed
qed

lemma leading_zero_bits_iff_witness: "hashHasLeadingZeroBits [0, 0x1F, 7] 11 \<longleftrightarrow> be_nat [0, 0x1F, 7] < 2 ^ 13"
  using leading_zero_bits_iff[of 11 "[0, 0x1F, 7]"] by simp

lemma powSearch_sound:
  "powSearch sha mb e bits salt i k = Some nonce \<Longrightarrow>
     hashHasLeadingZeroBits (powHash sha mb e nonce) bits \<and> length nonce = length salt + 8"
  by (induction k arbitrary: i) (auto simp: Let_def split: if_splits)

text \<open>A nonce the client finds is accepted by the server, for the same mailbox, envelope and number of bits.\<close>

theorem found_nonce_verifies:
  assumes "findPoWNonce sha (Some salt) mb e bits n = Inr nonce" "length salt = 8" "bits \<le> 28"
    "validateMailboxID mb = Inr ()" "validateEnvelope e = Inr ()"
  shows "VerifyPoW sha mb e nonce bits = Inr ()"
proof (cases "bits \<le> 0")
  case True
  then show ?thesis by (simp add: VerifyPoW_def)
next
  case False
  with assms(1) obtain raw where raw: "nonce = EncodeToString raw" "\<exists>i k. powSearch sha mb e (nat bits) salt i k = Some raw"
    by (auto simp: findPoWNonce_def Let_def split: option.splits)
  then have "hashHasLeadingZeroBits (powHash sha mb e raw) (nat bits)" "length raw = 16"
    using powSearch_sound assms(2) by fastforce+
  moreover from this(2) have "raw \<noteq> []" by auto
  ultimately show ?thesis using False assms(3-5) by (simp add: VerifyPoW_def raw(1) validateNonce_def)
qed

end
