(* ===== verification/Relay_Store.thy ===== *)
theory Relay_Store
  imports Relay_Types "HOL-Library.Multiset"
begin

text \<open>
  The two stores of the relay (\<^verbatim>\<open>pkg/relay/memory.go\<close> and \<^verbatim>\<open>file_relay.go\<close>) and the contract of the interface \<^verbatim>\<open>Relay\<close> that both keep.

  Every method locks the store for its whole body, a pull for one turn of its loop, so an operation is one step of the state and a waiting pull is a
  sequence of turns between which other callers may act. \<^verbatim>\<open>sort.Slice\<close> is not stable: \<open>ties\<close> is the order it makes of the elements before
  a stable sort. The clock and the random source are arguments.
\<close>

section \<open>Waiting pulls\<close>

text \<open>
  One turn of the loop of \<^verbatim>\<open>Pull\<close>: the clock at its start, the clock when the remaining time is computed, whether the context ended the sleep, and
  what other callers did to the store meanwhile. The result is \<open>None\<close> while the loop has not returned.
\<close>

record 's turn =
  tuNow :: gotime
  tuUntil :: gotime
  tuCancelled :: bool
  tuOthers :: "'s \<Rightarrow> 's"

fun pullLoop ::
    "(gotime \<Rightarrow> 's \<Rightarrow> 's \<times> RelayMessage list) \<Rightarrow> int \<Rightarrow> gotime \<Rightarrow> 's turn list \<Rightarrow> 's \<Rightarrow> 's \<times> (relay_error + RelayMessage list) option" where
  "pullLoop avail waitSec waitUntil [] s = (s, None)"
| "pullLoop avail waitSec waitUntil (t # ts) s =
     (let (s1, out) = avail (tuNow t) s in
      if out \<noteq> [] \<or> waitSec \<le> 0 \<or> (waitUntil \<noteq> 0 \<and> tuNow t > waitUntil) then (s1, Some (Inr out))
      else if waitUntil \<noteq> 0 \<and> waitUntil - tuUntil t \<le> 0 then (s1, Some (Inr []))
      else if tuCancelled t then (tuOthers t s1, Some (Inl RelayCtx))
      else pullLoop avail waitSec waitUntil ts (tuOthers t s1))"

definition waitedPull ::
    "(string \<Rightarrow> gotime \<Rightarrow> int \<Rightarrow> 's \<Rightarrow> 's \<times> RelayMessage list) \<Rightarrow> gotime \<Rightarrow> 's turn list \<Rightarrow> PullRequest \<Rightarrow> 's \<Rightarrow> 's \<times> (relay_error + RelayMessage list) option" where
  "waitedPull turn start ts req0 s =
     (case PullRequest_Validate req0 of
        Inl e \<Rightarrow> (s, Some (Inl e))
      | Inr _ \<Rightarrow>
          let req = PullRequest_Normalize req0; waitUntil = (if plWaitSec req > 0 then start + plWaitSec req * second else 0)
          in pullLoop (\<lambda>now. turn (plMailbox req) now (plLimit req)) (plWaitSec req) waitUntil ts s)"

section \<open>The store in memory\<close>

record stored =
  sdMsg :: RelayMessage
  sdDeadline :: gotime
  sdAvailAt :: gotime

record MemoryRelay =
  mailboxQ :: "(string \<times> stored list) list"

definition NewMemoryRelay :: MemoryRelay where "NewMemoryRelay = \<lparr>mailboxQ = []\<rparr>"

definition sdExpired :: "gotime \<Rightarrow> stored \<Rightarrow> bool" where
  "sdExpired now x \<longleftrightarrow> sdDeadline x \<noteq> 0 \<and> now > sdDeadline x"

definition sdEarly :: "gotime \<Rightarrow> stored \<Rightarrow> bool" where
  "sdEarly now x \<longleftrightarrow> sdAvailAt x \<noteq> 0 \<and> now < sdAvailAt x"

definition queueFor :: "string \<Rightarrow> MemoryRelay \<Rightarrow> stored list" where
  "queueFor mb r = (case map_of (mailboxQ r) mb of None \<Rightarrow> [] | Some q \<Rightarrow> q)"

definition memPrune :: "gotime \<Rightarrow> MemoryRelay \<Rightarrow> MemoryRelay" where
  "memPrune now r =
     r\<lparr>mailboxQ := filter (\<lambda>(mb, q). q \<noteq> []) (map (\<lambda>(mb, q). (mb, filter (\<lambda>x. \<not> sdExpired now x) q)) (mailboxQ r))\<rparr>"

text \<open>The message a push makes; both stores build it the same way.\<close>

definition newMessage :: "bytes option \<Rightarrow> gotime \<Rightarrow> PushRequest \<Rightarrow> relay_error + RelayMessage \<times> gotime \<times> gotime" where
  "newMessage rnd now req =
     rbind (PushRequest_Validate req) (\<lambda>_. rbind (TTLDeadline now (prTTLSec req)) (\<lambda>deadline.
       let availAt = (if prDelaySec req > 0 then now + prDelaySec req * second else now) in
       rbind (newMessageID rnd) (\<lambda>i.
         let msg = \<lparr>mgID = i, mgMailbox = prMailbox req, mgEnvelope = prEnvelope req, mgReceivedAt = Unix now\<rparr> in
         rbind (Message_Validate msg) (\<lambda>_. Inr (msg, deadline, availAt)))))"

definition MemoryRelay_Push :: "bytes option \<Rightarrow> gotime \<Rightarrow> PushRequest \<Rightarrow> MemoryRelay \<Rightarrow> MemoryRelay \<times> (relay_error + string)" where
  "MemoryRelay_Push rnd now req r =
     (case newMessage rnd now req of
        Inl e \<Rightarrow> (r, Inl e)
      | Inr (msg, deadline, availAt) \<Rightarrow>
          let r1 = memPrune now r; q = queueFor (prMailbox req) r1 @ [\<lparr>sdMsg = msg, sdDeadline = deadline, sdAvailAt = availAt\<rparr>]
          in (r1\<lparr>mailboxQ := AList.update (prMailbox req) q (mailboxQ r1)\<rparr>, Inr (mgID msg)))"

definition memAvailable :: "(stored list \<Rightarrow> stored list) \<Rightarrow> string \<Rightarrow> gotime \<Rightarrow> int \<Rightarrow> MemoryRelay \<Rightarrow> RelayMessage list" where
  "memAvailable ties mb now limit r =
     map sdMsg (take (nat limit) (sort_key (\<lambda>x. mgReceivedAt (sdMsg x)) (ties (filter (\<lambda>x. \<not> sdEarly now x) (queueFor mb r)))))"

definition memTurn :: "(stored list \<Rightarrow> stored list) \<Rightarrow> string \<Rightarrow> gotime \<Rightarrow> int \<Rightarrow> MemoryRelay \<Rightarrow> MemoryRelay \<times> RelayMessage list" where
  "memTurn ties mb now limit r = (let r1 = memPrune now r in (r1, memAvailable ties mb now limit r1))"

definition MemoryRelay_Pull ::
    "(stored list \<Rightarrow> stored list) \<Rightarrow> gotime \<Rightarrow> MemoryRelay turn list \<Rightarrow> PullRequest \<Rightarrow> MemoryRelay \<Rightarrow> MemoryRelay \<times> (relay_error + RelayMessage list) option" where
  "MemoryRelay_Pull ties = waitedPull (memTurn ties)"

definition MemoryRelay_Ack :: "gotime \<Rightarrow> AckRequest \<Rightarrow> MemoryRelay \<Rightarrow> MemoryRelay \<times> (relay_error + unit)" where
  "MemoryRelay_Ack now req r =
     (case AckRequest_Validate req of
        Inl e \<Rightarrow> (r, Inl e)
      | Inr _ \<Rightarrow>
          let r1 = memPrune now r; q = queueFor (akMailbox req) r1 in
          if q = [] then (r1, Inr ())
          else (r1\<lparr>mailboxQ := AList.update (akMailbox req) (filter (\<lambda>x. mgID (sdMsg x) \<notin> set (akIDs req)) q) (mailboxQ r1)\<rparr>, Inr ()))"

section \<open>The store in files\<close>

text \<open>
  The base directory holds a directory for each mailbox and that a file for each message; there may be other files and directories (that are not empty). \<open>None\<close> is a
  directory that cannot be read (a missing one for the base). The contents of a file is what the JSON encoder made, of a type \<open>'c\<close> that only the
  codec, a parameter, looks into.
\<close>

record fileStored =
  fsMessage :: RelayMessage
  fsDeadline :: int
  fsAvailAt :: int
  fsCreatedAt :: int

datatype 'c fileEntry = SubDir | Unreadable | Content 'c

type_synonym 'c directory = "(string \<times> 'c fileEntry) list"

datatype 'c baseEntry = BaseFile | BaseDir "'c directory option"

record 'c FileRelay =
  MaxPendingPerMailbox :: int
  MaxTotalPending :: int
  baseDir :: "(string \<times> 'c baseEntry) list option"

record 'c codec =
  cdMarshal :: "fileStored \<Rightarrow> 'c"
  cdUnmarshal :: "'c \<Rightarrow> fileStored option"

text \<open>How the file system answers the calls of one push: \<^verbatim>\<open>MkdirAll\<close>, \<^verbatim>\<open>CreateTemp\<close> with the random part of the name, the write, the close and the rename.\<close>

record push_io =
  ioRand :: "bytes option"
  ioMkdir :: bool
  ioTemp :: "string option"
  ioWrite :: bool
  ioClose :: bool
  ioRename :: bool

definition messageFileName :: "string \<Rightarrow> string" where
  "messageFileName i = ''msg_'' @ i @ ''.json''"

definition mailboxDir :: "string \<Rightarrow> string" where
  "mailboxDir m = ''mb_'' @ EncodeToString (str_bytes m)"

definition NewFileRelay :: "string \<Rightarrow> int \<Rightarrow> int \<Rightarrow> bool \<Rightarrow> (string \<times> 'c baseEntry) list \<Rightarrow> relay_error + 'c FileRelay" where
  "NewFileRelay dir perMailbox tot mkdirOk entries =
     (if TrimSpace dir = '''' then Inl (RelayErr ''relay: baseDir is empty'')
      else if perMailbox < 0 then Inl (RelayErr ''relay: MaxPendingPerMailbox must be >= 0'')
      else if tot < 0 then Inl (RelayErr ''relay: MaxTotalPending must be >= 0'')
      else if \<not> mkdirOk then Inl RelayStore
      else Inr \<lparr>MaxPendingPerMailbox = (if perMailbox = 0 then 10000 else perMailbox), MaxTotalPending = (if tot = 0 then 250000 else tot),
                baseDir = Some entries\<rparr>)"

definition isMessageFile :: "string \<times> 'c fileEntry \<Rightarrow> bool" where
  "isMessageFile e \<longleftrightarrow> snd e \<noteq> SubDir \<and> leads ''msg_'' (fst e) \<and> leads (rev ''.json'') (rev (fst e))"

definition isMailDir :: "string \<Rightarrow> bool" where "isMailDir n \<longleftrightarrow> leads ''mb_'' n"

definition recordOf :: "'c codec \<Rightarrow> string \<times> 'c fileEntry \<Rightarrow> fileStored option" where
  "recordOf cd e = (case snd e of Content c \<Rightarrow> cdUnmarshal cd c | _ \<Rightarrow> None)"

definition fsExpired :: "gotime \<Rightarrow> fileStored \<Rightarrow> bool" where
  "fsExpired now rec \<longleftrightarrow> fsDeadline rec > 0 \<and> Unix now \<ge> fsDeadline rec"

definition fsEarly :: "gotime \<Rightarrow> fileStored \<Rightarrow> bool" where
  "fsEarly now rec \<longleftrightarrow> fsAvailAt rec > 0 \<and> Unix now < fsAvailAt rec"

text \<open>A message file that \<^verbatim>\<open>pruneLocked\<close> keeps; the rest of the directory is left alone.\<close>

definition prunedDir :: "'c codec \<Rightarrow> gotime \<Rightarrow> 'c directory \<Rightarrow> 'c directory" where
  "prunedDir cd now d =
     filter (\<lambda>e. isMessageFile e \<longrightarrow> (case recordOf cd e of None \<Rightarrow> False | Some rec \<Rightarrow> \<not> fsExpired now rec)) d"

text \<open>\<^verbatim>\<open>os.Remove\<close> deletes a directory only if it is empty.\<close>

definition prunedEntry :: "'c codec \<Rightarrow> gotime \<Rightarrow> string \<times> 'c baseEntry \<Rightarrow> (string \<times> 'c baseEntry) option" where
  "prunedEntry cd now e =
     (case e of
        (n, BaseDir (Some d)) \<Rightarrow> if isMailDir n then let d1 = prunedDir cd now d in if d1 = [] then None else Some (n, BaseDir (Some d1)) else Some e
      | _ \<Rightarrow> Some e)"

definition filePrune :: "'c codec \<Rightarrow> gotime \<Rightarrow> 'c FileRelay \<Rightarrow> 'c FileRelay \<times> (relay_error + unit)" where
  "filePrune cd now r =
     (case baseDir r of
        None \<Rightarrow> (r, Inl RelayStore)
      | Some es \<Rightarrow> (r\<lparr>baseDir := Some (List.map_filter (prunedEntry cd now) es)\<rparr>, Inr ()))"

definition messageCount :: "'c directory \<Rightarrow> nat" where
  "messageCount d = length (filter isMessageFile d)"

definition entryCount :: "string \<times> 'c baseEntry \<Rightarrow> nat" where
  "entryCount e = (case e of (n, BaseDir (Some d)) \<Rightarrow> if isMailDir n then messageCount d else 0 | _ \<Rightarrow> 0)"

definition totalPending :: "'c FileRelay \<Rightarrow> relay_error + nat" where
  "totalPending r = (case baseDir r of None \<Rightarrow> Inl RelayStore | Some es \<Rightarrow> Inr (sum_list (map entryCount es)))"

text \<open>\<^verbatim>\<open>os.ReadDir\<close> of a mailbox.\<close>

definition readMailbox :: "string \<Rightarrow> 'c FileRelay \<Rightarrow> relay_error + 'c directory" where
  "readMailbox mb r =
     (case map_of (case baseDir r of None \<Rightarrow> [] | Some es \<Rightarrow> es) (mailboxDir mb) of
        None \<Rightarrow> Inl RelayNotFound
      | Some BaseFile \<Rightarrow> Inl RelayStore
      | Some (BaseDir None) \<Rightarrow> Inl RelayStore
      | Some (BaseDir (Some d)) \<Rightarrow> Inr d)"

definition writeMailbox :: "string \<Rightarrow> 'c directory \<Rightarrow> 'c FileRelay \<Rightarrow> 'c FileRelay" where
  "writeMailbox mb d r =
     r\<lparr>baseDir := Some (AList.update (mailboxDir mb) (BaseDir (Some d)) (case baseDir r of None \<Rightarrow> [] | Some es \<Rightarrow> es))\<rparr>"

definition mailboxPending :: "string \<Rightarrow> 'c FileRelay \<Rightarrow> relay_error + nat" where
  "mailboxPending mb r =
     (case readMailbox mb r of Inl RelayNotFound \<Rightarrow> Inr 0 | Inl e \<Rightarrow> Inl e | Inr d \<Rightarrow> Inr (messageCount d))"

definition tempName :: "string \<Rightarrow> string" where "tempName x = ''tmp_'' @ x"

definition writeFileAtomic :: "push_io \<Rightarrow> string \<Rightarrow> 'c \<Rightarrow> 'c directory \<Rightarrow> 'c directory \<times> (relay_error + unit)" where
  "writeFileAtomic io name data d =
     (case ioTemp io of
        None \<Rightarrow> (d, Inl RelayStore)
      | Some tmp \<Rightarrow>
          if \<not> ioWrite io \<or> \<not> ioClose io \<or> \<not> ioRename io then (AList.delete (tempName tmp) d, Inl RelayStore)
          else (AList.update name (Content data) (AList.delete (tempName tmp) d), Inr ()))"

text \<open>The message files of a mailbox, and the record that a push writes.\<close>

definition mailFiles :: "string \<Rightarrow> 'c FileRelay \<Rightarrow> 'c directory" where
  "mailFiles mb r = (case readMailbox mb r of Inl _ \<Rightarrow> [] | Inr d \<Rightarrow> d)"

definition pushRecord :: "gotime \<Rightarrow> RelayMessage \<Rightarrow> gotime \<Rightarrow> gotime \<Rightarrow> fileStored" where
  "pushRecord now msg deadline availAt =
     \<lparr>fsMessage = msg, fsDeadline = (if deadline \<noteq> 0 then Unix deadline else 0), fsAvailAt = (if availAt \<noteq> 0 \<and> availAt > now then Unix availAt else 0),
      fsCreatedAt = Unix now\<rparr>"

text \<open>The two parts of a push under the lock: pruning with the quotas, and writing.\<close>

definition fileAdmit :: "'c codec \<Rightarrow> gotime \<Rightarrow> string \<Rightarrow> 'c FileRelay \<Rightarrow> 'c FileRelay \<times> (relay_error + unit)" where
  "fileAdmit cd now mb r =
     (case filePrune cd now r of
        (r1, Inl e) \<Rightarrow> (r1, Inl e)
      | (r1, Inr _) \<Rightarrow>
          (r1, rbind (totalPending r1) (\<lambda>tot.
             if int tot \<ge> MaxTotalPending r1 then Inl (RelayErr ''relay: relay storage full'')
             else rbind (mailboxPending mb r1) (\<lambda>n.
               if int n \<ge> MaxPendingPerMailbox r1 then Inl (RelayErr ''relay: mailbox quota exceeded'') else Inr ()))))"

definition fileWrite :: "'c codec \<Rightarrow> push_io \<Rightarrow> string \<Rightarrow> string \<Rightarrow> fileStored \<Rightarrow> 'c FileRelay \<Rightarrow> 'c FileRelay \<times> (relay_error + unit)" where
  "fileWrite cd io mb name rec r =
     (if \<not> ioMkdir io then (r, Inl RelayStore)
      else case writeFileAtomic io name (cdMarshal cd rec) (mailFiles mb r) of (d, res) \<Rightarrow> (writeMailbox mb d r, res))"

definition FileRelay_Push :: "'c codec \<Rightarrow> push_io \<Rightarrow> gotime \<Rightarrow> PushRequest \<Rightarrow> 'c FileRelay \<Rightarrow> 'c FileRelay \<times> (relay_error + string)" where
  "FileRelay_Push cd io now req r =
     (case newMessage (ioRand io) now req of
        Inl e \<Rightarrow> (r, Inl e)
      | Inr (msg, deadline, availAt) \<Rightarrow>
          (case fileAdmit cd now (prMailbox req) r of
             (r1, Inl e) \<Rightarrow> (r1, Inl e)
           | (r1, Inr _) \<Rightarrow>
               (case fileWrite cd io (prMailbox req) (messageFileName (mgID msg)) (pushRecord now msg deadline availAt) r1 of
                  (r2, res) \<Rightarrow> (r2, rbind res (\<lambda>_. Inr (mgID msg))))))"

text \<open>What a pull does with one directory entry: it is kept or removed, and its message is taken or not.\<close>

definition pullEntry :: "'c codec \<Rightarrow> gotime \<Rightarrow> string \<times> 'c fileEntry \<Rightarrow> bool \<times> RelayMessage option" where
  "pullEntry cd now e =
     (if \<not> isMessageFile e then (True, None)
      else case recordOf cd e of
             None \<Rightarrow> (True, None)
           | Some rec \<Rightarrow>
               if fsExpired now rec then (False, None)
               else if fsEarly now rec then (True, None)
               else if Message_Validate (fsMessage rec) \<noteq> Inr () then (False, None)
               else (True, Some (fsMessage rec)))"

definition fileAvailable ::
    "'c codec \<Rightarrow> (RelayMessage list \<Rightarrow> RelayMessage list) \<Rightarrow> string \<Rightarrow> gotime \<Rightarrow> int \<Rightarrow> 'c FileRelay \<Rightarrow> 'c FileRelay \<times> RelayMessage list" where
  "fileAvailable cd ties mb now limit r =
     (case readMailbox mb r of
        Inl _ \<Rightarrow> (r, [])
      | Inr d \<Rightarrow>
          (writeMailbox mb (filter (\<lambda>e. fst (pullEntry cd now e)) d) r,
           take (nat limit) (sort_key mgReceivedAt (ties (List.map_filter (\<lambda>e. snd (pullEntry cd now e)) d)))))"

definition fileTurn ::
    "'c codec \<Rightarrow> (RelayMessage list \<Rightarrow> RelayMessage list) \<Rightarrow> string \<Rightarrow> gotime \<Rightarrow> int \<Rightarrow> 'c FileRelay \<Rightarrow> 'c FileRelay \<times> RelayMessage list" where
  "fileTurn cd ties mb now limit r = fileAvailable cd ties mb now limit (fst (filePrune cd now r))"

definition FileRelay_Pull ::
    "'c codec \<Rightarrow> (RelayMessage list \<Rightarrow> RelayMessage list) \<Rightarrow> gotime \<Rightarrow> 'c FileRelay turn list \<Rightarrow> PullRequest \<Rightarrow> 'c FileRelay \<Rightarrow> 'c FileRelay \<times> (relay_error + RelayMessage list) option" where
  "FileRelay_Pull cd ties = waitedPull (fileTurn cd ties)"

definition FileRelay_Ack :: "'c codec \<Rightarrow> gotime \<Rightarrow> AckRequest \<Rightarrow> 'c FileRelay \<Rightarrow> 'c FileRelay \<times> (relay_error + unit)" where
  "FileRelay_Ack cd now req r =
     (case AckRequest_Validate req of
        Inl e \<Rightarrow> (r, Inl e)
      | Inr _ \<Rightarrow>
          let r1 = fst (filePrune cd now r); names = map messageFileName (filter (\<lambda>i. validateMessageID i = Inr ()) (akIDs req)) in
          case readMailbox (akMailbox req) r1 of
            Inl _ \<Rightarrow> (r1, Inr ())
          | Inr d \<Rightarrow> (writeMailbox (akMailbox req) (filter (\<lambda>e. \<not> (fst e \<in> set names \<and> snd e \<noteq> SubDir)) d) r1, Inr ()))"

section \<open>The contract of a relay\<close>

text \<open>
  The operations of a store as steps: a push with what the random source and the file system give it, one turn of a pull, an acknowledgement.
\<close>

datatype 'io relay_op = DoPush 'io gotime PushRequest | DoTurn string gotime int | DoAck gotime AckRequest

datatype relay_out = Pushed "relay_error + string" | Pulled "RelayMessage list" | Acked "relay_error + unit"

fun relay_step ::
    "('io \<Rightarrow> gotime \<Rightarrow> PushRequest \<Rightarrow> 's \<Rightarrow> 's \<times> (relay_error + string)) \<Rightarrow> (string \<Rightarrow> gotime \<Rightarrow> int \<Rightarrow> 's \<Rightarrow> 's \<times> RelayMessage list) \<Rightarrow>
     (gotime \<Rightarrow> AckRequest \<Rightarrow> 's \<Rightarrow> 's \<times> (relay_error + unit)) \<Rightarrow> 'io relay_op \<Rightarrow> 's \<Rightarrow> 's \<times> relay_out" where
  "relay_step push turn ack (DoPush io now req) s = map_prod (\<lambda>x. x) Pushed (push io now req s)"
| "relay_step push turn ack (DoTurn mb now limit) s = map_prod (\<lambda>x. x) Pulled (turn mb now limit s)"
| "relay_step push turn ack (DoAck now req) s = map_prod (\<lambda>x. x) Acked (ack now req s)"

text \<open>An operation before or at a time, whose envelope survives any codec and which does not acknowledge the message.\<close>

fun harmless :: "gotime \<Rightarrow> string \<Rightarrow> string \<Rightarrow> 'io relay_op \<Rightarrow> bool" where
  "harmless t mb i (DoPush io now req) = (now \<le> t \<and> plain (prEnvelope req))"
| "harmless t mb i (DoTurn mb' now limit) = (now \<le> t)"
| "harmless t mb i (DoAck now req) = (now \<le> t \<and> \<not> (akMailbox req = mb \<and> i \<in> set (akIDs req)))"

fun timely :: "gotime \<Rightarrow> 'io relay_op \<Rightarrow> bool" where
  "timely t (DoPush io now req) = (now \<le> t \<and> plain (prEnvelope req))"
| "timely t (DoTurn mb now limit) = (now \<le> t)"
| "timely t (DoAck now req) = (now \<le> t)"

locale mailbox_relay =
  fixes push :: "'io \<Rightarrow> gotime \<Rightarrow> PushRequest \<Rightarrow> 's \<Rightarrow> 's \<times> (relay_error + string)"
    and turn :: "string \<Rightarrow> gotime \<Rightarrow> int \<Rightarrow> 's \<Rightarrow> 's \<times> RelayMessage list"
    and ack :: "gotime \<Rightarrow> AckRequest \<Rightarrow> 's \<Rightarrow> 's \<times> (relay_error + unit)"
    and live :: "gotime \<Rightarrow> string \<Rightarrow> 's \<Rightarrow> RelayMessage set"
    and due :: "gotime \<Rightarrow> PushRequest \<Rightarrow> gotime \<Rightarrow> bool"
    and good :: "'s \<Rightarrow> bool"
  assumes push_good: "good s \<Longrightarrow> plain (prEnvelope req) \<Longrightarrow> good (fst (push io now req s))"
    and turn_good: "good s \<Longrightarrow> good (fst (turn mb now limit s))"
    and ack_good: "good s \<Longrightarrow> good (fst (ack now areq s))"
    and push_keeps: "good s \<Longrightarrow> plain (prEnvelope req) \<Longrightarrow> now \<le> t \<Longrightarrow> snd (push io now req s) \<noteq> Inr (mgID m) \<Longrightarrow>
          m \<in> live t mb (fst (push io now req s)) \<longleftrightarrow> m \<in> live t mb s"
    and push_adds: "good s \<Longrightarrow> plain (prEnvelope req) \<Longrightarrow> now \<le> t \<Longrightarrow> snd (push io now req s) = Inr i \<Longrightarrow>
          (\<And>m. m \<in> live t (prMailbox req) s \<Longrightarrow> mgID m \<noteq> i) \<Longrightarrow>
          {m \<in> live t (prMailbox req) (fst (push io now req s)). mgID m = i} =
            (if due now req t then {\<lparr>mgID = i, mgMailbox = prMailbox req, mgEnvelope = prEnvelope req, mgReceivedAt = Unix now\<rparr>} else {})"
    and turn_keeps: "good s \<Longrightarrow> now \<le> t \<Longrightarrow> live t mb' (fst (turn mb now limit s)) = live t mb' s"
    and turn_live: "good s \<Longrightarrow> set (snd (turn mb now limit s)) \<subseteq> live now mb s"
    and turn_length: "good s \<Longrightarrow> length (snd (turn mb now limit s)) \<le> nat limit"
    and turn_oldest: "good s \<Longrightarrow> m \<in> live now mb s \<Longrightarrow> m \<notin> set (snd (turn mb now limit s)) \<Longrightarrow>
          length (snd (turn mb now limit s)) = nat limit \<and> (\<forall>x \<in> set (snd (turn mb now limit s)). mgReceivedAt x \<le> mgReceivedAt m)"
    and ack_removes: "good s \<Longrightarrow> now \<le> t \<Longrightarrow> snd (ack now areq s) = Inr () \<Longrightarrow>
          live t mb (fst (ack now areq s)) = live t mb s - {m. mb = akMailbox areq \<and> mgID m \<in> set (akIDs areq)}"
    and ack_error: "good s \<Longrightarrow> snd (ack now areq s) = Inl e \<Longrightarrow> fst (ack now areq s) = s"
begin

abbreviation step where "step \<equiv> relay_step push turn ack"

lemma step_good: "timely t x \<Longrightarrow> good s \<Longrightarrow> good (fst (step x s))"
  by (cases x) (simp_all add: push_good turn_good ack_good)

lemma ack_keeps: "good s \<Longrightarrow> now \<le> t \<Longrightarrow> \<not> (mb = akMailbox areq \<and> mgID m \<in> set (akIDs areq)) \<Longrightarrow> m \<in> live t mb (fst (ack now areq s)) \<longleftrightarrow> m \<in> live t mb s"
  by (cases "snd (ack now areq s)") (auto simp: ack_error ack_removes)

text \<open>Whether a message can be pulled at a time changes only by a push with its identifier and by an acknowledgement.\<close>

lemma step_keeps:
  assumes "good s" "harmless t mb (mgID m) x" "snd (step x s) \<noteq> Pushed (Inr (mgID m))"
  shows "m \<in> live t mb (fst (step x s)) \<longleftrightarrow> m \<in> live t mb s"
  using assms by (cases x) (auto simp: push_keeps turn_keeps ack_keeps)

lemma harmless_timely: "harmless t mb i x \<Longrightarrow> timely t x"
  by (cases x) auto

lemma run_keeps_held:
  assumes "good s" "list_all (harmless t mb (mgID m)) xs" "Pushed (Inr (mgID m)) \<notin> set (snd (run step xs s))"
  shows "good (fst (run step xs s)) \<and> (m \<in> live t mb (fst (run step xs s)) \<longleftrightarrow> m \<in> live t mb s)"
  using assms
proof (induction xs arbitrary: s)
  case Nil
  then show ?case by simp
next
  case (Cons x xs)
  have "good (fst (step x s))" using Cons.prems by (auto intro: step_good harmless_timely)
  then have "good (fst (run step xs (fst (step x s)))) \<and> (m \<in> live t mb (fst (run step xs (fst (step x s)))) \<longleftrightarrow> m \<in> live t mb (fst (step x s)))"
    using Cons.prems by (intro Cons.IH) (auto simp: Let_def)
  then show ?case using step_keeps[of s t mb m x] Cons.prems by (auto simp: Let_def)
qed

text \<open>Without the identifier in the mailbox, and without a push that makes it, it stays absent: acknowledgements may be repeated.\<close>

lemma run_absent:
  assumes "good s" "list_all (timely t) xs" "Pushed (Inr i) \<notin> set (snd (run step xs s))" "\<And>m. m \<in> live t mb s \<Longrightarrow> mgID m \<noteq> i"
  shows "good (fst (run step xs s)) \<and> (\<forall>m \<in> live t mb (fst (run step xs s)). mgID m \<noteq> i)"
  using assms
proof (induction xs arbitrary: s)
  case Nil
  then show ?case by simp
next
  case (Cons x xs)
  have ok: "good (fst (step x s))" using Cons.prems by (auto intro: step_good)
  have "mgID m \<noteq> i" if m: "m \<in> live t mb (fst (step x s))" for m
  proof
    assume i: "mgID m = i"
    have "m \<in> live t mb s"
    proof (cases x)
      case (DoPush io now req)
      then show ?thesis using Cons.prems i m push_keeps[of s req now t io m mb] by (auto simp: Let_def)
    next
      case (DoTurn mb' now limit)
      then show ?thesis using Cons.prems m turn_keeps[of s now t mb mb' limit] by auto
    next
      case (DoAck now areq)
      then show ?thesis using Cons.prems m ack_removes[of s now t areq mb] ack_error[of s now areq] by (cases "snd (ack now areq s)") auto
    qed
    then show False using Cons.prems(4) i by blast
  qed
  then have "good (fst (run step xs (fst (step x s)))) \<and> (\<forall>m \<in> live t mb (fst (run step xs (fst (step x s)))). mgID m \<noteq> i)"
    using Cons.prems ok by (intro Cons.IH) (auto simp: Let_def)
  then show ?case by (simp add: Let_def)
qed

lemma acked_never_pulled:
  assumes "good s" "snd (ack now areq s) = Inr ()" "i \<in> set (akIDs areq)" "now \<le> t" "list_all (timely t) xs"
    and "Pushed (Inr i) \<notin> set (snd (run step xs (fst (ack now areq s))))"
  shows "i \<notin> mgID ` set (snd (turn (akMailbox areq) t limit (fst (run step xs (fst (ack now areq s))))))"
proof -
  let ?s = "fst (ack now areq s)"
  have "good ?s" by (rule ack_good[OF assms(1)])
  moreover have "mgID m \<noteq> i" if "m \<in> live t (akMailbox areq) ?s" for m
    using that assms(3) by (auto simp: ack_removes[OF assms(1,4,2)])
  ultimately have "good (fst (run step xs ?s)) \<and> (\<forall>m \<in> live t (akMailbox areq) (fst (run step xs ?s)). mgID m \<noteq> i)"
    using assms(5,6) by (intro run_absent) auto
  then show ?thesis using turn_live[of "fst (run step xs ?s)" "akMailbox areq" t limit] by blast
qed

lemma pushed_is_pulled:
  fixes req :: PushRequest
  defines "msg i now \<equiv> \<lparr>mgID = i, mgMailbox = prMailbox req, mgEnvelope = prEnvelope req, mgReceivedAt = Unix now\<rparr>"
  assumes s: "good s" "plain (prEnvelope req)" "snd (push io now req s) = Inr i" "\<And>m. m \<in> live t (prMailbox req) s \<Longrightarrow> mgID m \<noteq> i"
    and later: "now \<le> t" "list_all (harmless t (prMailbox req) i) xs" "Pushed (Inr i) \<notin> set (snd (run step xs (fst (push io now req s))))"
    and out: "out = snd (turn (prMailbox req) t limit (fst (run step xs (fst (push io now req s)))))"
  shows "if due now req t then msg i now \<in> set out \<or> length out = nat limit \<and> (\<forall>x \<in> set out. mgReceivedAt x \<le> Unix now) else i \<notin> mgID ` set out"
proof -
  let ?s = "fst (push io now req s)" and ?mb = "prMailbox req"
  note adds = push_adds[OF s(1,2) later(1) s(3), OF s(4)]
  have ok: "good ?s" using s(1,2) by (rule push_good)
  have keep: "good (fst (run step xs ?s)) \<and> (m \<in> live t ?mb (fst (run step xs ?s)) \<longleftrightarrow> m \<in> live t ?mb ?s)" if "mgID m = i" for m
    using run_keeps_held[of ?s t ?mb m xs] ok later that by simp
  show ?thesis
  proof (cases "due now req t")
    case True
    have "msg i now \<in> live t ?mb ?s" using adds True by (auto simp: msg_def)
    then have "good (fst (run step xs ?s))" "msg i now \<in> live t ?mb (fst (run step xs ?s))" using keep[of "msg i now"] by (auto simp: msg_def)
    from turn_oldest[OF this, of limit] True show ?thesis by (auto simp: out msg_def)
  next
    case False
    have none: "m \<notin> live t ?mb (fst (run step xs ?s))" if "mgID m = i" for m
      using keep[OF that] adds False that by auto
    have "good (fst (run step xs ?s))" using keep[of "msg i now"] by (auto simp: msg_def)
    from turn_live[OF this, of ?mb t limit] none False show ?thesis unfolding out by auto
  qed
qed

end

section \<open>The store in memory keeps the contract\<close>

definition memLive :: "gotime \<Rightarrow> string \<Rightarrow> MemoryRelay \<Rightarrow> RelayMessage set" where
  "memLive t mb r = sdMsg ` {x \<in> set (queueFor mb r). \<not> sdExpired t x \<and> \<not> sdEarly t x}"

text \<open>When a pushed message can be pulled: until its deadline and from the end of its delay on.\<close>

definition memDue :: "gotime \<Rightarrow> PushRequest \<Rightarrow> gotime \<Rightarrow> bool" where
  "memDue now req t \<longleftrightarrow> (prTTLSec req = 0 \<or> t \<le> now + prTTLSec req * second) \<and> now + prDelaySec req * second \<le> t"

definition memGood :: "MemoryRelay \<Rightarrow> bool" where "memGood r \<longleftrightarrow> distinct (map fst (mailboxQ r))"

lemma map_of_filter_map:
  "distinct (map fst m) \<Longrightarrow>
     map_of (filter (\<lambda>(k, v). P v) (map (\<lambda>(k, v). (k, f v)) m)) k = (case map_of m k of None \<Rightarrow> None | Some v \<Rightarrow> if P (f v) then Some (f v) else None)"
  by (induction m) (auto split: option.splits simp: map_of_eq_None_iff rev_image_eqI, (metis fst_conv image_eqI map_of_SomeD option.distinct(1))?)

lemma queueFor_prune: "memGood r \<Longrightarrow> queueFor mb (memPrune now r) = filter (\<lambda>x. \<not> sdExpired now x) (queueFor mb r)"
  using map_of_filter_map[of "mailboxQ r" "\<lambda>q. q \<noteq> []" "filter (\<lambda>x. \<not> sdExpired now x)" mb]
  by (auto simp: queueFor_def memPrune_def memGood_def split: option.splits)

lemma queueFor_update [simp]: "queueFor mb (r\<lparr>mailboxQ := AList.update mb' q m\<rparr>) = (if mb = mb' then q else queueFor mb (r\<lparr>mailboxQ := m\<rparr>))"
  by (simp add: queueFor_def)

lemma memPrune_good: "memGood r \<Longrightarrow> memGood (memPrune now r)"
  by (auto simp: memGood_def memPrune_def comp_def case_prod_unfold intro!: distinct_keys_filter)

lemma update_good: "memGood r \<Longrightarrow> memGood (r\<lparr>mailboxQ := AList.update mb q (mailboxQ r)\<rparr>)"
  by (simp add: memGood_def distinct_update)

lemma sdExpired_mono: "sdExpired now x \<Longrightarrow> now \<le> t \<Longrightarrow> sdExpired t x"
  by (simp add: sdExpired_def)

lemma memLive_prune: "memGood r \<Longrightarrow> now \<le> t \<Longrightarrow> memLive t mb (memPrune now r) = memLive t mb r"
  by (auto simp: memLive_def queueFor_prune dest: sdExpired_mono)

text \<open>What a push is made of: the clock is past the epoch, the deadline is set exactly when there is a time to live.\<close>

lemma newMessage_props:
  assumes "newMessage rnd now req = Inr (msg, deadline, availAt)"
  shows "msg = \<lparr>mgID = mgID msg, mgMailbox = prMailbox req, mgEnvelope = prEnvelope req, mgReceivedAt = Unix now\<rparr>"
    and "Message_Validate msg = Inr ()" and "plain (mgID msg)" and "plain (mgMailbox msg)" and "0 < Unix now" and "0 < now"
    and "deadline = (if prTTLSec req = 0 then 0 else now + prTTLSec req * second)" and "0 \<le> prTTLSec req"
    and "availAt = now + prDelaySec req * second" and "0 \<le> prDelaySec req"
proof -
  have mb: "plain m" if "validateMailboxID m = Inr ()" for m
    using that by (auto simp: validateMailboxID_def plain_def plain_char_def mailboxChar_def Let_def list_all_iff split: if_splits)
  note defs = newMessage_def Message_Validate_def TTLDeadline_def newMessageID_def PushRequest_Validate_def Let_def
  show "msg = \<lparr>mgID = mgID msg, mgMailbox = prMailbox req, mgEnvelope = prEnvelope req, mgReceivedAt = Unix now\<rparr>"
    "Message_Validate msg = Inr ()" "plain (mgID msg)" "plain (mgMailbox msg)"
    "deadline = (if prTTLSec req = 0 then 0 else now + prTTLSec req * second)" "0 \<le> prTTLSec req"
    "availAt = now + prDelaySec req * second" "0 \<le> prDelaySec req"
    using assms mb by (auto simp: defs split: if_splits option.splits)
  show u: "0 < Unix now" using assms by (auto simp: defs split: if_splits option.splits)
  then have "0 < now div second" by (simp add: Unix_def unix_offset_def)
  then show "0 < now" by (simp add: second_def pos_imp_zdiv_pos_iff)
qed

lemma sdLive_new:
  assumes "newMessage rnd now req = Inr (msg, deadline, availAt)"
  shows "\<not> sdExpired t \<lparr>sdMsg = msg, sdDeadline = deadline, sdAvailAt = availAt\<rparr> \<and> \<not> sdEarly t \<lparr>sdMsg = msg, sdDeadline = deadline, sdAvailAt = availAt\<rparr> \<longleftrightarrow>
    memDue now req t"
  using newMessage_props(6-10)[OF assms] by (auto simp: sdExpired_def sdEarly_def memDue_def second_def)

lemma memLive_push:
  assumes "newMessage rnd now req = Inr (msg, deadline, availAt)" "memGood r" "now \<le> t"
  shows "memLive t mb (fst (MemoryRelay_Push rnd now req r)) = memLive t mb r \<union> (if mb = prMailbox req \<and> memDue now req t then {msg} else {})"
proof -
  have "memLive t mb (fst (MemoryRelay_Push rnd now req r)) =
      memLive t mb (memPrune now r) \<union> (if mb = prMailbox req \<and> memDue now req t then {msg} else {})"
    using assms(1) sdLive_new[OF assms(1), of t]
    by (auto simp: MemoryRelay_Push_def Let_def memLive_def
        intro: rev_image_eqI[of "\<lparr>sdMsg = msg, sdDeadline = deadline, sdAvailAt = availAt\<rparr>"])
  then show ?thesis by (simp add: memLive_prune assms(2,3))
qed

text \<open>The order \<^verbatim>\<open>sort.Slice\<close> makes of equal elements, whatever it is.\<close>

locale memory_store =
  fixes ties :: "stored list \<Rightarrow> stored list"
  assumes ties_perm: "mset (ties xs) = mset xs"
begin

lemma set_ties: "set (ties xs) = set xs"
  using ties_perm mset_eq_setD by blast

end

text \<open>What the first elements of a sorted list are.\<close>

lemma take_sort_oldest:
  assumes "x \<in> set xs" "x \<notin> set (take n (sort_key f xs))"
  shows "length (take n (sort_key f xs)) = n \<and> (\<forall>y \<in> set (take n (sort_key f xs)). f y \<le> f x)"
proof -
  let ?s = "sort_key f xs"
  have "x \<in> set (drop n ?s)" using assms by (metis Un_iff append_take_drop_id set_append set_sort)
  moreover have "sorted (map f (take n ?s @ drop n ?s))" by simp
  ultimately show ?thesis unfolding map_append sorted_append by (cases "n \<le> length ?s") auto
qed

sublocale memory_store \<subseteq> mem: mailbox_relay MemoryRelay_Push "memTurn ties" MemoryRelay_Ack memLive memDue memGood
proof (unfold_locales, goal_cases)
  case (1 s req io now)
  then show ?case by (auto simp: MemoryRelay_Push_def Let_def memPrune_good update_good split: sum.splits)
next
  case (2 s mb now limit)
  then show ?case by (simp add: memTurn_def Let_def memPrune_good)
next
  case (3 s now areq)
  then show ?case by (auto simp: MemoryRelay_Ack_def Let_def memPrune_good update_good split: sum.splits)
next
  case (4 s req now t io m mb)
  then show ?case
  proof (cases "newMessage io now req")
    case (Inl e)
    then show ?thesis by (simp add: MemoryRelay_Push_def)
  next
    case (Inr x)
    obtain msg dl av where x: "x = (msg, dl, av)" by (cases x)
    show ?thesis using 4 Inr memLive_push[of io now req msg dl av s t mb] by (auto simp: x MemoryRelay_Push_def Let_def split: if_splits)
  qed
next
  case (5 s req now t io i)
  then obtain msg dl av where nm: "newMessage io now req = Inr (msg, dl, av)" "mgID msg = i"
    by (auto simp: MemoryRelay_Push_def Let_def split: sum.splits)
  have "msg = \<lparr>mgID = i, mgMailbox = prMailbox req, mgEnvelope = prEnvelope req, mgReceivedAt = Unix now\<rparr>"
    using newMessage_props(1)[OF nm(1)] nm(2) by simp
  then show ?case using 5 memLive_push[OF nm(1), of s t "prMailbox req"] by auto
next
  case (6 s now t mb' mb limit)
  then show ?case by (simp add: memTurn_def Let_def memLive_prune)
next
  case (7 s mb now limit)
  then show ?case
    by (auto simp: memTurn_def Let_def memAvailable_def memLive_def queueFor_prune set_ties dest!: in_set_takeD)
next
  case (8 s mb now limit)
  then show ?case by (simp add: memTurn_def Let_def memAvailable_def)
next
  case (9 s m now mb limit)
  let ?xs = "ties (filter (\<lambda>x. \<not> sdEarly now x) (queueFor mb (memPrune now s)))"
  obtain x where x: "m = sdMsg x" "x \<in> set ?xs" using 9 by (auto simp: memLive_def queueFor_prune set_ties)
  have "x \<notin> set (take (nat limit) (sort_key (\<lambda>x. mgReceivedAt (sdMsg x)) ?xs))"
    using 9(3) x(1) by (auto simp: memTurn_def Let_def memAvailable_def)
  from take_sort_oldest[OF x(2) this] show ?case by (simp add: memTurn_def Let_def memAvailable_def x(1))
next
  case (10 s now t areq mb)
  then have "AckRequest_Validate areq = Inr ()" by (auto simp: MemoryRelay_Ack_def split: sum.splits)
  then have "memLive t mb (fst (MemoryRelay_Ack now areq s)) =
      memLive t mb (memPrune now s) - {m. mb = akMailbox areq \<and> mgID m \<in> set (akIDs areq)}"
    by (auto simp: MemoryRelay_Ack_def Let_def memLive_def)
  with 10 show ?case by (simp add: memLive_prune)
next
  case (11 s now areq e)
  then show ?case by (auto simp: MemoryRelay_Ack_def Let_def split: sum.splits if_splits)
qed

interpretation stable: memory_store "\<lambda>xs. xs"
  by unfold_locales simp

section \<open>The store in files keeps the contract\<close>

text \<open>The messages that a pull finds in a directory at a time.\<close>

definition dirLive :: "'c codec \<Rightarrow> gotime \<Rightarrow> 'c directory \<Rightarrow> RelayMessage set" where
  "dirLive cd t d = {m. \<exists>e \<in> set d. snd (pullEntry cd t e) = Some m}"

definition fileLive :: "'c codec \<Rightarrow> gotime \<Rightarrow> string \<Rightarrow> 'c FileRelay \<Rightarrow> RelayMessage set" where
  "fileLive cd t mb r = dirLive cd t (mailFiles mb r)"

text \<open>Deadlines and delays are kept in whole seconds: a message expires at the beginning of the second of its deadline.\<close>

definition fileDue :: "gotime \<Rightarrow> PushRequest \<Rightarrow> gotime \<Rightarrow> bool" where
  "fileDue now req t \<longleftrightarrow>
     (prTTLSec req = 0 \<or> Unix t < Unix (now + prTTLSec req * second)) \<and> (prDelaySec req = 0 \<or> Unix (now + prDelaySec req * second) \<le> Unix t)"

text \<open>Names are unique in a directory, and the name of a message file is that of the message in it.\<close>

definition goodDir :: "'c codec \<Rightarrow> 'c directory \<Rightarrow> bool" where
  "goodDir cd d \<longleftrightarrow> distinct (map fst d) \<and>
     (\<forall>e \<in> set d. isMessageFile e \<longrightarrow> (case recordOf cd e of None \<Rightarrow> True | Some rec \<Rightarrow> fst e = messageFileName (mgID (fsMessage rec))))"

definition baseKeys :: "'c FileRelay \<Rightarrow> bool" where
  "baseKeys r \<longleftrightarrow> (case baseDir r of None \<Rightarrow> True | Some es \<Rightarrow> distinct (map fst es))"

definition fileGood :: "'c codec \<Rightarrow> 'c FileRelay \<Rightarrow> bool" where
  "fileGood cd r \<longleftrightarrow> baseKeys r \<and> (\<forall>mb. goodDir cd (mailFiles mb r))"

lemma mailboxDir_inject [simp]: "mailboxDir a = mailboxDir b \<longleftrightarrow> a = b"
  by (simp add: mailboxDir_def)

lemma isMailDir_mailboxDir [simp]: "isMailDir (mailboxDir mb)"
  by (simp add: isMailDir_def mailboxDir_def leads_def)

lemma messageFileName_inject [simp]: "messageFileName a = messageFileName b \<longleftrightarrow> a = b"
  by (simp add: messageFileName_def)

lemma isMessageFile_name [simp]: "isMessageFile (messageFileName i, Content c)"
  by (simp add: isMessageFile_def messageFileName_def leads_def)

lemma isMessageFile_tmp [simp]: "\<not> isMessageFile (tempName x, e)"
  by (simp add: isMessageFile_def leads_def tempName_def)

lemma mailFiles_write [simp]: "mailFiles mb' (writeMailbox mb d r) = (if mb' = mb then d else mailFiles mb' r)"
  by (simp add: mailFiles_def readMailbox_def writeMailbox_def split: option.splits)

lemma prunedEntry_key: "prunedEntry cd now e = Some x \<Longrightarrow> fst x = fst e"
  by (auto simp: prunedEntry_def Let_def split: prod.splits baseEntry.splits option.splits if_splits)

lemma keys_prunedEntries_subset: "fst ` set (List.map_filter (prunedEntry cd now) es) \<subseteq> fst ` set es"
proof (induction es)
  case (Cons e es)
  then show ?case using prunedEntry_key[of cd now e] by (cases "prunedEntry cd now e") (auto simp: List.map_filter_simps)
qed (simp add: List.map_filter_simps)

lemma map_of_prunedEntries:
  "distinct (map fst es) \<Longrightarrow>
     map_of (List.map_filter (prunedEntry cd now) es) k = Option.bind (map_of es k) (\<lambda>b. map_option snd (prunedEntry cd now (k, b)))"
proof (induction es)
  case (Cons e es)
  obtain n b where e: "e = (n, b)" by (cases e)
  have none: "map_of (List.map_filter (prunedEntry cd now) es) n = None"
    using Cons.prems keys_prunedEntries_subset[of cd now es] by (auto simp: map_of_eq_None_iff e)
  have IH: "map_of (List.map_filter (prunedEntry cd now) es) k = Option.bind (map_of es k) (\<lambda>b. map_option snd (prunedEntry cd now (k, b)))"
    using Cons by simp
  show ?case
  proof (cases "prunedEntry cd now (n, b)")
    case None
    then show ?thesis using none IH by (cases "k = n") (simp_all add: List.map_filter_simps e)
  next
    case (Some x)
    with prunedEntry_key[OF Some] obtain b' where "x = (n, b')" by (cases x) simp
    then show ?thesis using Some IH by (cases "k = n") (simp_all add: List.map_filter_simps e)
  qed
qed (simp add: List.map_filter_simps)

lemma keys_prunedEntries: "distinct (map fst es) \<Longrightarrow> distinct (map fst (List.map_filter (prunedEntry cd now) es))"
proof (induction es)
  case (Cons e es)
  show ?case
  proof (cases "prunedEntry cd now e")
    case None
    then show ?thesis using Cons by (simp add: List.map_filter_simps)
  next
    case (Some x)
    then have "fst x \<notin> fst ` set (List.map_filter (prunedEntry cd now) es)"
      using Cons.prems keys_prunedEntries_subset[of cd now es] prunedEntry_key[OF Some] by auto
    then show ?thesis using Cons Some by (simp add: List.map_filter_simps)
  qed
qed (simp add: List.map_filter_simps)

lemma mailFiles_prune:
  assumes "fileGood cd r"
  shows "mailFiles mb (fst (filePrune cd now r)) = prunedDir cd now (mailFiles mb r)"
proof (cases "baseDir r")
  case None
  then show ?thesis by (simp add: filePrune_def mailFiles_def readMailbox_def prunedDir_def)
next
  case (Some es)
  then have "distinct (map fst es)" using assms by (simp add: fileGood_def baseKeys_def)
  from map_of_prunedEntries[OF this, of cd now "mailboxDir mb"] Some show ?thesis
    by (auto simp: filePrune_def mailFiles_def readMailbox_def prunedEntry_def prunedDir_def Let_def
        split: option.splits baseEntry.splits if_splits)
qed

lemma Unix_mono: "s \<le> t \<Longrightarrow> Unix s \<le> Unix t"
  by (simp add: Unix_def second_def zdiv_mono1)

lemma fsExpired_mono: "fsExpired now rec \<Longrightarrow> now \<le> t \<Longrightarrow> fsExpired t rec"
  using Unix_mono[of now t] by (auto simp: fsExpired_def)

text \<open>A file that can still be pulled later is kept by pruning and by a pull.\<close>

lemma pullEntry_kept:
  assumes "snd (pullEntry cd t e) = Some m" "now \<le> t"
  shows "fst (pullEntry cd now e)" "isMessageFile e" "\<exists>rec. recordOf cd e = Some rec \<and> fsMessage rec = m \<and> \<not> fsExpired now rec \<and> Message_Validate m = Inr ()"
proof -
  have r: "isMessageFile e" "\<exists>rec. recordOf cd e = Some rec \<and> fsMessage rec = m \<and> \<not> fsExpired t rec \<and> Message_Validate m = Inr ()"
    using assms(1) by (auto simp: pullEntry_def split: if_splits option.splits)
  then show "isMessageFile e" "\<exists>rec. recordOf cd e = Some rec \<and> fsMessage rec = m \<and> \<not> fsExpired now rec \<and> Message_Validate m = Inr ()"
    using fsExpired_mono assms(2) by blast+
  then show "fst (pullEntry cd now e)" by (auto simp: pullEntry_def)
qed

lemma dirLive_prune: "now \<le> t \<Longrightarrow> dirLive cd t (prunedDir cd now d) = dirLive cd t d"
  using pullEntry_kept(3) unfolding dirLive_def prunedDir_def by fastforce

lemma dirLive_pulled: "now \<le> t \<Longrightarrow> dirLive cd t (filter (\<lambda>e. fst (pullEntry cd now e)) d) = dirLive cd t d"
  using pullEntry_kept(1) unfolding dirLive_def by fastforce

lemma fileLive_prune: "fileGood cd r \<Longrightarrow> now \<le> t \<Longrightarrow> fileLive cd t mb (fst (filePrune cd now r)) = fileLive cd t mb r"
  by (simp add: fileLive_def mailFiles_prune dirLive_prune)

lemma goodDir_filter: "goodDir cd d \<Longrightarrow> goodDir cd (filter P d)"
  by (auto simp: goodDir_def intro: distinct_keys_filter)

lemma fileGood_prune:
  assumes "fileGood cd r"
  shows "fileGood cd (fst (filePrune cd now r))"
proof -
  have "baseKeys (fst (filePrune cd now r))"
    using assms by (auto simp: fileGood_def baseKeys_def filePrune_def keys_prunedEntries split: option.splits)
  moreover have "goodDir cd (prunedDir cd now (mailFiles mb r))" for mb
    unfolding prunedDir_def using assms by (intro goodDir_filter) (simp add: fileGood_def)
  ultimately show ?thesis by (simp add: fileGood_def mailFiles_prune[OF assms])
qed

lemma fileGood_write:
  assumes "fileGood cd r" "goodDir cd d"
  shows "fileGood cd (writeMailbox mb d r)"
proof -
  have "baseKeys (writeMailbox mb d r)"
    using assms(1) by (auto simp: fileGood_def baseKeys_def writeMailbox_def distinct_update split: option.splits)
  then show ?thesis using assms by (simp add: fileGood_def)
qed

text \<open>The codec gives back what it encoded when the strings are plain text.\<close>

locale relay_codec =
  fixes cd :: "'c codec" and ties :: "RelayMessage list \<Rightarrow> RelayMessage list"
  assumes decode: "plain (mgID (fsMessage rec)) \<Longrightarrow> plain (mgMailbox (fsMessage rec)) \<Longrightarrow> plain (mgEnvelope (fsMessage rec)) \<Longrightarrow>
      cdUnmarshal cd (cdMarshal cd rec) = Some rec"
    and ties_perm: "mset (ties xs) = mset xs"
begin

lemma set_ties: "set (ties xs) = set xs"
  using ties_perm mset_eq_setD by blast

end

lemma set_update_distinct: "distinct (map fst d) \<Longrightarrow> set (AList.update k v d) = insert (k, v) {e \<in> set d. fst e \<noteq> k}"
  by (induction d) force+

lemma pushRecord_due:
  assumes "newMessage rnd now req = Inr (msg, deadline, availAt)"
  shows "\<not> fsExpired t (pushRecord now msg deadline availAt) \<and> \<not> fsEarly t (pushRecord now msg deadline availAt) \<longleftrightarrow> fileDue now req t"
proof -
  note p = newMessage_props[OF assms]
  have later: "0 < Unix (now + x * second)" if "0 \<le> x" for x
    using p(5) Unix_mono[of now "now + x * second"] that by (simp add: second_def)
  have "now + prDelaySec req * second > now \<longleftrightarrow> prDelaySec req \<noteq> 0" using p(10) by (auto simp: second_def)
  moreover have "now + prTTLSec req * second \<noteq> 0" "now + prDelaySec req * second \<noteq> 0"
    using p(6,8,10) by (auto simp: second_def)
  ultimately show ?thesis using later[OF p(8)] later[OF p(10)] by (auto simp: pushRecord_def fsExpired_def fsEarly_def fileDue_def p(7,9))
qed

text \<open>A push that fails changes what can be pulled no more than pruning does.\<close>

lemma fileAdmit_fst: "fst (fileAdmit cd now mb r) = fst (filePrune cd now r)"
  by (simp add: fileAdmit_def split: prod.splits sum.splits)

lemma goodDir_delete: "goodDir cd d \<Longrightarrow> goodDir cd (AList.delete k d)"
  by (simp add: AList.delete_eq goodDir_filter)

lemma dirLive_delete_tmp: "dirLive cd t (AList.delete (tempName x) d) = dirLive cd t d"
proof -
  have "e \<in> set (AList.delete (tempName x) d) \<longleftrightarrow> e \<in> set d" if "snd (pullEntry cd t e) = Some m" for e m
    using pullEntry_kept(2)[OF that order_refl] isMessageFile_tmp[of x] by (cases e) (auto simp: AList.delete_eq)
  then show ?thesis by (auto simp: dirLive_def)
qed

lemma goodDir_update:
  assumes "goodDir cd d" "cdUnmarshal cd c = Some rec" "k = messageFileName (mgID (fsMessage rec))"
  shows "goodDir cd (AList.update k (Content c) d)"
proof -
  have "e = (k, Content c) \<or> e \<in> set d" if "e \<in> set (AList.update k (Content c) d)" for e
    using that set_update_subset by fast
  then show ?thesis using assms by (fastforce simp: goodDir_def distinct_update recordOf_def)
qed

lemma fileWrite_failed:
  assumes "fileGood cd r" "fileWrite cd io mb name rec r = (r', Inl e)"
  shows "fileGood cd r' \<and> (\<forall>t mb. fileLive cd t mb r' = fileLive cd t mb r)"
proof -
  have "goodDir cd (mailFiles mb r)" using assms(1) by (simp add: fileGood_def)
  then show ?thesis using assms
    by (auto simp: fileWrite_def writeFileAtomic_def fileLive_def dirLive_delete_tmp goodDir_delete fileGood_write split: if_splits option.splits)
qed

lemma fileWrite_done:
  assumes good: "fileGood cd r" and w: "fileWrite cd io mb (messageFileName (mgID (fsMessage rec))) rec r = (r', Inr u)"
    and dec: "cdUnmarshal cd (cdMarshal cd rec) = Some rec" and ok: "Message_Validate (fsMessage rec) = Inr ()"
  shows "fileGood cd r'"
    and "mgID m \<noteq> mgID (fsMessage rec) \<Longrightarrow> m \<in> fileLive cd t mb' r' \<longleftrightarrow> m \<in> fileLive cd t mb' r"
    and "(\<And>m. m \<in> fileLive cd t mb r \<Longrightarrow> mgID m \<noteq> mgID (fsMessage rec)) \<Longrightarrow>
      {m \<in> fileLive cd t mb r'. mgID m = mgID (fsMessage rec)} = (if \<not> fsExpired t rec \<and> \<not> fsEarly t rec then {fsMessage rec} else {})"
proof -
  let ?k = "messageFileName (mgID (fsMessage rec))"
  have g: "goodDir cd (mailFiles mb r)" using good by (simp add: fileGood_def)
  obtain tmp where r': "r' = writeMailbox mb (AList.update ?k (Content (cdMarshal cd rec)) (AList.delete (tempName tmp) (mailFiles mb r))) r"
    using w by (auto simp: fileWrite_def writeFileAtomic_def split: if_splits option.splits)
  define d where "d = AList.delete (tempName tmp) (mailFiles mb r)"
  have gd: "goodDir cd d" unfolding d_def using g by (rule goodDir_delete)
  have live: "dirLive cd t d = fileLive cd t mb r" for t by (simp add: d_def dirLive_delete_tmp fileLive_def)
  show "fileGood cd r'" unfolding r' using good goodDir_update[OF gd dec refl] by (simp add: fileGood_write d_def)
  have entry: "snd (pullEntry cd t (?k, Content (cdMarshal cd rec))) = (if \<not> fsExpired t rec \<and> \<not> fsEarly t rec then Some (fsMessage rec) else None)" for t
    by (simp add: pullEntry_def recordOf_def dec ok)
  have old: "fst e \<noteq> ?k \<longleftrightarrow> mgID m \<noteq> mgID (fsMessage rec)" if "e \<in> set d" "snd (pullEntry cd t e) = Some m" for e m t
    using gd pullEntry_kept[OF that(2) order_refl] that(1) by (auto simp: goodDir_def)
  have "set (AList.update ?k (Content (cdMarshal cd rec)) d) = insert (?k, Content (cdMarshal cd rec)) {e \<in> set d. fst e \<noteq> ?k}"
    using gd by (intro set_update_distinct) (simp add: goodDir_def)
  then have new: "m \<in> fileLive cd t mb r' \<longleftrightarrow>
      (\<not> fsExpired t rec \<and> \<not> fsEarly t rec \<and> m = fsMessage rec) \<or> (m \<in> fileLive cd t mb r \<and> mgID m \<noteq> mgID (fsMessage rec))" for m t
    unfolding live[symmetric] using entry[of t] old by (fastforce simp: r' fileLive_def dirLive_def d_def[symmetric] split: if_splits)
  show "mgID m \<noteq> mgID (fsMessage rec) \<Longrightarrow> m \<in> fileLive cd t mb' r' \<longleftrightarrow> m \<in> fileLive cd t mb' r"
    using new by (cases "mb' = mb") (auto simp: r' fileLive_def)
  show "(\<And>m. m \<in> fileLive cd t mb r \<Longrightarrow> mgID m \<noteq> mgID (fsMessage rec)) \<Longrightarrow>
      {m \<in> fileLive cd t mb r'. mgID m = mgID (fsMessage rec)} = (if \<not> fsExpired t rec \<and> \<not> fsEarly t rec then {fsMessage rec} else {})"
    by (auto simp: new)
qed

lemma fileTurn_props:
  assumes "fileGood cd r"
  shows "fileGood cd (fst (fileTurn cd ties mb now limit r))"
    and "now \<le> t \<Longrightarrow> fileLive cd t mb' (fst (fileTurn cd ties mb now limit r)) = fileLive cd t mb' r"
    and "snd (fileTurn cd ties mb now limit r) =
      take (nat limit) (sort_key mgReceivedAt (ties (List.map_filter (\<lambda>e. snd (pullEntry cd now e)) (mailFiles mb (fst (filePrune cd now r)))))) \<or>
      snd (fileTurn cd ties mb now limit r) = [] \<and> mailFiles mb (fst (filePrune cd now r)) = []"
proof -
  let ?r = "fst (filePrune cd now r)"
  have g: "fileGood cd ?r" by (rule fileGood_prune[OF assms])
  then have gd: "goodDir cd (filter (\<lambda>e. fst (pullEntry cd now e)) (mailFiles mb ?r))" by (simp add: fileGood_def goodDir_filter)
  show "fileGood cd (fst (fileTurn cd ties mb now limit r))"
    using g fileGood_write[OF g gd, of mb] by (auto simp: fileTurn_def fileAvailable_def mailFiles_def split: sum.splits)
  show "fileLive cd t mb' (fst (fileTurn cd ties mb now limit r)) = fileLive cd t mb' r" if "now \<le> t"
    using dirLive_pulled[OF that, of cd "mailFiles mb ?r"] fileLive_prune[OF assms that, of mb']
    by (auto simp: fileTurn_def fileAvailable_def fileLive_def mailFiles_def[of mb ?r] split: sum.splits)
  show "snd (fileTurn cd ties mb now limit r) =
      take (nat limit) (sort_key mgReceivedAt (ties (List.map_filter (\<lambda>e. snd (pullEntry cd now e)) (mailFiles mb ?r)))) \<or>
      snd (fileTurn cd ties mb now limit r) = [] \<and> mailFiles mb ?r = []"
    by (simp add: fileTurn_def fileAvailable_def mailFiles_def split: sum.splits)
qed

lemma set_pulled: "set (List.map_filter (\<lambda>e. snd (pullEntry cd now e)) d) = dirLive cd now d"
  by (force simp: map_filter_def dirLive_def)

lemma fileAck_props:
  assumes "fileGood cd r"
  shows "fileGood cd (fst (FileRelay_Ack cd now areq r))"
    and "now \<le> t \<Longrightarrow> snd (FileRelay_Ack cd now areq r) = Inr () \<Longrightarrow>
      fileLive cd t mb (fst (FileRelay_Ack cd now areq r)) = fileLive cd t mb r - {m. mb = akMailbox areq \<and> mgID m \<in> set (akIDs areq)}"
    and "snd (FileRelay_Ack cd now areq r) = Inl e \<Longrightarrow> fst (FileRelay_Ack cd now areq r) = r"
proof -
  let ?r = "fst (filePrune cd now r)"
  let ?names = "map messageFileName (filter (\<lambda>i. validateMessageID i = Inr ()) (akIDs areq))"
  let ?keep = "filter (\<lambda>e. \<not> (fst e \<in> set ?names \<and> snd e \<noteq> SubDir))"
  have g: "fileGood cd ?r" by (rule fileGood_prune[OF assms])
  have gd: "goodDir cd (mailFiles mb ?r)" for mb using g by (simp add: fileGood_def)
  have read: "readMailbox mb ?r = Inr d \<Longrightarrow> goodDir cd d" for mb d using gd[of mb] by (simp add: mailFiles_def)
  show "fileGood cd (fst (FileRelay_Ack cd now areq r))"
    using assms g by (auto simp: FileRelay_Ack_def Let_def intro!: fileGood_write goodDir_filter dest: read split: sum.splits)
  show "snd (FileRelay_Ack cd now areq r) = Inl e \<Longrightarrow> fst (FileRelay_Ack cd now areq r) = r"
    by (auto simp: FileRelay_Ack_def Let_def split: sum.splits)
  assume t: "now \<le> t" and ok: "snd (FileRelay_Ack cd now areq r) = Inr ()"
  have kept: "(fst e \<in> set ?names \<and> snd e \<noteq> SubDir) \<longleftrightarrow> mgID m \<in> set (akIDs areq)"
    if "e \<in> set (mailFiles mb ?r)" "snd (pullEntry cd t e) = Some m" for e m
  proof -
    have k: "fst e = messageFileName (mgID m)" "isMessageFile e" "validateMessageID (mgID m) = Inr ()"
      using gd[of mb] that(1) pullEntry_kept[OF that(2) order_refl] by (auto simp: goodDir_def Message_Validate_def)
    show ?thesis using k(2,3) unfolding k(1) by (auto simp: isMessageFile_def)
  qed
  have "AckRequest_Validate areq = Inr ()" using ok by (auto simp: FileRelay_Ack_def split: sum.splits)
  then have "fileLive cd t mb (fst (FileRelay_Ack cd now areq r)) = (if mb = akMailbox areq then dirLive cd t (?keep (mailFiles mb ?r)) else fileLive cd t mb ?r)"
    by (auto simp: FileRelay_Ack_def Let_def fileLive_def mailFiles_def[of "akMailbox areq" ?r] split: sum.splits)
  also have "\<dots> = fileLive cd t mb ?r - {m. mb = akMailbox areq \<and> mgID m \<in> set (akIDs areq)}"
  proof -
    have "m \<in> dirLive cd t (?keep (mailFiles mb ?r)) \<longleftrightarrow> m \<in> dirLive cd t (mailFiles mb ?r) \<and> mgID m \<notin> set (akIDs areq)" for m
      unfolding dirLive_def set_filter using kept by blast
    then show ?thesis by (auto simp: fileLive_def)
  qed
  finally show "fileLive cd t mb (fst (FileRelay_Ack cd now areq r)) = fileLive cd t mb r - {m. mb = akMailbox areq \<and> mgID m \<in> set (akIDs areq)}"
    by (simp add: fileLive_prune[OF assms t])
qed

text \<open>The two outcomes of a push: an error, after which only pruning happened, or the message is in its file.\<close>

lemma FileRelay_Push_failed:
  assumes "fileGood cd r" "snd (FileRelay_Push cd io now req r) = Inl e"
  shows "fileGood cd (fst (FileRelay_Push cd io now req r)) \<and>
    (\<forall>t mb. now \<le> t \<longrightarrow> fileLive cd t mb (fst (FileRelay_Push cd io now req r)) = fileLive cd t mb r)"
proof (cases "newMessage (ioRand io) now req")
  case (Inl a)
  then show ?thesis using assms(1) by (simp add: FileRelay_Push_def)
next
  case (Inr x)
  obtain msg dl av where x: "x = (msg, dl, av)" by (cases x)
  let ?r1 = "fst (filePrune cd now r)"
  obtain adm where adm: "fileAdmit cd now (prMailbox req) r = (?r1, adm)"
    by (metis fileAdmit_fst prod.collapse)
  have g: "fileGood cd ?r1" by (rule fileGood_prune[OF assms(1)])
  show ?thesis
  proof (cases adm)
    case (Inl a)
    then show ?thesis using g by (simp add: FileRelay_Push_def Inr x adm fileLive_prune[OF assms(1)])
  next
    case (Inr u)
    obtain r2 res where w: "fileWrite cd io (prMailbox req) (messageFileName (mgID msg)) (pushRecord now msg dl av) ?r1 = (r2, res)" by fastforce
    then have push: "FileRelay_Push cd io now req r = (r2, rbind res (\<lambda>_. Inr (mgID msg)))"
      by (simp add: FileRelay_Push_def \<open>newMessage _ _ _ = _\<close> x adm Inr)
    then have "\<exists>a. res = Inl a" using assms(2) by (cases res) auto
    then show ?thesis using fileWrite_failed[OF g] w push fileLive_prune[OF assms(1)] by fastforce
  qed
qed

lemma FileRelay_Push_done:
  assumes "snd (FileRelay_Push cd io now req r) = Inr i"
  obtains msg dl av u where "newMessage (ioRand io) now req = Inr (msg, dl, av)" "mgID msg = i" "snd (fileAdmit cd now (prMailbox req) r) = Inr ()"
    "fileWrite cd io (prMailbox req) (messageFileName (mgID (fsMessage (pushRecord now msg dl av)))) (pushRecord now msg dl av) (fst (filePrune cd now r)) =
       (fst (FileRelay_Push cd io now req r), Inr u)"
proof -
  obtain msg dl av where nm: "newMessage (ioRand io) now req = Inr (msg, dl, av)"
    using assms by (auto simp: FileRelay_Push_def split: sum.splits)
  obtain adm where adm: "fileAdmit cd now (prMailbox req) r = (fst (filePrune cd now r), adm)"
    by (metis fileAdmit_fst prod.collapse)
  then have admi: "adm = Inr ()" using assms nm by (cases adm) (auto simp: FileRelay_Push_def)
  obtain r2 res where w: "fileWrite cd io (prMailbox req) (messageFileName (mgID msg)) (pushRecord now msg dl av) (fst (filePrune cd now r)) = (r2, res)"
    by fastforce
  have push: "FileRelay_Push cd io now req r = (r2, rbind res (\<lambda>_. Inr (mgID msg)))" by (simp add: FileRelay_Push_def nm adm admi w)
  then obtain u where "res = Inr u" "mgID msg = i" using assms by auto
  then show thesis using that[OF nm, of u] w push adm admi by (simp add: pushRecord_def)
qed

context relay_codec
begin

lemma push_done:
  assumes good: "fileGood cd s" and pl: "plain (prEnvelope req)" and fin: "snd (FileRelay_Push cd io now req s) = Inr i"
  shows "fileGood cd (fst (FileRelay_Push cd io now req s))"
    and "now \<le> t \<Longrightarrow> mgID m \<noteq> i \<Longrightarrow> m \<in> fileLive cd t mb (fst (FileRelay_Push cd io now req s)) \<longleftrightarrow> m \<in> fileLive cd t mb s"
    and "now \<le> t \<Longrightarrow> (\<And>m. m \<in> fileLive cd t (prMailbox req) s \<Longrightarrow> mgID m \<noteq> i) \<Longrightarrow>
      {m \<in> fileLive cd t (prMailbox req) (fst (FileRelay_Push cd io now req s)). mgID m = i} =
        (if fileDue now req t then {\<lparr>mgID = i, mgMailbox = prMailbox req, mgEnvelope = prEnvelope req, mgReceivedAt = Unix now\<rparr>} else {})"
proof -
  obtain msg dl av u where nm: "newMessage (ioRand io) now req = Inr (msg, dl, av)" "mgID msg = i"
    and w: "fileWrite cd io (prMailbox req) (messageFileName (mgID (fsMessage (pushRecord now msg dl av)))) (pushRecord now msg dl av) (fst (filePrune cd now s)) =
       (fst (FileRelay_Push cd io now req s), Inr u)"
    using fin by (rule FileRelay_Push_done)
  note p = newMessage_props[OF nm(1)]
  have msg: "msg = \<lparr>mgID = i, mgMailbox = prMailbox req, mgEnvelope = prEnvelope req, mgReceivedAt = Unix now\<rparr>" using p(1) nm(2) by simp
  have fs: "fsMessage (pushRecord now msg dl av) = msg" by (simp add: pushRecord_def)
  have dec: "cdUnmarshal cd (cdMarshal cd (pushRecord now msg dl av)) = Some (pushRecord now msg dl av)"
    using p(3,4) pl by (intro decode) (simp_all add: pushRecord_def msg)
  have ok: "Message_Validate (fsMessage (pushRecord now msg dl av)) = Inr ()" using p(2) by (simp add: fs)
  note wd = fileWrite_done[OF fileGood_prune[OF good] w dec ok, unfolded fs nm(2)]
  show "fileGood cd (fst (FileRelay_Push cd io now req s))" by (rule wd(1))
  show "m \<in> fileLive cd t mb (fst (FileRelay_Push cd io now req s)) \<longleftrightarrow> m \<in> fileLive cd t mb s" if "now \<le> t" "mgID m \<noteq> i"
    using wd(2)[OF that(2), of t mb] by (simp only: fileLive_prune[OF good that(1)])
  show "{m \<in> fileLive cd t (prMailbox req) (fst (FileRelay_Push cd io now req s)). mgID m = i} =
      (if fileDue now req t then {\<lparr>mgID = i, mgMailbox = prMailbox req, mgEnvelope = prEnvelope req, mgReceivedAt = Unix now\<rparr>} else {})"
    if t: "now \<le> t" and fresh: "\<And>m. m \<in> fileLive cd t (prMailbox req) s \<Longrightarrow> mgID m \<noteq> i"
    using wd(3)[of t] fresh unfolding fileLive_prune[OF good t] pushRecord_due[OF nm(1)] msg[symmetric] by blast
qed

lemma turn_oldest_files:
  assumes good: "fileGood cd s" and m: "m \<in> fileLive cd now mb s" "m \<notin> set (snd (fileTurn cd ties mb now limit s))"
  shows "length (snd (fileTurn cd ties mb now limit s)) = nat limit \<and> (\<forall>x \<in> set (snd (fileTurn cd ties mb now limit s)). mgReceivedAt x \<le> mgReceivedAt m)"
proof -
  let ?d = "mailFiles mb (fst (filePrune cd now s))"
  have live: "m \<in> dirLive cd now ?d" using m(1) fileLive_prune[OF good order_refl, of now mb] by (simp add: fileLive_def)
  then have "?d \<noteq> []" by (auto simp: dirLive_def)
  with fileTurn_props(3)[OF good, where ties = ties and mb = mb and now = now and limit = limit]
  have out: "snd (fileTurn cd ties mb now limit s) = take (nat limit) (sort_key mgReceivedAt (ties (List.map_filter (\<lambda>e. snd (pullEntry cd now e)) ?d)))"
    by simp
  show ?thesis
    using take_sort_oldest[of m "ties (List.map_filter (\<lambda>e. snd (pullEntry cd now e)) ?d)" "nat limit" mgReceivedAt] live m(2)
    unfolding out by (simp add: set_pulled set_ties)
qed

end

sublocale relay_codec \<subseteq> files: mailbox_relay "FileRelay_Push cd" "fileTurn cd ties" "FileRelay_Ack cd" "fileLive cd" fileDue "fileGood cd"
proof (unfold_locales, goal_cases)
  case (1 s req io now)
  show ?case
  proof (cases "snd (FileRelay_Push cd io now req s)")
    case (Inl e)
    then show ?thesis by (rule FileRelay_Push_failed[OF 1(1), THEN conjunct1])
  next
    case (Inr i)
    then show ?thesis by (rule push_done(1)[OF 1])
  qed
next
  case (2 s mb now limit)
  then show ?case by (rule fileTurn_props)
next
  case (3 s now areq)
  then show ?case by (rule fileAck_props)
next
  case (4 s req now t io m mb)
  show ?case
  proof (cases "snd (FileRelay_Push cd io now req s)")
    case (Inl e)
    then show ?thesis using FileRelay_Push_failed[OF 4(1) Inl] 4(3) by blast
  next
    case (Inr i)
    then show ?thesis using push_done(2)[OF 4(1,2) Inr 4(3), of m mb] 4(4) by simp
  qed
next
  case (5 s req now t io i)
  show ?case using 5(5) by (rule push_done(3)[OF 5(1,2,4,3)])
next
  case (6 s now t mb' mb limit)
  then show ?case by (rule fileTurn_props(2))
next
  case (7 s mb now limit)
  let ?d = "mailFiles mb (fst (filePrune cd now s))"
  have sub: "set (take (nat limit) (sort_key mgReceivedAt (ties (List.map_filter (\<lambda>e. snd (pullEntry cd now e)) ?d)))) \<subseteq> dirLive cd now ?d"
    using set_take_subset[of "nat limit" "sort_key mgReceivedAt (ties (List.map_filter (\<lambda>e. snd (pullEntry cd now e)) ?d))"] by (simp add: set_pulled set_ties)
  have "fileLive cd now mb s = dirLive cd now ?d" using fileLive_prune[OF 7 order_refl, of now mb] by (simp only: fileLive_def)
  with fileTurn_props(3)[OF 7, where ties = ties and mb = mb and now = now and limit = limit] sub show ?case by (elim disjE) simp_all
next
  case (8 s mb now limit)
  then show ?case using fileTurn_props(3)[OF 8, where ties = ties and mb = mb and now = now and limit = limit] by auto
next
  case (9 s m now mb limit)
  then show ?case by (rule turn_oldest_files)
next
  case (10 s now t areq mb)
  then show ?case by (rule fileAck_props)
next
  case (11 s now areq e)
  then show ?case by (rule fileAck_props)
qed

section \<open>Quotas\<close>

definition fileTotal :: "'c FileRelay \<Rightarrow> nat" where
  "fileTotal r = (case baseDir r of None \<Rightarrow> 0 | Some es \<Rightarrow> sum_list (map entryCount es))"

definition withinQuota :: "'c FileRelay \<Rightarrow> bool" where
  "withinQuota r \<longleftrightarrow> baseKeys r \<and> int (fileTotal r) \<le> MaxTotalPending r \<and> (\<forall>mb. int (messageCount (mailFiles mb r)) \<le> MaxPendingPerMailbox r)"

lemma entry_sum_update:
  "distinct (map fst es) \<Longrightarrow>
     sum_list (map entryCount (AList.update k v es)) + (case map_of es k of None \<Rightarrow> 0 | Some b \<Rightarrow> entryCount (k, b)) =
       sum_list (map entryCount es) + entryCount (k, v)"
  by (induction es) (auto simp: map_of_eq_None_iff[symmetric] dom_map_of_conv_image_fst split: option.splits)

lemma fileTotal_write:
  assumes "baseKeys r"
  shows "fileTotal (writeMailbox mb d r) + messageCount (mailFiles mb r) = fileTotal r + messageCount d"
proof -
  define es where "es = (case baseDir r of None \<Rightarrow> [] | Some es \<Rightarrow> es)"
  have "(case map_of es (mailboxDir mb) of None \<Rightarrow> 0 | Some b \<Rightarrow> entryCount (mailboxDir mb, b)) = messageCount (mailFiles mb r)"
    by (simp add: mailFiles_def readMailbox_def es_def[symmetric] entryCount_def messageCount_def split: option.splits baseEntry.splits)
  moreover have "distinct (map fst es)" using assms by (simp add: baseKeys_def es_def split: option.splits)
  ultimately show ?thesis using entry_sum_update[of es "mailboxDir mb" "BaseDir (Some d)"]
    by (auto simp: fileTotal_def writeMailbox_def es_def entryCount_def messageCount_def split: option.splits)
qed

lemma messageCount_filter: "messageCount (filter P d) \<le> messageCount d"
  unfolding messageCount_def by (induction d) auto

lemma entryCount_pruned: "prunedEntry cd now e = Some e' \<Longrightarrow> entryCount e' \<le> entryCount e"
  using messageCount_filter
  by (auto simp: prunedEntry_def entryCount_def prunedDir_def Let_def split: prod.splits baseEntry.splits option.splits if_splits)

lemma entry_sum_pruned: "sum_list (map entryCount (List.map_filter (prunedEntry cd now) es)) \<le> sum_list (map entryCount es)"
proof (induction es)
  case (Cons e es)
  then show ?case using entryCount_pruned[of cd now e] by (cases "prunedEntry cd now e") (fastforce simp: List.map_filter_simps)+
qed (simp add: List.map_filter_simps)

lemma filePrune_quota: "withinQuota r \<Longrightarrow> withinQuota (fst (filePrune cd now r))"
proof -
  assume q: "withinQuota r"
  have "mailFiles mb (fst (filePrune cd now r)) = prunedDir cd now (mailFiles mb r)" for mb
    using q map_of_prunedEntries[of _ cd now "mailboxDir mb"]
    by (auto simp: withinQuota_def baseKeys_def filePrune_def mailFiles_def readMailbox_def prunedEntry_def prunedDir_def Let_def
        split: option.splits baseEntry.splits if_splits)
  moreover have "messageCount (prunedDir cd now d) \<le> messageCount d" for d by (simp add: prunedDir_def messageCount_filter)
  moreover have "fileTotal (fst (filePrune cd now r)) \<le> fileTotal r"
    using entry_sum_pruned[of cd now] by (simp add: fileTotal_def filePrune_def split: option.splits)
  moreover have "baseKeys (fst (filePrune cd now r))"
    using q by (auto simp: withinQuota_def baseKeys_def filePrune_def keys_prunedEntries split: option.splits)
  moreover have "MaxTotalPending (fst (filePrune cd now r)) = MaxTotalPending r" "MaxPendingPerMailbox (fst (filePrune cd now r)) = MaxPendingPerMailbox r"
    by (simp_all add: filePrune_def split: option.splits)
  ultimately show ?thesis using q unfolding withinQuota_def by (metis (no_types, lifting) of_nat_le_iff order_trans)
qed

text \<open>Writing a directory keeps the quotas if it adds nothing, or one message where both limits leave room.\<close>

lemma write_quota:
  assumes "withinQuota r"
    and "messageCount d \<le> messageCount (mailFiles mb r) \<or>
      messageCount d \<le> Suc (messageCount (mailFiles mb r)) \<and> int (fileTotal r) < MaxTotalPending r \<and> int (messageCount (mailFiles mb r)) < MaxPendingPerMailbox r"
  shows "withinQuota (writeMailbox mb d r)"
proof -
  have "baseKeys (writeMailbox mb d r)"
    using assms(1) by (auto simp: withinQuota_def baseKeys_def writeMailbox_def distinct_update split: option.splits)
  moreover have "fileTotal (writeMailbox mb d r) + messageCount (mailFiles mb r) = fileTotal r + messageCount d"
    using assms(1) by (intro fileTotal_write) (simp add: withinQuota_def)
  moreover have "MaxTotalPending (writeMailbox mb d r) = MaxTotalPending r" "MaxPendingPerMailbox (writeMailbox mb d r) = MaxPendingPerMailbox r"
    by (simp_all add: writeMailbox_def)
  moreover have "int (messageCount (mailFiles mb r)) \<le> MaxPendingPerMailbox r" "int (fileTotal r) \<le> MaxTotalPending r"
    using assms(1) by (simp_all add: withinQuota_def)
  moreover from this assms(2) have "int (messageCount d) \<le> MaxPendingPerMailbox r" by linarith
  ultimately show ?thesis using assms unfolding withinQuota_def by (auto simp: mailFiles_write)
qed

lemma messageCount_update: "messageCount (AList.update k v d) \<le> Suc (messageCount d)"
  unfolding messageCount_def by (induction d) auto

lemma push_quota:
  assumes "withinQuota r"
  shows "withinQuota (fst (FileRelay_Push cd io now req r))"
proof -
  let ?r1 = "fst (filePrune cd now r)" and ?mb = "prMailbox req"
  have q: "withinQuota ?r1" by (rule filePrune_quota[OF assms])
  have adm: "fst (fileAdmit cd now ?mb r) = ?r1" by (rule fileAdmit_fst)
  have room: "int (fileTotal ?r1) < MaxTotalPending ?r1 \<and> int (messageCount (mailFiles ?mb ?r1)) < MaxPendingPerMailbox ?r1"
    if "snd (fileAdmit cd now ?mb r) = Inr ()"
    using that by (auto simp: fileAdmit_def fileTotal_def totalPending_def mailboxPending_def mailFiles_def messageCount_def
        split: prod.splits sum.splits option.splits if_splits relay_error.splits)
  have del: "messageCount (AList.delete k d) \<le> messageCount d" for k d by (simp add: AList.delete_eq messageCount_filter)
  have "withinQuota (fst (fileWrite cd io ?mb name rec ?r1))" if "snd (fileAdmit cd now ?mb r) = Inr ()" for name rec
  proof -
    have "messageCount (AList.update name v (AList.delete k (mailFiles ?mb ?r1))) \<le> Suc (messageCount (mailFiles ?mb ?r1))" for k v
      using messageCount_update[of name v "AList.delete k (mailFiles ?mb ?r1)"] del[of k "mailFiles ?mb ?r1"] by linarith
    then show ?thesis using room[OF that] q del by (auto simp: fileWrite_def writeFileAtomic_def split: option.splits intro!: write_quota)
  qed
  then show ?thesis using assms q adm
    by (auto simp: FileRelay_Push_def split: sum.splits prod.splits) (metis fst_conv)
qed

interpretation quota: state_machine "relay_step (FileRelay_Push cd) (fileTurn cd ties) (FileRelay_Ack cd)" withinQuota
proof
  fix r :: "'a FileRelay" and x :: "push_io relay_op"
  assume q: "withinQuota r"
  then have q1: "withinQuota (fst (filePrune cd now r))" for now by (rule filePrune_quota)
  have filtered: "withinQuota (writeMailbox mb (filter P d) (fst (filePrune cd now r)))" if "readMailbox mb (fst (filePrune cd now r)) = Inr d" for mb P d now
    using q1[of now] that by (intro write_quota) (simp_all add: mailFiles_def messageCount_filter)
  show "withinQuota (fst (relay_step (FileRelay_Push cd) (fileTurn cd ties) (FileRelay_Ack cd) x r))"
  proof (cases x)
    case (DoPush io now req)
    then show ?thesis using push_quota[OF q] by simp
  next
    case (DoTurn mb now limit)
    then show ?thesis using q1[of now] filtered by (auto simp: fileTurn_def fileAvailable_def split: sum.splits)
  next
    case (DoAck now areq)
    then show ?thesis using q q1[of now] filtered by (auto simp: FileRelay_Ack_def Let_def split: sum.splits)
  qed
qed

section \<open>Properties of the stores\<close>


text \<open>A sample: a codec that keeps the record, an empty store and one request.\<close>

definition sample_codec :: "fileStored codec" where "sample_codec = \<lparr>cdMarshal = (\<lambda>r. r), cdUnmarshal = Some\<rparr>"
definition sample_store :: "fileStored FileRelay" where
  "sample_store = \<lparr>MaxPendingPerMailbox = 2, MaxTotalPending = 5, baseDir = Some []\<rparr>"
definition sample_push :: PushRequest where
  "sample_push = \<lparr>prMailbox = ''A'', prEnvelope = ''B'', prTTLSec = 60, prDelaySec = 0, prPoWBits = 0, prPoWNonce = ''''\<rparr>"
definition sample_bytes :: bytes where "sample_bytes = replicate 16 0"
definition sample_id :: string where "sample_id = EncodeToString sample_bytes"
definition sample_io :: push_io where
  "sample_io = \<lparr>ioRand = Some sample_bytes, ioMkdir = True, ioTemp = Some ''1'', ioWrite = True, ioClose = True, ioRename = True\<rparr>"

lemma sample_codec_inverse [simp]: "cdUnmarshal sample_codec (cdMarshal sample_codec rec) = Some rec"
  by (simp add: sample_codec_def)

interpretation sample: relay_codec sample_codec "\<lambda>xs. xs"
  by unfold_locales simp_all


context relay_codec
begin

lemma file_contract: "mailbox_relay (FileRelay_Push cd) (fileTurn cd ties) (FileRelay_Ack cd) (fileLive cd) fileDue (fileGood cd)"
  by (rule files.mailbox_relay_axioms)

end

context memory_store
begin

lemma memory_contract: "mailbox_relay MemoryRelay_Push (memTurn ties) MemoryRelay_Ack memLive memDue memGood"
  by (rule mem.mailbox_relay_axioms)

end


lemma validators_sample [simp]:
  "validateMailboxID ''A'' = Inr ()" "validateEnvelope ''B'' = Inr ()" "validateMessageID sample_id = Inr ()"
proof -
  show "validateMailboxID ''A'' = Inr ()" "validateEnvelope ''B'' = Inr ()"
    by (simp_all add: relay_checks maxMailboxLen_def maxEnvelopeLen_def mailboxChar_def)
  have "length sample_id = 22" by code_simp
  then show "validateMessageID sample_id = Inr ()"
    by (auto simp: validateMessageID_def maxMessageIDLen_def sample_id_def sample_bytes_def)
qed

definition push_time :: gotime where "push_time = time_Unix 100"

lemma sample_newMessage:
  "newMessage (Some sample_bytes) push_time sample_push =
     Inr (\<lparr>mgID = sample_id, mgMailbox = ''A'', mgEnvelope = ''B'', mgReceivedAt = 100\<rparr>, push_time + 60 * second, push_time)"
  by (simp add: newMessage_def PushRequest_Validate_def sample_push_def TTLDeadline_def newMessageID_def Message_Validate_def Let_def push_time_def flip: sample_id_def)

lemma sample_request [simp]: "prMailbox sample_push = ''A''" "prEnvelope sample_push = ''B''"
  by (simp_all add: sample_push_def)

lemma sample_pushed:
  "snd (FileRelay_Push sample_codec sample_io push_time sample_push sample_store) = Inr sample_id"
proof -
  have io: "ioRand sample_io = Some sample_bytes" "ioMkdir sample_io" "ioTemp sample_io = Some ''1''" "ioWrite sample_io" "ioClose sample_io" "ioRename sample_io"
    by (simp_all add: sample_io_def)
  have "fileAdmit sample_codec push_time ''A'' sample_store = (sample_store, Inr ())"
    by (simp add: fileAdmit_def filePrune_def sample_store_def List.map_filter_simps totalPending_def mailboxPending_def readMailbox_def)
  then show ?thesis by (simp add: FileRelay_Push_def io sample_newMessage fileWrite_def writeFileAtomic_def split: prod.splits)
qed


text \<open>
  C35. What was acknowledged stays gone. In the relay in memory, after an acknowledgement of an identifier no later pull of that mailbox returns a message
  with it, whatever happens to the store in between, unless a push makes the same identifier again.
\<close>

theorem memory_acked_never_pulled:
  defines "step ties \<equiv> relay_step MemoryRelay_Push (memTurn ties) MemoryRelay_Ack"
  assumes perm: "\<And>xs. mset (ties xs) = mset xs"
    and s: "memGood s" "MemoryRelay_Ack now areq s = (s1, Inr ())" "i \<in> set (akIDs areq)"
    and later: "now \<le> t" "list_all (timely t) ops" "Pushed (Inr i) \<notin> set (snd (run (step ties) ops s1))"
  shows "i \<notin> mgID ` set (snd (memTurn ties (akMailbox areq) t limit (fst (run (step ties) ops s1))))"
proof -
  have "memory_store ties" using perm by unfold_locales
  moreover have fin: "fst (MemoryRelay_Ack now areq s) = s1" "snd (MemoryRelay_Ack now areq s) = Inr ()" using s(2) by simp_all
  ultimately show ?thesis using s(1,3) later fin(2) unfolding step_def fin(1)[symmetric]
    by (intro mailbox_relay.acked_never_pulled[OF memory_store.memory_contract])
qed

lemma memory_acked_never_pulled_witness:
  "sample_id \<notin> mgID ` set (snd (memTurn (\<lambda>xs. xs) ''A'' 7 3
     (fst (MemoryRelay_Ack 5 \<lparr>akMailbox = ''A'', akIDs = [sample_id]\<rparr>
        (fst (MemoryRelay_Push (Some sample_bytes) push_time sample_push NewMemoryRelay))))))"
proof -
  let ?s = "fst (MemoryRelay_Push (Some sample_bytes) push_time sample_push NewMemoryRelay)"
  let ?req = "\<lparr>akMailbox = ''A'', akIDs = [sample_id]\<rparr>"
  have "AckRequest_Validate ?req = Inr ()" by (simp add: AckRequest_Validate_def maxAckIDs_def)
  then have "snd (MemoryRelay_Ack 5 ?req ?s) = Inr ()" by (simp add: MemoryRelay_Ack_def Let_def)
  then obtain s1 where s1: "MemoryRelay_Ack 5 ?req ?s = (s1, Inr ())" by (metis prod.collapse)
  have "memGood ?s" using sample_newMessage by (simp add: MemoryRelay_Push_def NewMemoryRelay_def memGood_def memPrune_def Let_def)
  then have "sample_id \<notin> mgID ` set (snd (memTurn (\<lambda>xs. xs) (akMailbox ?req) 7 3 s1))"
    using memory_acked_never_pulled[OF _ _ s1, of "\<lambda>xs. xs" sample_id 7 "[]" 3] by simp
  then show ?thesis unfolding s1 by simp
qed

text \<open>A waiting pull returns: one turn that starts after the time to wait, or two with the clock passed in between, end the loop.\<close>

lemma pullLoop_returns:
  "\<exists>t \<in> set ts. tuNow t > waitUntil \<Longrightarrow> waitUntil \<noteq> 0 \<Longrightarrow> snd (pullLoop avail waitSec waitUntil ts s) \<noteq> None"
  by (induction ts arbitrary: s) (auto simp: Let_def split: prod.splits)

theorem waited_pull_returns:
  assumes "ts \<noteq> []" "plWaitSec req > 0 \<Longrightarrow> \<exists>t \<in> set ts. tuNow t > start + plWaitSec req * second" "0 < start"
  shows "\<exists>res. snd (waitedPull turn start ts req s) = Some res"
proof (cases "PullRequest_Validate req")
  case (Inl e)
  then show ?thesis by (simp add: waitedPull_def)
next
  case (Inr u)
  then have w: "plWaitSec (PullRequest_Normalize req) = plWaitSec req"
    by (auto simp: PullRequest_Validate_def PullRequest_Normalize_def Let_def split: if_splits)
  show ?thesis
  proof (cases "plWaitSec req > 0")
    case True
    then have "start + plWaitSec req * second \<noteq> 0" using assms(3) by (simp add: second_def)
    with True assms(2) pullLoop_returns[of ts "start + plWaitSec req * second"] show ?thesis
      by (simp add: waitedPull_def Inr w Let_def)
  next
    case False
    then show ?thesis using assms(1) by (cases ts) (auto simp: waitedPull_def Inr w Let_def split: prod.splits)
  qed
qed

end
