(* ===== verification/Relay_Envelope.thy ===== *)
theory Relay_Envelope
  imports Go_Base64
begin

text \<open>
  The envelopes of relayed messages (\<^verbatim>\<open>pkg/messaging\<close>): a message is sealed for the pre-key of its recipient with an ephemeral key of the sender. X25519, HKDF, the AEAD and the JSON
  codec of an envelope are parameters; random bytes are arguments, \<open>None\<close> for an error of the reader; the clock is an argument.
\<close>

definition EnvelopeV1 :: int where "EnvelopeV1 = 1"

record Envelope =
  eVersion :: int
  eCreatedAt :: int
  eToMailbox :: string
  EphemeralPubB64 :: string
  NonceB64 :: string
  CiphertextB64 :: string

text \<open>\<open>meX25519 scalar point\<close> fails on points of low order; \<open>mePublic\<close> is the multiplication of the base point.\<close>

record msg_env =
  meX25519 :: "bytes \<Rightarrow> bytes \<Rightarrow> bytes option"
  mePublic :: "bytes \<Rightarrow> bytes option"
  meHkdf :: "bytes \<Rightarrow> string \<Rightarrow> bytes"
  meSeal :: "bytes \<Rightarrow> bytes \<Rightarrow> bytes \<Rightarrow> bytes \<Rightarrow> bytes"
  meOpen :: "bytes \<Rightarrow> bytes \<Rightarrow> bytes \<Rightarrow> bytes \<Rightarrow> bytes option"
  meMarshal :: "Envelope \<Rightarrow> bytes"
  meUnmarshal :: "bytes \<Rightarrow> Envelope option"

datatype msg_error = MsgRand | MsgKey | MsgVersion | MsgEncoding | MsgSize | MsgOpen | MsgJson

record X25519Keypair =
  kpPublic :: bytes
  kpPrivate :: bytes

definition NewX25519Keypair :: "msg_env \<Rightarrow> bytes option \<Rightarrow> msg_error + X25519Keypair" where
  "NewX25519Keypair env rnd =
     (case rnd of
        None \<Rightarrow> Inl MsgRand
      | Some priv \<Rightarrow> (case mePublic env priv of None \<Rightarrow> Inl MsgKey | Some pub \<Rightarrow> Inr \<lparr>kpPublic = pub, kpPrivate = priv\<rparr>))"

definition DeriveSharedKey :: "msg_env \<Rightarrow> bytes \<Rightarrow> bytes \<Rightarrow> string \<Rightarrow> msg_error + bytes" where
  "DeriveSharedKey env senderPriv recipientPub info =
     (case meX25519 env senderPriv recipientPub of None \<Rightarrow> Inl MsgKey | Some shared \<Rightarrow> Inr (meHkdf env shared info))"

definition msgInfo :: string where "msgInfo = ''SUNLIONET-msg-v1''"

definition EncryptToPreKeyWithSender ::
    "msg_env \<Rightarrow> int \<Rightarrow> bytes option \<Rightarrow> bytes \<Rightarrow> bytes \<Rightarrow> bytes \<Rightarrow> bytes \<Rightarrow> msg_error + Envelope \<times> bytes" where
  "EncryptToPreKeyWithSender env nowUnix nonce plaintext senderPriv senderPub recipientPreKeyPub =
     rbind (DeriveSharedKey env senderPriv recipientPreKeyPub msgInfo) (\<lambda>key.
       case nonce of
         None \<Rightarrow> Inl MsgRand
       | Some n \<Rightarrow> Inr (\<lparr>eVersion = EnvelopeV1, eCreatedAt = nowUnix, eToMailbox = '''', EphemeralPubB64 = EncodeToString senderPub,
           NonceB64 = EncodeToString n, CiphertextB64 = EncodeToString (meSeal env key n plaintext senderPub)\<rparr>, senderPub))"

definition EncryptToPreKey :: "msg_env \<Rightarrow> int \<Rightarrow> bytes option \<Rightarrow> bytes option \<Rightarrow> bytes \<Rightarrow> bytes \<Rightarrow> msg_error + Envelope \<times> bytes" where
  "EncryptToPreKey env nowUnix rnd nonce plaintext recipientPreKeyPub =
     rbind (NewX25519Keypair env rnd) (\<lambda>sender.
       EncryptToPreKeyWithSender env nowUnix nonce plaintext (kpPrivate sender) (kpPublic sender) recipientPreKeyPub)"

definition DecryptWithPreKey :: "msg_env \<Rightarrow> Envelope \<Rightarrow> bytes \<Rightarrow> msg_error + bytes \<times> bytes" where
  "DecryptWithPreKey env e recipientPreKeyPriv =
     (if eVersion e \<noteq> EnvelopeV1 then Inl MsgVersion
      else case DecodeString (EphemeralPubB64 e) of
             None \<Rightarrow> Inl MsgEncoding
           | Some ephPub \<Rightarrow>
               if length ephPub \<noteq> 32 then Inl MsgSize
               else rbind (DeriveSharedKey env recipientPreKeyPriv ephPub msgInfo) (\<lambda>key.
                 case DecodeString (NonceB64 e) of
                   None \<Rightarrow> Inl MsgEncoding
                 | Some nonce \<Rightarrow>
                     if length nonce \<noteq> 24 then Inl MsgSize
                     else (case DecodeString (CiphertextB64 e) of
                             None \<Rightarrow> Inl MsgEncoding
                           | Some ct \<Rightarrow> (case meOpen env key nonce ct ephPub of None \<Rightarrow> Inl MsgOpen | Some pt \<Rightarrow> Inr (pt, ephPub)))))"

definition Encode :: "msg_env \<Rightarrow> Envelope \<Rightarrow> string" where
  "Encode env e = EncodeToString (meMarshal env e)"

definition DecodeEnvelope :: "msg_env \<Rightarrow> string \<Rightarrow> msg_error + Envelope" where
  "DecodeEnvelope env s =
     (case DecodeString s of
        None \<Rightarrow> Inl MsgEncoding
      | Some raw \<Rightarrow>
          (case meUnmarshal env raw of None \<Rightarrow> Inl MsgJson | Some e \<Rightarrow> if eVersion e \<noteq> EnvelopeV1 then Inl MsgVersion else Inr e))"

section \<open>Opening what was sealed\<close>

text \<open>
  What is known of the primitives: the exchange of a key pair with another gives both the same secret, keys have 32 bytes, the AEAD opens what it sealed
  with the same key, nonce and associated data, and the codec inverts itself.
\<close>

definition msg_laws :: "msg_env \<Rightarrow> bool" where
  "msg_laws env \<longleftrightarrow> (\<forall>a pa b pb. mePublic env a = Some pa \<longrightarrow> mePublic env b = Some pb \<longrightarrow> length pa = 32 \<and> meX25519 env a pb = meX25519 env b pa \<and> meX25519 env a pb \<noteq> None) \<and>
     (\<forall>k n p ad. meOpen env k n (meSeal env k n p ad) ad = Some p) \<and> (\<forall>e. meUnmarshal env (meMarshal env e) = Some e)"

lemma seal_opens:
  assumes laws: "msg_laws env" and keys: "mePublic env sp = Some spub" "mePublic env rp = Some rpub" and n: "length n = 24"
  shows "\<exists>e. EncryptToPreKeyWithSender env t (Some n) p sp spub rpub = Inr (e, spub) \<and> eVersion e = EnvelopeV1 \<and> DecryptWithPreKey env e rp = Inr (p, spub)"
proof -
  have l: "length spub = 32" "meX25519 env sp rpub = meX25519 env rp spub" "meX25519 env sp rpub \<noteq> None"
    using laws keys unfolding msg_laws_def by blast+
  have o: "meOpen env k m (meSeal env k m q ad) ad = Some q" for k m q ad using laws unfolding msg_laws_def by blast
  obtain k where k: "meX25519 env sp rpub = Some k" "meX25519 env rp spub = Some k" using l(2,3) by auto
  show ?thesis using k l(1) n by (simp add: EncryptToPreKeyWithSender_def DecryptWithPreKey_def DeriveSharedKey_def o)
qed

lemma encode_decodes: "msg_laws env \<Longrightarrow> eVersion e = EnvelopeV1 \<Longrightarrow> DecodeEnvelope env (Encode env e) = Inr e"
  by (simp add: DecodeEnvelope_def Encode_def msg_laws_def)

end
