(* ===== verification/Sync_Relay.thy ===== *)
theory Sync_Relay
  imports Sync_Safety Relay_Store Relay_Envelope
begin

text \<open>
  Synchronisation over relays (\<^verbatim>\<open>pkg/ledgersync/service.go\<close> from \<^verbatim>\<open>EncodeForRelay\<close> on): sealed envelopes, layers for several hops, forwarding,
  publishing and pulling. The relay is any implementation of the interface \<^verbatim>\<open>Relay\<close>: a record of its three calls on a state of its own, in which its
  random identifiers are kept too. The key pairs and nonces of the sealed envelopes come from \<open>crypto/rand\<close>, a function of the number of envelopes sealed so far.
\<close>

record 'r relay =
  rlPush :: "gotime \<Rightarrow> PushRequest \<Rightarrow> 'r \<Rightarrow> 'r \<times> (relay_error + string)"
  rlPull :: "gotime \<Rightarrow> PullRequest \<Rightarrow> 'r \<Rightarrow> 'r \<times> (relay_error + RelayMessage list)"
  rlAck :: "gotime \<Rightarrow> AckRequest \<Rightarrow> 'r \<Rightarrow> 'r \<times> (relay_error + unit)"

record RelayHop =
  hpMailbox :: string
  hpPreKeyPub :: bytes

record relayRouteMessage =
  rrSchemaVersion :: int
  rrNextMailbox :: string
  rrNextEnvelope :: string

record seal_env =
  slMsg :: msg_env
  slKey :: "nat \<Rightarrow> bytes option"
  slNonce :: "nat \<Rightarrow> bytes option"
  slRoute :: "relayRouteMessage \<Rightarrow> bytes"
  slUnRoute :: "bytes \<Rightarrow> relayRouteMessage option"

datatype sync_relay_error = SyncErr string | SyncSeal msg_error | SyncRelay relay_error | SyncRand

section \<open>Envelopes and layers\<close>

definition EncodeForRelay :: "seal_env \<Rightarrow> gotime \<Rightarrow> nat \<Rightarrow> bytes \<Rightarrow> bytes \<Rightarrow> msg_error + string" where
  "EncodeForRelay env now k plaintext recipientPreKeyPub =
     rbind (EncryptToPreKey (slMsg env) (Unix now) (slKey env k) (slNonce env k) plaintext recipientPreKeyPub) (\<lambda>(e, _). Inr (Encode (slMsg env) e))"

definition DecodeFromRelay :: "seal_env \<Rightarrow> string \<Rightarrow> bytes \<Rightarrow> msg_error + bytes \<times> bytes" where
  "DecodeFromRelay env envelope recipientPreKeyPriv =
     rbind (DecodeEnvelope (slMsg env) envelope) (\<lambda>e. DecryptWithPreKey (slMsg env) e recipientPreKeyPriv)"

definition plainPush :: "string \<Rightarrow> string \<Rightarrow> int \<Rightarrow> int \<Rightarrow> PushRequest" where
  "plainPush mb e ttlSec powBits =
     \<lparr>prMailbox = mb, prEnvelope = e, prTTLSec = ttlSec, prDelaySec = 0, prPoWBits = powBits, prPoWNonce = ''''\<rparr>"

definition route_validate :: "relayRouteMessage \<Rightarrow> sync_relay_error + unit" where
  "route_validate m =
     (if rrSchemaVersion m \<noteq> 1 then Inl (SyncErr ''ledgersync: invalid relay route schema'')
      else case PullRequest_Validate \<lparr>plMailbox = rrNextMailbox m, plLimit = 0, plWaitSec = 0\<rparr> of
             Inl _ \<Rightarrow> Inl (SyncErr ''ledgersync: invalid next mailbox'')
           | Inr _ \<Rightarrow>
               (case PushRequest_Validate (plainPush (rrNextMailbox m) (rrNextEnvelope m) 0 0) of
                  Inl _ \<Rightarrow> Inl (SyncErr ''ledgersync: invalid next envelope'')
                | Inr _ \<Rightarrow> Inr ()))"

text \<open>One layer: the envelope for the next mailbox is sealed for a hop. The loop wraps the hops from the last to the first.\<close>

definition wrapHop :: "seal_env \<Rightarrow> gotime \<Rightarrow> nat \<Rightarrow> RelayHop \<Rightarrow> string \<times> string \<Rightarrow> msg_error + string \<times> string" where
  "wrapHop env now k hop = (\<lambda>(mb, e).
     rbind (EncodeForRelay env now k (slRoute env \<lparr>rrSchemaVersion = 1, rrNextMailbox = mb, rrNextEnvelope = e\<rparr>) (hpPreKeyPub hop)) (\<lambda>w. Inr (hpMailbox hop, w)))"

fun wrapHops :: "seal_env \<Rightarrow> gotime \<Rightarrow> nat \<Rightarrow> RelayHop list \<Rightarrow> string \<times> string \<Rightarrow> msg_error + string \<times> string" where
  "wrapHops env now k [] me = Inr me"
| "wrapHops env now k (hop # hops) me = rbind (wrapHop env now k hop me) (wrapHops env now (Suc k) hops)"

definition EncodeForRelayMultiHop ::
    "seal_env \<Rightarrow> gotime \<Rightarrow> nat \<Rightarrow> bytes \<Rightarrow> string \<Rightarrow> bytes \<Rightarrow> RelayHop list \<Rightarrow> msg_error + string \<times> string" where
  "EncodeForRelayMultiHop env now k plaintext recipientMailbox recipientPreKeyPub hops =
     rbind (EncodeForRelay env now k plaintext recipientPreKeyPub) (\<lambda>e. wrapHops env now (Suc k) (rev hops) (recipientMailbox, e))"

section \<open>Forwarding\<close>

definition clampLimit :: "int \<Rightarrow> int" where
  "clampLimit limit = (let l = (if limit \<le> 0 then 50 else limit) in if l > 200 then 200 else l)"

text \<open>\<^verbatim>\<open>int(d.Round(time.Second).Seconds())\<close> of a delay of at least a second, at most an hour.\<close>

definition delaySeconds :: "duration \<Rightarrow> int" where
  "delaySeconds d = (if d \<ge> second then min 3600 ((d + second div 2) div second) else 0)"

text \<open>One message: the layer is opened and pushed on. \<open>draw\<close> is the random number for its delay.\<close>

definition routeOf :: "seal_env \<Rightarrow> bytes \<Rightarrow> RelayMessage \<Rightarrow> relayRouteMessage option" where
  "routeOf env priv msg =
     (case DecodeFromRelay env (mgEnvelope msg) priv of
        Inl _ \<Rightarrow> None
      | Inr (pt, _) \<Rightarrow>
          (case slUnRoute env pt of None \<Rightarrow> None | Some m \<Rightarrow> if route_validate m = Inr () then Some m else None))"

definition forwardRequest :: "relayRouteMessage \<Rightarrow> (nat \<Rightarrow> nat option) \<Rightarrow> duration \<Rightarrow> int \<Rightarrow> int \<Rightarrow> PushRequest" where
  "forwardRequest m draw delayMax ttlSec powBits =
     (let req = plainPush (rrNextMailbox m) (rrNextEnvelope m) ttlSec powBits
      in if delayMax > 0 then req\<lparr>prDelaySec := delaySeconds (randDuration draw delayMax)\<rparr> else req)"

definition forwardOne ::
    "'r relay \<Rightarrow> seal_env \<Rightarrow> gotime \<Rightarrow> bytes \<Rightarrow> duration \<Rightarrow> int \<Rightarrow> int \<Rightarrow> (nat \<Rightarrow> nat option) \<times> RelayMessage \<Rightarrow> 'r \<times> string list \<Rightarrow> 'r \<times> string list" where
  "forwardOne rl env now priv delayMax ttlSec powBits = (\<lambda>(draw, msg) (r, ids).
     case routeOf env priv msg of
       None \<Rightarrow> (r, ids)
     | Some m \<Rightarrow>
         (case rlPush rl now (forwardRequest m draw delayMax ttlSec powBits) r of
            (r1, Inl _) \<Rightarrow> (r1, ids)
          | (r1, Inr _) \<Rightarrow> (r1, ids @ [mgID msg])))"

definition ForwardRelayOnce ::
    "'r relay \<Rightarrow> seal_env \<Rightarrow> gotime \<Rightarrow> string \<Rightarrow> bytes \<Rightarrow> int \<Rightarrow> bool \<Rightarrow> (nat \<Rightarrow> nat \<Rightarrow> nat option) \<Rightarrow> duration \<Rightarrow> int \<Rightarrow> int \<Rightarrow> 'r \<Rightarrow>
     'r \<times> (relay_error + nat \<times> nat)" where
  "ForwardRelayOnce rl env now mailbox priv limit ack draws delayMax ttlSec powBits r =
     (case rlPull rl now \<lparr>plMailbox = mailbox, plLimit = clampLimit limit, plWaitSec = 0\<rparr> r of
        (r1, Inl e) \<Rightarrow> (r1, Inl e)
      | (r1, Inr msgs) \<Rightarrow>
          let (r2, ids) = fold (forwardOne rl env now priv delayMax ttlSec powBits) (zip (map draws [0..<length msgs]) msgs) (r1, []);
              r3 = (if ack \<and> ids \<noteq> [] then fst (rlAck rl now \<lparr>akMailbox = mailbox, akIDs = ids\<rparr> r2) else r2)
          in (r3, Inr (length ids, length msgs)))"

section \<open>Publishing\<close>

definition relayPlainMax :: int where "relayPlainMax = 120 * 1024"

definition relayMsgMax :: "Service \<Rightarrow> int" where
  "relayMsgMax s =
     (let m = (if MaxEventsMessageBytes (opts s) > relayPlainMax then relayPlainMax else MaxEventsMessageBytes (opts s))
      in if m \<le> 0 then relayPlainMax else m)"

text \<open>
  The batches of a publication: at most 8, each with what fits, until nothing is left. \<open>sealFor\<close> seals a plaintext for the first mailbox; its
  argument is the number of envelopes sealed so far and its result also says how many it sealed. The number of published events is the last result.
\<close>

record 'r net =
  ntService :: Service
  ntRelay :: 'r
  ntSeals :: nat

definition delayedPad :: "svc_env \<Rightarrow> bytes \<Rightarrow> Service \<Rightarrow> Service \<times> bytes" where
  "delayedPad env pt s = padded env pt (if OutboundDelayMax (Privacy (opts s)) > 0 then drawn 1 s else s)"

fun publishLoop ::
    "svc_env \<Rightarrow> 'r relay \<Rightarrow> (nat \<Rightarrow> bytes \<Rightarrow> nat \<times> (msg_error + string \<times> string)) \<Rightarrow> gotime \<Rightarrow> string \<Rightarrow> string \<Rightarrow> int \<Rightarrow> int \<Rightarrow>
     nat \<Rightarrow> string list \<Rightarrow> nat \<Rightarrow> 'r net \<Rightarrow> 'r net \<times> nat \<times> sync_relay_error option" where
  "publishLoop env rl sealFor now sid ctx ttlSec powBits 0 pending n net = (net, n, None)"
| "publishLoop env rl sealFor now sid ctx ttlSec powBits (Suc b) pending0 n net =
     (let s = ntService net; pending = filterOutgoingIDs pending0 ctx s;
          msg = BuildEventsMessageBounded (svJsonLen env) pending (oMaxEvents (opts s)) (MaxEventBytes (opts s)) (relayMsgMax s) (ledger s)
      in if pending0 = [] \<or> pending = [] \<or> emEvents msg = [] then (net, n, None)
         else let (s1, pt) = delayedPad env (encodeWire (svWire env) ''events'' sid ctx (svEvents env msg)) s; net1 = net\<lparr>ntService := s1\<rparr>
              in if int (length pt) > relayPlainMax then (net1, n, Some (SyncErr ''ledgersync: relay payload too large''))
                 else case sealFor (ntSeals net) pt of
                        (k, Inl e) \<Rightarrow> (net1\<lparr>ntSeals := ntSeals net + k\<rparr>, n, Some (SyncSeal e))
                      | (k, Inr (mb, e)) \<Rightarrow>
                          (case rlPush rl now (plainPush mb e ttlSec powBits) (ntRelay net) of
                             (r, Inl err) \<Rightarrow> (net1\<lparr>ntSeals := ntSeals net + k, ntRelay := r\<rparr>, n, Some (SyncRelay err))
                           | (r, Inr _) \<Rightarrow>
                               publishLoop env rl sealFor now sid ctx ttlSec powBits b
                                 (filter (\<lambda>i. i \<notin> ID ` set (emEvents msg)) pending) (n + length (emEvents msg)) (net1\<lparr>ntSeals := ntSeals net + k, ntRelay := r\<rparr>)))"

definition publish ::
    "svc_env \<Rightarrow> 'r relay \<Rightarrow> (nat \<Rightarrow> bytes \<Rightarrow> nat \<times> (msg_error + string \<times> string)) \<Rightarrow> gotime \<Rightarrow> string \<Rightarrow> string list \<Rightarrow> int \<Rightarrow> int \<Rightarrow>
     'r net \<Rightarrow> 'r net \<times> nat \<times> sync_relay_error option" where
  "publish env rl sealFor now ctx want ttlSec powBits net =
     (if \<not> permits (AllowContext (opts (ntService net))) ctx then (net, 0, Some (SyncErr ''ledgersync: context not allowed''))
      else if want = [] then (net, 0, None)
      else case newSessionID env (ntService net) of
             (s1, None) \<Rightarrow> (net\<lparr>ntService := s1\<rparr>, 0, Some SyncRand)
           | (s1, Some sid) \<Rightarrow> publishLoop env rl sealFor now sid ctx ttlSec powBits 8 want 0 (net\<lparr>ntService := s1\<rparr>))"

definition PublishEventsToRelay ::
    "svc_env \<Rightarrow> 'r relay \<Rightarrow> seal_env \<Rightarrow> gotime \<Rightarrow> string \<Rightarrow> bytes \<Rightarrow> string \<Rightarrow> string list \<Rightarrow> int \<Rightarrow> int \<Rightarrow> 'r net \<Rightarrow> 'r net \<times> nat \<times> sync_relay_error option" where
  "PublishEventsToRelay env rl senv now mailbox preKeyPub =
     publish env rl (\<lambda>k pt. (1, rbind (EncodeForRelay senv now k pt preKeyPub) (\<lambda>e. Inr (mailbox, e)))) now"

definition PublishEventsToRelayMultiHop ::
    "svc_env \<Rightarrow> 'r relay \<Rightarrow> seal_env \<Rightarrow> gotime \<Rightarrow> RelayHop list \<Rightarrow> string \<Rightarrow> bytes \<Rightarrow> string \<Rightarrow> string list \<Rightarrow> int \<Rightarrow> int \<Rightarrow> 'r net \<Rightarrow>
     'r net \<times> nat \<times> sync_relay_error option" where
  "PublishEventsToRelayMultiHop env rl senv now hops recipientMailbox preKeyPub =
     publish env rl (\<lambda>k pt. (Suc (length hops), EncodeForRelayMultiHop senv now k pt recipientMailbox preKeyPub hops)) now"

section \<open>Pulling\<close>

text \<open>Queueing with the limit of relayed messages.\<close>

definition relayClass :: "string \<Rightarrow> string \<Rightarrow> string \<Rightarrow> int \<Rightarrow> EventsMessage \<Rightarrow> PriorityClass \<Rightarrow> Service \<times> nat \<Rightarrow> Service \<times> nat" where
  "relayClass peerID r ctx mx em c = (\<lambda>(s, enq).
     let m = splitEventsByPriority em c in
     if emEvents m = [] then (s, enq)
     else let (sc, ok) = Enqueue peerID c \<lparr>siPeerID = '''', siRole = r, siContext = ctx, siMsg = m, siMaxMessageBytes = mx\<rparr> (scheduler s)
          in (s\<lparr>scheduler := sc\<rparr>, if ok then enq + 1 else enq))"

text \<open>
  One relayed message: the state, whether it is acknowledged, and the number of dropped events. \<open>settle\<close> marks a message as seen and acknowledges it
  when the caller acknowledges at all.
\<close>

definition settle :: "svc_env \<Rightarrow> bool \<Rightarrow> string \<Rightarrow> string \<Rightarrow> gotime \<Rightarrow> Service \<Rightarrow> Service \<times> bool \<times> nat" where
  "settle env ack peerID mid now s = (if ack then (fst (seenMsg env peerID mid now s), True, 0) else (s, False, 0))"

definition pullEvents :: "svc_env \<Rightarrow> gotime \<Rightarrow> bool \<Rightarrow> string \<Rightarrow> string \<Rightarrow> WireMessage \<Rightarrow> Service \<Rightarrow> Service \<times> bool \<times> nat" where
  "pullEvents env now ack peerID mid w s =
     (case svUnEvents env (wBody w) of
        None \<Rightarrow> settle env ack peerID mid now s
      | Some em0 \<Rightarrow>
          if emSchemaVersion em0 \<noteq> SyncSchemaV1 then settle env ack peerID mid now s
          else let (em, dropped) = filterIncomingEvents em0 (wContext w) s;
                   (s1, enq) = fold (relayClass peerID PeerRoleRelay (wContext w) (relayMsgMax s) em) [PriorityCritical, PriorityNormal, PriorityBackground]
                     (countDropped dropped s, 0)
               in if enq = 0 then (deferred_once s1, False, dropped)
                  else case settle env ack peerID mid now s1 of (s2, a, _) \<Rightarrow> (s2, a, dropped))"

definition pullOne :: "svc_env \<Rightarrow> seal_env \<Rightarrow> gotime \<Rightarrow> bool \<Rightarrow> string \<Rightarrow> bytes \<Rightarrow> RelayMessage \<Rightarrow> Service \<Rightarrow> Service \<times> bool \<times> nat" where
  "pullOne env senv now ack peerID priv msg s =
     (case DecodeFromRelay senv (mgEnvelope msg) priv of
        Inl _ \<Rightarrow> (s, False, 0)
      | Inr (pt, _) \<Rightarrow>
          let (s1, ok) = allowInbound peerID (int (length pt)) now s in
          if \<not> ok then (s1, False, 0)
          else let upt = fst (unpadPlaintext pt); mid = msgIDFromPlaintext (leSha (svLedger env)) upt; (s2, dup) = alreadySeenMsg peerID mid now s1 in
               if dup then (s2, ack, 0)
               else case decodeWire (svUnWire env) upt of
                      None \<Rightarrow> settle env ack peerID mid now s2
                    | Some w \<Rightarrow>
                        if \<not> permits (AllowContext (opts s2)) (wContext w) then settle env ack peerID mid now s2
                        else let (sec, d) = ObserveInbound peerID PeerRoleRelay (wType w) (int (length pt)) now (security s2); s3 = s2\<lparr>security := sec\<rparr> in
                             if d \<noteq> DecisionAccept then (s3, False, 0)
                             else if wType w = ''events'' then pullEvents env now ack peerID mid w s3
                             else (s3, False, 0))"

definition pullStep ::
    "svc_env \<Rightarrow> seal_env \<Rightarrow> gotime \<Rightarrow> bool \<Rightarrow> string \<Rightarrow> bytes \<Rightarrow> RelayMessage \<Rightarrow> Service \<times> string list \<times> nat \<Rightarrow> Service \<times> string list \<times> nat" where
  "pullStep env senv now ack peerID priv msg = (\<lambda>(s, ids, dropped).
     case pullOne env senv now ack peerID priv msg s of (s1, a, n) \<Rightarrow> (s1, if a then ids @ [mgID msg] else ids, dropped + n))"

definition PullAndApplyFromRelay ::
    "svc_env \<Rightarrow> 'r relay \<Rightarrow> seal_env \<Rightarrow> gotime \<Rightarrow> string \<Rightarrow> bytes \<Rightarrow> int \<Rightarrow> bool \<Rightarrow> Service \<Rightarrow> 'r \<Rightarrow>
     (Service \<times> 'r \<times> (relay_error + ApplyReport \<times> nat)) option" where
  "PullAndApplyFromRelay env rl senv now mailbox priv limit ack s r =
     (case rlPull rl now \<lparr>plMailbox = mailbox, plLimit = clampLimit limit, plWaitSec = 0\<rparr> r of
        (r1, Inl e) \<Rightarrow> Some (s, r1, Inl e)
      | (r1, Inr msgs) \<Rightarrow>
          let peerID = ''relay:'' @ mailbox; s1 = setPeerRole peerID PeerRoleRelay now s;
              (s2, ids, dropped) = fold (pullStep env senv now ack peerID priv) msgs (s1, [], 0)
          in (case drainInbound env now (SchedulerDrainAfterRelay (opts s2)) s2 of
                None \<Rightarrow> None
              | Some (s3, rep) \<Rightarrow>
                  Some (s3, if ack \<and> ids \<noteq> [] then fst (rlAck rl now \<lparr>akMailbox = mailbox, akIDs = ids\<rparr> r1) else r1,
                        Inr (rep\<lparr>Rejected := Rejected rep + dropped\<rparr>, length msgs))))"

section \<open>Layers are peeled one by one\<close>

text \<open>
  What is known of the parameters: the laws of the primitives, the codec of a layer inverts itself on plain text, the random source gives keys and nonces of the right size,
  and nothing gets shorter by sealing or by encoding.
\<close>

definition seal_laws :: "seal_env \<Rightarrow> bool" where
  "seal_laws env \<longleftrightarrow> msg_laws (slMsg env) \<and>
     (\<forall>m. plain (rrNextMailbox m) \<longrightarrow> plain (rrNextEnvelope m) \<longrightarrow> slUnRoute env (slRoute env m) = Some m) \<and>
     (\<forall>k. \<exists>priv pub. slKey env k = Some priv \<and> mePublic (slMsg env) priv = Some pub) \<and> (\<forall>k. \<exists>n. slNonce env k = Some n \<and> length n = 24)"

definition size_laws :: "seal_env \<Rightarrow> bool" where
  "size_laws env \<longleftrightarrow> (\<forall>m. length (rrNextEnvelope m) \<le> length (slRoute env m)) \<and>
     (\<forall>k n p ad. length p \<le> length (meSeal (slMsg env) k n p ad)) \<and> (\<forall>e. length (CiphertextB64 e) \<le> length (meMarshal (slMsg env) e))"

lemma seal_roundtrip:
  assumes "seal_laws env" "mePublic (slMsg env) priv = Some pub"
  shows "\<exists>e spub. EncodeForRelay env now k pt pub = Inr e \<and> plain e \<and> DecodeFromRelay env e priv = Inr (pt, spub)"
proof -
  obtain sp spub n where kn: "slKey env k = Some sp" "mePublic (slMsg env) sp = Some spub" "slNonce env k = Some n" "length n = 24"
    using assms(1) unfolding seal_laws_def by metis
  have laws: "msg_laws (slMsg env)" using assms(1) by (simp add: seal_laws_def)
  obtain e where e: "EncryptToPreKeyWithSender (slMsg env) (Unix now) (Some n) pt sp spub pub = Inr (e, spub)" "eVersion e = EnvelopeV1"
      "DecryptWithPreKey (slMsg env) e priv = Inr (pt, spub)"
    using seal_opens[OF laws kn(2) assms(2) kn(4), of "Unix now" pt] by blast
  have "EncodeForRelay env now k pt pub = Inr (Encode (slMsg env) e)"
    by (simp add: EncodeForRelay_def EncryptToPreKey_def NewX25519Keypair_def kn e(1))
  moreover have "DecodeFromRelay env (Encode (slMsg env) e) priv = Inr (pt, spub)"
    by (simp add: DecodeFromRelay_def encode_decodes[OF laws e(2)] e(3))
  ultimately show ?thesis by (metis Encode_def plain_EncodeToString)
qed

text \<open>Opening the layers with the private keys of the hops, as \<^verbatim>\<open>ForwardRelayOnce\<close> does it on each of them.\<close>

fun peel :: "seal_env \<Rightarrow> bytes list \<Rightarrow> string \<times> string \<Rightarrow> (string \<times> string) option" where
  "peel env [] me = Some me"
| "peel env (p # ps) (mb, e) =
     (case routeOf env p \<lparr>mgID = '''', mgMailbox = mb, mgEnvelope = e, mgReceivedAt = 0\<rparr> of
        None \<Rightarrow> None
      | Some m \<Rightarrow> peel env ps (rrNextMailbox m, rrNextEnvelope m))"

lemma length_EncodeToString: "4 * length bs \<le> 3 * length (EncodeToString bs)"
proof -
  have "4 * length ns \<le> 3 * length (b64_group_encode ns)" for ns by (induction ns rule: b64_group_encode.induct) auto
  from this[of "map unat bs"] show ?thesis by (simp add: EncodeToString_def)
qed

text \<open>Base64 twice: each layer is at least 16/9 as long as what it wraps.\<close>

lemma sealed_length:
  assumes "size_laws env" "EncodeForRelay env now k pt pub = Inr e"
  shows "16 * length pt \<le> 9 * length e"
proof -
  obtain x sp where x: "EncryptToPreKey (slMsg env) (Unix now) (slKey env k) (slNonce env k) pt pub = Inr (x, sp)" "e = Encode (slMsg env) x"
    using assms(2) by (auto simp: EncodeForRelay_def)
  from x(1) obtain key n ad where ct: "CiphertextB64 x = EncodeToString (meSeal (slMsg env) key n pt ad)"
    by (auto simp: EncryptToPreKey_def NewX25519Keypair_def EncryptToPreKeyWithSender_def split: option.splits)
  have "length pt \<le> length (meSeal (slMsg env) key n pt ad)" "length (CiphertextB64 x) \<le> length (meMarshal (slMsg env) x)"
    using assms(1) by (simp_all add: size_laws_def)
  moreover have "4 * length (meSeal (slMsg env) key n pt ad) \<le> 3 * length (CiphertextB64 x)" unfolding ct by (rule length_EncodeToString)
  moreover have "4 * length (meMarshal (slMsg env) x) \<le> 3 * length e" unfolding x(2) Encode_def by (rule length_EncodeToString)
  ultimately show ?thesis by linarith
qed

lemma wrapped_length: "size_laws env \<Longrightarrow> wrapHop env now k hop (mb, e) = Inr (mb', e') \<Longrightarrow> 16 * length e \<le> 9 * length e'"
  using sealed_length[of env now k "slRoute env \<lparr>rrSchemaVersion = 1, rrNextMailbox = mb, rrNextEnvelope = e\<rparr>" "hpPreKeyPub hop" e']
  by (auto simp: wrapHop_def size_laws_def) (metis le_trans mult_le_mono2 relayRouteMessage.select_convs(3))

lemma wrapHops_length: "size_laws env \<Longrightarrow> wrapHops env now k hops me = Inr me' \<Longrightarrow> length (snd me) \<le> length (snd me')"
proof (induction hops arbitrary: k me)
  case (Cons hop hops)
  obtain me1 where w: "wrapHop env now k hop me = Inr me1" "wrapHops env now (Suc k) hops me1 = Inr me'" using Cons.prems(2) by auto
  have "16 * length (snd me) \<le> 9 * length (snd me1)" using wrapped_length[OF Cons.prems(1)] w(1) by (metis prod.collapse)
  then show ?case using Cons.IH[OF Cons.prems(1) w(2)] by linarith
qed simp

lemma plain_mailbox: "validateMailboxID m = Inr () \<Longrightarrow> plain m"
  by (auto simp: validateMailboxID_def plain_def plain_char_def mailboxChar_def Let_def list_all_iff split: if_splits)

lemma wrapHop_peels:
  assumes laws: "seal_laws env" "size_laws env" and key: "mePublic (slMsg env) priv = Some (hpPreKeyPub hop)"
    and mb: "validateMailboxID mb = Inr ()" and e: "plain e" "e \<noteq> ''''"
  shows "\<exists>w. wrapHop env now k hop (mb, e) = Inr (hpMailbox hop, w) \<and> plain w \<and> w \<noteq> '''' \<and>
    (length e \<le> maxEnvelopeLen \<longrightarrow> peel env [priv] (hpMailbox hop, w) = Some (mb, e))"
proof -
  let ?m = "\<lparr>rrSchemaVersion = 1, rrNextMailbox = mb, rrNextEnvelope = e\<rparr>"
  obtain w spub where w: "EncodeForRelay env now k (slRoute env ?m) (hpPreKeyPub hop) = Inr w" "plain w" "DecodeFromRelay env w priv = Inr (slRoute env ?m, spub)"
    using seal_roundtrip[OF laws(1) key] by blast
  have inv: "slUnRoute env (slRoute env ?m) = Some ?m" using laws(1) plain_mailbox[OF mb] e(1) by (simp add: seal_laws_def)
  have val: "length e \<le> maxEnvelopeLen \<Longrightarrow> route_validate ?m = Inr ()"
    using mb e(2) by (simp add: route_validate_def PullRequest_Validate_def PushRequest_Validate_def plainPush_def validateEnvelope_def)
  have wrap: "wrapHop env now k hop (mb, e) = Inr (hpMailbox hop, w)" using w(1) by (simp add: wrapHop_def)
  from wrapped_length[OF laws(2) this] e(2) have "w \<noteq> ''''" by auto
  then show ?thesis using w(2,3) inv val wrap by (auto simp: routeOf_def)
qed

lemma peel_append: "peel env (xs @ ys) me = Option.bind (peel env xs me) (peel env ys)"
proof (induction xs arbitrary: me)
  case (Cons x xs)
  then show ?case by (cases me) (simp split: option.split)
qed simp

lemma wrapHops_peel:
  assumes "list_all2 (\<lambda>p h. mePublic (slMsg env) p = Some (hpPreKeyPub h)) ps hops"
    and "seal_laws env" "size_laws env" "validateMailboxID mb = Inr ()" "plain e" "e \<noteq> ''''" "list_all (\<lambda>h. validateMailboxID (hpMailbox h) = Inr ()) hops"
  shows "\<exists>mb' e'. wrapHops env now k hops (mb, e) = Inr (mb', e') \<and> mb' = last (mb # map hpMailbox hops) \<and> plain e' \<and> e' \<noteq> '''' \<and>
    (length e' \<le> maxEnvelopeLen \<longrightarrow> peel env (rev ps) (mb', e') = Some (mb, e))"
  using assms
proof (induction ps hops arbitrary: k mb e rule: list_all2_induct)
  case (Cons p ps h hops)
  from wrapHop_peels[OF Cons.prems(1,2) Cons.hyps(1) Cons.prems(3-5), of now k]
  obtain w where w: "wrapHop env now k h (mb, e) = Inr (hpMailbox h, w)" "plain w" "w \<noteq> ''''"
      "length e \<le> maxEnvelopeLen \<Longrightarrow> peel env [p] (hpMailbox h, w) = Some (mb, e)" by blast
  have "validateMailboxID (hpMailbox h) = Inr ()" "list_all (\<lambda>h. validateMailboxID (hpMailbox h) = Inr ()) hops" using Cons.prems(6) by simp_all
  from Cons.IH[OF Cons.prems(1,2) this(1) w(2,3) this(2), of "Suc k"]
  obtain mb' e' where r: "wrapHops env now (Suc k) hops (hpMailbox h, w) = Inr (mb', e')" "mb' = last (hpMailbox h # map hpMailbox hops)" "plain e'" "e' \<noteq> ''''"
      "length e' \<le> maxEnvelopeLen \<Longrightarrow> peel env (rev ps) (mb', e') = Some (hpMailbox h, w)" by blast
  have "length e \<le> length e'"
    using wrapped_length[OF Cons.prems(2) w(1)] wrapHops_length[OF Cons.prems(2) r(1)] by simp
  then have "length e' \<le> maxEnvelopeLen \<Longrightarrow> peel env (rev (p # ps)) (mb', e') = Some (mb, e)"
    using w(4) r(5) by (simp add: peel_append)
  then show ?case using w(1) r(1-4) by (metis list.simps(9) rbind.simps(2) wrapHops.simps(2) last_ConsR list.discI)
qed simp


text \<open>
  Long messages cannot be published over hops. A plaintext of more than 82944 bytes (a publication may have up to 122880) wrapped for one hop or more becomes an envelope
  that no relay accepts, because each layer encodes in base64 twice.
\<close>

theorem multi_hop_too_large:
  assumes "size_laws env" "EncodeForRelayMultiHop env now k pt rmb rpub hops = Inr (mb, e)" "hops \<noteq> []" "length pt > 82944"
  shows "PushRequest_Validate (plainPush mb e ttlSec powBits) \<noteq> Inr () \<and> 82944 < relayPlainMax"
proof -
  obtain e0 where e0: "EncodeForRelay env now k pt rpub = Inr e0" "wrapHops env now (Suc k) (rev hops) (rmb, e0) = Inr (mb, e)"
    using assms(2) by (auto simp: EncodeForRelayMultiHop_def)
  obtain h hs where h: "rev hops = h # hs" using assms(3) by (cases "rev hops") auto
  obtain me1 where w: "wrapHop env now (Suc k) h (rmb, e0) = Inr me1" "wrapHops env now (Suc (Suc k)) hs me1 = Inr (mb, e)"
    using e0(2) by (auto simp: h)
  have "16 * length pt \<le> 9 * length e0" by (rule sealed_length[OF assms(1) e0(1)])
  moreover have "16 * length e0 \<le> 9 * length (snd me1)" using wrapped_length[OF assms(1)] w(1) by (metis prod.collapse)
  moreover have "length (snd me1) \<le> length e" using wrapHops_length[OF assms(1) w(2)] by simp
  ultimately have "length e > maxEnvelopeLen" using assms(4) by (simp add: maxEnvelopeLen_def)
  then show ?thesis by (auto simp: PushRequest_Validate_def plainPush_def validateEnvelope_def relayPlainMax_def)
qed

section \<open>Forwarding loses nothing\<close>

text \<open>The relay in memory as an implementation of the interface: its random numbers are counted in the state, and a pull without waiting is one turn.\<close>

definition memoryRelay :: "(stored list \<Rightarrow> stored list) \<Rightarrow> (nat \<Rightarrow> bytes option) \<Rightarrow> (MemoryRelay \<times> nat) relay" where
  "memoryRelay ties rnd =
     \<lparr>rlPush = (\<lambda>now req (r, k). case MemoryRelay_Push (rnd k) now req r of (r1, res) \<Rightarrow> ((r1, Suc k), res)),
      rlPull = (\<lambda>now req (r, k).
        case MemoryRelay_Pull ties now [\<lparr>tuNow = now, tuUntil = now, tuCancelled = False, tuOthers = (\<lambda>r. r)\<rparr>] req r of
          (r1, None) \<Rightarrow> ((r1, k), Inl RelayCtx)
        | (r1, Some res) \<Rightarrow> ((r1, k), res)),
      rlAck = (\<lambda>now req (r, k). case MemoryRelay_Ack now req r of (r1, res) \<Rightarrow> ((r1, k), res))\<rparr>"

text \<open>What a mailbox holds at a time, delayed messages included.\<close>

definition held :: "gotime \<Rightarrow> string \<Rightarrow> MemoryRelay \<Rightarrow> stored set" where
  "held now mb r = {x \<in> set (queueFor mb r). \<not> sdExpired now x}"

lemma held_prune: "memGood r \<Longrightarrow> held now mb (memPrune now r) = held now mb r"
  by (auto simp: held_def queueFor_prune)

lemma held_push:
  assumes "memGood r" "MemoryRelay_Push rnd now req r = (r', res)"
  shows "memGood r'" "held now mb r \<subseteq> held now mb r'"
    and "res = Inr i \<Longrightarrow> \<exists>x \<in> held now (prMailbox req) r'. mgEnvelope (sdMsg x) = prEnvelope req \<and> mgID (sdMsg x) = i \<and> Inr i = newMessageID rnd"
proof -
  show "memGood r'" using assms by (auto simp: MemoryRelay_Push_def Let_def memPrune_good update_good split: sum.splits)
  show "held now mb r \<subseteq> held now mb r'"
  proof (cases "newMessage rnd now req")
    case (Inl e)
    then show ?thesis using assms(2) by (simp add: MemoryRelay_Push_def)
  next
    case (Inr x)
    obtain msg dl av where x: "x = (msg, dl, av)" by (cases x)
    have "r' = fst (MemoryRelay_Push rnd now req r)" using assms(2) by simp
    then have "held now mb (memPrune now r) \<subseteq> held now mb r'" by (auto simp: MemoryRelay_Push_def Inr x Let_def held_def)
    then show ?thesis by (simp add: held_prune[OF assms(1)])
  qed
  assume res: "res = Inr i"
  then obtain msg dl av where nm: "newMessage rnd now req = Inr (msg, dl, av)" "mgID msg = i"
    using assms(2) by (auto simp: MemoryRelay_Push_def Let_def split: sum.splits)
  note p = newMessage_props[OF nm(1)]
  let ?x = "\<lparr>sdMsg = msg, sdDeadline = dl, sdAvailAt = av\<rparr>"
  have "\<not> sdExpired now ?x" using p(7,8) by (simp add: sdExpired_def second_def)
  then have "?x \<in> held now (prMailbox req) r'" using assms(2) nm by (auto simp: MemoryRelay_Push_def Let_def held_def)
  moreover have "mgEnvelope msg = prEnvelope req" using p(1) by (metis RelayMessage.select_convs(3))
  moreover have "newMessageID rnd = Inr i" using nm by (auto simp: newMessage_def Let_def)
  ultimately show "\<exists>x \<in> held now (prMailbox req) r'. mgEnvelope (sdMsg x) = prEnvelope req \<and> mgID (sdMsg x) = i \<and> Inr i = newMessageID rnd"
    using nm(2) by (metis stored.select_convs(1))
qed

lemma pull_memory:
  assumes "memGood r" "rlPull (memoryRelay ties rnd) now \<lparr>plMailbox = mb, plLimit = clampLimit limit, plWaitSec = 0\<rparr> (r, k) = (r1, Inr msgs)"
  shows "r1 = (memPrune now r, k)" "msgs = snd (memTurn ties mb now (clampLimit limit) r)"
proof -
  let ?req = "\<lparr>plMailbox = mb, plLimit = clampLimit limit, plWaitSec = 0\<rparr>"
  have "PullRequest_Validate ?req = Inr ()"
    using assms(2) by (auto simp: memoryRelay_def MemoryRelay_Pull_def waitedPull_def split: sum.splits)
  moreover have "PullRequest_Normalize ?req = ?req" by (simp add: PullRequest_Normalize_def clampLimit_def Let_def)
  ultimately show "r1 = (memPrune now r, k)" "msgs = snd (memTurn ties mb now (clampLimit limit) r)"
    using assms(2) by (auto simp: memoryRelay_def MemoryRelay_Pull_def waitedPull_def Let_def memTurn_def split: if_splits)
qed

text \<open>What forwarding has done so far: nothing is gone, and for every identifier collected the inner envelope is in the next mailbox.\<close>

definition forwarded_to :: "seal_env \<Rightarrow> gotime \<Rightarrow> bytes \<Rightarrow> (nat \<Rightarrow> bytes option) \<Rightarrow> RelayMessage \<Rightarrow> MemoryRelay \<Rightarrow> bool" where
  "forwarded_to env now priv rnd msg r \<longleftrightarrow> (\<exists>m x j. routeOf env priv msg = Some m \<and> x \<in> held now (rrNextMailbox m) r \<and>
     mgEnvelope (sdMsg x) = rrNextEnvelope m \<and> Inr (mgID (sdMsg x)) = newMessageID (rnd j))"

lemma forwarded_mono: "forwarded_to env now priv rnd msg r \<Longrightarrow> (\<And>mb. held now mb r \<subseteq> held now mb r') \<Longrightarrow> forwarded_to env now priv rnd msg r'"
  unfolding forwarded_to_def by blast

lemma forward_fold:
  assumes "fold (forwardOne (memoryRelay ties rnd) env now priv delayMax ttlSec powBits) zs ((r, k), ids) = ((r', k'), ids')"
    and "memGood r" "\<forall>i \<in> set ids. \<exists>msg \<in> M. mgID msg = i \<and> forwarded_to env now priv rnd msg r" "snd ` set zs \<subseteq> M"
  shows "memGood r' \<and> (\<forall>mb. held now mb r \<subseteq> held now mb r') \<and> (\<forall>i \<in> set ids'. \<exists>msg \<in> M. mgID msg = i \<and> forwarded_to env now priv rnd msg r')"
  using assms
proof (induction zs arbitrary: r k ids)
  case (Cons z zs)
  obtain draw msg where z: "z = (draw, msg)" by (cases z)
  obtain r1 k1 ids1 where one: "forwardOne (memoryRelay ties rnd) env now priv delayMax ttlSec powBits z ((r, k), ids) = ((r1, k1), ids1)" by (metis prod.collapse)
  have "memGood r1 \<and> (\<forall>mb. held now mb r \<subseteq> held now mb r1) \<and> (ids1 = ids \<or> ids1 = ids @ [mgID msg] \<and> forwarded_to env now priv rnd msg r1)"
  proof (cases "routeOf env priv msg")
    case None
    then show ?thesis using one Cons.prems(2) by (simp add: forwardOne_def z)
  next
    case (Some m)
    let ?req = "forwardRequest m draw delayMax ttlSec powBits"
    obtain r2 res where p: "MemoryRelay_Push (rnd k) now ?req r = (r2, res)" by fastforce
    note h = held_push[OF Cons.prems(2) p]
    have req: "prMailbox ?req = rrNextMailbox m" "prEnvelope ?req = rrNextEnvelope m" by (simp_all add: forwardRequest_def plainPush_def Let_def)
    have r1: "r1 = r2" "ids1 = (case res of Inl _ \<Rightarrow> ids | Inr _ \<Rightarrow> ids @ [mgID msg])"
      using one Some p by (auto simp: forwardOne_def z memoryRelay_def split: sum.splits)
    have "forwarded_to env now priv rnd msg r2" if "res = Inr i" for i
      using h(3)[OF that] Some req unfolding forwarded_to_def by metis
    then show ?thesis using h(1,2) r1 by (cases res) auto
  qed
  then have good: "memGood r1" and sub: "\<And>mb. held now mb r \<subseteq> held now mb r1"
    and new: "ids1 = ids \<or> ids1 = ids @ [mgID msg] \<and> forwarded_to env now priv rnd msg r1" by blast+
  have "\<forall>i \<in> set ids1. \<exists>msg \<in> M. mgID msg = i \<and> forwarded_to env now priv rnd msg r1"
  proof
    fix i assume "i \<in> set ids1"
    then consider "i \<in> set ids" | "i = mgID msg" "forwarded_to env now priv rnd msg r1" using new by auto
    then show "\<exists>msg \<in> M. mgID msg = i \<and> forwarded_to env now priv rnd msg r1"
    proof cases
      case 1
      then obtain x where "x \<in> M" "mgID x = i" "forwarded_to env now priv rnd x r" using Cons.prems(3) by blast
      then show ?thesis using forwarded_mono[OF _ sub] by blast
    next
      case 2
      then show ?thesis using Cons.prems(4) z by auto
    qed
  qed
  from Cons.IH[OF _ good this] Cons.prems(1,4) one sub show ?case by fastforce
qed simp

lemma held_ack:
  assumes "memGood r" "MemoryRelay_Ack now areq r = (r', res)" "x \<in> held now mb r" "mb \<noteq> akMailbox areq \<or> mgID (sdMsg x) \<notin> set (akIDs areq)"
  shows "x \<in> held now mb r'"
proof (cases "AckRequest_Validate areq")
  case (Inl e)
  then show ?thesis using assms by (simp add: MemoryRelay_Ack_def)
next
  case (Inr u)
  have "x \<in> held now mb (memPrune now r)" using assms(3) by (simp add: held_prune[OF assms(1)])
  then show ?thesis using assms(2,4) Inr by (auto simp: MemoryRelay_Ack_def Let_def held_def split: if_splits)
qed

text \<open>
  C31. Forwarding loses nothing. When a hop has run \<^verbatim>\<open>ForwardRelayOnce\<close> on the relay in memory, whether it acknowledges or not, every message that its mailbox held is still there, or its inner
  envelope is in the mailbox that the layer names; other mailboxes keep all they had. Identifiers in the mailbox are taken to be distinct, and new ones to be new.
\<close>

theorem forwarding_loses_nothing:
  assumes perm: "\<And>xs. mset (ties xs) = mset xs" and good: "memGood r"
    and fwd: "ForwardRelayOnce (memoryRelay ties rnd) env now mb priv limit ack draws delayMax ttlSec powBits (r, k) = ((r', k'), Inr (n, tot))"
    and ids: "\<And>x y. x \<in> held now mb r \<Longrightarrow> y \<in> held now mb r \<Longrightarrow> mgID (sdMsg x) = mgID (sdMsg y) \<Longrightarrow> sdMsg x = sdMsg y"
      "\<And>x j. x \<in> held now mb r \<Longrightarrow> newMessageID (rnd j) \<noteq> Inr (mgID (sdMsg x))"
    and x: "x \<in> held now mb0 r"
  shows "x \<in> held now mb0 r' \<or> mb0 = mb \<and> forwarded_to env now priv rnd (sdMsg x) r'"
proof -
  obtain r1 msgs where pull: "rlPull (memoryRelay ties rnd) now \<lparr>plMailbox = mb, plLimit = clampLimit limit, plWaitSec = 0\<rparr> (r, k) = (r1, Inr msgs)"
    using fwd by (auto simp: ForwardRelayOnce_def split: prod.splits sum.splits)
  note p = pull_memory[OF good pull]
  have "set msgs \<subseteq> memLive now mb r"
    unfolding p(2) using perm by (intro mailbox_relay.turn_live[OF memory_store.memory_contract] good) (unfold_locales)
  then have msgs: "\<exists>y \<in> held now mb r. sdMsg y = m" if "m \<in> set msgs" for m using that by (auto simp: memLive_def held_def)
  obtain r2 k2 jds where f: "fold (forwardOne (memoryRelay ties rnd) env now priv delayMax ttlSec powBits) (zip (map draws [0..<length msgs]) msgs)
      ((memPrune now r, k), []) = ((r2, k2), jds)" by (metis prod.collapse)
  have "snd ` set (zip (map draws [0..<length msgs]) msgs) \<subseteq> set msgs" by (auto dest: set_zip_rightD)
  from forward_fold[OF f memPrune_good[OF good] _ this]
  have fold: "memGood r2" "held now mb0 r \<subseteq> held now mb0 r2" "\<forall>i \<in> set jds. \<exists>msg \<in> set msgs. mgID msg = i \<and> forwarded_to env now priv rnd msg r2" for mb0
    using held_prune[OF good] by auto
  have r': "r' = r2 \<or> (\<exists>res. MemoryRelay_Ack now \<lparr>akMailbox = mb, akIDs = jds\<rparr> r2 = (r', res))"
    using fwd pull f unfolding ForwardRelayOnce_def p(1)
    by (cases "MemoryRelay_Ack now \<lparr>akMailbox = mb, akIDs = jds\<rparr> r2") (auto simp: p(1) memoryRelay_def split: if_splits)
  have keep: "y \<in> held now mb' r'" if "y \<in> held now mb' r2" "mb' \<noteq> mb \<or> mgID (sdMsg y) \<notin> set jds" for y mb'
    using r' that held_ack[OF fold(1) _ that(1)] by auto
  show ?thesis
  proof (cases "mb0 = mb \<and> mgID (sdMsg x) \<in> set jds")
    case False
    then show ?thesis using keep[of x mb0] x fold(2) by blast
  next
    case True
    then obtain msg where m: "msg \<in> set msgs" "mgID msg = mgID (sdMsg x)" "forwarded_to env now priv rnd msg r2" using fold(3) by blast
    then have same: "msg = sdMsg x" using msgs ids(1) x True by metis
    obtain m' y j where y: "routeOf env priv msg = Some m'" "y \<in> held now (rrNextMailbox m') r2" "mgEnvelope (sdMsg y) = rrNextEnvelope m'"
        "Inr (mgID (sdMsg y)) = newMessageID (rnd j)" using m(3) unfolding forwarded_to_def by blast
    have "mgID (sdMsg y) \<notin> set jds"
    proof
      assume "mgID (sdMsg y) \<in> set jds"
      then obtain q where "q \<in> set msgs" "mgID q = mgID (sdMsg y)" using fold(3) by blast
      then obtain z where "z \<in> held now mb r" "mgID (sdMsg z) = mgID (sdMsg y)" using msgs by metis
      then show False using ids(2) y(4) by metis
    qed
    then have "forwarded_to env now priv rnd msg r'" using y keep[OF y(2)] unfolding forwarded_to_def by blast
    then show ?thesis using same True by simp
  qed
qed

section \<open>Relayed events and the ledger\<close>

lemma chain_settle: "svc_next env s0 s \<Longrightarrow> svc_next env s0 (fst (settle env2 ack i mid now s))"
  by (simp add: settle_def svc_intro)

lemma chain_relayClass: "svc_next env s0 (fst st) \<Longrightarrow> svc_next env s0 (fst (relayClass i r ctx mx em c st))"
proof -
  assume a: "svc_next env s0 (fst st)"
  have "svc_next env (fst st) ((fst st)\<lparr>scheduler := fst (Enqueue i c it (scheduler (fst st)))\<rparr>)" for it
    by (rule next_scheduler) (rule Enqueue_ok)
  then have "svc_next env s0 ((fst st)\<lparr>scheduler := fst (Enqueue i c it (scheduler (fst st)))\<rparr>)" for it using a next_trans by blast
  then show ?thesis using a unfolding relayClass_def Let_def case_prod_unfold by simp
qed

lemma fst_pullEvents:
  "svc_next env s0 s \<Longrightarrow> svc_next env s0 (fst (pullEvents env2 now ack i mid w s))"
  unfolding pullEvents_def Let_def case_prod_unfold
  by (auto split: option.split intro!: chain_settle chain_stats chain_relayClass chain_dropped chain_fold_fst)

lemma chain_pullOne: "svc_next env s0 s \<Longrightarrow> svc_next env s0 (fst (pullOne env2 senv now ack i priv msg s))"
  unfolding pullOne_def Let_def case_prod_unfold
  by (auto split: sum.split option.split intro!: chain_settle fst_pullEvents chain_observe chain_peers)

lemma chain_pull:
  assumes "orders_ok env" "PullAndApplyFromRelay env rl senv now mb priv limit ack s r = Some (s', r', res)"
  shows "svc_next env s s'"
proof -
  have step: "svc_next env s (fst (pullStep env senv now ack i priv msg st))" if "svc_next env s (fst st)" for i msg st
    using chain_pullOne[OF that] by (simp add: pullStep_def case_prod_unfold)
  have start: "svc_next env s (fst (setPeerRole i PeerRoleRelay now s, [], 0 :: nat))" for i by (simp add: svc_intro)
  have all: "svc_next env s (fst (fold (pullStep env senv now ack i priv) msgs (setPeerRole i PeerRoleRelay now s, [], 0)))" for i msgs
    by (rule chain_fold_fst[OF start step])
  from assms(2) show ?thesis using chain_drain[OF all assms(1)]
    by (auto simp: PullAndApplyFromRelay_def Let_def case_prod_unfold split: sum.splits option.splits)
qed

lemma chain_delayedPad: "svc_next env s0 s \<Longrightarrow> svc_next env s0 (fst (delayedPad env2 pt s))"
  unfolding delayedPad_def by (intro chain_padded chain_if chain_stats)

lemma chain_publishLoop: "svc_next env s0 (ntService net) \<Longrightarrow> svc_next env s0 (ntService (fst (publishLoop env2 rl sealFor now sid ctx ttl pow b pending n net)))"
proof (induction b arbitrary: pending n net)
  case (Suc b)
  have pad: "svc_next env s0 (fst (delayedPad env2 pt (ntService net)))" for pt by (rule chain_delayedPad[OF Suc.prems])
  show ?case using Suc pad by (auto simp: Let_def case_prod_unfold split: sum.split)
qed simp

lemma chain_publish: "svc_next env s0 (ntService net) \<Longrightarrow> svc_next env s0 (ntService (fst (publish env2 rl sealFor now ctx want ttl pow net)))"
  using chain_session[of env s0 "ntService net" env2]
  by (auto simp: publish_def intro!: chain_publishLoop split: option.split prod.split)

text \<open>Everything that happens to a service that also uses a relay: the operations of the service itself, pulls and publications.\<close>

datatype relay_svc_op = Local svc_op | FromRelay gotime string bytes int bool | ToRelay gotime string bytes string "string list" int int
  | ToRelayHops gotime "RelayHop list" string bytes string "string list" int int

fun rs_step :: "svc_env \<Rightarrow> 'r relay \<Rightarrow> seal_env \<Rightarrow> relay_svc_op \<Rightarrow> 'r net \<Rightarrow> 'r net option" where
  "rs_step env rl senv (Local x) net = map_option (\<lambda>s. net\<lparr>ntService := s\<rparr>) (svc_step env x (ntService net))"
| "rs_step env rl senv (FromRelay now mb priv limit ack) net =
     map_option (\<lambda>(s, r, res). net\<lparr>ntService := s, ntRelay := r\<rparr>) (PullAndApplyFromRelay env rl senv now mb priv limit ack (ntService net) (ntRelay net))"
| "rs_step env rl senv (ToRelay now mb pub ctx want ttl pow) net = Some (fst (PublishEventsToRelay env rl senv now mb pub ctx want ttl pow net))"
| "rs_step env rl senv (ToRelayHops now hops mb pub ctx want ttl pow) net =
     Some (fst (PublishEventsToRelayMultiHop env rl senv now hops mb pub ctx want ttl pow net))"

fun rs_run :: "svc_env \<Rightarrow> 'r relay \<Rightarrow> seal_env \<Rightarrow> relay_svc_op list \<Rightarrow> 'r net \<Rightarrow> 'r net option" where
  "rs_run env rl senv [] net = Some net"
| "rs_run env rl senv (x # xs) net = (case rs_step env rl senv x net of None \<Rightarrow> None | Some net1 \<Rightarrow> rs_run env rl senv xs net1)"

lemma rs_step_next: "orders_ok env \<Longrightarrow> rs_step env rl senv x net = Some net' \<Longrightarrow> svc_next env (ntService net) (ntService net')"
proof (cases x)
  case (Local y)
  then show "orders_ok env \<Longrightarrow> rs_step env rl senv x net = Some net' \<Longrightarrow> ?thesis" using step_next by auto
next
  case (FromRelay now mb priv limit ack)
  then show "orders_ok env \<Longrightarrow> rs_step env rl senv x net = Some net' \<Longrightarrow> ?thesis" using chain_pull by fastforce
qed (auto simp: PublishEventsToRelay_def PublishEventsToRelayMultiHop_def chain_publish)

lemma rs_run_next: "orders_ok env \<Longrightarrow> rs_run env rl senv xs net = Some net' \<Longrightarrow> svc_next env (ntService net) (ntService net')"
proof (induction xs arbitrary: net)
  case (Cons x xs)
  then obtain net1 where "rs_step env rl senv x net = Some net1" "rs_run env rl senv xs net1 = Some net'" by (auto split: option.splits)
  then show ?case using Cons next_trans rs_step_next by blast
qed simp

text \<open>
  C29. The ledger is safe from the mesh and from relays. Start the service with an intact ledger of signed events and any relay whatsoever, also one that answers what it likes. After any sequence of received
  bytes, relayed plaintexts, rounds, pulls from mailboxes and publications, with any options, the ledger is intact, has every event it had, unchanged, and every event in it carries a valid
  signature of its author, although signatures are taken from a cache and events pass through queues; the queues are within their limits.
\<close>

theorem relay_service_keeps_ledger:
  fixes env :: svc_env and o1 :: Options and numCPU :: int and c :: Crypto and pol :: "Policy option" and obs :: "Observer option" and rl :: "'r relay" and r :: 'r
  assumes "\<forall>xs. set (svSched env xs) \<subseteq> set xs" "ledger_ok (svLedger env) l" "\<forall>e \<in> stored l. checkSig (svLedger env) e"
    and "rs_run env rl senv ops \<lparr>ntService = NewService numCPU c l pol obs o1, ntRelay = r, ntSeals = 0\<rparr> = Some net"
  shows "ledger_ok (svLedger env) (ledger (ntService net)) \<and> map_of (events l) \<subseteq>\<^sub>m map_of (events (ledger (ntService net))) \<and>
    (\<forall>e \<in> stored (ledger (ntService net)). checkSig (svLedger env) e) \<and> sched_ok (scheduler (ntService net))"
proof -
  have "svc_next env (NewService numCPU c l pol obs o1) (ntService net)" using rs_run_next[OF assms(1,4)] by simp
  then have "svc_ok env (ntService net) \<and> adds_signed (svLedger env) l (ledger (ntService net))"
    using New_svc_ok[OF assms(2,3), of numCPU c pol obs o1] by (simp add: svc_next_def) (simp add: NewService_def Let_def)
  then show ?thesis by (simp add: svc_ok_def adds_signed_def extends_def)
qed

section \<open>Messages that cannot be opened block a mailbox\<close>

lemma early_sorted:
  assumes "sorted (map f xs)" "x \<in> set (take n xs)"
  shows "length (filter (\<lambda>y. f y < f x) xs) < n"
proof -
  obtain i where i: "i < n" "i < length xs" "xs ! i = x" using assms(2) by (auto simp: in_set_conv_nth)
  have "f y \<ge> f x" if "y \<in> set (drop i xs)" for y
  proof -
    have "sorted (map f (drop i xs))" using assms(1) by (metis drop_map sorted_wrt_drop)
    moreover have "drop i xs = x # drop (Suc i) xs" using i by (metis Cons_nth_drop_Suc)
    ultimately show ?thesis using that by auto
  qed
  then have "filter (\<lambda>y. f y < f x) (drop i xs) = []" by (auto simp: filter_empty_conv not_less)
  then have "filter (\<lambda>y. f y < f x) xs = filter (\<lambda>y. f y < f x) (take i xs)"
    by (metis append_Nil2 append_take_drop_id filter_append)
  then have "length (filter (\<lambda>y. f y < f x) xs) \<le> i" using length_filter_le[of "\<lambda>y. f y < f x" "take i xs"] by simp
  then show ?thesis using i(1) by simp
qed

text \<open>
  A mailbox is clogged when it holds at least as many messages as a pull returns that have no deadline, are available, cannot be opened with the key of the mailbox, and are older than every message
  that can.
\<close>

definition opens :: "seal_env \<Rightarrow> bytes \<Rightarrow> RelayMessage \<Rightarrow> bool" where
  "opens senv priv m \<longleftrightarrow> (\<exists>x. DecodeFromRelay senv (mgEnvelope m) priv = Inr x)"

definition blocker :: "seal_env \<Rightarrow> bytes \<Rightarrow> gotime \<Rightarrow> stored list \<Rightarrow> stored \<Rightarrow> bool" where
  "blocker senv priv t q x \<longleftrightarrow> sdDeadline x = 0 \<and> \<not> sdEarly t x \<and> \<not> opens senv priv (sdMsg x) \<and>
     (\<forall>y \<in> set q. opens senv priv (sdMsg y) \<longrightarrow> mgReceivedAt (sdMsg x) < mgReceivedAt (sdMsg y))"

definition clogged :: "seal_env \<Rightarrow> bytes \<Rightarrow> gotime \<Rightarrow> string \<Rightarrow> nat \<Rightarrow> MemoryRelay \<Rightarrow> bool" where
  "clogged senv priv t mb n r \<longleftrightarrow> memGood r \<and> n \<le> length (filter (blocker senv priv t (queueFor mb r)) (queueFor mb r))"

lemma clogged_prune:
  assumes "clogged senv priv t mb n r" "t \<le> now"
  shows "clogged senv priv now mb n (memPrune now r)"
proof -
  have good: "memGood r" using assms(1) by (simp add: clogged_def)
  define q where "q = queueFor mb r"
  define q' where "q' = filter (\<lambda>x. \<not> sdExpired now x) q"
  have b: "blocker senv priv now q' x \<and> \<not> sdExpired now x" if "blocker senv priv t q x" for x
    using that assms(2) by (auto simp: blocker_def q'_def sdEarly_def sdExpired_def)
  have "length (filter (blocker senv priv t q) p) \<le> length (filter (blocker senv priv now q') (filter (\<lambda>x. \<not> sdExpired now x) p))" for p
    using b by (induction p) auto
  from this[of q] assms(1) show ?thesis
    by (simp add: clogged_def memPrune_good[OF good] queueFor_prune[OF good] q_def[symmetric] q'_def[symmetric])
qed

lemma length_filter_perm: "mset xs = mset ys \<Longrightarrow> length (filter P xs) = length (filter P ys)"
  by (metis mset_filter size_mset)

lemma clogged_pull:
  assumes perm: "\<And>xs. mset (ties xs) = mset xs" and clog: "clogged senv priv now mb (nat limit) r" and m: "m \<in> set (memAvailable ties mb now limit r)"
  shows "\<not> opens senv priv m"
proof
  assume op: "opens senv priv m"
  let ?f = "\<lambda>x. mgReceivedAt (sdMsg x)" and ?zs = "filter (\<lambda>x. \<not> sdEarly now x) (queueFor mb r)"
  obtain y where y: "m = sdMsg y" "y \<in> set (take (nat limit) (sort_key ?f (ties ?zs)))" using m by (auto simp: memAvailable_def)
  have "y \<in> set (ties ?zs)" using y(2) by (auto dest: in_set_takeD)
  then have yq: "y \<in> set (queueFor mb r)" using mset_eq_setD[OF perm, of ?zs] by auto
  have "length (filter (blocker senv priv now (queueFor mb r)) (queueFor mb r)) \<le> length (filter (\<lambda>x. ?f x < ?f y) ?zs)"
  proof -
    have imp: "\<not> sdEarly now x \<and> ?f x < ?f y" if "blocker senv priv now (queueFor mb r) x" for x
      using that yq op y(1) by (auto simp: blocker_def)
    have "length (filter (blocker senv priv now (queueFor mb r)) p) \<le> length (filter (\<lambda>x. ?f x < ?f y) (filter (\<lambda>x. \<not> sdEarly now x) p))" for p
      using imp by (induction p) auto
    then show ?thesis .
  qed
  also have "\<dots> = length (filter (\<lambda>x. ?f x < ?f y) (sort_key ?f (ties ?zs)))" by (intro length_filter_perm) (simp add: perm)
  also have "\<dots> < nat limit" by (rule early_sorted[OF _ y(2)]) simp
  finally show False using clog by (simp add: clogged_def)
qed

text \<open>
  C32. A clogged mailbox is dead. Messages that cannot be opened are never acknowledged, so when a mailbox of the relay in memory is clogged with them, a pull with acknowledgements does what it does on an
  empty mailbox, every message stays, and the mailbox is clogged for the next pull as well: messages behind them are never read.
\<close>

theorem junk_clogs_mailbox:
  assumes perm: "\<And>xs. mset (ties xs) = mset xs" and clog: "clogged senv priv t mb (nat (clampLimit limit)) r" "t \<le> now"
    and pull: "PullAndApplyFromRelay env (memoryRelay ties rnd) senv now mb priv limit ack s (r, k) = Some (s', (r', k'), Inr (rep, n))"
    and s1: "s1 = setPeerRole (''relay:'' @ mb) PeerRoleRelay now s"
  shows "drainInbound env now (SchedulerDrainAfterRelay (opts s1)) s1 = Some (s', rep) \<and>
    (\<forall>x \<in> set (queueFor mb r). sdExpired now x \<or> x \<in> set (queueFor mb r')) \<and> clogged senv priv now mb (nat (clampLimit limit)) r'"
proof -
  have good: "memGood r" using clog(1) by (simp add: clogged_def)
  obtain r1 msgs where pl: "rlPull (memoryRelay ties rnd) now \<lparr>plMailbox = mb, plLimit = clampLimit limit, plWaitSec = 0\<rparr> (r, k) = (r1, Inr msgs)"
    using pull by (auto simp: PullAndApplyFromRelay_def split: prod.splits sum.splits)
  note p = pull_memory[OF good pl]
  have clog': "clogged senv priv now mb (nat (clampLimit limit)) (memPrune now r)" by (rule clogged_prune[OF clog])
  have "\<not> opens senv priv m" if "m \<in> set msgs" for m
    using that clogged_pull[OF perm clog'] by (simp add: p(2) memTurn_def Let_def)
  then have skip: "pullStep env senv now ack i priv m st = st" if "m \<in> set msgs" for m i st
    using that by (cases "DecodeFromRelay senv (mgEnvelope m) priv") (auto simp: pullStep_def pullOne_def opens_def split: prod.splits)
  have "fold (pullStep env senv now ack i priv) ms st = st" if "set ms \<subseteq> set msgs" for i ms st
    using that skip by (induction ms arbitrary: st) auto
  then have fold: "fold (pullStep env senv now ack i priv) msgs st = st" for i st by simp
  have "drainInbound env now (SchedulerDrainAfterRelay (opts s1)) s1 = Some (s', rep) \<and> r' = memPrune now r"
    using pull by (auto simp: PullAndApplyFromRelay_def pl p(1) fold s1 Let_def split: option.splits)
  then show ?thesis using clog' by (auto simp: queueFor_prune[OF good])
qed

section \<open>Samples\<close>

text \<open>A codec with length prefixes, and primitives that keep the plaintext.\<close>

definition put_str :: "string \<Rightarrow> bytes" where "put_str s = replicate (length s) 1 @ 0 # str_bytes s"

definition get_str :: "bytes \<Rightarrow> string \<times> bytes" where
  "get_str b = (let n = length (takeWhile (\<lambda>x. x = 1) b); r = drop (Suc n) b in (bytes_string (take n r), drop n r))"

definition put_int :: "int \<Rightarrow> bytes" where "put_int i = (if i < 0 then 1 else 0) # replicate (nat \<bar>i\<bar>) 1 @ [0]"

definition get_int :: "bytes \<Rightarrow> int \<times> bytes" where
  "get_int b = (let n = length (takeWhile (\<lambda>x. x = 1) (tl b)) in (if hd b = 1 then - int n else int n, drop (Suc n) (tl b)))"

lemma ones: "takeWhile (\<lambda>x. x = 1) (replicate n 1 @ (0 :: byte) # r) = replicate n 1"
  by (induction n) auto

lemma get_put_field [simp]: "get_str (put_str s @ r) = (s, r)" "get_str (put_str s) = (s, [])" "get_int (put_int i @ r) = (i, r)"
  using ones[of "length s" "str_bytes s @ r"] ones[of "length s" "str_bytes s"] ones[of "nat \<bar>i\<bar>" r]
  by (simp_all add: get_str_def put_str_def get_int_def put_int_def Let_def)

lemma length_put_str [simp]: "length (put_str s) = 2 * length s + 1"
  by (simp add: put_str_def)

definition sampleMsg :: msg_env where
  "sampleMsg = \<lparr>meX25519 = (\<lambda>a b. Some []), mePublic = (\<lambda>a. Some (replicate 32 0)), meHkdf = (\<lambda>k i. k), meSeal = (\<lambda>k n p ad. p), meOpen = (\<lambda>k n c ad. Some c),
     meMarshal = (\<lambda>e. put_int (eVersion e) @ put_int (eCreatedAt e) @ put_str (eToMailbox e) @ put_str (EphemeralPubB64 e) @ put_str (NonceB64 e) @ put_str (CiphertextB64 e)),
     meUnmarshal = (\<lambda>b. let (v, b1) = get_int b; (c, b2) = get_int b1; (m, b3) = get_str b2; (p, b4) = get_str b3; (n, b5) = get_str b4; (t, b6) = get_str b5
        in Some \<lparr>eVersion = v, eCreatedAt = c, eToMailbox = m, EphemeralPubB64 = p, NonceB64 = n, CiphertextB64 = t\<rparr>)\<rparr>"

definition sampleSeal :: seal_env where
  "sampleSeal = \<lparr>slMsg = sampleMsg, slKey = (\<lambda>k. Some [1]), slNonce = (\<lambda>k. Some (replicate 24 0)),
     slRoute = (\<lambda>m. put_int (rrSchemaVersion m) @ put_str (rrNextMailbox m) @ put_str (rrNextEnvelope m)),
     slUnRoute = (\<lambda>b. let (v, b1) = get_int b; (m, b2) = get_str b1; (e, b3) = get_str b2
        in Some \<lparr>rrSchemaVersion = v, rrNextMailbox = m, rrNextEnvelope = e\<rparr>)\<rparr>"

lemma sampleSeal_laws: "seal_laws sampleSeal" "size_laws sampleSeal"
  by (simp_all add: seal_laws_def msg_laws_def size_laws_def sampleSeal_def sampleMsg_def)

lemma length_EncodeToString_le: "length (EncodeToString bs) \<le> 2 * length bs"
proof -
  have "length (b64_group_encode ns) \<le> 2 * length ns" for ns by (induction ns rule: b64_group_encode.induct) auto
  from this[of "map unat bs"] show ?thesis by (simp add: EncodeToString_def)
qed

lemma sample_sealed_length:
  assumes "EncodeForRelay sampleSeal (time_Unix 0) k pt pub = Inr e"
  shows "length e \<le> 8 * length pt + 1000"
proof -
  have "e = EncodeToString (meMarshal sampleMsg \<lparr>eVersion = 1, eCreatedAt = 0, eToMailbox = '''', EphemeralPubB64 = EncodeToString (replicate 32 0),
      NonceB64 = EncodeToString (replicate 24 0), CiphertextB64 = EncodeToString pt\<rparr>)"
    using assms by (simp add: EncodeForRelay_def EncryptToPreKey_def NewX25519Keypair_def EncryptToPreKeyWithSender_def DeriveSharedKey_def Encode_def
        sampleSeal_def EnvelopeV1_def) (simp add: sampleMsg_def)
  then have "length e \<le> 2 * length (meMarshal sampleMsg \<lparr>eVersion = 1, eCreatedAt = 0, eToMailbox = '''', EphemeralPubB64 = EncodeToString (replicate 32 0),
      NonceB64 = EncodeToString (replicate 24 0), CiphertextB64 = EncodeToString pt\<rparr>)"
    using length_EncodeToString_le by simp
  moreover have "length (meMarshal sampleMsg \<lparr>eVersion = 1, eCreatedAt = 0, eToMailbox = '''', EphemeralPubB64 = EncodeToString (replicate 32 0),
      NonceB64 = EncodeToString (replicate 24 0), CiphertextB64 = EncodeToString pt\<rparr>) \<le> 4 * length pt + 500"
    using length_EncodeToString_le[of pt] length_EncodeToString_le[of "replicate 32 0"] length_EncodeToString_le[of "replicate 24 0"]
    by (simp add: sampleMsg_def put_int_def)
  ultimately show ?thesis by linarith
qed

definition sampleHop :: RelayHop where "sampleHop = \<lparr>hpMailbox = ''A'', hpPreKeyPub = replicate 32 0\<rparr>"

lemma mailbox_B: "validateMailboxID ''B'' = Inr ()"
  by (simp add: validateMailboxID_def maxMailboxLen_def mailboxChar_def)

lemma sampleHop_simps: "hpMailbox sampleHop = ''A''" "mePublic (slMsg sampleSeal) p = Some (hpPreKeyPub sampleHop)"
  by (simp_all add: sampleHop_def sampleSeal_def sampleMsg_def)


definition bigPlaintext :: bytes where "bigPlaintext = replicate 90000 0"

lemma multi_hop_too_large_witness:
  "\<exists>mb e. EncodeForRelayMultiHop sampleSeal 0 0 bigPlaintext ''B'' (replicate 32 0) [sampleHop] = Inr (mb, e) \<and>
     PushRequest_Validate (plainPush mb e 60 0) \<noteq> Inr ()"
proof -
  have key: "mePublic (slMsg sampleSeal) [3] = Some (replicate 32 0)" by (simp add: sampleSeal_def sampleMsg_def)
  obtain e0 where e0: "EncodeForRelay sampleSeal 0 0 bigPlaintext (replicate 32 0) = Inr e0" using seal_roundtrip[OF sampleSeal_laws(1) key] by blast
  obtain e where e: "EncodeForRelay sampleSeal 0 (Suc 0) (slRoute sampleSeal \<lparr>rrSchemaVersion = 1, rrNextMailbox = ''B'', rrNextEnvelope = e0\<rparr>) (hpPreKeyPub sampleHop) = Inr e"
    using seal_roundtrip[OF sampleSeal_laws(1) sampleHop_simps(2)] by blast
  have enc: "EncodeForRelayMultiHop sampleSeal 0 0 bigPlaintext ''B'' (replicate 32 0) [sampleHop] = Inr (hpMailbox sampleHop, e)"
    by (simp only: EncodeForRelayMultiHop_def e0 e wrapHop_def rbind.simps rev.simps append_Nil wrapHops.simps prod.case)
  have "length bigPlaintext > 82944" unfolding bigPlaintext_def length_replicate by simp
  from multi_hop_too_large[OF sampleSeal_laws(2) enc _ this, of 60 0] enc show ?thesis by blast
qed

lemma pull_memory_ok:
  assumes "validateMailboxID mb = Inr ()"
  shows "rlPull (memoryRelay ties rnd) now \<lparr>plMailbox = mb, plLimit = clampLimit limit, plWaitSec = 0\<rparr> (r, k) =
    ((memPrune now r, k), Inr (memAvailable ties mb now (clampLimit limit) (memPrune now r)))"
proof -
  let ?req = "\<lparr>plMailbox = mb, plLimit = clampLimit limit, plWaitSec = 0\<rparr>"
  have "PullRequest_Validate ?req = Inr ()" using assms by (simp add: PullRequest_Validate_def)
  moreover have "PullRequest_Normalize ?req = ?req" by (simp add: PullRequest_Normalize_def clampLimit_def Let_def)
  ultimately show ?thesis by (simp add: memoryRelay_def MemoryRelay_Pull_def waitedPull_def Let_def memTurn_def)
qed

lemma forward_ok:
  assumes "validateMailboxID mb = Inr ()"
  shows "\<exists>r' k' n tot. ForwardRelayOnce (memoryRelay ties rnd) env now mb priv limit ack draws delayMax ttlSec powBits (r, k) = ((r', k'), Inr (n, tot))"
  unfolding ForwardRelayOnce_def pull_memory_ok[OF assms] by (simp add: Let_def case_prod_unfold)

text \<open>A pull of a service without an observer returns, whatever the relay gives it.\<close>

theorem relay_pull_returns:
  assumes "observer s = None"
  shows "\<exists>res. PullAndApplyFromRelay env rl senv now mb priv limit ack s r = Some res"
proof -
  have step: "svc_next env s (fst (pullStep env senv now ack i priv msg st))" if "svc_next env s (fst st)" for i msg st
    using chain_pullOne[OF that] by (simp add: pullStep_def case_prod_unfold)
  have start: "svc_next env s (fst (setPeerRole i PeerRoleRelay now s, [], 0 :: nat))" for i by (simp add: svc_intro)
  have "svc_next env s (fst (fold (pullStep env senv now ack i priv) msgs (setPeerRole i PeerRoleRelay now s, [], 0)))" for i msgs
    by (rule chain_fold_fst[OF start step])
  then have obs: "observer (fst (fold (pullStep env senv now ack i priv) msgs (setPeerRole i PeerRoleRelay now s, [], 0))) = None" for i msgs
    using assms by (simp add: svc_next_def)
  show ?thesis
  proof (cases "snd (rlPull rl now \<lparr>plMailbox = mb, plLimit = clampLimit limit, plWaitSec = 0\<rparr> r)")
    case (Inl e)
    then show ?thesis unfolding PullAndApplyFromRelay_def Let_def case_prod_unfold by simp
  next
    case (Inr msgs)
    define i where "i = ''relay:'' @ mb"
    obtain st where "drainInbound env now (SchedulerDrainAfterRelay (opts (fst (fold (pullStep env senv now ack i priv) msgs (setPeerRole i PeerRoleRelay now s, [], 0)))))
        (fst (fold (pullStep env senv now ack i priv) msgs (setPeerRole i PeerRoleRelay now s, [], 0))) = Some st" using drain_returns[OF obs] by fast
    then show ?thesis unfolding PullAndApplyFromRelay_def Let_def case_prod_unfold Inr i_def[symmetric] by simp
  qed
qed

lemma pull_memory_result:
  assumes "validateMailboxID mb = Inr ()" "observer s = None"
  shows "\<exists>s' r' k' rep n. PullAndApplyFromRelay env (memoryRelay ties rnd) senv now mb priv limit ack s (r, k) = Some (s', (r', k'), Inr (rep, n))"
proof -
  obtain s' rk res where x: "PullAndApplyFromRelay env (memoryRelay ties rnd) senv now mb priv limit ack s (r, k) = Some (s', rk, res)"
    using relay_pull_returns[OF assms(2), of env "memoryRelay ties rnd" senv now mb priv limit ack "(r, k)"] by auto
  then have "\<exists>rep n. res = Inr (rep, n)"
    by (auto simp: PullAndApplyFromRelay_def pull_memory_ok[OF assms(1)] Let_def case_prod_unfold split: option.splits)
  then show ?thesis using x by (cases rk) auto
qed

definition sampleStored :: "string \<Rightarrow> string \<Rightarrow> int \<Rightarrow> stored" where
  "sampleStored i e t = \<lparr>sdMsg = \<lparr>mgID = i, mgMailbox = ''A'', mgEnvelope = e, mgReceivedAt = t\<rparr>, sdDeadline = 0, sdAvailAt = 0\<rparr>"

definition sampleMailbox :: "string \<Rightarrow> MemoryRelay" where
  "sampleMailbox e = \<lparr>mailboxQ = [(''A'', [sampleStored ''i'' ''!'' 1, sampleStored ''j'' e 2])]\<rparr>"

lemma sampleMailbox_simps:
  "memGood (sampleMailbox e)" "queueFor ''A'' (sampleMailbox e) = [sampleStored ''i'' ''!'' 1, sampleStored ''j'' e 2]"
  by (simp_all add: sampleMailbox_def memGood_def queueFor_def)

lemma mailbox_A: "validateMailboxID ''A'' = Inr ()"
  by (simp add: validateMailboxID_def maxMailboxLen_def mailboxChar_def)

lemma sample_junk: "DecodeFromRelay senv ''!'' priv = Inl MsgEncoding"
proof -
  have "DecodeString ''!'' = None" by code_simp
  then show ?thesis by (simp add: DecodeFromRelay_def DecodeEnvelope_def)
qed

lemma forwarding_loses_nothing_witness:
  "\<exists>e r' k' n tot. ForwardRelayOnce (memoryRelay (\<lambda>xs. xs) (\<lambda>k. None)) sampleSeal 5 ''A'' [2] 10 True (\<lambda>_ _. None) 0 60 0 (sampleMailbox e, 0) = ((r', k'), Inr (n, tot)) \<and>
     peel sampleSeal [[2]] (''A'', e) \<noteq> None \<and>
     (sampleStored ''j'' e 2 \<in> held 5 ''A'' r' \<or> forwarded_to sampleSeal 5 [2] (\<lambda>k. None) (sdMsg (sampleStored ''j'' e 2)) r')"
proof -
  obtain e where e: "peel sampleSeal [[2]] (''A'', e) = Some (''B'', ''B'')"
    using wrapHop_peels[OF sampleSeal_laws sampleHop_simps(2)[of "[2]"] mailbox_B, of "''B''"] by (auto simp: plain_char_def maxEnvelopeLen_def sampleHop_simps)
  obtain r' k' n tot where f: "ForwardRelayOnce (memoryRelay (\<lambda>xs. xs) (\<lambda>k. None)) sampleSeal 5 ''A'' [2] 10 True (\<lambda>_ _. None) 0 60 0 (sampleMailbox e, 0) = ((r', k'), Inr (n, tot))"
    using forward_ok[OF mailbox_A, of "\<lambda>xs. xs" "\<lambda>k. None" sampleSeal 5 "[2]" 10 True "\<lambda>_ _. None" 0 60 0 "sampleMailbox e" 0] by auto
  have h: "held 5 ''A'' (sampleMailbox e) = {sampleStored ''i'' ''!'' 1, sampleStored ''j'' e 2}"
    by (auto simp: held_def sampleMailbox_simps sampleStored_def sdExpired_def)
  have "sampleStored ''j'' e 2 \<in> held 5 ''A'' r' \<or> ''A'' = ''A'' \<and> forwarded_to sampleSeal 5 [2] (\<lambda>k. None) (sdMsg (sampleStored ''j'' e 2)) r'"
    by (rule forwarding_loses_nothing[OF _ sampleMailbox_simps(1) f]) (auto simp: h sampleStored_def newMessageID_def)
  then show ?thesis using f e by blast
qed

lemma sampleService_observer: "observer sampleService = None"
  by (simp add: sampleService_def NewService_def Let_def)

lemma junk_clogs_mailbox_witness:
  "\<exists>s' r' k' rep n. PullAndApplyFromRelay sampleSvc (memoryRelay (\<lambda>xs. xs) (\<lambda>k. None)) sampleSeal 5 ''A'' [3] 1 True sampleService (sampleMailbox ''B'', 0) =
       Some (s', (r', k'), Inr (rep, n)) \<and> sampleStored ''j'' ''B'' 2 \<in> set (queueFor ''A'' r')"
proof -
  have nope: "\<not> opens sampleSeal [3] (sdMsg (sampleStored ''i'' ''!'' 1))" by (simp add: opens_def sampleStored_def sample_junk)
  then have "blocker sampleSeal [3] 5 (queueFor ''A'' (sampleMailbox ''B'')) (sampleStored ''i'' ''!'' 1)"
    unfolding sampleMailbox_simps by (simp add: blocker_def) (simp add: sampleStored_def sdEarly_def)
  then have clog: "clogged sampleSeal [3] 5 ''A'' (nat (clampLimit 1)) (sampleMailbox ''B'')"
    unfolding clogged_def sampleMailbox_simps by (simp add: sampleMailbox_simps clampLimit_def)
  obtain s' r' k' rep n where p: "PullAndApplyFromRelay sampleSvc (memoryRelay (\<lambda>xs. xs) (\<lambda>k. None)) sampleSeal 5 ''A'' [3] 1 True sampleService (sampleMailbox ''B'', 0) =
       Some (s', (r', k'), Inr (rep, n))"
    using pull_memory_result[OF mailbox_A sampleService_observer] by metis
  have "\<forall>x \<in> set (queueFor ''A'' (sampleMailbox ''B'')). sdExpired 5 x \<or> x \<in> set (queueFor ''A'' r')"
    using junk_clogs_mailbox[OF _ clog order_refl p refl] by simp
  moreover have "\<not> sdExpired 5 (sampleStored ''j'' ''B'' 2)" by (simp add: sdExpired_def sampleStored_def)
  ultimately have "sampleStored ''j'' ''B'' 2 \<in> set (queueFor ''A'' r')" by (simp add: sampleMailbox_simps)
  then show ?thesis using p by blast
qed

lemma relay_service_keeps_ledger_witness:
  "\<exists>net. rs_run sampleSvc (memoryRelay (\<lambda>xs. xs) (\<lambda>k. None)) sampleSeal [FromRelay 5 ''A'' [3] 1 True, ToRelay 6 ''A'' (replicate 32 0) ''c'' [''x''] 60 0]
       \<lparr>ntService = NewService 1 sampleKeys sample_ledger None None zeroOptions, ntRelay = (sampleMailbox ''B'', 0), ntSeals = 0\<rparr> = Some net \<and>
     ledger_ok sample_env (ledger (ntService net))"
proof -
  let ?run = "rs_run sampleSvc (memoryRelay (\<lambda>xs. xs) (\<lambda>k. None)) sampleSeal [FromRelay 5 ''A'' [3] 1 True, ToRelay 6 ''A'' (replicate 32 0) ''c'' [''x''] 60 0]
       \<lparr>ntService = NewService 1 sampleKeys sample_ledger None None zeroOptions, ntRelay = (sampleMailbox ''B'', 0), ntSeals = 0\<rparr>"
  have e: "svLedger sampleSvc = sample_env" by (simp add: sampleSvc_def)
  obtain res where "PullAndApplyFromRelay sampleSvc (memoryRelay (\<lambda>xs. xs) (\<lambda>k. None)) sampleSeal 5 ''A'' [3] 1 True sampleService (sampleMailbox ''B'', 0) = Some res"
    using pull_memory_result[OF mailbox_A sampleService_observer] by metis
  then obtain net where net: "?run = Some net" by (cases res) (simp add: sampleService_def)
  from relay_service_keeps_ledger[OF sampleSvc_laws(1) _ _ net] sample_attested_ok(2) sample_signed have "ledger_ok sample_env (ledger (ntService net))" by (simp add: e)
  then show ?thesis using net by blast
qed

end
