(* ===== verification/Relay_Server.thy ===== *)
theory Relay_Server
  imports Relay_Store
begin

text \<open>
  The relay over HTTP (\<^verbatim>\<open>pkg/relay/http_server.go\<close>, \<^verbatim>\<open>http_client.go\<close>): the options of the server, its token buckets, the three handlers and the requests that the client builds.
  A request is given by its method, the headers the code reads, the remote address as \<^verbatim>\<open>remoteIP\<close> returns it and the decoded body, \<open>None\<close> when the JSON decoder refuses it; a response by
  its status. Amounts of type \<^verbatim>\<open>float64\<close> are rational numbers.
\<close>

section \<open>Options\<close>

record ServerOptions =
  AllowNonLocal :: bool
  MinPoWBits :: int
  IPRateLimitPerMin :: int
  MailboxRateLimitPerMin :: int
  AuthToken :: string

definition ServerOptions_normalize :: "ServerOptions \<Rightarrow> ServerOptions" where
  "ServerOptions_normalize o1 =
     (let pow = (if MinPoWBits o1 < 0 then 0 else if MinPoWBits o1 > 28 then 28 else MinPoWBits o1);
          ip = (if IPRateLimitPerMin o1 < 0 then 0 else IPRateLimitPerMin o1);
          mb = (if MailboxRateLimitPerMin o1 < 0 then 0 else MailboxRateLimitPerMin o1);
          ip1 = (if ip = 0 then 1200 else ip); mb1 = (if mb = 0 then 240 else mb)
      in o1\<lparr>MinPoWBits := pow, IPRateLimitPerMin := (if ip1 > 12000 then 12000 else ip1), MailboxRateLimitPerMin := (if mb1 > 6000 then 6000 else mb1),
            AuthToken := TrimSpace (AuthToken o1)\<rparr>)"

text \<open>The checks of \<^verbatim>\<open>NewServer\<close>; \<open>splitHost\<close> is the host that \<^verbatim>\<open>net.SplitHostPort\<close> finds.\<close>

definition NewServer :: "(string \<Rightarrow> string option) \<Rightarrow> string \<Rightarrow> bool \<Rightarrow> ServerOptions \<Rightarrow> relay_error + string \<times> ServerOptions" where
  "NewServer splitHost addr0 relayNil o1 =
     (let addr = TrimSpace addr0 in
      if addr = '''' then Inl (RelayErr ''relay: missing addr'')
      else case splitHost addr of
             None \<Rightarrow> Inl (RelayErr ''relay: invalid addr'')
           | Some host0 \<Rightarrow>
               let host = TrimSpace host0 in
               if \<not> AllowNonLocal o1 \<and> host \<noteq> ''127.0.0.1'' \<and> host \<noteq> ''localhost'' then Inl (RelayErr ''relay: server must bind to localhost only'')
               else if relayNil then Inl (RelayErr ''relay: relay is nil'')
               else Inr (addr, ServerOptions_normalize o1))"

definition NewLocalServer :: "(string \<Rightarrow> string option) \<Rightarrow> string \<Rightarrow> bool \<Rightarrow> relay_error + string \<times> ServerOptions" where
  "NewLocalServer splitHost addr relayNil =
     NewServer splitHost addr relayNil \<lparr>AllowNonLocal = False, MinPoWBits = 0, IPRateLimitPerMin = 0, MailboxRateLimitPerMin = 0, AuthToken = ''''\<rparr>"

section \<open>Token buckets\<close>

record httpBucket =
  bkTokens :: rat
  bkLast :: gotime

type_synonym tokenLimiter = "(string \<times> httpBucket) list"

definition elapsedSeconds :: "gotime \<Rightarrow> gotime \<Rightarrow> rat" where
  "elapsedSeconds now t = of_int (time_sub now t) / 1000000000"

definition refill :: "rat \<Rightarrow> rat \<Rightarrow> gotime \<Rightarrow> httpBucket \<Rightarrow> httpBucket" where
  "refill ratePerSec burst now b =
     (let e = elapsedSeconds now (bkLast b) in
      if e > 0 then let t = bkTokens b + e * ratePerSec in \<lparr>bkTokens = (if t > burst then burst else t), bkLast = now\<rparr> else b)"

definition Allow :: "string \<Rightarrow> rat \<Rightarrow> rat \<Rightarrow> gotime \<Rightarrow> tokenLimiter \<Rightarrow> tokenLimiter \<times> bool" where
  "Allow key ratePerSec burst0 now l =
     (if ratePerSec \<le> 0 then (l, True)
      else let burst = (if burst0 < 1 then 1 else burst0);
               b0 = (case map_of l key of None \<Rightarrow> \<lparr>bkTokens = burst, bkLast = now\<rparr> | Some b \<Rightarrow> b);
               b1 = refill ratePerSec burst now b0
           in if bkTokens b1 < 1 then (AList.update key b1 l, False)
              else (AList.update key (b1\<lparr>bkTokens := bkTokens b1 - 1\<rparr>) l, True))"

section \<open>Handlers\<close>

record 'b request =
  rqMethod :: string
  rqAuthorization :: string
  rqContentType :: string
  rqIP :: string
  rqBody :: "'b option"

definition requireAuth :: "ServerOptions \<Rightarrow> 'b request \<Rightarrow> bool" where
  "requireAuth o1 rq =
     (if AuthToken o1 = '''' then True
      else let authz = TrimSpace (rqAuthorization rq) in leads ''Bearer '' authz \<and> TrimSpace (drop 7 authz) = AuthToken o1)"

definition readJSON :: "'b request \<Rightarrow> 'b option" where
  "readJSON rq =
     (let ct = TrimSpace (rqContentType rq) in if ct \<noteq> '''' \<and> \<not> leads ''application/json'' ct then None else rqBody rq)"

definition allowRequest :: "ServerOptions \<Rightarrow> string \<Rightarrow> string \<Rightarrow> gotime \<Rightarrow> tokenLimiter \<Rightarrow> tokenLimiter \<times> bool" where
  "allowRequest o1 ip mailbox now l =
     (if ip = '''' then (l, False)
      else let (l1, ok) = (if IPRateLimitPerMin o1 > 0
                           then Allow (''ip:'' @ ip) (of_int (IPRateLimitPerMin o1) / 60) (of_int (IPRateLimitPerMin o1) / 10 + 5) now l else (l, True))
           in if \<not> ok then (l1, False)
              else if MailboxRateLimitPerMin o1 > 0 \<and> mailbox \<noteq> ''''
                   then Allow (''mb:'' @ mailbox) (of_int (MailboxRateLimitPerMin o1) / 60) (of_int (MailboxRateLimitPerMin o1) / 10 + 2) now l1
                   else (l1, True))"

text \<open>What the three handlers have in common: the method, the token, the body and the rates come before the relay.\<close>

record 's server =
  svLimiter :: tokenLimiter
  svRelay :: 's

definition guarded ::
    "ServerOptions \<Rightarrow> gotime \<Rightarrow> 'b request \<Rightarrow> ('b \<Rightarrow> string) \<Rightarrow> ('b \<Rightarrow> 's \<Rightarrow> 's \<times> int \<times> 'a option) \<Rightarrow> 's server \<Rightarrow> 's server \<times> int \<times> 'a option" where
  "guarded o1 now rq mailboxOf act sv =
     (if rqMethod rq \<noteq> ''POST'' then (sv, 405, None)
      else if \<not> requireAuth o1 rq then (sv, 401, None)
      else case readJSON rq of
             None \<Rightarrow> (sv, 400, None)
           | Some req \<Rightarrow>
               (case allowRequest o1 (rqIP rq) (mailboxOf req) now (svLimiter sv) of
                  (l, False) \<Rightarrow> (sv\<lparr>svLimiter := l\<rparr>, 429, None)
                | (l, True) \<Rightarrow> (case act req (svRelay sv) of (s, res) \<Rightarrow> (sv\<lparr>svLimiter := l, svRelay := s\<rparr>, res))))"

definition handlePush ::
    "(bytes \<Rightarrow> bytes) \<Rightarrow> ServerOptions \<Rightarrow> (PushRequest \<Rightarrow> 's \<Rightarrow> 's \<times> (relay_error + string)) \<Rightarrow> gotime \<Rightarrow> PushRequest request \<Rightarrow> 's server \<Rightarrow> 's server \<times> int \<times> string option" where
  "handlePush sha o1 push now rq =
     guarded o1 now rq prMailbox (\<lambda>req s.
       let powBits = (if MinPoWBits o1 > prPoWBits req then MinPoWBits o1 else prPoWBits req) in
       case VerifyPoW sha (prMailbox req) (prEnvelope req) (prPoWNonce req) powBits of
         Inl _ \<Rightarrow> (s, 401, None)
       | Inr _ \<Rightarrow> (case push req s of (s1, Inl _) \<Rightarrow> (s1, 400, None) | (s1, Inr i) \<Rightarrow> (s1, 200, Some i)))"

definition handlePull ::
    "ServerOptions \<Rightarrow> (PullRequest \<Rightarrow> 's \<Rightarrow> 's \<times> (relay_error + RelayMessage list)) \<Rightarrow> gotime \<Rightarrow> PullRequest request \<Rightarrow> 's server \<Rightarrow> 's server \<times> int \<times> RelayMessage list option" where
  "handlePull o1 pull now rq =
     guarded o1 now rq plMailbox (\<lambda>req s. case pull req s of (s1, Inl _) \<Rightarrow> (s1, 400, None) | (s1, Inr ms) \<Rightarrow> (s1, 200, Some ms))"

definition handleAck ::
    "ServerOptions \<Rightarrow> (AckRequest \<Rightarrow> 's \<Rightarrow> 's \<times> (relay_error + unit)) \<Rightarrow> gotime \<Rightarrow> AckRequest request \<Rightarrow> 's server \<Rightarrow> 's server \<times> int \<times> unit option" where
  "handleAck o1 ack now rq =
     guarded o1 now rq akMailbox (\<lambda>req s. case ack req s of (s1, Inl _) \<Rightarrow> (s1, 400, None) | (s1, Inr _) \<Rightarrow> (s1, 200, Some ()))"

section \<open>The client\<close>

text \<open>
  \<open>post\<close> is the round trip of a request, \<open>None\<close> when it fails, the status is not a success or the answer cannot be decoded. The client fills in a missing nonce before the request is
  validated.
\<close>

definition withNonce :: "(bytes \<Rightarrow> bytes) \<Rightarrow> bytes option \<Rightarrow> PushRequest \<Rightarrow> relay_error + PushRequest" where
  "withNonce sha rnd req =
     (if prPoWBits req > 0 \<and> TrimSpace (prPoWNonce req) = ''''
      then rbind (findPoWNonce sha rnd (prMailbox req) (prEnvelope req) (prPoWBits req) 250000) (\<lambda>nonce. Inr (req\<lparr>prPoWNonce := nonce\<rparr>))
      else Inr req)"

definition HTTPClient_Push :: "(bytes \<Rightarrow> bytes) \<Rightarrow> (PushRequest \<Rightarrow> string option) \<Rightarrow> bytes option \<Rightarrow> PushRequest \<Rightarrow> relay_error + string" where
  "HTTPClient_Push sha post rnd req0 =
     rbind (withNonce sha rnd req0) (\<lambda>req. rbind (PushRequest_Validate req) (\<lambda>_.
       case post req of
         None \<Rightarrow> Inl RelayStore
       | Some i \<Rightarrow> if TrimSpace i = '''' then Inl (RelayErr ''relay: missing id in response'') else Inr i))"

definition HTTPClient_Pull :: "(PullRequest \<Rightarrow> RelayMessage list option) \<Rightarrow> PullRequest \<Rightarrow> relay_error + RelayMessage list" where
  "HTTPClient_Pull post req0 =
     rbind (PullRequest_Validate req0) (\<lambda>_.
       case post (PullRequest_Normalize req0) of
         None \<Rightarrow> Inl RelayStore
       | Some ms \<Rightarrow> rbind (rfold (\<lambda>m _. Message_Validate m) ms ()) (\<lambda>_. Inr ms))"

definition HTTPClient_Ack :: "(AckRequest \<Rightarrow> unit option) \<Rightarrow> AckRequest \<Rightarrow> relay_error + unit" where
  "HTTPClient_Ack post req = rbind (AckRequest_Validate req) (\<lambda>_. case post req of None \<Rightarrow> Inl RelayStore | Some _ \<Rightarrow> Inr ())"

section \<open>What reaches the relay\<close>

lemma guarded_cases:
  assumes "guarded o1 now rq mailboxOf act sv = (sv', st, out)"
  obtains (refused) "svRelay sv' = svRelay sv" "st \<in> {405, 401, 400, 429}"
  | (acted) req where "rqMethod rq = ''POST''" "requireAuth o1 rq" "readJSON rq = Some req"
      "snd (allowRequest o1 (rqIP rq) (mailboxOf req) now (svLimiter sv))" "act req (svRelay sv) = (svRelay sv', st, out)"
  using assms by (auto simp: guarded_def split: if_splits option.splits prod.splits bool.splits)


section \<open>Rates\<close>

text \<open>The calls of a limiter: a key, its rate and burst, and the time.\<close>

type_synonym limiterCall = "string \<times> rat \<times> rat \<times> gotime"

definition limiter_step :: "limiterCall \<Rightarrow> tokenLimiter \<Rightarrow> tokenLimiter \<times> bool" where
  "limiter_step c l = (case c of (key, rate, burst, now) \<Rightarrow> Allow key rate burst now l)"

fun granted :: "string \<Rightarrow> limiterCall list \<Rightarrow> tokenLimiter \<Rightarrow> nat" where
  "granted key [] l = 0"
| "granted key (c # cs) l = (case limiter_step c l of (l1, ok) \<Rightarrow> (if fst c = key \<and> ok then 1 else 0) + granted key cs l1)"

text \<open>The tokens of a bucket, and those it can still get until a time.\<close>

definition budget :: "rat \<Rightarrow> gotime \<Rightarrow> httpBucket \<Rightarrow> rat" where
  "budget rate T b = bkTokens b + rate * (of_int (T - bkLast b) / 1000000000)"

lemma budget_refill:
  assumes "0 < rate" "now \<le> T" "bkTokens b \<le> burst"
  shows "budget rate T (refill rate burst now b) \<le> budget rate T b" "bkTokens (refill rate burst now b) \<le> burst"
    "bkTokens b \<le> bkTokens (refill rate burst now b)" "bkLast (refill rate burst now b) \<le> max now (bkLast b)"
proof -
  let ?e = "elapsedSeconds now (bkLast b)"
  show "bkTokens (refill rate burst now b) \<le> burst" "bkTokens b \<le> bkTokens (refill rate burst now b)" "bkLast (refill rate burst now b) \<le> max now (bkLast b)"
    using assms by (auto simp: refill_def Let_def)
  show "budget rate T (refill rate burst now b) \<le> budget rate T b"
  proof (cases "?e > 0")
    case True
    then have "0 < time_sub now (bkLast b)" by (simp add: elapsedSeconds_def)
    then have "time_sub now (bkLast b) \<le> now - bkLast b" by (auto simp: time_sub_def)
    then have "?e \<le> of_int (now - bkLast b) / 1000000000" by (simp add: elapsedSeconds_def divide_right_mono del: of_int_diff)
    then have gain: "?e * rate \<le> rate * (of_int (now - bkLast b) / 1000000000)" using assms(1) by (simp add: mult.commute mult_left_mono)
    define x where "x = rate * (of_int (now - bkLast b) / 1000000000)"
    define y where "y = rate * (of_int (T - now) / 1000000000)"
    have "budget rate T b = bkTokens b + x + y" by (simp add: budget_def x_def y_def field_simps)
    moreover have "budget rate T (refill rate burst now b) = bkTokens (refill rate burst now b) + y"
      using True by (simp add: refill_def Let_def budget_def y_def)
    moreover have "bkTokens (refill rate burst now b) \<le> bkTokens b + ?e * rate" using True by (simp add: refill_def Let_def)
    ultimately show ?thesis using gain unfolding x_def[symmetric] by linarith
  next
    case False
    then show ?thesis by (simp add: refill_def Let_def)
  qed
qed

definition bucket_ok :: "rat \<Rightarrow> gotime \<Rightarrow> httpBucket \<Rightarrow> bool" where
  "bucket_ok burst T b \<longleftrightarrow> 0 \<le> bkTokens b \<and> bkTokens b \<le> burst \<and> bkLast b \<le> T"

text \<open>One call for a key: its bucket stays in order, and a granted call uses up one token of the budget.\<close>

lemma Allow_budget:
  assumes "0 < rate" "now \<le> T" "burst1 = max 1 burst" "b = (case map_of l key of None \<Rightarrow> \<lparr>bkTokens = burst1, bkLast = now\<rparr> | Some b \<Rightarrow> b)" "bucket_ok burst1 T b"
  shows "\<exists>b'. map_of (fst (Allow key rate burst now l)) key = Some b' \<and> bucket_ok burst1 T b' \<and>
    budget rate T b' + (if snd (Allow key rate burst now l) then 1 else 0) \<le> budget rate T b"
proof -
  let ?b = "refill rate burst1 now b"
  note r = budget_refill[OF assms(1,2), of b burst1]
  have ok: "bucket_ok burst1 T ?b" using assms(2,5) r by (auto simp: bucket_ok_def)
  have "(if burst < 1 then 1 else burst) = burst1" using assms(3) by simp
  then have al: "Allow key rate burst now l = (if bkTokens ?b < 1 then (AList.update key ?b l, False) else (AList.update key (?b\<lparr>bkTokens := bkTokens ?b - 1\<rparr>) l, True))"
    using assms(1,4) by (simp add: Allow_def Let_def)
  have "budget rate T ?b \<le> budget rate T b" using r(1) assms(5) by (simp add: bucket_ok_def)
  moreover have "budget rate T (?b\<lparr>bkTokens := bkTokens ?b - 1\<rparr>) = budget rate T ?b - 1" by (simp add: budget_def)
  ultimately show ?thesis using ok unfolding al by (auto simp: bucket_ok_def)
qed

lemma Allow_other: "key \<noteq> k \<Longrightarrow> map_of (fst (Allow key rate burst now l)) k = map_of l k"
  by (simp add: Allow_def Let_def)

lemma granted_budget:
  assumes "\<forall>(key, rate1, burst1, now) \<in> set cs. key = k \<longrightarrow> rate1 = rate \<and> burst1 = burst \<and> t0 \<le> now \<and> now \<le> T" "0 < rate" "t0 \<le> T"
    and "case map_of l k of None \<Rightarrow> True | Some b \<Rightarrow> bucket_ok (max 1 burst) T b"
  shows "of_nat (granted k cs l) \<le> (case map_of l k of None \<Rightarrow> max 1 burst + rate * (of_int (T - t0) / 1000000000) | Some b \<Rightarrow> budget rate T b)"
  using assms
proof (induction cs arbitrary: l)
  case Nil
  have "0 \<le> rate * (of_int (T - t) / 1000000000)" if "t \<le> T" for t using that assms(2) by simp
  then show ?case using Nil by (auto simp: budget_def bucket_ok_def split: option.splits)
next
  case (Cons c cs)
  obtain key rate1 burst1 now where c: "c = (key, rate1, burst1, now)" by (cases c)
  obtain l1 ok where al: "Allow key rate1 burst1 now l = (l1, ok)" by fastforce
  have rest: "\<forall>(key, rate1, burst1, now) \<in> set cs. key = k \<longrightarrow> rate1 = rate \<and> burst1 = burst \<and> t0 \<le> now \<and> now \<le> T" using Cons.prems(1) by simp
  show ?case
  proof (cases "key = k")
    case False
    then have "map_of l1 k = map_of l k" using Allow_other[of key k rate1 burst1 now l] al by simp
    with Cons.IH[OF rest Cons.prems(2,3), of l1] Cons.prems(4)
    have "of_nat (granted k cs l1) \<le> (case map_of l k of None \<Rightarrow> max 1 burst + rate * (of_int (T - t0) / 1000000000) | Some b \<Rightarrow> budget rate T b)" by simp
    then show ?thesis using False al by (simp add: c limiter_step_def)
  next
    case True
    then have k: "rate1 = rate" "burst1 = burst" "t0 \<le> now" "now \<le> T" using Cons.prems(1) c by auto
    define b where "b = (case map_of l k of None \<Rightarrow> \<lparr>bkTokens = max 1 burst, bkLast = now\<rparr> | Some b \<Rightarrow> b)"
    have ok_b: "bucket_ok (max 1 burst) T b" using Cons.prems(4) k(4) by (auto simp: b_def bucket_ok_def split: option.splits)
    from Allow_budget[OF Cons.prems(2) k(4) refl b_def ok_b] al obtain b' where b': "map_of l1 k = Some b'" "bucket_ok (max 1 burst) T b'"
        "budget rate T b' + (if ok then 1 else 0) \<le> budget rate T b" by (auto simp: k(1,2) True)
    have "of_nat (granted k cs l1) \<le> budget rate T b'" using Cons.IH[OF rest Cons.prems(2,3), of l1] b'(1,2) by simp
    then have "of_nat (granted k (c # cs) l) \<le> budget rate T b" using b'(3) al by (auto simp: c limiter_step_def True)
    also have "\<dots> \<le> (case map_of l k of None \<Rightarrow> max 1 burst + rate * (of_int (T - t0) / 1000000000) | Some b \<Rightarrow> budget rate T b)"
    proof (cases "map_of l k")
      case None
      have "rate * (of_int (T - now) / 1000000000) \<le> rate * (of_int (T - t0) / 1000000000)"
        using k(3) Cons.prems(2) by (intro mult_left_mono divide_right_mono) simp_all
      then show ?thesis using None by (simp add: b_def budget_def del: of_int_diff)
    qed (simp add: b_def)
    finally show ?thesis .
  qed
qed

text \<open>
  Rates hold whatever others do: of the calls for one key at times in an interval, in any order and mixed with calls for other keys, a new limiter grants at most the burst plus the rate times the length of
  the interval.
\<close>

theorem limiter_bounded:
  assumes "\<forall>(key, rate1, burst1, now) \<in> set cs. key = k \<longrightarrow> rate1 = rate \<and> burst1 = burst \<and> t0 \<le> now \<and> now \<le> T" "0 < rate" "t0 \<le> T"
  shows "of_nat (granted k cs []) \<le> max 1 burst + rate * (of_int (T - t0) / 1000000000)"
  using granted_budget[OF assms, of "[]"] by simp

lemma limiter_bounded_witness:
  "of_nat (granted ''ip:a'' [(''ip:a'', 1, 2, 0), (''mb:b'', 5, 5, 3), (''ip:a'', 1, 2, 1000000000)] []) \<le> (max 1 2 + 1 * (of_int (1000000000 - 0) / 1000000000) :: rat)"
  by (rule limiter_bounded) simp_all

section \<open>Client and server\<close>

text \<open>The server as the round trip of a client: what the client gets of a successful response.\<close>

definition servePush :: "(bytes \<Rightarrow> bytes) \<Rightarrow> ServerOptions \<Rightarrow> (PushRequest \<Rightarrow> 's \<Rightarrow> 's \<times> (relay_error + string)) \<Rightarrow> gotime \<Rightarrow> string \<Rightarrow> string \<Rightarrow> 's server \<Rightarrow> PushRequest \<Rightarrow> string option" where
  "servePush sha o1 push now authz ip sv req =
     (case handlePush sha o1 push now \<lparr>rqMethod = ''POST'', rqAuthorization = authz, rqContentType = ''application/json'', rqIP = ip, rqBody = Some req\<rparr> sv of
        (_, st, out) \<Rightarrow> if 200 \<le> st \<and> st < 300 then out else None)"


text \<open>A server that demands a token and one bit of work, and a request with one bit.\<close>

definition sampleServer :: ServerOptions where
  "sampleServer = \<lparr>AllowNonLocal = False, MinPoWBits = 1, IPRateLimitPerMin = 60, MailboxRateLimitPerMin = 60, AuthToken = ''t''\<rparr>"

definition sampleBits :: PushRequest where
  "sampleBits = \<lparr>prMailbox = ''A'', prEnvelope = ''B'', prTTLSec = 60, prDelaySec = 0, prPoWBits = 1, prPoWNonce = ''''\<rparr>"

lemma sample_found: "findPoWNonce (\<lambda>b. b) (Some (replicate 8 0)) ''A'' ''B'' 1 250000 = Inr (EncodeToString (replicate 8 0 @ le_bytes 8 0))"
proof -
  have hit: "hashHasLeadingZeroBits (powHash (\<lambda>b. b) ''A'' ''B'' (replicate 8 0 @ le_bytes 8 0)) (Suc 0)"
    by (simp add: hashHasLeadingZeroBits_def powHash_def str_bytes_def)
  obtain k where k: "(250000 :: nat) = Suc k" by (metis Suc_diff_1 zero_less_numeral)
  have "powSearch (\<lambda>b. b) ''A'' ''B'' (Suc 0) (replicate 8 0) 0 250000 = Some (replicate 8 0 @ le_bytes 8 0)"
    unfolding k by (simp only: powSearch.simps Let_def hit if_True)
  then show ?thesis by (simp add: findPoWNonce_def)
qed

lemma sample_allowed: "snd (allowRequest sampleServer ''1.2.3.4'' ''A'' 5 [])"
  by (simp add: allowRequest_def sampleServer_def Allow_def refill_def elapsedSeconds_def time_sub_def Let_def)



end
