(* ===== verification/Relay_Client.thy ===== *)
theory Relay_Client
  imports Relay_Store "HOL-Library.Sublist"
begin

text \<open>
  The clients of a relay: the poller (\<^verbatim>\<open>pkg/relay/relay.go\<close>) and the shaped sender (\<^verbatim>\<open>sender.go\<close>). A cycle of the poller and a turn of the sender are steps; the calls they make on the
  relay are listed in the order in which they are made, and their results, the readings of the clock and the random numbers are inputs of the step.
\<close>

section \<open>Options of the poller\<close>

record PollOptions =
  poMailbox :: string
  poLimit :: int
  poWaitSec :: int
  poCycleSec :: int
  poJitterMs :: int
  poBackoffBaseMs :: int
  poBackoffMaxMs :: int
  poAck :: bool
  poAckDelayMsMax :: int
  poAckBatchSec :: int
  poAckBatchMax :: int
  poCoverAckSec :: int
  poCoverAckCount :: int
  poCoverAckJitterMs :: int
  poDecoyMailboxes :: "string list"
  poDecoyPullSec :: int
  poDecoyWaitSec :: int
  poDecoyLimit :: int
  poDecoyPullJitterMs :: int
  poHandle :: bool

text \<open>Three forms of adjustment: a default for what is not positive, no negative values with a default for zero under a condition, and a maximum.\<close>

definition orElse :: "int \<Rightarrow> int \<Rightarrow> int" where "orElse d v = (if v \<le> 0 then d else v)"
definition orWhen :: "bool \<Rightarrow> int \<Rightarrow> int \<Rightarrow> int" where "orWhen c d v = (let w = (if v < 0 then 0 else v) in if w = 0 \<and> c then d else w)"
definition atMax :: "int \<Rightarrow> int \<Rightarrow> int" where "atMax m v = (if v > m then m else v)"

fun keepDecoys :: "string \<Rightarrow> string list \<Rightarrow> string list \<Rightarrow> string list" where
  "keepDecoys own seen [] = []"
| "keepDecoys own seen (mb # mbs) =
     (if mb = '''' \<or> mb = own \<or> mb \<in> set seen then keepDecoys own seen mbs else mb # keepDecoys own (mb # seen) mbs)"

definition normalizeDecoys :: "PollOptions \<Rightarrow> PollOptions" where
  "normalizeDecoys p =
     (if poDecoyMailboxes p = [] then p
      else p\<lparr>poDecoyMailboxes := keepDecoys (poMailbox p) [] (take 10 (poDecoyMailboxes p)),
             poDecoyPullSec := atMax 300 (orElse 5 (poDecoyPullSec p)), poDecoyWaitSec := atMax 30 (orElse 1 (poDecoyWaitSec p)),
             poDecoyLimit := atMax 10 (orElse 1 (poDecoyLimit p)), poDecoyPullJitterMs := atMax 5000 (orWhen True 500 (poDecoyPullJitterMs p))\<rparr>)"

definition PollOptions_normalize :: "PollOptions \<Rightarrow> relay_error + PollOptions" where
  "PollOptions_normalize o1 =
     (if poMailbox o1 = '''' then Inl (RelayErr ''relay: mailbox required'')
      else let wait = atMax 30 (orElse 15 (poWaitSec o1)); base = orElse 250 (poBackoffBaseMs o1); mx = orElse 5000 (poBackoffMaxMs o1);
               cover = atMax 300 (orWhen False 0 (poCoverAckSec o1));
               p = o1\<lparr>poLimit := atMax 200 (orElse 50 (poLimit o1)), poWaitSec := wait, poCycleSec := atMax 60 (orElse wait (poCycleSec o1)),
                      poJitterMs := atMax 5000 (orWhen False 0 (poJitterMs o1)), poBackoffBaseMs := base,
                      poBackoffMaxMs := atMax 60000 (if mx < base then base else mx),
                      poAckDelayMsMax := atMax 5000 (orWhen (poAck o1) 250 (poAckDelayMsMax o1)),
                      poAckBatchSec := atMax 300 (orWhen (poAck o1) 5 (poAckBatchSec o1)),
                      poAckBatchMax := atMax 2000 (orWhen (poAck o1) 50 (poAckBatchMax o1)),
                      poCoverAckSec := cover, poCoverAckCount := atMax 25 (orWhen (cover > 0) 2 (poCoverAckCount o1)),
                      poCoverAckJitterMs := atMax 5000 (orWhen (cover > 0) 500 (poCoverAckJitterMs o1))\<rparr>;
               q = normalizeDecoys p
           in if \<not> poHandle o1 then Inl (RelayErr ''relay: handle is required'') else Inr q)"

section \<open>Backoff and jitter\<close>

text \<open>\<^verbatim>\<open>base << (n - 1)\<close> on 64 bit integers.\<close>

definition millisecond :: duration where "millisecond = 1000000"

definition expBackoff :: "duration \<Rightarrow> duration \<Rightarrow> int \<Rightarrow> duration" where
  "expBackoff base0 mx0 n0 =
     (let base = (if base0 \<le> 0 then 250 * millisecond else base0); mx = (if mx0 \<le> 0 then 5 * second else mx0) in
      if n0 \<le> 0 then base
      else let n = (if n0 > 20 then 20 else n0); m = wrap64 (base * 2 ^ nat (n - 1)) in if m > mx then mx else m)"

text \<open>\<open>rnd n\<close> is what \<^verbatim>\<open>randInt63n\<close> gives for a bound, \<open>None\<close> for its error.\<close>

definition jitterPositive :: "(int \<Rightarrow> int option) \<Rightarrow> duration \<Rightarrow> duration" where
  "jitterPositive rnd mx = (if mx \<le> 0 then 0 else case rnd (mx + 1) of None \<Rightarrow> 0 | Some n \<Rightarrow> n)"

definition jitterSigned :: "(int \<Rightarrow> int option) \<Rightarrow> (int \<Rightarrow> int option) \<Rightarrow> duration \<Rightarrow> duration" where
  "jitterSigned rnd rnd2 maxAbs =
     (if maxAbs \<le> 0 then 0
      else case rnd (maxAbs + 1) of
             None \<Rightarrow> 0
           | Some n \<Rightarrow> if n = 0 then 0 else (case rnd2 2 of None \<Rightarrow> 0 | Some b \<Rightarrow> if b = 0 then - n else n))"

section \<open>The poller\<close>

record pollState =
  psErrors :: int
  psLastAck :: gotime
  psPending :: "string list"
  psLastCover :: gotime
  psLastDecoy :: gotime
  psDecoyNext :: nat

text \<open>The calls of the poller on the relay.\<close>

datatype relayCall = CallPull PullRequest | CallAck AckRequest

text \<open>
  The inputs of one cycle: the result of the pull, whether the handler accepted the messages, the clock (at the checks of the three timers, after an acknowledgement and after a decoy pull), the random
  identifiers of a cover acknowledgement (\<open>None\<close> where the random source failed) and the random numbers of the final sleep.
\<close>

record pollInput =
  inMsgs :: "relay_error + RelayMessage list"
  inHandled :: bool
  inNow :: gotime
  inAfterAck :: gotime
  inCoverIDs :: "string option list"
  inElapsed :: duration
  inRnd :: "int \<Rightarrow> int option"
  inRnd2 :: "int \<Rightarrow> int option"

definition initialPoll :: "gotime \<Rightarrow> pollState" where
  "initialPoll now = \<lparr>psErrors = 0, psLastAck = now, psPending = [], psLastCover = now, psLastDecoy = now, psDecoyNext = 0\<rparr>"

definition flushAcks :: "PollOptions \<Rightarrow> gotime \<Rightarrow> pollState \<times> relayCall list \<Rightarrow> pollState \<times> relayCall list" where
  "flushAcks p after = (\<lambda>(s, calls).
     if \<not> poAck p \<or> psPending s = [] then (s, calls)
     else (s\<lparr>psPending := [], psLastAck := after\<rparr>, calls @ [CallAck \<lparr>akMailbox = poMailbox p, akIDs = psPending s\<rparr>]))"

fun addPending :: "string list \<Rightarrow> string list \<Rightarrow> string list" where
  "addPending pending [] = pending"
| "addPending pending (i # ids) = addPending (if i \<in> set pending then pending else pending @ [i]) ids"

definition sendCoverAck :: "PollOptions \<Rightarrow> string option list \<Rightarrow> gotime \<Rightarrow> pollState \<times> relayCall list \<Rightarrow> pollState \<times> relayCall list" where
  "sendCoverAck p drawn after = (\<lambda>(s, calls).
     let ids = List.map_filter (\<lambda>x. x) (take (nat (poCoverAckCount p)) drawn) in
     if poCoverAckSec p \<le> 0 \<or> poCoverAckCount p \<le> 0 \<or> ids = [] then (s, calls)
     else (s\<lparr>psLastCover := after\<rparr>, calls @ [CallAck \<lparr>akMailbox = poMailbox p, akIDs = ids\<rparr>]))"

definition doDecoyPull :: "PollOptions \<Rightarrow> gotime \<Rightarrow> pollState \<times> relayCall list \<Rightarrow> pollState \<times> relayCall list" where
  "doDecoyPull p now = (\<lambda>(s, calls).
     if poDecoyPullSec p \<le> 0 \<or> poDecoyMailboxes p = [] \<or> time_sub now (psLastDecoy s) < poDecoyPullSec p * second then (s, calls)
     else (s\<lparr>psDecoyNext := Suc (psDecoyNext s), psLastDecoy := now\<rparr>,
           calls @ [CallPull \<lparr>plMailbox = poDecoyMailboxes p ! (psDecoyNext s mod length (poDecoyMailboxes p)), plLimit = poDecoyLimit p, plWaitSec = poDecoyWaitSec p\<rparr>]))"

text \<open>The steps of a cycle after a successful pull: the messages are handled and their identifiers collected, and the two timers are looked at.\<close>

definition takeMessages :: "PollOptions \<Rightarrow> pollInput \<Rightarrow> RelayMessage list \<Rightarrow> pollState \<times> relayCall list \<Rightarrow> pollState \<times> relayCall list" where
  "takeMessages p i msgs = (\<lambda>(s, calls).
     if msgs \<noteq> [] \<and> inHandled i \<and> poAck p
     then let s2 = s\<lparr>psPending := addPending (psPending s) (map mgID msgs)\<rparr>
          in if poAckBatchMax p > 0 \<and> int (length (psPending s2)) \<ge> poAckBatchMax p then flushAcks p (inAfterAck i) (s2, calls) else (s2, calls)
     else (s, calls))"

definition flushDue :: "PollOptions \<Rightarrow> pollInput \<Rightarrow> pollState \<times> relayCall list \<Rightarrow> pollState \<times> relayCall list" where
  "flushDue p i st =
     (if poAck p \<and> psPending (fst st) \<noteq> [] \<and> poAckBatchSec p > 0 \<and> time_sub (inNow i) (psLastAck (fst st)) \<ge> poAckBatchSec p * second
      then flushAcks p (inAfterAck i) st else st)"

definition coverDue :: "PollOptions \<Rightarrow> pollInput \<Rightarrow> pollState \<times> relayCall list \<Rightarrow> pollState \<times> relayCall list" where
  "coverDue p i st =
     (if poCoverAckSec p > 0 \<and> time_sub (inNow i) (psLastCover (fst st)) \<ge> poCoverAckSec p * second
      then sendCoverAck p (inCoverIDs i) (inAfterAck i) st else st)"

text \<open>One cycle; the last result is the time to sleep.\<close>

definition pollCycle :: "PollOptions \<Rightarrow> pollInput \<Rightarrow> pollState \<Rightarrow> (pollState \<times> relayCall list) \<times> duration" where
  "pollCycle p i s =
     (let pull = CallPull \<lparr>plMailbox = poMailbox p, plLimit = poLimit p, plWaitSec = poWaitSec p\<rparr>; jitter = poJitterMs p * millisecond in
      case inMsgs i of
        Inl _ \<Rightarrow>
          let n = psErrors s + 1
          in ((s\<lparr>psErrors := n\<rparr>, [pull]), expBackoff (poBackoffBaseMs p * millisecond) (poBackoffMaxMs p * millisecond) n + jitterPositive (inRnd i) jitter)
      | Inr msgs \<Rightarrow>
          let st = doDecoyPull p (inNow i) (coverDue p i (flushDue p i (takeMessages p i msgs (s\<lparr>psErrors := 0\<rparr>, [pull]))));
              sleepFor = poCycleSec p * second - inElapsed i + jitterSigned (inRnd i) (inRnd2 i) jitter
          in (st, if sleepFor < 0 then 0 else sleepFor))"

section \<open>The shaped sender\<close>

record SendOptions =
  seMinDelayMs :: int
  seMaxDelayMs :: int
  seBatchMax :: int
  seQueueMax :: int
  seInterPushJitterMs :: int
  seHandleResult :: bool

definition SendOptions_normalize :: "SendOptions \<Rightarrow> SendOptions" where
  "SendOptions_normalize o1 =
     (let mn0 = (if seMinDelayMs o1 < 0 then 0 else seMinDelayMs o1); mx0 = (if seMaxDelayMs o1 < 0 then 0 else seMaxDelayMs o1);
          (mn, mx1) = (if mn0 = 0 \<and> mx0 = 0 then (200, 5000) else (mn0, mx0));
          mx2 = (if mx1 = 0 then mn else mx1); mx3 = (if mx2 < mn then mn else mx2)
      in o1\<lparr>seMinDelayMs := mn, seMaxDelayMs := atMax 60000 mx3, seBatchMax := atMax 200 (orElse 8 (seBatchMax o1)),
            seQueueMax := atMax 100000 (orElse 1000 (seQueueMax o1)), seInterPushJitterMs := atMax 5000 (orWhen False 0 (seInterPushJitterMs o1))\<rparr>)"

text \<open>A queued request; \<open>Some ticket\<close> is the channel of a waiting caller. The state has the queue and the time of the next flush, 0 when none is set.\<close>

record pushItem =
  piReq :: PushRequest
  piTicket :: "nat option"

record PushShaper =
  shQueue :: "pushItem list"
  shNextFlush :: gotime

text \<open>What the sender does, in order: pushes on the relay, answers on the channels of waiting callers and calls of \<^verbatim>\<open>HandleResult\<close>.\<close>

datatype shaperEvent = Pushed PushRequest | Answer nat "relay_error + string" | Report PushRequest "relay_error + string"

definition enqueueItem :: "SendOptions \<Rightarrow> pushItem \<Rightarrow> PushShaper \<Rightarrow> PushShaper \<times> (relay_error + unit)" where
  "enqueueItem o1 item s =
     (case PushRequest_Validate (piReq item) of
        Inl e \<Rightarrow> (s, Inl e)
      | Inr _ \<Rightarrow>
          if int (length (shQueue s)) \<ge> seQueueMax (SendOptions_normalize o1) then (s, Inl (RelayErr ''relay: push queue full''))
          else (s\<lparr>shQueue := shQueue s @ [item]\<rparr>, Inr ()))"

definition Enqueue :: "SendOptions \<Rightarrow> PushRequest \<Rightarrow> PushShaper \<Rightarrow> PushShaper \<times> (relay_error + unit)" where
  "Enqueue o1 req = enqueueItem o1 \<lparr>piReq = req, piTicket = None\<rparr>"

definition EnqueueWait :: "SendOptions \<Rightarrow> nat \<Rightarrow> PushRequest \<Rightarrow> PushShaper \<Rightarrow> PushShaper \<times> (relay_error + unit)" where
  "EnqueueWait o1 ticket req = enqueueItem o1 \<lparr>piReq = req, piTicket = Some ticket\<rparr>"

definition dequeue :: "int \<Rightarrow> PushShaper \<Rightarrow> PushShaper \<times> pushItem list" where
  "dequeue mx s =
     (let n = (if mx \<le> 0 \<or> mx > int (length (shQueue s)) then length (shQueue s) else nat mx)
      in (s\<lparr>shQueue := drop n (shQueue s)\<rparr>, take n (shQueue s)))"

text \<open>
  Pushing a batch: an item whose context is done (the function \<open>cancelled\<close> of its place in the batch) is answered with the error of the context, any other is pushed.
\<close>

definition answerTo :: "pushItem \<Rightarrow> relay_error + string \<Rightarrow> shaperEvent list" where
  "answerTo item res = (case piTicket item of None \<Rightarrow> [] | Some t \<Rightarrow> [Answer t res])"

definition reportTo :: "SendOptions \<Rightarrow> pushItem \<Rightarrow> relay_error + string \<Rightarrow> shaperEvent list" where
  "reportTo p item res = (if seHandleResult p then [Report (piReq item) res] else [])"

fun pushBatch ::
    "SendOptions \<Rightarrow> (PushRequest \<Rightarrow> 'r \<Rightarrow> 'r \<times> (relay_error + string)) \<Rightarrow> (nat \<Rightarrow> bool) \<Rightarrow> nat \<Rightarrow> pushItem list \<Rightarrow> 'r \<Rightarrow> 'r \<times> shaperEvent list" where
  "pushBatch p push cancelled k [] r = (r, [])"
| "pushBatch p push cancelled k (item # items) r =
     (let (r1, evs) = (if cancelled k then (r, answerTo item (Inl RelayCtx) @ reportTo p item (Inl RelayCtx))
                       else case push (piReq item) r of (r1, res) \<Rightarrow> (r1, Pushed (piReq item) # answerTo item res @ reportTo p item res));
          (r2, later) = pushBatch p push cancelled (Suc k) items r1
      in (r2, evs @ later))"

text \<open>
  One turn of the loop of \<^verbatim>\<open>Run\<close> after the context was found alive: the readings of the clock are those at which the flush time is set and at which it is compared.
\<close>

record 'r shaperNet =
  snShaper :: PushShaper
  snRelay :: 'r

definition armFlush :: "SendOptions \<Rightarrow> gotime \<Rightarrow> (int \<Rightarrow> int option) \<Rightarrow> PushShaper \<Rightarrow> PushShaper" where
  "armFlush p now1 rnd s =
     (if shNextFlush s = 0
      then s\<lparr>shNextFlush := now1 + (seMinDelayMs p * millisecond +
               (if seMaxDelayMs p > seMinDelayMs p then jitterPositive rnd ((seMaxDelayMs p - seMinDelayMs p) * millisecond) else 0))\<rparr>
      else s)"

definition flushQueue ::
    "SendOptions \<Rightarrow> (PushRequest \<Rightarrow> 'r \<Rightarrow> 'r \<times> (relay_error + string)) \<Rightarrow> (nat \<Rightarrow> bool) \<Rightarrow> PushShaper \<Rightarrow> 'r shaperNet \<Rightarrow> 'r shaperNet \<times> shaperEvent list" where
  "flushQueue p push cancelled s1 net =
     (let (s2, items) = dequeue (seBatchMax p) s1; (r, evs) = pushBatch p push cancelled 0 items (snRelay net)
      in (net\<lparr>snShaper := s2\<lparr>shNextFlush := 0\<rparr>, snRelay := r\<rparr>, evs))"

definition runTurn ::
    "SendOptions \<Rightarrow> (PushRequest \<Rightarrow> 'r \<Rightarrow> 'r \<times> (relay_error + string)) \<Rightarrow> gotime \<Rightarrow> gotime \<Rightarrow> (int \<Rightarrow> int option) \<Rightarrow> (nat \<Rightarrow> bool) \<Rightarrow>
     'r shaperNet \<Rightarrow> 'r shaperNet \<times> shaperEvent list" where
  "runTurn o1 push now1 now2 rnd cancelled net =
     (let p = SendOptions_normalize o1; s = snShaper net; qlen = length (shQueue s) in
      if qlen = 0 then (net\<lparr>snShaper := s\<lparr>shNextFlush := 0\<rparr>\<rparr>, [])
      else let s1 = armFlush p now1 rnd s
           in if int qlen \<ge> seBatchMax p \<or> now2 > shNextFlush s1 then flushQueue p push cancelled s1 net else (net\<lparr>snShaper := s1\<rparr>, []))"

text \<open>\<^verbatim>\<open>failPending\<close> runs when \<^verbatim>\<open>Run\<close> returns, as on \<^verbatim>\<open>ShapedRelay.Close\<close>.\<close>

definition failPending :: "PushShaper \<Rightarrow> PushShaper \<times> shaperEvent list" where
  "failPending s = (s\<lparr>shQueue := []\<rparr>, concat (map (\<lambda>item. answerTo item (Inl RelayCtx)) (shQueue s)))"

section \<open>What the poller acknowledges\<close>

text \<open>A run of the poller, with the calls it made.\<close>

fun pollRun :: "PollOptions \<Rightarrow> pollInput list \<Rightarrow> pollState \<Rightarrow> pollState \<times> relayCall list" where
  "pollRun p [] s = (s, [])"
| "pollRun p (i # rest) s = (case pollCycle p i s of ((s1, calls), _) \<Rightarrow> (case pollRun p rest s1 of (s2, later) \<Rightarrow> (s2, calls @ later)))"

definition ackedIn :: "relayCall list \<Rightarrow> string set" where
  "ackedIn calls = (\<Union>c \<in> set calls. case c of CallAck a \<Rightarrow> set (akIDs a) | CallPull _ \<Rightarrow> {})"

definition handledIn :: "pollInput \<Rightarrow> string set" where
  "handledIn i = (if inHandled i then (case inMsgs i of Inr msgs \<Rightarrow> mgID ` set msgs | Inl _ \<Rightarrow> {}) else {})"

definition coverIn :: "pollInput \<Rightarrow> string set" where
  "coverIn i = {x. Some x \<in> set (inCoverIDs i)}"

lemma ackedIn_simps [simp]:
  "ackedIn [] = {}" "ackedIn (a @ b) = ackedIn a \<union> ackedIn b" "ackedIn (CallPull q # b) = ackedIn b" "ackedIn (CallAck r # b) = set (akIDs r) \<union> ackedIn b"
  by (auto simp: ackedIn_def)

lemma addPending_set [simp]: "set (addPending pending ids) = set pending \<union> set ids"
  by (induction pending ids rule: addPending.induct) auto

lemma addPending_distinct: "distinct pending \<Longrightarrow> distinct (addPending pending ids)"
  by (induction pending ids rule: addPending.induct) auto

lemma addPending_length: "length pending \<le> length (addPending pending ids)" "length (addPending pending ids) \<le> length pending + length ids"
  by (induction pending ids rule: addPending.induct) (auto split: if_splits)

lemma set_somes: "set (List.map_filter (\<lambda>x. x) xs) = {x. Some x \<in> set xs}"
  by (induction xs) (auto simp: map_filter_simps split: option.splits)

text \<open>The state of the poller between two cycles.\<close>

definition pollInv :: "PollOptions \<Rightarrow> pollState \<Rightarrow> bool" where
  "pollInv p s \<longleftrightarrow> distinct (psPending s) \<and> (\<not> poAck p \<longrightarrow> psPending s = []) \<and> (poAckBatchMax p > 0 \<longrightarrow> int (length (psPending s)) < poAckBatchMax p)"

text \<open>What a part of a cycle may do to the acknowledgements: every identifier stays pending or is acknowledged, and nothing else is acknowledged except cover identifiers.\<close>

definition ackStep :: "string set \<Rightarrow> string set \<Rightarrow> pollState \<times> relayCall list \<Rightarrow> pollState \<times> relayCall list \<Rightarrow> bool" where
  "ackStep fresh cover a b \<longleftrightarrow>
     set (psPending (fst a)) \<union> fresh \<union> ackedIn (snd a) \<subseteq> set (psPending (fst b)) \<union> ackedIn (snd b) \<and>
     set (psPending (fst b)) \<union> ackedIn (snd b) \<subseteq> set (psPending (fst a)) \<union> fresh \<union> ackedIn (snd a) \<union> cover"

lemma ackStep_trans: "ackStep f c a b \<Longrightarrow> ackStep f' c' b d \<Longrightarrow> ackStep (f \<union> f') (c \<union> c') a d"
  unfolding ackStep_def by blast

lemma flushAcks_step: "ackStep {} {} a (flushAcks p after a)"
  by (cases a) (auto simp: ackStep_def flushAcks_def)

lemma sendCoverAck_step: "ackStep {} {x. Some x \<in> set drawn} a (sendCoverAck p drawn after a)"
  by (cases a) (auto simp: ackStep_def sendCoverAck_def Let_def set_somes dest: in_set_takeD)

lemma doDecoyPull_step: "ackStep {} {} a (doDecoyPull p now a)"
  by (cases a) (auto simp: ackStep_def doDecoyPull_def)


lemma takeMessages_step: "ackStep (if inHandled i \<and> poAck p then mgID ` set msgs else {}) {} a (takeMessages p i msgs a)"
  by (cases a) (auto simp: ackStep_def takeMessages_def flushAcks_def Let_def)

lemma flushDue_step: "ackStep {} {} a (flushDue p i a)"
  using flushAcks_step by (auto simp: flushDue_def ackStep_def)

lemma coverDue_step: "ackStep {} (coverIn i) a (coverDue p i a)"
  using sendCoverAck_step by (auto simp: coverDue_def ackStep_def coverIn_def)

lemma pollCycle_step:
  assumes "poAck p"
  shows "ackStep (handledIn i) (coverIn i) (s, []) (fst (pollCycle p i s))"
proof (cases "inMsgs i")
  case (Inr msgs)
  define a where "a = (s\<lparr>psErrors := 0\<rparr>, [CallPull \<lparr>plMailbox = poMailbox p, plLimit = poLimit p, plWaitSec = poWaitSec p\<rparr>])"
  have "ackStep ((if inHandled i \<and> poAck p then mgID ` set msgs else {}) \<union> {} \<union> {} \<union> {}) ({} \<union> {} \<union> coverIn i \<union> {})
          a (doDecoyPull p (inNow i) (coverDue p i (flushDue p i (takeMessages p i msgs a))))"
    by (rule ackStep_trans [OF ackStep_trans [OF ackStep_trans [OF takeMessages_step flushDue_step] coverDue_step] doDecoyPull_step])
  then have "ackStep (handledIn i) (coverIn i) a (doDecoyPull p (inNow i) (coverDue p i (flushDue p i (takeMessages p i msgs a))))"
    using assms Inr by (simp add: handledIn_def split: if_splits)
  with Inr show ?thesis by (simp add: pollCycle_def Let_def a_def ackStep_def)
qed (auto simp: pollCycle_def ackStep_def handledIn_def Let_def)

lemma ackStep_append:
  "ackStep f c (s, []) (s1, calls) \<Longrightarrow> ackStep f' c' (s1, []) (s2, later) \<Longrightarrow> ackStep (f \<union> f') (c \<union> c') (s, []) (s2, calls @ later)"
  by (force simp: ackStep_def)

lemma pollRun_step:
  "poAck p \<Longrightarrow> ackStep (\<Union>i \<in> set inputs. handledIn i) (\<Union>i \<in> set inputs. coverIn i) (s, []) (pollRun p inputs s)"
proof (induction inputs arbitrary: s)
  case (Cons i rest)
  obtain s1 calls d where c: "pollCycle p i s = ((s1, calls), d)" by (metis surj_pair)
  obtain s2 later where r: "pollRun p rest s1 = (s2, later)" by (metis surj_pair)
  from pollCycle_step [OF Cons.prems, of i s] Cons.IH [OF Cons.prems, of s1] show ?case
    by (simp add: c r ackStep_append)
qed (simp add: ackStep_def)

text \<open>The pending identifiers.\<close>

lemma pollInv_flush: "pollInv p (fst st) \<Longrightarrow> pollInv p (fst (flushAcks p after st))"
  by (cases st) (auto simp: pollInv_def flushAcks_def)

lemma pollInv_take: "pollInv p (fst st) \<Longrightarrow> pollInv p (fst (takeMessages p i msgs st))"
  by (cases st) (auto simp: pollInv_def takeMessages_def flushAcks_def Let_def addPending_distinct)

lemma pollInv_cover: "pollInv p (fst st) \<Longrightarrow> pollInv p (fst (sendCoverAck p drawn after st))"
  by (cases st) (simp add: pollInv_def sendCoverAck_def Let_def)

lemma pollInv_decoy: "pollInv p (fst st) \<Longrightarrow> pollInv p (fst (doDecoyPull p now st))"
  by (cases st) (simp add: pollInv_def doDecoyPull_def)

lemma pollInv_due: "pollInv p (fst st) \<Longrightarrow> pollInv p (fst (flushDue p i st))" "pollInv p (fst st) \<Longrightarrow> pollInv p (fst (coverDue p i st))"
  by (simp_all add: flushDue_def coverDue_def pollInv_flush pollInv_cover)

lemmas pollInv_parts = pollInv_take pollInv_due pollInv_decoy

lemma pollInv_cycle: "pollInv p s \<Longrightarrow> pollInv p (fst (fst (pollCycle p i s)))"
proof (cases "inMsgs i")
  case (Inr msgs)
  moreover assume "pollInv p s"
  then have "pollInv p (s\<lparr>psErrors := 0\<rparr>)" by (simp add: pollInv_def)
  ultimately show ?thesis by (simp add: pollCycle_def Let_def pollInv_parts)
qed (auto simp: pollCycle_def pollInv_def Let_def)

lemma pollInv_run: "pollInv p s \<Longrightarrow> pollInv p (fst (pollRun p inputs s))"
proof (induction inputs arbitrary: s)
  case (Cons i rest)
  obtain s1 calls d where c: "pollCycle p i s = ((s1, calls), d)" by (metis surj_pair)
  with pollInv_cycle [OF Cons.prems, of i] have "pollInv p s1" by simp
  moreover obtain s2 later where "pollRun p rest s1 = (s2, later)" by (metis surj_pair)
  ultimately show ?case using Cons.IH [of s1] by (simp add: c)
qed simp

lemma pollInv_initial: "pollInv p (initialPoll now)"
  by (simp add: pollInv_def initialPoll_def)


lemma decoys_keep [simp]:
  "poAck (normalizeDecoys q) = poAck q" "poAckBatchMax (normalizeDecoys q) = poAckBatchMax q" "poBackoffBaseMs (normalizeDecoys q) = poBackoffBaseMs q"
  "poBackoffMaxMs (normalizeDecoys q) = poBackoffMaxMs q"
  by (simp_all add: normalizeDecoys_def)

lemma normalized_fields:
  assumes "PollOptions_normalize o1 = Inr p"
  shows "poAck p = poAck o1" "poAckBatchMax p = atMax 2000 (orWhen (poAck o1) 50 (poAckBatchMax o1))"
  using assms by (simp_all add: PollOptions_normalize_def Let_def split: if_split_asm) force+

lemma normalized_backoff:
  assumes "PollOptions_normalize o1 = Inr p"
  shows "poBackoffBaseMs p = orElse 250 (poBackoffBaseMs o1)" "poBackoffMaxMs p \<le> 60000" "0 < poBackoffBaseMs p" "poBackoffBaseMs p \<le> 60000 \<longrightarrow> poBackoffBaseMs p \<le> poBackoffMaxMs p"
proof -
  from assms have "poBackoffBaseMs p = orElse 250 (poBackoffBaseMs o1)"
    "poBackoffMaxMs p = atMax 60000 (if orElse 5000 (poBackoffMaxMs o1) < poBackoffBaseMs p then poBackoffBaseMs p else orElse 5000 (poBackoffMaxMs o1))"
    by (simp_all add: PollOptions_normalize_def Let_def split: if_split_asm) force+
  then show "poBackoffBaseMs p = orElse 250 (poBackoffBaseMs o1)" "poBackoffMaxMs p \<le> 60000" "0 < poBackoffBaseMs p" "poBackoffBaseMs p \<le> 60000 \<longrightarrow> poBackoffBaseMs p \<le> poBackoffMaxMs p"
    by (auto simp: orElse_def atMax_def)
qed

lemma normalized_batch: "PollOptions_normalize o1 = Inr p \<Longrightarrow> poAck p \<Longrightarrow> 0 < poAckBatchMax p \<and> poAckBatchMax p \<le> 2000"
  using normalized_fields [of o1 p] by (simp add: orWhen_def atMax_def Let_def)


text \<open>A poller whose handler accepts a message and then fails on another; the second cycle flushes by the timer.\<close>

definition samplePoll :: PollOptions where
  "samplePoll = \<lparr>poMailbox = ''m'', poLimit = 0, poWaitSec = 0, poCycleSec = 0, poJitterMs = 0, poBackoffBaseMs = 0, poBackoffMaxMs = 0, poAck = True, poAckDelayMsMax = 0, poAckBatchSec = 0,
     poAckBatchMax = 0, poCoverAckSec = 0, poCoverAckCount = 0, poCoverAckJitterMs = 0, poDecoyMailboxes = [], poDecoyPullSec = 0, poDecoyWaitSec = 0, poDecoyLimit = 0, poDecoyPullJitterMs = 0,
     poHandle = True\<rparr>"

definition sampleInput :: "gotime \<Rightarrow> bool \<Rightarrow> string \<Rightarrow> pollInput" where
  "sampleInput now handled i = \<lparr>inMsgs = Inr [\<lparr>mgID = i, mgMailbox = ''m'', mgEnvelope = ''e'', mgReceivedAt = 0\<rparr>], inHandled = handled, inNow = now, inAfterAck = now, inCoverIDs = [],
     inElapsed = 0, inRnd = (\<lambda>_. None), inRnd2 = (\<lambda>_. None)\<rparr>"

definition normalPoll :: PollOptions where "normalPoll = (case PollOptions_normalize samplePoll of Inr p \<Rightarrow> p | Inl _ \<Rightarrow> samplePoll)"



lemma addPending_fresh: "distinct ids \<Longrightarrow> set pending \<inter> set ids = {} \<Longrightarrow> addPending pending ids = pending @ ids"
  by (induction pending ids rule: addPending.induct) auto

text \<open>
  A batch can be too large to be acknowledged: a cycle whose pending identifiers and newly handled messages are together more than 2000 sends one acknowledgement with all of them, which
  the validation of the request refuses, and forgets them. Pending identifiers below the largest batch size that \<^verbatim>\<open>normalize\<close> allows and one full pull are enough for it.
\<close>

theorem oversized_batch_refused:
  assumes "poAck p" "poAckBatchMax p > 0" "poAckBatchMax p \<le> 2000" "inMsgs i = Inr msgs" "inHandled i" "msgs \<noteq> []" "distinct (map mgID msgs)" "set (psPending s) \<inter> mgID ` set msgs = {}"
    "length (psPending s) + length msgs > maxAckIDs"
  shows "psPending (fst (fst (pollCycle p i s))) = [] \<and>
         (\<exists>a e. CallAck a \<in> set (snd (fst (pollCycle p i s))) \<and> akIDs a = psPending s @ map mgID msgs \<and> AckRequest_Validate a = Inl e)"
proof -
  define pull where "pull = CallPull \<lparr>plMailbox = poMailbox p, plLimit = poLimit p, plWaitSec = poWaitSec p\<rparr>"
  define a where "a = \<lparr>akMailbox = poMailbox p, akIDs = psPending s @ map mgID msgs\<rparr>"
  define s1 where "s1 = s\<lparr>psErrors := 0, psPending := [], psLastAck := inAfterAck i\<rparr>"
  have ids: "addPending (psPending s) (map mgID msgs) = psPending s @ map mgID msgs" using assms(7,8) by (simp add: addPending_fresh)
  have t: "takeMessages p i msgs (s\<lparr>psErrors := 0\<rparr>, [pull]) = (s1, [pull, CallAck a])"
    using assms(1,2,3,5,6,9) by (simp add: takeMessages_def flushAcks_def ids s1_def a_def maxAckIDs_def)
  have f: "flushDue p i (s1, [pull, CallAck a]) = (s1, [pull, CallAck a])" by (simp add: flushDue_def s1_def)
  have c: "psPending (fst (coverDue p i st)) = psPending (fst st) \<and> set (snd st) \<subseteq> set (snd (coverDue p i st))" for st
    by (cases st) (auto simp: coverDue_def sendCoverAck_def Let_def)
  have d: "psPending (fst (doDecoyPull p n st)) = psPending (fst st) \<and> set (snd st) \<subseteq> set (snd (doDecoyPull p n st))" for st n
    by (cases st) (auto simp: doDecoyPull_def)
  have "\<exists>e. AckRequest_Validate a = Inl e"
    using assms(9) by (cases "validateMailboxID (akMailbox a)") (auto simp: AckRequest_Validate_def a_def)
  moreover have "fst (pollCycle p i s) = doDecoyPull p (inNow i) (coverDue p i (s1, [pull, CallAck a]))"
    using assms(4) t f by (simp add: pollCycle_def Let_def pull_def)
  moreover have "CallAck a \<in> set (snd (doDecoyPull p (inNow i) (coverDue p i (s1, [pull, CallAck a]))))" using c [of "(s1, [pull, CallAck a])"] d by fastforce
  moreover have "psPending (fst (doDecoyPull p (inNow i) (coverDue p i (s1, [pull, CallAck a])))) = []" using c [of "(s1, [pull, CallAck a])"] d by (simp add: s1_def)
  ultimately show ?thesis by (auto simp: a_def)
qed

text \<open>1999 pending identifiers and two new messages, at the batch size 2000.\<close>

definition idsOf :: "nat \<Rightarrow> nat \<Rightarrow> string list" where "idsOf m n = map (\<lambda>k. replicate k (CHR ''x'')) [m..<n]"

lemma idsOf_facts: "distinct (idsOf m n)" "length (idsOf m n) = n - m" "m > 1 \<Longrightarrow> [c] \<notin> set (idsOf m n)"
  unfolding idsOf_def distinct_map by (auto intro!: inj_onI dest: arg_cong [of _ _ length])

definition manyIDs :: "string list" where "manyIDs = idsOf 2 2001"

definition crowdedPoll :: pollState where "crowdedPoll = (initialPoll 0)\<lparr>psPending := manyIDs\<rparr>"

definition twoMessages :: pollInput where
  "twoMessages = (sampleInput 0 True ''a'')\<lparr>inMsgs := Inr [\<lparr>mgID = ''a'', mgMailbox = ''m'', mgEnvelope = ''e'', mgReceivedAt = 0\<rparr>, \<lparr>mgID = ''b'', mgMailbox = ''m'', mgEnvelope = ''e'', mgReceivedAt = 0\<rparr>]\<rparr>"

theorem oversized_batch_refused_witness:
  "pollInv (samplePoll\<lparr>poAckBatchMax := 2000\<rparr>) crowdedPoll \<and> psPending (fst (fst (pollCycle (samplePoll\<lparr>poAckBatchMax := 2000\<rparr>) twoMessages crowdedPoll))) = [] \<and>
   (\<exists>a e. CallAck a \<in> set (snd (fst (pollCycle (samplePoll\<lparr>poAckBatchMax := 2000\<rparr>) twoMessages crowdedPoll))) \<and> akIDs a = manyIDs @ [''a'', ''b''] \<and> AckRequest_Validate a = Inl e)"
proof -
  have short: "[c] \<notin> set manyIDs" for c by (simp add: manyIDs_def idsOf_facts)
  have "distinct manyIDs" by (simp add: manyIDs_def idsOf_facts)
  moreover have "length manyIDs = 1999" by (simp add: manyIDs_def idsOf_facts)
  ultimately show ?thesis
    using oversized_batch_refused [of "samplePoll\<lparr>poAckBatchMax := 2000\<rparr>" twoMessages _ crowdedPoll] short
    by (simp add: pollInv_def crowdedPoll_def samplePoll_def twoMessages_def sampleInput_def maxAckIDs_def)
qed


section \<open>What the shaped sender does with a request\<close>

text \<open>
  The operations on a sender that runs: requests without and with a waiting caller, turns of the loop and the end of \<^verbatim>\<open>Run\<close>. An operation gives the items that it queued and the events.
\<close>

datatype shaperOp = SendAsync PushRequest | SendWait nat PushRequest | Turn gotime gotime "int \<Rightarrow> int option" "nat \<Rightarrow> bool" | StopRun

definition queued :: "pushItem \<Rightarrow> PushShaper \<times> (relay_error + unit) \<Rightarrow> 'r shaperNet \<Rightarrow> 'r shaperNet \<times> pushItem list \<times> shaperEvent list" where
  "queued item r net = (net\<lparr>snShaper := fst r\<rparr>, (case snd r of Inl _ \<Rightarrow> [] | Inr _ \<Rightarrow> [item]), [])"

fun shaperStep :: "SendOptions \<Rightarrow> (PushRequest \<Rightarrow> 'r \<Rightarrow> 'r \<times> (relay_error + string)) \<Rightarrow> shaperOp \<Rightarrow> 'r shaperNet \<Rightarrow> 'r shaperNet \<times> pushItem list \<times> shaperEvent list" where
  "shaperStep o1 push (SendAsync req) net = queued \<lparr>piReq = req, piTicket = None\<rparr> (Enqueue o1 req (snShaper net)) net"
| "shaperStep o1 push (SendWait t req) net = queued \<lparr>piReq = req, piTicket = Some t\<rparr> (EnqueueWait o1 t req (snShaper net)) net"
| "shaperStep o1 push (Turn now1 now2 rnd cancelled) net = (case runTurn o1 push now1 now2 rnd cancelled net of (net1, evs) \<Rightarrow> (net1, [], evs))"
| "shaperStep o1 push StopRun net = (case failPending (snShaper net) of (s, evs) \<Rightarrow> (net\<lparr>snShaper := s\<rparr>, [], evs))"

fun shaperRun :: "SendOptions \<Rightarrow> (PushRequest \<Rightarrow> 'r \<Rightarrow> 'r \<times> (relay_error + string)) \<Rightarrow> shaperOp list \<Rightarrow> 'r shaperNet \<Rightarrow> 'r shaperNet \<times> pushItem list \<times> shaperEvent list" where
  "shaperRun o1 push [] net = (net, [], [])"
| "shaperRun o1 push (x # xs) net =
     (let (net1, items, evs) = shaperStep o1 push x net; (net2, items2, evs2) = shaperRun o1 push xs net1 in (net2, items @ items2, evs @ evs2))"

definition ticketsOf :: "pushItem list \<Rightarrow> nat list" where "ticketsOf items = List.map_filter piTicket items"

fun answered :: "shaperEvent \<Rightarrow> nat option" where "answered (Answer t _) = Some t" | "answered _ = None"

fun pushed :: "shaperEvent \<Rightarrow> PushRequest option" where "pushed (Pushed req) = Some req" | "pushed _ = None"

definition queueOf :: "'r shaperNet \<Rightarrow> pushItem list" where "queueOf net = shQueue (snShaper net)"

lemma map_filter_append [simp]: "List.map_filter f (xs @ ys) = List.map_filter f xs @ List.map_filter f ys"
  by (simp add: map_filter_def)

lemma map_filter_answers [simp]:
  "List.map_filter answered (answerTo item res) = (case piTicket item of None \<Rightarrow> [] | Some t \<Rightarrow> [t])" "List.map_filter answered (reportTo p item res) = []"
  "List.map_filter pushed (answerTo item res) = []" "List.map_filter pushed (reportTo p item res) = []"
  by (auto simp: answerTo_def reportTo_def map_filter_simps split: option.splits)

lemma ticketsOf_simps [simp]:
  "ticketsOf [] = []" "ticketsOf (item # items) = (case piTicket item of None \<Rightarrow> [] | Some t \<Rightarrow> [t]) @ ticketsOf items" "ticketsOf (xs @ ys) = ticketsOf xs @ ticketsOf ys"
  by (auto simp: ticketsOf_def map_filter_simps split: option.splits)

lemma pushBatch_events:
  "List.map_filter answered (snd (pushBatch p push cancelled k items r)) = ticketsOf items \<and>
   subseq (List.map_filter pushed (snd (pushBatch p push cancelled k items r))) (map piReq items)"
  by (induction p push cancelled k items r rule: pushBatch.induct) (auto simp: Let_def map_filter_simps split: prod.splits)

lemma failed_events: "List.map_filter answered (concat (map (\<lambda>item. answerTo item res) items)) = ticketsOf items" "List.map_filter pushed (concat (map (\<lambda>item. answerTo item res) items)) = []"
  by (induction items) (auto simp: map_filter_simps)

text \<open>A step settles the first items of the queue, in order, and appends what it queued.\<close>

definition settles :: "'r shaperNet \<Rightarrow> pushItem list \<Rightarrow> shaperEvent list \<Rightarrow> 'r shaperNet \<Rightarrow> bool" where
  "settles net items evs net1 \<longleftrightarrow>
     (\<exists>gone. queueOf net @ items = gone @ queueOf net1 \<and> List.map_filter answered evs = ticketsOf gone \<and> subseq (List.map_filter pushed evs) (map piReq gone))"

lemma settles_trans: "settles a i e b \<Longrightarrow> settles b i' e' c \<Longrightarrow> settles a (i @ i') (e @ e') c"
proof -
  assume "settles a i e b" "settles b i' e' c"
  then obtain g g' where "queueOf a @ i = g @ queueOf b" "List.map_filter answered e = ticketsOf g" "subseq (List.map_filter pushed e) (map piReq g)"
    "queueOf b @ i' = g' @ queueOf c" "List.map_filter answered e' = ticketsOf g'" "subseq (List.map_filter pushed e') (map piReq g')"
    unfolding settles_def by blast
  moreover from this have "queueOf a @ i @ i' = (g @ g') @ queueOf c" by (metis append.assoc)
  ultimately show ?thesis unfolding settles_def by (intro exI [of _ "g @ g'"]) (auto intro: list_emb_append_mono)
qed


lemma queued_settles: "settles net (fst (snd (queued item (enqueueItem o1 item (snShaper net)) net))) [] (fst (queued item (enqueueItem o1 item (snShaper net)) net))"
  by (auto simp: settles_def queued_def enqueueItem_def queueOf_def map_filter_simps split: sum.splits)

lemma armFlush_queue [simp]: "shQueue (armFlush p now1 rnd s) = shQueue s"
  by (simp add: armFlush_def)

lemma flushQueue_take: "\<exists>n. snd (flushQueue p push cancelled s1 net) = snd (pushBatch p push cancelled 0 (take n (shQueue s1)) (snRelay net)) \<and>
    queueOf (fst (flushQueue p push cancelled s1 net)) = drop n (shQueue s1)"
  unfolding flushQueue_def dequeue_def Let_def split_beta
  by (intro exI [of _ "if seBatchMax p \<le> 0 \<or> seBatchMax p > int (length (shQueue s1)) then length (shQueue s1) else nat (seBatchMax p)"]) (simp add: queueOf_def)

lemma turn_cases:
  obtains "snd (runTurn o1 push now1 now2 rnd cancelled net) = []" "queueOf (fst (runTurn o1 push now1 now2 rnd cancelled net)) = queueOf net"
  | n p r where "snd (runTurn o1 push now1 now2 rnd cancelled net) = snd (pushBatch p push cancelled 0 (take n (queueOf net)) r)"
      "queueOf (fst (runTurn o1 push now1 now2 rnd cancelled net)) = drop n (queueOf net)"
proof -
  let ?p = "SendOptions_normalize o1" and ?s = "armFlush (SendOptions_normalize o1) now1 rnd (snShaper net)"
  consider "runTurn o1 push now1 now2 rnd cancelled net = flushQueue ?p push cancelled ?s net"
    | "snd (runTurn o1 push now1 now2 rnd cancelled net) = []" "queueOf (fst (runTurn o1 push now1 now2 rnd cancelled net)) = queueOf net"
    by (cases "runTurn o1 push now1 now2 rnd cancelled net = flushQueue ?p push cancelled ?s net") (auto simp: runTurn_def Let_def queueOf_def split: if_split_asm)
  then show ?thesis
  proof cases
    case 1
    with flushQueue_take [of ?p push cancelled ?s net] that(2) show ?thesis by (force simp: queueOf_def)
  qed (rule that(1))
qed

lemma turn_settles: "settles net [] (snd (runTurn o1 push now1 now2 rnd cancelled net)) (fst (runTurn o1 push now1 now2 rnd cancelled net))"
proof (cases rule: turn_cases [of o1 push now1 now2 rnd cancelled net])
  case 1
  then show ?thesis by (simp add: settles_def map_filter_simps)
next
  case (2 n p r)
  then show ?thesis unfolding settles_def using pushBatch_events by (intro exI [of _ "take n (queueOf net)"]) simp
qed

lemma stop_settles: "settles net [] (snd (failPending (snShaper net))) (net\<lparr>snShaper := fst (failPending (snShaper net))\<rparr>)"
  by (simp add: settles_def failPending_def queueOf_def failed_events)

lemma step_settles: "settles net (fst (snd (shaperStep o1 push x net))) (snd (snd (shaperStep o1 push x net))) (fst (shaperStep o1 push x net))"
proof (cases x)
  case (SendAsync req)
  then show ?thesis using queued_settles [of net "\<lparr>piReq = req, piTicket = None\<rparr>" o1] by (simp add: Enqueue_def) (simp add: queued_def)
next
  case (SendWait t req)
  then show ?thesis using queued_settles [of net "\<lparr>piReq = req, piTicket = Some t\<rparr>" o1] by (simp add: EnqueueWait_def) (simp add: queued_def)
next
  case (Turn now1 now2 rnd cancelled)
  then show ?thesis using turn_settles [of net o1 push now1 now2 rnd cancelled] by (simp add: split_beta)
next
  case StopRun
  then show ?thesis using stop_settles [of net] by (simp add: split_beta)
qed

lemma run_settles: "settles net (fst (snd (shaperRun o1 push xs net))) (snd (snd (shaperRun o1 push xs net))) (fst (shaperRun o1 push xs net))"
proof (induction xs arbitrary: net)
  case (Cons x xs)
  from settles_trans [OF step_settles [of net o1 push x] Cons.IH [of "fst (shaperStep o1 push x net)"]] show ?case by (simp add: split_beta Let_def)
qed (simp add: settles_def map_filter_simps)

text \<open>The bound of the queue.\<close>

lemma turn_queue: "length (queueOf (fst (runTurn o1 push now1 now2 rnd cancelled net))) \<le> length (queueOf net)"
  by (cases rule: turn_cases [of o1 push now1 now2 rnd cancelled net]) simp_all

lemma step_queue_bounded:
  assumes "int (length (queueOf net)) \<le> seQueueMax (SendOptions_normalize o1)"
  shows "int (length (queueOf (fst (shaperStep o1 push x net)))) \<le> seQueueMax (SendOptions_normalize o1)"
proof (cases x)
  case (Turn now1 now2 rnd cancelled)
  then show ?thesis using turn_queue [of o1 push now1 now2 rnd cancelled net] assms by (simp add: split_beta)
qed (use assms in \<open>auto simp: Enqueue_def EnqueueWait_def enqueueItem_def queued_def queueOf_def failPending_def split: sum.splits\<close>)

lemma run_queue_bounded:
  "int (length (queueOf net)) \<le> seQueueMax (SendOptions_normalize o1) \<Longrightarrow> int (length (queueOf (fst (shaperRun o1 push xs net)))) \<le> seQueueMax (SendOptions_normalize o1)"
proof (induction xs arbitrary: net)
  case (Cons x xs)
  from Cons.IH [OF step_queue_bounded [OF Cons.prems]] show ?case by (simp add: split_beta Let_def)
qed simp

lemma queue_max: "0 < seQueueMax (SendOptions_normalize o1) \<and> seQueueMax (SendOptions_normalize o1) \<le> 100000"
  by (simp add: SendOptions_normalize_def Let_def split_beta orElse_def atMax_def)

text \<open>
  C40. The shaped sender loses no request and answers no caller twice: from an empty queue, after any sequence of requests, turns and stops, over any relay, the callers answered so far, followed by those
  still queued, are the callers whose requests were accepted, in the order in which they were accepted; the pushes made are requests accepted, in order and each once; and the queue never exceeds the
  normalised maximum, which is at most 100000.
\<close>

theorem shaper_answers_in_order:
  assumes "shQueue (snShaper net) = []" "shaperRun o1 push xs net = (net1, accepted, events)"
  shows "List.map_filter answered events @ ticketsOf (shQueue (snShaper net1)) = ticketsOf accepted \<and>
         subseq (List.map_filter pushed events @ map piReq (shQueue (snShaper net1))) (map piReq accepted) \<and>
         int (length (shQueue (snShaper net1))) \<le> seQueueMax (SendOptions_normalize o1) \<and> seQueueMax (SendOptions_normalize o1) \<le> 100000"
proof -
  from run_settles [of net o1 push xs] assms obtain gone where g: "accepted = gone @ shQueue (snShaper net1)"
    "List.map_filter answered events = ticketsOf gone" "subseq (List.map_filter pushed events) (map piReq gone)"
    by (auto simp: settles_def queueOf_def)
  moreover from g(3) have "subseq (List.map_filter pushed events @ map piReq (shQueue (snShaper net1))) (map piReq gone @ map piReq (shQueue (snShaper net1)))"
    by (simp add: list_emb_append_mono)
  moreover have "int (length (queueOf net1)) \<le> seQueueMax (SendOptions_normalize o1)"
    using run_queue_bounded [of net o1 push xs] queue_max [of o1] assms by (simp add: queueOf_def)
  ultimately show ?thesis using queue_max by (simp add: queueOf_def)
qed


text \<open>A relay that counts its pushes; the first request has a waiting caller, the second does not, and the third waits when the sender stops.\<close>

definition sampleSend :: SendOptions where
  "sampleSend = \<lparr>seMinDelayMs = 0, seMaxDelayMs = 0, seBatchMax = 2, seQueueMax = 0, seInterPushJitterMs = 0, seHandleResult = False\<rparr>"

definition countingPush :: "PushRequest \<Rightarrow> nat \<Rightarrow> nat \<times> (relay_error + string)" where "countingPush req n = (Suc n, Inr ''id'')"

definition sampleSends :: "shaperOp list" where
  "sampleSends = [SendWait 1 sample_push, SendAsync sample_push, SendWait 2 sample_push, Turn 5 6 (\<lambda>_. None) (\<lambda>_. False), StopRun]"

definition idleNet :: "nat shaperNet" where "idleNet = \<lparr>snShaper = \<lparr>shQueue = [], shNextFlush = 0\<rparr>, snRelay = 0\<rparr>"

theorem shaper_answers_in_order_witness:
  "shQueue (snShaper idleNet) = [] \<and>
   (\<exists>net1 accepted events. shaperRun sampleSend countingPush sampleSends idleNet = (net1, accepted, events) \<and> snRelay net1 = 2 \<and>
      List.map_filter answered events @ ticketsOf (shQueue (snShaper net1)) = ticketsOf accepted \<and> ticketsOf accepted = [1, 2])"
proof -
  obtain net1 accepted events where r: "shaperRun sampleSend countingPush sampleSends idleNet = (net1, accepted, events)" by (metis surj_pair)
  have v: "PushRequest_Validate sample_push = Inr ()" by (simp add: PushRequest_Validate_def) (simp add: sample_push_def)
  have "snRelay (fst (shaperRun sampleSend countingPush sampleSends idleNet)) = 2 \<and> ticketsOf (fst (snd (shaperRun sampleSend countingPush sampleSends idleNet))) = [1, 2]"
    by (simp add: sampleSends_def idleNet_def queued_def Enqueue_def EnqueueWait_def enqueueItem_def v SendOptions_normalize_def sampleSend_def orElse_def atMax_def orWhen_def
        runTurn_def armFlush_def flushQueue_def dequeue_def countingPush_def failPending_def Let_def)
  moreover have "shQueue (snShaper idleNet) = []" by (simp add: idleNet_def)
  moreover from this have "List.map_filter answered events @ ticketsOf (shQueue (snShaper net1)) = ticketsOf accepted" using shaper_answers_in_order [OF _ r] by blast
  ultimately show ?thesis by (simp add: r)
qed


section \<open>The backoff\<close>

lemma expBackoff_min:
  assumes "0 < base" "base \<le> 60 * second" "0 < mx"
  shows "expBackoff base mx n = (if n \<le> 0 then base else min mx (base * 2 ^ nat (min n 20 - 1)))"
proof -
  have "base * 2 ^ m < 2 ^ 63" "0 \<le> base * 2 ^ m" if "m \<le> 19" for m
  proof -
    have "base * 2 ^ m \<le> (60 * second) * 2 ^ 19" using assms(2) that by (intro mult_mono power_increasing) (auto simp: second_def)
    then show "base * 2 ^ m < 2 ^ 63" by (simp add: second_def)
  qed (use assms(1) in simp)
  then have w: "wrap64 (base * 2 ^ nat (min n 20 - 1)) = base * 2 ^ nat (min n 20 - 1)" by (intro wrap64_id) (auto intro: order_trans [of _ 0])
  have "(if n > 20 then 20 else n) = min n 20" by simp
  then have "expBackoff base mx n = (if n \<le> 0 then base else let m = wrap64 (base * 2 ^ nat (min n 20 - 1)) in if m > mx then mx else m)"
    using assms(1,3) by (simp only: expBackoff_def Let_def) simp
  then show ?thesis by (simp only: w Let_def) (simp add: min_def)
qed

text \<open>
  The wait after errors: for normalised options whose base is at most a minute, it is at least the base and at most the maximum, which is at most a minute, and it never falls while the errors
  go on.
\<close>

theorem backoff_bounded:
  assumes "PollOptions_normalize o1 = Inr p" "poBackoffBaseMs p \<le> 60000" "n \<le> k"
  shows "poBackoffBaseMs p * millisecond \<le> expBackoff (poBackoffBaseMs p * millisecond) (poBackoffMaxMs p * millisecond) n \<and>
         expBackoff (poBackoffBaseMs p * millisecond) (poBackoffMaxMs p * millisecond) n \<le> poBackoffMaxMs p * millisecond \<and> poBackoffMaxMs p \<le> 60000 \<and>
         expBackoff (poBackoffBaseMs p * millisecond) (poBackoffMaxMs p * millisecond) n \<le> expBackoff (poBackoffBaseMs p * millisecond) (poBackoffMaxMs p * millisecond) k"
proof -
  let ?b = "poBackoffBaseMs p * millisecond" and ?m = "poBackoffMaxMs p * millisecond"
  have b: "0 < poBackoffBaseMs p" "poBackoffBaseMs p \<le> poBackoffMaxMs p" "poBackoffMaxMs p \<le> 60000" using normalized_backoff [OF assms(1)] assms(2) by (auto split: if_splits)
  then have e: "expBackoff ?b ?m j = (if j \<le> 0 then ?b else min ?m (?b * 2 ^ nat (min j 20 - 1)))" for j
    using assms(2) by (intro expBackoff_min) (auto simp: millisecond_def second_def)
  have g: "?b \<le> ?b * 2 ^ j" "?b \<le> ?m" for j using b by (simp_all add: millisecond_def)
  have "?b * 2 ^ nat (min n 20 - 1) \<le> ?b * 2 ^ nat (min k 20 - 1)" using assms(3) b(1) by (intro mult_left_mono power_increasing nat_mono) (auto simp: millisecond_def)
  with g b(3) assms(3) show ?thesis by (auto simp: e min_le_iff_disj)
qed

theorem backoff_bounded_witness:
  "PollOptions_normalize samplePoll = Inr normalPoll \<and> poBackoffBaseMs normalPoll \<le> 60000 \<and> (3::int) \<le> 4 \<and>
   expBackoff (poBackoffBaseMs normalPoll * millisecond) (poBackoffMaxMs normalPoll * millisecond) 3 \<le> expBackoff (poBackoffBaseMs normalPoll * millisecond) (poBackoffMaxMs normalPoll * millisecond) 4"
proof -
  have "PollOptions_normalize samplePoll = Inr normalPoll" "poBackoffBaseMs normalPoll \<le> 60000" by code_simp+
  with backoff_bounded [of samplePoll normalPoll 3 4] show ?thesis by simp
qed

text \<open>The base has no maximum of its own: from six hours on the shift overflows at the twentieth error and the wait is negative, so the poller does not wait at all.\<close>

theorem backoff_overflows: "expBackoff (21600 * second) (60 * second) 20 < 0"
  by (simp add: expBackoff_def second_def millisecond_def wrap64_def)

end
