(* ===== verification/Sealed_Store.thy ===== *)
theory Sealed_Store
  imports Go_Prelude
begin

text \<open>
  The encrypted state file that \<^verbatim>\<open>pkg/identity/store.go\<close> and \<^verbatim>\<open>pkg/community/store.go\<close> share in form: a nonce and the state under AES-GCM. The state
  is adjusted and validated before it is written and after it is read; what the packages do there are the arguments \<open>adjust\<close> and \<open>check\<close>. AES-GCM and the JSON codec are
  parameters, the file is \<open>None\<close> when it does not exist, and reading and writing may fail.
\<close>

datatype 'e store_failure = StoreKeySize | StoreCorrupt | StoreDecrypt | StoreCodec | StoreSystem | StoreState 'e

record 'a sealed_codec =
  scSeal :: "bytes \<Rightarrow> bytes \<Rightarrow> bytes \<Rightarrow> bytes"
  scOpen :: "bytes \<Rightarrow> bytes \<Rightarrow> bytes \<Rightarrow> bytes option"
  scMarshal :: "'a \<Rightarrow> bytes"
  scUnmarshal :: "bytes \<Rightarrow> 'a option"

record SealedStore =
  ssKey :: bytes
  ssFile :: "bytes option"

definition newSealedStore :: "bytes option \<Rightarrow> bytes \<Rightarrow> bool \<Rightarrow> 'e store_failure + SealedStore" where
  "newSealedStore content masterKey mkdir =
     (if length masterKey \<noteq> 32 then Inl StoreKeySize else if \<not> mkdir then Inl StoreSystem else Inr \<lparr>ssKey = masterKey, ssFile = content\<rparr>)"

definition checked :: "('a \<Rightarrow> 'e + unit) \<Rightarrow> 'a \<Rightarrow> 'e store_failure + 'a" where
  "checked check st = (case check st of Inl e \<Rightarrow> Inl (StoreState e) | Inr _ \<Rightarrow> Inr st)"

definition loadSealed :: "'a sealed_codec \<Rightarrow> ('a \<Rightarrow> 'a) \<Rightarrow> ('a \<Rightarrow> 'e + unit) \<Rightarrow> 'a \<Rightarrow> bool \<Rightarrow> SealedStore \<Rightarrow> 'e store_failure + 'a" where
  "loadSealed c adjust check fresh readable s =
     (case ssFile s of
        None \<Rightarrow> Inr fresh
      | Some ciphertext \<Rightarrow>
          if \<not> readable then Inl StoreSystem
          else if length ciphertext < GcmNonceSize then Inl StoreCorrupt
          else case scOpen c (ssKey s) (take GcmNonceSize ciphertext) (drop GcmNonceSize ciphertext) of
                 None \<Rightarrow> Inl StoreDecrypt
               | Some pt \<Rightarrow> (case scUnmarshal c pt of None \<Rightarrow> Inl StoreCodec | Some st \<Rightarrow> checked check (adjust st)))"

text \<open>A save also returns the adjusted state, which the code changes in place.\<close>

definition saveSealed ::
    "'a sealed_codec \<Rightarrow> ('a \<Rightarrow> 'a) \<Rightarrow> ('a \<Rightarrow> 'e + unit) \<Rightarrow> bytes option \<Rightarrow> bool \<Rightarrow> 'a \<Rightarrow> SealedStore \<Rightarrow> SealedStore \<times> 'a \<times> ('e store_failure + unit)" where
  "saveSealed c adjust check nonce writable st s =
     (let st1 = adjust st in
      case check st1 of
        Inl e \<Rightarrow> (s, st1, Inl (StoreState e))
      | Inr _ \<Rightarrow>
          (case nonce of
             None \<Rightarrow> (s, st1, Inl StoreSystem)
           | Some n \<Rightarrow>
               if writable then (s\<lparr>ssFile := Some (n @ scSeal c (ssKey s) n (scMarshal c st1))\<rparr>, st1, Inr ()) else (s, st1, Inl StoreSystem)))"

text \<open>\<^verbatim>\<open>WipeOnSuspicion\<close>: the file is overwritten, the key zeroed, and the file removed.\<close>

definition wipeSealed :: "SealedStore \<Rightarrow> SealedStore" where
  "wipeSealed s = s\<lparr>ssKey := replicate (length (ssKey s)) 0, ssFile := None\<rparr>"

section \<open>A state survives a restart\<close>

text \<open>The laws of cipher and codec: they invert themselves, the codec on the state that is saved.\<close>

definition codec_laws :: "'a sealed_codec \<Rightarrow> 'a \<Rightarrow> bool" where
  "codec_laws c st \<longleftrightarrow> (\<forall>k n pt. length n = GcmNonceSize \<longrightarrow> scOpen c k n (scSeal c k n pt) = Some pt) \<and> scUnmarshal c (scMarshal c st) = Some st"

text \<open>
  What a store relies on: a state that was adjusted and accepted at one time is accepted when it is adjusted again at a later one, up to what the package says of the two times
  (\<open>later\<close>).
\<close>

locale stored_state =
  fixes adjust :: "int \<Rightarrow> 'a \<Rightarrow> 'a" and check :: "int \<Rightarrow> 'a \<Rightarrow> 'e + unit" and later :: "int \<Rightarrow> int \<Rightarrow> bool"
  assumes stays_accepted: "check t (adjust t st) = Inr () \<Longrightarrow> later t u \<Longrightarrow> check u (adjust u (adjust t st)) = Inr ()"
begin

lemma load_after_save:
  assumes "codec_laws c (adjust t st)" "length n = GcmNonceSize" "check t (adjust t st) = Inr ()" "later t u"
  shows "\<exists>s1. saveSealed c (adjust t) (check t) (Some n) True st s = (s1, adjust t st, Inr ()) \<and>
    loadSealed c (adjust u) (check u) fresh True s1 = Inr (adjust u (adjust t st))"
  using assms stays_accepted[OF assms(3,4)] by (auto simp: saveSealed_def loadSealed_def codec_laws_def checked_def Let_def)

lemma load_accepted:
  assumes "loadSealed c (adjust u) (check u) fresh readable s = Inr st" "check u fresh = Inr ()"
  shows "check u st = Inr ()"
  using assms by (auto simp: loadSealed_def checked_def split: option.splits if_splits sum.splits)

end

end
