(* ===== verification/Identity_Types.thy ===== *)
theory Identity_Types
  imports Go_Base64 Mesh_Prelude Sealed_Store
begin

text \<open>
  Personas, pre-keys, mailboxes, contact offers and the state of identities (\<^verbatim>\<open>pkg/identity/types.go\<close>, \<^verbatim>\<open>prekey.go\<close>, \<^verbatim>\<open>offer.go\<close>, \<^verbatim>\<open>store.go\<close>), and the
  devices of \<^verbatim>\<open>device.go\<close> that the state holds. Ed25519, X25519, HMAC-SHA-256 and the JSON codecs of the signed structs are parameters; what a call draws from
  the random source is an argument, \<open>None\<close> where the source fails.
\<close>

definition SchemaV1 :: int where "SchemaV1 = 1"
definition MaxPreKeys :: nat where "MaxPreKeys = 64"
definition MaxDevices :: nat where "MaxDevices = 16"
definition MaxMailboxes :: nat where "MaxMailboxes = 64"

datatype id_error = IdErr string | IdRand | IdKey | IdCodec | IdPanic

section \<open>Keys in text form\<close>

text \<open>Decoding of a base64 field with a fixed size, with the messages of the source.\<close>

definition decodeSized :: "string \<Rightarrow> string \<Rightarrow> nat \<Rightarrow> string \<Rightarrow> id_error + bytes" where
  "decodeSized bad badSize n s =
     (case DecodeString s of
        None \<Rightarrow> Inl (IdErr bad)
      | Some b \<Rightarrow> if length b \<noteq> n then Inl (IdErr (badSize @ Itoa (int (length b)))) else Inr b)"

text \<open>\<^verbatim>\<open>SignKeypair\<close> of personas and devices; both texts are decoded before the sizes are looked at.\<close>

definition decodeKeypair :: "string \<Rightarrow> string \<Rightarrow> string \<Rightarrow> id_error + bytes \<times> bytes" where
  "decodeKeypair what pubB64 privB64 =
     (case DecodeString pubB64 of
        None \<Rightarrow> Inl (IdErr (''identity: decode '' @ what @ ''sign_pub_b64url''))
      | Some pub \<Rightarrow>
          (case DecodeString privB64 of
             None \<Rightarrow> Inl (IdErr (''identity: decode '' @ what @ ''sign_priv_b64url''))
           | Some priv \<Rightarrow>
               if length pub \<noteq> PublicKeySize then Inl (IdErr (''identity: invalid '' @ what @ ''public key size: '' @ Itoa (int (length pub))))
               else if length priv \<noteq> PrivateKeySize then Inl (IdErr (''identity: invalid '' @ what @ ''private key size: '' @ Itoa (int (length priv))))
               else Inr (pub, priv)))"

section \<open>Personas\<close>

record Persona =
  pnID :: string
  pnCreatedAt :: int
  pnRotatedAt :: int
  pnSignPub :: string
  pnSignPriv :: string

definition randomID :: "bytes option \<Rightarrow> id_error + string" where
  "randomID rnd = (case rnd of None \<Rightarrow> Inl IdRand | Some b \<Rightarrow> Inr (EncodeToString b))"

definition NewPersona :: "gotime \<Rightarrow> (bytes \<times> bytes) option \<Rightarrow> bytes option \<Rightarrow> id_error + Persona" where
  "NewPersona now keys rnd =
     (case keys of
        None \<Rightarrow> Inl IdRand
      | Some (pub, priv) \<Rightarrow> rbind (randomID rnd) (\<lambda>i.
          Inr \<lparr>pnID = i, pnCreatedAt = Unix now, pnRotatedAt = 0, pnSignPub = EncodeToString pub, pnSignPriv = EncodeToString priv\<rparr>))"

definition Persona_SignKeypair :: "Persona \<Rightarrow> id_error + bytes \<times> bytes" where
  "Persona_SignKeypair p = decodeKeypair '''' (pnSignPub p) (pnSignPriv p)"

definition RotateSigningKey :: "gotime \<Rightarrow> (bytes \<times> bytes) option \<Rightarrow> Persona \<Rightarrow> id_error + Persona" where
  "RotateSigningKey now keys p =
     (case keys of
        None \<Rightarrow> Inl IdRand
      | Some (pub, priv) \<Rightarrow> Inr (p\<lparr>pnSignPub := EncodeToString pub, pnSignPriv := EncodeToString priv, pnRotatedAt := Unix now\<rparr>))"

definition Persona_Validate :: "Persona \<Rightarrow> id_error + unit" where
  "Persona_Validate p =
     (if pnID p = '''' then Inl (IdErr ''identity: persona id required'')
      else if pnCreatedAt p \<le> 0 then Inl (IdErr ''identity: created_at required'')
      else rbind (Persona_SignKeypair p) (\<lambda>_. Inr ()))"

section \<open>Pre-keys\<close>

record PreKey =
  pkID :: string
  pkCreatedAt :: int
  pkExpiresAt :: int
  pkPub :: string
  pkPriv :: string

text \<open>\<open>x25519\<close> gives the public key of a private one.\<close>

definition NewPreKey :: "(bytes \<Rightarrow> bytes option) \<Rightarrow> gotime \<Rightarrow> bytes option \<times> bytes option \<Rightarrow> duration \<Rightarrow> id_error + PreKey" where
  "NewPreKey x25519 now rnd ttl0 =
     (let ttl = (if ttl0 \<le> 0 then 24 * 3600 * second else ttl0) in
      case fst rnd of
        None \<Rightarrow> Inl IdRand
      | Some priv \<Rightarrow>
          (case x25519 priv of
             None \<Rightarrow> Inl IdKey
           | Some pub \<Rightarrow> rbind (randomID (snd rnd)) (\<lambda>i.
               Inr \<lparr>pkID = i, pkCreatedAt = Unix now, pkExpiresAt = Unix (now + ttl), pkPub = EncodeToString pub, pkPriv = EncodeToString priv\<rparr>)))"

definition DecodePublic :: "PreKey \<Rightarrow> id_error + bytes" where
  "DecodePublic k = decodeSized ''identity: decode prekey pub'' ''identity: invalid prekey pub size: '' 32 (pkPub k)"

definition DecodePrivate :: "PreKey \<Rightarrow> id_error + bytes" where
  "DecodePrivate k = decodeSized ''identity: decode prekey priv'' ''identity: invalid prekey priv size: '' 32 (pkPriv k)"

definition PreKey_Validate :: "gotime \<Rightarrow> PreKey \<Rightarrow> id_error + unit" where
  "PreKey_Validate now k =
     (if pkID k = '''' then Inl (IdErr ''identity: prekey id required'')
      else if pkCreatedAt k \<le> 0 \<or> pkExpiresAt k \<le> 0 then Inl (IdErr ''identity: prekey created_at/expires_at required'')
      else if Unix now > pkExpiresAt k then Inl (IdErr ''identity: prekey expired'')
      else rbind (DecodePublic k) (\<lambda>_. rbind (DecodePrivate k) (\<lambda>_. Inr ())))"

section \<open>Devices\<close>

datatype DeviceTrust = DeviceUnverified | DeviceTrusted | DeviceRevoked | OtherTrust string

record Device =
  dvPersonaID :: string
  dvDeviceID :: string
  dvCreatedAt :: int
  dvRevokedAt :: int
  dvTrust :: DeviceTrust
  dvLabel :: string
  dvSignPub :: string
  dvSignPriv :: string

definition NewDevice :: "gotime \<Rightarrow> (bytes \<times> bytes) option \<Rightarrow> bytes option \<Rightarrow> string \<Rightarrow> string \<Rightarrow> id_error + Device" where
  "NewDevice now keys rnd personaID label =
     (if personaID = '''' then Inl (IdErr ''identity: persona_id required'')
      else case keys of
             None \<Rightarrow> Inl IdRand
           | Some (pub, priv) \<Rightarrow> rbind (randomID rnd) (\<lambda>i.
               Inr \<lparr>dvPersonaID = personaID, dvDeviceID = i, dvCreatedAt = Unix now, dvRevokedAt = 0, dvTrust = DeviceUnverified, dvLabel = label,
                    dvSignPub = EncodeToString pub, dvSignPriv = EncodeToString priv\<rparr>))"

definition Device_SignKeypair :: "Device \<Rightarrow> id_error + bytes \<times> bytes" where
  "Device_SignKeypair d = decodeKeypair ''device '' (dvSignPub d) (dvSignPriv d)"

definition Device_Validate :: "Device \<Rightarrow> id_error + unit" where
  "Device_Validate d =
     (if dvPersonaID d = '''' then Inl (IdErr ''identity: device persona_id required'')
      else if dvDeviceID d = '''' then Inl (IdErr ''identity: device_id required'')
      else if dvCreatedAt d \<le> 0 then Inl (IdErr ''identity: device created_at required'')
      else case dvTrust d of
             OtherTrust t \<Rightarrow> Inl (IdErr (''identity: invalid device trust: '' @ t))
           | _ \<Rightarrow> rbind (Device_SignKeypair d) (\<lambda>_. Inr ()))"

section \<open>Mailboxes\<close>

record MailboxBinding =
  mbPersonaID :: string
  mbCreatedAt :: int
  mbRotatedAt :: int
  mbSeed :: string
  mbPhaseSec :: int

definition Seed :: "MailboxBinding \<Rightarrow> id_error + bytes" where
  "Seed b = decodeSized ''identity: decode mailbox seed_b64url'' ''identity: invalid mailbox seed size: '' 32 (mbSeed b)"

definition Mailbox_Validate :: "MailboxBinding \<Rightarrow> id_error + unit" where
  "Mailbox_Validate b =
     (if mbPersonaID b = '''' then Inl (IdErr ''identity: mailbox persona_id required'')
      else if mbCreatedAt b \<le> 0 then Inl (IdErr ''identity: mailbox created_at required'')
      else if mbSeed b = '''' then Inl (IdErr ''identity: mailbox seed_b64url required'')
      else rbind (Seed b) (\<lambda>_. if mbPhaseSec b < 0 then Inl (IdErr ''identity: mailbox phase_sec must be >= 0'') else Inr ()))"

text \<open>\<^verbatim>\<open>DeriveInt\<close> computes with 64 bit integers; a span of the whole range is zero and the remainder panics.\<close>

definition DeriveInt :: "(bytes \<Rightarrow> bytes \<Rightarrow> bytes) \<Rightarrow> string \<Rightarrow> int \<Rightarrow> int \<Rightarrow> MailboxBinding \<Rightarrow> id_error + int" where
  "DeriveInt hmac label lo0 hi0 b =
     (let lo = (if lo0 > hi0 then hi0 else lo0); hi = (if lo0 > hi0 then lo0 else hi0) in
      if lo = hi then Inr lo
      else rbind (Seed b) (\<lambda>seed.
        let v = int (be_nat (take 8 (hmac seed (str_bytes (''sn-derive-v1:'' @ label))))); span = wrap64 (hi - lo + 1) mod 2 ^ 64
        in if span = 0 then Inl IdPanic else Inr (wrap64 (lo + wrap64 (v mod span)))))"

text \<open>The epoch of a time, with the shift and the period.\<close>

definition mailboxEpoch :: "gotime \<Rightarrow> int \<Rightarrow> MailboxBinding \<Rightarrow> int \<times> int \<times> int" where
  "mailboxEpoch now rotationPeriodSec b =
     (let p0 = (if rotationPeriodSec \<le> 0 then 3600 else rotationPeriodSec); p1 = (if p0 < 60 then 60 else p0);
          period = (if p1 > 7 * 24 * 3600 then 7 * 24 * 3600 else p1);
          shift = (if mbPhaseSec b > 0 then mbPhaseSec b mod period else 0)
      in (quot (Unix now + shift) period, shift, period))"

definition be64 :: "int \<Rightarrow> bytes" where "be64 i = be_bytes 8 (nat (i mod 2 ^ 64))"

definition mailboxForEpoch :: "(bytes \<Rightarrow> bytes \<Rightarrow> bytes) \<Rightarrow> int \<Rightarrow> MailboxBinding \<Rightarrow> id_error + string" where
  "mailboxForEpoch hmac epoch b =
     rbind (Seed b) (\<lambda>seed. Inr (EncodeToString (take 16 (hmac seed (str_bytes ''sn-mailbox-v1:primary:'' @ be64 epoch)))))"

definition decoyForEpoch :: "(bytes \<Rightarrow> bytes \<Rightarrow> bytes) \<Rightarrow> int \<Rightarrow> nat \<Rightarrow> MailboxBinding \<Rightarrow> id_error + string" where
  "decoyForEpoch hmac epoch i b =
     rbind (Seed b) (\<lambda>seed. Inr (EncodeToString (take 16 (hmac seed (str_bytes ''sn-mailbox-v1:decoy:'' @ be64 epoch @ be64 (int i))))))"

text \<open>The second result is the Unix time at which the next epoch begins.\<close>

definition MailboxAt :: "(bytes \<Rightarrow> bytes \<Rightarrow> bytes) \<Rightarrow> gotime \<Rightarrow> int \<Rightarrow> MailboxBinding \<Rightarrow> id_error + string \<times> int" where
  "MailboxAt hmac now rotationPeriodSec b =
     (case mailboxEpoch now rotationPeriodSec b of (epoch, shift, period) \<Rightarrow>
        rbind (mailboxForEpoch hmac epoch b) (\<lambda>i. Inr (i, (epoch + 1) * period - shift)))"

definition MailboxPrevAt :: "(bytes \<Rightarrow> bytes \<Rightarrow> bytes) \<Rightarrow> gotime \<Rightarrow> int \<Rightarrow> MailboxBinding \<Rightarrow> id_error + string" where
  "MailboxPrevAt hmac now rotationPeriodSec b = mailboxForEpoch hmac (fst (mailboxEpoch now rotationPeriodSec b) - 1) b"

fun decoyLoop :: "(nat \<Rightarrow> id_error + string) \<Rightarrow> string \<Rightarrow> nat \<Rightarrow> nat list \<Rightarrow> string list \<Rightarrow> string list" where
  "decoyLoop decoy primary n [] out = out"
| "decoyLoop decoy primary n (i # rest) out =
     (if length out \<ge> n then out
      else decoyLoop decoy primary n rest (case decoy i of Inl _ \<Rightarrow> out | Inr d \<Rightarrow> if d = primary then out else out @ [d]))"

definition DecoyMailboxesAt :: "(bytes \<Rightarrow> bytes \<Rightarrow> bytes) \<Rightarrow> gotime \<Rightarrow> int \<Rightarrow> int \<Rightarrow> MailboxBinding \<Rightarrow> id_error + string list" where
  "DecoyMailboxesAt hmac now rotationPeriodSec n b =
     (if n \<le> 0 then Inr []
      else let epoch = fst (mailboxEpoch now rotationPeriodSec b)
           in rbind (mailboxForEpoch hmac epoch b) (\<lambda>primary. Inr (decoyLoop (\<lambda>i. decoyForEpoch hmac epoch i b) primary (nat n) [0..<nat n * 5] [])))"

section \<open>The state\<close>

record State =
  isSchemaVersion :: int
  isUpdatedAt :: int
  Personas :: "Persona list"
  PreKeys :: "PreKey list"
  Devices :: "Device list"
  Mailboxes :: "MailboxBinding list"

definition NewState :: "gotime \<Rightarrow> State" where
  "NewState now = \<lparr>isSchemaVersion = SchemaV1, isUpdatedAt = Unix now, Personas = [], PreKeys = [], Devices = [], Mailboxes = []\<rparr>"

text \<open>The loops of \<^verbatim>\<open>Validate\<close>: every element is valid and no key comes twice; \<open>extra\<close> is a further condition between the two.\<close>

definition uniqueStep :: "('a \<Rightarrow> id_error + unit) \<Rightarrow> ('a \<Rightarrow> id_error + unit) \<Rightarrow> ('a \<Rightarrow> string) \<Rightarrow> string \<Rightarrow> 'a \<Rightarrow> string list \<Rightarrow> id_error + string list" where
  "uniqueStep valid extra key msg x seen =
     rbind (valid x) (\<lambda>_. rbind (extra x) (\<lambda>_. if key x \<in> set seen then Inl (IdErr (msg @ key x)) else Inr (key x # seen)))"

definition uniqueAll :: "('a \<Rightarrow> id_error + unit) \<Rightarrow> ('a \<Rightarrow> id_error + unit) \<Rightarrow> ('a \<Rightarrow> string) \<Rightarrow> string \<Rightarrow> 'a list \<Rightarrow> id_error + unit" where
  "uniqueAll valid extra key msg xs = rbind (rfold (uniqueStep valid extra key msg) xs []) (\<lambda>_. Inr ())"

definition deviceKey :: "Device \<Rightarrow> string" where "deviceKey d = dvPersonaID d @ '':'' @ dvDeviceID d"

definition mailboxKnown :: "Persona list \<Rightarrow> MailboxBinding \<Rightarrow> id_error + unit" where
  "mailboxKnown ps b =
     (if mbPersonaID b \<in> pnID ` set ps then Inr () else Inl (IdErr (''identity: mailbox binding references unknown persona: '' @ mbPersonaID b)))"

definition State_Validate :: "gotime \<Rightarrow> State \<Rightarrow> id_error + unit" where
  "State_Validate now s =
     (if isSchemaVersion s \<noteq> SchemaV1 then Inl (IdErr (''identity: unsupported schema_version: '' @ Itoa (isSchemaVersion s)))
      else rbind (uniqueAll Persona_Validate (\<lambda>_. Inr ()) pnID ''identity: duplicate persona id: '' (Personas s)) (\<lambda>_.
        if length (Mailboxes s) > MaxMailboxes * 2 then Inl (IdErr (''identity: too many mailboxes: '' @ Itoa (int (length (Mailboxes s)))))
        else rbind (uniqueAll Mailbox_Validate (mailboxKnown (Personas s)) mbPersonaID ''identity: duplicate mailbox binding persona_id: '' (Mailboxes s)) (\<lambda>_.
          if length (PreKeys s) > MaxPreKeys * 2 then Inl (IdErr (''identity: too many prekeys: '' @ Itoa (int (length (PreKeys s)))))
          else rbind (uniqueAll (PreKey_Validate now) (\<lambda>_. Inr ()) pkID ''identity: duplicate prekey id: '' (PreKeys s)) (\<lambda>_.
            if length (Devices s) > MaxDevices * 2 then Inl (IdErr (''identity: too many devices: '' @ Itoa (int (length (Devices s)))))
            else uniqueAll Device_Validate (\<lambda>_. Inr ()) deviceKey ''identity: duplicate device: '' (Devices s)))))"

definition keepLast :: "nat \<Rightarrow> 'a list \<Rightarrow> 'a list" where "keepLast n xs = drop (length xs - n) xs"

definition Prune :: "gotime \<Rightarrow> State \<Rightarrow> State" where
  "Prune now s =
     s\<lparr>isUpdatedAt := Unix now,
       Mailboxes := (if Mailboxes s = [] then [] else keepLast MaxMailboxes (filter (\<lambda>b. mbPersonaID b \<in> pnID ` set (Personas s)) (Mailboxes s))),
       PreKeys := keepLast MaxPreKeys (filter (\<lambda>k. Unix now \<le> pkExpiresAt k) (PreKeys s))\<rparr>"

text \<open>The loop of \<^verbatim>\<open>EnsurePreKeys\<close>: \<open>rnds\<close> are the draws of its rounds, the number of created keys is the second result.\<close>

fun addPreKeys :: "(bytes \<Rightarrow> bytes option) \<Rightarrow> gotime \<Rightarrow> duration \<Rightarrow> (bytes option \<times> bytes option) list \<Rightarrow> State \<times> nat \<Rightarrow> State \<times> nat \<times> id_error option" where
  "addPreKeys x25519 now ttl [] (s, n) = (s, n, None)"
| "addPreKeys x25519 now ttl (rnd # rnds) (s, n) =
     (if length (PreKeys s) \<ge> MaxPreKeys then (s, n, None)
      else case NewPreKey x25519 now rnd ttl of
             Inl e \<Rightarrow> (s, n, Some e)
           | Inr k \<Rightarrow> addPreKeys x25519 now ttl rnds (s\<lparr>PreKeys := PreKeys s @ [k]\<rparr>, Suc n))"

definition EnsurePreKeys ::
    "(bytes \<Rightarrow> bytes option) \<Rightarrow> gotime \<Rightarrow> (nat \<Rightarrow> bytes option \<times> bytes option) \<Rightarrow> int \<Rightarrow> duration \<Rightarrow> State \<Rightarrow> State \<times> nat \<times> id_error option" where
  "EnsurePreKeys x25519 now draws mn ttl s =
     (if mn < 0 then (s, 0, Some (IdErr ''identity: min must be >= 0''))
      else let m = min (nat mn) MaxPreKeys in
           if ttl \<le> 0 then (s, 0, Some (IdErr ''identity: ttl must be > 0''))
           else let s1 = Prune now s in
                if length (PreKeys s1) \<ge> m then (s1, 0, None)
                else case addPreKeys x25519 now ttl (map draws [0..<m - length (PreKeys s1)]) (s1, 0) of
                       (s2, n, Some e) \<Rightarrow> (s2, n, Some e)
                     | (s2, n, None) \<Rightarrow> (Prune now s2, n, None))"

definition EnsureMailboxBinding :: "gotime \<Rightarrow> bytes option \<Rightarrow> int option \<Rightarrow> string \<Rightarrow> State \<Rightarrow> State \<times> (id_error + MailboxBinding \<times> bool)" where
  "EnsureMailboxBinding now seedRnd phaseRnd personaID s =
     (if personaID = '''' then (s, Inl (IdErr ''identity: personaID is empty''))
      else case find (\<lambda>b. mbPersonaID b = personaID) (Mailboxes s) of
             Some b \<Rightarrow> (s, Inr (b, False))
           | None \<Rightarrow>
               (case (seedRnd, phaseRnd) of
                  (Some seed, Some phase) \<Rightarrow>
                    let b = \<lparr>mbPersonaID = personaID, mbCreatedAt = Unix now, mbRotatedAt = 0, mbSeed = EncodeToString seed, mbPhaseSec = phase\<rparr>
                    in (s\<lparr>Mailboxes := Mailboxes s @ [b]\<rparr>, Inr (b, True))
                | _ \<Rightarrow> (s, Inl IdRand)))"

section \<open>The encrypted file\<close>

definition Store_Load :: "State sealed_codec \<Rightarrow> gotime \<Rightarrow> bool \<Rightarrow> SealedStore \<Rightarrow> id_error store_failure + State" where
  "Store_Load c now = loadSealed c (Prune now) (State_Validate now) (NewState now)"

definition Store_Save :: "State sealed_codec \<Rightarrow> gotime \<Rightarrow> bytes option \<Rightarrow> bool \<Rightarrow> State \<Rightarrow> SealedStore \<Rightarrow> SealedStore \<times> State \<times> (id_error store_failure + unit)" where
  "Store_Save c now = saveSealed c (Prune now) (State_Validate now)"


section \<open>What validation means\<close>

lemma rfold_unique:
  "rfold (uniqueStep valid extra key msg) xs seen = Inr out \<longleftrightarrow>
     (\<forall>x \<in> set xs. valid x = Inr () \<and> extra x = Inr ()) \<and> distinct (map key xs) \<and> set (map key xs) \<inter> set seen = {} \<and> out = rev (map key xs) @ seen"
proof (induction xs arbitrary: seen)
  case (Cons x xs)
  then show ?case by (cases "valid x"; cases "extra x") (auto simp: uniqueStep_def)
qed auto

lemma uniqueAll_Inr [simp]:
  "uniqueAll valid extra key msg xs = Inr u \<longleftrightarrow> (\<forall>x \<in> set xs. valid x = Inr () \<and> extra x = Inr ()) \<and> distinct (map key xs)"
  by (auto simp: uniqueAll_def rfold_unique)

lemma mailboxKnown_Inr [simp]: "mailboxKnown ps b = Inr u \<longleftrightarrow> mbPersonaID b \<in> pnID ` set ps"
  by (simp add: mailboxKnown_def)

lemma State_Validate_Inr:
  "State_Validate now s = Inr () \<longleftrightarrow>
     isSchemaVersion s = SchemaV1 \<and> (\<forall>p \<in> set (Personas s). Persona_Validate p = Inr ()) \<and> distinct (map pnID (Personas s)) \<and>
     length (Mailboxes s) \<le> 2 * MaxMailboxes \<and> (\<forall>b \<in> set (Mailboxes s). Mailbox_Validate b = Inr () \<and> mbPersonaID b \<in> pnID ` set (Personas s)) \<and>
     distinct (map mbPersonaID (Mailboxes s)) \<and> length (PreKeys s) \<le> 2 * MaxPreKeys \<and> (\<forall>k \<in> set (PreKeys s). PreKey_Validate now k = Inr ()) \<and>
     distinct (map pkID (PreKeys s)) \<and> length (Devices s) \<le> 2 * MaxDevices \<and> (\<forall>d \<in> set (Devices s). Device_Validate d = Inr ()) \<and>
     distinct (map deviceKey (Devices s))"
  by (auto simp: State_Validate_def split: if_splits)

lemma keepLast_facts: "set (keepLast n xs) \<subseteq> set xs" "length (keepLast n xs) \<le> n" "length (keepLast n xs) \<le> length xs" "distinct (map f xs) \<Longrightarrow> distinct (map f (keepLast n xs))"
  by (auto simp: keepLast_def drop_map[symmetric] dest: in_set_dropD)

lemma keepLast_short [simp]: "length xs \<le> n \<Longrightarrow> keepLast n xs = xs"
  by (simp add: keepLast_def)

lemma Prune_fields [simp]:
  "isSchemaVersion (Prune now s) = isSchemaVersion s" "Personas (Prune now s) = Personas s" "Devices (Prune now s) = Devices s" "isUpdatedAt (Prune now s) = Unix now"
  "Mailboxes (Prune now s) = keepLast MaxMailboxes (filter (\<lambda>b. mbPersonaID b \<in> pnID ` set (Personas s)) (Mailboxes s))"
  "PreKeys (Prune now s) = keepLast MaxPreKeys (filter (\<lambda>k. Unix now \<le> pkExpiresAt k) (PreKeys s))"
  by (simp_all add: Prune_def keepLast_def)

lemma PreKey_Validate_later: "PreKey_Validate t k = Inr () \<Longrightarrow> Unix u \<le> pkExpiresAt k \<Longrightarrow> PreKey_Validate u k = Inr ()"
  by (auto simp: PreKey_Validate_def split: if_splits)

lemma distinct_map_part: "distinct (map f xs) \<Longrightarrow> distinct (map f (keepLast n (filter P xs)))"
  by (simp add: keepLast_facts(4) distinct_map_filter)

text \<open>A valid state that is pruned at any time stays valid: pruning drops what expired, and what is left is a part of what was valid.\<close>

lemma Prune_valid: "State_Validate t s = Inr () \<Longrightarrow> State_Validate u (Prune u s) = Inr ()"
proof -
  assume v: "State_Validate t s = Inr ()"
  have mb: "set (Mailboxes (Prune u s)) \<subseteq> set (Mailboxes s)" and pk: "set (PreKeys (Prune u s)) \<subseteq> {k \<in> set (PreKeys s). Unix u \<le> pkExpiresAt k}"
    using keepLast_facts(1) by fastforce+
  have "length (Mailboxes (Prune u s)) \<le> 2 * MaxMailboxes" "length (PreKeys (Prune u s)) \<le> 2 * MaxPreKeys"
    using keepLast_facts(2) by (metis Prune_fields(5,6) le_add1 mult_2 order_trans)+
  moreover have "\<forall>k \<in> set (PreKeys (Prune u s)). PreKey_Validate u k = Inr ()"
    using v pk PreKey_Validate_later by (fastforce simp: State_Validate_Inr)
  moreover have "distinct (map mbPersonaID (Mailboxes (Prune u s)))" "distinct (map pkID (PreKeys (Prune u s)))"
    using v by (simp_all add: State_Validate_Inr distinct_map_part keepLast_facts(4))
  ultimately show ?thesis using v mb by (auto simp only: State_Validate_Inr Prune_fields(1-4))
qed

interpretation identities: stored_state Prune State_Validate "\<lambda>_ _. True"
  by unfold_locales (rule Prune_valid)


text \<open>
  Cx. Identities survive a restart: a state that is valid once pruned is saved without error, and a later load from the encrypted file gives it back, less the pre-keys that expired in between. The
  cipher and the JSON codec are assumed to invert themselves.
\<close>

theorem identities_survive_restart:
  assumes "codec_laws c (Prune t st)" "length nonce = GcmNonceSize" "State_Validate t (Prune t st) = Inr ()"
  shows "\<exists>s1. Store_Save c t (Some nonce) True st s = (s1, Prune t st, Inr ()) \<and> Store_Load c u True s1 = Inr (Prune u (Prune t st)) \<and>
    Personas (Prune u (Prune t st)) = Personas st \<and> Devices (Prune u (Prune t st)) = Devices st \<and>
    set (PreKeys (Prune u (Prune t st))) = {k \<in> set (PreKeys (Prune t st)). Unix u \<le> pkExpiresAt k}"
proof -
  let ?ks = "PreKeys (Prune t st)"
  have "length (filter (\<lambda>k. Unix u \<le> pkExpiresAt k) ?ks) \<le> MaxPreKeys" using keepLast_facts(2) by (metis Prune_fields(6) length_filter_le order_trans)
  then have "set (PreKeys (Prune u (Prune t st))) = {k \<in> set ?ks. Unix u \<le> pkExpiresAt k}" by (simp only: Prune_fields(6)[of u] keepLast_short set_filter)
  with identities.load_after_save[OF assms(1,2,3) TrueI, of s u "NewState u"] show ?thesis by (simp only: Store_Save_def Store_Load_def Prune_fields) simp
qed

text \<open>A state with a persona and a pre-key, and a cipher that only copies.\<close>

definition sampleState :: State where
  "sampleState = \<lparr>isSchemaVersion = 1, isUpdatedAt = 9,
     Personas = [\<lparr>pnID = ''p'', pnCreatedAt = 1, pnRotatedAt = 0, pnSignPub = EncodeToString (replicate 32 1), pnSignPriv = EncodeToString (replicate 64 2)\<rparr>],
     PreKeys = [\<lparr>pkID = ''k'', pkCreatedAt = 1, pkExpiresAt = 20, pkPub = EncodeToString (replicate 32 3), pkPriv = EncodeToString (replicate 32 4)\<rparr>], Devices = [], Mailboxes = []\<rparr>"

definition copyCodec :: "'a \<Rightarrow> 'a sealed_codec" where
  "copyCodec st = \<lparr>scSeal = (\<lambda>_ _ pt. pt), scOpen = (\<lambda>_ _ ct. Some ct), scMarshal = (\<lambda>_. []), scUnmarshal = (\<lambda>_. Some st)\<rparr>"

lemma sampleState_pruned: "Prune (time_Unix 9) sampleState = sampleState" "State_Validate (time_Unix 9) sampleState = Inr ()"
  by (simp_all add: Prune_def sampleState_def keepLast_def State_Validate_Inr SchemaV1_def MaxPreKeys_def Persona_Validate_def Persona_SignKeypair_def decodeKeypair_def PublicKeySize_def
      PrivateKeySize_def PreKey_Validate_def DecodePublic_def DecodePrivate_def decodeSized_def)

theorem identities_survive_restart_witness:
  "codec_laws (copyCodec sampleState) sampleState \<and>
   (\<exists>s1. Store_Save (copyCodec sampleState) (time_Unix 9) (Some (replicate 12 0)) True sampleState \<lparr>ssKey = replicate 32 0, ssFile = None\<rparr> = (s1, sampleState, Inr ()) \<and>
      Store_Load (copyCodec sampleState) (time_Unix 30) True s1 = Inr (Prune (time_Unix 30) sampleState) \<and> PreKeys (Prune (time_Unix 30) sampleState) = [])"
proof -
  have c: "codec_laws (copyCodec sampleState) sampleState" by (simp add: codec_laws_def copyCodec_def)
  have n: "PreKeys (Prune (time_Unix 30) sampleState) = []" by (simp add: sampleState_def keepLast_def)
  show ?thesis
    using identities_survive_restart[of "copyCodec sampleState" "time_Unix 9" sampleState "replicate 12 0" "\<lparr>ssKey = replicate 32 0, ssFile = None\<rparr>" "time_Unix 30"] c n
    by (simp add: sampleState_pruned GcmNonceSize_def del: Prune_fields) blast
qed

section \<open>Mailboxes rotate\<close>

lemma mailboxEpoch_div:
  assumes "Unix now \<ge> 0" "mbPhaseSec b \<ge> 0" "mailboxEpoch now p b = (epoch, shift, period)"
  shows "60 \<le> period" "period \<le> 604800" "0 \<le> shift" "shift < period" "epoch = (Unix now + shift) div period"
proof -
  show p: "60 \<le> period" "period \<le> 604800" using assms(3) by (auto simp: mailboxEpoch_def Let_def split: if_splits)
  show "0 \<le> shift" "shift < period" using assms(3) p by (auto simp: mailboxEpoch_def Let_def split: if_splits)
  with p assms show "epoch = (Unix now + shift) div period" by (auto simp: mailboxEpoch_def Let_def quot_div)
qed

lemma interval_div:
  fixes p x k :: int
  assumes "0 < p"
  shows "x div p * p \<le> x" "x < (x div p + 1) * p" "k * p \<le> x \<Longrightarrow> x < (k + 1) * p \<Longrightarrow> x div p = k"
proof -
  have "p * (x div p) + x mod p = x" "0 \<le> x mod p" "x mod p < p" using assms by simp_all
  then have "p * (x div p) \<le> x" "x < p * (x div p) + p" by linarith+
  then show "x div p * p \<le> x" "x < (x div p + 1) * p" by (simp_all add: algebra_simps)
  show "x div p = k" if "k * p \<le> x" "x < (k + 1) * p"
    using that assms by (intro int_div_pos_eq[of x p k "x - k * p"]) (simp_all add: algebra_simps)
qed

lemma mailboxEpoch_same: "mailboxEpoch now p b = (epoch, shift, period) \<Longrightarrow> \<exists>e. mailboxEpoch t p b = (e, shift, period)"
  by (simp add: mailboxEpoch_def Let_def)

text \<open>
  Cx. Mailboxes rotate without gaps: the time that \<^verbatim>\<open>MailboxAt\<close> announces lies ahead by at most the period, which is between a minute and a week; until then the mailbox stays the same, and
  during the whole period after that it is the previous mailbox.
\<close>

theorem mailbox_rotation:
  assumes "Unix now \<ge> 0" "mbPhaseSec b \<ge> 0" "MailboxAt hmac now p b = Inr (mb, switch)" "mailboxEpoch now p b = (epoch, shift, period)"
  shows "Unix now < switch \<and> switch \<le> Unix now + period \<and> 60 \<le> period \<and> period \<le> 604800 \<and>
    (\<forall>t. Unix now \<le> Unix t \<and> Unix t < switch \<longrightarrow> MailboxAt hmac t p b = Inr (mb, switch)) \<and>
    (\<forall>t. switch \<le> Unix t \<and> Unix t < switch + period \<longrightarrow> MailboxPrevAt hmac t p b = Inr mb)"
proof -
  note e = mailboxEpoch_div[OF assms(1,2,4)]
  have sw: "switch = (epoch + 1) * period - shift" and mb: "mailboxForEpoch hmac epoch b = Inr mb" using assms(3,4) by (auto simp: MailboxAt_def)
  have now: "epoch * period \<le> Unix now + shift" "Unix now + shift < (epoch + 1) * period" using interval_div(1,2)[of period "Unix now + shift"] e by simp_all
  have at: "fst (mailboxEpoch t p b) = k" "snd (mailboxEpoch t p b) = (shift, period)" if "k * period \<le> Unix t + shift" "Unix t + shift < (k + 1) * period" "Unix t \<ge> 0" for t k
  proof -
    obtain k' where k': "mailboxEpoch t p b = (k', shift, period)" using mailboxEpoch_same[OF assms(4)] by blast
    then have "k' = k" using mailboxEpoch_div(5)[OF that(3) assms(2) k'] interval_div(3)[of period k] that e(1) by simp
    with k' show "fst (mailboxEpoch t p b) = k" "snd (mailboxEpoch t p b) = (shift, period)" by simp_all
  qed
  have "MailboxAt hmac t p b = Inr (mb, switch)" if "Unix now \<le> Unix t" "Unix t < switch" for t
  proof -
    have "mailboxEpoch t p b = (epoch, shift, period)" using at[of epoch t] now that assms(1) sw by (simp add: prod_eq_iff)
    then show ?thesis using mb sw by (simp add: MailboxAt_def)
  qed
  moreover have "MailboxPrevAt hmac t p b = Inr mb" if "switch \<le> Unix t" "Unix t < switch + period" for t
  proof -
    have "fst (mailboxEpoch t p b) = epoch + 1" using at(1)[of "epoch + 1" t] now that assms(1) sw by (simp add: algebra_simps)
    then show ?thesis using mb by (simp add: MailboxPrevAt_def)
  qed
  ultimately show ?thesis using now sw e(1,2) by (auto simp: algebra_simps)
qed


text \<open>A mailbox with the phase 10 at time 1000 of an hourly rotation.\<close>

definition sampleBinding :: MailboxBinding where
  "sampleBinding = \<lparr>mbPersonaID = ''p'', mbCreatedAt = 1, mbRotatedAt = 0, mbSeed = EncodeToString (replicate 32 7), mbPhaseSec = 10\<rparr>"

definition sampleMac :: "bytes \<Rightarrow> bytes \<Rightarrow> bytes" where "sampleMac k m = take 32 (rev m @ k)"

lemma sampleBinding_seed [simp]: "Seed sampleBinding = Inr (replicate 32 7)"
  by (simp add: Seed_def decodeSized_def sampleBinding_def)

theorem mailbox_rotation_witness:
  "\<exists>mb. MailboxAt sampleMac (time_Unix 1000) 0 sampleBinding = Inr (mb, 3590) \<and> mailboxEpoch (time_Unix 1000) 0 sampleBinding = (0, 10, 3600) \<and>
     MailboxAt sampleMac (time_Unix 3589) 0 sampleBinding = Inr (mb, 3590) \<and> MailboxPrevAt sampleMac (time_Unix 3590) 0 sampleBinding = Inr mb"
proof -
  have e: "mailboxEpoch (time_Unix 1000) 0 sampleBinding = (0, 10, 3600)" by (simp add: mailboxEpoch_def sampleBinding_def Let_def quot_def)
  then obtain mb where m: "MailboxAt sampleMac (time_Unix 1000) 0 sampleBinding = Inr (mb, 3590)" by (simp add: MailboxAt_def mailboxForEpoch_def)
  from mailbox_rotation[OF _ _ m e] show ?thesis using m e by (auto simp: sampleBinding_def)
qed

section \<open>Derived numbers and pre-keys\<close>

text \<open>
  Cx. A derived number is in its range: for bounds within \<open>2 ^ 62\<close> and a valid seed, \<^verbatim>\<open>DeriveInt\<close> gives a number between the two bounds, in whichever order they are given.
\<close>

theorem derived_in_range:
  assumes "Seed b = Inr seed" "\<bar>lo\<bar> < 2 ^ 62" "\<bar>hi\<bar> < 2 ^ 62"
  shows "\<exists>n. DeriveInt hmac label lo hi b = Inr n \<and> min lo hi \<le> n \<and> n \<le> max lo hi"
proof -
  define l h where "l = min lo hi" "h = max lo hi"
  define v where "v = int (be_nat (take 8 (hmac seed (str_bytes (''sn-derive-v1:'' @ label)))))"
  have b: "l \<le> h" "- (2 ^ 62) < l" "h < 2 ^ 62" using assms(2,3) by (auto simp: l_h_def)
  have d: "DeriveInt hmac label lo hi b = (if l = h then Inr l
      else let span = wrap64 (h - l + 1) mod 2 ^ 64 in if span = 0 then Inl IdPanic else Inr (wrap64 (l + wrap64 (v mod span))))"
    using assms(1) by (auto simp: DeriveInt_def l_h_def v_def Let_def min_def max_def)
  show ?thesis
  proof (cases "l = h")
    case False
    then have s: "wrap64 (h - l + 1) mod 2 ^ 64 = h - l + 1" using b by (subst wrap64_id) (auto intro!: mod_pos_pos_trivial)
    have m: "0 \<le> v mod (h - l + 1)" "v mod (h - l + 1) < h - l + 1" using b(1) by (intro pos_mod_sign pos_mod_bound; simp)+
    have p: "(2 :: int) ^ 63 = 2 * 2 ^ 62" "(0 :: int) < 2 ^ 62" by simp_all
    have "wrap64 (v mod (h - l + 1)) = v mod (h - l + 1)" using b m p by (intro wrap64_id) linarith+
    moreover have "wrap64 (l + v mod (h - l + 1)) = l + v mod (h - l + 1)" using b m p by (intro wrap64_id) linarith+
    ultimately have "DeriveInt hmac label lo hi b = Inr (l + v mod (h - l + 1))" using d s False b by (simp add: Let_def)
    then show ?thesis using m by (auto simp flip: l_h_def)
  qed (use d in \<open>auto simp: l_h_def\<close>)
qed

theorem derived_in_range_witness: "Seed sampleBinding = Inr (replicate 32 7) \<and> (\<exists>n. DeriveInt sampleMac ''x'' 9 3 sampleBinding = Inr n \<and> 3 \<le> n \<and> n \<le> 9)"
  using derived_in_range[of sampleBinding "replicate 32 7" 9 3 sampleMac "''x''"] by simp

lemma addPreKeys_keys:
  assumes "\<forall>r \<in> set rnds. \<exists>k. NewPreKey x25519 now r ttl = Inr k" "length (PreKeys s) + length rnds \<le> MaxPreKeys"
  shows "\<exists>new. addPreKeys x25519 now ttl rnds (s, n) = (s\<lparr>PreKeys := PreKeys s @ new\<rparr>, n + length rnds, None) \<and> length new = length rnds \<and>
    (\<forall>k \<in> set new. \<exists>r \<in> set rnds. NewPreKey x25519 now r ttl = Inr k)"
  using assms
proof (induction rnds arbitrary: s n)
  case (Cons r rnds)
  then obtain k where k: "NewPreKey x25519 now r ttl = Inr k" by auto
  with Cons.IH[of "s\<lparr>PreKeys := PreKeys s @ [k]\<rparr>" "Suc n"] Cons.prems obtain new where
    "addPreKeys x25519 now ttl rnds (s\<lparr>PreKeys := PreKeys s @ [k]\<rparr>, Suc n) = (s\<lparr>PreKeys := (PreKeys s @ [k]) @ new\<rparr>, Suc n + length rnds, None)"
    "length new = length rnds" "\<forall>k \<in> set new. \<exists>r \<in> set rnds. NewPreKey x25519 now r ttl = Inr k" by auto
  then show ?case using k Cons.prems by (intro exI[of _ "k # new"]) auto
qed simp

text \<open>
  Cx. Enough pre-keys: with a positive lifetime and a working random source, \<^verbatim>\<open>EnsurePreKeys\<close> leaves at least as many unexpired pre-keys as asked for, up to 64, never more than 64, keeps those that
  had not expired, and reports how many it made.
\<close>

theorem prekeys_ensured:
  assumes "0 \<le> mn" "0 < ttl" "\<And>i. \<exists>k. NewPreKey x25519 now (draws i) ttl = Inr k" "EnsurePreKeys x25519 now draws mn ttl s = (s1, made, err)"
  shows "err = None \<and> min (nat mn) MaxPreKeys \<le> length (PreKeys s1) \<and> length (PreKeys s1) \<le> MaxPreKeys \<and> (\<forall>k \<in> set (PreKeys s1). Unix now \<le> pkExpiresAt k) \<and>
    set (PreKeys (Prune now s)) \<subseteq> set (PreKeys s1) \<and> length (PreKeys s1) = length (PreKeys (Prune now s)) + made"
proof -
  define ks where "ks = PreKeys (Prune now s)"
  have ks: "length ks \<le> MaxPreKeys" "\<forall>k \<in> set ks. Unix now \<le> pkExpiresAt k" unfolding ks_def Prune_fields using keepLast_facts(1,2) by fastforce+
  have fresh: "Unix now \<le> pkExpiresAt k" if "NewPreKey x25519 now r ttl = Inr k" for r k
    using that assms(2) by (auto simp: NewPreKey_def Let_def Unix_def second_def randomID_def intro!: zdiv_mono1 split: option.splits if_splits)
  show ?thesis
  proof (cases "length ks \<ge> min (nat mn) MaxPreKeys")
    case True
    then have "(s1, made, err) = (Prune now s, 0, None)" using assms(1,2,4) by (simp add: EnsurePreKeys_def Let_def ks_def)
    then show ?thesis using True ks by (simp flip: ks_def del: Prune_fields)
  next
    case False
    define need where "need = min (nat mn) MaxPreKeys - length ks"
    obtain new where new: "addPreKeys x25519 now ttl (map draws [0..<need]) (Prune now s, 0) = ((Prune now s)\<lparr>PreKeys := ks @ new\<rparr>, need, None)" "length new = need"
      "\<forall>k \<in> set new. Unix now \<le> pkExpiresAt k"
    proof -
      have "\<forall>r \<in> set (map draws [0..<need]). \<exists>k. NewPreKey x25519 now r ttl = Inr k" using assms(3) by auto
      moreover have "length (PreKeys (Prune now s)) + length (map draws [0..<need]) \<le> MaxPreKeys" using False unfolding ks_def[symmetric] need_def by simp
      ultimately obtain new where "addPreKeys x25519 now ttl (map draws [0..<need]) (Prune now s, 0) = ((Prune now s)\<lparr>PreKeys := ks @ new\<rparr>, need, None)" "length new = need"
        "\<forall>k \<in> set new. \<exists>r \<in> set (map draws [0..<need]). NewPreKey x25519 now r ttl = Inr k"
        using addPreKeys_keys[of "map draws [0..<need]" x25519 now ttl "Prune now s" 0] unfolding ks_def[symmetric] by auto
      with fresh that show ?thesis by blast
    qed
    have l: "length (ks @ new) \<le> MaxPreKeys" "length (ks @ new) = min (nat mn) MaxPreKeys" using new(2) False unfolding need_def length_append by linarith+
    have "PreKeys (Prune now ((Prune now s)\<lparr>PreKeys := ks @ new\<rparr>)) = ks @ new" using l ks(2) new(3) by (simp only: Prune_fields) (simp add: filter_True)
    moreover have "(s1, made, err) = (Prune now ((Prune now s)\<lparr>PreKeys := ks @ new\<rparr>), need, None)"
      using assms(1,2,4) False new(1) by (simp add: EnsurePreKeys_def Let_def need_def del: Prune_fields flip: ks_def)
    ultimately show ?thesis using l ks(2) new(2,3) by (auto simp flip: ks_def simp del: Prune_fields)
  qed
qed


definition sampleDraws :: "nat \<Rightarrow> bytes option \<times> bytes option" where "sampleDraws i = (Some (replicate 32 (of_nat i)), Some [of_nat i])"

lemma sampleDraws_work: "\<exists>k. NewPreKey Some (time_Unix 9) (sampleDraws i) second = Inr k" by (simp add: NewPreKey_def randomID_def second_def sampleDraws_def)

theorem prekeys_ensured_witness:
  "\<exists>s1 made. EnsurePreKeys Some (time_Unix 9) sampleDraws 3 second sampleState = (s1, made, None) \<and> 3 \<le> length (PreKeys s1) \<and> length (PreKeys s1) \<le> 64 \<and> length (PreKeys s1) = 1 + made"
proof -
  obtain s1 made err where r: "EnsurePreKeys Some (time_Unix 9) sampleDraws 3 second sampleState = (s1, made, err)" by (metis surj_pair)
  have k: "length (PreKeys (Prune (time_Unix 9) sampleState)) = 1" by (simp only: sampleState_pruned) (simp add: sampleState_def)
  have s: "0 < second" by (simp add: second_def)
  from prekeys_ensured[OF _ s sampleDraws_work r] have "err = None" "min 3 MaxPreKeys \<le> length (PreKeys s1)" "length (PreKeys s1) \<le> MaxPreKeys" "length (PreKeys s1) = 1 + made"
    unfolding k by simp_all
  with r show ?thesis by (auto simp: MaxPreKeys_def)
qed

end
