(* ===== verification/Identity_Links.thy ===== *)
theory Identity_Links
  imports Identity_Types
begin

text \<open>
  What identities hand to each other: contact offers (\<^verbatim>\<open>pkg/identity/offer.go\<close>), device certificates (\<^verbatim>\<open>device.go\<close>) and the linking of a device (\<^verbatim>\<open>device_link.go\<close>): join
  requests, packages, bundles with the persona, and their encrypted envelopes. Ed25519, SHA-256, age and the JSON codecs are parameters (\<open>link_env\<close>); the time is read once per call.
\<close>

section \<open>Data\<close>

definition OfferV1 :: int where "OfferV1 = 1"
definition OfferV2 :: int where "OfferV2 = 2"
definition maxDeviceLinkEncodedLen :: nat where "maxDeviceLinkEncodedLen = 64 * 1024"
definition maxDeviceLinkRawLen :: nat where "maxDeviceLinkRawLen = 64 * 1024"
definition maxDeviceLinkLifetimeSec :: int where "maxDeviceLinkLifetimeSec = 10 * 60"

text \<open>The signed part of a struct is the struct without its signature: the codec of the signable structs gets the fields of the record with an empty signature.\<close>

record ContactOffer =
  ofVersion :: int
  ofOfferID :: string
  ofCreatedAt :: int
  ofExpiresAt :: int
  ofPersonaID :: string
  ofPersonaPub :: string
  ofPreKeyPub :: string
  ofMailbox :: string
  ofRelayHints :: "string list"
  ofNonce :: string
  ofSignature :: string

record DeviceCert =
  cePersonaID :: string
  ceDeviceID :: string
  ceDevicePub :: string
  ceIssuedAt :: int
  ceNonce :: string
  ceSig :: string

record DeviceJoinRequest =
  jrSchema :: int
  jrPersonaID :: string
  jrDeviceID :: string
  jrDevicePub :: string
  jrAgeRecipient :: string
  jrCreatedAt :: int
  jrExpiresAt :: int
  jrNonce :: string

record DeviceJoinPackage =
  jpPersonaID :: string
  jpDeviceID :: string
  jpTrust :: DeviceTrust
  jpDevicePub :: string
  jpCert :: DeviceCert
  jpIssuedAt :: int

record DeviceLinkBundle =
  lbSchema :: int
  lbPersona :: Persona
  lbJoinPackage :: DeviceJoinPackage
  lbCreatedAt :: int
  lbExpiresAt :: int
  lbNonce :: string

record DeviceLinkEnvelope =
  leSchema :: int
  leCipher :: string
  leSenderPub :: string
  leRecipientKeyID :: string
  leCreatedAt :: int
  leExpiresAt :: int
  leNonce :: string
  leCiphertext :: string
  leSig :: string

text \<open>
  The parameters. \<open>liSign priv msg\<close> and \<open>liVerify pub msg sig\<close> are Ed25519; \<open>liRecipient\<close> and \<open>liIdentity\<close> parse the keys of age; \<open>liProbe\<close> decodes only the field \<^verbatim>\<open>cipher\<close> (empty when it is
  missing).
\<close>

record link_env =
  liSign :: "bytes \<Rightarrow> bytes \<Rightarrow> bytes"
  liVerify :: "bytes \<Rightarrow> bytes \<Rightarrow> bytes \<Rightarrow> bool"
  liSha :: "bytes \<Rightarrow> bytes"
  liRecipient :: "string \<Rightarrow> bool"
  liIdentity :: "string \<Rightarrow> bool"
  liEncrypt :: "string \<Rightarrow> bytes \<Rightarrow> bytes option"
  liDecrypt :: "string \<Rightarrow> bytes \<Rightarrow> bytes option"
  liSignableOffer :: "ContactOffer \<Rightarrow> bytes"
  liSignableCert :: "DeviceCert \<Rightarrow> bytes"
  liOffer :: "ContactOffer \<Rightarrow> bytes"
  liUnOffer :: "bytes \<Rightarrow> ContactOffer option"
  liRequest :: "DeviceJoinRequest \<Rightarrow> bytes"
  liUnRequest :: "bytes \<Rightarrow> DeviceJoinRequest option"
  liPackage :: "DeviceJoinPackage \<Rightarrow> bytes"
  liUnPackage :: "bytes \<Rightarrow> DeviceJoinPackage option"
  liBundle :: "DeviceLinkBundle \<Rightarrow> bytes"
  liUnBundle :: "bytes \<Rightarrow> DeviceLinkBundle option"
  liEnvelope :: "DeviceLinkEnvelope \<Rightarrow> bytes"
  liUnEnvelope :: "bytes \<Rightarrow> DeviceLinkEnvelope option"
  liProbe :: "bytes \<Rightarrow> string option"

section \<open>Contact offers\<close>

definition draftOffer :: "gotime \<Rightarrow> Persona \<Rightarrow> string \<Rightarrow> string \<Rightarrow> string \<Rightarrow> string \<Rightarrow> string list \<Rightarrow> duration \<Rightarrow> int \<Rightarrow> ContactOffer" where
  "draftOffer now p i nonce preKeyPub mailbox hints ttl0 version =
     \<lparr>ofVersion = version, ofOfferID = i, ofCreatedAt = Unix now, ofExpiresAt = Unix (now + (if ttl0 \<le> 0 then 600 * second else ttl0)), ofPersonaID = pnID p, ofPersonaPub = pnSignPub p,
      ofPreKeyPub = preKeyPub, ofMailbox = mailbox, ofRelayHints = hints, ofNonce = nonce, ofSignature = ''''\<rparr>"

definition newContactOffer :: "link_env \<Rightarrow> gotime \<Rightarrow> bytes option \<Rightarrow> bytes option \<Rightarrow> Persona \<Rightarrow> string \<Rightarrow> string \<Rightarrow> string list \<Rightarrow> duration \<Rightarrow> int \<Rightarrow> id_error + ContactOffer" where
  "newContactOffer env now rid rnonce p preKeyPub mailbox hints ttl0 version =
     rbind (Persona_SignKeypair p) (\<lambda>(pub, priv).
        if preKeyPub = '''' then Inl (IdErr ''identity: missing prekey_pub_b64url'')
        else rbind (decodeSized ''identity: decode prekey_pub_b64url'' ''identity: invalid prekey_pub size: '' 32 preKeyPub) (\<lambda>_.
          if version = OfferV2 \<and> mailbox = '''' then Inl (IdErr ''identity: missing mailbox'')
          else rbind (randomID rid) (\<lambda>i. rbind (randomID rnonce) (\<lambda>nonce.
            let o1 = draftOffer now p i nonce preKeyPub mailbox hints ttl0 version
            in Inr (o1\<lparr>ofSignature := EncodeToString (liSign env priv (liSignableOffer env o1))\<rparr>)))))"

definition NewContactOffer :: "link_env \<Rightarrow> gotime \<Rightarrow> bytes option \<Rightarrow> bytes option \<Rightarrow> Persona \<Rightarrow> string \<Rightarrow> string list \<Rightarrow> duration \<Rightarrow> id_error + ContactOffer" where
  "NewContactOffer env now rid rnonce p preKeyPub hints ttl = newContactOffer env now rid rnonce p preKeyPub '''' hints ttl OfferV1"

definition NewContactOfferV2 :: "link_env \<Rightarrow> gotime \<Rightarrow> bytes option \<Rightarrow> bytes option \<Rightarrow> Persona \<Rightarrow> string \<Rightarrow> string \<Rightarrow> string list \<Rightarrow> duration \<Rightarrow> id_error + ContactOffer" where
  "NewContactOfferV2 env now rid rnonce p preKeyPub mailbox hints ttl = newContactOffer env now rid rnonce p preKeyPub mailbox hints ttl OfferV2"

definition Offer_Validate :: "link_env \<Rightarrow> gotime \<Rightarrow> ContactOffer \<Rightarrow> id_error + unit" where
  "Offer_Validate env now f =
     (if ofVersion f \<noteq> OfferV1 \<and> ofVersion f \<noteq> OfferV2 then Inl (IdErr (''identity: unsupported offer version: '' @ Itoa (ofVersion f)))
      else if ofOfferID f = '''' then Inl (IdErr ''identity: offer id required'')
      else if ofPersonaID f = '''' then Inl (IdErr ''identity: persona_id required'')
      else if ofCreatedAt f \<le> 0 \<or> ofExpiresAt f \<le> 0 then Inl (IdErr ''identity: created_at/expires_at required'')
      else if Unix now > ofExpiresAt f then Inl (IdErr ''identity: offer expired'')
      else if ofPersonaPub f = '''' \<or> ofPreKeyPub f = '''' \<or> ofNonce f = '''' \<or> ofSignature f = '''' then Inl (IdErr ''identity: missing required offer fields'')
      else if ofVersion f = OfferV2 \<and> ofMailbox f = '''' then Inl (IdErr ''identity: mailbox required'')
      else rbind (decodeSized ''identity: decode persona_pub_b64url'' ''identity: invalid persona_pub size: '' PublicKeySize (ofPersonaPub f)) (\<lambda>pub.
        rbind (decodeSized ''identity: decode prekey_pub_b64url'' ''identity: invalid prekey_pub size: '' 32 (ofPreKeyPub f)) (\<lambda>_.
        rbind (decodeSized ''identity: decode sig_b64url'' ''identity: invalid signature size: '' SignatureSize (ofSignature f)) (\<lambda>sig.
          if liVerify env pub (liSignableOffer env (f\<lparr>ofSignature := ''''\<rparr>)) sig then Inr () else Inl (IdErr ''identity: invalid offer signature'')))))"

text \<open>Tokens: a prefix and the JSON form in base64. \<open>limited\<close> is \<open>None\<close> for offers, whose lengths are not limited, and otherwise the name in the message.\<close>

definition encodeToken :: "string \<Rightarrow> bytes \<Rightarrow> string" where "encodeToken prefix raw = prefix @ EncodeToString raw"

definition tokenRaw :: "string option \<Rightarrow> string \<Rightarrow> string \<Rightarrow> string \<Rightarrow> id_error + bytes" where
  "tokenRaw limited what prefix s =
     (if s = '''' then Inl (IdErr (''identity: '' @ what @ '' string is empty''))
      else if \<not> leads prefix s then Inl (IdErr (''identity: invalid '' @ what @ '' prefix''))
      else if limited \<noteq> None \<and> length s > maxDeviceLinkEncodedLen then Inl (IdErr (''identity: '' @ the limited @ '' too large''))
      else case DecodeString (drop (length prefix) s) of
             None \<Rightarrow> Inl (IdErr (''identity: decode '' @ what))
           | Some raw \<Rightarrow> if limited \<noteq> None \<and> length raw > maxDeviceLinkRawLen then Inl (IdErr (''identity: '' @ what @ '' too large'')) else Inr raw)"

definition orCodec :: "'a option \<Rightarrow> id_error + 'a" where "orCodec x = (case x of None \<Rightarrow> Inl IdCodec | Some y \<Rightarrow> Inr y)"

definition Offer_Encode :: "link_env \<Rightarrow> ContactOffer \<Rightarrow> string" where "Offer_Encode env f = encodeToken ''sn4:'' (liOffer env f)"

definition DecodeContactOffer :: "link_env \<Rightarrow> gotime \<Rightarrow> string \<Rightarrow> id_error + ContactOffer" where
  "DecodeContactOffer env now s =
     rbind (tokenRaw None ''offer'' ''sn4:'' s) (\<lambda>raw. rbind (orCodec (liUnOffer env raw)) (\<lambda>f. rbind (Offer_Validate env now f) (\<lambda>_. Inr f)))"

section \<open>Certificates\<close>

definition IssueDeviceCert :: "link_env \<Rightarrow> gotime \<Rightarrow> bytes option \<Rightarrow> Persona \<Rightarrow> string \<Rightarrow> string \<Rightarrow> id_error + DeviceCert" where
  "IssueDeviceCert env now rnonce p deviceID devicePub =
     (if TrimSpace deviceID = '''' then Inl (IdErr ''identity: device_id required'')
      else if devicePub = '''' then Inl (IdErr ''identity: device_pub_b64url required'')
      else rbind (Persona_SignKeypair p) (\<lambda>(pub, priv).
        rbind (decodeSized ''identity: decode device_pub_b64url'' ''identity: invalid device pub size: '' PublicKeySize devicePub) (\<lambda>_.
        rbind (randomID rnonce) (\<lambda>nonce.
          let c = \<lparr>cePersonaID = pnID p, ceDeviceID = TrimSpace deviceID, ceDevicePub = devicePub, ceIssuedAt = Unix now, ceNonce = nonce, ceSig = ''''\<rparr>
          in Inr (c\<lparr>ceSig := EncodeToString (liSign env priv (liSignableCert env c))\<rparr>)))))"

definition VerifyDeviceCert :: "link_env \<Rightarrow> string \<Rightarrow> DeviceCert \<Rightarrow> id_error + unit" where
  "VerifyDeviceCert env personaPub c =
     (if TrimSpace personaPub = '''' then Inl (IdErr ''identity: persona pub required'')
      else rbind (decodeSized ''identity: decode persona pub'' ''identity: invalid persona pub size: '' PublicKeySize personaPub) (\<lambda>pub.
        if cePersonaID c = '''' \<or> TrimSpace (ceDeviceID c) = '''' \<or> ceDevicePub c = '''' \<or> ceNonce c = '''' \<or> ceSig c = '''' \<or> ceIssuedAt c \<le> 0 then Inl (IdErr ''identity: malformed cert'')
        else rbind (decodeSized ''identity: decode sig'' ''identity: invalid sig size: '' SignatureSize (ceSig c)) (\<lambda>sig.
          if liVerify env pub (liSignableCert env (c\<lparr>ceSig := ''''\<rparr>)) sig then Inr () else Inl (IdErr ''identity: invalid device cert signature''))))"

section \<open>Join requests\<close>

definition NewDeviceJoinRequestForDevice :: "link_env \<Rightarrow> gotime \<Rightarrow> bytes option \<Rightarrow> string \<Rightarrow> string \<Rightarrow> string \<Rightarrow> string \<Rightarrow> id_error + DeviceJoinRequest" where
  "NewDeviceJoinRequestForDevice env now rnonce personaID deviceID0 devicePub age0 =
     (let deviceID = TrimSpace deviceID0; age = TrimSpace age0 in
      if personaID = '''' then Inl (IdErr ''identity: persona_id required'')
      else if deviceID = '''' then Inl (IdErr ''identity: device_id required'')
      else if devicePub = '''' then Inl (IdErr ''identity: device_pub_b64url required'')
      else rbind (decodeSized ''identity: decode device_pub_b64url'' ''identity: invalid device pub size: '' PublicKeySize devicePub) (\<lambda>_.
        if age \<noteq> '''' \<and> \<not> liRecipient env age then Inl (IdErr ''identity: invalid age recipient'')
        else rbind (randomID rnonce) (\<lambda>nonce.
          Inr \<lparr>jrSchema = SchemaV1, jrPersonaID = personaID, jrDeviceID = deviceID, jrDevicePub = devicePub, jrAgeRecipient = age, jrCreatedAt = Unix now,
               jrExpiresAt = Unix (now + 600 * second), jrNonce = nonce\<rparr>)))"

definition NewDeviceJoinRequest :: "link_env \<Rightarrow> gotime \<Rightarrow> bytes option \<Rightarrow> bytes option \<Rightarrow> string \<Rightarrow> string \<Rightarrow> id_error + DeviceJoinRequest" where
  "NewDeviceJoinRequest env now rid rnonce personaID devicePub = rbind (randomID rid) (\<lambda>i. NewDeviceJoinRequestForDevice env now rnonce personaID i devicePub '''')"

definition JoinRequest_Validate :: "link_env \<Rightarrow> gotime \<Rightarrow> DeviceJoinRequest \<Rightarrow> id_error + unit" where
  "JoinRequest_Validate env now r =
     (if jrSchema r \<noteq> SchemaV1 then Inl (IdErr (''identity: unsupported schema: '' @ Itoa (jrSchema r)))
      else if jrPersonaID r = '''' then Inl (IdErr ''identity: persona_id required'')
      else if jrDeviceID r = '''' then Inl (IdErr ''identity: device_id required'')
      else if jrCreatedAt r \<le> 0 \<or> jrExpiresAt r \<le> 0 then Inl (IdErr ''identity: created_at/expires_at required'')
      else if jrExpiresAt r < jrCreatedAt r then Inl (IdErr ''identity: expires_at before created_at'')
      else if Unix now > jrExpiresAt r then Inl (IdErr ''identity: join request expired'')
      else if jrNonce r = '''' then Inl (IdErr ''identity: nonce required'')
      else rbind (decodeSized ''identity: decode device_pub_b64url'' ''identity: invalid device pub size: '' PublicKeySize (jrDevicePub r)) (\<lambda>_.
        if TrimSpace (jrAgeRecipient r) \<noteq> '''' \<and> \<not> liRecipient env (TrimSpace (jrAgeRecipient r)) then Inl (IdErr ''identity: invalid age recipient'') else Inr ()))"

definition JoinRequest_Encode :: "link_env \<Rightarrow> DeviceJoinRequest \<Rightarrow> string" where "JoinRequest_Encode env r = encodeToken ''sn4dj:'' (liRequest env r)"

definition DecodeDeviceJoinRequest :: "link_env \<Rightarrow> gotime \<Rightarrow> string \<Rightarrow> id_error + DeviceJoinRequest" where
  "DecodeDeviceJoinRequest env now s =
     rbind (tokenRaw (Some ''join request'') ''join request'' ''sn4dj:'' s) (\<lambda>raw. rbind (orCodec (liUnRequest env raw)) (\<lambda>r. rbind (JoinRequest_Validate env now r) (\<lambda>_. Inr r)))"

section \<open>Join packages\<close>

definition ApproveDeviceJoinRequest :: "link_env \<Rightarrow> gotime \<Rightarrow> bytes option \<Rightarrow> Persona \<Rightarrow> DeviceJoinRequest \<Rightarrow> id_error + DeviceJoinPackage" where
  "ApproveDeviceJoinRequest env now rnonce p r =
     (if jrPersonaID r \<noteq> pnID p then Inl (IdErr ''identity: persona mismatch'')
      else rbind (JoinRequest_Validate env now r) (\<lambda>_.
        rbind (IssueDeviceCert env now rnonce p (jrDeviceID r) (jrDevicePub r)) (\<lambda>c.
          Inr \<lparr>jpPersonaID = jrPersonaID r, jpDeviceID = jrDeviceID r, jpTrust = DeviceTrusted, jpDevicePub = jrDevicePub r, jpCert = c, jpIssuedAt = ceIssuedAt c\<rparr>)))"

definition Package_Validate :: "link_env \<Rightarrow> string \<Rightarrow> DeviceJoinPackage \<Rightarrow> id_error + unit" where
  "Package_Validate env personaPub k =
     (if jpPersonaID k = '''' \<or> jpDeviceID k = '''' \<or> jpDevicePub k = '''' \<or> jpIssuedAt k \<le> 0 then Inl (IdErr ''identity: malformed join package'')
      else if jpTrust k \<noteq> DeviceTrusted then Inl (IdErr ''identity: unexpected trust in join package'')
      else VerifyDeviceCert env personaPub (jpCert k))"

definition Package_Encode :: "link_env \<Rightarrow> DeviceJoinPackage \<Rightarrow> string" where "Package_Encode env k = encodeToken ''sn4dp:'' (liPackage env k)"

definition DecodeDeviceJoinPackage :: "link_env \<Rightarrow> string \<Rightarrow> id_error + DeviceJoinPackage" where
  "DecodeDeviceJoinPackage env s = rbind (tokenRaw (Some ''join package'') ''join package'' ''sn4dp:'' s) (\<lambda>raw. orCodec (liUnPackage env raw))"

fun upsertDevice :: "Device \<Rightarrow> Device list \<Rightarrow> Device list" where
  "upsertDevice d [] = [d]"
| "upsertDevice d (e # es) =
     (if dvPersonaID e = dvPersonaID d \<and> dvDeviceID e = dvDeviceID d then e\<lparr>dvSignPub := dvSignPub d, dvTrust := DeviceTrusted, dvRevokedAt := 0\<rparr> # es
      else e # upsertDevice d es)"

definition UpsertDeviceFromJoinPackage :: "link_env \<Rightarrow> gotime \<Rightarrow> string \<Rightarrow> DeviceJoinPackage \<Rightarrow> State \<Rightarrow> id_error + State" where
  "UpsertDeviceFromJoinPackage env now personaPub k st =
     rbind (Package_Validate env personaPub k) (\<lambda>_.
       Inr (st\<lparr>Devices := upsertDevice \<lparr>dvPersonaID = jpPersonaID k, dvDeviceID = jpDeviceID k, dvCreatedAt = Unix now, dvRevokedAt = 0, dvTrust = DeviceTrusted,
                 dvLabel = ''linked-device'', dvSignPub = jpDevicePub k, dvSignPriv = ''''\<rparr> (Devices st),
               isUpdatedAt := Unix now\<rparr>))"

section \<open>Link bundles\<close>

definition NewDeviceLinkBundle :: "link_env \<Rightarrow> gotime \<Rightarrow> Persona \<Rightarrow> DeviceJoinRequest \<Rightarrow> DeviceJoinPackage \<Rightarrow> id_error + DeviceLinkBundle" where
  "NewDeviceLinkBundle env now p r k =
     rbind (Persona_Validate p) (\<lambda>_. rbind (JoinRequest_Validate env now r) (\<lambda>_.
       if jpPersonaID k \<noteq> pnID p \<or> jpDeviceID k \<noteq> jrDeviceID r then Inl (IdErr ''identity: link bundle mismatch'')
       else Inr \<lparr>lbSchema = SchemaV1, lbPersona = p, lbJoinPackage = k, lbCreatedAt = Unix now, lbExpiresAt = min (jrExpiresAt r) (Unix now + 10 * 60), lbNonce = jrNonce r\<rparr>))"

definition Bundle_Validate :: "link_env \<Rightarrow> gotime \<Rightarrow> DeviceLinkBundle \<Rightarrow> id_error + unit" where
  "Bundle_Validate env now b =
     (if lbSchema b \<noteq> SchemaV1 then Inl (IdErr (''identity: unsupported link bundle schema: '' @ Itoa (lbSchema b)))
      else if lbCreatedAt b \<le> 0 \<or> lbExpiresAt b \<le> 0 \<or> lbExpiresAt b < lbCreatedAt b then Inl (IdErr ''identity: invalid link bundle timestamps'')
      else if lbExpiresAt b - lbCreatedAt b > maxDeviceLinkLifetimeSec then Inl (IdErr ''identity: link bundle lifetime too long'')
      else if Unix now > lbExpiresAt b then Inl (IdErr ''identity: link bundle expired'')
      else if TrimSpace (lbNonce b) = '''' then Inl (IdErr ''identity: link bundle nonce required'')
      else rbind (Persona_Validate (lbPersona b)) (\<lambda>_.
        if jpPersonaID (lbJoinPackage b) \<noteq> pnID (lbPersona b) then Inl (IdErr ''identity: link bundle persona mismatch'')
        else Package_Validate env (pnSignPub (lbPersona b)) (lbJoinPackage b)))"

definition Bundle_Encode :: "link_env \<Rightarrow> DeviceLinkBundle \<Rightarrow> string" where "Bundle_Encode env b = encodeToken ''sn4dl:'' (liBundle env b)"

definition DecodeDeviceLinkBundle :: "link_env \<Rightarrow> gotime \<Rightarrow> string \<Rightarrow> id_error + DeviceLinkBundle" where
  "DecodeDeviceLinkBundle env now s =
     rbind (tokenRaw (Some ''link bundle'') ''link bundle'' ''sn4dl:'' s) (\<lambda>raw. rbind (orCodec (liUnBundle env raw)) (\<lambda>b. rbind (Bundle_Validate env now b) (\<lambda>_. Inr b)))"

section \<open>Link envelopes\<close>

definition Envelope_Validate :: "gotime \<Rightarrow> DeviceLinkEnvelope \<Rightarrow> id_error + unit" where
  "Envelope_Validate now e =
     (if leSchema e \<noteq> SchemaV1 then Inl (IdErr (''identity: unsupported link envelope schema: '' @ Itoa (leSchema e)))
      else if leCipher e \<noteq> ''age-x25519'' then Inl (IdErr ''identity: unsupported link envelope cipher'')
      else if TrimSpace (leSenderPub e) = '''' then Inl (IdErr ''identity: sender_pub_b64url required'')
      else if TrimSpace (leRecipientKeyID e) = '''' then Inl (IdErr ''identity: recipient_key_id required'')
      else if leCreatedAt e \<le> 0 \<or> leExpiresAt e \<le> 0 \<or> leExpiresAt e < leCreatedAt e then Inl (IdErr ''identity: invalid link envelope timestamps'')
      else if leExpiresAt e - leCreatedAt e > maxDeviceLinkLifetimeSec then Inl (IdErr ''identity: link envelope lifetime too long'')
      else if Unix now > leExpiresAt e then Inl (IdErr ''identity: link envelope expired'')
      else if TrimSpace (leNonce e) = '''' then Inl (IdErr ''identity: nonce required'')
      else if TrimSpace (leCiphertext e) = '''' then Inl (IdErr ''identity: ciphertext required'')
      else if TrimSpace (leSig e) = '''' then Inl (IdErr ''identity: signature required'')
      else Inr ())"

definition Envelope_Encode :: "link_env \<Rightarrow> DeviceLinkEnvelope \<Rightarrow> string" where "Envelope_Encode env e = encodeToken ''sn4dl:'' (liEnvelope env e)"

definition DecodeDeviceLinkEnvelope :: "link_env \<Rightarrow> gotime \<Rightarrow> string \<Rightarrow> id_error + DeviceLinkEnvelope" where
  "DecodeDeviceLinkEnvelope env now s =
     rbind (tokenRaw (Some ''link envelope'') ''link envelope'' ''sn4dl:'' s) (\<lambda>raw. rbind (orCodec (liUnEnvelope env raw)) (\<lambda>e.
       if leCipher e = '''' then Inl (IdErr ''identity: not a link envelope'') else rbind (Envelope_Validate now e) (\<lambda>_. Inr e)))"

definition fingerprint16 :: "link_env \<Rightarrow> string \<Rightarrow> string" where "fingerprint16 env s = take 16 (EncodeToString (liSha env (str_bytes s)))"

text \<open>What is signed: the envelope without its signature, followed by the ciphertext.\<close>

definition sigInput :: "link_env \<Rightarrow> DeviceLinkEnvelope \<Rightarrow> bytes \<Rightarrow> bytes" where "sigInput env e ciphertext = liEnvelope env (e\<lparr>leSig := ''''\<rparr>) @ ciphertext"

definition linkEnvelope :: "link_env \<Rightarrow> Persona \<Rightarrow> string \<Rightarrow> DeviceLinkBundle \<Rightarrow> bytes \<Rightarrow> DeviceLinkEnvelope" where
  "linkEnvelope env p recipient b ciphertext =
     \<lparr>leSchema = SchemaV1, leCipher = ''age-x25519'', leSenderPub = pnSignPub p, leRecipientKeyID = ''age-x25519:'' @ fingerprint16 env recipient,
      leCreatedAt = lbCreatedAt b, leExpiresAt = lbExpiresAt b, leNonce = lbNonce b, leCiphertext = EncodeToString ciphertext, leSig = ''''\<rparr>"

definition signEnvelope :: "link_env \<Rightarrow> bytes \<Rightarrow> bytes \<Rightarrow> DeviceLinkEnvelope \<Rightarrow> DeviceLinkEnvelope" where
  "signEnvelope env priv ciphertext e = e\<lparr>leSig := EncodeToString (liSign env priv (sigInput env e ciphertext))\<rparr>"

definition EncryptDeviceLinkBundle :: "link_env \<Rightarrow> gotime \<Rightarrow> Persona \<Rightarrow> string \<Rightarrow> DeviceLinkBundle \<Rightarrow> id_error + string" where
  "EncryptDeviceLinkBundle env now p recipient0 b =
     (let recipient = TrimSpace recipient0 in
      if recipient = '''' then Inl (IdErr ''identity: recipient required'')
      else rbind (Bundle_Validate env now b) (\<lambda>_.
        if pnID (lbPersona b) \<noteq> pnID p then Inl (IdErr ''identity: bundle persona mismatch'')
        else if \<not> liRecipient env recipient then Inl (IdErr ''identity: parse age recipient'')
        else case liEncrypt env recipient (liBundle env b) of
               None \<Rightarrow> Inl (IdErr ''identity: age encrypt'')
             | Some ciphertext \<Rightarrow>
                 rbind (Persona_SignKeypair p) (\<lambda>(_, priv).
                   Inr (Envelope_Encode env (signEnvelope env priv ciphertext (linkEnvelope env p recipient b ciphertext))))))"

definition openEnvelope :: "link_env \<Rightarrow> gotime \<Rightarrow> DeviceLinkEnvelope \<Rightarrow> string \<Rightarrow> id_error + DeviceLinkBundle" where
  "openEnvelope env now e ageIdentity0 =
     (case DecodeString (leCiphertext e) of
        None \<Rightarrow> Inl (IdErr ''identity: decode ciphertext'')
      | Some ciphertext \<Rightarrow>
          (case DecodeString (leSig e) of
             None \<Rightarrow> Inl (IdErr ''identity: decode signature'')
           | Some sig \<Rightarrow>
               (case DecodeString (leSenderPub e) of
                  None \<Rightarrow> Inl (IdErr ''identity: decode sender pub'')
                | Some pub \<Rightarrow>
                    if length pub \<noteq> PublicKeySize then Inl (IdErr ''identity: invalid sender pub size'')
                    else if \<not> liVerify env pub (sigInput env e ciphertext) sig then Inl (IdErr ''identity: invalid link envelope signature'')
                    else let ageIdentity = TrimSpace ageIdentity0 in
                         if ageIdentity = '''' then Inl (IdErr ''identity: age identity required'')
                         else if \<not> liIdentity env ageIdentity then Inl (IdErr ''identity: parse age identity'')
                         else (case liDecrypt env ageIdentity ciphertext of
                                 None \<Rightarrow> Inl (IdErr ''identity: age decrypt'')
                               | Some plaintext \<Rightarrow> rbind (orCodec (liUnBundle env plaintext)) (\<lambda>b. rbind (Bundle_Validate env now b) (\<lambda>_.
                                   if pnSignPub (lbPersona b) \<noteq> leSenderPub e then Inl (IdErr ''identity: sender mismatch'')
                                   else if lbCreatedAt b \<noteq> leCreatedAt e \<or> lbExpiresAt b \<noteq> leExpiresAt e then Inl (IdErr ''identity: timestamp mismatch'')
                                   else if lbNonce b \<noteq> leNonce e then Inl (IdErr ''identity: nonce mismatch'')
                                   else Inr b))))))"

definition DecryptDeviceLink :: "link_env \<Rightarrow> gotime \<Rightarrow> string \<Rightarrow> string \<Rightarrow> id_error + DeviceLinkBundle" where
  "DecryptDeviceLink env now s ageIdentity =
     rbind (tokenRaw (Some ''link string'') ''link'' ''sn4dl:'' s) (\<lambda>raw. rbind (orCodec (liProbe env raw)) (\<lambda>cipher.
       if TrimSpace cipher = '''' then DecodeDeviceLinkBundle env now s
       else rbind (DecodeDeviceLinkEnvelope env now s) (\<lambda>e. rbind (Envelope_Validate now e) (\<lambda>_. openEnvelope env now e ageIdentity))))"

section \<open>Short authentication strings\<close>

definition pad4 :: "nat \<Rightarrow> string" where "pad4 n = (let s = dec_digits n in replicate (4 - length s) (CHR ''0'') @ s)"

definition formatSAS :: "bytes \<Rightarrow> string" where
  "formatSAS digest =
     (if length digest < 8 then ''''
      else let v = be_nat (take 8 digest) mod 1000000000000
           in pad4 (v div 100000000) @ ''-'' @ pad4 (v div 10000 mod 10000) @ ''-'' @ pad4 (v mod 10000))"

definition sasLabel :: bytes where "sasLabel = str_bytes ''sn4dl-sas-v1''"

definition sasFromEnvelope :: "link_env \<Rightarrow> gotime \<Rightarrow> DeviceLinkEnvelope \<Rightarrow> id_error + string" where
  "sasFromEnvelope env now e =
     rbind (Envelope_Validate now e) (\<lambda>_.
       case DecodeString (leSenderPub e) of
         None \<Rightarrow> Inl (IdErr ''identity: invalid sender pub'')
       | Some pub \<Rightarrow>
           (case DecodeString (leNonce e) of
              None \<Rightarrow> Inl (IdErr ''identity: invalid nonce'')
            | Some nonce \<Rightarrow>
                (case DecodeString (leCiphertext e) of
                   None \<Rightarrow> Inl (IdErr ''identity: invalid ciphertext'')
                 | Some ct \<Rightarrow> Inr (formatSAS (liSha env (sasLabel @ pub @ str_bytes (leRecipientKeyID e) @ nonce @ liSha env ct))))))"

definition sasFromBundle :: "link_env \<Rightarrow> gotime \<Rightarrow> DeviceLinkBundle \<Rightarrow> id_error + string" where
  "sasFromBundle env now b =
     rbind (Bundle_Validate env now b) (\<lambda>_.
       case DecodeString (pnSignPub (lbPersona b)) of
         None \<Rightarrow> Inl (IdErr ''identity: invalid persona pub'')
       | Some pub \<Rightarrow>
           (case DecodeString (lbNonce b) of
              None \<Rightarrow> Inl (IdErr ''identity: invalid nonce'')
            | Some nonce \<Rightarrow> Inr (formatSAS (liSha env (sasLabel @ pub @ str_bytes (jpDeviceID (lbJoinPackage b)) @ nonce)))))"

definition DeviceLinkSAS :: "link_env \<Rightarrow> gotime \<Rightarrow> string \<Rightarrow> id_error + string" where
  "DeviceLinkSAS env now s =
     (if s = '''' then Inl (IdErr ''identity: link string is empty'')
      else case DecodeDeviceLinkEnvelope env now s of
             Inr e \<Rightarrow> sasFromEnvelope env now e
           | Inl err \<Rightarrow> (case DecodeDeviceLinkBundle env now s of Inl _ \<Rightarrow> Inl err | Inr b \<Rightarrow> sasFromBundle env now b))"


section \<open>Tokens\<close>

lemma leads_append [simp]: "leads p (p @ s)"
  by (simp add: leads_def)

lemma tokenRaw_encode:
  "prefix \<noteq> '''' \<Longrightarrow> (limited \<noteq> None \<longrightarrow> length (encodeToken prefix raw) \<le> maxDeviceLinkEncodedLen \<and> length raw \<le> maxDeviceLinkRawLen) \<Longrightarrow>
   tokenRaw limited what prefix (encodeToken prefix raw) = Inr raw"
  by (auto simp: tokenRaw_def encodeToken_def)

lemma decodeSized_Inr [simp]: "decodeSized m m2 n s = Inr b \<longleftrightarrow> DecodeString s = Some b \<and> length b = n"
  by (auto simp: decodeSized_def split: option.splits)

lemma decodeKeypair_Inr [simp]:
  "decodeKeypair w a b = Inr (pub, priv) \<longleftrightarrow> DecodeString a = Some pub \<and> DecodeString b = Some priv \<and> length pub = PublicKeySize \<and> length priv = PrivateKeySize"
  by (auto simp: decodeKeypair_def split: option.splits)

lemma orCodec_Inr [simp]: "orCodec x = Inr y \<longleftrightarrow> x = Some y"
  by (auto simp: orCodec_def split: option.splits)

section \<open>Linking a device\<close>

text \<open>
  What the sealing of a link relies on: age opens what it sealed, and the codecs invert themselves, on the bundle and the envelope of this link. The signature is not empty and verifies.
\<close>

definition link_laws :: "link_env \<Rightarrow> Persona \<Rightarrow> string \<Rightarrow> string \<Rightarrow> DeviceLinkBundle \<Rightarrow> bool" where
  "link_laws env p recipient ageIdentity b \<longleftrightarrow>
     (\<forall>pub priv m. Persona_SignKeypair p = Inr (pub, priv) \<longrightarrow> liSign env priv m \<noteq> [] \<and> liVerify env pub m (liSign env priv m)) \<and>
     (\<forall>ct. liEncrypt env recipient (liBundle env b) = Some ct \<longrightarrow> ct \<noteq> [] \<and> liDecrypt env ageIdentity ct = Some (liBundle env b)) \<and>
     liIdentity env ageIdentity \<and> liUnBundle env (liBundle env b) = Some b \<and>
     (\<forall>ct pub priv. liEncrypt env recipient (liBundle env b) = Some ct \<and> Persona_SignKeypair p = Inr (pub, priv) \<longrightarrow> (let e = signEnvelope env priv ct (linkEnvelope env p recipient b ct) in liUnEnvelope env (liEnvelope env e) = Some e \<and> liProbe env (liEnvelope env e) = Some (leCipher e)))"


lemma plain_fingerprint16 [simp]: "plain (fingerprint16 env s)"
  by (simp add: fingerprint16_def)

lemma TrimSpace_age [simp]: "TrimSpace ''age-x25519'' = ''age-x25519''"
  by (simp add: TrimSpace_plain plain_char_def)

lemma Bundle_Validate_Inr:
  "Bundle_Validate env now b = Inr () \<longleftrightarrow>
     lbSchema b = SchemaV1 \<and> 0 < lbCreatedAt b \<and> lbCreatedAt b \<le> lbExpiresAt b \<and> lbExpiresAt b - lbCreatedAt b \<le> maxDeviceLinkLifetimeSec \<and> Unix now \<le> lbExpiresAt b \<and>
     TrimSpace (lbNonce b) \<noteq> [] \<and> Persona_Validate (lbPersona b) = Inr () \<and> jpPersonaID (lbJoinPackage b) = pnID (lbPersona b) \<and>
     Package_Validate env (pnSignPub (lbPersona b)) (lbJoinPackage b) = Inr ()"
  by (auto simp: Bundle_Validate_def split: if_splits)

lemma Package_Validate_Inr:
  "Package_Validate env personaPub k = Inr () \<longleftrightarrow>
     jpPersonaID k \<noteq> [] \<and> jpDeviceID k \<noteq> [] \<and> jpDevicePub k \<noteq> [] \<and> 0 < jpIssuedAt k \<and> jpTrust k = DeviceTrusted \<and> VerifyDeviceCert env personaPub (jpCert k) = Inr ()"
  by (auto simp: Package_Validate_def split: if_splits)

lemma cert_pub: "VerifyDeviceCert env personaPub c = Inr () \<Longrightarrow> TrimSpace personaPub \<noteq> []"
  by (auto simp: VerifyDeviceCert_def split: if_splits)

lemma Envelope_Validate_link:
  assumes "Bundle_Validate env now b = Inr ()" "lbPersona b = p" "ct \<noteq> []" "sig \<noteq> []"
  shows "Envelope_Validate now ((linkEnvelope env p recipient b ct)\<lparr>leSig := EncodeToString sig\<rparr>) = Inr ()"
proof -
  have "TrimSpace (pnSignPub p) \<noteq> []" using assms(1,2) cert_pub by (auto simp: Bundle_Validate_Inr Package_Validate_Inr)
  then show ?thesis using assms by (auto simp: Envelope_Validate_def linkEnvelope_def Bundle_Validate_Inr TrimSpace_plain plain_char_def)
qed

lemma link_decrypts:
  assumes laws: "link_laws env p (TrimSpace recipient) (TrimSpace ageIdentity) b"
    and enc: "EncryptDeviceLinkBundle env now p recipient b = Inr s" "lbPersona b = p"
    and t: "Bundle_Validate env t b = Inr ()" "TrimSpace ageIdentity \<noteq> []"
    and size: "\<And>raw. s = encodeToken ''sn4dl:'' raw \<Longrightarrow> length s \<le> maxDeviceLinkEncodedLen \<and> length raw \<le> maxDeviceLinkRawLen"
  shows "DecryptDeviceLink env t s ageIdentity = Inr b"
proof -
  let ?r = "TrimSpace recipient"
  obtain ct pub priv where ct: "liEncrypt env ?r (liBundle env b) = Some ct" and k: "Persona_SignKeypair p = Inr (pub, priv)"
    and s: "s = Envelope_Encode env (signEnvelope env priv ct (linkEnvelope env p ?r b ct))"
    using enc(1) by (auto simp: EncryptDeviceLinkBundle_def Let_def split: if_splits option.splits)
  define e where "e = signEnvelope env priv ct (linkEnvelope env p ?r b ct)"
  define sig where "sig = liSign env priv (sigInput env (linkEnvelope env p ?r b ct) ct)"
  have law: "sig \<noteq> []" "liVerify env pub (sigInput env (linkEnvelope env p ?r b ct) ct) sig" "ct \<noteq> []" "liDecrypt env (TrimSpace ageIdentity) ct = Some (liBundle env b)"
    "liIdentity env (TrimSpace ageIdentity)" "liUnBundle env (liBundle env b) = Some b" "liUnEnvelope env (liEnvelope env e) = Some e" "liProbe env (liEnvelope env e) = Some (leCipher e)"
    using laws ct k by (auto simp: link_laws_def Let_def e_def sig_def)
  have e: "leCipher e = ''age-x25519''" "leCiphertext e = EncodeToString ct" "leSig e = EncodeToString sig" "leSenderPub e = pnSignPub p"
    "leCreatedAt e = lbCreatedAt b" "leExpiresAt e = lbExpiresAt b" "leNonce e = lbNonce b"
    by (simp_all add: e_def signEnvelope_def linkEnvelope_def sig_def)
  have "e\<lparr>leSig := ''''\<rparr> = linkEnvelope env p ?r b ct" by (simp add: e_def signEnvelope_def linkEnvelope_def)
  then have si: "sigInput env e ct = sigInput env (linkEnvelope env p ?r b ct) ct" by (simp add: sigInput_def linkEnvelope_def)
  have s': "s = encodeToken ''sn4dl:'' (liEnvelope env e)" using s by (simp add: Envelope_Encode_def e_def)
  then have raw: "tokenRaw (Some w) w2 ''sn4dl:'' s = Inr (liEnvelope env e)" for w w2 using size by (simp add: tokenRaw_encode)
  have ev: "Envelope_Validate t e = Inr ()"
    using Envelope_Validate_link[OF t(1) enc(2) law(3,1)] by (simp add: e_def signEnvelope_def sig_def)
  have "DecodeString (pnSignPub p) = Some pub" "length pub = PublicKeySize" using k by (simp_all add: Persona_SignKeypair_def)
  then have "openEnvelope env t e ageIdentity = Inr b"
    using law t enc(2) by (simp add: openEnvelope_def e si Let_def)
  then show ?thesis using raw law(7,8) ev by (simp add: DecryptDeviceLink_def DecodeDeviceLinkEnvelope_def orCodec_def e(1))
qed


text \<open>
  Cx. A link reaches the new device: a bundle that the persona encrypts for a recipient is decrypted by that recipient to the same bundle at every time at which the bundle is still valid, if the
  token is within the limit of 64 KiB. The codecs, age and Ed25519 are assumed to invert themselves on what is sent.
\<close>

theorem device_link_roundtrip:
  assumes laws: "link_laws env p (TrimSpace recipient) (TrimSpace ageIdentity) b"
    and enc: "EncryptDeviceLinkBundle env now p recipient b = Inr s" "lbPersona b = p"
    and t: "Bundle_Validate env t b = Inr ()" "TrimSpace ageIdentity \<noteq> []"
    and size: "\<And>raw. s = encodeToken ''sn4dl:'' raw \<Longrightarrow> length s \<le> maxDeviceLinkEncodedLen \<and> length raw \<le> maxDeviceLinkRawLen"
  shows "DecryptDeviceLink env t s ageIdentity = Inr b"
  using assms by (rule link_decrypts)

text \<open>A sample: a persona with its own certificate for a device, ciphers and signatures that are constant, and codecs that know the one value they are used on.\<close>

definition samplePersona :: Persona where
  "samplePersona = \<lparr>pnID = ''p'', pnCreatedAt = 1, pnRotatedAt = 0, pnSignPub = EncodeToString (replicate 32 1), pnSignPriv = EncodeToString (replicate 64 2)\<rparr>"

definition sampleCert :: DeviceCert where
  "sampleCert = \<lparr>cePersonaID = ''p'', ceDeviceID = ''d'', ceDevicePub = EncodeToString (replicate 32 3), ceIssuedAt = 5, ceNonce = ''n'', ceSig = EncodeToString (replicate 64 1)\<rparr>"

definition samplePackage :: DeviceJoinPackage where
  "samplePackage = \<lparr>jpPersonaID = ''p'', jpDeviceID = ''d'', jpTrust = DeviceTrusted, jpDevicePub = EncodeToString (replicate 32 3), jpCert = sampleCert, jpIssuedAt = 5\<rparr>"

definition sampleBundle :: DeviceLinkBundle where
  "sampleBundle = \<lparr>lbSchema = 1, lbPersona = samplePersona, lbJoinPackage = samplePackage, lbCreatedAt = 10, lbExpiresAt = 500, lbNonce = ''n''\<rparr>"

definition baseEnv :: link_env where
  "baseEnv = \<lparr>liSign = (\<lambda>_ _. replicate 64 1), liVerify = (\<lambda>_ _ sig. sig = replicate 64 1), liSha = (\<lambda>_. replicate 32 0), liRecipient = (\<lambda>_. True), liIdentity = (\<lambda>_. True),
     liEncrypt = (\<lambda>_ _. Some [5]), liDecrypt = (\<lambda>_ _. Some [1]), liSignableOffer = (\<lambda>_. [2]), liSignableCert = (\<lambda>_. [3]), liOffer = (\<lambda>_. [4]), liUnOffer = (\<lambda>_. None),
     liRequest = (\<lambda>_. [5]), liUnRequest = (\<lambda>_. None), liPackage = (\<lambda>_. [6]), liUnPackage = (\<lambda>_. None), liBundle = (\<lambda>_. [1]), liUnBundle = (\<lambda>_. Some sampleBundle),
     liEnvelope = (\<lambda>_. [7]), liUnEnvelope = (\<lambda>_. None), liProbe = (\<lambda>_. Some ''age-x25519'')\<rparr>"

definition sampleEnvelope :: DeviceLinkEnvelope where
  "sampleEnvelope = signEnvelope baseEnv (replicate 64 2) [5] (linkEnvelope baseEnv samplePersona ''r'' sampleBundle [5])"

definition sampleEnv :: link_env where "sampleEnv = baseEnv\<lparr>liUnEnvelope := (\<lambda>_. Some sampleEnvelope)\<rparr>"

lemma sample_trims [simp]: "TrimSpace ''r'' = ''r''" "TrimSpace ''i'' = ''i''" "TrimSpace ''n'' = ''n''" "TrimSpace ''d'' = ''d''"
  by (simp_all add: TrimSpace_plain plain_char_def)

lemma sample_keypair [simp]: "Persona_SignKeypair samplePersona = Inr (replicate 32 1, replicate 64 2)"
  by (simp add: Persona_SignKeypair_def samplePersona_def decodeKeypair_def PublicKeySize_def PrivateKeySize_def)

lemma sample_package_valid [simp]: "Package_Validate sampleEnv (EncodeToString (replicate 32 1)) samplePackage = Inr ()"
  by (simp add: Package_Validate_Inr samplePackage_def VerifyDeviceCert_def decodeSized_def sampleCert_def PublicKeySize_def SignatureSize_def sampleEnv_def baseEnv_def)

lemma sample_bundle_valid: "Bundle_Validate sampleEnv (time_Unix t) sampleBundle = Inr () \<longleftrightarrow> t \<le> 500"
  by (auto simp: Bundle_Validate_Inr sampleBundle_def SchemaV1_def maxDeviceLinkLifetimeSec_def Persona_Validate_def samplePackage_def[THEN arg_cong[where f = jpPersonaID]])
     (simp_all add: samplePersona_def)

lemma sample_link_laws: "link_laws sampleEnv samplePersona ''r'' ''i'' sampleBundle"
  by (simp add: link_laws_def sampleEnv_def baseEnv_def sampleEnvelope_def signEnvelope_def linkEnvelope_def fingerprint16_def Let_def)

lemma sample_encrypts: "EncryptDeviceLinkBundle sampleEnv (time_Unix 20) samplePersona ''r'' sampleBundle = Inr (encodeToken ''sn4dl:'' [7])"
  and sample_persona: "lbPersona sampleBundle = samplePersona"
proof -
  have r: "liRecipient sampleEnv x" "liEncrypt sampleEnv x y = Some [5]" "liEnvelope sampleEnv e = [7]" for x y e by (simp_all add: sampleEnv_def baseEnv_def)
  show p: "lbPersona sampleBundle = samplePersona" by (simp add: sampleBundle_def)
  show "EncryptDeviceLinkBundle sampleEnv (time_Unix 20) samplePersona ''r'' sampleBundle = Inr (encodeToken ''sn4dl:'' [7])"
    by (simp add: EncryptDeviceLinkBundle_def sample_bundle_valid p r Envelope_Encode_def)
qed

lemma sample_size:
  assumes "encodeToken ''sn4dl:'' [7] = encodeToken ''sn4dl:'' raw"
  shows "length (encodeToken ''sn4dl:'' [7]) \<le> maxDeviceLinkEncodedLen \<and> length raw \<le> maxDeviceLinkRawLen"
proof -
  have "length (encodeToken ''sn4dl:'' [7]) \<le> 64" by code_simp
  with assms show ?thesis by (auto simp: encodeToken_def maxDeviceLinkEncodedLen_def maxDeviceLinkRawLen_def)
qed

theorem device_link_roundtrip_witness:
  "\<exists>s. EncryptDeviceLinkBundle sampleEnv (time_Unix 20) samplePersona ''r'' sampleBundle = Inr s \<and> DecryptDeviceLink sampleEnv (time_Unix 400) s ''i'' = Inr sampleBundle"
  using device_link_roundtrip[OF _ sample_encrypts sample_persona, of "''i''" "time_Unix 400"] sample_size sample_encrypts by (simp add: sample_link_laws sample_bundle_valid)

text \<open>
  Cx. What an accepted link says: the bundle is valid and not expired, lives at most ten minutes, carries a certificate that verifies under the key of its persona, and, unless the token is a bundle
  in the clear, came in an envelope with the same times and nonce that the key of the persona signed together with the ciphertext.
\<close>

theorem accepted_link_sound:
  assumes "DecryptDeviceLink env now s ageIdentity = Inr b"
  shows "Unix now \<le> lbExpiresAt b \<and> lbExpiresAt b \<le> lbCreatedAt b + 600 \<and> VerifyDeviceCert env (pnSignPub (lbPersona b)) (jpCert (lbJoinPackage b)) = Inr () \<and>
    (DecodeDeviceLinkBundle env now s = Inr b \<or>
     (\<exists>e ct pub sig. DecodeDeviceLinkEnvelope env now s = Inr e \<and> leSenderPub e = pnSignPub (lbPersona b) \<and> leCreatedAt e = lbCreatedAt b \<and> leExpiresAt e = lbExpiresAt b \<and>
        leNonce e = lbNonce b \<and> DecodeString (leCiphertext e) = Some ct \<and> DecodeString (leSig e) = Some sig \<and> DecodeString (leSenderPub e) = Some pub \<and>
        liVerify env pub (sigInput env e ct) sig))"
proof -
  have valid: "Bundle_Validate env now b = Inr ()"
    using assms by (auto simp: DecryptDeviceLink_def DecodeDeviceLinkBundle_def openEnvelope_def Let_def split: if_splits option.splits)
  moreover have "DecodeDeviceLinkBundle env now s = Inr b \<or>
     (\<exists>e ct pub sig. DecodeDeviceLinkEnvelope env now s = Inr e \<and> leSenderPub e = pnSignPub (lbPersona b) \<and> leCreatedAt e = lbCreatedAt b \<and> leExpiresAt e = lbExpiresAt b \<and>
        leNonce e = lbNonce b \<and> DecodeString (leCiphertext e) = Some ct \<and> DecodeString (leSig e) = Some sig \<and> DecodeString (leSenderPub e) = Some pub \<and>
        liVerify env pub (sigInput env e ct) sig)"
  proof (cases "DecodeDeviceLinkBundle env now s = Inr b")
    case False
    with assms obtain e where e: "DecodeDeviceLinkEnvelope env now s = Inr e" "openEnvelope env now e ageIdentity = Inr b"
      by (auto simp: DecryptDeviceLink_def split: if_splits)
    then show ?thesis by (auto simp: openEnvelope_def Let_def split: if_splits option.splits)
  qed simp
  ultimately show ?thesis by (simp add: Bundle_Validate_Inr Package_Validate_Inr maxDeviceLinkLifetimeSec_def)
qed

theorem accepted_link_sound_witness:
  "DecryptDeviceLink sampleEnv (time_Unix 400) (encodeToken ''sn4dl:'' [7]) ''i'' = Inr sampleBundle \<and> 400 \<le> lbExpiresAt sampleBundle \<and>
   VerifyDeviceCert sampleEnv (pnSignPub (lbPersona sampleBundle)) (jpCert (lbJoinPackage sampleBundle)) = Inr ()"
proof -
  have d: "DecryptDeviceLink sampleEnv (time_Unix 400) (encodeToken ''sn4dl:'' [7]) ''i'' = Inr sampleBundle"
    using link_decrypts[OF _ sample_encrypts sample_persona, of "''i''" "time_Unix 400"] sample_size by (simp add: sample_link_laws sample_bundle_valid)
  from accepted_link_sound[OF d] d show ?thesis by simp
qed

section \<open>Linked devices\<close>

lemma upsertDevice_new: "\<forall>e \<in> set ds. dvPersonaID e \<noteq> dvPersonaID d \<or> dvDeviceID e \<noteq> dvDeviceID d \<Longrightarrow> d \<in> set (upsertDevice d ds)"
  by (induction ds) auto

lemma upsertDevice_trusted:
  "dvTrust d = DeviceTrusted \<Longrightarrow>
   \<exists>e \<in> set (upsertDevice d ds). dvPersonaID e = dvPersonaID d \<and> dvDeviceID e = dvDeviceID d \<and> dvSignPub e = dvSignPub d \<and> dvTrust e = DeviceTrusted"
  by (induction ds) auto

text \<open>
  Cx. A linked device makes the state unusable: it is stored without a private key, which the validation of a device requires. After a package for a new device was taken in, the state is not valid, a
  save fails at every time and leaves the file as it was.
\<close>

theorem linked_device_unsavable:
  assumes "UpsertDeviceFromJoinPackage env now personaPub k st = Inr st1" "\<forall>d \<in> set (Devices st). dvPersonaID d \<noteq> jpPersonaID k \<or> dvDeviceID d \<noteq> jpDeviceID k"
  shows "(\<exists>e. State_Validate t st1 = Inl e) \<and> (\<exists>e. Store_Save c t nonce writable st1 s = (s, Prune t st1, Inl e))"
proof -
  define d where "d = \<lparr>dvPersonaID = jpPersonaID k, dvDeviceID = jpDeviceID k, dvCreatedAt = Unix now, dvRevokedAt = 0, dvTrust = DeviceTrusted, dvLabel = ''linked-device'',
    dvSignPub = jpDevicePub k, dvSignPriv = ''''\<rparr>"
  have d: "d \<in> set (Devices st1)" using assms upsertDevice_new[of "Devices st" d] by (auto simp: UpsertDeviceFromJoinPackage_def d_def)
  have "DecodeString '''' = Some []" by code_simp
  then have "Device_SignKeypair d \<noteq> Inr x" for x by (cases x) (simp add: d_def Device_SignKeypair_def PrivateKeySize_def)
  then have bad: "Device_Validate d \<noteq> Inr ()" by (auto simp: Device_Validate_def split: DeviceTrust.splits)
  have "State_Validate t st1 \<noteq> Inr ()" "State_Validate t (Prune t st1) \<noteq> Inr ()" using d bad unfolding State_Validate_Inr Prune_fields by blast+
  then obtain e e2 where "State_Validate t st1 = Inl e" "State_Validate t (Prune t st1) = Inl e2" by (metis old.unit.exhaust sum.exhaust)
  then show ?thesis by (simp add: Store_Save_def saveSealed_def Let_def)
qed

lemma sample_upsert: "\<exists>st1. UpsertDeviceFromJoinPackage sampleEnv (time_Unix 20) (EncodeToString (replicate 32 1)) samplePackage sampleState = Inr st1"
  by (simp add: UpsertDeviceFromJoinPackage_def)

theorem linked_device_unsavable_witness:
  "\<exists>st1. UpsertDeviceFromJoinPackage sampleEnv (time_Unix 20) (EncodeToString (replicate 32 1)) samplePackage sampleState = Inr st1 \<and> (\<exists>e. State_Validate (time_Unix 20) st1 = Inl e)"
proof -
  obtain st1 where u: "UpsertDeviceFromJoinPackage sampleEnv (time_Unix 20) (EncodeToString (replicate 32 1)) samplePackage sampleState = Inr st1" using sample_upsert by blast
  have "Devices sampleState = []" by (simp add: sampleState_def)
  with linked_device_unsavable[OF u] u show ?thesis by simp
qed

text \<open>
  Cx. A certificate does not bind the package: if a package is taken in, then so is the package with any other device name and any other device key in its place and the same certificate, and that
  key is stored as the trusted key of that device.
\<close>

theorem package_cert_unbound:
  assumes "UpsertDeviceFromJoinPackage env now personaPub k st = Inr st1" "name \<noteq> ''''" "key \<noteq> ''''"
  shows "\<exists>st2. UpsertDeviceFromJoinPackage env now personaPub (k\<lparr>jpDeviceID := name, jpDevicePub := key\<rparr>) st = Inr st2 \<and>
    (\<exists>d \<in> set (Devices st2). dvPersonaID d = jpPersonaID k \<and> dvDeviceID d = name \<and> dvSignPub d = key \<and> dvTrust d = DeviceTrusted)"
proof -
  have "Package_Validate env personaPub (k\<lparr>jpDeviceID := name, jpDevicePub := key\<rparr>) = Inr ()"
    using assms by (auto simp: UpsertDeviceFromJoinPackage_def Package_Validate_Inr)
  then show ?thesis
    using upsertDevice_trusted[of "\<lparr>dvPersonaID = jpPersonaID k, dvDeviceID = name, dvCreatedAt = Unix now, dvRevokedAt = 0, dvTrust = DeviceTrusted, dvLabel = ''linked-device'', dvSignPub = key, dvSignPriv = ''''\<rparr>" "Devices st"]
    by (simp add: UpsertDeviceFromJoinPackage_def)
qed

theorem package_cert_unbound_witness:
  "\<exists>st2. UpsertDeviceFromJoinPackage sampleEnv (time_Unix 20) (EncodeToString (replicate 32 1)) (samplePackage\<lparr>jpDeviceID := ''x'', jpDevicePub := ''y''\<rparr>) sampleState = Inr st2 \<and>
     (\<exists>d. d \<in> set (Devices st2) \<and> dvDeviceID d = ''x'' \<and> dvSignPub d = ''y'')"
proof -
  obtain st1 where u: "UpsertDeviceFromJoinPackage sampleEnv (time_Unix 20) (EncodeToString (replicate 32 1)) samplePackage sampleState = Inr st1" using sample_upsert by blast
  from package_cert_unbound[OF u, of "''x''" "''y''"] show ?thesis by auto
qed


section \<open>Offers and short strings\<close>

text \<open>
  Cx. Offers arrive: the token of an offer that a persona with a name made after 1970 is decoded to the same offer at every time up to its expiry, and such an offer names the persona, its key and the pre-key. Ed25519 is assumed to verify
  its own signatures of 64 bytes and the codec to invert itself on the offer.
\<close>

theorem offer_roundtrip:
  assumes "newContactOffer env now (Some rid) (Some rnonce) p preKeyPub mailbox hints ttl version = Inr f" "version = OfferV1 \<or> version = OfferV2" "pnID p \<noteq> ''''" "rid \<noteq> []" "rnonce \<noteq> []"
    "0 < Unix now" "Unix t \<le> ofExpiresAt f" "liUnOffer env (liOffer env f) = Some f"
    "\<And>pub priv m. Persona_SignKeypair p = Inr (pub, priv) \<Longrightarrow> length (liSign env priv m) = SignatureSize \<and> liVerify env pub m (liSign env priv m)"
  shows "DecodeContactOffer env t (Offer_Encode env f) = Inr f \<and> ofPersonaID f = pnID p \<and> ofPersonaPub f = pnSignPub p \<and> ofPreKeyPub f = preKeyPub"
proof -
  obtain pub priv where k: "Persona_SignKeypair p = Inr (pub, priv)" using assms(1) by (auto simp: newContactOffer_def Let_def)
  define o1 where "o1 = draftOffer now p (EncodeToString rid) (EncodeToString rnonce) preKeyPub mailbox hints ttl version"
  have f: "f = o1\<lparr>ofSignature := EncodeToString (liSign env priv (liSignableOffer env o1))\<rparr>"
    and c: "preKeyPub \<noteq> ''''" "version = OfferV2 \<longrightarrow> mailbox \<noteq> ''''" "\<exists>b. DecodeString preKeyPub = Some b \<and> length b = 32"
    using assms(1) k by (auto simp: newContactOffer_def randomID_def Let_def o1_def split: if_splits)
  have d: "ofSignature o1 = ''''" "ofVersion o1 = version" "ofOfferID o1 = EncodeToString rid" "ofPersonaID o1 = pnID p" "ofPersonaPub o1 = pnSignPub p" "ofPreKeyPub o1 = preKeyPub"
    "ofMailbox o1 = mailbox" "ofNonce o1 = EncodeToString rnonce" "ofCreatedAt o1 = Unix now" by (simp_all add: o1_def draftOffer_def)
  have x: "Unix now \<le> ofExpiresAt o1" by (simp add: o1_def draftOffer_def Unix_def second_def zdiv_mono1)
  have o1: "f\<lparr>ofSignature := ''''\<rparr> = o1" using f d(1) by simp
  have pub: "DecodeString (pnSignPub p) = Some pub" "length pub = PublicKeySize" using k by (simp_all add: Persona_SignKeypair_def)
  moreover have "pnSignPub p \<noteq> ''''" using pub by (auto simp: PublicKeySize_def DecodeString_def)
  moreover have sig: "length (liSign env priv m) = SignatureSize" "liVerify env pub m (liSign env priv m)" "liSign env priv m \<noteq> []" for m using assms(9)[OF k, of m] by (auto simp: SignatureSize_def)
  ultimately have "Offer_Validate env t f = Inr ()"
    unfolding Offer_Validate_def o1 using assms(2-7) c x by (auto simp: f d decodeSized_def)
  then show ?thesis using assms(8) f d by (simp add: DecodeContactOffer_def Offer_Encode_def tokenRaw_encode)
qed


definition sampleOffer :: ContactOffer where
  "sampleOffer = (draftOffer (time_Unix 20) samplePersona (EncodeToString [8]) (EncodeToString [9]) (EncodeToString (replicate 32 4)) ''m'' [] second OfferV2)
     \<lparr>ofSignature := EncodeToString (replicate 64 1)\<rparr>"

theorem offer_roundtrip_witness:
  "newContactOffer (baseEnv\<lparr>liUnOffer := \<lambda>_. Some sampleOffer\<rparr>) (time_Unix 20) (Some [8]) (Some [9]) samplePersona (EncodeToString (replicate 32 4)) ''m'' [] second OfferV2 = Inr sampleOffer \<and>
   DecodeContactOffer (baseEnv\<lparr>liUnOffer := \<lambda>_. Some sampleOffer\<rparr>) (time_Unix 21) (Offer_Encode (baseEnv\<lparr>liUnOffer := \<lambda>_. Some sampleOffer\<rparr>) sampleOffer) = Inr sampleOffer"
proof -
  let ?env = "baseEnv\<lparr>liUnOffer := \<lambda>_. Some sampleOffer\<rparr>"
  have n: "newContactOffer ?env (time_Unix 20) (Some [8]) (Some [9]) samplePersona (EncodeToString (replicate 32 4)) ''m'' [] second OfferV2 = Inr sampleOffer"
    by (simp add: newContactOffer_def decodeSized_def randomID_def sampleOffer_def baseEnv_def Let_def)
  have "Unix (time_Unix 20 + second) = 21" by (simp add: Unix_def time_Unix_def second_def unix_offset_def)
  then have x: "ofExpiresAt sampleOffer = 21" by (simp add: sampleOffer_def draftOffer_def second_def)
  have l: "length (liSign baseEnv q m) = SignatureSize" "liVerify baseEnv pub m (liSign baseEnv q m)" for q m pub
    by (simp_all add: baseEnv_def SignatureSize_def)
  have "pnID samplePersona \<noteq> ''''" by (simp add: samplePersona_def)
  with offer_roundtrip[OF n, of "time_Unix 21"] n show ?thesis by (simp add: x l)
qed

lemma dec_digits_length: "n < 10 ^ k \<Longrightarrow> 0 < k \<Longrightarrow> length (dec_digits n) \<le> k"
proof (induction n arbitrary: k rule: dec_digits.induct)
  case (1 n)
  show ?case
  proof (cases "n < 10")
    case False
    then have "k \<noteq> 1" using 1(2) by auto
    then obtain j where j: "k = Suc j" "0 < j" using 1(3) by (cases k) auto
    then have "n div 10 < 10 ^ j" using 1(2) by (simp add: less_mult_imp_div_less mult.commute)
    then show ?thesis using 1(1)[OF False, of j] j False by (subst dec_digits.simps) simp
  qed (use 1(3) in \<open>subst dec_digits.simps, simp\<close>)
qed


text \<open>A short string is three groups of four digits.\<close>

lemma pad4_length: "n < 10000 \<Longrightarrow> length (pad4 n) = 4"
  using dec_digits_length[of n 4] by (simp add: pad4_def Let_def)

theorem sas_shape: "length digest \<ge> 8 \<Longrightarrow> \<exists>a b c. formatSAS digest = a @ ''-'' @ b @ ''-'' @ c \<and> length a = 4 \<and> length b = 4 \<and> length c = 4"
proof -
  define v where "v = be_nat (take 8 digest) mod 1000000000000"
  have "v div 100000000 < 10000" unfolding v_def by (simp add: less_mult_imp_div_less)
  then have l: "length (pad4 (v div 100000000)) = 4" "length (pad4 (v div 10000 mod 10000)) = 4" "length (pad4 (v mod 10000)) = 4" by (simp_all add: pad4_length)
  assume "length digest \<ge> 8"
  then have "formatSAS digest = pad4 (v div 100000000) @ ''-'' @ pad4 (v div 10000 mod 10000) @ ''-'' @ pad4 (v mod 10000)" by (simp add: formatSAS_def v_def Let_def)
  with l show ?thesis by blast
qed

end
