(* ===== verification/Spec2Isabelle.thy ===== *)
theory Spec2Isabelle
  imports Import_Control Proxy_Failover BLE_Mesh Mesh_Router Ledger_Store Sync_Relay Relay_Server Relay_Client Identity_Links
begin

text \<open>
  Verification of the Go core of SunLionet, a tool that distributes signed configuration bundles to users behind a censored network, moves
  them as erasure-coded chunks and over a mesh of nearby devices, switches between local proxies, and keeps a replicated ledger of signed
  events (identities, group membership, witness statements, evidence of misbehaviour).

  \<^bold>\<open>Parts of the program and how they interact.\<close> A publisher generates a bundle (\<^verbatim>\<open>pkg/bundle\<close>): a header, an age-encrypted payload and an Ed25519
  signature. The importer (\<^verbatim>\<open>pkg/importctl\<close>) reads it from bytes, an URI, a file or text lines of chunks, selects the signer by key identifier,
  asks the trust state whether the signer is revoked, verifies the bundle and reserves and commits it against replays. Trust updates signed
  by a threshold of root keys change the trust state. Chunks are made and put together by the erasure engine over GF(256). Bundles and
  messages travel over the proximity mesh (\<^verbatim>\<open>core/proximity\<close>): frames, reassembly, replay protection, flood guard, neighbour scores, cache and
  the router that uses all of them. The failover engine (\<^verbatim>\<open>pkg/proxycore\<close>) starts and stops proxies behind a kill switch. The ledger
  (\<^verbatim>\<open>pkg/ledger\<close>) stores signed events of authors that number them, detects equivocation, counts the statements of witnesses and
  builds and applies the messages of a synchronisation. The service of \<^verbatim>\<open>pkg/ledgersync\<close> exchanges these messages: over the mesh, sealed for one
  peer, and over relays, sealed for a recipient and layered for hops; a scheduler queues received events by priority and peer, and a security layer scores,
  defers and quarantines peers. A relay (\<^verbatim>\<open>pkg/relay\<close>) keeps envelopes (\<^verbatim>\<open>pkg/messaging\<close>) in mailboxes, in memory or in files, behind an HTTP server
  with authentication, rates and proof of work; pollers and shaped senders are its clients.

  \<^bold>\<open>Theories and sources.\<close>
  \<^item> \<open>Go_Prelude\<close>, \<open>Go_Strings\<close>, \<open>Go_Base64\<close>, \<open>Go_Json\<close>: what the sources use of Go: results, wrapping integers, durations and times, loops with
    errors, \<^verbatim>\<open>strings\<close>, \<^verbatim>\<open>strconv\<close>, unpadded base64url, JSON strings; the locale \<open>state_machine\<close> (an invariant that every operation keeps holds
    after every sequence of operations), which the components interpret.
  \<^item> \<open>GF256\<close>, \<open>Erasure_Matrix\<close>, \<open>Chunk_Engine\<close>: \<^verbatim>\<open>pkg/bundle/chunk_engine.go\<close> (\<^verbatim>\<open>gfMul\<close> to \<^verbatim>\<open>ChunkReassembler\<close>). The bytes of GF(256) are words;
    the laws of the field are a locale interpreted on \<open>gfMul\<close>, and the inversion of the coding matrix is proved from them.
  \<^item> \<open>Trust_State\<close>: \<^verbatim>\<open>pkg/importctl/revocation.go\<close>. \<open>Bundle_Verify\<close>: \<^verbatim>\<open>pkg/bundle/verify.go\<close>, \<^verbatim>\<open>crypto.go\<close>. \<open>Import_Control\<close>: \<^verbatim>\<open>import.go\<close> and
    \<^verbatim>\<open>replay_store.go\<close>.
  \<^item> \<open>Proxy_Failover\<close>: \<^verbatim>\<open>pkg/proxycore/failover.go\<close> and the interfaces of \<^verbatim>\<open>core_interface.go\<close>. \<open>BLE_Mesh\<close>: \<^verbatim>\<open>pkg/mobilebridge/ble_mesh.go\<close>.
  \<^item> \<open>Mesh_Prelude\<close>, \<open>Mesh_Cache\<close>, \<open>Mesh_Replay\<close>, \<open>Mesh_Guard\<close>, \<open>Mesh_Scoring\<close>, \<open>Mesh_Wire\<close>, \<open>Mesh_Reassembly\<close>, \<open>Mesh_Router\<close>: the packages of
    \<^verbatim>\<open>core/proximity\<close>.
  \<^item> \<open>Ledger_Event\<close>: \<^verbatim>\<open>pkg/ledger/types.go\<close>, \<^verbatim>\<open>canonical.go\<close>, \<^verbatim>\<open>kinds.go\<close>, \<^verbatim>\<open>policy.go\<close>. \<open>Ledger_State\<close>: \<^verbatim>\<open>ledger.go\<close>, \<^verbatim>\<open>mvp_api.go\<close>, with the invariant of the
    ledger. \<open>Ledger_Signed\<close>, \<open>Ledger_Safety\<close>: the properties of the ledger. \<open>Ledger_Store\<close>: \<^verbatim>\<open>store.go\<close> and the range query. \<open>Ledger_Sync\<close>: \<^verbatim>\<open>sync.go\<close>.
  \<^item> \<open>Sync_Options\<close>, \<open>Sync_Scheduler\<close>, \<open>Sync_Service\<close>: \<^verbatim>\<open>pkg/ledgersync/service.go\<close> (options and wire messages, the scheduler, the service over the mesh).
    \<open>Sync_Security\<close>: \<^verbatim>\<open>security.go\<close>. \<open>Mesh_Crypto\<close>: \<^verbatim>\<open>pkg/mesh/crypto.go\<close>. \<open>Sync_Safety\<close>: the properties of the service. \<open>Sync_Relay\<close>: the functions of
    \<^verbatim>\<open>service.go\<close> that use a relay (from \<^verbatim>\<open>EncodeForRelay\<close> on).
  \<^item> \<open>Relay_Envelope\<close>: \<^verbatim>\<open>pkg/messaging\<close>. \<open>Relay_Types\<close>: \<^verbatim>\<open>pkg/relay/types.go\<close>. \<open>Relay_Store\<close>: \<^verbatim>\<open>memory.go\<close> and \<^verbatim>\<open>file_relay.go\<close>, with the contract of a relay as
    the locale \<open>mailbox_relay\<close>, interpreted on both. \<open>Relay_Server\<close>: \<^verbatim>\<open>http_server.go\<close>, \<^verbatim>\<open>http_client.go\<close>. \<open>Relay_Client\<close>: \<^verbatim>\<open>relay.go\<close> (the poller) and \<^verbatim>\<open>sender.go\<close>.

  \<^bold>\<open>State and operations.\<close> A struct is a record with the source's fields, an operation of the source a definition of the same name that returns
  the changed record, and an error a value of a sum type. Loops are structural recursion or have a termination proof; the one loop of the
  ledger that need not end is a \<open>partial_function\<close> whose \<open>None\<close> is not returning. A Go map is a finite map, a function or an association list
  with distinct keys, whichever the operations need; where the code iterates a map and the order matters, the order is an argument. Nested
  maps of the ledger are flattened to maps of tuples. The router, the reassemblers, the importer, the trust state and the ledger are state machines
  whose steps are these operations; theorems about histories quantify over all sequences of steps.

  \<^bold>\<open>What the lemmas show.\<close>
  \<^item> Chunks: any n distinct chunks of an encoding give the payload back, and the exact bounds up to which this holds; the reassembler delivers
    exactly with the n-th chunk and only what a header announced.
  \<^item> Trust and import: accepted updates are authorised by a threshold of roots, revocations are permanent and effective, accepted bundles are
    signed, fresh, unrevoked and no replay, also over a restart; generated bundles and blocks are accepted.
  \<^item> Failover: failing closed, the first viable proxy is selected, the exception for a cancelled context.
  \<^item> Mesh: what is delivered was received, is valid and is delivered once per window; messages survive chunking, loss of order and repetition;
    the rate, replay window, quarantine and cache refine their specifications.
  \<^item> Ledger: numbers of an author are unique in every reachable ledger, nothing stored is changed, equivocation is detected, confirmation counts
    exactly the uncompromised witnesses, an identifier binds the content, the fast paths (verified application, batch application with a
    cache) are equal to the plain ones, the heads kept step by step are those of the events, a ledger survives save and load, and the messages
    of a sender fit the limits of a receiver. Several theorems state where the code does not do this.
  \<^item> Synchronisation: whatever peers and relays send, the ledger stays intact and holds only signed events; every call returns; the scheduler stays within its limits
    and serves critical events; selected peers respect the roles, penalties and quarantines; normalised options are in their ranges.
  \<^item> Relays: quotas hold over every history and every failure of the file system, a pushed message is delivered in its time and an acknowledged one never again,
    nothing gets past the guards of the server, layers are peeled hop by hop, forwarding loses nothing, the poller acknowledges exactly what was handled and the
    sender answers its callers once and in order.

  \<^bold>\<open>Parameters.\<close> Ed25519, X25519, NaCl boxes, XChaCha20-Poly1305, SHA-256, HMAC, BLAKE2s, AES-GCM, age and the JSON codecs of structs are arguments of the definitions; where a theorem needs
  that a cipher or codec inverts itself, that a signature verifies or that a hash does not collide, this is a hypothesis with a witness that
  instantiates it. \<open>time.Now\<close> is read once per call (\<open>now\<close>); random draws are arguments; amounts of type \<^verbatim>\<open>float64\<close> are exact rationals.
  The file system of the file relay is a map from names to entries, and each of its calls may fail (\<open>push_io\<close>). The search for a proof of work is bounded by the
  250000 rounds of the source. The resumption of a BLE transfer is bounded by the number of chunks, which is enough because each turn marks a missing one.

  \<^bold>\<open>Not modelled.\<close> The command line programs, the mobile facades, the agents around language models, the Android application, the web site and scripts
are glue, user interface or input and output; the transports of the mesh and the sing-box adapter only call the operating system. Goroutines
  and locks are not modelled as such: every operation that holds its lock for its whole body is one step, and what happens between steps is an argument or an arbitrary
  sequence of steps. Chat, the application shell around it and the policies for choosing profiles are not modelled.
\<close>

end
